(* ===== verification/Prelude.thy ===== *)
theory Prelude
  imports Main "HOL-Library.Word"
begin

text \<open>
  Shared vocabulary of the development: the machine types of the C++ code, \<open>size_t\<close>
  arithmetic with its wrap-around and its checked variants, byte spans as lists, and the
  list and word lemmas that several components use.

  A \<open>ByteSpan\<close> is the list of its bytes; \<open>span.subspan(o, n)\<close> is \<open>subspan o n\<close>. A value of
  type \<open>size_t\<close> is a \<open>nat\<close>; where the code computes without a check and could exceed
  \<open>SIZE_MAX\<close>, the reduction modulo \<open>2 ^ 64\<close> is written out. A value that is read as a bit
  pattern (\<open>uint64_t\<close> scalars, CRC registers, hash lanes) is a word of its width.
\<close>

unbundle bit_operations_syntax

type_synonym u8 = "8 word"
type_synonym u16 = "16 word"
type_synonym u32 = "32 word"
type_synonym u64 = "64 word"
type_synonym bytes = "u8 list"

named_theorems span_simps \<open>lengths, slices and updates of byte spans\<close>
named_theorems bits_simps \<open>bits of words, shifts and byte lists\<close>
named_theorems status_simps \<open>unfolding of checks that return a status\<close>

subsection \<open>\<open>size_t\<close> arithmetic\<close>

definition SIZE_MAX :: nat where
  "SIZE_MAX = 2 ^ 64 - 1"

definition wrap_size :: "nat \<Rightarrow> nat" where
  "wrap_size n = n mod 2 ^ 64"

lemma wrap_size_id [simp]: "n < 2 ^ 64 \<Longrightarrow> wrap_size n = n"
  by (simp add: wrap_size_def)

lemma wrap_size_less: "wrap_size n < 2 ^ 64"
  by (simp add: wrap_size_def)

subsection \<open>Spans\<close>

definition subspan :: "nat \<Rightarrow> nat \<Rightarrow> 'a list \<Rightarrow> 'a list" where
  "subspan off n xs = take n (drop off xs)"

lemma length_subspan [span_simps]: "length (subspan off n xs) = min n (length xs - off)"
  by (simp add: subspan_def)

lemma subspan_0 [simp]: "subspan off 0 xs = []"
  by (simp add: subspan_def)

lemma subspan_all: "subspan 0 (length xs) xs = xs"
  by (simp add: subspan_def)

lemma subspan_append_left:
  "off + n \<le> length xs \<Longrightarrow> subspan off n (xs @ ys) = subspan off n xs"
  by (simp add: subspan_def)

lemma subspan_append_right:
  "length xs \<le> off \<Longrightarrow> subspan off n (xs @ ys) = subspan (off - length xs) n ys"
  by (simp add: subspan_def)

lemma subspan_drop: "subspan off n (drop k xs) = subspan (k + off) n xs"
  by (simp add: subspan_def add.commute)

lemma subspan_take: "off + n \<le> k \<Longrightarrow> subspan off n (take k xs) = subspan off n xs"
  by (simp add: subspan_def drop_take min_def)

lemma nth_subspan: "i < n \<Longrightarrow> off + i < length xs \<Longrightarrow> subspan off n xs ! i = xs ! (off + i)"
  by (simp add: subspan_def)

lemma subspan_adjacent: "subspan off m xs @ subspan (off + m) n xs = subspan off (m + n) xs"
  by (simp add: subspan_def take_add add.commute)

text \<open>\<open>blit off ys xs\<close> is \<open>xs\<close> after \<open>memcpy(xs.data() + off, ys.data(), ys.size())\<close>.\<close>

definition blit :: "nat \<Rightarrow> 'a list \<Rightarrow> 'a list \<Rightarrow> 'a list" where
  "blit off ys xs = take off xs @ ys @ drop (off + length ys) xs"

lemma length_blit [span_simps]:
  "off + length ys \<le> length xs \<Longrightarrow> length (blit off ys xs) = length xs"
  by (simp add: blit_def)

lemma take_blit: "k \<le> off \<Longrightarrow> off \<le> length xs \<Longrightarrow> take k (blit off ys xs) = take k xs"
  by (simp add: blit_def min_def)

lemma take_blit_end:
  "off + length ys \<le> length xs \<Longrightarrow>
   take (off + length ys) (blit off ys xs) = take off xs @ ys"
  by (simp add: blit_def)

lemma subspan_blit_same:
  "off + length ys \<le> length xs \<Longrightarrow> subspan off (length ys) (blit off ys xs) = ys"
  by (simp add: blit_def subspan_def)

lemma blit_Nil [simp]: "off \<le> length xs \<Longrightarrow> blit off [] xs = xs"
  by (simp add: blit_def)

lemma nth_blit:
  "off + length ys \<le> length xs \<Longrightarrow> i < length xs \<Longrightarrow>
   blit off ys xs ! i = (if off \<le> i \<and> i < off + length ys then ys ! (i - off) else xs ! i)"
  by (auto simp: blit_def nth_append min_def)

subsection \<open>Bits of words\<close>

lemma bit_u64_ucast_u8 [bits_simps]:
  "bit (ucast (b :: u8) :: u64) n \<longleftrightarrow> n < 8 \<and> bit b n"
  by (auto simp: bit_ucast_iff dest: bit_imp_le_length)

lemma bit_push_u64 [bits_simps]:
  "bit (push_bit k (w :: u64)) n \<longleftrightarrow> k \<le> n \<and> n < 64 \<and> bit w (n - k)"
  by (auto simp: bit_push_bit_iff)

lemma bit_u8_ucast_u64 [bits_simps]:
  "bit (ucast (w :: u64) :: u8) n \<longleftrightarrow> n < 8 \<and> bit w n"
  by (auto simp: bit_ucast_iff)

subsection \<open>Words as natural numbers\<close>

lemma unat_word_of_nat: "n < 2 ^ LENGTH('a) \<Longrightarrow> unat (word_of_nat n :: 'a::len word) = n"
  by (simp add: unsigned_of_nat take_bit_nat_eq_self)

lemma unat_ucast_up:
  "LENGTH('a) \<le> LENGTH('b) \<Longrightarrow> unat (ucast (w :: 'a::len word) :: 'b::len word) = unat w"
proof -
  assume le: "LENGTH('a) \<le> LENGTH('b)"
  have "unat w < 2 ^ LENGTH('a)" by simp
  also have "\<dots> \<le> (2 :: nat) ^ LENGTH('b)" using le by simp
  finally show ?thesis by (simp add: unsigned_ucast_eq take_bit_nat_eq_self)
qed

lemma unat_ucast_u8_u32 [simp]: "unat (ucast (b :: u8) :: u32) = unat b"
  by (simp add: unat_ucast_up)

lemma unat_ucast_u8_u64 [simp]: "unat (ucast (b :: u8) :: u64) = unat b"
  by (simp add: unat_ucast_up)

lemma unat_u8_less: "unat (b :: u8) < 256"
  using unsigned_less [of b] by simp

lemma unat_u64_less: "unat (w :: u64) < 2 ^ 64"
  using unsigned_less [of w] by simp

lemma word_of_unat: "unat (x :: 'a::len word) = n \<Longrightarrow> x = word_of_nat n"
  by auto

subsection \<open>Results\<close>

text \<open>\<open>StatusOr<T>\<close> is a sum; \<open>bind_res\<close> is the early return of a failed status.\<close>

definition bind_res :: "'e + 'a \<Rightarrow> ('a \<Rightarrow> 'e + 'b) \<Rightarrow> 'e + 'b" where
  "bind_res m k = (case m of Inl e \<Rightarrow> Inl e | Inr a \<Rightarrow> k a)"

lemma bind_res_simps [simp]: "bind_res (Inl e) k = Inl e" "bind_res (Inr a) k = k a"
  by (simp_all add: bind_res_def)

lemma bind_res_Inr_iff [status_simps]:
  "bind_res m k = Inr b \<longleftrightarrow> (\<exists>a. m = Inr a \<and> k a = Inr b)"
  by (cases m) simp_all

lemma bind_res_Inl_iff:
  "bind_res m k = Inl e \<longleftrightarrow> m = Inl e \<or> (\<exists>a. m = Inr a \<and> k a = Inl e)"
  by (cases m) simp_all

lemma bind_res_cong [fundef_cong]:
  "m = m' \<Longrightarrow> (\<And>a. m' = Inr a \<Longrightarrow> k a = k' a) \<Longrightarrow> bind_res m k = bind_res m' k'"
  by (cases m') simp_all

lemma if_Inr_iff [status_simps]:
  "(if c then Inl e else m) = Inr b \<longleftrightarrow> \<not> c \<and> m = Inr b"
  by simp

end
