(* ===== verification/Core_Types.thy ===== *)
theory Core_Types
  imports Prelude
begin

text \<open>
  The shared enumerations of \<open>upr_core/core/types.hpp\<close>, the status codes of
  \<open>utils/status.hpp\<close>, and the authoring-time schema model of
  \<open>upr_authoring/pdl/protocol_definition.hpp\<close>. Record fields carry a short prefix of
  their struct (\<open>fd_\<close> for \<open>FieldDefinition\<close>, \<open>bfd_\<close> for \<open>BitFieldDefinition\<close>, and so on)
  because Isabelle record selectors are global.
\<close>

subsection \<open>Enumerations of the core package\<close>

datatype byte_order = LittleEndian | BigEndian

datatype string_encoding = Ascii | Utf8

datatype field_kind =
    KUnsigned | KSigned | KFloat32 | KFloat64 | KBytes | KString | KStruct | KEnum
  | KCollection | KVariant

type_synonym field_id = nat
type_synonym bit_field_id = nat

record enum_value_definition =
  ev_value :: u64
  ev_name :: string

definition kBitsPerByte :: nat where "kBitsPerByte = 8"
definition kMaxFieldsPerMessage :: nat where "kMaxFieldsPerMessage = 64"
definition kMaxBitFieldsPerMessage :: nat where "kMaxBitFieldsPerMessage = 64"

fun byte_order_to_string :: "byte_order \<Rightarrow> string" where
  "byte_order_to_string LittleEndian = ''little_endian''"
| "byte_order_to_string BigEndian = ''big_endian''"

fun field_kind_to_string :: "field_kind \<Rightarrow> string" where
  "field_kind_to_string KUnsigned = ''unsigned''"
| "field_kind_to_string KSigned = ''signed''"
| "field_kind_to_string KFloat32 = ''float32''"
| "field_kind_to_string KFloat64 = ''float64''"
| "field_kind_to_string KBytes = ''bytes''"
| "field_kind_to_string KString = ''string''"
| "field_kind_to_string KStruct = ''struct''"
| "field_kind_to_string KEnum = ''enum''"
| "field_kind_to_string KCollection = ''collection''"
| "field_kind_to_string KVariant = ''variant''"

fun string_encoding_to_string :: "string_encoding \<Rightarrow> string" where
  "string_encoding_to_string Ascii = ''ascii''"
| "string_encoding_to_string Utf8 = ''utf8''"

text \<open>
  The numeric value of an enumerator, as \<open>static_cast\<close> to the underlying type reads it: the
  position in the declaration.
\<close>

fun byte_order_index :: "byte_order \<Rightarrow> nat" where
  "byte_order_index LittleEndian = 0"
| "byte_order_index BigEndian = 1"

fun string_encoding_index :: "string_encoding \<Rightarrow> nat" where
  "string_encoding_index Ascii = 0"
| "string_encoding_index Utf8 = 1"

fun field_kind_index :: "field_kind \<Rightarrow> nat" where
  "field_kind_index KUnsigned = 0"
| "field_kind_index KSigned = 1"
| "field_kind_index KFloat32 = 2"
| "field_kind_index KFloat64 = 3"
| "field_kind_index KBytes = 4"
| "field_kind_index KString = 5"
| "field_kind_index KStruct = 6"
| "field_kind_index KEnum = 7"
| "field_kind_index KCollection = 8"
| "field_kind_index KVariant = 9"

subsection \<open>Status codes\<close>

datatype status_code =
    SC_Ok | SC_InvalidArgument | SC_NotFound | SC_SchemaError | SC_DecodeError | SC_IoError
  | SC_Exhausted

fun status_code_to_string :: "status_code \<Rightarrow> string" where
  "status_code_to_string SC_Ok = ''ok''"
| "status_code_to_string SC_InvalidArgument = ''invalid_argument''"
| "status_code_to_string SC_NotFound = ''not_found''"
| "status_code_to_string SC_SchemaError = ''schema_error''"
| "status_code_to_string SC_DecodeError = ''decode_error''"
| "status_code_to_string SC_IoError = ''io_error''"
| "status_code_to_string SC_Exhausted = ''exhausted''"

subsection \<open>Authoring-time schema model\<close>

record import_definition =
  imp_path :: string

record bit_field_definition =
  bfd_name :: string
  bfd_offset_bits :: nat
  bfd_width_bits :: nat
  bfd_is_signed :: bool
  bfd_enum_values :: "enum_value_definition list"

record checksum_definition =
  ckd_algorithm :: string
  ckd_from :: string
  ckd_to :: string

record condition_definition =
  cnd_field :: string
  cnd_equals_unsigned :: u64

record presence_definition =
  prd_field :: string
  prd_bit_index :: nat

datatype validation_operator = OpEq | OpNe | OpLt | OpLe | OpGt | OpGe

fun validation_operator_index :: "validation_operator \<Rightarrow> nat" where
  "validation_operator_index OpEq = 0"
| "validation_operator_index OpNe = 1"
| "validation_operator_index OpLt = 2"
| "validation_operator_index OpLe = 3"
| "validation_operator_index OpGt = 4"
| "validation_operator_index OpGe = 5"

record validation_rule_definition =
  vrd_field :: string
  vrd_op :: validation_operator
  vrd_other_field :: string
  vrd_compare_to_field :: bool
  vrd_value :: u64
  vrd_multiplier :: u64
  vrd_when :: "condition_definition option"

record variant_case_definition =
  vcd_tag_value :: u64
  vcd_referenced_type :: string

record enum_definition =
  end_name :: string
  end_width_bytes :: nat
  end_byte_order :: byte_order
  end_values :: "enum_value_definition list"

record field_definition =
  fd_name :: string
  fd_kind :: field_kind
  fd_width_bytes :: nat
  fd_byte_order :: byte_order
  fd_string_encoding :: string_encoding
  fd_fixed_size :: nat
  fd_size_from_field :: string
  fd_referenced_type :: string
  fd_alignment :: nat
  fd_is_reserved :: bool
  fd_reserved_fill_byte :: u8
  fd_fixed_count :: nat
  fd_count_from_field :: string
  fd_tag_from_field :: string
  fd_has_expected_unsigned :: bool
  fd_expected_unsigned :: u64
  fd_enum_values :: "enum_value_definition list"
  fd_bit_fields :: "bit_field_definition list"
  fd_checksum :: "checksum_definition option"
  fd_condition :: "condition_definition option"
  fd_presence :: "presence_definition option"
  fd_variant_cases :: "variant_case_definition list"

text \<open>The member initialisers of \<open>FieldDefinition\<close>.\<close>

definition default_field_definition :: field_definition where
  "default_field_definition =
     \<lparr>fd_name = '''', fd_kind = KUnsigned, fd_width_bytes = 0, fd_byte_order = LittleEndian,
      fd_string_encoding = Ascii, fd_fixed_size = 0, fd_size_from_field = '''',
      fd_referenced_type = '''', fd_alignment = 1, fd_is_reserved = False,
      fd_reserved_fill_byte = 0, fd_fixed_count = 0, fd_count_from_field = '''',
      fd_tag_from_field = '''', fd_has_expected_unsigned = False, fd_expected_unsigned = 0,
      fd_enum_values = [], fd_bit_fields = [], fd_checksum = None, fd_condition = None,
      fd_presence = None, fd_variant_cases = []\<rparr>"

definition is_dynamic_size :: "field_definition \<Rightarrow> bool" where
  "is_dynamic_size f \<longleftrightarrow> fd_size_from_field f \<noteq> ''''"

definition is_dynamic_count :: "field_definition \<Rightarrow> bool" where
  "is_dynamic_count f \<longleftrightarrow> fd_count_from_field f \<noteq> ''''"

record struct_definition =
  sd_name :: string
  sd_fields :: "field_definition list"
  sd_validations :: "validation_rule_definition list"

record message_definition =
  md_name :: string
  md_fields :: "field_definition list"
  md_validations :: "validation_rule_definition list"
  md_allow_trailing_bytes :: bool

record protocol_definition =
  pd_name :: string
  pd_imports :: "import_definition list"
  pd_enums :: "enum_definition list"
  pd_structs :: "struct_definition list"
  pd_messages :: "message_definition list"

end
