(* ===== verification/Byte_Ops.thy ===== *)
theory Byte_Ops
  imports Core_Types
begin

text \<open>
  The scalar primitives of the wire format: the read side of
  \<open>decoder/direct_decode_support.hpp\<close> (\<open>read_unsigned_scalar\<close>, \<open>sign_extend\<close>,
  \<open>starts_with\<close>) and the write side of \<open>encoder/direct_encode_support.hpp\<close>
  (\<open>byteswap16/32/64\<close>, \<open>write_unsigned_scalar\<close>). The lemmas show that the three ways the
  code writes a scalar (store, swap and store, shift loop) produce the same bytes, that
  reading inverts writing in both byte orders, and what sign extension computes.

  The writers store through \<open>memcpy\<close> of a host integer; the code assumes a little-endian
  host, and so does \<open>host_bytes\<close>.
\<close>

subsection \<open>Reading\<close>

definition byte_to_u64 :: "u8 \<Rightarrow> u64" where
  "byte_to_u64 b = ucast b"

fun read_le_loop :: "nat \<Rightarrow> u64 \<Rightarrow> bytes \<Rightarrow> u64" where
  "read_le_loop index value [] = value"
| "read_le_loop index value (b # bs) =
     read_le_loop (Suc index) (value OR push_bit (index * kBitsPerByte) (byte_to_u64 b)) bs"

fun read_be_loop :: "u64 \<Rightarrow> bytes \<Rightarrow> u64" where
  "read_be_loop value [] = value"
| "read_be_loop value (b # bs) =
     read_be_loop (push_bit kBitsPerByte value OR byte_to_u64 b) bs"

definition read_unsigned_scalar_unchecked :: "byte_order \<Rightarrow> bytes \<Rightarrow> u64" where
  "read_unsigned_scalar_unchecked bo bs =
     (case bo of LittleEndian \<Rightarrow> read_le_loop 0 0 bs | BigEndian \<Rightarrow> read_be_loop 0 bs)"

definition kMaxScalarWidthBytes :: nat where "kMaxScalarWidthBytes = 8"

definition read_unsigned_scalar :: "bytes \<Rightarrow> byte_order \<Rightarrow> u64 option" where
  "read_unsigned_scalar bs bo =
     (if 1 \<le> length bs \<and> length bs \<le> kMaxScalarWidthBytes
      then Some (read_unsigned_scalar_unchecked bo bs) else None)"

definition starts_with :: "bytes \<Rightarrow> bytes \<Rightarrow> bool" where
  "starts_with bs prefix_bytes \<longleftrightarrow>
     \<not> length bs < length prefix_bytes \<and>
     list_all (\<lambda>i. bs ! i = prefix_bytes ! i) [0..<length prefix_bytes]"

definition sign_extend :: "u64 \<Rightarrow> nat \<Rightarrow> u64 option" where
  "sign_extend value width_bits =
     (if width_bits = 0 \<or> width_bits > 64 then None
      else if width_bits = 64 then Some value
      else
        (let sign_mask = push_bit (width_bits - 1) 1;
             full_mask = push_bit width_bits 1 - 1;
             value = value AND full_mask
         in if value AND sign_mask = 0 then Some value else Some (value OR NOT full_mask)))"

subsection \<open>Writing\<close>

definition byteswap16 :: "u16 \<Rightarrow> u16" where
  "byteswap16 value = push_bit 8 value OR drop_bit 8 value"

definition byteswap32 :: "u32 \<Rightarrow> u32" where
  "byteswap32 value =
     push_bit 24 (value AND 0x000000FF) OR push_bit 8 (value AND 0x0000FF00) OR
     drop_bit 8 (value AND 0x00FF0000) OR drop_bit 24 (value AND 0xFF000000)"

definition byteswap64 :: "u64 \<Rightarrow> u64" where
  "byteswap64 value =
     push_bit 56 (value AND 0x00000000000000FF) OR push_bit 40 (value AND 0x000000000000FF00) OR
     push_bit 24 (value AND 0x0000000000FF0000) OR push_bit 8 (value AND 0x00000000FF000000) OR
     drop_bit 8 (value AND 0x000000FF00000000) OR drop_bit 24 (value AND 0x0000FF0000000000) OR
     drop_bit 40 (value AND 0x00FF000000000000) OR drop_bit 56 (value AND 0xFF00000000000000)"

text \<open>The bytes of a host integer in memory, lowest address first.\<close>

definition host_bytes :: "nat \<Rightarrow> 'a::len word \<Rightarrow> bytes" where
  "host_bytes n w = map (\<lambda>i. ucast (drop_bit (8 * i) w)) [0..<n]"

fun write_le_loop :: "nat \<Rightarrow> u64 \<Rightarrow> bytes" where
  "write_le_loop 0 value = []"
| "write_le_loop (Suc n) value = ucast (value AND 0xFF) # write_le_loop n (drop_bit 8 value)"

fun write_be_loop :: "nat \<Rightarrow> u64 \<Rightarrow> bytes" where
  "write_be_loop 0 value = []"
| "write_be_loop (Suc n) value = write_be_loop n (drop_bit 8 value) @ [ucast (value AND 0xFF)]"

text \<open>
  The bytes \<open>write_unsigned_scalar_unchecked<byte_order, WidthBytes>\<close> stores. The code is
  only defined for widths 1 to 8 (any other width is \<open>unreachable()\<close>); the facts below
  assume such a width.
\<close>

definition write_unsigned_scalar_unchecked :: "byte_order \<Rightarrow> nat \<Rightarrow> u64 \<Rightarrow> bytes" where
  "write_unsigned_scalar_unchecked bo width value =
     (case bo of
        LittleEndian \<Rightarrow>
          (if width = 1 then [ucast value]
           else if width = 2 then host_bytes 2 (ucast value :: u16)
           else if width = 4 then host_bytes 4 (ucast value :: u32)
           else if width = 8 then host_bytes 8 value
           else write_le_loop width value)
      | BigEndian \<Rightarrow>
          (if width = 1 then [ucast value]
           else if width = 2 then host_bytes 2 (byteswap16 (ucast value))
           else if width = 4 then host_bytes 4 (byteswap32 (ucast value))
           else if width = 8 then host_bytes 8 (byteswap64 value)
           else write_be_loop width value))"

text \<open>
  The checked writer: \<open>false\<close> (here \<open>None\<close>, nothing written) unless the span has one of
  the widths 1 to 8.
\<close>

definition write_unsigned_scalar :: "nat \<Rightarrow> u64 \<Rightarrow> byte_order \<Rightarrow> bytes option" where
  "write_unsigned_scalar span_size value bo =
     (if 1 \<le> span_size \<and> span_size \<le> kMaxScalarWidthBytes
      then Some (write_unsigned_scalar_unchecked bo span_size value) else None)"

subsection \<open>Bits read and written\<close>

text \<open>
  Bit \<open>n\<close> of a little-endian read is bit \<open>n mod 8\<close> of byte \<open>n div 8\<close>; a big-endian read is
  a little-endian read of the reversed span.
\<close>

lemma bit_shifted_byte:
  "bit (push_bit (k * 8) (byte_to_u64 b)) n \<longleftrightarrow> n < 64 \<and> n div 8 = k \<and> bit b (n mod 8)"
proof -
  have "k * 8 \<le> n \<and> n - k * 8 < 8 \<longleftrightarrow> n div 8 = k" by auto
  moreover have "n div 8 = k \<Longrightarrow> n - k * 8 = n mod 8"
    by (metis minus_mult_div_eq_mod mult.commute)
  ultimately show ?thesis
    by (auto simp: bits_simps byte_to_u64_def)
qed

lemma bit_read_le_loop:
  "bit (read_le_loop k v bs) n \<longleftrightarrow>
     bit v n \<or> (n < 64 \<and> k \<le> n div 8 \<and> n div 8 - k < length bs \<and> bit (bs ! (n div 8 - k)) (n mod 8))"
proof (induction bs arbitrary: k v)
  case Nil
  then show ?case by simp
next
  case (Cons b bs)
  define q r where "q = n div 8" and "r = n mod 8"
  have step: "bit (read_le_loop k v (b # bs)) n \<longleftrightarrow>
      (bit v n \<or> n < 64 \<and> q = k \<and> bit b r) \<or>
      n < 64 \<and> Suc k \<le> q \<and> q - Suc k < length bs \<and> bit (bs ! (q - Suc k)) r"
    by (simp add: Cons.IH kBitsPerByte_def bit_or_iff bit_shifted_byte q_def r_def
        del: Suc_le_eq)
  have idx: "Suc k \<le> q \<Longrightarrow> q - k = Suc (q - Suc k)" by simp
  show ?case
    unfolding step q_def [symmetric] r_def [symmetric]
    by (cases "Suc k \<le> q") (auto simp: idx not_less_eq_eq)
qed

lemma bit_read_le:
  "bit (read_le_loop 0 0 bs) n \<longleftrightarrow> n < 64 \<and> n div 8 < length bs \<and> bit (bs ! (n div 8)) (n mod 8)"
  by (simp add: bit_read_le_loop)

lemma read_be_loop_append:
  "read_be_loop v (bs @ [b]) = push_bit kBitsPerByte (read_be_loop v bs) OR byte_to_u64 b"
  by (induction bs arbitrary: v) auto

lemma bit_read_le_Cons:
  "read_le_loop 0 0 (b # bs) = push_bit kBitsPerByte (read_le_loop 0 0 bs) OR byte_to_u64 b"
proof (rule bit_word_eqI)
  fix n assume "n < LENGTH(64)"
  then have n: "n < 64" by simp
  show "bit (read_le_loop 0 0 (b # bs)) n \<longleftrightarrow>
        bit (push_bit kBitsPerByte (read_le_loop 0 0 bs) OR byte_to_u64 b) n"
  proof (cases "n < 8")
    case True
    then show ?thesis
      by (simp only: bit_read_le) (auto simp: bits_simps bit_or_iff kBitsPerByte_def byte_to_u64_def)
  next
    case False
    then have "(b # bs) ! (n div 8) = bs ! ((n - 8) div 8)"
      by (simp add: nth_Cons' le_div_geq)
    moreover have "(n - 8) mod 8 = n mod 8" using False by (simp add: le_mod_geq)
    moreover have "n div 8 < length (b # bs) \<longleftrightarrow> (n - 8) div 8 < length bs"
      using False by (simp add: le_div_geq)
    ultimately show ?thesis using False n
      by (simp only: bit_read_le) (auto simp: bits_simps bit_or_iff kBitsPerByte_def byte_to_u64_def bit_read_le)
  qed
qed

lemma read_be_eq_le_rev: "read_be_loop 0 bs = read_le_loop 0 0 (rev bs)"
proof (induction bs rule: rev_induct)
  case Nil
  then show ?case by simp
next
  case (snoc b bs)
  have "read_le_loop 0 0 (rev (bs @ [b])) = read_le_loop 0 0 (b # rev bs)" by simp
  then show ?case using snoc by (simp only: bit_read_le_Cons read_be_loop_append)
qed

lemma length_host_bytes [span_simps, simp]: "length (host_bytes n w) = n"
  by (simp add: host_bytes_def)

lemma nth_host_bytes: "i < n \<Longrightarrow> host_bytes n w ! i = ucast (drop_bit (8 * i) w)"
  by (simp add: host_bytes_def)

lemma bit_nth_host_bytes:
  "i < n \<Longrightarrow> bit (host_bytes n (w :: 'a::len word) ! i) j \<longleftrightarrow> j < 8 \<and> bit w (8 * i + j)"
  by (auto simp: nth_host_bytes bit_ucast_iff bit_drop_bit_eq dest: bit_imp_le_length)

lemma host_bytes_eqI:
  fixes w :: "'a::len word" and w' :: "'b::len word"
  assumes "\<And>k. k < 8 * n \<Longrightarrow> bit w k \<longleftrightarrow> bit w' k"
  shows "host_bytes n w = host_bytes n w'"
proof (rule nth_equalityI)
  fix i assume "i < length (host_bytes n w)"
  then have i: "i < n" by simp
  show "host_bytes n w ! i = host_bytes n w' ! i"
  proof (rule bit_word_eqI)
    fix j assume "j < LENGTH(8)"
    with i have "8 * i + j < 8 * n" by simp
    then show "bit (host_bytes n w ! i) j \<longleftrightarrow> bit (host_bytes n w' ! i) j"
      using i by (simp add: bit_nth_host_bytes assms)
  qed
qed simp

lemma host_bytes_ucast_u16: "host_bytes 2 (ucast (v :: u64) :: u16) = host_bytes 2 v"
  by (rule host_bytes_eqI) (simp add: bit_ucast_iff)

lemma host_bytes_ucast_u32: "host_bytes 4 (ucast (v :: u64) :: u32) = host_bytes 4 v"
  by (rule host_bytes_eqI) (simp add: bit_ucast_iff)

lemma host_bytes_Suc:
  "host_bytes (Suc n) w = ucast w # host_bytes n (drop_bit 8 w)"
  by (simp add: host_bytes_def map_upt_Suc add.commute del: upt_Suc)

lemma ucast_and_0xFF: "ucast ((v :: u64) AND 0xFF) = (ucast v :: u8)"
proof (rule bit_word_eqI)
  fix n assume "n < LENGTH(8)"
  moreover have m: "(0xFF :: u64) = mask 8" by (simp add: mask_eq_exp_minus_1)
  ultimately show "bit (ucast (v AND 0xFF) :: u8) n \<longleftrightarrow> bit (ucast v :: u8) n"
    unfolding m by (simp add: bit_ucast_iff bit_and_iff bit_mask_iff)
qed

lemma write_le_loop_eq: "write_le_loop n v = host_bytes n v"
  by (induction n arbitrary: v) (simp_all add: host_bytes_Suc ucast_and_0xFF, simp add: host_bytes_def)

lemma write_be_loop_eq: "write_be_loop n v = rev (host_bytes n v)"
  by (induction n arbitrary: v) (simp_all add: host_bytes_Suc ucast_and_0xFF, simp add: host_bytes_def)

subsection \<open>The byte swaps reverse the bytes in memory\<close>

lemma bit_push_masked_byte:
  "bit (push_bit a ((w :: 'a::len word) AND push_bit b (mask 8))) n \<longleftrightarrow>
     a + b \<le> n \<and> n < a + b + 8 \<and> n < LENGTH('a) \<and> bit w (n - a)"
  by (auto simp: bit_push_bit_iff bit_and_iff bit_mask_iff dest: bit_imp_le_length)

lemma bit_drop_masked_byte:
  "bit (drop_bit a ((w :: 'a::len word) AND push_bit b (mask 8))) n \<longleftrightarrow>
     b \<le> n + a \<and> n + a < b + 8 \<and> bit w (n + a)"
  by (auto simp: bit_drop_bit_eq bit_and_iff bit_push_bit_iff bit_mask_iff add.commute
      dest: bit_imp_le_length)

lemma rev_host_bytesI:
  fixes w w' :: "'a::len word"
  assumes "\<And>i j. i < n \<Longrightarrow> j < 8 \<Longrightarrow> bit w' (8 * i + j) \<longleftrightarrow> bit w (8 * (n - Suc i) + j)"
  shows "host_bytes n w' = rev (host_bytes n w)"
proof (rule nth_equalityI)
  fix i assume "i < length (host_bytes n w')"
  then have i: "i < n" by simp
  show "host_bytes n w' ! i = rev (host_bytes n w) ! i"
  proof (rule bit_word_eqI)
    fix j assume "j < LENGTH(8)"
    then show "bit (host_bytes n w' ! i) j \<longleftrightarrow> bit (rev (host_bytes n w) ! i) j"
      using i by (simp add: rev_nth bit_nth_host_bytes assms)
  qed
qed simp

lemma rev_host_bytes_2: "host_bytes 2 (byteswap16 w) = rev (host_bytes 2 w)"
proof (rule rev_host_bytesI)
  fix i j :: nat assume "i < 2" and j: "j < 8"
  then have "i = 0 \<or> i = 1" by linarith
  then show "bit (byteswap16 w) (8 * i + j) \<longleftrightarrow> bit w (8 * (2 - Suc i) + j)"
    using j unfolding byteswap16_def
    by (elim disjE) (auto simp: bit_or_iff bit_push_bit_iff bit_drop_bit_eq dest: bit_imp_le_length)
qed

lemma rev_host_bytes_4: "host_bytes 4 (byteswap32 w) = rev (host_bytes 4 w)"
proof (rule rev_host_bytesI)
  fix i j :: nat assume "i < 4" and j: "j < 8"
  have m: "(0xFF :: u32) = push_bit 0 (mask 8)" "(0xFF00 :: u32) = push_bit 8 (mask 8)"
    "(0xFF0000 :: u32) = push_bit 16 (mask 8)" "(0xFF000000 :: u32) = push_bit 24 (mask 8)"
    by (simp_all add: mask_eq_exp_minus_1 push_bit_eq_mult)
  from \<open>i < 4\<close> have "i = 0 \<or> i = 1 \<or> i = 2 \<or> i = 3" by linarith
  then show "bit (byteswap32 w) (8 * i + j) \<longleftrightarrow> bit w (8 * (4 - Suc i) + j)"
    using j unfolding byteswap32_def m bit_or_iff bit_push_masked_byte bit_drop_masked_byte
    by (elim disjE) (simp_all add: add.commute)
qed

lemma rev_host_bytes_8: "host_bytes 8 (byteswap64 w) = rev (host_bytes 8 w)"
proof (rule rev_host_bytesI)
  fix i j :: nat assume "i < 8" and j: "j < 8"
  have m: "(0xFF :: u64) = push_bit 0 (mask 8)" "(0xFF00 :: u64) = push_bit 8 (mask 8)"
    "(0xFF0000 :: u64) = push_bit 16 (mask 8)" "(0xFF000000 :: u64) = push_bit 24 (mask 8)"
    "(0xFF00000000 :: u64) = push_bit 32 (mask 8)" "(0xFF0000000000 :: u64) = push_bit 40 (mask 8)"
    "(0xFF000000000000 :: u64) = push_bit 48 (mask 8)"
    "(0xFF00000000000000 :: u64) = push_bit 56 (mask 8)"
    by (simp_all add: mask_eq_exp_minus_1 push_bit_eq_mult)
  from \<open>i < 8\<close> have "i = 0 \<or> i = 1 \<or> i = 2 \<or> i = 3 \<or> i = 4 \<or> i = 5 \<or> i = 6 \<or> i = 7"
    by linarith
  then show "bit (byteswap64 w) (8 * i + j) \<longleftrightarrow> bit w (8 * (8 - Suc i) + j)"
    using j unfolding byteswap64_def m bit_or_iff bit_push_masked_byte bit_drop_masked_byte
    by (elim disjE) (simp_all add: add.commute)
qed

subsection \<open>Every way of writing a scalar stores the same bytes\<close>

definition scalar_bytes :: "byte_order \<Rightarrow> nat \<Rightarrow> u64 \<Rightarrow> bytes" where
  "scalar_bytes bo n v =
     (case bo of LittleEndian \<Rightarrow> host_bytes n v | BigEndian \<Rightarrow> rev (host_bytes n v))"

lemma length_scalar_bytes [simp, span_simps]: "length (scalar_bytes bo n v) = n"
  by (simp add: scalar_bytes_def split: byte_order.split)

lemma write_unsigned_scalar_unchecked_eq:
  "write_unsigned_scalar_unchecked bo n v = scalar_bytes bo n v"
proof -
  have one: "host_bytes (Suc 0) v = [ucast v]" by (simp add: host_bytes_def)
  show ?thesis
    by (cases bo)
      (simp_all add: write_unsigned_scalar_unchecked_def scalar_bytes_def write_le_loop_eq
        write_be_loop_eq host_bytes_ucast_u16 host_bytes_ucast_u32 one
        rev_host_bytes_2 rev_host_bytes_4 rev_host_bytes_8)
qed

lemma length_write_unsigned_scalar_unchecked [simp, span_simps]:
  "length (write_unsigned_scalar_unchecked bo n v) = n"
  by (simp add: write_unsigned_scalar_unchecked_eq)

subsection \<open>Round trips\<close>

lemma read_le_host_bytes: "read_le_loop 0 0 (host_bytes n v) = take_bit (8 * n) v"
proof (rule bit_word_eqI)
  fix k assume "k < LENGTH(64)"
  moreover have "k div 8 < n \<longleftrightarrow> k < 8 * n" by auto
  ultimately show "bit (read_le_loop 0 0 (host_bytes n v)) k \<longleftrightarrow> bit (take_bit (8 * n) v) k"
    by (auto simp: bit_read_le bit_nth_host_bytes bit_take_bit_iff)
qed

lemma read_scalar_bytes:
  "read_unsigned_scalar_unchecked bo (scalar_bytes bo n v) = take_bit (8 * n) v"
  by (cases bo)
    (simp_all add: read_unsigned_scalar_unchecked_def scalar_bytes_def read_be_eq_le_rev
      read_le_host_bytes)

lemma host_bytes_read_le:
  assumes "length bs \<le> 8"
  shows "host_bytes (length bs) (read_le_loop 0 0 bs) = bs"
proof (rule nth_equalityI)
  fix i assume "i < length (host_bytes (length bs) (read_le_loop 0 0 bs))"
  then have i: "i < length bs" by simp
  show "host_bytes (length bs) (read_le_loop 0 0 bs) ! i = bs ! i"
  proof (rule bit_word_eqI)
    fix j assume j: "j < LENGTH(8)"
    then have "8 * i + j < 64" using i assms by simp
    then show "bit (host_bytes (length bs) (read_le_loop 0 0 bs) ! i) j \<longleftrightarrow> bit (bs ! i) j"
      using i j by (simp add: bit_nth_host_bytes bit_read_le)
  qed
qed simp

lemma scalar_bytes_read:
  assumes "length bs \<le> 8"
  shows "scalar_bytes bo (length bs) (read_unsigned_scalar_unchecked bo bs) = bs"
proof (cases bo)
  case LittleEndian
  then show ?thesis
    by (simp add: scalar_bytes_def read_unsigned_scalar_unchecked_def host_bytes_read_le assms)
next
  case BigEndian
  have "host_bytes (length (rev bs)) (read_le_loop 0 0 (rev bs)) = rev bs"
    using assms by (intro host_bytes_read_le) simp
  with BigEndian show ?thesis
    by (simp add: scalar_bytes_def read_unsigned_scalar_unchecked_def read_be_eq_le_rev)
qed

lemma read_unsigned_scalar_Some_iff:
  "read_unsigned_scalar bs bo = Some v \<longleftrightarrow>
     1 \<le> length bs \<and> length bs \<le> 8 \<and> v = read_unsigned_scalar_unchecked bo bs"
  by (auto simp: read_unsigned_scalar_def kMaxScalarWidthBytes_def)

lemma read_unsigned_scalar_bound:
  assumes "length bs \<le> 8"
  shows "unat (read_unsigned_scalar_unchecked bo bs) < 2 ^ (8 * length bs)"
proof -
  have "take_bit (8 * length bs) (read_unsigned_scalar_unchecked bo bs) =
        read_unsigned_scalar_unchecked bo bs"
    by (metis assms read_scalar_bytes scalar_bytes_read)
  then show ?thesis
    by (metis take_bit_nat_less_exp unsigned_take_bit_eq)
qed

text \<open>The contract of a scalar codec, met by both byte orders.\<close>

locale scalar_codec =
  fixes wr :: "nat \<Rightarrow> u64 \<Rightarrow> bytes"
    and rd :: "bytes \<Rightarrow> u64"
  assumes wr_length: "length (wr n v) = n"
    and rd_wr: "rd (wr n v) = take_bit (8 * n) v"
    and wr_rd: "length bs \<le> 8 \<Longrightarrow> wr (length bs) (rd bs) = bs"
begin

lemma rd_inj: "length bs \<le> 8 \<Longrightarrow> length cs = length bs \<Longrightarrow> rd bs = rd cs \<Longrightarrow> bs = cs"
  by (metis wr_rd)

lemma rd_wr_fits: "unat v < 2 ^ (8 * n) \<Longrightarrow> rd (wr n v) = v"
  by (simp add: rd_wr word_unat_eq_iff unsigned_take_bit_eq take_bit_nat_eq_self)

lemma wr_eq_iff: "wr n v = wr n v' \<longleftrightarrow> take_bit (8 * n) v = take_bit (8 * n) v'" if "n \<le> 8"
  using that by (metis rd_wr wr_length wr_rd)

end

interpretation codec: scalar_codec "write_unsigned_scalar_unchecked bo" "read_unsigned_scalar_unchecked bo"
  for bo
  by unfold_locales
    (simp_all add: write_unsigned_scalar_unchecked_eq read_scalar_bytes scalar_bytes_read)

subsection \<open>Prefixes\<close>

lemma starts_with_iff: "starts_with bs p \<longleftrightarrow> take (length p) bs = p"
proof -
  have "take (length p) bs = p \<longleftrightarrow> length p \<le> length bs \<and> (\<forall>i<length p. bs ! i = p ! i)"
    by (auto simp: list_eq_iff_nth_eq min_def)
  then show ?thesis by (auto simp: starts_with_def list_all_iff)
qed

subsection \<open>Sign extension\<close>

lemma sign_extend_bits:
  assumes "1 \<le> w" and "w \<le> 64" and "sign_extend v w = Some r" and "n < 64"
  shows "bit r n \<longleftrightarrow> bit v (min n (w - 1))"
proof (cases "w = 64")
  case True
  with assms show ?thesis by (simp add: sign_extend_def min_def)
next
  case False
  have mask: "push_bit w (1 :: u64) - 1 = mask w"
    by (simp add: mask_eq_exp_minus_1)
  have sign: "(v AND mask w) AND push_bit (w - 1) 1 = 0 \<longleftrightarrow> \<not> bit v (w - 1)"
    using assms(1) and_exp_eq_0_iff_not_bit [of "v AND mask w" "w - 1"]
    by (auto simp: bit_and_iff bit_mask_iff ac_simps dest: bit_imp_le_length)
  have "sign_extend v w =
      Some (if bit v (w - 1) then v AND mask w OR NOT (mask w) else v AND mask w)"
    unfolding sign_extend_def Let_def mask sign using False assms(1,2) by simp
  with assms(3) have r: "r = (if bit v (w - 1) then v AND mask w OR NOT (mask w) else v AND mask w)"
    by simp
  show ?thesis
    using assms(1,2,4) False unfolding r
    by (auto simp: bit_or_iff bit_and_iff bit_not_iff bit_mask_iff min_def
        not_less le_Suc_eq dest: bit_imp_le_length)
qed

lemma sign_extend_None_iff: "sign_extend v w = None \<longleftrightarrow> w = 0 \<or> 64 < w"
  by (auto simp: sign_extend_def Let_def)

text \<open>Sign extension. Whenever \<open>sign_extend\<close> yields a value, the width lies between 1 and 64
  bits and the value, read as a signed 64-bit integer, is the two's complement reading of the low
  bits of the argument.\<close>

theorem sign_extend_two_complement:
  assumes "sign_extend v w = Some r"
  shows "1 \<le> w \<and> w \<le> 64 \<and> sint r = signed_take_bit (w - 1) (uint v)"
proof -
  from assms have w: "1 \<le> w" "w \<le> 64"
    by (auto simp: sign_extend_def Let_def split: if_splits)
  have "sint r = signed_take_bit (w - 1) (uint v)"
  proof (rule bit_eqI)
    fix n
    have "bit (sint r) n \<longleftrightarrow> bit r (min n 63)"
      by (simp add: bit_sint_iff min_def) (auto dest: bit_imp_le_length)
    also have "\<dots> \<longleftrightarrow> bit v (min (min n 63) (w - 1))"
      using w assms by (intro sign_extend_bits) auto
    also have "min (min n 63) (w - 1) = min n (w - 1)" using w by auto
    finally show "bit (sint r) n \<longleftrightarrow> bit (signed_take_bit (w - 1) (uint v)) n"
      by (simp add: bit_signed_take_bit_iff bit_uint_iff min.commute)
        (auto dest: bit_imp_le_length)
  qed
  with w show ?thesis by simp
qed

theorem sign_extend_two_complement_witness:
  "sign_extend 0xF85 12 = Some (- 123) \<and> sint (- 123 :: u64) = signed_take_bit 11 (uint (0xF85 :: u64))"
proof -
  have "sign_extend 0xF85 12 = Some (- 123)" by (simp add: sign_extend_def Let_def)
  with sign_extend_two_complement [OF this] show ?thesis by simp
qed

subsection \<open>Round trips\<close>

text \<open>C12: Scalars on the wire. Writing a value at any width and byte order produces that many
  bytes, reading them back yields the value reduced to the width, and two values have the same
  bytes exactly when they agree on the bits the width keeps.\<close>

theorem scalar_write_read:
  "length (write_unsigned_scalar_unchecked bo n v) = n \<and>
   read_unsigned_scalar_unchecked bo (write_unsigned_scalar_unchecked bo n v) = take_bit (8 * n) v"
  using codec.wr_length codec.rd_wr by blast

text \<open>Frames are read faithfully. Writing the value read from at most eight bytes gives
  back these bytes, so a scalar field of a frame can be re-encoded without loss.\<close>

theorem scalar_read_write:
  assumes "length bs \<le> 8"
  shows "write_unsigned_scalar_unchecked bo (length bs) (read_unsigned_scalar_unchecked bo bs) = bs"
  by (rule codec.wr_rd [OF assms])

theorem scalar_read_write_witness:
  "write_unsigned_scalar_unchecked BigEndian 3 (read_unsigned_scalar_unchecked BigEndian [1, 2, 255]) = [1, 2, 255]"
  using scalar_read_write [of "[1, 2, 255]" BigEndian] by (simp add: eval_nat_numeral)

end
