(* ===== verification/Text_Validation.thy ===== *)
theory Text_Validation
  imports Byte_Ops
begin

text \<open>
  String validation of \<open>decoder/direct_decode_support.hpp\<close> (\<open>is_valid_ascii\<close>,
  \<open>is_valid_utf8\<close>) and its run-time dispatch in \<open>decoder/runtime_byte_ops.cpp\<close>. The main
  result is that \<open>is_valid_utf8\<close> accepts exactly the concatenations of the shortest UTF-8
  encodings of Unicode scalar values. The SIMD routines of the library simdutf are
  parameters of the dispatching functions.
\<close>

subsection \<open>The validators\<close>

fun is_valid_ascii_scalar :: "bytes \<Rightarrow> bool" where
  "is_valid_ascii_scalar [] = True"
| "is_valid_ascii_scalar (b # bs) = (if b AND 0x80 \<noteq> 0 then False else is_valid_ascii_scalar bs)"

text \<open>
  The classification of a lead byte: the number of continuation bytes and the payload of
  the lead byte, or \<open>None\<close> where the code returns \<open>false\<close>.
\<close>

definition utf8_lead :: "u8 \<Rightarrow> (nat \<times> u32) option" where
  "utf8_lead lead =
     (if lead AND 0x80 = 0 then Some (0, ucast lead)
      else if lead AND 0xE0 = 0xC0 then
        (if (ucast (lead AND 0x1F) :: u32) = 0 then None else Some (1, ucast (lead AND 0x1F)))
      else if lead AND 0xF0 = 0xE0 then Some (2, ucast (lead AND 0x0F))
      else if lead AND 0xF8 = 0xF0 then Some (3, ucast (lead AND 0x07))
      else None)"

text \<open>The inner loop over the continuation bytes, starting with the given byte.\<close>

fun utf8_continuation :: "bytes \<Rightarrow> nat \<Rightarrow> nat \<Rightarrow> u32 \<Rightarrow> u32 option" where
  "utf8_continuation bs first 0 code_point = Some code_point"
| "utf8_continuation bs first (Suc n) code_point =
     (let byte = bs ! first in
      if byte AND 0xC0 \<noteq> 0x80 then None
      else utf8_continuation bs (Suc first) n
             (push_bit 6 code_point OR ucast (byte AND 0x3F)))"

declare utf8_continuation.simps(2) [simp del]

definition utf8_out_of_range :: "nat \<Rightarrow> u32 \<Rightarrow> bool" where
  "utf8_out_of_range continuation_count code_point \<longleftrightarrow>
     continuation_count = 1 \<and> code_point < 0x80 \<or>
     continuation_count = 2 \<and> code_point < 0x800 \<or>
     continuation_count = 3 \<and> code_point < 0x10000 \<or>
     code_point > 0x10FFFF \<or> (code_point \<ge> 0xD800 \<and> code_point \<le> 0xDFFF)"

function is_valid_utf8_from :: "bytes \<Rightarrow> nat \<Rightarrow> bool" where
  "is_valid_utf8_from bs index =
     (if index < length bs then
        (case utf8_lead (bs ! index) of
           None \<Rightarrow> False
         | Some (continuation_count, code_point) \<Rightarrow>
             if index + continuation_count \<ge> length bs then False
             else
               (case utf8_continuation bs (index + 1) continuation_count code_point of
                  None \<Rightarrow> False
                | Some code_point \<Rightarrow>
                    if utf8_out_of_range continuation_count code_point then False
                    else is_valid_utf8_from bs (index + (continuation_count + 1))))
      else True)"
  by pat_completeness auto
termination
  by (relation "measure (\<lambda>(bs, index). length bs - index)") auto

declare is_valid_utf8_from.simps [simp del]

definition is_valid_utf8 :: "bytes \<Rightarrow> bool" where
  "is_valid_utf8 bs = is_valid_utf8_from bs 0"

definition validate_string :: "string_encoding \<Rightarrow> bytes \<Rightarrow> bool" where
  "validate_string encoding bs =
     (case encoding of Ascii \<Rightarrow> is_valid_ascii_scalar bs | Utf8 \<Rightarrow> is_valid_utf8 bs)"

text \<open>
  The dispatch to simdutf for long spans. \<open>simd\<close> stands for \<open>simdutf::validate_ascii\<close> and
  \<open>simdutf::validate_utf8\<close>, which are not part of the repository.
\<close>

definition runtime_is_valid_ascii :: "(bytes \<Rightarrow> bool) \<Rightarrow> bytes \<Rightarrow> bool" where
  "runtime_is_valid_ascii simd bs = (if length bs < 32 then is_valid_ascii_scalar bs else simd bs)"

definition runtime_is_valid_utf8 :: "(bytes \<Rightarrow> bool) \<Rightarrow> bytes \<Rightarrow> bool" where
  "runtime_is_valid_utf8 simd bs = (if length bs < 32 then is_valid_utf8 bs else simd bs)"

subsection \<open>The reference encoding\<close>

definition unicode_scalar :: "nat \<Rightarrow> bool" where
  "unicode_scalar c \<longleftrightarrow> c \<le> 0x10FFFF \<and> \<not> (0xD800 \<le> c \<and> c \<le> 0xDFFF)"

definition utf8_encode :: "nat \<Rightarrow> bytes" where
  "utf8_encode c =
     map word_of_nat
      (if c < 0x80 then [c]
       else if c < 0x800 then [0xC0 + c div 64, 0x80 + c mod 64]
       else if c < 0x10000 then [0xE0 + c div 4096, 0x80 + c div 64 mod 64, 0x80 + c mod 64]
       else [0xF0 + c div 262144, 0x80 + c div 4096 mod 64, 0x80 + c div 64 mod 64, 0x80 + c mod 64])"

subsection \<open>Masks on bytes as ranges\<close>

text \<open>Each mask test of the code is a range test on the byte.\<close>

lemma high_mask_eq_iff:
  "(b :: u8) AND NOT (mask k) = push_bit k v \<longleftrightarrow> drop_bit k b = drop_bit k (push_bit k v)"
proof -
  have "b AND NOT (mask k) = push_bit k (drop_bit k b)"
    by (rule bit_word_eqI) (auto simp: bit_and_iff bit_not_iff bit_mask_iff bit_push_bit_iff bit_drop_bit_eq)
  moreover have "push_bit k (drop_bit k b) = push_bit k v \<longleftrightarrow> drop_bit k b = drop_bit k (push_bit k v)"
  proof
    assume "push_bit k (drop_bit k b) = push_bit k v"
    then have "drop_bit k (push_bit k (drop_bit k b)) = drop_bit k (push_bit k v)" by simp
    moreover have "drop_bit k (push_bit k (drop_bit k b)) = drop_bit k b"
      by (rule bit_word_eqI) (auto simp: bit_push_bit_iff bit_drop_bit_eq dest: bit_imp_le_length)
    ultimately show "drop_bit k b = drop_bit k (push_bit k v)" by simp
  next
    assume "drop_bit k b = drop_bit k (push_bit k v)"
    then show "push_bit k (drop_bit k b) = push_bit k v"
      by (simp, intro bit_word_eqI) (auto simp: bit_push_bit_iff bit_drop_bit_eq)
  qed
  ultimately show ?thesis by simp
qed

lemma mask_test_iff_div:
  assumes "m = NOT (mask k)" and "t = push_bit k v" and "drop_bit k (push_bit k v) = v"
  shows "(b :: u8) AND m = t \<longleftrightarrow> unat b div 2 ^ k = unat v"
proof -
  have "b AND m = t \<longleftrightarrow> drop_bit k b = v"
    unfolding assms(1,2) high_mask_eq_iff assms(3) ..
  also have "\<dots> \<longleftrightarrow> unat (drop_bit k b) = unat v" by (rule word_unat_eq_iff)
  also have "unat (drop_bit k b) = unat b div 2 ^ k"
    by (rule trans [OF unat_drop_bit_eq drop_bit_eq_div])
  finally show ?thesis .
qed

lemma ascii_mask: "(b :: u8) AND 0x80 = 0 \<longleftrightarrow> unat b < 128"
proof -
  have "b AND 0x80 = 0 \<longleftrightarrow> unat b div 2 ^ 7 = unat (0 :: u8)"
    by (rule mask_test_iff_div) (simp_all add: mask_eq_exp_minus_1)
  then show ?thesis by (simp add: div_eq_0_iff)
qed

lemma div_eq_range: "0 < (k :: nat) \<Longrightarrow> n div k = q \<longleftrightarrow> q * k \<le> n \<and> n < Suc q * k"
  by (metis div_nat_eqI dividend_less_times_div mult.commute mult_Suc add.commute
      times_div_less_eq_dividend)

lemma lead2_mask: "(b :: u8) AND 0xE0 = 0xC0 \<longleftrightarrow> 192 \<le> unat b \<and> unat b < 224"
proof -
  have "b AND 0xE0 = 0xC0 \<longleftrightarrow> unat b div 2 ^ 5 = unat (6 :: u8)"
    by (rule mask_test_iff_div) (simp_all add: mask_eq_exp_minus_1)
  then show ?thesis by (simp add: div_eq_range)
qed

lemma lead3_mask: "(b :: u8) AND 0xF0 = 0xE0 \<longleftrightarrow> 224 \<le> unat b \<and> unat b < 240"
proof -
  have "b AND 0xF0 = 0xE0 \<longleftrightarrow> unat b div 2 ^ 4 = unat (14 :: u8)"
    by (rule mask_test_iff_div) (simp_all add: mask_eq_exp_minus_1)
  then show ?thesis by (simp add: div_eq_range)
qed

lemma lead4_mask: "(b :: u8) AND 0xF8 = 0xF0 \<longleftrightarrow> 240 \<le> unat b \<and> unat b < 248"
proof -
  have "b AND 0xF8 = 0xF0 \<longleftrightarrow> unat b div 2 ^ 3 = unat (30 :: u8)"
    by (rule mask_test_iff_div) (simp_all add: mask_eq_exp_minus_1)
  then show ?thesis by (simp add: div_eq_range)
qed

lemma cont_mask: "(b :: u8) AND 0xC0 = 0x80 \<longleftrightarrow> 128 \<le> unat b \<and> unat b < 192"
proof -
  have "b AND 0xC0 = 0x80 \<longleftrightarrow> unat b div 2 ^ 6 = unat (2 :: u8)"
    by (rule mask_test_iff_div) (simp_all add: mask_eq_exp_minus_1)
  then show ?thesis by (simp add: div_eq_range)
qed

lemma payload_masks:
  "unat ((b :: u8) AND 0x1F) = unat b mod 32"
  "unat (b AND 0x0F) = unat b mod 16"
  "unat (b AND 0x07) = unat b mod 8"
  "unat (b AND 0x3F) = unat b mod 64"
proof -
  have "(0x1F :: u8) = mask 5" "(0x0F :: u8) = mask 4" "(0x07 :: u8) = mask 3" "(0x3F :: u8) = mask 6"
    by (simp_all add: mask_eq_exp_minus_1)
  then show "unat (b AND 0x1F) = unat b mod 32" "unat (b AND 0x0F) = unat b mod 16"
    "unat (b AND 0x07) = unat b mod 8" "unat (b AND 0x3F) = unat b mod 64"
    by (simp_all only: flip: take_bit_eq_mask) (simp_all add: unsigned_take_bit_eq take_bit_nat_def)
qed

subsection \<open>The decoder steps over natural numbers\<close>

lemma mod_eq_range: "q * k \<le> n \<Longrightarrow> n < Suc q * k \<Longrightarrow> n mod k = n - q * (k :: nat)"
  by (metis div_eq_range mult_0_right not_gr_zero not_less_zero minus_div_mult_eq_mod)

lemma utf8_lead_nat:
  "utf8_lead b =
     (if unat b < 128 then Some (0, word_of_nat (unat b))
      else if 192 < unat b \<and> unat b < 224 then Some (1, word_of_nat (unat b - 192))
      else if 224 \<le> unat b \<and> unat b < 240 then Some (2, word_of_nat (unat b - 224))
      else if 240 \<le> unat b \<and> unat b < 248 then Some (3, word_of_nat (unat b - 240))
      else None)"
proof -
  define B where "B = unat b"
  have pay: "(ucast b :: u32) = word_of_nat B"
    "(ucast (b AND 0x1F) :: u32) = word_of_nat (B mod 32)"
    "(ucast (b AND 0x0F) :: u32) = word_of_nat (B mod 16)"
    "(ucast (b AND 0x07) :: u32) = word_of_nat (B mod 8)"
    unfolding B_def by (rule word_of_unat; simp only: unat_ucast_u8_u32 payload_masks)+
  have z: "(word_of_nat (B mod 32) :: u32) = 0 \<longleftrightarrow> B mod 32 = 0"
    by (simp add: word_unat_eq_iff unat_word_of_nat)
  have m: "192 \<le> B \<and> B < 224 \<Longrightarrow> B mod 32 = B - 192"
    "224 \<le> B \<and> B < 240 \<Longrightarrow> B mod 16 = B - 224"
    "240 \<le> B \<and> B < 248 \<Longrightarrow> B mod 8 = B - 240"
    using mod_eq_range [of 6 32 B] mod_eq_range [of 14 16 B] mod_eq_range [of 30 8 B] by simp_all
  show ?thesis
    unfolding utf8_lead_def ascii_mask lead2_mask lead3_mask lead4_mask pay z B_def [symmetric]
    by (simp add: m del: of_nat_diff cong: if_cong)
qed

lemma shift_or_payload:
  assumes "c < 2 ^ 26" and "x < 64"
  shows "push_bit 6 (word_of_nat c :: u32) OR word_of_nat x = word_of_nat (c * 64 + x)"
proof -
  have "push_bit 6 (word_of_nat c :: u32) OR word_of_nat x = push_bit 6 (word_of_nat c) + word_of_nat x"
  proof (rule disjunctive_add [symmetric])
    fix n
    have "x div 2 ^ n = 0" if "6 \<le> n"
      using assms(2) that power_increasing [of 6 n "2::nat"] by simp
    moreover have "bit (word_of_nat x :: u32) n \<Longrightarrow> odd (x div 2 ^ n)"
    proof -
      assume "bit (word_of_nat x :: u32) n"
      then have "bit (unat (word_of_nat x :: u32)) n"
        by (simp add: bit_unsigned_iff bit_imp_possible_bit)
      then show "odd (x div 2 ^ n)"
        using assms(2) by (simp add: unat_word_of_nat flip: bit_iff_odd)
    qed
    ultimately show "\<not> bit (push_bit 6 (word_of_nat c :: u32)) n \<or> \<not> bit (word_of_nat x :: u32) n"
      by (cases "6 \<le> n") (auto simp: bit_push_bit_iff)
  qed
  then show ?thesis by (simp add: push_bit_eq_mult)
qed

lemma utf8_continuation_Suc_nat:
  assumes "c < 2 ^ 26"
  shows "utf8_continuation bs i (Suc n) (word_of_nat c) =
     (if 128 \<le> unat (bs ! i) \<and> unat (bs ! i) < 192
      then utf8_continuation bs (Suc i) n (word_of_nat (c * 64 + (unat (bs ! i) - 128))) else None)"
proof -
  define B where "B = unat (bs ! i)"
  have "(ucast (bs ! i AND 0x3F) :: u32) = word_of_nat (B mod 64)"
    by (rule word_of_unat) (simp add: payload_masks B_def)
  moreover have "128 \<le> B \<and> B < 192 \<Longrightarrow> B mod 64 = B - 128"
    using mod_eq_range [of 2 64 B] by simp
  ultimately have "128 \<le> B \<and> B < 192 \<Longrightarrow>
      push_bit 6 (word_of_nat c) OR ucast (bs ! i AND 0x3F) = (word_of_nat (c * 64 + (B - 128)) :: u32)"
    using shift_or_payload [OF assms, of "B - 128"] by simp
  then show ?thesis
    unfolding utf8_continuation.simps(2) Let_def cont_mask B_def [symmetric]
    by (simp del: of_nat_diff of_nat_add of_nat_mult)
qed

definition is_cont :: "u8 \<Rightarrow> bool" where
  "is_cont b \<longleftrightarrow> 128 \<le> unat b \<and> unat b < 192"

definition cont_payload :: "u8 \<Rightarrow> nat" where
  "cont_payload b = unat b - 128"

lemma cont_payload_less: "is_cont b \<Longrightarrow> cont_payload b < 64"
  unfolding is_cont_def cont_payload_def by linarith

lemma is_cont_unat: "is_cont b \<Longrightarrow> unat b = 128 + cont_payload b"
  by (simp add: is_cont_def cont_payload_def)

lemma utf8_continuation_step:
  assumes "c < 2 ^ 26"
    and "0 < n"
  shows "utf8_continuation bs i n (word_of_nat c) =
      (if is_cont (bs ! i)
       then utf8_continuation bs (i + 1) (n - 1) (word_of_nat (c * 64 + cont_payload (bs ! i))) else None)"
proof -
  from assms(2) obtain m where "n = Suc m" by (cases n) auto
  with utf8_continuation_Suc_nat [OF assms(1), of bs i m] show ?thesis
    by (simp only: is_cont_def cont_payload_def) simp
qed

lemma utf8_continuation_1:
  assumes "c < 2 ^ 26"
  shows "utf8_continuation bs i 1 (word_of_nat c) =
      (if is_cont (bs ! i) then Some (word_of_nat (c * 64 + cont_payload (bs ! i))) else None)"
  using utf8_continuation_step [OF assms, of 1 bs i] by simp

lemma utf8_continuation_2:
  assumes "c < 2 ^ 20"
  shows "utf8_continuation bs i 2 (word_of_nat c) =
      (if is_cont (bs ! i) \<and> is_cont (bs ! (i + 1))
       then Some (word_of_nat ((c * 64 + cont_payload (bs ! i)) * 64 + cont_payload (bs ! (i + 1)))) else None)"
proof -
  define d where "d = c * 64 + cont_payload (bs ! i)"
  have "is_cont (bs ! i) \<Longrightarrow> d < 2 ^ 26" using assms cont_payload_less [of "bs ! i"] by (simp add: d_def)
  then show ?thesis
    using utf8_continuation_step [of c 2 bs i] utf8_continuation_1 [of d bs "i + 1"] assms
    by (simp add: d_def [symmetric] del: of_nat_add of_nat_mult)
qed

lemma utf8_continuation_3:
  assumes "c < 2 ^ 14"
  shows "utf8_continuation bs i 3 (word_of_nat c) =
      (if is_cont (bs ! i) \<and> is_cont (bs ! (i + 1)) \<and> is_cont (bs ! (i + 2))
       then Some (word_of_nat (((c * 64 + cont_payload (bs ! i)) * 64 + cont_payload (bs ! (i + 1))) * 64
              + cont_payload (bs ! (i + 2)))) else None)"
proof -
  define d where "d = c * 64 + cont_payload (bs ! i)"
  have "is_cont (bs ! i) \<Longrightarrow> d < 2 ^ 20" using assms cont_payload_less [of "bs ! i"] by (simp add: d_def)
  then show ?thesis
    using utf8_continuation_step [of c 3 bs i] utf8_continuation_2 [of d bs "i + 1"] assms
    by (simp add: d_def [symmetric] del: of_nat_add of_nat_mult)
qed

lemma utf8_out_of_range_nat:
  assumes "c < 2 ^ 32"
  shows "utf8_out_of_range n (word_of_nat c) \<longleftrightarrow>
     n = 1 \<and> c < 0x80 \<or> n = 2 \<and> c < 0x800 \<or> n = 3 \<and> c < 0x10000 \<or> \<not> unicode_scalar c"
  using assms
  by (auto simp: utf8_out_of_range_def unicode_scalar_def word_less_nat_alt word_le_nat_alt
      unat_word_of_nat not_le)

subsection \<open>One step of the validator decodes one code point\<close>

lemma div_mod_combine:
  "x < 64 \<Longrightarrow> (h * 64 + x) div 64 = h" "x < 64 \<Longrightarrow> (h * 64 + x) mod 64 = (x :: nat)"
  by simp_all

lemma div_64_64: "(c :: nat) div 4096 = c div 64 div 64" "c div 262144 = c div 64 div 64 div 64"
  by (simp_all flip: div_mult2_eq)

lemma utf8_encode_eqI:
  assumes "map unat bs = (if c < 0x80 then [c]
       else if c < 0x800 then [0xC0 + c div 64, 0x80 + c mod 64]
       else if c < 0x10000 then [0xE0 + c div 4096, 0x80 + c div 64 mod 64, 0x80 + c mod 64]
       else [0xF0 + c div 262144, 0x80 + c div 4096 mod 64, 0x80 + c div 64 mod 64, 0x80 + c mod 64])"
  shows "utf8_encode c = bs"
proof -
  have "map word_of_nat (map unat bs) = bs" by (induction bs) auto
  with assms show ?thesis by (simp only: utf8_encode_def)
qed

lemma take_drop_nths:
  "i + k < length bs \<Longrightarrow> take (Suc k) (drop i bs) = map (\<lambda>j. bs ! (i + j)) [0..<Suc k]"
  by (rule nth_equalityI) (auto simp del: upt_Suc)

lemma utf8_step_sound:
  assumes "i < length bs" and "utf8_lead (bs ! i) = Some (n, w)" and "i + n < length bs"
    and "utf8_continuation bs (i + 1) n w = Some w'" and "\<not> utf8_out_of_range n w'"
  shows "\<exists>c. unicode_scalar c \<and> utf8_encode c = take (Suc n) (drop i bs)"
proof -
  define B where "B j = unat (bs ! (i + j))" for j
  define p where "p j = cont_payload (bs ! (i + j))" for j
  have nats: "map unat (take (Suc n) (drop i bs)) = map B [0..<Suc n]"
    using take_drop_nths [OF assms(3)] by (simp add: B_def del: upt_Suc)
  have Bp: "is_cont (bs ! (i + j)) \<Longrightarrow> B j = 128 + p j \<and> p j < 64" for j
    by (simp add: B_def p_def is_cont_unat cont_payload_less)
  have B0: "unat (bs ! i) = B 0" by (simp add: B_def)
  consider (one) "n = 0" "B 0 < 128" "w = word_of_nat (B 0)"
    | (two) h where "n = 1" "B 0 = 192 + h" "h < 32" "w = word_of_nat h"
    | (three) h where "n = 2" "B 0 = 224 + h" "h < 16" "w = word_of_nat h"
    | (four) h where "n = 3" "B 0 = 240 + h" "h < 8" "w = word_of_nat h"
    using assms(2) unfolding utf8_lead_nat B0
    by (auto split: if_splits simp del: of_nat_diff simp: nat_le_iff_add less_iff_Suc_add)
  then show ?thesis
  proof cases
    case one
    have "utf8_encode (B 0) = take (Suc n) (drop i bs)"
      by (rule utf8_encode_eqI) (use nats one in simp)
    with one show ?thesis by (intro exI [of _ "B 0"]) (simp add: unicode_scalar_def)
  next
    case two
    with assms(4) have c: "is_cont (bs ! (i + 1))" "w' = word_of_nat (h * 64 + p 1)"
      unfolding p_def by (auto simp: utf8_continuation_1 [unfolded One_nat_def] two
          split: if_splits simp del: of_nat_add of_nat_mult)
    note x = Bp [OF c(1)]
    have ok: "\<not> h * 64 + p 1 < 128" "unicode_scalar (h * 64 + p 1)"
      using assms(5) two x by (simp_all add: c(2) utf8_out_of_range_nat del: of_nat_add of_nat_mult)
    have "utf8_encode (h * 64 + p 1) = take (Suc n) (drop i bs)"
      using x ok nats two by (intro utf8_encode_eqI) simp
    with ok show ?thesis by blast
  next
    case three
    define k where "k = (h * 64 + p 1) * 64 + p 2"
    from three assms(4) have c: "is_cont (bs ! (i + 1))" "is_cont (bs ! (i + 2))" "w' = word_of_nat k"
      unfolding k_def p_def by (auto simp: utf8_continuation_2 split: if_splits simp del: of_nat_add of_nat_mult)
    note x = Bp [OF c(1)] Bp [OF c(2)]
    have k: "k div 64 = h * 64 + p 1" "k mod 64 = p 2" "k div 4096 = h"
      using x by (simp_all only: k_def div_64_64 div_mod_combine)
    have "k < 0x10000" using three x by (simp add: k_def)
    then have ok: "\<not> k < 0x800" "k < 0x10000" "unicode_scalar k"
      using assms(5) three by (simp_all add: c utf8_out_of_range_nat)
    have "utf8_encode k = take (Suc n) (drop i bs)"
      using x ok k nats three by (intro utf8_encode_eqI) (simp add: numeral_2_eq_2)
    with ok show ?thesis by blast
  next
    case four
    define k where "k = ((h * 64 + p 1) * 64 + p 2) * 64 + p 3"
    have idx: "i + 1 + 1 = i + 2" "i + 1 + 2 = i + 3" by simp_all
    have "h < 2 ^ 14" using four by simp
    from utf8_continuation_3 [OF this, of bs "i + 1", unfolded idx] assms(4)
    have c: "is_cont (bs ! (i + 1))" "is_cont (bs ! (i + 2))"
      "is_cont (bs ! (i + 3))" "w' = word_of_nat k"
      unfolding k_def p_def four(1,4) by (auto simp only: option.inject option.distinct split: if_splits)
    note x = Bp [OF c(1)] Bp [OF c(2)] Bp [OF c(3)]
    have k: "k div 64 = (h * 64 + p 1) * 64 + p 2" "k mod 64 = p 3" "k div 4096 = h * 64 + p 1"
      "k div 262144 = h"
      using x by (simp_all only: k_def div_64_64 div_mod_combine)
    have k2: "k div 4096 mod 64 = p 1" "k div 64 mod 64 = p 2"
      using x unfolding k(1) k(3) by (simp_all only: div_mod_combine)
    have "k < 2 ^ 32" using four x by (simp add: k_def)
    then have ok: "\<not> k < 0x10000" "unicode_scalar k"
      using assms(5) four by (simp_all add: c utf8_out_of_range_nat)
    have "utf8_encode k = take (Suc n) (drop i bs)"
      using x ok k(2,4) k2 nats four
      by (intro utf8_encode_eqI) (simp add: numeral_2_eq_2 numeral_3_eq_3)
    with ok show ?thesis by blast
  qed
qed

lemma utf8_step_complete:
  assumes "unicode_scalar c" and "i + length (utf8_encode c) \<le> length bs"
    and "take (length (utf8_encode c)) (drop i bs) = utf8_encode c"
  shows "\<exists>n w w'. length (utf8_encode c) = Suc n \<and> utf8_lead (bs ! i) = Some (n, w) \<and>
     utf8_continuation bs (i + 1) n w = Some w' \<and> \<not> utf8_out_of_range n w'"
proof -
  have enc: "unat (bs ! (i + j)) = unat (utf8_encode c ! j)" if "j < length (utf8_encode c)" for j
    using that assms(2) arg_cong [OF assms(3), of "\<lambda>xs. xs ! j"] by simp
  have small: "n < 256 \<Longrightarrow> unat (word_of_nat n :: u8) = n" for n
    by (simp add: unat_word_of_nat)
  have c: "c \<le> 0x10FFFF" using assms(1) by (simp add: unicode_scalar_def)
  define x y z where "x = c mod 64" and "y = c div 64 mod 64" and "z = c div 4096 mod 64"
  have less: "x < 64" "y < 64" "z < 64" by (simp_all add: x_def y_def z_def)
  have cont: "is_cont b \<and> cont_payload b = p" if "unat b = 128 + p" "p < 64" for b p
    using that by (simp add: is_cont_def cont_payload_def)
  consider (one) "c < 0x80" | (two) "0x80 \<le> c" "c < 0x800" | (three) "0x800 \<le> c" "c < 0x10000"
    | (four) "0x10000 \<le> c" by linarith
  then show ?thesis
  proof cases
    case one
    then have "utf8_encode c = [word_of_nat c]" by (simp add: utf8_encode_def)
    with one enc [of 0] assms(1) show ?thesis
      by (simp add: utf8_lead_nat small utf8_out_of_range_nat)
  next
    case two
    define h where "h = c div 64"
    have h: "2 \<le> h" "h < 32" "c = h * 64 + x" using two by (simp_all add: h_def x_def div_le_mono less_mult_imp_div_less)
    have e: "utf8_encode c = [word_of_nat (192 + h), word_of_nat (128 + x)]"
      using two by (simp add: utf8_encode_def h_def x_def)
    have b: "unat (bs ! i) = 192 + h" "is_cont (bs ! (i + 1)) \<and> cont_payload (bs ! (i + 1)) = x"
      using enc [of 0, unfolded e] enc [of 1, unfolded e] h(1,2) less
      by (simp_all add: small cont del: of_nat_add)
    have "utf8_continuation bs (i + 1) 1 (word_of_nat h) = Some (word_of_nat c)"
      using b(2) h by (simp add: utf8_continuation_1 [unfolded One_nat_def] del: of_nat_add of_nat_mult)
    then show ?thesis
      using b h(1,2) two assms(1)
      by (simp add: e utf8_lead_nat utf8_out_of_range_nat del: of_nat_add of_nat_mult)
  next
    case three
    define h where "h = c div 4096"
    have h: "h < 16" "c = (h * 64 + y) * 64 + x"
      using three by (simp_all add: h_def x_def y_def less_mult_imp_div_less div_64_64)
    have e: "utf8_encode c = [word_of_nat (224 + h), word_of_nat (128 + y), word_of_nat (128 + x)]"
      using three by (simp add: utf8_encode_def h_def x_def y_def)
    have b: "unat (bs ! i) = 224 + h" "is_cont (bs ! (i + 1)) \<and> cont_payload (bs ! (i + 1)) = y"
      "is_cont (bs ! (i + 2)) \<and> cont_payload (bs ! (i + 2)) = x"
      using enc [of 0, unfolded e] enc [of 1, unfolded e] enc [of 2, unfolded e] h(1) less
      by (simp_all add: small cont del: of_nat_add)
    have "utf8_continuation bs (i + 1) 2 (word_of_nat h) = Some (word_of_nat c)"
      using b h by (simp add: utf8_continuation_2 del: of_nat_add of_nat_mult)
    moreover have "\<not> utf8_out_of_range 2 (word_of_nat c)"
      using three c assms(1) by (simp add: utf8_out_of_range_nat)
    moreover have "utf8_lead (bs ! i) = Some (2, word_of_nat h)"
      using b(1) h(1) by (simp add: utf8_lead_nat)
    moreover have "length (utf8_encode c) = Suc 2" by (simp add: e)
    ultimately show ?thesis by blast
  next
    case four
    have idx: "i + 1 + 1 = i + 2" "i + 1 + 2 = i + 3" by simp_all
    define h where "h = c div 262144"
    have h: "h < 8" "c = ((h * 64 + z) * 64 + y) * 64 + x"
      using c by (simp_all add: h_def x_def y_def z_def less_mult_imp_div_less div_64_64)
    have e: "utf8_encode c = [word_of_nat (240 + h), word_of_nat (128 + z), word_of_nat (128 + y),
        word_of_nat (128 + x)]"
      using four by (simp add: utf8_encode_def h_def x_def y_def z_def)
    have b: "unat (bs ! i) = 240 + h" "is_cont (bs ! (i + 1)) \<and> cont_payload (bs ! (i + 1)) = z"
      "is_cont (bs ! (i + 2)) \<and> cont_payload (bs ! (i + 2)) = y"
      "is_cont (bs ! (i + 3)) \<and> cont_payload (bs ! (i + 3)) = x"
      using enc [of 0, unfolded e] enc [of 1, unfolded e] enc [of 2, unfolded e]
        enc [of 3, unfolded e] h(1) less
      by (simp_all add: small cont del: of_nat_add)
    have "utf8_continuation bs (i + 1) 3 (word_of_nat h) = Some (word_of_nat c)"
      using b h utf8_continuation_3 [of h bs "i + 1", unfolded idx] by simp
    moreover have "\<not> utf8_out_of_range 3 (word_of_nat c)"
      using four c assms(1) by (simp add: utf8_out_of_range_nat)
    moreover have "utf8_lead (bs ! i) = Some (3, word_of_nat h)"
      using b(1) h(1) by (simp add: utf8_lead_nat)
    moreover have "length (utf8_encode c) = Suc 3" by (simp add: e)
    ultimately show ?thesis by blast
  qed
qed

subsection \<open>Soundness and completeness\<close>

lemma length_utf8_encode: "0 < length (utf8_encode c)"
  by (simp add: utf8_encode_def)

lemma is_valid_utf8_from_end: "length bs \<le> i \<Longrightarrow> is_valid_utf8_from bs i"
  by (simp add: is_valid_utf8_from.simps)

lemma is_valid_utf8_from_encode:
  assumes "unicode_scalar c" and "drop i bs = utf8_encode c @ rest"
  shows "is_valid_utf8_from bs i = is_valid_utf8_from bs (i + length (utf8_encode c))"
proof -
  have len: "i + length (utf8_encode c) \<le> length bs"
    using arg_cong [OF assms(2), of length] length_utf8_encode [of c]
    unfolding length_append length_drop by linarith
  have "take (length (utf8_encode c)) (drop i bs) = utf8_encode c" using assms(2) by simp
  from utf8_step_complete [OF assms(1) len this] obtain n w w' where
    "length (utf8_encode c) = Suc n" "utf8_lead (bs ! i) = Some (n, w)"
    "utf8_continuation bs (i + 1) n w = Some w'" "\<not> utf8_out_of_range n w'"
    by blast
  with len show ?thesis by (subst is_valid_utf8_from.simps) simp
qed

lemma is_valid_utf8_from_complete:
  "\<forall>c\<in>set cps. unicode_scalar c \<Longrightarrow> drop i bs = concat (map utf8_encode cps) \<Longrightarrow> is_valid_utf8_from bs i"
proof (induction cps arbitrary: i)
  case Nil
  then show ?case by (simp add: is_valid_utf8_from_end)
next
  case (Cons c cps)
  then have d: "drop i bs = utf8_encode c @ concat (map utf8_encode cps)" by simp
  have "drop (i + length (utf8_encode c)) bs = drop (length (utf8_encode c)) (drop i bs)"
    by (simp add: add.commute)
  also have "\<dots> = concat (map utf8_encode cps)" unfolding d by simp
  finally show ?case
    using Cons is_valid_utf8_from_encode [OF _ d] by simp
qed

lemma is_valid_utf8_from_sound:
  "is_valid_utf8_from bs i \<Longrightarrow> \<exists>cps. (\<forall>c\<in>set cps. unicode_scalar c) \<and> drop i bs = concat (map utf8_encode cps)"
proof (induction "length bs - i" arbitrary: i rule: less_induct)
  case less
  show ?case
  proof (cases "i < length bs")
    case False
    then show ?thesis by (intro exI [of _ "[]"]) simp
  next
    case True
    with less.prems obtain n w w' where step: "utf8_lead (bs ! i) = Some (n, w)" "i + n < length bs"
      "utf8_continuation bs (i + 1) n w = Some w'" "\<not> utf8_out_of_range n w'"
      and rest: "is_valid_utf8_from bs (i + (n + 1))"
      by (subst (asm) is_valid_utf8_from.simps) (auto simp: not_le split: option.splits if_splits)
    obtain c where c: "unicode_scalar c" "utf8_encode c = take (Suc n) (drop i bs)"
      using utf8_step_sound [OF True step] by blast
    obtain cps where cps: "\<forall>c\<in>set cps. unicode_scalar c"
      "drop (i + (n + 1)) bs = concat (map utf8_encode cps)"
      using less.hyps [OF _ rest] diff_less_mono2 [of i "i + (n + 1)" "length bs"] True
      by (metis less_add_same_cancel1 add_gr_0 zero_less_one)
    have "drop i bs = take (Suc n) (drop i bs) @ drop (Suc n) (drop i bs)"
      by (rule append_take_drop_id [symmetric])
    also have "drop (Suc n) (drop i bs) = drop (i + (n + 1)) bs" by (simp add: add.commute)
    finally have "drop i bs = concat (map utf8_encode (c # cps))" using c(2) cps(2) by simp
    with c(1) cps(1) show ?thesis by (intro exI [of _ "c # cps"]) simp
  qed
qed

lemma is_valid_utf8_correct:
  "is_valid_utf8 bs \<longleftrightarrow> (\<exists>cps. (\<forall>c\<in>set cps. unicode_scalar c) \<and> bs = concat (map utf8_encode cps))"
  unfolding is_valid_utf8_def
  using is_valid_utf8_from_sound [of bs 0] is_valid_utf8_from_complete [of _ 0 bs] by auto

text \<open>C9: UTF-8 validation. The validator accepts a byte span exactly when it is the
  concatenation of the shortest-form UTF-8 encodings of a list of Unicode scalar values: no
  overlong form, no surrogate, nothing above U+10FFFF, and no truncated sequence passes.\<close>

theorem is_valid_utf8_iff_encoding:
  "is_valid_utf8 bs \<longleftrightarrow> (\<exists>cps. list_all unicode_scalar cps \<and> bs = concat (map utf8_encode cps))"
  by (simp add: is_valid_utf8_correct list_all_iff)

lemma is_valid_ascii_iff: "is_valid_ascii_scalar bs \<longleftrightarrow> (\<forall>b\<in>set bs. unat b < 128)"
  by (induction bs) (simp_all add: ascii_mask)

lemma utf8_encode_ascii: "unat b < 128 \<Longrightarrow> utf8_encode (unat b) = [b]"
  by (simp add: utf8_encode_def)

lemma ascii_is_utf8: "is_valid_ascii_scalar bs \<Longrightarrow> is_valid_utf8 bs"
proof -
  assume "is_valid_ascii_scalar bs"
  then have all: "\<forall>b\<in>set bs. unat b < 128" by (simp add: is_valid_ascii_iff)
  then have "concat (map utf8_encode (map unat bs)) = bs"
    by (induction bs) (simp_all add: utf8_encode_ascii)
  moreover have "\<forall>c\<in>set (map unat bs). unicode_scalar c"
    using all by (auto simp: unicode_scalar_def)
  ultimately show ?thesis unfolding is_valid_utf8_correct by metis
qed

text \<open>The two encodings of a string field. Ascii validation accepts exactly the spans of
  bytes below 128, and everything it accepts is also accepted as UTF-8.\<close>

theorem validate_string_ascii:
  "validate_string Ascii bs = list_all (\<lambda>b. unat b < 128) bs \<and>
   (validate_string Ascii bs \<and> validate_string Utf8 bs) = validate_string Ascii bs"
  using ascii_is_utf8 [of bs] by (auto simp: validate_string_def is_valid_ascii_iff list_all_iff)

text \<open>Vectorised validation. With the documented behaviour of simdutf, whose routines decide
  the validity of the whole span, the dispatch on the span length cannot be observed: the run-time
  validators agree with the scalar ones on every span.\<close>

theorem runtime_validation_scalar:
  assumes "\<And>xs. simd_ascii xs \<longleftrightarrow> list_all (\<lambda>b. unat b < 128) xs"
    and "\<And>xs. simd_utf8 xs \<longleftrightarrow> (\<exists>cps. list_all unicode_scalar cps \<and> xs = concat (map utf8_encode cps))"
  shows "runtime_is_valid_ascii simd_ascii bs = is_valid_ascii_scalar bs \<and>
    runtime_is_valid_utf8 simd_utf8 bs = is_valid_utf8 bs"
  using assms
  by (simp_all add: runtime_is_valid_ascii_def runtime_is_valid_utf8_def is_valid_ascii_iff
      is_valid_utf8_correct list_all_iff)

theorem runtime_validation_scalar_witness:
  "runtime_is_valid_ascii (list_all (\<lambda>b. unat b < 128)) (replicate 40 65) = is_valid_ascii_scalar (replicate 40 65) \<and>
   runtime_is_valid_utf8 (\<lambda>xs. \<exists>cps. list_all unicode_scalar cps \<and> xs = concat (map utf8_encode cps)) (replicate 40 200)
     = is_valid_utf8 (replicate 40 200)"
  using runtime_validation_scalar [of "list_all (\<lambda>b. unat b < 128)"
      "\<lambda>xs. \<exists>cps. list_all unicode_scalar cps \<and> xs = concat (map utf8_encode cps)"] by blast

end
