(* ===== verification/Checksums.thy ===== *)
theory Checksums
  imports Text_Validation
begin

text \<open>
  The checksum algorithms and the registry of \<open>compiler/checksum_registry.cpp\<close>, and the
  run-time dispatch of \<open>decoder/runtime_byte_ops.cpp\<close>. The table-driven CRC loops are shown
  equal to the bit-serial shift register they optimise, and to detect every corruption of a
  single byte. The vector operations of the library Highway and the routine of the library
  crc32c are parameters of the dispatching functions.
\<close>

subsection \<open>The algorithms\<close>

definition kCrcTableEntries :: nat where "kCrcTableEntries = 256"
definition kCrc16CcittPolynomial :: u16 where "kCrc16CcittPolynomial = 0x8408"
definition kCrc32Polynomial :: u32 where "kCrc32Polynomial = 0xEDB88320"
definition kCrc32cPolynomial :: u32 where "kCrc32cPolynomial = 0x82F63B78"
definition kCrc16InitialValue :: u16 where "kCrc16InitialValue = 0xFFFF"
definition kCrc32InitialValue :: u32 where "kCrc32InitialValue = 0xFFFFFFFF"

definition crc_table_bit :: "'a::len word \<Rightarrow> 'a word \<Rightarrow> 'a word" where
  "crc_table_bit polynomial value =
     (if value AND 1 \<noteq> 0 then drop_bit 1 value XOR polynomial else drop_bit 1 value)"

definition make_crc_table :: "'a::len word \<Rightarrow> 'a word list" where
  "make_crc_table polynomial =
     map (\<lambda>index. (crc_table_bit polynomial ^^ kBitsPerByte) (word_of_nat index)) [0..<kCrcTableEntries]"

definition kCrc16CcittTable :: "u16 list" where "kCrc16CcittTable = make_crc_table kCrc16CcittPolynomial"
definition kCrc32Table :: "u32 list" where "kCrc32Table = make_crc_table kCrc32Polynomial"
definition kCrc32cTable :: "u32 list" where "kCrc32cTable = make_crc_table kCrc32cPolynomial"

text \<open>The loop shared by the three CRC functions, for the width of the register.\<close>

definition crc_table_byte :: "'a::len word list \<Rightarrow> 'a word \<Rightarrow> u8 \<Rightarrow> 'a word" where
  "crc_table_byte table crc byte =
     (let index = (ucast (crc XOR ucast byte) :: u8)
      in drop_bit 8 crc XOR table ! unat index)"

fun crc_table_loop :: "'a::len word list \<Rightarrow> 'a word \<Rightarrow> bytes \<Rightarrow> 'a word" where
  "crc_table_loop table crc [] = crc"
| "crc_table_loop table crc (byte # bs) = crc_table_loop table (crc_table_byte table crc byte) bs"

definition checksum_crc16_ccitt :: "bytes \<Rightarrow> u64" where
  "checksum_crc16_ccitt bs = ucast (NOT (crc_table_loop kCrc16CcittTable kCrc16InitialValue bs))"

definition checksum_crc32 :: "bytes \<Rightarrow> u64" where
  "checksum_crc32 bs = ucast (NOT (crc_table_loop kCrc32Table kCrc32InitialValue bs))"

definition checksum_crc32c :: "bytes \<Rightarrow> u64" where
  "checksum_crc32c bs = ucast (NOT (crc_table_loop kCrc32cTable kCrc32InitialValue bs))"

fun xor8_loop :: "u8 \<Rightarrow> bytes \<Rightarrow> u8" where
  "xor8_loop value [] = value"
| "xor8_loop value (byte # bs) = xor8_loop (value XOR byte) bs"

definition checksum_xor8 :: "bytes \<Rightarrow> u64" where
  "checksum_xor8 bs = ucast (xor8_loop 0 bs)"

text \<open>The accumulator is a \<open>uint32_t\<close>: the sum wraps, the low 16 bits are returned.\<close>

fun sum16_loop :: "u32 \<Rightarrow> bytes \<Rightarrow> u32" where
  "sum16_loop acc [] = acc"
| "sum16_loop acc (byte # bs) = sum16_loop (acc + ucast byte) bs"

definition checksum_sum16 :: "bytes \<Rightarrow> u64" where
  "checksum_sum16 bs = ucast (ucast (sum16_loop 0 bs AND 0xFFFF) :: u16)"

subsection \<open>The registry\<close>

type_synonym checksum_function = "bytes \<Rightarrow> u64"

record checksum_algorithm_spec =
  ca_name :: string
  ca_result_width_bytes :: nat
  ca_function :: "checksum_function option"

datatype registry_error =
    ChecksumNameEmpty | ChecksumFunctionNull | ChecksumWidthRange
  | DuplicateChecksumAlgorithm string | UnknownChecksumAlgorithm string

fun registry_error_code :: "registry_error \<Rightarrow> status_code" where
  "registry_error_code (UnknownChecksumAlgorithm _) = SC_NotFound"
| "registry_error_code _ = SC_InvalidArgument"

text \<open>\<open>std::tolower\<close> in the C locale.\<close>

definition tolower :: "char \<Rightarrow> char" where
  "tolower c = (let n = (of_char c :: nat) in if 65 \<le> n \<and> n \<le> 90 then char_of (n + 32) else c)"

definition normalize_name :: "string \<Rightarrow> string" where
  "normalize_name value = map tolower value"

type_synonym registry = "string \<Rightarrow> checksum_algorithm_spec option"

definition builtin_registry :: registry where
  "builtin_registry =
     [''crc16_ccitt'' \<mapsto> \<lparr>ca_name = ''crc16_ccitt'', ca_result_width_bytes = 2,
                          ca_function = Some checksum_crc16_ccitt\<rparr>,
      ''crc32'' \<mapsto> \<lparr>ca_name = ''crc32'', ca_result_width_bytes = 4,
                    ca_function = Some checksum_crc32\<rparr>,
      ''crc32c'' \<mapsto> \<lparr>ca_name = ''crc32c'', ca_result_width_bytes = 4,
                     ca_function = Some checksum_crc32c\<rparr>,
      ''xor8'' \<mapsto> \<lparr>ca_name = ''xor8'', ca_result_width_bytes = 1,
                   ca_function = Some checksum_xor8\<rparr>,
      ''sum16'' \<mapsto> \<lparr>ca_name = ''sum16'', ca_result_width_bytes = 2,
                    ca_function = Some checksum_sum16\<rparr>]"

definition register_checksum_algorithm ::
  "checksum_algorithm_spec \<Rightarrow> registry \<Rightarrow> registry_error + registry" where
  "register_checksum_algorithm spec reg =
     (if ca_name spec = '''' then Inl ChecksumNameEmpty
      else if ca_function spec = None then Inl ChecksumFunctionNull
      else if ca_result_width_bytes spec = 0 \<or> ca_result_width_bytes spec > 8 then Inl ChecksumWidthRange
      else
        let normalized = normalize_name (ca_name spec) in
        if reg normalized \<noteq> None then Inl (DuplicateChecksumAlgorithm normalized)
        else Inr (reg(normalized \<mapsto> spec\<lparr>ca_name := normalized\<rparr>)))"

definition find_checksum_algorithm :: "string \<Rightarrow> registry \<Rightarrow> registry_error + checksum_algorithm_spec" where
  "find_checksum_algorithm name reg =
     (if name = '''' then Inl ChecksumNameEmpty
      else
        let normalized = normalize_name name in
        (case reg normalized of
           None \<Rightarrow> Inl (UnknownChecksumAlgorithm normalized)
         | Some spec \<Rightarrow> Inr spec))"

subsection \<open>Run-time dispatch\<close>

text \<open>
  \<open>hwy_checksum_xor8\<close> for a vector width of \<open>lanes\<close> bytes: \<open>vxor\<close> is \<open>hn::Xor\<close>, the loaded
  vector is the next \<open>lanes\<close> bytes. The recursion consumes the span in the order of the two
  loops; the accumulator is folded into \<open>value\<close> between them.
\<close>

function hwy_xor_blocks :: "(bytes \<Rightarrow> bytes \<Rightarrow> bytes) \<Rightarrow> nat \<Rightarrow> bytes \<Rightarrow> bytes \<Rightarrow> bytes \<times> bytes" where
  "hwy_xor_blocks vxor lanes accumulator bs =
     (if 0 < lanes \<and> lanes \<le> length bs
      then hwy_xor_blocks vxor lanes (vxor accumulator (take lanes bs)) (drop lanes bs)
      else (accumulator, bs))"
  by pat_completeness auto
termination by (relation "measure (\<lambda>(_, _, _, bs). length bs)") auto

declare hwy_xor_blocks.simps [simp del]

definition hwy_checksum_xor8 :: "(bytes \<Rightarrow> bytes \<Rightarrow> bytes) \<Rightarrow> nat \<Rightarrow> bytes \<Rightarrow> u8" where
  "hwy_checksum_xor8 vxor lanes bs =
     (let (accumulator, rest) = hwy_xor_blocks vxor lanes (replicate lanes 0) bs;
          value = xor8_loop 0 accumulator
      in xor8_loop value rest)"

text \<open>\<open>lane_sum\<close> is \<open>hn::GetLane(hn::SumOfLanes(d64, hn::SumsOf8(chunk)))\<close>.\<close>

function hwy_sum_blocks :: "(bytes \<Rightarrow> u64) \<Rightarrow> nat \<Rightarrow> u64 \<Rightarrow> bytes \<Rightarrow> u64 \<times> bytes" where
  "hwy_sum_blocks lane_sum lanes acc bs =
     (if 0 < lanes \<and> lanes \<le> length bs
      then hwy_sum_blocks lane_sum lanes (acc + lane_sum (take lanes bs)) (drop lanes bs)
      else (acc, bs))"
  by pat_completeness auto
termination by (relation "measure (\<lambda>(_, _, _, bs). length bs)") auto

declare hwy_sum_blocks.simps [simp del]

fun sum64_loop :: "u64 \<Rightarrow> bytes \<Rightarrow> u64" where
  "sum64_loop acc [] = acc"
| "sum64_loop acc (byte # bs) = sum64_loop (acc + ucast byte) bs"

definition hwy_checksum_sum16 :: "(bytes \<Rightarrow> u64) \<Rightarrow> nat \<Rightarrow> bytes \<Rightarrow> u16" where
  "hwy_checksum_sum16 lane_sum lanes bs =
     (let (acc, rest) = hwy_sum_blocks lane_sum lanes 0 bs
      in ucast (sum64_loop acc rest AND 0xFFFF))"

definition runtime_checksum_xor8 :: "(bytes \<Rightarrow> bytes \<Rightarrow> bytes) \<Rightarrow> nat \<Rightarrow> bytes \<Rightarrow> u64" where
  "runtime_checksum_xor8 vxor lanes bs =
     (if length bs < 64 then checksum_xor8 bs else ucast (hwy_checksum_xor8 vxor lanes bs))"

definition runtime_checksum_sum16 :: "(bytes \<Rightarrow> u64) \<Rightarrow> nat \<Rightarrow> bytes \<Rightarrow> u64" where
  "runtime_checksum_sum16 lane_sum lanes bs =
     (if length bs < 64 then checksum_sum16 bs else ucast (hwy_checksum_sum16 lane_sum lanes bs))"

definition runtime_checksum_crc32c :: "(bytes \<Rightarrow> u32) \<Rightarrow> bytes \<Rightarrow> u64" where
  "runtime_checksum_crc32c simd_crc32c bs =
     (if length bs < 64 then ucast (ucast (checksum_crc32c bs) :: u32) else ucast (simd_crc32c bs))"

subsection \<open>The bit-serial reference\<close>

text \<open>
  A reflected CRC as a shift register: a message bit is fed in at the low end, and the
  polynomial is added when the bit shifted out is set.
\<close>

definition crc_serial_bit :: "'a::len word \<Rightarrow> 'a word \<Rightarrow> bool \<Rightarrow> 'a word" where
  "crc_serial_bit polynomial crc b =
     (if bit crc 0 \<noteq> b then drop_bit 1 crc XOR polynomial else drop_bit 1 crc)"

definition message_bits :: "bytes \<Rightarrow> bool list" where
  "message_bits bs = concat (map (\<lambda>byte. map (bit byte) [0..<8]) bs)"

definition crc_serial :: "'a::len word \<Rightarrow> 'a word \<Rightarrow> bytes \<Rightarrow> 'a word" where
  "crc_serial polynomial crc bs = foldl (crc_serial_bit polynomial) crc (message_bits bs)"

lemma crc_table_bit_alt:
  "crc_table_bit p x = drop_bit 1 x XOR (if bit x 0 then p else 0)"
  by (simp add: crc_table_bit_def and_one_eq bit_0 odd_iff_mod_2_eq_one)

lemma crc_table_bit_xor: "crc_table_bit p (x XOR y) = crc_table_bit p x XOR crc_table_bit p y"
  unfolding crc_table_bit_alt
  by (rule bit_word_eqI) (auto simp: bit_xor_iff bit_drop_bit_eq)

lemma crc_table_bits_xor:
  "(crc_table_bit p ^^ n) (x XOR y) = (crc_table_bit p ^^ n) x XOR (crc_table_bit p ^^ n) y"
  by (induction n) (simp_all add: crc_table_bit_xor)

lemma crc_table_bits_shift:
  "(crc_table_bit p ^^ n) (push_bit n (drop_bit n x)) = drop_bit n (x :: 'a::len word)"
proof (induction n arbitrary: x)
  case (Suc n)
  have "crc_table_bit p (push_bit (Suc n) (drop_bit (Suc n) x)) =
        push_bit n (drop_bit n (drop_bit 1 x))"
  proof (rule bit_word_eqI)
    fix k assume "k < LENGTH('a)"
    have "\<not> bit (push_bit (Suc n) (drop_bit (Suc n) x)) 0" by (simp only: bit_push_bit_iff) simp
    then show "bit (crc_table_bit p (push_bit (Suc n) (drop_bit (Suc n) x))) k \<longleftrightarrow>
      bit (push_bit n (drop_bit n (drop_bit 1 x))) k"
      unfolding crc_table_bit_alt
      by (cases "n \<le> k")
        (auto simp add: bit_xor_iff bit_drop_bit_eq bit_push_bit_iff \<open>k < LENGTH('a)\<close> Suc_diff_le
          simp del: push_bit_Suc drop_bit_Suc dest: bit_imp_le_length)
  qed
  then have "(crc_table_bit p ^^ Suc n) (push_bit (Suc n) (drop_bit (Suc n) x)) =
      drop_bit n (drop_bit 1 x)"
    unfolding funpow_Suc_right o_apply by (simp only: Suc.IH)
  then show ?case by (simp only: drop_bit_drop_bit) simp
qed simp

lemma crc_serial_bit_alt: "crc_serial_bit p crc b = crc_table_bit p (crc XOR of_bool b)"
  unfolding crc_table_bit_alt crc_serial_bit_def
  by (rule bit_word_eqI)
    (auto simp: bit_xor_iff bit_drop_bit_eq bit_1_iff dest: bit_imp_le_length)

lemma take_bit_Suc_split:
  "take_bit (Suc n) (x :: 'a::len word) = take_bit n x XOR push_bit n (of_bool (bit x n))"
  by (rule bit_word_eqI)
    (auto simp: bit_xor_iff bit_take_bit_iff bit_push_bit_iff bit_1_iff less_Suc_eq)

lemma crc_serial_bits:
  assumes "n \<le> LENGTH('a)"
  shows "foldl (crc_serial_bit p) crc (map (bit x) [0..<n]) = (crc_table_bit p ^^ n) (crc XOR take_bit n (x :: 'a::len word))"
  using assms
proof (induction n)
  case (Suc n)
  have "push_bit n (drop_bit n (push_bit n (of_bool (bit x n)) :: 'a word)) = push_bit n (of_bool (bit x n))"
    by (rule bit_word_eqI) (auto simp: bit_push_bit_iff bit_drop_bit_eq)
  moreover have "drop_bit n (push_bit n (of_bool (bit x n)) :: 'a word) = of_bool (bit x n)"
    using Suc.prems by (intro bit_word_eqI) (auto simp: bit_push_bit_iff bit_drop_bit_eq bit_1_iff)
  ultimately have shift: "(crc_table_bit p ^^ n) (push_bit n (of_bool (bit x n))) = of_bool (bit x n)"
    using crc_table_bits_shift [of n p "push_bit n (of_bool (bit x n))"] by simp
  have "foldl (crc_serial_bit p) crc (map (bit x) [0..<Suc n]) =
      crc_table_bit p ((crc_table_bit p ^^ n) (crc XOR take_bit n x) XOR of_bool (bit x n))"
    using Suc by (simp add: crc_serial_bit_alt [of p _ "bit x n"])
  also have "\<dots> = crc_table_bit p ((crc_table_bit p ^^ n) ((crc XOR take_bit n x) XOR push_bit n (of_bool (bit x n))))"
    by (simp only: crc_table_bits_xor shift)
  finally show ?case by (simp add: take_bit_Suc_split xor.assoc)
qed simp

lemma nth_make_crc_table:
  "i < 256 \<Longrightarrow> make_crc_table p ! i = (crc_table_bit p ^^ 8) (word_of_nat i)"
  by (simp add: make_crc_table_def kCrcTableEntries_def kBitsPerByte_def)

lemma crc_table_byte_eq:
  assumes "8 \<le> LENGTH('a::len)"
  shows "crc_table_byte (make_crc_table p) crc byte = (crc_table_bit p ^^ 8) ((crc :: 'a word) XOR ucast byte)"
proof -
  define x where "x = crc XOR ucast byte"
  have high: "drop_bit 8 x = drop_bit 8 crc"
    using assms unfolding x_def
    by (intro bit_word_eqI) (auto simp: bit_xor_iff bit_drop_bit_eq bit_ucast_iff dest: bit_imp_le_length)
  have low: "word_of_nat (unat (ucast x :: u8)) = take_bit 8 x"
    by (rule sym, rule word_of_unat) (simp only: unsigned_ucast_eq unsigned_take_bit_eq, simp)
  have "x = push_bit 8 (drop_bit 8 x) XOR take_bit 8 x"
    by (rule bit_word_eqI) (auto simp: bit_xor_iff bit_drop_bit_eq bit_push_bit_iff bit_take_bit_iff)
  then have "(crc_table_bit p ^^ 8) x = drop_bit 8 x XOR (crc_table_bit p ^^ 8) (take_bit 8 x)"
    by (metis crc_table_bits_xor crc_table_bits_shift)
  then show ?thesis
    using unat_u8_less [of "ucast x"]
    by (simp add: crc_table_byte_def Let_def nth_make_crc_table high low del: of_nat_unat flip: x_def)
qed

lemma crc_table_loop_serial:
  assumes "8 \<le> LENGTH('a::len)"
  shows "crc_table_loop (make_crc_table p) crc bs = crc_serial (p :: 'a word) crc bs"
proof (induction bs arbitrary: crc)
  case Nil
  show ?case by (simp add: crc_serial_def message_bits_def)
next
  case (Cons b bs)
  have bits: "map (bit b) [0..<8] = map (bit (ucast b :: 'a word)) [0..<8]"
    using assms by (auto simp: bit_ucast_iff dest: bit_imp_le_length)
  have tb: "take_bit 8 (ucast b :: 'a word) = ucast b"
    by (rule bit_word_eqI) (auto simp: bit_take_bit_iff bit_ucast_iff dest: bit_imp_le_length)
  have "foldl (crc_serial_bit p) crc (map (bit b) [0..<8]) = crc_table_byte (make_crc_table p) crc b"
    unfolding bits crc_serial_bits [OF assms] tb crc_table_byte_eq [OF assms] ..
  then show ?case by (simp add: Cons crc_serial_def message_bits_def)
qed

subsection \<open>Error detection\<close>

text \<open>
  With the top bit of the polynomial set, the byte step of the register is injective in the
  register and, for equal registers, in the byte.
\<close>

lemma crc_table_bit_eq_0:
  assumes "bit (p :: 'a::len word) (LENGTH('a) - 1)"
  shows "crc_table_bit p x = 0 \<longleftrightarrow> x = 0"
proof
  assume z: "crc_table_bit p x = 0"
  have nb: "\<not> bit (drop_bit 1 x) (LENGTH('a) - 1)"
    by (auto simp: bit_drop_bit_eq dest: bit_imp_le_length)
  have b0: "\<not> bit x 0"
  proof
    assume "bit x 0"
    then have "bit (crc_table_bit p x) (LENGTH('a) - 1)"
      using assms nb by (simp add: crc_table_bit_alt bit_xor_iff)
    with z show False by simp
  qed
  with z have "drop_bit 1 x = 0" by (simp add: crc_table_bit_alt)
  show "x = 0"
  proof (rule bit_word_eqI)
    fix n
    show "bit x n \<longleftrightarrow> bit 0 n"
      using b0 arg_cong [OF \<open>drop_bit 1 x = 0\<close>, of "\<lambda>w. bit w (n - 1)"]
      by (cases n) (simp_all add: bit_drop_bit_eq)
  qed
qed (simp add: crc_table_bit_def)

lemma crc_table_bits_inj:
  assumes "bit (p :: 'a::len word) (LENGTH('a) - 1)"
  shows "(crc_table_bit p ^^ n) x = (crc_table_bit p ^^ n) y \<longleftrightarrow> x = y"
proof -
  have zero: "(crc_table_bit p ^^ n) z = 0 \<longleftrightarrow> z = 0" for z
    by (induction n) (simp_all add: crc_table_bit_eq_0 [OF assms])
  have xor0: "a XOR b = 0 \<longleftrightarrow> a = b" for a b :: "'a word"
    by (metis xor.assoc xor.right_neutral xor_self_eq)
  show ?thesis using zero [of "x XOR y"] by (simp add: crc_table_bits_xor xor0)
qed

lemma crc_table_loop_append:
  "crc_table_loop t crc (xs @ ys) = crc_table_loop t (crc_table_loop t crc xs) ys"
  by (induction xs arbitrary: crc) simp_all

lemma xor_left_cancel: "a XOR b = a XOR c \<longleftrightarrow> b = (c :: 'a::len word)"
  by (metis xor.assoc xor_self_eq xor.left_neutral)

lemma xor_right_cancel: "b XOR a = c XOR a \<longleftrightarrow> b = (c :: 'a::len word)"
  by (metis xor.commute xor_left_cancel)

lemma ucast_u8_inj: "8 \<le> LENGTH('a) \<Longrightarrow> (ucast (b :: u8) :: 'a::len word) = ucast c \<longleftrightarrow> b = c"
  using unat_ucast_up [where 'a = 8 and 'b = 'a, of b] unat_ucast_up [where 'a = 8 and 'b = 'a, of c]
  by (auto simp: word_unat_eq_iff)

lemma crc_table_loop_inj:
  assumes "8 \<le> LENGTH('a)" and "bit (p :: 'a::len word) (LENGTH('a) - 1)"
  shows "crc_table_loop (make_crc_table p) c bs = crc_table_loop (make_crc_table p) c' bs \<longleftrightarrow> c = c'"
  by (induction bs arbitrary: c c')
    (simp_all add: crc_table_byte_eq [OF assms(1)] crc_table_bits_inj [OF assms(2)] xor_right_cancel)

lemma crc_table_loop_single_byte:
  assumes "8 \<le> LENGTH('a)" and "bit (p :: 'a::len word) (LENGTH('a) - 1)"
  shows "crc_table_loop (make_crc_table p) c (xs @ b # ys) =
      crc_table_loop (make_crc_table p) c (xs @ b' # ys) \<longleftrightarrow> b = b'"
  by (simp add: crc_table_loop_append crc_table_loop_inj [OF assms] crc_table_byte_eq [OF assms(1)]
      crc_table_bits_inj [OF assms(2)] xor_left_cancel ucast_u8_inj [OF assms(1)])

lemma not_inj: "NOT a = NOT b \<longleftrightarrow> a = (b :: 'a::len word)"
  by (metis bit.double_compl)

lemma ucast_not_inj:
  "LENGTH('a) \<le> 64 \<Longrightarrow> (ucast (NOT (a :: 'a::len word)) :: u64) = ucast (NOT b) \<longleftrightarrow> a = b"
  using unat_ucast_up [where 'a = 'a and 'b = 64, of "NOT a"] unat_ucast_up [where 'a = 'a and 'b = 64, of "NOT b"]
  by (simp add: word_unat_eq_iff [where 'a = 64]) (metis not_inj word_unat_eq_iff)

lemma polynomial_top_bits:
  "bit kCrc16CcittPolynomial (LENGTH(16) - 1)"
  "bit kCrc32Polynomial (LENGTH(32) - 1)"
  "bit kCrc32cPolynomial (LENGTH(32) - 1)"
  unfolding kCrc16CcittPolynomial_def kCrc32Polynomial_def kCrc32cPolynomial_def by simp_all

lemma crc_initial_ones: "(0xFFFF :: u16) = - 1" "(0xFFFFFFFF :: u32) = - 1"
  by simp_all

text \<open>C13: CRC tables. Each table-driven CRC is the complement of the bit-serial CRC of its
  polynomial, started from the all-ones register.\<close>

theorem crc_tables_compute_serial_crc:
  "checksum_crc16_ccitt bs = ucast (NOT (crc_serial kCrc16CcittPolynomial (-1) bs)) \<and>
   checksum_crc32 bs = ucast (NOT (crc_serial kCrc32Polynomial (-1) bs)) \<and>
   checksum_crc32c bs = ucast (NOT (crc_serial kCrc32cPolynomial (-1) bs))"
  by (simp_all add: checksum_crc16_ccitt_def checksum_crc32_def checksum_crc32c_def kCrc16CcittTable_def
      kCrc32Table_def kCrc32cTable_def crc_table_loop_serial kCrc16InitialValue_def kCrc32InitialValue_def
      flip: crc_initial_ones)

text \<open>Error detection. Each CRC changes whenever a single byte of the message is replaced
  by a different one.\<close>

theorem crc_detects_single_byte_change:
  "(checksum_crc16_ccitt (xs @ b # ys) = checksum_crc16_ccitt (xs @ b' # ys)) = (b = b') \<and>
   (checksum_crc32 (xs @ b # ys) = checksum_crc32 (xs @ b' # ys)) = (b = b') \<and>
   (checksum_crc32c (xs @ b # ys) = checksum_crc32c (xs @ b' # ys)) = (b = b')"
  using polynomial_top_bits
  by (simp_all add: checksum_crc16_ccitt_def checksum_crc32_def checksum_crc32c_def kCrc16CcittTable_def
      kCrc32Table_def kCrc32cTable_def ucast_not_inj crc_table_loop_single_byte)

subsection \<open>The simple checksums\<close>

lemma xor8_loop_foldr: "xor8_loop v bs = v XOR foldr (XOR) bs 0"
  by (induction bs arbitrary: v) (simp_all add: xor.assoc)

lemma xor8_loop_append: "xor8_loop v (xs @ ys) = xor8_loop (xor8_loop v xs) ys"
  by (induction xs arbitrary: v) simp_all

definition sum_bytes :: "bytes \<Rightarrow> nat" where
  "sum_bytes bs = sum_list (map unat bs)"

lemma sum_bytes_simps [simp]:
  "sum_bytes [] = 0" "sum_bytes (b # bs) = unat b + sum_bytes bs"
  "sum_bytes (xs @ ys) = sum_bytes xs + sum_bytes ys"
  by (simp_all add: sum_bytes_def)

lemma ucast_eq_of_nat: "(ucast (b :: u8) :: 'a::len word) = word_of_nat (unat b)"
  by simp

lemma sum16_loop_eq: "sum16_loop acc bs = acc + word_of_nat (sum_bytes bs)"
  by (induction bs arbitrary: acc) (simp_all add: ac_simps)

lemma sum64_loop_eq: "sum64_loop acc bs = acc + word_of_nat (sum_bytes bs)"
  by (induction bs arbitrary: acc) (simp_all add: ac_simps)

lemma low16_of_nat:
  assumes "16 \<le> LENGTH('a)"
  shows "(ucast ((word_of_nat n :: 'a::len word) AND 0xFFFF) :: u16) = word_of_nat n"
proof -
  have "(0xFFFF :: 'a word) = mask 16" by (simp add: mask_eq_exp_minus_1)
  then have "(word_of_nat n :: 'a word) AND 0xFFFF = take_bit 16 (word_of_nat n)"
    by (simp add: take_bit_eq_mask)
  then show ?thesis
    using assms
    by (intro bit_word_eqI) (auto simp: bit_ucast_iff bit_take_bit_iff bit_of_nat_iff possible_bit_word)
qed

lemma checksum_sum16_eq: "checksum_sum16 bs = word_of_nat (sum_bytes bs mod 2 ^ 16)"
proof -
  have "(ucast (word_of_nat (sum_bytes bs) :: u16) :: u64) = word_of_nat (sum_bytes bs mod 2 ^ 16)"
    by (rule word_of_unat) (simp add: unsigned_of_nat take_bit_nat_def unat_ucast_up)
  then show ?thesis by (simp add: checksum_sum16_def sum16_loop_eq low16_of_nat)
qed

lemma map2_xor_foldr:
  "length xs = length ys \<Longrightarrow> foldr (XOR) (map2 (XOR) xs ys) 0 = foldr (XOR) xs 0 XOR foldr (XOR) (ys :: bytes) 0"
  by (induction xs ys rule: list_induct2) (simp_all add: ac_simps)

lemma hwy_xor_blocks_foldr:
  assumes "\<And>xs ys. length xs = length ys \<Longrightarrow> vxor xs ys = map2 (XOR) xs ys"
    and "length acc = lanes"
  shows "hwy_xor_blocks vxor lanes acc bs = (acc', rest) \<Longrightarrow>
     foldr (XOR) acc' 0 XOR foldr (XOR) rest 0 = foldr (XOR) acc 0 XOR foldr (XOR) bs 0"
  using assms(2)
proof (induction "length bs" arbitrary: acc bs rule: less_induct)
  case less
  show ?case
  proof (cases "0 < lanes \<and> lanes \<le> length bs")
    case False
    with less show ?thesis by (subst (asm) hwy_xor_blocks.simps) auto
  next
    case True
    then have step: "hwy_xor_blocks vxor lanes (map2 (XOR) acc (take lanes bs)) (drop lanes bs) = (acc', rest)"
      using less.prems assms(1) [of acc "take lanes bs"] by (subst (asm) hwy_xor_blocks.simps) simp
    have "foldr (XOR) acc' 0 XOR foldr (XOR) rest 0 =
        foldr (XOR) (map2 (XOR) acc (take lanes bs)) 0 XOR foldr (XOR) (drop lanes bs) 0"
      by (rule less.hyps [OF _ step]) (use True less.prems in \<open>auto intro: diff_less\<close>)
    also have "\<dots> = foldr (XOR) acc 0 XOR (foldr (XOR) (take lanes bs) 0 XOR foldr (XOR) (drop lanes bs) 0)"
      using True less.prems by (simp add: map2_xor_foldr xor.assoc)
    also have "foldr (XOR) (take lanes bs) 0 XOR foldr (XOR) (drop lanes bs) 0 = foldr (XOR) bs 0"
      using xor8_loop_append [of 0 "take lanes bs" "drop lanes bs"]
      by (simp add: xor8_loop_foldr del: xor8_loop.simps)
    finally show ?thesis .
  qed
qed

lemma foldr_xor_zeros: "foldr (XOR) (replicate n (0 :: u8)) 0 = 0"
  by (induction n) (simp_all add: funpow_swap1 del: foldr_replicate)

lemma hwy_checksum_xor8_eq:
  assumes "\<And>xs ys. length xs = length ys \<Longrightarrow> vxor xs ys = map2 (XOR) xs ys"
  shows "hwy_checksum_xor8 vxor lanes bs = xor8_loop 0 bs"
proof -
  obtain acc rest where r: "hwy_xor_blocks vxor lanes (replicate lanes 0) bs = (acc, rest)" by fastforce
  show ?thesis
    using hwy_xor_blocks_foldr [OF assms _ r]
    by (simp add: hwy_checksum_xor8_def r xor8_loop_foldr foldr_xor_zeros del: foldr_replicate)
qed

lemma hwy_sum_blocks_eq:
  assumes "\<And>xs. length xs = lanes \<Longrightarrow> lane_sum xs = word_of_nat (sum_bytes xs)"
  shows "hwy_sum_blocks lane_sum lanes acc bs = (acc', rest) \<Longrightarrow>
     acc' + word_of_nat (sum_bytes rest) = acc + word_of_nat (sum_bytes bs)"
proof (induction "length bs" arbitrary: acc bs rule: less_induct)
  case less
  show ?case
  proof (cases "0 < lanes \<and> lanes \<le> length bs")
    case False
    with less show ?thesis by (subst (asm) hwy_sum_blocks.simps) auto
  next
    case True
    then have step: "hwy_sum_blocks lane_sum lanes (acc + word_of_nat (sum_bytes (take lanes bs))) (drop lanes bs) = (acc', rest)"
      using less.prems assms [of "take lanes bs"] by (subst (asm) hwy_sum_blocks.simps) simp
    have "acc' + word_of_nat (sum_bytes rest) =
        acc + word_of_nat (sum_bytes (take lanes bs)) + word_of_nat (sum_bytes (drop lanes bs))"
      by (rule less.hyps [OF _ step]) (use True in auto)
    also have "\<dots> = acc + word_of_nat (sum_bytes (take lanes bs @ drop lanes bs))"
      by (simp only: sum_bytes_simps of_nat_add add.assoc)
    finally show ?thesis by simp
  qed
qed

lemma hwy_checksum_sum16_eq:
  assumes "\<And>xs. length xs = lanes \<Longrightarrow> lane_sum xs = word_of_nat (sum_bytes xs)"
  shows "ucast (hwy_checksum_sum16 lane_sum lanes bs) = checksum_sum16 bs"
proof -
  obtain acc rest where r: "hwy_sum_blocks lane_sum lanes 0 bs = (acc, rest)" by fastforce
  have "sum64_loop acc rest = word_of_nat (sum_bytes bs)"
    using hwy_sum_blocks_eq [OF assms r] by (simp add: sum64_loop_eq)
  then show ?thesis
    by (simp add: hwy_checksum_sum16_def r checksum_sum16_def sum16_loop_eq low16_of_nat)
qed

text \<open>C14: Vectorised checksums. With the documented behaviour of the vector library (lane-wise
  exclusive or, the sum of the lanes of a vector) and of the crc32c library (the reflected
  CRC-32C), the dispatched checksums equal the scalar ones for every length and vector width.\<close>

theorem runtime_checksums_scalar:
  assumes "\<And>xs ys. length xs = length ys \<Longrightarrow> vxor xs ys = map2 (XOR) xs ys"
    and "\<And>xs. length xs = lanes \<Longrightarrow> lane_sum xs = word_of_nat (sum_bytes xs)"
    and "\<And>xs. simd_crc32c xs = NOT (crc_serial kCrc32cPolynomial (-1) xs)"
  shows "runtime_checksum_xor8 vxor lanes bs = checksum_xor8 bs \<and>
    runtime_checksum_sum16 lane_sum lanes bs = checksum_sum16 bs \<and>
    runtime_checksum_crc32c simd_crc32c bs = checksum_crc32c bs"
proof (intro conjI)
  show "runtime_checksum_xor8 vxor lanes bs = checksum_xor8 bs"
    by (simp add: runtime_checksum_xor8_def checksum_xor8_def hwy_checksum_xor8_eq [OF assms(1)])
  show "runtime_checksum_sum16 lane_sum lanes bs = checksum_sum16 bs"
    by (simp add: runtime_checksum_sum16_def hwy_checksum_sum16_eq [OF assms(2)])
  have narrow: "(ucast (ucast (ucast (w :: u32) :: u64) :: u32) :: u64) = ucast w" for w
    by (rule bit_word_eqI) (auto simp: bit_ucast_iff dest: bit_imp_le_length)
  have "(ucast (NOT (crc_serial kCrc32cPolynomial (-1) bs)) :: u64) = checksum_crc32c bs"
    by (simp add: checksum_crc32c_def kCrc32cTable_def crc_table_loop_serial kCrc32InitialValue_def
        flip: crc_initial_ones)
  moreover have "(ucast (ucast (checksum_crc32c bs) :: u32) :: u64) = checksum_crc32c bs"
    unfolding checksum_crc32c_def by (rule narrow)
  ultimately show "runtime_checksum_crc32c simd_crc32c bs = checksum_crc32c bs"
    by (simp add: runtime_checksum_crc32c_def assms(3))
qed

theorem runtime_checksums_scalar_witness:
  "runtime_checksum_xor8 (map2 (XOR)) 16 (replicate 70 3 @ [5]) = checksum_xor8 (replicate 70 3 @ [5])
   \<and> runtime_checksum_sum16 (\<lambda>xs. word_of_nat (sum_bytes xs)) 16 (replicate 100 7) = checksum_sum16 (replicate 100 7)"
  using runtime_checksums_scalar [of "map2 (XOR)" 16 "\<lambda>xs. word_of_nat (sum_bytes xs)"
      "\<lambda>xs. NOT (crc_serial kCrc32cPolynomial (-1) xs)"]
  by blast

subsection \<open>The registry\<close>

definition spec_ok :: "checksum_algorithm_spec \<Rightarrow> bool" where
  "spec_ok spec \<longleftrightarrow>
     ca_name spec \<noteq> '''' \<and> ca_function spec \<noteq> None \<and>
     1 \<le> ca_result_width_bytes spec \<and> ca_result_width_bytes spec \<le> 8"

definition registry_ok :: "registry \<Rightarrow> bool" where
  "registry_ok reg \<longleftrightarrow>
     (\<forall>name spec. reg name = Some spec \<longrightarrow>
        spec_ok spec \<and> ca_name spec = name \<and> normalize_name name = name)"

lemma tolower_idem [simp]: "tolower (tolower c) = tolower c"
  by (auto simp: tolower_def Let_def)

lemma normalize_name_idem [simp]: "normalize_name (normalize_name n) = normalize_name n"
  by (simp add: normalize_name_def)

lemma normalize_name_Nil_iff [simp]: "normalize_name n = '''' \<longleftrightarrow> n = ''''"
  by (simp add: normalize_name_def)

lemma builtin_registry_ok: "registry_ok builtin_registry"
  unfolding registry_ok_def builtin_registry_def spec_ok_def normalize_name_def
  by (auto simp: tolower_def split: if_splits)

lemma register_Inr_iff:
  "register_checksum_algorithm spec reg = Inr reg' \<longleftrightarrow>
     spec_ok spec \<and> reg (normalize_name (ca_name spec)) = None \<and>
     reg' = reg(normalize_name (ca_name spec) \<mapsto> spec\<lparr>ca_name := normalize_name (ca_name spec)\<rparr>)"
  by (auto simp: register_checksum_algorithm_def spec_ok_def Let_def not_less Suc_le_eq)

lemma find_Inr_iff:
  "find_checksum_algorithm name reg = Inr spec \<longleftrightarrow>
     name \<noteq> '''' \<and> reg (normalize_name name) = Some spec"
  by (auto simp: find_checksum_algorithm_def Let_def split: option.splits)

text \<open>
  What the compiler relies on: a store of named specifications that is only reached through
  registration and lookup.
\<close>

locale checksum_store =
  fixes ok :: "'r \<Rightarrow> bool"
    and reg :: "checksum_algorithm_spec \<Rightarrow> 'r \<Rightarrow> registry_error + 'r"
    and look :: "string \<Rightarrow> 'r \<Rightarrow> registry_error + checksum_algorithm_spec"
    and norm :: "string \<Rightarrow> string"
  assumes reg_ok: "ok r \<Longrightarrow> reg s r = Inr r' \<Longrightarrow> ok r'"
    and look_ok: "ok r \<Longrightarrow> look n r = Inr s \<Longrightarrow> spec_ok s"
    and look_same: "reg s r = Inr r' \<Longrightarrow> n \<noteq> '''' \<Longrightarrow> norm n = norm (ca_name s) \<Longrightarrow>
        look n r' = Inr (s\<lparr>ca_name := norm (ca_name s)\<rparr>)"
    and look_other: "reg s r = Inr r' \<Longrightarrow> norm n \<noteq> norm (ca_name s) \<Longrightarrow> look n r' = look n r"
    and reg_fresh: "reg s r = Inr r' \<Longrightarrow> norm n = norm (ca_name s) \<Longrightarrow> look n r \<noteq> Inr s'"
begin

primrec reg_all :: "checksum_algorithm_spec list \<Rightarrow> 'r \<Rightarrow> 'r" where
  "reg_all [] r = r"
| "reg_all (s # ss) r = (case reg s r of Inl _ \<Rightarrow> reg_all ss r | Inr r' \<Rightarrow> reg_all ss r')"

lemma reg_all_ok: "ok r \<Longrightarrow> ok (reg_all ss r)"
  by (induction ss arbitrary: r) (auto split: sum.split dest: reg_ok)

lemma look_reg_all: "look n r = Inr s \<Longrightarrow> look n (reg_all ss r) = Inr s"
proof (induction ss arbitrary: r)
  case (Cons t ss)
  show ?case
  proof (cases "reg t r")
    case (Inr r')
    with Cons.prems have "norm n \<noteq> norm (ca_name t)" using reg_fresh by blast
    with Inr Cons show ?thesis by (simp add: look_other)
  qed (simp add: Cons)
qed simp

end

interpretation registry: checksum_store registry_ok register_checksum_algorithm find_checksum_algorithm
  normalize_name
proof
  fix r s r' assume "registry_ok r" "register_checksum_algorithm s r = Inr r'"
  then show "registry_ok r'"
    by (auto simp: register_Inr_iff registry_ok_def spec_ok_def)
next
  fix r n s assume "registry_ok r" "find_checksum_algorithm n r = Inr s"
  then show "spec_ok s" by (auto simp: find_Inr_iff registry_ok_def)
qed (auto simp: register_Inr_iff find_Inr_iff find_checksum_algorithm_def Let_def)

text \<open>The store after a sequence of registration calls, failed ones included.\<close>

primrec run_registrations :: "checksum_algorithm_spec list \<Rightarrow> registry \<Rightarrow> registry" where
  "run_registrations [] reg = reg"
| "run_registrations (spec # specs) reg =
     (case register_checksum_algorithm spec reg of
        Inl _ \<Rightarrow> run_registrations specs reg
      | Inr reg' \<Rightarrow> run_registrations specs reg')"

lemma run_registrations_eq: "run_registrations ss r = registry.reg_all ss r"
  by (induction ss arbitrary: r) (simp_all split: sum.split)

text \<open>Registry safety. Whatever sequence of registrations runs on the built-in registry,
  every algorithm a lookup returns has a function, a result width between 1 and 8 bytes and
  the lower-cased name, and the built-in algorithms keep their entries.\<close>

theorem registry_lookup_safe:
  "case find_checksum_algorithm name (run_registrations specs builtin_registry) of
     Inl _ \<Rightarrow> find_checksum_algorithm name builtin_registry =
                 Inl (if name = '''' then ChecksumNameEmpty
                      else UnknownChecksumAlgorithm (normalize_name name))
   | Inr spec \<Rightarrow>
       ca_function spec \<noteq> None \<and> ca_result_width_bytes spec \<in> {1..8} \<and>
       ca_name spec = normalize_name name \<and>
       builtin_registry (normalize_name name) \<in> {None, Some spec}"
proof -
  let ?r = "run_registrations specs builtin_registry"
  have ok: "registry_ok ?r"
    unfolding run_registrations_eq by (rule registry.reg_all_ok [OF builtin_registry_ok])
  have keep: "find_checksum_algorithm name builtin_registry = Inr s \<Longrightarrow>
      find_checksum_algorithm name ?r = Inr s" for s
    unfolding run_registrations_eq by (rule registry.look_reg_all)
  show ?thesis
  proof (cases "find_checksum_algorithm name ?r")
    case (Inl e)
    then show ?thesis using keep
      by (cases "builtin_registry (normalize_name name)")
        (auto simp: find_checksum_algorithm_def Let_def split: option.splits if_splits)
  next
    case (Inr spec)
    then have s: "name \<noteq> ''''" "?r (normalize_name name) = Some spec" by (simp_all add: find_Inr_iff)
    then have "spec_ok spec" "ca_name spec = normalize_name name"
      using ok by (auto simp: registry_ok_def)
    moreover have "builtin_registry (normalize_name name) \<in> {None, Some spec}"
      using keep s(1) Inr by (cases "builtin_registry (normalize_name name)") (auto simp: find_Inr_iff)
    ultimately show ?thesis using Inr by (auto simp: spec_ok_def Suc_le_eq)
  qed
qed

end
