(* ===== verification/Compiled_Protocol.thy ===== *)
theory Compiled_Protocol
  imports Checksums
begin

text \<open>
  The compiled schema model of \<open>compiler/compiled_protocol.hpp\<close> with the constructors and
  lookups of \<open>CompiledMessage\<close> and \<open>CompiledProtocol\<close> (\<open>schema_compiler.cpp\<close>): name indices
  that keep the first occurrence, and the dispatch table that groups the messages by the
  first byte of their fixed prefix.
\<close>

subsection \<open>Compiled records\<close>

datatype checksum_anchor_kind =
    FrameStart | FrameEnd | FieldStart | FieldEnd | BeforeSelf | AfterSelf

record compiled_checksum_anchor =
  cca_kind :: checksum_anchor_kind
  cca_field_id :: field_id

record compiled_bit_field =
  cbf_id :: bit_field_id
  cbf_name :: string
  cbf_container_field_id :: field_id
  cbf_shift_bits :: nat
  cbf_width_bits :: nat
  cbf_mask :: u64
  cbf_is_signed :: bool
  cbf_enum_values :: "enum_value_definition list"

datatype builtin_kind = BK_Custom | BK_Xor8 | BK_Sum16 | BK_Crc16Ccitt | BK_Crc32 | BK_Crc32c

record compiled_checksum =
  cck_field_id :: field_id
  cck_result_width_bytes :: nat
  cck_function :: "checksum_function option"
  cck_algorithm_name :: string
  cck_builtin_kind :: builtin_kind
  cck_from :: compiled_checksum_anchor
  cck_to :: compiled_checksum_anchor

record compiled_variant_case =
  cvc_tag_value :: u64
  cvc_struct_id :: nat

record compiled_validation_rule =
  cvr_field_id :: field_id
  cvr_op :: validation_operator
  cvr_other_field_id :: field_id
  cvr_compare_to_field :: bool
  cvr_value :: u64
  cvr_multiplier :: u64
  cvr_has_when :: bool
  cvr_when_field_id :: field_id
  cvr_when_equals :: u64

definition kVariantLookupMissing :: nat where "kVariantLookupMissing = 2 ^ 32 - 1"

record compiled_field =
  cf_id :: field_id
  cf_name :: string
  cf_kind :: field_kind
  cf_width_bytes :: nat
  cf_byte_order :: byte_order
  cf_string_encoding :: string_encoding
  cf_fixed_size :: nat
  cf_dynamic_size :: bool
  cf_size_from_field :: field_id
  cf_struct_id :: nat
  cf_alignment :: nat
  cf_is_reserved :: bool
  cf_reserved_fill_byte :: u8
  cf_element_minimum_size :: nat
  cf_fixed_count :: nat
  cf_dynamic_count :: bool
  cf_count_from_field :: field_id
  cf_has_condition :: bool
  cf_condition_field :: field_id
  cf_condition_equals :: u64
  cf_has_presence :: bool
  cf_presence_field :: field_id
  cf_presence_bit :: nat
  cf_tag_from_field :: field_id
  cf_variant_cases :: "compiled_variant_case list"
  cf_variant_lookup_base :: u64
  cf_variant_lookup_indices :: "nat list"
  cf_has_expected_unsigned :: bool
  cf_expected_unsigned :: u64
  cf_enum_values :: "enum_value_definition list"

text \<open>The member initialisers of \<open>CompiledField\<close>.\<close>

definition default_compiled_field :: compiled_field where
  "default_compiled_field =
     \<lparr>cf_id = 0, cf_name = '''', cf_kind = KUnsigned, cf_width_bytes = 0, cf_byte_order = LittleEndian,
      cf_string_encoding = Ascii, cf_fixed_size = 0, cf_dynamic_size = False, cf_size_from_field = 0,
      cf_struct_id = 0, cf_alignment = 1, cf_is_reserved = False, cf_reserved_fill_byte = 0,
      cf_element_minimum_size = 0, cf_fixed_count = 0, cf_dynamic_count = False, cf_count_from_field = 0,
      cf_has_condition = False, cf_condition_field = 0, cf_condition_equals = 0, cf_has_presence = False,
      cf_presence_field = 0, cf_presence_bit = 0, cf_tag_from_field = 0, cf_variant_cases = [],
      cf_variant_lookup_base = 0, cf_variant_lookup_indices = [], cf_has_expected_unsigned = False,
      cf_expected_unsigned = 0, cf_enum_values = []\<rparr>"

definition is_scalar :: "compiled_field \<Rightarrow> bool" where
  "is_scalar f \<longleftrightarrow> cf_kind f \<in> {KUnsigned, KSigned, KFloat32, KFloat64, KEnum}"

definition is_conditionally_present :: "compiled_field \<Rightarrow> bool" where
  "is_conditionally_present f \<longleftrightarrow> cf_has_condition f \<or> cf_has_presence f"

definition minimum_size_contribution :: "compiled_field \<Rightarrow> nat" where
  "minimum_size_contribution f =
     (if is_conditionally_present f then 0
      else if cf_kind f = KCollection \<or> cf_kind f = KVariant then cf_fixed_size f
      else if cf_dynamic_size f then 0
      else if cf_kind f = KBytes \<or> cf_kind f = KString \<or> cf_kind f = KStruct then cf_fixed_size f
      else cf_width_bytes f)"

subsection \<open>\<open>CompiledMessage\<close>\<close>

text \<open>\<open>unordered_map::emplace\<close> keeps an entry that is already there.\<close>

definition emplace :: "'k \<Rightarrow> 'v \<Rightarrow> ('k \<Rightarrow> 'v option) \<Rightarrow> ('k \<Rightarrow> 'v option)" where
  "emplace k v m = (if m k = None then m(k \<mapsto> v) else m)"

record compiled_message =
  cm_name :: string
  cm_fields :: "compiled_field list"
  cm_bit_fields :: "compiled_bit_field list"
  cm_checksums :: "compiled_checksum list"
  cm_validations :: "compiled_validation_rule list"
  cm_minimum_size :: nat
  cm_has_fixed_size :: bool
  cm_allow_trailing_bytes :: bool
  cm_dispatch_prefix :: bytes
  cm_field_ids :: "string \<Rightarrow> field_id option"
  cm_bit_field_ids :: "string \<Rightarrow> bit_field_id option"

definition make_compiled_message ::
  "string \<Rightarrow> compiled_field list \<Rightarrow> compiled_bit_field list \<Rightarrow> compiled_checksum list \<Rightarrow>
   compiled_validation_rule list \<Rightarrow> nat \<Rightarrow> bool \<Rightarrow> bool \<Rightarrow> bytes \<Rightarrow> compiled_message" where
  "make_compiled_message name flds bit_flds checksums validations minimum_size has_fixed_size
     allow_trailing_bytes dispatch_prefix =
     \<lparr>cm_name = name, cm_fields = flds, cm_bit_fields = bit_flds, cm_checksums = checksums,
      cm_validations = validations, cm_minimum_size = minimum_size, cm_has_fixed_size = has_fixed_size,
      cm_allow_trailing_bytes = allow_trailing_bytes, cm_dispatch_prefix = dispatch_prefix,
      cm_field_ids = fold (\<lambda>f. emplace (cf_name f) (cf_id f)) flds Map.empty,
      cm_bit_field_ids = fold (\<lambda>b. emplace (cbf_name b) (cbf_id b)) bit_flds Map.empty\<rparr>"

text \<open>A default-constructed message: the initial entries of \<open>compiled_structs_\<close>.\<close>

definition default_compiled_message :: compiled_message where
  "default_compiled_message = make_compiled_message '''' [] [] [] [] 0 False False []"

definition find_field :: "compiled_message \<Rightarrow> string \<Rightarrow> field_id option" where
  "find_field m field_name = (case cm_field_ids m field_name of None \<Rightarrow> None | Some found \<Rightarrow> Some found)"

definition find_bit_field :: "compiled_message \<Rightarrow> string \<Rightarrow> bit_field_id option" where
  "find_bit_field m bit_field_name =
     (case cm_bit_field_ids m bit_field_name of None \<Rightarrow> None | Some found \<Rightarrow> Some found)"

subsection \<open>\<open>CompiledProtocol\<close>\<close>

definition kDispatchTableSize :: nat where "kDispatchTableSize = 256"

record compiled_protocol =
  cp_name :: string
  cp_fingerprint :: u64
  cp_structs :: "compiled_message list"
  cp_messages :: "compiled_message list"
  cp_struct_ids :: "string \<Rightarrow> nat option"
  cp_message_ids :: "string \<Rightarrow> nat option"
  cp_dispatch_message_ids :: "nat list list"
  cp_fallback_message_ids :: "nat list"

text \<open>The body of the second loop of the constructor, for the message at \<open>index\<close>.\<close>

definition dispatch_insert ::
  "nat \<times> compiled_message \<Rightarrow> nat list list \<times> nat list \<Rightarrow> nat list list \<times> nat list" where
  "dispatch_insert = (\<lambda>(index, m) (table, fallback).
     (case cm_dispatch_prefix m of
        [] \<Rightarrow> (table, fallback @ [index])
      | front # _ \<Rightarrow> (table[unat front := table ! unat front @ [index]], fallback)))"

definition make_compiled_protocol ::
  "string \<Rightarrow> u64 \<Rightarrow> compiled_message list \<Rightarrow> compiled_message list \<Rightarrow> compiled_protocol" where
  "make_compiled_protocol name fingerprint structs messages =
     (let (table, fallback) =
            fold dispatch_insert (enumerate 0 messages) (replicate kDispatchTableSize [], [])
      in \<lparr>cp_name = name, cp_fingerprint = fingerprint, cp_structs = structs, cp_messages = messages,
          cp_struct_ids = fold (\<lambda>(index, m). emplace (cm_name m) index) (enumerate 0 structs) Map.empty,
          cp_message_ids = fold (\<lambda>(index, m). emplace (cm_name m) index) (enumerate 0 messages) Map.empty,
          cp_dispatch_message_ids = table, cp_fallback_message_ids = fallback\<rparr>)"

definition find_message :: "compiled_protocol \<Rightarrow> string \<Rightarrow> compiled_message option" where
  "find_message p message_name =
     (case cp_message_ids p message_name of None \<Rightarrow> None | Some found \<Rightarrow> Some (cp_messages p ! found))"

definition find_struct :: "compiled_protocol \<Rightarrow> string \<Rightarrow> compiled_message option" where
  "find_struct p struct_name =
     (case cp_struct_ids p struct_name of None \<Rightarrow> None | Some found \<Rightarrow> Some (cp_structs p ! found))"

definition struct_by_id :: "compiled_protocol \<Rightarrow> nat \<Rightarrow> compiled_message option" where
  "struct_by_id p struct_id =
     (if struct_id \<ge> length (cp_structs p) then None else Some (cp_structs p ! struct_id))"

definition dispatch_candidate_ids :: "compiled_protocol \<Rightarrow> bytes \<Rightarrow> nat list" where
  "dispatch_candidate_ids p frame =
     (case frame of [] \<Rightarrow> [] | front # _ \<Rightarrow> cp_dispatch_message_ids p ! unat front)"

subsection \<open>Lookup by name finds the first occurrence\<close>

lemma emplace_kept: "m k = Some v \<Longrightarrow> emplace k' v' m k = Some v"
  by (auto simp: emplace_def)

lemma fold_emplace_kept: "m k = Some v \<Longrightarrow> fold (\<lambda>x. emplace (f x) (g x)) xs m k = Some v"
  by (induction xs arbitrary: m) (simp_all add: emplace_kept)

lemma fold_emplace:
  "m k = None \<Longrightarrow> fold (\<lambda>x. emplace (f x) (g x)) xs m k = map_option g (find (\<lambda>x. f x = k) xs)"
  by (induction xs arbitrary: m) (simp_all add: emplace_def fold_emplace_kept)

lemma fold_emplace_empty:
  "fold (\<lambda>x. emplace (f x) (g x)) xs Map.empty k = map_option g (find (\<lambda>x. f x = k) xs)"
  by (simp add: fold_emplace)

lemma find_field_make:
  "find_field (make_compiled_message n fs bs cs vs ms fx tr pre) name =
     map_option cf_id (find (\<lambda>f. cf_name f = name) fs)"
  by (simp add: find_field_def make_compiled_message_def fold_emplace_empty split: option.split)

lemma find_bit_field_make:
  "find_bit_field (make_compiled_message n fs bs cs vs ms fx tr pre) name =
     map_option cbf_id (find (\<lambda>b. cbf_name b = name) bs)"
  by (simp add: find_bit_field_def make_compiled_message_def fold_emplace_empty split: option.split)

lemma find_enumerate:
  "map_option fst (find (\<lambda>x. P (snd x)) (enumerate k xs)) = map_option (\<lambda>i. k + i) (find (\<lambda>i. P (xs ! i)) [0..<length xs])"
proof (induction xs arbitrary: k)
  case (Cons x xs)
  have shift: "find Q (map Suc js) = map_option Suc (find (Q \<circ> Suc) js)" for Q and js :: "nat list"
    by (induction js) simp_all
  have "[0..<length (x # xs)] = 0 # map Suc [0..<length xs]"
    by (simp add: map_Suc_upt upt_conv_Cons del: upt_Suc)
  then show ?case
    by (simp add: Cons.IH shift option.map_comp o_def del: upt_Suc)
qed simp

lemma find_message_make:
  "find_message (make_compiled_protocol n fp ss ms) name = find (\<lambda>m. cm_name m = name) ms"
proof -
  have nth_find: "map_option (\<lambda>i. ms ! i) (find (\<lambda>i. P (ms ! i)) [0..<length ms]) = find P ms" for P
  proof -
    have "find P (map ((!) ms) js) = map_option ((!) ms) (find (P \<circ> (!) ms) js)" for js
      by (induction js) simp_all
    from this [of "[0..<length ms]"] show ?thesis by (simp add: map_nth o_def)
  qed
  have "fold (\<lambda>(index, m). emplace (cm_name m) index) (enumerate 0 ms) Map.empty name =
      find (\<lambda>i. cm_name (ms ! i) = name) [0..<length ms]"
    using fold_emplace_empty [of "\<lambda>x. cm_name (snd x)" fst "enumerate 0 ms" name]
      find_enumerate [of "\<lambda>m. cm_name m = name" 0 ms]
    by (simp add: case_prod_beta' option.map_ident)
  then show ?thesis
    using nth_find [of "\<lambda>m. cm_name m = name"]
    by (cases "find (\<lambda>i. cm_name (ms ! i) = name) [0..<length ms]")
      (auto simp: find_message_def make_compiled_protocol_def case_prod_beta Let_def)
qed

subsection \<open>The dispatch table\<close>

definition prefix_starts :: "u8 \<Rightarrow> compiled_message \<Rightarrow> bool" where
  "prefix_starts b m \<longleftrightarrow> cm_dispatch_prefix m \<noteq> [] \<and> hd (cm_dispatch_prefix m) = b"

lemma fold_dispatch_insert:
  "length table = 256 \<Longrightarrow> fold dispatch_insert ims (table, fallback) = (table', fallback') \<Longrightarrow>
   length table' = 256 \<and>
   (\<forall>b. table' ! unat b = table ! unat b @ map fst (filter (\<lambda>im. prefix_starts b (snd im)) ims)) \<and>
   fallback' = fallback @ map fst (filter (\<lambda>im. cm_dispatch_prefix (snd im) = []) ims)"
proof (induction ims arbitrary: table fallback)
  case (Cons im ims)
  obtain i m where im: "im = (i, m)" by (cases im)
  show ?case
  proof (cases "cm_dispatch_prefix m")
    case Nil
    with Cons.prems Cons.IH [of table "fallback @ [i]"] show ?thesis
      by (simp add: im dispatch_insert_def prefix_starts_def)
  next
    case (Cons c cs)
    have c: "unat c < 256" by (rule unat_u8_less)
    from Cons Cons.prems Cons.IH [of "table[unat c := table ! unat c @ [i]]" fallback] c show ?thesis
      by (auto simp: im dispatch_insert_def prefix_starts_def nth_list_update word_unat_eq_iff)
  qed
qed simp

lemma map_fst_filter_enumerate:
  "map fst (filter (\<lambda>im. P (snd im)) (enumerate k xs)) = map (\<lambda>i. k + i) (filter (\<lambda>i. P (xs ! i)) [0..<length xs])"
proof (induction xs arbitrary: k)
  case (Cons x xs)
  have "[0..<length (x # xs)] = 0 # map Suc [0..<length xs]"
    by (simp add: map_Suc_upt upt_conv_Cons del: upt_Suc)
  then show ?case by (simp add: Cons.IH filter_map o_def del: upt_Suc)
qed simp

lemma dispatch_candidates_make:
  "dispatch_candidate_ids (make_compiled_protocol n fp ss ms) (b # frame) =
     filter (\<lambda>i. prefix_starts b (ms ! i)) [0..<length ms]"
  "dispatch_candidate_ids (make_compiled_protocol n fp ss ms) [] = []"
  "cp_fallback_message_ids (make_compiled_protocol n fp ss ms) =
     filter (\<lambda>i. cm_dispatch_prefix (ms ! i) = []) [0..<length ms]"
proof -
  obtain t f where tf: "fold dispatch_insert (enumerate 0 ms) (replicate kDispatchTableSize [], []) = (t, f)"
    by fastforce
  have "length (replicate kDispatchTableSize ([] :: nat list)) = 256" by (simp add: kDispatchTableSize_def)
  from fold_dispatch_insert [OF this tf] show
    "dispatch_candidate_ids (make_compiled_protocol n fp ss ms) (b # frame) =
       filter (\<lambda>i. prefix_starts b (ms ! i)) [0..<length ms]"
    "cp_fallback_message_ids (make_compiled_protocol n fp ss ms) =
       filter (\<lambda>i. cm_dispatch_prefix (ms ! i) = []) [0..<length ms]"
    using unat_u8_less [of b]
    by (simp_all add: dispatch_candidate_ids_def make_compiled_protocol_def tf [unfolded kDispatchTableSize_def]
        kDispatchTableSize_def
        map_fst_filter_enumerate [of "prefix_starts b" 0] map_fst_filter_enumerate [of "\<lambda>m. cm_dispatch_prefix m = []" 0])
qed (simp add: dispatch_candidate_ids_def)

text \<open>Dispatch index. The candidates that \<open>CompiledProtocol\<close> offers for a frame are, in
  declaration order, exactly the messages whose fixed prefix begins with the first byte of the
  frame; the fallback list holds exactly the messages without a prefix; every message whose
  prefix the frame starts with is among the candidates.\<close>

theorem dispatch_index_complete:
  "dispatch_candidate_ids (make_compiled_protocol name fp structs ms) (b # frame)
       = filter (\<lambda>i. prefix_starts b (ms ! i)) [0..<length ms]
    \<and> cp_fallback_message_ids (make_compiled_protocol name fp structs ms)
       = filter (\<lambda>i. cm_dispatch_prefix (ms ! i) = []) [0..<length ms]
    \<and> {i. i < length ms \<and> starts_with (b # frame) (cm_dispatch_prefix (ms ! i))}
       \<subseteq> set (dispatch_candidate_ids (make_compiled_protocol name fp structs ms) (b # frame))
         \<union> set (cp_fallback_message_ids (make_compiled_protocol name fp structs ms))"
proof -
  have "prefix_starts b m \<or> cm_dispatch_prefix m = []"
    if "starts_with (b # frame) (cm_dispatch_prefix m)" for m
    using that by (cases "cm_dispatch_prefix m") (auto simp: prefix_starts_def starts_with_iff)
  then show ?thesis by (auto simp: dispatch_candidates_make)
qed

end
