(* ===== verification/Xx_Hash64.thy ===== *)
theory Xx_Hash64
  imports Prelude
begin

text \<open>
  The incremental XXH64 hasher of \<open>utils/xxhash64.hpp\<close>: the state with its stripe buffer,
  \<open>update\<close> and its integral and boolean variants, \<open>digest\<close>. The state is related to the
  message hashed so far, and the digest of any sequence of updates is the digest that the
  XXH64 specification gives the concatenated message.
\<close>

subsection \<open>The hasher\<close>

definition kStripeBytes :: nat where "kStripeBytes = 32"
definition kPrime1 :: u64 where "kPrime1 = 11400714785074694791"
definition kPrime2 :: u64 where "kPrime2 = 14029467366897019727"
definition kPrime3 :: u64 where "kPrime3 = 1609587929392839161"
definition kPrime4 :: u64 where "kPrime4 = 9650029242287828579"
definition kPrime5 :: u64 where "kPrime5 = 2870177450012600261"

record xx_hash64_state =
  xs_seed :: u64
  xs_total_length :: u64
  xs_v1 :: u64
  xs_v2 :: u64
  xs_v3 :: u64
  xs_v4 :: u64
  xs_buffer :: bytes
  xs_buffer_size :: nat

definition xx_hash64_init :: "u64 \<Rightarrow> xx_hash64_state" where
  "xx_hash64_init seed =
     \<lparr>xs_seed = seed, xs_total_length = 0,
      xs_v1 = seed + kPrime1 + kPrime2, xs_v2 = seed + kPrime2, xs_v3 = seed, xs_v4 = seed - kPrime1,
      xs_buffer = replicate kStripeBytes 0, xs_buffer_size = 0\<rparr>"

definition read_u32_le :: "bytes \<Rightarrow> u32" where
  "read_u32_le d =
     ucast (d ! 0) OR push_bit 8 (ucast (d ! 1)) OR push_bit 16 (ucast (d ! 2)) OR push_bit 24 (ucast (d ! 3))"

definition read_u64_le :: "bytes \<Rightarrow> u64" where
  "read_u64_le d =
     ucast (d ! 0) OR push_bit 8 (ucast (d ! 1)) OR push_bit 16 (ucast (d ! 2)) OR push_bit 24 (ucast (d ! 3)) OR
     push_bit 32 (ucast (d ! 4)) OR push_bit 40 (ucast (d ! 5)) OR push_bit 48 (ucast (d ! 6)) OR
     push_bit 56 (ucast (d ! 7))"

definition xx_round :: "u64 \<Rightarrow> u64 \<Rightarrow> u64" where
  "xx_round accumulator lane = word_rotl 31 (accumulator + lane * kPrime2) * kPrime1"

definition xx_merge_round :: "u64 \<Rightarrow> u64 \<Rightarrow> u64" where
  "xx_merge_round accumulator value = (accumulator XOR xx_round 0 value) * kPrime1 + kPrime4"

definition xx_avalanche :: "u64 \<Rightarrow> u64" where
  "xx_avalanche hash =
     (let hash = hash XOR drop_bit 33 hash;
          hash = hash * kPrime2;
          hash = hash XOR drop_bit 29 hash;
          hash = hash * kPrime3
      in hash XOR drop_bit 32 hash)"

definition consume_stripe :: "bytes \<Rightarrow> xx_hash64_state \<Rightarrow> xx_hash64_state" where
  "consume_stripe stripe s =
     s\<lparr>xs_v1 := xx_round (xs_v1 s) (read_u64_le stripe),
       xs_v2 := xx_round (xs_v2 s) (read_u64_le (drop 8 stripe)),
       xs_v3 := xx_round (xs_v3 s) (read_u64_le (drop 16 stripe)),
       xs_v4 := xx_round (xs_v4 s) (read_u64_le (drop 24 stripe))\<rparr>"

text \<open>The loop over whole stripes: the state and the bytes that remain.\<close>

function xx_stripes :: "xx_hash64_state \<Rightarrow> bytes \<Rightarrow> xx_hash64_state \<times> bytes" where
  "xx_stripes s data =
     (if length data \<ge> kStripeBytes
      then xx_stripes (consume_stripe data s) (drop kStripeBytes data)
      else (s, data))"
  by pat_completeness auto
termination by (relation "measure (\<lambda>(_, data). length data)") (auto simp: kStripeBytes_def)

declare xx_stripes.simps [simp del]

definition xx_update :: "xx_hash64_state \<Rightarrow> bytes \<Rightarrow> xx_hash64_state" where
  "xx_update s bs =
     (if bs = [] then s
      else
        let s = s\<lparr>xs_total_length := xs_total_length s + word_of_nat (length bs)\<rparr> in
        if xs_buffer_size s + length bs < kStripeBytes then
          s\<lparr>xs_buffer := blit (xs_buffer_size s) bs (xs_buffer s),
            xs_buffer_size := xs_buffer_size s + length bs\<rparr>
        else
          let (s, data) =
                (if xs_buffer_size s \<noteq> 0 then
                   let fill_size = kStripeBytes - xs_buffer_size s;
                       s = s\<lparr>xs_buffer := blit (xs_buffer_size s) (take fill_size bs) (xs_buffer s)\<rparr>;
                       s = consume_stripe (xs_buffer s) s
                   in (s\<lparr>xs_buffer_size := 0\<rparr>, drop fill_size bs)
                 else (s, bs));
              (s, data) = xx_stripes s data
          in if data \<noteq> []
             then s\<lparr>xs_buffer := blit 0 data (xs_buffer s), xs_buffer_size := length data\<rparr>
             else s)"

definition string_bytes :: "string \<Rightarrow> bytes" where
  "string_bytes value = map of_char value"

definition xx_update_string :: "xx_hash64_state \<Rightarrow> string \<Rightarrow> xx_hash64_state" where
  "xx_update_string s value = xx_update s (string_bytes value)"

definition xx_integral_bytes :: "u64 \<Rightarrow> bytes" where
  "xx_integral_bytes normalized = map (\<lambda>index. ucast (drop_bit (index * 8) normalized AND 0xFF)) [0..<8]"

definition xx_update_integral :: "xx_hash64_state \<Rightarrow> u64 \<Rightarrow> xx_hash64_state" where
  "xx_update_integral s value = xx_update s (xx_integral_bytes value)"

definition xx_update_bool :: "xx_hash64_state \<Rightarrow> bool \<Rightarrow> xx_hash64_state" where
  "xx_update_bool s value = xx_update s [if value then 1 else 0]"

function xx_digest_words :: "u64 \<Rightarrow> bytes \<Rightarrow> u64 \<times> bytes" where
  "xx_digest_words hash data =
     (if length data \<ge> 8
      then xx_digest_words (word_rotl 27 (hash XOR xx_round 0 (read_u64_le data)) * kPrime1 + kPrime4)
             (drop 8 data)
      else (hash, data))"
  by pat_completeness auto
termination by (relation "measure (\<lambda>(_, data). length data)") auto

declare xx_digest_words.simps [simp del]

fun xx_digest_bytes :: "u64 \<Rightarrow> bytes \<Rightarrow> u64" where
  "xx_digest_bytes hash [] = hash"
| "xx_digest_bytes hash (byte # data) =
     xx_digest_bytes (word_rotl 11 (hash XOR ucast byte * kPrime5) * kPrime1) data"

definition xx_digest :: "xx_hash64_state \<Rightarrow> u64" where
  "xx_digest s =
     (let hash =
            (if xs_total_length s \<ge> 32 then
               let hash = word_rotl 1 (xs_v1 s) + word_rotl 7 (xs_v2 s) + word_rotl 12 (xs_v3 s) +
                          word_rotl 18 (xs_v4 s);
                   hash = xx_merge_round hash (xs_v1 s);
                   hash = xx_merge_round hash (xs_v2 s);
                   hash = xx_merge_round hash (xs_v3 s)
               in xx_merge_round hash (xs_v4 s)
             else xs_seed s + kPrime5);
          hash = hash + xs_total_length s;
          (hash, data) = xx_digest_words hash (take (xs_buffer_size s) (xs_buffer s));
          (hash, data) =
            (if length data \<ge> 4
             then (word_rotl 23 (hash XOR ucast (read_u32_le data) * kPrime1) * kPrime2 + kPrime3, drop 4 data)
             else (hash, data));
          hash = xx_digest_bytes hash data
      in xx_avalanche hash)"

definition xxhash64 :: "bytes \<Rightarrow> u64 \<Rightarrow> u64" where
  "xxhash64 bs seed = xx_digest (xx_update (xx_hash64_init seed) bs)"

definition xxhash64_integral :: "u64 \<Rightarrow> u64 \<Rightarrow> u64" where
  "xxhash64_integral value seed = xx_digest (xx_update_integral (xx_hash64_init seed) value)"

definition xxhash64_bool :: "bool \<Rightarrow> u64 \<Rightarrow> u64" where
  "xxhash64_bool value seed = xx_digest (xx_update_bool (xx_hash64_init seed) value)"

subsection \<open>The specification\<close>

text \<open>
  The accumulators after all whole stripes of the message, and the digest, both as functions
  of the whole message.
\<close>

function spec_lanes :: "u64 \<times> u64 \<times> u64 \<times> u64 \<Rightarrow> bytes \<Rightarrow> u64 \<times> u64 \<times> u64 \<times> u64" where
  "spec_lanes v m =
     (if length m \<ge> 32
      then (case v of (v1, v2, v3, v4) \<Rightarrow>
              spec_lanes (xx_round v1 (read_u64_le m), xx_round v2 (read_u64_le (drop 8 m)),
                          xx_round v3 (read_u64_le (drop 16 m)), xx_round v4 (read_u64_le (drop 24 m)))
                (drop 32 m))
      else v)"
  by pat_completeness auto
termination by (relation "measure (\<lambda>(_, m). length m)") auto

declare spec_lanes.simps [simp del]

definition spec_init :: "u64 \<Rightarrow> u64 \<times> u64 \<times> u64 \<times> u64" where
  "spec_init seed = (seed + kPrime1 + kPrime2, seed + kPrime2, seed, seed - kPrime1)"

definition spec_tail :: "bytes \<Rightarrow> bytes" where
  "spec_tail m = drop (32 * (length m div 32)) m"

definition spec_finish :: "u64 \<Rightarrow> bytes \<Rightarrow> u64" where
  "spec_finish hash tail =
     (let (hash, data) = xx_digest_words hash tail;
          (hash, data) =
            (if length data \<ge> 4
             then (word_rotl 23 (hash XOR ucast (read_u32_le data) * kPrime1) * kPrime2 + kPrime3, drop 4 data)
             else (hash, data))
      in xx_avalanche (xx_digest_bytes hash data))"

definition xxh64_spec :: "bytes \<Rightarrow> u64 \<Rightarrow> u64" where
  "xxh64_spec m seed =
     (let h = (if length m \<ge> 32
               then (case spec_lanes (spec_init seed) m of (v1, v2, v3, v4) \<Rightarrow>
                       foldl xx_merge_round
                         (word_rotl 1 v1 + word_rotl 7 v2 + word_rotl 12 v3 + word_rotl 18 v4)
                         [v1, v2, v3, v4])
               else seed + kPrime5)
      in spec_finish (h + word_of_nat (length m)) (spec_tail m))"

text \<open>
  The specification has the primes and the rounds in common with the code. Published digests fix them: of the empty text,
  of \<open>abc\<close>, and of the 63 characters \<open>Call me Ishmael. Some years ago--never mind how long precisely-\<close>: a stripe, three words,
  a half word and three bytes.
\<close>

lemma xxh64_published:
  "xxh64_spec [] 0 = 0xEF46DB3751D8E999"
  "xxh64_spec [0x61, 0x62, 0x63] 0 = 0x44BC2CF5AD770999"
  "xxh64_spec
     [67, 97, 108, 108, 32, 109, 101, 32, 73, 115, 104, 109, 97, 101, 108, 46, 32, 83, 111, 109,
      101, 32, 121, 101, 97, 114, 115, 32, 97, 103, 111, 45, 45, 110, 101, 118, 101, 114, 32, 109,
      105, 110, 100, 32, 104, 111, 119, 32, 108, 111, 110, 103, 32, 112, 114, 101, 99, 105, 115, 101,
      108, 121, 45] 0 =
   0x02A2E85470D6FD96"
  by code_simp+

subsection \<open>The state represents the message\<close>

definition xs_lanes :: "xx_hash64_state \<Rightarrow> u64 \<times> u64 \<times> u64 \<times> u64" where
  "xs_lanes s = (xs_v1 s, xs_v2 s, xs_v3 s, xs_v4 s)"

definition xx_rep :: "u64 \<Rightarrow> bytes \<Rightarrow> xx_hash64_state \<Rightarrow> bool" where
  "xx_rep seed m s \<longleftrightarrow>
     xs_seed s = seed \<and> xs_total_length s = word_of_nat (length m) \<and>
     xs_lanes s = spec_lanes (spec_init seed) m \<and>
     length (xs_buffer s) = 32 \<and> xs_buffer_size s = length m mod 32 \<and>
     take (xs_buffer_size s) (xs_buffer s) = spec_tail m"

lemma read_u64_le_append: "8 \<le> length xs \<Longrightarrow> read_u64_le (xs @ ys) = read_u64_le xs"
  by (cases "xs = []") (simp_all add: read_u64_le_def nth_append)

lemma read_u64_le_take: "8 \<le> n \<Longrightarrow> 8 \<le> length xs \<Longrightarrow> read_u64_le (take n xs) = read_u64_le xs"
  by (metis append_take_drop_id length_take min.boundedI read_u64_le_append)

lemma spec_lanes_short: "length m < 32 \<Longrightarrow> spec_lanes v m = v"
  by (simp add: spec_lanes.simps)

lemma spec_lanes_step:
  "32 \<le> length m \<Longrightarrow> spec_lanes (v1, v2, v3, v4) m =
     spec_lanes (xx_round v1 (read_u64_le m), xx_round v2 (read_u64_le (drop 8 m)),
       xx_round v3 (read_u64_le (drop 16 m)), xx_round v4 (read_u64_le (drop 24 m))) (drop 32 m)"
  by (subst spec_lanes.simps) simp

lemma spec_lanes_append:
  "32 dvd length m \<Longrightarrow> spec_lanes v (m @ m') = spec_lanes (spec_lanes v m) m'"
proof (induction "length m" arbitrary: m v rule: less_induct)
  case less
  show ?case
  proof (cases "length m \<ge> 32")
    case False
    with less.prems have "m = []" by (metis dvd_imp_le length_0_conv neq0_conv not_le)
    then show ?thesis by (simp add: spec_lanes_short)
  next
    case True
    obtain v1 v2 v3 v4 where v: "v = (v1, v2, v3, v4)" by (cases v) auto
    have IH: "spec_lanes w (drop 32 m @ m') = spec_lanes (spec_lanes w (drop 32 m)) m'" for w
      by (rule less.hyps) (use True less.prems in \<open>auto simp: dvd_diff_nat\<close>)
    from True show ?thesis by (simp add: v spec_lanes_step IH read_u64_le_append)
  qed
qed

lemma spec_split: "m = take (32 * (length m div 32)) m @ spec_tail m"
  by (simp add: spec_tail_def)

lemma length_spec_tail [simp]: "length (spec_tail m) = length m mod 32"
  by (simp add: spec_tail_def minus_mult_div_eq_mod)

lemma length_spec_head: "length (take (32 * (length m div 32)) m) = 32 * (length m div 32)"
  by (simp add: min_def) (metis mult.commute div_times_less_eq_dividend le_antisym)

lemma spec_lanes_head: "spec_lanes v m = spec_lanes v (take (32 * (length m div 32)) m)"
proof -
  have "spec_lanes v (take (32 * (length m div 32)) m @ spec_tail m) =
      spec_lanes (spec_lanes v (take (32 * (length m div 32)) m)) (spec_tail m)"
    by (rule spec_lanes_append) (simp only: length_spec_head dvd_triv_left)
  then show ?thesis by (simp add: spec_lanes_short flip: spec_split)
qed

text \<open>Appending to a message is appending to its unprocessed tail.\<close>

lemma spec_lanes_extend: "spec_lanes v (m @ bs) = spec_lanes (spec_lanes v m) (spec_tail m @ bs)"
proof -
  have "spec_lanes v (m @ bs) = spec_lanes v (take (32 * (length m div 32)) m @ (spec_tail m @ bs))"
    by (simp flip: spec_split append_assoc)
  also have "\<dots> = spec_lanes (spec_lanes v (take (32 * (length m div 32)) m)) (spec_tail m @ bs)"
    by (rule spec_lanes_append) (simp only: length_spec_head dvd_triv_left)
  finally show ?thesis by (simp flip: spec_lanes_head)
qed

lemma spec_tail_short: "length m < 32 \<Longrightarrow> spec_tail m = m"
  by (simp add: spec_tail_def)

lemma spec_tail_append: "32 dvd length m \<Longrightarrow> spec_tail (m @ m') = spec_tail m'"
  by (auto simp: spec_tail_def elim!: dvdE)

lemma spec_tail_extend: "spec_tail (m @ bs) = spec_tail (spec_tail m @ bs)"
proof -
  have "spec_tail (m @ bs) = spec_tail (take (32 * (length m div 32)) m @ (spec_tail m @ bs))"
    by (simp flip: spec_split append_assoc)
  also have "\<dots> = spec_tail (spec_tail m @ bs)"
    by (rule spec_tail_append) (simp only: length_spec_head dvd_triv_left)
  finally show ?thesis .
qed

lemma xs_lanes_consume:
  "32 \<le> length d \<Longrightarrow> spec_lanes (xs_lanes (consume_stripe d s)) (drop 32 d) = spec_lanes (xs_lanes s) d"
  by (simp add: spec_lanes_step xs_lanes_def consume_stripe_def)

lemma xx_stripes_spec:
  "xx_stripes s d = (s', r) \<Longrightarrow>
     r = spec_tail d \<and> xs_lanes s' = spec_lanes (xs_lanes s) d \<and> xs_seed s' = xs_seed s \<and>
     xs_total_length s' = xs_total_length s \<and> xs_buffer s' = xs_buffer s \<and> xs_buffer_size s' = xs_buffer_size s"
proof (induction s d rule: xx_stripes.induct)
  case (1 s d)
  show ?case
  proof (cases "kStripeBytes \<le> length d")
    case False
    with 1 show ?thesis
      by (subst (asm) (2) xx_stripes.simps) (auto simp: kStripeBytes_def spec_lanes_short spec_tail_short)
  next
    case True
    then have step: "xx_stripes (consume_stripe d s) (drop kStripeBytes d) = (s', r)"
      using "1.prems" by (subst (asm) xx_stripes.simps) simp
    have "spec_tail (drop 32 d) = spec_tail d"
      using True spec_tail_append [of "take 32 d" "drop 32 d"] by (simp add: kStripeBytes_def min_def)
    then show ?thesis
      using "1.IH" [OF True step] True xs_lanes_consume [of d s]
      by (auto simp: kStripeBytes_def consume_stripe_def)
  qed
qed

lemma xx_rep_init: "xx_rep seed [] (xx_hash64_init seed)"
  by (simp add: xx_rep_def xx_hash64_init_def xs_lanes_def spec_lanes_short spec_init_def kStripeBytes_def
      spec_tail_def)

lemma xs_lanes_simps [simp]:
  "xs_lanes (s\<lparr>xs_buffer := b\<rparr>) = xs_lanes s" "xs_lanes (s\<lparr>xs_buffer_size := n\<rparr>) = xs_lanes s"
  "xs_lanes (s\<lparr>xs_total_length := t\<rparr>) = xs_lanes s" "xs_lanes (s\<lparr>xs_seed := t\<rparr>) = xs_lanes s"
  by (simp_all add: xs_lanes_def)

lemma consume_stripe_simps [simp]:
  "xs_seed (consume_stripe d s) = xs_seed s" "xs_total_length (consume_stripe d s) = xs_total_length s"
  "xs_buffer (consume_stripe d s) = xs_buffer s" "xs_buffer_size (consume_stripe d s) = xs_buffer_size s"
  by (simp_all add: consume_stripe_def)

lemma take_blit_0: "length d \<le> length b \<Longrightarrow> take (length d) (blit 0 d b) = d"
  by (simp add: blit_def)

text \<open>The whole stripes of the span, after the buffered stripe: the last part of \<open>update\<close>.\<close>

lemma xx_rep_stripes:
  assumes "xx_stripes s d = (s', r)" and "xs_seed s = seed" and "xs_total_length s = word_of_nat (length m)"
    and "length (xs_buffer s) = 32" and "xs_buffer_size s = 0"
    and "spec_lanes (xs_lanes s) d = spec_lanes (spec_init seed) m" and "spec_tail d = spec_tail m"
  shows "xx_rep seed m
     (if r \<noteq> [] then s'\<lparr>xs_buffer := blit 0 r (xs_buffer s'), xs_buffer_size := length r\<rparr> else s')"
proof -
  from xx_stripes_spec [OF assms(1)] have s': "r = spec_tail m" "xs_lanes s' = spec_lanes (spec_init seed) m"
    "xs_seed s' = seed" "xs_total_length s' = word_of_nat (length m)" "length (xs_buffer s') = 32"
    "xs_buffer_size s' = 0"
    using assms by auto
  have len: "length r = length m mod 32" and le: "length r \<le> length (xs_buffer s')"
    using s' by auto
  show ?thesis
  proof (cases "r = []")
    case True
    with s' len show ?thesis by (simp add: xx_rep_def)
  next
    case False
    moreover have "take (length m mod 32) (blit 0 r (xs_buffer s')) = r"
      using take_blit_0 [OF le] by (simp only: len)
    ultimately show ?thesis using s'(2-6) len le by (simp add: xx_rep_def length_blit flip: s'(1))
  qed
qed

lemma xx_rep_update:
  assumes rep: "xx_rep seed m s"
  shows "xx_rep seed (m @ bs) (xx_update s bs)"
proof (cases "bs = []")
  case True
  with rep show ?thesis by (simp add: xx_update_def)
next
  case False
  define k where "k = xs_buffer_size s"
  from rep have s: "xs_seed s = seed" "xs_total_length s = word_of_nat (length m)"
    "xs_lanes s = spec_lanes (spec_init seed) m" "length (xs_buffer s) = 32" "k = length m mod 32"
    "take k (xs_buffer s) = spec_tail m"
    unfolding xx_rep_def k_def by metis+
  have k: "k < 32" using s(5) by simp
  let ?s = "s\<lparr>xs_total_length := xs_total_length s + word_of_nat (length bs)\<rparr>"
  show ?thesis
  proof (cases "k + length bs < 32")
    case True
    have "xx_update s bs = ?s\<lparr>xs_buffer := blit k bs (xs_buffer s), xs_buffer_size := k + length bs\<rparr>"
      using False True by (simp add: xx_update_def kStripeBytes_def k_def)
    moreover have "take (k + length bs) (blit k bs (xs_buffer s)) = spec_tail m @ bs"
      using True s by (simp add: take_blit_end)
    moreover have "spec_tail (m @ bs) = spec_tail m @ bs"
      using True s by (subst spec_tail_extend) (simp add: spec_tail_short)
    moreover have "spec_lanes (spec_init seed) (m @ bs) = spec_lanes (spec_init seed) m"
      using True s by (subst spec_lanes_extend) (simp add: spec_lanes_short)
    moreover have "(length m + length bs) mod 32 = k + length bs"
      using True s(5) by (metis mod_add_left_eq mod_less)
    ultimately show ?thesis using True s by (simp add: xx_rep_def length_blit)
  next
    case ge: False
    show ?thesis
    proof (cases "k = 0")
      case True
      obtain s' r where st: "xx_stripes ?s bs = (s', r)" by fastforce
      have t: "spec_tail m = []" using s(5) True by (metis length_0_conv length_spec_tail)
      have "xx_update s bs = (if r \<noteq> [] then s'\<lparr>xs_buffer := blit 0 r (xs_buffer s'), xs_buffer_size := length r\<rparr> else s')"
        using False ge True st by (simp add: xx_update_def kStripeBytes_def k_def Let_def)
      moreover have "xx_rep seed (m @ bs) \<dots>"
        using st s True spec_lanes_extend [of "spec_init seed" m bs] spec_tail_extend [of m bs]
        by (intro xx_rep_stripes [OF st]) (simp_all add: t k_def)
      ultimately show ?thesis by simp
    next
      case k0: False
      define f where "f = 32 - k"
      define b where "b = blit k (take f bs) (xs_buffer s)"
      have f: "f \<le> length bs" "k + f = 32" using ge k by (simp_all add: f_def)
      then have b: "b = spec_tail m @ take f bs" "length b = 32"
        using s k by (simp_all add: b_def blit_def)
      define s1 where "s1 = consume_stripe b (?s\<lparr>xs_buffer := b\<rparr>)\<lparr>xs_buffer_size := 0\<rparr>"
      obtain s' r where st: "xx_stripes s1 (drop f bs) = (s', r)" by fastforce
      have "xx_update s bs = (if r \<noteq> [] then s'\<lparr>xs_buffer := blit 0 r (xs_buffer s'), xs_buffer_size := length r\<rparr> else s')"
        using False ge k0 st
        by (simp add: xx_update_def kStripeBytes_def k_def [symmetric] Let_def f_def [symmetric] b_def [symmetric]
            s1_def)
      moreover have "xx_rep seed (m @ bs) \<dots>"
      proof (rule xx_rep_stripes [OF st])
        have split: "spec_tail m @ bs = b @ drop f bs" by (simp add: b)
        have "spec_lanes (xs_lanes s1) (drop f bs) = spec_lanes (xs_lanes s) (b @ drop f bs)"
          using xs_lanes_consume [of "b @ drop f bs" "?s\<lparr>xs_buffer := b\<rparr>"] b(2)
          by (simp add: s1_def xs_lanes_def consume_stripe_def read_u64_le_append)
        then show "spec_lanes (xs_lanes s1) (drop f bs) = spec_lanes (spec_init seed) (m @ bs)"
          unfolding s(3) spec_lanes_extend [of _ m bs] split .
        show "spec_tail (drop f bs) = spec_tail (m @ bs)"
          unfolding spec_tail_extend [of m bs] split using b(2) by (simp add: spec_tail_append)
      qed (use s b in \<open>simp_all add: s1_def\<close>)
      ultimately show ?thesis by simp
    qed
  qed
qed

text \<open>
  The contract of an incremental hash: a representation of the message kept by every update,
  and a digest that depends on the represented message only.
\<close>

locale incremental_hash =
  fixes rep :: "bytes \<Rightarrow> 's \<Rightarrow> bool"
    and start :: 's
    and upd :: "'s \<Rightarrow> bytes \<Rightarrow> 's"
    and dig :: "'s \<Rightarrow> 'h"
  assumes rep_start: "rep [] start"
    and rep_upd: "rep m s \<Longrightarrow> rep (m @ bs) (upd s bs)"
    and rep_dig: "rep m s \<Longrightarrow> rep m s' \<Longrightarrow> dig s = dig s'"
begin

lemma rep_foldl: "rep m s \<Longrightarrow> rep (m @ concat chunks) (foldl upd s chunks)"
proof (induction chunks arbitrary: m s)
  case (Cons c cs)
  from Cons.IH [OF rep_upd [OF Cons.prems, of c]] show ?case by simp
qed simp

lemma dig_chunks: "dig (foldl upd start chunks) = dig (upd start (concat chunks))"
  using rep_foldl [OF rep_start, of chunks] rep_upd [OF rep_start, of "concat chunks"]
  by (rule rep_dig)

end

lemma xx_digest_rep:
  assumes "xx_rep seed m s"
  shows "xx_digest s =
    (let (v1, v2, v3, v4) = spec_lanes (spec_init seed) m;
         n = word_of_nat (length m);
         h = (if n \<ge> 32 then foldl xx_merge_round
                         (word_rotl 1 v1 + word_rotl 7 v2 + word_rotl 12 v3 + word_rotl 18 v4)
                         [v1, v2, v3, v4] else seed + kPrime5)
     in spec_finish (h + n) (spec_tail m))"
  using assms
  by (auto simp: xx_rep_def xx_digest_def spec_finish_def xs_lanes_def Let_def split: prod.splits)

interpretation xxh: incremental_hash "xx_rep seed" "xx_hash64_init seed" xx_update xx_digest
  for seed
  by unfold_locales (simp_all add: xx_rep_init xx_rep_update xx_digest_rep)

text \<open>Incremental hashing. However a message is cut into updates, the digest is the
  one-shot digest of the whole message.\<close>

theorem xxhash64_chunks:
  "xx_digest (foldl xx_update (xx_hash64_init seed) chunks) = xxhash64 (concat chunks) seed"
  unfolding xxhash64_def by (rule xxh.dig_chunks)

lemma xxhash64_eq_spec:
  assumes "length m < 2 ^ 64"
  shows "xxhash64 m seed = xxh64_spec m seed"
proof -
  have "xx_rep seed m (xx_update (xx_hash64_init seed) m)"
    using xx_rep_update [OF xx_rep_init, of seed m] by simp
  moreover have "(32 :: u64) \<le> word_of_nat (length m) \<longleftrightarrow> 32 \<le> length m"
    using assms by (simp add: word_le_nat_alt unat_word_of_nat)
  ultimately show ?thesis
    by (simp add: xxhash64_def xx_digest_rep xxh64_spec_def split: prod.splits)
qed

text \<open>C10: The hasher implements XXH64. For every message shorter than 2^64 bytes the streaming
  state machine with its 32-byte buffer computes the digest of the XXH64 specification.\<close>

theorem xxhash64_implements_spec:
  assumes "length (concat chunks) < 2 ^ 64"
  shows "xx_digest (foldl xx_update (xx_hash64_init seed) chunks) = xxh64_spec (concat chunks) seed"
  using xxhash64_eq_spec [OF assms] by (simp add: xxh.dig_chunks xxhash64_def)

theorem xxhash64_implements_spec_witness:
  "xx_digest (foldl xx_update (xx_hash64_init 7) [[1, 2, 3], replicate 40 9, [4]])
     = xxh64_spec ([1, 2, 3] @ replicate 40 9 @ [4]) 7"
  using xxhash64_implements_spec [of "[[1, 2, 3], replicate 40 9, [4]]" 7] by simp

end
