(* ===== verification/Schema_Fingerprint.thy ===== *)
theory Schema_Fingerprint
  imports Core_Types Xx_Hash64
begin

text \<open>
  The schema fingerprint of \<open>compiler/schema_compiler.cpp\<close> (\<open>fingerprint_*\<close> and
  \<open>ProtocolCompiler::fingerprint\<close>): the hasher is threaded through the definition. The
  fingerprint is shown to be the hash of one canonical byte string, which also shows where two
  different definitions have the same fingerprint.
\<close>

subsection \<open>Threading the hasher\<close>

definition fingerprint_enum_value :: "enum_value_definition \<Rightarrow> xx_hash64_state \<Rightarrow> xx_hash64_state" where
  "fingerprint_enum_value v s =
     (let s = xx_update_integral s (ev_value v) in xx_update_string s (ev_name v))"

definition fingerprint_bit_field :: "bit_field_definition \<Rightarrow> xx_hash64_state \<Rightarrow> xx_hash64_state" where
  "fingerprint_bit_field b s =
     (let s = xx_update_string s (bfd_name b);
          s = xx_update_integral s (word_of_nat (bfd_offset_bits b));
          s = xx_update_integral s (word_of_nat (bfd_width_bits b));
          s = xx_update_bool s (bfd_is_signed b)
      in fold fingerprint_enum_value (bfd_enum_values b) s)"

definition fingerprint_variant_case :: "variant_case_definition \<Rightarrow> xx_hash64_state \<Rightarrow> xx_hash64_state" where
  "fingerprint_variant_case c s =
     (let s = xx_update_integral s (vcd_tag_value c) in xx_update_string s (vcd_referenced_type c))"

text \<open>\<open>update_bool(x.has_value())\<close>, and the members when there is a value.\<close>

definition fingerprint_option ::
  "('a \<Rightarrow> xx_hash64_state \<Rightarrow> xx_hash64_state) \<Rightarrow> 'a option \<Rightarrow> xx_hash64_state \<Rightarrow> xx_hash64_state" where
  "fingerprint_option hash_members x s =
     (let s = xx_update_bool s (x \<noteq> None) in
      (case x of None \<Rightarrow> s | Some y \<Rightarrow> hash_members y s))"

definition fingerprint_checksum :: "checksum_definition \<Rightarrow> xx_hash64_state \<Rightarrow> xx_hash64_state" where
  "fingerprint_checksum c s =
     (let s = xx_update_string s (ckd_algorithm c);
          s = xx_update_string s (ckd_from c)
      in xx_update_string s (ckd_to c))"

definition fingerprint_condition :: "condition_definition \<Rightarrow> xx_hash64_state \<Rightarrow> xx_hash64_state" where
  "fingerprint_condition c s =
     (let s = xx_update_string s (cnd_field c) in xx_update_integral s (cnd_equals_unsigned c))"

definition fingerprint_presence :: "presence_definition \<Rightarrow> xx_hash64_state \<Rightarrow> xx_hash64_state" where
  "fingerprint_presence p s =
     (let s = xx_update_string s (prd_field p) in xx_update_integral s (word_of_nat (prd_bit_index p)))"

definition fingerprint_field :: "field_definition \<Rightarrow> xx_hash64_state \<Rightarrow> xx_hash64_state" where
  "fingerprint_field f s =
     (let s = xx_update_string s (fd_name f);
          s = xx_update_integral s (word_of_nat (field_kind_index (fd_kind f)));
          s = xx_update_integral s (word_of_nat (fd_width_bytes f));
          s = xx_update_integral s (word_of_nat (byte_order_index (fd_byte_order f)));
          s = xx_update_integral s (word_of_nat (string_encoding_index (fd_string_encoding f)));
          s = xx_update_integral s (word_of_nat (fd_fixed_size f));
          s = xx_update_string s (fd_size_from_field f);
          s = xx_update_string s (fd_referenced_type f);
          s = xx_update_integral s (word_of_nat (fd_alignment f));
          s = xx_update_bool s (fd_is_reserved f);
          s = xx_update_integral s (ucast (fd_reserved_fill_byte f));
          s = xx_update_integral s (word_of_nat (fd_fixed_count f));
          s = xx_update_string s (fd_count_from_field f);
          s = xx_update_string s (fd_tag_from_field f);
          s = xx_update_bool s (fd_has_expected_unsigned f);
          s = xx_update_integral s (fd_expected_unsigned f);
          s = fold fingerprint_enum_value (fd_enum_values f) s;
          s = fold fingerprint_bit_field (fd_bit_fields f) s;
          s = fingerprint_option fingerprint_checksum (fd_checksum f) s;
          s = fingerprint_option fingerprint_condition (fd_condition f) s;
          s = fingerprint_option fingerprint_presence (fd_presence f) s
      in fold fingerprint_variant_case (fd_variant_cases f) s)"

definition fingerprint_validation_rule ::
  "validation_rule_definition \<Rightarrow> xx_hash64_state \<Rightarrow> xx_hash64_state" where
  "fingerprint_validation_rule r s =
     (let s = xx_update_string s (vrd_field r);
          s = xx_update_integral s (word_of_nat (validation_operator_index (vrd_op r)));
          s = xx_update_string s (vrd_other_field r);
          s = xx_update_bool s (vrd_compare_to_field r);
          s = xx_update_integral s (vrd_value r);
          s = xx_update_integral s (vrd_multiplier r)
      in fingerprint_option fingerprint_condition (vrd_when r) s)"

definition fingerprint_enum :: "enum_definition \<Rightarrow> xx_hash64_state \<Rightarrow> xx_hash64_state" where
  "fingerprint_enum e s =
     (let s = xx_update_string s ''enum'';
          s = xx_update_string s (end_name e);
          s = xx_update_integral s (word_of_nat (end_width_bytes e));
          s = xx_update_integral s (word_of_nat (byte_order_index (end_byte_order e)))
      in fold fingerprint_enum_value (end_values e) s)"

definition fingerprint_struct :: "struct_definition \<Rightarrow> xx_hash64_state \<Rightarrow> xx_hash64_state" where
  "fingerprint_struct d s =
     (let s = xx_update_string s ''struct'';
          s = xx_update_string s (sd_name d);
          s = fold fingerprint_field (sd_fields d) s
      in fold fingerprint_validation_rule (sd_validations d) s)"

definition fingerprint_message :: "message_definition \<Rightarrow> xx_hash64_state \<Rightarrow> xx_hash64_state" where
  "fingerprint_message m s =
     (let s = xx_update_string s ''message'';
          s = xx_update_string s (md_name m);
          s = xx_update_bool s (md_allow_trailing_bytes m);
          s = fold fingerprint_field (md_fields m) s
      in fold fingerprint_validation_rule (md_validations m) s)"

definition fingerprint :: "protocol_definition \<Rightarrow> u64" where
  "fingerprint d =
     (let s = xx_hash64_init 0;
          s = xx_update_string s (pd_name d);
          s = fold fingerprint_struct (pd_structs d) s;
          s = fold fingerprint_enum (pd_enums d) s;
          s = fold fingerprint_message (pd_messages d) s
      in xx_digest s)"

subsection \<open>The canonical byte string\<close>

definition bool_bytes :: "bool \<Rightarrow> bytes" where
  "bool_bytes b = [if b then 1 else 0]"

definition size_bytes :: "nat \<Rightarrow> bytes" where
  "size_bytes n = xx_integral_bytes (word_of_nat n)"

definition enum_value_bytes :: "enum_value_definition \<Rightarrow> bytes" where
  "enum_value_bytes v = xx_integral_bytes (ev_value v) @ string_bytes (ev_name v)"

definition bit_field_bytes :: "bit_field_definition \<Rightarrow> bytes" where
  "bit_field_bytes b =
     string_bytes (bfd_name b) @ size_bytes (bfd_offset_bits b) @ size_bytes (bfd_width_bits b) @
     bool_bytes (bfd_is_signed b) @ concat (map enum_value_bytes (bfd_enum_values b))"

definition variant_case_bytes :: "variant_case_definition \<Rightarrow> bytes" where
  "variant_case_bytes c = xx_integral_bytes (vcd_tag_value c) @ string_bytes (vcd_referenced_type c)"

definition option_bytes :: "('a \<Rightarrow> bytes) \<Rightarrow> 'a option \<Rightarrow> bytes" where
  "option_bytes f x = bool_bytes (x \<noteq> None) @ (case x of None \<Rightarrow> [] | Some y \<Rightarrow> f y)"

definition field_bytes :: "field_definition \<Rightarrow> bytes" where
  "field_bytes f =
     string_bytes (fd_name f) @ size_bytes (field_kind_index (fd_kind f)) @ size_bytes (fd_width_bytes f) @
     size_bytes (byte_order_index (fd_byte_order f)) @
     size_bytes (string_encoding_index (fd_string_encoding f)) @ size_bytes (fd_fixed_size f) @
     string_bytes (fd_size_from_field f @ fd_referenced_type f) @ size_bytes (fd_alignment f) @
     bool_bytes (fd_is_reserved f) @ xx_integral_bytes (ucast (fd_reserved_fill_byte f)) @
     size_bytes (fd_fixed_count f) @ string_bytes (fd_count_from_field f @ fd_tag_from_field f) @
     bool_bytes (fd_has_expected_unsigned f) @ xx_integral_bytes (fd_expected_unsigned f) @
     concat (map enum_value_bytes (fd_enum_values f)) @ concat (map bit_field_bytes (fd_bit_fields f)) @
     option_bytes (\<lambda>c. string_bytes (ckd_algorithm c @ ckd_from c @ ckd_to c)) (fd_checksum f) @
     option_bytes (\<lambda>c. string_bytes (cnd_field c) @ xx_integral_bytes (cnd_equals_unsigned c)) (fd_condition f) @
     option_bytes (\<lambda>p. string_bytes (prd_field p) @ size_bytes (prd_bit_index p)) (fd_presence f) @
     concat (map variant_case_bytes (fd_variant_cases f))"

definition validation_rule_bytes :: "validation_rule_definition \<Rightarrow> bytes" where
  "validation_rule_bytes r =
     string_bytes (vrd_field r) @ size_bytes (validation_operator_index (vrd_op r)) @
     string_bytes (vrd_other_field r) @ bool_bytes (vrd_compare_to_field r) @
     xx_integral_bytes (vrd_value r) @ xx_integral_bytes (vrd_multiplier r) @
     option_bytes (\<lambda>w. string_bytes (cnd_field w) @ xx_integral_bytes (cnd_equals_unsigned w)) (vrd_when r)"

definition enum_bytes :: "enum_definition \<Rightarrow> bytes" where
  "enum_bytes e =
     string_bytes (''enum'' @ end_name e) @ size_bytes (end_width_bytes e) @
     size_bytes (byte_order_index (end_byte_order e)) @ concat (map enum_value_bytes (end_values e))"

definition struct_bytes :: "struct_definition \<Rightarrow> bytes" where
  "struct_bytes d =
     string_bytes (''struct'' @ sd_name d) @ concat (map field_bytes (sd_fields d)) @
     concat (map validation_rule_bytes (sd_validations d))"

definition message_bytes :: "message_definition \<Rightarrow> bytes" where
  "message_bytes m =
     string_bytes (''message'' @ md_name m) @ bool_bytes (md_allow_trailing_bytes m) @
     concat (map field_bytes (md_fields m)) @ concat (map validation_rule_bytes (md_validations m))"

definition protocol_bytes :: "protocol_definition \<Rightarrow> bytes" where
  "protocol_bytes d =
     string_bytes (pd_name d) @ concat (map struct_bytes (pd_structs d)) @
     concat (map enum_bytes (pd_enums d)) @ concat (map message_bytes (pd_messages d))"

text \<open>Each step of the fingerprint extends the represented message by the bytes of its argument.\<close>

lemma string_bytes_append: "string_bytes (a @ b) = string_bytes a @ string_bytes b"
  by (simp add: string_bytes_def)

named_theorems absorb_intros \<open>the bytes that each hashing step absorbs\<close>

lemma absorb_update [absorb_intros]:
  "xx_rep k m s \<Longrightarrow> xx_rep k (m @ size_bytes n) (xx_update_integral s (word_of_nat n))"
  "xx_rep k m s \<Longrightarrow> xx_rep k (m @ xx_integral_bytes w) (xx_update_integral s w)"
  "xx_rep k m s \<Longrightarrow> xx_rep k (m @ string_bytes v) (xx_update_string s v)"
  "xx_rep k m s \<Longrightarrow> xx_rep k (m @ bool_bytes b) (xx_update_bool s b)"
  by (simp_all add: xx_rep_update xx_update_string_def xx_update_integral_def xx_update_bool_def
      size_bytes_def bool_bytes_def)

lemma absorb_eq: "xx_rep k m' s \<Longrightarrow> m' = m \<Longrightarrow> xx_rep k m s"
  by simp

lemma absorb_fold:
  "(\<And>x m s. xx_rep k m s \<Longrightarrow> xx_rep k (m @ g x) (f x s)) \<Longrightarrow> xx_rep k m s \<Longrightarrow>
   xx_rep k (m @ concat (map g xs)) (fold f xs s)"
  by (induction xs arbitrary: m s) (simp_all flip: append_assoc)

lemma absorb_option:
  assumes "\<And>y m s. xx_rep k m s \<Longrightarrow> xx_rep k (m @ g y) (f y s)" and "xx_rep k m s"
  shows "xx_rep k (m @ option_bytes g x) (fingerprint_option f x s)"
  using absorb_update(4) [OF assms(2)] assms(1)
  by (auto simp: fingerprint_option_def option_bytes_def split: option.split simp flip: append_assoc)

lemma absorb_enum_value [absorb_intros]:
  "xx_rep k m s \<Longrightarrow> xx_rep k (m @ enum_value_bytes v) (fingerprint_enum_value v s)"
  unfolding fingerprint_enum_value_def Let_def enum_value_bytes_def
  by (rule absorb_eq, (rule absorb_intros)+, assumption, simp only: append_assoc string_bytes_append)

lemma absorb_variant_case [absorb_intros]:
  "xx_rep k m s \<Longrightarrow> xx_rep k (m @ variant_case_bytes v) (fingerprint_variant_case v s)"
  unfolding fingerprint_variant_case_def Let_def variant_case_bytes_def
  by (rule absorb_eq, (rule absorb_intros)+, assumption, simp only: append_assoc string_bytes_append)

lemma absorb_bit_field:
  "xx_rep k m s \<Longrightarrow> xx_rep k (m @ bit_field_bytes b) (fingerprint_bit_field b s)"
  unfolding fingerprint_bit_field_def Let_def bit_field_bytes_def
  by (rule absorb_eq, rule absorb_fold, erule absorb_enum_value, (rule absorb_intros)+, assumption, simp only: append_assoc string_bytes_append)

lemma absorb_checksum:
  "xx_rep k m s \<Longrightarrow>
   xx_rep k (m @ string_bytes (ckd_algorithm c @ ckd_from c @ ckd_to c)) (fingerprint_checksum c s)"
  unfolding fingerprint_checksum_def Let_def
  by (rule absorb_eq, (rule absorb_intros)+, assumption, simp only: append_assoc string_bytes_append)

lemma absorb_condition:
  "xx_rep k m s \<Longrightarrow>
   xx_rep k (m @ string_bytes (cnd_field c) @ xx_integral_bytes (cnd_equals_unsigned c)) (fingerprint_condition c s)"
  unfolding fingerprint_condition_def Let_def
  by (rule absorb_eq, (rule absorb_intros)+, assumption, simp only: append_assoc string_bytes_append)

lemma absorb_presence:
  "xx_rep k m s \<Longrightarrow>
   xx_rep k (m @ string_bytes (prd_field c) @ size_bytes (prd_bit_index c)) (fingerprint_presence c s)"
  unfolding fingerprint_presence_def Let_def
  by (rule absorb_eq, (rule absorb_intros)+, assumption, simp only: append_assoc string_bytes_append)

lemma absorb_members:
  "xx_rep k m s \<Longrightarrow> xx_rep k (m @ concat (map enum_value_bytes vs)) (fold fingerprint_enum_value vs s)"
  "xx_rep k m s \<Longrightarrow> xx_rep k (m @ concat (map bit_field_bytes bs)) (fold fingerprint_bit_field bs s)"
  "xx_rep k m s \<Longrightarrow> xx_rep k (m @ concat (map variant_case_bytes cs)) (fold fingerprint_variant_case cs s)"
  "xx_rep k m s \<Longrightarrow> xx_rep k (m @ option_bytes (\<lambda>c. string_bytes (ckd_algorithm c @ ckd_from c @ ckd_to c)) x)
     (fingerprint_option fingerprint_checksum x s)"
  "xx_rep k m s \<Longrightarrow>
   xx_rep k (m @ option_bytes (\<lambda>c. string_bytes (cnd_field c) @ xx_integral_bytes (cnd_equals_unsigned c)) y)
     (fingerprint_option fingerprint_condition y s)"
  "xx_rep k m s \<Longrightarrow>
   xx_rep k (m @ option_bytes (\<lambda>p. string_bytes (prd_field p) @ size_bytes (prd_bit_index p)) z)
     (fingerprint_option fingerprint_presence z s)"
  by (auto intro: absorb_fold absorb_option absorb_enum_value absorb_bit_field absorb_variant_case
      absorb_checksum absorb_condition absorb_presence)

lemma absorb_field: "xx_rep k m s \<Longrightarrow> xx_rep k (m @ field_bytes f) (fingerprint_field f s)"
  unfolding fingerprint_field_def Let_def field_bytes_def
  by (rule absorb_eq, (rule absorb_intros absorb_members)+, assumption, simp only: append_assoc string_bytes_append)

lemma absorb_validation_rule:
  "xx_rep k m s \<Longrightarrow> xx_rep k (m @ validation_rule_bytes r) (fingerprint_validation_rule r s)"
  unfolding fingerprint_validation_rule_def Let_def validation_rule_bytes_def
  by (rule absorb_eq, (rule absorb_intros absorb_members)+, assumption, simp only: append_assoc string_bytes_append)

lemma absorb_enum: "xx_rep k m s \<Longrightarrow> xx_rep k (m @ enum_bytes e) (fingerprint_enum e s)"
  unfolding fingerprint_enum_def Let_def enum_bytes_def
  by (rule absorb_eq, (rule absorb_intros absorb_members)+, assumption, simp only: append_assoc string_bytes_append)

lemma absorb_parts:
  "xx_rep k m s \<Longrightarrow> xx_rep k (m @ concat (map field_bytes fs)) (fold fingerprint_field fs s)"
  "xx_rep k m s \<Longrightarrow>
   xx_rep k (m @ concat (map validation_rule_bytes rs)) (fold fingerprint_validation_rule rs s)"
  by (auto intro: absorb_fold absorb_field absorb_validation_rule)

lemma absorb_struct: "xx_rep k m s \<Longrightarrow> xx_rep k (m @ struct_bytes d) (fingerprint_struct d s)"
  unfolding fingerprint_struct_def Let_def struct_bytes_def
  by (rule absorb_eq, (rule absorb_parts absorb_intros)+, assumption, simp only: append_assoc string_bytes_append)

lemma absorb_message: "xx_rep k m s \<Longrightarrow> xx_rep k (m @ message_bytes d) (fingerprint_message d s)"
  unfolding fingerprint_message_def Let_def message_bytes_def
  by (rule absorb_eq, (rule absorb_parts absorb_intros)+, assumption, simp only: append_assoc string_bytes_append)

lemma fingerprint_eq_hash: "fingerprint d = xxhash64 (protocol_bytes d) 0"
proof -
  let ?s = "fold fingerprint_message (pd_messages d) (fold fingerprint_enum (pd_enums d)
     (fold fingerprint_struct (pd_structs d) (xx_update_string (xx_hash64_init 0) (pd_name d))))"
  have "xx_rep 0 (protocol_bytes d) ?s"
    unfolding protocol_bytes_def
    by (rule absorb_eq, rule absorb_fold, erule absorb_message, rule absorb_fold, erule absorb_enum,
        rule absorb_fold, erule absorb_struct, rule absorb_update(3), rule xx_rep_init, simp only: append_assoc append_Nil)
  moreover have "xx_rep 0 (protocol_bytes d) (xx_update (xx_hash64_init 0) (protocol_bytes d))"
    using xx_rep_update [OF xx_rep_init, of 0 "protocol_bytes d"] by simp
  ultimately have "xx_digest ?s = xx_digest (xx_update (xx_hash64_init 0) (protocol_bytes d))"
    by (rule xxh.rep_dig)
  then show ?thesis by (simp add: fingerprint_def xxhash64_def Let_def)
qed

text \<open>C15: Fingerprint as a hash of one string. The fingerprint of a protocol is the one-shot
  hash of the canonical serialisation of its definition, so it depends on nothing else.\<close>

theorem fingerprint_canonical: "fingerprint d = xxhash64 (protocol_bytes d) 0"
  by (rule fingerprint_eq_hash)

text \<open>
  The serialisation does not delimit adjacent strings: moving the reference of a field from
  \<open>size_from\<close> to the (unchecked) type name leaves it unchanged, and likewise for the count and
  the tag reference.
\<close>

lemma field_bytes_split:
  "fd_size_from_field f @ fd_referenced_type f = fd_size_from_field g @ fd_referenced_type g \<Longrightarrow>
   g = f\<lparr>fd_size_from_field := fd_size_from_field g, fd_referenced_type := fd_referenced_type g\<rparr> \<Longrightarrow>
   field_bytes f = field_bytes g"
  by (cases f, cases g) (simp add: field_bytes_def flip: string_bytes_append)

end
