(* ===== verification/Schema_Compiler.thy ===== *)
theory Schema_Compiler
  imports Compiled_Protocol Schema_Fingerprint
begin

text \<open>
  The schema compiler of \<open>compiler/schema_compiler.cpp\<close>: \<open>ProtocolCompiler::compile\<close> with
  \<open>validate_names\<close>, the layout compiler with every check it makes on a field, the recursion
  through nested structs, checksum anchors and validation rules.

  Every error return of the code is a constructor of \<open>compile_error\<close>. A compiler object is discarded after an error, so an error carries no
  state. The recursion through \<open>compile_struct\<close> carries fuel; \<open>CE_OutOfFuel\<close> is shown not to
  occur. \<open>CE_OutOfBoundsStore\<close> marks the one store that the code may make outside a vector.
  The checksum registry is fixed during one compilation.
\<close>

subsection \<open>Errors\<close>

text \<open>The causes of \<open>invalid_argument\<close>, one constructor per return, grouped by the part that is checked.\<close>

datatype definition_error =
    IR_ImportsUnresolved | IR_ProtocolNameEmpty | IR_NoMessages | IR_EnumNameEmpty
   | IR_DuplicateLayoutName | IR_EnumWidth | IR_StructNameEmpty | IR_MessageNameEmpty

datatype layout_error =
    IR_RecursiveStruct | IR_UnknownAnchorField | IR_UnsupportedAnchor | IR_NoFields
   | IR_FieldNameEmpty | IR_DuplicateFieldName | IR_AlignmentNotPowerOfTwo

datatype bytes_error =
    IR_BytesExpect | IR_BytesSizeChoice | IR_SizeFromUnknown | IR_SizeFromKind
   | IR_BytesBitFields | IR_BytesCounts | IR_BytesVariant | IR_ReservedNotFixedBytes
   | IR_ReservedModifiers

datatype struct_error =
    IR_StructNoType | IR_StructExpect | IR_StructSize | IR_StructBitFields | IR_StructCounts
   | IR_StructVariant

datatype collection_error =
    IR_CollectionNoType | IR_CollectionCountChoice | IR_CollectionModifiers
   | IR_CollectionVariant | IR_CollectionEmptyElement | IR_CountFromUnknown | IR_CountFromKind

datatype variant_error =
    IR_VariantIncomplete | IR_VariantModifiers | IR_TagUnknown | IR_TagKind

datatype scalar_error =
    IR_ReservedNotBytes | IR_ScalarWidth | IR_Float32Width | IR_Float64Width | IR_ScalarCounts
   | IR_ScalarVariant

datatype modifier_error =
    IR_ConditionUnknown | IR_ConditionKind | IR_PresenceUnknown | IR_PresenceKind
   | IR_PresenceBitRange | IR_ChecksumKind | IR_ChecksumWidth

datatype bit_field_error =
    IR_BitFieldContainer | IR_BitFieldNameEmpty | IR_DuplicateBitField | IR_BitFieldZero
   | IR_BitFieldTooWide | IR_BitFieldRange

datatype validation_error =
    IR_ValidationUnknown | IR_ValidationKind | IR_ValidationMultiplier
   | IR_ValidationOtherUnknown | IR_ValidationOtherKind | IR_ValidationWhenUnknown
   | IR_ValidationWhenKind

datatype exhausted_reason = ER_TooManyFields | ER_TooManyBitFields | ER_CollectionTooLarge

datatype compile_error =
    CE_Definition definition_error | CE_Layout layout_error | CE_Bytes bytes_error | CE_Struct struct_error
  | CE_Collection collection_error | CE_Variant variant_error | CE_Scalar scalar_error
  | CE_Modifier modifier_error | CE_BitField bit_field_error | CE_Validation validation_error
  | CE_UnknownStruct string | CE_Exhausted exhausted_reason | CE_Checksum registry_error
  | CE_OutOfFuel | CE_OutOfBoundsStore

fun compile_error_code :: "compile_error \<Rightarrow> status_code option" where
  "compile_error_code (CE_UnknownStruct _) = Some SC_NotFound"
| "compile_error_code (CE_Exhausted _) = Some SC_Exhausted"
| "compile_error_code (CE_Checksum e) = Some (registry_error_code e)"
| "compile_error_code CE_OutOfFuel = None"
| "compile_error_code CE_OutOfBoundsStore = None"
| "compile_error_code _ = Some SC_InvalidArgument"

subsection \<open>Helpers\<close>

definition align_up :: "nat \<Rightarrow> nat \<Rightarrow> nat" where
  "align_up v alignment =
     (if alignment \<le> 1 then v
      else let remainder = v mod alignment in
           if remainder = 0 then v else wrap_size (v + (alignment - remainder)))"

definition checked_mul_size :: "nat \<Rightarrow> nat \<Rightarrow> nat option" where
  "checked_mul_size lhs rhs =
     (if lhs = 0 \<or> rhs = 0 then Some 0
      else if lhs > SIZE_MAX div rhs then None else Some (lhs * rhs))"

definition is_valid_scalar_width :: "nat \<Rightarrow> bool" where
  "is_valid_scalar_width width_bytes \<longleftrightarrow>
     width_bytes = 1 \<or> width_bytes = 2 \<or> width_bytes = 4 \<or> width_bytes = 8"

definition append_expected_scalar_bytes :: "bytes \<Rightarrow> u64 \<Rightarrow> nat \<Rightarrow> byte_order \<Rightarrow> bytes" where
  "append_expected_scalar_bytes dispatch_prefix v width_bytes bo =
     dispatch_prefix @
     (case bo of
        LittleEndian \<Rightarrow> map (\<lambda>index. ucast (drop_bit (index * 8) v AND 0xFF)) [0..<width_bytes]
      | BigEndian \<Rightarrow> map (\<lambda>index. ucast (drop_bit ((width_bytes - index - 1) * 8) v AND 0xFF)) [0..<width_bytes])"

definition checksum_builtin_kind :: "string \<Rightarrow> builtin_kind" where
  "checksum_builtin_kind algorithm =
     (if algorithm = ''xor8'' then BK_Xor8
      else if algorithm = ''sum16'' then BK_Sum16
      else if algorithm = ''crc16_ccitt'' then BK_Crc16Ccitt
      else if algorithm = ''crc32'' then BK_Crc32
      else if algorithm = ''crc32c'' then BK_Crc32c
      else BK_Custom)"

definition validate_protocol_definition :: "protocol_definition \<Rightarrow> compile_error + unit" where
  "validate_protocol_definition d =
     (if pd_imports d \<noteq> [] then Inl (CE_Definition IR_ImportsUnresolved)
      else if pd_name d = '''' then Inl (CE_Definition IR_ProtocolNameEmpty)
      else if pd_messages d = [] then Inl (CE_Definition IR_NoMessages)
      else Inr ())"

subsection \<open>Names\<close>

type_synonym name_ids = "string \<Rightarrow> nat option"

text \<open>The three loops of \<open>validate_names\<close>; \<open>n\<close> is the current size of the id map.\<close>

fun validate_enum_names ::
  "enum_definition list \<Rightarrow> string set \<Rightarrow> name_ids \<Rightarrow> nat \<Rightarrow> compile_error + string set \<times> name_ids" where
  "validate_enum_names [] layout_names ids n = Inr (layout_names, ids)"
| "validate_enum_names (e # es) layout_names ids n =
     (if end_name e = '''' then Inl (CE_Definition IR_EnumNameEmpty)
      else if end_name e \<in> layout_names then Inl (CE_Definition IR_DuplicateLayoutName)
      else if \<not> is_valid_scalar_width (end_width_bytes e) then Inl (CE_Definition IR_EnumWidth)
      else validate_enum_names es (insert (end_name e) layout_names) (emplace (end_name e) n ids) (n + 1))"

fun validate_struct_names ::
  "struct_definition list \<Rightarrow> string set \<Rightarrow> name_ids \<Rightarrow> nat \<Rightarrow> compile_error + string set \<times> name_ids" where
  "validate_struct_names [] layout_names ids n = Inr (layout_names, ids)"
| "validate_struct_names (s # ss) layout_names ids n =
     (if sd_name s = '''' then Inl (CE_Definition IR_StructNameEmpty)
      else if sd_name s \<in> layout_names then Inl (CE_Definition IR_DuplicateLayoutName)
      else validate_struct_names ss (insert (sd_name s) layout_names) (emplace (sd_name s) n ids) (n + 1))"

fun validate_message_names :: "message_definition list \<Rightarrow> string set \<Rightarrow> compile_error + unit" where
  "validate_message_names [] layout_names = Inr ()"
| "validate_message_names (m # ms) layout_names =
     (if md_name m = '''' then Inl (CE_Definition IR_MessageNameEmpty)
      else if md_name m \<in> layout_names then Inl (CE_Definition IR_DuplicateLayoutName)
      else validate_message_names ms (insert (md_name m) layout_names))"

definition validate_names :: "protocol_definition \<Rightarrow> compile_error + name_ids \<times> name_ids" where
  "validate_names d =
     bind_res (validate_enum_names (pd_enums d) {} Map.empty 0) (\<lambda>(layout_names, enum_ids).
     bind_res (validate_struct_names (pd_structs d) layout_names Map.empty 0) (\<lambda>(layout_names, struct_ids).
     bind_res (validate_message_names (pd_messages d) layout_names) (\<lambda>_.
     Inr (enum_ids, struct_ids))))"

subsection \<open>Compiler state\<close>

datatype compile_state = KUnvisited | KVisiting | KDone

record struct_table =
  st_structs :: "compiled_message list"
  st_states :: "compile_state list"

record compile_env =
  ce_definition :: protocol_definition
  ce_enum_ids :: name_ids
  ce_struct_ids :: name_ids
  ce_registry :: registry

record pending_checksum =
  pc_field_id :: field_id
  pc_spec :: checksum_algorithm_spec
  pc_from_anchor :: string
  pc_to_anchor :: string

text \<open>The local variables of \<open>compile_layout\<close> that its field loop updates.\<close>

record layout_state =
  ls_field_names :: "string set"
  ls_bit_field_names :: "string set"
  ls_field_ids :: "string \<Rightarrow> field_id option"
  ls_fields :: "compiled_field list"
  ls_bit_fields :: "compiled_bit_field list"
  ls_pending :: "pending_checksum list"
  ls_dispatch_prefix :: bytes
  ls_minimum_size :: nat
  ls_has_fixed_size :: bool
  ls_collecting :: bool

definition initial_layout_state :: layout_state where
  "initial_layout_state =
     \<lparr>ls_field_names = {}, ls_bit_field_names = {}, ls_field_ids = Map.empty, ls_fields = [],
      ls_bit_fields = [], ls_pending = [], ls_dispatch_prefix = [], ls_minimum_size = 0,
      ls_has_fixed_size = True, ls_collecting = True\<rparr>"

text \<open>
  \<open>field_ids.find(name)\<close> followed by \<open>compiled_fields[it->second]\<close> and the test that the
  field is unsigned or an enum, with the two errors of the call site.
\<close>

definition numeric_field ::
  "layout_state \<Rightarrow> string \<Rightarrow> compile_error \<Rightarrow> compile_error \<Rightarrow> compile_error + compiled_field" where
  "numeric_field ls name unknown wrong_kind =
     (case ls_field_ids ls name of
        None \<Rightarrow> Inl unknown
      | Some i \<Rightarrow>
          let dependency = ls_fields ls ! i in
          if cf_kind dependency \<noteq> KUnsigned \<and> cf_kind dependency \<noteq> KEnum
          then Inl wrong_kind else Inr dependency)"

subsection \<open>One field, by kind\<close>

type_synonym struct_compiler = "nat \<Rightarrow> struct_table \<Rightarrow> compile_error + nat \<times> struct_table"

text \<open>
  Each function returns the compiled field, whether the field keeps the layout of fixed size,
  and the struct table.
\<close>

definition compile_bytes_field ::
  "layout_state \<Rightarrow> field_definition \<Rightarrow> compiled_field \<Rightarrow> compile_error + compiled_field \<times> bool" where
  "compile_bytes_field ls f cf =
     (if fd_has_expected_unsigned f then Inl (CE_Bytes IR_BytesExpect)
      else if (fd_fixed_size f = 0) = (fd_size_from_field f = '''') then Inl (CE_Bytes IR_BytesSizeChoice)
      else bind_res
        (if fd_size_from_field f \<noteq> '''' then
           bind_res (numeric_field ls (fd_size_from_field f) (CE_Bytes IR_SizeFromUnknown) (CE_Bytes IR_SizeFromKind)) (\<lambda>dependency.
             Inr (cf\<lparr>cf_dynamic_size := True, cf_size_from_field := cf_id dependency\<rparr>))
         else Inr cf) (\<lambda>cf.
        if fd_bit_fields f \<noteq> [] then Inl (CE_Bytes IR_BytesBitFields)
        else if fd_fixed_count f \<noteq> 0 \<or> fd_count_from_field f \<noteq> '''' then Inl (CE_Bytes IR_BytesCounts)
        else if fd_tag_from_field f \<noteq> '''' \<or> fd_variant_cases f \<noteq> [] then Inl (CE_Bytes IR_BytesVariant)
        else if cf_is_reserved cf \<and>
          (cf_kind cf \<noteq> KBytes \<or> cf_dynamic_size cf \<or> cf_fixed_size cf = 0)
        then Inl (CE_Bytes IR_ReservedNotFixedBytes)
        else if cf_is_reserved cf \<and>
          (fd_checksum f \<noteq> None \<or> fd_condition f \<noteq> None \<or> fd_presence f \<noteq> None)
        then Inl (CE_Bytes IR_ReservedModifiers)
        else Inr (cf, \<not> cf_dynamic_size cf)))"

definition compile_struct_field ::
  "compile_env \<Rightarrow> struct_compiler \<Rightarrow> field_definition \<Rightarrow> compiled_field \<Rightarrow> struct_table \<Rightarrow>
   compile_error + compiled_field \<times> bool \<times> struct_table" where
  "compile_struct_field env compile_st f cf st =
     (if fd_referenced_type f = '''' then Inl (CE_Struct IR_StructNoType)
      else bind_res
        (case ce_enum_ids env (fd_referenced_type f) of
           Some e \<Rightarrow>
             let enum_definition = pd_enums (ce_definition env) ! e in
             Inr (cf\<lparr>cf_kind := KEnum, cf_width_bytes := end_width_bytes enum_definition,
                     cf_byte_order := end_byte_order enum_definition,
                     cf_enum_values := end_values enum_definition\<rparr>, True, st)
         | None \<Rightarrow>
             if fd_has_expected_unsigned f then Inl (CE_Struct IR_StructExpect)
             else if fd_fixed_size f \<noteq> 0 \<or> fd_size_from_field f \<noteq> '''' then Inl (CE_Struct IR_StructSize)
             else if fd_bit_fields f \<noteq> [] then Inl (CE_Struct IR_StructBitFields)
             else (case ce_struct_ids env (fd_referenced_type f) of
                     None \<Rightarrow> Inl (CE_UnknownStruct (fd_referenced_type f))
                   | Some s \<Rightarrow>
                       bind_res (compile_st s st) (\<lambda>(struct_id, st).
                       Inr (cf\<lparr>cf_struct_id := struct_id,
                               cf_fixed_size := cm_minimum_size (st_structs st ! struct_id)\<rparr>,
                            cm_has_fixed_size (st_structs st ! struct_id), st)))) (\<lambda>(cf, fixed, st).
        if fd_fixed_count f \<noteq> 0 \<or> fd_count_from_field f \<noteq> '''' then Inl (CE_Struct IR_StructCounts)
        else if fd_tag_from_field f \<noteq> '''' \<or> fd_variant_cases f \<noteq> [] then Inl (CE_Struct IR_StructVariant)
        else Inr (cf, fixed, st)))"

definition compile_collection_field ::
  "compile_env \<Rightarrow> struct_compiler \<Rightarrow> layout_state \<Rightarrow> field_definition \<Rightarrow> compiled_field \<Rightarrow> struct_table \<Rightarrow>
   compile_error + compiled_field \<times> bool \<times> struct_table" where
  "compile_collection_field env compile_st ls f cf st =
     (if fd_referenced_type f = '''' then Inl (CE_Collection IR_CollectionNoType)
      else if (fd_fixed_count f = 0) = (fd_count_from_field f = '''') then Inl (CE_Collection IR_CollectionCountChoice)
      else if fd_has_expected_unsigned f \<or> fd_checksum f \<noteq> None \<or> fd_bit_fields f \<noteq> []
      then Inl (CE_Collection IR_CollectionModifiers)
      else if fd_tag_from_field f \<noteq> '''' \<or> fd_variant_cases f \<noteq> [] then Inl (CE_Collection IR_CollectionVariant)
      else (case ce_struct_ids env (fd_referenced_type f) of
              None \<Rightarrow> Inl (CE_UnknownStruct (fd_referenced_type f))
            | Some s \<Rightarrow>
                bind_res (compile_st s st) (\<lambda>(struct_id, st).
                let element_layout = st_structs st ! struct_id;
                    cf = cf\<lparr>cf_struct_id := struct_id, cf_element_minimum_size := cm_minimum_size element_layout\<rparr>
                in if cf_element_minimum_size cf = 0 then Inl (CE_Collection IR_CollectionEmptyElement)
                   else
                     let cf = cf\<lparr>cf_fixed_count := fd_fixed_count f\<rparr> in
                     if fd_count_from_field f \<noteq> '''' then
                       bind_res (numeric_field ls (fd_count_from_field f) (CE_Collection IR_CountFromUnknown) (CE_Collection IR_CountFromKind))
                         (\<lambda>dependency.
                          Inr (cf\<lparr>cf_dynamic_count := True, cf_count_from_field := cf_id dependency,
                                  cf_fixed_size := 0\<rparr>, False, st))
                     else
                       (case checked_mul_size (cf_fixed_count cf) (cf_element_minimum_size cf) of
                          None \<Rightarrow> Inl (CE_Exhausted ER_CollectionTooLarge)
                        | Some total_size \<Rightarrow>
                            Inr (cf\<lparr>cf_fixed_size := total_size\<rparr>, cm_has_fixed_size element_layout, st)))))"

text \<open>The loop over the cases of a variant.\<close>

record variant_acc =
  va_field :: compiled_field
  va_first_case :: bool
  va_all_cases_fixed :: bool
  va_first_fixed_size :: nat

fun compile_variant_cases ::
  "compile_env \<Rightarrow> struct_compiler \<Rightarrow> variant_case_definition list \<Rightarrow> variant_acc \<Rightarrow> struct_table \<Rightarrow>
   compile_error + variant_acc \<times> struct_table" where
  "compile_variant_cases env compile_st [] acc st = Inr (acc, st)"
| "compile_variant_cases env compile_st (c # cs) acc st =
     (case ce_struct_ids env (vcd_referenced_type c) of
        None \<Rightarrow> Inl (CE_UnknownStruct (vcd_referenced_type c))
      | Some s \<Rightarrow>
          bind_res (compile_st s st) (\<lambda>(struct_id, st).
          let case_layout = st_structs st ! struct_id;
              cf = va_field acc;
              cf = cf\<lparr>cf_variant_cases := cf_variant_cases cf @
                       [\<lparr>cvc_tag_value = vcd_tag_value c, cvc_struct_id = struct_id\<rparr>]\<rparr>;
              cf = (if va_first_case acc \<or> cm_minimum_size case_layout < cf_fixed_size cf
                    then cf\<lparr>cf_fixed_size := cm_minimum_size case_layout\<rparr> else cf);
              first_size = (if va_first_case acc then cm_minimum_size case_layout
                            else va_first_fixed_size acc);
              all_fixed = (if \<not> cm_has_fixed_size case_layout \<or> cm_minimum_size case_layout \<noteq> first_size
                           then False else va_all_cases_fixed acc)
          in compile_variant_cases env compile_st cs
               \<lparr>va_field = cf, va_first_case = False, va_all_cases_fixed = all_fixed,
                va_first_fixed_size = first_size\<rparr> st))"

definition kMaxDenseVariantLookupSpan :: u64 where "kMaxDenseVariantLookupSpan = 256"

text \<open>
  The stores into the dense table, in case order. \<open>None\<close> is a store beyond the end of the
  vector, which is undefined in C++.
\<close>

fun fill_variant_lookup ::
  "u64 \<Rightarrow> (nat \<times> compiled_variant_case) list \<Rightarrow> nat list \<Rightarrow> nat list option" where
  "fill_variant_lookup min_tag [] indices = Some indices"
| "fill_variant_lookup min_tag ((case_index, c) # cs) indices =
     (let i = unat (cvc_tag_value c - min_tag) in
      if i < length indices then fill_variant_lookup min_tag cs (indices[i := case_index]) else None)"

definition build_variant_lookup :: "compiled_field \<Rightarrow> compile_error + compiled_field" where
  "build_variant_lookup cf =
     (if cf_variant_cases cf \<noteq> [] then
        let min_tag = cvc_tag_value (hd (cf_variant_cases cf));
            max_tag = cvc_tag_value (last (cf_variant_cases cf));
            span = max_tag - min_tag + 1
        in if span \<le> kMaxDenseVariantLookupSpan then
             (case fill_variant_lookup min_tag (enumerate 0 (cf_variant_cases cf))
                     (replicate (unat span) kVariantLookupMissing) of
                None \<Rightarrow> Inl CE_OutOfBoundsStore
              | Some indices \<Rightarrow>
                  Inr (cf\<lparr>cf_variant_lookup_base := min_tag, cf_variant_lookup_indices := indices\<rparr>))
           else Inr cf
      else Inr cf)"

definition compile_variant_field ::
  "compile_env \<Rightarrow> struct_compiler \<Rightarrow> layout_state \<Rightarrow> field_definition \<Rightarrow> compiled_field \<Rightarrow> struct_table \<Rightarrow>
   compile_error + compiled_field \<times> bool \<times> struct_table" where
  "compile_variant_field env compile_st ls f cf st =
     (if fd_tag_from_field f = '''' \<or> fd_variant_cases f = [] then Inl (CE_Variant IR_VariantIncomplete)
      else if fd_has_expected_unsigned f \<or> fd_checksum f \<noteq> None \<or> fd_bit_fields f \<noteq> [] \<or>
        fd_fixed_size f \<noteq> 0 \<or> fd_size_from_field f \<noteq> '''' \<or> fd_fixed_count f \<noteq> 0 \<or>
        fd_count_from_field f \<noteq> ''''
      then Inl (CE_Variant IR_VariantModifiers)
      else bind_res (numeric_field ls (fd_tag_from_field f) (CE_Variant IR_TagUnknown) (CE_Variant IR_TagKind)) (\<lambda>tag_field.
           bind_res (compile_variant_cases env compile_st (fd_variant_cases f)
                       \<lparr>va_field = cf\<lparr>cf_tag_from_field := cf_id tag_field\<rparr>, va_first_case = True,
                        va_all_cases_fixed = True, va_first_fixed_size = 0\<rparr> st) (\<lambda>(acc, st).
           let cf = va_field acc;
               cf = cf\<lparr>cf_variant_cases := sort_key cvc_tag_value (cf_variant_cases cf)\<rparr>
           in bind_res (build_variant_lookup cf) (\<lambda>cf.
              Inr (cf, va_all_cases_fixed acc, st)))))"

definition compile_scalar_field ::
  "field_definition \<Rightarrow> compiled_field \<Rightarrow> compile_error + unit" where
  "compile_scalar_field f cf =
     (if cf_is_reserved cf then Inl (CE_Scalar IR_ReservedNotBytes)
      else if \<not> is_valid_scalar_width (cf_width_bytes cf) then Inl (CE_Scalar IR_ScalarWidth)
      else if cf_kind cf = KFloat32 \<and> cf_width_bytes cf \<noteq> 4 then Inl (CE_Scalar IR_Float32Width)
      else if cf_kind cf = KFloat64 \<and> cf_width_bytes cf \<noteq> 8 then Inl (CE_Scalar IR_Float64Width)
      else if fd_fixed_count f \<noteq> 0 \<or> fd_count_from_field f \<noteq> '''' then Inl (CE_Scalar IR_ScalarCounts)
      else if fd_tag_from_field f \<noteq> '''' \<or> fd_variant_cases f \<noteq> [] then Inl (CE_Scalar IR_ScalarVariant)
      else Inr ())"

definition compile_field_kind ::
  "compile_env \<Rightarrow> struct_compiler \<Rightarrow> layout_state \<Rightarrow> field_definition \<Rightarrow> compiled_field \<Rightarrow> struct_table \<Rightarrow>
   compile_error + compiled_field \<times> bool \<times> struct_table" where
  "compile_field_kind env compile_st ls f cf st =
     (case cf_kind cf of
        KBytes \<Rightarrow> bind_res (compile_bytes_field ls f cf) (\<lambda>(cf, fixed). Inr (cf, fixed, st))
      | KString \<Rightarrow> bind_res (compile_bytes_field ls f cf) (\<lambda>(cf, fixed). Inr (cf, fixed, st))
      | KStruct \<Rightarrow> compile_struct_field env compile_st f cf st
      | KCollection \<Rightarrow> compile_collection_field env compile_st ls f cf st
      | KVariant \<Rightarrow> compile_variant_field env compile_st ls f cf st
      | _ \<Rightarrow> bind_res (compile_scalar_field f cf) (\<lambda>_. Inr (cf, True, st)))"

subsection \<open>Modifiers shared by every kind\<close>

definition initial_compiled_field :: "nat \<Rightarrow> field_definition \<Rightarrow> compiled_field" where
  "initial_compiled_field index f =
     default_compiled_field\<lparr>
       cf_id := index, cf_name := fd_name f, cf_kind := fd_kind f, cf_width_bytes := fd_width_bytes f,
       cf_byte_order := fd_byte_order f, cf_string_encoding := fd_string_encoding f,
       cf_fixed_size := fd_fixed_size f,
       cf_alignment := (if fd_alignment f = 0 then 1 else fd_alignment f),
       cf_is_reserved := fd_is_reserved f, cf_reserved_fill_byte := fd_reserved_fill_byte f,
       cf_has_expected_unsigned := fd_has_expected_unsigned f,
       cf_expected_unsigned := fd_expected_unsigned f, cf_enum_values := fd_enum_values f\<rparr>"

definition compile_condition ::
  "layout_state \<Rightarrow> field_definition \<Rightarrow> compiled_field \<times> bool \<Rightarrow> compile_error + compiled_field \<times> bool" where
  "compile_condition ls f = (\<lambda>(cf, fixed).
     (case fd_condition f of
        None \<Rightarrow> Inr (cf, fixed)
      | Some c \<Rightarrow>
          bind_res (numeric_field ls (cnd_field c) (CE_Modifier IR_ConditionUnknown) (CE_Modifier IR_ConditionKind)) (\<lambda>dependency.
          Inr (cf\<lparr>cf_has_condition := True, cf_condition_field := cf_id dependency,
                  cf_condition_equals := cnd_equals_unsigned c\<rparr>, False))))"

definition compile_presence ::
  "layout_state \<Rightarrow> field_definition \<Rightarrow> compiled_field \<times> bool \<Rightarrow> compile_error + compiled_field \<times> bool" where
  "compile_presence ls f = (\<lambda>(cf, fixed).
     (case fd_presence f of
        None \<Rightarrow> Inr (cf, fixed)
      | Some p \<Rightarrow>
          bind_res (numeric_field ls (prd_field p) (CE_Modifier IR_PresenceUnknown) (CE_Modifier IR_PresenceKind)) (\<lambda>dependency.
          if prd_bit_index p \<ge> cf_width_bytes dependency * kBitsPerByte
          then Inl (CE_Modifier IR_PresenceBitRange)
          else Inr (cf\<lparr>cf_has_presence := True, cf_presence_field := cf_id dependency,
                       cf_presence_bit := prd_bit_index p\<rparr>, False))))"

definition bit_field_mask :: "nat \<Rightarrow> u64" where
  "bit_field_mask width_bits = (if width_bits = 64 then 0xFFFFFFFFFFFFFFFF else push_bit width_bits 1 - 1)"

fun compile_bit_fields ::
  "field_id \<Rightarrow> nat \<Rightarrow> bit_field_definition list \<Rightarrow> string set \<Rightarrow> compiled_bit_field list \<Rightarrow>
   compile_error + string set \<times> compiled_bit_field list" where
  "compile_bit_fields container container_bits [] names cbfs = Inr (names, cbfs)"
| "compile_bit_fields container container_bits (b # bs) names cbfs =
     (if bfd_name b = '''' then Inl (CE_BitField IR_BitFieldNameEmpty)
      else if bfd_name b \<in> names then Inl (CE_BitField IR_DuplicateBitField)
      else if bfd_width_bits b = 0 then Inl (CE_BitField IR_BitFieldZero)
      else if bfd_width_bits b > 64 then Inl (CE_BitField IR_BitFieldTooWide)
      else if bfd_offset_bits b + bfd_width_bits b > container_bits then Inl (CE_BitField IR_BitFieldRange)
      else if length cbfs \<ge> kMaxBitFieldsPerMessage then Inl (CE_Exhausted ER_TooManyBitFields)
      else compile_bit_fields container container_bits bs (insert (bfd_name b) names)
             (cbfs @ [\<lparr>cbf_id = length cbfs, cbf_name = bfd_name b, cbf_container_field_id = container,
                       cbf_shift_bits = bfd_offset_bits b, cbf_width_bits = bfd_width_bits b,
                       cbf_mask = bit_field_mask (bfd_width_bits b), cbf_is_signed = bfd_is_signed b,
                       cbf_enum_values = bfd_enum_values b\<rparr>]))"

definition compile_field_checksum ::
  "compile_env \<Rightarrow> field_definition \<Rightarrow> compiled_field \<Rightarrow> compile_error + pending_checksum list" where
  "compile_field_checksum env f cf =
     (case fd_checksum f of
        None \<Rightarrow> Inr []
      | Some c \<Rightarrow>
          if cf_kind cf \<noteq> KUnsigned \<and> cf_kind cf \<noteq> KEnum then Inl (CE_Modifier IR_ChecksumKind)
          else (case find_checksum_algorithm (ckd_algorithm c) (ce_registry env) of
                  Inl e \<Rightarrow> Inl (CE_Checksum e)
                | Inr spec \<Rightarrow>
                    if cf_width_bytes cf \<noteq> ca_result_width_bytes spec then Inl (CE_Modifier IR_ChecksumWidth)
                    else Inr [\<lparr>pc_field_id = cf_id cf, pc_spec = spec, pc_from_anchor = ckd_from c,
                               pc_to_anchor = ckd_to c\<rparr>]))"

text \<open>
  The part of the loop body after the kind and the modifiers are compiled: first the id map,
  the minimum size and the dispatch prefix, then the bit fields and the checksum.
\<close>

definition account_field :: "field_definition \<Rightarrow> compiled_field \<Rightarrow> bool \<Rightarrow> layout_state \<Rightarrow> layout_state" where
  "account_field f cf fixed ls =
     (let ls = ls\<lparr>ls_has_fixed_size := ls_has_fixed_size ls \<and> fixed,
                  ls_field_ids := emplace (fd_name f) (cf_id cf) (ls_field_ids ls)\<rparr>;
          ls = (if \<not> is_conditionally_present cf
                then ls\<lparr>ls_minimum_size := wrap_size (align_up (ls_minimum_size ls) (cf_alignment cf) +
                          minimum_size_contribution cf)\<rparr>
                else ls)
      in if ls_collecting ls \<and> is_scalar cf \<and> cf_has_expected_unsigned cf
         then ls\<lparr>ls_dispatch_prefix := append_expected_scalar_bytes (ls_dispatch_prefix ls)
                   (cf_expected_unsigned cf) (cf_width_bytes cf) (cf_byte_order cf)\<rparr>
         else ls\<lparr>ls_collecting := False\<rparr>)"

definition place_field ::
  "compile_env \<Rightarrow> field_definition \<Rightarrow> compiled_field \<Rightarrow> bool \<Rightarrow> layout_state \<Rightarrow> compile_error + layout_state" where
  "place_field env f cf fixed ls =
     (let ls = account_field f cf fixed ls
      in bind_res
          (if fd_bit_fields f \<noteq> [] then
             if cf_kind cf \<noteq> KUnsigned \<and> cf_kind cf \<noteq> KSigned \<and> cf_kind cf \<noteq> KEnum
             then Inl (CE_BitField IR_BitFieldContainer)
             else compile_bit_fields (cf_id cf) (cf_width_bytes cf * kBitsPerByte) (fd_bit_fields f)
                    (ls_bit_field_names ls) (ls_bit_fields ls)
           else Inr (ls_bit_field_names ls, ls_bit_fields ls)) (\<lambda>(names, cbfs).
         bind_res (compile_field_checksum env f cf) (\<lambda>pending.
         Inr (ls\<lparr>ls_bit_field_names := names, ls_bit_fields := cbfs,
                 ls_pending := ls_pending ls @ pending, ls_fields := ls_fields ls @ [cf]\<rparr>))))"

definition compile_field ::
  "compile_env \<Rightarrow> struct_compiler \<Rightarrow> nat \<Rightarrow> field_definition \<Rightarrow> layout_state \<times> struct_table \<Rightarrow>
   compile_error + layout_state \<times> struct_table" where
  "compile_field env compile_st index f = (\<lambda>(ls, st).
     (if fd_name f = '''' then Inl (CE_Layout IR_FieldNameEmpty)
      else if fd_name f \<in> ls_field_names ls then Inl (CE_Layout IR_DuplicateFieldName)
      else
        let ls = ls\<lparr>ls_field_names := insert (fd_name f) (ls_field_names ls)\<rparr>;
            cf = initial_compiled_field index f
        in if cf_alignment cf AND (cf_alignment cf - 1) \<noteq> 0 then Inl (CE_Layout IR_AlignmentNotPowerOfTwo)
           else bind_res (compile_field_kind env compile_st ls f cf st) (\<lambda>(cf, fixed, st).
                bind_res (compile_condition ls f (cf, fixed)) (\<lambda>cf_fixed.
                bind_res (compile_presence ls f cf_fixed) (\<lambda>(cf, fixed).
                bind_res (place_field env f cf fixed ls) (\<lambda>ls. Inr (ls, st)))))))"

fun compile_fields ::
  "compile_env \<Rightarrow> struct_compiler \<Rightarrow> nat \<Rightarrow> field_definition list \<Rightarrow> layout_state \<times> struct_table \<Rightarrow>
   compile_error + layout_state \<times> struct_table" where
  "compile_fields env compile_st index [] s = Inr s"
| "compile_fields env compile_st index (f # fs) s =
     bind_res (compile_field env compile_st index f s) (compile_fields env compile_st (index + 1) fs)"

subsection \<open>Validation rules and checksum anchors\<close>

definition compile_validation ::
  "layout_state \<Rightarrow> validation_rule_definition \<Rightarrow> compile_error + compiled_validation_rule" where
  "compile_validation ls rule =
     bind_res (numeric_field ls (vrd_field rule) (CE_Validation IR_ValidationUnknown) (CE_Validation IR_ValidationKind)) (\<lambda>left_field.
     if vrd_multiplier rule = 0 then Inl (CE_Validation IR_ValidationMultiplier)
     else
       let r = \<lparr>cvr_field_id = cf_id left_field, cvr_op = vrd_op rule, cvr_other_field_id = 0,
                cvr_compare_to_field = False, cvr_value = 0, cvr_multiplier = vrd_multiplier rule,
                cvr_has_when = False, cvr_when_field_id = 0, cvr_when_equals = 0\<rparr>
       in bind_res
           (if vrd_compare_to_field rule then
              bind_res (numeric_field ls (vrd_other_field rule) (CE_Validation IR_ValidationOtherUnknown) (CE_Validation IR_ValidationOtherKind))
                (\<lambda>right_field. Inr (r\<lparr>cvr_compare_to_field := True, cvr_other_field_id := cf_id right_field\<rparr>))
            else Inr (r\<lparr>cvr_value := vrd_value rule\<rparr>)) (\<lambda>r.
          case vrd_when rule of
            None \<Rightarrow> Inr r
          | Some w \<Rightarrow>
              bind_res (numeric_field ls (cnd_field w) (CE_Validation IR_ValidationWhenUnknown) (CE_Validation IR_ValidationWhenKind))
                (\<lambda>when_field. Inr (r\<lparr>cvr_has_when := True, cvr_when_field_id := cf_id when_field,
                                       cvr_when_equals := cnd_equals_unsigned w\<rparr>))))"

fun compile_validations ::
  "layout_state \<Rightarrow> validation_rule_definition list \<Rightarrow> compile_error + compiled_validation_rule list" where
  "compile_validations ls [] = Inr []"
| "compile_validations ls (r # rs) =
     bind_res (compile_validation ls r) (\<lambda>c. bind_res (compile_validations ls rs) (\<lambda>cs. Inr (c # cs)))"

text \<open>\<open>ends_with anchor suffix\<close> is the size test and the comparison of the last characters.\<close>

definition ends_with :: "string \<Rightarrow> string \<Rightarrow> bool" where
  "ends_with anchor suffix \<longleftrightarrow>
     length anchor > length suffix \<and> drop (length anchor - length suffix) anchor = suffix"

definition anchor_field ::
  "string \<Rightarrow> string \<Rightarrow> checksum_anchor_kind \<Rightarrow> (string \<Rightarrow> field_id option) \<Rightarrow>
   compile_error + compiled_checksum_anchor" where
  "anchor_field anchor suffix kind field_ids =
     (case field_ids (take (length anchor - length suffix) anchor) of
        None \<Rightarrow> Inl (CE_Layout IR_UnknownAnchorField)
      | Some i \<Rightarrow> Inr \<lparr>cca_kind = kind, cca_field_id = i\<rparr>)"

definition resolve_checksum_anchor ::
  "string \<Rightarrow> field_id \<Rightarrow> (string \<Rightarrow> field_id option) \<Rightarrow> compile_error + compiled_checksum_anchor" where
  "resolve_checksum_anchor anchor self_field_id field_ids =
     (if anchor = ''frame_start'' then Inr \<lparr>cca_kind = FrameStart, cca_field_id = 0\<rparr>
      else if anchor = ''frame_end'' then Inr \<lparr>cca_kind = FrameEnd, cca_field_id = 0\<rparr>
      else if anchor = ''before_self'' then Inr \<lparr>cca_kind = BeforeSelf, cca_field_id = self_field_id\<rparr>
      else if anchor = ''after_self'' then Inr \<lparr>cca_kind = AfterSelf, cca_field_id = self_field_id\<rparr>
      else if ends_with anchor ''.start'' then anchor_field anchor ''.start'' FieldStart field_ids
      else if ends_with anchor ''.end'' then anchor_field anchor ''.end'' FieldEnd field_ids
      else Inl (CE_Layout IR_UnsupportedAnchor))"

definition compile_checksum ::
  "(string \<Rightarrow> field_id option) \<Rightarrow> pending_checksum \<Rightarrow> compile_error + compiled_checksum" where
  "compile_checksum field_ids p =
     bind_res (resolve_checksum_anchor (pc_from_anchor p) (pc_field_id p) field_ids) (\<lambda>from_anchor.
     bind_res (resolve_checksum_anchor (pc_to_anchor p) (pc_field_id p) field_ids) (\<lambda>to_anchor.
     Inr \<lparr>cck_field_id = pc_field_id p, cck_result_width_bytes = ca_result_width_bytes (pc_spec p),
          cck_function = ca_function (pc_spec p), cck_algorithm_name = ca_name (pc_spec p),
          cck_builtin_kind = checksum_builtin_kind (ca_name (pc_spec p)),
          cck_from = from_anchor, cck_to = to_anchor\<rparr>))"

fun compile_checksums ::
  "(string \<Rightarrow> field_id option) \<Rightarrow> pending_checksum list \<Rightarrow> compile_error + compiled_checksum list" where
  "compile_checksums field_ids [] = Inr []"
| "compile_checksums field_ids (p # ps) =
     bind_res (compile_checksum field_ids p) (\<lambda>c. bind_res (compile_checksums field_ids ps) (\<lambda>cs. Inr (c # cs)))"

subsection \<open>Layouts, structs and the protocol\<close>

definition compile_layout ::
  "compile_env \<Rightarrow> struct_compiler \<Rightarrow> string \<Rightarrow> field_definition list \<Rightarrow> validation_rule_definition list \<Rightarrow>
   bool \<Rightarrow> struct_table \<Rightarrow> compile_error + compiled_message \<times> struct_table" where
  "compile_layout env compile_st name flds validations allow_trailing st =
     (if flds = [] then Inl (CE_Layout IR_NoFields)
      else if length flds > kMaxFieldsPerMessage then Inl (CE_Exhausted ER_TooManyFields)
      else bind_res (compile_fields env compile_st 0 flds (initial_layout_state, st)) (\<lambda>(ls, st).
           bind_res (compile_validations ls validations) (\<lambda>rules.
           bind_res (compile_checksums (ls_field_ids ls) (ls_pending ls)) (\<lambda>checksums.
           Inr (make_compiled_message name (ls_fields ls) (ls_bit_fields ls) checksums rules
                  (ls_minimum_size ls) (ls_has_fixed_size ls) allow_trailing (ls_dispatch_prefix ls), st)))))"

fun compile_struct :: "compile_env \<Rightarrow> nat \<Rightarrow> struct_compiler" where
  "compile_struct env fuel struct_id st =
     (if st_states st ! struct_id = KDone then Inr (struct_id, st)
      else if st_states st ! struct_id = KVisiting then Inl (CE_Layout IR_RecursiveStruct)
      else (case fuel of
              0 \<Rightarrow> Inl CE_OutOfFuel
            | Suc fuel \<Rightarrow>
                let d = pd_structs (ce_definition env) ! struct_id;
                    st = st\<lparr>st_states := (st_states st)[struct_id := KVisiting]\<rparr>
                in bind_res (compile_layout env (compile_struct env fuel) (sd_name d) (sd_fields d)
                               (sd_validations d) False st) (\<lambda>(m, st).
                   Inr (struct_id, st\<lparr>st_structs := (st_structs st)[struct_id := m],
                                      st_states := (st_states st)[struct_id := KDone]\<rparr>))))"

declare compile_struct.simps [simp del]

fun compile_all_structs :: "compile_env \<Rightarrow> nat \<Rightarrow> nat list \<Rightarrow> struct_table \<Rightarrow> compile_error + struct_table" where
  "compile_all_structs env fuel [] st = Inr st"
| "compile_all_structs env fuel (i # ids) st =
     bind_res (compile_struct env fuel i st) (\<lambda>(_, st). compile_all_structs env fuel ids st)"

fun compile_messages ::
  "compile_env \<Rightarrow> nat \<Rightarrow> message_definition list \<Rightarrow> struct_table \<Rightarrow>
   compile_error + compiled_message list \<times> struct_table" where
  "compile_messages env fuel [] st = Inr ([], st)"
| "compile_messages env fuel (m # ms) st =
     bind_res (compile_layout env (compile_struct env fuel) (md_name m) (md_fields m) (md_validations m)
                 (md_allow_trailing_bytes m) st) (\<lambda>(c, st).
     bind_res (compile_messages env fuel ms st) (\<lambda>(cs, st). Inr (c # cs, st)))"

definition initial_struct_table :: "protocol_definition \<Rightarrow> struct_table" where
  "initial_struct_table d =
     \<lparr>st_structs = replicate (length (pd_structs d)) default_compiled_message,
      st_states = replicate (length (pd_structs d)) KUnvisited\<rparr>"

text \<open>The fuel is the number of structs: every nested call marks another one as visiting.\<close>

definition compile_protocol :: "registry \<Rightarrow> protocol_definition \<Rightarrow> compile_error + compiled_protocol" where
  "compile_protocol reg d =
     bind_res (validate_protocol_definition d) (\<lambda>_.
     bind_res (validate_names d) (\<lambda>(enum_ids, struct_ids).
     let env = \<lparr>ce_definition = d, ce_enum_ids = enum_ids, ce_struct_ids = struct_ids, ce_registry = reg\<rparr>;
         fuel = length (pd_structs d)
     in bind_res (compile_all_structs env fuel [0..<length (pd_structs d)] (initial_struct_table d)) (\<lambda>st.
        bind_res (compile_messages env fuel (pd_messages d) st) (\<lambda>(compiled_messages, st).
        Inr (make_compiled_protocol (pd_name d) (fingerprint d) (st_structs st) compiled_messages)))))"

end
