(* ===== verification/Compiler_Invariants.thy ===== *)
theory Compiler_Invariants
  imports Schema_Compiler
begin

text \<open>
  What a successful compilation guarantees. A layout is well formed when its fields refer only
  to earlier unsigned or enum fields, and to structs that were compiled before it; the struct
  table keeps the order in which the structs were completed. The recursion through structs is
  an interface: the lemmas on layouts are proved for any struct compiler that meets its
  contract, and \<open>compile_struct\<close> is shown to meet it for every fuel.
\<close>

subsection \<open>Well-formed layouts\<close>

definition numeric_ref :: "compiled_field list \<Rightarrow> field_id \<Rightarrow> bool" where
  "numeric_ref fs i \<longleftrightarrow> i < length fs \<and> cf_kind (fs ! i) \<in> {KUnsigned, KEnum}"

definition lookup_ok :: "compiled_field \<Rightarrow> bool" where
  "lookup_ok f \<longleftrightarrow>
     cf_variant_lookup_indices f = [] \<or>
     (cf_variant_lookup_base f = cvc_tag_value (hd (cf_variant_cases f)) \<and>
      (\<forall>i < length (cf_variant_lookup_indices f).
         (if cf_variant_lookup_indices f ! i = kVariantLookupMissing
          then \<forall>c\<in>set (cf_variant_cases f). unat (cvc_tag_value c - cf_variant_lookup_base f) \<noteq> i
          else cf_variant_lookup_indices f ! i < length (cf_variant_cases f) \<and>
               unat (cvc_tag_value (cf_variant_cases f ! (cf_variant_lookup_indices f ! i)) -
                     cf_variant_lookup_base f) = i)) \<and>
      (\<forall>c\<in>set (cf_variant_cases f).
         unat (cvc_tag_value c - cf_variant_lookup_base f) < length (cf_variant_lookup_indices f)))"

definition kind_ok :: "compiled_field list \<Rightarrow> compiled_field \<Rightarrow> bool" where
  "kind_ok fs f \<longleftrightarrow>
     (case cf_kind f of
        KStruct \<Rightarrow> \<not> cf_dynamic_size f
      | KCollection \<Rightarrow>
          cf_element_minimum_size f \<noteq> 0 \<and>
          (if cf_dynamic_count f then numeric_ref fs (cf_count_from_field f) \<and> cf_fixed_size f = 0
           else cf_fixed_count f \<noteq> 0 \<and> cf_fixed_size f = cf_fixed_count f * cf_element_minimum_size f)
      | KVariant \<Rightarrow>
          numeric_ref fs (cf_tag_from_field f) \<and> cf_variant_cases f \<noteq> [] \<and>
          sorted (map cvc_tag_value (cf_variant_cases f)) \<and> lookup_ok f
      | k \<Rightarrow>
          if k = KBytes \<or> k = KString
          then (if cf_dynamic_size f then numeric_ref fs (cf_size_from_field f) else cf_fixed_size f \<noteq> 0)
          else \<not> cf_dynamic_size f \<and> is_valid_scalar_width (cf_width_bytes f))"

definition modifiers_ok :: "compiled_field list \<Rightarrow> compiled_field \<Rightarrow> bool" where
  "modifiers_ok fs f \<longleftrightarrow>
     1 \<le> cf_alignment f \<and> cf_alignment f AND (cf_alignment f - 1) = 0 \<and>
     (cf_has_condition f \<longrightarrow> numeric_ref fs (cf_condition_field f)) \<and>
     (cf_has_presence f \<longrightarrow> numeric_ref fs (cf_presence_field f) \<and>
        cf_presence_bit f < 8 * cf_width_bytes (fs ! cf_presence_field f))"

definition field_wf :: "compiled_field list \<Rightarrow> compiled_field \<Rightarrow> bool" where
  "field_wf fs f \<longleftrightarrow> cf_id f = length fs \<and> cf_name f \<noteq> '''' \<and> kind_ok fs f \<and> modifiers_ok fs f"

definition fields_wf :: "compiled_field list \<Rightarrow> bool" where
  "fields_wf fs \<longleftrightarrow> (\<forall>i<length fs. field_wf (take i fs) (fs ! i)) \<and> distinct (map cf_name fs)"

definition bit_field_wf :: "compiled_field list \<Rightarrow> compiled_bit_field \<Rightarrow> bool" where
  "bit_field_wf fs b \<longleftrightarrow>
     cbf_container_field_id b < length fs \<and>
     cf_kind (fs ! cbf_container_field_id b) \<in> {KUnsigned, KSigned, KEnum} \<and>
     1 \<le> cbf_width_bits b \<and> cbf_width_bits b \<le> 64 \<and>
     cbf_shift_bits b + cbf_width_bits b \<le> 8 * cf_width_bytes (fs ! cbf_container_field_id b) \<and>
     cbf_mask b = mask (cbf_width_bits b)"

definition bit_fields_wf :: "compiled_field list \<Rightarrow> compiled_bit_field list \<Rightarrow> bool" where
  "bit_fields_wf fs bs \<longleftrightarrow>
     length bs \<le> 64 \<and> distinct (map cbf_name bs) \<and>
     (\<forall>i<length bs. cbf_id (bs ! i) = i \<and> bit_field_wf fs (bs ! i))"

definition anchor_wf :: "compiled_field list \<Rightarrow> compiled_checksum_anchor \<Rightarrow> bool" where
  "anchor_wf fs a \<longleftrightarrow> cca_kind a \<in> {FrameStart, FrameEnd} \<or> cca_field_id a < length fs"

definition checksum_wf :: "compiled_field list \<Rightarrow> compiled_checksum \<Rightarrow> bool" where
  "checksum_wf fs c \<longleftrightarrow>
     numeric_ref fs (cck_field_id c) \<and> cck_function c \<noteq> None \<and>
     cck_result_width_bytes c = cf_width_bytes (fs ! cck_field_id c) \<and>
     anchor_wf fs (cck_from c) \<and> anchor_wf fs (cck_to c)"

definition validation_wf :: "compiled_field list \<Rightarrow> compiled_validation_rule \<Rightarrow> bool" where
  "validation_wf fs r \<longleftrightarrow>
     numeric_ref fs (cvr_field_id r) \<and> cvr_multiplier r \<noteq> 0 \<and>
     (cvr_compare_to_field r \<longrightarrow> numeric_ref fs (cvr_other_field_id r)) \<and>
     (cvr_has_when r \<longrightarrow> numeric_ref fs (cvr_when_field_id r))"

definition layout_wf :: "compiled_message \<Rightarrow> bool" where
  "layout_wf m \<longleftrightarrow>
     cm_fields m \<noteq> [] \<and> length (cm_fields m) \<le> 64 \<and> fields_wf (cm_fields m) \<and>
     bit_fields_wf (cm_fields m) (cm_bit_fields m) \<and>
     (\<forall>c\<in>set (cm_checksums m). checksum_wf (cm_fields m) c) \<and>
     (\<forall>r\<in>set (cm_validations m). validation_wf (cm_fields m) r)"

definition field_refs :: "compiled_field \<Rightarrow> nat set" where
  "field_refs f =
     (case cf_kind f of
        KStruct \<Rightarrow> {cf_struct_id f}
      | KCollection \<Rightarrow> {cf_struct_id f}
      | KVariant \<Rightarrow> cvc_struct_id ` set (cf_variant_cases f)
      | _ \<Rightarrow> {})"

definition layout_refs :: "compiled_message \<Rightarrow> nat set" where
  "layout_refs m = (\<Union>f\<in>set (cm_fields m). field_refs f)"

text \<open>The nesting below a layout is at most \<open>d\<close> structs deep.\<close>

fun nesting_within :: "compiled_message list \<Rightarrow> nat \<Rightarrow> compiled_message \<Rightarrow> bool" where
  "nesting_within ss 0 m \<longleftrightarrow> layout_refs m = {}"
| "nesting_within ss (Suc d) m \<longleftrightarrow> (\<forall>r\<in>layout_refs m. r < length ss \<and> nesting_within ss d (ss ! r))"

lemma nesting_within_mono: "nesting_within ss d m \<Longrightarrow> d \<le> d' \<Longrightarrow> nesting_within ss d' m"
proof (induction d arbitrary: d' m)
  case 0
  then show ?case by (cases d') simp_all
next
  case (Suc d)
  then obtain e where "d' = Suc e" "d \<le> e" by (cases d') auto
  with Suc show ?case by simp
qed

subsection \<open>The dense lookup table of a variant\<close>

lemma fill_variant_lookup_length:
  "fill_variant_lookup lo cs xs = Some ys \<Longrightarrow> length ys = length xs"
  by (induction lo cs xs rule: fill_variant_lookup.induct) (auto simp: Let_def split: if_splits)

lemma fill_variant_lookup_in_range:
  "fill_variant_lookup lo cs xs = Some ys \<Longrightarrow> c \<in> set cs \<Longrightarrow> unat (cvc_tag_value (snd c) - lo) < length xs"
  by (induction lo cs xs rule: fill_variant_lookup.induct) (auto simp: Let_def split: if_splits)

lemma fill_variant_lookup_nth:
  "fill_variant_lookup lo cs xs = Some ys \<Longrightarrow> i < length xs \<Longrightarrow>
   (\<exists>c\<in>set cs. ys ! i = fst c \<and> unat (cvc_tag_value (snd c) - lo) = i) \<or>
   (ys ! i = xs ! i \<and> (\<forall>c\<in>set cs. unat (cvc_tag_value (snd c) - lo) \<noteq> i))"
proof (induction lo cs xs rule: fill_variant_lookup.induct)
  case (2 lo k c cs xs)
  let ?j = "unat (cvc_tag_value c - lo)"
  from 2 have j: "?j < length xs" and step: "fill_variant_lookup lo cs (xs[?j := k]) = Some ys"
    by (auto simp: Let_def split: if_splits)
  have "xs[?j := k] ! i = (if ?j = i then k else xs ! i)" using j by (simp add: nth_list_update)
  with "2.IH" [OF refl j step] "2.prems"(2) show ?case by (auto split: if_splits)
qed simp

lemma fill_variant_lookup_total:
  "(\<forall>c\<in>set cs. unat (cvc_tag_value (snd c) - lo) < length xs) \<Longrightarrow> \<exists>ys. fill_variant_lookup lo cs xs = Some ys"
  by (induction lo cs xs rule: fill_variant_lookup.induct) (auto simp: Let_def)

lemma set_enumerate_0: "c \<in> set (enumerate 0 xs) \<longleftrightarrow> fst c < length xs \<and> snd c = xs ! fst c"
  by (cases c) (auto simp: in_set_enumerate_eq)

lemma build_variant_lookup_cases:
  assumes "build_variant_lookup cf = Inr cf'"
  obtains (same) "cf' = cf"
  | (table) n ys where
      "fill_variant_lookup (cvc_tag_value (hd (cf_variant_cases cf))) (enumerate 0 (cf_variant_cases cf))
         (replicate n kVariantLookupMissing) = Some ys"
      "cf' = cf\<lparr>cf_variant_lookup_base := cvc_tag_value (hd (cf_variant_cases cf)), cf_variant_lookup_indices := ys\<rparr>"
proof -
  define lo where "lo = cvc_tag_value (hd (cf_variant_cases cf))"
  define span where "span = cvc_tag_value (last (cf_variant_cases cf)) - lo + 1"
  define filled where "filled = fill_variant_lookup lo (enumerate 0 (cf_variant_cases cf))
      (replicate (unat span) kVariantLookupMissing)"
  have e: "build_variant_lookup cf =
      (if cf_variant_cases cf \<noteq> [] then
         if span \<le> kMaxDenseVariantLookupSpan then
           (case filled of None \<Rightarrow> Inl CE_OutOfBoundsStore
            | Some indices \<Rightarrow> Inr (cf\<lparr>cf_variant_lookup_base := lo, cf_variant_lookup_indices := indices\<rparr>))
         else Inr cf
       else Inr cf)"
    by (simp only: build_variant_lookup_def Let_def lo_def span_def filled_def)
  note r = assms [unfolded e]
  show thesis
  proof (cases "cf_variant_cases cf \<noteq> [] \<and> span \<le> kMaxDenseVariantLookupSpan")
    case False
    with r have "Inr cf = (Inr cf' :: compile_error + compiled_field)"
      by (cases "cf_variant_cases cf \<noteq> []"; simp only: if_True if_False simp_thms)
    then show thesis by (intro same) (simp only: sum.inject)
  next
    case True
    show thesis
    proof (cases filled)
      case None
      with r True show thesis by (simp only: if_True simp_thms option.case sum.distinct)
    next
      case (Some ys)
      with r True have "cf\<lparr>cf_variant_lookup_base := lo, cf_variant_lookup_indices := ys\<rparr> = cf'"
        by (simp only: if_True simp_thms option.case sum.inject)
      then show thesis by (intro table [OF Some [unfolded filled_def lo_def]]) (simp only: lo_def)
    qed
  qed
qed

lemma build_variant_lookup_ok:
  assumes "build_variant_lookup cf = Inr cf'" and "length (cf_variant_cases cf) < 2 ^ 32 - 1"
    and "cf_variant_lookup_indices cf = []"
  shows "lookup_ok cf'"
  using assms(1)
proof (cases rule: build_variant_lookup_cases)
  case same
  with assms(3) show ?thesis by (simp add: lookup_ok_def)
next
  case (table n ys)
  define lo where "lo = cvc_tag_value (hd (cf_variant_cases cf))"
  note ys = table [folded lo_def]
  have len: "length ys = n" using fill_variant_lookup_length [OF ys(1)] by simp
  have missing: "k \<noteq> kVariantLookupMissing" if "k < length (cf_variant_cases cf)" for k
    using that assms(2) by (simp add: kVariantLookupMissing_def)
  have in_range: "unat (cvc_tag_value c - lo) < n" if "c \<in> set (cf_variant_cases cf)" for c
  proof -
    from that obtain k where "k < length (cf_variant_cases cf)" "c = cf_variant_cases cf ! k"
      by (auto simp: in_set_conv_nth)
    then have "(k, c) \<in> set (enumerate 0 (cf_variant_cases cf))" by (simp add: set_enumerate_0)
    from fill_variant_lookup_in_range [OF ys(1) this] show ?thesis by simp
  qed
  have "if ys ! i = kVariantLookupMissing
      then \<forall>c\<in>set (cf_variant_cases cf). unat (cvc_tag_value c - lo) \<noteq> i
      else ys ! i < length (cf_variant_cases cf) \<and> unat (cvc_tag_value (cf_variant_cases cf ! (ys ! i)) - lo) = i"
    if "i < n" for i
  proof -
    have "i < length (replicate n kVariantLookupMissing)" using that by simp
    from fill_variant_lookup_nth [OF ys(1) this] show ?thesis
    proof (elim disjE bexE conjE)
      fix c assume "c \<in> set (enumerate 0 (cf_variant_cases cf))" "ys ! i = fst c"
        "unat (cvc_tag_value (snd c) - lo) = i"
      then show ?thesis using missing by (auto simp: set_enumerate_0)
    next
      assume "ys ! i = replicate n kVariantLookupMissing ! i"
        and none: "\<forall>c\<in>set (enumerate 0 (cf_variant_cases cf)). unat (cvc_tag_value (snd c) - lo) \<noteq> i"
      then have "ys ! i = kVariantLookupMissing" using that by simp
      moreover have "\<forall>c\<in>set (cf_variant_cases cf). unat (cvc_tag_value c - lo) \<noteq> i"
      proof
        fix c assume "c \<in> set (cf_variant_cases cf)"
        then obtain k where "k < length (cf_variant_cases cf)" "c = cf_variant_cases cf ! k"
          by (auto simp: in_set_conv_nth)
        then have "(k, c) \<in> set (enumerate 0 (cf_variant_cases cf))" by (simp add: set_enumerate_0)
        with none show "unat (cvc_tag_value c - lo) \<noteq> i" by force
      qed
      ultimately show ?thesis by simp
    qed
  qed
  then have "lookup_ok (cf\<lparr>cf_variant_lookup_base := lo, cf_variant_lookup_indices := ys\<rparr>)"
    using len in_range by (simp add: lookup_ok_def flip: lo_def)
  then show ?thesis unfolding ys(2) .
qed

lemma build_variant_lookup_same:
  assumes "build_variant_lookup cf = Inr cf'"
  shows "cf_kind cf' = cf_kind cf \<and> cf_id cf' = cf_id cf \<and> cf_name cf' = cf_name cf \<and>
    cf_alignment cf' = cf_alignment cf \<and> cf_has_condition cf' = cf_has_condition cf \<and>
    cf_has_presence cf' = cf_has_presence cf \<and> cf_variant_cases cf' = cf_variant_cases cf \<and>
    cf_tag_from_field cf' = cf_tag_from_field cf \<and> cf_fixed_size cf' = cf_fixed_size cf"
  using assms by (cases rule: build_variant_lookup_cases) simp_all

subsection \<open>The struct table\<close>

definition is_done :: "struct_table \<Rightarrow> nat \<Rightarrow> bool" where
  "is_done st i \<longleftrightarrow> i < length (st_states st) \<and> st_states st ! i = KDone"

definition is_visiting :: "struct_table \<Rightarrow> nat \<Rightarrow> bool" where
  "is_visiting st i \<longleftrightarrow> i < length (st_states st) \<and> st_states st ! i = KVisiting"

definition table_wf :: "nat \<Rightarrow> struct_table \<Rightarrow> bool" where
  "table_wf n st \<longleftrightarrow>
     length (st_structs st) = n \<and> length (st_states st) = n \<and>
     (\<exists>ord. distinct ord \<and> set ord = {i. is_done st i} \<and>
        (\<forall>k<length ord. layout_wf (st_structs st ! (ord ! k)) \<and>
                         layout_refs (st_structs st ! (ord ! k)) \<subseteq> set (take k ord)))"

text \<open>What a nested compilation may do to the table: complete more structs.\<close>

definition table_extends :: "struct_table \<Rightarrow> struct_table \<Rightarrow> bool" where
  "table_extends st st' \<longleftrightarrow>
     (\<forall>i. is_done st i \<longrightarrow> is_done st' i \<and> st_structs st' ! i = st_structs st ! i) \<and>
     (\<forall>i. is_visiting st' i = is_visiting st i)"

lemma table_extends_refl [simp]: "table_extends st st"
  by (simp add: table_extends_def)

lemma table_extends_trans: "table_extends a b \<Longrightarrow> table_extends b c \<Longrightarrow> table_extends a c"
  by (simp add: table_extends_def)

lemma table_extends_done: "table_extends a b \<Longrightarrow> is_done a i \<Longrightarrow> is_done b i"
  by (simp add: table_extends_def)

subsection \<open>The field loop\<close>

definition base_same :: "compiled_field \<Rightarrow> compiled_field \<Rightarrow> bool" where
  "base_same cf cf' \<longleftrightarrow>
     cf_id cf' = cf_id cf \<and> cf_name cf' = cf_name cf \<and> cf_alignment cf' = cf_alignment cf \<and>
     cf_has_condition cf' = cf_has_condition cf \<and> cf_has_presence cf' = cf_has_presence cf"

lemma base_same_refl [simp]: "base_same cf cf"
  by (simp add: base_same_def)

definition pending_wf :: "compiled_field list \<Rightarrow> pending_checksum \<Rightarrow> bool" where
  "pending_wf fs p \<longleftrightarrow>
     numeric_ref fs (pc_field_id p) \<and> ca_function (pc_spec p) \<noteq> None \<and>
     ca_result_width_bytes (pc_spec p) = cf_width_bytes (fs ! pc_field_id p)"

definition index_ok :: "layout_state \<Rightarrow> bool" where
  "index_ok ls \<longleftrightarrow>
     ls_field_names ls = cf_name ` set (ls_fields ls) \<and>
     (\<forall>name i. ls_field_ids ls name = Some i \<longleftrightarrow> i < length (ls_fields ls) \<and> cf_name (ls_fields ls ! i) = name)"

definition loop_ok :: "layout_state \<Rightarrow> struct_table \<Rightarrow> bool" where
  "loop_ok ls st \<longleftrightarrow>
     fields_wf (ls_fields ls) \<and> index_ok ls \<and>
     bit_fields_wf (ls_fields ls) (ls_bit_fields ls) \<and>
     ls_bit_field_names ls = cbf_name ` set (ls_bit_fields ls) \<and>
     (\<forall>p\<in>set (ls_pending ls). pending_wf (ls_fields ls) p) \<and>
     (\<forall>f\<in>set (ls_fields ls). \<forall>r\<in>field_refs f. is_done st r)"

lemma fields_wf_id: "fields_wf fs \<Longrightarrow> i < length fs \<Longrightarrow> cf_id (fs ! i) = i"
  by (simp add: fields_wf_def field_wf_def)

lemma numeric_field_ok:
  assumes "numeric_field ls name e e' = Inr d" and "fields_wf (ls_fields ls)" and "index_ok ls"
  shows "numeric_ref (ls_fields ls) (cf_id d) \<and> d = ls_fields ls ! cf_id d"
proof -
  obtain i where "ls_field_ids ls name = Some i" "d = ls_fields ls ! i" "cf_kind d \<in> {KUnsigned, KEnum}"
    using assms(1) by (auto simp: numeric_field_def Let_def split: option.splits if_splits)
  moreover from this assms have "i < length (ls_fields ls)" by (auto simp: index_ok_def)
  ultimately show ?thesis using fields_wf_id [OF assms(2)] by (simp add: numeric_ref_def)
qed

lemma compile_bytes_field_ok:
  assumes "compile_bytes_field ls f cf = Inr (cf', fixed)" and "cf_kind cf = KBytes \<or> cf_kind cf = KString"
    and "\<not> cf_dynamic_size cf" and "cf_fixed_size cf = fd_fixed_size f"
    and ls: "fields_wf (ls_fields ls)" "index_ok ls"
  shows "kind_ok (ls_fields ls) cf' \<and> base_same cf cf' \<and> field_refs cf' = {}"
proof (cases "fd_size_from_field f = ''''")
  case True
  with assms have "cf' = cf" "fd_fixed_size f \<noteq> 0"
    by (auto simp: compile_bytes_field_def split: if_splits)
  with assms show ?thesis by (auto simp: kind_ok_def field_refs_def)
next
  case False
  with assms(1) obtain d where d: "numeric_field ls (fd_size_from_field f) (CE_Bytes IR_SizeFromUnknown) (CE_Bytes IR_SizeFromKind) = Inr d"
    and cf': "cf' = cf\<lparr>cf_dynamic_size := True, cf_size_from_field := cf_id d\<rparr>"
    by (auto simp: compile_bytes_field_def bind_res_Inr_iff split: if_splits)
  from numeric_field_ok [OF d ls] assms(2) show ?thesis
    by (auto simp: cf' kind_ok_def field_refs_def base_same_def)
qed

lemma compile_scalar_field_ok:
  assumes "compile_scalar_field f cf = Inr u" and "cf_kind cf \<in> {KUnsigned, KSigned, KFloat32, KFloat64, KEnum}"
    and "\<not> cf_dynamic_size cf"
  shows "kind_ok fs cf \<and> field_refs cf = {}"
  using assms by (auto simp: compile_scalar_field_def kind_ok_def field_refs_def split: if_splits)

text \<open>The id maps that \<open>validate_names\<close> returns.\<close>

definition env_ok :: "nat \<Rightarrow> compile_env \<Rightarrow> bool" where
  "env_ok n env \<longleftrightarrow>
     (\<forall>name e. ce_enum_ids env name = Some e \<longrightarrow> is_valid_scalar_width (end_width_bytes (pd_enums (ce_definition env) ! e))) \<and>
     (\<forall>name s. ce_struct_ids env name = Some s \<longrightarrow> s < n) \<and>
     registry_ok (ce_registry env)"

text \<open>The contract of the struct compiler that a layout calls.\<close>

locale struct_callback =
  fixes n :: nat and env :: compile_env and compile_st :: struct_compiler
  assumes env: "env_ok n env"
    and callback: "table_wf n st \<Longrightarrow> s < n \<Longrightarrow> compile_st s st = Inr (i, st') \<Longrightarrow>
        table_wf n st' \<and> table_extends st st' \<and> i = s \<and> is_done st' s"
begin

lemma compile_struct_field_ok:
  assumes "compile_struct_field env compile_st f cf st = Inr (cf', fixed, st')"
    and "cf_kind cf = KStruct" and "\<not> cf_dynamic_size cf" and "table_wf n st"
  shows "kind_ok fs cf' \<and> base_same cf cf' \<and> table_wf n st' \<and> table_extends st st' \<and>
     (\<forall>r\<in>field_refs cf'. is_done st' r)"
proof (cases "ce_enum_ids env (fd_referenced_type f)")
  case (Some e)
  then have w: "is_valid_scalar_width (end_width_bytes (pd_enums (ce_definition env) ! e))"
    using env by (simp add: env_ok_def)
  from assms(1) Some have st': "st' = st"
    and cf': "cf' = cf\<lparr>cf_kind := KEnum, cf_width_bytes := end_width_bytes (pd_enums (ce_definition env) ! e),
           cf_byte_order := end_byte_order (pd_enums (ce_definition env) ! e),
           cf_enum_values := end_values (pd_enums (ce_definition env) ! e)\<rparr>"
    by (simp_all add: compile_struct_field_def Let_def split: if_splits)
  show ?thesis unfolding st' cf' using w assms(3,4)
    by (simp add: kind_ok_def field_refs_def base_same_def)
next
  case None
  with assms(1) obtain s i where s: "ce_struct_ids env (fd_referenced_type f) = Some s"
    "compile_st s st = Inr (i, st')"
    and cf': "cf' = cf\<lparr>cf_struct_id := i, cf_fixed_size := cm_minimum_size (st_structs st' ! i)\<rparr>"
    by (auto simp: compile_struct_field_def bind_res_Inr_iff split: if_splits option.splits)
  have "s < n" using env s(1) by (auto simp: env_ok_def)
  from callback [OF assms(4) this s(2)] show ?thesis
    unfolding cf' using assms(2,3) by (simp add: kind_ok_def field_refs_def base_same_def)
qed

lemma compile_collection_field_ok:
  assumes "compile_collection_field env compile_st ls f cf st = Inr (cf', fixed, st')"
    and "cf_kind cf = KCollection" and "\<not> cf_dynamic_count cf" and "table_wf n st"
    and ls: "fields_wf (ls_fields ls)" "index_ok ls"
  shows "kind_ok (ls_fields ls) cf' \<and> base_same cf cf' \<and> table_wf n st' \<and> table_extends st st' \<and>
     (\<forall>r\<in>field_refs cf'. is_done st' r)"
proof -
  from assms(1) obtain s where s: "ce_struct_ids env (fd_referenced_type f) = Some s"
    and choice: "(fd_fixed_count f = 0) \<noteq> (fd_count_from_field f = '''')"
    by (auto simp: compile_collection_field_def split: if_splits option.splits)
  with assms(1) obtain i st1 where i: "compile_st s st = Inr (i, st1)"
    by (auto simp: compile_collection_field_def bind_res_Inr_iff split: if_splits)
  have "s < n" using env s(1) by (auto simp: env_ok_def)
  note cb = callback [OF assms(4) this i]
  show ?thesis
  proof (cases "fd_count_from_field f = ''''")
    case True
    with assms(1) s i choice obtain total where
      "checked_mul_size (fd_fixed_count f) (cm_minimum_size (st_structs st1 ! i)) = Some total"
      "cm_minimum_size (st_structs st1 ! i) \<noteq> 0" "st' = st1"
      and cf': "cf' = cf\<lparr>cf_struct_id := i, cf_element_minimum_size := cm_minimum_size (st_structs st1 ! i),
           cf_fixed_count := fd_fixed_count f, cf_fixed_size := total\<rparr>"
      by (auto simp: compile_collection_field_def Let_def split: if_splits option.splits)
    moreover from this have "total = fd_fixed_count f * cm_minimum_size (st_structs st1 ! i)"
      by (auto simp: checked_mul_size_def split: if_splits)
    ultimately show ?thesis
      using cb choice True assms(2,3) by (simp add: kind_ok_def field_refs_def base_same_def)
  next
    case False
    with assms(1) s i choice obtain d where
      d: "numeric_field ls (fd_count_from_field f) (CE_Collection IR_CountFromUnknown) (CE_Collection IR_CountFromKind) = Inr d"
      and "cm_minimum_size (st_structs st1 ! i) \<noteq> 0" "st' = st1"
      and cf': "cf' = cf\<lparr>cf_struct_id := i, cf_element_minimum_size := cm_minimum_size (st_structs st1 ! i),
           cf_fixed_count := fd_fixed_count f, cf_dynamic_count := True, cf_count_from_field := cf_id d,
           cf_fixed_size := 0\<rparr>"
      by (auto simp: compile_collection_field_def bind_res_Inr_iff Let_def split: if_splits)
    with numeric_field_ok [OF d ls] cb assms(2) show ?thesis
      by (simp add: kind_ok_def field_refs_def base_same_def)
  qed
qed

end

context struct_callback
begin

lemma compile_variant_cases_ok:
  assumes "compile_variant_cases env compile_st cs acc st = Inr (acc', st')" and "table_wf n st"
  shows "table_wf n st' \<and> table_extends st st' \<and>
     (\<exists>new. cf_variant_cases (va_field acc') = cf_variant_cases (va_field acc) @ new \<and>
        map cvc_tag_value new = map vcd_tag_value cs \<and> (\<forall>c\<in>set new. is_done st' (cvc_struct_id c))) \<and>
     base_same (va_field acc) (va_field acc') \<and> cf_kind (va_field acc') = cf_kind (va_field acc) \<and>
     cf_tag_from_field (va_field acc') = cf_tag_from_field (va_field acc) \<and>
     cf_variant_lookup_indices (va_field acc') = cf_variant_lookup_indices (va_field acc)"
  using assms
proof (induction cs arbitrary: acc st)
  case Nil
  then show ?case by simp
next
  case (Cons c cs)
  from Cons.prems(1) obtain s i st1 where s: "ce_struct_ids env (vcd_referenced_type c) = Some s"
    and i: "compile_st s st = Inr (i, st1)"
    by (auto simp: bind_res_Inr_iff split: option.splits)
  have "s < n" using env s by (auto simp: env_ok_def)
  note cb = callback [OF Cons.prems(2) this i]
  define acc1 where "acc1 =
    (let case_layout = st_structs st1 ! i;
              cf = va_field acc;
              cf = cf\<lparr>cf_variant_cases := cf_variant_cases cf @
                       [\<lparr>cvc_tag_value = vcd_tag_value c, cvc_struct_id = i\<rparr>]\<rparr>;
              cf = (if va_first_case acc \<or> cm_minimum_size case_layout < cf_fixed_size cf
                    then cf\<lparr>cf_fixed_size := cm_minimum_size case_layout\<rparr> else cf);
              first_size = (if va_first_case acc then cm_minimum_size case_layout
                            else va_first_fixed_size acc);
              all_fixed = (if \<not> cm_has_fixed_size case_layout \<or> cm_minimum_size case_layout \<noteq> first_size
                           then False else va_all_cases_fixed acc)
     in \<lparr>va_field = cf, va_first_case = False, va_all_cases_fixed = all_fixed, va_first_fixed_size = first_size\<rparr>)"
  have step: "compile_variant_cases env compile_st cs acc1 st1 = Inr (acc', st')"
    using Cons.prems(1) by (simp add: s i acc1_def Let_def)
  have acc1: "cf_variant_cases (va_field acc1) = cf_variant_cases (va_field acc) @
      [\<lparr>cvc_tag_value = vcd_tag_value c, cvc_struct_id = i\<rparr>]"
    "base_same (va_field acc) (va_field acc1)" "cf_kind (va_field acc1) = cf_kind (va_field acc)"
    "cf_tag_from_field (va_field acc1) = cf_tag_from_field (va_field acc)"
    "cf_variant_lookup_indices (va_field acc1) = cf_variant_lookup_indices (va_field acc)"
    by (simp_all add: acc1_def Let_def base_same_def)
  from Cons.IH [OF step] cb obtain new where IH: "table_wf n st'" "table_extends st1 st'"
    "cf_variant_cases (va_field acc') = cf_variant_cases (va_field acc1) @ new"
    "map cvc_tag_value new = map vcd_tag_value cs" "\<forall>c\<in>set new. is_done st' (cvc_struct_id c)"
    "base_same (va_field acc1) (va_field acc')" "cf_kind (va_field acc') = cf_kind (va_field acc1)"
    "cf_tag_from_field (va_field acc') = cf_tag_from_field (va_field acc1)"
    "cf_variant_lookup_indices (va_field acc') = cf_variant_lookup_indices (va_field acc1)"
    by blast
  have "is_done st' i" using cb IH(2) table_extends_done by blast
  moreover have "table_extends st st'" using cb IH(2) table_extends_trans by blast
  ultimately show ?case
    using IH acc1
    by (intro conjI exI [of _ "\<lparr>cvc_tag_value = vcd_tag_value c, cvc_struct_id = i\<rparr> # new"])
      (simp_all add: base_same_def)
qed

lemma compile_variant_field_ok:
  assumes "compile_variant_field env compile_st ls f cf st = Inr (cf', fixed, st')"
    and "cf_kind cf = KVariant" and "cf_variant_cases cf = []" and "cf_variant_lookup_indices cf = []"
    and "table_wf n st" and ls: "fields_wf (ls_fields ls)" "index_ok ls"
    and len: "length (fd_variant_cases f) < 2 ^ 32 - 1"
  shows "kind_ok (ls_fields ls) cf' \<and> base_same cf cf' \<and> table_wf n st' \<and> table_extends st st' \<and>
     (\<forall>r\<in>field_refs cf'. is_done st' r)"
proof -
  from assms(1) obtain d acc st1 where ne: "fd_variant_cases f \<noteq> []"
    and d: "numeric_field ls (fd_tag_from_field f) (CE_Variant IR_TagUnknown) (CE_Variant IR_TagKind) = Inr d"
    and acc: "compile_variant_cases env compile_st (fd_variant_cases f)
       \<lparr>va_field = cf\<lparr>cf_tag_from_field := cf_id d\<rparr>, va_first_case = True,
        va_all_cases_fixed = True, va_first_fixed_size = 0\<rparr> st = Inr (acc, st')"
    and look: "build_variant_lookup (va_field acc\<lparr>cf_variant_cases := sort_key cvc_tag_value
        (cf_variant_cases (va_field acc))\<rparr>) = Inr cf'"
    by (auto simp: compile_variant_field_def bind_res_Inr_iff Let_def split: if_splits)
  from compile_variant_cases_ok [OF acc assms(5)] assms(2-4) obtain new where new:
    "table_wf n st'" "table_extends st st'" "cf_variant_cases (va_field acc) = new"
    "map cvc_tag_value new = map vcd_tag_value (fd_variant_cases f)"
    "\<forall>c\<in>set new. is_done st' (cvc_struct_id c)"
    "base_same cf (va_field acc)" "cf_kind (va_field acc) = KVariant"
    "cf_tag_from_field (va_field acc) = cf_id d" "cf_variant_lookup_indices (va_field acc) = []"
    by (auto simp: base_same_def)
  define cf1 where "cf1 = va_field acc\<lparr>cf_variant_cases := sort_key cvc_tag_value new\<rparr>"
  have len_new: "length new = length (fd_variant_cases f)" using arg_cong [OF new(4), of length] by simp
  have look: "build_variant_lookup cf1 = Inr cf'" using look by (simp add: cf1_def new(3))
  have "lookup_ok cf'"
    by (rule build_variant_lookup_ok [OF look]) (use len len_new new(9) in \<open>simp_all add: cf1_def\<close>)
  moreover note same = build_variant_lookup_same [OF look]
  moreover have "cf_variant_cases cf' = sort_key cvc_tag_value new" using same by (simp add: cf1_def)
  moreover have "new \<noteq> []" using len_new ne by auto
  ultimately show ?thesis
    using new numeric_field_ok [OF d ls]
    by (auto simp: kind_ok_def field_refs_def base_same_def cf1_def simp flip: set_empty)
qed

lemma compile_field_kind_ok:
  assumes "compile_field_kind env compile_st ls f (initial_compiled_field k f) st = Inr (cf', fixed, st')"
    and "table_wf n st" and ls: "fields_wf (ls_fields ls)" "index_ok ls"
    and len: "length (fd_variant_cases f) < 2 ^ 32 - 1"
  shows "kind_ok (ls_fields ls) cf' \<and> base_same (initial_compiled_field k f) cf' \<and> table_wf n st' \<and>
     table_extends st st' \<and> (\<forall>r\<in>field_refs cf'. is_done st' r)"
proof -
  define cf where "cf = initial_compiled_field k f"
  have cf: "cf_kind cf = fd_kind f" "\<not> cf_dynamic_size cf" "cf_fixed_size cf = fd_fixed_size f"
    "\<not> cf_dynamic_count cf" "cf_variant_cases cf = []" "cf_variant_lookup_indices cf = []"
    by (simp_all add: cf_def initial_compiled_field_def default_compiled_field_def)
  note a = assms(1) [folded cf_def, unfolded compile_field_kind_def cf(1)]
  consider (b) "fd_kind f = KBytes \<or> fd_kind f = KString" | (s) "fd_kind f = KStruct"
    | (c) "fd_kind f = KCollection" | (v) "fd_kind f = KVariant"
    | (n) "fd_kind f \<in> {KUnsigned, KSigned, KFloat32, KFloat64, KEnum}"
    by (cases "fd_kind f") auto
  then have "kind_ok (ls_fields ls) cf' \<and> base_same cf cf' \<and> table_wf n st' \<and>
     table_extends st st' \<and> (\<forall>r\<in>field_refs cf'. is_done st' r)"
  proof cases
    case b
    with a have "compile_bytes_field ls f cf = Inr (cf', fixed)" "st' = st"
      by (auto simp: bind_res_Inr_iff)
    with compile_bytes_field_ok [OF this(1) _ _ _ ls] b cf assms(2) show ?thesis by auto
  next
    case s
    with a compile_struct_field_ok [OF _ _ _ assms(2)] cf show ?thesis by simp
  next
    case c
    with a compile_collection_field_ok [OF _ _ _ assms(2) ls] cf show ?thesis by simp
  next
    case v
    with a compile_variant_field_ok [OF _ _ _ _ assms(2) ls len] cf show ?thesis by simp
  next
    case n
    then have "(case fd_kind f of KBytes \<Rightarrow> x | KString \<Rightarrow> x | KStruct \<Rightarrow> y | KCollection \<Rightarrow> y' | KVariant \<Rightarrow> y''
        | _ \<Rightarrow> z) = z" for x y y' y'' z :: "compile_error + compiled_field \<times> bool \<times> struct_table"
      by auto
    with a have "bind_res (compile_scalar_field f cf) (\<lambda>_. Inr (cf, True, st)) = Inr (cf', fixed, st')"
      by (simp only:)
    then obtain u where "compile_scalar_field f cf = Inr u" "cf' = cf" "st' = st"
      unfolding bind_res_Inr_iff by blast
    with compile_scalar_field_ok [OF this(1)] n cf assms(2) show ?thesis by simp
  qed
  then show ?thesis by (simp add: cf_def)
qed

end

subsection \<open>Modifiers, bit fields and checksums of a field\<close>

lemma kind_ok_modifiers [simp]:
  "kind_ok fs (cf\<lparr>cf_has_condition := a, cf_condition_field := b, cf_condition_equals := c\<rparr>) = kind_ok fs cf"
  "kind_ok fs (cf\<lparr>cf_has_presence := a, cf_presence_field := b, cf_presence_bit := k\<rparr>) = kind_ok fs cf"
  by (cases "cf_kind cf"; simp add: kind_ok_def lookup_ok_def)+

lemma field_refs_modifiers [simp]:
  "field_refs (cf\<lparr>cf_has_condition := a, cf_condition_field := b, cf_condition_equals := c\<rparr>) = field_refs cf"
  "field_refs (cf\<lparr>cf_has_presence := a, cf_presence_field := b, cf_presence_bit := k\<rparr>) = field_refs cf"
  by (cases "cf_kind cf"; simp add: field_refs_def)+

lemma compile_modifiers_ok:
  assumes "compile_condition ls f (cf, fixed) = Inr cf_fixed" and "compile_presence ls f cf_fixed = Inr (cf', fixed')"
    and ls: "fields_wf (ls_fields ls)" "index_ok ls"
    and "1 \<le> cf_alignment cf" and "cf_alignment cf AND (cf_alignment cf - 1) = 0"
    and "\<not> cf_has_condition cf" and "\<not> cf_has_presence cf" and "kind_ok (ls_fields ls) cf"
  shows "kind_ok (ls_fields ls) cf' \<and> modifiers_ok (ls_fields ls) cf' \<and> field_refs cf' = field_refs cf \<and>
    cf_id cf' = cf_id cf \<and> cf_name cf' = cf_name cf"
proof -
  obtain cf1 fixed1 where p: "cf_fixed = (cf1, fixed1)" by (cases cf_fixed)
  have c1: "kind_ok (ls_fields ls) cf1 \<and> field_refs cf1 = field_refs cf \<and> cf_id cf1 = cf_id cf \<and>
    cf_name cf1 = cf_name cf \<and> cf_alignment cf1 = cf_alignment cf \<and> \<not> cf_has_presence cf1 \<and>
    (cf_has_condition cf1 \<longrightarrow> numeric_ref (ls_fields ls) (cf_condition_field cf1))"
  proof (cases "fd_condition f")
    case None
    with assms p show ?thesis by (simp add: compile_condition_def)
  next
    case (Some c)
    with assms(1) p obtain d where d: "numeric_field ls (cnd_field c) (CE_Modifier IR_ConditionUnknown) (CE_Modifier IR_ConditionKind) = Inr d"
      and "cf1 = cf\<lparr>cf_has_condition := True, cf_condition_field := cf_id d, cf_condition_equals := cnd_equals_unsigned c\<rparr>"
      unfolding compile_condition_def by (simp add: bind_res_Inr_iff) blast
    with numeric_field_ok [OF d ls] assms show ?thesis by simp
  qed
  show ?thesis
  proof (cases "fd_presence f")
    case None
    with assms p have "cf' = cf1" by (simp add: compile_presence_def)
    with c1 assms show ?thesis by (simp add: modifiers_ok_def)
  next
    case (Some pr)
    with assms(2) p obtain d where d: "numeric_field ls (prd_field pr) (CE_Modifier IR_PresenceUnknown) (CE_Modifier IR_PresenceKind) = Inr d"
      and bit: "prd_bit_index pr < cf_width_bytes d * kBitsPerByte"
      and "cf' = cf1\<lparr>cf_has_presence := True, cf_presence_field := cf_id d, cf_presence_bit := prd_bit_index pr\<rparr>"
      unfolding compile_presence_def by (auto simp: bind_res_Inr_iff not_le simp del: not_less split: if_splits)
    with numeric_field_ok [OF d ls] assms c1 show ?thesis
      by (simp add: modifiers_ok_def kBitsPerByte_def mult.commute)
  qed
qed

lemma numeric_ref_append [simp]: "numeric_ref fs i \<Longrightarrow> numeric_ref (fs @ gs) i"
  by (auto simp: numeric_ref_def nth_append)

lemma fields_wf_append:
  "fields_wf (fs @ [f]) \<longleftrightarrow> fields_wf fs \<and> field_wf fs f \<and> cf_name f \<notin> cf_name ` set fs"
  by (auto simp: fields_wf_def nth_append less_Suc_eq all_conj_distrib)

lemma bit_field_mask_eq: "w \<le> 64 \<Longrightarrow> bit_field_mask w = mask w"
  by (auto simp: bit_field_mask_def mask_eq_exp_minus_1)

lemma bit_field_wf_append: "bit_field_wf fs b \<Longrightarrow> bit_field_wf (fs @ gs) b"
  by (auto simp: bit_field_wf_def nth_append)

lemma bit_fields_wf_append: "bit_fields_wf fs bs \<Longrightarrow> bit_fields_wf (fs @ gs) bs"
  by (simp add: bit_fields_wf_def bit_field_wf_append)

lemma pending_wf_append: "pending_wf fs p \<Longrightarrow> pending_wf (fs @ gs) p"
  by (auto simp: pending_wf_def numeric_ref_def nth_append)

lemma compile_bit_fields_ok:
  assumes "compile_bit_fields container bits bs names cbfs = Inr (names', cbfs')"
    and "container < length fs" and "cf_kind (fs ! container) \<in> {KUnsigned, KSigned, KEnum}"
    and "bits = 8 * cf_width_bytes (fs ! container)"
    and "bit_fields_wf fs cbfs" and "names = cbf_name ` set cbfs"
  shows "bit_fields_wf fs cbfs' \<and> names' = cbf_name ` set cbfs'"
  using assms
proof (induction container bits bs names cbfs rule: compile_bit_fields.induct)
  case (2 container bits b bs names cbfs)
  let ?b = "\<lparr>cbf_id = length cbfs, cbf_name = bfd_name b, cbf_container_field_id = container,
                       cbf_shift_bits = bfd_offset_bits b, cbf_width_bits = bfd_width_bits b,
                       cbf_mask = bit_field_mask (bfd_width_bits b), cbf_is_signed = bfd_is_signed b,
                       cbf_enum_values = bfd_enum_values b\<rparr>"
  from "2.prems"(1) have c: "bfd_name b \<noteq> ''''" "bfd_name b \<notin> names" "bfd_width_bits b \<noteq> 0"
    "\<not> bfd_width_bits b > 64" "\<not> bfd_offset_bits b + bfd_width_bits b > bits"
    "\<not> length cbfs \<ge> kMaxBitFieldsPerMessage"
    and step: "compile_bit_fields container bits bs (insert (bfd_name b) names) (cbfs @ [?b]) = Inr (names', cbfs')"
    by (simp_all split: if_splits)
  have "bit_fields_wf fs (cbfs @ [?b])"
    using c "2.prems"(2-6)
    by (auto simp: bit_fields_wf_def bit_field_wf_def bit_field_mask_eq kMaxBitFieldsPerMessage_def nth_append less_Suc_eq)
  from "2.IH" [OF c step "2.prems"(2-4) this] "2.prems"(6) show ?case by simp
qed simp

lemma compile_field_checksum_ok:
  assumes "compile_field_checksum env f cf = Inr ps" and "registry_ok (ce_registry env)" and "cf_id cf = length fs"
  shows "\<forall>p\<in>set ps. pending_wf (fs @ [cf]) p"
proof (cases "fd_checksum f")
  case None
  with assms(1) show ?thesis by (simp add: compile_field_checksum_def)
next
  case (Some c)
  with assms(1) obtain spec where spec: "find_checksum_algorithm (ckd_algorithm c) (ce_registry env) = Inr spec"
    "cf_kind cf \<in> {KUnsigned, KEnum}" "cf_width_bytes cf = ca_result_width_bytes spec"
    and ps: "ps = [\<lparr>pc_field_id = cf_id cf, pc_spec = spec, pc_from_anchor = ckd_from c, pc_to_anchor = ckd_to c\<rparr>]"
    by (auto simp: compile_field_checksum_def split: if_splits sum.splits)
  have "spec_ok spec" by (rule registry.look_ok [OF assms(2) spec(1)])
  then show ?thesis
    using spec ps assms(3) by (auto simp: pending_wf_def numeric_ref_def spec_ok_def)
qed

lemma account_field_simps [simp]:
  "ls_fields (account_field f cf fx ls) = ls_fields ls"
  "ls_bit_fields (account_field f cf fx ls) = ls_bit_fields ls"
  "ls_bit_field_names (account_field f cf fx ls) = ls_bit_field_names ls"
  "ls_pending (account_field f cf fx ls) = ls_pending ls"
  "ls_field_names (account_field f cf fx ls) = ls_field_names ls"
  "ls_field_ids (account_field f cf fx ls) = emplace (fd_name f) (cf_id cf) (ls_field_ids ls)"
  by (simp_all add: account_field_def Let_def)

lemma place_field_ok:
  assumes "place_field env f cf fixed ls = Inr ls'" and "registry_ok (ce_registry env)"
    and "fields_wf (ls_fields ls)" and "bit_fields_wf (ls_fields ls) (ls_bit_fields ls)"
    and "ls_bit_field_names ls = cbf_name ` set (ls_bit_fields ls)"
    and "\<forall>p\<in>set (ls_pending ls). pending_wf (ls_fields ls) p"
    and "\<forall>name i. ls_field_ids ls name = Some i \<longleftrightarrow> i < length (ls_fields ls) \<and> cf_name (ls_fields ls ! i) = name"
    and "ls_field_names ls = insert (cf_name cf) (cf_name ` set (ls_fields ls))"
    and "cf_name cf \<notin> cf_name ` set (ls_fields ls)" and "cf_name cf = fd_name f"
    and "field_wf (ls_fields ls) cf"
  shows "ls_fields ls' = ls_fields ls @ [cf] \<and> fields_wf (ls_fields ls') \<and> index_ok ls' \<and>
    bit_fields_wf (ls_fields ls') (ls_bit_fields ls') \<and>
    ls_bit_field_names ls' = cbf_name ` set (ls_bit_fields ls') \<and>
    (\<forall>p\<in>set (ls_pending ls'). pending_wf (ls_fields ls') p)"
proof -
  from assms(1) obtain names cbfs ps where
    bits: "(if fd_bit_fields f \<noteq> [] then
             if cf_kind cf \<noteq> KUnsigned \<and> cf_kind cf \<noteq> KSigned \<and> cf_kind cf \<noteq> KEnum
             then Inl (CE_BitField IR_BitFieldContainer)
             else compile_bit_fields (cf_id cf) (cf_width_bytes cf * kBitsPerByte) (fd_bit_fields f)
                    (ls_bit_field_names ls) (ls_bit_fields ls)
           else Inr (ls_bit_field_names ls, ls_bit_fields ls)) = Inr (names, cbfs)"
    and ps: "compile_field_checksum env f cf = Inr ps"
    and ls': "ls_fields ls' = ls_fields ls @ [cf]" "ls_bit_fields ls' = cbfs" "ls_bit_field_names ls' = names"
      "ls_pending ls' = ls_pending ls @ ps" "ls_field_names ls' = ls_field_names ls"
      "ls_field_ids ls' = emplace (fd_name f) (cf_id cf) (ls_field_ids ls)"
    unfolding place_field_def Let_def bind_res_Inr_iff
    by (clarsimp simp only: bind_res_Inr_iff prod.case split_paired_all account_field_simps) auto
  have id: "cf_id cf = length (ls_fields ls)" using assms(11) by (simp add: field_wf_def)
  have "bit_fields_wf (ls_fields ls @ [cf]) cbfs \<and> names = cbf_name ` set cbfs"
  proof (cases "fd_bit_fields f = []")
    case True
    with bits assms(4,5) show ?thesis by (auto simp: bit_fields_wf_append)
  next
    case False
    with bits have "compile_bit_fields (cf_id cf) (cf_width_bytes cf * kBitsPerByte) (fd_bit_fields f)
        (ls_bit_field_names ls) (ls_bit_fields ls) = Inr (names, cbfs)" "cf_kind cf \<in> {KUnsigned, KSigned, KEnum}"
      by (auto split: if_splits)
    from compile_bit_fields_ok [OF this(1), of "ls_fields ls @ [cf]"] this(2) show ?thesis
      using assms(4,5) by (simp add: id kBitsPerByte_def bit_fields_wf_append)
  qed
  moreover have "index_ok ls'"
  proof -
    have "cf_name (ls_fields ls ! i) \<noteq> fd_name f" if "i < length (ls_fields ls)" for i
      using imageI [OF nth_mem [OF that], of cf_name] assms(9,10) by metis
    note fresh = this
    then have "ls_field_ids ls (fd_name f) = None" using assms(7) by (cases "ls_field_ids ls (fd_name f)") auto
    then have ids: "ls_field_ids ls' = (ls_field_ids ls)(fd_name f \<mapsto> length (ls_fields ls))"
      by (simp add: ls' emplace_def id)
    have "ls_field_ids ls' name = Some i \<longleftrightarrow>
        i < length (ls_fields ls @ [cf]) \<and> cf_name ((ls_fields ls @ [cf]) ! i) = name" for name i
    proof (cases "i < length (ls_fields ls)")
      case True
      with fresh [OF True] assms(7) show ?thesis by (auto simp: ids nth_append)
    next
      case False
      with assms(7,10) show ?thesis by (auto simp: ids nth_append less_Suc_eq)
    qed
    moreover have "ls_field_names ls' = cf_name ` set (ls_fields ls @ [cf])" using assms(8) by (simp add: ls')
    ultimately show ?thesis by (simp add: index_ok_def ls')
  qed
  moreover have "\<forall>p\<in>set (ls_pending ls'). pending_wf (ls_fields ls') p"
    using compile_field_checksum_ok [OF ps assms(2) id] assms(6) pending_wf_append
    by (auto simp: ls')
  ultimately show ?thesis using assms(3,9,11) by (simp add: ls' fields_wf_append)
qed

context struct_callback
begin

lemma compile_field_ok:
  assumes "compile_field env compile_st (length (ls_fields ls)) f (ls, st) = Inr (ls', st')"
    and "table_wf n st" and ok: "loop_ok ls st" and len: "length (fd_variant_cases f) < 2 ^ 32 - 1"
  shows "table_wf n st' \<and> table_extends st st' \<and> loop_ok ls' st' \<and>
    length (ls_fields ls') = Suc (length (ls_fields ls))"
proof -
  define ls1 where "ls1 = ls\<lparr>ls_field_names := insert (fd_name f) (ls_field_names ls)\<rparr>"
  define cf where "cf = initial_compiled_field (length (ls_fields ls)) f"
  have ls1 [simp]: "ls_fields ls1 = ls_fields ls" "ls_bit_fields ls1 = ls_bit_fields ls"
    "ls_bit_field_names ls1 = ls_bit_field_names ls" "ls_pending ls1 = ls_pending ls"
    "ls_field_ids ls1 = ls_field_ids ls" "ls_field_names ls1 = insert (fd_name f) (ls_field_names ls)"
    by (simp_all add: ls1_def)
  have same: "compile_field_kind env compile_st ls1 f cf st = compile_field_kind env compile_st ls f cf st"
    "compile_condition ls1 f x = compile_condition ls f x" "compile_presence ls1 f x = compile_presence ls f x" for x
  proof -
    have num: "numeric_field ls1 = numeric_field ls" by (intro ext) (simp add: numeric_field_def cong: option.case_cong)
    show "compile_field_kind env compile_st ls1 f cf st = compile_field_kind env compile_st ls f cf st"
      "compile_condition ls1 f x = compile_condition ls f x" "compile_presence ls1 f x = compile_presence ls f x"
      by (simp_all only: compile_field_kind_def compile_bytes_field_def compile_collection_field_def
          compile_variant_field_def compile_condition_def compile_presence_def num)
  qed
  have fw: "fields_wf (ls_fields ls)" "index_ok ls" using ok by (simp_all add: loop_ok_def)
  from assms(1) have name: "fd_name f \<noteq> ''''" "fd_name f \<notin> ls_field_names ls"
    and pow: "cf_alignment cf AND (cf_alignment cf - 1) = 0"
    and r: "bind_res (compile_field_kind env compile_st ls1 f cf st) (\<lambda>(cf, fixed, st).
                bind_res (compile_condition ls1 f (cf, fixed)) (\<lambda>cf_fixed.
                bind_res (compile_presence ls1 f cf_fixed) (\<lambda>(cf, fixed).
                bind_res (place_field env f cf fixed ls1) (\<lambda>ls. Inr (ls, st))))) = Inr (ls', st')"
    unfolding compile_field_def Let_def prod.case cf_def [symmetric] ls1_def [symmetric]
    by (simp_all only: split: if_split_asm) simp_all
  then obtain cf1 fx1 cff cf2 fx2 where k: "compile_field_kind env compile_st ls f cf st = Inr (cf1, fx1, st')"
    and c: "compile_condition ls f (cf1, fx1) = Inr cff" and p: "compile_presence ls f cff = Inr (cf2, fx2)"
    and pl: "place_field env f cf2 fx2 ls1 = Inr ls'"
    unfolding bind_res_Inr_iff same by (clarsimp simp only: bind_res_Inr_iff prod.case split_paired_all sum.inject prod.inject)
  have K: "kind_ok (ls_fields ls) cf1" "base_same cf cf1" "table_wf n st'" "table_extends st st'"
    "\<forall>r\<in>field_refs cf1. is_done st' r"
    using compile_field_kind_ok [OF k [unfolded cf_def] assms(2) fw len] by (simp_all add: cf_def)
  have init: "cf_id cf = length (ls_fields ls)" "cf_name cf = fd_name f" "1 \<le> cf_alignment cf"
    "\<not> cf_has_condition cf" "\<not> cf_has_presence cf"
    by (simp_all add: cf_def initial_compiled_field_def default_compiled_field_def)
  have M: "kind_ok (ls_fields ls) cf2" "modifiers_ok (ls_fields ls) cf2" "field_refs cf2 = field_refs cf1"
    "cf_id cf2 = cf_id cf1" "cf_name cf2 = cf_name cf1"
    using compile_modifiers_ok [OF c p fw] K(1,2) init pow by (simp_all add: base_same_def)
  have wf2: "field_wf (ls_fields ls) cf2" and nm: "cf_name cf2 = fd_name f"
    using M K(2) init name by (simp_all add: field_wf_def base_same_def)
  have fresh: "fd_name f \<notin> cf_name ` set (ls_fields ls)" using name fw(2) by (simp add: index_ok_def)
  have PP: "ls_fields ls' = ls_fields ls1 @ [cf2] \<and> fields_wf (ls_fields ls') \<and> index_ok ls' \<and>
    bit_fields_wf (ls_fields ls') (ls_bit_fields ls') \<and> ls_bit_field_names ls' = cbf_name ` set (ls_bit_fields ls') \<and>
    (\<forall>p\<in>set (ls_pending ls'). pending_wf (ls_fields ls') p)"
    by (rule place_field_ok [OF pl]) (use ok env nm wf2 fresh in \<open>simp_all add: loop_ok_def env_ok_def index_ok_def\<close>)
  then have P: "ls_fields ls' = ls_fields ls @ [cf2]" by simp
  have "\<forall>f\<in>set (ls_fields ls'). \<forall>r\<in>field_refs f. is_done st' r"
    using K(4,5) M(3) ok by (auto simp: P loop_ok_def intro: table_extends_done [OF K(4)])
  then show ?thesis using K(3,4) PP unfolding loop_ok_def by (simp add: P)
qed

lemma compile_fields_ok:
  assumes "compile_fields env compile_st (length (ls_fields ls)) fs (ls, st) = Inr (ls', st')"
    and "table_wf n st" and "loop_ok ls st" and "\<forall>f\<in>set fs. length (fd_variant_cases f) < 2 ^ 32 - 1"
  shows "table_wf n st' \<and> table_extends st st' \<and> loop_ok ls' st' \<and>
    length (ls_fields ls') = length (ls_fields ls) + length fs"
  using assms
proof (induction fs arbitrary: ls st)
  case (Cons f fs)
  from Cons.prems(1) obtain ls1 st1 where
    f: "compile_field env compile_st (length (ls_fields ls)) f (ls, st) = Inr (ls1, st1)"
    and fs: "compile_fields env compile_st (Suc (length (ls_fields ls))) fs (ls1, st1) = Inr (ls', st')"
    by (auto simp: bind_res_Inr_iff)
  have F: "table_wf n st1" "table_extends st st1" "loop_ok ls1 st1" "length (ls_fields ls1) = Suc (length (ls_fields ls))"
    using compile_field_ok [OF f Cons.prems(2,3)] Cons.prems(4) by simp_all
  from Cons.IH [OF fs [folded F(4)] F(1,3)] Cons.prems(4) F(2,4) show ?case
    by (auto intro: table_extends_trans)
qed simp

end

subsection \<open>Validation rules and checksums of a layout\<close>

lemma compile_validation_ok:
  assumes "compile_validation ls rule = Inr r" and ls: "fields_wf (ls_fields ls)" "index_ok ls"
  shows "validation_wf (ls_fields ls) r"
proof -
  note num = numeric_field_ok [OF _ ls]
  from assms(1) show ?thesis
    unfolding compile_validation_def bind_res_Inr_iff Let_def
    by (auto simp: validation_wf_def bind_res_Inr_iff dest!: num split: if_split_asm option.split_asm)
qed

lemma compile_validations_ok:
  assumes "compile_validations ls rs = Inr cs" and "fields_wf (ls_fields ls)" and "index_ok ls"
  shows "\<forall>r\<in>set cs. validation_wf (ls_fields ls) r"
  using assms(1)
  by (induction rs arbitrary: cs) (auto simp: bind_res_Inr_iff dest: compile_validation_ok [OF _ assms(2,3)])

lemma resolve_checksum_anchor_ok:
  assumes "resolve_checksum_anchor a self (ls_field_ids ls) = Inr c" and "index_ok ls" and "self < length (ls_fields ls)"
  shows "anchor_wf (ls_fields ls) c"
  using assms
  by (auto simp: resolve_checksum_anchor_def anchor_wf_def anchor_field_def index_ok_def split: if_splits option.splits)

lemma compile_checksum_ok:
  assumes "compile_checksum (ls_field_ids ls) p = Inr c" and "index_ok ls" and "pending_wf (ls_fields ls) p"
  shows "checksum_wf (ls_fields ls) c"
proof -
  have lt: "pc_field_id p < length (ls_fields ls)" using assms(3) by (simp add: pending_wf_def numeric_ref_def)
  from assms show ?thesis
    by (auto simp: compile_checksum_def bind_res_Inr_iff checksum_wf_def pending_wf_def
        intro: resolve_checksum_anchor_ok lt)
qed

lemma compile_checksums_ok:
  assumes "compile_checksums (ls_field_ids ls) ps = Inr cs" and "index_ok ls"
    and "\<forall>p\<in>set ps. pending_wf (ls_fields ls) p"
  shows "\<forall>c\<in>set cs. checksum_wf (ls_fields ls) c"
  using assms(1,3)
  by (induction ps arbitrary: cs) (auto simp: bind_res_Inr_iff dest: compile_checksum_ok [OF _ assms(2)])

lemma loop_ok_initial: "loop_ok initial_layout_state st"
  by (simp add: loop_ok_def initial_layout_state_def fields_wf_def index_ok_def bit_fields_wf_def)

lemma make_compiled_message_simps [simp]:
  "cm_name (make_compiled_message nm fs bs cs vs ms fx tr pre) = nm"
  "cm_fields (make_compiled_message nm fs bs cs vs ms fx tr pre) = fs"
  "cm_bit_fields (make_compiled_message nm fs bs cs vs ms fx tr pre) = bs"
  "cm_checksums (make_compiled_message nm fs bs cs vs ms fx tr pre) = cs"
  "cm_validations (make_compiled_message nm fs bs cs vs ms fx tr pre) = vs"
  "cm_minimum_size (make_compiled_message nm fs bs cs vs ms fx tr pre) = ms"
  "cm_has_fixed_size (make_compiled_message nm fs bs cs vs ms fx tr pre) = fx"
  "cm_dispatch_prefix (make_compiled_message nm fs bs cs vs ms fx tr pre) = pre"
  "cm_allow_trailing_bytes (make_compiled_message nm fs bs cs vs ms fx tr pre) = tr"
  by (simp_all add: make_compiled_message_def)

text \<open>The \<open>uint32_t\<close> case indices do not overflow.\<close>

definition fields_sized :: "field_definition list \<Rightarrow> bool" where
  "fields_sized fs \<longleftrightarrow> (\<forall>f\<in>set fs. length (fd_variant_cases f) < 2 ^ 32 - 1)"

definition definition_sized :: "protocol_definition \<Rightarrow> bool" where
  "definition_sized d \<longleftrightarrow>
     (\<forall>s\<in>set (pd_structs d). fields_sized (sd_fields s)) \<and>
     (\<forall>m\<in>set (pd_messages d). fields_sized (md_fields m))"

context struct_callback
begin

lemma compile_layout_ok:
  assumes "compile_layout env compile_st nm fs vs tr st = Inr (m, st')" and "table_wf n st" and "fields_sized fs"
  shows "table_wf n st' \<and> table_extends st st' \<and> layout_wf m \<and> (\<forall>r\<in>layout_refs m. is_done st' r) \<and>
    length (cm_fields m) = length fs \<and> cm_name m = nm"
proof -
  from assms(1) obtain ls rules cks where ne: "fs \<noteq> []" "length fs \<le> 64"
    and f: "compile_fields env compile_st 0 fs (initial_layout_state, st) = Inr (ls, st')"
    and v: "compile_validations ls vs = Inr rules"
    and c: "compile_checksums (ls_field_ids ls) (ls_pending ls) = Inr cks"
    and m: "m = make_compiled_message nm (ls_fields ls) (ls_bit_fields ls) cks rules
                  (ls_minimum_size ls) (ls_has_fixed_size ls) tr (ls_dispatch_prefix ls)"
    unfolding compile_layout_def bind_res_Inr_iff
    by (auto simp: bind_res_Inr_iff kMaxFieldsPerMessage_def not_less split: if_split_asm)
  have f0: "compile_fields env compile_st (length (ls_fields initial_layout_state)) fs (initial_layout_state, st) = Inr (ls, st')"
    using f by (simp add: initial_layout_state_def)
  have F: "table_wf n st'" "table_extends st st'" "loop_ok ls st'" "length (ls_fields ls) = length fs"
    using compile_fields_ok [OF f0 assms(2) loop_ok_initial] assms(3)
    by (simp_all add: fields_sized_def initial_layout_state_def)
  then have L: "fields_wf (ls_fields ls)" "index_ok ls" "bit_fields_wf (ls_fields ls) (ls_bit_fields ls)"
    "\<forall>p\<in>set (ls_pending ls). pending_wf (ls_fields ls) p" "\<forall>f\<in>set (ls_fields ls). \<forall>r\<in>field_refs f. is_done st' r"
    by (simp_all add: loop_ok_def)
  have "layout_wf m"
    using ne F(4) L compile_validations_ok [OF v L(1,2)] compile_checksums_ok [OF c L(2,4)]
    by (auto simp: layout_wf_def m)
  with F L show ?thesis by (auto simp: layout_refs_def m)
qed

end

subsection \<open>The recursion through structs\<close>

lemma table_wf_complete:
  assumes wf: "table_wf n st" and vis: "is_visiting st i" and m: "layout_wf m" "\<forall>r\<in>layout_refs m. is_done st r"
  shows "table_wf n (st\<lparr>st_structs := (st_structs st)[i := m], st_states := (st_states st)[i := KDone]\<rparr>)"
    (is "table_wf n ?st")
proof -
  from wf obtain ord where ord: "length (st_structs st) = n" "length (st_states st) = n" "distinct ord"
    "set ord = {i. is_done st i}"
    "\<forall>k<length ord. layout_wf (st_structs st ! (ord ! k)) \<and> layout_refs (st_structs st ! (ord ! k)) \<subseteq> set (take k ord)"
    by (auto simp: table_wf_def)
  have i: "i < n" "i \<notin> set ord" using vis ord by (auto simp: is_visiting_def is_done_def)
  have old: "st_structs ?st ! (ord ! k) = st_structs st ! (ord ! k)" if "k < length ord" for k
  proof -
    have "ord ! k \<in> set ord" using that by (rule nth_mem)
    with i(2) have "ord ! k \<noteq> i" by metis
    then show ?thesis by simp
  qed
  have new: "st_structs ?st ! i = m" using ord(1) i(1) by simp
  have "layout_wf (st_structs ?st ! ((ord @ [i]) ! k)) \<and>
      layout_refs (st_structs ?st ! ((ord @ [i]) ! k)) \<subseteq> set (take k (ord @ [i]))"
    if "k < length (ord @ [i])" for k
  proof (cases "k < length ord")
    case True
    with ord(5) old [OF True] show ?thesis by (simp add: nth_append)
  next
    case False
    with that have k: "k = length ord" by simp
    have "layout_refs m \<subseteq> set ord" using m(2) ord(4) by blast
    with m(1) new show ?thesis by (simp add: k)
  qed
  moreover have "set (ord @ [i]) = {j. is_done ?st j}"
    using ord(2,4) i(1) by (auto simp: is_done_def nth_list_update)
  moreover have "distinct (ord @ [i])" using ord(3) i(2) by simp
  ultimately have "\<exists>ord. distinct ord \<and> set ord = {j. is_done ?st j} \<and>
      (\<forall>k<length ord. layout_wf (st_structs ?st ! (ord ! k)) \<and>
         layout_refs (st_structs ?st ! (ord ! k)) \<subseteq> set (take k ord))"
    by (intro exI [of _ "ord @ [i]"]) blast
  moreover have "length (st_structs ?st) = n" "length (st_states ?st) = n" using ord(1,2) by simp_all
  ultimately show ?thesis unfolding table_wf_def by blast
qed

lemma is_visiting_mark:
  "length (st_states st) = n \<Longrightarrow> i < n \<Longrightarrow> is_visiting (st\<lparr>st_states := (st_states st)[i := KVisiting]\<rparr>) j \<longleftrightarrow> j = i \<or> is_visiting st j"
  by (auto simp: is_visiting_def nth_list_update)

lemma is_done_mark:
  "length (st_states st) = n \<Longrightarrow> i < n \<Longrightarrow> \<not> is_done st i \<Longrightarrow>
   is_done (st\<lparr>st_states := (st_states st)[i := KVisiting]\<rparr>) j \<longleftrightarrow> is_done st j"
  by (auto simp: is_done_def nth_list_update)

lemma table_wf_mark:
  "table_wf n st \<Longrightarrow> i < n \<Longrightarrow> \<not> is_done st i \<Longrightarrow> table_wf n (st\<lparr>st_states := (st_states st)[i := KVisiting]\<rparr>)"
  using is_done_mark [of st n i] by (auto simp: table_wf_def)

lemma compile_struct_callback:
  assumes "env_ok n env" and "n = length (pd_structs (ce_definition env))" and "definition_sized (ce_definition env)"
  shows "struct_callback n env (compile_struct env fuel)"
proof (induction fuel)
  case 0
  show ?case
  proof
    fix st s i st'
    assume a: "table_wf n st" "s < n" "compile_struct env 0 s st = Inr (i, st')"
    from a(3) have "st_states st ! s = KDone" "i = s" "st' = st"
      by (simp_all add: compile_struct.simps split: if_splits)
    moreover have "length (st_states st) = n" using a(1) by (simp add: table_wf_def)
    ultimately show "table_wf n st' \<and> table_extends st st' \<and> i = s \<and> is_done st' s"
      using a(1,2) by (simp add: is_done_def)
  qed (rule assms(1))
next
  case (Suc fuel)
  show ?case
  proof
    fix st s i st'
    assume a: "table_wf n st" "s < n" "compile_struct env (Suc fuel) s st = Inr (i, st')"
    have len: "length (st_states st) = n" using a(1) by (simp add: table_wf_def)
    show "table_wf n st' \<and> table_extends st st' \<and> i = s \<and> is_done st' s"
    proof (cases "st_states st ! s = KDone")
      case True
      with a len show ?thesis by (simp add: compile_struct.simps is_done_def)
    next
      case False
      let ?d = "pd_structs (ce_definition env) ! s"
      let ?st = "st\<lparr>st_states := (st_states st)[s := KVisiting]\<rparr>"
      from False a(3) obtain m st1 where
        nv: "st_states st ! s \<noteq> KVisiting"
        and m: "compile_layout env (compile_struct env fuel) (sd_name ?d) (sd_fields ?d) (sd_validations ?d) False ?st = Inr (m, st1)"
        and i: "i = s" and st': "st' = st1\<lparr>st_structs := (st_structs st1)[s := m], st_states := (st_states st1)[s := KDone]\<rparr>"
        by (auto simp: compile_struct.simps bind_res_Inr_iff Let_def split: if_splits)
      have nd: "\<not> is_done st s" "\<not> is_visiting st s" using False nv by (simp_all add: is_done_def is_visiting_def)
      have "?d \<in> set (pd_structs (ce_definition env))" using a(2) assms(2) by simp
      then have sized: "fields_sized (sd_fields ?d)" using assms(3) by (simp add: definition_sized_def)
      have L: "table_wf n st1" "table_extends ?st st1" "layout_wf m" "\<forall>r\<in>layout_refs m. is_done st1 r"
        using struct_callback.compile_layout_ok [OF Suc m table_wf_mark [OF a(1,2) nd(1)] sized] by simp_all
      have vis: "is_visiting st1 s"
        using L(2) is_visiting_mark [OF len a(2), of s] by (simp add: table_extends_def)
      have len1: "length (st_states st1) = n" "length (st_structs st1) = n" using L(1) by (simp_all add: table_wf_def)
      have done': "is_done st' j \<longleftrightarrow> j = s \<or> is_done st1 j" for j
        using a(2) len1 by (auto simp: st' is_done_def nth_list_update)
      have vis': "is_visiting st' j \<longleftrightarrow> j \<noteq> s \<and> is_visiting st1 j" for j
        using a(2) len1 by (auto simp: st' is_visiting_def nth_list_update)
      have "table_extends st st'"
        unfolding table_extends_def
      proof (intro conjI allI impI)
        fix j assume "is_done st j"
        then have "is_done ?st j" "j \<noteq> s" using is_done_mark [OF len a(2) nd(1)] nd(1) by auto
        then have "is_done st1 j" "st_structs st1 ! j = st_structs st ! j" using L(2) by (auto simp: table_extends_def)
        then show "is_done st' j" "st_structs st' ! j = st_structs st ! j"
          using \<open>j \<noteq> s\<close> done' by (simp_all add: st')
      next
        fix j show "is_visiting st' j = is_visiting st j"
          using L(2) is_visiting_mark [OF len a(2), of j] vis' nd(2) by (auto simp: table_extends_def)
      qed
      moreover have "table_wf n st'" unfolding st' by (rule table_wf_complete [OF L(1) vis L(3,4)])
      ultimately show ?thesis using i done' by simp
    qed
  qed (rule assms(1))
qed

text \<open>
  The contract for the environments that \<open>compile_protocol\<close> builds. An environment outside the
  contract is replaced by an empty one, so that the interpretation needs no premise.
\<close>

definition good_env :: "compile_env \<Rightarrow> bool" where
  "good_env env \<longleftrightarrow> env_ok (length (pd_structs (ce_definition env))) env \<and> definition_sized (ce_definition env)"

definition empty_env :: compile_env where
  "empty_env = \<lparr>ce_definition = \<lparr>pd_name = '''', pd_imports = [], pd_enums = [], pd_structs = [], pd_messages = []\<rparr>,
     ce_enum_ids = Map.empty, ce_struct_ids = Map.empty, ce_registry = Map.empty\<rparr>"

definition checked_env :: "compile_env \<Rightarrow> compile_env" where
  "checked_env env = (if good_env env then env else empty_env)"

lemma good_env_checked: "good_env (checked_env env)"
  by (simp add: checked_env_def good_env_def empty_env_def env_ok_def definition_sized_def registry_ok_def)

interpretation sc: struct_callback "length (pd_structs (ce_definition (checked_env env)))" "checked_env env"
  "compile_struct (checked_env env) fuel" for env fuel
  using good_env_checked [of env]
  by (intro compile_struct_callback) (simp_all add: good_env_def)

lemma compile_struct_ok:
  assumes "good_env env" and "n = length (pd_structs (ce_definition env))" and "table_wf n st" and "s < n"
    and "compile_struct env fuel s st = Inr (i, st')"
  shows "table_wf n st' \<and> table_extends st st' \<and> i = s \<and> is_done st' s"
  using assms sc.callback [of env st s fuel i st'] by (simp add: checked_env_def)

lemma checked_layout_ok:
  assumes "good_env env" and "n = length (pd_structs (ce_definition env))"
    and "compile_layout env (compile_struct env fuel) nm fs vs tr st = Inr (m, st')" and "table_wf n st" and "fields_sized fs"
  shows "table_wf n st' \<and> table_extends st st' \<and> layout_wf m \<and> (\<forall>r\<in>layout_refs m. is_done st' r) \<and>
    length (cm_fields m) = length fs \<and> cm_name m = nm"
  using assms sc.compile_layout_ok [of env fuel nm fs vs tr st m st'] by (simp add: checked_env_def)

lemma compile_all_structs_ok:
  assumes "good_env env" and "n = length (pd_structs (ce_definition env))"
    and "compile_all_structs env fuel ids st = Inr st'" and "table_wf n st" and "\<forall>i\<in>set ids. i < n"
  shows "table_wf n st' \<and> table_extends st st' \<and> (\<forall>i\<in>set ids. is_done st' i)"
  using assms(3-5)
proof (induction ids arbitrary: st)
  case (Cons i ids)
  from Cons.prems(1) obtain j st1 where s: "compile_struct env fuel i st = Inr (j, st1)"
    and r: "compile_all_structs env fuel ids st1 = Inr st'"
    by (auto simp: bind_res_Inr_iff)
  have "i < n" using Cons.prems by simp
  note S = compile_struct_ok [OF assms(1,2) Cons.prems(2) this s]
  with Cons.IH [OF r] Cons.prems(3) show ?case
    by (auto intro: table_extends_trans table_extends_done)
qed simp

lemma compile_messages_ok:
  assumes "good_env env" and "n = length (pd_structs (ce_definition env))"
    and "compile_messages env fuel ms st = Inr (cs, st')" and "table_wf n st"
    and "\<forall>m\<in>set ms. fields_sized (md_fields m)"
  shows "table_wf n st' \<and> table_extends st st' \<and> map cm_name cs = map md_name ms \<and>
     (\<forall>c\<in>set cs. layout_wf c \<and> (\<forall>r\<in>layout_refs c. is_done st' r))"
  using assms(3-5)
proof (induction ms arbitrary: st cs)
  case (Cons m ms)
  from Cons.prems(1) obtain c st1 cs1 where
    m: "compile_layout env (compile_struct env fuel) (md_name m) (md_fields m) (md_validations m)
          (md_allow_trailing_bytes m) st = Inr (c, st1)"
    and r: "compile_messages env fuel ms st1 = Inr (cs1, st')" and cs: "cs = c # cs1"
    by (auto simp: bind_res_Inr_iff)
  have "fields_sized (md_fields m)" using Cons.prems by simp
  note M = checked_layout_ok [OF assms(1,2) m Cons.prems(2) this]
  have "table_wf n st' \<and> table_extends st1 st' \<and> map cm_name cs1 = map md_name ms \<and>
     (\<forall>c\<in>set cs1. layout_wf c \<and> (\<forall>r\<in>layout_refs c. is_done st' r))"
    using Cons.IH [OF r] M Cons.prems(3) by simp
  with M show ?case by (auto simp: cs intro: table_extends_trans table_extends_done)
qed simp

lemma table_wf_initial: "n = length (pd_structs d) \<Longrightarrow> table_wf n (initial_struct_table d)"
  by (auto simp: table_wf_def initial_struct_table_def is_done_def intro: exI [of _ "[]"])

text \<open>\<open>validate_names\<close> returns indices of the definition.\<close>

lemma validate_enum_names_ok:
  assumes "validate_enum_names es names ids n = Inr (names', ids')" and "n + length es = length all"
    and "drop n all = es" and "\<forall>nm e. ids nm = Some e \<longrightarrow> is_valid_scalar_width (end_width_bytes (all ! e))"
  shows "\<forall>nm e. ids' nm = Some e \<longrightarrow> is_valid_scalar_width (end_width_bytes (all ! e))"
  using assms
proof (induction es names ids n rule: validate_enum_names.induct)
  case (2 e es names ids n)
  have "drop (n + 1) all = drop 1 (drop n all)" by simp
  then have e: "all ! n = e" "drop (n + 1) all = es"
    using "2.prems"(3) nth_via_drop [OF "2.prems"(3)] by simp_all
  from "2.prems"(1) have c: "end_name e \<noteq> ''''" "end_name e \<notin> names" "\<not> \<not> is_valid_scalar_width (end_width_bytes e)"
    and r: "validate_enum_names es (insert (end_name e) names) (emplace (end_name e) n ids) (n + 1) = Inr (names', ids')"
    by (simp_all split: if_splits)
  show ?case
    by (rule "2.IH" [OF c r]) (use "2.prems" c e in \<open>auto simp: emplace_def split: if_splits\<close>)
qed simp

lemma validate_struct_names_ok:
  assumes "validate_struct_names ss names ids n = Inr (names', ids')" and "\<forall>nm s. ids nm = Some s \<longrightarrow> s < n"
  shows "\<forall>nm s. ids' nm = Some s \<longrightarrow> s < n + length ss"
  using assms
proof (induction ss names ids n rule: validate_struct_names.induct)
  case (2 s ss names ids n)
  from "2.prems"(1) have c: "sd_name s \<noteq> ''''" "sd_name s \<notin> names"
    and r: "validate_struct_names ss (insert (sd_name s) names) (emplace (sd_name s) n ids) (n + 1) = Inr (names', ids')"
    by (simp_all split: if_splits)
  have "\<forall>nm k. emplace (sd_name s) n ids nm = Some k \<longrightarrow> k < n + 1"
    using "2.prems"(2) by (fastforce simp: emplace_def split: if_splits intro: less_SucI)
  from "2.IH" [OF c r this] show ?case by simp
qed simp

lemma validate_names_ok:
  assumes "validate_names d = Inr (enum_ids, struct_ids)"
  shows "\<forall>nm e. enum_ids nm = Some e \<longrightarrow> is_valid_scalar_width (end_width_bytes (pd_enums d ! e))"
    and "\<forall>nm s. struct_ids nm = Some s \<longrightarrow> s < length (pd_structs d)"
proof -
  from assms obtain n1 n2 u where "validate_enum_names (pd_enums d) {} Map.empty 0 = Inr (n1, enum_ids)"
    "validate_struct_names (pd_structs d) n1 Map.empty 0 = Inr (n2, struct_ids)"
    unfolding validate_names_def by (auto simp: bind_res_Inr_iff)
  from validate_enum_names_ok [OF this(1), of "pd_enums d"] validate_struct_names_ok [OF this(2)]
  show "\<forall>nm e. enum_ids nm = Some e \<longrightarrow> is_valid_scalar_width (end_width_bytes (pd_enums d ! e))"
    and "\<forall>nm s. struct_ids nm = Some s \<longrightarrow> s < length (pd_structs d)" by simp_all
qed

lemma nesting_from_order:
  assumes "\<forall>k<length ord. layout_refs (ss ! (ord ! k)) \<subseteq> set (take k ord)" and "\<forall>i\<in>set ord. i < length ss"
  shows "k < length ord \<Longrightarrow> nesting_within ss k (ss ! (ord ! k))"
proof (induction k rule: less_induct)
  case (less k)
  have "nesting_within ss (k - 1) (ss ! r)" "r < length ss" "0 < k" if r: "r \<in> layout_refs (ss ! (ord ! k))" for r
  proof -
    from r assms(1) less.prems have "r \<in> set (take k ord)" by blast
    then obtain j where "j < k" "j < length ord" "r = ord ! j" by (auto simp: in_set_conv_nth)
    with less.IH [of j] nesting_within_mono [of ss j _ "k - 1"] assms(2)
    show "nesting_within ss (k - 1) (ss ! r)" "r < length ss" "0 < k" by (auto simp: nth_mem)
  qed
  then show ?case by (cases k) auto
qed

lemma compile_protocol_parts:
  assumes "compile_protocol reg d = Inr p"
  obtains enum_ids struct_ids st ms st' where
    "validate_names d = Inr (enum_ids, struct_ids)"
    "compile_all_structs \<lparr>ce_definition = d, ce_enum_ids = enum_ids, ce_struct_ids = struct_ids, ce_registry = reg\<rparr>
       (length (pd_structs d)) [0..<length (pd_structs d)] (initial_struct_table d) = Inr st"
    "compile_messages \<lparr>ce_definition = d, ce_enum_ids = enum_ids, ce_struct_ids = struct_ids, ce_registry = reg\<rparr>
       (length (pd_structs d)) (pd_messages d) st = Inr (ms, st')"
    "p = make_compiled_protocol (pd_name d) (fingerprint d) (st_structs st') ms"
    "pd_messages d \<noteq> []"
proof -
  from assms obtain u ei si where v: "validate_protocol_definition d = Inr u" "validate_names d = Inr (ei, si)"
    and r: "bind_res (compile_all_structs \<lparr>ce_definition = d, ce_enum_ids = ei, ce_struct_ids = si, ce_registry = reg\<rparr>
       (length (pd_structs d)) [0..<length (pd_structs d)] (initial_struct_table d)) (\<lambda>st.
        bind_res (compile_messages \<lparr>ce_definition = d, ce_enum_ids = ei, ce_struct_ids = si, ce_registry = reg\<rparr>
       (length (pd_structs d)) (pd_messages d) st) (\<lambda>(compiled_messages, st).
        Inr (make_compiled_protocol (pd_name d) (fingerprint d) (st_structs st) compiled_messages))) = Inr p"
    unfolding compile_protocol_def Let_def by (auto simp: bind_res_Inr_iff)
  have "pd_messages d \<noteq> []" using v(1) by (auto simp: validate_protocol_definition_def split: if_splits)
  with v(2) r that show thesis by (auto simp: bind_res_Inr_iff)
qed

lemma compile_protocol_wf:
  assumes c: "compile_protocol reg d = Inr p" and "registry_ok reg" and "definition_sized d"
  shows "length (cp_structs p) = length (pd_structs d) \<and> map cm_name (cp_messages p) = map md_name (pd_messages d) \<and>
    (\<forall>m\<in>set (cp_messages p). layout_wf m \<and> nesting_within (cp_structs p) (length (cp_structs p)) m) \<and>
    (\<forall>s\<in>set (cp_structs p). layout_wf s \<and> nesting_within (cp_structs p) (length (cp_structs p)) s)"
  using c
proof (rule compile_protocol_parts)
  fix ei si st ms st'
  define env where "env = \<lparr>ce_definition = d, ce_enum_ids = ei, ce_struct_ids = si, ce_registry = reg\<rparr>"
  define n where "n = length (pd_structs d)"
  assume "validate_names d = Inr (ei, si)"
    and "compile_all_structs \<lparr>ce_definition = d, ce_enum_ids = ei, ce_struct_ids = si, ce_registry = reg\<rparr>
       (length (pd_structs d)) [0..<length (pd_structs d)] (initial_struct_table d) = Inr st"
    and "compile_messages \<lparr>ce_definition = d, ce_enum_ids = ei, ce_struct_ids = si, ce_registry = reg\<rparr>
       (length (pd_structs d)) (pd_messages d) st = Inr (ms, st')"
    and p: "p = make_compiled_protocol (pd_name d) (fingerprint d) (st_structs st') ms"
  then have good: "good_env env" and a: "compile_all_structs env n [0..<n] (initial_struct_table d) = Inr st"
    and b: "compile_messages env n (pd_messages d) st = Inr (ms, st')" and n: "n = length (pd_structs (ce_definition env))"
    using assms(2,3) validate_names_ok [of d ei si] by (simp_all add: good_env_def env_ok_def env_def n_def)
  have A: "table_wf n st \<and> table_extends (initial_struct_table d) st \<and> (\<forall>i\<in>set [0..<n]. is_done st i)"
    by (rule compile_all_structs_ok [OF good n a]) (simp_all add: table_wf_initial n_def)
  have B: "table_wf n st'" "table_extends st st'" "map cm_name ms = map md_name (pd_messages d)"
    "\<forall>c\<in>set ms. layout_wf c \<and> (\<forall>r\<in>layout_refs c. is_done st' r)"
    using compile_messages_ok [OF good n b] A assms(3) by (simp_all add: definition_sized_def)
  from B(1) obtain ord where ord: "length (st_structs st') = n" "length (st_states st') = n" "distinct ord"
    "set ord = {i. is_done st' i}" "\<forall>k<length ord. layout_wf (st_structs st' ! (ord ! k)) \<and>
       layout_refs (st_structs st' ! (ord ! k)) \<subseteq> set (take k ord)"
    unfolding table_wf_def by blast
  have done_all: "is_done st' i \<longleftrightarrow> i < n" for i
  proof
    assume "is_done st' i"
    then show "i < n" using ord(2) by (simp add: is_done_def)
  next
    assume "i < n"
    then have "is_done st i" using A by simp
    then show "is_done st' i" by (rule table_extends_done [OF B(2)])
  qed
  have "set ord = {..<n}" unfolding ord(4) done_all by auto
  then have len: "length ord = n" using distinct_card [OF ord(3)] by simp
  have nest: "nesting_within (st_structs st') k (st_structs st' ! (ord ! k))" if "k < n" for k
    by (rule nesting_from_order [of ord]) (use ord done_all len that in auto)
  have structs: "layout_wf (st_structs st' ! i) \<and> nesting_within (st_structs st') (n - 1) (st_structs st' ! i)" if "i < n" for i
  proof -
    have "i \<in> set ord" using that unfolding ord(4) by (simp only: mem_Collect_eq done_all)
    then obtain k where k: "k < n" "i = ord ! k" unfolding in_set_conv_nth len by blast
    have "nesting_within (st_structs st') (n - 1) (st_structs st' ! i)"
      unfolding k(2) by (rule nesting_within_mono [OF nest [OF k(1)]]) (use k(1) in simp)
    with ord(5) k len show ?thesis by simp
  qed
  have "nesting_within (st_structs st') n m" if "m \<in> set ms" for m
  proof -
    have refs: "r < n" if "r \<in> layout_refs m" for r using B(4) \<open>m \<in> set ms\<close> that done_all by blast
    show ?thesis
    proof (cases n)
      case 0
      with refs show ?thesis by auto
    next
      case (Suc k)
      with refs structs ord(1) show ?thesis by auto
    qed
  qed
  moreover have "layout_wf s \<and> nesting_within (st_structs st') n s" if "s \<in> set (st_structs st')" for s
    using that structs nesting_within_mono [of "st_structs st'" "n - 1" s n] ord(1) by (auto simp: in_set_conv_nth)
  moreover have "cp_structs p = st_structs st'" "cp_messages p = ms"
    by (simp_all add: p make_compiled_protocol_def case_prod_beta Let_def)
  ultimately show ?thesis using B(3,4) ord(1) by (simp add: n_def)
qed

subsection \<open>Termination: the fuel is never exhausted\<close>

definition visiting :: "struct_table \<Rightarrow> nat set" where
  "visiting st = {i. is_visiting st i}"

lemma table_extends_visiting: "table_extends a b \<Longrightarrow> visiting b = visiting a"
  by (simp add: table_extends_def visiting_def)

text \<open>A struct compiler that has fuel left whenever the structs of \<open>V\<close> are being visited.\<close>

locale fuelled_callback = struct_callback +
  fixes V :: "nat set"
  assumes no_fuel: "table_wf n st \<Longrightarrow> visiting st = V \<Longrightarrow> s < n \<Longrightarrow> compile_st s st \<noteq> Inl CE_OutOfFuel"
begin

lemma compile_struct_field_fuel:
  assumes "table_wf n st" and "visiting st = V"
  shows "compile_struct_field env compile_st f cf st \<noteq> Inl CE_OutOfFuel"
proof -
  have "s < n" if "ce_struct_ids env nm = Some s" for nm s using env that by (auto simp: env_ok_def)
  with no_fuel [OF assms] show ?thesis
    by (auto simp: compile_struct_field_def bind_res_Inl_iff Let_def split: if_split_asm option.split_asm)
qed

lemma compile_collection_field_fuel:
  assumes "table_wf n st" and "visiting st = V"
  shows "compile_collection_field env compile_st ls f cf st \<noteq> Inl CE_OutOfFuel"
proof -
  have "s < n" if "ce_struct_ids env nm = Some s" for nm s using env that by (auto simp: env_ok_def)
  with no_fuel [OF assms] show ?thesis
    by (auto simp: compile_collection_field_def bind_res_Inl_iff Let_def numeric_field_def
        split: if_split_asm option.split_asm)
qed

lemma compile_variant_cases_fuel:
  "table_wf n st \<Longrightarrow> visiting st = V \<Longrightarrow> compile_variant_cases env compile_st cs acc st \<noteq> Inl CE_OutOfFuel"
proof (induction cs arbitrary: acc st)
  case (Cons c cs)
  show ?case
  proof (cases "ce_struct_ids env (vcd_referenced_type c)")
    case (Some s)
    then have s: "s < n" using env by (auto simp: env_ok_def)
    show ?thesis
    proof (cases "compile_st s st")
      case (Inl e)
      with no_fuel [OF Cons.prems s] show ?thesis by (simp add: Some)
    next
      case (Inr r)
      obtain i st1 where r: "r = (i, st1)" by (cases r)
      with callback [OF Cons.prems(1) s] Inr have "table_wf n st1" "visiting st1 = V"
        using Cons.prems(2) by (auto dest: table_extends_visiting)
      with Cons.IH show ?thesis by (simp add: Some Inr r Let_def)
    qed
  qed simp
qed simp

lemma compile_field_kind_fuel:
  assumes "table_wf n st" and "visiting st = V"
  shows "compile_field_kind env compile_st ls f cf st \<noteq> Inl CE_OutOfFuel"
proof -
  have b: "compile_bytes_field ls f cf \<noteq> Inl CE_OutOfFuel"
    by (auto simp: compile_bytes_field_def bind_res_Inl_iff numeric_field_def Let_def split: if_split_asm option.split_asm)
  have l: "build_variant_lookup c \<noteq> Inl CE_OutOfFuel" for c
    by (auto simp: build_variant_lookup_def Let_def split: option.split)
  have v: "compile_variant_field env compile_st ls f cf st \<noteq> Inl CE_OutOfFuel"
    using compile_variant_cases_fuel [OF assms] l
    by (auto simp: compile_variant_field_def bind_res_Inl_iff numeric_field_def Let_def split: if_split_asm option.split_asm)
  have s: "compile_scalar_field f cf \<noteq> Inl CE_OutOfFuel" by (simp add: compile_scalar_field_def)
  show ?thesis
    using b v s compile_struct_field_fuel [OF assms] compile_collection_field_fuel [OF assms]
    by (cases "cf_kind cf") (auto simp: compile_field_kind_def bind_res_Inl_iff)
qed

end

lemma compile_bit_fields_fuel: "compile_bit_fields c k bs names cbfs \<noteq> Inl CE_OutOfFuel"
  by (induction c k bs names cbfs rule: compile_bit_fields.induct) simp_all

lemma place_field_fuel: "place_field env f cf fixed ls \<noteq> Inl CE_OutOfFuel"
  using compile_bit_fields_fuel
  by (auto simp: place_field_def bind_res_Inl_iff compile_field_checksum_def Let_def
      split: if_split_asm option.split_asm sum.split_asm)

lemma compile_modifiers_fuel:
  "compile_condition ls f x \<noteq> Inl CE_OutOfFuel" "compile_presence ls f x \<noteq> Inl CE_OutOfFuel"
  by (cases x; auto simp: compile_condition_def compile_presence_def bind_res_Inl_iff numeric_field_def Let_def
      split: if_split_asm option.split_asm)+

lemma compile_validations_fuel: "compile_validations ls rs \<noteq> Inl CE_OutOfFuel"
  by (induction rs)
    (auto simp: bind_res_Inl_iff compile_validation_def numeric_field_def Let_def split: if_split_asm option.split_asm)

lemma resolve_checksum_anchor_fuel: "resolve_checksum_anchor a self ids \<noteq> Inl CE_OutOfFuel"
  by (auto simp: resolve_checksum_anchor_def anchor_field_def split: option.split)

lemma compile_checksums_fuel: "compile_checksums ids ps \<noteq> Inl CE_OutOfFuel"
  by (induction ps) (auto simp: bind_res_Inl_iff compile_checksum_def resolve_checksum_anchor_fuel)

context fuelled_callback
begin

lemma compile_field_fuel:
  "table_wf n st \<Longrightarrow> visiting st = V \<Longrightarrow> compile_field env compile_st k f (ls, st) \<noteq> Inl CE_OutOfFuel"
  using compile_field_kind_fuel [of st] place_field_fuel compile_modifiers_fuel
  by (auto simp: compile_field_def bind_res_Inl_iff Let_def split: if_split_asm)

lemma compile_fields_fuel:
  "table_wf n st \<Longrightarrow> visiting st = V \<Longrightarrow> loop_ok ls st \<Longrightarrow> fields_sized fs \<Longrightarrow>
   compile_fields env compile_st (length (ls_fields ls)) fs (ls, st) \<noteq> Inl CE_OutOfFuel"
proof (induction fs arbitrary: ls st)
  case (Cons f fs)
  show ?case
  proof (cases "compile_field env compile_st (length (ls_fields ls)) f (ls, st)")
    case (Inl e)
    with compile_field_fuel [OF Cons.prems(1,2), of "length (ls_fields ls)" f ls] show ?thesis by simp
  next
    case (Inr r)
    obtain ls1 st1 where r: "r = (ls1, st1)" by (cases r)
    have "length (fd_variant_cases f) < 2 ^ 32 - 1" using Cons.prems(4) by (simp add: fields_sized_def)
    with compile_field_ok [OF _ Cons.prems(1,3)] Inr r have F: "table_wf n st1" "table_extends st st1"
      "loop_ok ls1 st1" "length (ls_fields ls1) = Suc (length (ls_fields ls))" by simp_all
    have "compile_fields env compile_st (length (ls_fields ls1)) fs (ls1, st1) \<noteq> Inl CE_OutOfFuel"
      by (rule Cons.IH [OF F(1) _ F(3)])
        (use Cons.prems table_extends_visiting [OF F(2)] in \<open>simp_all add: fields_sized_def\<close>)
    then show ?thesis by (simp add: Inr r F(4))
  qed
qed simp

lemma compile_layout_fuel:
  assumes "table_wf n st" and "visiting st = V" and "fields_sized fs"
  shows "compile_layout env compile_st nm fs vs tr st \<noteq> Inl CE_OutOfFuel"
  using compile_fields_fuel [OF assms(1,2) loop_ok_initial assms(3)] compile_validations_fuel compile_checksums_fuel
  by (auto simp: compile_layout_def bind_res_Inl_iff initial_layout_state_def split: if_split_asm)

end

lemma compile_struct_fuel:
  assumes good: "good_env env" and n: "n = length (pd_structs (ce_definition env))"
  shows "table_wf n st \<Longrightarrow> n \<le> fuel + card (visiting st) \<Longrightarrow> s < n \<Longrightarrow> compile_struct env fuel s st \<noteq> Inl CE_OutOfFuel"
proof (induction fuel arbitrary: st s)
  case 0
  have len: "length (st_states st) = n" using "0.prems"(1) by (simp add: table_wf_def)
  have sub: "visiting st \<subseteq> {..<n}" using len by (auto simp: visiting_def is_visiting_def)
  then have "visiting st = {..<n}"
    using "0.prems"(2) by (intro card_subset_eq) (auto dest: card_mono [rotated])
  then have "is_visiting st s" using "0.prems"(3) by (auto simp: visiting_def)
  then show ?case by (simp add: compile_struct.simps is_visiting_def)
next
  case (Suc fuel)
  have len: "length (st_states st) = n" using Suc.prems(1) by (simp add: table_wf_def)
  show ?case
  proof (cases "st_states st ! s = KDone \<or> st_states st ! s = KVisiting")
    case True
    then show ?thesis by (auto simp: compile_struct.simps)
  next
    case False
    let ?st = "st\<lparr>st_states := (st_states st)[s := KVisiting]\<rparr>"
    let ?d = "pd_structs (ce_definition env) ! s"
    have nd: "\<not> is_done st s" "s \<notin> visiting st" using False by (simp_all add: is_done_def visiting_def is_visiting_def)
    have fin: "finite (visiting st)" by (rule finite_subset [of _ "{..<n}"]) (auto simp: visiting_def is_visiting_def len)
    have vis: "visiting ?st = insert s (visiting st)"
      using is_visiting_mark [OF len Suc.prems(3)] by (auto simp: visiting_def)
    have cb: "struct_callback n env (compile_struct env fuel)"
      using good by (intro compile_struct_callback) (simp_all add: good_env_def n)
    have fc: "fuelled_callback n env (compile_struct env fuel) (visiting ?st)"
    proof (intro fuelled_callback.intro [OF cb] fuelled_callback_axioms.intro)
      fix st' s' assume "table_wf n st'" "visiting st' = visiting ?st" "s' < n"
      then show "compile_struct env fuel s' st' \<noteq> Inl CE_OutOfFuel"
        using Suc.IH [of st' s'] Suc.prems(2) fin nd(2) by (simp add: vis)
    qed
    have "?d \<in> set (pd_structs (ce_definition env))" using Suc.prems(3) n by simp
    then have sized: "fields_sized (sd_fields ?d)" using good by (simp add: good_env_def definition_sized_def)
    have "compile_layout env (compile_struct env fuel) (sd_name ?d) (sd_fields ?d) (sd_validations ?d) False ?st \<noteq> Inl CE_OutOfFuel"
      by (rule fuelled_callback.compile_layout_fuel [OF fc table_wf_mark [OF Suc.prems(1,3) nd(1)] refl sized])
    with False show ?thesis by (auto simp: compile_struct.simps bind_res_Inl_iff Let_def)
  qed
qed

text \<open>The contract with fuel, met by every struct compiler of an outermost call.\<close>

lemma fuelled_compile_struct:
  assumes "good_env env" and "n = length (pd_structs (ce_definition env))"
  shows "fuelled_callback n env (compile_struct env n) {}"
proof -
  have cb: "struct_callback n env (compile_struct env n)"
    using assms by (intro compile_struct_callback) (simp_all add: good_env_def)
  show ?thesis
    by (intro fuelled_callback.intro [OF cb] fuelled_callback_axioms.intro)
      (use compile_struct_fuel [OF assms] in simp)
qed

interpretation fsc: fuelled_callback "length (pd_structs (ce_definition (checked_env env)))" "checked_env env"
  "compile_struct (checked_env env) (length (pd_structs (ce_definition (checked_env env))))" "{}" for env
  by (rule fuelled_compile_struct [OF good_env_checked refl])

lemma compile_all_structs_fuel:
  assumes "good_env env" and n: "n = length (pd_structs (ce_definition env))"
  shows "table_wf n st \<Longrightarrow> visiting st = {} \<Longrightarrow> \<forall>i\<in>set ids. i < n \<Longrightarrow>
     compile_all_structs env n ids st \<noteq> Inl CE_OutOfFuel"
proof (induction ids arbitrary: st)
  case (Cons i ids)
  then have i: "i < n" by simp
  show ?case
  proof (cases "compile_struct env n i st")
    case (Inl e)
    with compile_struct_fuel [OF assms Cons.prems(1) _ i, of n] show ?thesis by simp
  next
    case (Inr r)
    obtain j st1 where r: "r = (j, st1)" by (cases r)
    with compile_struct_ok [OF assms Cons.prems(1) i] Inr have "table_wf n st1" "table_extends st st1" by simp_all
    with Cons r Inr show ?thesis by (auto dest: table_extends_visiting)
  qed
qed simp

lemma compile_messages_fuel:
  assumes "good_env env" and n: "n = length (pd_structs (ce_definition env))"
  shows "table_wf n st \<Longrightarrow> visiting st = {} \<Longrightarrow> \<forall>m\<in>set ms. fields_sized (md_fields m) \<Longrightarrow>
     compile_messages env n ms st \<noteq> Inl CE_OutOfFuel"
proof (induction ms arbitrary: st)
  case (Cons m ms)
  then have sized: "fields_sized (md_fields m)" by simp
  have ck: "checked_env env = env" using assms(1) by (simp add: checked_env_def)
  show ?case
  proof (cases "compile_layout env (compile_struct env n) (md_name m) (md_fields m) (md_validations m)
      (md_allow_trailing_bytes m) st")
    case (Inl e)
    with fsc.compile_layout_fuel [of env st "md_fields m"] Cons.prems(1,2) sized show ?thesis
      by (auto simp: ck simp flip: n)
  next
    case (Inr r)
    obtain c st1 where r: "r = (c, st1)" by (cases r)
    with checked_layout_ok [OF assms _ Cons.prems(1) sized] Inr have "table_wf n st1" "table_extends st st1"
      by simp_all
    with Cons r Inr show ?thesis by (auto simp: bind_res_Inl_iff dest: table_extends_visiting)
  qed
qed simp

lemma validate_fuel:
  "validate_protocol_definition d \<noteq> Inl CE_OutOfFuel" "validate_names d \<noteq> Inl CE_OutOfFuel"
proof -
  have "validate_enum_names es nms ids k \<noteq> Inl CE_OutOfFuel" for es nms ids k
    by (induction es nms ids k rule: validate_enum_names.induct) simp_all
  moreover have "validate_struct_names ss nms ids k \<noteq> Inl CE_OutOfFuel" for ss nms ids k
    by (induction ss nms ids k rule: validate_struct_names.induct) simp_all
  moreover have "validate_message_names ms nms \<noteq> Inl CE_OutOfFuel" for ms nms
    by (induction ms nms rule: validate_message_names.induct) simp_all
  ultimately show "validate_protocol_definition d \<noteq> Inl CE_OutOfFuel" "validate_names d \<noteq> Inl CE_OutOfFuel"
    by (auto simp: validate_protocol_definition_def validate_names_def bind_res_Inl_iff)
qed

lemma compile_protocol_fuel:
  assumes "registry_ok reg" and "definition_sized d"
  shows "compile_protocol reg d \<noteq> Inl CE_OutOfFuel"
proof
  assume fail: "compile_protocol reg d = Inl CE_OutOfFuel"
  then have u: "\<exists>u. validate_protocol_definition d = Inr u" and v: "\<exists>v. validate_names d = Inr v"
    unfolding compile_protocol_def bind_res_Inl_iff using validate_fuel by metis+
  from u obtain u where u: "validate_protocol_definition d = Inr u" ..
  from v obtain ei si where names: "validate_names d = Inr (ei, si)" by auto
  note r = fail [unfolded compile_protocol_def u names bind_res_simps prod.case Let_def]
  define env where "env = \<lparr>ce_definition = d, ce_enum_ids = ei, ce_struct_ids = si, ce_registry = reg\<rparr>"
  define n where "n = length (pd_structs d)"
  have good: "good_env env" and n: "n = length (pd_structs (ce_definition env))"
    using assms validate_names_ok [OF names] by (simp_all add: good_env_def env_ok_def env_def n_def)
  have init: "table_wf n (initial_struct_table d)" "visiting (initial_struct_table d) = {}"
    by (simp_all add: table_wf_initial n_def) (auto simp: visiting_def is_visiting_def initial_struct_table_def)
  note r = r [folded env_def n_def]
  show False
  proof (cases "compile_all_structs env n [0..<n] (initial_struct_table d)")
    case (Inl e)
    with r compile_all_structs_fuel [OF good n init, of "[0..<n]"] show False by simp
  next
    case (Inr st)
    have "table_wf n st \<and> table_extends (initial_struct_table d) st"
      using compile_all_structs_ok [OF good n Inr init(1)] by simp
    then have "compile_messages env n (pd_messages d) st \<noteq> Inl CE_OutOfFuel"
      using compile_messages_fuel [OF good n] init(2) assms(2)
      by (auto dest: table_extends_visiting simp: definition_sized_def)
    with r Inr show False by (auto simp: bind_res_Inl_iff)
  qed
qed

end
