(* ===== verification/Compiler_Properties.thy ===== *)
theory Compiler_Properties
  imports Compiler_Invariants
begin

text \<open>
  The properties of the schema compiler, each with an instance on a small protocol that uses
  an expected magic byte, a length-prefixed payload, an alignment, a nested struct, a
  collection, a conditional field and a checksum.
\<close>

subsection \<open>A protocol\<close>

definition demo_field :: "string \<Rightarrow> nat \<Rightarrow> field_definition" where
  "demo_field name width = default_field_definition\<lparr>fd_name := name, fd_width_bytes := width\<rparr>"

definition demo_point :: struct_definition where
  "demo_point = \<lparr>sd_name = ''point'', sd_fields = [demo_field ''x'' 2, (demo_field ''y'' 2)\<lparr>fd_byte_order := BigEndian\<rparr>],
     sd_validations = []\<rparr>"

definition demo_message :: message_definition where
  "demo_message =
     \<lparr>md_name = ''packet'',
      md_fields =
       [(demo_field ''magic'' 1)\<lparr>fd_has_expected_unsigned := True, fd_expected_unsigned := 0x7E\<rparr>,
        demo_field ''count'' 1,
        (demo_field ''body'' 0)\<lparr>fd_kind := KBytes, fd_size_from_field := ''count''\<rparr>,
        (demo_field ''origin'' 0)\<lparr>fd_kind := KStruct, fd_referenced_type := ''point'', fd_alignment := 2\<rparr>,
        (demo_field ''path'' 0)\<lparr>fd_kind := KCollection, fd_referenced_type := ''point'', fd_count_from_field := ''count''\<rparr>,
        (demo_field ''extra'' 1)\<lparr>fd_condition := Some \<lparr>cnd_field = ''count'', cnd_equals_unsigned = 1\<rparr>\<rparr>,
        (demo_field ''check'' 1)\<lparr>fd_checksum := Some \<lparr>ckd_algorithm = ''XOR8'', ckd_from = ''frame_start'',
           ckd_to = ''before_self''\<rparr>\<rparr>],
      md_validations = [], md_allow_trailing_bytes = False\<rparr>"

definition demo_protocol :: protocol_definition where
  "demo_protocol = \<lparr>pd_name = ''demo'', pd_imports = [], pd_enums = [], pd_structs = [demo_point],
     pd_messages = [demo_message]\<rparr>"

lemmas compile_eval =
  compile_protocol_def validate_protocol_definition_def validate_names_def emplace_def initial_struct_table_def
  compile_struct.simps compile_layout_def initial_layout_state_def compile_field_def initial_compiled_field_def
  default_compiled_field_def compile_field_kind_def compile_scalar_field_def compile_bytes_field_def
  compile_struct_field_def compile_collection_field_def compile_condition_def compile_presence_def
  place_field_def account_field_def compile_field_checksum_def numeric_field_def is_conditionally_present_def
  is_scalar_def is_valid_scalar_width_def append_expected_scalar_bytes_def minimum_size_contribution_def
  find_checksum_algorithm_def builtin_registry_def normalize_name_def tolower_def checked_mul_size_def
  compile_checksum_def resolve_checksum_anchor_def align_up_def kMaxFieldsPerMessage_def SIZE_MAX_def
  default_field_definition_def Let_def

lemma demo_compiles: "\<exists>p. compile_protocol builtin_registry demo_protocol = Inr p"
  by (simp add: compile_eval demo_protocol_def demo_message_def demo_point_def demo_field_def char_of_def bit_0)

lemma demo_sized: "definition_sized demo_protocol"
  by (simp add: definition_sized_def fields_sized_def demo_protocol_def demo_message_def demo_point_def demo_field_def
      default_field_definition_def)

subsection \<open>Well-formedness\<close>

text \<open>C3: The compiler produces well-formed layouts. For any registry that keeps its own
  invariant, every message and struct of a compiled protocol has between 1 and 64 fields with
  distinct names and ids equal to their positions; sizes, counts, tags, conditions and presence
  bits refer to earlier unsigned or enum fields; alignments are powers of two; bit fields lie
  inside their containers with the mask of their width; checksums have a function of the width
  of their field; and the nesting of structs is at most the number of structs deep, so it has
  no cycle.\<close>

theorem compile_protocol_well_formed:
  assumes "compile_protocol reg d = Inr p" and "registry_ok reg" and "definition_sized d"
  shows "length (cp_structs p) = length (pd_structs d) \<and>
    map cm_name (cp_messages p) = map md_name (pd_messages d) \<and>
    list_all (\<lambda>m. layout_wf m \<and> nesting_within (cp_structs p) (length (cp_structs p)) m)
      (cp_messages p @ cp_structs p)"
  using compile_protocol_wf [OF assms] by (auto simp: list_all_iff)

theorem compile_protocol_well_formed_witness:
  "\<exists>p. compile_protocol builtin_registry demo_protocol = Inr p \<and> length (cp_structs p) = 1 \<and>
    list_all (\<lambda>m. layout_wf m \<and> nesting_within (cp_structs p) (length (cp_structs p)) m) (cp_messages p @ cp_structs p)"
  using demo_compiles compile_protocol_well_formed [OF _ builtin_registry_ok demo_sized]
  by (fastforce simp: demo_protocol_def)

text \<open>C11: The compiler terminates. The recursion through nested structs never exhausts the
  number of structs as fuel, also when the definition is recursive or wrong. (A struct that is in
  progress is reported as a cycle; that no cycle is in what is returned is part of well-formedness.)\<close>

theorem compile_protocol_terminates:
  assumes "registry_ok reg" and "definition_sized d"
  shows "compile_protocol reg d \<noteq> Inl CE_OutOfFuel"
  by (rule compile_protocol_fuel [OF assms])

definition demo_cycle :: protocol_definition where
  "demo_cycle = demo_protocol\<lparr>pd_structs :=
     [\<lparr>sd_name = ''point'', sd_fields = [(demo_field ''next'' 0)\<lparr>fd_kind := KStruct, fd_referenced_type := ''point''\<rparr>],
       sd_validations = []\<rparr>]\<rparr>"

theorem compile_protocol_terminates_witness:
  "compile_protocol builtin_registry demo_cycle \<noteq> Inl CE_OutOfFuel \<and>
   compile_protocol builtin_registry demo_cycle = Inl (CE_Layout IR_RecursiveStruct)"
proof -
  have "definition_sized demo_cycle"
    by (simp add: definition_sized_def fields_sized_def demo_cycle_def demo_protocol_def demo_message_def
        demo_field_def default_field_definition_def)
  from compile_protocol_terminates [OF builtin_registry_ok this] show ?thesis
    by (simp add: compile_eval demo_cycle_def demo_protocol_def demo_message_def demo_point_def demo_field_def char_of_def bit_0)
qed

subsection \<open>The dense lookup table of a variant\<close>

lemma sorted_hd_last:
  "sorted xs \<Longrightarrow> xs \<noteq> [] \<Longrightarrow> x \<in> set xs \<Longrightarrow> hd xs \<le> x \<and> x \<le> last xs" for xs :: "u64 list"
  by (induction xs) auto

lemma unat_diff_mono: "a \<le> b \<Longrightarrow> b \<le> c \<Longrightarrow> unat (b - a) \<le> unat (c - a)" for a b c :: u64
  by (simp add: unat_sub word_le_nat_alt)

lemma span_zero_iff: "(hi - lo + 1 = 0) = (hi - lo = -1)" for hi lo :: u64
  by (metis add.right_neutral add_diff_cancel_right' diff_0 diff_add_cancel)

lemma unat_minus_one: "unat (-1 :: u64) = 2 ^ 64 - 1"
  by (simp add: unsigned_minus_1_eq_mask mask_eq_exp_minus_1)

lemma minus_one_le: "(-1 :: u64) \<le> w \<Longrightarrow> w = -1"
  using unat_u64_less [of w] by (simp add: word_le_nat_alt unat_minus_one word_unat_eq_iff)

lemma build_variant_lookup_oob:
  assumes ne: "cf_variant_cases cf \<noteq> []" and s: "sorted (map cvc_tag_value (cf_variant_cases cf))"
  shows "build_variant_lookup cf = Inl CE_OutOfBoundsStore \<longleftrightarrow>
    0 \<in> cvc_tag_value ` set (cf_variant_cases cf) \<and> (-1) \<in> cvc_tag_value ` set (cf_variant_cases cf)"
proof -
  let ?tags = "map cvc_tag_value (cf_variant_cases cf)"
  define lo where "lo = cvc_tag_value (hd (cf_variant_cases cf))"
  define hi where "hi = cvc_tag_value (last (cf_variant_cases cf))"
  define span where "span = hi - lo + 1"
  define filled where "filled = fill_variant_lookup lo (enumerate 0 (cf_variant_cases cf))
      (replicate (unat span) kVariantLookupMissing)"
  have e: "build_variant_lookup cf =
      (if cf_variant_cases cf \<noteq> [] then
         if span \<le> kMaxDenseVariantLookupSpan then
           (case filled of None \<Rightarrow> Inl CE_OutOfBoundsStore
            | Some indices \<Rightarrow> Inr (cf\<lparr>cf_variant_lookup_base := lo, cf_variant_lookup_indices := indices\<rparr>))
         else Inr cf
       else Inr cf)"
    by (simp only: build_variant_lookup_def Let_def lo_def hi_def span_def filled_def)
  have hl: "hd ?tags = lo" "last ?tags = hi" using ne by (simp_all add: lo_def hi_def hd_map last_map)
  have ne': "?tags \<noteq> []" using ne by simp
  have mem: "lo \<in> set ?tags" "hi \<in> set ?tags"
    using hl hd_in_set [OF ne'] last_in_set [OF ne'] by metis+
  have bounds: "lo \<le> t \<and> t \<le> hi" if "t \<in> set ?tags" for t
    using sorted_hd_last [OF s ne' that] unfolding hl .
  have zero: "span = 0 \<longleftrightarrow> 0 \<in> set ?tags \<and> (-1) \<in> set ?tags"
  proof
    assume "span = 0"
    then have d: "hi - lo = -1" by (simp only: span_def span_zero_iff)
    have "unat (hi - lo) = unat hi - unat lo" using bounds [OF mem(1)] by (simp add: unat_sub)
    then have "unat hi - unat lo = 2 ^ 64 - 1" by (simp only: d unat_minus_one)
    moreover have "unat hi < 18446744073709551616" using unat_u64_less [of hi] by simp
    ultimately have "unat lo = 0" "unat hi = 2 ^ 64 - 1" by simp_all
    then have "lo = 0" "hi = -1" by (simp_all add: word_unat_eq_iff unat_minus_one)
    with mem show "0 \<in> set ?tags \<and> (-1) \<in> set ?tags" by metis
  next
    assume "0 \<in> set ?tags \<and> (-1) \<in> set ?tags"
    with bounds have "lo \<le> 0" "-1 \<le> hi" by blast+
    then have "lo = 0" "hi = -1" by (simp_all add: minus_one_le)
    then show "span = 0" by (simp add: span_def)
  qed
  have "filled = None \<longleftrightarrow> span = 0"
  proof (cases "span = 0")
    case True
    have "filled \<noteq> Some ys" if c: "c \<in> set (enumerate 0 (cf_variant_cases cf))" for c ys
    proof
      assume "filled = Some ys"
      from fill_variant_lookup_in_range [OF this [unfolded filled_def] c] show False by (simp add: True)
    qed
    moreover have "(0, hd (cf_variant_cases cf)) \<in> set (enumerate 0 (cf_variant_cases cf))"
      using ne by (simp add: set_enumerate_0 hd_conv_nth)
    ultimately show ?thesis using True by (cases filled) auto
  next
    case False
    then have "hi - lo \<noteq> -1" by (simp only: span_def span_zero_iff not_False_eq_True)
    then have "unat (hi - lo) \<noteq> 18446744073709551615" by (simp add: word_unat_eq_iff unat_minus_one)
    moreover have "unat (hi - lo) < 18446744073709551616" using unat_u64_less [of "hi - lo"] by simp
    ultimately have "Suc (unat (hi - lo)) < 18446744073709551616" by linarith
    then have sp: "unat span = unat (hi - lo) + 1"
      unfolding span_def by (simp add: unat_word_ariths(1))
    have "unat (cvc_tag_value (snd c) - lo) < length (replicate (unat span) kVariantLookupMissing)"
      if "c \<in> set (enumerate 0 (cf_variant_cases cf))" for c
    proof -
      have "cvc_tag_value (snd c) \<in> set ?tags" using that by (auto simp: set_enumerate_0)
      from bounds [OF this] have "unat (cvc_tag_value (snd c) - lo) \<le> unat (hi - lo)"
        by (intro unat_diff_mono) simp_all
      then show ?thesis by (simp add: sp)
    qed
    with fill_variant_lookup_total [of "enumerate 0 (cf_variant_cases cf)" lo] False show ?thesis
      unfolding filled_def by (metis option.distinct(1))
  qed
  moreover have "span = 0 \<Longrightarrow> span \<le> kMaxDenseVariantLookupSpan" by simp
  ultimately have "build_variant_lookup cf = Inl CE_OutOfBoundsStore \<longleftrightarrow> span = 0"
    using ne unfolding e by (cases filled) (simp_all only: simp_thms if_True option.case if_split sum.distinct sum.inject, auto)
  with zero show ?thesis by simp
qed

text \<open>Stores of the dense variant table. When the sorted tags of a variant span at most 256
  values a dense table is built; all its stores are inside the table unless both the tag 0 and
  the tag 2^64 - 1 occur. In that case the computed span wraps to zero, the table is empty, and
  the first store is out of bounds.\<close>

theorem variant_table_store_bounds:
  assumes "cf_variant_cases cf \<noteq> []" and "sorted (map cvc_tag_value (cf_variant_cases cf))"
  shows "build_variant_lookup cf = Inl CE_OutOfBoundsStore \<longleftrightarrow>
    {0, -1} \<subseteq> cvc_tag_value ` set (cf_variant_cases cf)"
  using build_variant_lookup_oob [OF assms] by simp

theorem variant_table_store_bounds_witness:
  "build_variant_lookup (default_compiled_field\<lparr>cf_variant_cases :=
     [\<lparr>cvc_tag_value = 0, cvc_struct_id = 0\<rparr>, \<lparr>cvc_tag_value = -1, cvc_struct_id = 1\<rparr>]\<rparr>) = Inl CE_OutOfBoundsStore
   \<and> build_variant_lookup (default_compiled_field\<lparr>cf_variant_cases :=
     [\<lparr>cvc_tag_value = 1, cvc_struct_id = 0\<rparr>, \<lparr>cvc_tag_value = 3, cvc_struct_id = 1\<rparr>]\<rparr>) \<noteq> Inl CE_OutOfBoundsStore"
  using variant_table_store_bounds [of "default_compiled_field\<lparr>cf_variant_cases :=
     [\<lparr>cvc_tag_value = 0, cvc_struct_id = 0\<rparr>, \<lparr>cvc_tag_value = -1, cvc_struct_id = 1\<rparr>]\<rparr>"]
    variant_table_store_bounds [of "default_compiled_field\<lparr>cf_variant_cases :=
     [\<lparr>cvc_tag_value = 1, cvc_struct_id = 0\<rparr>, \<lparr>cvc_tag_value = 3, cvc_struct_id = 1\<rparr>]\<rparr>"]
  by simp

subsection \<open>The fingerprint\<close>

definition collision_protocol :: "string \<Rightarrow> string \<Rightarrow> protocol_definition" where
  "collision_protocol size_from type_name =
     \<lparr>pd_name = ''demo'', pd_imports = [], pd_enums = [], pd_structs = [],
      pd_messages =
       [\<lparr>md_name = ''m'',
         md_fields = [demo_field ''a'' 1, demo_field ''ab'' 1,
           (demo_field ''body'' 0)\<lparr>fd_kind := KBytes, fd_size_from_field := size_from,
              fd_referenced_type := type_name\<rparr>],
         md_validations = [], md_allow_trailing_bytes = False\<rparr>]\<rparr>"

lemma collision_bytes:
  "a @ b = a' @ b' \<Longrightarrow> protocol_bytes (collision_protocol a b) = protocol_bytes (collision_protocol a' b')"
  by (simp add: protocol_bytes_def collision_protocol_def message_bytes_def field_bytes_def)

lemma collision_compiles:
  "\<exists>p. compile_protocol builtin_registry (collision_protocol ''ab'' '''') = Inr p \<and>
     cf_size_from_field (cm_fields (hd (cp_messages p)) ! 2) = 1"
  "\<exists>q. compile_protocol builtin_registry (collision_protocol ''a'' ''b'') = Inr q \<and>
     cf_size_from_field (cm_fields (hd (cp_messages q)) ! 2) = 0"
  by (simp_all add: compile_eval collision_protocol_def demo_field_def make_compiled_protocol_def case_prod_beta)

text \<open>Fingerprint collisions. Adjacent strings are hashed without a delimiter, and the type
  name of a bytes field is not checked: two protocols that both compile, one reading its payload
  length from the field \<open>ab\<close> and the other from the field \<open>a\<close>, have the same fingerprint.\<close>

theorem fingerprint_collision:
  "\<exists>p q. compile_protocol builtin_registry (collision_protocol ''ab'' '''') = Inr p \<and>
     compile_protocol builtin_registry (collision_protocol ''a'' ''b'') = Inr q \<and>
     fingerprint (collision_protocol ''ab'' '''') = fingerprint (collision_protocol ''a'' ''b'') \<and>
     cf_size_from_field (cm_fields (hd (cp_messages p)) ! 2) \<noteq> cf_size_from_field (cm_fields (hd (cp_messages q)) ! 2)"
proof -
  have "fingerprint (collision_protocol ''ab'' '''') = fingerprint (collision_protocol ''a'' ''b'')"
    unfolding fingerprint_eq_hash using collision_bytes [of "''ab''" "''''" "''a''" "''b''"] by simp
  then show ?thesis using collision_compiles by (metis zero_neq_one)
qed

end
