(* ===== verification/Decoder.thy ===== *)
theory Decoder
  imports Compiler_Properties
begin

text \<open>
  The decoder of \<open>decoder/decoded_message.cpp\<close> and \<open>decoder/protocol_decoder.cpp\<close>:
  \<open>assign_from_layout\<close> with its recursion through structs, collections and variants, the
  accessors of a decoded message, and the message selection of \<open>ProtocolDecoder\<close>.

  A \<open>DecodeStatus\<close> other than \<open>kOk\<close> is the left of a sum. The arrays of 64 entries are
  functions on field ids; the value and the valid flag of the scalar cache are one option.
  A nested decode is a call of a parameter, which \<open>nested_size\<close> closes with fuel; the fuel is
  the number of structs of the protocol, which bounds the nesting of a compiled protocol. The
  vector routines behind the string and checksum dispatch are the parameter \<open>ops\<close>.
\<close>

subsection \<open>Status and state\<close>

datatype decode_status =
    DS_Ok | DS_MessageNotFound | DS_SchemaMismatch | DS_InvalidData | DS_ChecksumMismatch
  | DS_FieldLimitExceeded | DS_OutOfFuel

record simd_ops =
  so_ascii :: "bytes \<Rightarrow> bool"
  so_utf8 :: "bytes \<Rightarrow> bool"
  so_vxor :: "bytes \<Rightarrow> bytes \<Rightarrow> bytes"
  so_lane_sum :: "bytes \<Rightarrow> u64"
  so_lanes :: nat
  so_crc32c :: "bytes \<Rightarrow> u32"

record decoded_message =
  dm_protocol :: "compiled_protocol option"
  dm_message :: "compiled_message option"
  dm_frame :: bytes
  dm_resolved :: "field_id \<Rightarrow> nat \<times> nat"
  dm_present :: "field_id \<Rightarrow> bool"
  dm_cache :: "field_id \<Rightarrow> u64 option"
  dm_selected :: "field_id \<Rightarrow> bool"
  dm_selection_active :: bool
  dm_field_count :: nat

definition empty_decoded_message :: decoded_message where
  "empty_decoded_message =
     \<lparr>dm_protocol = None, dm_message = None, dm_frame = [], dm_resolved = (\<lambda>_. (0, 0)),
      dm_present = (\<lambda>_. False), dm_cache = (\<lambda>_. None), dm_selected = (\<lambda>_. False),
      dm_selection_active = False, dm_field_count = 0\<rparr>"

subsection \<open>Helpers\<close>

definition supports_eager_scalar_cache :: "compiled_field \<Rightarrow> bool" where
  "supports_eager_scalar_cache f =
     (if \<not> is_scalar f then False
      else (case cf_kind f of
              KUnsigned \<Rightarrow> cf_width_bytes f > 0 \<and> cf_width_bytes f \<le> kMaxScalarWidthBytes
            | KSigned \<Rightarrow> cf_width_bytes f > 0 \<and> cf_width_bytes f \<le> kMaxScalarWidthBytes
            | KEnum \<Rightarrow> cf_width_bytes f > 0 \<and> cf_width_bytes f \<le> kMaxScalarWidthBytes
            | KFloat32 \<Rightarrow> cf_width_bytes f = 4
            | KFloat64 \<Rightarrow> cf_width_bytes f = 8
            | _ \<Rightarrow> False))"

fun validation_operator_matches :: "validation_operator \<Rightarrow> u64 \<Rightarrow> u64 \<Rightarrow> bool" where
  "validation_operator_matches OpEq lhs rhs = (lhs = rhs)"
| "validation_operator_matches OpNe lhs rhs = (lhs \<noteq> rhs)"
| "validation_operator_matches OpLt lhs rhs = (lhs < rhs)"
| "validation_operator_matches OpLe lhs rhs = (lhs \<le> rhs)"
| "validation_operator_matches OpGt lhs rhs = (lhs > rhs)"
| "validation_operator_matches OpGe lhs rhs = (lhs \<ge> rhs)"

definition checked_add_size :: "nat \<Rightarrow> nat \<Rightarrow> nat option" where
  "checked_add_size lhs rhs = (if lhs > SIZE_MAX - rhs then None else Some (lhs + rhs))"

definition checksum_anchor_offset ::
  "compiled_checksum_anchor \<Rightarrow> bytes \<Rightarrow> decoded_message \<Rightarrow> nat option" where
  "checksum_anchor_offset anchor frame m =
     (case cca_kind anchor of
        FrameStart \<Rightarrow> Some 0
      | FrameEnd \<Rightarrow> Some (length frame)
      | k \<Rightarrow>
          if cca_field_id anchor \<ge> dm_field_count m \<or> \<not> dm_present m (cca_field_id anchor) then None
          else
            let (offset, extent) = dm_resolved m (cca_field_id anchor) in
            if k = FieldStart \<or> k = BeforeSelf then Some offset else Some (offset + extent))"

text \<open>\<open>std::lower_bound\<close> by tag: the first case that is not below the tag.\<close>

fun lower_bound_case :: "compiled_variant_case list \<Rightarrow> u64 \<Rightarrow> compiled_variant_case option" where
  "lower_bound_case [] tag = None"
| "lower_bound_case (c # cs) tag = (if cvc_tag_value c < tag then lower_bound_case cs tag else Some c)"

definition find_variant_case :: "compiled_field \<Rightarrow> u64 \<Rightarrow> compiled_variant_case option" where
  "find_variant_case f tag_value =
     (let lookup =
        (case lower_bound_case (cf_variant_cases f) tag_value of
           None \<Rightarrow> None
         | Some c \<Rightarrow> if cvc_tag_value c \<noteq> tag_value then None else Some c)
      in if cf_variant_lookup_indices f \<noteq> [] then
           if tag_value < cf_variant_lookup_base f then None
           else
             let dense_index = unat (tag_value - cf_variant_lookup_base f) in
             if dense_index < length (cf_variant_lookup_indices f) then
               let case_index = cf_variant_lookup_indices f ! dense_index in
               if case_index \<noteq> kVariantLookupMissing then Some (cf_variant_cases f ! case_index) else None
             else lookup
         else lookup)"

definition runtime_validate_string :: "simd_ops \<Rightarrow> string_encoding \<Rightarrow> bytes \<Rightarrow> bool" where
  "runtime_validate_string ops encoding bs =
     (case encoding of
        Ascii \<Rightarrow> runtime_is_valid_ascii (so_ascii ops) bs
      | Utf8 \<Rightarrow> runtime_is_valid_utf8 (so_utf8 ops) bs)"

definition runtime_checksum :: "simd_ops \<Rightarrow> compiled_checksum \<Rightarrow> bytes \<Rightarrow> u64" where
  "runtime_checksum ops c bs =
     (case cck_builtin_kind c of
        BK_Xor8 \<Rightarrow> runtime_checksum_xor8 (so_vxor ops) (so_lanes ops) bs
      | BK_Sum16 \<Rightarrow> runtime_checksum_sum16 (so_lane_sum ops) (so_lanes ops) bs
      | BK_Crc16Ccitt \<Rightarrow> checksum_crc16_ccitt bs
      | BK_Crc32 \<Rightarrow> checksum_crc32 bs
      | BK_Crc32c \<Rightarrow> runtime_checksum_crc32c (so_crc32c ops) bs
      | BK_Custom \<Rightarrow> (case cck_function c of Some g \<Rightarrow> g bs | None \<Rightarrow> 0))"

subsection \<open>Raw access to a message\<close>

definition dm_field_definition :: "decoded_message \<Rightarrow> field_id \<Rightarrow> compiled_field option" where
  "dm_field_definition m i =
     (case dm_message m of
        None \<Rightarrow> None
      | Some layout \<Rightarrow> if i \<ge> length (cm_fields layout) then None else Some (cm_fields layout ! i))"

definition dm_bit_field_definition :: "decoded_message \<Rightarrow> bit_field_id \<Rightarrow> compiled_bit_field option" where
  "dm_bit_field_definition m i =
     (case dm_message m of
        None \<Rightarrow> None
      | Some layout \<Rightarrow> if i \<ge> length (cm_bit_fields layout) then None else Some (cm_bit_fields layout ! i))"

definition field_selected :: "decoded_message \<Rightarrow> field_id \<Rightarrow> bool" where
  "field_selected m i \<longleftrightarrow> \<not> dm_selection_active m \<or> dm_selected m i"

definition resolved_field :: "decoded_message \<Rightarrow> field_id \<Rightarrow> (nat \<times> nat) option" where
  "resolved_field m i =
     (if i \<ge> dm_field_count m \<or> \<not> dm_present m i \<or> \<not> field_selected m i then None
      else Some (dm_resolved m i))"

definition cached_scalar_raw :: "decoded_message \<Rightarrow> field_id \<Rightarrow> u64 option" where
  "cached_scalar_raw m i =
     (case dm_field_definition m i of
        None \<Rightarrow> None
      | Some f \<Rightarrow> if \<not> is_scalar f then None else dm_cache m i)"

definition eager_cache_scalar :: "field_id \<Rightarrow> bytes \<Rightarrow> decoded_message \<Rightarrow> decoded_message" where
  "eager_cache_scalar i span_bytes m =
     (case dm_field_definition m i of
        None \<Rightarrow> m
      | Some f \<Rightarrow>
          if \<not> supports_eager_scalar_cache f \<or> length span_bytes \<noteq> cf_width_bytes f then m
          else (case read_unsigned_scalar span_bytes (cf_byte_order f) of
                  None \<Rightarrow> m
                | Some v \<Rightarrow> m\<lparr>dm_cache := (dm_cache m)(i := Some v)\<rparr>))"

definition raw_unsigned :: "decoded_message \<Rightarrow> field_id \<Rightarrow> u64 option" where
  "raw_unsigned m i =
     (case dm_field_definition m i of
        None \<Rightarrow> None
      | Some f \<Rightarrow> if cf_kind f \<noteq> KUnsigned \<and> cf_kind f \<noteq> KEnum then None else cached_scalar_raw m i)"

definition condition_matches :: "decoded_message \<Rightarrow> compiled_field \<Rightarrow> bool" where
  "condition_matches m f =
     (if \<not> cf_has_condition f then True
      else (case raw_unsigned m (cf_condition_field f) of
              None \<Rightarrow> False | Some v \<Rightarrow> v = cf_condition_equals f))"

definition presence_matches :: "decoded_message \<Rightarrow> compiled_field \<Rightarrow> bool" where
  "presence_matches m f =
     (if \<not> cf_has_presence f then True
      else (case raw_unsigned m (cf_presence_field f) of
              None \<Rightarrow> False | Some v \<Rightarrow> drop_bit (cf_presence_bit f) v AND 1 \<noteq> 0))"

subsection \<open>Decoding one field\<close>

type_synonym nested_decoder = "compiled_message \<Rightarrow> bytes \<Rightarrow> decode_status + nat"

text \<open>The loop over the elements of a collection of variable-size elements.\<close>

fun decode_elements ::
  "nested_decoder \<Rightarrow> compiled_message \<Rightarrow> bytes \<Rightarrow> nat \<Rightarrow> nat \<Rightarrow> nat \<Rightarrow> decode_status + nat" where
  "decode_elements nested layout frame offset 0 total_size = Inr total_size"
| "decode_elements nested layout frame offset (Suc n) total_size =
     bind_res (nested layout (drop (offset + total_size) frame)) (\<lambda>bytes_consumed.
     if bytes_consumed = 0 then Inl DS_SchemaMismatch
     else (case checked_add_size total_size bytes_consumed of
             None \<Rightarrow> Inl DS_SchemaMismatch
           | Some total_size \<Rightarrow>
               if total_size > length frame - offset then Inl DS_SchemaMismatch
               else decode_elements nested layout frame offset n total_size))"

definition decode_collection_size ::
  "nested_decoder \<Rightarrow> compiled_protocol \<Rightarrow> bytes \<Rightarrow> decoded_message \<Rightarrow> compiled_field \<Rightarrow> nat \<Rightarrow> decode_status + nat" where
  "decode_collection_size nested p frame m f offset =
     bind_res
       (if cf_dynamic_count f then
          (case raw_unsigned m (cf_count_from_field f) of
             None \<Rightarrow> Inl DS_InvalidData | Some v \<Rightarrow> Inr (unat v))
        else Inr (cf_fixed_count f)) (\<lambda>count.
     (case struct_by_id p (cf_struct_id f) of
        None \<Rightarrow> Inl DS_InvalidData
      | Some element_layout \<Rightarrow>
          if count = 0 then Inr 0
          else if cm_has_fixed_size element_layout then
            let element_size = cm_minimum_size element_layout in
            if element_size = 0 then Inl DS_SchemaMismatch
            else
              let remaining_bytes = length frame - offset in
              if count > remaining_bytes div element_size then Inl DS_SchemaMismatch
              else Inr (count * element_size)
          else decode_elements nested element_layout frame offset count 0))"

definition decode_variant_size ::
  "nested_decoder \<Rightarrow> compiled_protocol \<Rightarrow> bytes \<Rightarrow> decoded_message \<Rightarrow> compiled_field \<Rightarrow> nat \<Rightarrow> decode_status + nat" where
  "decode_variant_size nested p frame m f offset =
     (case raw_unsigned m (cf_tag_from_field f) of
        None \<Rightarrow> Inl DS_InvalidData
      | Some tag_value \<Rightarrow>
          (case find_variant_case f tag_value of
             None \<Rightarrow> Inl DS_InvalidData
           | Some c \<Rightarrow>
               (case struct_by_id p (cvc_struct_id c) of
                  None \<Rightarrow> Inl DS_InvalidData
                | Some case_layout \<Rightarrow> nested case_layout (drop offset frame))))"

definition decode_field_size ::
  "nested_decoder \<Rightarrow> compiled_protocol \<Rightarrow> bytes \<Rightarrow> decoded_message \<Rightarrow> compiled_field \<Rightarrow> nat \<Rightarrow> decode_status + nat" where
  "decode_field_size nested p frame m f offset =
     (if cf_kind f = KBytes \<or> cf_kind f = KString then
        if cf_dynamic_size f then
          (case raw_unsigned m (cf_size_from_field f) of
             None \<Rightarrow> Inl DS_InvalidData
           | Some v \<Rightarrow> if unat v > length frame then Inl DS_InvalidData else Inr (unat v))
        else Inr (cf_fixed_size f)
      else if cf_kind f = KStruct then
        (case struct_by_id p (cf_struct_id f) of
           None \<Rightarrow> Inl DS_InvalidData
         | Some nested_layout \<Rightarrow> nested nested_layout (drop offset frame))
      else if cf_kind f = KCollection then decode_collection_size nested p frame m f offset
      else if cf_kind f = KVariant then decode_variant_size nested p frame m f offset
      else Inr (cf_width_bytes f))"

definition decode_field ::
  "simd_ops \<Rightarrow> nested_decoder \<Rightarrow> compiled_protocol \<Rightarrow> bytes \<Rightarrow> compiled_field \<Rightarrow> decoded_message \<times> nat \<Rightarrow>
   decode_status + decoded_message \<times> nat" where
  "decode_field ops nested p frame f = (\<lambda>(m, offset).
     (if \<not> condition_matches m f \<or> \<not> presence_matches m f then
        Inr (m\<lparr>dm_present := (dm_present m)(cf_id f := False),
               dm_resolved := (dm_resolved m)(cf_id f := (offset, 0))\<rparr>, offset)
      else
        let offset = align_up offset (cf_alignment f) in
        if offset > length frame then Inl DS_SchemaMismatch
        else bind_res (decode_field_size nested p frame m f offset) (\<lambda>field_size.
          (case checked_add_size offset field_size of
             None \<Rightarrow> Inl DS_SchemaMismatch
           | Some field_end \<Rightarrow>
               if field_end > length frame then Inl DS_SchemaMismatch
               else
                 let m = m\<lparr>dm_present := (dm_present m)(cf_id f := True),
                           dm_resolved := (dm_resolved m)(cf_id f := (offset, field_size))\<rparr>;
                     span_bytes = subspan offset field_size frame;
                     m = eager_cache_scalar (cf_id f) span_bytes m
                 in if cf_has_expected_unsigned f \<and> cached_scalar_raw m (cf_id f) \<noteq> Some (cf_expected_unsigned f)
                    then Inl DS_SchemaMismatch
                    else if cf_kind f = KString \<and> \<not> runtime_validate_string ops (cf_string_encoding f) span_bytes
                    then Inl DS_InvalidData
                    else if cf_is_reserved f \<and> \<not> list_all (\<lambda>b. b = cf_reserved_fill_byte f) span_bytes
                    then Inl DS_SchemaMismatch
                    else Inr (m, field_end)))))"

fun decode_fields ::
  "simd_ops \<Rightarrow> nested_decoder \<Rightarrow> compiled_protocol \<Rightarrow> bytes \<Rightarrow> compiled_field list \<Rightarrow> decoded_message \<times> nat \<Rightarrow>
   decode_status + decoded_message \<times> nat" where
  "decode_fields ops nested p frame [] s = Inr s"
| "decode_fields ops nested p frame (f # fs) s =
     bind_res (decode_field ops nested p frame f s) (decode_fields ops nested p frame fs)"

subsection \<open>Checksums and validation rules\<close>

fun check_checksums ::
  "simd_ops \<Rightarrow> bytes \<Rightarrow> decoded_message \<Rightarrow> compiled_checksum list \<Rightarrow> decode_status + unit" where
  "check_checksums ops frame m [] = Inr ()"
| "check_checksums ops frame m (c # cs) =
     (if cck_function c = None then Inl DS_InvalidData
      else
        (case (checksum_anchor_offset (cck_from c) frame m, checksum_anchor_offset (cck_to c) frame m) of
           (Some from_offset, Some to_offset) \<Rightarrow>
             if from_offset > to_offset \<or> to_offset > length frame then Inl DS_SchemaMismatch
             else
               let checksum_bytes = subspan from_offset (to_offset - from_offset) frame;
                   actual = runtime_checksum ops c checksum_bytes
               in if raw_unsigned m (cck_field_id c) \<noteq> Some actual then Inl DS_ChecksumMismatch
                  else check_checksums ops frame m cs
         | _ \<Rightarrow> Inl DS_SchemaMismatch))"

definition validation_applies :: "decoded_message \<Rightarrow> compiled_validation_rule \<Rightarrow> bool" where
  "validation_applies m r \<longleftrightarrow>
     \<not> cvr_has_when r \<or> raw_unsigned m (cvr_when_field_id r) = Some (cvr_when_equals r)"

fun check_validations :: "decoded_message \<Rightarrow> compiled_validation_rule list \<Rightarrow> decode_status + unit" where
  "check_validations m [] = Inr ()"
| "check_validations m (r # rs) =
     (if \<not> validation_applies m r then check_validations m rs
      else
        (case raw_unsigned m (cvr_field_id r) of
           None \<Rightarrow> Inl DS_InvalidData
         | Some lhs \<Rightarrow>
             (case (if cvr_compare_to_field r then raw_unsigned m (cvr_other_field_id r) else Some (cvr_value r)) of
                None \<Rightarrow> Inl DS_InvalidData
              | Some rhs \<Rightarrow>
                  let rhs = (if cvr_multiplier r \<noteq> 1 then rhs * cvr_multiplier r else rhs) in
                  if \<not> validation_operator_matches (cvr_op r) lhs rhs then Inl DS_SchemaMismatch
                  else check_validations m rs)))"

subsection \<open>\<open>assign_from_layout\<close>\<close>

definition initial_decoded_message ::
  "compiled_protocol \<Rightarrow> compiled_message \<Rightarrow> bytes \<Rightarrow> (field_id \<Rightarrow> bool) option \<Rightarrow> decoded_message" where
  "initial_decoded_message p layout frame selected =
     empty_decoded_message\<lparr>dm_protocol := Some p, dm_message := Some layout, dm_frame := frame,
       dm_field_count := length (cm_fields layout), dm_selection_active := selected \<noteq> None,
       dm_selected := (case selected of None \<Rightarrow> (\<lambda>_. True) | Some s \<Rightarrow> s)\<rparr>"

definition assign_with ::
  "simd_ops \<Rightarrow> nested_decoder \<Rightarrow> compiled_protocol \<Rightarrow> compiled_message \<Rightarrow> bytes \<Rightarrow>
   (field_id \<Rightarrow> bool) option \<Rightarrow> bool \<Rightarrow> decode_status + decoded_message \<times> nat" where
  "assign_with ops nested p layout frame selected allow_prefix_trailing =
     (if length (cm_fields layout) > kMaxFieldsPerMessage then Inl DS_FieldLimitExceeded
      else if length frame < cm_minimum_size layout then Inl DS_SchemaMismatch
      else bind_res (decode_fields ops nested p frame (cm_fields layout)
                       (initial_decoded_message p layout frame selected, 0)) (\<lambda>(m, offset).
        if \<not> allow_prefix_trailing \<and> \<not> cm_allow_trailing_bytes layout \<and> offset \<noteq> length frame
        then Inl DS_SchemaMismatch
        else bind_res (check_checksums ops frame m (cm_checksums layout)) (\<lambda>_.
             bind_res (check_validations m (cm_validations layout)) (\<lambda>_.
             Inr (if \<not> cm_allow_trailing_bytes layout then m\<lparr>dm_frame := take offset frame\<rparr> else m, offset)))))"

text \<open>The nested calls: the selection is empty, a trailing rest is allowed, and only the number of
  consumed bytes is used.\<close>

fun nested_size :: "simd_ops \<Rightarrow> compiled_protocol \<Rightarrow> nat \<Rightarrow> nested_decoder" where
  "nested_size ops p 0 layout frame = Inl DS_OutOfFuel"
| "nested_size ops p (Suc fuel) layout frame =
     bind_res (assign_with ops (nested_size ops p fuel) p layout frame None True) (\<lambda>(_, bytes_consumed).
     Inr bytes_consumed)"

definition assign_from_layout ::
  "simd_ops \<Rightarrow> compiled_protocol \<Rightarrow> compiled_message \<Rightarrow> bytes \<Rightarrow> (field_id \<Rightarrow> bool) option \<Rightarrow> bool \<Rightarrow>
   decode_status + decoded_message \<times> nat" where
  "assign_from_layout ops p = assign_with ops (nested_size ops p (length (cp_structs p))) p"

end
