(* ===== verification/Message_Access.thy ===== *)
theory Message_Access
  imports Decoder
begin

text \<open>
  The accessors of \<open>DecodedMessage\<close> and \<open>DecodedCollectionView\<close>
  (\<open>decoder/decoded_message.cpp\<close>, \<open>decoded_message.hpp\<close>) and the operations of
  \<open>ProtocolDecoder\<close> (\<open>decoder/protocol_decoder.cpp\<close>). A \<open>float\<close> or \<open>double\<close> is the bit
  pattern that \<open>std::bit_cast\<close> reinterprets; a string view is its bytes.
\<close>

subsection \<open>Accessors\<close>

definition dm_field_id :: "decoded_message \<Rightarrow> string \<Rightarrow> field_id option" where
  "dm_field_id m name = (case dm_message m of None \<Rightarrow> None | Some layout \<Rightarrow> find_field layout name)"

definition dm_bit_field_id :: "decoded_message \<Rightarrow> string \<Rightarrow> bit_field_id option" where
  "dm_bit_field_id m name = (case dm_message m of None \<Rightarrow> None | Some layout \<Rightarrow> find_bit_field layout name)"

definition is_present :: "decoded_message \<Rightarrow> field_id \<Rightarrow> bool" where
  "is_present m i \<longleftrightarrow> i < dm_field_count m \<and> dm_present m i \<and> field_selected m i"

definition get_unsigned :: "decoded_message \<Rightarrow> field_id \<Rightarrow> u64 option" where
  "get_unsigned m i = (if \<not> field_selected m i then None else raw_unsigned m i)"

definition get_signed :: "decoded_message \<Rightarrow> field_id \<Rightarrow> u64 option" where
  "get_signed m i =
     (case dm_field_definition m i of
        None \<Rightarrow> None
      | Some f \<Rightarrow>
          if cf_kind f \<noteq> KSigned \<or> \<not> field_selected m i then None
          else (case cached_scalar_raw m i of
                  None \<Rightarrow> None
                | Some raw \<Rightarrow> sign_extend raw ((cf_width_bytes f * kBitsPerByte) mod 256)))"

definition get_float32 :: "decoded_message \<Rightarrow> field_id \<Rightarrow> u32 option" where
  "get_float32 m i =
     (case dm_field_definition m i of
        None \<Rightarrow> None
      | Some f \<Rightarrow>
          if cf_kind f \<noteq> KFloat32 \<or> cf_width_bytes f \<noteq> 4 \<or> \<not> field_selected m i then None
          else (case cached_scalar_raw m i of None \<Rightarrow> None | Some v \<Rightarrow> Some (ucast v)))"

definition get_float64 :: "decoded_message \<Rightarrow> field_id \<Rightarrow> u64 option" where
  "get_float64 m i =
     (case dm_field_definition m i of
        None \<Rightarrow> None
      | Some f \<Rightarrow>
          if cf_kind f \<noteq> KFloat64 \<or> cf_width_bytes f \<noteq> 8 \<or> \<not> field_selected m i then None
          else cached_scalar_raw m i)"

definition get_bytes :: "decoded_message \<Rightarrow> field_id \<Rightarrow> bytes option" where
  "get_bytes m i =
     (case dm_field_definition m i of
        None \<Rightarrow> None
      | Some f \<Rightarrow>
          if cf_kind f = KCollection \<or> cf_kind f = KVariant then None
          else (case resolved_field m i of
                  None \<Rightarrow> None
                | Some (offset, extent) \<Rightarrow> Some (subspan offset extent (dm_frame m))))"

definition get_string_view :: "decoded_message \<Rightarrow> field_id \<Rightarrow> bytes option" where
  "get_string_view m i =
     (case dm_field_definition m i of
        None \<Rightarrow> None
      | Some f \<Rightarrow>
          if cf_kind f \<noteq> KString then None
          else (case resolved_field m i of
                  None \<Rightarrow> None
                | Some (offset, extent) \<Rightarrow> Some (subspan offset extent (dm_frame m))))"

definition find_enum_name :: "enum_value_definition list \<Rightarrow> u64 \<Rightarrow> string option" where
  "find_enum_name values v = map_option ev_name (find (\<lambda>e. ev_value e = v) values)"

definition get_enum_name :: "decoded_message \<Rightarrow> field_id \<Rightarrow> string option" where
  "get_enum_name m i =
     (case dm_field_definition m i of
        None \<Rightarrow> None
      | Some f \<Rightarrow>
          if cf_kind f \<noteq> KEnum then None
          else (case get_unsigned m i of None \<Rightarrow> None | Some v \<Rightarrow> find_enum_name (cf_enum_values f) v))"

text \<open>The second decode of a nested span, exact this time.\<close>

definition decode_nested_exact ::
  "simd_ops \<Rightarrow> compiled_protocol \<Rightarrow> compiled_message \<Rightarrow> bytes \<Rightarrow> decoded_message option" where
  "decode_nested_exact ops p layout frame =
     (case assign_from_layout ops p layout frame None False of Inl _ \<Rightarrow> None | Inr (nested, _) \<Rightarrow> Some nested)"

definition get_struct :: "simd_ops \<Rightarrow> decoded_message \<Rightarrow> field_id \<Rightarrow> decoded_message option" where
  "get_struct ops m i =
     (case (dm_field_definition m i, dm_protocol m) of
        (Some f, Some p) \<Rightarrow>
          if cf_kind f \<noteq> KStruct then None
          else (case resolved_field m i of
                  None \<Rightarrow> None
                | Some (offset, extent) \<Rightarrow>
                    (case struct_by_id p (cf_struct_id f) of
                       None \<Rightarrow> None
                     | Some nested_layout \<Rightarrow>
                         decode_nested_exact ops p nested_layout (subspan offset extent (dm_frame m))))
      | _ \<Rightarrow> None)"

record decoded_collection_view =
  dcv_protocol :: compiled_protocol
  dcv_element_layout :: compiled_message
  dcv_frame :: bytes
  dcv_count :: nat

definition get_collection :: "decoded_message \<Rightarrow> field_id \<Rightarrow> decoded_collection_view option" where
  "get_collection m i =
     (case (dm_field_definition m i, dm_protocol m) of
        (Some f, Some p) \<Rightarrow>
          if cf_kind f \<noteq> KCollection then None
          else (case resolved_field m i of
                  None \<Rightarrow> None
                | Some (offset, extent) \<Rightarrow>
                    (case struct_by_id p (cf_struct_id f) of
                       None \<Rightarrow> None
                     | Some element_layout \<Rightarrow>
                         (case (if cf_dynamic_count f then map_option unat (raw_unsigned m (cf_count_from_field f))
                                else Some (cf_fixed_count f)) of
                            None \<Rightarrow> None
                          | Some count \<Rightarrow>
                              Some \<lparr>dcv_protocol = p, dcv_element_layout = element_layout,
                                    dcv_frame = subspan offset extent (dm_frame m), dcv_count = count\<rparr>)))
      | _ \<Rightarrow> None)"

definition get_variant :: "simd_ops \<Rightarrow> decoded_message \<Rightarrow> field_id \<Rightarrow> decoded_message option" where
  "get_variant ops m i =
     (case (dm_field_definition m i, dm_protocol m) of
        (Some f, Some p) \<Rightarrow>
          if cf_kind f \<noteq> KVariant then None
          else (case resolved_field m i of
                  None \<Rightarrow> None
                | Some (offset, extent) \<Rightarrow>
                    (case raw_unsigned m (cf_tag_from_field f) of
                       None \<Rightarrow> None
                     | Some tag_value \<Rightarrow>
                         (case find_variant_case f tag_value of
                            None \<Rightarrow> None
                          | Some c \<Rightarrow>
                              (case struct_by_id p (cvc_struct_id c) of
                                 None \<Rightarrow> None
                               | Some nested_layout \<Rightarrow>
                                   decode_nested_exact ops p nested_layout (subspan offset extent (dm_frame m))))))
      | _ \<Rightarrow> None)"

definition get_bit_unsigned :: "decoded_message \<Rightarrow> bit_field_id \<Rightarrow> u64 option" where
  "get_bit_unsigned m i =
     (case dm_bit_field_definition m i of
        None \<Rightarrow> None
      | Some b \<Rightarrow>
          if \<not> field_selected m (cbf_container_field_id b) then None
          else (case dm_field_definition m (cbf_container_field_id b) of
                  None \<Rightarrow> None
                | Some container \<Rightarrow>
                    if cf_kind container \<noteq> KUnsigned \<and> cf_kind container \<noteq> KSigned \<and> cf_kind container \<noteq> KEnum then None
                    else (case cached_scalar_raw m (cbf_container_field_id b) of
                            None \<Rightarrow> None
                          | Some v \<Rightarrow> Some (drop_bit (cbf_shift_bits b) v AND cbf_mask b))))"

definition get_bit_signed :: "decoded_message \<Rightarrow> bit_field_id \<Rightarrow> u64 option" where
  "get_bit_signed m i =
     (case dm_bit_field_definition m i of
        None \<Rightarrow> None
      | Some b \<Rightarrow>
          if \<not> cbf_is_signed b then None
          else (case get_bit_unsigned m i of None \<Rightarrow> None | Some v \<Rightarrow> sign_extend v (cbf_width_bits b)))"

definition get_bit_enum_name :: "decoded_message \<Rightarrow> bit_field_id \<Rightarrow> string option" where
  "get_bit_enum_name m i =
     (case dm_bit_field_definition m i of
        None \<Rightarrow> None
      | Some b \<Rightarrow> (case get_bit_unsigned m i of None \<Rightarrow> None | Some v \<Rightarrow> find_enum_name (cbf_enum_values b) v))"

text \<open>The overloads that take a name resolve it first.\<close>

definition by_name :: "(decoded_message \<Rightarrow> field_id \<Rightarrow> 'a option) \<Rightarrow> decoded_message \<Rightarrow> string \<Rightarrow> 'a option" where
  "by_name get m name = (case dm_field_id m name of None \<Rightarrow> None | Some i \<Rightarrow> get m i)"

definition by_bit_name :: "(decoded_message \<Rightarrow> bit_field_id \<Rightarrow> 'a option) \<Rightarrow> decoded_message \<Rightarrow> string \<Rightarrow> 'a option" where
  "by_bit_name get m name = (case dm_bit_field_id m name of None \<Rightarrow> None | Some i \<Rightarrow> get m i)"

subsection \<open>Collections\<close>

text \<open>The loop of \<open>at\<close> for elements of variable size, \<open>n\<close> elements before the wanted one.\<close>

fun collection_walk ::
  "simd_ops \<Rightarrow> decoded_collection_view \<Rightarrow> nat \<Rightarrow> nat \<Rightarrow> decoded_message option" where
  "collection_walk ops v n offset =
     (case assign_from_layout ops (dcv_protocol v) (dcv_element_layout v) (drop offset (dcv_frame v)) None True of
        Inl _ \<Rightarrow> None
      | Inr (element, bytes_consumed) \<Rightarrow>
          (case n of
             0 \<Rightarrow> Some element
           | Suc n \<Rightarrow>
               if bytes_consumed = 0 then None
               else (case checked_add_size offset bytes_consumed of
                       None \<Rightarrow> None
                     | Some offset \<Rightarrow>
                         if offset > length (dcv_frame v) then None else collection_walk ops v n offset)))"

declare collection_walk.simps [simp del]

definition collection_at :: "simd_ops \<Rightarrow> decoded_collection_view \<Rightarrow> nat \<Rightarrow> decoded_message option" where
  "collection_at ops v index =
     (if index \<ge> dcv_count v then None
      else if cm_has_fixed_size (dcv_element_layout v) then
        let element_size = cm_minimum_size (dcv_element_layout v) in
        if element_size = 0 then None
        else (case checked_mul_size index element_size of
                None \<Rightarrow> None
              | Some offset \<Rightarrow>
                  if offset > length (dcv_frame v) then None
                  else (case assign_from_layout ops (dcv_protocol v) (dcv_element_layout v)
                               (drop offset (dcv_frame v)) None True of
                          Inl _ \<Rightarrow> None | Inr (element, _) \<Rightarrow> Some element))
      else collection_walk ops v index 0)"

subsection \<open>\<open>ProtocolDecoder\<close>\<close>

text \<open>A \<open>DecodeFieldMask\<close> is its list of 64 flags.\<close>

type_synonym decode_field_mask = "bool list"

definition selects_all :: "decode_field_mask \<Rightarrow> bool" where
  "selects_all field_mask \<longleftrightarrow> list_all (\<lambda>selected. selected) field_mask"

definition select_all_fields :: decode_field_mask where
  "select_all_fields = replicate kMaxFieldsPerMessage True"

definition decode_message ::
  "simd_ops \<Rightarrow> compiled_protocol \<Rightarrow> compiled_message \<Rightarrow> bytes \<Rightarrow> decode_field_mask option \<Rightarrow>
   decode_status + decoded_message" where
  "decode_message ops p layout frame field_mask =
     bind_res (assign_from_layout ops p layout frame (map_option (\<lambda>s i. s ! i) field_mask) False) (\<lambda>(m, _).
     Inr m)"

definition decode_as_layout ::
  "simd_ops \<Rightarrow> compiled_protocol \<Rightarrow> compiled_message \<Rightarrow> bytes \<Rightarrow> decode_status + decoded_message" where
  "decode_as_layout ops p layout frame = decode_message ops p layout frame None"

definition decode_as_layout_masked ::
  "simd_ops \<Rightarrow> compiled_protocol \<Rightarrow> compiled_message \<Rightarrow> bytes \<Rightarrow> decode_field_mask \<Rightarrow>
   decode_status + decoded_message" where
  "decode_as_layout_masked ops p layout frame field_mask =
     decode_message ops p layout frame (if selects_all field_mask then None else Some field_mask)"

definition decode_as ::
  "simd_ops \<Rightarrow> compiled_protocol \<Rightarrow> string \<Rightarrow> bytes \<Rightarrow> decode_status + decoded_message" where
  "decode_as ops p message_name frame =
     (case find_message p message_name of
        None \<Rightarrow> Inl DS_MessageNotFound
      | Some layout \<Rightarrow> decode_message ops p layout frame None)"

definition decode_as_masked ::
  "simd_ops \<Rightarrow> compiled_protocol \<Rightarrow> string \<Rightarrow> bytes \<Rightarrow> decode_field_mask \<Rightarrow> decode_status + decoded_message" where
  "decode_as_masked ops p message_name frame field_mask =
     (case find_message p message_name of
        None \<Rightarrow> Inl DS_MessageNotFound
      | Some layout \<Rightarrow>
          decode_message ops p layout frame (if selects_all field_mask then None else Some field_mask))"

text \<open>
  A plan refers to a protocol and a layout; \<open>plan.protocol != protocol_\<close> compares addresses, so
  a plan carries the identity of its protocol as a number.
\<close>

record decode_plan =
  pl_protocol :: "nat option"
  pl_layout :: "compiled_message option"
  pl_field_mask :: decode_field_mask
  pl_has_field_mask :: bool

definition decode_with_plan ::
  "simd_ops \<Rightarrow> nat \<Rightarrow> compiled_protocol \<Rightarrow> decode_plan \<Rightarrow> bytes \<Rightarrow> decode_status + decoded_message" where
  "decode_with_plan ops self p plan frame =
     (case (pl_protocol plan, pl_layout plan) of
        (Some owner, Some layout) \<Rightarrow>
          if owner \<noteq> self then Inl DS_MessageNotFound
          else decode_message ops p layout frame
                 (if pl_has_field_mask plan \<and> \<not> selects_all (pl_field_mask plan) then Some (pl_field_mask plan) else None)
      | _ \<Rightarrow> Inl DS_MessageNotFound)"

definition make_plan :: "nat \<Rightarrow> compiled_protocol \<Rightarrow> string \<Rightarrow> decode_plan option" where
  "make_plan self p message_name =
     (case find_message p message_name of
        None \<Rightarrow> None
      | Some layout \<Rightarrow>
          Some \<lparr>pl_protocol = Some self, pl_layout = Some layout,
                pl_field_mask = replicate kMaxFieldsPerMessage False, pl_has_field_mask = False\<rparr>)"

definition make_plan_masked :: "nat \<Rightarrow> compiled_protocol \<Rightarrow> string \<Rightarrow> decode_field_mask \<Rightarrow> decode_plan option" where
  "make_plan_masked self p message_name field_mask =
     (case find_message p message_name of
        None \<Rightarrow> None
      | Some layout \<Rightarrow>
          if selects_all field_mask
          then Some \<lparr>pl_protocol = Some self, pl_layout = Some layout,
                     pl_field_mask = replicate kMaxFieldsPerMessage False, pl_has_field_mask = False\<rparr>
          else Some \<lparr>pl_protocol = Some self, pl_layout = Some layout, pl_field_mask = field_mask,
                     pl_has_field_mask = True\<rparr>)"

subsection \<open>\<open>decode_any\<close>\<close>

definition frame_matches_dispatch_prefix :: "compiled_message \<Rightarrow> bytes \<Rightarrow> bool" where
  "frame_matches_dispatch_prefix m frame =
     (if cm_dispatch_prefix m = [] then True
      else length frame \<ge> length (cm_dispatch_prefix m) \<and>
           take (length (cm_dispatch_prefix m)) frame = cm_dispatch_prefix m)"

text \<open>The decoded message, or the best failure so far, and whether a candidate was attempted.\<close>

fun try_decode_candidates ::
  "simd_ops \<Rightarrow> compiled_protocol \<Rightarrow> nat list \<Rightarrow> bytes \<Rightarrow> decode_status \<Rightarrow> bool \<Rightarrow>
   (decode_status + decoded_message) \<times> bool" where
  "try_decode_candidates ops p [] frame best_failure attempted = (Inl best_failure, attempted)"
| "try_decode_candidates ops p (candidate_id # candidate_ids) frame best_failure attempted =
     (let compiled_message = cp_messages p ! candidate_id in
      if \<not> frame_matches_dispatch_prefix compiled_message frame
      then try_decode_candidates ops p candidate_ids frame best_failure attempted
      else (case decode_as_layout ops p compiled_message frame of
              Inr m \<Rightarrow> (Inr m, True)
            | Inl status \<Rightarrow>
                try_decode_candidates ops p candidate_ids frame
                  (if best_failure = DS_MessageNotFound \<or> best_failure = DS_SchemaMismatch
                   then status else best_failure) True))"

definition decode_any :: "simd_ops \<Rightarrow> compiled_protocol \<Rightarrow> bytes \<Rightarrow> decode_status + decoded_message" where
  "decode_any ops p frame =
     (case try_decode_candidates ops p (dispatch_candidate_ids p frame) frame DS_MessageNotFound False of
        (Inr m, _) \<Rightarrow> Inr m
      | (Inl best_failure, attempted) \<Rightarrow>
          (case try_decode_candidates ops p (cp_fallback_message_ids p) frame best_failure attempted of
             (Inr m, _) \<Rightarrow> Inr m
           | (Inl best_failure, attempted) \<Rightarrow>
               Inl (if attempted then best_failure else DS_MessageNotFound)))"

end
