(* ===== verification/Encoder.thy ===== *)
theory Encoder
  imports Decoder
begin

text \<open>
  The encoders of \<open>encoder/message_encoder.cpp\<close>: \<open>MessageBuilder\<close>, which writes a message into one
  buffer, \<open>SegmentedMessageBuilder\<close>, which collects spans of a scratch buffer and of borrowed
  payloads, and the factory \<open>ProtocolEncoder\<close>. An operation takes a builder and returns its status
  and the builder afterwards, also when it fails. \<open>ES_OutOfBounds\<close> is not a status of the code: it
  marks the reads past the end of a payload shorter than the fixed size of its field, whose result
  the language leaves undefined. The alignment helper and the comparison of validation rules are the
  ones of the compiler and the decoder, of which the file holds copies.
\<close>

subsection \<open>Status\<close>

datatype encode_status =
    ES_Ok | ES_BufferTooSmall | ES_InvalidData | ES_SchemaMismatch | ES_FieldLimitExceeded | ES_OutOfBounds

fun encode_status_to_string :: "encode_status \<Rightarrow> string" where
  "encode_status_to_string ES_Ok = ''ok''"
| "encode_status_to_string ES_BufferTooSmall = ''buffer_too_small''"
| "encode_status_to_string ES_InvalidData = ''invalid_data''"
| "encode_status_to_string ES_SchemaMismatch = ''schema_mismatch''"
| "encode_status_to_string ES_FieldLimitExceeded = ''field_limit_exceeded''"
| "encode_status_to_string ES_OutOfBounds = ''unknown''"

text \<open>The early return of a status other than \<open>kOk\<close>.\<close>

definition and_then :: "encode_status \<times> 'b \<Rightarrow> ('b \<Rightarrow> encode_status \<times> 'b) \<Rightarrow> encode_status \<times> 'b" where
  "and_then r k = (case r of (status, b) \<Rightarrow> if status = ES_Ok then k b else (status, b))"

subsection \<open>Helpers\<close>

definition compute_builtin_checksum :: "simd_ops \<Rightarrow> compiled_checksum \<Rightarrow> bytes \<Rightarrow> u64" where
  "compute_builtin_checksum ops chk data =
     (case cck_builtin_kind chk of
        BK_Xor8 \<Rightarrow> runtime_checksum_xor8 (so_vxor ops) (so_lanes ops) data
      | BK_Sum16 \<Rightarrow> runtime_checksum_sum16 (so_lane_sum ops) (so_lanes ops) data
      | BK_Crc16Ccitt \<Rightarrow> checksum_crc16_ccitt data
      | BK_Crc32 \<Rightarrow> checksum_crc32 data
      | BK_Crc32c \<Rightarrow> runtime_checksum_crc32c (so_crc32c ops) data
      | BK_Custom \<Rightarrow> (case cck_function chk of Some f \<Rightarrow> f data | None \<Rightarrow> 0))"

text \<open>\<open>compute_segmented_builtin_checksum\<close> on the chunks its visitor is called with, in order.\<close>

definition compute_segmented_builtin_checksum :: "simd_ops \<Rightarrow> compiled_checksum \<Rightarrow> bytes list \<Rightarrow> u64" where
  "compute_segmented_builtin_checksum ops chk chunks =
     (let scratch = (case chunks of [single_chunk] \<Rightarrow> single_chunk | _ \<Rightarrow> concat chunks);
          contiguous = (case cck_builtin_kind chk of
              BK_Custom \<Rightarrow> (case cck_function chk of None \<Rightarrow> 0 | Some f \<Rightarrow> f scratch)
            | _ \<Rightarrow> compute_builtin_checksum ops chk scratch)
      in case cck_builtin_kind chk of
           BK_Xor8 \<Rightarrow> ucast (fold (\<lambda>chunk v. fold (\<lambda>b v. v XOR b) chunk v) chunks (0 :: u8))
         | BK_Sum16 \<Rightarrow> fold (\<lambda>chunk s. fold (\<lambda>b s. s + ucast b) chunk s) chunks (0 :: u64) AND 0xFFFF
         | _ \<Rightarrow> contiguous)"

fun validations_pass :: "(field_id \<Rightarrow> u64 option) \<Rightarrow> compiled_validation_rule list \<Rightarrow> bool" where
  "validations_pass read_scalar [] = True"
| "validations_pass read_scalar (r # rs) =
     (if cvr_has_when r \<and> read_scalar (cvr_when_field_id r) \<noteq> Some (cvr_when_equals r)
      then validations_pass read_scalar rs
      else
        (case read_scalar (cvr_field_id r) of
           None \<Rightarrow> False
         | Some lhs \<Rightarrow>
             (case (if cvr_compare_to_field r then read_scalar (cvr_other_field_id r) else Some (cvr_value r)) of
                None \<Rightarrow> False
              | Some rhs \<Rightarrow>
                  let rhs = (if cvr_multiplier r \<noteq> 1 then rhs * cvr_multiplier r else rhs) in
                  if \<not> validation_operator_matches (cvr_op r) lhs rhs then False
                  else validations_pass read_scalar rs)))"

text \<open>The bit mask of the fields that hold a checksum.\<close>

definition checksum_mask :: "compiled_message \<Rightarrow> u64" where
  "checksum_mask layout =
     fold (\<lambda>chk m. if cck_field_id chk < kMaxFieldsPerMessage then m OR push_bit (cck_field_id chk) 1 else m)
       (cm_checksums layout) 0"

text \<open>\<open>resolve_anchor\<close>, and the range a checksum covers.\<close>

definition resolve_anchor ::
  "nat \<Rightarrow> nat \<Rightarrow> (field_id \<Rightarrow> nat) \<Rightarrow> (field_id \<Rightarrow> nat) \<Rightarrow> compiled_checksum_anchor \<Rightarrow> nat option" where
  "resolve_anchor field_count total_size starts ends anchor =
     (case cca_kind anchor of
        FrameStart \<Rightarrow> Some 0
      | FrameEnd \<Rightarrow> Some total_size
      | FieldStart \<Rightarrow> if cca_field_id anchor \<ge> field_count then None else Some (starts (cca_field_id anchor))
      | BeforeSelf \<Rightarrow> if cca_field_id anchor \<ge> field_count then None else Some (starts (cca_field_id anchor))
      | FieldEnd \<Rightarrow> if cca_field_id anchor \<ge> field_count then None else Some (ends (cca_field_id anchor))
      | AfterSelf \<Rightarrow> if cca_field_id anchor \<ge> field_count then None else Some (ends (cca_field_id anchor)))"

definition checksum_range ::
  "nat \<Rightarrow> nat \<Rightarrow> (field_id \<Rightarrow> nat) \<Rightarrow> (field_id \<Rightarrow> nat) \<Rightarrow> compiled_checksum \<Rightarrow> (nat \<times> nat) option" where
  "checksum_range field_count total_size starts ends chk =
     (if cca_kind (cck_from chk) = FrameStart \<and> cca_kind (cck_to chk) = BeforeSelf \<and>
         cca_field_id (cck_to chk) = cck_field_id chk
      then Some (0, starts (cck_field_id chk))
      else
        (case (resolve_anchor field_count total_size starts ends (cck_from chk),
               resolve_anchor field_count total_size starts ends (cck_to chk)) of
           (Some from_offset, Some to_offset) \<Rightarrow> Some (from_offset, to_offset)
         | _ \<Rightarrow> None))"

definition written_reader :: "compiled_message \<Rightarrow> (field_id \<Rightarrow> u64) \<Rightarrow> field_id \<Rightarrow> u64 option" where
  "written_reader layout scalars field_id =
     (let f = cm_fields layout ! field_id in
      if cf_kind f \<noteq> KUnsigned \<and> cf_kind f \<noteq> KEnum then None else Some (scalars field_id))"

subsection \<open>\<open>MessageBuilder\<close>\<close>

record message_builder =
  mb_layout :: compiled_message
  mb_buffer :: bytes
  mb_starts :: "field_id \<Rightarrow> nat"
  mb_ends :: "field_id \<Rightarrow> nat"
  mb_scalars :: "field_id \<Rightarrow> u64"
  mb_offset :: nat
  mb_next :: field_id
  mb_finalized :: bool
  mb_failed :: bool
  mb_checksum_mask :: u64

definition new_message_builder :: "compiled_message \<Rightarrow> bytes \<Rightarrow> message_builder" where
  "new_message_builder layout buffer =
     (let too_many = length (cm_fields layout) > kMaxFieldsPerMessage in
      \<lparr>mb_layout = layout, mb_buffer = buffer, mb_starts = (\<lambda>_. 0), mb_ends = (\<lambda>_. 0), mb_scalars = (\<lambda>_. 0),
       mb_offset = 0, mb_next = 0, mb_finalized = False, mb_failed = too_many,
       mb_checksum_mask = (if too_many then 0 else checksum_mask layout)\<rparr>)"

definition mb_view :: "message_builder \<Rightarrow> bytes" where
  "mb_view b = subspan 0 (mb_offset b) (mb_buffer b)"

definition mb_is_checksum_field :: "message_builder \<Rightarrow> field_id \<Rightarrow> bool" where
  "mb_is_checksum_field b fid \<longleftrightarrow> drop_bit fid (mb_checksum_mask b) AND 1 \<noteq> 0"

definition mb_fail :: "encode_status \<Rightarrow> message_builder \<Rightarrow> encode_status \<times> message_builder" where
  "mb_fail status b = (status, b\<lparr>mb_failed := True\<rparr>)"

text \<open>Bytes of a field at the cursor: what every successful write of a field does.\<close>

definition mb_put :: "field_id \<Rightarrow> bytes \<Rightarrow> message_builder \<Rightarrow> message_builder" where
  "mb_put fid data b =
     b\<lparr>mb_starts := (mb_starts b)(fid := mb_offset b),
       mb_buffer := blit (mb_offset b) data (mb_buffer b),
       mb_offset := mb_offset b + length data,
       mb_ends := (mb_ends b)(fid := mb_offset b + length data)\<rparr>"

definition write_scalar_field :: "field_id \<Rightarrow> u64 \<Rightarrow> message_builder \<Rightarrow> encode_status \<times> message_builder" where
  "write_scalar_field fid raw_value b =
     (let f = cm_fields (mb_layout b) ! fid; width = cf_width_bytes f in
      if width > length (mb_buffer b) - mb_offset b then mb_fail ES_BufferTooSmall b
      else
        let b = mb_put fid (write_unsigned_scalar_unchecked (cf_byte_order f) width raw_value) b in
        (ES_Ok, b\<lparr>mb_scalars := (mb_scalars b)(fid := raw_value)\<rparr>))"

text \<open>One turn of the loop of \<open>advance_to\<close>.\<close>

definition mb_advance_field :: "field_id \<Rightarrow> message_builder \<Rightarrow> encode_status \<times> message_builder" where
  "mb_advance_field fid b =
     (let f = cm_fields (mb_layout b) ! fid;
          aligned_offset = align_up (mb_offset b) (cf_alignment f) in
      if aligned_offset > length (mb_buffer b) then mb_fail ES_BufferTooSmall b
      else
        let b = (if aligned_offset \<noteq> mb_offset b
                 then b\<lparr>mb_buffer := blit (mb_offset b) (replicate (aligned_offset - mb_offset b) 0) (mb_buffer b),
                       mb_offset := aligned_offset\<rparr>
                 else b)
        in if mb_is_checksum_field b fid then
             if cf_width_bytes f > length (mb_buffer b) - mb_offset b then mb_fail ES_BufferTooSmall b
             else
               let b = mb_put fid (replicate (cf_width_bytes f) 0) b in
               (ES_Ok, b\<lparr>mb_scalars := (mb_scalars b)(fid := 0)\<rparr>)
           else if cf_has_expected_unsigned f then write_scalar_field fid (cf_expected_unsigned f) b
           else if cf_is_reserved f then
             if cf_fixed_size f > length (mb_buffer b) - mb_offset b then mb_fail ES_BufferTooSmall b
             else (ES_Ok, mb_put fid (replicate (cf_fixed_size f) (cf_reserved_fill_byte f)) b)
           else mb_fail ES_InvalidData b)"

fun mb_advance_fields :: "field_id list \<Rightarrow> message_builder \<Rightarrow> encode_status \<times> message_builder" where
  "mb_advance_fields [] b = (ES_Ok, b)"
| "mb_advance_fields (fid # fids) b = and_then (mb_advance_field fid b) (mb_advance_fields fids)"

definition mb_advance_to :: "field_id \<Rightarrow> message_builder \<Rightarrow> encode_status \<times> message_builder" where
  "mb_advance_to target_id b =
     (if mb_failed b then (ES_InvalidData, b)
      else if target_id > length (cm_fields (mb_layout b)) then mb_fail ES_InvalidData b
      else and_then (mb_advance_fields [mb_next b..<target_id] b) (\<lambda>b. (ES_Ok, b\<lparr>mb_next := target_id\<rparr>)))"

definition mb_rejects :: "field_id \<Rightarrow> message_builder \<Rightarrow> bool" where
  "mb_rejects fid b \<longleftrightarrow> mb_failed b \<or> fid \<ge> length (cm_fields (mb_layout b)) \<or> fid < mb_next b"

text \<open>The four scalar setters differ in the kinds they accept and in the raw value.\<close>

definition mb_set_scalar ::
  "field_kind list \<Rightarrow> field_id \<Rightarrow> u64 \<Rightarrow> message_builder \<Rightarrow> encode_status \<times> message_builder" where
  "mb_set_scalar kinds fid raw_value b =
     (if mb_rejects fid b then (ES_InvalidData, b)
      else if cf_kind (cm_fields (mb_layout b) ! fid) \<notin> set kinds then (ES_InvalidData, b)
      else and_then (mb_advance_to fid b) (\<lambda>b.
           and_then (write_scalar_field fid raw_value b) (\<lambda>b. (ES_Ok, b\<lparr>mb_next := fid + 1\<rparr>))))"

definition mb_set_unsigned :: "field_id \<Rightarrow> u64 \<Rightarrow> message_builder \<Rightarrow> encode_status \<times> message_builder" where
  "mb_set_unsigned = mb_set_scalar [KUnsigned, KEnum]"

text \<open>A signed value is its two's complement bit pattern, a float its IEEE bit pattern.\<close>

definition mb_set_signed :: "field_id \<Rightarrow> u64 \<Rightarrow> message_builder \<Rightarrow> encode_status \<times> message_builder" where
  "mb_set_signed = mb_set_scalar [KSigned]"

definition mb_set_float32 :: "field_id \<Rightarrow> u32 \<Rightarrow> message_builder \<Rightarrow> encode_status \<times> message_builder" where
  "mb_set_float32 fid v = mb_set_scalar [KFloat32] fid (ucast v)"

definition mb_set_float64 :: "field_id \<Rightarrow> u64 \<Rightarrow> message_builder \<Rightarrow> encode_status \<times> message_builder" where
  "mb_set_float64 = mb_set_scalar [KFloat64]"

text \<open>The payload setters after their checks on the kind.\<close>

definition mb_set_payload :: "field_id \<Rightarrow> bytes \<Rightarrow> message_builder \<Rightarrow> encode_status \<times> message_builder" where
  "mb_set_payload fid payload b =
     and_then (mb_advance_to fid b) (\<lambda>b.
     let f = cm_fields (mb_layout b) ! fid;
         payload_size = (if cf_dynamic_size f then length payload else cf_fixed_size f) in
     if payload_size > length (mb_buffer b) - mb_offset b then mb_fail ES_BufferTooSmall b
     else if payload_size > length payload then (ES_OutOfBounds, b)
     else (ES_Ok, (mb_put fid (take payload_size payload) b)\<lparr>mb_next := fid + 1\<rparr>))"

definition mb_set_bytes :: "field_id \<Rightarrow> bytes \<Rightarrow> message_builder \<Rightarrow> encode_status \<times> message_builder" where
  "mb_set_bytes fid payload b =
     (if mb_rejects fid b then (ES_InvalidData, b)
      else
        let f = cm_fields (mb_layout b) ! fid in
        if cf_kind f \<noteq> KBytes \<and> cf_kind f \<noteq> KStruct then (ES_InvalidData, b)
        else if cf_is_reserved f then (ES_InvalidData, b)
        else mb_set_payload fid payload b)"

definition mb_set_string :: "field_id \<Rightarrow> bytes \<Rightarrow> message_builder \<Rightarrow> encode_status \<times> message_builder" where
  "mb_set_string fid str b =
     (if mb_rejects fid b then (ES_InvalidData, b)
      else if cf_kind (cm_fields (mb_layout b) ! fid) \<noteq> KString then (ES_InvalidData, b)
      else mb_set_payload fid str b)"

fun mb_write_checksums :: "simd_ops \<Rightarrow> compiled_checksum list \<Rightarrow> message_builder \<Rightarrow> encode_status \<times> message_builder" where
  "mb_write_checksums ops [] b = (ES_Ok, b)"
| "mb_write_checksums ops (chk # chks) b =
     (case checksum_range (length (cm_fields (mb_layout b))) (mb_offset b) (mb_starts b) (mb_ends b) chk of
        None \<Rightarrow> mb_fail ES_InvalidData b
      | Some (from_offset, to_offset) \<Rightarrow>
          if from_offset > to_offset \<or> to_offset > mb_offset b then mb_fail ES_InvalidData b
          else
            let checksum_value = compute_builtin_checksum ops chk (subspan from_offset (to_offset - from_offset) (mb_buffer b));
                chk_field = cm_fields (mb_layout b) ! cck_field_id chk
            in mb_write_checksums ops chks
                 (b\<lparr>mb_buffer := blit (mb_starts b (cck_field_id chk))
                      (write_unsigned_scalar_unchecked (cf_byte_order chk_field) (cck_result_width_bytes chk) checksum_value)
                      (mb_buffer b),
                    mb_scalars := (mb_scalars b)(cck_field_id chk := checksum_value)\<rparr>))"

text \<open>\<open>finalize\<close>; the number of bytes written is \<open>mb_offset\<close> of the resulting builder.\<close>

definition mb_finalize :: "simd_ops \<Rightarrow> message_builder \<Rightarrow> encode_status \<times> message_builder" where
  "mb_finalize ops b =
     (if mb_failed b then (ES_InvalidData, b)
      else if mb_finalized b then (ES_Ok, b)
      else and_then (mb_advance_to (length (cm_fields (mb_layout b))) b) (\<lambda>b.
           and_then (mb_write_checksums ops (cm_checksums (mb_layout b)) b) (\<lambda>b.
           if \<not> validations_pass (written_reader (mb_layout b) (mb_scalars b)) (cm_validations (mb_layout b))
           then mb_fail ES_InvalidData b
           else (ES_Ok, b\<lparr>mb_finalized := True\<rparr>))))"

end
