(* ===== verification/Segmented_Encoder.thy ===== *)
theory Segmented_Encoder
  imports Encoder
begin

text \<open>
  \<open>SegmentedMessageBuilder\<close> and \<open>ProtocolEncoder\<close> of \<open>encoder/message_encoder.cpp\<close>. A segment is a
  span of the scratch buffer (\<open>Owned\<close>, its position and length) or a span of the caller (\<open>Borrowed\<close>,
  its bytes), kept with its offset and length in the message; the three arrays of the code are one
  list. \<open>ES_OutOfBounds\<close> again marks what the language leaves undefined: reads past a short payload,
  and a store past the end of the segment array.
\<close>

subsection \<open>State\<close>

datatype segment = Owned nat nat | Borrowed bytes

record segmented_builder =
  sb_layout :: compiled_message
  sb_scratch :: bytes
  sb_segments :: "(segment \<times> nat \<times> nat) list"
  sb_starts :: "field_id \<Rightarrow> nat"
  sb_ends :: "field_id \<Rightarrow> nat"
  sb_indices :: "field_id \<Rightarrow> nat"
  sb_scalars :: "field_id \<Rightarrow> u64"
  sb_used :: nat
  sb_total :: nat
  sb_next :: field_id
  sb_finalized :: bool
  sb_failed :: bool
  sb_checksum_mask :: u64

definition kMaxSegments :: nat where "kMaxSegments = kMaxFieldsPerMessage * 2 + 1"

definition new_segmented_builder :: "compiled_message \<Rightarrow> bytes \<Rightarrow> segmented_builder" where
  "new_segmented_builder layout scratch_buffer =
     (let too_many = length (cm_fields layout) > kMaxFieldsPerMessage in
      \<lparr>sb_layout = layout, sb_scratch = scratch_buffer, sb_segments = [], sb_starts = (\<lambda>_. 0), sb_ends = (\<lambda>_. 0),
       sb_indices = (\<lambda>_. kMaxSegments), sb_scalars = (\<lambda>_. 0), sb_used = 0, sb_total = 0, sb_next = 0,
       sb_finalized = False, sb_failed = too_many,
       sb_checksum_mask = (if too_many then 0 else checksum_mask layout)\<rparr>)"

definition segment_bytes :: "bytes \<Rightarrow> segment \<Rightarrow> bytes" where
  "segment_bytes scratch seg = (case seg of Owned off n \<Rightarrow> subspan off n scratch | Borrowed data \<Rightarrow> data)"

text \<open>\<open>segments()\<close>\<close>

definition sb_spans :: "segmented_builder \<Rightarrow> bytes list" where
  "sb_spans b = map (\<lambda>(seg, _). segment_bytes (sb_scratch b) seg) (sb_segments b)"

definition sb_is_checksum_field :: "segmented_builder \<Rightarrow> field_id \<Rightarrow> bool" where
  "sb_is_checksum_field b fid \<longleftrightarrow> drop_bit fid (sb_checksum_mask b) AND 1 \<noteq> 0"

definition sb_fail :: "encode_status \<Rightarrow> segmented_builder \<Rightarrow> encode_status \<times> segmented_builder" where
  "sb_fail status b = (status, b\<lparr>sb_failed := True\<rparr>)"

subsection \<open>Appending segments\<close>

text \<open>A segment of the scratch buffer, and the record of a field whose bytes it holds.\<close>

definition sb_push_owned :: "bytes \<Rightarrow> segmented_builder \<Rightarrow> segmented_builder" where
  "sb_push_owned data b =
     b\<lparr>sb_scratch := blit (sb_used b) data (sb_scratch b),
       sb_segments := sb_segments b @ [(Owned (sb_used b) (length data), sb_total b, length data)],
       sb_used := sb_used b + length data, sb_total := sb_total b + length data\<rparr>"

definition sb_push_borrowed :: "bytes \<Rightarrow> segmented_builder \<Rightarrow> segmented_builder" where
  "sb_push_borrowed data b =
     b\<lparr>sb_segments := sb_segments b @ [(Borrowed data, sb_total b, length data)],
       sb_total := sb_total b + length data\<rparr>"

definition sb_record :: "field_id \<Rightarrow> segmented_builder \<Rightarrow> segmented_builder \<Rightarrow> segmented_builder" where
  "sb_record fid before after =
     after\<lparr>sb_starts := (sb_starts after)(fid := sb_total before),
       sb_indices := (sb_indices after)(fid := length (sb_segments before)),
       sb_ends := (sb_ends after)(fid := sb_total after)\<rparr>"

definition sb_full :: "nat \<Rightarrow> segmented_builder \<Rightarrow> bool" where
  "sb_full n b \<longleftrightarrow> n > length (sb_scratch b) - sb_used b \<or> length (sb_segments b) \<ge> kMaxSegments"

definition emit_alignment_gap :: "field_id \<Rightarrow> segmented_builder \<Rightarrow> encode_status \<times> segmented_builder" where
  "emit_alignment_gap next_id b =
     (let aligned = align_up (sb_total b) (cf_alignment (cm_fields (sb_layout b) ! next_id)) in
      if aligned = sb_total b then (ES_Ok, b)
      else
        let gap = wrap_size (aligned + (2 ^ 64 - sb_total b)) in
        if sb_full gap b then sb_fail ES_BufferTooSmall b
        else (ES_Ok, (sb_push_owned (replicate gap 0) b)\<lparr>sb_total := aligned\<rparr>))"

text \<open>The span handed to \<open>append_owned_bytes\<close> starts at the payload and is \<open>payload_size\<close> long.\<close>

definition append_owned_bytes ::
  "field_id \<Rightarrow> bytes \<Rightarrow> nat \<Rightarrow> segmented_builder \<Rightarrow> encode_status \<times> segmented_builder" where
  "append_owned_bytes fid payload payload_size b =
     (if sb_full payload_size b then sb_fail ES_BufferTooSmall b
      else if payload_size > length payload then (ES_OutOfBounds, b)
      else (ES_Ok, sb_record fid b (sb_push_owned (take payload_size payload) b)))"

definition append_filled_bytes ::
  "field_id \<Rightarrow> nat \<Rightarrow> u8 \<Rightarrow> segmented_builder \<Rightarrow> encode_status \<times> segmented_builder" where
  "append_filled_bytes fid fill_size fill_byte b =
     (if sb_full fill_size b then sb_fail ES_BufferTooSmall b
      else (ES_Ok, sb_record fid b (sb_push_owned (replicate fill_size fill_byte) b)))"

definition append_borrowed_bytes :: "field_id \<Rightarrow> bytes \<Rightarrow> segmented_builder \<Rightarrow> encode_status \<times> segmented_builder" where
  "append_borrowed_bytes fid payload b =
     (if length (sb_segments b) \<ge> kMaxSegments then sb_fail ES_BufferTooSmall b
      else (ES_Ok, sb_record fid b (sb_push_borrowed payload b)))"

text \<open>No check of the number of segments here.\<close>

definition append_scalar :: "field_id \<Rightarrow> u64 \<Rightarrow> segmented_builder \<Rightarrow> encode_status \<times> segmented_builder" where
  "append_scalar fid raw_value b =
     (let f = cm_fields (sb_layout b) ! fid; width = cf_width_bytes f in
      if width > length (sb_scratch b) - sb_used b then sb_fail ES_BufferTooSmall b
      else if length (sb_segments b) \<ge> kMaxSegments then (ES_OutOfBounds, b)
      else
        let b = sb_record fid b (sb_push_owned (write_unsigned_scalar_unchecked (cf_byte_order f) width raw_value) b) in
        (ES_Ok, b\<lparr>sb_scalars := (sb_scalars b)(fid := raw_value)\<rparr>))"

subsection \<open>Setters\<close>

definition sb_advance_field :: "field_id \<Rightarrow> segmented_builder \<Rightarrow> encode_status \<times> segmented_builder" where
  "sb_advance_field fid b =
     and_then (emit_alignment_gap fid b) (\<lambda>b.
     let f = cm_fields (sb_layout b) ! fid in
     if sb_is_checksum_field b fid then
       and_then (append_filled_bytes fid (cf_width_bytes f) 0 b) (\<lambda>b.
       (ES_Ok, b\<lparr>sb_scalars := (sb_scalars b)(fid := 0)\<rparr>))
     else if cf_has_expected_unsigned f then append_scalar fid (cf_expected_unsigned f) b
     else if cf_is_reserved f then append_filled_bytes fid (cf_fixed_size f) (cf_reserved_fill_byte f) b
     else sb_fail ES_InvalidData b)"

fun sb_advance_fields :: "field_id list \<Rightarrow> segmented_builder \<Rightarrow> encode_status \<times> segmented_builder" where
  "sb_advance_fields [] b = (ES_Ok, b)"
| "sb_advance_fields (fid # fids) b = and_then (sb_advance_field fid b) (sb_advance_fields fids)"

definition sb_advance_to :: "field_id \<Rightarrow> segmented_builder \<Rightarrow> encode_status \<times> segmented_builder" where
  "sb_advance_to target_id b =
     (if sb_failed b then (ES_InvalidData, b)
      else if target_id > length (cm_fields (sb_layout b)) then sb_fail ES_InvalidData b
      else and_then (sb_advance_fields [sb_next b..<target_id] b) (\<lambda>b. (ES_Ok, b\<lparr>sb_next := target_id\<rparr>)))"

definition sb_rejects :: "field_id \<Rightarrow> segmented_builder \<Rightarrow> bool" where
  "sb_rejects fid b \<longleftrightarrow> sb_failed b \<or> fid \<ge> length (cm_fields (sb_layout b)) \<or> fid < sb_next b"

text \<open>What every setter does once the kind of the field is accepted.\<close>

definition sb_set ::
  "(compiled_field \<Rightarrow> bool) \<Rightarrow> field_id \<Rightarrow>
   (compiled_field \<Rightarrow> segmented_builder \<Rightarrow> encode_status \<times> segmented_builder) \<Rightarrow>
   segmented_builder \<Rightarrow> encode_status \<times> segmented_builder" where
  "sb_set accepts fid append_field b =
     (if sb_rejects fid b then (ES_InvalidData, b)
      else
        let f = cm_fields (sb_layout b) ! fid in
        if \<not> accepts f then (ES_InvalidData, b)
        else and_then (sb_advance_to fid b) (\<lambda>b.
             and_then (append_field f b) (\<lambda>b. (ES_Ok, b\<lparr>sb_next := fid + 1\<rparr>))))"

definition sb_set_unsigned :: "field_id \<Rightarrow> u64 \<Rightarrow> segmented_builder \<Rightarrow> encode_status \<times> segmented_builder" where
  "sb_set_unsigned fid v = sb_set (\<lambda>f. cf_kind f = KUnsigned \<or> cf_kind f = KEnum) fid (\<lambda>_. append_scalar fid v)"

definition sb_set_signed :: "field_id \<Rightarrow> u64 \<Rightarrow> segmented_builder \<Rightarrow> encode_status \<times> segmented_builder" where
  "sb_set_signed fid v = sb_set (\<lambda>f. cf_kind f = KSigned) fid (\<lambda>_. append_scalar fid v)"

definition sb_set_float32 :: "field_id \<Rightarrow> u32 \<Rightarrow> segmented_builder \<Rightarrow> encode_status \<times> segmented_builder" where
  "sb_set_float32 fid v = sb_set (\<lambda>f. cf_kind f = KFloat32) fid (\<lambda>_. append_scalar fid (ucast v))"

definition sb_set_float64 :: "field_id \<Rightarrow> u64 \<Rightarrow> segmented_builder \<Rightarrow> encode_status \<times> segmented_builder" where
  "sb_set_float64 fid v = sb_set (\<lambda>f. cf_kind f = KFloat64) fid (\<lambda>_. append_scalar fid v)"

definition payload_size :: "compiled_field \<Rightarrow> bytes \<Rightarrow> nat" where
  "payload_size f payload = (if cf_dynamic_size f then length payload else cf_fixed_size f)"

definition sb_set_bytes :: "field_id \<Rightarrow> bytes \<Rightarrow> segmented_builder \<Rightarrow> encode_status \<times> segmented_builder" where
  "sb_set_bytes fid payload =
     sb_set (\<lambda>f. (cf_kind f = KBytes \<or> cf_kind f = KStruct) \<and> \<not> cf_is_reserved f) fid
       (\<lambda>f. append_owned_bytes fid payload (payload_size f payload))"

definition sb_attach_bytes :: "field_id \<Rightarrow> bytes \<Rightarrow> segmented_builder \<Rightarrow> encode_status \<times> segmented_builder" where
  "sb_attach_bytes fid payload =
     sb_set (\<lambda>f. cf_kind f = KBytes \<and> cf_dynamic_size f \<and> \<not> cf_is_reserved f) fid
       (\<lambda>_. append_borrowed_bytes fid payload)"

definition sb_set_string :: "field_id \<Rightarrow> bytes \<Rightarrow> segmented_builder \<Rightarrow> encode_status \<times> segmented_builder" where
  "sb_set_string fid str =
     sb_set (\<lambda>f. cf_kind f = KString) fid (\<lambda>f. append_owned_bytes fid str (payload_size f str))"

definition sb_attach_string :: "field_id \<Rightarrow> bytes \<Rightarrow> segmented_builder \<Rightarrow> encode_status \<times> segmented_builder" where
  "sb_attach_string fid str =
     sb_set (\<lambda>f. cf_kind f = KString \<and> cf_dynamic_size f) fid (\<lambda>_. append_borrowed_bytes fid str)"

subsection \<open>Finalize and copy\<close>

text \<open>\<open>visit_range\<close>: the chunks of the segments that meet the range, in order.\<close>

definition visit_range :: "segmented_builder \<Rightarrow> nat \<Rightarrow> nat \<Rightarrow> bytes list" where
  "visit_range b lo hi =
     List.map_filter (\<lambda>(seg, segment_start, len).
       let segment_end = segment_start + len in
       if segment_end \<le> lo \<or> segment_start \<ge> hi then None
       else
         let chunk_start = max lo segment_start; chunk_end = min hi segment_end in
         Some (subspan (chunk_start - segment_start) (chunk_end - chunk_start) (segment_bytes (sb_scratch b) seg)))
     (sb_segments b)"

text \<open>A store through the span of a segment.\<close>

definition store_in_segment :: "nat \<Rightarrow> bytes \<Rightarrow> segmented_builder \<Rightarrow> segmented_builder" where
  "store_in_segment index data b =
     (case sb_segments b ! index of
        (Owned off _, _) \<Rightarrow> b\<lparr>sb_scratch := blit off data (sb_scratch b)\<rparr>
      | (Borrowed d, pos) \<Rightarrow> b\<lparr>sb_segments := (sb_segments b)[index := (Borrowed (blit 0 data d), pos)]\<rparr>)"

fun sb_write_checksums :: "simd_ops \<Rightarrow> compiled_checksum list \<Rightarrow> segmented_builder \<Rightarrow> encode_status \<times> segmented_builder" where
  "sb_write_checksums ops [] b = (ES_Ok, b)"
| "sb_write_checksums ops (chk # chks) b =
     (case checksum_range (length (cm_fields (sb_layout b))) (sb_total b) (sb_starts b) (sb_ends b) chk of
        None \<Rightarrow> sb_fail ES_InvalidData b
      | Some (from_offset, to_offset) \<Rightarrow>
          if from_offset > to_offset \<or> to_offset > sb_total b then sb_fail ES_InvalidData b
          else
            let checksum_value = compute_segmented_builtin_checksum ops chk (visit_range b from_offset to_offset);
                b = b\<lparr>sb_scalars := (sb_scalars b)(cck_field_id chk := checksum_value)\<rparr>;
                segment_index = sb_indices b (cck_field_id chk);
                data = write_unsigned_scalar_unchecked (cf_byte_order (cm_fields (sb_layout b) ! cck_field_id chk))
                  (cck_result_width_bytes chk) checksum_value
            in sb_write_checksums ops chks
                 (if segment_index < length (sb_segments b) then store_in_segment segment_index data b else b))"

definition sb_finalize :: "simd_ops \<Rightarrow> segmented_builder \<Rightarrow> encode_status \<times> segmented_builder" where
  "sb_finalize ops b =
     (if sb_failed b then (ES_InvalidData, b)
      else if sb_finalized b then (ES_Ok, b)
      else and_then (sb_advance_to (length (cm_fields (sb_layout b))) b) (\<lambda>b.
           and_then (sb_write_checksums ops (cm_checksums (sb_layout b)) b) (\<lambda>b.
           if \<not> validations_pass (written_reader (sb_layout b) (sb_scalars b)) (cm_validations (sb_layout b))
           then sb_fail ES_InvalidData b
           else (ES_Ok, b\<lparr>sb_finalized := True\<rparr>))))"

text \<open>\<open>copy_to\<close>: the output buffer afterwards and the number of bytes written.\<close>

definition sb_copy_to :: "segmented_builder \<Rightarrow> bytes \<Rightarrow> encode_status + bytes \<times> nat" where
  "sb_copy_to b output =
     (if \<not> sb_finalized b then Inl ES_InvalidData
      else if length output < sb_total b then Inl ES_BufferTooSmall
      else Inr (fold (\<lambda>span (out, cursor). (blit cursor span out, cursor + length span)) (sb_spans b) (output, 0)))"

subsection \<open>\<open>ProtocolEncoder\<close>\<close>

text \<open>Protocols are compared by address; as for decode plans a number stands for the address.\<close>

record encode_plan =
  ep_protocol :: "nat option"
  ep_layout :: "compiled_message option"

definition encode_plan_valid :: "encode_plan \<Rightarrow> bool" where
  "encode_plan_valid plan \<longleftrightarrow> ep_protocol plan \<noteq> None \<and> ep_layout plan \<noteq> None"

definition make_encode_plan :: "nat \<Rightarrow> compiled_protocol \<Rightarrow> string \<Rightarrow> encode_plan option" where
  "make_encode_plan self p message_name =
     map_option (\<lambda>layout. \<lparr>ep_protocol = Some self, ep_layout = Some layout\<rparr>) (find_message p message_name)"

definition build_message :: "compiled_protocol \<Rightarrow> string \<Rightarrow> bytes \<Rightarrow> message_builder option" where
  "build_message p message_name buffer =
     map_option (\<lambda>layout. new_message_builder layout buffer) (find_message p message_name)"

definition build_segmented :: "compiled_protocol \<Rightarrow> string \<Rightarrow> bytes \<Rightarrow> segmented_builder option" where
  "build_segmented p message_name scratch_buffer =
     map_option (\<lambda>layout. new_segmented_builder layout scratch_buffer) (find_message p message_name)"

definition build_with_plan :: "nat \<Rightarrow> encode_plan \<Rightarrow> bytes \<Rightarrow> message_builder option" where
  "build_with_plan self plan buffer =
     (if \<not> encode_plan_valid plan \<or> ep_protocol plan \<noteq> Some self then None
      else map_option (\<lambda>layout. new_message_builder layout buffer) (ep_layout plan))"

definition build_segmented_with_plan :: "nat \<Rightarrow> encode_plan \<Rightarrow> bytes \<Rightarrow> segmented_builder option" where
  "build_segmented_with_plan self plan scratch_buffer =
     (if \<not> encode_plan_valid plan \<or> ep_protocol plan \<noteq> Some self then None
      else map_option (\<lambda>layout. new_segmented_builder layout scratch_buffer) (ep_layout plan))"

end
