(* ===== verification/Decoder_Spec.thy ===== *)
theory Decoder_Spec
  imports Decoder
begin

text \<open>
  What a decoded message is, stated without the loop. Every field is at the place where the
  previous one ends, aligned; its presence, extent and cached value are determined by the frame
  and by the earlier fields. \<open>assign_with\<close> succeeds exactly when a message with these properties
  exists, and returns it. The recursion through nested layouts needs no more fuel than there are
  structs, so its result satisfies the recursion equation of the code.
\<close>

subsection \<open>Field definitions of a layout\<close>

definition refs_below :: "nat \<Rightarrow> compiled_field \<Rightarrow> bool" where
  "refs_below k f \<longleftrightarrow>
     (cf_has_condition f \<longrightarrow> cf_condition_field f < k) \<and>
     (cf_has_presence f \<longrightarrow> cf_presence_field f < k) \<and>
     (cf_kind f = KBytes \<or> cf_kind f = KString \<longrightarrow> cf_dynamic_size f \<longrightarrow> cf_size_from_field f < k) \<and>
     (cf_kind f = KCollection \<longrightarrow> cf_dynamic_count f \<longrightarrow> cf_count_from_field f < k) \<and>
     (cf_kind f = KVariant \<longrightarrow> cf_tag_from_field f < k)"

lemma field_wf_refs: "field_wf fs f \<Longrightarrow> refs_below (length fs) f"
  unfolding field_wf_def refs_below_def modifiers_ok_def
  by (cases "cf_kind f") (auto simp: kind_ok_def numeric_ref_def split: if_splits)

subsection \<open>Messages that agree on the first fields\<close>

definition agree_below :: "nat \<Rightarrow> decoded_message \<Rightarrow> decoded_message \<Rightarrow> bool" where
  "agree_below k m m' \<longleftrightarrow>
     dm_message m = dm_message m' \<and>
     (\<forall>i<k. dm_cache m i = dm_cache m' i \<and> dm_present m i = dm_present m' i \<and> dm_resolved m i = dm_resolved m' i)"

lemma agree_below_refl [simp]: "agree_below k m m"
  by (simp add: agree_below_def)

lemma agree_below_sym: "agree_below k m m' \<Longrightarrow> agree_below k m' m"
  by (simp add: agree_below_def)

lemma agree_below_trans: "agree_below k m m' \<Longrightarrow> agree_below k m' m'' \<Longrightarrow> agree_below k m m''"
  by (simp add: agree_below_def)

lemma agree_below_mono: "agree_below k m m' \<Longrightarrow> j \<le> k \<Longrightarrow> agree_below j m m'"
  by (simp add: agree_below_def)

lemma raw_unsigned_agree: "agree_below k m m' \<Longrightarrow> i < k \<Longrightarrow> raw_unsigned m i = raw_unsigned m' i"
  by (simp add: raw_unsigned_def cached_scalar_raw_def dm_field_definition_def agree_below_def split: option.split)

lemma modifiers_agree:
  assumes "agree_below k m m'" and "refs_below k f"
  shows "condition_matches m f = condition_matches m' f" "presence_matches m f = presence_matches m' f"
  using assms raw_unsigned_agree [OF assms(1)]
  by (auto simp: condition_matches_def presence_matches_def refs_below_def)

lemma decode_field_size_agree:
  assumes "agree_below k m m'" and "refs_below k f"
  shows "decode_field_size nested p frame m f off = decode_field_size nested p frame m' f off"
  using assms(2) raw_unsigned_agree [OF assms(1)]
  by (auto simp: decode_field_size_def decode_collection_size_def decode_variant_size_def refs_below_def)

definition end_before :: "decoded_message \<Rightarrow> nat \<Rightarrow> nat" where
  "end_before m k = (case k of 0 \<Rightarrow> 0 | Suc i \<Rightarrow> fst (dm_resolved m i) + snd (dm_resolved m i))"

lemma end_before_simps [simp]:
  "end_before m 0 = 0"
  "end_before m (Suc i) = fst (dm_resolved m i) + snd (dm_resolved m i)"
  by (simp_all add: end_before_def)

lemma end_before_agree: "agree_below k m m' \<Longrightarrow> j \<le> k \<Longrightarrow> end_before m j = end_before m' j"
  by (cases j) (simp_all add: agree_below_def)

subsection \<open>One field\<close>

definition set_field :: "field_id \<Rightarrow> bool \<Rightarrow> nat \<times> nat \<Rightarrow> u64 option \<Rightarrow> decoded_message \<Rightarrow> decoded_message" where
  "set_field i present extent v m =
     m\<lparr>dm_present := (dm_present m)(i := present), dm_resolved := (dm_resolved m)(i := extent),
       dm_cache := (dm_cache m)(i := v)\<rparr>"

lemma set_field_simps [simp]:
  "dm_present (set_field i pr r v m) = (dm_present m)(i := pr)"
  "dm_resolved (set_field i pr r v m) = (dm_resolved m)(i := r)"
  "dm_cache (set_field i pr r v m) = (dm_cache m)(i := v)"
  "dm_message (set_field i pr r v m) = dm_message m"
  "dm_protocol (set_field i pr r v m) = dm_protocol m"
  "dm_frame (set_field i pr r v m) = dm_frame m"
  "dm_selected (set_field i pr r v m) = dm_selected m"
  "dm_selection_active (set_field i pr r v m) = dm_selection_active m"
  "dm_field_count (set_field i pr r v m) = dm_field_count m"
  by (simp_all add: set_field_def)

lemma agree_set_field: "k \<le> i \<Longrightarrow> agree_below k m (set_field i pr r v m)"
  by (simp add: agree_below_def)

text \<open>The state of a field after its turn, given the end of the field before it.\<close>

definition field_step ::
  "simd_ops \<Rightarrow> nested_decoder \<Rightarrow> compiled_protocol \<Rightarrow> bytes \<Rightarrow> decoded_message \<Rightarrow> nat \<Rightarrow> compiled_field \<Rightarrow>
   bool \<Rightarrow> nat \<times> nat \<Rightarrow> u64 option \<Rightarrow> bool" where
  "field_step ops nested p frame m off f present extent v \<longleftrightarrow>
     present = (condition_matches m f \<and> presence_matches m f) \<and>
     (if present then
        fst extent = align_up off (cf_alignment f) \<and>
        fst extent + snd extent \<le> length frame \<and>
        decode_field_size nested p frame m f (fst extent) = Inr (snd extent) \<and>
        v = (if supports_eager_scalar_cache f
             then read_unsigned_scalar (subspan (fst extent) (snd extent) frame) (cf_byte_order f) else None) \<and>
        (cf_has_expected_unsigned f \<longrightarrow> is_scalar f \<and> v = Some (cf_expected_unsigned f)) \<and>
        (cf_kind f = KString \<longrightarrow>
           runtime_validate_string ops (cf_string_encoding f) (subspan (fst extent) (snd extent) frame)) \<and>
        (cf_is_reserved f \<longrightarrow>
           (\<forall>b\<in>set (subspan (fst extent) (snd extent) frame). b = cf_reserved_fill_byte f))
      else extent = (off, 0) \<and> v = None)"

lemma field_step_agree:
  assumes "agree_below k m m'" and "refs_below k f"
  shows "field_step ops nested p frame m off f pr r v = field_step ops nested p frame m' off f pr r v"
  using modifiers_agree [OF assms] decode_field_size_agree [OF assms]
  by (simp add: field_step_def)

lemma supports_eager_scalar: "supports_eager_scalar_cache f \<Longrightarrow> is_scalar f"
  by (auto simp: supports_eager_scalar_cache_def split: if_splits)

lemma decode_field_size_scalar:
  "is_scalar f \<Longrightarrow> decode_field_size nested p frame m f off = Inr (cf_width_bytes f)"
  by (auto simp: decode_field_size_def is_scalar_def)

lemma eager_cache_set_field:
  assumes "dm_field_definition m i = Some f" and "dm_cache m i = None"
    and "off + n \<le> length frame" and "decode_field_size nested p frame m' f off = Inr n"
  shows "eager_cache_scalar i (subspan off n frame)
           (m\<lparr>dm_present := (dm_present m)(i := True), dm_resolved := (dm_resolved m)(i := r)\<rparr>) =
         set_field i True r (if supports_eager_scalar_cache f
             then read_unsigned_scalar (subspan off n frame) (cf_byte_order f) else None) m"
proof -
  have d: "dm_field_definition (m\<lparr>dm_present := pr, dm_resolved := rs\<rparr>) i = Some f" for pr rs
    using assms(1) by (simp add: dm_field_definition_def)
  have c: "(dm_cache m)(i := None) = dm_cache m" using assms(2) by auto
  have len: "supports_eager_scalar_cache f \<Longrightarrow> length (subspan off n frame) = cf_width_bytes f"
    using decode_field_size_scalar [OF supports_eager_scalar, of f nested p frame m' off] assms(3,4)
    by (simp add: span_simps)
  show ?thesis
    by (cases "supports_eager_scalar_cache f"; cases "read_unsigned_scalar (subspan off n frame) (cf_byte_order f)")
      (simp_all add: eager_cache_scalar_def d set_field_def c len)
qed

lemma cached_scalar_set_field:
  "dm_field_definition m i = Some f \<Longrightarrow>
   cached_scalar_raw (set_field i pr r v m) i = (if is_scalar f then v else None)"
  by (simp add: cached_scalar_raw_def dm_field_definition_def split: option.splits)

text \<open>One turn of the loop yields exactly the state that \<open>field_step\<close> describes.\<close>

lemma decode_field_iff:
  assumes d: "dm_field_definition m (cf_id f) = Some f" and c: "dm_cache m (cf_id f) = None"
    and size: "length frame \<le> SIZE_MAX"
  shows "decode_field ops nested p frame f (m, off) = Inr (m', off') \<longleftrightarrow>
    (\<exists>pr r v. m' = set_field (cf_id f) pr r v m \<and> off' = fst r + snd r \<and>
       field_step ops nested p frame m off f pr r v)"
proof (cases "condition_matches m f \<and> presence_matches m f")
  case False
  have "(dm_cache m)(cf_id f := None) = dm_cache m" using c by auto
  then have "m\<lparr>dm_present := (dm_present m)(cf_id f := False), dm_resolved := (dm_resolved m)(cf_id f := (off, 0))\<rparr>
      = set_field (cf_id f) False (off, 0) None m"
    by (simp add: set_field_def)
  with False have L: "decode_field ops nested p frame f (m, off) = Inr (set_field (cf_id f) False (off, 0) None m, off)"
    by (auto simp only: decode_field_def prod.case split: if_splits)
  have "field_step ops nested p frame m off f pr r v \<longleftrightarrow> \<not> pr \<and> r = (off, 0) \<and> v = None" for pr r v
    unfolding field_step_def using False by (cases pr) auto
  then have "(\<exists>pr r v. m' = set_field (cf_id f) pr r v m \<and> off' = fst r + snd r \<and>
       field_step ops nested p frame m off f pr r v) \<longleftrightarrow> m' = set_field (cf_id f) False (off, 0) None m \<and> off' = off"
    by (simp only:) (rule iffI, (elim exE conjE, simp), rule exI [of _ False], simp)
  then show ?thesis
    by (simp only: L sum.inject prod.inject) (rule iffI; elim conjE; intro conjI; rule sym; assumption)
next
  case True
  define o1 where "o1 = align_up off (cf_alignment f)"
  define v where "v = (\<lambda>n. if supports_eager_scalar_cache f
      then read_unsigned_scalar (subspan o1 n frame) (cf_byte_order f) else None)"
  have add: "checked_add_size o1 n = Some (o1 + n)" if "o1 + n \<le> length frame" for n
    using that size by (auto simp: checked_add_size_def)
  have cache: "cached_scalar_raw (set_field (cf_id f) True r (v n) m) (cf_id f) = v n" for r n
    using cached_scalar_set_field [OF d] supports_eager_scalar [of f] by (auto simp: v_def)
  have eager: "eager_cache_scalar (cf_id f) (subspan o1 n frame)
        (m\<lparr>dm_present := (dm_present m)(cf_id f := True), dm_resolved := (dm_resolved m)(cf_id f := (o1, n))\<rparr>)
      = set_field (cf_id f) True (o1, n) (v n) m"
    if "o1 + n \<le> length frame" "decode_field_size nested p frame m f o1 = Inr n" for n
    unfolding v_def by (rule eager_cache_set_field [OF d c that])
  have sc: "v n = Some w \<Longrightarrow> is_scalar f" for n w
    using supports_eager_scalar [of f] by (auto simp: v_def split: if_splits)
  define ok where "ok = (\<lambda>n. (cf_has_expected_unsigned f \<longrightarrow> v n = Some (cf_expected_unsigned f)) \<and>
      (cf_kind f = KString \<longrightarrow> runtime_validate_string ops (cf_string_encoding f) (subspan o1 n frame)) \<and>
      (cf_is_reserved f \<longrightarrow> (\<forall>b\<in>set (subspan o1 n frame). b = cf_reserved_fill_byte f)))"
  have step: "field_step ops nested p frame m off f pr (o2, n) w \<longleftrightarrow>
      pr \<and> o2 = o1 \<and> o1 + n \<le> length frame \<and> decode_field_size nested p frame m f o1 = Inr n \<and> w = v n \<and> ok n"
    for pr o2 n w
    unfolding field_step_def v_def ok_def using True sc [unfolded v_def] by (cases pr) (auto simp: o1_def)
  show ?thesis
  proof
    assume L: "decode_field ops nested p frame f (m, off) = Inr (m', off')"
    then have o1: "o1 \<le> length frame"
      using True by (auto simp: decode_field_def o1_def [symmetric] Let_def split: if_splits)
    with L True obtain n where n: "decode_field_size nested p frame m f o1 = Inr n"
      by (auto simp: decode_field_def o1_def [symmetric] Let_def bind_res_Inr_iff)
    have fits: "o1 + n \<le> length frame"
      using L True o1 n by (auto simp: decode_field_def o1_def [symmetric] Let_def checked_add_size_def
          split: if_splits option.splits)
    with L True o1 n have "m' = set_field (cf_id f) True (o1, n) (v n) m" "off' = o1 + n"
      "ok n"
      by (simp_all add: decode_field_def o1_def [symmetric] Let_def add eager cache list_all_iff ok_def split: if_splits)
    with step [of True o1 n "v n"] n fits show "\<exists>pr r v. m' = set_field (cf_id f) pr r v m \<and> off' = fst r + snd r \<and>
        field_step ops nested p frame m off f pr r v"
      by (metis fst_conv snd_conv)
  next
    assume "\<exists>pr r v. m' = set_field (cf_id f) pr r v m \<and> off' = fst r + snd r \<and>
        field_step ops nested p frame m off f pr r v"
    then obtain n where n: "decode_field_size nested p frame m f o1 = Inr n" "o1 + n \<le> length frame"
      and m': "m' = set_field (cf_id f) True (o1, n) (v n) m" "off' = o1 + n"
      and "ok n"
      by (auto simp: step)
    from n(2) have "o1 \<le> length frame" by simp
    then show "decode_field ops nested p frame f (m, off) = Inr (m', off')"
      using True n \<open>ok n\<close> [unfolded ok_def]
      by (simp add: decode_field_def o1_def [symmetric] Let_def add [OF n(2)] eager [OF n(2,1)] cache m'
          list_all_iff)
  qed
qed

subsection \<open>The loop over the fields\<close>

definition same_outside :: "nat \<Rightarrow> decoded_message \<Rightarrow> decoded_message \<Rightarrow> bool" where
  "same_outside k m m' \<longleftrightarrow>
     dm_protocol m' = dm_protocol m \<and> dm_message m' = dm_message m \<and> dm_frame m' = dm_frame m \<and>
     dm_selected m' = dm_selected m \<and> dm_selection_active m' = dm_selection_active m \<and>
     dm_field_count m' = dm_field_count m \<and>
     (\<forall>i\<ge>k. dm_present m' i = dm_present m i \<and> dm_resolved m' i = dm_resolved m i \<and> dm_cache m' i = dm_cache m i)"

definition field_decoded ::
  "simd_ops \<Rightarrow> nested_decoder \<Rightarrow> compiled_protocol \<Rightarrow> bytes \<Rightarrow> decoded_message \<Rightarrow> compiled_field \<Rightarrow> bool" where
  "field_decoded ops nested p frame m f \<longleftrightarrow>
     field_step ops nested p frame m (end_before m (cf_id f)) f
       (dm_present m (cf_id f)) (dm_resolved m (cf_id f)) (dm_cache m (cf_id f))"

lemma field_decoded_agree:
  assumes a: "agree_below (Suc (cf_id f)) m m'" and r: "refs_below (cf_id f) f"
  shows "field_decoded ops nested p frame m f = field_decoded ops nested p frame m' f"
proof -
  have b: "agree_below (cf_id f) m m'" by (rule agree_below_mono [OF a]) simp
  show ?thesis
    using a unfolding field_decoded_def field_step_agree [OF b r] end_before_agree [OF b order_refl]
    by (simp add: agree_below_def)
qed

lemma message_eqI:
  assumes "agree_below k m m'" and "same_outside k m m'" shows "m' = m"
  using assms
  by (intro decoded_message.equality) (auto simp: agree_below_def same_outside_def fun_eq_iff not_less [symmetric])

lemma decode_fields_iff:
  assumes "dm_message m = Some layout" and "cm_fields layout = done @ fs"
    and "\<forall>i<length (done @ fs). cf_id ((done @ fs) ! i) = i \<and> refs_below i ((done @ fs) ! i)"
    and "\<forall>i\<ge>length done. dm_cache m i = None" and "length frame \<le> SIZE_MAX"
    and "off = end_before m (length done)"
  shows "decode_fields ops nested p frame fs (m, off) = Inr (m', off') \<longleftrightarrow>
    agree_below (length done) m m' \<and> same_outside (length (done @ fs)) m m' \<and>
    (\<forall>f\<in>set fs. field_decoded ops nested p frame m' f) \<and> off' = end_before m' (length (done @ fs))"
  using assms
proof (induction fs arbitrary: m off "done")
  case Nil
  have "m' = m" if "agree_below (length done) m m'" "same_outside (length done) m m'"
    using that by (rule message_eqI)
  then show ?case using Nil.prems(6) by (auto simp: same_outside_def)
next
  case (Cons f fs)
  let ?k = "length done"
  have f: "cf_id f = ?k" "refs_below ?k f"
    using Cons.prems(3) by (metis length_append length_Cons less_add_Suc1 nth_append_length add_Suc_right)+
  have d: "dm_field_definition m (cf_id f) = Some f"
    using Cons.prems(1,2) f(1) by (simp add: dm_field_definition_def)
  have c: "dm_cache m (cf_id f) = None" using Cons.prems(4) f(1) by simp
  note one = decode_field_iff [OF d c Cons.prems(5)]
  have IH: "decode_fields ops nested p frame fs (set_field ?k pr r v m, fst r + snd r) = Inr (m', off') \<longleftrightarrow>
      agree_below (Suc ?k) (set_field ?k pr r v m) m' \<and>
      same_outside (length (done @ f # fs)) (set_field ?k pr r v m) m' \<and>
      (\<forall>f\<in>set fs. field_decoded ops nested p frame m' f) \<and> off' = end_before m' (length (done @ f # fs))"
    for pr r v
    using Cons.IH [of "set_field ?k pr r v m" "done @ [f]" "fst r + snd r"] Cons.prems
    by simp
  have outside: "same_outside (length (done @ f # fs)) (set_field ?k pr r v m) m' =
      same_outside (length (done @ f # fs)) m m'" for pr r v
    by (auto simp: same_outside_def)
  have agree: "agree_below (Suc ?k) (set_field ?k pr r v m) m' \<longleftrightarrow>
      agree_below ?k m m' \<and> dm_present m' ?k = pr \<and> dm_resolved m' ?k = r \<and> dm_cache m' ?k = v" for pr r v
    by (auto simp: agree_below_def less_Suc_eq)
  have step: "field_step ops nested p frame m off f (dm_present m' ?k) (dm_resolved m' ?k) (dm_cache m' ?k) =
      field_decoded ops nested p frame m' f" if "agree_below ?k m m'"
    using field_step_agree [OF that f(2)] end_before_agree [OF that order_refl] f(1) Cons.prems(6)
    by (simp add: field_decoded_def)
  have "decode_fields ops nested p frame (f # fs) (m, off) = Inr (m', off') \<longleftrightarrow>
      (\<exists>pr r v. field_step ops nested p frame m off f pr r v \<and>
         decode_fields ops nested p frame fs (set_field ?k pr r v m, fst r + snd r) = Inr (m', off'))"
    unfolding decode_fields.simps bind_res_Inr_iff split_paired_Ex one f(1) by force
  also have "\<dots> \<longleftrightarrow> agree_below ?k m m' \<and> same_outside (length (done @ f # fs)) m m' \<and>
      (\<forall>g\<in>set (f # fs). field_decoded ops nested p frame m' g) \<and> off' = end_before m' (length (done @ f # fs))"
    unfolding IH outside agree using step by (auto simp del: split_paired_Ex)
  finally show ?case .
qed

subsection \<open>Checksums and validation rules\<close>

definition checksum_holds :: "simd_ops \<Rightarrow> bytes \<Rightarrow> decoded_message \<Rightarrow> compiled_checksum \<Rightarrow> bool" where
  "checksum_holds ops frame m c \<longleftrightarrow>
     cck_function c \<noteq> None \<and>
     (\<exists>from to. checksum_anchor_offset (cck_from c) frame m = Some from \<and>
        checksum_anchor_offset (cck_to c) frame m = Some to \<and> from \<le> to \<and> to \<le> length frame \<and>
        raw_unsigned m (cck_field_id c) = Some (runtime_checksum ops c (subspan from (to - from) frame)))"

lemma check_checksums_iff: "check_checksums ops frame m cs = Inr () \<longleftrightarrow> (\<forall>c\<in>set cs. checksum_holds ops frame m c)"
  by (induction cs) (auto simp: checksum_holds_def Let_def not_less split: option.splits if_splits)

definition validation_holds :: "decoded_message \<Rightarrow> compiled_validation_rule \<Rightarrow> bool" where
  "validation_holds m r \<longleftrightarrow>
     (validation_applies m r \<longrightarrow>
        (\<exists>lhs rhs. raw_unsigned m (cvr_field_id r) = Some lhs \<and>
           (if cvr_compare_to_field r then raw_unsigned m (cvr_other_field_id r) = Some rhs else rhs = cvr_value r) \<and>
           validation_operator_matches (cvr_op r) lhs (rhs * cvr_multiplier r)))"

lemma check_validations_Cons:
  "check_validations m (r # rs) = Inr () \<longleftrightarrow> validation_holds m r \<and> check_validations m rs = Inr ()"
proof (cases "validation_applies m r")
  case True
  have mult: "(if x \<noteq> 1 then v * x else v) = v * x" for v x :: u64 by simp
  show ?thesis
    using True unfolding check_validations.simps validation_holds_def mult Let_def
    by (cases "raw_unsigned m (cvr_field_id r)"; cases "raw_unsigned m (cvr_other_field_id r)") auto
qed (simp add: validation_holds_def)

lemma check_validations_iff: "check_validations m rs = Inr () \<longleftrightarrow> (\<forall>r\<in>set rs. validation_holds m r)"
proof (induction rs)
  case (Cons r rs)
  then show ?case unfolding check_validations_Cons by simp
qed simp

subsection \<open>The whole message\<close>

definition decoded_as ::
  "simd_ops \<Rightarrow> nested_decoder \<Rightarrow> compiled_protocol \<Rightarrow> compiled_message \<Rightarrow> bytes \<Rightarrow>
   (field_id \<Rightarrow> bool) option \<Rightarrow> bool \<Rightarrow> decoded_message \<Rightarrow> nat \<Rightarrow> bool" where
  "decoded_as ops nested p layout frame selected allow_prefix m n \<longleftrightarrow>
     cm_minimum_size layout \<le> length frame \<and>
     dm_protocol m = Some p \<and> dm_message m = Some layout \<and> dm_field_count m = length (cm_fields layout) \<and>
     dm_selection_active m = (selected \<noteq> None) \<and>
     dm_selected m = (case selected of None \<Rightarrow> (\<lambda>_. True) | Some s \<Rightarrow> s) \<and>
     dm_frame m = (if cm_allow_trailing_bytes layout then frame else take n frame) \<and>
     (\<forall>i\<ge>length (cm_fields layout). \<not> dm_present m i \<and> dm_resolved m i = (0, 0) \<and> dm_cache m i = None) \<and>
     (\<forall>f\<in>set (cm_fields layout). field_decoded ops nested p frame m f) \<and>
     n = end_before m (length (cm_fields layout)) \<and>
     (allow_prefix \<or> cm_allow_trailing_bytes layout \<or> n = length frame) \<and>
     (\<forall>c\<in>set (cm_checksums layout). checksum_holds ops frame m c) \<and>
     (\<forall>r\<in>set (cm_validations layout). validation_holds m r)"

lemma frame_update_same:
  "raw_unsigned (m\<lparr>dm_frame := b\<rparr>) i = raw_unsigned m i"
  "checksum_anchor_offset a frame (m\<lparr>dm_frame := b\<rparr>) = checksum_anchor_offset a frame m"
  "checksum_holds ops frame (m\<lparr>dm_frame := b\<rparr>) c = checksum_holds ops frame m c"
  "validation_holds (m\<lparr>dm_frame := b\<rparr>) r = validation_holds m r"
  "end_before (m\<lparr>dm_frame := b\<rparr>) k = end_before m k"
  "agree_below k m (m\<lparr>dm_frame := b\<rparr>)"
proof -
  show agree: "agree_below k m (m\<lparr>dm_frame := b\<rparr>)" for k by (simp add: agree_below_def)
  show raw: "raw_unsigned (m\<lparr>dm_frame := b\<rparr>) i = raw_unsigned m i" for i
    by (rule raw_unsigned_agree [OF agree_below_sym [OF agree [of "Suc i"]]]) simp
  show anchor: "checksum_anchor_offset a frame (m\<lparr>dm_frame := b\<rparr>) = checksum_anchor_offset a frame m" for a
    by (simp add: checksum_anchor_offset_def split: checksum_anchor_kind.split)
  show "checksum_holds ops frame (m\<lparr>dm_frame := b\<rparr>) c = checksum_holds ops frame m c"
    by (simp add: checksum_holds_def raw anchor)
  show "validation_holds (m\<lparr>dm_frame := b\<rparr>) r = validation_holds m r"
    by (simp add: validation_holds_def validation_applies_def raw)
  show "end_before (m\<lparr>dm_frame := b\<rparr>) k = end_before m k" by (cases k) simp_all
qed

lemma layout_wf_fields:
  assumes "layout_wf layout"
  shows "length (cm_fields layout) \<le> 64"
    "\<forall>i<length (cm_fields layout). cf_id (cm_fields layout ! i) = i \<and> refs_below i (cm_fields layout ! i)"
proof -
  show "length (cm_fields layout) \<le> 64" using assms by (simp add: layout_wf_def)
  have "field_wf (take i (cm_fields layout)) (cm_fields layout ! i)" if "i < length (cm_fields layout)" for i
    using assms that by (simp add: layout_wf_def fields_wf_def)
  then show "\<forall>i<length (cm_fields layout). cf_id (cm_fields layout ! i) = i \<and> refs_below i (cm_fields layout ! i)"
    using field_wf_refs by (fastforce simp: field_wf_def)
qed

lemma assign_with_parts:
  assumes wf: "layout_wf layout"
  shows "assign_with ops nested p layout frame selected pre = Inr (m, n) \<longleftrightarrow>
    cm_minimum_size layout \<le> length frame \<and>
    (\<exists>m1. decode_fields ops nested p frame (cm_fields layout) (initial_decoded_message p layout frame selected, 0) = Inr (m1, n) \<and>
       (pre \<or> cm_allow_trailing_bytes layout \<or> n = length frame) \<and>
       (\<forall>c\<in>set (cm_checksums layout). checksum_holds ops frame m1 c) \<and>
       (\<forall>r\<in>set (cm_validations layout). validation_holds m1 r) \<and>
       m = m1\<lparr>dm_frame := if cm_allow_trailing_bytes layout then dm_frame m1 else take n frame\<rparr>)"
proof -
  have id: "m1 = m1\<lparr>dm_frame := dm_frame m1\<rparr>" for m1 :: decoded_message by simp
  have len: "\<not> kMaxFieldsPerMessage < length (cm_fields layout)"
    using layout_wf_fields(1) [OF wf] by (simp add: kMaxFieldsPerMessage_def)
  have unit: "(\<exists>u. P u) \<longleftrightarrow> P ()" for P by (auto intro: exI [of _ "()"])
  show ?thesis
    unfolding assign_with_def if_not_P [OF len] if_Inr_iff bind_res_Inr_iff split_paired_Ex prod.case unit
      check_checksums_iff check_validations_iff
    by (cases "cm_allow_trailing_bytes layout") (auto simp: not_less)
qed

theorem assign_with_iff:
  assumes wf: "layout_wf layout" and size: "length frame \<le> SIZE_MAX"
  shows "assign_with ops nested p layout frame selected pre = Inr (m, n) \<longleftrightarrow>
    decoded_as ops nested p layout frame selected pre m n"
proof -
  let ?fs = "cm_fields layout" and ?m0 = "initial_decoded_message p layout frame selected"
  define up where "up = (\<lambda>m1 :: decoded_message. m1\<lparr>dm_frame := if cm_allow_trailing_bytes layout then frame else take n frame\<rparr>)"
  have m0: "dm_message ?m0 = Some layout" "\<forall>i\<ge>0. dm_cache ?m0 i = None" "agree_below 0 ?m0 m \<longleftrightarrow> dm_message m = Some layout" for m
    by (auto simp: initial_decoded_message_def empty_decoded_message_def agree_below_def)
  have loop: "decode_fields ops nested p frame ?fs (?m0, 0) = Inr (m1, n) \<longleftrightarrow>
      dm_message m1 = Some layout \<and> same_outside (length ?fs) ?m0 m1 \<and>
      (\<forall>f\<in>set ?fs. field_decoded ops nested p frame m1 f) \<and> n = end_before m1 (length ?fs)" for m1
    using decode_fields_iff [OF m0(1), of "[]" ?fs frame 0] layout_wf_fields(2) [OF wf] size m0 by simp
  have same: "same_outside (length ?fs) ?m0 m1 \<longleftrightarrow>
      dm_protocol m1 = Some p \<and> dm_message m1 = Some layout \<and> dm_frame m1 = frame \<and>
      dm_field_count m1 = length ?fs \<and> dm_selection_active m1 = (selected \<noteq> None) \<and>
      dm_selected m1 = (case selected of None \<Rightarrow> (\<lambda>_. True) | Some s \<Rightarrow> s) \<and>
      (\<forall>i\<ge>length ?fs. \<not> dm_present m1 i \<and> dm_resolved m1 i = (0, 0) \<and> dm_cache m1 i = None)" for m1
    by (auto simp: same_outside_def initial_decoded_message_def empty_decoded_message_def)
  have fd: "field_decoded ops nested p frame (m1\<lparr>dm_frame := b\<rparr>) f = field_decoded ops nested p frame m1 f"
    if "f \<in> set ?fs" for m1 f b
    using that layout_wf_fields(2) [OF wf] field_decoded_agree [OF frame_update_same(6)]
    by (metis in_set_conv_nth)
  have body: "(\<exists>m1. decode_fields ops nested p frame ?fs (?m0, 0) = Inr (m1, n) \<and>
       (pre \<or> cm_allow_trailing_bytes layout \<or> n = length frame) \<and>
       (\<forall>c\<in>set (cm_checksums layout). checksum_holds ops frame m1 c) \<and>
       (\<forall>r\<in>set (cm_validations layout). validation_holds m1 r) \<and>
       m = m1\<lparr>dm_frame := if cm_allow_trailing_bytes layout then dm_frame m1 else take n frame\<rparr>)
     \<longleftrightarrow> decoded_as ops nested p layout frame selected pre m n" (is "(\<exists>m1. ?P m1) \<longleftrightarrow> ?D")
    if min: "cm_minimum_size layout \<le> length frame"
  proof
    assume "\<exists>m1. ?P m1"
    then obtain m1 where P: "?P m1" by blast
    then show ?D
      unfolding loop same decoded_as_def using min by (auto simp: frame_update_same fd)
  next
    assume D: ?D
    have "?P (m\<lparr>dm_frame := frame\<rparr>)"
      using D unfolding loop same decoded_as_def by (auto simp: frame_update_same fd)
    then show "\<exists>m1. ?P m1" by blast
  qed
  show ?thesis
    unfolding assign_with_parts [OF wf] using body by (auto simp: decoded_as_def)
qed

subsection \<open>The recursion through nested layouts\<close>

lemma decode_elements_cong:
  assumes "\<And>fr. nested layout fr = nested' layout fr"
  shows "decode_elements nested layout frame off n t = decode_elements nested' layout frame off n t"
  by (induction n arbitrary: t) (auto simp: assms intro!: bind_res_cong split: option.split)

lemma find_variant_case_mem:
  assumes "lookup_ok f" and "find_variant_case f tag = Some c"
  shows "c \<in> set (cf_variant_cases f)"
proof -
  have "lower_bound_case cs tag = Some c \<Longrightarrow> c \<in> set cs" for cs
    by (induction cs) (auto split: if_splits)
  with assms show ?thesis
    by (auto simp: find_variant_case_def lookup_ok_def Let_def split: if_splits option.splits dest!: spec)
qed

lemma decode_field_size_cong:
  assumes nested: "\<And>r l fr. r \<in> field_refs f \<Longrightarrow> struct_by_id p r = Some l \<Longrightarrow> nested l fr = nested' l fr"
    and kind: "kind_ok fs f"
  shows "decode_field_size nested p frame m f off = decode_field_size nested' p frame m f off"
proof (cases "cf_kind f")
  case KVariant
  then have "lookup_ok f" using kind by (simp add: kind_ok_def)
  have "nested l fr = nested' l fr"
    if "find_variant_case f tag = Some c" "struct_by_id p (cvc_struct_id c) = Some l" for tag c l fr
    using nested [OF _ that(2)] find_variant_case_mem [OF \<open>lookup_ok f\<close> that(1)] KVariant
    by (simp add: field_refs_def)
  with KVariant show ?thesis
    by (auto simp: decode_field_size_def decode_variant_size_def split: option.split)
next
  case KCollection
  with nested show ?thesis
    by (auto simp: decode_field_size_def decode_collection_size_def field_refs_def Let_def
        intro!: bind_res_cong split: option.split intro: decode_elements_cong)
next
  case KStruct
  with nested show ?thesis
    by (auto simp: decode_field_size_def field_refs_def split: option.split)
qed (simp_all add: decode_field_size_def)

lemma decode_fields_cong:
  assumes "\<And>r l fr. r \<in> \<Union> (field_refs ` set fs) \<Longrightarrow> struct_by_id p r = Some l \<Longrightarrow> nested l fr = nested' l fr"
    and "\<forall>f\<in>set fs. \<exists>gs. kind_ok gs f"
  shows "decode_fields ops nested p frame fs s = decode_fields ops nested' p frame fs s"
  using assms
proof (induction fs arbitrary: s)
  case (Cons f fs)
  obtain gs where "kind_ok gs f" using Cons.prems(2) by auto
  then have "decode_field_size nested p frame m f off = decode_field_size nested' p frame m f off" for m off
    by (rule decode_field_size_cong [rotated]) (use Cons.prems(1) in auto)
  then have "decode_field ops nested p frame f s = decode_field ops nested' p frame f s"
    unfolding decode_field_def by (simp only:)
  moreover have "decode_fields ops nested p frame fs t = decode_fields ops nested' p frame fs t" for t
    using Cons.prems by (intro Cons.IH) auto
  then have "decode_fields ops nested p frame fs = decode_fields ops nested' p frame fs" by auto
  ultimately show ?case by simp
qed simp

lemma layout_wf_kinds: "layout_wf layout \<Longrightarrow> \<forall>f\<in>set (cm_fields layout). \<exists>gs. kind_ok gs f"
  unfolding layout_wf_def fields_wf_def field_wf_def by (metis in_set_conv_nth)

lemma assign_with_cong:
  assumes "layout_wf layout"
    and "\<And>r l fr. r \<in> layout_refs layout \<Longrightarrow> struct_by_id p r = Some l \<Longrightarrow> nested l fr = nested' l fr"
  shows "assign_with ops nested p layout frame selected pre = assign_with ops nested' p layout frame selected pre"
  using decode_fields_cong [OF _ layout_wf_kinds [OF assms(1)], of p nested nested' ops frame] assms(2)
  by (simp add: assign_with_def layout_refs_def)

definition protocol_wf :: "compiled_protocol \<Rightarrow> bool" where
  "protocol_wf p \<longleftrightarrow>
     (\<forall>l\<in>set (cp_messages p @ cp_structs p). layout_wf l \<and> nesting_within (cp_structs p) (length (cp_structs p)) l)"

lemma compile_protocol_protocol_wf:
  "compile_protocol reg d = Inr p \<Longrightarrow> registry_ok reg \<Longrightarrow> definition_sized d \<Longrightarrow> protocol_wf p"
  using compile_protocol_wf [of reg d p] by (auto simp: protocol_wf_def)

lemma struct_by_id_Some_iff: "struct_by_id p r = Some l \<longleftrightarrow> r < length (cp_structs p) \<and> l = cp_structs p ! r"
  by (auto simp: struct_by_id_def)

lemma protocol_wf_struct:
  "protocol_wf p \<Longrightarrow> struct_by_id p r = Some l \<Longrightarrow> layout_wf l \<and> nesting_within (cp_structs p) (length (cp_structs p)) l"
  by (auto simp: protocol_wf_def struct_by_id_Some_iff)

lemma nesting_within_ref:
  assumes "nesting_within (cp_structs p) d l" and "r \<in> layout_refs l"
  obtains e where "d = Suc e" "struct_by_id p r = Some (cp_structs p ! r)" "nesting_within (cp_structs p) e (cp_structs p ! r)"
  using assms by (cases d) (auto simp: struct_by_id_Some_iff)

lemma nested_size_fuel:
  assumes p: "protocol_wf p"
  shows "nesting_within (cp_structs p) d l \<Longrightarrow> layout_wf l \<Longrightarrow> d < k \<Longrightarrow> d < k' \<Longrightarrow>
    nested_size ops p k l fr = nested_size ops p k' l fr"
proof (induction d arbitrary: k k' l fr rule: less_induct)
  case (less d)
  obtain a b where k: "k = Suc a" "k' = Suc b" using less.prems by (cases k; cases k') auto
  have "assign_with ops (nested_size ops p a) p l fr None True = assign_with ops (nested_size ops p b) p l fr None True"
  proof (rule assign_with_cong [OF less.prems(2)])
    fix r l' fr'
    assume r: "r \<in> layout_refs l" "struct_by_id p r = Some l'"
    with nesting_within_ref [OF less.prems(1) r(1)] obtain e where e: "d = Suc e" "nesting_within (cp_structs p) e l'"
      by (metis option.inject)
    then show "nested_size ops p a l' fr' = nested_size ops p b l' fr'"
      using less.prems k protocol_wf_struct [OF p r(2)] by (intro less.IH) auto
  qed
  then show ?case by (simp add: k)
qed

text \<open>The number of bytes a nested layout takes.\<close>

definition consumed_size :: "simd_ops \<Rightarrow> compiled_protocol \<Rightarrow> nested_decoder" where
  "consumed_size ops p l frame = bind_res (assign_from_layout ops p l frame None True) (\<lambda>(_, n). Inr n)"

lemma assign_from_layout_rec:
  assumes p: "protocol_wf p" and l: "layout_wf l" "nesting_within (cp_structs p) (length (cp_structs p)) l"
  shows "assign_from_layout ops p l frame selected pre = assign_with ops (consumed_size ops p) p l frame selected pre"
  unfolding assign_from_layout_def
proof (rule assign_with_cong [OF l(1)])
  fix r l' fr
  let ?n = "length (cp_structs p)"
  assume r: "r \<in> layout_refs l" "struct_by_id p r = Some l'"
  then obtain e where e: "?n = Suc e" "nesting_within (cp_structs p) e l'"
    using nesting_within_ref [OF l(2)] by (metis option.inject)
  have wf: "layout_wf l'" using protocol_wf_struct [OF p r(2)] by simp
  have "nested_size ops p ?n l' fr = nested_size ops p (Suc ?n) l' fr"
    using e by (intro nested_size_fuel [OF p _ wf]) auto
  then show "nested_size ops p ?n l' fr = consumed_size ops p l' fr"
    by (simp add: consumed_size_def assign_from_layout_def)
qed

subsection \<open>The fuel is enough\<close>

definition fuel_error :: "decode_status + 'a \<Rightarrow> bool" where
  "fuel_error r \<longleftrightarrow> r = Inl DS_OutOfFuel"

lemma fuel_error_simps:
  "fuel_error (if b then x else y) = (if b then fuel_error x else fuel_error y)"
  "fuel_error (bind_res r g) = (fuel_error r \<or> (\<exists>a. r = Inr a \<and> fuel_error (g a)))"
  "fuel_error (case z of None \<Rightarrow> x | Some c \<Rightarrow> h c) = (case z of None \<Rightarrow> fuel_error x | Some c \<Rightarrow> fuel_error (h c))"
  "\<not> fuel_error (Inr v)"
  "fuel_error (Inl e) = (e = DS_OutOfFuel)"
  by (auto simp: fuel_error_def bind_res_Inl_iff split: option.splits)

lemma decode_elements_fuel:
  "fuel_error (decode_elements nested layout frame off n t) \<Longrightarrow> \<exists>fr. fuel_error (nested layout fr)"
  by (induction n arbitrary: t) (auto simp: fuel_error_def bind_res_Inl_iff split: if_splits option.splits)

lemma decode_field_size_fuel:
  assumes "fuel_error (decode_field_size nested p frame m f off)" and "kind_ok fs f"
  shows "\<exists>r l fr. r \<in> field_refs f \<and> struct_by_id p r = Some l \<and> fuel_error (nested l fr)"
proof (cases "cf_kind f")
  case KVariant
  then have "lookup_ok f" using assms(2) by (simp add: kind_ok_def)
  with KVariant assms(1) find_variant_case_mem [OF this] show ?thesis
    by (fastforce simp: fuel_error_def decode_field_size_def decode_variant_size_def field_refs_def split: option.splits)
next
  case KCollection
  have "fuel_error (decode_collection_size nested p frame m f off)"
    using KCollection assms(1) by (simp add: decode_field_size_def)
  then obtain l n t where "struct_by_id p (cf_struct_id f) = Some l" "fuel_error (decode_elements nested l frame off n t)"
    by (cases "struct_by_id p (cf_struct_id f)"; cases "raw_unsigned m (cf_count_from_field f)")
      (auto simp: decode_collection_size_def fuel_error_simps Let_def split: if_splits)
  with KCollection decode_elements_fuel show ?thesis by (fastforce simp: field_refs_def)
next
  case KStruct
  with assms(1) show ?thesis
    by (auto simp: fuel_error_def decode_field_size_def field_refs_def split: option.splits)
qed (use assms(1) in \<open>auto simp: fuel_error_def decode_field_size_def split: option.splits if_splits\<close>)

lemma decode_field_fuel:
  assumes "fuel_error (decode_field ops nested p frame f s)"
  shows "\<exists>m off. fuel_error (decode_field_size nested p frame m f off)"
proof -
  obtain m off where s: "s = (m, off)" by (cases s)
  have "fuel_error (decode_field_size nested p frame m f (align_up off (cf_alignment f)))"
  proof (rule ccontr)
    assume no: "\<not> fuel_error (decode_field_size nested p frame m f (align_up off (cf_alignment f)))"
    show False
      using assms unfolding s decode_field_def prod.case Let_def fuel_error_simps
      by (simp add: no fuel_error_simps split: if_splits option.splits)
  qed
  then show ?thesis by blast
qed

lemma decode_fields_fuel:
  "fuel_error (decode_fields ops nested p frame fs s) \<Longrightarrow>
   \<exists>f\<in>set fs. \<exists>m off. fuel_error (decode_field_size nested p frame m f off)"
  by (induction fs arbitrary: s) (auto simp: fuel_error_def bind_res_Inl_iff dest!: decode_field_fuel [unfolded fuel_error_def])

lemma check_checksums_fuel: "\<not> fuel_error (check_checksums ops frame m cs)"
  by (induction cs) (auto simp: fuel_error_def Let_def split: option.split)

lemma check_validations_fuel: "\<not> fuel_error (check_validations m rs)"
  by (induction rs) (auto simp: fuel_error_def Let_def split: option.splits if_splits)

lemma assign_with_fuel:
  assumes "fuel_error (assign_with ops nested p l frame selected pre)" and "layout_wf l"
  shows "\<exists>r l' fr. r \<in> layout_refs l \<and> struct_by_id p r = Some l' \<and> fuel_error (nested l' fr)"
proof -
  have "fuel_error (decode_fields ops nested p frame (cm_fields l) (initial_decoded_message p l frame selected, 0))"
    using assms(1) check_checksums_fuel check_validations_fuel
    by (auto simp: fuel_error_def assign_with_def bind_res_Inl_iff split: if_splits)
  from decode_fields_fuel [OF this] obtain f m off where f: "f \<in> set (cm_fields l)"
    and size: "fuel_error (decode_field_size nested p frame m f off)" by blast
  obtain gs where "kind_ok gs f" using layout_wf_kinds [OF assms(2)] f by blast
  from decode_field_size_fuel [OF size this] f show ?thesis by (auto simp: layout_refs_def)
qed

lemma nested_size_no_fuel_error:
  assumes p: "protocol_wf p"
  shows "nesting_within (cp_structs p) d l \<Longrightarrow> layout_wf l \<Longrightarrow> d < k \<Longrightarrow> \<not> fuel_error (nested_size ops p k l fr)"
proof (induction d arbitrary: k l fr rule: less_induct)
  case (less d)
  obtain a where k: "k = Suc a" using less.prems by (cases k) auto
  show ?case
  proof
    assume "fuel_error (nested_size ops p k l fr)"
    then have "fuel_error (assign_with ops (nested_size ops p a) p l fr None True)"
      by (auto simp: k fuel_error_def bind_res_Inl_iff)
    from assign_with_fuel [OF this less.prems(2)] obtain r l' fr'
      where r: "r \<in> layout_refs l" "struct_by_id p r = Some l'" and bad: "fuel_error (nested_size ops p a l' fr')" by blast
    with nesting_within_ref [OF less.prems(1) r(1)] obtain e where e: "d = Suc e" "nesting_within (cp_structs p) e l'"
      by (metis option.inject)
    have "\<not> fuel_error (nested_size ops p a l' fr')"
      using e less.prems k protocol_wf_struct [OF p r(2)] by (intro less.IH) auto
    with bad show False by simp
  qed
qed

lemma assign_from_layout_fuel:
  assumes p: "protocol_wf p" and l: "layout_wf l" "nesting_within (cp_structs p) (length (cp_structs p)) l"
  shows "assign_from_layout ops p l frame selected pre \<noteq> Inl DS_OutOfFuel"
proof
  assume "assign_from_layout ops p l frame selected pre = Inl DS_OutOfFuel"
  then have "fuel_error (assign_with ops (nested_size ops p (length (cp_structs p))) p l frame selected pre)"
    by (simp add: assign_from_layout_def fuel_error_def)
  from assign_with_fuel [OF this l(1)] obtain r l' fr where r: "r \<in> layout_refs l" "struct_by_id p r = Some l'"
    and bad: "fuel_error (nested_size ops p (length (cp_structs p)) l' fr)" by blast
  with nesting_within_ref [OF l(2) r(1)] obtain e where "length (cp_structs p) = Suc e" "nesting_within (cp_structs p) e l'"
    by (metis option.inject)
  with nested_size_no_fuel_error [OF p, of e l' "length (cp_structs p)"] protocol_wf_struct [OF p r(2)] bad
  show False by auto
qed

end
