(* ===== verification/Encoder_Invariants.thy ===== *)
theory Encoder_Invariants
  imports Encoder Decoder_Spec
begin

text \<open>
  What the contiguous builder maintains. Two invariants: the bounds of the buffer, which hold for
  every layout and after every operation, and the contents of the fields written so far, for
  layouts whose fields need no padding. Sequences of setter calls are lists of \<open>field_write\<close>.
\<close>

subsection \<open>Sequences of calls\<close>

datatype field_write =
    W_Unsigned field_id u64 | W_Signed field_id u64 | W_Float32 field_id u32 | W_Float64 field_id u64
  | W_Bytes field_id bytes | W_String field_id bytes

fun write_id :: "field_write \<Rightarrow> field_id" where
  "write_id (W_Unsigned i _) = i"
| "write_id (W_Signed i _) = i"
| "write_id (W_Float32 i _) = i"
| "write_id (W_Float64 i _) = i"
| "write_id (W_Bytes i _) = i"
| "write_id (W_String i _) = i"

fun mb_apply :: "field_write \<Rightarrow> message_builder \<Rightarrow> encode_status \<times> message_builder" where
  "mb_apply (W_Unsigned i v) = mb_set_unsigned i v"
| "mb_apply (W_Signed i v) = mb_set_signed i v"
| "mb_apply (W_Float32 i v) = mb_set_float32 i v"
| "mb_apply (W_Float64 i v) = mb_set_float64 i v"
| "mb_apply (W_Bytes i d) = mb_set_bytes i d"
| "mb_apply (W_String i d) = mb_set_string i d"

fun mb_run :: "field_write list \<Rightarrow> message_builder \<Rightarrow> encode_status \<times> message_builder" where
  "mb_run [] b = (ES_Ok, b)"
| "mb_run (w # ws) b = and_then (mb_apply w b) (mb_run ws)"

subsection \<open>Outcomes\<close>

text \<open>\<open>Q\<close> holds after a successful operation and \<open>R\<close> after a failed one.\<close>

definition outcome :: "('b \<Rightarrow> bool) \<Rightarrow> ('b \<Rightarrow> bool) \<Rightarrow> encode_status \<times> 'b \<Rightarrow> bool" where
  "outcome Q R r \<longleftrightarrow> (if fst r = ES_Ok then Q (snd r) else R (snd r))"

lemma outcome_Ok [simp]: "outcome Q R (ES_Ok, b) = Q b"
  by (simp add: outcome_def)

lemma outcome_fail [simp]: "e \<noteq> ES_Ok \<Longrightarrow> outcome Q R (e, b) = R b"
  "e \<noteq> ES_Ok \<Longrightarrow> outcome Q R (mb_fail e b) = R (b\<lparr>mb_failed := True\<rparr>)"
  by (simp_all add: outcome_def mb_fail_def)

lemma outcome_if [intro]:
  "(c \<Longrightarrow> outcome Q R r) \<Longrightarrow> (\<not> c \<Longrightarrow> outcome Q R r') \<Longrightarrow> outcome Q R (if c then r else r')"
  by simp

lemma outcome_and_then:
  "outcome P R r \<Longrightarrow> (\<And>b. P b \<Longrightarrow> outcome Q R (k b)) \<Longrightarrow> outcome Q R (and_then r k)"
  by (cases r) (simp add: outcome_def and_then_def split: if_splits)

lemma outcome_mono:
  "outcome Q R r \<Longrightarrow> (\<And>b. Q b \<Longrightarrow> Q' b) \<Longrightarrow> (\<And>b. R b \<Longrightarrow> R' b) \<Longrightarrow> outcome Q' R' r"
  by (simp add: outcome_def split: if_splits)

lemma outcome_snd: "outcome P P r \<Longrightarrow> P (snd r)"
  by (simp add: outcome_def split: if_splits)

lemma outcomeD: "outcome Q R (ES_Ok, b) \<Longrightarrow> Q b"
  by simp

lemma and_then_Ok_iff:
  "and_then r k = (ES_Ok, b') \<longleftrightarrow> (\<exists>b. r = (ES_Ok, b) \<and> k b = (ES_Ok, b'))"
  by (cases r) (auto simp: and_then_def)

lemma mb_fail_Ok [simp]: "e \<noteq> ES_Ok \<Longrightarrow> mb_fail e b \<noteq> (ES_Ok, b')"
  by (simp add: mb_fail_def)

lemma if_fail_Ok_iff: "e \<noteq> ES_Ok \<Longrightarrow> (if c then mb_fail e b else r) = (ES_Ok, b') \<longleftrightarrow> \<not> c \<and> r = (ES_Ok, b')"
  "e \<noteq> ES_Ok \<Longrightarrow> (if c then (e, b) else r) = (ES_Ok, b') \<longleftrightarrow> \<not> c \<and> r = (ES_Ok, b')"
  by simp_all

subsection \<open>The mask of the checksum fields\<close>

lemma checksum_mask_bit:
  "bit (checksum_mask layout) i \<longleftrightarrow> i < 64 \<and> (\<exists>c\<in>set (cm_checksums layout). cck_field_id c = i)"
proof -
  define step :: "compiled_checksum \<Rightarrow> u64 \<Rightarrow> u64" where
    "step = (\<lambda>chk m. if cck_field_id chk < kMaxFieldsPerMessage then m OR push_bit (cck_field_id chk) 1 else m)"
  have one: "bit (push_bit j 1 :: u64) i \<longleftrightarrow> i < 64 \<and> j = i" for j
    by (auto simp: bit_exp_iff)
  have "bit (step c m) i \<longleftrightarrow> bit m i \<or> i < 64 \<and> cck_field_id c = i" for c m
    by (auto simp only: step_def bit_or_iff one kMaxFieldsPerMessage_def split: if_splits)
  then have "bit (fold step cs m) i \<longleftrightarrow> bit m i \<or> i < 64 \<and> (\<exists>c\<in>set cs. cck_field_id c = i)" for cs m
    by (induction cs arbitrary: m) auto
  then show ?thesis by (simp add: checksum_mask_def step_def)
qed

lemma is_checksum_field_iff:
  assumes "mb_checksum_mask b = checksum_mask layout"
  shows "mb_is_checksum_field b i \<longleftrightarrow> i < 64 \<and> (\<exists>c\<in>set (cm_checksums layout). cck_field_id c = i)"
proof -
  have "mb_is_checksum_field b i \<longleftrightarrow> bit (checksum_mask layout) i"
    unfolding mb_is_checksum_field_def assms bit_iff_odd_drop_bit even_iff_mod_2_eq_zero and_one_eq ..
  then show ?thesis by (simp add: checksum_mask_bit)
qed

subsection \<open>Any sequence of operations\<close>

text \<open>The builders reachable from a fresh one, whatever the calls return.\<close>

inductive mb_reach :: "simd_ops \<Rightarrow> compiled_message \<Rightarrow> bytes \<Rightarrow> message_builder \<Rightarrow> bool" for ops layout buffer where
  mb_new: "mb_reach ops layout buffer (new_message_builder layout buffer)"
| mb_write: "mb_reach ops layout buffer b \<Longrightarrow> mb_reach ops layout buffer (snd (mb_apply w b))"
| mb_final: "mb_reach ops layout buffer b \<Longrightarrow> mb_reach ops layout buffer (snd (mb_finalize ops b))"

text \<open>
  The bounds: nothing outside the buffer and nothing past the cursor is touched, and every checksum
  field before field \<open>k\<close> has its place before the cursor.
\<close>

definition placed :: "compiled_message \<Rightarrow> field_id \<Rightarrow> message_builder \<Rightarrow> bool" where
  "placed layout k b \<longleftrightarrow>
     (\<forall>c\<in>set (cm_checksums layout).
        cck_field_id c < k \<longrightarrow> mb_starts b (cck_field_id c) + cck_result_width_bytes c \<le> mb_offset b)"

definition in_buffer :: "compiled_message \<Rightarrow> bytes \<Rightarrow> field_id \<Rightarrow> message_builder \<Rightarrow> bool" where
  "in_buffer layout buffer k b \<longleftrightarrow>
     mb_layout b = layout \<and> mb_checksum_mask b = checksum_mask layout \<and> length (mb_buffer b) = length buffer \<and>
     mb_offset b \<le> length buffer \<and> drop (mb_offset b) (mb_buffer b) = drop (mb_offset b) buffer \<and>
     mb_next b \<le> k \<and> mb_next b \<le> length (cm_fields layout) \<and> placed layout k b"

definition builder_ok :: "compiled_message \<Rightarrow> bytes \<Rightarrow> message_builder \<Rightarrow> bool" where
  "builder_ok layout buffer b \<longleftrightarrow> in_buffer layout buffer (mb_next b) b"

lemma in_buffer_update [simp]:
  "in_buffer layout buffer k (b\<lparr>mb_scalars := s\<rparr>) = in_buffer layout buffer k b"
  "in_buffer layout buffer k (b\<lparr>mb_failed := x\<rparr>) = in_buffer layout buffer k b"
  "in_buffer layout buffer k (b\<lparr>mb_finalized := x\<rparr>) = in_buffer layout buffer k b"
  by (simp_all add: in_buffer_def placed_def)

lemma builder_ok_update [simp]:
  "builder_ok layout buffer (b\<lparr>mb_scalars := s\<rparr>) = builder_ok layout buffer b"
  "builder_ok layout buffer (b\<lparr>mb_failed := x\<rparr>) = builder_ok layout buffer b"
  "builder_ok layout buffer (b\<lparr>mb_finalized := x\<rparr>) = builder_ok layout buffer b"
  by (simp_all add: builder_ok_def)

lemma in_buffer_layout: "in_buffer layout buffer k b \<Longrightarrow> mb_layout b = layout"
  by (simp add: in_buffer_def)

lemma in_buffer_ok: "in_buffer layout buffer k b \<Longrightarrow> builder_ok layout buffer b"
  by (auto simp: builder_ok_def in_buffer_def placed_def)

lemma drop_blit: "off \<le> length xs \<Longrightarrow> off + length ys \<le> k \<Longrightarrow> drop k (blit off ys xs) = drop k xs"
  by (simp add: blit_def min_def)

lemma drop_mono: "drop i xs = drop i ys \<Longrightarrow> i \<le> j \<Longrightarrow> drop j xs = drop j ys"
  by (metis drop_drop le_add_diff_inverse2)

text \<open>A field at the cursor, and filler bytes at the cursor.\<close>

lemma in_buffer_put:
  assumes i: "in_buffer layout buffer fid b" and d: "length d \<le> length (mb_buffer b) - mb_offset b"
    and c: "\<forall>c\<in>set (cm_checksums layout). cck_field_id c = fid \<longrightarrow> cck_result_width_bytes c \<le> length d"
  shows "in_buffer layout buffer (Suc fid) (mb_put fid d b)"
proof -
  from i d have le: "mb_offset b + length d \<le> length buffer" by (auto simp: in_buffer_def)
  have "drop (mb_offset b + length d) (mb_buffer b) = drop (mb_offset b + length d) buffer"
    using i by (auto simp: in_buffer_def intro: drop_mono)
  moreover have "placed layout (Suc fid) (mb_put fid d b)"
    using i c by (fastforce simp: placed_def in_buffer_def mb_put_def less_Suc_eq)
  ultimately show ?thesis using i le by (simp add: in_buffer_def mb_put_def drop_blit span_simps)
qed

lemma in_buffer_pad:
  assumes i: "in_buffer layout buffer k b" and o: "mb_offset b \<le> off" "off \<le> length buffer"
  shows "in_buffer layout buffer k
    (b\<lparr>mb_buffer := blit (mb_offset b) (replicate (off - mb_offset b) x) (mb_buffer b), mb_offset := off\<rparr>)"
proof -
  have "drop off (mb_buffer b) = drop off buffer"
    using i o by (auto simp: in_buffer_def intro: drop_mono)
  with i o show ?thesis by (fastforce simp: in_buffer_def drop_blit span_simps placed_def)
qed

lemma checksum_wf_width:
  assumes "layout_wf layout" and "c \<in> set (cm_checksums layout)"
  shows "cck_result_width_bytes c = cf_width_bytes (cm_fields layout ! cck_field_id c)"
    "cck_field_id c < length (cm_fields layout)"
    "cf_kind (cm_fields layout ! cck_field_id c) \<in> {KUnsigned, KEnum}"
  using assms by (auto simp: layout_wf_def checksum_wf_def numeric_ref_def)

lemma in_buffer_write_scalar:
  assumes "in_buffer layout buffer fid b" and "layout_wf layout"
  shows "outcome (in_buffer layout buffer (Suc fid)) (builder_ok layout buffer) (write_scalar_field fid v b)"
  using assms checksum_wf_width(1) [OF assms(2)] in_buffer_ok [OF assms(1)]
  by (auto simp: write_scalar_field_def Let_def not_less in_buffer_layout intro!: in_buffer_put)

lemma align_up_ge: "v + a < 2 ^ 64 \<Longrightarrow> v \<le> align_up v a"
proof -
  assume "v + a < 2 ^ 64"
  moreover have "v + (a - v mod a) \<le> v + a" by simp
  ultimately have "wrap_size (v + (a - v mod a)) = v + (a - v mod a)" by (intro wrap_size_id) (rule le_less_trans)
  moreover have "v \<le> v + (a - v mod a)" by (rule le_add1)
  ultimately show ?thesis by (simp only: align_up_def Let_def split: if_split) simp
qed

text \<open>Alignments at most 2^63 and buffers below 2^63 bytes keep \<open>align_up\<close> from wrapping.\<close>

definition sized_alignments :: "compiled_message \<Rightarrow> bool" where
  "sized_alignments layout \<longleftrightarrow> list_all (\<lambda>f. cf_alignment f \<le> 2 ^ 63) (cm_fields layout)"

lemma in_buffer_advance_field:
  assumes i: "in_buffer layout buffer fid b" and wf: "layout_wf layout" and a: "sized_alignments layout"
    and s: "length buffer < 2 ^ 63" and fid: "fid < length (cm_fields layout)"
  shows "outcome (in_buffer layout buffer (Suc fid)) (builder_ok layout buffer) (mb_advance_field fid b)"
proof -
  let ?f = "cm_fields layout ! fid" and ?o = "align_up (mb_offset b) (cf_alignment (cm_fields layout ! fid))"
  have f: "mb_layout b = layout" and len: "length (mb_buffer b) = length buffer" using i by (simp_all add: in_buffer_def)
  have "cf_alignment ?f \<le> 2 ^ 63" using a fid by (simp add: sized_alignments_def list_all_length)
  then have up: "mb_offset b \<le> ?o"
    using i s by (intro align_up_ge) (simp add: in_buffer_def)
  define b1 where "b1 = (if ?o \<noteq> mb_offset b
     then b\<lparr>mb_buffer := blit (mb_offset b) (replicate (?o - mb_offset b) 0) (mb_buffer b), mb_offset := ?o\<rparr> else b)"
  note ok = in_buffer_ok
  have "outcome (in_buffer layout buffer (Suc fid)) (builder_ok layout buffer)
          (if mb_is_checksum_field b1 fid then
             if cf_width_bytes ?f > length (mb_buffer b1) - mb_offset b1 then mb_fail ES_BufferTooSmall b1
             else (ES_Ok, (mb_put fid (replicate (cf_width_bytes ?f) 0) b1)
                \<lparr>mb_scalars := (mb_scalars (mb_put fid (replicate (cf_width_bytes ?f) 0) b1))(fid := 0)\<rparr>)
           else if cf_has_expected_unsigned ?f then write_scalar_field fid (cf_expected_unsigned ?f) b1
           else if cf_is_reserved ?f then
             if cf_fixed_size ?f > length (mb_buffer b1) - mb_offset b1 then mb_fail ES_BufferTooSmall b1
             else (ES_Ok, mb_put fid (replicate (cf_fixed_size ?f) (cf_reserved_fill_byte ?f)) b1)
           else mb_fail ES_InvalidData b1)"
    (is "outcome _ _ ?r") if "?o \<le> length buffer"
  proof -
    have B: "in_buffer layout buffer fid b1"
      unfolding b1_def using in_buffer_pad [OF i up that] i by simp
    then have "\<not> mb_is_checksum_field b1 fid \<Longrightarrow> \<forall>c\<in>set (cm_checksums layout). cck_field_id c \<noteq> fid"
      using is_checksum_field_iff [of b1 layout fid] layout_wf_fields(1) [OF wf] fid by (auto simp: in_buffer_def)
    then show ?thesis
      using B in_buffer_ok [OF B] checksum_wf_width(1) [OF wf] in_buffer_write_scalar [OF B wf]
      by (auto simp: not_less intro!: in_buffer_put)
  qed
  moreover have "mb_advance_field fid b = (if ?o > length (mb_buffer b) then mb_fail ES_BufferTooSmall b else
           if mb_is_checksum_field b1 fid then
             if cf_width_bytes ?f > length (mb_buffer b1) - mb_offset b1 then mb_fail ES_BufferTooSmall b1
             else (ES_Ok, (mb_put fid (replicate (cf_width_bytes ?f) 0) b1)
                \<lparr>mb_scalars := (mb_scalars (mb_put fid (replicate (cf_width_bytes ?f) 0) b1))(fid := 0)\<rparr>)
           else if cf_has_expected_unsigned ?f then write_scalar_field fid (cf_expected_unsigned ?f) b1
           else if cf_is_reserved ?f then
             if cf_fixed_size ?f > length (mb_buffer b1) - mb_offset b1 then mb_fail ES_BufferTooSmall b1
             else (ES_Ok, mb_put fid (replicate (cf_fixed_size ?f) (cf_reserved_fill_byte ?f)) b1)
           else mb_fail ES_InvalidData b1)"
    unfolding mb_advance_field_def f Let_def b1_def by simp
  ultimately show ?thesis
    using in_buffer_ok [OF i] by (simp add: len)
qed

lemma in_buffer_advance_fields:
  assumes wf: "layout_wf layout" and a: "sized_alignments layout" and s: "length buffer < 2 ^ 63"
  shows "in_buffer layout buffer i b \<Longrightarrow> i \<le> j \<Longrightarrow> j \<le> length (cm_fields layout) \<Longrightarrow>
    outcome (in_buffer layout buffer j) (builder_ok layout buffer) (mb_advance_fields [i..<j] b)"
proof (induction "j - i" arbitrary: i b)
  case (Suc n)
  then have "[i..<j] = i # [Suc i..<j]" by (simp add: upt_conv_Cons)
  moreover have "outcome (in_buffer layout buffer (Suc i)) (builder_ok layout buffer) (mb_advance_field i b)"
    using Suc.prems Suc.hyps(2) by (intro in_buffer_advance_field [OF _ wf a s]) auto
  ultimately show ?case
    using Suc.hyps Suc.prems by (auto intro!: outcome_and_then simp del: upt_Suc)
qed simp

lemma in_buffer_next: "in_buffer layout buffer k b \<Longrightarrow> k \<le> length (cm_fields layout) \<Longrightarrow> builder_ok layout buffer (b\<lparr>mb_next := k\<rparr>)"
  by (simp add: builder_ok_def in_buffer_def placed_def)

text \<open>One hypothesis set for all operations: a compiled layout and sizes that fit.\<close>

definition sized_layout :: "compiled_message \<Rightarrow> bytes \<Rightarrow> bool" where
  "sized_layout layout buffer \<longleftrightarrow> layout_wf layout \<and> sized_alignments layout \<and> length buffer < 2 ^ 63"

lemma in_buffer_advance_to:
  assumes "sized_layout layout buffer" and b: "builder_ok layout buffer b" and t: "mb_next b \<le> target_id"
  shows "outcome (\<lambda>b. in_buffer layout buffer target_id b \<and> target_id \<le> length (cm_fields layout))
    (builder_ok layout buffer) (mb_advance_to target_id b)"
proof -
  have l: "mb_layout b = layout" and i: "in_buffer layout buffer (mb_next b) b"
    using b by (simp_all add: builder_ok_def in_buffer_def)
  show ?thesis
    using assms(1) b t in_buffer_advance_fields [OF _ _ _ i t]
    by (auto simp: mb_advance_to_def l sized_layout_def not_less in_buffer_def placed_def intro!: outcome_and_then)
qed

lemma builder_ok_set_scalar:
  assumes l: "sized_layout layout buffer" and b: "builder_ok layout buffer b"
  shows "outcome (builder_ok layout buffer) (builder_ok layout buffer) (mb_set_scalar kinds fid v b)"
proof -
  have lay: "mb_layout b = layout" and wf: "layout_wf layout"
    using b l by (simp_all add: builder_ok_def in_buffer_def sized_layout_def)
  show ?thesis
  proof (cases "mb_rejects fid b \<or> cf_kind (cm_fields (mb_layout b) ! fid) \<notin> set kinds")
    case False
    then have "mb_next b \<le> fid" and fid: "Suc fid \<le> length (cm_fields layout)"
      by (simp_all add: mb_rejects_def lay)
    moreover have "outcome (builder_ok layout buffer) (builder_ok layout buffer)
        (and_then (write_scalar_field fid v b) (\<lambda>b. (ES_Ok, b\<lparr>mb_next := fid + 1\<rparr>)))"
      if "in_buffer layout buffer fid b" for b
      using in_buffer_next fid by (auto intro!: outcome_and_then [OF in_buffer_write_scalar [OF that wf]])
    ultimately show ?thesis
      using False by (auto simp: mb_set_scalar_def intro!: outcome_and_then [OF in_buffer_advance_to [OF l b]])
  qed (use b in \<open>auto simp: mb_set_scalar_def\<close>)
qed

lemma builder_ok_set_payload:
  assumes l: "sized_layout layout buffer" and b: "builder_ok layout buffer b" and nx: "mb_next b \<le> fid"
    and fid: "fid < length (cm_fields layout)" and k: "cf_kind (cm_fields layout ! fid) \<notin> {KUnsigned, KEnum}"
  shows "outcome (builder_ok layout buffer) (builder_ok layout buffer) (mb_set_payload fid d b)"
proof -
  have "\<forall>c\<in>set (cm_checksums layout). cck_field_id c \<noteq> fid"
    using checksum_wf_width(3) l k by (fastforce simp: sized_layout_def)
  then show ?thesis
    unfolding mb_set_payload_def Let_def
    by (intro outcome_and_then [OF in_buffer_advance_to [OF l b nx]])
      (use fid in \<open>auto simp: in_buffer_ok in_buffer_layout not_less intro!: in_buffer_next in_buffer_put\<close>)
qed

lemma builder_ok_apply:
  assumes l: "sized_layout layout buffer" and b: "builder_ok layout buffer b"
  shows "builder_ok layout buffer (snd (mb_apply w b))"
proof (rule outcome_snd)
  have lay: "mb_layout b = layout" using b by (simp add: builder_ok_def in_buffer_def)
  show "outcome (builder_ok layout buffer) (builder_ok layout buffer) (mb_apply w b)"
    using b builder_ok_set_scalar [OF l b] builder_ok_set_payload [OF l b]
    by (cases w)
      (auto simp: mb_set_unsigned_def mb_set_signed_def mb_set_float32_def mb_set_float64_def
        mb_set_bytes_def mb_set_string_def mb_rejects_def lay Let_def)
qed

subsection \<open>Checksums\<close>

lemma in_buffer_store:
  assumes i: "in_buffer layout buffer k b" and o: "off + length d \<le> mb_offset b"
  shows "in_buffer layout buffer k (b\<lparr>mb_buffer := blit off d (mb_buffer b), mb_scalars := s\<rparr>)"
  using assms by (auto simp: in_buffer_def drop_blit span_simps placed_def)

lemma in_buffer_write_checksums:
  assumes wf: "layout_wf layout"
  shows "in_buffer layout buffer (length (cm_fields layout)) b \<Longrightarrow> set chks \<subseteq> set (cm_checksums layout) \<Longrightarrow>
    outcome (in_buffer layout buffer (length (cm_fields layout))) (builder_ok layout buffer)
      (mb_write_checksums ops chks b)"
proof (induction chks arbitrary: b)
  case (Cons c cs)
  from Cons.prems checksum_wf_width [OF wf, of c]
  have "mb_starts b (cck_field_id c) + cck_result_width_bytes c \<le> mb_offset b"
    by (auto simp: in_buffer_def placed_def)
  then show ?case
    using Cons.prems in_buffer_ok [OF Cons.prems(1)]
    by (auto simp: Let_def split: option.split intro!: Cons.IH in_buffer_store)
qed simp

lemma builder_ok_finalize:
  assumes l: "sized_layout layout buffer" and b: "builder_ok layout buffer b"
  shows "builder_ok layout buffer (snd (mb_finalize ops b))"
proof (rule outcome_snd)
  have lay: "mb_layout b = layout" and wf: "layout_wf layout" and nx: "mb_next b \<le> length (cm_fields layout)"
    using b l by (simp_all add: builder_ok_def in_buffer_def sized_layout_def)
  have chk: "outcome (in_buffer layout buffer (length (cm_fields layout))) (builder_ok layout buffer)
      (mb_write_checksums ops (cm_checksums (mb_layout b)) b)"
    if "in_buffer layout buffer (length (cm_fields layout)) b" for b
    using in_buffer_write_checksums [OF wf that, of "cm_checksums (mb_layout b)"] that by (simp add: in_buffer_layout)
  show "outcome (builder_ok layout buffer) (builder_ok layout buffer) (mb_finalize ops b)"
    using b in_buffer_ok nx
    by (auto simp: mb_finalize_def lay
        intro!: outcome_and_then [OF in_buffer_advance_to [OF l b]] outcome_and_then [OF chk])
qed

lemma new_builder_ok: "layout_wf layout \<Longrightarrow> builder_ok layout buffer (new_message_builder layout buffer)"
  using layout_wf_fields(1) [of layout]
  by (simp add: builder_ok_def in_buffer_def new_message_builder_def Let_def kMaxFieldsPerMessage_def placed_def)

theorem mb_reach_ok:
  assumes "mb_reach ops layout buffer b" and l: "sized_layout layout buffer"
  shows "builder_ok layout buffer b"
  using assms(1)
proof (induction rule: mb_reach.induct)
  case mb_new
  then show ?case using l by (intro new_builder_ok) (simp add: sized_layout_def)
next
  case (mb_write b w)
  then show ?case by (intro builder_ok_apply [OF l])
next
  case (mb_final b)
  then show ?case by (intro builder_ok_finalize [OF l])
qed

end
