(* ===== verification/Encoder_Content.thy ===== *)
theory Encoder_Content
  imports Encoder_Invariants
begin

text \<open>
  What the contiguous builder writes. A message is specified as the concatenation of its fields:
  the bytes of the field that was set, or else the checksum placeholder, the expected value or the
  fill bytes, after the padding that the builder emits in front of the fields it skips. Every
  successful sequence of setter calls leaves exactly this prefix in the buffer.
\<close>

subsection \<open>The specification\<close>

fun write_value :: "field_write \<Rightarrow> u64 option" where
  "write_value (W_Unsigned _ v) = Some v"
| "write_value (W_Signed _ v) = Some v"
| "write_value (W_Float32 _ v) = Some (ucast v)"
| "write_value (W_Float64 _ v) = Some v"
| "write_value (W_Bytes _ _) = None"
| "write_value (W_String _ _) = None"

fun write_payload :: "field_write \<Rightarrow> bytes" where
  "write_payload (W_Bytes _ d) = d"
| "write_payload (W_String _ d) = d"
| "write_payload _ = []"

definition write_data :: "compiled_field \<Rightarrow> field_write \<Rightarrow> bytes" where
  "write_data f w =
     (case write_value w of
        Some v \<Rightarrow> write_unsigned_scalar_unchecked (cf_byte_order f) (cf_width_bytes f) v
      | None \<Rightarrow> if cf_dynamic_size f then write_payload w else take (cf_fixed_size f) (write_payload w))"

fun write_ok :: "compiled_field \<Rightarrow> field_write \<Rightarrow> bool" where
  "write_ok f (W_Unsigned _ _) \<longleftrightarrow> cf_kind f = KUnsigned \<or> cf_kind f = KEnum"
| "write_ok f (W_Signed _ _) \<longleftrightarrow> cf_kind f = KSigned"
| "write_ok f (W_Float32 _ _) \<longleftrightarrow> cf_kind f = KFloat32"
| "write_ok f (W_Float64 _ _) \<longleftrightarrow> cf_kind f = KFloat64"
| "write_ok f (W_Bytes _ d) \<longleftrightarrow>
     (cf_kind f = KBytes \<or> cf_kind f = KStruct) \<and> \<not> cf_is_reserved f \<and> (cf_dynamic_size f \<or> cf_fixed_size f \<le> length d)"
| "write_ok f (W_String _ d) \<longleftrightarrow> cf_kind f = KString \<and> (cf_dynamic_size f \<or> cf_fixed_size f \<le> length d)"

definition checksum_at :: "compiled_message \<Rightarrow> field_id \<Rightarrow> bool" where
  "checksum_at layout i \<longleftrightarrow> i < 64 \<and> list_ex (\<lambda>c. cck_field_id c = i) (cm_checksums layout)"

definition written :: "field_write list \<Rightarrow> field_id \<Rightarrow> field_write option" where
  "written ws i = find (\<lambda>w. write_id w = i) ws"

definition field_data :: "compiled_message \<Rightarrow> field_write list \<Rightarrow> field_id \<Rightarrow> bytes" where
  "field_data layout ws i =
     (let f = cm_fields layout ! i in
      case written ws i of
        Some w \<Rightarrow> write_data f w
      | None \<Rightarrow>
          if checksum_at layout i then replicate (cf_width_bytes f) 0
          else if cf_has_expected_unsigned f
          then write_unsigned_scalar_unchecked (cf_byte_order f) (cf_width_bytes f) (cf_expected_unsigned f)
          else replicate (cf_fixed_size f) (cf_reserved_fill_byte f))"

definition field_value :: "compiled_message \<Rightarrow> field_write list \<Rightarrow> field_id \<Rightarrow> u64 option" where
  "field_value layout ws i =
     (let f = cm_fields layout ! i in
      case written ws i of
        Some w \<Rightarrow> write_value w
      | None \<Rightarrow> if checksum_at layout i then Some 0
                else if cf_has_expected_unsigned f then Some (cf_expected_unsigned f) else None)"

definition field_ok :: "compiled_message \<Rightarrow> field_write list \<Rightarrow> field_id \<Rightarrow> bool" where
  "field_ok layout ws i \<longleftrightarrow>
     (let f = cm_fields layout ! i in
      case written ws i of
        Some w \<Rightarrow> write_ok f w
      | None \<Rightarrow> checksum_at layout i \<or> cf_has_expected_unsigned f \<or> cf_is_reserved f)"

definition padding_before :: "compiled_message \<Rightarrow> field_write list \<Rightarrow> field_id \<Rightarrow> nat \<Rightarrow> nat" where
  "padding_before layout ws i offset =
     (case written ws i of
        Some _ \<Rightarrow> 0
      | None \<Rightarrow> align_up offset (cf_alignment (cm_fields layout ! i)) - offset)"

fun message_prefix :: "compiled_message \<Rightarrow> field_write list \<Rightarrow> nat \<Rightarrow> bytes" where
  "message_prefix layout ws 0 = []"
| "message_prefix layout ws (Suc i) =
     (let p = message_prefix layout ws i
      in p @ replicate (padding_before layout ws i (length p)) 0 @ field_data layout ws i)"

definition field_start :: "compiled_message \<Rightarrow> field_write list \<Rightarrow> field_id \<Rightarrow> nat" where
  "field_start layout ws i =
     length (message_prefix layout ws i) + padding_before layout ws i (length (message_prefix layout ws i))"

definition field_end :: "compiled_message \<Rightarrow> field_write list \<Rightarrow> field_id \<Rightarrow> nat" where
  "field_end layout ws i = length (message_prefix layout ws (Suc i))"

lemmas field_spec_defs = field_data_def field_value_def field_ok_def padding_before_def

lemma field_end_start: "field_end layout ws i = field_start layout ws i + length (field_data layout ws i)"
  by (simp add: field_end_def field_start_def Let_def)

text \<open>The fields below \<open>k\<close> depend on the writes below \<open>k\<close> only.\<close>

lemma field_spec_cong:
  assumes "written ws i = written ws' i"
  shows "field_data layout ws i = field_data layout ws' i" "field_value layout ws i = field_value layout ws' i"
    "field_ok layout ws i = field_ok layout ws' i" "padding_before layout ws i = padding_before layout ws' i"
  using assms by (auto simp: field_spec_defs)

lemma message_prefix_cong:
  assumes "\<And>i. i < k \<Longrightarrow> written ws i = written ws' i"
  shows "message_prefix layout ws k = message_prefix layout ws' k"
  using assms
proof (induction k)
  case (Suc k)
  then show ?case using field_spec_cong [OF Suc.prems, of k layout] by (simp add: Let_def)
qed simp

lemma field_extent_cong:
  assumes "\<And>i. i < k \<Longrightarrow> written ws i = written ws' i" and "i < k"
  shows "field_start layout ws i = field_start layout ws' i" "field_end layout ws i = field_end layout ws' i"
proof -
  have "message_prefix layout ws i = message_prefix layout ws' i"
    "message_prefix layout ws (Suc i) = message_prefix layout ws' (Suc i)"
    using assms by (intro message_prefix_cong; simp)+
  then show "field_start layout ws i = field_start layout ws' i" "field_end layout ws i = field_end layout ws' i"
    using field_spec_cong(4) [OF assms(1) [OF assms(2)]] by (simp_all add: field_start_def field_end_def del: message_prefix.simps)
qed

lemma written_append: "written (ws @ [w]) i = (case written ws i of Some w' \<Rightarrow> Some w' | None \<Rightarrow> if write_id w = i then Some w else None)"
  by (induction ws) (auto simp: written_def)

lemma written_None: "(\<And>w. w \<in> set ws \<Longrightarrow> write_id w < k) \<Longrightarrow> k \<le> i \<Longrightarrow> written ws i = None"
  unfolding written_def find_None_iff by fastforce

lemma written_Some: "written ws i = Some w \<Longrightarrow> w \<in> set ws \<and> write_id w = i"
  unfolding written_def find_Some_iff by auto

lemma written_distinct: "distinct (map write_id ws) \<Longrightarrow> w \<in> set ws \<Longrightarrow> written ws (write_id w) = Some w"
  by (induction ws) (auto simp: written_def)

subsection \<open>The invariant\<close>

definition content_at :: "compiled_message \<Rightarrow> field_write list \<Rightarrow> nat \<Rightarrow> bytes \<Rightarrow> message_builder \<Rightarrow> bool" where
  "content_at layout ws k p b \<longleftrightarrow>
     mb_layout b = layout \<and> mb_checksum_mask b = checksum_mask layout \<and>
     mb_offset b \<le> length (mb_buffer b) \<and> take (mb_offset b) (mb_buffer b) = p \<and> mb_next b \<le> k \<and>
     distinct (map write_id ws) \<and> (\<forall>w\<in>set ws. write_id w < k) \<and>
     (\<forall>i<k. mb_starts b i = field_start layout ws i \<and> mb_ends b i = field_end layout ws i \<and>
        field_ok layout ws i \<and> (\<forall>v. field_value layout ws i = Some v \<longrightarrow> mb_scalars b i = v))"

definition content :: "compiled_message \<Rightarrow> field_write list \<Rightarrow> nat \<Rightarrow> message_builder \<Rightarrow> bool" where
  "content layout ws k b \<longleftrightarrow> content_at layout ws k (message_prefix layout ws k) b"

lemma content_at_offset: "content_at layout ws k p b \<Longrightarrow> mb_offset b = length p"
  by (auto simp: content_at_def)

lemma content_at_update [simp]:
  "content_at layout ws k p (b\<lparr>mb_failed := x\<rparr>) = content_at layout ws k p b"
  "content_at layout ws k p (b\<lparr>mb_finalized := x\<rparr>) = content_at layout ws k p b"
  by (simp_all add: content_at_def)

lemma content_pad:
  assumes "content layout ws k b" and "mb_offset b \<le> off" "off \<le> length (mb_buffer b)"
  shows "content_at layout ws k (message_prefix layout ws k @ replicate (off - mb_offset b) 0)
    (b\<lparr>mb_buffer := blit (mb_offset b) (replicate (off - mb_offset b) 0) (mb_buffer b), mb_offset := off\<rparr>)"
proof -
  have "take off (blit (mb_offset b) (replicate (off - mb_offset b) 0) (mb_buffer b)) =
      take (mb_offset b) (mb_buffer b) @ replicate (off - mb_offset b) 0"
    using take_blit_end [of "mb_offset b" "replicate (off - mb_offset b) 0" "mb_buffer b"] assms(2,3) by simp
  then show ?thesis using assms by (auto simp: content_def content_at_def span_simps)
qed

text \<open>A field at the cursor, written by a setter (\<open>ws'\<close> has the new write) or by advancing.\<close>

lemma content_put:
  assumes c: "content_at layout ws k (message_prefix layout ws k @ replicate n 0) b"
    and n: "n = padding_before layout ws' k (length (message_prefix layout ws k))"
    and d: "d = field_data layout ws' k" "length d \<le> length (mb_buffer b) - mb_offset b"
    and ws': "ws' = ws \<or> (\<exists>w. ws' = ws @ [w] \<and> write_id w = k)"
    and ok: "field_ok layout ws' k"
    and s: "\<And>i. i < k \<Longrightarrow> s i = mb_scalars b i" "\<And>v. field_value layout ws' k = Some v \<Longrightarrow> s k = v"
    and b': "b' = (mb_put k d b)\<lparr>mb_scalars := s\<rparr>"
  shows "content layout ws' (Suc k) b'"
proof -
  have ids: "\<forall>w\<in>set ws. write_id w < k" "distinct (map write_id ws)" using c by (auto simp: content_at_def)
  have ids': "\<forall>w\<in>set ws'. write_id w < Suc k" "distinct (map write_id ws')"
    using ws' ids by (fastforce simp: less_Suc_eq)+
  have below: "written ws i = written ws' i" if "i < k" for i
    using ws' that by (auto simp: written_append split: option.split)
  note prefix = message_prefix_cong [OF below, where k = k, simplified]
  have off: "mb_offset b = field_start layout ws' k"
    using content_at_offset [OF c] n by (simp add: field_start_def prefix)
  have le: "mb_offset b + length d \<le> length (mb_buffer b)" using d(2) c by (auto simp: content_at_def)
  have "take (mb_offset b + length d) (blit (mb_offset b) d (mb_buffer b)) =
      message_prefix layout ws k @ replicate n 0 @ d"
    using c take_blit_end [OF le] by (simp add: content_at_def)
  then have bytes: "take (mb_offset b + length d) (blit (mb_offset b) d (mb_buffer b)) = message_prefix layout ws' (Suc k)"
    by (simp add: prefix n d(1) Let_def)
  have "mb_starts b' i = field_start layout ws' i \<and> mb_ends b' i = field_end layout ws' i \<and>
      field_ok layout ws' i \<and> (\<forall>v. field_value layout ws' i = Some v \<longrightarrow> mb_scalars b' i = v)" if "i < Suc k" for i
  proof (cases "i = k")
    case True
    then show ?thesis using ok s(2) off d(1) by (simp add: b' mb_put_def field_end_start)
  next
    case False
    with that have i: "i < k" by simp
    with c have "mb_starts b i = field_start layout ws i \<and> mb_ends b i = field_end layout ws i \<and>
      field_ok layout ws i \<and> (\<forall>v. field_value layout ws i = Some v \<longrightarrow> mb_scalars b i = v)"
      by (simp add: content_at_def)
    then show ?thesis
      using i s(1) [OF i] field_extent_cong [OF below i] field_spec_cong [OF below [OF i], of layout]
      by (simp add: b' mb_put_def)
  qed
  then show ?thesis
    using c le bytes ids' by (simp add: content_def content_at_def b' mb_put_def span_simps del: message_prefix.simps)
qed

subsection \<open>Every operation keeps the invariant\<close>

lemma checksum_at_iff:
  "mb_checksum_mask b = checksum_mask layout \<Longrightarrow> mb_is_checksum_field b i = checksum_at layout i"
  by (simp add: is_checksum_field_iff checksum_at_def list_ex_iff)

lemma mb_put_scalars [simp]: "mb_scalars (mb_put k d b) = mb_scalars b" "mb_layout (mb_put k d b) = mb_layout b"
  by (simp_all add: mb_put_def)

lemma mb_put_same_scalars [simp]: "(mb_put k d b)\<lparr>mb_scalars := mb_scalars b\<rparr> = mb_put k d b"
  by (simp add: mb_put_def)

lemma length_mb_put [simp]:
  "length d \<le> length (mb_buffer b) - mb_offset b \<Longrightarrow> mb_offset b \<le> length (mb_buffer b) \<Longrightarrow>
   length (mb_buffer (mb_put k d b)) = length (mb_buffer b)"
  by (simp add: mb_put_def span_simps)

lemma content_write_scalar:
  assumes c: "content_at layout ws k (message_prefix layout ws k @ replicate n 0) b"
    and n: "n = padding_before layout ws' k (length (message_prefix layout ws k))"
    and d: "write_unsigned_scalar_unchecked (cf_byte_order f) (cf_width_bytes f) v = field_data layout ws' k"
    and f: "f = cm_fields layout ! k"
    and ws': "ws' = ws \<or> (\<exists>w. ws' = ws @ [w] \<and> write_id w = k)"
    and ok: "field_ok layout ws' k" and v: "field_value layout ws' k = Some v"
  shows "outcome (\<lambda>b'. content layout ws' (Suc k) b' \<and> length (mb_buffer b') = length (mb_buffer b)) (\<lambda>_. True)
    (write_scalar_field k v b)"
proof -
  have l: "mb_layout b = layout" "mb_offset b \<le> length (mb_buffer b)" using c by (simp_all add: content_at_def)
  have len: "length (field_data layout ws' k) = cf_width_bytes f" by (simp flip: d)
  show ?thesis
    unfolding write_scalar_field_def l Let_def f [symmetric] d
    using len v l(2) by (intro outcome_if) (auto simp: not_less intro!: content_put [OF c n refl _ ws' ok _ _ refl])
qed

lemma content_advance_field:
  assumes c: "content layout ws k b" and a: "sized_alignments layout" and s: "length (mb_buffer b) < 2 ^ 63"
    and k: "k < length (cm_fields layout)"
  shows "outcome (\<lambda>b'. content layout ws (Suc k) b' \<and> length (mb_buffer b') = length (mb_buffer b)) (\<lambda>_. True)
    (mb_advance_field k b)"
proof -
  let ?f = "cm_fields layout ! k" and ?o = "align_up (mb_offset b) (cf_alignment (cm_fields layout ! k))"
  have l: "mb_layout b = layout" and o: "mb_offset b \<le> length (mb_buffer b)"
    and m: "mb_checksum_mask b = checksum_mask layout"
    using c by (simp_all add: content_def content_at_def)
  have off: "mb_offset b = length (message_prefix layout ws k)"
    using c unfolding content_def by (rule content_at_offset)
  have none: "written ws k = None"
    using c by (intro written_None [of _ k]) (simp_all add: content_def content_at_def)
  have "cf_alignment ?f \<le> 2 ^ 63" using a k by (simp add: sized_alignments_def list_all_length)
  then have up: "mb_offset b \<le> ?o" using o s by (intro align_up_ge) simp
  define n where "n = padding_before layout ws k (length (message_prefix layout ws k))"
  have n: "n = ?o - mb_offset b" by (simp add: n_def padding_before_def none off)
  define b1 where "b1 = (if ?o \<noteq> mb_offset b
     then b\<lparr>mb_buffer := blit (mb_offset b) (replicate (?o - mb_offset b) 0) (mb_buffer b), mb_offset := ?o\<rparr> else b)"
  have step: "mb_advance_field k b = (if ?o > length (mb_buffer b) then mb_fail ES_BufferTooSmall b else
           if checksum_at layout k then
             if cf_width_bytes ?f > length (mb_buffer b1) - mb_offset b1 then mb_fail ES_BufferTooSmall b1
             else (ES_Ok, (mb_put k (replicate (cf_width_bytes ?f) 0) b1)
                \<lparr>mb_scalars := (mb_scalars (mb_put k (replicate (cf_width_bytes ?f) 0) b1))(k := 0)\<rparr>)
           else if cf_has_expected_unsigned ?f then write_scalar_field k (cf_expected_unsigned ?f) b1
           else if cf_is_reserved ?f then
             if cf_fixed_size ?f > length (mb_buffer b1) - mb_offset b1 then mb_fail ES_BufferTooSmall b1
             else (ES_Ok, mb_put k (replicate (cf_fixed_size ?f) (cf_reserved_fill_byte ?f)) b1)
           else mb_fail ES_InvalidData b1)"
    using checksum_at_iff [OF m] checksum_at_iff [of b1 layout k] m
    unfolding mb_advance_field_def l Let_def b1_def by simp
  show ?thesis
  proof (cases "?o > length (mb_buffer b)")
    case False
    then have c1: "content_at layout ws k (message_prefix layout ws k @ replicate n 0) b1"
      using content_pad [OF c up] c by (auto simp: b1_def n content_def)
    have len: "length (mb_buffer b1) = length (mb_buffer b)" "mb_offset b1 \<le> length (mb_buffer b1)"
      using False up o by (auto simp: b1_def span_simps)
    note put = content_put [OF c1 n_def refl _ disjI1 [OF refl] _ _ _ refl]
    have data: "field_data layout ws k = (if checksum_at layout k then replicate (cf_width_bytes ?f) 0
        else if cf_has_expected_unsigned ?f
        then write_unsigned_scalar_unchecked (cf_byte_order ?f) (cf_width_bytes ?f) (cf_expected_unsigned ?f)
        else replicate (cf_fixed_size ?f) (cf_reserved_fill_byte ?f))"
      "field_value layout ws k = (if checksum_at layout k then Some 0
        else if cf_has_expected_unsigned ?f then Some (cf_expected_unsigned ?f) else None)"
      "field_ok layout ws k \<longleftrightarrow> checksum_at layout k \<or> cf_has_expected_unsigned ?f \<or> cf_is_reserved ?f"
      by (simp_all add: field_spec_defs none Let_def)
    show ?thesis
    proof (cases "checksum_at layout k")
      case True
      then show ?thesis
        using False len put [of "(mb_scalars b1)(k := 0)"] by (simp add: step data not_less)
    next
      case chk: False
      show ?thesis
      proof (cases "cf_has_expected_unsigned ?f")
        case True
        have "outcome (\<lambda>b'. content layout ws (Suc k) b' \<and> length (mb_buffer b') = length (mb_buffer b1)) (\<lambda>_. True)
            (write_scalar_field k (cf_expected_unsigned ?f) b1)"
          using True chk by (intro content_write_scalar [OF c1 n_def _ refl]) (simp_all add: data)
        then show ?thesis using False chk True by (simp add: step len)
      next
        case exp: False
        have id: "b'\<lparr>mb_scalars := mb_scalars b'\<rparr> = b'" for b' :: message_builder by simp
        show ?thesis
          using False chk exp len put [of "mb_scalars b1"] by (simp add: step data not_less)
      qed
    qed
  qed (simp add: step)
qed

lemma content_advance_fields:
  assumes a: "sized_alignments layout"
  shows "content layout ws i b \<Longrightarrow> length (mb_buffer b) < 2 ^ 63 \<Longrightarrow> i \<le> j \<Longrightarrow> j \<le> length (cm_fields layout) \<Longrightarrow>
    outcome (\<lambda>b'. content layout ws j b' \<and> length (mb_buffer b') = length (mb_buffer b)) (\<lambda>_. True)
      (mb_advance_fields [i..<j] b)"
proof (induction "j - i" arbitrary: i b)
  case (Suc n)
  then have "[i..<j] = i # [Suc i..<j]" by (simp add: upt_conv_Cons)
  moreover have "outcome (\<lambda>b'. content layout ws (Suc i) b' \<and> length (mb_buffer b') = length (mb_buffer b)) (\<lambda>_. True)
      (mb_advance_field i b)"
    using Suc.prems Suc.hyps(2) by (intro content_advance_field [OF _ a]) auto
  moreover have "outcome (\<lambda>b'. content layout ws j b' \<and> length (mb_buffer b') = length (mb_buffer b)) (\<lambda>_. True)
      (mb_advance_fields [Suc i..<j] b1)"
    if "content layout ws (Suc i) b1 \<and> length (mb_buffer b1) = length (mb_buffer b)" for b1
    using Suc.hyps(1) [of "Suc i" b1] Suc.hyps(2) Suc.prems that by simp
  ultimately show ?case by (simp add: outcome_and_then)
qed simp

lemma content_next: "content layout ws k (b\<lparr>mb_next := k'\<rparr>) \<longleftrightarrow> content layout ws k b"
  if "mb_next b \<le> k" "k' \<le> k"
  using that by (auto simp: content_def content_at_def)

lemma content_le: "content layout ws k b \<Longrightarrow> mb_next b \<le> k" "content layout ws k b \<Longrightarrow> mb_layout b = layout"
  by (simp_all add: content_def content_at_def)

text \<open>The state between two calls.\<close>

definition between_calls :: "compiled_message \<Rightarrow> bytes \<Rightarrow> field_write list \<Rightarrow> message_builder \<Rightarrow> bool" where
  "between_calls layout buffer ws b \<longleftrightarrow>
     content layout ws (mb_next b) b \<and> length (mb_buffer b) = length buffer \<and>
     mb_next b \<le> length (cm_fields layout)"

lemma content_advance_to:
  assumes b: "between_calls layout buffer ws b" and a: "sized_alignments layout" and s: "length buffer < 2 ^ 63"
    and t: "mb_next b \<le> t"
  shows "outcome (\<lambda>b'. content layout ws t b' \<and> length (mb_buffer b') = length buffer \<and>
      t \<le> length (cm_fields layout)) (\<lambda>_. True) (mb_advance_to t b)"
proof -
  have l: "mb_layout b = layout" using b by (simp add: between_calls_def content_def content_at_def)
  show ?thesis
  proof (cases "mb_failed b \<or> t > length (cm_fields layout)")
    case False
    have "outcome (\<lambda>b'. content layout ws t b' \<and> length (mb_buffer b') = length (mb_buffer b)) (\<lambda>_. True)
        (mb_advance_fields [mb_next b..<t] b)"
      using b False t s by (intro content_advance_fields [OF a]) (auto simp: between_calls_def)
    with False b show ?thesis
      by (auto simp: mb_advance_to_def l content_next content_le between_calls_def intro!: outcome_and_then)
  qed (auto simp: mb_advance_to_def l)
qed

text \<open>A setter appends its write to the specification.\<close>

lemma written_new:
  assumes "content layout ws k b" and "write_id w = k"
  shows "written (ws @ [w]) k = Some w"
proof -
  have "written ws k = None" using assms(1) by (intro written_None [of _ k]) (simp_all add: content_def content_at_def)
  then show ?thesis using assms(2) by (simp add: written_append)
qed

lemma between_calls_next:
  "content layout ws (Suc k) b \<Longrightarrow> length (mb_buffer b) = length buffer \<Longrightarrow> k < length (cm_fields layout) \<Longrightarrow>
   between_calls layout buffer ws (b\<lparr>mb_next := Suc k\<rparr>)"
  by (simp add: between_calls_def content_next content_le)

lemma content_set_scalar:
  assumes b: "between_calls layout buffer ws b" and a: "sized_alignments layout" and s: "length buffer < 2 ^ 63"
    and w: "write_value w = Some v" "\<And>f. write_ok f w \<longleftrightarrow> cf_kind f \<in> set kinds"
  shows "outcome (between_calls layout buffer (ws @ [w])) (\<lambda>_. True) (mb_set_scalar kinds (write_id w) v b)"
proof -
  let ?k = "write_id w" and ?f = "cm_fields layout ! write_id w"
  have l: "mb_layout b = layout" using b by (simp add: between_calls_def content_def content_at_def)
  have put1: "outcome (\<lambda>b'. content layout (ws @ [w]) (Suc ?k) b' \<and> length (mb_buffer b') = length (mb_buffer b1)) (\<lambda>_. True)
      (write_scalar_field ?k v b1)"
    if c: "content layout ws ?k b1" and ok: "cf_kind ?f \<in> set kinds" for b1
  proof -
    note new = written_new [OF c refl]
    have c0: "content_at layout ws ?k (message_prefix layout ws ?k @ replicate 0 0) b1"
      using c by (simp add: content_def)
    show ?thesis
      by (rule content_write_scalar [OF c0 _ _ refl]) (simp_all add: field_spec_defs new write_data_def w ok Let_def)
  qed
  show ?thesis
  proof (cases "mb_rejects ?k b \<or> cf_kind ?f \<notin> set kinds")
    case False
    then have t: "mb_next b \<le> ?k" by (simp add: mb_rejects_def)
    have "outcome (between_calls layout buffer (ws @ [w])) (\<lambda>_. True)
        (and_then (write_scalar_field ?k v b1) (\<lambda>b. (ES_Ok, b\<lparr>mb_next := ?k + 1\<rparr>)))"
      if "content layout ws ?k b1 \<and> length (mb_buffer b1) = length buffer \<and> ?k \<le> length (cm_fields layout)" for b1
      using that False by (intro outcome_and_then [OF put1]) (auto simp: mb_rejects_def l intro!: between_calls_next)
    then show ?thesis
      using False by (auto simp: mb_set_scalar_def l intro!: outcome_and_then [OF content_advance_to [OF b a s t]])
  qed (auto simp: mb_set_scalar_def l)
qed

lemma content_set_payload:
  assumes b: "between_calls layout buffer ws b" and a: "sized_alignments layout" and s: "length buffer < 2 ^ 63"
    and w: "write_value w = None" "write_ok (cm_fields layout ! write_id w) w \<longleftrightarrow>
      cf_dynamic_size (cm_fields layout ! write_id w) \<or> cf_fixed_size (cm_fields layout ! write_id w) \<le> length (write_payload w)"
    and r: "\<not> mb_rejects (write_id w) b"
  shows "outcome (between_calls layout buffer (ws @ [w])) (\<lambda>_. True) (mb_set_payload (write_id w) (write_payload w) b)"
proof -
  let ?k = "write_id w" and ?f = "cm_fields layout ! write_id w" and ?d = "write_payload w"
  define n where "n = (if cf_dynamic_size ?f then length ?d else cf_fixed_size ?f)"
  have l: "mb_layout b = layout" using b by (simp add: between_calls_def content_def content_at_def)
  have t: "mb_next b \<le> ?k" and k: "?k < length (cm_fields layout)" using r by (simp_all add: mb_rejects_def l)
  have "outcome (between_calls layout buffer (ws @ [w])) (\<lambda>_. True)
      (let f = cm_fields (mb_layout b1) ! ?k;
           payload_size = (if cf_dynamic_size f then length ?d else cf_fixed_size f) in
       if payload_size > length (mb_buffer b1) - mb_offset b1 then mb_fail ES_BufferTooSmall b1
       else if payload_size > length ?d then (ES_OutOfBounds, b1)
       else (ES_Ok, (mb_put ?k (take payload_size ?d) b1)\<lparr>mb_next := ?k + 1\<rparr>))"
    if c: "content layout ws ?k b1" and len: "length (mb_buffer b1) = length buffer" for b1
  proof -
    note new = written_new [OF c refl]
    have c0: "content_at layout ws ?k (message_prefix layout ws ?k @ replicate 0 0) b1"
      using c by (simp add: content_def)
    have l1: "mb_layout b1 = layout" "mb_offset b1 \<le> length (mb_buffer b1)" using c by (simp_all add: content_def content_at_def)
    have "content layout (ws @ [w]) (Suc ?k) (mb_put ?k (take n ?d) b1)"
      if "n \<le> length (mb_buffer b1) - mb_offset b1" "n \<le> length ?d"
      by (rule content_put [OF c0, where s = "mb_scalars b1"])
        (use that w in \<open>auto simp: field_spec_defs new write_data_def n_def Let_def\<close>)
    then show ?thesis
      using len l1 k by (auto simp: Let_def n_def [symmetric] not_less intro!: between_calls_next)
  qed
  then show ?thesis
    unfolding mb_set_payload_def by (auto intro!: outcome_and_then [OF content_advance_to [OF b a s t]])
qed

theorem content_apply:
  assumes b: "between_calls layout buffer ws b" and a: "sized_alignments layout" and s: "length buffer < 2 ^ 63"
  shows "outcome (between_calls layout buffer (ws @ [w])) (\<lambda>_. True) (mb_apply w b)"
proof -
  have l: "mb_layout b = layout" using b by (simp add: between_calls_def content_def content_at_def)
  note scalar = content_set_scalar [OF b a s] and payload = content_set_payload [OF b a s]
  show ?thesis
  proof (cases w)
    case (W_Bytes i d)
    show ?thesis
      unfolding W_Bytes mb_apply.simps mb_set_bytes_def Let_def
      using payload [of "W_Bytes i d"] by (auto simp: l)
  next
    case (W_String i d)
    show ?thesis
      unfolding W_String mb_apply.simps mb_set_string_def
      using payload [of "W_String i d"] by (auto simp: l)
  qed (use scalar [of w] in \<open>auto simp: mb_set_unsigned_def mb_set_signed_def mb_set_float32_def mb_set_float64_def\<close>)
qed

lemma content_run:
  assumes a: "sized_alignments layout" and s: "length buffer < 2 ^ 63"
  shows "between_calls layout buffer ws b \<Longrightarrow> outcome (between_calls layout buffer (ws @ ws')) (\<lambda>_. True) (mb_run ws' b)"
proof (induction ws' arbitrary: ws b)
  case (Cons w ws')
  have "outcome (between_calls layout buffer (ws @ w # ws')) (\<lambda>_. True) (mb_run ws' b1)"
    if "between_calls layout buffer (ws @ [w]) b1" for b1
    using Cons.IH [OF that] by simp
  then show ?case by (simp add: outcome_and_then [OF content_apply [OF Cons.prems a s]])
qed simp

lemma between_calls_new: "length (cm_fields layout) \<le> 64 \<Longrightarrow> between_calls layout buffer [] (new_message_builder layout buffer)"
  by (simp add: between_calls_def content_def content_at_def new_message_builder_def kMaxFieldsPerMessage_def Let_def)

text \<open>A message before its checksums.\<close>

definition message_bytes :: "compiled_message \<Rightarrow> field_write list \<Rightarrow> bytes" where
  "message_bytes layout ws = message_prefix layout ws (length (cm_fields layout))"

theorem run_writes_prefix:
  assumes "mb_run ws (new_message_builder layout buffer) = (ES_Ok, b)" and "length (cm_fields layout) \<le> 64"
    and "sized_alignments layout" and "length buffer < 2 ^ 63"
  shows "between_calls layout buffer ws b"
  using content_run [OF assms(3,4) between_calls_new [OF assms(2)], of ws] assms(1) by simp

theorem run_then_advance:
  assumes "mb_run ws (new_message_builder layout buffer) = (ES_Ok, b)" and "length (cm_fields layout) \<le> 64"
    and "sized_alignments layout" and "length buffer < 2 ^ 63"
    and "mb_advance_to (length (cm_fields layout)) b = (ES_Ok, b')"
  shows "content layout ws (length (cm_fields layout)) b' \<and> length (mb_buffer b') = length buffer"
proof -
  note b = run_writes_prefix [OF assms(1-4)]
  then have "mb_next b \<le> length (cm_fields layout)" by (simp add: between_calls_def)
  from content_advance_to [OF b assms(3,4) this] assms(5) show ?thesis by simp
qed

end
