(* ===== verification/Decoder_Properties.thy ===== *)
theory Decoder_Properties
  imports Decoder_Spec Message_Access
begin

text \<open>
  The properties of the decoder: it refines its declarative specification, its recursion ends,
  every extent lies inside the frame, accessors read the bytes of the frame, the selection of
  fields cannot be observed except through the accessors, and \<open>decode_any\<close> returns the first
  candidate that decodes.
\<close>

subsection \<open>A frame of the demonstration protocol\<close>

definition demo_frame :: bytes where
  "demo_frame = [0x7E, 1, 0xAA, 0, 1, 0, 0, 2, 3, 0, 0, 4, 0x55, 0x84]"

text \<open>The vector routines, computed by the scalar ones.\<close>

definition plain_ops :: simd_ops where
  "plain_ops = \<lparr>so_ascii = is_valid_ascii_scalar, so_utf8 = is_valid_utf8, so_vxor = map2 (XOR),
     so_lane_sum = (\<lambda>xs. word_of_nat (sum_bytes xs)), so_lanes = 16,
     so_crc32c = (\<lambda>xs. NOT (crc_serial kCrc32cPolynomial (-1) xs))\<rparr>"

lemma make_compiled_protocol_layouts [simp]:
  "cp_messages (make_compiled_protocol n fp ss ms) = ms"
  "cp_structs (make_compiled_protocol n fp ss ms) = ss"
  by (simp_all add: make_compiled_protocol_def case_prod_beta)

lemmas decode_eval =
  assign_from_layout_def assign_with_def initial_decoded_message_def empty_decoded_message_def
  decode_field_def decode_field_size_def decode_collection_size_def decode_variant_size_def
  condition_matches_def presence_matches_def raw_unsigned_def cached_scalar_raw_def dm_field_definition_def
  eager_cache_scalar_def supports_eager_scalar_cache_def struct_by_id_def checked_add_size_def
  read_unsigned_scalar_def read_unsigned_scalar_unchecked_def byte_to_u64_def subspan_def
  checksum_anchor_offset_def runtime_checksum_def runtime_checksum_xor8_def checksum_xor8_def
  kMaxScalarWidthBytes_def is_scalar_def align_up_def kMaxFieldsPerMessage_def SIZE_MAX_def
  checksum_builtin_kind_def Let_def

lemma demo_decodes:
  "\<exists>p l m. compile_protocol builtin_registry demo_protocol = Inr p \<and> cp_messages p = [l] \<and> length (cm_fields l) = 7 \<and>
     cf_kind (cm_fields l ! 1) = KUnsigned \<and> \<not> cf_has_presence (cm_fields l ! 1) \<and>
     cf_kind (cm_fields l ! 3) = KStruct \<and>
     (\<forall>f\<in>set (cm_fields l). cf_alignment f < 2 ^ 64) \<and>
     assign_from_layout ops p l demo_frame None False = Inr (m, 14)"
  apply (simp add: compile_eval demo_protocol_def demo_message_def demo_point_def demo_field_def char_of_def bit_0)
  apply (simp add: decode_eval demo_frame_def)
  done

lemma demo_protocol_wf: "compile_protocol builtin_registry demo_protocol = Inr p \<Longrightarrow> protocol_wf p"
  by (rule compile_protocol_protocol_wf [OF _ builtin_registry_ok demo_sized])

subsection \<open>Alignment\<close>

lemma power_of_two_nat: "a AND (a - 1) = 0 \<Longrightarrow> 1 \<le> a \<Longrightarrow> \<exists>k. a = 2 ^ k" for a :: nat
proof (induction a rule: less_induct)
  case (less a)
  show ?case
  proof (cases "even a")
    case True
    then obtain b where b: "a = 2 * b" by blast
    then have "1 \<le> b" "b < a" using less.prems by auto
    have half: "(2 * b - 1) div 2 = b - 1" using \<open>1 \<le> b\<close> by linarith
    have "(2 * b AND (2 * b - 1)) = 2 * (b AND (b - 1))"
      using \<open>1 \<le> b\<close> by (subst and_nat_unfold) (simp_all add: half [simplified])
    then have "b AND (b - 1) = 0" using less.prems b by simp
    from less.IH [OF \<open>b < a\<close> this \<open>1 \<le> b\<close>] obtain k where "b = 2 ^ k" by blast
    then have "a = 2 ^ Suc k" by (simp add: b)
    then show ?thesis by blast
  next
    case False
    then obtain b where b: "a = Suc (2 * b)" by (metis oddE Suc_eq_plus1)
    have "(Suc (2 * b) AND 2 * b) = 2 * b"
      by (simp add: and_nat_unfold [of "Suc (2 * b)"])
    then have "b = 0" using less.prems b by simp
    then have "a = 2 ^ 0" by (simp add: b)
    then show ?thesis by blast
  qed
qed

lemma align_up_power:
  assumes "a = 2 ^ k" and "a < 2 ^ 64" and "v < 2 ^ 63"
  shows "v \<le> align_up v a" "a dvd align_up v a"
proof -
  have "k \<le> 63" using assms(1,2) power_less_imp_less_exp [of "2 :: nat" k 64] by simp
  then have "a \<le> 2 ^ 63" using assms(1) power_increasing [of k 63 "2 :: nat"] by simp
  then have id: "wrap_size (v + (a - v mod a)) = v + (a - v mod a)" using assms(3) by simp
  have le: "v mod a \<le> a" using assms(1) by (simp add: less_imp_le)
  have pos: "v \<le> v + (a - v mod a)" "a \<le> 1 \<Longrightarrow> a dvd v"
    by (rule le_add1) (use assms(1) in \<open>simp add: le_Suc_eq\<close>)
  have "v + (a - v mod a) = v div a * a + a"
    using le div_mult_mod_eq [of v a] by linarith
  then have "a dvd v + (a - v mod a)" by simp
  then show "v \<le> align_up v a" "a dvd align_up v a"
    unfolding align_up_def Let_def id mod_eq_0_iff_dvd using pos by (simp_all only: split: if_split) blast+
qed

lemma align_up_mono:
  assumes "a = 2 ^ k" and "a < 2 ^ 64" and "v \<le> w" and "w < 2 ^ 63"
  shows "align_up v a \<le> align_up w a"
proof (cases "v mod a = 0")
  case True
  then have "align_up v a = v" by (simp add: align_up_def)
  with align_up_power(1) [OF assms(1,2,4)] assms(3) show ?thesis by simp
next
  case False
  have a: "0 < a" using assms(1) by simp
  have "v < w + 1" using assms(3) by simp
  have k: "k \<le> 63" using assms(1,2) power_less_imp_less_exp [of "2 :: nat" k 64] by simp
  have id: "align_up v a = v div a * a + a"
  proof -
    have "a \<le> 2 ^ 63" using k assms(1) power_increasing [of k 63 "2 :: nat"] by simp
    then have "wrap_size (v + (a - v mod a)) = v + (a - v mod a)" using assms(3,4) by simp
    moreover have "v + (a - v mod a) = v div a * a + a"
      using a div_mult_mod_eq [of v a] mod_less_divisor [of a v] by linarith
    moreover have "\<not> a \<le> 1" using False a by (cases "a = 1") auto
    ultimately show ?thesis using False by (simp add: align_up_def)
  qed
  obtain c where c: "align_up w a = a * c" using align_up_power(2) [OF assms(1,2,4)] by blast
  have "v \<le> a * c" using assms(3) align_up_power(1) [OF assms(1,2,4)] c by simp
  moreover have "v \<noteq> a * c" using False by auto
  ultimately have "v < a * c" by simp
  then have "v div a < c" using a by (metis div_less_iff_less_mult mult.commute)
  then have "v div a * a + a \<le> a * c" using mult_le_mono2 [of "Suc (v div a)" c a] by (simp add: mult.commute)
  then show ?thesis by (simp add: id c)
qed

text \<open>Alignments as \<open>size_t\<close> values.\<close>

definition alignments_fit :: "compiled_message \<Rightarrow> bool" where
  "alignments_fit l \<longleftrightarrow> list_all (\<lambda>f. cf_alignment f < 2 ^ 64) (cm_fields l)"

lemma layout_alignment:
  assumes "layout_wf l" and "alignments_fit l" and "f \<in> set (cm_fields l)"
  obtains k where "cf_alignment f = 2 ^ k" "cf_alignment f < 2 ^ 64"
proof -
  obtain i where i: "i < length (cm_fields l)" "f = cm_fields l ! i" using assms(3) by (metis in_set_conv_nth)
  then have "field_wf (take i (cm_fields l)) f" using assms(1) by (simp add: layout_wf_def fields_wf_def)
  then have "cf_alignment f AND (cf_alignment f - 1) = 0" "1 \<le> cf_alignment f"
    by (simp_all add: field_wf_def modifiers_ok_def)
  from power_of_two_nat [OF this] assms(2,3) that show ?thesis by (auto simp: alignments_fit_def list_all_iff)
qed

subsection \<open>Extents\<close>

lemma decoded_as_field:
  assumes "decoded_as ops nested p l frame selected pre m n" and "layout_wf l" and "i < length (cm_fields l)"
  shows "field_step ops nested p frame m (end_before m i) (cm_fields l ! i) (dm_present m i) (dm_resolved m i) (dm_cache m i)"
proof -
  have "cf_id (cm_fields l ! i) = i" using layout_wf_fields(2) [OF assms(2)] assms(3) by simp
  moreover have "field_decoded ops nested p frame m (cm_fields l ! i)" using assms(1,3) by (simp add: decoded_as_def)
  ultimately show ?thesis by (simp add: field_decoded_def)
qed

lemma end_before_in_frame:
  assumes d: "decoded_as ops nested p l frame selected pre m n" and wf: "layout_wf l"
    and fit: "alignments_fit l" and size: "length frame < 2 ^ 63" and i: "i \<le> length (cm_fields l)"
  shows "end_before m i \<le> length frame"
proof (cases i)
  case (Suc j)
  then have j: "j < length (cm_fields l)" using i by simp
  have e: "end_before m (Suc j) \<le> length frame" if "end_before m j \<le> length frame" "j < length (cm_fields l)" for j
    using decoded_as_field [OF d wf that(2)] that(1) by (auto simp: field_step_def split: if_splits)
  have "end_before m k \<le> length frame" if "k \<le> length (cm_fields l)" for k
    using that by (induction k) (simp_all only: end_before_simps(1) zero_le e Suc_le_eq less_imp_le)
  then show ?thesis using i .
qed simp

lemma extent_step:
  assumes d: "decoded_as ops nested p l frame selected pre m n" and wf: "layout_wf l"
    and fit: "alignments_fit l" and size: "length frame < 2 ^ 63" and i: "i < length (cm_fields l)"
  shows "end_before m i \<le> fst (dm_resolved m i) \<and> (dm_present m i \<longrightarrow> cf_alignment (cm_fields l ! i) dvd fst (dm_resolved m i))"
proof -
  obtain k where k: "cf_alignment (cm_fields l ! i) = 2 ^ k" "cf_alignment (cm_fields l ! i) < 2 ^ 64"
    using layout_alignment [OF wf fit nth_mem [OF i]] .
  have "end_before m i < 2 ^ 63" using end_before_in_frame [OF d wf fit size] i size by (meson less_imp_le le_less_trans)
  from align_up_power [OF k this] decoded_as_field [OF d wf i] show ?thesis
    by (auto simp: field_step_def split: if_splits)
qed

lemma end_before_mono:
  assumes d: "decoded_as ops nested p l frame selected pre m n" and wf: "layout_wf l"
    and fit: "alignments_fit l" and size: "length frame < 2 ^ 63" and "i \<le> j" and "j \<le> length (cm_fields l)"
  shows "end_before m i \<le> end_before m j"
  using \<open>i \<le> j\<close> \<open>j \<le> length (cm_fields l)\<close>
proof (induction j rule: dec_induct)
  case (step j)
  then show ?case using extent_step [OF d wf fit size, of j] by auto
qed simp

subsection \<open>Refinement and termination\<close>

lemma known_layout:
  "protocol_wf p \<Longrightarrow> l \<in> set (cp_messages p @ cp_structs p) \<Longrightarrow>
   layout_wf l \<and> nesting_within (cp_structs p) (length (cp_structs p)) l"
  unfolding protocol_wf_def by blast

lemma assign_from_layout_iff:
  assumes "protocol_wf p" and "l \<in> set (cp_messages p @ cp_structs p)" and "length frame \<le> SIZE_MAX"
  shows "assign_from_layout ops p l frame selected pre = Inr (m, n) \<longleftrightarrow>
    decoded_as ops (consumed_size ops p) p l frame selected pre m n"
  using known_layout [OF assms(1,2)] assms(1,3) by (simp add: assign_from_layout_rec assign_with_iff)

text \<open>C2: The decoder refines its specification. For a well-formed protocol, decoding a frame
  succeeds with a message and a consumed size exactly when that message is the one the layout
  describes: every field starts, aligned, where the previous one ends, is present exactly when its
  condition and presence bit say so, has the size its kind and the earlier fields give, and caches
  the scalar the frame holds; expected values, strings, reserved bytes, checksums and validation
  rules hold; nothing of the frame is left over unless the layout or the caller allows it.\<close>

theorem decoder_refines_specification:
  assumes "protocol_wf p" and "l \<in> set (cp_messages p @ cp_structs p)" and "length frame \<le> SIZE_MAX"
  shows "assign_from_layout ops p l frame selected pre = Inr (m, n) \<longleftrightarrow>
    decoded_as ops (consumed_size ops p) p l frame selected pre m n"
  by (rule assign_from_layout_iff [OF assms])

lemma demo_frame_size: "length demo_frame \<le> SIZE_MAX" "length demo_frame < 2 ^ 63" "length demo_frame = 14"
  by (simp_all add: demo_frame_def SIZE_MAX_def)

theorem decoder_refines_specification_witness:
  "\<exists>p l m. compile_protocol builtin_registry demo_protocol = Inr p \<and>
     decoded_as plain_ops (consumed_size plain_ops p) p l demo_frame None False m 14 \<and> dm_message m = Some l"
proof -
  obtain p l m where p: "compile_protocol builtin_registry demo_protocol = Inr p" and l: "cp_messages p = [l]"
    and m: "assign_from_layout plain_ops p l demo_frame None False = Inr (m, 14)"
    using demo_decodes by blast
  have "l \<in> set (cp_messages p @ cp_structs p)" by (simp add: l)
  from decoder_refines_specification [OF demo_protocol_wf [OF p] this demo_frame_size(1)] m
  have "decoded_as plain_ops (consumed_size plain_ops p) p l demo_frame None False m 14" by blast
  moreover from this have "dm_message m = Some l" by (simp add: decoded_as_def)
  ultimately show ?thesis using p by blast
qed

text \<open>C7: Decoding terminates. Every frame is decoded against every layout of a compiled protocol
  without exhausting the number of structs as fuel, and the nested calls of the code are decodes of
  the nested layout against the rest of the frame.\<close>

theorem decoding_terminates:
  assumes "compile_protocol reg d = Inr p" and "registry_ok reg" and "definition_sized d"
    and "l \<in> set (cp_messages p @ cp_structs p)"
  shows "assign_from_layout ops p l frame selected pre \<noteq> Inl DS_OutOfFuel \<and>
    assign_from_layout ops p l frame selected pre = assign_with ops (consumed_size ops p) p l frame selected pre"
proof -
  have p: "protocol_wf p" by (rule compile_protocol_protocol_wf [OF assms(1-3)])
  note l = known_layout [OF p assms(4)]
  show ?thesis using assign_from_layout_fuel [OF p] assign_from_layout_rec [OF p] l by blast
qed

theorem decoding_terminates_witness:
  "\<exists>p. compile_protocol builtin_registry demo_protocol = Inr p \<and>
     assign_from_layout plain_ops p (hd (cp_messages p)) [0x7E, 3] None False \<noteq> Inl DS_OutOfFuel"
proof -
  obtain p l where p: "compile_protocol builtin_registry demo_protocol = Inr p" and l: "cp_messages p = [l]"
    using demo_decodes by blast
  from conjunct1 [OF decoding_terminates [OF p builtin_registry_ok demo_sized, of l]] l
  have "assign_from_layout plain_ops p (hd (cp_messages p)) [0x7E, 3] None False \<noteq> Inl DS_OutOfFuel" by simp
  with p show ?thesis by blast
qed

subsection \<open>Bounds\<close>

text \<open>C4: Extents lie inside the frame. After a successful decode the fields lie one after another
  between the start of the frame and the consumed size, which is at most the length of the frame;
  every present field starts at a multiple of its alignment. So no accessor reads outside the
  frame.\<close>

theorem decoded_extents:
  assumes "protocol_wf p" and "l \<in> set (cp_messages p @ cp_structs p)" and "alignments_fit l"
    and "length frame < 2 ^ 63" and "assign_from_layout ops p l frame selected pre = Inr (m, n)"
  shows "n \<le> length frame \<and> cm_minimum_size l \<le> length frame \<and>
    (\<forall>i < length (cm_fields l). case dm_resolved m i of (off, extent) \<Rightarrow>
       end_before m i \<le> off \<and> off + extent \<le> n \<and>
       (dm_present m i \<longrightarrow> cf_alignment (cm_fields l ! i) dvd off))"
proof -
  have size: "length frame \<le> SIZE_MAX" using assms(4) by (simp add: SIZE_MAX_def)
  note wf = conjunct1 [OF known_layout [OF assms(1,2)]]
  have d: "decoded_as ops (consumed_size ops p) p l frame selected pre m n"
    using assms(5) unfolding assign_from_layout_iff [OF assms(1,2) size] .
  have n: "n = end_before m (length (cm_fields l))" using d by (simp add: decoded_as_def)
  have "end_before m i \<le> off \<and> off + extent \<le> n \<and> (dm_present m i \<longrightarrow> cf_alignment (cm_fields l ! i) dvd off)"
    if "i < length (cm_fields l)" "dm_resolved m i = (off, extent)" for i off extent
    using extent_step [OF d wf assms(3,4) that(1)] end_before_mono [OF d wf assms(3,4), of "Suc i" "length (cm_fields l)"] that
    by (simp add: n)
  with end_before_in_frame [OF d wf assms(3,4)] d show ?thesis
    by (auto simp: n decoded_as_def split: prod.split)
qed

theorem decoded_extents_witness:
  "\<exists>p l m. compile_protocol builtin_registry demo_protocol = Inr p \<and>
     assign_from_layout plain_ops p l demo_frame None False = Inr (m, 14) \<and>
     fst (dm_resolved m 3) + snd (dm_resolved m 3) \<le> 14 \<and> end_before m 3 \<le> fst (dm_resolved m 3)"
proof -
  obtain p l m where p: "compile_protocol builtin_registry demo_protocol = Inr p" and l: "cp_messages p = [l]"
    "length (cm_fields l) = 7" "\<forall>f\<in>set (cm_fields l). cf_alignment f < 2 ^ 64"
    and m: "assign_from_layout plain_ops p l demo_frame None False = Inr (m, 14)"
    using demo_decodes by blast
  have "l \<in> set (cp_messages p @ cp_structs p)" "alignments_fit l"
    using l by (simp_all add: alignments_fit_def list_all_iff)
  from decoded_extents [OF demo_protocol_wf [OF p] this demo_frame_size(2) m] l(2)
  have "fst (dm_resolved m 3) + snd (dm_resolved m 3) \<le> 14 \<and> end_before m 3 \<le> fst (dm_resolved m 3)"
    by (simp only: split_beta)
  with p m show ?thesis by blast
qed

subsection \<open>Accessors\<close>

lemma decoded_scalar:
  assumes d: "decoded_as ops nested p l frame selected pre m n" and wf: "layout_wf l"
    and i: "i < length (cm_fields l)" and f: "f = cm_fields l ! i"
    and k: "cf_kind f \<in> {KUnsigned, KSigned, KEnum}"
  shows "dm_cache m i = (if dm_present m i
    then Some (read_unsigned_scalar_unchecked (cf_byte_order f) (subspan (fst (dm_resolved m i)) (cf_width_bytes f) frame))
    else None)"
proof -
  have "kind_ok (take i (cm_fields l)) f"
    using wf i f by (simp add: layout_wf_def fields_wf_def field_wf_def)
  then have w: "is_valid_scalar_width (cf_width_bytes f)" using k by (auto simp: kind_ok_def)
  then have e: "supports_eager_scalar_cache f"
    using k by (auto simp: supports_eager_scalar_cache_def is_scalar_def is_valid_scalar_width_def kMaxScalarWidthBytes_def)
  note step = decoded_as_field [OF d wf i, folded f]
  show ?thesis
  proof (cases "dm_present m i")
    case True
    then have fits: "fst (dm_resolved m i) + snd (dm_resolved m i) \<le> length frame"
      and size: "snd (dm_resolved m i) = cf_width_bytes f"
      and c: "dm_cache m i = read_unsigned_scalar (subspan (fst (dm_resolved m i)) (cf_width_bytes f) frame) (cf_byte_order f)"
      using step e decode_field_size_scalar [OF supports_eager_scalar [OF e], of nested p frame m]
      by (auto simp: field_step_def)
    with w show ?thesis
      using True by (auto simp: read_unsigned_scalar_def span_simps is_valid_scalar_width_def kMaxScalarWidthBytes_def)
  next
    case False
    with step show ?thesis by (auto simp: field_step_def)
  qed
qed

text \<open>C5: Scalar accessors read the frame. After a successful decode \<open>get_unsigned\<close> returns, for a
  present and selected unsigned or enum field, the value that its bytes have in its byte order,
  and nothing for any other field.\<close>

theorem get_unsigned_reads_frame:
  assumes "protocol_wf p" and "l \<in> set (cp_messages p @ cp_structs p)" and "length frame \<le> SIZE_MAX"
    and "assign_from_layout ops p l frame selected pre = Inr (m, n)"
    and "i < length (cm_fields l)" and "f = cm_fields l ! i"
  shows "get_unsigned m i =
    (if cf_kind f \<in> {KUnsigned, KEnum} \<and> is_present m i
     then Some (read_unsigned_scalar_unchecked (cf_byte_order f)
                 (subspan (fst (dm_resolved m i)) (cf_width_bytes f) frame))
     else None)"
proof -
  note wf = conjunct1 [OF known_layout [OF assms(1,2)]]
  have d: "decoded_as ops (consumed_size ops p) p l frame selected pre m n"
    using assms(4) unfolding assign_from_layout_iff [OF assms(1-3)] .
  have def: "dm_field_definition m i = Some f" "dm_field_count m = length (cm_fields l)"
    using d assms(5,6) by (simp_all add: decoded_as_def dm_field_definition_def)
  have raw: "raw_unsigned m i = (if cf_kind f \<in> {KUnsigned, KEnum} then dm_cache m i else None)"
    by (simp add: raw_unsigned_def cached_scalar_raw_def def is_scalar_def)
  show ?thesis
    using decoded_scalar [OF d wf assms(5,6)] assms(5)
    by (auto simp: get_unsigned_def raw is_present_def def)
qed

theorem get_unsigned_reads_frame_witness:
  "\<exists>p l m. compile_protocol builtin_registry demo_protocol = Inr p \<and>
     assign_from_layout plain_ops p l demo_frame None False = Inr (m, 14) \<and>
     get_unsigned m 1 = (if is_present m 1 then Some (read_unsigned_scalar_unchecked (cf_byte_order (cm_fields l ! 1))
                 (subspan (fst (dm_resolved m 1)) (cf_width_bytes (cm_fields l ! 1)) demo_frame)) else None)"
proof -
  obtain p l m where p: "compile_protocol builtin_registry demo_protocol = Inr p" and l: "cp_messages p = [l]"
    "length (cm_fields l) = 7" "cf_kind (cm_fields l ! 1) = KUnsigned"
    and m: "assign_from_layout plain_ops p l demo_frame None False = Inr (m, 14)"
    using demo_decodes by blast
  have "l \<in> set (cp_messages p @ cp_structs p)" "1 < length (cm_fields l)" using l by simp_all
  from get_unsigned_reads_frame [OF demo_protocol_wf [OF p] this(1) demo_frame_size(1) m this(2) refl] l(3)
  have "get_unsigned m 1 = (if is_present m 1 then Some (read_unsigned_scalar_unchecked (cf_byte_order (cm_fields l ! 1))
                 (subspan (fst (dm_resolved m 1)) (cf_width_bytes (cm_fields l ! 1)) demo_frame)) else None)"
    by (simp only: insert_iff simp_thms)
  with p m show ?thesis by blast
qed

text \<open>Presence of optional fields. In a message decoded without a mask a field is present
  exactly when the field of its condition holds the required value and the bit of its presence
  field is set; a field without such a modifier is always present.\<close>

theorem presence_decided_by_modifiers:
  assumes "protocol_wf p" and "l \<in> set (cp_messages p @ cp_structs p)" and "length frame \<le> SIZE_MAX"
    and "assign_from_layout ops p l frame None pre = Inr (m, n)"
    and "i < length (cm_fields l)" and "f = cm_fields l ! i"
  shows "is_present m i \<longleftrightarrow>
    (\<not> cf_has_condition f \<or> get_unsigned m (cf_condition_field f) = Some (cf_condition_equals f)) \<and>
    (\<not> cf_has_presence f \<or> (\<exists>v. get_unsigned m (cf_presence_field f) = Some v \<and> bit v (cf_presence_bit f)))"
proof -
  note wf = conjunct1 [OF known_layout [OF assms(1,2)]]
  have d: "decoded_as ops (consumed_size ops p) p l frame None pre m n"
    using assms(4) unfolding assign_from_layout_iff [OF assms(1-3)] .
  have sel: "field_selected m j" for j using d by (simp add: decoded_as_def field_selected_def)
  have "dm_present m i = (condition_matches m f \<and> presence_matches m f)"
    using decoded_as_field [OF d wf assms(5), folded assms(6)] by (simp add: field_step_def)
  moreover have "is_present m i = dm_present m i"
    using d assms(5) sel by (simp add: is_present_def decoded_as_def)
  moreover have "drop_bit b v AND 1 \<noteq> 0 \<longleftrightarrow> bit v b" for b and v :: u64
    by (simp add: and_one_eq bit_iff_odd_drop_bit odd_iff_mod_2_eq_one)
  ultimately show ?thesis
    by (auto simp: condition_matches_def presence_matches_def get_unsigned_def sel split: option.splits)
qed

theorem presence_decided_by_modifiers_witness:
  "\<exists>p l m. compile_protocol builtin_registry demo_protocol = Inr p \<and>
     assign_from_layout plain_ops p l demo_frame None False = Inr (m, 14) \<and>
     is_present m 1 = (\<not> cf_has_condition (cm_fields l ! 1) \<or> get_unsigned m (cf_condition_field (cm_fields l ! 1)) = Some (cf_condition_equals (cm_fields l ! 1))) \<and>
     \<not> cf_has_presence (cm_fields l ! 1)"
proof -
  obtain p l m where p: "compile_protocol builtin_registry demo_protocol = Inr p" and l: "cp_messages p = [l]"
    "length (cm_fields l) = 7" "\<not> cf_has_presence (cm_fields l ! 1)"
    and m: "assign_from_layout plain_ops p l demo_frame None False = Inr (m, 14)"
    using demo_decodes by blast
  have "l \<in> set (cp_messages p @ cp_structs p)" "1 < length (cm_fields l)" using l by simp_all
  from presence_decided_by_modifiers [OF demo_protocol_wf [OF p] this(1) demo_frame_size(1) m this(2) refl] p m l(3)
  show ?thesis by blast
qed

subsection \<open>Masks and plans\<close>

definition mark_selection :: "(field_id \<Rightarrow> bool) \<Rightarrow> decoded_message \<Rightarrow> decoded_message" where
  "mark_selection s m = m\<lparr>dm_selected := s, dm_selection_active := True\<rparr>"

lemma mark_selection_simps [simp]:
  "dm_message (mark_selection s m) = dm_message m"
  "dm_present (mark_selection s m) = dm_present m"
  "dm_resolved (mark_selection s m) = dm_resolved m"
  "dm_cache (mark_selection s m) = dm_cache m"
  "dm_frame (mark_selection s m) = dm_frame m"
  "dm_field_count (mark_selection s m) = dm_field_count m"
  "raw_unsigned (mark_selection s m) i = raw_unsigned m i"
  "cached_scalar_raw (mark_selection s m) i = cached_scalar_raw m i"
  "condition_matches (mark_selection s m) f = condition_matches m f"
  "presence_matches (mark_selection s m) f = presence_matches m f"
proof -
  have a: "agree_below k (mark_selection s m) m" for k by (simp add: agree_below_def mark_selection_def)
  have d: "dm_field_definition (mark_selection s m) i = dm_field_definition m i" for i
    by (simp add: dm_field_definition_def mark_selection_def)
  show r: "raw_unsigned (mark_selection s m) i = raw_unsigned m i" for i
    by (rule raw_unsigned_agree [OF a [of "Suc i"]]) simp
  show "cached_scalar_raw (mark_selection s m) i = cached_scalar_raw m i"
    by (simp add: cached_scalar_raw_def d) (simp add: mark_selection_def split: option.split)
  show "condition_matches (mark_selection s m) f = condition_matches m f"
    "presence_matches (mark_selection s m) f = presence_matches m f"
    by (simp_all add: condition_matches_def presence_matches_def r)
qed (simp_all add: mark_selection_def)

lemma decode_field_size_mark: "decode_field_size nested p frame (mark_selection s m) f off = decode_field_size nested p frame m f off"
  by (simp add: decode_field_size_def decode_collection_size_def decode_variant_size_def)

lemma eager_cache_mark: "eager_cache_scalar i bs (mark_selection s m) = mark_selection s (eager_cache_scalar i bs m)"
  by (auto simp: eager_cache_scalar_def dm_field_definition_def mark_selection_def split: option.splits)

definition mark_result :: "(field_id \<Rightarrow> bool) \<Rightarrow> decode_status + decoded_message \<times> nat \<Rightarrow> decode_status + decoded_message \<times> nat" where
  "mark_result s r = map_sum (\<lambda>e. e) (\<lambda>(m, n). (mark_selection s m, n)) r"

lemma mark_result_simps [simp]:
  "mark_result s (Inl e) = Inl e" "mark_result s (Inr (m, n)) = Inr (mark_selection s m, n)"
  "mark_result s (if b then x else y) = (if b then mark_result s x else mark_result s y)"
  "mark_result s (bind_res r g) = bind_res r (\<lambda>a. mark_result s (g a))"
  "mark_result s (case z of None \<Rightarrow> x | Some c \<Rightarrow> h c) = (case z of None \<Rightarrow> mark_result s x | Some c \<Rightarrow> mark_result s (h c))"
  by (simp_all add: mark_result_def bind_res_def split: sum.split option.split)

lemma decode_field_mark:
  "decode_field ops nested p frame f (mark_selection s m, off) = mark_result s (decode_field ops nested p frame f (m, off))"
proof -
  have upd: "(mark_selection s m)\<lparr>dm_present := pr, dm_resolved := r\<rparr> = mark_selection s (m\<lparr>dm_present := pr, dm_resolved := r\<rparr>)" for pr r
    by (simp add: mark_selection_def)
  show ?thesis
    unfolding decode_field_def prod.case Let_def mark_selection_simps decode_field_size_mark upd eager_cache_mark
      mark_result_simps
    by (simp only: refl)
qed

lemma decode_fields_mark:
  "decode_fields ops nested p frame fs (mark_selection s m, off) = mark_result s (decode_fields ops nested p frame fs (m, off))"
proof (induction fs arbitrary: m off)
  case (Cons f fs)
  then show ?case
    by (cases "decode_field ops nested p frame f (m, off)") (auto simp: decode_field_mark)
qed simp

lemma assign_with_mark:
  "assign_with ops nested p l frame (Some s) pre = mark_result s (assign_with ops nested p l frame None pre)"
proof -
  have init: "initial_decoded_message p l frame (Some s) = mark_selection s (initial_decoded_message p l frame None)"
    by (simp add: initial_decoded_message_def mark_selection_def)
  have cks: "check_checksums ops frame (mark_selection s m) cs = check_checksums ops frame m cs" for m cs
  proof -
    have "checksum_anchor_offset a frame (mark_selection s m) = checksum_anchor_offset a frame m" for a
      by (simp add: checksum_anchor_offset_def split: checksum_anchor_kind.split)
    then show ?thesis by (induction cs) (simp_all split: option.split)
  qed
  have vds: "check_validations (mark_selection s m) rs = check_validations m rs" for m rs
    by (induction rs) (simp_all add: validation_applies_def split: option.split)
  have upd: "(mark_selection s m)\<lparr>dm_frame := b\<rparr> = mark_selection s (m\<lparr>dm_frame := b\<rparr>)" for m b
    by (simp add: mark_selection_def)
  show ?thesis
    by (cases "decode_fields ops nested p frame (cm_fields l) (initial_decoded_message p l frame None, 0)")
      (auto simp: assign_with_def init decode_fields_mark cks vds upd)
qed

lemma assign_from_layout_mark:
  "assign_from_layout ops p l frame (Some s) pre = mark_result s (assign_from_layout ops p l frame None pre)"
  by (simp add: assign_from_layout_def assign_with_mark)

text \<open>C8: Field masks only hide fields. Decoding with a mask succeeds on the same frames with the
  same status and the same consumed size as decoding without one; the masked message differs only
  in its selection, so a selected field reads as before and any other field reads as absent.\<close>

theorem mask_only_hides_fields:
  "(case assign_from_layout ops p l frame None pre of
      Inl e \<Rightarrow> assign_from_layout ops p l frame (Some s) pre = Inl e
    | Inr (m, n) \<Rightarrow> \<exists>m'. assign_from_layout ops p l frame (Some s) pre = Inr (m', n) \<and>
        (\<forall>i. get_unsigned m' i = (if s i then raw_unsigned m i else None) \<and>
             is_present m' i = (s i \<and> i < dm_field_count m \<and> dm_present m i) \<and>
             resolved_field m' i = (if is_present m' i then Some (dm_resolved m i) else None)))"
  by (auto simp: assign_from_layout_mark get_unsigned_def is_present_def resolved_field_def field_selected_def
      mark_selection_def raw_unsigned_def cached_scalar_raw_def dm_field_definition_def split: sum.split option.split)

text \<open>Plans. Decoding with a plan made for a message, with or without a mask, is decoding that
  message by name; a plan exists exactly for the messages of the protocol, and the plan of another
  protocol is refused.\<close>

theorem plan_decodes_its_message:
  "(case make_plan_masked self p name field_mask of
      None \<Rightarrow> decode_as_masked ops p name frame field_mask = Inl DS_MessageNotFound
    | Some plan \<Rightarrow> decode_with_plan ops self p plan frame = decode_as_masked ops p name frame field_mask \<and>
        decode_with_plan ops (Suc self) p plan frame = Inl DS_MessageNotFound) \<and>
   (case make_plan self p name of
      None \<Rightarrow> decode_as ops p name frame = Inl DS_MessageNotFound
    | Some plan \<Rightarrow> decode_with_plan ops self p plan frame = decode_as ops p name frame)"
  by (auto simp: make_plan_masked_def make_plan_def decode_with_plan_def decode_as_masked_def decode_as_def
      split: option.split)

subsection \<open>Selecting the message\<close>

text \<open>The order in which \<open>decode_any\<close> tries the messages: those whose fixed prefix the frame starts
  with, then those without a prefix, each group in declaration order.\<close>

definition candidate_order :: "compiled_message list \<Rightarrow> bytes \<Rightarrow> nat list" where
  "candidate_order ms frame =
     filter (\<lambda>i. cm_dispatch_prefix (ms ! i) \<noteq> [] \<and> starts_with frame (cm_dispatch_prefix (ms ! i))) [0..<length ms] @
     filter (\<lambda>i. cm_dispatch_prefix (ms ! i) = []) [0..<length ms]"

definition decodes :: "simd_ops \<Rightarrow> compiled_protocol \<Rightarrow> bytes \<Rightarrow> nat \<Rightarrow> bool" where
  "decodes ops p frame i \<longleftrightarrow> (case decode_as_layout ops p (cp_messages p ! i) frame of Inl _ \<Rightarrow> False | Inr _ \<Rightarrow> True)"

lemma frame_matches_dispatch_prefix_iff:
  "frame_matches_dispatch_prefix m frame = starts_with frame (cm_dispatch_prefix m)"
proof -
  have "take (length xs) frame = xs \<Longrightarrow> length xs \<le> length frame" for xs :: bytes
    by (metis length_take min.cobounded1)
  then show ?thesis by (auto simp: frame_matches_dispatch_prefix_def starts_with_iff)
qed

lemma try_decode_candidates_find:
  "(case find (decodes ops p frame) (filter (\<lambda>i. frame_matches_dispatch_prefix (cp_messages p ! i) frame) ids) of
      Some i \<Rightarrow> \<exists>a. try_decode_candidates ops p ids frame best attempted = (decode_as_layout ops p (cp_messages p ! i) frame, a)
    | None \<Rightarrow> \<exists>e a. try_decode_candidates ops p ids frame best attempted = (Inl e, a))"
proof (induction ids arbitrary: best attempted)
  case (Cons i ids)
  show ?case
  proof (cases "frame_matches_dispatch_prefix (cp_messages p ! i) frame")
    case True
    then show ?thesis
      using Cons.IH by (cases "decode_as_layout ops p (cp_messages p ! i) frame") (auto simp: decodes_def Let_def split: option.splits)
  next
    case False
    then have "try_decode_candidates ops p (i # ids) frame best attempted = try_decode_candidates ops p ids frame best attempted"
      by (simp add: Let_def)
    moreover have "filter (\<lambda>i. frame_matches_dispatch_prefix (cp_messages p ! i) frame) (i # ids) =
        filter (\<lambda>i. frame_matches_dispatch_prefix (cp_messages p ! i) frame) ids" using False by simp
    ultimately show ?thesis using Cons.IH [of best attempted] by (simp only:)
  qed
qed simp

lemma find_append: "find P (xs @ ys) = (case find P xs of None \<Rightarrow> find P ys | Some x \<Rightarrow> Some x)"
  by (induction xs) simp_all

lemma find_cong_result:
  "(case find (decodes ops p frame) xs of Some i \<Rightarrow> \<exists>m. decode_as_layout ops p (cp_messages p ! i) frame = Inr m | None \<Rightarrow> True)"
  by (induction xs) (auto simp: decodes_def split: sum.splits)

lemma candidates_filter:
  assumes "p = make_compiled_protocol name fp structs ms"
  shows "filter (\<lambda>i. frame_matches_dispatch_prefix (cp_messages p ! i) frame) (dispatch_candidate_ids p frame) =
      filter (\<lambda>i. cm_dispatch_prefix (ms ! i) \<noteq> [] \<and> starts_with frame (cm_dispatch_prefix (ms ! i))) [0..<length ms]"
    "filter (\<lambda>i. frame_matches_dispatch_prefix (cp_messages p ! i) frame) (cp_fallback_message_ids p) =
      filter (\<lambda>i. cm_dispatch_prefix (ms ! i) = []) [0..<length ms]"
proof -
  have m: "cp_messages p = ms" by (simp add: assms)
  have eq: "(prefix_starts b l \<and> starts_with (b # fr) (cm_dispatch_prefix l)) \<longleftrightarrow>
      (cm_dispatch_prefix l \<noteq> [] \<and> starts_with (b # fr) (cm_dispatch_prefix l))" for b l fr
    by (cases "cm_dispatch_prefix l") (auto simp: prefix_starts_def starts_with_iff)
  show "filter (\<lambda>i. frame_matches_dispatch_prefix (cp_messages p ! i) frame) (dispatch_candidate_ids p frame) =
      filter (\<lambda>i. cm_dispatch_prefix (ms ! i) \<noteq> [] \<and> starts_with frame (cm_dispatch_prefix (ms ! i))) [0..<length ms]"
  proof (cases frame)
    case Nil
    have "starts_with [] (cm_dispatch_prefix l) \<longleftrightarrow> cm_dispatch_prefix l = []" for l :: compiled_message
      by (auto simp: starts_with_iff)
    then have "filter (\<lambda>i. cm_dispatch_prefix (ms ! i) \<noteq> [] \<and> starts_with [] (cm_dispatch_prefix (ms ! i))) [0..<length ms] = []"
      by (simp add: filter_empty_conv)
    then show ?thesis by (simp add: Nil dispatch_candidate_ids_def)
  next
    case (Cons b fr)
    then show ?thesis
      unfolding assms dispatch_candidates_make Cons
      by (simp add: m [unfolded assms] frame_matches_dispatch_prefix_iff eq)
  qed
  have "frame_matches_dispatch_prefix l frame" if "cm_dispatch_prefix l = []" for l
    using that by (simp add: frame_matches_dispatch_prefix_def)
  then show "filter (\<lambda>i. frame_matches_dispatch_prefix (cp_messages p ! i) frame) (cp_fallback_message_ids p) =
      filter (\<lambda>i. cm_dispatch_prefix (ms ! i) = []) [0..<length ms]"
    unfolding assms dispatch_candidates_make(3) by (auto intro!: filter_cong)
qed

text \<open>C6: \<open>decode_any\<close> finds the first message that decodes. It fails only if no message of the
  candidate order decodes the frame; otherwise it returns the decode of the first one that does.
  So the dispatch table only saves attempts, and never hides a message whose prefix the frame
  has.\<close>

theorem decode_any_first_match:
  "let p = make_compiled_protocol name fp structs ms in
   (case find (decodes ops p frame) (candidate_order ms frame) of
      Some i \<Rightarrow> decode_any ops p frame = decode_as_layout ops p (ms ! i) frame \<and> (\<exists>m. decode_any ops p frame = Inr m)
    | None \<Rightarrow> \<exists>e. decode_any ops p frame = Inl e)"
proof -
  define p where "p = make_compiled_protocol name fp structs ms"
  have m: "cp_messages p = ms" by (simp add: p_def)
  note F = candidates_filter [OF p_def, where frame = frame]
  let ?A = "filter (\<lambda>i. cm_dispatch_prefix (ms ! i) \<noteq> [] \<and> starts_with frame (cm_dispatch_prefix (ms ! i))) [0..<length ms]"
  let ?B = "filter (\<lambda>i. cm_dispatch_prefix (ms ! i) = []) [0..<length ms]"
  note A_raw = try_decode_candidates_find [where ops = ops and p = p and frame = frame and ids = "dispatch_candidate_ids p frame", unfolded F, unfolded m]
  note B_raw = try_decode_candidates_find [where ops = ops and p = p and frame = frame and ids = "cp_fallback_message_ids p", unfolded F, unfolded m]
  have A: "(case find (decodes ops p frame) ?A of
      Some i \<Rightarrow> \<exists>a. try_decode_candidates ops p (dispatch_candidate_ids p frame) frame best att = (decode_as_layout ops p (ms ! i) frame, a)
    | None \<Rightarrow> \<exists>e a. try_decode_candidates ops p (dispatch_candidate_ids p frame) frame best att = (Inl e, a))" for best att
    using A_raw [of best att] .
  have B: "(case find (decodes ops p frame) ?B of
      Some i \<Rightarrow> \<exists>a. try_decode_candidates ops p (cp_fallback_message_ids p) frame best att = (decode_as_layout ops p (ms ! i) frame, a)
    | None \<Rightarrow> \<exists>e a. try_decode_candidates ops p (cp_fallback_message_ids p) frame best att = (Inl e, a))" for best att
    using B_raw [of best att] .
  have ok: "find (decodes ops p frame) xs = Some i \<Longrightarrow> \<exists>m. decode_as_layout ops p (ms ! i) frame = Inr m" for xs i
    using find_cong_result [of ops p frame xs] by (simp add: m)
  have "case find (decodes ops p frame) (candidate_order ms frame) of
      Some i \<Rightarrow> decode_any ops p frame = decode_as_layout ops p (ms ! i) frame \<and> (\<exists>m. decode_any ops p frame = Inr m)
    | None \<Rightarrow> \<exists>e. decode_any ops p frame = Inl e"
  proof (cases "find (decodes ops p frame) ?A")
    case (Some i)
    with A [of DS_MessageNotFound False] ok [OF Some] show ?thesis
      by (auto simp: candidate_order_def find_append decode_any_def)
  next
    case None
    with A [of DS_MessageNotFound False] obtain e a where
      first: "try_decode_candidates ops p (dispatch_candidate_ids p frame) frame DS_MessageNotFound False = (Inl e, a)" by auto
    show ?thesis
    proof (cases "find (decodes ops p frame) ?B")
      case (Some i)
      with B [of e a] ok [OF Some] None show ?thesis
        by (auto simp: candidate_order_def find_append decode_any_def first)
    next
      case N: None
      with B [of e a] None show ?thesis
        by (auto simp: candidate_order_def find_append decode_any_def first)
    qed
  qed
  then show ?thesis unfolding p_def Let_def .
qed

subsection \<open>Variants\<close>

lemma lower_bound_case_sound:
  "lower_bound_case cs tag = Some c \<Longrightarrow> c \<in> set cs"
  by (induction cs) (auto split: if_splits)

lemma lower_bound_case_complete:
  "sorted (map cvc_tag_value cs) \<Longrightarrow> c \<in> set cs \<Longrightarrow> cvc_tag_value c = tag \<Longrightarrow>
   \<exists>d. lower_bound_case cs tag = Some d \<and> cvc_tag_value d = tag"
  by (induction cs) auto

lemma find_variant_case_sound:
  assumes k: "kind_ok fs f" "cf_kind f = KVariant" and c: "find_variant_case f tag = Some c"
  shows "c \<in> set (cf_variant_cases f) \<and> cvc_tag_value c = tag"
proof -
  have lk: "lookup_ok f" and ne: "cf_variant_cases f \<noteq> []" using k by (simp_all add: kind_ok_def)
  have search: "(case lower_bound_case (cf_variant_cases f) tag of None \<Rightarrow> None
      | Some c \<Rightarrow> if cvc_tag_value c \<noteq> tag then None else Some c) = Some c \<Longrightarrow>
      c \<in> set (cf_variant_cases f) \<and> cvc_tag_value c = tag" for c
    using lower_bound_case_sound [of "cf_variant_cases f" tag] by (auto split: option.splits if_splits)
  show ?thesis
  proof (cases "cf_variant_lookup_indices f = []")
    case True
    with c search show ?thesis by (simp add: find_variant_case_def Let_def)
  next
    case False
    let ?i = "unat (tag - cf_variant_lookup_base f)"
    show ?thesis
    proof (cases "?i < length (cf_variant_lookup_indices f)")
      case True
      let ?j = "cf_variant_lookup_indices f ! ?i"
      from c False True have j: "?j \<noteq> kVariantLookupMissing" "c = cf_variant_cases f ! ?j"
        by (auto simp: find_variant_case_def Let_def split: if_splits)
      with lk False True have "?j < length (cf_variant_cases f)"
        "unat (cvc_tag_value (cf_variant_cases f ! ?j) - cf_variant_lookup_base f) = ?i"
        by (auto simp: lookup_ok_def)
      with j(2) show ?thesis by (simp flip: word_unat_eq_iff)
    next
      case F: False
      with c False search show ?thesis by (auto simp: find_variant_case_def Let_def split: if_splits)
    qed
  qed
qed

lemma find_variant_case_complete:
  assumes k: "kind_ok fs f" "cf_kind f = KVariant" and c: "c \<in> set (cf_variant_cases f)" "cvc_tag_value c = tag"
  shows "find_variant_case f tag \<noteq> None"
proof -
  have lk: "lookup_ok f" and so: "sorted (map cvc_tag_value (cf_variant_cases f))" using k by (simp_all add: kind_ok_def)
  obtain d where d: "lower_bound_case (cf_variant_cases f) tag = Some d" "cvc_tag_value d = tag"
    using lower_bound_case_complete [OF so c] by blast
  show ?thesis
  proof (cases "cf_variant_lookup_indices f = []")
    case True
    with d show ?thesis by (simp add: find_variant_case_def Let_def)
  next
    case False
    let ?i = "unat (tag - cf_variant_lookup_base f)"
    have base: "cf_variant_lookup_base f \<le> tag"
      using lk False c so by (cases "cf_variant_cases f") (auto simp: lookup_ok_def)
    have i: "?i < length (cf_variant_lookup_indices f)" using lk False c by (auto simp: lookup_ok_def)
    with lk False have "if cf_variant_lookup_indices f ! ?i = kVariantLookupMissing
          then \<forall>c\<in>set (cf_variant_cases f). unat (cvc_tag_value c - cf_variant_lookup_base f) \<noteq> ?i else True"
      by (auto simp: lookup_ok_def)
    then have "cf_variant_lookup_indices f ! ?i \<noteq> kVariantLookupMissing" using c by auto
    with i base False show ?thesis by (auto simp: find_variant_case_def Let_def not_less)
  qed
qed

text \<open>Variant lookup. For a variant of a well-formed layout the dense table and the binary
  search return a case with the tag exactly when the variant declares one, and no other case.\<close>

theorem variant_lookup_by_tag:
  assumes "layout_wf l" and "f \<in> set (cm_fields l)" and "cf_kind f = KVariant"
  shows "case find_variant_case f tag of
      None \<Rightarrow> tag \<notin> cvc_tag_value ` set (cf_variant_cases f)
    | Some c \<Rightarrow> c \<in> set (cf_variant_cases f) \<and> cvc_tag_value c = tag"
proof -
  obtain fs where "kind_ok fs f" using layout_wf_kinds [OF assms(1)] assms(2) by blast
  then show ?thesis
    using find_variant_case_sound [OF _ assms(3), of fs tag] find_variant_case_complete [OF _ assms(3), of fs _ tag]
    by (cases "find_variant_case f tag") auto
qed

definition variant_layout :: compiled_message where
  "variant_layout = default_compiled_message\<lparr>cm_fields :=
     [default_compiled_field\<lparr>cf_id := 0, cf_name := ''tag'', cf_kind := KUnsigned, cf_width_bytes := 1\<rparr>,
      default_compiled_field\<lparr>cf_id := 1, cf_name := ''body'', cf_kind := KVariant, cf_tag_from_field := 0,
        cf_variant_cases := [\<lparr>cvc_tag_value = 3, cvc_struct_id = 0\<rparr>, \<lparr>cvc_tag_value = 9, cvc_struct_id = 1\<rparr>]\<rparr>]\<rparr>"

theorem variant_lookup_by_tag_witness:
  "find_variant_case (cm_fields variant_layout ! 1) 9 = Some \<lparr>cvc_tag_value = 9, cvc_struct_id = 1\<rparr> \<and>
   find_variant_case (cm_fields variant_layout ! 1) 4 = None"
proof -
  have "layout_wf variant_layout"
    by (auto simp: layout_wf_def variant_layout_def default_compiled_message_def default_compiled_field_def
        fields_wf_def bit_fields_wf_def field_wf_def kind_ok_def modifiers_ok_def numeric_ref_def lookup_ok_def
        is_valid_scalar_width_def make_compiled_message_def less_Suc_eq)
  from variant_lookup_by_tag [OF this, of "cm_fields variant_layout ! 1" 9]
    variant_lookup_by_tag [OF this, of "cm_fields variant_layout ! 1" 4]
  show ?thesis
    by (auto simp: variant_layout_def default_compiled_message_def default_compiled_field_def make_compiled_message_def
        split: option.splits)
qed

subsection \<open>Aligned magic values\<close>

definition aligned_magic :: protocol_definition where
  "aligned_magic =
     \<lparr>pd_name = ''demo'', pd_imports = [], pd_enums = [], pd_structs = [],
      pd_messages = [\<lparr>md_name = ''m'',
         md_fields = [(demo_field ''a'' 1)\<lparr>fd_has_expected_unsigned := True, fd_expected_unsigned := 1\<rparr>,
           (demo_field ''b'' 1)\<lparr>fd_has_expected_unsigned := True, fd_expected_unsigned := 2, fd_alignment := 2\<rparr>],
         md_validations = [], md_allow_trailing_bytes = False\<rparr>]\<rparr>"

text \<open>The dispatch prefix ignores alignment. The compiler concatenates the expected values of the
  leading fields without the padding their alignment asks for, so \<open>decode_any\<close> finds no candidate
  for a frame that decodes by name: with a byte 1 and, aligned to 2, a byte 2, the prefix is 01 02
  while the frames of the message are 01 xx 02.\<close>

theorem dispatch_prefix_ignores_alignment:
  "\<exists>p m. compile_protocol builtin_registry aligned_magic = Inr p \<and>
     map cm_dispatch_prefix (cp_messages p) = [[1, 2]] \<and>
     decode_as ops p ''m'' [1, 0, 2] = Inr m \<and>
     decode_any ops p [1, 0, 2] = Inl DS_MessageNotFound"
proof -
  define l where "l = make_compiled_message ''m''
     [default_compiled_field\<lparr>cf_name := ''a'', cf_width_bytes := 1, cf_has_expected_unsigned := True, cf_expected_unsigned := 1\<rparr>,
      default_compiled_field\<lparr>cf_id := 1, cf_name := ''b'', cf_width_bytes := 1, cf_alignment := 2,
        cf_has_expected_unsigned := True, cf_expected_unsigned := 2\<rparr>] [] [] [] 3 True False [1, 2]"
  define p where "p = make_compiled_protocol ''demo'' (fingerprint aligned_magic) [] [l]"
  have c: "compile_protocol builtin_registry aligned_magic = Inr p"
    by (simp add: compile_eval aligned_magic_def demo_field_def p_def l_def numeral_3_eq_3)
  obtain m where m: "assign_from_layout ops p l [1, 0, 2] None False = Inr (m, 3)"
    by (simp add: decode_eval l_def p_def default_compiled_field_def)
  have "find_message p ''m'' = Some l" by (simp add: p_def find_message_make l_def)
  then have as: "decode_as ops p ''m'' [1, 0, 2] = Inr m" by (simp add: decode_as_def decode_message_def m)
  have pre: "cm_dispatch_prefix l = [1, 2]" "cp_messages p = [l]" by (simp_all add: l_def p_def)
  have "dispatch_candidate_ids p [1, 0, 2] = [0]" "cp_fallback_message_ids p = []"
    by (simp_all add: p_def dispatch_candidates_make pre prefix_starts_def)
  then have "decode_any ops p [1, 0, 2] = Inl DS_MessageNotFound"
    by (simp add: decode_any_def pre frame_matches_dispatch_prefix_def)
  with c as pre show ?thesis by auto
qed

end
