(* ===== verification/Encoder_Properties.thy ===== *)
theory Encoder_Properties
  imports Encoder_Invariants Decoder_Properties
begin

text \<open>
  The properties of the contiguous encoder, with their instances on a small protocol.
\<close>

subsection \<open>A protocol to encode\<close>

definition wire_message :: message_definition where
  "wire_message =
     \<lparr>md_name = ''packet'',
      md_fields =
       [(demo_field ''magic'' 2)\<lparr>fd_has_expected_unsigned := True, fd_expected_unsigned := 0x1234\<rparr>,
        (demo_field ''count'' 2)\<lparr>fd_byte_order := BigEndian\<rparr>,
        (demo_field ''body'' 0)\<lparr>fd_kind := KBytes, fd_size_from_field := ''count''\<rparr>,
        (demo_field ''delta'' 1)\<lparr>fd_kind := KSigned\<rparr>,
        (demo_field ''tag'' 0)\<lparr>fd_kind := KString, fd_fixed_size := 2\<rparr>,
        (demo_field ''check'' 1)\<lparr>fd_checksum := Some \<lparr>ckd_algorithm = ''XOR8'', ckd_from = ''frame_start'',
           ckd_to = ''before_self''\<rparr>\<rparr>],
      md_validations = [], md_allow_trailing_bytes = False\<rparr>"

definition wire_protocol :: protocol_definition where
  "wire_protocol = \<lparr>pd_name = ''wire'', pd_imports = [], pd_enums = [], pd_structs = [], pd_messages = [wire_message]\<rparr>"

lemma wire_sized: "definition_sized wire_protocol"
  by (simp add: definition_sized_def fields_sized_def wire_protocol_def wire_message_def demo_field_def
      default_field_definition_def)

definition wire_field :: "field_id \<Rightarrow> string \<Rightarrow> nat \<Rightarrow> compiled_field" where
  "wire_field i name width = default_compiled_field\<lparr>cf_id := i, cf_name := name, cf_width_bytes := width\<rparr>"

definition wire_checksum :: compiled_checksum where
  "wire_checksum = \<lparr>cck_field_id = 5, cck_result_width_bytes = 1, cck_function = Some checksum_xor8,
     cck_algorithm_name = ''xor8'', cck_builtin_kind = BK_Xor8,
     cck_from = \<lparr>cca_kind = FrameStart, cca_field_id = 0\<rparr>, cck_to = \<lparr>cca_kind = BeforeSelf, cca_field_id = 5\<rparr>\<rparr>"

definition wire_layout :: compiled_message where
  "wire_layout = make_compiled_message ''packet''
     [(wire_field 0 ''magic'' 2)\<lparr>cf_has_expected_unsigned := True, cf_expected_unsigned := 0x1234\<rparr>,
      (wire_field 1 ''count'' 2)\<lparr>cf_byte_order := BigEndian\<rparr>,
      (wire_field 2 ''body'' 0)\<lparr>cf_kind := KBytes, cf_dynamic_size := True, cf_size_from_field := 1\<rparr>,
      (wire_field 3 ''delta'' 1)\<lparr>cf_kind := KSigned\<rparr>,
      (wire_field 4 ''tag'' 0)\<lparr>cf_kind := KString, cf_fixed_size := 2\<rparr>,
      wire_field 5 ''check'' 1]
     [] [wire_checksum] [] 8 False False [0x34, 0x12]"

lemma wire_prefix: "map (\<lambda>index. ucast (drop_bit (index * 8) (0x1234 :: u64) AND 255)) [0..<2] = ([0x34, 0x12] :: bytes)"
  by (simp add: upt_conv_Cons)

lemma wire_compiles:
  "\<exists>p. compile_protocol builtin_registry wire_protocol = Inr p \<and> cp_messages p = [wire_layout]"
  apply (simp add: compile_eval wire_protocol_def wire_message_def demo_field_def char_of_def bit_0)
  apply (simp only: wire_prefix)
  apply (simp add: wire_layout_def wire_field_def wire_checksum_def default_compiled_field_def
      checksum_builtin_kind_def numeral_eq_Suc)
  done

lemma wire_protocol_wf: "compile_protocol builtin_registry wire_protocol = Inr p \<Longrightarrow> protocol_wf p"
  by (rule compile_protocol_protocol_wf [OF _ builtin_registry_ok wire_sized])

lemma wire_layout_known: "wire_layout \<in> set (cp_messages p @ cp_structs p)"
  if "cp_messages p = [wire_layout]"
  using that by simp

lemma wire_layout_wf: "layout_wf wire_layout" "alignments_fit wire_layout"
proof -
  obtain p where "compile_protocol builtin_registry wire_protocol = Inr p" "cp_messages p = [wire_layout]"
    using wire_compiles by blast
  with compile_protocol_wf [OF this(1) builtin_registry_ok wire_sized] show "layout_wf wire_layout" by simp
  show "alignments_fit wire_layout"
    by (simp add: alignments_fit_def wire_layout_def wire_field_def make_compiled_message_def default_compiled_field_def)
qed

subsection \<open>Bounds\<close>

lemma alignments_sized: "layout_wf layout \<Longrightarrow> alignments_fit layout \<Longrightarrow> sized_alignments layout"
  unfolding sized_alignments_def list_all_iff
proof
  fix f assume "layout_wf layout" "alignments_fit layout" "f \<in> set (cm_fields layout)"
  then obtain k where k: "cf_alignment f = 2 ^ k" "cf_alignment f < 2 ^ 64" by (rule layout_alignment)
  then have "(2 :: nat) ^ k < 2 ^ 64" by simp
  then have "k < 64" by (rule power_less_imp_less_exp [rotated]) simp
  then show "cf_alignment f \<le> 2 ^ 63" using k(1) power_increasing [of k 63 "2 :: nat"] by simp
qed

text \<open>C16: The encoder stays inside its buffer. Whatever sequence of setter and \<open>finalize\<close> calls is
  made, and whether they succeed or fail, the cursor stays inside the buffer, no byte at or after
  the cursor has changed, and the checksum fields are stored before the cursor.\<close>

theorem encoder_stays_in_buffer:
  assumes "mb_reach ops layout buffer b" and "layout_wf layout" and "alignments_fit layout"
    and "length buffer < 2 ^ 63"
  shows "length (mb_buffer b) = length buffer \<and> mb_offset b \<le> length buffer \<and>
    drop (mb_offset b) (mb_buffer b) = drop (mb_offset b) buffer \<and> length (mb_view b) = mb_offset b"
proof -
  have "sized_layout layout buffer"
    using assms(2-4) alignments_sized by (simp add: sized_layout_def)
  from mb_reach_ok [OF assms(1) this] show ?thesis
    by (auto simp: builder_ok_def in_buffer_def mb_view_def span_simps)
qed

lemma mb_reach_run: "mb_reach ops layout buffer b \<Longrightarrow> mb_reach ops layout buffer (snd (mb_run ws b))"
  by (induction ws arbitrary: b)
    (auto simp: and_then_def split: prod.splits if_splits, (metis mb_write snd_conv)+)

lemma encoded_size:
  assumes "mb_run ws (new_message_builder layout buffer) = (e, b)" and "mb_finalize ops b = (e', b')"
    and "layout_wf layout" and "alignments_fit layout" and "length buffer < 2 ^ 63"
  shows "length (mb_view b') \<le> length buffer"
proof -
  have "mb_reach ops layout buffer b'"
    using mb_final [OF mb_reach_run [OF mb_new, of ops layout buffer ws]] assms(1,2) by simp
  moreover have "sized_layout layout buffer" using assms(3-5) alignments_sized by (simp add: sized_layout_def)
  ultimately have "builder_ok layout buffer b'" by (rule mb_reach_ok)
  then show ?thesis by (simp add: builder_ok_def in_buffer_def mb_view_def span_simps)
qed

definition wire_writes :: "field_write list" where
  "wire_writes = [W_Unsigned 1 3, W_Bytes 2 [0xA, 0xB, 0xC], W_Signed 3 (-2), W_String 4 [0x68, 0x69]]"

theorem encoder_stays_in_buffer_witness:
  "let b = snd (mb_finalize plain_ops (snd (mb_run wire_writes (new_message_builder wire_layout (replicate 12 7))))) in
   mb_offset b \<le> 12 \<and> drop (mb_offset b) (mb_buffer b) = drop (mb_offset b) (replicate 12 7)"
proof -
  let ?b = "new_message_builder wire_layout (replicate 12 7)"
  have "mb_reach plain_ops wire_layout (replicate 12 7) (snd (mb_finalize plain_ops (snd (mb_run wire_writes ?b))))"
    by (intro mb_final mb_reach_run mb_new)
  from encoder_stays_in_buffer [OF this wire_layout_wf] show ?thesis by (simp add: Let_def)
qed

end
