(* ===== verification/Encoder_Roundtrip.thy ===== *)
theory Encoder_Roundtrip
  imports Encoder_Content Encoder_Properties
begin

text \<open>
  Encoding followed by decoding. The layouts considered have scalar, bytes and string fields without
  padding and without optional fields; the values written fit their fields, and lengths are written
  to the fields that announce them. Then the bytes of a finalized message decode, and every accessor
  returns what the setter was given. The checksums are computed one after another over a buffer that
  still changes, so the range of each may not contain its own field or one that is computed later. Padding is
  excluded because the builder and the decoder do not agree on it, as an example at the end shows.
\<close>

subsection \<open>Ranges of checksums\<close>

text \<open>An anchor that lies at or before the start, or at or after the end, of field \<open>k\<close>.\<close>

definition anchor_before :: "field_id \<Rightarrow> compiled_checksum_anchor \<Rightarrow> bool" where
  "anchor_before k a \<longleftrightarrow>
     cca_kind a = FrameStart \<or> (cca_kind a \<in> {FieldStart, BeforeSelf} \<and> cca_field_id a \<le> k) \<or>
     (cca_kind a \<in> {FieldEnd, AfterSelf} \<and> cca_field_id a < k)"

definition anchor_after :: "field_id \<Rightarrow> compiled_checksum_anchor \<Rightarrow> bool" where
  "anchor_after k a \<longleftrightarrow>
     cca_kind a = FrameEnd \<or> (cca_kind a \<in> {FieldStart, BeforeSelf} \<and> k < cca_field_id a) \<or>
     (cca_kind a \<in> {FieldEnd, AfterSelf} \<and> k \<le> cca_field_id a)"

definition avoids :: "compiled_checksum \<Rightarrow> field_id \<Rightarrow> bool" where
  "avoids c k \<longleftrightarrow> anchor_before k (cck_to c) \<or> anchor_after k (cck_from c)"

fun checksums_apart :: "compiled_checksum list \<Rightarrow> bool" where
  "checksums_apart [] = True"
| "checksums_apart (c # cs) \<longleftrightarrow>
     list_all (\<lambda>c'. avoids c (cck_field_id c')) (c # cs) \<and>
     list_all (\<lambda>c'. cck_field_id c' \<noteq> cck_field_id c) cs \<and> checksums_apart cs"

text \<open>Extents in order: what the builder records.\<close>

definition extents :: "nat \<Rightarrow> nat \<Rightarrow> (field_id \<Rightarrow> nat) \<Rightarrow> (field_id \<Rightarrow> nat) \<Rightarrow> bool" where
  "extents n total_size starts ends \<longleftrightarrow>
     (\<forall>i<n. starts i \<le> ends i \<and> ends i \<le> total_size) \<and> (\<forall>i j. i < j \<longrightarrow> j < n \<longrightarrow> ends i \<le> starts j)"

lemma extents_starts: "extents n t s e \<Longrightarrow> i \<le> j \<Longrightarrow> j < n \<Longrightarrow> s i \<le> s j"
  unfolding extents_def by (metis le_neq_implies_less le_trans order_refl order_less_trans)

lemma extents_ends: "extents n t s e \<Longrightarrow> i \<le> j \<Longrightarrow> j < n \<Longrightarrow> e i \<le> e j"
  unfolding extents_def by (metis le_neq_implies_less le_trans order_refl)

lemma anchor_before_offset:
  assumes "extents n t s e" and "anchor_before k a" and "k < n" and "resolve_anchor n t s e a = Some off"
  shows "off \<le> s k"
  using assms extents_starts [OF assms(1) _ assms(3)]
  by (auto simp: anchor_before_def resolve_anchor_def extents_def split: if_splits)

lemma anchor_after_offset:
  assumes "extents n t s e" and "anchor_after k a" and "k < n" and "resolve_anchor n t s e a = Some off"
  shows "e k \<le> off"
  using assms extents_ends [OF assms(1)]
  by (auto simp: anchor_after_def resolve_anchor_def extents_def split: if_splits)

lemma checksum_range_anchors:
  "checksum_range n t s e c = Some (lo, hi) \<Longrightarrow>
   (cck_field_id c < n \<longrightarrow> resolve_anchor n t s e (cck_from c) = Some lo \<and> resolve_anchor n t s e (cck_to c) = Some hi)"
  by (auto simp: checksum_range_def resolve_anchor_def split: if_splits option.splits)

lemma avoids_range:
  assumes "extents n t s e" and "avoids c k" and "k < n" and "cck_field_id c < n"
    and "checksum_range n t s e c = Some (lo, hi)"
  shows "hi \<le> s k \<or> e k \<le> lo"
  using assms checksum_range_anchors [OF assms(5)] anchor_before_offset [OF assms(1)] anchor_after_offset [OF assms(1)]
  by (auto simp: avoids_def)

subsection \<open>What \<open>finalize\<close> stores\<close>

lemma subspan_blit_apart:
  assumes "off + length d \<le> length xs" and "a + m \<le> off \<or> off + length d \<le> a"
  shows "subspan a m (blit off d xs) = subspan a m xs"
proof (rule nth_equalityI)
  show "length (subspan a m (blit off d xs)) = length (subspan a m xs)"
    using assms(1) by (simp add: span_simps)
next
  fix i assume "i < length (subspan a m (blit off d xs))"
  then have i: "i < m" "a + i < length xs" using assms(1) by (auto simp: span_simps)
  then show "subspan a m (blit off d xs) ! i = subspan a m xs ! i"
    using assms by (auto simp: nth_subspan span_simps nth_blit)
qed

definition stored_checksum ::
  "simd_ops \<Rightarrow> compiled_message \<Rightarrow> message_builder \<Rightarrow> compiled_checksum \<Rightarrow> bool" where
  "stored_checksum ops layout b c \<longleftrightarrow>
     (let i = cck_field_id c; f = cm_fields layout ! i in
      \<exists>lo hi. checksum_range (length (cm_fields layout)) (mb_offset b) (mb_starts b) (mb_ends b) c = Some (lo, hi) \<and>
        lo \<le> hi \<and> hi \<le> mb_offset b \<and>
        mb_scalars b i = compute_builtin_checksum ops c (subspan lo (hi - lo) (mb_buffer b)) \<and>
        subspan (mb_starts b i) (mb_ends b i - mb_starts b i) (mb_buffer b) =
          write_unsigned_scalar_unchecked (cf_byte_order f) (cck_result_width_bytes c) (mb_scalars b i))"

definition same_but :: "compiled_checksum list \<Rightarrow> message_builder \<Rightarrow> message_builder \<Rightarrow> bool" where
  "same_but cs b b' \<longleftrightarrow>
     mb_layout b' = mb_layout b \<and> mb_starts b' = mb_starts b \<and> mb_ends b' = mb_ends b \<and> mb_offset b' = mb_offset b \<and>
     length (mb_buffer b') = length (mb_buffer b) \<and>
     (\<forall>i. (\<forall>c\<in>set cs. cck_field_id c \<noteq> i) \<longrightarrow> mb_scalars b' i = mb_scalars b i) \<and>
     (\<forall>a m. (\<forall>c\<in>set cs. a + m \<le> mb_starts b (cck_field_id c) \<or> mb_ends b (cck_field_id c) \<le> a) \<longrightarrow>
        subspan a m (mb_buffer b') = subspan a m (mb_buffer b))"

lemma write_checksums_stored:
  assumes "extents (length (cm_fields layout)) (mb_offset b) (mb_starts b) (mb_ends b)"
    and "mb_layout b = layout" and "mb_offset b \<le> length (mb_buffer b)"
    and "\<forall>c\<in>set cs. cck_field_id c < length (cm_fields layout) \<and>
       mb_ends b (cck_field_id c) = mb_starts b (cck_field_id c) + cck_result_width_bytes c"
    and "checksums_apart cs" and "mb_write_checksums ops cs b = (ES_Ok, b')"
  shows "same_but cs b b' \<and> (\<forall>c\<in>set cs. stored_checksum ops layout b' c)"
  using assms
proof (induction cs arbitrary: b)
  case Nil
  then show ?case by (simp add: same_but_def)
next
  case (Cons c cs)
  let ?n = "length (cm_fields layout)" and ?i = "cck_field_id c"
  let ?f = "cm_fields layout ! ?i"
  note x = Cons.prems(1) and l = Cons.prems(2) and le = Cons.prems(3)
  have c: "?i < ?n" "mb_ends b ?i = mb_starts b ?i + cck_result_width_bytes c" using Cons.prems(4) by simp_all
  obtain lo hi where r: "checksum_range ?n (mb_offset b) (mb_starts b) (mb_ends b) c = Some (lo, hi)"
    and ft: "lo \<le> hi" "hi \<le> mb_offset b"
    using Cons.prems(6) by (auto simp: l not_less split: option.splits if_splits)
  define v where "v = compute_builtin_checksum ops c (subspan lo (hi - lo) (mb_buffer b))"
  define d where "d = write_unsigned_scalar_unchecked (cf_byte_order ?f) (cck_result_width_bytes c) v"
  define b1 where "b1 = b\<lparr>mb_buffer := blit (mb_starts b ?i) d (mb_buffer b), mb_scalars := (mb_scalars b)(?i := v)\<rparr>"
  have step: "mb_write_checksums ops cs b1 = (ES_Ok, b')"
    using Cons.prems(6) r ft by (simp add: l Let_def b1_def d_def v_def)
  have d: "length d = cck_result_width_bytes c" by (simp add: d_def)
  have fits: "mb_starts b ?i + length d \<le> length (mb_buffer b)"
    using x c le d by (fastforce simp: extents_def)
  have b1: "mb_layout b1 = layout" "mb_starts b1 = mb_starts b" "mb_ends b1 = mb_ends b" "mb_offset b1 = mb_offset b"
    "length (mb_buffer b1) = length (mb_buffer b)"
    using fits by (simp_all add: b1_def l span_simps)
  from Cons.IH [of b1] x le Cons.prems(4,5) step
  have IH: "same_but cs b1 b'" "\<forall>c\<in>set cs. stored_checksum ops layout b' c" by (simp_all add: b1)
  have apart: "\<forall>c'\<in>set (c # cs). avoids c (cck_field_id c')" "\<forall>c'\<in>set cs. cck_field_id c' \<noteq> ?i"
    using Cons.prems(5) by (auto simp: list_all_iff)
  have ids: "\<forall>c'\<in>set (c # cs). cck_field_id c' < ?n" using Cons.prems(4) by blast
  have one: "subspan a m (mb_buffer b1) = subspan a m (mb_buffer b)"
    if "a + m \<le> mb_starts b ?i \<or> mb_ends b ?i \<le> a" for a m
    using subspan_blit_apart [OF fits] that c d by (simp add: b1_def)
  have same: "same_but (c # cs) b b'"
    using IH(1) one by (auto simp: same_but_def b1 l) (auto simp: b1_def)
  have rng: "subspan lo (hi - lo) (mb_buffer b') = subspan lo (hi - lo) (mb_buffer b)"
    using same avoids_range [OF x _ _ c(1) r] apart(1) ids ft by (auto simp: same_but_def)
  have sc: "mb_scalars b' ?i = v"
    using IH(1) apart(2) by (auto simp: same_but_def b1_def)
  have "mb_starts b ?i + length d \<le> mb_starts b (cck_field_id c') \<or> mb_ends b (cck_field_id c') \<le> mb_starts b ?i"
    if "c' \<in> set cs" for c'
    using that apart(2) ids x c d by (cases "?i < cck_field_id c'") (fastforce simp: extents_def)+
  then have "subspan (mb_starts b ?i) (length d) (mb_buffer b') = subspan (mb_starts b ?i) (length d) (mb_buffer b1)"
    using IH(1) by (simp add: same_but_def b1)
  also have "\<dots> = d" using subspan_blit_same [OF fits] by (simp add: b1_def)
  finally have own: "subspan (mb_starts b ?i) (mb_ends b ?i - mb_starts b ?i) (mb_buffer b') = d"
    using c d by simp
  have "stored_checksum ops layout b' c"
    using same r ft rng sc own by (simp add: stored_checksum_def same_but_def Let_def v_def d_def)
  with same IH(2) show ?case by simp
qed

subsection \<open>The fields of a finished prefix\<close>

lemma message_prefix_le: "i \<le> k \<Longrightarrow> \<exists>r. message_prefix layout ws k = message_prefix layout ws i @ r"
proof (induction k)
  case (Suc k)
  show ?case
  proof (cases "i = Suc k")
    case False
    with Suc obtain r where "message_prefix layout ws k = message_prefix layout ws i @ r" by auto
    then show ?thesis by (auto simp: Let_def)
  qed simp
qed simp

lemma field_end_le_start: "i < j \<Longrightarrow> field_end layout ws i \<le> field_start layout ws j"
  using message_prefix_le [of "Suc i" j layout ws] by (auto simp: field_end_def field_start_def simp del: message_prefix.simps)

lemma field_end_le: "i < k \<Longrightarrow> field_end layout ws i \<le> length (message_prefix layout ws k)"
  using message_prefix_le [of "Suc i" k layout ws] by (auto simp: field_end_def simp del: message_prefix.simps)

lemma content_extents:
  assumes "content layout ws k b"
  shows "extents k (mb_offset b) (mb_starts b) (mb_ends b)"
proof -
  have "mb_offset b = length (message_prefix layout ws k)"
    using assms unfolding content_def by (rule content_at_offset)
  then show ?thesis
    using assms field_end_le [of _ k layout ws] field_end_le_start [of _ _ layout ws]
    by (auto simp: extents_def content_def content_at_def field_end_start)
qed

lemma content_field:
  assumes c: "content layout ws k b" and i: "i < k"
  shows "subspan (mb_starts b i) (mb_ends b i - mb_starts b i) (mb_buffer b) = field_data layout ws i"
    "mb_ends b i = mb_starts b i + length (field_data layout ws i)"
proof -
  have s: "mb_starts b i = field_start layout ws i" "mb_ends b i = field_end layout ws i"
    and p: "take (mb_offset b) (mb_buffer b) = message_prefix layout ws k"
    using c i by (simp_all add: content_def content_at_def)
  show e: "mb_ends b i = mb_starts b i + length (field_data layout ws i)"
    by (simp add: s field_end_start)
  have "mb_ends b i \<le> mb_offset b" using content_extents [OF c] i by (simp add: extents_def)
  then have "subspan (mb_starts b i) (mb_ends b i - mb_starts b i) (mb_buffer b) =
      subspan (mb_starts b i) (mb_ends b i - mb_starts b i) (message_prefix layout ws k)"
    by (simp add: e subspan_take flip: p)
  also obtain r where "message_prefix layout ws k = message_prefix layout ws (Suc i) @ r"
    using message_prefix_le [of "Suc i" k] i by auto
  then have "message_prefix layout ws k = (message_prefix layout ws i @
      replicate (padding_before layout ws i (length (message_prefix layout ws i))) 0) @ field_data layout ws i @ r"
    by (simp add: Let_def)
  then have "subspan (mb_starts b i) (mb_ends b i - mb_starts b i) (message_prefix layout ws k) = field_data layout ws i"
    unfolding e s by (simp add: subspan_def field_start_def)
  finally show "subspan (mb_starts b i) (mb_ends b i - mb_starts b i) (mb_buffer b) = field_data layout ws i" .
qed

subsection \<open>Layouts and values\<close>

definition encodable_field :: "compiled_field \<Rightarrow> bool" where
  "encodable_field f \<longleftrightarrow>
     cf_alignment f = 1 \<and> \<not> cf_has_condition f \<and> \<not> cf_has_presence f \<and>
     cf_kind f \<notin> {KStruct, KCollection, KVariant} \<and>
     (cf_has_expected_unsigned f \<longrightarrow> is_scalar f) \<and>
     (cf_is_reserved f \<longrightarrow> cf_kind f = KBytes \<and> \<not> cf_dynamic_size f) \<and>
     (cf_kind f = KFloat32 \<longrightarrow> cf_width_bytes f = 4) \<and> (cf_kind f = KFloat64 \<longrightarrow> cf_width_bytes f = 8)"

definition encodable_layout :: "compiled_message \<Rightarrow> bool" where
  "encodable_layout layout \<longleftrightarrow>
     list_all encodable_field (cm_fields layout) \<and> checksums_apart (cm_checksums layout) \<and>
     cm_minimum_size layout \<le> sum_list (map minimum_size_contribution (cm_fields layout))"

text \<open>A custom checksum function yields values of its declared width.\<close>

definition checksums_fit :: "simd_ops \<Rightarrow> compiled_message \<Rightarrow> bool" where
  "checksums_fit ops layout \<longleftrightarrow>
     (\<forall>c\<in>set (cm_checksums layout). \<forall>data.
        take_bit (8 * cck_result_width_bytes c) (compute_builtin_checksum ops c data) = compute_builtin_checksum ops c data)"

definition fits_width :: "compiled_field \<Rightarrow> u64 \<Rightarrow> bool" where
  "fits_width f v \<longleftrightarrow> take_bit (8 * cf_width_bytes f) v = v"

definition value_consistent :: "simd_ops \<Rightarrow> compiled_message \<Rightarrow> field_write list \<Rightarrow> field_id \<Rightarrow> bool" where
  "value_consistent ops layout ws i \<longleftrightarrow>
     (let f = cm_fields layout ! i; v = field_value layout ws i in
      (written ws i \<noteq> None \<longrightarrow> \<not> checksum_at layout i) \<and>
      (cf_kind f = KUnsigned \<or> cf_kind f = KEnum \<longrightarrow> (case v of Some v \<Rightarrow> fits_width f v | None \<Rightarrow> True)) \<and>
      (cf_kind f = KSigned \<longrightarrow> (case v of Some v \<Rightarrow> sign_extend v (8 * cf_width_bytes f) = Some v | None \<Rightarrow> True)) \<and>
      (cf_has_expected_unsigned f \<longrightarrow>
         \<not> checksum_at layout i \<and> (case v of Some v \<Rightarrow> take_bit (8 * cf_width_bytes f) v = cf_expected_unsigned f | None \<Rightarrow> False)) \<and>
      (cf_dynamic_size f \<longrightarrow>
         \<not> checksum_at layout (cf_size_from_field f) \<and>
         (case field_value layout ws (cf_size_from_field f) of
            Some n \<Rightarrow> unat n = length (field_data layout ws i) | None \<Rightarrow> False)) \<and>
      (cf_kind f = KString \<longrightarrow> runtime_validate_string ops (cf_string_encoding f) (field_data layout ws i)))"

definition values_consistent :: "simd_ops \<Rightarrow> compiled_message \<Rightarrow> field_write list \<Rightarrow> bool" where
  "values_consistent ops layout ws \<longleftrightarrow> list_all (value_consistent ops layout ws) [0..<length (cm_fields layout)]"

fun reads_back :: "compiled_message \<Rightarrow> decoded_message \<Rightarrow> field_write \<Rightarrow> bool" where
  "reads_back layout m (W_Unsigned i v) \<longleftrightarrow> get_unsigned m i = Some v"
| "reads_back layout m (W_Signed i v) \<longleftrightarrow> get_signed m i = Some v"
| "reads_back layout m (W_Float32 i v) \<longleftrightarrow> get_float32 m i = Some v"
| "reads_back layout m (W_Float64 i v) \<longleftrightarrow> get_float64 m i = Some v"
| "reads_back layout m (W_Bytes i d) \<longleftrightarrow> get_bytes m i = Some (write_data (cm_fields layout ! i) (W_Bytes i d))"
| "reads_back layout m (W_String i d) \<longleftrightarrow> get_string_view m i = Some (write_data (cm_fields layout ! i) (W_String i d))"

subsection \<open>The message that is decoded\<close>

text \<open>The bytes of each field after \<open>finalize\<close>, and its scalar value.\<close>

definition final_bytes :: "message_builder \<Rightarrow> field_id \<Rightarrow> bytes" where
  "final_bytes b i = subspan (mb_starts b i) (mb_ends b i - mb_starts b i) (mb_view b)"

definition finished :: "simd_ops \<Rightarrow> compiled_message \<Rightarrow> field_write list \<Rightarrow> message_builder \<Rightarrow> bool" where
  "finished ops layout ws b \<longleftrightarrow>
     (let n = length (cm_fields layout) in
      mb_layout b = layout \<and> mb_offset b \<le> length (mb_buffer b) \<and>
      extents n (mb_offset b) (mb_starts b) (mb_ends b) \<and>
      mb_offset b = length (message_prefix layout ws n) \<and>
      (\<forall>i<n. mb_starts b i = field_start layout ws i \<and> mb_ends b i = field_end layout ws i \<and> field_ok layout ws i \<and>
         (\<not> checksum_at layout i \<longrightarrow> final_bytes b i = field_data layout ws i \<and>
            (\<forall>v. field_value layout ws i = Some v \<longrightarrow> mb_scalars b i = v))) \<and>
      (\<forall>c\<in>set (cm_checksums layout). stored_checksum ops layout b c) \<and>
      validations_pass (written_reader layout (mb_scalars b)) (cm_validations layout) \<and>
      distinct (map write_id ws) \<and> (\<forall>w\<in>set ws. write_id w < n))"

lemma written_not_checksum:
  assumes "\<not> checksum_at layout i" and "i < 64" and "c \<in> set (cm_checksums layout)"
  shows "cck_field_id c \<noteq> i"
  using assms by (auto simp: checksum_at_def list_ex_iff)

lemma checksum_width:
  assumes wf: "layout_wf layout" and v: "values_consistent ops layout ws" and c: "c \<in> set (cm_checksums layout)"
  shows "length (field_data layout ws (cck_field_id c)) = cck_result_width_bytes c"
proof -
  let ?i = "cck_field_id c"
  have i: "?i < length (cm_fields layout)" "?i < 64"
    using checksum_wf_width(2) [OF wf c] layout_wf_fields(1) [OF wf] by simp_all
  then have chk: "checksum_at layout ?i" using c by (auto simp: checksum_at_def list_ex_iff)
  moreover have "written ws ?i = None"
    using v i(1) chk by (auto simp: values_consistent_def list_all_iff value_consistent_def Let_def)
  ultimately show ?thesis
    using checksum_wf_width(1) [OF wf c] by (simp add: field_data_def Let_def)
qed

lemma finalize_finished:
  assumes wf: "layout_wf layout" and a: "sized_alignments layout" and s: "length buffer < 2 ^ 63"
    and apart: "checksums_apart (cm_checksums layout)" and v: "values_consistent ops layout ws"
    and run: "mb_run ws (new_message_builder layout buffer) = (ES_Ok, b)" and fin: "mb_finalize ops b = (ES_Ok, b')"
    and fresh: "\<not> mb_finalized b"
  shows "finished ops layout ws b'"
proof -
  let ?n = "length (cm_fields layout)"
  note len = layout_wf_fields(1) [OF wf]
  have l: "mb_layout b = layout"
    using run_writes_prefix [OF run len a s] by (simp add: between_calls_def content_def content_at_def)
  obtain b1 b2 where adv: "mb_advance_to ?n b = (ES_Ok, b1)"
    and chk: "mb_write_checksums ops (cm_checksums (mb_layout b1)) b1 = (ES_Ok, b2)"
    and val: "validations_pass (written_reader (mb_layout b2) (mb_scalars b2)) (cm_validations (mb_layout b2))"
    and b': "b' = b2\<lparr>mb_finalized := True\<rparr>"
    using fin fresh unfolding mb_finalize_def l
    by (auto simp: and_then_Ok_iff if_fail_Ok_iff split: if_splits)
  have c: "content layout ws ?n b1" using run_then_advance [OF run len a s adv] by simp
  then have l1: "mb_layout b1 = layout" "mb_offset b1 \<le> length (mb_buffer b1)" by (simp_all add: content_def content_at_def)
  note x = content_extents [OF c]
  have "\<forall>c\<in>set (cm_checksums layout). cck_field_id c < ?n \<and>
       mb_ends b1 (cck_field_id c) = mb_starts b1 (cck_field_id c) + cck_result_width_bytes c"
    using checksum_wf_width(2) [OF wf] content_field(2) [OF c] checksum_width [OF wf v] by simp
  from write_checksums_stored [OF x l1 this apart chk [unfolded l1]]
  have same: "same_but (cm_checksums layout) b1 b2" and st: "\<forall>c\<in>set (cm_checksums layout). stored_checksum ops layout b2 c"
    by simp_all
  have off: "mb_offset b1 = length (message_prefix layout ws ?n)"
    using c unfolding content_def by (rule content_at_offset)
  have "final_bytes b2 i = field_data layout ws i \<and> (\<forall>v. field_value layout ws i = Some v \<longrightarrow> mb_scalars b2 i = v)"
    if i: "i < ?n" and k: "\<not> checksum_at layout i" for i
  proof -
    have ne: "\<forall>c\<in>set (cm_checksums layout). cck_field_id c \<noteq> i"
      using written_not_checksum [OF k] i len by auto
    have "mb_scalars b2 i = mb_scalars b1 i" using same ne by (simp add: same_but_def)
    moreover have "\<forall>v. field_value layout ws i = Some v \<longrightarrow> mb_scalars b1 i = v"
      using c i by (simp add: content_def content_at_def)
    moreover have "mb_ends b1 i \<le> mb_starts b1 (cck_field_id c) \<or> mb_ends b1 (cck_field_id c) \<le> mb_starts b1 i"
      if "c \<in> set (cm_checksums layout)" for c
      using that ne i checksum_wf_width(2) [OF wf that] x
      by (cases "i < cck_field_id c") (fastforce simp: extents_def)+
    then have "subspan (mb_starts b1 i) (mb_ends b1 i - mb_starts b1 i) (mb_buffer b2) =
        subspan (mb_starts b1 i) (mb_ends b1 i - mb_starts b1 i) (mb_buffer b1)"
      using same x i by (auto simp: same_but_def extents_def)
    moreover have "final_bytes b2 i = subspan (mb_starts b1 i) (mb_ends b1 i - mb_starts b1 i) (mb_buffer b2)"
      using same x i by (simp add: final_bytes_def mb_view_def same_but_def subspan_def [of 0] subspan_take extents_def)
    ultimately show ?thesis using content_field(1) [OF c i] by simp
  qed
  moreover have upd: "final_bytes b' i = final_bytes b2 i" for i by (simp add: b' final_bytes_def mb_view_def)
  moreover have "\<forall>c\<in>set (cm_checksums layout). stored_checksum ops layout b' c"
    using st by (simp add: stored_checksum_def b' Let_def)
  ultimately show ?thesis
    using same c l1 x off val by (simp add: finished_def Let_def same_but_def b' content_def content_at_def)
qed

text \<open>Only \<open>finalize\<close> marks a builder as finalized.\<close>

definition keeps_open :: "encode_status \<times> message_builder \<Rightarrow> bool" where
  "keeps_open = outcome (\<lambda>b. \<not> mb_finalized b) (\<lambda>b. \<not> mb_finalized b)"

lemma keeps_open_simps [simp]:
  "keeps_open (e, b) \<longleftrightarrow> \<not> mb_finalized b" "keeps_open (mb_fail e b) \<longleftrightarrow> \<not> mb_finalized b"
  "mb_finalized (mb_put k d b) = mb_finalized b"
  by (simp_all add: keeps_open_def outcome_def mb_fail_def mb_put_def)

lemma keeps_open_then: "keeps_open r \<Longrightarrow> (\<And>b. \<not> mb_finalized b \<Longrightarrow> keeps_open (k b)) \<Longrightarrow> keeps_open (and_then r k)"
  unfolding keeps_open_def by (rule outcome_and_then)

lemma keeps_open_scalar: "\<not> mb_finalized b \<Longrightarrow> keeps_open (write_scalar_field fid v b)"
  by (simp add: write_scalar_field_def Let_def)

lemma keeps_open_advance: "\<not> mb_finalized b \<Longrightarrow> keeps_open (mb_advance_to t b)"
proof -
  have one: "keeps_open (mb_advance_field fid b)" if "\<not> mb_finalized b" for fid b
    using that unfolding mb_advance_field_def Let_def by (auto simp: keeps_open_scalar)
  have "keeps_open (mb_advance_fields fids b)" if "\<not> mb_finalized b" for fids b
    using that by (induction fids arbitrary: b) (auto intro: keeps_open_then one)
  then show "\<not> mb_finalized b \<Longrightarrow> keeps_open (mb_advance_to t b)"
    by (auto simp: mb_advance_to_def intro!: keeps_open_then)
qed

lemma keeps_open_apply: "\<not> mb_finalized b \<Longrightarrow> keeps_open (mb_apply w b)"
proof -
  assume b: "\<not> mb_finalized b"
  have scalar: "keeps_open (mb_set_scalar kinds i v b)" for kinds i v
    using b by (auto simp: mb_set_scalar_def intro!: keeps_open_then keeps_open_advance keeps_open_scalar)
  have payload: "keeps_open (mb_set_payload i d b)" for i d
    using b by (auto simp: mb_set_payload_def Let_def intro!: keeps_open_then keeps_open_advance)
  show ?thesis
    using b scalar payload
    by (cases w) (simp_all add: mb_set_unsigned_def mb_set_signed_def mb_set_float32_def mb_set_float64_def
        mb_set_bytes_def mb_set_string_def Let_def)
qed

lemma run_not_finalized:
  assumes "mb_run ws b = (e, b')" and "\<not> mb_finalized b"
  shows "\<not> mb_finalized b'"
proof -
  have "\<not> mb_finalized b \<Longrightarrow> keeps_open (mb_run ws b)" for b
    by (induction ws arbitrary: b) (auto intro: keeps_open_then keeps_open_apply)
  with assms show ?thesis by fastforce
qed

subsection \<open>It satisfies the decoder's specification\<close>

definition encoded_message :: "compiled_protocol \<Rightarrow> compiled_message \<Rightarrow> message_builder \<Rightarrow> decoded_message" where
  "encoded_message p layout b =
     (let n = length (cm_fields layout) in
      \<lparr>dm_protocol = Some p, dm_message = Some layout, dm_frame = mb_view b,
       dm_resolved = (\<lambda>i. if i < n then (mb_starts b i, mb_ends b i - mb_starts b i) else (0, 0)),
       dm_present = (\<lambda>i. i < n),
       dm_cache = (\<lambda>i. if i < n \<and> supports_eager_scalar_cache (cm_fields layout ! i)
         then read_unsigned_scalar (final_bytes b i) (cf_byte_order (cm_fields layout ! i)) else None),
       dm_selected = (\<lambda>_. True), dm_selection_active = False, dm_field_count = n\<rparr>)"

lemma encoded_message_simps [simp]:
  "dm_protocol (encoded_message p layout b) = Some p"
  "dm_message (encoded_message p layout b) = Some layout"
  "dm_frame (encoded_message p layout b) = mb_view b"
  "dm_selection_active (encoded_message p layout b) = False"
  "dm_selected (encoded_message p layout b) = (\<lambda>_. True)"
  "dm_field_count (encoded_message p layout b) = length (cm_fields layout)"
  "dm_present (encoded_message p layout b) i \<longleftrightarrow> i < length (cm_fields layout)"
  by (simp_all add: encoded_message_def Let_def)

lemma encoded_message_resolved:
  "i < length (cm_fields layout) \<Longrightarrow> dm_resolved (encoded_message p layout b) i = (mb_starts b i, mb_ends b i - mb_starts b i)"
  "\<not> i < length (cm_fields layout) \<Longrightarrow> dm_resolved (encoded_message p layout b) i = (0, 0)"
  by (simp_all add: encoded_message_def Let_def)

lemma encoded_message_cache:
  "dm_cache (encoded_message p layout b) i = (if i < length (cm_fields layout) \<and> supports_eager_scalar_cache (cm_fields layout ! i)
     then read_unsigned_scalar (final_bytes b i) (cf_byte_order (cm_fields layout ! i)) else None)"
  by (simp add: encoded_message_def Let_def)

text \<open>Everything that is assumed of a layout.\<close>

lemma scalar_width_eager:
  assumes "layout_wf layout" and "encodable_layout layout" and "i < length (cm_fields layout)" and "is_scalar (cm_fields layout ! i)"
  shows "supports_eager_scalar_cache (cm_fields layout ! i)" "cf_width_bytes (cm_fields layout ! i) \<in> {1..8}"
proof -
  let ?f = "cm_fields layout ! i"
  have "kind_ok (take i (cm_fields layout)) ?f" and e: "encodable_field ?f"
    using assms by (simp_all add: layout_wf_def fields_wf_def field_wf_def encodable_layout_def list_all_length)
  then have "is_valid_scalar_width (cf_width_bytes ?f)"
    using assms(4) by (cases "cf_kind ?f") (simp_all add: kind_ok_def is_scalar_def)
  then show "cf_width_bytes ?f \<in> {1..8}" by (auto simp: is_valid_scalar_width_def)
  with e assms(4) show "supports_eager_scalar_cache ?f"
    by (cases "cf_kind ?f")
      (auto simp: supports_eager_scalar_cache_def is_scalar_def encodable_field_def kMaxScalarWidthBytes_def)
qed

lemma read_written_scalar:
  "1 \<le> n \<Longrightarrow> n \<le> 8 \<Longrightarrow> read_unsigned_scalar (write_unsigned_scalar_unchecked bo n v) bo = Some (take_bit (8 * n) v)"
  using codec.rd_wr by (simp add: read_unsigned_scalar_def kMaxScalarWidthBytes_def)

lemma finishedD:
  assumes "finished ops layout ws b"
  shows "extents (length (cm_fields layout)) (mb_offset b) (mb_starts b) (mb_ends b)"
    "mb_offset b \<le> length (mb_buffer b)"
    "mb_offset b = length (message_prefix layout ws (length (cm_fields layout)))"
  using assms unfolding finished_def Let_def by blast+

lemma finished_fieldD:
  assumes "finished ops layout ws b" and "i < length (cm_fields layout)"
  shows "mb_starts b i \<le> mb_ends b i" "mb_ends b i \<le> mb_offset b"
    "mb_starts b i = field_start layout ws i" "mb_ends b i = field_end layout ws i" "field_ok layout ws i"
    "\<not> checksum_at layout i \<Longrightarrow> final_bytes b i = field_data layout ws i"
    "\<not> checksum_at layout i \<Longrightarrow> field_value layout ws i = Some v \<Longrightarrow> mb_scalars b i = v"
  using assms unfolding finished_def extents_def Let_def by blast+

lemma final_bytes_buffer:
  assumes "finished ops layout ws b" and "i < length (cm_fields layout)"
  shows "final_bytes b i = subspan (mb_starts b i) (mb_ends b i - mb_starts b i) (mb_buffer b)"
    "length (final_bytes b i) = mb_ends b i - mb_starts b i"
proof -
  have "mb_starts b i \<le> mb_ends b i" "mb_ends b i \<le> mb_offset b" "mb_offset b \<le> length (mb_buffer b)"
    using finished_fieldD(1,2) [OF assms] finishedD(2) [OF assms(1)] by blast+
  then show "final_bytes b i = subspan (mb_starts b i) (mb_ends b i - mb_starts b i) (mb_buffer b)"
    "length (final_bytes b i) = mb_ends b i - mb_starts b i"
    by (simp_all add: final_bytes_def mb_view_def subspan_def [of 0] subspan_take span_simps)
qed

text \<open>The stored bytes of a scalar field are the ones of a value; for unsigned fields it is the
  recorded one.\<close>

lemma scalar_field_bytes:
  assumes wf: "layout_wf layout" and e: "encodable_layout layout" and v: "values_consistent ops layout ws"
    and f: "finished ops layout ws b" and i: "i < length (cm_fields layout)" and sc: "is_scalar (cm_fields layout ! i)"
    and chk: "\<not> checksum_at layout i"
  obtains x where "final_bytes b i = write_unsigned_scalar_unchecked (cf_byte_order (cm_fields layout ! i))
      (cf_width_bytes (cm_fields layout ! i)) x" "field_value layout ws i = Some x" "mb_scalars b i = x"
proof -
  let ?f = "cm_fields layout ! i"
  have fin: "final_bytes b i = field_data layout ws i" "field_ok layout ws i"
    "\<And>v. field_value layout ws i = Some v \<Longrightarrow> mb_scalars b i = v"
    using finished_fieldD(5-7) [OF f i] chk by blast+
  have res: "\<not> cf_is_reserved ?f"
    using e i sc by (auto simp: encodable_layout_def list_all_length encodable_field_def is_scalar_def)
  have "\<exists>x. field_data layout ws i = write_unsigned_scalar_unchecked (cf_byte_order ?f) (cf_width_bytes ?f) x \<and>
      field_value layout ws i = Some x"
  proof (cases "written ws i")
    case None
    with fin(2) chk res show ?thesis by (simp add: field_spec_defs Let_def)
  next
    case (Some w)
    with fin(2) have "write_ok ?f w" by (simp add: field_ok_def)
    with sc Some show ?thesis
      by (cases w) (auto simp: is_scalar_def field_data_def field_value_def write_data_def Let_def)
  qed
  with fin that show ?thesis by auto
qed

lemma consistentD:
  assumes "values_consistent ops layout ws" and "i < length (cm_fields layout)"
  shows "value_consistent ops layout ws i"
  using assms by (simp add: values_consistent_def list_all_iff)

lemma unsigned_field_value:
  assumes wf: "layout_wf layout" and e: "encodable_layout layout" and cf: "checksums_fit ops layout"
    and v: "values_consistent ops layout ws"
    and f: "finished ops layout ws b" and i: "i < length (cm_fields layout)"
    and k: "cf_kind (cm_fields layout ! i) = KUnsigned \<or> cf_kind (cm_fields layout ! i) = KEnum"
  shows "read_unsigned_scalar (final_bytes b i) (cf_byte_order (cm_fields layout ! i)) = Some (mb_scalars b i)"
proof -
  let ?f = "cm_fields layout ! i"
  have sc: "is_scalar ?f" using k by (auto simp: is_scalar_def)
  note w = scalar_width_eager(2) [OF wf e i sc]
  show ?thesis
  proof (cases "checksum_at layout i")
    case True
    then obtain c where c: "c \<in> set (cm_checksums layout)" "cck_field_id c = i"
      by (auto simp: checksum_at_def list_ex_iff)
    then have "stored_checksum ops layout b c" using f by (simp add: finished_def Let_def)
    moreover have "cck_result_width_bytes c = cf_width_bytes ?f" using checksum_wf_width(1) [OF wf c(1)] c(2) by simp
    ultimately have "final_bytes b i = write_unsigned_scalar_unchecked (cf_byte_order ?f) (cf_width_bytes ?f) (mb_scalars b i)"
      "take_bit (8 * cf_width_bytes ?f) (mb_scalars b i) = mb_scalars b i"
      using cf c final_bytes_buffer(1) [OF f i] by (auto simp: stored_checksum_def checksums_fit_def Let_def)
    then show ?thesis using w by (simp add: read_written_scalar)
  next
    case False
    obtain x where x: "final_bytes b i = write_unsigned_scalar_unchecked (cf_byte_order ?f) (cf_width_bytes ?f) x"
      "field_value layout ws i = Some x" "mb_scalars b i = x"
      by (rule scalar_field_bytes [OF wf e v f i sc False])
    then have "take_bit (8 * cf_width_bytes ?f) x = x"
      using consistentD [OF v i] k by (auto simp: value_consistent_def fits_width_def Let_def)
    then show ?thesis using w x by (simp add: read_written_scalar)
  qed
qed

lemma encoded_raw_unsigned:
  assumes "layout_wf layout" and "encodable_layout layout" and "checksums_fit ops layout"
    and "values_consistent ops layout ws" and "finished ops layout ws b" and i: "i < length (cm_fields layout)"
    and k: "cf_kind (cm_fields layout ! i) = KUnsigned \<or> cf_kind (cm_fields layout ! i) = KEnum"
  shows "raw_unsigned (encoded_message p layout b) i = Some (mb_scalars b i)"
proof -
  have sc: "is_scalar (cm_fields layout ! i)" using k by (auto simp: is_scalar_def)
  with unsigned_field_value [OF assms] scalar_width_eager(1) [OF assms(1,2) i sc] show ?thesis
    using i k by (auto simp: raw_unsigned_def dm_field_definition_def cached_scalar_raw_def encoded_message_cache)
qed

text \<open>Without padding a field starts where the one before it ends.\<close>

lemma encoded_end_before:
  assumes e: "encodable_layout layout" and f: "finished ops layout ws b" and i: "i \<le> length (cm_fields layout)"
  shows "end_before (encoded_message p layout b) i = length (message_prefix layout ws i)"
proof (cases i)
  case (Suc j)
  then have j: "j < length (cm_fields layout)" using i by simp
  have "mb_starts b j \<le> mb_ends b j" "mb_ends b j = length (message_prefix layout ws (Suc j))"
    using finished_fieldD(1,4) [OF f j] by (simp_all add: field_end_def del: message_prefix.simps)
  then show ?thesis using j by (simp add: Suc encoded_message_resolved del: message_prefix.simps)
qed simp

lemma encodable_no_padding:
  assumes "encodable_layout layout" and "i < length (cm_fields layout)"
  shows "field_start layout ws i = length (message_prefix layout ws i)"
  using assms by (simp add: encodable_layout_def list_all_length encodable_field_def field_start_def padding_before_def
      align_up_def split: option.split)

text \<open>The hypotheses on layout, values and builder, as one.\<close>

definition encoding ::
  "simd_ops \<Rightarrow> compiled_message \<Rightarrow> field_write list \<Rightarrow> message_builder \<Rightarrow> bool" where
  "encoding ops layout ws b \<longleftrightarrow>
     layout_wf layout \<and> encodable_layout layout \<and> checksums_fit ops layout \<and> values_consistent ops layout ws \<and>
     finished ops layout ws b"

lemma encodingD:
  assumes "encoding ops layout ws b"
  shows "layout_wf layout" "encodable_layout layout" "checksums_fit ops layout" "values_consistent ops layout ws"
    "finished ops layout ws b"
  using assms by (simp_all add: encoding_def)

lemma encoded_field_size:
  assumes enc: "encoding ops layout ws b" and i: "i < length (cm_fields layout)"
  shows "decode_field_size nested p (mb_view b) (encoded_message p layout b) (cm_fields layout ! i) off =
    Inr (mb_ends b i - mb_starts b i)"
proof -
  note E = encodingD [OF enc]
  let ?f = "cm_fields layout ! i"
  note fD = finished_fieldD [OF E(5) i]
  have fw: "field_wf (take i (cm_fields layout)) ?f" and e: "encodable_field ?f"
    using E(1,2) i by (simp_all add: layout_wf_def fields_wf_def encodable_layout_def list_all_length)
  have len: "mb_ends b i - mb_starts b i = length (final_bytes b i)"
    using final_bytes_buffer(2) [OF E(5) i] by simp
  have view: "length (mb_view b) = mb_offset b"
    using finishedD(2) [OF E(5)] by (simp add: mb_view_def span_simps)
  have chk: "checksum_at layout i \<Longrightarrow> is_scalar ?f \<and> length (final_bytes b i) = cf_width_bytes ?f"
  proof -
    assume "checksum_at layout i"
    then obtain c where c: "c \<in> set (cm_checksums layout)" "cck_field_id c = i"
      by (auto simp: checksum_at_def list_ex_iff)
    then have "stored_checksum ops layout b c" using E(5) unfolding finished_def Let_def by blast
    then have "final_bytes b i = write_unsigned_scalar_unchecked (cf_byte_order ?f) (cck_result_width_bytes c) (mb_scalars b i)"
      using final_bytes_buffer(1) [OF E(5) i] c(2) by (auto simp: stored_checksum_def Let_def)
    with checksum_wf_width [OF E(1) c(1)] c(2) show ?thesis by (auto simp: is_scalar_def)
  qed
  show ?thesis
  proof (cases "is_scalar ?f")
    case True
    have "length (final_bytes b i) = cf_width_bytes ?f"
    proof (cases "checksum_at layout i")
      case False
      obtain x where "final_bytes b i = write_unsigned_scalar_unchecked (cf_byte_order ?f) (cf_width_bytes ?f) x"
        by (rule scalar_field_bytes [OF E(1,2,4,5) i True False])
      then show ?thesis by simp
    qed (use chk in simp)
    with True show ?thesis by (simp add: decode_field_size_scalar len)
  next
    case False
    with e have k: "cf_kind ?f = KBytes \<or> cf_kind ?f = KString"
      by (cases "cf_kind ?f") (simp_all add: encodable_field_def is_scalar_def)
    from False chk have "\<not> checksum_at layout i" by blast
    note data = fD(6) [OF this]
    show ?thesis
    proof (cases "cf_dynamic_size ?f")
      case True
      let ?j = "cf_size_from_field ?f"
      have "numeric_ref (take i (cm_fields layout)) ?j"
        using fw k True by (auto simp: field_wf_def kind_ok_def)
      then have j: "?j < length (cm_fields layout)"
        "cf_kind (cm_fields layout ! ?j) = KUnsigned \<or> cf_kind (cm_fields layout ! ?j) = KEnum"
        by (auto simp: numeric_ref_def)
      obtain v where v: "field_value layout ws ?j = Some v" "unat v = length (field_data layout ws i)" "\<not> checksum_at layout ?j"
        using consistentD [OF E(4) i] True by (auto simp: value_consistent_def Let_def split: option.splits)
      have "raw_unsigned (encoded_message p layout b) ?j = Some v"
        using encoded_raw_unsigned [OF E j] finished_fieldD(7) [OF E(5) j(1) v(3,1)] by simp
      moreover have "unat v \<le> length (mb_view b)" using fD(2) len data v(2) view by simp
      ultimately show ?thesis using True k v(2) len data by (auto simp: decode_field_size_def)
    next
      case fixed: False
      have "length (field_data layout ws i) = cf_fixed_size ?f"
      proof (cases "written ws i")
        case None
        have "\<not> cf_has_expected_unsigned ?f" using e False by (auto simp: encodable_field_def)
        with None \<open>\<not> checksum_at layout i\<close> show ?thesis by (simp add: field_data_def Let_def)
      next
        case (Some w)
        with fD(5) have "write_ok ?f w" by (simp add: field_ok_def Let_def)
        with Some fixed False show ?thesis
          by (cases w) (auto simp: is_scalar_def field_data_def write_data_def Let_def)
      qed
      with k fixed len data show ?thesis by (auto simp: decode_field_size_def)
    qed
  qed
qed

lemma encoded_field_decoded:
  assumes enc: "encoding ops layout ws b" and i: "i < length (cm_fields layout)"
  shows "field_decoded ops nested p (mb_view b) (encoded_message p layout b) (cm_fields layout ! i)"
proof -
  note E = encodingD [OF enc]
  let ?f = "cm_fields layout ! i" and ?m = "encoded_message p layout b"
  note fD = finished_fieldD [OF E(5) i]
  have e: "encodable_field ?f" and id: "cf_id ?f = i"
    using E(2) i layout_wf_fields(2) [OF E(1)] by (simp_all add: encodable_layout_def list_all_length)
  have modifiers: "condition_matches ?m ?f" "presence_matches ?m ?f" "align_up off (cf_alignment ?f) = off" for off
    using e by (simp_all add: encodable_field_def condition_matches_def presence_matches_def align_up_def)
  have off: "end_before ?m i = mb_starts b i"
    using encoded_end_before [OF E(2,5), of i] i encodable_no_padding [OF E(2) i] fD(3) by simp
  have view: "length (mb_view b) = mb_offset b"
    using finishedD(2) [OF E(5)] by (simp add: mb_view_def span_simps)
  have bytes: "subspan (mb_starts b i) (mb_ends b i - mb_starts b i) (mb_view b) = final_bytes b i"
    by (simp add: final_bytes_def)
  have expected: "is_scalar ?f \<and> dm_cache ?m i = Some (cf_expected_unsigned ?f)" if x: "cf_has_expected_unsigned ?f"
  proof -
    have sc: "is_scalar ?f" using e x by (simp add: encodable_field_def)
    have c: "\<not> checksum_at layout i" using consistentD [OF E(4) i] x by (simp add: value_consistent_def Let_def)
    obtain v where v: "final_bytes b i = write_unsigned_scalar_unchecked (cf_byte_order ?f) (cf_width_bytes ?f) v"
      "field_value layout ws i = Some v"
      by (rule scalar_field_bytes [OF E(1,2,4,5) i sc c])
    then have "take_bit (8 * cf_width_bytes ?f) v = cf_expected_unsigned ?f"
      using consistentD [OF E(4) i] x by (simp add: value_consistent_def Let_def)
    then show ?thesis
      using scalar_width_eager [OF E(1,2) i sc] i v(1) sc by (simp add: encoded_message_cache read_written_scalar)
  qed
  have no_chk: "\<not> checksum_at layout i" if "\<not> is_scalar ?f"
  proof
    assume "checksum_at layout i"
    then obtain c where "c \<in> set (cm_checksums layout)" "cck_field_id c = i"
      by (auto simp: checksum_at_def list_ex_iff)
    with checksum_wf_width(3) [OF E(1)] that show False by (auto simp: is_scalar_def)
  qed
  have str: "runtime_validate_string ops (cf_string_encoding ?f) (final_bytes b i)" if k: "cf_kind ?f = KString"
    using consistentD [OF E(4) i] k fD(6) no_chk by (simp add: value_consistent_def is_scalar_def Let_def)
  have fill: "\<forall>x\<in>set (final_bytes b i). x = cf_reserved_fill_byte ?f" if r: "cf_is_reserved ?f"
  proof -
    have k: "cf_kind ?f = KBytes" "\<not> is_scalar ?f" "\<not> cf_has_expected_unsigned ?f"
      using e r by (auto simp: encodable_field_def is_scalar_def)
    have "written ws i = None"
    proof (cases "written ws i")
      case (Some w)
      with fD(5) have "write_ok ?f w" by (simp add: field_ok_def Let_def)
      with k r show ?thesis by (cases w) simp_all
    qed
    then show ?thesis using fD(6) no_chk k by (auto simp: field_data_def Let_def)
  qed
  show ?thesis
    unfolding field_decoded_def id off field_step_def encoded_field_size [OF enc i]
    using i fD(1,2) expected str fill
    by (simp add: encoded_message_resolved view bytes modifiers) (simp add: encoded_message_cache)
qed

lemma runtime_checksum_eq: "runtime_checksum ops c bs = compute_builtin_checksum ops c bs"
  by (simp add: runtime_checksum_def compute_builtin_checksum_def)

lemma encoded_checksum_holds:
  assumes enc: "encoding ops layout ws b" and c: "c \<in> set (cm_checksums layout)"
  shows "checksum_holds ops (mb_view b) (encoded_message p layout b) c"
proof -
  note E = encodingD [OF enc]
  let ?n = "length (cm_fields layout)" and ?m = "encoded_message p layout b" and ?i = "cck_field_id c"
  have w: "cck_function c \<noteq> None" and i: "?i < ?n"
    and k: "cf_kind (cm_fields layout ! ?i) = KUnsigned \<or> cf_kind (cm_fields layout ! ?i) = KEnum"
    using E(1) c by (auto simp: layout_wf_def checksum_wf_def numeric_ref_def)
  have view: "length (mb_view b) = mb_offset b" "mb_view b = take (mb_offset b) (mb_buffer b)"
    using finishedD(2) [OF E(5)] by (simp_all add: mb_view_def span_simps subspan_def)
  have "stored_checksum ops layout b c" using E(5) c unfolding finished_def Let_def by blast
  then obtain lo hi where r: "checksum_range ?n (mb_offset b) (mb_starts b) (mb_ends b) c = Some (lo, hi)"
    "lo \<le> hi" "hi \<le> mb_offset b" "mb_scalars b ?i = compute_builtin_checksum ops c (subspan lo (hi - lo) (mb_buffer b))"
    unfolding stored_checksum_def Let_def by blast
  have anchor: "checksum_anchor_offset a (mb_view b) ?m = Some off"
    if "resolve_anchor ?n (mb_offset b) (mb_starts b) (mb_ends b) a = Some off" for a off
    using that finished_fieldD(1) [OF E(5)]
    by (cases "cca_kind a") (auto simp: resolve_anchor_def checksum_anchor_offset_def encoded_message_resolved view(1) split: if_splits)
  have "raw_unsigned ?m ?i = Some (runtime_checksum ops c (subspan lo (hi - lo) (mb_view b)))"
    using encoded_raw_unsigned [OF E i k] r(2-4) by (simp add: runtime_checksum_eq view(2) subspan_take)
  then show ?thesis
    using checksum_range_anchors [OF r(1)] i w r(2,3) anchor by (auto simp: checksum_holds_def view(1))
qed

lemma encoded_validation_holds:
  assumes enc: "encoding ops layout ws b" and r: "r \<in> set (cm_validations layout)"
  shows "validation_holds (encoded_message p layout b) r"
proof -
  note E = encodingD [OF enc]
  let ?m = "encoded_message p layout b" and ?read = "written_reader layout (mb_scalars b)"
  have read: "?read i = raw_unsigned ?m i" if "i < length (cm_fields layout)" for i
  proof (cases "cf_kind (cm_fields layout ! i) = KUnsigned \<or> cf_kind (cm_fields layout ! i) = KEnum")
    case True
    then show ?thesis using encoded_raw_unsigned [OF E that] by (auto simp: written_reader_def Let_def)
  qed (use that in \<open>auto simp: written_reader_def raw_unsigned_def dm_field_definition_def Let_def\<close>)
  have wf: "\<forall>r\<in>set (cm_validations layout). validation_wf (cm_fields layout) r"
    using E(1) by (simp add: layout_wf_def)
  have mult: "(if x \<noteq> 1 then v * x else v) = v * x" for v x :: u64 by simp
  have "validation_holds ?m r" if "validations_pass ?read rs" "r \<in> set rs" "set rs \<subseteq> set (cm_validations layout)" for rs
    using that
  proof (induction rs)
    case (Cons q rs)
    from Cons.prems(3) wf have q: "validation_wf (cm_fields layout) q" by simp
    then have ids: "cvr_field_id q < length (cm_fields layout)"
      "cvr_compare_to_field q \<Longrightarrow> cvr_other_field_id q < length (cm_fields layout)"
      "cvr_has_when q \<Longrightarrow> cvr_when_field_id q < length (cm_fields layout)"
      by (auto simp: validation_wf_def numeric_ref_def)
    have "validations_pass ?read rs \<and> validation_holds ?m q"
      using Cons.prems(1) ids read unfolding validations_pass.simps mult Let_def
      by (auto simp: validation_holds_def validation_applies_def split: if_splits option.splits)
    with Cons show ?case by auto
  qed simp
  moreover have "validations_pass ?read (cm_validations layout)" using E(5) unfolding finished_def Let_def by blast
  ultimately show ?thesis using r by blast
qed

lemma encoded_minimum_size:
  assumes enc: "encoding ops layout ws b"
  shows "cm_minimum_size layout \<le> mb_offset b"
proof -
  note E = encodingD [OF enc]
  have one: "minimum_size_contribution (cm_fields layout ! i) \<le> field_end layout ws i - field_start layout ws i"
    if i: "i < length (cm_fields layout)" for i
  proof -
    have "encodable_field (cm_fields layout ! i)" using E(2) i by (simp add: encodable_layout_def list_all_length)
    then show ?thesis
      using encoded_field_size [OF enc i, of "\<lambda>_ _. Inl DS_InvalidData" undefined 0] finished_fieldD(3,4) [OF E(5) i]
      by (auto simp: minimum_size_contribution_def decode_field_size_def encodable_field_def is_conditionally_present_def)
  qed
  have "sum_list (map minimum_size_contribution (take k (cm_fields layout))) \<le> length (message_prefix layout ws k)"
    if "k \<le> length (cm_fields layout)" for k
    using that
  proof (induction k)
    case (Suc k)
    then have "field_start layout ws k \<le> field_end layout ws k"
      "length (message_prefix layout ws k) \<le> field_start layout ws k"
      using finished_fieldD(1,3,4) [OF E(5), of k] by (simp_all add: field_start_def)
    with Suc one [of k] show ?case
      by (simp add: take_Suc_conv_app_nth field_end_def del: message_prefix.simps)
  qed simp
  from this [of "length (cm_fields layout)"] E(2) finishedD(3) [OF E(5)] show ?thesis
    by (simp add: encodable_layout_def)
qed

theorem encoded_message_decoded:
  assumes enc: "encoding ops layout ws b"
  shows "decoded_as ops nested p layout (mb_view b) None False (encoded_message p layout b) (length (mb_view b))"
proof -
  note E = encodingD [OF enc]
  have view: "length (mb_view b) = mb_offset b"
    using finishedD(2) [OF E(5)] by (simp add: mb_view_def span_simps)
  have "end_before (encoded_message p layout b) (length (cm_fields layout)) = mb_offset b"
    using encoded_end_before [OF E(2,5) order_refl] finishedD(3) [OF E(5)] by simp
  moreover have "\<forall>f\<in>set (cm_fields layout). field_decoded ops nested p (mb_view b) (encoded_message p layout b) f"
    using encoded_field_decoded [OF enc] by (auto simp: in_set_conv_nth)
  ultimately show ?thesis
    using encoded_minimum_size [OF enc] encoded_checksum_holds [OF enc] encoded_validation_holds [OF enc]
    by (auto simp: decoded_as_def view encoded_message_resolved encoded_message_cache)
qed

subsection \<open>The accessors return what was written\<close>

lemma sign_extend_take_bit: "sign_extend (take_bit n v) n = sign_extend v n"
proof (cases "n = 0 \<or> n > 64")
  case False
  then have full: "n < 64 \<Longrightarrow> push_bit n 1 - 1 = (mask n :: u64)" by (simp add: mask_eq_exp_minus_1)
  have "take_bit n v AND mask n = v AND mask n" by (simp add: take_bit_eq_mask ac_simps)
  moreover have "n = 64 \<Longrightarrow> take_bit n v = v" by (simp add: take_bit_word_eq_self)
  ultimately show ?thesis using False full by (auto simp: sign_extend_def Let_def)
qed (auto simp: sign_extend_def)

lemma encoded_scalar_cache:
  assumes enc: "encoding ops layout ws b" and i: "i < length (cm_fields layout)"
    and f: "f = cm_fields layout ! i" and sc: "is_scalar f"
    and w: "written ws i = Some w" "write_value w = Some v" and c: "\<not> checksum_at layout i"
  shows "cached_scalar_raw (encoded_message p layout b) i = Some (take_bit (8 * cf_width_bytes f) v)"
proof -
  note E = encodingD [OF enc]
  have "final_bytes b i = write_unsigned_scalar_unchecked (cf_byte_order f) (cf_width_bytes f) v"
    using finished_fieldD(6) [OF E(5) i c] w f by (simp add: field_data_def write_data_def Let_def)
  then show ?thesis
    using scalar_width_eager [OF E(1,2) i] sc i
    by (simp add: f cached_scalar_raw_def dm_field_definition_def encoded_message_cache read_written_scalar)
qed

lemma encoded_reads_back:
  assumes enc: "encoding ops layout ws b" and w: "w \<in> set ws"
  shows "reads_back layout (encoded_message p layout b) w"
proof -
  note E = encodingD [OF enc]
  let ?i = "write_id w" and ?m = "encoded_message p layout b"
  let ?f = "cm_fields layout ! write_id w"
  have i: "?i < length (cm_fields layout)" and wr: "written ws ?i = Some w"
    using E(5) w unfolding finished_def Let_def by (blast, blast intro: written_distinct)
  have ok: "write_ok ?f w" using finished_fieldD(5) [OF E(5) i] wr by (simp add: field_ok_def Let_def)
  have vc: "value_consistent ops layout ws ?i" by (rule consistentD [OF E(4) i])
  then have c: "\<not> checksum_at layout ?i" using wr by (simp add: value_consistent_def Let_def)
  have val: "field_value layout ws ?i = write_value w" using wr by (simp add: field_value_def Let_def)
  note cache = encoded_scalar_cache [OF enc i refl _ wr _ c, where p = p]
  have sel: "field_selected ?m j" for j by (simp add: field_selected_def)
  have def: "dm_field_definition ?m ?i = Some ?f" using i by (simp add: dm_field_definition_def)
  have "subspan (mb_starts b ?i) (mb_ends b ?i - mb_starts b ?i) (mb_view b) = write_data ?f w"
    using finished_fieldD(6) [OF E(5) i c] wr by (simp add: final_bytes_def field_data_def Let_def)
  then have bytes: "resolved_field ?m ?i = Some (mb_starts b ?i, mb_ends b ?i - mb_starts b ?i)"
    "subspan (mb_starts b ?i) (mb_ends b ?i - mb_starts b ?i) (dm_frame ?m) = write_data ?f w"
    using i sel by (simp_all add: resolved_field_def encoded_message_resolved)
  show ?thesis
  proof (cases w)
    case (W_Unsigned j v)
    then have "raw_unsigned ?m ?i = Some v"
      using encoded_raw_unsigned [OF E i] ok finished_fieldD(7) [OF E(5) i c] val by simp
    then show ?thesis using W_Unsigned sel by (simp add: get_unsigned_def)
  next
    case (W_Signed j v)
    have sc: "is_scalar ?f" using ok W_Signed by (simp add: is_scalar_def)
    have "cf_width_bytes ?f \<le> 8" using scalar_width_eager(2) [OF E(1,2) i sc] by simp
    then have "(cf_width_bytes ?f * kBitsPerByte) mod 256 = 8 * cf_width_bytes ?f" by (simp add: kBitsPerByte_def)
    moreover have "sign_extend v (8 * cf_width_bytes ?f) = Some v"
      using vc ok val W_Signed by (simp add: value_consistent_def Let_def)
    moreover have "cached_scalar_raw ?m ?i = Some (take_bit (8 * cf_width_bytes ?f) v)"
      using cache [OF sc] W_Signed by simp
    ultimately show ?thesis
      using W_Signed ok def sel by (simp add: get_signed_def sign_extend_take_bit)
  next
    case (W_Float32 j v)
    have sc: "is_scalar ?f" and w4: "cf_width_bytes ?f = 4"
      using ok W_Float32 E(2) i by (simp_all add: is_scalar_def encodable_layout_def list_all_length encodable_field_def)
    have "take_bit 32 (ucast v :: u64) = ucast v"
      by (rule bit_word_eqI) (auto simp: bit_take_bit_iff bit_ucast_iff dest: bit_imp_le_length)
    moreover have "(ucast (ucast v :: u64) :: u32) = v"
      by (rule bit_word_eqI) (auto simp: bit_ucast_iff)
    moreover have "cached_scalar_raw ?m ?i = Some (take_bit 32 (ucast v))"
      using cache [OF sc] W_Float32 w4 by simp
    ultimately show ?thesis
      using W_Float32 ok def sel w4 by (simp add: get_float32_def)
  next
    case (W_Float64 j v)
    have sc: "is_scalar ?f" and w8: "cf_width_bytes ?f = 8"
      using ok W_Float64 E(2) i by (simp_all add: is_scalar_def encodable_layout_def list_all_length encodable_field_def)
    have "cached_scalar_raw ?m ?i = Some v"
      using cache [OF sc] W_Float64 w8 by (simp add: take_bit_word_eq_self)
    then show ?thesis using W_Float64 ok def sel w8 by (simp add: get_float64_def)
  next
    case (W_Bytes j d)
    then show ?thesis using def ok bytes by (auto simp: get_bytes_def)
  next
    case (W_String j d)
    then show ?thesis using def ok bytes by (simp add: get_string_view_def)
  qed
qed

lemma encoded_decodes:
  assumes "protocol_wf p" and "layout \<in> set (cp_messages p)" and "alignments_fit layout"
    and "encodable_layout layout" and "checksums_fit ops layout" and "values_consistent ops layout ws"
    and "length buffer < 2 ^ 63"
    and "mb_run ws (new_message_builder layout buffer) = (ES_Ok, b)" and "mb_finalize ops b = (ES_Ok, b')"
  shows "\<exists>m. decode_as_layout ops p layout (mb_view b') = Inr m \<and> list_all (reads_back layout m) ws"
proof -
  have known: "layout \<in> set (cp_messages p @ cp_structs p)" using assms(2) by simp
  note wf = conjunct1 [OF known_layout [OF assms(1) known]]
  have sized: "sized_alignments layout" by (rule alignments_sized [OF wf assms(3)])
  have open_: "\<not> mb_finalized b"
    by (rule run_not_finalized [OF assms(8)]) (simp add: new_message_builder_def Let_def)
  have "finished ops layout ws b'"
    using assms(4) by (intro finalize_finished [OF wf sized assms(7) _ assms(6,8,9) open_]) (simp add: encodable_layout_def)
  then have enc: "encoding ops layout ws b'" using wf assms(4-6) by (simp add: encoding_def)
  have "length (mb_view b') \<le> SIZE_MAX"
    using encoded_size [OF assms(8,9) wf assms(3,7)] assms(7) by (simp add: SIZE_MAX_def)
  from assign_from_layout_iff [OF assms(1) known this] encoded_message_decoded [OF enc]
  have "assign_from_layout ops p layout (mb_view b') None False =
      Inr (encoded_message p layout b', length (mb_view b'))" by blast
  then have "decode_as_layout ops p layout (mb_view b') = Inr (encoded_message p layout b')"
    by (simp add: decode_as_layout_def decode_message_def)
  then show ?thesis using encoded_reads_back [OF enc] by (auto simp: list_all_iff)
qed

text \<open>C17: Encoding followed by decoding is the identity, for flat and unpadded messages. Take a compiled layout without nested,
  conditional or optional fields and without alignments, with expected values on scalars only, reserved fields of fixed-size
  bytes and floats of their width, whose checksums avoid their own and later checksum fields (\<open>encodable_layout\<close>) and have values
  of their declared width (\<open>checksums_fit\<close>), and values that fit their fields, agree with the fields that give the sizes of dynamic ones and with
  expected values, and are valid text where the field is a string (\<open>values_consistent\<close>). If the setters and \<open>finalize\<close> succeed, then
  the view of the builder decodes as this message, and every accessor returns the value its setter was given. For a layout
  with an aligned field this need not hold (\<open>padded_not_read\<close>).\<close>

theorem encode_decode_roundtrip:
  assumes "protocol_wf p" and "layout \<in> set (cp_messages p)" and "alignments_fit layout"
    and "encodable_layout layout" and "checksums_fit ops layout" and "values_consistent ops layout ws"
    and "length buffer < 2 ^ 63"
    and "mb_run ws (new_message_builder layout buffer) = (ES_Ok, b)" and "mb_finalize ops b = (ES_Ok, b')"
  shows "\<exists>m. decode_as_layout ops p layout (mb_view b') = Inr m \<and> list_all (reads_back layout m) ws"
  by (rule encoded_decodes [OF assms])

subsection \<open>An instance\<close>

lemmas wire_eval = wire_layout_def wire_field_def wire_checksum_def make_compiled_message_def default_compiled_field_def

lemmas encode_eval =
  new_message_builder_def mb_set_unsigned_def mb_set_signed_def mb_set_scalar_def mb_set_bytes_def mb_set_string_def
  mb_set_payload_def mb_rejects_def mb_advance_to_def mb_advance_field_def write_scalar_field_def mb_put_def
  mb_is_checksum_field_def checksum_mask_def align_up_def and_then_def mb_fail_def mb_finalize_def checksum_range_def
  resolve_anchor_def blit_def subspan_def kMaxFieldsPerMessage_def Let_def

lemma wire_encodes:
  "\<exists>b b'. mb_run wire_writes (new_message_builder wire_layout (replicate 12 0)) = (ES_Ok, b) \<and>
     mb_finalize plain_ops b = (ES_Ok, b')"
  apply (simp add: wire_writes_def)
  apply (simp add: wire_eval encode_eval upt_rec)
  done

lemma wire_encodable: "encodable_layout wire_layout"
  by (simp add: encodable_layout_def encodable_field_def wire_eval is_scalar_def avoids_def anchor_before_def
      minimum_size_contribution_def is_conditionally_present_def)

lemma wire_values: "values_consistent plain_ops wire_layout wire_writes"
  by (simp add: values_consistent_def value_consistent_def wire_eval wire_writes_def field_value_def field_data_def
      written_def checksum_at_def fits_width_def write_data_def upt_rec sign_extend_def Let_def
      runtime_validate_string_def plain_ops_def runtime_is_valid_ascii_def)

lemma wire_checksums_fit: "checksums_fit plain_ops wire_layout"
proof -
  have byte: "take_bit 8 (ucast (x :: u8) :: u64) = ucast x" for x
    by (rule bit_word_eqI) (auto simp: bit_take_bit_iff bit_ucast_iff dest: bit_imp_le_length)
  have "\<exists>x :: u8. runtime_checksum_xor8 vxor lanes bs = ucast x" for vxor lanes bs
    by (auto simp: runtime_checksum_xor8_def checksum_xor8_def)
  then have "take_bit 8 (runtime_checksum_xor8 vxor lanes bs) = runtime_checksum_xor8 vxor lanes bs" for vxor lanes bs
    by (metis byte)
  then show ?thesis
    by (simp add: checksums_fit_def wire_eval compute_builtin_checksum_def)
qed

theorem encode_decode_roundtrip_witness:
  "\<exists>p b b' m. compile_protocol builtin_registry wire_protocol = Inr p \<and>
     mb_run wire_writes (new_message_builder wire_layout (replicate 12 0)) = (ES_Ok, b) \<and>
     mb_finalize plain_ops b = (ES_Ok, b') \<and>
     decode_as_layout plain_ops p wire_layout (mb_view b') = Inr m \<and>
     get_unsigned m 1 = Some 3 \<and> get_bytes m 2 = Some [0xA, 0xB, 0xC] \<and> get_signed m 3 = Some (-2)"
proof -
  obtain p where p: "compile_protocol builtin_registry wire_protocol = Inr p" "cp_messages p = [wire_layout]"
    using wire_compiles by blast
  obtain b b' where b: "mb_run wire_writes (new_message_builder wire_layout (replicate 12 0)) = (ES_Ok, b)"
    "mb_finalize plain_ops b = (ES_Ok, b')"
    using wire_encodes by blast
  have "wire_layout \<in> set (cp_messages p)" "length (replicate 12 (0 :: u8)) < 2 ^ 63" by (simp_all add: p(2))
  from encode_decode_roundtrip [OF wire_protocol_wf [OF p(1)] this(1) wire_layout_wf(2) wire_encodable wire_checksums_fit
      wire_values this(2) b]
  obtain m where m: "decode_as_layout plain_ops p wire_layout (mb_view b') = Inr m"
    "list_all (reads_back wire_layout m) wire_writes" by blast
  from m(2) have "get_unsigned m 1 = Some 3 \<and> get_bytes m 2 = Some [0xA, 0xB, 0xC] \<and> get_signed m 3 = Some (-2)"
    by (simp add: wire_writes_def write_data_def wire_eval)
  with p(1) b m(1) show ?thesis by blast
qed

subsection \<open>A padded message is not read back\<close>

text \<open>A field with an alignment that is set explicitly is written at the cursor; the decoder looks for it after the padding.\<close>

definition padded_protocol :: protocol_definition where
  "padded_protocol =
     \<lparr>pd_name = ''padded'', pd_imports = [], pd_enums = [], pd_structs = [],
      pd_messages = [\<lparr>md_name = ''padded'', md_fields = [demo_field ''kind'' 1, (demo_field ''value'' 2)\<lparr>fd_alignment := 2\<rparr>],
        md_validations = [], md_allow_trailing_bytes = False\<rparr>]\<rparr>"

definition padded_layout :: compiled_message where
  "padded_layout = make_compiled_message ''padded''
     [wire_field 0 ''kind'' 1, (wire_field 1 ''value'' 2)\<lparr>cf_alignment := 2\<rparr>] [] [] [] 4 True False []"

lemma padded_compiles:
  "\<exists>p. compile_protocol builtin_registry padded_protocol = Inr p \<and> cp_messages p = [padded_layout]"
  apply (simp add: compile_eval padded_protocol_def demo_field_def char_of_def bit_0)
  apply (simp add: padded_layout_def wire_field_def default_compiled_field_def checksum_builtin_kind_def numeral_eq_Suc)
  done

lemma padded_not_read:
  "\<exists>b b'. mb_run [W_Unsigned 0 1, W_Unsigned 1 2] (new_message_builder padded_layout (replicate 4 0)) = (ES_Ok, b) \<and>
     mb_finalize plain_ops b = (ES_Ok, b') \<and> decode_as_layout plain_ops p padded_layout (mb_view b') = Inl DS_SchemaMismatch"
  apply (simp add: padded_layout_def)
  apply (simp add: wire_eval encode_eval upt_rec)
  apply (simp add: decode_as_layout_def decode_message_def assign_from_layout_def assign_with_def mb_view_def subspan_def
      kMaxFieldsPerMessage_def)
  done

end
