(* ===== verification/Segmented_Equivalence.thy ===== *)
theory Segmented_Equivalence
  imports Segmented_Encoder Encoder_Roundtrip
begin

text \<open>
  The segmented builder produces the message of the contiguous one. The two run in lockstep: unless
  the contiguous buffer is too small they return the same status, and after every successful call
  they have recorded the same fields and the segments concatenate to the prefix of the buffer.
  Owned segments are consecutive in the scratch buffer, so a checksum stored through one of them
  changes no other.
\<close>

subsection \<open>Chains of segments\<close>

fun chain :: "nat \<Rightarrow> nat \<Rightarrow> (segment \<times> nat \<times> nat) list \<Rightarrow> nat \<Rightarrow> nat \<Rightarrow> bool" where
  "chain off used [] off' used' \<longleftrightarrow> off = off' \<and> used = used'"
| "chain off used ((seg, pos, n) # segs) off' used' \<longleftrightarrow>
     pos = off \<and>
     (case seg of
        Owned a m \<Rightarrow> a = used \<and> m = n \<and> chain (off + n) (used + n) segs off' used'
      | Borrowed d \<Rightarrow> length d = n \<and> chain (off + n) used segs off' used')"

definition spans_of :: "bytes \<Rightarrow> (segment \<times> nat \<times> nat) list \<Rightarrow> bytes list" where
  "spans_of scratch segs = map (\<lambda>(seg, _). segment_bytes scratch seg) segs"

lemma spans_of_simps [simp]:
  "spans_of scratch [] = []"
  "spans_of scratch (x # segs) = segment_bytes scratch (fst x) # spans_of scratch segs"
  "spans_of scratch (xs @ ys) = spans_of scratch xs @ spans_of scratch ys"
  by (simp_all add: spans_of_def case_prod_beta)

lemma chain_append:
  "chain off used (xs @ ys) off' used' \<longleftrightarrow> (\<exists>o1 u1. chain off used xs o1 u1 \<and> chain o1 u1 ys off' used')"
  by (induction off used xs off' used' rule: chain.induct) (auto split: segment.split)

lemma chain_mono: "chain off used segs off' used' \<Longrightarrow> off \<le> off' \<and> used \<le> used'"
  by (induction off used segs off' used' rule: chain.induct) (auto split: segment.splits)

lemma chain_spans_length:
  "chain off used segs off' used' \<Longrightarrow> used' \<le> length scratch \<Longrightarrow>
   off + length (concat (spans_of scratch segs)) = off'"
proof (induction off used segs off' used' rule: chain.induct)
  case (2 off used seg pos n segs off' used')
  then show ?case
    using chain_mono [of "off + n" "used + n" segs off' used']
    by (auto simp: segment_bytes_def span_simps split: segment.splits)
qed simp

lemma chain_spans_cong:
  assumes "chain off used segs off' used'"
    and "\<And>a m. used \<le> a \<Longrightarrow> a + m \<le> used' \<Longrightarrow> subspan a m scratch = subspan a m scratch'"
  shows "spans_of scratch segs = spans_of scratch' segs"
  using assms
proof (induction off used segs off' used' rule: chain.induct)
  case (2 off used seg pos n segs off' used')
  show ?case
  proof (cases seg)
    case (Owned a m)
    with 2 have "chain (off + n) (used + n) segs off' used'" "a = used" "m = n" by auto
    then show ?thesis
      using 2(1) [OF Owned] 2(4) chain_mono [of "off + n" "used + n" segs off' used'] by (auto simp: Owned segment_bytes_def)
  next
    case (Borrowed d)
    with 2 show ?thesis by (auto simp: segment_bytes_def)
  qed
qed simp

text \<open>The chunks of a range concatenate to the range of the message.\<close>

definition chunks_of :: "bytes \<Rightarrow> (segment \<times> nat \<times> nat) list \<Rightarrow> nat \<Rightarrow> nat \<Rightarrow> bytes list" where
  "chunks_of scratch segs lo hi =
     List.map_filter (\<lambda>(seg, segment_start, len).
       let segment_end = segment_start + len in
       if segment_end \<le> lo \<or> segment_start \<ge> hi then None
       else
         let chunk_start = max lo segment_start; chunk_end = min hi segment_end in
         Some (subspan (chunk_start - segment_start) (chunk_end - chunk_start) (segment_bytes scratch seg))) segs"

lemma chunks_of_concat:
  "chain off used segs off' used' \<Longrightarrow> used' \<le> length scratch \<Longrightarrow> lo \<le> hi \<Longrightarrow>
   concat (chunks_of scratch segs lo hi) = subspan (lo - off) (hi - off - (lo - off)) (concat (spans_of scratch segs))"
proof (induction off used segs off' used' rule: chain.induct)
  case (1 off used off' used')
  then show ?case by (simp add: chunks_of_def List.map_filter_simps subspan_def)
next
  case (2 off used seg pos n segs off' used')
  define d where "d = segment_bytes scratch seg"
  have pos: "pos = off" and len: "length d = n"
    and IH: "concat (chunks_of scratch segs lo hi) =
      subspan (lo - (off + n)) (hi - (off + n) - (lo - (off + n))) (concat (spans_of scratch segs))"
    using 2 chain_mono [of "off + n" "used + n" segs off' used']
    by (auto simp: d_def segment_bytes_def span_simps split: segment.splits)
  have split: "subspan a m (d @ rest) = subspan a (min m (n - a)) d @ subspan (a - n) (m - (n - a)) rest" for a m rest
    by (simp add: subspan_def len min_def)
  have step: "chunks_of scratch ((seg, pos, n) # segs) lo hi =
      (if off + n \<le> lo \<or> off \<ge> hi then []
       else [subspan (max lo off - off) (min hi (off + n) - max lo off) d]) @ chunks_of scratch segs lo hi"
    by (simp add: chunks_of_def List.map_filter_simps Let_def pos d_def)
  have rest: "lo - (off + n) = lo - off - n"
    "hi - (off + n) - (lo - off - n) = hi - off - (lo - off) - (n - (lo - off))"
    by arith+
  have "concat (if off + n \<le> lo \<or> off \<ge> hi then []
      else [subspan (max lo off - off) (min hi (off + n) - max lo off) d]) =
      subspan (lo - off) (min (hi - off - (lo - off)) (n - (lo - off))) d"
  proof (cases "off + n \<le> lo \<or> off \<ge> hi")
    case False
    then have "max lo off - off = lo - off"
      "min hi (off + n) - max lo off = min (hi - off - (lo - off)) (n - (lo - off))"
      by arith+
    with False show ?thesis by simp
  next
    case True
    then have "min (hi - off - (lo - off)) (n - (lo - off)) = 0" using \<open>lo \<le> hi\<close> by arith
    with True show ?thesis by simp
  qed
  then show ?case
    unfolding step concat_append IH spans_of_simps concat.simps fst_conv d_def [symmetric] split rest by (simp only:)
qed

lemma visit_range_chunks: "visit_range b lo hi = chunks_of (sb_scratch b) (sb_segments b) lo hi"
  by (simp add: visit_range_def chunks_of_def)

lemma sb_spans_of: "sb_spans b = spans_of (sb_scratch b) (sb_segments b)"
  by (simp add: sb_spans_def spans_of_def)

text \<open>A store of the size of an owned segment is a store at the position of the segment.\<close>

lemma chain_store:
  assumes ch: "chain 0 0 segs tot used" and u: "used \<le> length scratch" and i: "i < length segs"
    and seg: "segs ! i = (Owned a m, pos, m)" and d: "length d = m"
  shows "concat (spans_of (blit a d scratch) segs) = blit pos d (concat (spans_of scratch segs)) \<and>
    a + m \<le> used \<and> pos + m \<le> tot"
proof -
  define xs ys where "xs = take i segs" and "ys = drop (Suc i) segs"
  have segs: "segs = xs @ (Owned a m, pos, m) # ys"
    using id_take_nth_drop [OF i] seg by (simp add: xs_def ys_def)
  then obtain o1 u1 where c1: "chain 0 0 xs o1 u1" and "chain o1 u1 ((Owned a m, pos, m) # ys) tot used"
    using ch by (auto simp: chain_append)
  then have eq: "a = u1" "pos = o1" and c2: "chain (o1 + m) (u1 + m) ys tot used" by simp_all
  note le = chain_mono [OF c2]
  have fits: "a + length d \<le> length scratch" using le u eq d by simp
  have xs: "spans_of (blit a d scratch) xs = spans_of scratch xs"
    by (rule sym, rule chain_spans_cong [OF c1]) (use fits eq in \<open>auto simp: subspan_blit_apart\<close>)
  have ys: "spans_of (blit a d scratch) ys = spans_of scratch ys"
    by (rule sym, rule chain_spans_cong [OF c2]) (use fits eq d in \<open>auto simp: subspan_blit_apart\<close>)
  have len: "length (concat (spans_of scratch xs)) = pos"
    using chain_spans_length [OF c1] le u eq by simp
  have own: "subspan a m (blit a d scratch) = d" "length (subspan a m scratch) = m"
    using subspan_blit_same [OF fits] fits d by (simp_all add: span_simps)
  have "concat (spans_of (blit a d scratch) segs) = concat (spans_of scratch xs) @ d @ concat (spans_of scratch ys)"
    by (simp add: segs xs ys segment_bytes_def own)
  also have "\<dots> = blit pos d (concat (spans_of scratch segs))"
    using len own(2) d by (simp add: segs segment_bytes_def blit_def)
  finally show ?thesis using le eq by simp
qed

subsection \<open>Lockstep\<close>

definition same_record :: "compiled_message \<Rightarrow> nat \<Rightarrow> message_builder \<Rightarrow> segmented_builder \<Rightarrow> bool" where
  "same_record layout k b s \<longleftrightarrow>
     mb_layout b = layout \<and> sb_layout s = layout \<and>
     mb_checksum_mask b = checksum_mask layout \<and> sb_checksum_mask s = checksum_mask layout \<and>
     sb_starts s = mb_starts b \<and> sb_ends s = mb_ends b \<and> sb_scalars s = mb_scalars b \<and>
     sb_next s = mb_next b \<and> mb_next b \<le> k \<and> sb_failed s = mb_failed b \<and> sb_finalized s = mb_finalized b"

definition same_bytes :: "message_builder \<Rightarrow> segmented_builder \<Rightarrow> bool" where
  "same_bytes b s \<longleftrightarrow>
     sb_total s = mb_offset b \<and> mb_offset b \<le> length (mb_buffer b) \<and>
     length (mb_buffer b) \<le> length (sb_scratch s) \<and> length (mb_buffer b) < 2 ^ 63 \<and>
     chain 0 0 (sb_segments s) (mb_offset b) (sb_used s) \<and> sb_used s \<le> mb_offset b \<and>
     take (mb_offset b) (mb_buffer b) = concat (sb_spans s)"

text \<open>Every checksum field before \<open>k\<close> is an owned segment of its width.\<close>

definition indexed :: "compiled_message \<Rightarrow> nat \<Rightarrow> message_builder \<Rightarrow> segmented_builder \<Rightarrow> bool" where
  "indexed layout k b s \<longleftrightarrow>
     (\<forall>c\<in>set (cm_checksums layout). cck_field_id c < k \<longrightarrow>
        sb_indices s (cck_field_id c) < length (sb_segments s) \<and>
        (\<exists>a. sb_segments s ! sb_indices s (cck_field_id c) =
           (Owned a (cck_result_width_bytes c), mb_starts b (cck_field_id c), cck_result_width_bytes c)))"

definition mirrors :: "compiled_message \<Rightarrow> nat \<Rightarrow> nat \<Rightarrow> message_builder \<Rightarrow> segmented_builder \<Rightarrow> bool" where
  "mirrors layout k g b s \<longleftrightarrow>
     same_record layout k b s \<and> same_bytes b s \<and> indexed layout k b s \<and> length (sb_segments s) \<le> 2 * k + g"

text \<open>Same status and related states, unless the contiguous buffer is too small.\<close>

definition agree :: "(message_builder \<Rightarrow> segmented_builder \<Rightarrow> bool) \<Rightarrow>
  encode_status \<times> message_builder \<Rightarrow> encode_status \<times> segmented_builder \<Rightarrow> bool" where
  "agree Q r r' \<longleftrightarrow>
     fst r = ES_BufferTooSmall \<or> (fst r = fst r' \<and> (fst r = ES_Ok \<longrightarrow> Q (snd r) (snd r')))"

lemma agree_simps [simp]:
  "agree Q (ES_Ok, b) (ES_Ok, s) = Q b s"
  "agree Q (mb_fail e b) (sb_fail e s) \<longleftrightarrow> e \<noteq> ES_Ok \<or> Q (b\<lparr>mb_failed := True\<rparr>) (s\<lparr>sb_failed := True\<rparr>)"
  "agree Q (mb_fail ES_BufferTooSmall b) r'"
  "e \<noteq> ES_Ok \<Longrightarrow> agree Q (e, b) (e, s)"
  by (auto simp: agree_def mb_fail_def sb_fail_def)

lemma agree_then:
  assumes "agree P r r'" and "\<And>b s. P b s \<Longrightarrow> agree Q (k b) (k' s)"
  shows "agree Q (and_then r k) (and_then r' k')"
  using assms by (cases r; cases r') (auto simp: agree_def and_then_def)

lemma agree_mono: "agree P r r' \<Longrightarrow> (\<And>b s. P b s \<Longrightarrow> Q b s) \<Longrightarrow> agree Q r r'"
  by (auto simp: agree_def)

lemma sb_spans_update [simp]:
  "sb_spans (s\<lparr>sb_scalars := f\<rparr>) = sb_spans s" "sb_spans (s\<lparr>sb_finalized := x\<rparr>) = sb_spans s"
  "sb_spans (s\<lparr>sb_next := n\<rparr>) = sb_spans s" "sb_spans (sb_record k s0 s) = sb_spans s"
  by (simp_all add: sb_spans_def sb_record_def)

lemma mirrors_update:
  "mirrors layout k g b s \<Longrightarrow> mirrors layout k g (b\<lparr>mb_scalars := f\<rparr>) (s\<lparr>sb_scalars := f\<rparr>)"
  "mirrors layout k g b s \<Longrightarrow> mirrors layout k g (b\<lparr>mb_finalized := x\<rparr>) (s\<lparr>sb_finalized := x\<rparr>)"
  "mirrors layout k g b s \<Longrightarrow> n \<le> k \<Longrightarrow> mirrors layout k g (b\<lparr>mb_next := n\<rparr>) (s\<lparr>sb_next := n\<rparr>)"
  by (simp_all add: mirrors_def same_record_def same_bytes_def indexed_def)

text \<open>Appending bytes: owned or borrowed.\<close>

lemma push_spans:
  assumes "chain 0 0 (sb_segments s) (sb_total s) (sb_used s)" and "sb_used s + length d \<le> length (sb_scratch s)"
  shows "sb_spans (sb_push_owned d s) = sb_spans s @ [d]" "sb_spans (sb_push_borrowed d s) = sb_spans s @ [d]"
proof -
  have "spans_of (sb_scratch s) (sb_segments s) = spans_of (blit (sb_used s) d (sb_scratch s)) (sb_segments s)"
    by (rule chain_spans_cong [OF assms(1)]) (simp add: subspan_blit_apart [OF assms(2)])
  then show "sb_spans (sb_push_owned d s) = sb_spans s @ [d]"
    using subspan_blit_same [OF assms(2)] by (simp add: sb_spans_of sb_push_owned_def segment_bytes_def)
  show "sb_spans (sb_push_borrowed d s) = sb_spans s @ [d]"
    by (simp add: sb_spans_of sb_push_borrowed_def segment_bytes_def)
qed

lemma mirrors_fits:
  assumes "same_bytes b s" and "length d \<le> length (mb_buffer b) - mb_offset b"
  shows "mb_offset b + length d \<le> length (mb_buffer b)" "sb_used s + length d \<le> length (sb_scratch s)"
  using assms by (auto simp: same_bytes_def)

lemma same_bytes_push:
  assumes m: "same_bytes b s" and d: "length d \<le> length (mb_buffer b) - mb_offset b"
    and b': "mb_buffer b' = blit (mb_offset b) d (mb_buffer b)" "mb_offset b' = mb_offset b + length d"
    and s': "s' = sb_push_owned d s \<or> s' = sb_push_borrowed d s"
  shows "same_bytes b' s'"
proof -
  note fits = mirrors_fits [OF m d]
  have "chain 0 0 (sb_segments s) (sb_total s) (sb_used s)" using m by (simp add: same_bytes_def)
  note spans = push_spans [OF this fits(2)]
  have "take (mb_offset b') (mb_buffer b') = concat (sb_spans s') "
    using take_blit_end [OF fits(1)] m spans s' by (auto simp: same_bytes_def b')
  moreover have "chain 0 0 (sb_segments s') (mb_offset b') (sb_used s')"
    using m s' by (auto simp: same_bytes_def chain_append sb_push_owned_def sb_push_borrowed_def b')
  ultimately show ?thesis
    using m s' fits by (auto simp: same_bytes_def b' sb_push_owned_def sb_push_borrowed_def span_simps)
qed

lemma mirrors_pad:
  assumes m: "mirrors layout k 0 b s" and o: "mb_offset b \<le> off" "off \<le> length (mb_buffer b)"
    and d: "d = replicate (off - mb_offset b) 0"
  shows "mirrors layout k 1 (b\<lparr>mb_buffer := blit (mb_offset b) d (mb_buffer b), mb_offset := off\<rparr>) (sb_push_owned d s)"
    (is "mirrors _ _ _ ?b ?s")
proof -
  have "same_bytes ?b ?s"
    by (rule same_bytes_push [of b s d]) (use m o d in \<open>auto simp: mirrors_def\<close>)
  moreover have "indexed layout k ?b ?s"
    using m by (fastforce simp: mirrors_def indexed_def sb_push_owned_def nth_append)
  ultimately show ?thesis using m by (simp add: mirrors_def same_record_def sb_push_owned_def)
qed

lemma mirrors_put:
  assumes m: "mirrors layout k g b s" and d: "length d \<le> length (mb_buffer b) - mb_offset b" and g: "g \<le> 1"
    and s': "s' = sb_push_owned d s \<or>
      (s' = sb_push_borrowed d s \<and> (\<forall>c\<in>set (cm_checksums layout). cck_field_id c \<noteq> k))"
    and w: "\<forall>c\<in>set (cm_checksums layout). cck_field_id c = k \<longrightarrow> cck_result_width_bytes c = length d"
  shows "mirrors layout (Suc k) 0 (mb_put k d b) (sb_record k s s')"
proof -
  have "same_bytes (mb_put k d b) s'"
    by (rule same_bytes_push [of b s d]) (use m d s' in \<open>auto simp: mirrors_def mb_put_def\<close>)
  then have "same_bytes (mb_put k d b) (sb_record k s s')"
    by (simp add: same_bytes_def) (simp add: sb_record_def)
  moreover have "indexed layout (Suc k) (mb_put k d b) (sb_record k s s')"
    unfolding indexed_def
  proof (intro ballI impI)
    fix c assume c: "c \<in> set (cm_checksums layout)" and k: "cck_field_id c < Suc k"
    show "sb_indices (sb_record k s s') (cck_field_id c) < length (sb_segments (sb_record k s s')) \<and>
      (\<exists>a. sb_segments (sb_record k s s') ! sb_indices (sb_record k s s') (cck_field_id c) =
           (Owned a (cck_result_width_bytes c), mb_starts (mb_put k d b) (cck_field_id c), cck_result_width_bytes c))"
    proof (cases "cck_field_id c = k")
      case True
      with s' c have "s' = sb_push_owned d s" by auto
      then show ?thesis
        using True w c m by (simp add: sb_record_def sb_push_owned_def mb_put_def mirrors_def same_bytes_def)
    next
      case False
      with k c m have "sb_indices s (cck_field_id c) < length (sb_segments s)"
        "\<exists>a. sb_segments s ! sb_indices s (cck_field_id c) =
           (Owned a (cck_result_width_bytes c), mb_starts b (cck_field_id c), cck_result_width_bytes c)"
        by (auto simp: mirrors_def indexed_def)
      then show ?thesis
        using False s' by (auto simp: sb_record_def sb_push_owned_def sb_push_borrowed_def mb_put_def nth_append)
    qed
  qed
  moreover have "same_record layout (Suc k) (mb_put k d b) (sb_record k s s')"
    using m s' by (auto simp: mirrors_def same_record_def sb_record_def sb_push_owned_def sb_push_borrowed_def
        mb_put_def same_bytes_def)
  moreover have "length (sb_segments (sb_record k s s')) \<le> 2 * Suc k"
    using m g s' by (auto simp: mirrors_def sb_record_def sb_push_owned_def sb_push_borrowed_def)
  ultimately show ?thesis by (simp add: mirrors_def)
qed

subsection \<open>Every operation keeps the lockstep\<close>

lemma agree_fail_small [simp]: "agree Q (mb_fail ES_BufferTooSmall b) r'"
  by (simp add: agree_def mb_fail_def)

lemma not_full:
  assumes "mirrors layout k g b s" and "g \<le> 1" and "k \<le> 63" and "n \<le> length (mb_buffer b) - mb_offset b"
  shows "\<not> sb_full n s" "\<not> kMaxSegments \<le> length (sb_segments s)" "n \<le> length (sb_scratch s) - sb_used s"
  using assms by (auto simp: sb_full_def mirrors_def same_bytes_def kMaxSegments_def kMaxFieldsPerMessage_def)

lemma mirrorsD:
  assumes "mirrors layout k g b s"
  shows "mb_layout b = layout" "sb_layout s = layout" "sb_total s = mb_offset b" "mb_offset b \<le> length (mb_buffer b)"
    "sb_next s = mb_next b" "sb_failed s = mb_failed b" "sb_finalized s = mb_finalized b" "sb_scalars s = mb_scalars b"
    "sb_is_checksum_field s i = mb_is_checksum_field b i" "mb_next b \<le> k"
    "mb_checksum_mask b = checksum_mask layout"
  using assms
  by (simp_all add: mirrors_def same_record_def same_bytes_def sb_is_checksum_field_def mb_is_checksum_field_def)

lemma sb_record_simps [simp]:
  "sb_scalars (sb_record k s0 s) = sb_scalars s" "sb_scalars (sb_push_owned d s) = sb_scalars s"
  "sb_scalars (sb_push_borrowed d s) = sb_scalars s"
  by (simp_all add: sb_record_def sb_push_owned_def sb_push_borrowed_def)

lemma agree_scalar:
  assumes m: "mirrors layout k g b s" and g: "g \<le> 1" and k: "k \<le> 63" and wf: "layout_wf layout"
  shows "agree (mirrors layout (Suc k) 0) (write_scalar_field k v b) (append_scalar k v s)"
proof -
  note D = mirrorsD [OF m]
  let ?f = "cm_fields layout ! k"
  have w: "\<forall>c\<in>set (cm_checksums layout). cck_field_id c = k \<longrightarrow> cck_result_width_bytes c = cf_width_bytes ?f"
    using checksum_wf_width(1) [OF wf] by auto
  show ?thesis
  proof (cases "cf_width_bytes ?f > length (mb_buffer b) - mb_offset b")
    case False
    note nf = not_full [OF m g k, of "cf_width_bytes ?f"]
    let ?d = "write_unsigned_scalar_unchecked (cf_byte_order ?f) (cf_width_bytes ?f) v"
    have "mirrors layout (Suc k) 0 (mb_put k ?d b) (sb_record k s (sb_push_owned ?d s))"
      using False w by (intro mirrors_put [OF m _ g]) (auto simp: not_less)
    then have "mirrors layout (Suc k) 0 ((mb_put k ?d b)\<lparr>mb_scalars := (mb_scalars b)(k := v)\<rparr>)
        ((sb_record k s (sb_push_owned ?d s))\<lparr>sb_scalars := (mb_scalars b)(k := v)\<rparr>)"
      by (rule mirrors_update(1))
    then show ?thesis using False nf by (simp add: write_scalar_field_def append_scalar_def D Let_def not_less)
  qed (simp add: write_scalar_field_def D Let_def)
qed

lemma agree_filled:
  assumes m: "mirrors layout k g b s" and g: "g \<le> 1" and k: "k \<le> 63"
    and w: "\<forall>c\<in>set (cm_checksums layout). cck_field_id c = k \<longrightarrow> cck_result_width_bytes c = n"
    and n: "\<not> n > length (mb_buffer b) - mb_offset b"
  shows "agree (mirrors layout (Suc k) 0) (ES_Ok, mb_put k (replicate n x) b) (append_filled_bytes k n x s)"
proof -
  have "mirrors layout (Suc k) 0 (mb_put k (replicate n x) b) (sb_record k s (sb_push_owned (replicate n x) s))"
    using n w by (intro mirrors_put [OF m _ g]) auto
  then show ?thesis using not_full [OF m g k, of n] n by (simp add: append_filled_bytes_def not_less)
qed

lemma wrap_difference:
  assumes "x \<le> y" and "y < 2 ^ 63" shows "wrap_size (y + (2 ^ 64 - x)) = y - x"
proof -
  have "y + (2 ^ 64 - x) = (y - x) + 2 ^ 64" "y - x < 2 ^ 64" using assms by simp_all
  then show ?thesis unfolding wrap_size_def by (simp only: mod_add_self2 mod_less)
qed

lemma agree_advance_field:
  assumes m: "mirrors layout k 0 b s" and wf: "layout_wf layout" and a: "sized_alignments layout"
    and k: "k < length (cm_fields layout)"
  shows "agree (mirrors layout (Suc k) 0) (mb_advance_field k b) (sb_advance_field k s)"
proof -
  note D = mirrorsD [OF m]
  let ?f = "cm_fields layout ! k" and ?o = "align_up (mb_offset b) (cf_alignment (cm_fields layout ! k))"
  have k63: "k \<le> 63" using k layout_wf_fields(1) [OF wf] by simp
  have size: "length (mb_buffer b) < 2 ^ 63" using m by (simp add: mirrors_def same_bytes_def)
  have "cf_alignment ?f \<le> 2 ^ 63" using a k by (simp add: sized_alignments_def list_all_length)
  then have up: "mb_offset b \<le> ?o" using D(4) size by (intro align_up_ge) simp
  define b1 where "b1 = (if ?o \<noteq> mb_offset b
     then b\<lparr>mb_buffer := blit (mb_offset b) (replicate (?o - mb_offset b) 0) (mb_buffer b), mb_offset := ?o\<rparr> else b)"
  have mask: "mb_is_checksum_field b1 k = checksum_at layout k" "mb_is_checksum_field b k = checksum_at layout k"
    by (rule checksum_at_iff; simp add: b1_def D)+
  have step: "mb_advance_field k b = (if ?o > length (mb_buffer b) then mb_fail ES_BufferTooSmall b else
           if checksum_at layout k then
             if cf_width_bytes ?f > length (mb_buffer b1) - mb_offset b1 then mb_fail ES_BufferTooSmall b1
             else (ES_Ok, (mb_put k (replicate (cf_width_bytes ?f) 0) b1)
                \<lparr>mb_scalars := (mb_scalars (mb_put k (replicate (cf_width_bytes ?f) 0) b1))(k := 0)\<rparr>)
           else if cf_has_expected_unsigned ?f then write_scalar_field k (cf_expected_unsigned ?f) b1
           else if cf_is_reserved ?f then
             if cf_fixed_size ?f > length (mb_buffer b1) - mb_offset b1 then mb_fail ES_BufferTooSmall b1
             else (ES_Ok, mb_put k (replicate (cf_fixed_size ?f) (cf_reserved_fill_byte ?f)) b1)
           else mb_fail ES_InvalidData b1)"
    unfolding mb_advance_field_def D(1) Let_def mask(1) [symmetric] b1_def by simp
  show ?thesis
  proof (cases "?o > length (mb_buffer b)")
    case False
    have gap: "\<exists>s1. emit_alignment_gap k s = (ES_Ok, s1) \<and> (\<exists>g\<le>1. mirrors layout k g b1 s1)"
    proof (cases "?o = mb_offset b")
      case True
      then show ?thesis using m by (auto simp: emit_alignment_gap_def D b1_def Let_def)
    next
      case ne: False
      have "wrap_size (?o + (2 ^ 64 - mb_offset b)) = ?o - mb_offset b"
        using up False size by (intro wrap_difference) simp_all
      moreover have "mirrors layout k 1 b1 (sb_push_owned (replicate (?o - mb_offset b) 0) s)"
        using mirrors_pad [OF m up _ refl] False ne by (simp add: b1_def)
      moreover have "\<not> sb_full (?o - mb_offset b) s" using not_full(1) [OF m _ k63, of "?o - mb_offset b"] False by simp
      moreover have "(sb_push_owned (replicate (?o - mb_offset b) 0) s)\<lparr>sb_total := ?o\<rparr> =
          sb_push_owned (replicate (?o - mb_offset b) 0) s"
        using up by (simp add: sb_push_owned_def D)
      ultimately show ?thesis using ne by (auto simp: emit_alignment_gap_def D Let_def)
    qed
    then obtain s1 g where s1: "emit_alignment_gap k s = (ES_Ok, s1)" and m1: "mirrors layout k g b1 s1" and g: "g \<le> 1"
      by blast
    note D1 = mirrorsD [OF m1]
    have fld: "sb_advance_field k s =
      (if checksum_at layout k then
         and_then (append_filled_bytes k (cf_width_bytes ?f) 0 s1) (\<lambda>b. (ES_Ok, b\<lparr>sb_scalars := (sb_scalars b)(k := 0)\<rparr>))
       else if cf_has_expected_unsigned ?f then append_scalar k (cf_expected_unsigned ?f) s1
       else if cf_is_reserved ?f then append_filled_bytes k (cf_fixed_size ?f) (cf_reserved_fill_byte ?f) s1
       else sb_fail ES_InvalidData s1)"
      by (simp add: sb_advance_field_def s1 and_then_def D1 mask Let_def)
    have w: "\<forall>c\<in>set (cm_checksums layout). cck_field_id c = k \<longrightarrow> cck_result_width_bytes c = cf_width_bytes ?f"
      using checksum_wf_width(1) [OF wf] by auto
    have none: "\<not> checksum_at layout k \<Longrightarrow> \<forall>c\<in>set (cm_checksums layout). cck_field_id c \<noteq> k"
      using k63 by (auto simp: checksum_at_def list_ex_iff)
    show ?thesis
    proof (cases "checksum_at layout k")
      case True
      show ?thesis
      proof (cases "cf_width_bytes ?f > length (mb_buffer b1) - mb_offset b1")
        case nofit: False
        have "agree (mirrors layout (Suc k) 0)
            (and_then (ES_Ok, mb_put k (replicate (cf_width_bytes ?f) 0) b1)
              (\<lambda>b. (ES_Ok, b\<lparr>mb_scalars := (mb_scalars b)(k := 0)\<rparr>)))
            (and_then (append_filled_bytes k (cf_width_bytes ?f) 0 s1) (\<lambda>b. (ES_Ok, b\<lparr>sb_scalars := (sb_scalars b)(k := 0)\<rparr>)))"
          by (rule agree_then [OF agree_filled [OF m1 g k63 w nofit]])
            (simp add: mirrors_update(1) mirrorsD(8))
        then show ?thesis using False True nofit by (simp add: step fld and_then_def)
      qed (use False True in \<open>simp add: step\<close>)
    next
      case chk: False
      show ?thesis
        using False chk agree_scalar [OF m1 g k63 wf] agree_filled [OF m1 g k63, of "cf_fixed_size ?f"] none
        by (simp add: step fld)
    qed
  qed (simp add: step)
qed

subsection \<open>Segmented checksums\<close>

text \<open>The documented behaviour of the vector library.\<close>

definition vector_ops_ok :: "simd_ops \<Rightarrow> bool" where
  "vector_ops_ok ops \<longleftrightarrow>
     (\<forall>xs ys. length xs = length ys \<longrightarrow> so_vxor ops xs ys = map2 (XOR) xs ys) \<and>
     (\<forall>xs. length xs = so_lanes ops \<longrightarrow> so_lane_sum ops xs = word_of_nat (sum_bytes xs))"

lemma fold_chunks: "fold (fold f) chunks s = fold f (concat chunks) s"
  by (induction chunks arbitrary: s) simp_all

lemma fold_xor8: "fold (\<lambda>b v. v XOR b) bs v = xor8_loop v bs"
  by (induction bs arbitrary: v) simp_all

lemma fold_sum_bytes: "fold (\<lambda>b s. s + ucast b) bs (s :: u64) = s + word_of_nat (sum_bytes bs)"
  by (induction bs arbitrary: s) (simp_all add: algebra_simps)

lemma low16_mask: "(word_of_nat n :: u64) AND 0xFFFF = word_of_nat (n mod 2 ^ 16)"
proof -
  have "(0xFFFF :: u64) = mask 16" by (simp add: mask_eq_exp_minus_1)
  then have "(word_of_nat n :: u64) AND 0xFFFF = take_bit 16 (word_of_nat n)" by (simp only: take_bit_eq_mask)
  also have "\<dots> = word_of_nat (take_bit 16 n)" by (rule bit_word_eqI) (simp add: bit_take_bit_iff bit_of_nat_iff possible_bit_word)
  finally show ?thesis by (simp only: take_bit_eq_mod)
qed

lemma segmented_checksum_eq:
  assumes "vector_ops_ok ops"
  shows "compute_segmented_builtin_checksum ops c chunks = compute_builtin_checksum ops c (concat chunks)"
proof -
  have one: "(case chunks of [single_chunk] \<Rightarrow> single_chunk | _ \<Rightarrow> concat chunks) = concat chunks"
    by (cases chunks; cases "tl chunks") auto
  have x: "runtime_checksum_xor8 (so_vxor ops) (so_lanes ops) bs = ucast (xor8_loop 0 bs)" for bs
    using assms by (simp add: vector_ops_ok_def runtime_checksum_xor8_def checksum_xor8_def hwy_checksum_xor8_eq)
  have "ucast (hwy_checksum_sum16 (so_lane_sum ops) (so_lanes ops) bs) = checksum_sum16 bs" for bs
    using assms by (intro hwy_checksum_sum16_eq) (simp add: vector_ops_ok_def)
  then have s: "runtime_checksum_sum16 (so_lane_sum ops) (so_lanes ops) bs = word_of_nat (sum_bytes bs) AND 0xFFFF" for bs
    by (simp add: runtime_checksum_sum16_def low16_mask checksum_sum16_eq)
  show ?thesis
    unfolding compute_segmented_builtin_checksum_def compute_builtin_checksum_def one fold_chunks fold_xor8 fold_sum_bytes
    by (cases "cck_builtin_kind c") (simp_all add: x s split: option.split)
qed

lemma take_blit_inside:
  assumes "off + length d \<le> k" and "k \<le> length xs"
  shows "take k (blit off d xs) = blit off d (take k xs)"
proof (cases "d = []")
  case True
  then show ?thesis using assms by simp
next
  case False
  then have "off < k" using assms(1) by (cases d) simp_all
  then show ?thesis using assms by (simp add: blit_def take_drop min_def)
qed

lemma agree_checksums:
  assumes wf: "layout_wf layout" and ops: "vector_ops_ok ops"
  shows "mirrors layout (length (cm_fields layout)) 0 b s \<Longrightarrow> set cs \<subseteq> set (cm_checksums layout) \<Longrightarrow>
    agree (\<lambda>b' s'. mirrors layout (length (cm_fields layout)) 0 b' s') (mb_write_checksums ops cs b) (sb_write_checksums ops cs s)"
proof (induction cs arbitrary: b s)
  case (Cons c cs)
  let ?n = "length (cm_fields layout)" and ?i = "cck_field_id c"
  note m = Cons.prems(1)
  note D = mirrorsD [OF m]
  have R: "sb_starts s = mb_starts b" "sb_ends s = mb_ends b" using m by (simp_all add: mirrors_def same_record_def)
  have c: "c \<in> set (cm_checksums layout)" using Cons.prems(2) by simp
  have i: "?i < ?n" using checksum_wf_width(2) [OF wf c] .
  have idx: "sb_indices s ?i < length (sb_segments s)"
    and "\<exists>a. sb_segments s ! sb_indices s ?i = (Owned a (cck_result_width_bytes c), mb_starts b ?i, cck_result_width_bytes c)"
    using m c i by (auto simp: mirrors_def indexed_def)
  then obtain a where seg: "sb_segments s ! sb_indices s ?i =
      (Owned a (cck_result_width_bytes c), mb_starts b ?i, cck_result_width_bytes c)" by blast
  have ch: "chain 0 0 (sb_segments s) (mb_offset b) (sb_used s)" and used: "sb_used s \<le> length (sb_scratch s)"
    and le: "mb_offset b \<le> length (mb_buffer b)"
    and bytes: "take (mb_offset b) (mb_buffer b) = concat (spans_of (sb_scratch s) (sb_segments s))"
    using m by (auto simp: mirrors_def same_bytes_def sb_spans_of)
  show ?case
  proof (cases "checksum_range ?n (mb_offset b) (mb_starts b) (mb_ends b) c")
    case None
    then show ?thesis by (simp add: D R)
  next
    case (Some r)
    then obtain lo hi where r: "checksum_range ?n (mb_offset b) (mb_starts b) (mb_ends b) c = Some (lo, hi)" by fastforce
    show ?thesis
    proof (cases "lo > hi \<or> hi > mb_offset b")
      case True
      then show ?thesis using r by (simp add: D R)
    next
      case False
      then have lh: "lo \<le> hi" "hi \<le> mb_offset b" by simp_all
      define v where "v = compute_builtin_checksum ops c (subspan lo (hi - lo) (mb_buffer b))"
      have "concat (visit_range s lo hi) = subspan lo (hi - lo) (take (mb_offset b) (mb_buffer b))"
        unfolding visit_range_chunks bytes using chunks_of_concat [OF ch used lh(1)] by simp
      then have v: "compute_segmented_builtin_checksum ops c (visit_range s lo hi) = v"
        using lh by (simp add: segmented_checksum_eq [OF ops] v_def subspan_take)
      define d where "d = write_unsigned_scalar_unchecked (cf_byte_order (cm_fields layout ! ?i)) (cck_result_width_bytes c) v"
      define b1 where "b1 = b\<lparr>mb_buffer := blit (mb_starts b ?i) d (mb_buffer b), mb_scalars := (mb_scalars b)(?i := v)\<rparr>"
      define s1 where "s1 = s\<lparr>sb_scalars := (mb_scalars b)(?i := v), sb_scratch := blit a d (sb_scratch s)\<rparr>"
      have d: "length d = cck_result_width_bytes c" by (simp add: d_def)
      from chain_store [OF ch used idx seg d]
      have st: "concat (spans_of (blit a d (sb_scratch s)) (sb_segments s)) =
          blit (mb_starts b ?i) d (concat (spans_of (sb_scratch s) (sb_segments s)))"
        "a + length d \<le> sb_used s" "mb_starts b ?i + length d \<le> mb_offset b" by (simp_all add: d)
      have "take (mb_offset b) (blit (mb_starts b ?i) d (mb_buffer b)) =
          blit (mb_starts b ?i) d (take (mb_offset b) (mb_buffer b))"
        by (rule take_blit_inside [OF st(3) le])
      then have "same_bytes b1 s1"
        using m st le used bytes by (simp add: mirrors_def same_bytes_def b1_def s1_def sb_spans_of span_simps)
      then have m1: "mirrors layout ?n 0 b1 s1"
        using m by (simp add: mirrors_def same_record_def indexed_def b1_def s1_def)
      have "mb_write_checksums ops (c # cs) b = mb_write_checksums ops cs b1"
        using False r by (simp add: D Let_def b1_def d_def v_def)
      moreover have "sb_write_checksums ops (c # cs) s = sb_write_checksums ops cs s1"
        using False r v idx seg by (simp add: D R Let_def s1_def d_def store_in_segment_def)
      ultimately show ?thesis using Cons.IH [OF m1] Cons.prems(2) by simp
    qed
  qed
qed simp

subsection \<open>Calls and messages\<close>

lemma agree_advance_fields:
  assumes wf: "layout_wf layout" and a: "sized_alignments layout"
  shows "mirrors layout i 0 b s \<Longrightarrow> i \<le> j \<Longrightarrow> j \<le> length (cm_fields layout) \<Longrightarrow>
    agree (mirrors layout j 0) (mb_advance_fields [i..<j] b) (sb_advance_fields [i..<j] s)"
proof (induction "j - i" arbitrary: i b s)
  case (Suc n)
  then have "[i..<j] = i # [Suc i..<j]" by (simp add: upt_conv_Cons)
  moreover have "agree (mirrors layout (Suc i) 0) (mb_advance_field i b) (sb_advance_field i s)"
    using Suc.prems Suc.hyps(2) by (intro agree_advance_field [OF _ wf a]) auto
  moreover have "agree (mirrors layout j 0) (mb_advance_fields [Suc i..<j] b1) (sb_advance_fields [Suc i..<j] s1)"
    if "mirrors layout (Suc i) 0 b1 s1" for b1 s1
    using Suc.hyps(1) [of "Suc i" b1 s1] Suc.hyps(2) Suc.prems that by simp
  ultimately show ?case by (auto intro: agree_then)
qed simp

lemma agree_advance_to:
  assumes wf: "layout_wf layout" and a: "sized_alignments layout"
    and m: "mirrors layout (mb_next b) 0 b s" and t: "mb_next b \<le> t"
  shows "agree (\<lambda>b s. mirrors layout t 0 b s \<and> t \<le> length (cm_fields layout)) (mb_advance_to t b) (sb_advance_to t s)"
proof (cases "mb_failed b \<or> t > length (cm_fields layout)")
  case False
  have "agree (\<lambda>b s. mirrors layout t 0 b s \<and> t \<le> length (cm_fields layout))
      (and_then (mb_advance_fields [mb_next b..<t] b) (\<lambda>b. (ES_Ok, b\<lparr>mb_next := t\<rparr>)))
      (and_then (sb_advance_fields [mb_next b..<t] s) (\<lambda>b. (ES_Ok, b\<lparr>sb_next := t\<rparr>)))"
    by (rule agree_then [OF agree_advance_fields [OF wf a m t]]) (use False in \<open>auto simp: mirrors_update(3)\<close>)
  then show ?thesis using False by (simp add: mb_advance_to_def sb_advance_to_def mirrorsD [OF m])
qed (auto simp: mb_advance_to_def sb_advance_to_def mirrorsD [OF m])

text \<open>Between two calls.\<close>

definition in_step :: "compiled_message \<Rightarrow> message_builder \<Rightarrow> segmented_builder \<Rightarrow> bool" where
  "in_step layout b s \<longleftrightarrow> mirrors layout (mb_next b) 0 b s \<and> mb_next b \<le> length (cm_fields layout)"

lemma in_step_next:
  "mirrors layout (Suc k) 0 b s \<Longrightarrow> k < length (cm_fields layout) \<Longrightarrow>
   in_step layout (b\<lparr>mb_next := Suc k\<rparr>) (s\<lparr>sb_next := Suc k\<rparr>)"
  by (simp add: in_step_def mirrors_update(3))

text \<open>A setter of the segmented builder against the two stages of a contiguous one.\<close>

lemma agree_set:
  assumes wf: "layout_wf layout" and a: "sized_alignments layout" and m: "in_step layout b s"
    and step: "\<And>b s. mirrors layout fid 0 b s \<Longrightarrow> fid < length (cm_fields layout) \<Longrightarrow>
      accepts (cm_fields layout ! fid) \<Longrightarrow>
      agree (in_step layout) (put b) (and_then (app (cm_fields layout ! fid) s) (\<lambda>b. (ES_Ok, b\<lparr>sb_next := fid + 1\<rparr>)))"
  shows "agree (in_step layout)
    (if mb_rejects fid b then (ES_InvalidData, b)
     else if \<not> accepts (cm_fields layout ! fid) then (ES_InvalidData, b)
     else and_then (mb_advance_to fid b) put)
    (sb_set accepts fid app s)"
proof -
  have m: "mirrors layout (mb_next b) 0 b s" using m by (simp add: in_step_def)
  note D = mirrorsD [OF m]
  have r: "sb_rejects fid s = mb_rejects fid b" by (simp add: sb_rejects_def mb_rejects_def D)
  show ?thesis
  proof (cases "mb_rejects fid b \<or> \<not> accepts (cm_fields layout ! fid)")
    case False
    then have t: "mb_next b \<le> fid" and f: "fid < length (cm_fields layout)" by (simp_all add: mb_rejects_def D)
    have "sb_set accepts fid app s = and_then (sb_advance_to fid s)
        (\<lambda>b. and_then (app (cm_fields layout ! fid) b) (\<lambda>b. (ES_Ok, b\<lparr>sb_next := fid + 1\<rparr>)))"
      using False by (simp add: sb_set_def r D Let_def)
    moreover have "agree (in_step layout) (and_then (mb_advance_to fid b) put)
        (and_then (sb_advance_to fid s) (\<lambda>b. and_then (app (cm_fields layout ! fid) b) (\<lambda>b. (ES_Ok, b\<lparr>sb_next := fid + 1\<rparr>))))"
      by (rule agree_then [OF agree_advance_to [OF wf a m t]]) (use step f False in auto)
    ultimately show ?thesis using False by simp
  qed (auto simp: sb_set_def r D Let_def)
qed

lemma agree_set_scalar:
  assumes wf: "layout_wf layout" and a: "sized_alignments layout" and m: "in_step layout b s"
  shows "agree (in_step layout) (mb_set_scalar kinds fid v b)
    (sb_set (\<lambda>f. cf_kind f \<in> set kinds) fid (\<lambda>_. append_scalar fid v) s)"
proof -
  have l: "mb_layout b = layout" using m mirrorsD(1) by (auto simp: in_step_def)
  have "agree (in_step layout) (and_then (write_scalar_field fid v b) (\<lambda>b. (ES_Ok, b\<lparr>mb_next := fid + 1\<rparr>)))
      (and_then (append_scalar fid v s) (\<lambda>b. (ES_Ok, b\<lparr>sb_next := fid + 1\<rparr>)))"
    if "mirrors layout fid 0 b s" "fid < length (cm_fields layout)" for b s
  proof (rule agree_then)
    show "agree (mirrors layout (Suc fid) 0) (write_scalar_field fid v b) (append_scalar fid v s)"
      using that layout_wf_fields(1) [OF wf] by (intro agree_scalar [OF that(1) _ _ wf]) simp_all
  qed (use that in \<open>simp add: in_step_next\<close>)
  with agree_set [where accepts = "\<lambda>f. cf_kind f \<in> set kinds" and app = "\<lambda>_. append_scalar fid v" and fid = fid
      and put = "\<lambda>b. and_then (write_scalar_field fid v b) (\<lambda>b. (ES_Ok, b\<lparr>mb_next := fid + 1\<rparr>))", OF wf a m]
  show ?thesis unfolding mb_set_scalar_def l by blast
qed

lemma agree_payload:
  assumes wf: "layout_wf layout" and m: "mirrors layout fid 0 b s" and f: "fid < length (cm_fields layout)"
    and k: "cf_kind (cm_fields layout ! fid) \<notin> {KUnsigned, KEnum}"
    and app: "app = append_owned_bytes fid d (payload_size (cm_fields layout ! fid) d) \<or>
      (app = append_borrowed_bytes fid d \<and> cf_dynamic_size (cm_fields layout ! fid))"
  shows "agree (in_step layout)
     (let f = cm_fields (mb_layout b) ! fid; psize = (if cf_dynamic_size f then length d else cf_fixed_size f) in
      if psize > length (mb_buffer b) - mb_offset b then mb_fail ES_BufferTooSmall b
      else if psize > length d then (ES_OutOfBounds, b)
      else (ES_Ok, (mb_put fid (take psize d) b)\<lparr>mb_next := fid + 1\<rparr>))
     (and_then (app s) (\<lambda>b. (ES_Ok, b\<lparr>sb_next := fid + 1\<rparr>)))"
proof -
  note D = mirrorsD [OF m]
  define n where "n = payload_size (cm_fields layout ! fid) d"
  have k63: "fid \<le> 63" using f layout_wf_fields(1) [OF wf] by simp
  have no: "\<forall>c\<in>set (cm_checksums layout). cck_field_id c \<noteq> fid"
    using checksum_wf_width(3) [OF wf] k by fastforce
  have n: "(if cf_dynamic_size (cm_fields layout ! fid) then length d else cf_fixed_size (cm_fields layout ! fid)) = n"
    by (simp add: n_def payload_size_def)
  show ?thesis
  proof (cases "n > length (mb_buffer b) - mb_offset b")
    case True
    then show ?thesis by (simp add: D n Let_def agree_def mb_fail_def)
  next
    case False
    then have fits: "n \<le> length (mb_buffer b) - mb_offset b" by simp
    note nf = not_full [OF m _ k63 fits, simplified]
    show ?thesis
    proof (cases "n > length d")
      case True
      with app have "app = append_owned_bytes fid d n" by (auto simp: n_def payload_size_def)
      with True False nf show ?thesis
        by (simp add: D n Let_def append_owned_bytes_def and_then_def)
    next
      case short: False
      have put: "mirrors layout (Suc fid) 0 (mb_put fid (take n d) b) (sb_record fid s s')"
        if "s' = sb_push_owned (take n d) s \<or> s' = sb_push_borrowed (take n d) s" for s'
        using that no fits short by (intro mirrors_put [OF m]) auto
      have "app s = (ES_Ok, sb_record fid s (sb_push_owned (take n d) s)) \<or>
          app s = (ES_Ok, sb_record fid s (sb_push_borrowed (take n d) s))"
        using app nf short
        by (auto simp: append_owned_bytes_def append_borrowed_bytes_def n_def payload_size_def)
      then show ?thesis
        using False short put f by (auto simp: D n Let_def and_then_def in_step_next)
    qed
  qed
qed

text \<open>The segmented setters; \<open>attach\<close> says for which fields the payload is borrowed.\<close>

fun sb_apply :: "(field_id \<Rightarrow> bool) \<Rightarrow> field_write \<Rightarrow> segmented_builder \<Rightarrow> encode_status \<times> segmented_builder" where
  "sb_apply attach (W_Unsigned i v) = sb_set_unsigned i v"
| "sb_apply attach (W_Signed i v) = sb_set_signed i v"
| "sb_apply attach (W_Float32 i v) = sb_set_float32 i v"
| "sb_apply attach (W_Float64 i v) = sb_set_float64 i v"
| "sb_apply attach (W_Bytes i d) = (if attach i then sb_attach_bytes i d else sb_set_bytes i d)"
| "sb_apply attach (W_String i d) = (if attach i then sb_attach_string i d else sb_set_string i d)"

fun sb_run :: "(field_id \<Rightarrow> bool) \<Rightarrow> field_write list \<Rightarrow> segmented_builder \<Rightarrow> encode_status \<times> segmented_builder" where
  "sb_run attach [] b = (ES_Ok, b)"
| "sb_run attach (w # ws) b = and_then (sb_apply attach w b) (sb_run attach ws)"

definition attachable :: "compiled_message \<Rightarrow> (field_id \<Rightarrow> bool) \<Rightarrow> bool" where
  "attachable layout attach \<longleftrightarrow>
     list_all (\<lambda>i. attach i \<longrightarrow> cf_dynamic_size (cm_fields layout ! i)) [0..<length (cm_fields layout)]"

lemma mb_set_bytes_if:
  "mb_set_bytes fid d b =
     (if mb_rejects fid b then (ES_InvalidData, b)
      else if \<not> ((cf_kind (cm_fields (mb_layout b) ! fid) = KBytes \<or> cf_kind (cm_fields (mb_layout b) ! fid) = KStruct) \<and>
          \<not> cf_is_reserved (cm_fields (mb_layout b) ! fid)) then (ES_InvalidData, b)
      else mb_set_payload fid d b)"
  by (auto simp: mb_set_bytes_def Let_def)

lemma mb_set_string_if:
  "mb_set_string fid d b =
     (if mb_rejects fid b then (ES_InvalidData, b)
      else if \<not> cf_kind (cm_fields (mb_layout b) ! fid) = KString then (ES_InvalidData, b)
      else mb_set_payload fid d b)"
  by (simp add: mb_set_string_def)

lemma agree_apply:
  assumes wf: "layout_wf layout" and a: "sized_alignments layout" and at: "attachable layout attach"
    and m: "in_step layout b s"
  shows "agree (in_step layout) (mb_apply w b) (sb_apply attach w s)"
proof -
  have l: "mb_layout b = layout" using m mirrorsD(1) by (auto simp: in_step_def)
  note scalar = agree_set_scalar [OF wf a m]
  let ?f = "\<lambda>i. cm_fields layout ! i"
  have "kind_ok (take i (cm_fields layout)) (?f i)" if "i < length (cm_fields layout)" for i
    using wf that by (simp add: layout_wf_def fields_wf_def field_wf_def)
  then have struct: "i < length (cm_fields layout) \<Longrightarrow> cf_kind (?f i) = KStruct \<Longrightarrow> \<not> cf_dynamic_size (?f i)" for i
    by (fastforce simp: kind_ok_def)
  have dyn: "attach i \<Longrightarrow> i < length (cm_fields layout) \<Longrightarrow> cf_dynamic_size (?f i)" for i
    using at by (simp add: attachable_def list_all_iff)
  note set = agree_set [OF wf a m]
  show ?thesis
  proof (cases w)
    case (W_Bytes i d)
    define put where "put = (\<lambda>b. let f = cm_fields (mb_layout b) ! i; psize = (if cf_dynamic_size f then length d else cf_fixed_size f) in
      if psize > length (mb_buffer b) - mb_offset b then mb_fail ES_BufferTooSmall b
      else if psize > length d then (ES_OutOfBounds, b)
      else (ES_Ok, (mb_put i (take psize d) b)\<lparr>mb_next := i + 1\<rparr>))"
    show ?thesis
    proof (cases "attach i")
      case True
      have "agree (in_step layout)
        (if mb_rejects i b then (ES_InvalidData, b)
         else if \<not> (cf_kind (?f i) = KBytes \<and> cf_dynamic_size (?f i) \<and> \<not> cf_is_reserved (?f i)) then (ES_InvalidData, b)
         else and_then (mb_advance_to i b) put) (sb_attach_bytes i d s)"
        unfolding sb_attach_bytes_def put_def by (rule set, rule agree_payload [OF wf]) auto
      moreover have "(cf_kind (?f i) = KBytes \<or> cf_kind (?f i) = KStruct) \<and> \<not> cf_is_reserved (?f i) \<longleftrightarrow>
          cf_kind (?f i) = KBytes \<and> cf_dynamic_size (?f i) \<and> \<not> cf_is_reserved (?f i)" if "\<not> mb_rejects i b"
        using that True dyn [of i] struct [of i] by (auto simp: mb_rejects_def l not_le)
      ultimately show ?thesis
        using True by (auto simp: W_Bytes mb_set_bytes_if mb_set_payload_def put_def l split: if_splits)
    next
      case False
      have "agree (in_step layout)
        (if mb_rejects i b then (ES_InvalidData, b)
         else if \<not> ((cf_kind (?f i) = KBytes \<or> cf_kind (?f i) = KStruct) \<and> \<not> cf_is_reserved (?f i)) then (ES_InvalidData, b)
         else and_then (mb_advance_to i b) put) (sb_set_bytes i d s)"
        unfolding sb_set_bytes_def put_def by (rule set, rule agree_payload [OF wf]) auto
      then show ?thesis
        unfolding W_Bytes mb_apply.simps mb_set_bytes_if mb_set_payload_def put_def l
        by (simp only: sb_apply.simps False if_False)
    qed
  next
    case (W_String i d)
    define put where "put = (\<lambda>b. let f = cm_fields (mb_layout b) ! i; psize = (if cf_dynamic_size f then length d else cf_fixed_size f) in
      if psize > length (mb_buffer b) - mb_offset b then mb_fail ES_BufferTooSmall b
      else if psize > length d then (ES_OutOfBounds, b)
      else (ES_Ok, (mb_put i (take psize d) b)\<lparr>mb_next := i + 1\<rparr>))"
    show ?thesis
    proof (cases "attach i")
      case True
      have "agree (in_step layout)
        (if mb_rejects i b then (ES_InvalidData, b)
         else if \<not> (cf_kind (?f i) = KString \<and> cf_dynamic_size (?f i)) then (ES_InvalidData, b)
         else and_then (mb_advance_to i b) put) (sb_attach_string i d s)"
        unfolding sb_attach_string_def put_def by (rule set, rule agree_payload [OF wf]) auto
      then show ?thesis
        using True dyn by (auto simp: W_String mb_set_string_if mb_set_payload_def put_def l mb_rejects_def split: if_splits)
    next
      case False
      have "agree (in_step layout)
        (if mb_rejects i b then (ES_InvalidData, b)
         else if \<not> (cf_kind (?f i) = KString) then (ES_InvalidData, b)
         else and_then (mb_advance_to i b) put) (sb_set_string i d s)"
        unfolding sb_set_string_def put_def by (rule set, rule agree_payload [OF wf]) auto
      then show ?thesis
        unfolding W_String mb_apply.simps mb_set_string_if mb_set_payload_def put_def l
        by (simp only: sb_apply.simps False if_False)
    qed
  qed (use scalar [where kinds = "[KUnsigned, KEnum]"] scalar [where kinds = "[KSigned]"] scalar [where kinds = "[KFloat32]"]
      scalar [where kinds = "[KFloat64]"] in
      \<open>simp_all add: mb_set_unsigned_def mb_set_signed_def mb_set_float32_def mb_set_float64_def
        sb_set_unsigned_def sb_set_signed_def sb_set_float32_def sb_set_float64_def\<close>)
qed

lemma agree_run:
  assumes wf: "layout_wf layout" and a: "sized_alignments layout" and at: "attachable layout attach"
  shows "in_step layout b s \<Longrightarrow> agree (in_step layout) (mb_run ws b) (sb_run attach ws s)"
  by (induction ws arbitrary: b s) (auto intro: agree_then agree_apply [OF wf a at])

lemma in_step_new:
  assumes "layout_wf layout" and "length buffer \<le> length scratch" and "length buffer < 2 ^ 63"
  shows "in_step layout (new_message_builder layout buffer) (new_segmented_builder layout scratch)"
  using assms layout_wf_fields(1) [OF assms(1)]
  by (simp add: in_step_def mirrors_def same_record_def same_bytes_def indexed_def new_message_builder_def
      new_segmented_builder_def sb_spans_def kMaxFieldsPerMessage_def Let_def)

lemma agree_finalize:
  assumes wf: "layout_wf layout" and a: "sized_alignments layout" and ops: "vector_ops_ok ops"
    and m: "in_step layout b s" and open_: "\<not> mb_finalized b"
  shows "agree (\<lambda>b s. mirrors layout (length (cm_fields layout)) 0 b s \<and> mb_finalized b)
    (mb_finalize ops b) (sb_finalize ops s)"
proof -
  let ?n = "length (cm_fields layout)"
  have m0: "mirrors layout (mb_next b) 0 b s" and t: "mb_next b \<le> ?n" using m by (simp_all add: in_step_def)
  note D = mirrorsD [OF m0]
  have chk: "agree (mirrors layout ?n 0) (mb_write_checksums ops (cm_checksums (mb_layout b)) b)
      (sb_write_checksums ops (cm_checksums (sb_layout s)) s)" if "mirrors layout ?n 0 b s" for b s
    using agree_checksums [OF wf ops that] mirrorsD(1,2) [OF that] by simp
  have "agree (\<lambda>b s. mirrors layout ?n 0 b s \<and> mb_finalized b)
      (and_then (mb_advance_to ?n b) (\<lambda>b.
           and_then (mb_write_checksums ops (cm_checksums (mb_layout b)) b) (\<lambda>b.
           if \<not> validations_pass (written_reader (mb_layout b) (mb_scalars b)) (cm_validations (mb_layout b))
           then mb_fail ES_InvalidData b else (ES_Ok, b\<lparr>mb_finalized := True\<rparr>))))
      (and_then (sb_advance_to ?n s) (\<lambda>b.
           and_then (sb_write_checksums ops (cm_checksums (sb_layout b)) b) (\<lambda>b.
           if \<not> validations_pass (written_reader (sb_layout b) (sb_scalars b)) (cm_validations (sb_layout b))
           then sb_fail ES_InvalidData b else (ES_Ok, b\<lparr>sb_finalized := True\<rparr>))))"
  proof (rule agree_then [OF agree_advance_to [OF wf a m0 t]])
    fix b s assume "mirrors layout ?n 0 b s \<and> ?n \<le> ?n"
    then have mm: "mirrors layout ?n 0 b s" by simp
    show "agree (\<lambda>b s. mirrors layout ?n 0 b s \<and> mb_finalized b)
      (and_then (mb_write_checksums ops (cm_checksums (mb_layout b)) b) (\<lambda>b.
           if \<not> validations_pass (written_reader (mb_layout b) (mb_scalars b)) (cm_validations (mb_layout b))
           then mb_fail ES_InvalidData b else (ES_Ok, b\<lparr>mb_finalized := True\<rparr>)))
      (and_then (sb_write_checksums ops (cm_checksums (sb_layout s)) s) (\<lambda>b.
           if \<not> validations_pass (written_reader (sb_layout b) (sb_scalars b)) (cm_validations (sb_layout b))
           then sb_fail ES_InvalidData b else (ES_Ok, b\<lparr>sb_finalized := True\<rparr>)))"
      by (rule agree_then [OF chk [OF mm]]) (auto simp: mirrorsD mirrors_update(2))
  qed
  then show ?thesis
    using open_ by (simp add: mb_finalize_def sb_finalize_def D)
qed

lemma copy_spans:
  "cursor + length (concat spans) \<le> length out \<Longrightarrow>
   fold (\<lambda>span (out, cursor). (blit cursor span out, cursor + length span)) spans (out, cursor) =
   (take cursor out @ concat spans @ drop (cursor + length (concat spans)) out, cursor + length (concat spans))"
proof (induction spans arbitrary: out cursor)
  case (Cons span spans)
  then have "cursor + length span + length (concat spans) \<le> length (blit cursor span out)"
    by (simp add: span_simps)
  from Cons.IH [OF this] Cons.prems show ?case by (simp add: blit_def ac_simps)
qed simp

lemma mirrors_copy:
  assumes m: "mirrors layout k g b s" and f: "mb_finalized b" and o: "mb_offset b \<le> length out"
  shows "sb_copy_to s out = Inr (mb_view b @ drop (mb_offset b) out, mb_offset b)"
proof -
  have "concat (sb_spans s) = mb_view b"
    using m by (simp add: mirrors_def same_bytes_def mb_view_def subspan_def)
  moreover have "length (mb_view b) = mb_offset b"
    using mirrorsD(4) [OF m] by (simp add: mb_view_def span_simps)
  ultimately show ?thesis
    using copy_spans [of 0 "sb_spans s" out] o f mirrorsD(3,7) [OF m] by (simp add: sb_copy_to_def)
qed

subsection \<open>The segmented encoder refines the contiguous one\<close>

text \<open>C18: Segmented and contiguous encoding agree. Run the same setters and \<open>finalize\<close> on a
  contiguous builder and on a segmented one whose scratch buffer is at least as large, where any of the
  payloads of variable-size fields may be attached instead of copied. Unless the contiguous buffer is too
  small, both report the same status, an error included, and when they succeed \<open>copy_to\<close> writes exactly
  the bytes of the contiguous message.\<close>

theorem segmented_equals_contiguous:
  assumes "layout_wf layout" and "alignments_fit layout" and "attachable layout attach" and "vector_ops_ok ops"
    and "length buffer \<le> length scratch" and "length buffer < 2 ^ 63"
    and "and_then (mb_run ws (new_message_builder layout buffer)) (mb_finalize ops) = (status, b)"
    and "and_then (sb_run attach ws (new_segmented_builder layout scratch)) (sb_finalize ops) = (status', s)"
    and "status \<noteq> ES_BufferTooSmall"
  shows "status' = status \<and>
    (status = ES_Ok \<longrightarrow> mb_offset b \<le> length out \<longrightarrow>
       sb_copy_to s out = Inr (mb_view b @ drop (mb_offset b) out, mb_offset b))"
proof -
  have a: "sized_alignments layout" by (rule alignments_sized [OF assms(1,2)])
  let ?b0 = "new_message_builder layout buffer" and ?s0 = "new_segmented_builder layout scratch"
  have "agree (\<lambda>b s. in_step layout b s \<and> \<not> mb_finalized b) (mb_run ws ?b0) (sb_run attach ws ?s0)"
  proof -
    have "\<not> mb_finalized (snd (mb_run ws ?b0))"
      by (rule run_not_finalized [of ws ?b0 "fst (mb_run ws ?b0)"]) (simp_all add: new_message_builder_def Let_def)
    then show ?thesis
      using agree_run [OF assms(1) a assms(3) in_step_new [OF assms(1,5,6)], of ws] by (simp add: agree_def)
  qed
  then have "agree (\<lambda>b s. mirrors layout (length (cm_fields layout)) 0 b s \<and> mb_finalized b) (status, b) (status', s)"
    unfolding assms(7,8) [symmetric] by (rule agree_then) (use agree_finalize [OF assms(1) a assms(4)] in blast)
  then show ?thesis using assms(9) mirrors_copy by (auto simp: agree_def)
qed

definition wire_attach :: "field_id \<Rightarrow> bool" where
  "wire_attach i \<longleftrightarrow> i = 2"

theorem segmented_equals_contiguous_witness:
  "\<exists>b s. and_then (mb_run wire_writes (new_message_builder wire_layout (replicate 12 0))) (mb_finalize plain_ops) = (ES_Ok, b) \<and>
     and_then (sb_run wire_attach wire_writes (new_segmented_builder wire_layout (replicate 12 0))) (sb_finalize plain_ops) = (ES_Ok, s) \<and>
     sb_copy_to s (replicate 20 9) = Inr (mb_view b @ drop (mb_offset b) (replicate 20 9), mb_offset b)"
proof -
  obtain b where b: "and_then (mb_run wire_writes (new_message_builder wire_layout (replicate 12 0))) (mb_finalize plain_ops) = (ES_Ok, b)"
    using wire_encodes by (auto simp: and_then_def)
  obtain status s where s: "and_then (sb_run wire_attach wire_writes (new_segmented_builder wire_layout (replicate 12 0)))
      (sb_finalize plain_ops) = (status, s)" by fastforce
  have at: "attachable wire_layout wire_attach"
    by (simp add: attachable_def wire_attach_def wire_eval upt_rec)
  have ops: "vector_ops_ok plain_ops" by (simp add: vector_ops_ok_def plain_ops_def)
  have "mb_offset b \<le> 12"
  proof -
    obtain b1 where "mb_run wire_writes (new_message_builder wire_layout (replicate 12 0)) = (ES_Ok, b1)"
      "mb_finalize plain_ops b1 = (ES_Ok, b)" using b by (auto simp: and_then_Ok_iff)
    from mb_final [OF mb_reach_run [OF mb_new, of plain_ops wire_layout "replicate 12 0" wire_writes]] this
    have "mb_reach plain_ops wire_layout (replicate 12 0) b" by simp
    moreover have "sized_layout wire_layout (replicate 12 0)"
      using wire_layout_wf alignments_sized by (simp add: sized_layout_def)
    ultimately have "builder_ok wire_layout (replicate 12 0) b" by (rule mb_reach_ok)
    then show ?thesis by (simp add: builder_ok_def in_buffer_def)
  qed
  with segmented_equals_contiguous [OF wire_layout_wf at ops _ _ b s, of "replicate 20 9"] b s show ?thesis by auto
qed

end
