(* ===== verification/Framing.thy ===== *)
theory Framing
  imports Byte_Ops
begin

text \<open>
  The framers of \<open>framing/\<close>. A framer looks at the readable bytes of a stream and reports a frame, a
  need for more data, or an invalid stream. The locale \<open>framer\<close> is the contract of \<open>IFramer\<close> its callers
  rely on: a verdict other than "more data" is final, and a frame lies in the bytes it consumes.
\<close>

subsection \<open>\<open>FrameStatus\<close> and \<open>FrameSlice\<close>\<close>

datatype frame_status = FS_Ready | FS_NeedMoreData | FS_InvalidFrame

fun frame_status_to_string :: "frame_status \<Rightarrow> string" where
  "frame_status_to_string FS_Ready = ''ready''"
| "frame_status_to_string FS_NeedMoreData = ''need_more_data''"
| "frame_status_to_string FS_InvalidFrame = ''invalid_frame''"

record frame_slice =
  fs_offset :: nat
  fs_size :: nat
  fs_bytes_consumed :: nat

definition empty_slice :: frame_slice where
  "empty_slice = \<lparr>fs_offset = 0, fs_size = 0, fs_bytes_consumed = 0\<rparr>"

text \<open>The result of \<open>try_frame\<close>: the status and the slice, which is only stored with \<open>FS_Ready\<close>.\<close>

type_synonym framer_fun = "bytes \<Rightarrow> frame_status \<times> frame_slice"

subsection \<open>\<open>FixedSizeFramer\<close>\<close>

definition fixed_size_try_frame :: "nat \<Rightarrow> framer_fun" where
  "fixed_size_try_frame frame_size readable_bytes =
     (if frame_size = 0 then (FS_InvalidFrame, empty_slice)
      else if length readable_bytes < frame_size then (FS_NeedMoreData, empty_slice)
      else (FS_Ready, \<lparr>fs_offset = 0, fs_size = frame_size, fs_bytes_consumed = frame_size\<rparr>))"

subsection \<open>\<open>LengthPrefixedFramer\<close>\<close>

record length_prefixed_options =
  lp_prefix_width_bytes :: nat
  lp_byte_order :: byte_order
  lp_include_prefix_in_payload :: bool
  lp_max_payload_size :: nat

definition default_length_prefixed_options :: length_prefixed_options where
  "default_length_prefixed_options =
     \<lparr>lp_prefix_width_bytes = 2, lp_byte_order = LittleEndian, lp_include_prefix_in_payload = False,
      lp_max_payload_size = 1024 * 1024\<rparr>"

definition read_prefix :: "bytes \<Rightarrow> byte_order \<Rightarrow> u64 option" where
  "read_prefix bs bo =
     (if length bs > 8 then None
      else case bo of
        LittleEndian \<Rightarrow> Some (read_le_loop 0 0 bs)
      | BigEndian \<Rightarrow> Some (read_be_loop 0 bs))"

definition length_prefixed_try_frame :: "length_prefixed_options \<Rightarrow> framer_fun" where
  "length_prefixed_try_frame opts readable_bytes =
     (let width = lp_prefix_width_bytes opts in
      if width \<noteq> 1 \<and> width \<noteq> 2 \<and> width \<noteq> 4 then (FS_InvalidFrame, empty_slice)
      else if length readable_bytes < width then (FS_NeedMoreData, empty_slice)
      else
        (case read_prefix (take width readable_bytes) (lp_byte_order opts) of
           None \<Rightarrow> (FS_InvalidFrame, empty_slice)
         | Some payload_size \<Rightarrow>
             if unat payload_size > lp_max_payload_size opts then (FS_InvalidFrame, empty_slice)
             else
               let total_size = wrap_size (width + unat payload_size) in
               if length readable_bytes < total_size then (FS_NeedMoreData, empty_slice)
               else (FS_Ready,
                 \<lparr>fs_offset = (if lp_include_prefix_in_payload opts then 0 else width),
                  fs_size = (if lp_include_prefix_in_payload opts then total_size else unat payload_size),
                  fs_bytes_consumed = total_size\<rparr>)))"

subsection \<open>The contract of a framer\<close>

definition frame_bytes :: "bytes \<Rightarrow> frame_slice \<Rightarrow> bytes" where
  "frame_bytes readable sl = subspan (fs_offset sl) (fs_size sl) readable"

locale framer =
  fixes try_frame :: framer_fun
  assumes verdict_final: "fst (try_frame xs) \<noteq> FS_NeedMoreData \<Longrightarrow> try_frame (xs @ ys) = try_frame xs"
    and slice_inside: "try_frame xs = (FS_Ready, sl) \<Longrightarrow>
      0 < fs_bytes_consumed sl \<and> fs_offset sl + fs_size sl \<le> fs_bytes_consumed sl \<and>
      fs_bytes_consumed sl \<le> length xs"
begin

lemma need_more_prefix: "fst (try_frame (xs @ ys)) = FS_NeedMoreData \<Longrightarrow> fst (try_frame xs) = FS_NeedMoreData"
  by (rule ccontr) (simp add: verdict_final)

lemma frame_bytes_append: "try_frame xs = (FS_Ready, sl) \<Longrightarrow> frame_bytes (xs @ ys) sl = frame_bytes xs sl"
  using slice_inside [of xs sl] by (simp add: frame_bytes_def subspan_append_left)

end

text \<open>
  The frames of a complete byte stream, each with the number of bytes it consumes, and the bytes
  after the last frame. A framer that consumes nothing ends the list.
\<close>

function stream_frames :: "framer_fun \<Rightarrow> bytes \<Rightarrow> (bytes \<times> nat) list" where
  "stream_frames try_frame xs =
     (case try_frame xs of
        (FS_Ready, sl) \<Rightarrow>
          if xs = [] \<or> fs_bytes_consumed sl = 0 then []
          else (frame_bytes xs sl, fs_bytes_consumed sl) #
            stream_frames try_frame (drop (fs_bytes_consumed sl) xs)
      | _ \<Rightarrow> [])"
  by pat_completeness auto
termination by (relation "measure (length \<circ> snd)") auto

definition stream_rest :: "framer_fun \<Rightarrow> bytes \<Rightarrow> bytes" where
  "stream_rest try_frame xs = drop (sum_list (map snd (stream_frames try_frame xs))) xs"

declare stream_frames.simps [simp del]

context framer
begin

lemma stream_frames_ready:
  "try_frame xs = (FS_Ready, sl) \<Longrightarrow>
     stream_frames try_frame xs =
       (frame_bytes xs sl, fs_bytes_consumed sl) # stream_frames try_frame (drop (fs_bytes_consumed sl) xs)"
  using slice_inside [of xs sl] by (subst stream_frames.simps) auto

lemma stream_frames_none: "fst (try_frame xs) \<noteq> FS_Ready \<Longrightarrow> stream_frames try_frame xs = []"
  by (subst stream_frames.simps) (auto split: prod.splits frame_status.splits)

lemma stream_rest_ready:
  "try_frame xs = (FS_Ready, sl) \<Longrightarrow>
     stream_rest try_frame xs = stream_rest try_frame (drop (fs_bytes_consumed sl) xs)"
  by (simp add: stream_rest_def stream_frames_ready add.commute)

lemma stream_rest_none: "fst (try_frame xs) \<noteq> FS_Ready \<Longrightarrow> stream_rest try_frame xs = xs"
  by (simp add: stream_rest_def stream_frames_none)

lemma not_ready_Nil: "fst (try_frame []) \<noteq> FS_Ready"
  using slice_inside [of "[]" "snd (try_frame [])"] by (cases "try_frame []") auto

text \<open>A frame found in a prefix of the stream is the first frame of the stream.\<close>

lemma ready_prefix:
  "try_frame xs = (FS_Ready, sl) \<Longrightarrow>
     try_frame (xs @ ys) = (FS_Ready, sl) \<and> frame_bytes (xs @ ys) sl = frame_bytes xs sl \<and>
     drop (fs_bytes_consumed sl) (xs @ ys) = drop (fs_bytes_consumed sl) xs @ ys"
  using verdict_final [of xs ys] slice_inside [of xs sl] by (simp add: frame_bytes_append)

end

text \<open>A frame is recognised as soon as the bytes it consumes are there.\<close>

locale prompt_framer = framer +
  assumes recognised: "try_frame xs = (FS_Ready, sl) \<Longrightarrow> try_frame (take (fs_bytes_consumed sl) xs) = (FS_Ready, sl)"
begin

lemma need_more_short:
  assumes "try_frame (xs @ ys) = (FS_Ready, sl)" and "fst (try_frame xs) \<noteq> FS_Ready"
  shows "length xs < fs_bytes_consumed sl"
proof (rule ccontr)
  assume "\<not> ?thesis"
  then have "take (fs_bytes_consumed sl) (xs @ ys) = take (fs_bytes_consumed sl) xs" by simp
  then have "try_frame (take (fs_bytes_consumed sl) xs) = (FS_Ready, sl)"
    using recognised [OF assms(1)] by (simp only:)
  from ready_prefix [OF this, of "drop (fs_bytes_consumed sl) xs"] show False using assms(2) by simp
qed

lemma rest_not_ready: "fst (try_frame (stream_rest try_frame xs)) \<noteq> FS_Ready"
proof (induction "length xs" arbitrary: xs rule: less_induct)
  case less
  show ?case
  proof (cases "fst (try_frame xs) = FS_Ready")
    case True
    then obtain sl where tf: "try_frame xs = (FS_Ready, sl)" by (cases "try_frame xs") auto
    have "length (drop (fs_bytes_consumed sl) xs) < length xs" using slice_inside [OF tf] by simp linarith
    from less [OF this] show ?thesis by (simp add: stream_rest_ready [OF tf])
  qed (simp add: stream_rest_none)
qed

end

lemma read_prefix_some: "length bs \<le> 8 \<Longrightarrow> read_prefix bs bo = Some (read_unsigned_scalar_unchecked bo bs)"
  by (cases bo) (simp_all add: read_prefix_def read_unsigned_scalar_unchecked_def)

interpretation fixed_size: prompt_framer "fixed_size_try_frame n"
proof
  fix xs ys :: bytes
  assume "fst (fixed_size_try_frame n xs) \<noteq> FS_NeedMoreData"
  then show "fixed_size_try_frame n (xs @ ys) = fixed_size_try_frame n xs"
    by (auto simp: fixed_size_try_frame_def split: if_splits)
next
  fix xs sl
  assume "fixed_size_try_frame n xs = (FS_Ready, sl)"
  then show "0 < fs_bytes_consumed sl \<and> fs_offset sl + fs_size sl \<le> fs_bytes_consumed sl \<and>
      fs_bytes_consumed sl \<le> length xs"
    by (auto simp: fixed_size_try_frame_def split: if_splits)
  show "fixed_size_try_frame n (take (fs_bytes_consumed sl) xs) = (FS_Ready, sl)"
    using \<open>fixed_size_try_frame n xs = (FS_Ready, sl)\<close>
    by (auto simp: fixed_size_try_frame_def split: if_splits)
qed

lemma length_prefixed_width:
  assumes "fst (length_prefixed_try_frame opts xs) \<noteq> FS_InvalidFrame"
  shows "lp_prefix_width_bytes opts \<in> {1, 2, 4}"
  using assms by (auto simp: length_prefixed_try_frame_def Let_def split: if_splits)

text \<open>The prefix has at most four bytes, so the sum of its width and its value does not wrap.\<close>

lemma prefix_no_wrap:
  assumes "length bs \<le> 4"
  shows "wrap_size (length bs + unat (read_unsigned_scalar_unchecked bo bs)) =
    length bs + unat (read_unsigned_scalar_unchecked bo bs)"
proof -
  have "unat (read_unsigned_scalar_unchecked bo bs) < 2 ^ (8 * length bs)"
    by (rule read_unsigned_scalar_bound) (use assms in simp)
  also have "(2::nat) ^ (8 * length bs) \<le> 2 ^ (8 * 4)"
    by (rule power_increasing) (use assms in simp_all)
  finally have "length bs + unat (read_unsigned_scalar_unchecked bo bs) < 4 + 2 ^ 32 + 1"
    using assms by simp
  then show ?thesis by (intro wrap_size_id) simp
qed

lemma length_prefixed_bad_width:
  "lp_prefix_width_bytes opts \<notin> {1, 2, 4} \<Longrightarrow>
     length_prefixed_try_frame opts xs = (FS_InvalidFrame, empty_slice)"
  by (simp add: length_prefixed_try_frame_def)

lemma length_prefixed_short:
  "lp_prefix_width_bytes opts \<in> {1, 2, 4} \<Longrightarrow> length xs < lp_prefix_width_bytes opts \<Longrightarrow>
     length_prefixed_try_frame opts xs = (FS_NeedMoreData, empty_slice)"
  by (auto simp: length_prefixed_try_frame_def)

lemma length_prefixed_step:
  assumes w: "w = lp_prefix_width_bytes opts" "w \<in> {1, 2, 4}" and long: "w \<le> length xs"
    and n: "n = unat (read_unsigned_scalar_unchecked (lp_byte_order opts) (take w xs))"
  shows "length_prefixed_try_frame opts xs =
    (if n > lp_max_payload_size opts then (FS_InvalidFrame, empty_slice)
     else if length xs < w + n then (FS_NeedMoreData, empty_slice)
     else (FS_Ready,
       \<lparr>fs_offset = (if lp_include_prefix_in_payload opts then 0 else w),
        fs_size = (if lp_include_prefix_in_payload opts then w + n else n), fs_bytes_consumed = w + n\<rparr>))"
proof -
  have len: "length (take w xs) = w" "length (take w xs) \<le> 4" using w long by auto
  have wrap: "wrap_size (w + n) = w + n"
    using prefix_no_wrap [OF len(2)] len(1) unfolding n by simp
  have read: "read_prefix (take w xs) (lp_byte_order opts) =
      Some (read_unsigned_scalar_unchecked (lp_byte_order opts) (take w xs))"
    by (rule read_prefix_some) (use len in simp)
  have ok: "(w \<noteq> 1 \<and> w \<noteq> 2 \<and> w \<noteq> 4) = False" "(length xs < w) = False" using w long by auto
  show ?thesis
    by (simp only: length_prefixed_try_frame_def Let_def w(1) [symmetric] ok if_False read option.case n [symmetric] wrap)
qed

lemma length_prefixed_cases:
  obtains (bad) "lp_prefix_width_bytes opts \<notin> {1, 2, 4}"
  | (short) "lp_prefix_width_bytes opts \<in> {1, 2, 4}" "length xs < lp_prefix_width_bytes opts"
  | (long) "lp_prefix_width_bytes opts \<in> {1, 2, 4}" "lp_prefix_width_bytes opts \<le> length xs"
  by (cases "lp_prefix_width_bytes opts \<in> {1, 2, 4}"; cases "length xs < lp_prefix_width_bytes opts") auto

interpretation length_prefixed: prompt_framer "length_prefixed_try_frame opts"
proof
  fix xs ys :: bytes
  assume verdict: "fst (length_prefixed_try_frame opts xs) \<noteq> FS_NeedMoreData"
  show "length_prefixed_try_frame opts (xs @ ys) = length_prefixed_try_frame opts xs"
  proof (cases rule: length_prefixed_cases [where opts = opts and xs = xs])
    case bad
    then show ?thesis using length_prefixed_bad_width [OF bad] by simp
  next
    case short
    then show ?thesis using verdict length_prefixed_short [OF short] by simp
  next
    case long
    let ?w = "lp_prefix_width_bytes opts"
    have same: "take ?w (xs @ ys) = take ?w xs" "?w \<le> length (xs @ ys)" using long by simp_all
    show ?thesis
      using verdict length_prefixed_step [OF refl long refl]
        length_prefixed_step [OF refl long(1) same(2) refl, unfolded same(1)]
      by (simp split: if_splits)
  qed
next
  fix xs sl
  assume ready: "length_prefixed_try_frame opts xs = (FS_Ready, sl)"
  show "0 < fs_bytes_consumed sl \<and> fs_offset sl + fs_size sl \<le> fs_bytes_consumed sl \<and>
      fs_bytes_consumed sl \<le> length xs"
  proof (cases rule: length_prefixed_cases [where opts = opts and xs = xs])
    case bad
    then show ?thesis using ready length_prefixed_bad_width [OF bad] by simp
  next
    case short
    then show ?thesis using ready length_prefixed_short [OF short] by simp
  next
    case long
    have "0 < lp_prefix_width_bytes opts" using long(1) by auto
    then show ?thesis
      using ready length_prefixed_step [OF refl long refl] by (auto split: if_splits)
  qed
  show "length_prefixed_try_frame opts (take (fs_bytes_consumed sl) xs) = (FS_Ready, sl)"
  proof (cases rule: length_prefixed_cases [where opts = opts and xs = xs])
    case bad
    then show ?thesis using ready length_prefixed_bad_width [OF bad] by simp
  next
    case short
    then show ?thesis using ready length_prefixed_short [OF short] by simp
  next
    case long
    let ?w = "lp_prefix_width_bytes opts"
    let ?n = "unat (read_unsigned_scalar_unchecked (lp_byte_order opts) (take ?w xs))"
    have c: "fs_bytes_consumed sl = ?w + ?n" "?w + ?n \<le> length xs"
      using ready length_prefixed_step [OF refl long refl] by (auto split: if_splits)
    have same: "take ?w (take (?w + ?n) xs) = take ?w xs" "?w \<le> length (take (?w + ?n) xs)"
      using c(2) by (simp_all add: min_def)
    show ?thesis
      using ready length_prefixed_step [OF refl long refl]
        length_prefixed_step [OF refl long(1) same(2) refl, unfolded same(1)] c
      by (simp split: if_splits)
  qed
qed

end
