(* ===== verification/Ring_Buffer.thy ===== *)
theory Ring_Buffer
  imports Prelude
begin

text \<open>
  \<open>ByteRingBuffer<Capacity>\<close> of \<open>runtime/byte_ring_buffer.hpp\<close>. One slot of the storage stays
  free, so that equal indices mean an empty buffer. The abstract value of a ring is the list of its readable bytes
  (\<open>ring_content\<close>); the locale \<open>byte_fifo\<close> states the queue its client uses, and the ring is shown
  to be one.

  A writable span is the pair of its offset in the storage and its size; writing through it is
  \<open>ring_store\<close>. The assertions of \<open>commit_write\<close> and \<open>consume\<close>, which a release build does not
  check, are hypotheses of the lemmas.
\<close>

subsection \<open>The ring and its operations\<close>

record ring =
  rb_head :: nat
  rb_tail :: nat
  rb_storage :: bytes

definition new_ring :: "nat \<Rightarrow> ring" where
  "new_ring cap = \<lparr>rb_head = 0, rb_tail = 0, rb_storage = replicate cap 0\<rparr>"

definition ring_capacity :: "nat \<Rightarrow> nat" where
  "ring_capacity cap = cap - 1"

definition ring_size :: "nat \<Rightarrow> ring \<Rightarrow> nat" where
  "ring_size cap r =
     (if rb_tail r \<ge> rb_head r then rb_tail r - rb_head r else cap - rb_head r + rb_tail r)"

definition ring_free_space :: "nat \<Rightarrow> ring \<Rightarrow> nat" where
  "ring_free_space cap r = ring_capacity cap - ring_size cap r"

definition ring_empty :: "nat \<Rightarrow> ring \<Rightarrow> bool" where
  "ring_empty cap r \<longleftrightarrow> ring_size cap r = 0"

definition has_wrapped_readable_data :: "nat \<Rightarrow> ring \<Rightarrow> bool" where
  "has_wrapped_readable_data cap r \<longleftrightarrow> \<not> ring_empty cap r \<and> rb_tail r \<le> rb_head r"

definition writable_span :: "nat \<Rightarrow> ring \<Rightarrow> nat \<times> nat" where
  "writable_span cap r =
     (if ring_free_space cap r = 0 then (0, 0)
      else if rb_tail r \<ge> rb_head r then
        let limit = (if rb_head r = 0 then cap - 1 else cap) in
        (rb_tail r, min (limit - rb_tail r) (ring_free_space cap r))
      else (rb_tail r, rb_head r - rb_tail r - 1))"

definition commit_write :: "nat \<Rightarrow> nat \<Rightarrow> ring \<Rightarrow> ring" where
  "commit_write cap bytes_written r = r\<lparr>rb_tail := (rb_tail r + bytes_written) mod cap\<rparr>"

definition readable_span :: "nat \<Rightarrow> ring \<Rightarrow> bytes" where
  "readable_span cap r =
     (if ring_empty cap r then []
      else if rb_tail r > rb_head r then subspan (rb_head r) (rb_tail r - rb_head r) (rb_storage r)
      else subspan (rb_head r) (cap - rb_head r) (rb_storage r))"

definition ring_consume :: "nat \<Rightarrow> nat \<Rightarrow> ring \<Rightarrow> ring" where
  "ring_consume cap bytes_consumed r = r\<lparr>rb_head := (rb_head r + bytes_consumed) mod cap\<rparr>"

text \<open>The number of bytes copied and the destination after the copies.\<close>

definition linearize :: "nat \<Rightarrow> ring \<Rightarrow> bytes \<Rightarrow> nat \<times> bytes" where
  "linearize cap r destination =
     (let bytes_to_copy = min (ring_size cap r) (length destination);
          first = readable_span cap r;
          first_copy = min bytes_to_copy (length first);
          destination = blit 0 (take first_copy first) destination in
      if first_copy = bytes_to_copy then (bytes_to_copy, destination)
      else
        let second_copy = bytes_to_copy - first_copy in
        (bytes_to_copy, blit first_copy (take second_copy (rb_storage r)) destination))"

text \<open>The bytes another object stores through a writable span that starts at \<open>off\<close>.\<close>

definition ring_store :: "nat \<Rightarrow> bytes \<Rightarrow> ring \<Rightarrow> ring" where
  "ring_store off bs r = r\<lparr>rb_storage := blit off bs (rb_storage r)\<rparr>"

subsection \<open>Invariant and abstract value\<close>

definition ring_ok :: "nat \<Rightarrow> ring \<Rightarrow> bool" where
  "ring_ok cap r \<longleftrightarrow> 1 < cap \<and> length (rb_storage r) = cap \<and> rb_head r < cap \<and> rb_tail r < cap"

definition ring_content :: "ring \<Rightarrow> bytes" where
  "ring_content r =
     (if rb_head r \<le> rb_tail r then subspan (rb_head r) (rb_tail r - rb_head r) (rb_storage r)
      else drop (rb_head r) (rb_storage r) @ take (rb_tail r) (rb_storage r))"

lemma new_ring_ok: "1 < cap \<Longrightarrow> ring_ok cap (new_ring cap)"
  by (simp add: ring_ok_def new_ring_def)

lemma new_ring_content [simp]: "ring_content (new_ring cap) = []"
  by (simp add: ring_content_def new_ring_def)

lemma ring_size_content: "ring_ok cap r \<Longrightarrow> ring_size cap r = length (ring_content r)"
  by (auto simp: ring_ok_def ring_size_def ring_content_def length_subspan)

lemma ring_content_less: "ring_ok cap r \<Longrightarrow> length (ring_content r) < cap"
  by (auto simp: ring_ok_def ring_content_def length_subspan)

lemma ring_empty_content: "ring_ok cap r \<Longrightarrow> ring_empty cap r \<longleftrightarrow> ring_content r = []"
  by (simp add: ring_empty_def ring_size_content)

lemma ring_free_content: "ring_ok cap r \<Longrightarrow> ring_free_space cap r = cap - 1 - length (ring_content r)"
  by (simp add: ring_free_space_def ring_capacity_def ring_size_content)

subsection \<open>What the operations do to the content\<close>

text \<open>The region the next write may fill.\<close>

lemma writable_span_region:
  assumes "ring_ok cap r" and "writable_span cap r = (off, n)"
  shows "length (ring_content r) + n \<le> cap - 1"
    and "n = 0 \<longleftrightarrow> length (ring_content r) = cap - 1"
    and "0 < n \<Longrightarrow> off = rb_tail r"
    and "0 < n \<Longrightarrow> rb_tail r + n \<le> cap"
    and "0 < n \<Longrightarrow> rb_tail r < rb_head r \<Longrightarrow> rb_tail r + n < rb_head r"
    and "0 < n \<Longrightarrow> rb_head r = 0 \<Longrightarrow> rb_tail r + n < cap"
  using assms
  by (auto simp: ring_ok_def writable_span_def ring_free_space_def ring_capacity_def ring_size_def
      ring_content_def length_subspan Let_def split: if_splits)

lemma ring_store_content:
  assumes ok: "ring_ok cap r" and w: "writable_span cap r = (off, n)" and len: "length bs = n"
  shows "ring_ok cap (ring_store off bs r)"
    and "ring_content (ring_store off bs r) = ring_content r"
proof -
  have "n = 0 \<longrightarrow> off = 0 \<or> off = rb_tail r"
    using w by (auto simp: writable_span_def Let_def split: if_splits)
  then have nil: "n = 0 \<longrightarrow> ring_store off bs r = r"
    using len ok by (auto simp: ring_store_def ring_ok_def)
  note region = writable_span_region [OF ok w]
  show "ring_ok cap (ring_store off bs r)"
    using ok region nil len by (cases "n = 0") (auto simp: ring_ok_def ring_store_def length_blit)
  show "ring_content (ring_store off bs r) = ring_content r"
  proof (cases "n = 0")
    case False
    then have off: "off = rb_tail r" and "rb_tail r + n \<le> cap"
      and "rb_tail r < rb_head r \<longrightarrow> rb_tail r + n < rb_head r" using region by auto
    then show ?thesis using ok len
      by (auto simp: ring_content_def ring_store_def ring_ok_def blit_def subspan_def drop_take)
  qed (use nil in simp)
qed

lemma commit_write_content:
  assumes ok: "ring_ok cap r" and w: "writable_span cap r = (off, n)" and len: "length bs = n" and k: "k \<le> n"
  shows "ring_ok cap (commit_write cap k (ring_store off bs r))"
    and "ring_content (commit_write cap k (ring_store off bs r)) = ring_content r @ take k bs"
proof -
  note region = writable_span_region [OF ok w]
  note stored = ring_store_content [OF ok w len]
  show "ring_ok cap (commit_write cap k (ring_store off bs r))"
    using stored(1) by (simp add: ring_ok_def commit_write_def)
  show "ring_content (commit_write cap k (ring_store off bs r)) = ring_content r @ take k bs"
  proof (cases "k = 0")
    case True
    have "commit_write cap 0 (ring_store off bs r) = ring_store off bs r"
      using stored(1) by (simp add: commit_write_def ring_ok_def)
    then show ?thesis using True stored(2) by simp
  next
    case False
    then have n: "0 < n" using k by simp
    have off: "off = rb_tail r" "rb_tail r + n \<le> cap" using region n by auto
    have st: "length (rb_storage r) = cap" "rb_head r < cap" "rb_tail r < cap" "1 < cap"
      using ok by (auto simp: ring_ok_def)
    consider (split) "rb_tail r < rb_head r" | (end_) "rb_head r \<le> rb_tail r" "rb_tail r + k = cap"
      | (inner) "rb_head r \<le> rb_tail r" "rb_tail r + k < cap"
      using off k by linarith
    then show ?thesis
    proof cases
      case split
      then have "rb_tail r + n < rb_head r" using region(5) n by auto
      moreover from this have "rb_tail r + k < rb_head r" "rb_head r - (rb_tail r + n) + (rb_tail r + n) = rb_head r"
        using k by simp_all
      ultimately show ?thesis using split st off len k
        by (simp add: ring_content_def ring_store_def commit_write_def blit_def)
    next
      case end_
      then have "0 < rb_head r" "k = n" using region(6) n k off by (cases "rb_head r", auto)
      then show ?thesis using end_ st off len
        by (simp add: ring_content_def ring_store_def commit_write_def blit_def subspan_def drop_take)
    next
      case inner
      have "rb_tail r + k - rb_head r - (rb_tail r - rb_head r) = k" using inner by simp
      then show ?thesis using inner st off len k
        by (simp add: ring_content_def ring_store_def commit_write_def blit_def subspan_def drop_take)
    qed
  qed
qed

lemma ring_consume_content:
  assumes ok: "ring_ok cap r" and n: "n \<le> length (ring_content r)"
  shows "ring_ok cap (ring_consume cap n r)"
    and "ring_content (ring_consume cap n r) = drop n (ring_content r)"
proof -
  have st: "length (rb_storage r) = cap" "rb_head r < cap" "rb_tail r < cap" "1 < cap"
    using ok by (auto simp: ring_ok_def)
  show "ring_ok cap (ring_consume cap n r)" using ok by (simp add: ring_ok_def ring_consume_def)
  consider (straight) "rb_head r \<le> rb_tail r" | (split) "rb_tail r < rb_head r" "rb_head r + n < cap"
    | (turned) "rb_tail r < rb_head r" "cap \<le> rb_head r + n" by linarith
  then show "ring_content (ring_consume cap n r) = drop n (ring_content r)"
  proof cases
    case straight
    then have "rb_head r + n \<le> rb_tail r" using n st by (simp add: ring_content_def length_subspan)
    then show ?thesis using straight st
      by (simp add: ring_content_def ring_consume_def subspan_def drop_take add.commute)
  next
    case split
    then show ?thesis using st
      by (simp add: ring_content_def ring_consume_def add.commute)
  next
    case turned
    then have lim: "rb_head r + n - cap \<le> rb_tail r" using n st by (simp add: ring_content_def)
    have "(rb_head r + n) mod cap = rb_head r + n - cap"
      using turned lim st by (simp add: mod_if)
    moreover have "n - (cap - rb_head r) = rb_head r + n - cap" using turned st by simp
    ultimately show ?thesis using turned lim st
      by (simp add: ring_content_def ring_consume_def subspan_def drop_take)
  qed
qed

lemma readable_span_content:
  assumes "ring_ok cap r"
  shows "readable_span cap r = (if has_wrapped_readable_data cap r then drop (rb_head r) (rb_storage r) else ring_content r)"
    and "\<exists>ys. ring_content r = readable_span cap r @ ys"
  using assms
  by (auto simp: readable_span_def has_wrapped_readable_data_def ring_empty_content ring_content_def ring_ok_def
      subspan_def split: if_splits)

lemma take_two_copies:
  "length xs + length ys \<le> length d \<Longrightarrow>
     take (length xs + length ys) (blit (length xs) ys (blit 0 xs d)) = xs @ ys"
  by (simp add: blit_def)

lemma linearize_content:
  assumes ok: "ring_ok cap r" and room: "length (ring_content r) \<le> length d"
  shows "fst (linearize cap r d) = length (ring_content r)"
    and "length (snd (linearize cap r d)) = length d"
    and "take (length (ring_content r)) (snd (linearize cap r d)) = ring_content r"
proof -
  let ?n = "length (ring_content r)" and ?first = "readable_span cap r"
  obtain ys where ys: "ring_content r = ?first @ ys" using readable_span_content(2) [OF ok] by blast
  have min: "min (ring_size cap r) (length d) = ?n" "min ?n (length ?first) = length ?first"
    using room ys by (simp_all add: ring_size_content [OF ok])
  have second: "length ?first \<noteq> ?n \<Longrightarrow> ys = take (?n - length ?first) (rb_storage r)"
  proof -
    assume "length ?first \<noteq> ?n"
    then have w: "has_wrapped_readable_data cap r" using readable_span_content(1) [OF ok] by (auto split: if_splits)
    then have "rb_tail r < rb_head r" using ok
      by (auto simp: has_wrapped_readable_data_def ring_empty_def ring_size_def le_less)
    then have "take (rb_tail r) (rb_storage r) = ys" using ys w readable_span_content(1) [OF ok] ok
      by (simp add: ring_content_def ring_ok_def)
    then show ?thesis using ys ok \<open>rb_tail r < rb_head r\<close> by (auto simp: ring_ok_def)
  qed
  have lin: "linearize cap r d = (if length ?first = ?n then (?n, blit 0 ?first d)
      else (?n, blit (length ?first) ys (blit 0 ?first d)))"
    using second by (simp add: linearize_def Let_def min)
  have len: "length ?first + length ys = ?n" using ys by simp
  show "fst (linearize cap r d) = ?n" by (simp add: lin)
  show "length (snd (linearize cap r d)) = length d"
    using room len by (simp add: lin length_blit)
  show "take ?n (snd (linearize cap r d)) = ring_content r"
  proof (cases "length ?first = ?n")
    case True
    then have "ys = []" using len by simp
    then have "ring_content r = ?first" using ys by simp
    then show ?thesis by (simp add: lin blit_def)
  next
    case False
    have "take (length ?first + length ys) (blit (length ?first) ys (blit 0 ?first d)) = ?first @ ys"
      by (rule take_two_copies) (use room len in simp)
    then show ?thesis using False by (simp only: lin if_False snd_conv len ys [symmetric])
  qed
qed

subsection \<open>The queue a client of the ring uses\<close>

locale byte_fifo =
  fixes valid :: "'r \<Rightarrow> bool"
    and content :: "'r \<Rightarrow> bytes"
    and room :: nat
    and writable :: "'r \<Rightarrow> nat \<times> nat"
    and store :: "nat \<Rightarrow> bytes \<Rightarrow> 'r \<Rightarrow> 'r"
    and commit :: "nat \<Rightarrow> 'r \<Rightarrow> 'r"
    and readable :: "'r \<Rightarrow> bytes"
    and wrapped :: "'r \<Rightarrow> bool"
    and discard :: "nat \<Rightarrow> 'r \<Rightarrow> 'r"
    and copy_out :: "'r \<Rightarrow> bytes \<Rightarrow> nat \<times> bytes"
  assumes fits: "valid r \<Longrightarrow> length (content r) \<le> room"
    and writable_fits: "valid r \<Longrightarrow> writable r = (off, n) \<Longrightarrow> length (content r) + n \<le> room"
    and writable_full: "valid r \<Longrightarrow> writable r = (off, 0) \<Longrightarrow> length (content r) = room"
    and store_law: "valid r \<Longrightarrow> writable r = (off, length bs) \<Longrightarrow>
      valid (store off bs r) \<and> content (store off bs r) = content r"
    and commit_law: "valid r \<Longrightarrow> writable r = (off, length bs) \<Longrightarrow> k \<le> length bs \<Longrightarrow>
      valid (commit k (store off bs r)) \<and> content (commit k (store off bs r)) = content r @ take k bs"
    and readable_prefix: "valid r \<Longrightarrow> \<exists>ys. content r = readable r @ ys"
    and readable_all: "valid r \<Longrightarrow> \<not> wrapped r \<Longrightarrow> readable r = content r"
    and discard_law: "valid r \<Longrightarrow> n \<le> length (content r) \<Longrightarrow>
      valid (discard n r) \<and> content (discard n r) = drop n (content r)"
    and copy_out_law: "valid r \<Longrightarrow> length (content r) \<le> length d \<Longrightarrow>
      fst (copy_out r d) = length (content r) \<and> length (snd (copy_out r d)) = length d \<and>
      take (length (content r)) (snd (copy_out r d)) = content r"
begin

text \<open>Writing and then reading back: the bytes come out in the order they went in.\<close>

lemma write_then_copy:
  assumes r: "valid r" and w: "writable r = (off, length bs)" and k: "k \<le> length bs" and d: "room \<le> length d"
  shows "take (length (content r) + k) (snd (copy_out (commit k (store off bs r)) d)) = content r @ take k bs"
proof -
  note c = commit_law [OF r w k]
  have "length (content (commit k (store off bs r))) \<le> length d" using fits c d by fastforce
  then show ?thesis using copy_out_law [of "commit k (store off bs r)" d] c k by simp
qed

lemma discard_after_write:
  assumes r: "valid r" and w: "writable r = (off, length bs)" and k: "k \<le> length bs"
  shows "content (discard (length (content r)) (commit k (store off bs r))) = take k bs"
  using commit_law [OF r w k] discard_law [of "commit k (store off bs r)" "length (content r)"] by simp

end

interpretation ring_fifo: byte_fifo "ring_ok cap" ring_content "cap - 1" "writable_span cap" ring_store
    "commit_write cap" "readable_span cap" "has_wrapped_readable_data cap" "ring_consume cap" "linearize cap"
proof
  fix r assume ok: "ring_ok cap r"
  show "length (ring_content r) \<le> cap - 1" using ring_content_less [OF ok] by simp
  show "\<exists>ys. ring_content r = readable_span cap r @ ys" by (rule readable_span_content(2) [OF ok])
  show "\<not> has_wrapped_readable_data cap r \<Longrightarrow> readable_span cap r = ring_content r"
    using readable_span_content(1) [OF ok] by simp
  fix off
  show "writable_span cap r = (off, 0) \<Longrightarrow> length (ring_content r) = cap - 1"
    using writable_span_region(2) [OF ok] by blast
  fix n
  show "writable_span cap r = (off, n) \<Longrightarrow> length (ring_content r) + n \<le> cap - 1"
    using writable_span_region(1) [OF ok] by blast
  show "n \<le> length (ring_content r) \<Longrightarrow>
      ring_ok cap (ring_consume cap n r) \<and> ring_content (ring_consume cap n r) = drop n (ring_content r)"
    using ring_consume_content [OF ok] by blast
  fix bs
  show "writable_span cap r = (off, length bs) \<Longrightarrow>
      ring_ok cap (ring_store off bs r) \<and> ring_content (ring_store off bs r) = ring_content r"
    using ring_store_content [OF ok _ refl] by blast
  fix k
  show "writable_span cap r = (off, length bs) \<Longrightarrow> k \<le> length bs \<Longrightarrow>
      ring_ok cap (commit_write cap k (ring_store off bs r)) \<and>
      ring_content (commit_write cap k (ring_store off bs r)) = ring_content r @ take k bs"
    using commit_write_content [OF ok _ refl] by blast
  fix d
  show "length (ring_content r) \<le> length d \<Longrightarrow>
      fst (linearize cap r d) = length (ring_content r) \<and> length (snd (linearize cap r d)) = length d \<and>
      take (length (ring_content r)) (snd (linearize cap r d)) = ring_content r"
    using linearize_content [OF ok] by blast
qed

end
