(* ===== verification/Stream_Runtime.thy ===== *)
theory Stream_Runtime
  imports Framing Ring_Buffer Message_Access
begin

text \<open>
  The transport interface of \<open>transport/transport.hpp\<close>, the in-memory \<open>SpanTransport\<close>, and the polling
  loop of \<open>runtime/stream_runtime.hpp\<close> that couples a transport, a framer and a decoder.

  A transport is its state and its \<open>read\<close> function, which gets the destination span and returns
  the result, the span after the call and the new state. The locale \<open>byte_source\<close> is the contract of \<open>ITransport\<close>:
  a read moves the next pending bytes into the span; \<open>prompt_source\<close> adds that it never blocks or fails. The loop
  of \<open>poll\<close> has fuel; \<open>poll\<close> gives it the capacity of the ring and two more
  iterations, which the properties show to be enough.
\<close>

subsection \<open>\<open>ITransport\<close> and \<open>SpanTransport\<close>\<close>

record read_result =
  rr_bytes_read :: nat
  rr_end_of_stream :: bool
  rr_would_block :: bool
  rr_status :: status_code

definition empty_read :: read_result where
  "empty_read = \<lparr>rr_bytes_read = 0, rr_end_of_stream = False, rr_would_block = False, rr_status = SC_Ok\<rparr>"

type_synonym 't transport_read = "'t \<Rightarrow> bytes \<Rightarrow> read_result \<times> bytes \<times> 't"

record span_transport =
  spt_source :: bytes
  spt_offset :: nat
  spt_chunk_size :: nat
  spt_open :: bool

definition new_span_transport :: "bytes \<Rightarrow> nat \<Rightarrow> span_transport" where
  "new_span_transport source chunk_size =
     \<lparr>spt_source = source, spt_offset = 0, spt_chunk_size = chunk_size, spt_open = True\<rparr>"

definition span_read :: "span_transport transport_read" where
  "span_read t destination =
     (if \<not> spt_open t then (empty_read\<lparr>rr_end_of_stream := True\<rparr>, destination, t)
      else if spt_offset t \<ge> length (spt_source t) then
        (empty_read\<lparr>rr_end_of_stream := True\<rparr>, destination, t\<lparr>spt_open := False\<rparr>)
      else
        let max_chunk = (if spt_chunk_size t = 0 then length (spt_source t) else spt_chunk_size t);
            bytes_to_copy = min (length destination) (min max_chunk (length (spt_source t) - spt_offset t));
            destination = blit 0 (subspan (spt_offset t) bytes_to_copy (spt_source t)) destination;
            offset = spt_offset t + bytes_to_copy;
            eof = (offset \<ge> length (spt_source t)) in
        (empty_read\<lparr>rr_bytes_read := bytes_to_copy, rr_end_of_stream := eof\<rparr>, destination,
         t\<lparr>spt_offset := offset, spt_open := (if eof then False else spt_open t)\<rparr>))"

definition span_is_open :: "span_transport \<Rightarrow> bool" where
  "span_is_open t \<longleftrightarrow> spt_open t"

subsection \<open>Results, policies and counters\<close>

datatype poll_status =
    PS_MessageReady | PS_NeedMoreData | PS_EndOfStream | PS_FrameInvalid | PS_DecodeError
  | PS_BufferExhausted | PS_TransportError

datatype decode_failure_policy = DFP_Stop | DFP_DropAndContinue | DFP_Quarantine

fun poll_status_to_string :: "poll_status \<Rightarrow> string" where
  "poll_status_to_string PS_MessageReady = ''message_ready''"
| "poll_status_to_string PS_NeedMoreData = ''need_more_data''"
| "poll_status_to_string PS_EndOfStream = ''end_of_stream''"
| "poll_status_to_string PS_FrameInvalid = ''frame_invalid''"
| "poll_status_to_string PS_DecodeError = ''decode_error''"
| "poll_status_to_string PS_BufferExhausted = ''buffer_exhausted''"
| "poll_status_to_string PS_TransportError = ''transport_error''"

fun decode_failure_policy_to_string :: "decode_failure_policy \<Rightarrow> string" where
  "decode_failure_policy_to_string DFP_Stop = ''stop''"
| "decode_failure_policy_to_string DFP_DropAndContinue = ''drop_and_continue''"
| "decode_failure_policy_to_string DFP_Quarantine = ''quarantine''"

record stream_runtime_options =
  so_message_not_found_policy :: decode_failure_policy
  so_schema_mismatch_policy :: decode_failure_policy
  so_invalid_data_policy :: decode_failure_policy
  so_checksum_mismatch_policy :: decode_failure_policy
  so_field_limit_policy :: decode_failure_policy

definition default_stream_runtime_options :: stream_runtime_options where
  "default_stream_runtime_options =
     \<lparr>so_message_not_found_policy = DFP_DropAndContinue, so_schema_mismatch_policy = DFP_Quarantine,
      so_invalid_data_policy = DFP_Quarantine, so_checksum_mismatch_policy = DFP_Quarantine,
      so_field_limit_policy = DFP_Stop\<rparr>"

record poll_result =
  pr_status :: poll_status
  pr_decode_status :: decode_status
  pr_policy :: decode_failure_policy
  pr_bytes_consumed :: nat

definition poll_outcome :: "poll_status \<Rightarrow> poll_result" where
  "poll_outcome st =
     \<lparr>pr_status = st, pr_decode_status = DS_Ok, pr_policy = DFP_Stop, pr_bytes_consumed = 0\<rparr>"

definition message_ready :: "poll_result \<Rightarrow> bool" where
  "message_ready r \<longleftrightarrow> pr_status r = PS_MessageReady"

record runtime_stats =
  rs_bytes_read :: nat
  rs_transport_reads :: nat
  rs_frames_seen :: nat
  rs_frames_decoded :: nat
  rs_frame_errors :: nat
  rs_decode_errors :: nat

definition zero_stats :: runtime_stats where
  "zero_stats =
     \<lparr>rs_bytes_read = 0, rs_transport_reads = 0, rs_frames_seen = 0, rs_frames_decoded = 0,
      rs_frame_errors = 0, rs_decode_errors = 0\<rparr>"

subsection \<open>\<open>StreamRuntime\<close>\<close>

record 't stream_runtime =
  sr_transport :: 't
  sr_buffer :: ring
  sr_linearized_frame :: bytes
  sr_end_of_stream :: bool
  sr_options :: stream_runtime_options
  sr_stats :: runtime_stats

definition new_stream_runtime :: "nat \<Rightarrow> 't \<Rightarrow> stream_runtime_options \<Rightarrow> 't stream_runtime" where
  "new_stream_runtime cap transport options =
     \<lparr>sr_transport = transport, sr_buffer = new_ring cap, sr_linearized_frame = replicate cap 0,
      sr_end_of_stream = False, sr_options = options, sr_stats = zero_stats\<rparr>"

datatype fill_result = FR_ReadSome | FR_WouldBlock | FR_EndOfStream | FR_NoSpace | FR_TransportError

definition fill_buffer ::
  "nat \<Rightarrow> 't transport_read \<Rightarrow> 't stream_runtime \<Rightarrow> fill_result \<times> 't stream_runtime" where
  "fill_buffer cap read s =
     (let (off, n) = writable_span cap (sr_buffer s) in
      if n = 0 then (FR_NoSpace, s)
      else
        let (result, written, t) = read (sr_transport s) (subspan off n (rb_storage (sr_buffer s)));
            s = s\<lparr>sr_transport := t, sr_buffer := ring_store off written (sr_buffer s),
                  sr_stats := (sr_stats s)\<lparr>rs_transport_reads := wrap_size (rs_transport_reads (sr_stats s) + 1)\<rparr>\<rparr> in
        if rr_status result \<noteq> SC_Ok then (FR_TransportError, s)
        else
          let s = s\<lparr>sr_buffer := commit_write cap (rr_bytes_read result) (sr_buffer s),
                    sr_stats := (sr_stats s)\<lparr>rs_bytes_read :=
                      wrap_size (rs_bytes_read (sr_stats s) + rr_bytes_read result)\<rparr>,
                    sr_end_of_stream := rr_end_of_stream result\<rparr> in
          if rr_bytes_read result > 0 then (FR_ReadSome, s)
          else if rr_would_block result then (FR_WouldBlock, s)
          else if rr_end_of_stream result then (FR_EndOfStream, s)
          else (FR_WouldBlock, s))"

fun policy_for :: "stream_runtime_options \<Rightarrow> decode_status \<Rightarrow> decode_failure_policy" where
  "policy_for opts DS_Ok = DFP_Stop"
| "policy_for opts DS_MessageNotFound = so_message_not_found_policy opts"
| "policy_for opts DS_SchemaMismatch = so_schema_mismatch_policy opts"
| "policy_for opts DS_InvalidData = so_invalid_data_policy opts"
| "policy_for opts DS_ChecksumMismatch = so_checksum_mismatch_policy opts"
| "policy_for opts DS_FieldLimitExceeded = so_field_limit_policy opts"
| "policy_for opts DS_OutOfFuel = DFP_Stop"

text \<open>The status, the frame and the slice, and the runtime with its linearization buffer updated.\<close>

definition try_extract_frame ::
  "nat \<Rightarrow> framer_fun \<Rightarrow> 't stream_runtime \<Rightarrow> frame_status \<times> bytes \<times> frame_slice \<times> 't stream_runtime" where
  "try_extract_frame cap try_frame s =
     (let contiguous = readable_span cap (sr_buffer s);
          (status, sl) = try_frame contiguous in
      if status = FS_Ready then (status, frame_bytes contiguous sl, sl, s)
      else if has_wrapped_readable_data cap (sr_buffer s) then
        let (linearized_size, destination) = linearize cap (sr_buffer s) (sr_linearized_frame s);
            s = s\<lparr>sr_linearized_frame := destination\<rparr>;
            linearized = take linearized_size destination;
            (status, sl) = try_frame linearized in
        (status, if status = FS_Ready then frame_bytes linearized sl else [], sl, s)
      else (status, [], sl, s))"

definition count_frame_error :: "'t stream_runtime \<Rightarrow> 't stream_runtime" where
  "count_frame_error s =
     s\<lparr>sr_stats := (sr_stats s)\<lparr>rs_frame_errors := wrap_size (rs_frame_errors (sr_stats s) + 1)\<rparr>\<rparr>"

text \<open>The branch of \<open>poll\<close> for an extracted frame.\<close>

definition deliver_frame ::
  "simd_ops \<Rightarrow> compiled_protocol \<Rightarrow> nat \<Rightarrow> bytes \<Rightarrow> frame_slice \<Rightarrow> 't stream_runtime \<Rightarrow>
     poll_result \<times> decoded_message option \<times> 't stream_runtime" where
  "deliver_frame ops p cap frame sl s =
     (let s = s\<lparr>sr_stats := (sr_stats s)\<lparr>rs_frames_seen := wrap_size (rs_frames_seen (sr_stats s) + 1)\<rparr>\<rparr>;
          decoded = decode_any ops p frame;
          s = s\<lparr>sr_buffer := ring_consume cap (fs_bytes_consumed sl) (sr_buffer s)\<rparr> in
      case decoded of
        Inr m \<Rightarrow>
          ((poll_outcome PS_MessageReady)\<lparr>pr_bytes_consumed := fs_bytes_consumed sl\<rparr>, Some m,
           s\<lparr>sr_stats := (sr_stats s)\<lparr>rs_frames_decoded := wrap_size (rs_frames_decoded (sr_stats s) + 1)\<rparr>\<rparr>)
      | Inl e \<Rightarrow>
          (\<lparr>pr_status = PS_DecodeError, pr_decode_status = e, pr_policy = policy_for (sr_options s) e,
            pr_bytes_consumed = fs_bytes_consumed sl\<rparr>, None,
           s\<lparr>sr_stats := (sr_stats s)\<lparr>rs_decode_errors := wrap_size (rs_decode_errors (sr_stats s) + 1)\<rparr>\<rparr>))"

fun poll_loop ::
  "simd_ops \<Rightarrow> compiled_protocol \<Rightarrow> nat \<Rightarrow> framer_fun \<Rightarrow> 't transport_read \<Rightarrow> nat \<Rightarrow> 't stream_runtime \<Rightarrow>
     (poll_result \<times> decoded_message option \<times> 't stream_runtime) option" where
  "poll_loop ops p cap try_frame read 0 s = None"
| "poll_loop ops p cap try_frame read (Suc fuel) s =
     (case try_extract_frame cap try_frame s of (status, frame, sl, s) \<Rightarrow>
      (case status of
         FS_Ready \<Rightarrow> Some (deliver_frame ops p cap frame sl s)
       | FS_InvalidFrame \<Rightarrow> Some (poll_outcome PS_FrameInvalid, None, count_frame_error s)
       | FS_NeedMoreData \<Rightarrow>
           if sr_end_of_stream s \<and> ring_empty cap (sr_buffer s) then Some (poll_outcome PS_EndOfStream, None, s)
           else if sr_end_of_stream s \<and> \<not> ring_empty cap (sr_buffer s) then
             Some (poll_outcome PS_FrameInvalid, None, count_frame_error s)
           else
             (case fill_buffer cap read s of
                (FR_ReadSome, s) \<Rightarrow> poll_loop ops p cap try_frame read fuel s
              | (FR_WouldBlock, s) \<Rightarrow> Some (poll_outcome PS_NeedMoreData, None, s)
              | (FR_EndOfStream, s) \<Rightarrow> poll_loop ops p cap try_frame read fuel s
              | (FR_NoSpace, s) \<Rightarrow> Some (poll_outcome PS_BufferExhausted, None, s)
              | (FR_TransportError, s) \<Rightarrow> Some (poll_outcome PS_TransportError, None, s))))"

definition poll ::
  "simd_ops \<Rightarrow> compiled_protocol \<Rightarrow> nat \<Rightarrow> framer_fun \<Rightarrow> 't transport_read \<Rightarrow> 't stream_runtime \<Rightarrow>
     (poll_result \<times> decoded_message option \<times> 't stream_runtime) option" where
  "poll ops p cap try_frame read s = poll_loop ops p cap try_frame read (cap + 2) s"

end
