(* ===== verification/Stream_Properties.thy ===== *)
theory Stream_Properties
  imports Stream_Runtime
begin

text \<open>
  What the polling loop does to the stream: the contracts of the transport, their
  interpretation on \<open>SpanTransport\<close>, the effect of \<open>fill_buffer\<close> and \<open>try_extract_frame\<close> on the bytes that
  are buffered or still to be read, and the properties of \<open>poll\<close>. It loses and repeats no byte whatever the
  transport does, it always returns, and over a \<open>SpanTransport\<close> it delivers the frames of the
  source in order for every chunk size.
\<close>

subsection \<open>The contract of a transport\<close>

locale byte_source =
  fixes read :: "'t transport_read" and pending :: "'t \<Rightarrow> bytes"
  assumes read_span: "read t d = (r, d', t') \<Longrightarrow> length d' = length d \<and> rr_bytes_read r \<le> length d"
    and read_ok: "read t d = (r, d', t') \<Longrightarrow> d \<noteq> [] \<Longrightarrow> rr_status r = SC_Ok \<Longrightarrow>
      pending t = take (rr_bytes_read r) d' @ pending t' \<and> (rr_end_of_stream r \<longrightarrow> pending t' = [])"
    and read_failed: "read t d = (r, d', t') \<Longrightarrow> rr_status r \<noteq> SC_Ok \<Longrightarrow> pending t' = pending t"

text \<open>A read that fails, blocks, or brings nothing without an end of the stream.\<close>

definition stalls :: "'t transport_read \<Rightarrow> bool" where
  "stalls read \<longleftrightarrow> (\<exists>t d. d \<noteq> [] \<and> (case read t d of (r, d', t') \<Rightarrow>
     rr_status r \<noteq> SC_Ok \<or> rr_bytes_read r = 0 \<and> (rr_would_block r \<or> \<not> rr_end_of_stream r)))"

locale prompt_source = byte_source +
  assumes prompt: "read t d = (r, d', t') \<Longrightarrow> d \<noteq> [] \<Longrightarrow>
    rr_status r = SC_Ok \<and> \<not> rr_would_block r \<and> (0 < rr_bytes_read r \<or> rr_end_of_stream r)"
begin

lemma never_stalls: "\<not> stalls read"
  unfolding stalls_def using prompt by fastforce

end

definition span_pending :: "span_transport \<Rightarrow> bytes" where
  "span_pending t = (if spt_open t then drop (spt_offset t) (spt_source t) else [])"

lemma span_read_end:
  assumes "\<not> (spt_open t \<and> spt_offset t < length (spt_source t))" and "span_read t d = (r, d', t')"
  shows "r = empty_read\<lparr>rr_end_of_stream := True\<rparr>" and "d' = d" and "\<not> spt_open t'"
proof -
  have "span_read t d = (empty_read\<lparr>rr_end_of_stream := True\<rparr>, d, if spt_open t then t\<lparr>spt_open := False\<rparr> else t)"
    using assms(1) by (cases "spt_open t") (simp_all add: span_read_def)
  then show "r = empty_read\<lparr>rr_end_of_stream := True\<rparr>" and "d' = d" and "\<not> spt_open t'"
    using assms(2) by (auto split: if_splits)
qed

lemma span_read_chunk:
  assumes "spt_open t" and "spt_offset t < length (spt_source t)"
    and "span_read t d = (r, d', t')"
    and k: "k = min (length d) (min (if spt_chunk_size t = 0 then length (spt_source t) else spt_chunk_size t)
      (length (spt_source t) - spt_offset t))"
  shows "r = empty_read\<lparr>rr_bytes_read := k, rr_end_of_stream := spt_offset t + k \<ge> length (spt_source t)\<rparr>"
    and "d' = blit 0 (subspan (spt_offset t) k (spt_source t)) d"
    and "t' = t\<lparr>spt_offset := spt_offset t + k,
        spt_open := (if spt_offset t + k \<ge> length (spt_source t) then False else spt_open t)\<rparr>"
    and "k \<le> length d" and "spt_offset t + k \<le> length (spt_source t)" and "d \<noteq> [] \<Longrightarrow> 0 < k"
proof -
  have "span_read t d = (empty_read\<lparr>rr_bytes_read := k, rr_end_of_stream := spt_offset t + k \<ge> length (spt_source t)\<rparr>,
      blit 0 (subspan (spt_offset t) k (spt_source t)) d,
      t\<lparr>spt_offset := spt_offset t + k,
        spt_open := (if spt_offset t + k \<ge> length (spt_source t) then False else spt_open t)\<rparr>)"
    using assms(1,2) unfolding k span_read_def Let_def by (simp only: not_True_eq_False if_False not_le [symmetric])
  then show "r = empty_read\<lparr>rr_bytes_read := k, rr_end_of_stream := spt_offset t + k \<ge> length (spt_source t)\<rparr>"
    and "d' = blit 0 (subspan (spt_offset t) k (spt_source t)) d"
    and "t' = t\<lparr>spt_offset := spt_offset t + k,
        spt_open := (if spt_offset t + k \<ge> length (spt_source t) then False else spt_open t)\<rparr>"
    using assms(3) by (simp_all only: prod.inject)
  show "k \<le> length d" by (simp add: k)
  show "spt_offset t + k \<le> length (spt_source t)" using assms(2) by (simp add: k)
  show "d \<noteq> [] \<Longrightarrow> 0 < k" using assms(2) by (cases "spt_source t") (simp_all add: k)
qed

lemma blit_then_take: "length ys \<le> length xs \<Longrightarrow> take (length ys) (blit 0 ys xs) = ys"
  by (simp add: blit_def)

interpretation span: prompt_source span_read span_pending
proof
  fix t d r d' t'
  assume read: "span_read t d = (r, d', t')"
  define k where "k = min (length d) (min (if spt_chunk_size t = 0 then length (spt_source t) else spt_chunk_size t)
      (length (spt_source t) - spt_offset t))"
  let ?part = "subspan (spt_offset t) k (spt_source t)"
  have all: "length d' = length d \<and> rr_bytes_read r \<le> length d \<and> rr_status r = SC_Ok \<and> \<not> rr_would_block r \<and>
    (d \<noteq> [] \<longrightarrow> 0 < rr_bytes_read r \<or> rr_end_of_stream r) \<and>
    span_pending t = take (rr_bytes_read r) d' @ span_pending t' \<and> (rr_end_of_stream r \<longrightarrow> span_pending t' = [])"
  proof (cases "spt_open t \<and> spt_offset t < length (spt_source t)")
    case False
    note eos = span_read_end [OF this read]
    have "span_pending t = []" using False by (auto simp: span_pending_def)
    then show ?thesis using eos by (simp add: empty_read_def span_pending_def)
  next
    case True
    then have op: "spt_open t" and off: "spt_offset t < length (spt_source t)" by simp_all
    note chunk = span_read_chunk [OF op off read k_def]
    have len: "length ?part = k" using chunk(5) by (simp add: length_subspan)
    have got: "take k d' = ?part"
      unfolding chunk(2) using blit_then_take [of ?part d] len chunk(4) by simp
    have "length d' = length d" unfolding chunk(2) using len chunk(4) by (simp add: length_blit)
    moreover have "span_pending t = ?part @ drop (spt_offset t + k) (spt_source t)"
      using op unfolding span_pending_def subspan_def by (simp add: add.commute append_take_drop_id flip: drop_drop)
    moreover have "span_pending t' = drop (spt_offset t + k) (spt_source t)"
      using op unfolding chunk(3) by (simp add: span_pending_def)
    ultimately show ?thesis using chunk(4,6) got unfolding chunk(1) by (simp add: empty_read_def)
  qed
  show "length d' = length d \<and> rr_bytes_read r \<le> length d" using all by blast
  show "rr_status r \<noteq> SC_Ok \<Longrightarrow> span_pending t' = span_pending t" using all by blast
  show "d \<noteq> [] \<Longrightarrow> rr_status r = SC_Ok \<and> \<not> rr_would_block r \<and> (0 < rr_bytes_read r \<or> rr_end_of_stream r)"
    using all by blast
  show "span_pending t = take (rr_bytes_read r) d' @ span_pending t' \<and> (rr_end_of_stream r \<longrightarrow> span_pending t' = [])"
    using all by blast
qed

subsection \<open>The stream seen by the runtime\<close>

definition stream_bytes :: "('t \<Rightarrow> bytes) \<Rightarrow> 't stream_runtime \<Rightarrow> bytes" where
  "stream_bytes pending s = ring_content (sr_buffer s) @ pending (sr_transport s)"

definition stream_ok :: "nat \<Rightarrow> ('t \<Rightarrow> bytes) \<Rightarrow> 't stream_runtime \<Rightarrow> bool" where
  "stream_ok cap pending s \<longleftrightarrow>
     ring_ok cap (sr_buffer s) \<and> length (sr_linearized_frame s) = cap \<and>
     (sr_end_of_stream s \<longrightarrow> pending (sr_transport s) = [])"

lemma new_stream_ok: "1 < cap \<Longrightarrow> stream_ok cap pending (new_stream_runtime cap t opts)"
  by (simp add: stream_ok_def new_stream_runtime_def new_ring_ok)

lemma new_stream_bytes: "stream_bytes pending (new_stream_runtime cap t opts) = pending t"
  by (simp add: stream_bytes_def new_stream_runtime_def)

text \<open>
  What a poll may report. A frame is the first frame of the whole stream and its bytes leave the
  stream; every other verdict leaves the stream as it is and names a reason that
  holds of it.
\<close>

definition poll_sound ::
  "simd_ops \<Rightarrow> compiled_protocol \<Rightarrow> nat \<Rightarrow> framer_fun \<Rightarrow> ('t \<Rightarrow> bytes) \<Rightarrow> 't stream_runtime \<Rightarrow>
     poll_result \<Rightarrow> decoded_message option \<Rightarrow> 't stream_runtime \<Rightarrow> bool" where
  "poll_sound ops p cap try_frame pending s res msg s' \<longleftrightarrow>
     (let stream = stream_bytes pending s; (verdict, sl) = try_frame stream;
          left = stream_bytes pending s'; buffered = ring_content (sr_buffer s') in
      case pr_status res of
        PS_MessageReady \<Rightarrow>
          verdict = FS_Ready \<and> msg \<noteq> None \<and> decode_any ops p (frame_bytes stream sl) = Inr (the msg) \<and>
          pr_bytes_consumed res = fs_bytes_consumed sl \<and> left = drop (fs_bytes_consumed sl) stream
      | PS_DecodeError \<Rightarrow>
          verdict = FS_Ready \<and> msg = None \<and> decode_any ops p (frame_bytes stream sl) = Inl (pr_decode_status res) \<and>
          pr_policy res = policy_for (sr_options s) (pr_decode_status res) \<and>
          pr_bytes_consumed res = fs_bytes_consumed sl \<and> left = drop (fs_bytes_consumed sl) stream
      | PS_FrameInvalid \<Rightarrow>
          msg = None \<and> left = stream \<and>
          (verdict = FS_InvalidFrame \<or> verdict = FS_NeedMoreData \<and> stream \<noteq> [] \<and> buffered = stream)
      | PS_EndOfStream \<Rightarrow> msg = None \<and> stream = [] \<and> left = [] \<and> verdict = FS_NeedMoreData
      | PS_BufferExhausted \<Rightarrow>
          msg = None \<and> left = stream \<and> length buffered = cap - 1 \<and> fst (try_frame buffered) = FS_NeedMoreData
      | PS_NeedMoreData \<Rightarrow> msg = None \<and> left = stream \<and> fst (try_frame buffered) = FS_NeedMoreData
      | PS_TransportError \<Rightarrow> msg = None \<and> left = stream \<and> fst (try_frame buffered) = FS_NeedMoreData)"

declare poll_loop.simps [simp del]

definition poll_measure :: "nat \<Rightarrow> 't stream_runtime \<Rightarrow> nat" where
  "poll_measure cap s = (cap - 1 - length (ring_content (sr_buffer s))) + (if sr_end_of_stream s then 1 else 2)"

locale framed_stream = framer try_frame + byte_source read pending
  for try_frame :: framer_fun and read :: "'t transport_read" and pending :: "'t \<Rightarrow> bytes"
begin

lemma extract_frame:
  assumes ok: "stream_ok cap pending s" and ex: "try_extract_frame cap try_frame s = (st, frame, sl, s1)"
  shows "st = fst (try_frame (ring_content (sr_buffer s)))"
    and "st = FS_Ready \<Longrightarrow> try_frame (ring_content (sr_buffer s)) = (FS_Ready, sl) \<and>
      frame = frame_bytes (ring_content (sr_buffer s)) sl"
    and "sr_buffer s1 = sr_buffer s \<and> sr_transport s1 = sr_transport s \<and>
      sr_end_of_stream s1 = sr_end_of_stream s \<and> length (sr_linearized_frame s1) = cap"
proof -
  let ?r = "sr_buffer s"
  have r: "ring_ok cap ?r" and lin: "length (sr_linearized_frame s) = cap" using ok by (simp_all add: stream_ok_def)
  obtain st0 sl0 where t0: "try_frame (readable_span cap ?r) = (st0, sl0)" by (cases "try_frame (readable_span cap ?r)")
  obtain ys where ys: "ring_content ?r = readable_span cap ?r @ ys" using ring_fifo.readable_prefix [OF r] by blast
  obtain n d where nd: "linearize cap ?r (sr_linearized_frame s) = (n, d)"
    by (cases "linearize cap ?r (sr_linearized_frame s)")
  have "length (ring_content ?r) \<le> length (sr_linearized_frame s)"
    using ring_content_less [OF r] lin by simp
  note copied = ring_fifo.copy_out_law [OF r this]
  have nd': "take n d = ring_content ?r" "length d = cap" using copied nd lin by auto
  obtain st1 sl1 where t1: "try_frame (ring_content ?r) = (st1, sl1)" by (cases "try_frame (ring_content ?r)")
  consider (now) "st0 = FS_Ready" | (turned) "st0 \<noteq> FS_Ready" "has_wrapped_readable_data cap ?r"
    | (straight) "st0 \<noteq> FS_Ready" "\<not> has_wrapped_readable_data cap ?r" by blast
  then have "st = st1 \<and> (st = FS_Ready \<longrightarrow> sl = sl1 \<and> frame = frame_bytes (ring_content ?r) sl) \<and>
    sr_buffer s1 = ?r \<and> sr_transport s1 = sr_transport s \<and> sr_end_of_stream s1 = sr_end_of_stream s \<and>
    length (sr_linearized_frame s1) = cap"
  proof cases
    case now
    then have "try_frame (ring_content ?r) = (FS_Ready, sl0)"
      "frame_bytes (ring_content ?r) sl0 = frame_bytes (readable_span cap ?r) sl0"
      using ready_prefix [of "readable_span cap ?r" sl0 ys] t0 by (simp_all add: ys)
    then show ?thesis using ex now t0 t1 lin by (auto simp: try_extract_frame_def)
  next
    case turned
    then show ?thesis using ex t0 t1 nd nd' by (auto simp: try_extract_frame_def)
  next
    case straight
    then have "readable_span cap ?r = ring_content ?r" using ring_fifo.readable_all [OF r] by simp
    then show ?thesis using ex t0 t1 lin straight by (auto simp: try_extract_frame_def)
  qed
  then show "st = fst (try_frame (ring_content ?r))"
    and "st = FS_Ready \<Longrightarrow> try_frame (ring_content ?r) = (FS_Ready, sl) \<and> frame = frame_bytes (ring_content ?r) sl"
    and "sr_buffer s1 = ?r \<and> sr_transport s1 = sr_transport s \<and> sr_end_of_stream s1 = sr_end_of_stream s \<and>
      length (sr_linearized_frame s1) = cap"
    by (simp_all add: t1)
qed

lemma fill:
  assumes ok: "stream_ok cap pending s" and f: "fill_buffer cap read s = (fr, s1)" and more: "\<not> sr_end_of_stream s"
  shows "stream_ok cap pending s1" and "stream_bytes pending s1 = stream_bytes pending s"
    and "fr = FR_ReadSome \<Longrightarrow> length (ring_content (sr_buffer s)) < length (ring_content (sr_buffer s1))"
    and "fr \<noteq> FR_ReadSome \<Longrightarrow> ring_content (sr_buffer s1) = ring_content (sr_buffer s)"
    and "fr = FR_EndOfStream \<Longrightarrow> sr_end_of_stream s1"
    and "fr = FR_NoSpace \<Longrightarrow> length (ring_content (sr_buffer s)) = cap - 1"
    and "fr = FR_WouldBlock \<or> fr = FR_TransportError \<Longrightarrow> stalls read"
proof -
  let ?b = "sr_buffer s"
  have r: "ring_ok cap ?b" and lin: "length (sr_linearized_frame s) = cap" using ok by (simp_all add: stream_ok_def)
  obtain off n where w: "writable_span cap ?b = (off, n)" by (cases "writable_span cap ?b")
  have "stream_ok cap pending s1 \<and> stream_bytes pending s1 = stream_bytes pending s \<and>
    (fr = FR_ReadSome \<longrightarrow> length (ring_content ?b) < length (ring_content (sr_buffer s1))) \<and>
    (fr \<noteq> FR_ReadSome \<longrightarrow> ring_content (sr_buffer s1) = ring_content ?b) \<and>
    (fr = FR_EndOfStream \<longrightarrow> sr_end_of_stream s1) \<and> (fr = FR_NoSpace \<longrightarrow> length (ring_content ?b) = cap - 1) \<and>
    (fr = FR_WouldBlock \<or> fr = FR_TransportError \<longrightarrow> stalls read)"
  proof (cases "n = 0")
    case True
    then have "fr = FR_NoSpace" "s1 = s" using f w by (simp_all add: fill_buffer_def)
    then show ?thesis using ok w True ring_fifo.writable_full [OF r] by simp
  next
    case False
    let ?d = "subspan off n (rb_storage ?b)"
    obtain result d' t where rd: "read (sr_transport s) ?d = (result, d', t)"
      by (cases "read (sr_transport s) ?d")
    note region = writable_span_region [OF r w]
    have stall: "rr_status result \<noteq> SC_Ok \<or> rr_bytes_read result = 0 \<and>
        (rr_would_block result \<or> \<not> rr_end_of_stream result) \<Longrightarrow> stalls read"
      unfolding stalls_def by (rule exI [of _ "sr_transport s"], rule exI [of _ ?d])
        (use rd False region(3,4) r in \<open>auto simp: ring_ok_def subspan_def\<close>)
    have dlen: "length ?d = n" using False region r by (simp add: ring_ok_def length_subspan)
    then have len: "length d' = n" "rr_bytes_read result \<le> n" using read_span [OF rd] by simp_all
    have dne: "?d \<noteq> []" using dlen False by auto
    have w': "writable_span cap ?b = (off, length d')" using w len by simp
    note stored = ring_fifo.store_law [OF r w'] and committed = ring_fifo.commit_law [OF r w' len(2) [folded len(1)]]
    show ?thesis
    proof (cases "rr_status result = SC_Ok")
      case fail: False
      then have "fr = FR_TransportError" "sr_buffer s1 = ring_store off d' ?b" "sr_transport s1 = t"
        "sr_end_of_stream s1 = sr_end_of_stream s" "sr_linearized_frame s1 = sr_linearized_frame s"
        using f w rd False by (auto simp: fill_buffer_def)
      then show ?thesis using stored lin more read_failed [OF rd fail] stall fail
        by (simp add: stream_ok_def stream_bytes_def)
    next
      case succ: True
      have src: "pending (sr_transport s) = take (rr_bytes_read result) d' @ pending t"
        "rr_end_of_stream result \<longrightarrow> pending t = []" using read_ok [OF rd dne succ] by simp_all
      have s1: "sr_buffer s1 = commit_write cap (rr_bytes_read result) (ring_store off d' ?b)" "sr_transport s1 = t"
        "sr_end_of_stream s1 = rr_end_of_stream result" "sr_linearized_frame s1 = sr_linearized_frame s"
        and fr: "fr = (if rr_bytes_read result > 0 then FR_ReadSome else if rr_would_block result then FR_WouldBlock
          else if rr_end_of_stream result then FR_EndOfStream else FR_WouldBlock)"
        using f w rd False succ by (auto simp: fill_buffer_def Let_def split: if_splits)
      show ?thesis using committed lin src len stall by (auto simp: stream_ok_def stream_bytes_def s1 fr)
    qed
  qed
  then show "stream_ok cap pending s1" and "stream_bytes pending s1 = stream_bytes pending s"
    and "fr = FR_ReadSome \<Longrightarrow> length (ring_content ?b) < length (ring_content (sr_buffer s1))"
    and "fr \<noteq> FR_ReadSome \<Longrightarrow> ring_content (sr_buffer s1) = ring_content ?b"
    and "fr = FR_EndOfStream \<Longrightarrow> sr_end_of_stream s1"
    and "fr = FR_NoSpace \<Longrightarrow> length (ring_content ?b) = cap - 1"
    and "fr = FR_WouldBlock \<or> fr = FR_TransportError \<Longrightarrow> stalls read"
    by simp_all
qed

text \<open>The frame branch of \<open>poll\<close>, when the frame is the first one of the buffered bytes.\<close>

lemma deliver:
  assumes ok: "stream_ok cap pending s" and tf: "try_frame (ring_content (sr_buffer s)) = (FS_Ready, sl)"
    and dl: "deliver_frame ops p cap (frame_bytes (ring_content (sr_buffer s)) sl) sl s = (res, msg, s')"
  shows "poll_sound ops p cap try_frame pending s res msg s'" and "stream_ok cap pending s'"
    and "pr_status res = PS_MessageReady \<or> pr_status res = PS_DecodeError"
proof -
  let ?c = "ring_content (sr_buffer s)"
  have r: "ring_ok cap (sr_buffer s)" using ok by (simp add: stream_ok_def)
  have "fs_bytes_consumed sl \<le> length ?c" using slice_inside [OF tf] by simp
  note eaten = ring_fifo.discard_law [OF r this]
  have whole: "try_frame (stream_bytes pending s) = (FS_Ready, sl)"
    "frame_bytes (stream_bytes pending s) sl = frame_bytes ?c sl"
    "drop (fs_bytes_consumed sl) (stream_bytes pending s) = drop (fs_bytes_consumed sl) ?c @ pending (sr_transport s)"
    using ready_prefix [OF tf, of "pending (sr_transport s)"] by (simp_all add: stream_bytes_def)
  have s': "sr_buffer s' = ring_consume cap (fs_bytes_consumed sl) (sr_buffer s)" "sr_transport s' = sr_transport s"
    "sr_end_of_stream s' = sr_end_of_stream s" "sr_linearized_frame s' = sr_linearized_frame s"
    using dl by (auto simp: deliver_frame_def Let_def split: sum.splits)
  have left: "stream_bytes pending s' = drop (fs_bytes_consumed sl) (stream_bytes pending s)"
    using eaten whole by (simp add: stream_bytes_def s')
  show "stream_ok cap pending s'" using ok eaten by (simp add: stream_ok_def s')
  show "pr_status res = PS_MessageReady \<or> pr_status res = PS_DecodeError"
    using dl by (auto simp: deliver_frame_def Let_def poll_outcome_def split: sum.splits)
  show "poll_sound ops p cap try_frame pending s res msg s'"
  proof (cases "decode_any ops p (frame_bytes ?c sl)")
    case (Inl e)
    then have "msg = None" "res = \<lparr>pr_status = PS_DecodeError, pr_decode_status = e, pr_policy = policy_for (sr_options s) e,
        pr_bytes_consumed = fs_bytes_consumed sl\<rparr>" using dl by (simp_all add: deliver_frame_def)
    then show ?thesis using Inl whole left by (simp add: poll_sound_def)
  next
    case (Inr m)
    then have "msg = Some m" "res = (poll_outcome PS_MessageReady)\<lparr>pr_bytes_consumed := fs_bytes_consumed sl\<rparr>"
      using dl by (simp_all add: deliver_frame_def)
    then show ?thesis using Inr whole left by (simp add: poll_sound_def poll_outcome_def)
  qed
qed

lemma poll_sound_cong:
  "stream_bytes pending s1 = stream_bytes pending s \<Longrightarrow> sr_options s1 = sr_options s \<Longrightarrow>
     poll_sound ops p cap try_frame pending s1 res msg s' = poll_sound ops p cap try_frame pending s res msg s'"
  by (simp only: poll_sound_def)

lemma verdict_of_prefix:
  "fst (try_frame (ring_content (sr_buffer s))) \<noteq> FS_NeedMoreData \<Longrightarrow>
     try_frame (stream_bytes pending s) = try_frame (ring_content (sr_buffer s))"
  by (simp add: stream_bytes_def verdict_final)

lemma extract_options: "try_extract_frame cap try_frame s = (st, frame, sl, s1) \<Longrightarrow> sr_options s1 = sr_options s"
  by (auto simp: try_extract_frame_def Let_def split: prod.splits if_splits)

lemma fill_options: "fill_buffer cap read s = (fr, s1) \<Longrightarrow> sr_options s1 = sr_options s"
  by (auto simp: fill_buffer_def Let_def split: prod.splits if_splits)

text \<open>One poll, by the verdict on the buffered bytes and the result of the read.\<close>

lemma poll_loop_total:
  "stream_ok cap pending s \<Longrightarrow> poll_measure cap s \<le> fuel \<Longrightarrow>
     \<exists>res msg s'. poll_loop ops p cap try_frame read fuel s = Some (res, msg, s') \<and>
       poll_sound ops p cap try_frame pending s res msg s' \<and> stream_ok cap pending s' \<and>
       (pr_status res = PS_NeedMoreData \<or> pr_status res = PS_TransportError \<longrightarrow> stalls read)"
proof (induction fuel arbitrary: s)
  case 0
  then show ?case by (simp add: poll_measure_def split: if_splits)
next
  case (Suc fuel)
  obtain st frame sl s1 where ex: "try_extract_frame cap try_frame s = (st, frame, sl, s1)"
    by (cases "try_extract_frame cap try_frame s")
  note x = extract_frame [OF Suc.prems(1) ex]
  let ?c = "ring_content (sr_buffer s)"
  have buf: "sr_buffer s1 = sr_buffer s" and src: "sr_transport s1 = sr_transport s"
    and eos: "sr_end_of_stream s1 = sr_end_of_stream s" using x(3) by simp_all
  have ok1: "stream_ok cap pending s1" using Suc.prems(1) x(3) by (simp add: stream_ok_def)
  have same: "stream_bytes pending s1 = stream_bytes pending s" by (simp add: stream_bytes_def buf src)
  have r: "ring_ok cap (sr_buffer s)" using ok1 by (simp add: stream_ok_def buf)
  note cong = poll_sound_cong [OF same extract_options [OF ex], of ops p cap]
  have loop: "poll_loop ops p cap try_frame read (Suc fuel) s =
     (case st of
         FS_Ready \<Rightarrow> Some (deliver_frame ops p cap frame sl s1)
       | FS_InvalidFrame \<Rightarrow> Some (poll_outcome PS_FrameInvalid, None, count_frame_error s1)
       | FS_NeedMoreData \<Rightarrow>
           if sr_end_of_stream s \<and> ?c = [] then Some (poll_outcome PS_EndOfStream, None, s1)
           else if sr_end_of_stream s \<and> ?c \<noteq> [] then
             Some (poll_outcome PS_FrameInvalid, None, count_frame_error s1)
           else
             (case fill_buffer cap read s1 of
                (FR_ReadSome, s) \<Rightarrow> poll_loop ops p cap try_frame read fuel s
              | (FR_WouldBlock, s) \<Rightarrow> Some (poll_outcome PS_NeedMoreData, None, s)
              | (FR_EndOfStream, s) \<Rightarrow> poll_loop ops p cap try_frame read fuel s
              | (FR_NoSpace, s) \<Rightarrow> Some (poll_outcome PS_BufferExhausted, None, s)
              | (FR_TransportError, s) \<Rightarrow> Some (poll_outcome PS_TransportError, None, s)))"
    by (simp only: poll_loop.simps ex prod.case eos buf ring_empty_content [OF r])
  have counted: "stream_bytes pending (count_frame_error s1) = stream_bytes pending s"
    "stream_ok cap pending (count_frame_error s1)" "sr_buffer (count_frame_error s1) = sr_buffer s"
    using ok1 same by (simp_all add: stream_bytes_def stream_ok_def count_frame_error_def buf src)
  consider (ready) "st = FS_Ready" | (invalid) "st = FS_InvalidFrame"
    | (eof) "st = FS_NeedMoreData" "sr_end_of_stream s" | (more) "st = FS_NeedMoreData" "\<not> sr_end_of_stream s"
    by (cases st) auto
  then show ?case
  proof cases
    case ready
    obtain res msg s' where d: "deliver_frame ops p cap frame sl s1 = (res, msg, s')"
      by (cases "deliver_frame ops p cap frame sl s1")
    have tf: "try_frame (ring_content (sr_buffer s1)) = (FS_Ready, sl)"
      and d1: "deliver_frame ops p cap (frame_bytes (ring_content (sr_buffer s1)) sl) sl s1 = (res, msg, s')"
      using x(2) [OF ready] d by (simp_all add: buf)
    show ?thesis using deliver [OF ok1 tf d1] by (auto simp: loop ready d cong)
  next
    case invalid
    have "try_frame (stream_bytes pending s) = try_frame ?c"
      by (rule verdict_of_prefix) (use x(1) invalid in simp)
    then have "fst (try_frame (stream_bytes pending s)) = FS_InvalidFrame" using x(1) invalid by simp
    then show ?thesis using counted
      by (auto simp: loop invalid poll_sound_def poll_outcome_def Let_def split: prod.splits)
  next
    case eof
    then have "pending (sr_transport s) = []" using Suc.prems(1) by (simp add: stream_ok_def)
    then have whole: "stream_bytes pending s = ?c" by (simp add: stream_bytes_def)
    have verdict: "fst (try_frame ?c) = FS_NeedMoreData" using x(1) eof by simp
    show ?thesis
    proof (cases "?c = []")
      case True
      then show ?thesis using eof whole verdict ok1 same
        by (auto simp: loop poll_sound_def poll_outcome_def Let_def split: prod.splits)
    next
      case False
      then show ?thesis using eof whole verdict counted
        by (auto simp: loop poll_sound_def poll_outcome_def Let_def split: prod.splits)
    qed
  next
    case more
    obtain fr s2 where f: "fill_buffer cap read s1 = (fr, s2)" by (cases "fill_buffer cap read s1")
    have "\<not> sr_end_of_stream s1" using more eos by simp
    note filled = fill [OF ok1 f this]
    have same2: "stream_bytes pending s2 = stream_bytes pending s" using filled(2) same by simp
    have opts2: "sr_options s2 = sr_options s" using fill_options [OF f] extract_options [OF ex] by simp
    note cong2 = poll_sound_cong [OF same2 opts2, of ops p cap]
    have verdict: "fst (try_frame ?c) = FS_NeedMoreData" using x(1) more by simp
    have stay: "fr \<noteq> FR_ReadSome \<Longrightarrow> ring_content (sr_buffer s2) = ?c" using filled(4) by (simp add: buf)
    consider (again) "fr = FR_ReadSome \<or> fr = FR_EndOfStream" | (block) "fr = FR_WouldBlock"
      | (full) "fr = FR_NoSpace" | (fail) "fr = FR_TransportError" by (cases fr) auto
    then show ?thesis
    proof cases
      case again
      have "length (ring_content (sr_buffer s2)) < cap"
        using filled(1) ring_content_less by (auto simp: stream_ok_def)
      then have "poll_measure cap s2 < poll_measure cap s"
        using again filled(3,4,5) more(2) by (auto simp: poll_measure_def buf)
      then have "poll_measure cap s2 \<le> fuel" using Suc.prems(2) by simp
      from Suc.IH [OF filled(1) this] again show ?thesis
        by (auto simp: loop more f cong2)
    next
      case block
      then show ?thesis using filled(1,7) same2 stay verdict
        by (auto simp: loop more f poll_sound_def poll_outcome_def Let_def split: prod.splits)
    next
      case full
      then show ?thesis using filled(1,6,7) same2 stay verdict
        by (auto simp: loop more f poll_sound_def poll_outcome_def Let_def buf split: prod.splits)
    next
      case fail
      then show ?thesis using filled(1,7) same2 stay verdict
        by (auto simp: loop more f poll_sound_def poll_outcome_def Let_def split: prod.splits)
    qed
  qed
qed

lemma poll_total:
  assumes "stream_ok cap pending s"
  shows "\<exists>res msg s'. poll ops p cap try_frame read s = Some (res, msg, s') \<and>
    poll_sound ops p cap try_frame pending s res msg s' \<and> stream_ok cap pending s' \<and>
       (pr_status res = PS_NeedMoreData \<or> pr_status res = PS_TransportError \<longrightarrow> stalls read)"
proof -
  have "poll_measure cap s \<le> cap + 2" unfolding poll_measure_def by (split if_split) linarith
  from poll_loop_total [OF assms this] show ?thesis by (simp only: poll_def)
qed

end

fun poll_many ::
  "simd_ops \<Rightarrow> compiled_protocol \<Rightarrow> nat \<Rightarrow> framer_fun \<Rightarrow> 't transport_read \<Rightarrow> nat \<Rightarrow> 't stream_runtime \<Rightarrow>
     ((poll_result \<times> decoded_message option) list \<times> 't stream_runtime) option" where
  "poll_many ops p cap try_frame read 0 s = Some ([], s)"
| "poll_many ops p cap try_frame read (Suc n) s =
     (case poll ops p cap try_frame read s of
        None \<Rightarrow> None
      | Some (res, msg, s) \<Rightarrow>
          (case poll_many ops p cap try_frame read n s of
             None \<Rightarrow> None
           | Some (rs, s) \<Rightarrow> Some ((res, msg) # rs, s)))"

text \<open>What a poll hands to its caller: the decoded message or the reason, and the bytes consumed.\<close>

definition poll_delivery :: "poll_result \<times> decoded_message option \<Rightarrow> (decode_status + decoded_message) \<times> nat" where
  "poll_delivery = (\<lambda>(res, msg).
     (case msg of Some m \<Rightarrow> Inr m | None \<Rightarrow> Inl (pr_decode_status res), pr_bytes_consumed res))"

locale prompt_stream = prompt_framer try_frame + prompt_source read pending
  for try_frame :: framer_fun and read :: "'t transport_read" and pending :: "'t \<Rightarrow> bytes"
begin

sublocale framed_stream try_frame read pending ..

text \<open>A poll delivers the first frame of the stream, if it fits the ring.\<close>

lemma poll_frame:
  assumes ok: "stream_ok cap pending s" and tf: "try_frame (stream_bytes pending s) = (FS_Ready, sl)"
    and fits: "fs_bytes_consumed sl < cap"
  obtains res msg s' where "poll ops p cap try_frame read s = Some (res, msg, s')" "stream_ok cap pending s'"
    and "stream_bytes pending s' = drop (fs_bytes_consumed sl) (stream_bytes pending s)"
    and "poll_delivery (res, msg) = (decode_any ops p (frame_bytes (stream_bytes pending s) sl), fs_bytes_consumed sl)"
proof -
  obtain res msg s' where poll: "poll ops p cap try_frame read s = Some (res, msg, s')"
    and sound: "poll_sound ops p cap try_frame pending s res msg s'" and ok': "stream_ok cap pending s'"
    and st: "pr_status res \<noteq> PS_NeedMoreData" "pr_status res \<noteq> PS_TransportError"
    using poll_total [OF ok, of ops p] never_stalls by blast
  have "pr_status res \<noteq> PS_BufferExhausted"
  proof
    assume full: "pr_status res = PS_BufferExhausted"
    let ?b = "ring_content (sr_buffer s')"
    have b: "stream_bytes pending s' = stream_bytes pending s" "length ?b = cap - 1" "fst (try_frame ?b) = FS_NeedMoreData"
      using sound full by (auto simp: poll_sound_def Let_def split: prod.splits)
    have "try_frame (?b @ pending (sr_transport s')) = (FS_Ready, sl)"
      using b(1) tf by (simp add: stream_bytes_def)
    from need_more_short [OF this] show False using b(2,3) fits by simp
  qed
  then have "pr_status res = PS_MessageReady \<or> pr_status res = PS_DecodeError"
    using sound st tf by (cases "pr_status res") (auto simp: poll_sound_def)
  then have "poll_delivery (res, msg) = (decode_any ops p (frame_bytes (stream_bytes pending s) sl), fs_bytes_consumed sl)"
    and "stream_bytes pending s' = drop (fs_bytes_consumed sl) (stream_bytes pending s)"
    using sound tf by (auto simp: poll_sound_def poll_delivery_def Let_def)
  then show ?thesis using that poll ok' by blast
qed

lemma polls_deliver:
  "stream_ok cap pending s \<Longrightarrow>
     (\<forall>fn \<in> set (stream_frames try_frame (stream_bytes pending s)). snd fn < cap) \<Longrightarrow>
     \<exists>rs s'. poll_many ops p cap try_frame read (length (stream_frames try_frame (stream_bytes pending s))) s = Some (rs, s') \<and>
       stream_ok cap pending s' \<and> stream_bytes pending s' = stream_rest try_frame (stream_bytes pending s) \<and>
       map poll_delivery rs = map (\<lambda>(frame, n). (decode_any ops p frame, n)) (stream_frames try_frame (stream_bytes pending s))"
proof (induction "length (stream_bytes pending s)" arbitrary: s rule: less_induct)
  case less
  show ?case
  proof (cases "fst (try_frame (stream_bytes pending s)) = FS_Ready")
    case False
    then show ?thesis using less.prems(1) by (simp add: stream_frames_none stream_rest_none)
  next
    case True
    then obtain sl where tf: "try_frame (stream_bytes pending s) = (FS_Ready, sl)"
      by (cases "try_frame (stream_bytes pending s)") auto
    let ?c = "fs_bytes_consumed sl"
    have frames: "stream_frames try_frame (stream_bytes pending s) =
        (frame_bytes (stream_bytes pending s) sl, ?c) # stream_frames try_frame (drop ?c (stream_bytes pending s))"
      by (rule stream_frames_ready [OF tf])
    have "?c < cap" using less.prems(2) by (simp add: frames)
    from poll_frame [OF less.prems(1) tf this, of ops p] obtain res msg s1
      where poll: "poll ops p cap try_frame read s = Some (res, msg, s1)" and ok1: "stream_ok cap pending s1"
        and left: "stream_bytes pending s1 = drop ?c (stream_bytes pending s)"
        and del: "poll_delivery (res, msg) = (decode_any ops p (frame_bytes (stream_bytes pending s) sl), ?c)" .
    have "length (stream_bytes pending s1) < length (stream_bytes pending s)"
      using slice_inside [OF tf] by (simp add: left) linarith
    from less.hyps [OF this ok1] less.prems(2) obtain rs s'
      where "poll_many ops p cap try_frame read (length (stream_frames try_frame (stream_bytes pending s1))) s1 = Some (rs, s')"
        "stream_ok cap pending s'" "stream_bytes pending s' = stream_rest try_frame (stream_bytes pending s1)"
        "map poll_delivery rs = map (\<lambda>(frame, n). (decode_any ops p frame, n)) (stream_frames try_frame (stream_bytes pending s1))"
      by (auto simp: frames left)
    then show ?thesis using poll del by (simp add: frames left stream_rest_ready [OF tf])
  qed
qed

text \<open>A poll after the last frame.\<close>

lemma poll_at_end:
  assumes ok: "stream_ok cap pending s" and tf: "fst (try_frame (stream_bytes pending s)) \<noteq> FS_Ready"
  obtains res s' where "poll ops p cap try_frame read s = Some (res, None, s')"
    and "pr_status res \<in> {PS_EndOfStream, PS_FrameInvalid, PS_BufferExhausted}"
    and "pr_status res = PS_EndOfStream \<longleftrightarrow> stream_bytes pending s = [] \<and> fst (try_frame []) = FS_NeedMoreData"
proof -
  obtain res msg s' where poll: "poll ops p cap try_frame read s = Some (res, msg, s')"
    and sound: "poll_sound ops p cap try_frame pending s res msg s'"
    and st: "pr_status res \<noteq> PS_NeedMoreData" "pr_status res \<noteq> PS_TransportError"
    using poll_total [OF ok, of ops p] never_stalls by blast
  have cap: "1 < cap" using ok by (simp add: stream_ok_def ring_ok_def)
  have set: "msg = None" "pr_status res \<in> {PS_EndOfStream, PS_FrameInvalid, PS_BufferExhausted}"
    using sound st tf by (cases "pr_status res"; auto simp: poll_sound_def Let_def split: prod.splits)+
  have "pr_status res = PS_EndOfStream" if empty: "stream_bytes pending s = []" "fst (try_frame []) = FS_NeedMoreData"
  proof -
    have "pr_status res \<noteq> PS_FrameInvalid"
      using sound empty by (auto simp: poll_sound_def Let_def split: prod.splits)
    moreover have "pr_status res \<noteq> PS_BufferExhausted"
    proof
      assume "pr_status res = PS_BufferExhausted"
      then have "stream_bytes pending s' = []" "length (ring_content (sr_buffer s')) = cap - 1"
        using sound empty(1) by (auto simp: poll_sound_def Let_def split: prod.splits)
      then show False using cap by (simp add: stream_bytes_def)
    qed
    ultimately show ?thesis using set(2) by simp
  qed
  moreover have "pr_status res = PS_EndOfStream \<Longrightarrow> stream_bytes pending s = [] \<and> fst (try_frame []) = FS_NeedMoreData"
    using sound by (auto simp: poll_sound_def Let_def split: prod.splits)
  ultimately show ?thesis using that [of res s'] poll set by blast
qed

end

interpretation fixed_span: prompt_stream "fixed_size_try_frame n" span_read span_pending ..

interpretation length_prefixed_span: prompt_stream "length_prefixed_try_frame opts" span_read span_pending ..

subsection \<open>Properties\<close>

text \<open>C19: A poll always returns, whatever the transport does, and it neither loses nor repeats a byte of
  the stream. It delivers the first frame of the bytes that are buffered or still to be read,
  decoded, and removes just that frame; any other status leaves the stream as it is, and holds of
  it: the framer rejects the stream or the stream ends in a partial frame, the stream is empty, the ring is full and holds no
  complete frame. It asks for more data or reports a transport error only if the transport stalls.\<close>
theorem poll_keeps_stream:
  assumes "framer try_frame" and "byte_source read pending" and "stream_ok cap pending s"
  shows "\<exists>res msg s'. poll ops p cap try_frame read s = Some (res, msg, s') \<and>
    poll_sound ops p cap try_frame pending s res msg s' \<and> stream_ok cap pending s' \<and>
    (pr_status res = PS_NeedMoreData \<or> pr_status res = PS_TransportError \<longrightarrow> stalls read)"
  by (rule framed_stream.poll_total [OF framed_stream.intro [OF assms(1,2)] assms(3)])

theorem poll_keeps_stream_witness:
  "\<forall>ops p. \<exists>res msg s'. poll ops p 8 (fixed_size_try_frame 2) span_read
      (new_stream_runtime 8 (new_span_transport [1, 2, 3] 2) default_stream_runtime_options) = Some (res, msg, s') \<and>
    stream_ok 8 span_pending s'"
proof (intro allI)
  fix ops p
  have ok: "stream_ok 8 span_pending
      (new_stream_runtime 8 (new_span_transport [1, 2, 3] 2) default_stream_runtime_options)"
    by (rule new_stream_ok) simp
  from poll_keeps_stream [OF fixed_size.framer_axioms span.byte_source_axioms ok, of ops p 2]
  show "\<exists>res msg s'. poll ops p 8 (fixed_size_try_frame 2) span_read
      (new_stream_runtime 8 (new_span_transport [1, 2, 3] 2) default_stream_runtime_options) = Some (res, msg, s') \<and>
    stream_ok 8 span_pending s'" by blast
qed

text \<open>C20: Over a \<open>SpanTransport\<close>, whatever its chunk size, repeated polls deliver the frames of the source in
  order, each decoded by \<open>decode_any\<close> with the bytes it consumed, provided every frame fits the ring. The poll after the last frame reports
  the end of the stream exactly when no byte is left over, and otherwise an invalid frame or a
  full buffer.\<close>
theorem stream_delivers_frames:
  assumes "prompt_framer try_frame" and cap: "1 < cap"
    and fits: "\<forall>fn \<in> set (stream_frames try_frame source). snd fn < cap"
  shows "\<exists>rs s' res s''.
    poll_many ops p cap try_frame span_read (length (stream_frames try_frame source))
      (new_stream_runtime cap (new_span_transport source chunk_size) options) = Some (rs, s') \<and>
    map poll_delivery rs = map (\<lambda>(frame, n). (decode_any ops p frame, n)) (stream_frames try_frame source) \<and>
    poll ops p cap try_frame span_read s' = Some (res, None, s'') \<and>
    pr_status res \<in> {PS_EndOfStream, PS_FrameInvalid, PS_BufferExhausted} \<and>
    (pr_status res = PS_EndOfStream \<longleftrightarrow>
       stream_rest try_frame source = [] \<and> fst (try_frame []) = FS_NeedMoreData)"
proof -
  let ?s = "new_stream_runtime cap (new_span_transport source chunk_size) options"
  note ps = prompt_stream.intro [OF assms(1) span.prompt_source_axioms]
  have src: "stream_bytes span_pending ?s = source"
    by (simp add: new_stream_bytes span_pending_def new_span_transport_def)
  from prompt_stream.polls_deliver [OF ps new_stream_ok [OF cap], of _ options, unfolded new_stream_bytes] fits
  obtain rs s' where many: "poll_many ops p cap try_frame span_read (length (stream_frames try_frame source)) ?s = Some (rs, s')"
    and ok: "stream_ok cap span_pending s'" and left: "stream_bytes span_pending s' = stream_rest try_frame source"
    and del: "map poll_delivery rs = map (\<lambda>(frame, n). (decode_any ops p frame, n)) (stream_frames try_frame source)"
    by (metis src new_stream_bytes)
  have "fst (try_frame (stream_bytes span_pending s')) \<noteq> FS_Ready"
    unfolding left by (rule prompt_framer.rest_not_ready [OF assms(1)])
  from prompt_stream.poll_at_end [OF ps ok this, of ops p] many del show ?thesis unfolding left by metis
qed

definition demo_framing :: length_prefixed_options where
  "demo_framing = default_length_prefixed_options\<lparr>lp_prefix_width_bytes := 1\<rparr>"

lemma demo_verdicts:
  "length_prefixed_try_frame demo_framing [2, 7, 8, 1, 9] =
     (FS_Ready, \<lparr>fs_offset = 1, fs_size = 2, fs_bytes_consumed = 3\<rparr>)"
  "length_prefixed_try_frame demo_framing [1, 9] =
     (FS_Ready, \<lparr>fs_offset = 1, fs_size = 1, fs_bytes_consumed = 2\<rparr>)"
  "length_prefixed_try_frame demo_framing [] = (FS_NeedMoreData, empty_slice)"
  by (simp_all add: length_prefixed_try_frame_def demo_framing_def default_length_prefixed_options_def read_prefix_def
      byte_to_u64_def wrap_size_def)

lemma demo_frames:
  "stream_frames (length_prefixed_try_frame demo_framing) [2, 7, 8, 1, 9] = [([7, 8], 3), ([9], 2)]"
  by (simp add: length_prefixed.stream_frames_ready [OF demo_verdicts(1)]
      length_prefixed.stream_frames_ready [OF demo_verdicts(2)] length_prefixed.stream_frames_none demo_verdicts(3)
      frame_bytes_def subspan_def)

theorem stream_delivers_frames_witness:
  "\<forall>ops p. \<exists>rs s' res s''.
    poll_many ops p 5 (length_prefixed_try_frame demo_framing) span_read 2
      (new_stream_runtime 5 (new_span_transport [2, 7, 8, 1, 9] 2) default_stream_runtime_options) = Some (rs, s') \<and>
    map poll_delivery rs = [(decode_any ops p [7, 8], 3), (decode_any ops p [9], 2)] \<and>
    poll ops p 5 (length_prefixed_try_frame demo_framing) span_read s' = Some (res, None, s'') \<and>
    pr_status res = PS_EndOfStream"
proof (intro allI)
  fix ops p
  have fits: "\<forall>fn \<in> set (stream_frames (length_prefixed_try_frame demo_framing) [2, 7, 8, 1, 9]). snd fn < 5"
    by (simp add: demo_frames)
  have rest: "stream_rest (length_prefixed_try_frame demo_framing) [2, 7, 8, 1, 9] = []"
    by (simp add: stream_rest_def demo_frames)
  have len: "length [([7, 8] :: bytes, 3 :: nat), ([9], 2)] = 2" by simp
  from stream_delivers_frames [OF length_prefixed.prompt_framer_axioms _ fits, of ops p 2 default_stream_runtime_options]
  obtain rs s' res s'' where
    "poll_many ops p 5 (length_prefixed_try_frame demo_framing) span_read 2
      (new_stream_runtime 5 (new_span_transport [2, 7, 8, 1, 9] 2) default_stream_runtime_options) = Some (rs, s')"
    "map poll_delivery rs = [(decode_any ops p [7, 8], 3), (decode_any ops p [9], 2)]"
    "poll ops p 5 (length_prefixed_try_frame demo_framing) span_read s' = Some (res, None, s'')"
    "pr_status res = PS_EndOfStream"
    unfolding demo_frames len rest demo_verdicts(3) list.map prod.case by auto
  then show "\<exists>rs s' res s''.
    poll_many ops p 5 (length_prefixed_try_frame demo_framing) span_read 2
      (new_stream_runtime 5 (new_span_transport [2, 7, 8, 1, 9] 2) default_stream_runtime_options) = Some (rs, s') \<and>
    map poll_delivery rs = [(decode_any ops p [7, 8], 3), (decode_any ops p [9], 2)] \<and>
    poll ops p 5 (length_prefixed_try_frame demo_framing) span_read s' = Some (res, None, s'') \<and>
    pr_status res = PS_EndOfStream" by (intro exI conjI)
qed

end
