(* ===== verification/Frame_Channel.thy ===== *)
theory Frame_Channel
  imports Stream_Properties
begin

text \<open>
  \<open>FrameChannel\<close> of \<open>adapters/frame_channel.cpp\<close>, the writable transport interface of
  \<open>adapters/byte_stream_transport.hpp\<close> and the capability masks of
  \<open>adapters/transport_capabilities.hpp\<close>.

  A transport is its state and the record of the functions of \<open>IByteStreamTransport\<close> that a channel calls.
  A \<open>Status\<close> is its code, the message texts are left out; a \<open>StatusOr\<close> is a sum. The loops that wait for the transport
  have fuel, and \<open>None\<close> is a call that has not returned.
\<close>

subsection \<open>Capabilities\<close>

datatype transport_capability =
    TC_Stream | TC_Datagram | TC_ZeroCopyReceive | TC_ZeroCopySend | TC_SharedMemory
  | TC_KernelBatching | TC_OutOfOrderCompletions | TC_PreservesFrameBoundaries

fun capability_mask :: "transport_capability \<Rightarrow> u32" where
  "capability_mask TC_Stream = push_bit 0 1"
| "capability_mask TC_Datagram = push_bit 1 1"
| "capability_mask TC_ZeroCopyReceive = push_bit 2 1"
| "capability_mask TC_ZeroCopySend = push_bit 3 1"
| "capability_mask TC_SharedMemory = push_bit 4 1"
| "capability_mask TC_KernelBatching = push_bit 5 1"
| "capability_mask TC_OutOfOrderCompletions = push_bit 6 1"
| "capability_mask TC_PreservesFrameBoundaries = push_bit 7 1"

definition has_capability :: "u32 \<Rightarrow> transport_capability \<Rightarrow> bool" where
  "has_capability caps capability \<longleftrightarrow> caps AND capability_mask capability \<noteq> 0"

subsection \<open>\<open>IByteStreamTransport\<close>\<close>

record write_result =
  wr_bytes_written :: nat
  wr_would_block :: bool
  wr_status :: status_code

record transport_lease =
  tl_bytes :: bytes
  tl_token :: nat
  tl_valid :: bool

record 't byte_stream_ops =
  bs_read :: "'t transport_read"
  bs_write :: "'t \<Rightarrow> bytes \<Rightarrow> write_result \<times> 't"
  bs_writev :: "'t \<Rightarrow> bytes list \<Rightarrow> write_result \<times> 't"
  bs_wait_until_writable :: "'t \<Rightarrow> (status_code + bool) \<times> 't"
  bs_capabilities :: "'t \<Rightarrow> u32"
  bs_try_acquire_receive_buffer :: "'t \<Rightarrow> (status_code + transport_lease) \<times> 't"
  bs_release_receive_buffer :: "'t \<Rightarrow> transport_lease \<Rightarrow> status_code \<times> 't"

text \<open>\<open>IByteStreamTransport::writev\<close>, which a transport inherits unless it overrides it.\<close>

fun default_writev_loop ::
  "('t \<Rightarrow> bytes \<Rightarrow> write_result \<times> 't) \<Rightarrow> bytes list \<Rightarrow> nat \<Rightarrow> 't \<Rightarrow> write_result \<times> 't" where
  "default_writev_loop write [] n t =
     (\<lparr>wr_bytes_written = n, wr_would_block = False, wr_status = SC_Ok\<rparr>, t)"
| "default_writev_loop write (source # sources) n t =
     (if source = [] then default_writev_loop write sources n t
      else
        let (result, t) = write t source in
        if wr_status result \<noteq> SC_Ok \<or> wr_would_block result then
          (\<lparr>wr_bytes_written = n + wr_bytes_written result, wr_would_block = wr_would_block result,
            wr_status = wr_status result\<rparr>, t)
        else
          let n = n + wr_bytes_written result in
          if wr_bytes_written result \<noteq> length source then
            (\<lparr>wr_bytes_written = n, wr_would_block = True, wr_status = SC_Ok\<rparr>, t)
          else default_writev_loop write sources n t)"

definition default_writev ::
  "('t \<Rightarrow> bytes \<Rightarrow> write_result \<times> 't) \<Rightarrow> 't \<Rightarrow> bytes list \<Rightarrow> write_result \<times> 't" where
  "default_writev write t sources = default_writev_loop write sources 0 t"

subsection \<open>The channel\<close>

record frame_channel_options =
  fo_prefix_width_bytes :: nat
  fo_max_frame_size :: nat

definition default_frame_channel_options :: frame_channel_options where
  "default_frame_channel_options = \<lparr>fo_prefix_width_bytes = 4, fo_max_frame_size = 2 ^ 20\<rparr>"

datatype frame_channel_poll_status =
    FCS_FrameReady | FCS_NeedMoreData | FCS_WouldBlock | FCS_EndOfStream | FCS_FrameTooLarge
  | FCS_TransportError

record frame_channel_poll_result =
  fp_status :: frame_channel_poll_status
  fp_bytes_transferred :: nat
  fp_transport_status :: status_code

definition channel_result :: "frame_channel_poll_status \<Rightarrow> frame_channel_poll_result" where
  "channel_result st = \<lparr>fp_status = st, fp_bytes_transferred = 0, fp_transport_status = SC_Ok\<rparr>"

record 't frame_channel =
  fc_transport :: 't
  fc_options :: frame_channel_options
  fc_stream_buffer :: bytes
  fc_stream_buffer_offset :: nat
  fc_scratch_prefix :: bytes
  fc_scratch_read_buffer :: bytes

definition new_frame_channel :: "'t \<Rightarrow> frame_channel_options \<Rightarrow> 't frame_channel" where
  "new_frame_channel transport options =
     \<lparr>fc_transport = transport, fc_options = options, fc_stream_buffer = [], fc_stream_buffer_offset = 0,
      fc_scratch_prefix = replicate (fo_prefix_width_bytes options) 0, fc_scratch_read_buffer = replicate 4096 0\<rparr>"

text \<open>For widths of at most eight bytes; a wider prefix shifts a \<open>size_t\<close> by its width.\<close>

definition encode_little_endian :: "nat \<Rightarrow> nat \<Rightarrow> bytes" where
  "encode_little_endian value width = map (\<lambda>index. word_of_nat (value div 2 ^ (index * 8))) [0..<width]"

definition decode_little_endian :: "bytes \<Rightarrow> nat" where
  "decode_little_endian bs = unat (read_le_loop 0 0 bs)"

subsection \<open>Sending\<close>

fun write_fully_loop ::
  "nat \<Rightarrow> 't byte_stream_ops \<Rightarrow> bytes \<Rightarrow> nat \<Rightarrow> 't \<Rightarrow> (status_code \<times> 't) option" where
  "write_fully_loop 0 ops bs offset t = None"
| "write_fully_loop (Suc fuel) ops bs offset t =
     (if offset < length bs then
        let (result, t) = bs_write ops t (drop offset bs) in
        if wr_status result \<noteq> SC_Ok then Some (wr_status result, t)
        else
          let offset = offset + wr_bytes_written result in
          if offset = length bs then Some (SC_Ok, t)
          else if \<not> wr_would_block result \<and> wr_bytes_written result = 0 then Some (SC_IoError, t)
          else
            (case bs_wait_until_writable ops t of
               (Inl e, t) \<Rightarrow> Some (e, t)
             | (Inr writable, t) \<Rightarrow>
                 if \<not> writable then Some (SC_Exhausted, t) else write_fully_loop fuel ops bs offset t)
      else Some (SC_Ok, t))"

definition write_fully :: "nat \<Rightarrow> 't byte_stream_ops \<Rightarrow> bytes \<Rightarrow> 't \<Rightarrow> (status_code \<times> 't) option" where
  "write_fully fuel ops bs t = write_fully_loop fuel ops bs 0 t"

text \<open>
  \<open>write_spans_fully\<close> keeps the spans from \<open>span_index\<close> on and \<open>span_offset\<close>. \<open>skip_spans\<close> is its loop over
  exhausted spans, \<open>advance_spans\<close> the loop that distributes the written bytes.
\<close>

fun skip_spans :: "bytes list \<Rightarrow> nat \<Rightarrow> bytes list \<times> nat" where
  "skip_spans [] span_offset = ([], span_offset)"
| "skip_spans (span # spans) span_offset =
     (if length span \<le> span_offset then skip_spans spans 0 else (span # spans, span_offset))"

fun advance_spans :: "nat \<Rightarrow> bytes list \<Rightarrow> nat \<Rightarrow> bytes list \<times> nat" where
  "advance_spans consumed [] span_offset = ([], span_offset)"
| "advance_spans consumed (span # spans) span_offset =
     (if consumed = 0 then (span # spans, span_offset)
      else
        let remaining = length span - span_offset in
        if consumed < remaining then (span # spans, span_offset + consumed)
        else advance_spans (consumed - remaining) spans 0)"

fun pending_spans :: "bytes list \<Rightarrow> nat \<Rightarrow> bytes list" where
  "pending_spans [] span_offset = []"
| "pending_spans [span] span_offset = [drop span_offset span]"
| "pending_spans (span # next_span # spans) span_offset =
     (if next_span \<noteq> [] then [drop span_offset span, next_span] else [drop span_offset span])"

fun write_spans_loop ::
  "nat \<Rightarrow> 't byte_stream_ops \<Rightarrow> bytes list \<Rightarrow> nat \<Rightarrow> 't \<Rightarrow> (status_code \<times> 't) option" where
  "write_spans_loop 0 ops spans span_offset t = None"
| "write_spans_loop (Suc fuel) ops spans span_offset t =
     (case skip_spans spans span_offset of (spans, span_offset) \<Rightarrow>
      if spans = [] then Some (SC_Ok, t)
      else
        let (result, t) = bs_writev ops t (pending_spans spans span_offset) in
        if wr_status result \<noteq> SC_Ok then Some (wr_status result, t)
        else
          (case advance_spans (wr_bytes_written result) spans span_offset of (spans, span_offset) \<Rightarrow>
           if spans = [] then Some (SC_Ok, t)
           else if \<not> wr_would_block result \<and> wr_bytes_written result = 0 then Some (SC_IoError, t)
           else
             (case bs_wait_until_writable ops t of
                (Inl e, t) \<Rightarrow> Some (e, t)
              | (Inr writable, t) \<Rightarrow>
                  if \<not> writable then Some (SC_Exhausted, t)
                  else write_spans_loop fuel ops spans span_offset t)))"

definition write_spans_fully :: "nat \<Rightarrow> 't byte_stream_ops \<Rightarrow> bytes list \<Rightarrow> 't \<Rightarrow> (status_code \<times> 't) option" where
  "write_spans_fully fuel ops spans t = write_spans_loop fuel ops spans 0 t"

definition write_frame_prefix :: "nat \<Rightarrow> 't frame_channel \<Rightarrow> status_code \<times> 't frame_channel" where
  "write_frame_prefix frame_size c =
     (SC_Ok, c\<lparr>fc_scratch_prefix := encode_little_endian frame_size (fo_prefix_width_bytes (fc_options c))\<rparr>)"

definition preserves_frames :: "'t byte_stream_ops \<Rightarrow> 't frame_channel \<Rightarrow> bool" where
  "preserves_frames ops c \<longleftrightarrow>
     has_capability (bs_capabilities ops (fc_transport c)) TC_PreservesFrameBoundaries"

definition send_frame ::
  "nat \<Rightarrow> 't byte_stream_ops \<Rightarrow> bytes \<Rightarrow> 't frame_channel \<Rightarrow> (status_code \<times> 't frame_channel) option" where
  "send_frame fuel ops frame c =
     (if length frame > fo_max_frame_size (fc_options c) then Some (SC_Exhausted, c)
      else if preserves_frames ops c then
        map_option (\<lambda>(st, t). (st, c\<lparr>fc_transport := t\<rparr>)) (write_fully fuel ops frame (fc_transport c))
      else
        let (prefix_status, c) = write_frame_prefix (length frame) c in
        if prefix_status \<noteq> SC_Ok then Some (prefix_status, c)
        else map_option (\<lambda>(st, t). (st, c\<lparr>fc_transport := t\<rparr>))
          (write_spans_fully fuel ops [fc_scratch_prefix c, frame] (fc_transport c)))"

fun send_frames ::
  "nat \<Rightarrow> 't byte_stream_ops \<Rightarrow> bytes list \<Rightarrow> 't frame_channel \<Rightarrow> (status_code \<times> 't frame_channel) option" where
  "send_frames fuel ops [] c = Some (SC_Ok, c)"
| "send_frames fuel ops (frame # frames) c =
     (case send_frame fuel ops frame c of
        None \<Rightarrow> None
      | Some (st, c) \<Rightarrow> if st \<noteq> SC_Ok then Some (st, c) else send_frames fuel ops frames c)"

subsection \<open>Receiving\<close>

definition try_parse_frame_length :: "'t frame_channel \<Rightarrow> status_code + nat" where
  "try_parse_frame_length c =
     (let readable_bytes = length (fc_stream_buffer c) - fc_stream_buffer_offset c;
          width = fo_prefix_width_bytes (fc_options c) in
      if readable_bytes < width then Inl SC_NotFound
      else
        let frame_length = decode_little_endian (subspan (fc_stream_buffer_offset c) width (fc_stream_buffer c)) in
        if frame_length > fo_max_frame_size (fc_options c) then Inl SC_Exhausted else Inr frame_length)"

definition compact_stream_buffer :: "'t frame_channel \<Rightarrow> 't frame_channel" where
  "compact_stream_buffer c =
     (if fc_stream_buffer_offset c = 0 then c
      else if fc_stream_buffer_offset c \<ge> length (fc_stream_buffer c) then
        c\<lparr>fc_stream_buffer := [], fc_stream_buffer_offset := 0\<rparr>
      else c\<lparr>fc_stream_buffer := drop (fc_stream_buffer_offset c) (fc_stream_buffer c),
             fc_stream_buffer_offset := 0\<rparr>)"

definition fill_stream_buffer ::
  "'t byte_stream_ops \<Rightarrow> 't frame_channel \<Rightarrow> frame_channel_poll_result \<times> 't frame_channel" where
  "fill_stream_buffer ops c =
     (let unread_bytes = length (fc_stream_buffer c) - fc_stream_buffer_offset c;
          c = (if fc_stream_buffer_offset c > 0 \<and>
                 (unread_bytes = 0 \<or> fc_stream_buffer_offset c \<ge> length (fc_stream_buffer c) div 2)
               then compact_stream_buffer c else c);
          target_read_size =
            (if fo_max_frame_size (fc_options c) > 4096 then min (fo_max_frame_size (fc_options c)) 65536 else 4096);
          scratch =
            (if length (fc_scratch_read_buffer c) \<noteq> target_read_size
             then take target_read_size (fc_scratch_read_buffer c @ replicate target_read_size 0)
             else fc_scratch_read_buffer c);
          (result, scratch, t) = bs_read ops (fc_transport c) scratch;
          c = c\<lparr>fc_transport := t, fc_scratch_read_buffer := scratch\<rparr> in
      if rr_status result \<noteq> SC_Ok then
        ((channel_result FCS_TransportError)\<lparr>fp_transport_status := rr_status result\<rparr>, c)
      else if rr_bytes_read result > 0 then
        ((channel_result FCS_NeedMoreData)\<lparr>fp_bytes_transferred := rr_bytes_read result\<rparr>,
         c\<lparr>fc_stream_buffer := fc_stream_buffer c @ take (rr_bytes_read result) scratch\<rparr>)
      else if rr_would_block result then (channel_result FCS_WouldBlock, c)
      else if rr_end_of_stream result then (channel_result FCS_EndOfStream, c)
      else (channel_result FCS_NeedMoreData, c))"

fun acquire_loop ::
  "nat \<Rightarrow> 't byte_stream_ops \<Rightarrow> 't frame_channel \<Rightarrow> ((status_code + transport_lease) \<times> 't frame_channel) option" where
  "acquire_loop 0 ops c = None"
| "acquire_loop (Suc fuel) ops c =
     (case try_parse_frame_length c of
        Inr frame_length \<Rightarrow>
          let width = fo_prefix_width_bytes (fc_options c);
              required_bytes = wrap_size (width + frame_length) in
          if length (fc_stream_buffer c) - fc_stream_buffer_offset c < required_bytes then
            (case fill_stream_buffer ops c of (fill_result, c) \<Rightarrow>
              if fp_status fill_result \<noteq> FCS_NeedMoreData then Some (Inl SC_NotFound, c)
              else acquire_loop fuel ops c)
          else
            let frame_offset = fc_stream_buffer_offset c + width in
            Some (Inr \<lparr>tl_bytes = subspan frame_offset frame_length (fc_stream_buffer c),
                       tl_token = frame_offset, tl_valid = True\<rparr>, c)
      | Inl e \<Rightarrow>
          if e = SC_Exhausted then Some (Inl e, c)
          else
            (case fill_stream_buffer ops c of (fill_result, c) \<Rightarrow>
              if fp_status fill_result = FCS_TransportError then Some (Inl (fp_transport_status fill_result), c)
              else if fp_status fill_result = FCS_EndOfStream then Some (Inl SC_NotFound, c)
              else if fp_status fill_result = FCS_WouldBlock then Some (Inl SC_NotFound, c)
              else acquire_loop fuel ops c))"

definition try_acquire_frame ::
  "nat \<Rightarrow> 't byte_stream_ops \<Rightarrow> 't frame_channel \<Rightarrow> ((status_code + transport_lease) \<times> 't frame_channel) option" where
  "try_acquire_frame fuel ops c =
     (if preserves_frames ops c then
        let (lease, t) = bs_try_acquire_receive_buffer ops (fc_transport c) in
        Some (lease, c\<lparr>fc_transport := t\<rparr>)
      else acquire_loop fuel ops c)"

definition release_frame ::
  "'t byte_stream_ops \<Rightarrow> transport_lease \<Rightarrow> 't frame_channel \<Rightarrow> status_code \<times> 't frame_channel" where
  "release_frame ops lease c =
     (if preserves_frames ops c then
        let (st, t) = bs_release_receive_buffer ops (fc_transport c) lease in (st, c\<lparr>fc_transport := t\<rparr>)
      else if \<not> tl_valid lease then (SC_InvalidArgument, c)
      else
        (SC_Ok, compact_stream_buffer (c\<lparr>fc_stream_buffer_offset :=
           fc_stream_buffer_offset c + fo_prefix_width_bytes (fc_options c) + length (tl_bytes lease)\<rparr>)))"

text \<open>The result, the frame if one is stored, and the channel.\<close>

definition receive_frame ::
  "nat \<Rightarrow> 't byte_stream_ops \<Rightarrow> 't frame_channel \<Rightarrow>
     (frame_channel_poll_result \<times> bytes option \<times> 't frame_channel) option" where
  "receive_frame fuel ops c =
     (case try_acquire_frame fuel ops c of
        None \<Rightarrow> None
      | Some (Inl e, c) \<Rightarrow>
          if e = SC_NotFound then Some (channel_result FCS_NeedMoreData, None, c)
          else Some ((channel_result FCS_TransportError)\<lparr>fp_transport_status := e\<rparr>, None, c)
      | Some (Inr lease, c) \<Rightarrow>
          if \<not> tl_valid lease then Some (channel_result FCS_NeedMoreData, None, c)
          else
            Some ((channel_result FCS_FrameReady)\<lparr>fp_bytes_transferred := length (tl_bytes lease)\<rparr>,
              Some (tl_bytes lease), snd (release_frame ops lease c)))"

end
