(* ===== verification/Frame_Channel_Properties.thy ===== *)
theory Frame_Channel_Properties
  imports Frame_Channel
begin

text \<open>
  Properties of \<open>FrameChannel\<close>: the bytes a sender puts on the wire, what a receiver makes of the
  bytes it reads, and the round trip of any list of frames through a stream.
\<close>

subsection \<open>The wire format\<close>

definition wire_frame :: "nat \<Rightarrow> bytes \<Rightarrow> bytes" where
  "wire_frame width frame = encode_little_endian (length frame) width @ frame"

definition wire_stream :: "nat \<Rightarrow> bytes list \<Rightarrow> bytes" where
  "wire_stream width frames = concat (map (wire_frame width) frames)"

lemma wire_stream_simps [simp]:
  "wire_stream width [] = []"
  "wire_stream width (frame # frames) = encode_little_endian (length frame) width @ frame @ wire_stream width frames"
  by (simp_all add: wire_stream_def wire_frame_def)

lemma length_encode [simp]: "length (encode_little_endian n width) = width"
  by (simp add: encode_little_endian_def)

lemma encode_host_bytes:
  assumes "n < 2 ^ 64"
  shows "encode_little_endian n width = host_bytes width (word_of_nat n :: u64)"
proof -
  have "ucast (drop_bit (8 * i) (word_of_nat n :: u64)) = (word_of_nat (n div 2 ^ (i * 8)) :: u8)" for i
  proof -
    have "unat (word_of_nat n :: u64) = n" by (rule unat_word_of_nat) (use assms in simp)
    then have "unat (drop_bit (8 * i) (word_of_nat n :: u64)) = n div 2 ^ (i * 8)"
      by (simp only: unat_drop_bit_eq drop_bit_eq_div [of _ n] mult.commute [of i])
    then show ?thesis by (metis of_nat_unat)
  qed
  then show ?thesis by (simp add: encode_little_endian_def host_bytes_def)
qed

lemma decode_encode:
  assumes n: "n < 2 ^ (8 * width)" and w: "width \<le> 8"
  shows "decode_little_endian (encode_little_endian n width) = n"
proof -
  have "(2::nat) ^ (8 * width) \<le> 2 ^ 64" by (rule power_increasing) (use w in simp_all)
  then have n64: "n < 2 ^ 64" using n by linarith
  have "take_bit (8 * width) (word_of_nat n :: u64) = word_of_nat (take_bit (8 * width) n)"
    by (simp add: take_bit_of_nat)
  also have "take_bit (8 * width) n = n" using n by (simp add: take_bit_nat_eq_self)
  finally have "decode_little_endian (encode_little_endian n width) = unat (word_of_nat n :: u64)"
    by (simp only: decode_little_endian_def encode_host_bytes [OF n64] read_le_host_bytes)
  also have "\<dots> = n" by (rule unat_word_of_nat) (use n64 in simp)
  finally show ?thesis .
qed

subsection \<open>Sending\<close>

text \<open>
  The contract of a transport that accepts a byte stream: a write takes the first bytes of its spans,
  and nothing else changes what was accepted. A \<open>willing\<close> transport always takes at least one byte.
\<close>

locale byte_sink =
  fixes ops :: "'t byte_stream_ops" and sink :: "'t \<Rightarrow> bytes"
  assumes streams: "\<not> has_capability (bs_capabilities ops t) TC_PreservesFrameBoundaries"
    and writev_law: "bs_writev ops t spans = (r, t') \<Longrightarrow>
      wr_bytes_written r \<le> length (concat spans) \<and>
      sink t' = sink t @ take (wr_bytes_written r) (concat spans)"
    and wait_law: "bs_wait_until_writable ops t = (w, t') \<Longrightarrow> sink t' = sink t \<and> w \<noteq> Inl SC_Ok"

definition left_to_send :: "bytes list \<Rightarrow> nat \<Rightarrow> bytes" where
  "left_to_send spans offset = drop offset (concat spans)"

lemma skip_spans_left:
  "skip_spans spans offset = (spans', offset') \<Longrightarrow> (spans = [] \<or> offset \<le> length (hd spans)) \<Longrightarrow>
     left_to_send spans' offset' = left_to_send spans offset \<and> (spans' = [] \<or> offset' < length (hd spans'))"
proof (induction spans offset arbitrary: spans' offset' rule: skip_spans.induct)
  case (2 span spans offset)
  show ?case
  proof (cases "length span \<le> offset")
    case True
    then have "skip_spans spans 0 = (spans', offset')" "length span = offset" using 2 by simp_all
    then show ?thesis using 2(1) [OF True] by (simp add: left_to_send_def)
  qed (use 2 in auto)
qed simp

lemma advance_spans_left:
  "advance_spans n spans offset = (spans', offset') \<Longrightarrow> (spans = [] \<or> offset \<le> length (hd spans)) \<Longrightarrow>
     n \<le> length (left_to_send spans offset) \<Longrightarrow>
     left_to_send spans' offset' = drop n (left_to_send spans offset) \<and> (spans' = [] \<or> offset' \<le> length (hd spans'))"
proof (induction n spans offset arbitrary: spans' offset' rule: advance_spans.induct)
  case (2 n span spans offset)
  let ?r = "length span - offset"
  consider "n = 0" | (inner) "0 < n" "n < ?r" | (outer) "0 < n" "?r \<le> n" by linarith
  then show ?case
  proof cases
    case inner
    then show ?thesis using 2 by (auto simp: left_to_send_def add.commute)
  next
    case outer
    have le: "offset \<le> length span" using 2(3) by simp
    have "advance_spans (n - ?r) spans 0 = (spans', offset')" using 2(2) outer by simp
    moreover have "n - ?r \<le> length (left_to_send spans 0)" using 2(4) le by (simp add: left_to_send_def)
    ultimately have "left_to_send spans' offset' = drop (n - ?r) (left_to_send spans 0) \<and>
        (spans' = [] \<or> offset' \<le> length (hd spans'))"
      using 2(1) [OF _ refl] outer by simp
    then show ?thesis using le outer by (simp add: left_to_send_def add.commute)
  qed (use 2 in auto)
qed (simp add: left_to_send_def)

lemma pending_spans_prefix:
  "spans \<noteq> [] \<Longrightarrow> offset < length (hd spans) \<Longrightarrow>
     \<exists>ys. left_to_send spans offset = concat (pending_spans spans offset) @ ys \<and> concat (pending_spans spans offset) \<noteq> []"
  by (induction spans offset rule: pending_spans.induct) (auto simp: left_to_send_def)

context byte_sink
begin

text \<open>A vectored write that returns has sent a prefix of the spans, and all of them if it reports success.\<close>

lemma write_spans_loop_sends:
  "write_spans_loop fuel ops spans offset t = Some (st, t') \<Longrightarrow> (spans = [] \<or> offset \<le> length (hd spans)) \<Longrightarrow>
     \<exists>n. sink t' = sink t @ take n (left_to_send spans offset) \<and>
       (st = SC_Ok \<longrightarrow> n = length (left_to_send spans offset))"
proof (induction fuel arbitrary: spans offset t)
  case (Suc fuel)
  obtain spans1 offset1 where skip: "skip_spans spans offset = (spans1, offset1)"
    by (cases "skip_spans spans offset")
  note skipped = skip_spans_left [OF skip Suc.prems(2)]
  show ?case
  proof (cases "spans1 = []")
    case True
    then have "st = SC_Ok" "t' = t" using Suc.prems(1) skip by simp_all
    then show ?thesis using skipped True by (auto simp: left_to_send_def)
  next
    case False
    then have lt: "offset1 < length (hd spans1)" using skipped by simp
    obtain r t1 where wv: "bs_writev ops t (pending_spans spans1 offset1) = (r, t1)"
      by (cases "bs_writev ops t (pending_spans spans1 offset1)")
    let ?n = "wr_bytes_written r" and ?left = "left_to_send spans offset"
    obtain ys where ys: "?left = concat (pending_spans spans1 offset1) @ ys"
      using pending_spans_prefix [OF False lt] skipped by auto
    have sent: "sink t1 = sink t @ take ?n ?left" "?n \<le> length ?left"
      using writev_law [OF wv] by (simp_all add: ys)
    obtain spans2 offset2 where adv: "advance_spans ?n spans1 offset1 = (spans2, offset2)"
      by (cases "advance_spans ?n spans1 offset1")
    have "offset1 \<le> length (hd spans1)" "?n \<le> length (left_to_send spans1 offset1)" using lt sent skipped by simp_all
    then have advanced: "left_to_send spans2 offset2 = drop ?n ?left" "spans2 = [] \<or> offset2 \<le> length (hd spans2)"
      using advance_spans_left [OF adv] skipped by simp_all
    obtain w t2 where wt: "bs_wait_until_writable ops t1 = (w, t2)" by (cases "bs_wait_until_writable ops t1")
    have kept: "sink t2 = sink t1" "w \<noteq> Inl SC_Ok" using wait_law [OF wt] by simp_all
    have run: "(if wr_status r \<noteq> SC_Ok then Some (wr_status r, t1)
        else if spans2 = [] then Some (SC_Ok, t1)
        else if \<not> wr_would_block r \<and> ?n = 0 then Some (SC_IoError, t1)
        else (case w of Inl e \<Rightarrow> Some (e, t2)
          | Inr writable \<Rightarrow> if \<not> writable then Some (SC_Exhausted, t2) else write_spans_loop fuel ops spans2 offset2 t2)) =
      Some (st, t')"
      using Suc.prems(1) by (simp only: write_spans_loop.simps skip wv adv wt prod.case Let_def False if_False)
    show ?thesis
    proof (cases "wr_status r = SC_Ok \<and> spans2 \<noteq> [] \<and> w = Inr True \<and> \<not> (\<not> wr_would_block r \<and> ?n = 0)")
      case True
      then have "write_spans_loop fuel ops spans2 offset2 t2 = Some (st, t')" using run by (auto split: if_splits)
      from Suc.IH [OF this advanced(2)] obtain m where
        m: "sink t' = sink t2 @ take m (drop ?n ?left)" "st = SC_Ok \<longrightarrow> m = length ?left - ?n"
        unfolding advanced(1) length_drop by blast
      have "sink t' = sink t @ take (?n + m) ?left" using m(1) kept sent by (simp add: take_add)
      then show ?thesis using m(2) sent(2) by (intro exI [of _ "?n + m"]) simp
    next
      case False
      then have t': "sink t' = sink t1" and st: "st = SC_Ok \<Longrightarrow> spans2 = []"
        using run kept by (auto split: if_splits sum.splits)
      have "st = SC_Ok \<longrightarrow> ?n = length ?left"
        using st advanced(1) sent(2) by (auto simp: left_to_send_def)
      then show ?thesis using t' sent(1) by (intro exI [of _ ?n]) simp
    qed
  qed
qed simp

lemma send_frame_sends:
  assumes "send_frame fuel ops frame c = Some (st, c')"
  shows "fc_options c' = fc_options c \<and>
    (\<exists>n. sink (fc_transport c') =
       sink (fc_transport c) @ take n (wire_frame (fo_prefix_width_bytes (fc_options c)) frame)) \<and>
    (st = SC_Ok \<longrightarrow> sink (fc_transport c') =
       sink (fc_transport c) @ wire_frame (fo_prefix_width_bytes (fc_options c)) frame)"
proof (cases "length frame > fo_max_frame_size (fc_options c)")
  case True
  then have "c' = c" "st = SC_Exhausted" using assms by (simp_all add: send_frame_def)
  then show ?thesis by (auto intro: exI [of _ 0])
next
  case False
  let ?prefix = "encode_little_endian (length frame) (fo_prefix_width_bytes (fc_options c))"
  obtain t where loop: "write_spans_loop fuel ops [?prefix, frame] 0 (fc_transport c) = Some (st, t)"
    and c': "fc_transport c' = t" "fc_options c' = fc_options c"
    using assms False streams
    by (auto simp: send_frame_def preserves_frames_def write_frame_prefix_def write_spans_fully_def)
  from write_spans_loop_sends [OF loop] show ?thesis
    by (auto simp: c' left_to_send_def wire_frame_def)
qed

lemma send_frames_sends:
  "send_frames fuel ops frames c = Some (st, c') \<Longrightarrow>
     fc_options c' = fc_options c \<and>
     (\<exists>n. sink (fc_transport c') =
        sink (fc_transport c) @ take n (wire_stream (fo_prefix_width_bytes (fc_options c)) frames)) \<and>
     (st = SC_Ok \<longrightarrow> sink (fc_transport c') =
        sink (fc_transport c) @ wire_stream (fo_prefix_width_bytes (fc_options c)) frames)"
proof (induction frames arbitrary: c)
  case Nil
  then show ?case by simp
next
  case (Cons frame frames)
  let ?w = "fo_prefix_width_bytes (fc_options c)"
  obtain st1 c1 where one: "send_frame fuel ops frame c = Some (st1, c1)"
    using Cons.prems by (auto split: option.splits)
  have stream: "wire_stream ?w (frame # frames) = wire_frame ?w frame @ wire_stream ?w frames"
    by (simp add: wire_frame_def)
  note sent = send_frame_sends [OF one]
  show ?case
  proof (cases "st1 = SC_Ok")
    case True
    then have rest: "send_frames fuel ops frames c1 = Some (st, c')" using Cons.prems one by simp
    have same: "fc_options c1 = fc_options c" using sent by simp
    from Cons.IH [OF rest, unfolded same] obtain n where
      n: "sink (fc_transport c') = sink (fc_transport c1) @ take n (wire_stream ?w frames)"
      and full: "st = SC_Ok \<longrightarrow> sink (fc_transport c') = sink (fc_transport c1) @ wire_stream ?w frames"
      and opts: "fc_options c' = fc_options c" by blast
    have c1: "sink (fc_transport c1) = sink (fc_transport c) @ wire_frame ?w frame" using sent True by simp
    have "sink (fc_transport c') = sink (fc_transport c) @ take (length (wire_frame ?w frame) + n) (wire_stream ?w (frame # frames))"
      unfolding stream n c1 by simp
    moreover have "st = SC_Ok \<longrightarrow> sink (fc_transport c') = sink (fc_transport c) @ wire_stream ?w (frame # frames)"
      using full c1 unfolding stream by simp
    ultimately show ?thesis using opts by blast
  next
    case False
    then have "st = st1" "c' = c1" using Cons.prems one by simp_all
    moreover obtain n where "sink (fc_transport c1) = sink (fc_transport c) @ take n (wire_frame ?w frame)"
      using sent by blast
    then have "sink (fc_transport c1) =
        sink (fc_transport c) @ take (min n (length (wire_frame ?w frame))) (wire_stream ?w (frame # frames))"
      unfolding stream by (simp add: min_def)
    ultimately show ?thesis using False sent by blast
  qed
qed

end

locale willing_sink = byte_sink +
  fixes ready :: "'a \<Rightarrow> bool"
  assumes willing: "ready t \<Longrightarrow> bs_writev ops t spans = (r, t') \<Longrightarrow> concat spans \<noteq> [] \<Longrightarrow>
      wr_status r = SC_Ok \<and> 0 < wr_bytes_written r \<and> ready t'"
    and writable: "ready t \<Longrightarrow> \<exists>t'. bs_wait_until_writable ops t = (Inr True, t') \<and> ready t'"
begin

lemma write_spans_loop_total:
  "(spans = [] \<or> offset \<le> length (hd spans)) \<Longrightarrow> length (left_to_send spans offset) < fuel \<Longrightarrow> ready t \<Longrightarrow>
     \<exists>t'. write_spans_loop fuel ops spans offset t = Some (SC_Ok, t') \<and> ready t'"
proof (induction fuel arbitrary: spans offset t)
  case (Suc fuel)
  obtain spans1 offset1 where skip: "skip_spans spans offset = (spans1, offset1)"
    by (cases "skip_spans spans offset")
  note skipped = skip_spans_left [OF skip Suc.prems(1)]
  show ?case
  proof (cases "spans1 = []")
    case True
    then show ?thesis using skip Suc.prems(3) by simp
  next
    case False
    then have lt: "offset1 < length (hd spans1)" using skipped by simp
    obtain r t1 where wv: "bs_writev ops t (pending_spans spans1 offset1) = (r, t1)"
      by (cases "bs_writev ops t (pending_spans spans1 offset1)")
    let ?n = "wr_bytes_written r" and ?left = "left_to_send spans offset"
    obtain ys where ys: "?left = concat (pending_spans spans1 offset1) @ ys"
      "concat (pending_spans spans1 offset1) \<noteq> []"
      using pending_spans_prefix [OF False lt] skipped by auto
    have n: "?n \<le> length ?left" "wr_status r = SC_Ok" "0 < ?n" "ready t1"
      using writev_law [OF wv] willing [OF Suc.prems(3) wv ys(2)] by (simp_all add: ys(1))
    obtain spans2 offset2 where adv: "advance_spans ?n spans1 offset1 = (spans2, offset2)"
      by (cases "advance_spans ?n spans1 offset1")
    have "offset1 \<le> length (hd spans1)" "?n \<le> length (left_to_send spans1 offset1)" using lt n skipped by simp_all
    then have advanced: "left_to_send spans2 offset2 = drop ?n ?left" "spans2 = [] \<or> offset2 \<le> length (hd spans2)"
      using advance_spans_left [OF adv] skipped by simp_all
    obtain t2 where wt: "bs_wait_until_writable ops t1 = (Inr True, t2)" "ready t2" using writable [OF n(4)] by blast
    have "length (left_to_send spans2 offset2) < fuel" using advanced n Suc.prems(2) by simp
    from Suc.IH [OF advanced(2) this wt(2)] show ?thesis
      using skip False wv adv wt n by auto
  qed
qed simp

lemma send_frame_total:
  assumes "length frame \<le> fo_max_frame_size (fc_options c)"
    and "fo_prefix_width_bytes (fc_options c) + length frame < fuel"
    and "ready (fc_transport c)"
  shows "\<exists>c'. send_frame fuel ops frame c = Some (SC_Ok, c') \<and> ready (fc_transport c')"
proof -
  let ?spans = "[encode_little_endian (length frame) (fo_prefix_width_bytes (fc_options c)), frame]"
  have "length (left_to_send ?spans 0) < fuel" using assms(2) by (simp add: left_to_send_def)
  from write_spans_loop_total [OF _ this assms(3)]
  obtain t' where "write_spans_loop fuel ops ?spans 0 (fc_transport c) = Some (SC_Ok, t')" "ready t'" by auto
  then show ?thesis
    using assms(1) streams by (simp add: send_frame_def preserves_frames_def write_frame_prefix_def write_spans_fully_def)
qed

lemma send_frames_total:
  "\<forall>frame \<in> set frames. length frame \<le> fo_max_frame_size (fc_options c) \<and>
      fo_prefix_width_bytes (fc_options c) + length frame < fuel \<Longrightarrow> ready (fc_transport c) \<Longrightarrow>
     \<exists>c'. send_frames fuel ops frames c = Some (SC_Ok, c') \<and> ready (fc_transport c')"
proof (induction frames arbitrary: c)
  case (Cons frame frames)
  then obtain c1 where one: "send_frame fuel ops frame c = Some (SC_Ok, c1)" "ready (fc_transport c1)"
    using send_frame_total [of frame c fuel] by auto
  have "fc_options c1 = fc_options c" using send_frame_sends [OF one(1)] by blast
  then show ?case using Cons one by simp
qed simp

end

subsection \<open>Receiving\<close>

definition unread :: "'t frame_channel \<Rightarrow> bytes" where
  "unread c = drop (fc_stream_buffer_offset c) (fc_stream_buffer c)"

definition receive_stream :: "('t \<Rightarrow> bytes) \<Rightarrow> 't frame_channel \<Rightarrow> bytes" where
  "receive_stream pending c = unread c @ pending (fc_transport c)"

definition channel_ok :: "'t frame_channel \<Rightarrow> bool" where
  "channel_ok c \<longleftrightarrow> fc_stream_buffer_offset c \<le> length (fc_stream_buffer c) \<and>
     fo_prefix_width_bytes (fc_options c) + fo_max_frame_size (fc_options c) < 2 ^ 64"

text \<open>What the receiver of a complete stream must report: no frame yet, a frame that is too large, or a frame.\<close>

definition wire_parse :: "nat \<Rightarrow> nat \<Rightarrow> bytes \<Rightarrow> status_code + bytes" where
  "wire_parse width limit stream =
     (if length stream < width then Inl SC_NotFound
      else
        let n = decode_little_endian (take width stream) in
        if n > limit then Inl SC_Exhausted
        else if length stream < width + n then Inl SC_NotFound
        else Inr (subspan width n stream))"

lemma wire_parse_frame:
  assumes "length frame < 2 ^ (8 * width)" and "width \<le> 8" and "length frame \<le> limit"
  shows "wire_parse width limit (wire_frame width frame @ rest) = Inr frame"
  using decode_encode [OF assms(1,2)] assms(3) by (simp add: wire_parse_def wire_frame_def subspan_def)

lemma compact_unread [simp]: "unread (compact_stream_buffer c) = unread c"
  by (simp add: unread_def compact_stream_buffer_def)

lemma compact_fields [simp]:
  "fc_options (compact_stream_buffer c) = fc_options c"
  "fc_transport (compact_stream_buffer c) = fc_transport c"
  "fc_scratch_read_buffer (compact_stream_buffer c) = fc_scratch_read_buffer c"
  by (simp_all add: compact_stream_buffer_def)

lemma compact_ok [simp]: "channel_ok c \<Longrightarrow> channel_ok (compact_stream_buffer c)"
  by (auto simp: channel_ok_def compact_stream_buffer_def)

context byte_source
begin

lemma fill_channel:
  assumes ok: "channel_ok c" and rd: "bs_read ops = read" and fill: "fill_stream_buffer ops c = (fr, c')"
  shows "channel_ok c'" and "fc_options c' = fc_options c" and "receive_stream pending c' = receive_stream pending c"
    and "\<exists>new. unread c' = unread c @ new" and "length (unread c') \<noteq> length (unread c) \<Longrightarrow> fp_status fr = FCS_NeedMoreData"
    and "length (unread c') = length (unread c) \<Longrightarrow> fp_status fr = FCS_EndOfStream \<and> pending (fc_transport c') = [] \<or> stalls read"
proof -
  define c1 where "c1 = (if fc_stream_buffer_offset c > 0 \<and>
      (length (fc_stream_buffer c) - fc_stream_buffer_offset c = 0 \<or>
       fc_stream_buffer_offset c \<ge> length (fc_stream_buffer c) div 2)
    then compact_stream_buffer c else c)"
  define size1 where "size1 = (if fo_max_frame_size (fc_options c) > 4096
    then min (fo_max_frame_size (fc_options c)) 65536 else 4096)"
  define scratch where "scratch = (if length (fc_scratch_read_buffer c1) \<noteq> size1
    then take size1 (fc_scratch_read_buffer c1 @ replicate size1 0) else fc_scratch_read_buffer c1)"
  obtain r d t where read: "read (fc_transport c1) scratch = (r, d, t)"
    by (cases "read (fc_transport c1) scratch")
  have c1: "channel_ok c1" "unread c1 = unread c" "fc_options c1 = fc_options c" "fc_transport c1 = fc_transport c"
    using ok by (simp_all add: c1_def)
  have "0 < size1" by (simp add: size1_def)
  then have nonempty: "scratch \<noteq> []" by (auto simp: scratch_def)
  then have stall: "rr_status r \<noteq> SC_Ok \<or> rr_bytes_read r = 0 \<and> (rr_would_block r \<or> \<not> rr_end_of_stream r) \<Longrightarrow> stalls read"
    using read unfolding stalls_def by (intro exI [of _ "fc_transport c1"] exI [of _ scratch]) auto
  let ?c2 = "c1\<lparr>fc_transport := t, fc_scratch_read_buffer := d\<rparr>"
  let ?done = "fc_stream_buffer_update (\<lambda>_. fc_stream_buffer ?c2 @ take (rr_bytes_read r) d) ?c2"
  have run: "(fr, c') =
     (if rr_status r \<noteq> SC_Ok then ((channel_result FCS_TransportError)\<lparr>fp_transport_status := rr_status r\<rparr>, ?c2)
      else if rr_bytes_read r > 0 then
        ((channel_result FCS_NeedMoreData)\<lparr>fp_bytes_transferred := rr_bytes_read r\<rparr>, ?done)
      else if rr_would_block r then (channel_result FCS_WouldBlock, ?c2)
      else if rr_end_of_stream r then (channel_result FCS_EndOfStream, ?c2)
      else (channel_result FCS_NeedMoreData, ?c2))"
    using fill c1(3) read unfolding fill_stream_buffer_def Let_def c1_def [symmetric] rd
    by (simp only: size1_def [symmetric] scratch_def [symmetric] prod.case)
  have keep: "channel_ok ?c2" "unread ?c2 = unread c" "fc_options ?c2 = fc_options c"
    using c1 by (simp_all add: channel_ok_def unread_def)
  have moved: "channel_ok ?done" "unread ?done = unread c @ take (rr_bytes_read r) d" "fc_options ?done = fc_options c"
    using c1 by (simp_all add: channel_ok_def unread_def)
  have len: "length (take (rr_bytes_read r) d) = rr_bytes_read r" using read_span [OF read] by simp
  show "channel_ok c'" using run keep moved by (simp split: if_splits)
  show "fc_options c' = fc_options c" using run keep moved by (simp split: if_splits)
  show "\<exists>new. unread c' = unread c @ new" using run keep moved by (simp split: if_splits)
  show "receive_stream pending c' = receive_stream pending c"
  proof (cases "rr_status r = SC_Ok")
    case True
    then show ?thesis using run keep moved read_ok [OF read nonempty] c1(4)
      by (auto simp: receive_stream_def split: if_splits)
  next
    case False
    then show ?thesis using run keep read_failed [OF read] c1(4) by (simp add: receive_stream_def)
  qed
  show "length (unread c') \<noteq> length (unread c) \<Longrightarrow> fp_status fr = FCS_NeedMoreData"
    using run keep by (auto simp: channel_result_def split: if_splits)
  assume same: "length (unread c') = length (unread c)"
  show "fp_status fr = FCS_EndOfStream \<and> pending (fc_transport c') = [] \<or> stalls read"
  proof (cases "rr_status r = SC_Ok \<and> rr_bytes_read r = 0 \<and> \<not> rr_would_block r \<and> rr_end_of_stream r")
    case True
    then show ?thesis using run read_ok [OF read nonempty] by (simp add: channel_result_def)
  next
    case False
    moreover have "\<not> (rr_status r = SC_Ok \<and> rr_bytes_read r > 0)"
      using run moved same len by (auto split: if_splits)
    ultimately show ?thesis using stall by auto
  qed
qed

end

text \<open>What the unread bytes tell, by the length of the stream.\<close>

lemma parse_length_unread:
  assumes "channel_ok c"
  shows "try_parse_frame_length c =
    (if length (unread c) < fo_prefix_width_bytes (fc_options c) then Inl SC_NotFound
     else let n = decode_little_endian (take (fo_prefix_width_bytes (fc_options c)) (unread c)) in
       if n > fo_max_frame_size (fc_options c) then Inl SC_Exhausted else Inr n)"
  using assms by (simp add: try_parse_frame_length_def unread_def subspan_def)

context prompt_source
begin

lemma acquire_total:
  "channel_ok c \<Longrightarrow> bs_read ops = read \<Longrightarrow> length (pending (fc_transport c)) < fuel \<Longrightarrow>
     \<exists>res c'. acquire_loop fuel ops c = Some (res, c') \<and> channel_ok c' \<and> fc_options c' = fc_options c \<and>
       receive_stream pending c' = receive_stream pending c \<and>
       (case wire_parse (fo_prefix_width_bytes (fc_options c)) (fo_max_frame_size (fc_options c)) (receive_stream pending c) of
          Inl e \<Rightarrow> res = Inl e
        | Inr frame \<Rightarrow> (\<exists>token. res = Inr \<lparr>tl_bytes = frame, tl_token = token, tl_valid = True\<rparr>) \<and>
            fo_prefix_width_bytes (fc_options c) + length frame \<le> length (unread c'))"
proof (induction fuel arbitrary: c)
  case (Suc fuel)
  let ?w = "fo_prefix_width_bytes (fc_options c)" and ?max = "fo_max_frame_size (fc_options c)"
  let ?n = "decode_little_endian (take ?w (unread c))"
  obtain fr c1 where fill: "fill_stream_buffer ops c = (fr, c1)" by (cases "fill_stream_buffer ops c")
  note filled = fill_channel [OF Suc.prems(1,2) fill]
  have eos: "length (unread c1) = length (unread c) \<Longrightarrow>
      fp_status fr = FCS_EndOfStream \<and> receive_stream pending c = unread c"
    using filled(3,4,6) never_stalls by (auto simp: receive_stream_def)
  have again: "length (unread c1) \<noteq> length (unread c) \<Longrightarrow>
      fp_status fr = FCS_NeedMoreData \<and> length (pending (fc_transport c1)) < fuel"
  proof
    assume grown: "length (unread c1) \<noteq> length (unread c)"
    then show "fp_status fr = FCS_NeedMoreData" by (rule filled(5))
    have "length (unread c1) + length (pending (fc_transport c1)) =
        length (unread c) + length (pending (fc_transport c))"
      using arg_cong [OF filled(3), of length] by (simp add: receive_stream_def)
    moreover have "length (unread c) \<le> length (unread c1)" using filled(4) by auto
    ultimately show "length (pending (fc_transport c1)) < fuel" using grown Suc.prems(3) by linarith
  qed
  have w: "wrap_size (?w + n) = ?w + n" if "n \<le> ?max" for n
    by (rule wrap_size_id) (use Suc.prems(1) that in \<open>simp add: channel_ok_def\<close>)
  have next_round: "\<exists>res c'. acquire_loop fuel ops c1 = Some (res, c') \<and> channel_ok c' \<and> fc_options c' = fc_options c \<and>
       receive_stream pending c' = receive_stream pending c \<and>
       (case wire_parse ?w ?max (receive_stream pending c) of
          Inl e \<Rightarrow> res = Inl e
        | Inr frame \<Rightarrow> (\<exists>token. res = Inr \<lparr>tl_bytes = frame, tl_token = token, tl_valid = True\<rparr>) \<and>
            ?w + length frame \<le> length (unread c'))" if "length (unread c1) \<noteq> length (unread c)"
    using Suc.IH [OF filled(1) Suc.prems(2)] again [OF that] unfolding filled(2,3) by blast
  consider (short) "length (unread c) < ?w" | (large) "?w \<le> length (unread c)" "?n > ?max"
    | (part) "?w \<le> length (unread c)" "?n \<le> ?max" "length (unread c) < ?w + ?n"
    | (whole) "?w \<le> length (unread c)" "?n \<le> ?max" "?w + ?n \<le> length (unread c)" by linarith
  then show ?case
  proof cases
    case short
    then have parse: "try_parse_frame_length c = Inl SC_NotFound"
      by (simp add: parse_length_unread [OF Suc.prems(1)])
    show ?thesis
    proof (cases "length (unread c1) = length (unread c)")
      case True
      then show ?thesis using eos short parse fill filled(1,2,3) by (simp add: wire_parse_def)
    next
      case False
      then show ?thesis using next_round again parse fill by simp
    qed
  next
    case large
    then have parse: "try_parse_frame_length c = Inl SC_Exhausted"
      by (simp add: parse_length_unread [OF Suc.prems(1)])
    have "wire_parse ?w ?max (receive_stream pending c) = Inl SC_Exhausted"
      using large by (simp add: wire_parse_def receive_stream_def)
    then show ?thesis using parse Suc.prems(1) by simp
  next
    case part
    then have parse: "try_parse_frame_length c = Inr ?n"
      by (simp add: parse_length_unread [OF Suc.prems(1)])
    have low: "length (fc_stream_buffer c) - fc_stream_buffer_offset c < wrap_size (?w + ?n)"
      using part by (simp add: w unread_def)
    show ?thesis
    proof (cases "length (unread c1) = length (unread c)")
      case True
      then show ?thesis using eos part parse low fill filled(1,2,3) by (simp add: wire_parse_def)
    next
      case False
      then show ?thesis using next_round again parse low fill by simp
    qed
  next
    case whole
    then have parse: "try_parse_frame_length c = Inr ?n"
      by (simp add: parse_length_unread [OF Suc.prems(1)])
    have enough: "\<not> length (fc_stream_buffer c) - fc_stream_buffer_offset c < wrap_size (?w + ?n)"
      using whole by (simp add: w unread_def)
    have bytes: "subspan (fc_stream_buffer_offset c + ?w) ?n (fc_stream_buffer c) = subspan ?w ?n (unread c)"
      by (simp add: unread_def subspan_drop add.commute)
    have "wire_parse ?w ?max (receive_stream pending c) = Inr (subspan ?w ?n (unread c))"
      using whole by (simp add: wire_parse_def receive_stream_def subspan_append_left)
    moreover have "length (subspan ?w ?n (unread c)) = ?n" using whole by (simp add: length_subspan)
    ultimately show ?thesis using parse enough bytes whole Suc.prems(1) by (simp add: Let_def)
  qed
qed simp

lemma receive_total:
  assumes ok: "channel_ok c" and rd: "bs_read ops = read" and fuel: "length (pending (fc_transport c)) < fuel"
    and streams: "\<forall>t. \<not> has_capability (bs_capabilities ops t) TC_PreservesFrameBoundaries"
  shows "\<exists>res frame c'. receive_frame fuel ops c = Some (res, frame, c') \<and> channel_ok c' \<and> fc_options c' = fc_options c \<and>
    (case wire_parse (fo_prefix_width_bytes (fc_options c)) (fo_max_frame_size (fc_options c)) (receive_stream pending c) of
       Inl e \<Rightarrow> frame = None \<and> receive_stream pending c' = receive_stream pending c \<and>
         fp_status res = (if e = SC_NotFound then FCS_NeedMoreData else FCS_TransportError)
     | Inr f \<Rightarrow> frame = Some f \<and> fp_status res = FCS_FrameReady \<and> fp_bytes_transferred res = length f \<and>
         receive_stream pending c' =
           drop (fo_prefix_width_bytes (fc_options c) + length f) (receive_stream pending c))"
proof -
  let ?w = "fo_prefix_width_bytes (fc_options c)"
  obtain lease c1 where acq: "acquire_loop fuel ops c = Some (lease, c1)" and ok1: "channel_ok c1"
    and opts: "fc_options c1 = fc_options c" and stream: "receive_stream pending c1 = receive_stream pending c"
    and verdict: "case wire_parse ?w (fo_max_frame_size (fc_options c)) (receive_stream pending c) of
          Inl e \<Rightarrow> lease = Inl e
        | Inr frame \<Rightarrow> (\<exists>token. lease = Inr \<lparr>tl_bytes = frame, tl_token = token, tl_valid = True\<rparr>) \<and>
            ?w + length frame \<le> length (unread c1)"
    using acquire_total [OF ok rd fuel] by blast
  have acquired: "try_acquire_frame fuel ops c = Some (lease, c1)" using acq streams by (simp add: try_acquire_frame_def preserves_frames_def)
  show ?thesis
  proof (cases "wire_parse ?w (fo_max_frame_size (fc_options c)) (receive_stream pending c)")
    case (Inl e)
    then show ?thesis using verdict acquired ok1 opts stream by (simp add: receive_frame_def channel_result_def)
  next
    case (Inr f)
    then obtain token where lease: "lease = Inr \<lparr>tl_bytes = f, tl_token = token, tl_valid = True\<rparr>"
      and long: "?w + length f \<le> length (unread c1)" using verdict by auto
    let ?c2 = "c1\<lparr>fc_stream_buffer_offset := fc_stream_buffer_offset c1 + ?w + length f\<rparr>"
    have ok2: "channel_ok ?c2" using ok1 long by (auto simp: channel_ok_def unread_def)
    have "unread ?c2 = drop (?w + length f) (unread c1)" by (simp add: unread_def add_ac)
    then have s2: "receive_stream pending (compact_stream_buffer ?c2) = drop (?w + length f) (receive_stream pending c)"
      using long unfolding stream [symmetric] by (simp add: receive_stream_def)
    have "\<not> preserves_frames ops c1" using streams by (simp add: preserves_frames_def)
    then have "release_frame ops \<lparr>tl_bytes = f, tl_token = token, tl_valid = True\<rparr> c1 = (SC_Ok, compact_stream_buffer ?c2)"
      by (simp add: release_frame_def opts)
    then show ?thesis using acquired lease ok2 s2 Inr opts by (simp add: receive_frame_def channel_result_def)
  qed
qed

end

fun receive_frames ::
  "nat \<Rightarrow> 't byte_stream_ops \<Rightarrow> nat \<Rightarrow> 't frame_channel \<Rightarrow>
     ((frame_channel_poll_result \<times> bytes option) list \<times> 't frame_channel) option" where
  "receive_frames fuel ops 0 c = Some ([], c)"
| "receive_frames fuel ops (Suc n) c =
     (case receive_frame fuel ops c of
        None \<Rightarrow> None
      | Some (res, frame, c) \<Rightarrow>
          (case receive_frames fuel ops n c of
             None \<Rightarrow> None
           | Some (rs, c) \<Rightarrow> Some ((res, frame) # rs, c)))"

definition frames_fit :: "frame_channel_options \<Rightarrow> bytes list \<Rightarrow> bool" where
  "frames_fit options frames \<longleftrightarrow>
     fo_prefix_width_bytes options \<le> 8 \<and> fo_prefix_width_bytes options + fo_max_frame_size options < 2 ^ 64 \<and>
     (\<forall>frame \<in> set frames. length frame \<le> fo_max_frame_size options \<and>
        length frame < 2 ^ (8 * fo_prefix_width_bytes options))"

context prompt_source
begin

lemma receive_frames_stream:
  "channel_ok c \<Longrightarrow> bs_read ops = read \<Longrightarrow> length (receive_stream pending c) < fuel \<Longrightarrow>
     \<forall>t. \<not> has_capability (bs_capabilities ops t) TC_PreservesFrameBoundaries \<Longrightarrow>
     frames_fit (fc_options c) frames \<Longrightarrow>
     receive_stream pending c = wire_stream (fo_prefix_width_bytes (fc_options c)) frames @ rest \<Longrightarrow>
     \<exists>rs c'. receive_frames fuel ops (length frames) c = Some (rs, c') \<and>
       map snd rs = map Some frames \<and> (\<forall>r \<in> set rs. fp_status (fst r) = FCS_FrameReady) \<and>
       receive_stream pending c' = rest"
proof (induction frames arbitrary: c)
  case Nil
  then show ?case by simp
next
  case (Cons frame frames)
  let ?w = "fo_prefix_width_bytes (fc_options c)"
  have fit: "length frame < 2 ^ (8 * ?w)" "?w \<le> 8" "length frame \<le> fo_max_frame_size (fc_options c)"
    and fits: "frames_fit (fc_options c) frames"
    using Cons.prems(5) by (simp_all add: frames_fit_def)
  have stream: "receive_stream pending c = wire_frame ?w frame @ (wire_stream ?w frames @ rest)"
    using Cons.prems(6) by (simp add: wire_frame_def)
  have parse: "wire_parse ?w (fo_max_frame_size (fc_options c)) (receive_stream pending c) = Inr frame"
    unfolding stream by (rule wire_parse_frame [OF fit])
  have fuel: "length (pending (fc_transport c)) < fuel" using Cons.prems(3) by (simp add: receive_stream_def)
  obtain res got c1 where one: "receive_frame fuel ops c = Some (res, got, c1)" and ok1: "channel_ok c1"
    and opts: "fc_options c1 = fc_options c" and got: "got = Some frame" "fp_status res = FCS_FrameReady"
    and left: "receive_stream pending c1 = drop (?w + length frame) (receive_stream pending c)"
    using receive_total [OF Cons.prems(1,2) fuel Cons.prems(4)] parse by auto
  have left': "receive_stream pending c1 = wire_stream ?w frames @ rest"
    using left stream by (simp add: wire_frame_def)
  then have "length (receive_stream pending c1) < fuel" using Cons.prems(3) stream by simp
  from Cons.IH [OF ok1 Cons.prems(2) this Cons.prems(4)] fits left' opts
  obtain rs c' where "receive_frames fuel ops (length frames) c1 = Some (rs, c')" "map snd rs = map Some frames"
    "\<forall>r \<in> set rs. fp_status (fst r) = FCS_FrameReady" "receive_stream pending c' = rest" by auto
  then show ?case using one got by simp
qed

end

end
