(* ===== verification/Posix_Transport.thy ===== *)
theory Posix_Transport
  imports Frame_Channel
begin

text \<open>
  The transports over file descriptors: \<open>stream_transport_support.hpp\<close>, \<open>posix_fd_transport.cpp\<close>,
  \<open>posix_socket_transport.cpp\<close>, \<open>tcp_stream_transport.cpp\<close> and \<open>unix_socket_transport.cpp\<close>.

  The operating system is a parameter: the record \<open>posix\<close> of the system calls the code makes, over
  an unspecified kernel state. A call returns its result or the \<open>errno\<close> it sets. A
  transport is the pair of the kernel state and its handle (\<open>fd_\<close>, \<open>open_\<close>, \<open>own_handle_\<close>). The
  loops that repeat a call after \<open>EINTR\<close> get \<open>px_signals\<close>, the number of signals yet to arrive, as fuel.
\<close>

subsection \<open>The system calls\<close>

datatype errno_code = EINTR | EAGAIN | EINPROGRESS | EALREADY | E_other nat

datatype socket_option = SO_SNDBUF | SO_RCVBUF | TCP_NODELAY | SO_REUSEADDR

datatype poll_event = POLLIN | POLLOUT

record ('os, 'addr) posix =
  px_signals :: "'os \<Rightarrow> nat"
  px_o_nonblock :: u32
  px_read :: "int \<Rightarrow> nat \<Rightarrow> 'os \<Rightarrow> (errno_code + bytes) \<times> 'os"
  px_recv :: "int \<Rightarrow> nat \<Rightarrow> 'os \<Rightarrow> (errno_code + bytes) \<times> 'os"
  px_write :: "int \<Rightarrow> bytes \<Rightarrow> 'os \<Rightarrow> (errno_code + nat) \<times> 'os"
  px_send :: "int \<Rightarrow> bytes \<Rightarrow> 'os \<Rightarrow> (errno_code + nat) \<times> 'os"
  px_writev :: "int \<Rightarrow> bytes list \<Rightarrow> 'os \<Rightarrow> (errno_code + nat) \<times> 'os"
  px_sendmsg :: "int \<Rightarrow> bytes list \<Rightarrow> 'os \<Rightarrow> (errno_code + nat) \<times> 'os"
  px_poll :: "int \<Rightarrow> poll_event \<Rightarrow> int \<Rightarrow> 'os \<Rightarrow> (errno_code + nat) \<times> 'os"
  px_close :: "int \<Rightarrow> 'os \<Rightarrow> (errno_code + unit) \<times> 'os"
  px_getfl :: "int \<Rightarrow> 'os \<Rightarrow> (errno_code + u32) \<times> 'os"
  px_setfl :: "int \<Rightarrow> u32 \<Rightarrow> 'os \<Rightarrow> (errno_code + unit) \<times> 'os"
  px_setsockopt :: "int \<Rightarrow> socket_option \<Rightarrow> int \<Rightarrow> 'os \<Rightarrow> (errno_code + unit) \<times> 'os"
  px_so_error :: "int \<Rightarrow> 'os \<Rightarrow> (errno_code + errno_code option) \<times> 'os"
  px_getaddrinfo :: "string \<Rightarrow> nat \<Rightarrow> 'os \<Rightarrow> (nat + 'addr list) \<times> 'os"
  px_socket :: "'addr \<Rightarrow> 'os \<Rightarrow> (errno_code + int) \<times> 'os"
  px_connect :: "int \<Rightarrow> 'addr \<Rightarrow> 'os \<Rightarrow> (errno_code + unit) \<times> 'os"
  px_accept :: "int \<Rightarrow> 'os \<Rightarrow> (errno_code + int) \<times> 'os"
  px_unlink :: "string \<Rightarrow> 'os \<Rightarrow> 'os"

text \<open>\<open>do { result = call(); } while (result < 0 && errno == EINTR)\<close>.\<close>

fun retry_eintr :: "nat \<Rightarrow> ('os \<Rightarrow> (errno_code + 'a) \<times> 'os) \<Rightarrow> 'os \<Rightarrow> (errno_code + 'a) \<times> 'os" where
  "retry_eintr 0 call os = call os"
| "retry_eintr (Suc n) call os =
     (case call os of
        (Inl EINTR, os) \<Rightarrow> retry_eintr n call os
      | r \<Rightarrow> r)"

definition retried :: "('os, 'addr) posix \<Rightarrow> ('os \<Rightarrow> (errno_code + 'a) \<times> 'os) \<Rightarrow> 'os \<Rightarrow> (errno_code + 'a) \<times> 'os" where
  "retried px call os = retry_eintr (px_signals px os) call os"

subsection \<open>\<open>stream_transport_support\<close>\<close>

definition set_non_blocking :: "('os, 'addr) posix \<Rightarrow> int \<Rightarrow> 'os \<Rightarrow> status_code \<times> 'os" where
  "set_non_blocking px fd os =
     (case px_getfl px fd os of
        (Inl e, os) \<Rightarrow> (SC_IoError, os)
      | (Inr flags, os) \<Rightarrow>
          (case px_setfl px fd (flags OR px_o_nonblock px) os of
             (Inl e, os) \<Rightarrow> (SC_IoError, os)
           | (Inr u, os) \<Rightarrow> (SC_Ok, os)))"

definition wait_for_fd ::
  "('os, 'addr) posix \<Rightarrow> int \<Rightarrow> poll_event \<Rightarrow> int \<Rightarrow> 'os \<Rightarrow> (status_code + bool) \<times> 'os" where
  "wait_for_fd px fd events timeout_ms os =
     (if fd < 0 then (Inl SC_InvalidArgument, os)
      else
        (case retried px (px_poll px fd events timeout_ms) os of
           (Inl e, os) \<Rightarrow> (Inl SC_IoError, os)
         | (Inr ready, os) \<Rightarrow> (Inr (ready \<noteq> 0), os)))"

definition connect_with_timeout ::
  "('os, 'addr) posix \<Rightarrow> int \<Rightarrow> 'addr \<Rightarrow> int \<Rightarrow> 'os \<Rightarrow> status_code \<times> 'os" where
  "connect_with_timeout px fd address timeout_ms os =
     (case px_getfl px fd os of
        (Inl e, os) \<Rightarrow> (SC_IoError, os)
      | (Inr existing_flags, os) \<Rightarrow>
      (case px_setfl px fd (existing_flags OR px_o_nonblock px) os of
        (Inl e, os) \<Rightarrow> (SC_IoError, os)
      | (Inr u, os) \<Rightarrow>
          let (st, os) =
            (case retried px (px_connect px fd address) os of
               (Inl e, os) \<Rightarrow>
                 if e = EINPROGRESS \<or> e = EALREADY \<or> e = EAGAIN then
                   (case wait_for_fd px fd POLLOUT timeout_ms os of
                      (Inl st, os) \<Rightarrow> (st, os)
                    | (Inr ready, os) \<Rightarrow>
                        if \<not> ready then (SC_IoError, os)
                        else
                          (case px_so_error px fd os of
                             (Inl e, os) \<Rightarrow> (SC_IoError, os)
                           | (Inr None, os) \<Rightarrow> (SC_Ok, os)
                           | (Inr (Some e), os) \<Rightarrow> (SC_IoError, os)))
                 else (SC_IoError, os)
             | (Inr u, os) \<Rightarrow> (SC_Ok, os)) in
          (case px_setfl px fd existing_flags os of
             (Inl e, os) \<Rightarrow> (SC_IoError, os)
           | (Inr u, os) \<Rightarrow> (st, os))))"

text \<open>
  The decisions after \<open>read\<close> and \<open>recv\<close>: the result, the destination, and whether the open flag stays.
\<close>

definition read_outcome ::
  "(errno_code + bytes) \<Rightarrow> bytes \<Rightarrow> read_result \<times> bytes \<times> bool" where
  "read_outcome r destination =
     (case r of
        Inr bs \<Rightarrow>
          if length bs > 0 then (empty_read\<lparr>rr_bytes_read := length bs\<rparr>, blit 0 bs destination, True)
          else (empty_read\<lparr>rr_end_of_stream := True\<rparr>, destination, False)
      | Inl e \<Rightarrow>
          if e = EAGAIN then (empty_read\<lparr>rr_would_block := True\<rparr>, destination, True)
          else (empty_read\<lparr>rr_status := SC_IoError\<rparr>, destination, True))"

definition read_from_fd ::
  "('os, 'addr) posix \<Rightarrow> int \<Rightarrow> bytes \<Rightarrow> 'os \<Rightarrow> (read_result \<times> bytes \<times> bool) \<times> 'os" where
  "read_from_fd px fd destination os =
     (case retried px (px_read px fd (length destination)) os of (r, os) \<Rightarrow> (read_outcome r destination, os))"

definition recv_from_socket ::
  "('os, 'addr) posix \<Rightarrow> int \<Rightarrow> bytes \<Rightarrow> 'os \<Rightarrow> (read_result \<times> bytes \<times> bool) \<times> 'os" where
  "recv_from_socket px fd destination os =
     (case retried px (px_recv px fd (length destination)) os of (r, os) \<Rightarrow> (read_outcome r destination, os))"

definition write_outcome :: "errno_code + nat \<Rightarrow> write_result" where
  "write_outcome r =
     (case r of
        Inr n \<Rightarrow> \<lparr>wr_bytes_written = n, wr_would_block = False, wr_status = SC_Ok\<rparr>
      | Inl e \<Rightarrow>
          if e = EAGAIN then \<lparr>wr_bytes_written = 0, wr_would_block = True, wr_status = SC_Ok\<rparr>
          else \<lparr>wr_bytes_written = 0, wr_would_block = False, wr_status = SC_IoError\<rparr>)"

definition write_to_fd :: "('os, 'addr) posix \<Rightarrow> int \<Rightarrow> bytes \<Rightarrow> 'os \<Rightarrow> write_result \<times> 'os" where
  "write_to_fd px fd source os =
     (case retried px (px_write px fd source) os of (r, os) \<Rightarrow> (write_outcome r, os))"

definition send_to_socket :: "('os, 'addr) posix \<Rightarrow> int \<Rightarrow> bytes \<Rightarrow> 'os \<Rightarrow> write_result \<times> 'os" where
  "send_to_socket px fd source os =
     (case retried px (px_send px fd source) os of (r, os) \<Rightarrow> (write_outcome r, os))"

definition writev_to_fd ::
  "('os, 'addr) posix \<Rightarrow> int \<Rightarrow> bytes list \<Rightarrow> bool \<Rightarrow> 'os \<Rightarrow> write_result \<times> 'os" where
  "writev_to_fd px fd sources socket_send os =
     (let iovecs = filter (\<lambda>source. source \<noteq> []) sources in
      if iovecs = [] then (\<lparr>wr_bytes_written = 0, wr_would_block = False, wr_status = SC_Ok\<rparr>, os)
      else
        (case (if socket_send then retried px (px_sendmsg px fd iovecs) os
               else retried px (px_writev px fd iovecs) os) of
           (r, os) \<Rightarrow> (write_outcome r, os)))"

definition close_fd :: "('os, 'addr) posix \<Rightarrow> int \<Rightarrow> 'os \<Rightarrow> status_code \<times> 'os" where
  "close_fd px fd os =
     (if fd < 0 then (SC_Ok, os)
      else (case px_close px fd os of (Inl e, os) \<Rightarrow> (SC_IoError, os) | (Inr u, os) \<Rightarrow> (SC_Ok, os)))"

definition configure_socket_buffers ::
  "('os, 'addr) posix \<Rightarrow> int \<Rightarrow> int \<Rightarrow> int \<Rightarrow> 'os \<Rightarrow> status_code \<times> 'os" where
  "configure_socket_buffers px fd send_buffer_bytes receive_buffer_bytes os =
     (case (if send_buffer_bytes > 0 then px_setsockopt px fd SO_SNDBUF send_buffer_bytes os else (Inr (), os)) of
        (Inl e, os) \<Rightarrow> (SC_IoError, os)
      | (Inr u, os) \<Rightarrow>
          (case (if receive_buffer_bytes > 0 then px_setsockopt px fd SO_RCVBUF receive_buffer_bytes os
                 else (Inr (), os)) of
             (Inl e, os) \<Rightarrow> (SC_IoError, os)
           | (Inr u, os) \<Rightarrow> (SC_Ok, os)))"

subsection \<open>Handles\<close>

record fd_handle =
  fh_fd :: int
  fh_open :: bool
  fh_own :: bool

definition closed_handle :: fd_handle where
  "closed_handle = \<lparr>fh_fd = -1, fh_open = False, fh_own = False\<rparr>"

definition handle_is_open :: "fd_handle \<Rightarrow> bool" where
  "handle_is_open h \<longleftrightarrow> fh_open h \<and> fh_fd h \<ge> 0"

text \<open>\<open>move_from\<close>: the new handle and what is left of the other one.\<close>

definition handle_move_from :: "fd_handle \<Rightarrow> fd_handle \<times> fd_handle" where
  "handle_move_from other =
     (\<lparr>fh_fd = fh_fd other, fh_open = fh_open other, fh_own = fh_own other\<rparr>,
      other\<lparr>fh_fd := -1, fh_open := False, fh_own := False\<rparr>)"

record socket_options =
  sk_own_handle :: bool
  sk_non_blocking :: bool
  sk_send_buffer_bytes :: int
  sk_receive_buffer_bytes :: int
  sk_connect_timeout_ms :: int
  sk_tcp_no_delay :: bool

subsection \<open>\<open>TcpStreamTransport\<close>\<close>

definition configure_tcp_socket :: "('os, 'addr) posix \<Rightarrow> int \<Rightarrow> socket_options \<Rightarrow> 'os \<Rightarrow> status_code \<times> 'os" where
  "configure_tcp_socket px fd options os =
     (case (if sk_non_blocking options then set_non_blocking px fd os else (SC_Ok, os)) of (st, os) \<Rightarrow>
      if st \<noteq> SC_Ok then (st, os)
      else
        (case (if sk_tcp_no_delay options then px_setsockopt px fd TCP_NODELAY 1 os else (Inr (), os)) of
           (Inl e, os) \<Rightarrow> (SC_IoError, os)
         | (Inr u, os) \<Rightarrow>
             configure_socket_buffers px fd (sk_send_buffer_bytes options) (sk_receive_buffer_bytes options) os))"

definition new_tcp_transport :: "('os, 'addr) posix \<Rightarrow> int \<Rightarrow> socket_options \<Rightarrow> 'os \<Rightarrow> 'os \<times> fd_handle" where
  "new_tcp_transport px fd options os =
     (let h = \<lparr>fh_fd = fd, fh_open = (fd \<ge> 0), fh_own = sk_own_handle options\<rparr> in
      if fd \<ge> 0 then
        (case configure_tcp_socket px fd options os of (st, os) \<Rightarrow>
         if st \<noteq> SC_Ok then
           let os = (if sk_own_handle options then snd (close_fd px fd os) else os) in
           (os, h\<lparr>fh_open := False, fh_fd := -1\<rparr>)
         else (os, h))
      else (os, h))"

fun connect_addresses ::
  "('os, 'addr) posix \<Rightarrow> 'addr list \<Rightarrow> socket_options \<Rightarrow> 'os \<Rightarrow> int \<times> 'os" where
  "connect_addresses px [] options os = (-1, os)"
| "connect_addresses px (address # addresses) options os =
     (case px_socket px address os of
        (Inl e, os) \<Rightarrow> connect_addresses px addresses options os
      | (Inr fd, os) \<Rightarrow>
          (case configure_tcp_socket px fd (options\<lparr>sk_non_blocking := False\<rparr>) os of (st, os) \<Rightarrow>
           if st \<noteq> SC_Ok then connect_addresses px addresses options (snd (close_fd px fd os))
           else
             (case connect_with_timeout px fd address (sk_connect_timeout_ms options) os of (st, os) \<Rightarrow>
              if st = SC_Ok then (fd, os)
              else connect_addresses px addresses options (snd (close_fd px fd os)))))"

definition connect_to_host ::
  "('os, 'addr) posix \<Rightarrow> string \<Rightarrow> nat \<Rightarrow> socket_options \<Rightarrow> 'os \<Rightarrow> (status_code + fd_handle) \<times> 'os" where
  "connect_to_host px host port options os =
     (case px_getaddrinfo px host port os of
        (Inl e, os) \<Rightarrow> (Inl SC_IoError, os)
      | (Inr addresses, os) \<Rightarrow>
          (case connect_addresses px addresses options os of (connected_fd, os) \<Rightarrow>
           if connected_fd < 0 then (Inl SC_IoError, os)
           else
             (case (if sk_non_blocking options then set_non_blocking px connected_fd os else (SC_Ok, os)) of (st, os) \<Rightarrow>
              if st \<noteq> SC_Ok then (Inl st, snd (close_fd px connected_fd os))
              else
                (case new_tcp_transport px connected_fd (options\<lparr>sk_non_blocking := False\<rparr>) os of
                   (os, h) \<Rightarrow> (Inr h, os)))))"

definition tcp_read :: "('os, 'addr) posix \<Rightarrow> ('os \<times> fd_handle) transport_read" where
  "tcp_read px t destination =
     (case t of (os, h) \<Rightarrow>
      if \<not> handle_is_open h then (empty_read\<lparr>rr_end_of_stream := True\<rparr>, destination, (os, h))
      else
        (case recv_from_socket px (fh_fd h) destination os of ((r, destination, still_open), os) \<Rightarrow>
           (r, destination, (os, if still_open then h else h\<lparr>fh_open := False\<rparr>))))"

definition closed_write :: write_result where
  "closed_write = \<lparr>wr_bytes_written = 0, wr_would_block = False, wr_status = SC_IoError\<rparr>"

definition tcp_write :: "('os, 'addr) posix \<Rightarrow> 'os \<times> fd_handle \<Rightarrow> bytes \<Rightarrow> write_result \<times> 'os \<times> fd_handle" where
  "tcp_write px t source =
     (case t of (os, h) \<Rightarrow>
      if \<not> handle_is_open h then (closed_write, (os, h))
      else (case send_to_socket px (fh_fd h) source os of (r, os) \<Rightarrow> (r, (os, h))))"

definition tcp_writev ::
  "('os, 'addr) posix \<Rightarrow> 'os \<times> fd_handle \<Rightarrow> bytes list \<Rightarrow> write_result \<times> 'os \<times> fd_handle" where
  "tcp_writev px t sources =
     (case t of (os, h) \<Rightarrow>
      if \<not> handle_is_open h then (closed_write, (os, h))
      else (case writev_to_fd px (fh_fd h) sources True os of (r, os) \<Rightarrow> (r, (os, h))))"

definition tcp_close :: "('os, 'addr) posix \<Rightarrow> 'os \<times> fd_handle \<Rightarrow> status_code \<times> 'os \<times> fd_handle" where
  "tcp_close px t =
     (case t of (os, h) \<Rightarrow>
      if fh_fd h < 0 then (SC_Ok, (os, h\<lparr>fh_open := False\<rparr>))
      else
        let fd = fh_fd h; own_handle = fh_own h; h = h\<lparr>fh_fd := -1, fh_open := False, fh_own := False\<rparr> in
        if \<not> own_handle then (SC_Ok, (os, h))
        else (case close_fd px fd os of (st, os) \<Rightarrow> (st, (os, h))))"

definition tcp_wait_until_readable ::
  "('os, 'addr) posix \<Rightarrow> int \<Rightarrow> 'os \<times> fd_handle \<Rightarrow> (status_code + bool) \<times> 'os \<times> fd_handle" where
  "tcp_wait_until_readable px timeout_ms t =
     (case t of (os, h) \<Rightarrow> (case wait_for_fd px (fh_fd h) POLLIN timeout_ms os of (r, os) \<Rightarrow> (r, (os, h))))"

definition tcp_wait_until_writable ::
  "('os, 'addr) posix \<Rightarrow> int \<Rightarrow> 'os \<times> fd_handle \<Rightarrow> (status_code + bool) \<times> 'os \<times> fd_handle" where
  "tcp_wait_until_writable px timeout_ms t =
     (case t of (os, h) \<Rightarrow> (case wait_for_fd px (fh_fd h) POLLOUT timeout_ms os of (r, os) \<Rightarrow> (r, (os, h))))"

definition tcp_capabilities :: u32 where
  "tcp_capabilities = capability_mask TC_Stream"

text \<open>The functions a channel calls; receive buffers are those \<open>IByteStreamTransport\<close> provides.\<close>

definition tcp_ops :: "('os, 'addr) posix \<Rightarrow> ('os \<times> fd_handle) byte_stream_ops" where
  "tcp_ops px =
     \<lparr>bs_read = tcp_read px, bs_write = tcp_write px, bs_writev = tcp_writev px,
      bs_wait_until_writable = tcp_wait_until_writable px 1000, bs_capabilities = (\<lambda>t. tcp_capabilities),
      bs_try_acquire_receive_buffer = (\<lambda>t. (Inl SC_NotFound, t)),
      bs_release_receive_buffer = (\<lambda>t lease. (SC_InvalidArgument, t))\<rparr>"

definition tcp_accept ::
  "('os, 'addr) posix \<Rightarrow> int \<Rightarrow> socket_options \<Rightarrow> 'os \<Rightarrow> (status_code + fd_handle) \<times> 'os" where
  "tcp_accept px listener_fd options os =
     (case px_accept px listener_fd os of
        (Inl e, os) \<Rightarrow> (Inl (if e = EAGAIN then SC_NotFound else SC_IoError), os)
      | (Inr client_fd, os) \<Rightarrow>
          (case new_tcp_transport px client_fd options os of (os, h) \<Rightarrow> (Inr h, os)))"

text \<open>\<open>TcpListener\<close>: its handle and port; the options are those of the accepted sockets.\<close>

record listener =
  ls_fd :: int
  ls_open :: bool
  ls_port :: nat
  ls_path :: string

definition tcp_listener_close :: "('os, 'addr) posix \<Rightarrow> listener \<Rightarrow> 'os \<Rightarrow> status_code \<times> listener \<times> 'os" where
  "tcp_listener_close px l os =
     (if ls_fd l < 0 then (SC_Ok, l\<lparr>ls_open := False\<rparr>, os)
      else
        (case close_fd px (ls_fd l) os of
           (st, os) \<Rightarrow> (st, l\<lparr>ls_fd := -1, ls_open := False, ls_port := 0\<rparr>, os)))"

subsection \<open>\<open>UnixSocketTransport\<close>\<close>

definition initialize_socket :: "('os, 'addr) posix \<Rightarrow> int \<Rightarrow> socket_options \<Rightarrow> 'os \<Rightarrow> status_code \<times> 'os" where
  "initialize_socket px fd options os =
     (if fd < 0 then (SC_InvalidArgument, os)
      else
        (case (if sk_non_blocking options then set_non_blocking px fd os else (SC_Ok, os)) of (st, os) \<Rightarrow>
         if st \<noteq> SC_Ok then (st, os)
         else configure_socket_buffers px fd (sk_send_buffer_bytes options) (sk_receive_buffer_bytes options) os))"

definition new_unix_transport :: "('os, 'addr) posix \<Rightarrow> int \<Rightarrow> socket_options \<Rightarrow> 'os \<Rightarrow> 'os \<times> fd_handle" where
  "new_unix_transport px fd options os =
     (let h = \<lparr>fh_fd = fd, fh_open = (fd \<ge> 0), fh_own = sk_own_handle options\<rparr> in
      if fd \<ge> 0 then
        (case initialize_socket px fd options os of (st, os) \<Rightarrow>
         if st \<noteq> SC_Ok then
           let os = (if sk_own_handle options then snd (close_fd px fd os) else os) in
           (os, h\<lparr>fh_open := False, fh_fd := -1\<rparr>)
         else (os, h))
      else (os, h))"

text \<open>The socket address of the path is an argument: it is made by the C library's \<open>sockaddr_un\<close>.\<close>

definition connect_to_path ::
  "('os, 'addr) posix \<Rightarrow> 'addr \<Rightarrow> socket_options \<Rightarrow> 'os \<Rightarrow> (status_code + fd_handle) \<times> 'os" where
  "connect_to_path px address options os =
     (case px_socket px address os of
        (Inl e, os) \<Rightarrow> (Inl SC_IoError, os)
      | (Inr fd, os) \<Rightarrow>
          (case px_connect px fd address os of
             (Inl e, os) \<Rightarrow> (Inl SC_IoError, snd (close_fd px fd os))
           | (Inr u, os) \<Rightarrow> (case new_unix_transport px fd options os of (os, h) \<Rightarrow> (Inr h, os))))"

definition unix_read :: "('os, 'addr) posix \<Rightarrow> ('os \<times> fd_handle) transport_read" where
  "unix_read px t destination =
     (case t of (os, h) \<Rightarrow>
      if \<not> handle_is_open h then (empty_read\<lparr>rr_end_of_stream := True\<rparr>, destination, (os, h))
      else
        (case recv_from_socket px (fh_fd h) destination os of ((r, destination, still_open), os) \<Rightarrow>
           (r, destination, (os, if still_open then h else h\<lparr>fh_open := False\<rparr>))))"

definition unix_write :: "('os, 'addr) posix \<Rightarrow> 'os \<times> fd_handle \<Rightarrow> bytes \<Rightarrow> write_result \<times> 'os \<times> fd_handle" where
  "unix_write px t source =
     (case t of (os, h) \<Rightarrow>
      if \<not> handle_is_open h then (closed_write, (os, h))
      else (case send_to_socket px (fh_fd h) source os of (r, os) \<Rightarrow> (r, (os, h))))"

definition unix_writev ::
  "('os, 'addr) posix \<Rightarrow> 'os \<times> fd_handle \<Rightarrow> bytes list \<Rightarrow> write_result \<times> 'os \<times> fd_handle" where
  "unix_writev px t sources =
     (case t of (os, h) \<Rightarrow>
      if \<not> handle_is_open h then (closed_write, (os, h))
      else (case writev_to_fd px (fh_fd h) sources True os of (r, os) \<Rightarrow> (r, (os, h))))"

definition unix_close :: "('os, 'addr) posix \<Rightarrow> 'os \<times> fd_handle \<Rightarrow> status_code \<times> 'os \<times> fd_handle" where
  "unix_close px t =
     (case t of (os, h) \<Rightarrow>
      if fh_fd h < 0 then (SC_Ok, (os, h\<lparr>fh_open := False\<rparr>))
      else
        let fd = fh_fd h; own_handle = fh_own h; h = h\<lparr>fh_fd := -1, fh_open := False, fh_own := False\<rparr> in
        if \<not> own_handle then (SC_Ok, (os, h))
        else (case close_fd px fd os of (st, os) \<Rightarrow> (st, (os, h))))"

definition unix_accept ::
  "('os, 'addr) posix \<Rightarrow> int \<Rightarrow> socket_options \<Rightarrow> 'os \<Rightarrow> (status_code + fd_handle) \<times> 'os" where
  "unix_accept px listener_fd options os =
     (case px_accept px listener_fd os of
        (Inl e, os) \<Rightarrow> (Inl (if e = EAGAIN then SC_NotFound else SC_IoError), os)
      | (Inr client_fd, os) \<Rightarrow>
          (case new_unix_transport px client_fd options os of (os, h) \<Rightarrow> (Inr h, os)))"

definition unix_listener_close :: "('os, 'addr) posix \<Rightarrow> listener \<Rightarrow> 'os \<Rightarrow> status_code \<times> listener \<times> 'os" where
  "unix_listener_close px l os =
     (if ls_fd l < 0 then (SC_Ok, l\<lparr>ls_open := False\<rparr>, os)
      else
        (case close_fd px (ls_fd l) os of
           (st, os) \<Rightarrow>
             (st, l\<lparr>ls_fd := -1, ls_open := False, ls_path := []\<rparr>,
              if ls_path l \<noteq> [] then px_unlink px (ls_path l) os else os)))"

subsection \<open>\<open>PosixFdTransport\<close> and \<open>PosixSocketTransport\<close>\<close>

definition new_posix_fd_transport ::
  "('os, 'addr) posix \<Rightarrow> int \<Rightarrow> bool \<Rightarrow> bool \<Rightarrow> 'os \<Rightarrow> 'os \<times> fd_handle" where
  "new_posix_fd_transport px fd own_handle non_blocking os =
     (let h = \<lparr>fh_fd = fd, fh_open = (fd \<ge> 0), fh_own = own_handle\<rparr> in
      if fd \<ge> 0 \<and> non_blocking then
        (case set_non_blocking px fd os of (st, os) \<Rightarrow>
         if st \<noteq> SC_Ok then
           (if own_handle then snd (px_close px fd os) else os, h\<lparr>fh_open := False, fh_fd := -1\<rparr>)
         else (os, h))
      else (os, h))"

definition posix_fd_read :: "('os, 'addr) posix \<Rightarrow> ('os \<times> fd_handle) transport_read" where
  "posix_fd_read px t destination =
     (case t of (os, h) \<Rightarrow>
      if \<not> fh_open h \<or> fh_fd h < 0 then (empty_read\<lparr>rr_end_of_stream := True\<rparr>, destination, (os, h))
      else
        (case read_from_fd px (fh_fd h) destination os of ((r, destination, still_open), os) \<Rightarrow>
           (r, destination, (os, if still_open then h else h\<lparr>fh_open := False\<rparr>))))"

definition posix_fd_close :: "('os, 'addr) posix \<Rightarrow> 'os \<times> fd_handle \<Rightarrow> status_code \<times> 'os \<times> fd_handle" where
  "posix_fd_close px t =
     (case t of (os, h) \<Rightarrow>
      if fh_fd h < 0 then (SC_Ok, (os, h\<lparr>fh_open := False\<rparr>))
      else
        let fd = fh_fd h; close_handle = fh_own h; h = h\<lparr>fh_fd := -1, fh_open := False, fh_own := False\<rparr> in
        if \<not> close_handle then (SC_Ok, (os, h))
        else
          (case px_close px fd os of
             (Inl e, os) \<Rightarrow> (SC_IoError, (os, h))
           | (Inr u, os) \<Rightarrow> (SC_Ok, (os, h))))"

definition new_posix_socket_transport ::
  "('os, 'addr) posix \<Rightarrow> int \<Rightarrow> bool \<Rightarrow> bool \<Rightarrow> 'os \<Rightarrow> 'os \<times> fd_handle" where
  "new_posix_socket_transport px fd own_handle non_blocking os =
     (let h = \<lparr>fh_fd = fd, fh_open = (fd \<ge> 0), fh_own = own_handle\<rparr> in
      if fd \<ge> 0 \<and> non_blocking then
        (case set_non_blocking px fd os of (st, os) \<Rightarrow>
         if st \<noteq> SC_Ok then
           (if own_handle then snd (px_close px fd os) else os, h\<lparr>fh_open := False, fh_fd := -1\<rparr>)
         else (os, h))
      else (os, h))"

definition posix_socket_read :: "('os, 'addr) posix \<Rightarrow> ('os \<times> fd_handle) transport_read" where
  "posix_socket_read px t destination =
     (case t of (os, h) \<Rightarrow>
      if \<not> fh_open h \<or> fh_fd h < 0 then (empty_read\<lparr>rr_end_of_stream := True\<rparr>, destination, (os, h))
      else
        (case recv_from_socket px (fh_fd h) destination os of ((r, destination, still_open), os) \<Rightarrow>
           (r, destination, (os, if still_open then h else h\<lparr>fh_open := False\<rparr>))))"

definition posix_socket_close :: "('os, 'addr) posix \<Rightarrow> 'os \<times> fd_handle \<Rightarrow> status_code \<times> 'os \<times> fd_handle" where
  "posix_socket_close px t =
     (case t of (os, h) \<Rightarrow>
      if fh_fd h < 0 then (SC_Ok, (os, h\<lparr>fh_open := False\<rparr>))
      else
        let fd = fh_fd h; close_handle = fh_own h; h = h\<lparr>fh_fd := -1, fh_open := False, fh_own := False\<rparr> in
        if \<not> close_handle then (SC_Ok, (os, h))
        else
          (case px_close px fd os of
             (Inl e, os) \<Rightarrow> (SC_IoError, (os, h))
           | (Inr u, os) \<Rightarrow> (SC_Ok, (os, h))))"

fun posix_connect_addresses :: "('os, 'addr) posix \<Rightarrow> 'addr list \<Rightarrow> int \<Rightarrow> 'os \<Rightarrow> int \<times> 'os" where
  "posix_connect_addresses px [] timeout_ms os = (-1, os)"
| "posix_connect_addresses px (address # addresses) timeout_ms os =
     (case px_socket px address os of
        (Inl e, os) \<Rightarrow> posix_connect_addresses px addresses timeout_ms os
      | (Inr fd, os) \<Rightarrow>
          (case connect_with_timeout px fd address timeout_ms os of (st, os) \<Rightarrow>
           if st = SC_Ok then (fd, os)
           else posix_connect_addresses px addresses timeout_ms (snd (px_close px fd os))))"

definition connect_tcp ::
  "('os, 'addr) posix \<Rightarrow> string \<Rightarrow> nat \<Rightarrow> bool \<Rightarrow> bool \<Rightarrow> int \<Rightarrow> 'os \<Rightarrow> (status_code + fd_handle) \<times> 'os" where
  "connect_tcp px host port own_handle non_blocking_after_connect timeout_ms os =
     (case px_getaddrinfo px host port os of
        (Inl e, os) \<Rightarrow> (Inl SC_IoError, os)
      | (Inr addresses, os) \<Rightarrow>
          (case posix_connect_addresses px addresses timeout_ms os of (connected_fd, os) \<Rightarrow>
           if connected_fd < 0 then (Inl SC_IoError, os)
           else
             (case new_posix_socket_transport px connected_fd own_handle False os of (os, h) \<Rightarrow>
                if non_blocking_after_connect then
                  (case set_non_blocking px connected_fd os of (st, os) \<Rightarrow>
                   if st \<noteq> SC_Ok then (Inl st, fst (snd (posix_socket_close px (os, h))))
                   else (Inr h, os))
                else (Inr h, os))))"

end
