(* ===== verification/Transport_Properties.thy ===== *)
theory Transport_Properties
  imports Frame_Channel_Properties Posix_Transport
begin

text \<open>
  The contracts of \<open>Stream_Properties\<close> and \<open>Frame_Channel_Properties\<close> on the socket transports, under the documented behaviour of
  the system calls (\<open>kernel_stream\<close>), and the properties of channels over them: the
  round trip of frames between two sockets, what a channel reports of a
  failing transport, and the life of a handle.
\<close>

subsection \<open>Calls repeated after a signal\<close>

definition finite_signals :: "('os \<Rightarrow> nat) \<Rightarrow> ('os \<Rightarrow> 'a) \<Rightarrow> ('os \<Rightarrow> (errno_code + 'b) \<times> 'os) \<Rightarrow> bool" where
  "finite_signals signals observe call \<longleftrightarrow>
     (\<forall>os os'. call os = (Inl EINTR, os') \<longrightarrow> signals os' < signals os \<and> observe os' = observe os)"

text \<open>The last call of the loop decides, and it was not interrupted.\<close>

lemma retry_last:
  "finite_signals signals observe call \<Longrightarrow> signals os \<le> n \<Longrightarrow>
     \<exists>os0. observe os0 = observe os \<and> retry_eintr n call os = call os0 \<and> fst (call os0) \<noteq> Inl EINTR"
proof (induction n arbitrary: os)
  case 0
  have "fst (call os) \<noteq> Inl EINTR"
  proof
    assume "fst (call os) = Inl EINTR"
    then have "call os = (Inl EINTR, snd (call os))" by (cases "call os") simp
    then have "signals (snd (call os)) < signals os" using 0(1) unfolding finite_signals_def by blast
    then show False using 0(2) by simp
  qed
  then show ?case by (intro exI [of _ os]) simp
next
  case (Suc n)
  show ?case
  proof (cases "fst (call os) = Inl EINTR")
    case True
    then have c: "call os = (Inl EINTR, snd (call os))" by (cases "call os") simp
    then have less: "signals (snd (call os)) < signals os" "observe (snd (call os)) = observe os"
      using Suc.prems(1) unfolding finite_signals_def by blast+
    have "retry_eintr (Suc n) call os = retry_eintr n call (snd (call os))" by (subst retry_eintr.simps, subst c) simp
    moreover have "signals (snd (call os)) \<le> n" using less Suc.prems(2) by simp
    ultimately show ?thesis using Suc.IH [OF Suc.prems(1)] less(2) by metis
  next
    case False
    then have "retry_eintr (Suc n) call os = call os"
      by (cases "call os") (auto split: sum.splits errno_code.splits)
    then show ?thesis using False by blast
  qed
qed

lemma retried_last:
  assumes "finite_signals (px_signals px) observe call" and "retried px call os = (r, os')"
  obtains os0 where "observe os0 = observe os" and "call os0 = (r, os')" and "r \<noteq> Inl EINTR"
  using retry_last [OF assms(1), of os "px_signals px os"] assms(2) unfolding retried_def by (metis fst_conv order_refl)

subsection \<open>Stream sockets\<close>

text \<open>
  The documented behaviour of \<open>recv\<close>, \<open>sendmsg\<close> and \<open>poll\<close> on a connected stream socket. \<open>inbox\<close> are the bytes
  the peer has sent, or will send before it closes, and that were not received yet; \<open>outbox\<close> are
  the bytes the socket has accepted.
\<close>

definition kernel_stream ::
  "('os, 'addr) posix \<Rightarrow> ('os \<Rightarrow> int \<Rightarrow> bytes) \<Rightarrow> ('os \<Rightarrow> int \<Rightarrow> bytes) \<Rightarrow> bool" where
  "kernel_stream px inbox outbox \<longleftrightarrow>
     (\<forall>fd n. finite_signals (px_signals px) (\<lambda>os. inbox os fd) (px_recv px fd n)) \<and>
     (\<forall>fd n os bs os'. px_recv px fd n os = (Inr bs, os') \<longrightarrow>
        length bs \<le> n \<and> inbox os fd = bs @ inbox os' fd \<and> (n > 0 \<and> bs = [] \<longrightarrow> inbox os' fd = [])) \<and>
     (\<forall>fd n os e os'. px_recv px fd n os = (Inl e, os') \<longrightarrow> inbox os' fd = inbox os fd) \<and>
     (\<forall>fd spans. finite_signals (px_signals px) (\<lambda>os. outbox os fd) (px_sendmsg px fd spans)) \<and>
     (\<forall>fd spans os k os'. px_sendmsg px fd spans os = (Inr k, os') \<longrightarrow>
        k \<le> length (concat spans) \<and> outbox os' fd = outbox os fd @ take k (concat spans)) \<and>
     (\<forall>fd spans os e os'. px_sendmsg px fd spans os = (Inl e, os') \<longrightarrow> outbox os' fd = outbox os fd) \<and>
     (\<forall>fd ev ms. finite_signals (px_signals px) (\<lambda>os. outbox os fd) (px_poll px fd ev ms)) \<and>
     (\<forall>fd ev ms os r os'. px_poll px fd ev ms os = (r, os') \<longrightarrow> outbox os' fd = outbox os fd)"

lemma kernel_recv:
  assumes "kernel_stream px inbox outbox"
  shows "finite_signals (px_signals px) (\<lambda>os. inbox os fd) (px_recv px fd n)"
    and "px_recv px fd n os = (Inr bs, os') \<Longrightarrow>
      length bs \<le> n \<and> inbox os fd = bs @ inbox os' fd \<and> (n > 0 \<and> bs = [] \<longrightarrow> inbox os' fd = [])"
    and "px_recv px fd n os = (Inl e, os') \<Longrightarrow> inbox os' fd = inbox os fd"
  using assms by (simp_all add: kernel_stream_def)

lemma kernel_send:
  assumes "kernel_stream px inbox outbox"
  shows "finite_signals (px_signals px) (\<lambda>os. outbox os fd) (px_sendmsg px fd spans)"
    and "px_sendmsg px fd spans os = (Inr k, os') \<Longrightarrow>
      k \<le> length (concat spans) \<and> outbox os' fd = outbox os fd @ take k (concat spans)"
    and "px_sendmsg px fd spans os = (Inl e, os') \<Longrightarrow> outbox os' fd = outbox os fd"
    and "finite_signals (px_signals px) (\<lambda>os. outbox os fd) (px_poll px fd ev ms)"
    and "px_poll px fd ev ms os = (r, os') \<Longrightarrow> outbox os' fd = outbox os fd"
  using assms by (simp_all add: kernel_stream_def)

definition tcp_pending :: "('os \<Rightarrow> int \<Rightarrow> bytes) \<Rightarrow> 'os \<times> fd_handle \<Rightarrow> bytes" where
  "tcp_pending inbox t = (if handle_is_open (snd t) then inbox (fst t) (fh_fd (snd t)) else [])"

definition tcp_sent :: "('os \<Rightarrow> int \<Rightarrow> bytes) \<Rightarrow> 'os \<times> fd_handle \<Rightarrow> bytes" where
  "tcp_sent outbox t = outbox (fst t) (fh_fd (snd t))"

lemma tcp_read_cases:
  assumes k: "kernel_stream px inbox outbox" and op: "handle_is_open h"
    and rd: "tcp_read px (os, h) d = (r, d', t')"
  obtains (got) bs os' where "0 < length bs" "length bs \<le> length d" "inbox os (fh_fd h) = bs @ inbox os' (fh_fd h)"
      "r = empty_read\<lparr>rr_bytes_read := length bs\<rparr>" "d' = blit 0 bs d" "t' = (os', h)"
  | (eof) os' where "d \<noteq> [] \<Longrightarrow> inbox os (fh_fd h) = []" "r = empty_read\<lparr>rr_end_of_stream := True\<rparr>" "d' = d"
      "t' = (os', h\<lparr>fh_open := False\<rparr>)"
  | (blocked) os' where "inbox os (fh_fd h) = inbox os' (fh_fd h)" "r = empty_read\<lparr>rr_would_block := True\<rparr>"
      "d' = d" "t' = (os', h)"
  | (failed) os' where "inbox os (fh_fd h) = inbox os' (fh_fd h)" "r = empty_read\<lparr>rr_status := SC_IoError\<rparr>"
      "d' = d" "t' = (os', h)"
proof -
  let ?fd = "fh_fd h"
  obtain res os' where ret: "retried px (px_recv px ?fd (length d)) os = (res, os')"
    by (cases "retried px (px_recv px ?fd (length d)) os")
  have "finite_signals (px_signals px) (\<lambda>os. inbox os ?fd) (px_recv px ?fd (length d))"
    by (rule kernel_recv(1) [OF k])
  then obtain os0 where os0: "inbox os0 ?fd = inbox os ?fd" and call: "px_recv px ?fd (length d) os0 = (res, os')"
    by (rule retried_last [OF _ ret])
  have good: "\<And>bs. res = Inr bs \<Longrightarrow> length bs \<le> length d \<and> inbox os0 ?fd = bs @ inbox os' ?fd \<and>
      (length d > 0 \<and> bs = [] \<longrightarrow> inbox os' ?fd = [])"
    using kernel_recv(2) [OF k] call by blast
  have bad: "\<And>e. res = Inl e \<Longrightarrow> inbox os' ?fd = inbox os0 ?fd"
    using kernel_recv(3) [OF k] call by blast
  have out: "(r, d', t') = (case read_outcome res d of (r, d, still_open) \<Rightarrow>
      (r, d, (os', if still_open then h else h\<lparr>fh_open := False\<rparr>)))"
    using rd op ret by (simp add: tcp_read_def recv_from_socket_def split: prod.splits)
  show thesis
  proof (cases res)
    case (Inr bs)
    show thesis
    proof (cases "bs = []")
      case True
      then show thesis using good [OF Inr] out os0 Inr by (intro eof [of os']) (auto simp: read_outcome_def)
    next
      case False
      then show thesis using good [OF Inr] out os0 Inr by (intro got [of bs os']) (auto simp: read_outcome_def)
    qed
  next
    case (Inl e)
    show thesis
    proof (cases "e = EAGAIN")
      case True
      then show thesis using bad [OF Inl] out os0 Inl by (intro blocked [of os']) (auto simp: read_outcome_def)
    next
      case False
      then show thesis using bad [OF Inl] out os0 Inl by (intro failed [of os']) (auto simp: read_outcome_def)
    qed
  qed
qed

lemma tcp_byte_source:
  assumes k: "kernel_stream px inbox outbox"
  shows "byte_source (tcp_read px) (tcp_pending inbox)"
proof
  fix t d r d' t'
  assume rd: "tcp_read px t d = (r, d', t')"
  obtain os h where t: "t = (os, h)" by (cases t)
  have all: "length d' = length d \<and> rr_bytes_read r \<le> length d \<and>
    (d \<noteq> [] \<longrightarrow> rr_status r = SC_Ok \<longrightarrow> tcp_pending inbox t = take (rr_bytes_read r) d' @ tcp_pending inbox t' \<and>
      (rr_end_of_stream r \<longrightarrow> tcp_pending inbox t' = [])) \<and>
    (rr_status r \<noteq> SC_Ok \<longrightarrow> tcp_pending inbox t' = tcp_pending inbox t)"
  proof (cases "handle_is_open h")
    case False
    then have "r = empty_read\<lparr>rr_end_of_stream := True\<rparr>" "d' = d" "t' = t"
      using rd by (simp_all add: t tcp_read_def)
    then show ?thesis using False by (simp add: empty_read_def tcp_pending_def t)
  next
    case True
    show ?thesis
    proof (rule tcp_read_cases [OF k True rd [unfolded t]], goal_cases)
      case (1 bs os')
      then show ?thesis using True blit_then_take [of bs d]
        by (simp add: empty_read_def tcp_pending_def t length_blit)
    next
      case (2 os')
      then show ?thesis using True by (auto simp: empty_read_def tcp_pending_def t handle_is_open_def)
    next
      case (3 os')
      then show ?thesis using True by (simp add: empty_read_def tcp_pending_def t)
    next
      case (4 os')
      then show ?thesis using True by (simp add: empty_read_def tcp_pending_def t)
    qed
  qed
  show "length d' = length d \<and> rr_bytes_read r \<le> length d" using all by blast
  show "rr_status r \<noteq> SC_Ok \<Longrightarrow> tcp_pending inbox t' = tcp_pending inbox t" using all by blast
  show "d \<noteq> [] \<Longrightarrow> rr_status r = SC_Ok \<Longrightarrow> tcp_pending inbox t = take (rr_bytes_read r) d' @ tcp_pending inbox t' \<and>
      (rr_end_of_stream r \<longrightarrow> tcp_pending inbox t' = [])" using all by blast
qed

lemma concat_filter_nonempty: "concat (filter (\<lambda>xs. xs \<noteq> []) xss) = concat xss"
  by (induction xss) auto

lemma tcp_streams: "\<not> has_capability tcp_capabilities TC_PreservesFrameBoundaries"
  by (simp add: tcp_capabilities_def has_capability_def)

lemma tcp_byte_sink:
  assumes k: "kernel_stream px inbox outbox"
  shows "byte_sink (tcp_ops px) (tcp_sent outbox)"
proof
  fix t
  show "\<not> has_capability (bs_capabilities (tcp_ops px) t) TC_PreservesFrameBoundaries"
    by (simp add: tcp_ops_def tcp_streams)
next
  fix t spans r t'
  assume wv: "bs_writev (tcp_ops px) t spans = (r, t')"
  obtain os h where t: "t = (os, h)" by (cases t)
  let ?iov = "filter (\<lambda>source. source \<noteq> []) spans" and ?fd = "fh_fd h"
  show "wr_bytes_written r \<le> length (concat spans) \<and>
      tcp_sent outbox t' = tcp_sent outbox t @ take (wr_bytes_written r) (concat spans)"
  proof (cases "handle_is_open h \<and> ?iov \<noteq> []")
    case False
    then have "wr_bytes_written r = 0 \<and> t' = t"
      using wv by (cases "handle_is_open h") (auto simp: t tcp_ops_def tcp_writev_def closed_write_def writev_to_fd_def)
    then show ?thesis by simp
  next
    case True
    obtain res os' where ret: "retried px (px_sendmsg px ?fd ?iov) os = (res, os')"
      by (cases "retried px (px_sendmsg px ?fd ?iov) os")
    have "finite_signals (px_signals px) (\<lambda>os. outbox os ?fd) (px_sendmsg px ?fd ?iov)"
      by (rule kernel_send(1) [OF k])
    then obtain os0 where os0: "outbox os0 ?fd = outbox os ?fd" and call: "px_sendmsg px ?fd ?iov os0 = (res, os')"
      by (rule retried_last [OF _ ret])
    have good: "\<And>n. res = Inr n \<Longrightarrow> n \<le> length (concat ?iov) \<and> outbox os' ?fd = outbox os0 ?fd @ take n (concat ?iov)"
      using kernel_send(2) [OF k] call by blast
    have bad: "\<And>e. res = Inl e \<Longrightarrow> outbox os' ?fd = outbox os0 ?fd"
      using kernel_send(3) [OF k] call by blast
    have out: "r = write_outcome res" "t' = (os', h)"
      using wv True ret by (simp_all add: t tcp_ops_def tcp_writev_def writev_to_fd_def)
    show ?thesis
    proof (cases res)
      case (Inl e)
      then show ?thesis using bad [OF Inl] os0 by (simp add: out t tcp_sent_def write_outcome_def)
    next
      case (Inr n)
      then show ?thesis using good [OF Inr] os0 unfolding concat_filter_nonempty
        by (simp add: out t tcp_sent_def write_outcome_def)
    qed
  qed
next
  fix t w t'
  assume wt: "bs_wait_until_writable (tcp_ops px) t = (w, t')"
  obtain os h where t: "t = (os, h)" by (cases t)
  let ?fd = "fh_fd h"
  show "tcp_sent outbox t' = tcp_sent outbox t \<and> w \<noteq> Inl SC_Ok"
  proof (cases "?fd < 0")
    case True
    then show ?thesis using wt by (auto simp: t tcp_ops_def tcp_wait_until_writable_def wait_for_fd_def)
  next
    case False
    obtain res os' where ret: "retried px (px_poll px ?fd POLLOUT 1000) os = (res, os')"
      by (cases "retried px (px_poll px ?fd POLLOUT 1000) os")
    have "finite_signals (px_signals px) (\<lambda>os. outbox os ?fd) (px_poll px ?fd POLLOUT 1000)"
      by (rule kernel_send(4) [OF k])
    then obtain os0 where "outbox os0 ?fd = outbox os ?fd" and "px_poll px ?fd POLLOUT 1000 os0 = (res, os')"
      by (rule retried_last [OF _ ret])
    then have "outbox os' ?fd = outbox os ?fd" using kernel_send(5) [OF k] by metis
    then show ?thesis using wt False ret
      by (cases res) (auto simp: t tcp_ops_def tcp_wait_until_writable_def wait_for_fd_def tcp_sent_def)
  qed
qed

subsection \<open>A kernel to run the code on\<close>

text \<open>Sockets that take every byte at once and end when the bytes of their peer are read.\<close>

record demo_os =
  do_inbox :: "int \<Rightarrow> bytes"
  do_outbox :: "int \<Rightarrow> bytes"

definition demo_receive :: "int \<Rightarrow> nat \<Rightarrow> demo_os \<Rightarrow> (errno_code + bytes) \<times> demo_os" where
  "demo_receive fd n os = (Inr (take n (do_inbox os fd)), os\<lparr>do_inbox := (do_inbox os)(fd := drop n (do_inbox os fd))\<rparr>)"

definition demo_send :: "int \<Rightarrow> bytes \<Rightarrow> demo_os \<Rightarrow> (errno_code + nat) \<times> demo_os" where
  "demo_send fd bs os = (Inr (length bs), os\<lparr>do_outbox := (do_outbox os)(fd := do_outbox os fd @ bs)\<rparr>)"

definition demo_kernel :: "(demo_os, unit) posix" where
  "demo_kernel =
     \<lparr>px_signals = (\<lambda>os. 0), px_o_nonblock = 2048, px_read = demo_receive, px_recv = demo_receive,
      px_write = demo_send, px_send = demo_send,
      px_writev = (\<lambda>fd spans. demo_send fd (concat spans)), px_sendmsg = (\<lambda>fd spans. demo_send fd (concat spans)),
      px_poll = (\<lambda>fd ev ms os. (Inr 1, os)), px_close = (\<lambda>fd os. (Inr (), os)),
      px_getfl = (\<lambda>fd os. (Inr 0, os)), px_setfl = (\<lambda>fd flags os. (Inr (), os)),
      px_setsockopt = (\<lambda>fd opt v os. (Inr (), os)), px_so_error = (\<lambda>fd os. (Inr None, os)),
      px_getaddrinfo = (\<lambda>host port os. (Inr [()], os)), px_socket = (\<lambda>a os. (Inr 3, os)),
      px_connect = (\<lambda>fd a os. (Inr (), os)), px_accept = (\<lambda>fd os. (Inr 4, os)), px_unlink = (\<lambda>path os. os)\<rparr>"

lemma demo_kernel_simps [simp]:
  "px_signals demo_kernel = (\<lambda>os. 0)" "px_recv demo_kernel = demo_receive"
  "px_sendmsg demo_kernel = (\<lambda>fd spans. demo_send fd (concat spans))"
  "px_poll demo_kernel = (\<lambda>fd ev ms os. (Inr 1, os))"
  by (simp_all add: demo_kernel_def)

lemma demo_kernel_stream: "kernel_stream demo_kernel do_inbox do_outbox"
  by (auto simp: kernel_stream_def finite_signals_def demo_receive_def demo_send_def)

interpretation tcp_demo_source: prompt_source "tcp_read demo_kernel" "tcp_pending do_inbox"
proof (rule prompt_source.intro [OF tcp_byte_source [OF demo_kernel_stream]], rule prompt_source_axioms.intro)
  fix t d r d' t'
  assume rd: "tcp_read demo_kernel t d = (r, d', t')" and d: "d \<noteq> []"
  obtain os h where t: "t = (os, h)" by (cases t)
  show "rr_status r = SC_Ok \<and> \<not> rr_would_block r \<and> (0 < rr_bytes_read r \<or> rr_end_of_stream r)"
  proof (cases "handle_is_open h")
    case False
    then show ?thesis using rd by (auto simp: t tcp_read_def empty_read_def)
  next
    case True
    obtain r1 d1 o1 where ro: "read_outcome (Inr (take (length d) (do_inbox os (fh_fd h)))) d = (r1, d1, o1)"
      by (metis prod_cases3)
    then have "r = r1"
      using rd True by (simp add: t tcp_read_def recv_from_socket_def retried_def demo_receive_def)
    then show ?thesis using ro d by (auto simp: read_outcome_def empty_read_def split: if_splits)
  qed
qed

interpretation tcp_demo_sink: willing_sink "tcp_ops demo_kernel" "tcp_sent do_outbox" "\<lambda>t. handle_is_open (snd t)"
proof (rule willing_sink.intro [OF tcp_byte_sink [OF demo_kernel_stream]], rule willing_sink_axioms.intro)
  fix t :: "demo_os \<times> fd_handle" and spans r t'
  assume op: "handle_is_open (snd t)" and wv: "bs_writev (tcp_ops demo_kernel) t spans = (r, t')"
    and bytes: "concat spans \<noteq> []"
  obtain os h where t: "t = (os, h)" by (cases t)
  have "filter (\<lambda>xs. xs \<noteq> []) spans \<noteq> []"
    using bytes unfolding concat_filter_nonempty [symmetric, of spans] by force
  then have "r = write_outcome (Inr (length (concat spans)))" "snd t' = h"
    using wv op by (auto simp: t tcp_ops_def tcp_writev_def writev_to_fd_def retried_def demo_send_def concat_filter_nonempty)
  then show "wr_status r = SC_Ok \<and> 0 < wr_bytes_written r \<and> handle_is_open (snd t')"
    using op bytes by (simp add: write_outcome_def t)
next
  fix t :: "demo_os \<times> fd_handle"
  assume "handle_is_open (snd t)"
  then show "\<exists>t'. bs_wait_until_writable (tcp_ops demo_kernel) t = (Inr True, t') \<and> handle_is_open (snd t')"
    by (cases t) (simp add: tcp_ops_def tcp_wait_until_writable_def wait_for_fd_def retried_def handle_is_open_def)
qed

subsection \<open>Properties\<close>

lemma new_channel:
  "fc_options (new_frame_channel t options) = options" "fc_transport (new_frame_channel t options) = t"
  "unread (new_frame_channel t options) = []"
  "frames_fit options frames \<Longrightarrow> channel_ok (new_frame_channel t options)"
  by (simp_all add: new_frame_channel_def unread_def channel_ok_def frames_fit_def)

lemma frames_received:
  assumes "willing_sink ops sink ready" and "prompt_source (bs_read ops') pending"
    and streams: "\<forall>t. \<not> has_capability (bs_capabilities ops' t) TC_PreservesFrameBoundaries"
    and fit: "frames_fit options frames" and "ready s"
    and fuel: "\<forall>frame \<in> set frames. fo_prefix_width_bytes options + length frame < fuel"
  shows "\<exists>sender. send_frames fuel ops frames (new_frame_channel s options) = Some (SC_Ok, sender) \<and>
    (\<forall>r fuel'. pending r = drop (length (sink s)) (sink (fc_transport sender)) \<longrightarrow> length (pending r) < fuel' \<longrightarrow>
      (\<exists>rs receiver. receive_frames fuel' ops' (length frames) (new_frame_channel r options) = Some (rs, receiver) \<and>
        map snd rs = map Some frames \<and> (\<forall>x \<in> set rs. fp_status (fst x) = FCS_FrameReady) \<and>
        receive_stream pending receiver = []))"
proof -
  let ?s = "new_frame_channel s options"
  note new = new_channel(1-3) new_channel(4) [OF fit]
  have "\<forall>frame \<in> set frames. length frame \<le> fo_max_frame_size (fc_options ?s) \<and>
      fo_prefix_width_bytes (fc_options ?s) + length frame < fuel"
    using fit fuel by (simp add: new frames_fit_def)
  from willing_sink.send_frames_total [OF assms(1) this] obtain sender
    where sent: "send_frames fuel ops frames ?s = Some (SC_Ok, sender)" using assms(5) by (auto simp: new)
  have wire: "sink (fc_transport sender) = sink s @ wire_stream (fo_prefix_width_bytes options) frames"
    using byte_sink.send_frames_sends [OF willing_sink.axioms(1) [OF assms(1)] sent] by (simp add: new)
  have "\<exists>rs receiver. receive_frames fuel' ops' (length frames) (new_frame_channel r options) = Some (rs, receiver) \<and>
        map snd rs = map Some frames \<and> (\<forall>x \<in> set rs. fp_status (fst x) = FCS_FrameReady) \<and>
        receive_stream pending receiver = []"
    if p: "pending r = drop (length (sink s)) (sink (fc_transport sender))" and f: "length (pending r) < fuel'" for r fuel'
  proof -
    have stream: "receive_stream pending (new_frame_channel r options) = wire_stream (fo_prefix_width_bytes options) frames @ []"
      using p wire by (simp add: receive_stream_def new)
    then have "length (receive_stream pending (new_frame_channel r options)) < fuel'" using p f wire by simp
    from prompt_source.receive_frames_stream [OF assms(2) new(4) refl this streams] fit stream
    show ?thesis unfolding new(1) by simp
  qed
  then show ?thesis using sent by blast
qed

text \<open>C21: Whatever frames are sent through a channel over a transport that takes bytes, a channel with the same
  options that reads these bytes from another transport receives the same frames in the same order,
  empty frames included, and nothing is left over, however either transport splits the stream.\<close>
theorem frame_channel_roundtrip:
  assumes "willing_sink ops sink ready" and "prompt_source (bs_read ops') pending"
    and streams: "\<forall>t. \<not> has_capability (bs_capabilities ops' t) TC_PreservesFrameBoundaries"
    and fit: "frames_fit options frames" and "ready s"
    and fuel: "\<forall>frame \<in> set frames. fo_prefix_width_bytes options + length frame < fuel"
  shows "\<exists>sender. send_frames fuel ops frames (new_frame_channel s options) = Some (SC_Ok, sender) \<and>
    (\<forall>r fuel'. pending r = drop (length (sink s)) (sink (fc_transport sender)) \<longrightarrow> length (pending r) < fuel' \<longrightarrow>
      (\<exists>rs receiver. receive_frames fuel' ops' (length frames) (new_frame_channel r options) = Some (rs, receiver) \<and>
        map snd rs = map Some frames \<and> (\<forall>x \<in> set rs. fp_status (fst x) = FCS_FrameReady) \<and>
        receive_stream pending receiver = []))"
  by (rule frames_received [OF assms])

theorem frame_channel_roundtrip_witness:
  "\<exists>sender. send_frames 9 (tcp_ops demo_kernel) [[1, 2], [], [3]]
      (new_frame_channel (\<lparr>do_inbox = (\<lambda>fd. []), do_outbox = (\<lambda>fd. [])\<rparr>, \<lparr>fh_fd = 3, fh_open = True, fh_own = True\<rparr>)
        default_frame_channel_options) = Some (SC_Ok, sender)"
proof -
  let ?s = "(\<lparr>do_inbox = (\<lambda>fd. []), do_outbox = (\<lambda>fd. [])\<rparr>, \<lparr>fh_fd = 3, fh_open = True, fh_own = True\<rparr>) :: demo_os \<times> fd_handle"
  have src: "prompt_source (bs_read (tcp_ops demo_kernel)) (tcp_pending do_inbox)"
    using tcp_demo_source.prompt_source_axioms by (simp add: tcp_ops_def)
  have str: "\<forall>t. \<not> has_capability (bs_capabilities (tcp_ops demo_kernel) t) TC_PreservesFrameBoundaries"
    by (simp add: tcp_ops_def tcp_streams)
  have fit: "frames_fit default_frame_channel_options [[1, 2], [], [3]]"
    by (simp add: frames_fit_def default_frame_channel_options_def)
  have rdy: "handle_is_open (snd ?s)" by (simp add: handle_is_open_def)
  have fuel: "\<forall>frame \<in> set [[1, 2], [], [3 :: u8]]. fo_prefix_width_bytes default_frame_channel_options + length frame < 9"
    by (simp add: default_frame_channel_options_def)
  from frame_channel_roundtrip [OF tcp_demo_sink.willing_sink_axioms src str fit rdy fuel]
  show ?thesis by blast
qed

text \<open>C22: Whatever the kernel does to a TCP socket, interrupting, blocking or cutting short any call, the bytes a channel
  has sent when \<open>send_frames\<close> returns are a prefix of the prefixed frames, and all of them if the status is
  ok.\<close>
theorem tcp_frames_on_wire:
  assumes "kernel_stream px inbox outbox" and "send_frames fuel (tcp_ops px) frames c = Some (st, c')"
  shows "(\<exists>n. tcp_sent outbox (fc_transport c') = tcp_sent outbox (fc_transport c) @
      take n (wire_stream (fo_prefix_width_bytes (fc_options c)) frames)) \<and>
    (st = SC_Ok \<longrightarrow> tcp_sent outbox (fc_transport c') = tcp_sent outbox (fc_transport c) @
      wire_stream (fo_prefix_width_bytes (fc_options c)) frames)"
  using byte_sink.send_frames_sends [OF tcp_byte_sink [OF assms(1)] assms(2)] by blast

definition demo_channel :: "(demo_os \<times> fd_handle) frame_channel" where
  "demo_channel = new_frame_channel
     (\<lparr>do_inbox = (\<lambda>fd. []), do_outbox = (\<lambda>fd. [])\<rparr>, \<lparr>fh_fd = 3, fh_open = True, fh_own = True\<rparr>)
     default_frame_channel_options"

lemma demo_channel_sends: "\<exists>c'. send_frames 9 (tcp_ops demo_kernel) [[7, 8]] demo_channel = Some (SC_Ok, c')"
proof -
  have "\<forall>frame \<in> set [[7, 8 :: u8]]. length frame \<le> fo_max_frame_size (fc_options demo_channel) \<and>
      fo_prefix_width_bytes (fc_options demo_channel) + length frame < 9"
    and "handle_is_open (snd (fc_transport demo_channel))"
    by (simp_all add: demo_channel_def new_frame_channel_def default_frame_channel_options_def handle_is_open_def)
  from tcp_demo_sink.send_frames_total [OF this] show ?thesis by blast
qed

theorem tcp_frames_on_wire_witness:
  "\<exists>c'. send_frames 9 (tcp_ops demo_kernel) [[7, 8]] demo_channel = Some (SC_Ok, c') \<and>
     tcp_sent do_outbox (fc_transport c') = [2, 0, 0, 0, 7, 8]"
proof -
  obtain c' where c': "send_frames 9 (tcp_ops demo_kernel) [[7, 8]] demo_channel = Some (SC_Ok, c')"
    using demo_channel_sends by blast
  from tcp_frames_on_wire [OF demo_kernel_stream c'] have
    "tcp_sent do_outbox (fc_transport c') = tcp_sent do_outbox (fc_transport demo_channel) @
      wire_stream (fo_prefix_width_bytes (fc_options demo_channel)) [[7, 8]]" by blast
  also have "\<dots> = [2, 0, 0, 0, 7, 8]"
    by (simp add: demo_channel_def new_frame_channel_def default_frame_channel_options_def tcp_sent_def
        encode_little_endian_def upt_rec)
  finally show ?thesis using c' by blast
qed

text \<open>C23: A read that fails is reported as a transport error with its status while the prefix of the next frame is
  incomplete. Once the prefix is there and the frame is not, the same failure is reported as a need for
  more data with an ok status, so a caller that polls until the frame arrives never learns of the
  error.\<close>
theorem channel_error_reporting:
  assumes "\<not> preserves_frames ops c" and ok: "channel_ok c"
    and fails: "\<And>d. rr_status (fst (bs_read ops (fc_transport c) d)) = e" and e: "e \<noteq> SC_Ok" "e \<noteq> SC_NotFound"
  shows "(length (unread c) < fo_prefix_width_bytes (fc_options c) \<longrightarrow>
      (\<exists>c'. receive_frame (Suc fuel) ops c =
         Some ((channel_result FCS_TransportError)\<lparr>fp_transport_status := e\<rparr>, None, c'))) \<and>
    (\<forall>n. try_parse_frame_length c = Inr n \<longrightarrow>
       length (unread c) < fo_prefix_width_bytes (fc_options c) + n \<longrightarrow>
      (\<exists>c'. receive_frame (Suc fuel) ops c = Some (channel_result FCS_NeedMoreData, None, c')))"
proof -
  obtain fr c1 where fill: "fill_stream_buffer ops c = (fr, c1)" by (cases "fill_stream_buffer ops c")
  have keep: "fc_transport (if b then compact_stream_buffer c else c) = fc_transport c" for b by simp
  have fr: "fr = (channel_result FCS_TransportError)\<lparr>fp_transport_status := e\<rparr>"
    using fill fails e(1) unfolding fill_stream_buffer_def Let_def keep
    by (auto split: prod.splits) (metis fst_conv)+
  have frs: "fp_status fr = FCS_TransportError" "fp_transport_status fr = e"
    by (simp_all add: fr channel_result_def)
  have short: "\<exists>c'. receive_frame (Suc fuel) ops c =
      Some ((channel_result FCS_TransportError)\<lparr>fp_transport_status := e\<rparr>, None, c')"
    if "length (unread c) < fo_prefix_width_bytes (fc_options c)"
  proof -
    have "try_parse_frame_length c = Inl SC_NotFound" using that by (simp add: parse_length_unread [OF ok])
    then have "acquire_loop (Suc fuel) ops c = Some (Inl e, c1)" using fill frs by simp
    then show ?thesis using assms(1) e(2) by (simp add: receive_frame_def try_acquire_frame_def)
  qed
  have part: "\<exists>c'. receive_frame (Suc fuel) ops c = Some (channel_result FCS_NeedMoreData, None, c')"
    if n: "try_parse_frame_length c = Inr n" "length (unread c) < fo_prefix_width_bytes (fc_options c) + n" for n
  proof -
    have "n \<le> fo_max_frame_size (fc_options c)"
      using n(1) by (auto simp: parse_length_unread [OF ok] Let_def split: if_splits)
    then have "wrap_size (fo_prefix_width_bytes (fc_options c) + n) = fo_prefix_width_bytes (fc_options c) + n"
      by (intro wrap_size_id) (use ok in \<open>simp add: channel_ok_def\<close>)
    then have "acquire_loop (Suc fuel) ops c = Some (Inl SC_NotFound, c1)"
      using n fill frs by (simp add: unread_def)
    then show ?thesis using assms(1) by (simp add: receive_frame_def try_acquire_frame_def)
  qed
  show ?thesis using short part by blast
qed

text \<open>A closed TCP transport, or one that was moved from, makes no system call any more: it reads the end of
  the stream, refuses to write, cannot be waited for, and closing it again succeeds and does
  nothing. So a descriptor is closed at most once, by the transport that owns it.\<close>
theorem closed_transport_inert:
  assumes "h' = snd (snd (tcp_close px (os, h))) \<or> h' = snd (handle_move_from h)"
  shows "tcp_close px (os', h') = (SC_Ok, (os', h')) \<and>
    tcp_read px (os', h') destination = (empty_read\<lparr>rr_end_of_stream := True\<rparr>, destination, (os', h')) \<and>
    tcp_write px (os', h') source = (closed_write, (os', h')) \<and>
    tcp_writev px (os', h') sources = (closed_write, (os', h')) \<and>
    tcp_wait_until_readable px ms (os', h') = (Inl SC_InvalidArgument, (os', h')) \<and>
    tcp_wait_until_writable px ms (os', h') = (Inl SC_InvalidArgument, (os', h'))"
proof -
  have "fh_fd h' < 0" "\<not> fh_open h'"
    using assms by (auto simp: tcp_close_def handle_move_from_def Let_def split: if_splits prod.splits)
  moreover from this have "h'\<lparr>fh_open := False\<rparr> = h'" by simp
  ultimately show ?thesis
    by (simp add: tcp_close_def tcp_read_def tcp_write_def tcp_writev_def tcp_wait_until_readable_def
        tcp_wait_until_writable_def wait_for_fd_def handle_is_open_def)
qed

theorem closed_transport_inert_witness:
  "\<forall>os'. tcp_close demo_kernel (os', \<lparr>fh_fd = -1, fh_open = False, fh_own = False\<rparr>) =
     (SC_Ok, (os', \<lparr>fh_fd = -1, fh_open = False, fh_own = False\<rparr>))"
proof
  fix os'
  have "\<lparr>fh_fd = -1, fh_open = False, fh_own = False\<rparr> = snd (handle_move_from \<lparr>fh_fd = 3, fh_open = True, fh_own = True\<rparr>)"
    by (simp add: handle_move_from_def)
  then show "tcp_close demo_kernel (os', \<lparr>fh_fd = -1, fh_open = False, fh_own = False\<rparr>) =
     (SC_Ok, (os', \<lparr>fh_fd = -1, fh_open = False, fh_own = False\<rparr>))"
    by (rule closed_transport_inert [OF disjI2, THEN conjunct1])
qed

definition failing_ops :: "(demo_os \<times> fd_handle) byte_stream_ops" where
  "failing_ops = (tcp_ops demo_kernel)\<lparr>bs_read := \<lambda>t d. (empty_read\<lparr>rr_status := SC_IoError\<rparr>, d, t)\<rparr>"

theorem channel_error_reporting_witness:
  "\<exists>c'. receive_frame 1 failing_ops (demo_channel\<lparr>fc_stream_buffer := [2, 0, 0, 0, 7]\<rparr>) =
     Some (channel_result FCS_NeedMoreData, None, c')"
proof -
  let ?c = "demo_channel\<lparr>fc_stream_buffer := [2, 0, 0, 0, 7]\<rparr>"
  have a: "\<not> preserves_frames failing_ops ?c"
    by (simp add: preserves_frames_def failing_ops_def tcp_ops_def tcp_streams)
  have b: "channel_ok ?c"
    by (simp add: channel_ok_def demo_channel_def new_frame_channel_def default_frame_channel_options_def)
  have f: "rr_status (fst (bs_read failing_ops (fc_transport ?c) d)) = SC_IoError" for d
    by (simp add: failing_ops_def)
  have p: "try_parse_frame_length ?c = Inr 2"
    by (simp add: try_parse_frame_length_def demo_channel_def new_frame_channel_def default_frame_channel_options_def
        subspan_def decode_little_endian_def byte_to_u64_def)
  have l: "length (unread ?c) < fo_prefix_width_bytes (fc_options ?c) + 2"
    by (simp add: unread_def demo_channel_def new_frame_channel_def default_frame_channel_options_def)
  from channel_error_reporting [OF a b f, of 0] p l show ?thesis by auto
qed

subsection \<open>A channel that feeds a stream runtime\<close>

definition channel_framing :: "frame_channel_options \<Rightarrow> length_prefixed_options" where
  "channel_framing options =
     \<lparr>lp_prefix_width_bytes = fo_prefix_width_bytes options, lp_byte_order = LittleEndian,
      lp_include_prefix_in_payload = False, lp_max_payload_size = fo_max_frame_size options\<rparr>"

lemma framing_wire_frame:
  assumes "fo_prefix_width_bytes options \<in> {1, 2, 4}"
    and "length frame < 2 ^ (8 * fo_prefix_width_bytes options)" and "length frame \<le> fo_max_frame_size options"
  shows "length_prefixed_try_frame (channel_framing options) (wire_frame (fo_prefix_width_bytes options) frame @ rest) =
    (FS_Ready, \<lparr>fs_offset = fo_prefix_width_bytes options, fs_size = length frame,
      fs_bytes_consumed = fo_prefix_width_bytes options + length frame\<rparr>)"
proof -
  let ?w = "fo_prefix_width_bytes options" and ?xs = "wire_frame (fo_prefix_width_bytes options) frame @ rest"
  have w: "?w = lp_prefix_width_bytes (channel_framing options)" by (simp add: channel_framing_def)
  have "?w \<le> 8" using assms(1) by auto
  then have "length frame = decode_little_endian (take ?w ?xs)"
    using decode_encode [OF assms(2)] by (simp add: wire_frame_def)
  then have n: "length frame = unat (read_unsigned_scalar_unchecked (lp_byte_order (channel_framing options)) (take ?w ?xs))"
    by (simp add: decode_little_endian_def read_unsigned_scalar_unchecked_def channel_framing_def)
  have "?w \<le> length ?xs" by (simp add: wire_frame_def)
  from length_prefixed_step [OF w assms(1) this n] show ?thesis
    using assms(3) by (simp add: channel_framing_def wire_frame_def)
qed

lemma framing_wire_stream:
  assumes w: "fo_prefix_width_bytes options \<in> {1, 2, 4}" and "frames_fit options frames"
  shows "stream_frames (length_prefixed_try_frame (channel_framing options)) (wire_stream (fo_prefix_width_bytes options) frames) =
    map (\<lambda>frame. (frame, fo_prefix_width_bytes options + length frame)) frames"
  using assms(2)
proof (induction frames)
  case Nil
  have "fst (length_prefixed_try_frame (channel_framing options) []) \<noteq> FS_Ready" by (rule length_prefixed.not_ready_Nil)
  then show ?case by (simp add: length_prefixed.stream_frames_none)
next
  case (Cons frame frames)
  let ?w = "fo_prefix_width_bytes options"
  have fit: "length frame < 2 ^ (8 * ?w)" "length frame \<le> fo_max_frame_size options" "frames_fit options frames"
    using Cons.prems by (simp_all add: frames_fit_def)
  note ready = framing_wire_frame [OF w fit(1,2), of "wire_stream ?w frames"]
  have stream: "wire_stream ?w (frame # frames) = wire_frame ?w frame @ wire_stream ?w frames"
    by (simp add: wire_frame_def)
  show ?case
    unfolding stream length_prefixed.stream_frames_ready [OF ready]
    using Cons.IH [OF fit(3)] by (simp add: wire_frame_def frame_bytes_def subspan_def)
qed

text \<open>C24: Frames sent through a channel reach a stream runtime that reads the same bytes with the length-prefixed
  framer of the same width and limit: polling it once per frame decodes exactly the frames
  sent, in order, and each poll consumes the frame and its prefix.\<close>
theorem channel_feeds_stream_runtime:
  assumes "byte_sink ops sink" and "prompt_source read pending"
    and width: "fo_prefix_width_bytes options \<in> {1, 2, 4}" and fit: "frames_fit options frames"
    and cap: "1 < cap" "fo_prefix_width_bytes options + fo_max_frame_size options < cap"
    and sent: "send_frames fuel ops frames (new_frame_channel s options) = Some (SC_Ok, sender)"
    and arrives: "pending t = drop (length (sink s)) (sink (fc_transport sender))"
  shows "\<exists>rs s'. poll_many sops p cap (length_prefixed_try_frame (channel_framing options)) read (length frames)
      (new_stream_runtime cap t policies) = Some (rs, s') \<and>
    map poll_delivery rs = map (\<lambda>frame. (decode_any sops p frame, fo_prefix_width_bytes options + length frame)) frames"
proof -
  let ?tf = "length_prefixed_try_frame (channel_framing options)"
  have stream: "stream_bytes pending (new_stream_runtime cap t policies) = wire_stream (fo_prefix_width_bytes options) frames"
    using arrives byte_sink.send_frames_sends [OF assms(1) sent] by (simp add: new_stream_bytes new_channel)
  note frames = framing_wire_stream [OF width fit]
  have "\<forall>fn \<in> set (stream_frames ?tf (stream_bytes pending (new_stream_runtime cap t policies))). snd fn < cap"
    unfolding stream frames using fit cap(2) by (auto simp: frames_fit_def)
  from prompt_stream.polls_deliver [OF prompt_stream.intro [OF length_prefixed.prompt_framer_axioms assms(2)]
      new_stream_ok [OF cap(1)] this, of sops p]
  show ?thesis unfolding stream frames by (auto simp: comp_def)
qed

theorem channel_feeds_stream_runtime_witness:
  "\<exists>sender :: (demo_os \<times> fd_handle) frame_channel. \<forall>sops p. \<exists>rs s'.
     poll_many sops p 2000000 (length_prefixed_try_frame (channel_framing default_frame_channel_options)) span_read 1
       (new_stream_runtime 2000000 (new_span_transport (tcp_sent do_outbox (fc_transport sender)) 3)
         default_stream_runtime_options) = Some (rs, s') \<and>
     map poll_delivery rs = [(decode_any sops p [7, 8], 6)]"
proof -
  obtain sender where sent: "send_frames 9 (tcp_ops demo_kernel) [[7, 8]] demo_channel = Some (SC_Ok, sender)"
    using demo_channel_sends by blast
  have width: "fo_prefix_width_bytes default_frame_channel_options \<in> {1, 2, 4}"
    and fit: "frames_fit default_frame_channel_options [[7, 8]]"
    and cap: "(1 :: nat) < 2000000"
      "fo_prefix_width_bytes default_frame_channel_options + fo_max_frame_size default_frame_channel_options < 2000000"
    by (simp_all add: default_frame_channel_options_def frames_fit_def)
  let ?s = "(\<lparr>do_inbox = (\<lambda>fd. []), do_outbox = (\<lambda>fd. [])\<rparr>, \<lparr>fh_fd = 3, fh_open = True, fh_own = True\<rparr>) :: demo_os \<times> fd_handle"
  have arrives: "span_pending (new_span_transport (tcp_sent do_outbox (fc_transport sender)) 3) =
      drop (length (tcp_sent do_outbox ?s)) (tcp_sent do_outbox (fc_transport sender))"
    by (simp add: span_pending_def new_span_transport_def tcp_sent_def)
  have len: "length [[7, 8 :: u8]] = 1" "fo_prefix_width_bytes default_frame_channel_options + length [7, 8 :: u8] = 6"
    by (simp_all add: default_frame_channel_options_def)
  have "\<exists>rs s'. poll_many sops p 2000000 (length_prefixed_try_frame (channel_framing default_frame_channel_options)) span_read 1
       (new_stream_runtime 2000000 (new_span_transport (tcp_sent do_outbox (fc_transport sender)) 3)
         default_stream_runtime_options) = Some (rs, s') \<and>
     map poll_delivery rs = [(decode_any sops p [7, 8], 6)]" for sops p
    using channel_feeds_stream_runtime [OF tcp_demo_sink.byte_sink_axioms span.prompt_source_axioms width fit cap
        sent [unfolded demo_channel_def] arrives, of sops p default_stream_runtime_options]
    unfolding len(1) list.map len(2) .
  then show ?thesis by (intro exI [of _ sender] allI)
qed

end
