(* ===== verification/Session_Handshake.thy ===== *)
theory Session_Handshake
  imports Transport_Properties
begin

text \<open>
  \<open>UprSession\<close> of \<open>adapters/upr_session.cpp\<close>: the handshake frame, its encoding, the compatibility
  test, and the two sides of the handshake over a \<open>FrameChannel\<close>. The deadline of
  \<open>receive_handshake_frame\<close> is the number of polls the caller makes before the clock passes it.
\<close>

subsection \<open>The handshake frame\<close>

text \<open>
  \<open>UprTransportMode\<close> has three enumerators over \<open>uint16_t\<close>; \<open>decode_handshake\<close> casts any number to it, so its
  values are words.
\<close>

definition mode_length_prefixed_stream :: u16 where "mode_length_prefixed_stream = 1"
definition mode_descriptor_ring :: u16 where "mode_descriptor_ring = 2"
definition mode_datagram :: u16 where "mode_datagram = 3"

record session_handshake =
  sh_protocol_version :: u16
  sh_flags :: u16
  sh_transport_mode :: u16
  sh_frame_codec :: u16
  sh_max_frame_bytes :: u32
  sh_session_id :: u64

definition default_handshake :: session_handshake where
  "default_handshake =
     \<lparr>sh_protocol_version = 1, sh_flags = 0, sh_transport_mode = mode_length_prefixed_stream, sh_frame_codec = 1,
      sh_max_frame_bytes = push_bit 20 1, sh_session_id = 0\<rparr>"

definition kMagic :: bytes where
  "kMagic = [0x55, 0x50, 0x52, 0x31]"

text \<open>\<open>append_le<Integer>\<close> with \<open>n = sizeof(Integer)\<close>, and \<open>decode_le<Integer>\<close> before the cast.\<close>

definition append_le :: "nat \<Rightarrow> u64 \<Rightarrow> bytes \<Rightarrow> bytes" where
  "append_le n value output = output @ map (\<lambda>index. ucast (drop_bit (index * 8) value)) [0..<n]"

definition decode_le :: "nat \<Rightarrow> bytes \<Rightarrow> nat \<Rightarrow> u64" where
  "decode_le n bs offset = read_le_loop 0 0 (subspan offset n bs)"

definition encode_handshake :: "session_handshake \<Rightarrow> bytes" where
  "encode_handshake h =
     append_le 8 (sh_session_id h)
       (append_le 4 (ucast (sh_max_frame_bytes h))
         (append_le 2 (ucast (sh_frame_codec h))
           (append_le 2 (ucast (sh_transport_mode h))
             (append_le 2 (ucast (sh_flags h))
               (append_le 2 (ucast (sh_protocol_version h)) kMagic)))))"

definition decode_handshake :: "bytes \<Rightarrow> status_code + session_handshake" where
  "decode_handshake bs =
     (if length bs \<noteq> 24 then Inl SC_InvalidArgument
      else if take 4 bs \<noteq> kMagic then Inl SC_InvalidArgument
      else Inr
        \<lparr>sh_protocol_version = ucast (decode_le 2 bs 4), sh_flags = ucast (decode_le 2 bs 6),
         sh_transport_mode = ucast (decode_le 2 bs 8), sh_frame_codec = ucast (decode_le 2 bs 10),
         sh_max_frame_bytes = ucast (decode_le 4 bs 12), sh_session_id = decode_le 8 bs 16\<rparr>)"

definition validate_compatibility :: "session_handshake \<Rightarrow> session_handshake \<Rightarrow> status_code" where
  "validate_compatibility local_side remote =
     (if sh_protocol_version local_side \<noteq> sh_protocol_version remote then SC_InvalidArgument
      else if sh_transport_mode local_side \<noteq> sh_transport_mode remote then SC_InvalidArgument
      else if sh_frame_codec local_side \<noteq> sh_frame_codec remote then SC_InvalidArgument
      else if sh_max_frame_bytes remote < sh_max_frame_bytes local_side then SC_InvalidArgument
      else SC_Ok)"

subsection \<open>The two sides\<close>

fun receive_handshake_frame ::
  "nat \<Rightarrow> nat \<Rightarrow> 't byte_stream_ops \<Rightarrow> 't frame_channel \<Rightarrow> (status_code \<times> bytes option \<times> 't frame_channel) option" where
  "receive_handshake_frame fuel 0 ops c = Some (SC_Exhausted, None, c)"
| "receive_handshake_frame fuel (Suc polls) ops c =
     (case receive_frame fuel ops c of
        None \<Rightarrow> None
      | Some (poll_result, frame, c) \<Rightarrow>
          if fp_status poll_result = FCS_FrameReady then Some (SC_Ok, frame, c)
          else if fp_status poll_result \<noteq> FCS_WouldBlock \<and> fp_status poll_result \<noteq> FCS_NeedMoreData then
            Some (SC_IoError, None, c)
          else receive_handshake_frame fuel polls ops c)"

text \<open>The status, the handshake stored in \<open>remote\<close>, and the channel.\<close>

definition accept_handshake :: "session_handshake \<Rightarrow> bytes option \<Rightarrow> status_code + session_handshake" where
  "accept_handshake local_side frame =
     (case decode_handshake (case frame of None \<Rightarrow> [] | Some bs \<Rightarrow> bs) of
        Inl e \<Rightarrow> Inl e
      | Inr decoded \<Rightarrow>
          let compatibility = validate_compatibility local_side decoded in
          if compatibility \<noteq> SC_Ok then Inl compatibility else Inr decoded)"

definition client_handshake ::
  "nat \<Rightarrow> nat \<Rightarrow> 't byte_stream_ops \<Rightarrow> session_handshake \<Rightarrow> 't frame_channel \<Rightarrow>
     (status_code \<times> session_handshake option \<times> 't frame_channel) option" where
  "client_handshake fuel polls ops local_side c =
     (case send_frame fuel ops (encode_handshake local_side) c of
        None \<Rightarrow> None
      | Some (send_status, c) \<Rightarrow>
          if send_status \<noteq> SC_Ok then Some (send_status, None, c)
          else
            (case receive_handshake_frame fuel polls ops c of
               None \<Rightarrow> None
             | Some (receive_status, response, c) \<Rightarrow>
                 if receive_status \<noteq> SC_Ok then Some (receive_status, None, c)
                 else
                   (case accept_handshake local_side response of
                      Inl e \<Rightarrow> Some (e, None, c)
                    | Inr decoded \<Rightarrow> Some (SC_Ok, Some decoded, c))))"

definition server_handshake ::
  "nat \<Rightarrow> nat \<Rightarrow> 't byte_stream_ops \<Rightarrow> session_handshake \<Rightarrow> 't frame_channel \<Rightarrow>
     (status_code \<times> session_handshake option \<times> 't frame_channel) option" where
  "server_handshake fuel polls ops local_side c =
     (case receive_handshake_frame fuel polls ops c of
        None \<Rightarrow> None
      | Some (receive_status, request, c) \<Rightarrow>
          if receive_status \<noteq> SC_Ok then Some (receive_status, None, c)
          else
            (case accept_handshake local_side request of
               Inl e \<Rightarrow> Some (e, None, c)
             | Inr decoded \<Rightarrow>
                 (case send_frame fuel ops (encode_handshake local_side) c of
                    None \<Rightarrow> None
                  | Some (send_status, c) \<Rightarrow> Some (send_status, Some decoded, c))))"

subsection \<open>The encoding\<close>

lemma append_le_host: "append_le n value output = output @ host_bytes n value"
  by (simp add: append_le_def host_bytes_def mult.commute)

lemma length_host_bytes': "length (host_bytes n (w :: u64)) = n"
  by (simp add: host_bytes_def)

lemma length_encode_handshake: "length (encode_handshake h) = 24"
  by (simp add: encode_handshake_def append_le_host length_host_bytes' kMagic_def)

lemma decode_le_append:
  assumes "offset = length pre"
  shows "decode_le n (pre @ host_bytes n v @ post) offset = take_bit (8 * n) v"
  using assms by (simp add: decode_le_def subspan_def length_host_bytes' read_le_host_bytes)

lemma encode_parts:
  "encode_handshake h =
     kMagic @ host_bytes 2 (ucast (sh_protocol_version h) :: u64) @ host_bytes 2 (ucast (sh_flags h) :: u64) @
     host_bytes 2 (ucast (sh_transport_mode h) :: u64) @ host_bytes 2 (ucast (sh_frame_codec h) :: u64) @
     host_bytes 4 (ucast (sh_max_frame_bytes h) :: u64) @ host_bytes 8 (sh_session_id h)"
  by (simp add: encode_handshake_def append_le_host)

lemma length_magic: "length kMagic = 4"
  by (simp add: kMagic_def)

lemma ucast_take_bit_id:
  "(ucast (take_bit 16 (ucast (v :: u16) :: u64)) :: u16) = v"
  "(ucast (take_bit 32 (ucast (m :: u32) :: u64)) :: u32) = m"
  "take_bit 64 (x :: u64) = x"
  by (rule bit_word_eqI; simp add: bit_take_bit_iff bit_ucast_iff bit_simps)+

lemma decode_encode_handshake: "decode_handshake (encode_handshake h) = Inr h"
proof -
  have "decode_le 2 (encode_handshake h) 4 = take_bit 16 (ucast (sh_protocol_version h))"
    "decode_le 2 (encode_handshake h) 6 = take_bit 16 (ucast (sh_flags h))"
    "decode_le 2 (encode_handshake h) 8 = take_bit 16 (ucast (sh_transport_mode h))"
    "decode_le 2 (encode_handshake h) 10 = take_bit 16 (ucast (sh_frame_codec h))"
    "decode_le 4 (encode_handshake h) 12 = take_bit 32 (ucast (sh_max_frame_bytes h))"
    "decode_le 8 (encode_handshake h) 16 = take_bit 64 (sh_session_id h)"
    by (simp_all add: decode_le_def subspan_def encode_parts length_magic length_host_bytes' read_le_host_bytes)
  then show ?thesis
    by (simp add: decode_handshake_def length_encode_handshake ucast_take_bit_id)
      (simp add: encode_parts length_magic)
qed

lemma host_bytes_of_decode:
  assumes "length bs = n" and "8 * n \<le> LENGTH('a::len)" and "n \<le> 8"
  shows "host_bytes n (ucast (ucast (read_le_loop 0 0 bs) :: 'a word) :: u64) = bs"
proof -
  have "host_bytes n (ucast (ucast (read_le_loop 0 0 bs) :: 'a word) :: u64) = host_bytes n (read_le_loop 0 0 bs)"
    unfolding host_bytes_def
  proof (rule map_cong [OF refl])
    fix i assume "i \<in> set [0..<n]"
    then have "8 * i + 8 \<le> LENGTH('a)" "8 * i + 8 \<le> 64" using assms(2,3) by auto
    then show "(ucast (drop_bit (8 * i) (ucast (ucast (read_le_loop 0 0 bs) :: 'a word) :: u64)) :: u8) =
        ucast (drop_bit (8 * i) (read_le_loop 0 0 bs))"
      by (intro bit_word_eqI) (auto simp: bit_simps)
  qed
  also have "\<dots> = bs" using host_bytes_read_le [of bs] assms by simp
  finally show ?thesis .
qed

lemma encode_decode_handshake:
  assumes "decode_handshake bs = Inr h"
  shows "encode_handshake h = bs"
proof -
  have len: "length bs = 24" and magic: "take 4 bs = kMagic"
    and h: "h = \<lparr>sh_protocol_version = ucast (decode_le 2 bs 4), sh_flags = ucast (decode_le 2 bs 6),
         sh_transport_mode = ucast (decode_le 2 bs 8), sh_frame_codec = ucast (decode_le 2 bs 10),
         sh_max_frame_bytes = ucast (decode_le 4 bs 12), sh_session_id = decode_le 8 bs 16\<rparr>"
    using assms by (simp_all add: decode_handshake_def split: if_splits)
  have part: "host_bytes 2 (ucast (ucast (decode_le 2 bs off) :: u16) :: u64) = subspan off 2 bs" if "off + 2 \<le> 24" for off
    unfolding decode_le_def by (rule host_bytes_of_decode) (use len that in \<open>simp_all add: length_subspan\<close>)
  have four: "host_bytes 4 (ucast (ucast (decode_le 4 bs 12) :: u32) :: u64) = subspan 12 4 bs"
    unfolding decode_le_def by (rule host_bytes_of_decode) (use len in \<open>simp_all add: length_subspan\<close>)
  have eight: "host_bytes 8 (decode_le 8 bs 16) = subspan 16 8 bs"
    using host_bytes_read_le [of "subspan 16 8 bs"] len by (simp add: decode_le_def length_subspan)
  have "encode_handshake h = subspan 0 4 bs @ subspan 4 2 bs @ subspan 6 2 bs @ subspan 8 2 bs @ subspan 10 2 bs @
      subspan 12 4 bs @ subspan 16 8 bs"
    by (simp add: encode_parts h part four eight magic [symmetric] subspan_def)
  also have "\<dots> = bs"
    using len by (simp add: subspan_def append_assoc [symmetric] take_add [symmetric] del: append_assoc)
  finally show ?thesis .
qed

subsection \<open>Properties\<close>

text \<open>A byte string decodes to a handshake exactly when it is the encoding of that handshake. So decoding inverts encoding, no
  two handshakes share a frame, and every other frame, of any length, is rejected.\<close>
theorem handshake_encoding:
  "decode_handshake bs = Inr h \<longleftrightarrow> bs = encode_handshake h"
  using decode_encode_handshake encode_decode_handshake by auto

text \<open>C25: Both sides of a session accept the handshake of the other exactly when version, transport mode, frame codec and
  the maximal frame size agree. A side alone accepts already when the limit of the other is at least its own, so a
  server with a smaller limit than the client accepts a session that the client then rejects.\<close>
theorem handshake_agreement:
  "(accept_handshake server (Some (encode_handshake client)) = Inr client \<and>
    accept_handshake client (Some (encode_handshake server)) = Inr server) =
   (sh_protocol_version client = sh_protocol_version server \<and> sh_transport_mode client = sh_transport_mode server \<and>
    sh_frame_codec client = sh_frame_codec server \<and> sh_max_frame_bytes client = sh_max_frame_bytes server)
   \<and>
   accept_handshake client (Some (encode_handshake server)) =
     (if sh_protocol_version client = sh_protocol_version server \<and> sh_transport_mode client = sh_transport_mode server \<and>
         sh_frame_codec client = sh_frame_codec server \<and> sh_max_frame_bytes client \<le> sh_max_frame_bytes server
      then Inr server else Inl SC_InvalidArgument)"
proof -
  have accept: "accept_handshake x (Some (encode_handshake y)) =
      (if validate_compatibility x y \<noteq> SC_Ok then Inl (validate_compatibility x y) else Inr y)" for x y
    by (simp add: accept_handshake_def decode_encode_handshake)
  have ok: "validate_compatibility x y = SC_Ok \<longleftrightarrow>
      sh_protocol_version x = sh_protocol_version y \<and> sh_transport_mode x = sh_transport_mode y \<and>
      sh_frame_codec x = sh_frame_codec y \<and> sh_max_frame_bytes x \<le> sh_max_frame_bytes y" for x y
    by (auto simp: validate_compatibility_def)
  have fail: "validate_compatibility x y \<noteq> SC_Ok \<Longrightarrow> validate_compatibility x y = SC_InvalidArgument" for x y
    by (simp add: validate_compatibility_def split: if_splits)
  show ?thesis
    using fail by (auto simp: accept ok)
qed

end
