(* ===== verification/Shm_Ring.thy ===== *)
theory Shm_Ring
  imports Frame_Channel
begin

text \<open>
  \<open>LocalShmRingTransport\<close> of \<open>adapters/local_shm_ring_transport.cpp\<close>: two rings of slots in shared memory,
  one per direction, each written by one process and read by the other.

  The first part models the operations as the code has them. A direction is the record of its control block,
  slot headers and payload bytes, with the counters of its two event descriptors. The second part
  splits \<open>write\<close> and the zero-copy receive into their atomic accesses to the shared memory and lets the two processes
  interleave.
\<close>

subsection \<open>The shared memory\<close>

record shm_direction =
  sd_head :: nat
  sd_tail :: nat
  sd_slot_count :: nat
  sd_slot_size :: nat
  sd_lengths :: "nat list"
  sd_payloads :: bytes
  sd_readable_event :: nat
  sd_writable_event :: nat

record shm_options =
  so_slot_count :: nat
  so_slot_size :: nat

definition default_shm_options :: shm_options where
  "default_shm_options = \<lparr>so_slot_count = 256, so_slot_size = 4096\<rparr>"

definition shm_align_up :: "u64 \<Rightarrow> u64 \<Rightarrow> u64" where
  "shm_align_up value alignment = (value + alignment - 1) AND NOT (alignment - 1)"

text \<open>The sizes and offsets \<open>create_pair\<close> computes; \<open>RingControl\<close> and \<open>SlotHeader\<close> have 64 bytes.\<close>

record shm_layout =
  sl_second_control :: u64
  sl_first_headers :: u64
  sl_second_headers :: u64
  sl_first_payloads :: u64
  sl_second_payloads :: u64
  sl_total_bytes :: u64

definition shm_compute_layout :: "shm_options \<Rightarrow> shm_layout" where
  "shm_compute_layout options =
     (let count = word_of_nat (so_slot_count options); slot = word_of_nat (so_slot_size options);
          ring_headers_bytes = shm_align_up (64 * count) 64;
          payload_bytes = shm_align_up (count * slot) 64;
          cursor = shm_align_up (64 * 2) 64 in
      \<lparr>sl_second_control = shm_align_up (64 * 2) 64 div 2,
       sl_first_headers = cursor,
       sl_second_headers = cursor + ring_headers_bytes,
       sl_first_payloads = cursor + ring_headers_bytes + ring_headers_bytes,
       sl_second_payloads = cursor + ring_headers_bytes + ring_headers_bytes + payload_bytes,
       sl_total_bytes = shm_align_up (64 * 2) 64 + ring_headers_bytes * 2 + payload_bytes * 2\<rparr>)"

text \<open>A direction as \<open>create_pair\<close> leaves it: the mapping is zeroed, the counts are cast to \<open>uint32_t\<close>.\<close>

definition new_direction :: "shm_options \<Rightarrow> shm_direction" where
  "new_direction options =
     \<lparr>sd_head = 0, sd_tail = 0, sd_slot_count = so_slot_count options mod 2 ^ 32,
      sd_slot_size = so_slot_size options mod 2 ^ 32, sd_lengths = replicate (so_slot_count options) 0,
      sd_payloads = replicate
        (unat (shm_align_up (word_of_nat (so_slot_count options) * word_of_nat (so_slot_size options)) 64)) 0,
      sd_readable_event = 0, sd_writable_event = 0\<rparr>"

definition create_pair :: "shm_options \<Rightarrow> status_code + (shm_direction \<times> shm_direction)" where
  "create_pair options =
     (if so_slot_count options < 2 then Inl SC_InvalidArgument
      else if so_slot_size options = 0 then Inl SC_InvalidArgument
      else Inr (new_direction options, new_direction options))"

definition next_slot :: "nat \<Rightarrow> nat \<Rightarrow> nat" where
  "next_slot slot_count index = ((index + 1) mod 2 ^ 32) mod slot_count"

definition ring_has_data :: "shm_direction \<Rightarrow> bool" where
  "ring_has_data d \<longleftrightarrow> sd_head d \<noteq> sd_tail d"

definition ring_has_space :: "shm_direction \<Rightarrow> bool" where
  "ring_has_space d \<longleftrightarrow> next_slot (sd_slot_count d) (sd_tail d) \<noteq> sd_head d"

definition slot_payload :: "shm_direction \<Rightarrow> nat \<Rightarrow> nat" where
  "slot_payload d index = index * sd_slot_size d"

definition notify_readable :: "shm_direction \<Rightarrow> shm_direction" where
  "notify_readable d = d\<lparr>sd_readable_event := sd_readable_event d + 1\<rparr>"

definition notify_writable :: "shm_direction \<Rightarrow> shm_direction" where
  "notify_writable d = d\<lparr>sd_writable_event := sd_writable_event d + 1\<rparr>"

definition drain_readable :: "shm_direction \<Rightarrow> shm_direction" where
  "drain_readable d = d\<lparr>sd_readable_event := 0\<rparr>"

subsection \<open>The operations of an endpoint\<close>

record shm_endpoint =
  se_open :: bool
  se_read_slot_index :: nat
  se_read_slot_offset :: nat
  se_read_slot_active :: bool
  se_zero_copy_active :: bool

definition new_shm_endpoint :: shm_endpoint where
  "new_shm_endpoint =
     \<lparr>se_open = True, se_read_slot_index = 0, se_read_slot_offset = 0, se_read_slot_active = False,
      se_zero_copy_active = False\<rparr>"

definition shm_write :: "bool \<Rightarrow> bytes \<Rightarrow> shm_direction \<Rightarrow> write_result \<times> shm_direction" where
  "shm_write is_open source d =
     (if \<not> is_open then (\<lparr>wr_bytes_written = 0, wr_would_block = False, wr_status = SC_IoError\<rparr>, d)
      else if \<not> ring_has_space d then (\<lparr>wr_bytes_written = 0, wr_would_block = True, wr_status = SC_Ok\<rparr>, d)
      else if length source > sd_slot_size d then
        (\<lparr>wr_bytes_written = 0, wr_would_block = False, wr_status = SC_Exhausted\<rparr>, d)
      else
        let tail = sd_tail d;
            d = d\<lparr>sd_payloads := blit (slot_payload d tail) source (sd_payloads d)\<rparr>;
            d = d\<lparr>sd_lengths := (sd_lengths d)[tail := length source]\<rparr>;
            d = d\<lparr>sd_tail := next_slot (sd_slot_count d) tail\<rparr> in
        (\<lparr>wr_bytes_written = length source, wr_would_block = False, wr_status = SC_Ok\<rparr>, notify_readable d))"

text \<open>Moving the head past a slot, with its notifications.\<close>

definition free_slot :: "nat \<Rightarrow> shm_direction \<Rightarrow> shm_direction" where
  "free_slot index d =
     (let d = notify_writable (d\<lparr>sd_head := next_slot (sd_slot_count d) index\<rparr>) in
      if \<not> ring_has_data d then drain_readable d else d)"

definition shm_read ::
  "shm_endpoint \<Rightarrow> bytes \<Rightarrow> shm_direction \<Rightarrow> read_result \<times> bytes \<times> shm_endpoint \<times> shm_direction" where
  "shm_read e destination d =
     (if \<not> se_open e then (empty_read\<lparr>rr_end_of_stream := True\<rparr>, destination, e, d)
      else if se_zero_copy_active e then (empty_read\<lparr>rr_status := SC_InvalidArgument\<rparr>, destination, e, d)
      else if \<not> se_read_slot_active e \<and> \<not> ring_has_data d then
        (empty_read\<lparr>rr_would_block := True\<rparr>, destination, e, d)
      else
        let e = (if se_read_slot_active e then e
                 else e\<lparr>se_read_slot_index := sd_head d, se_read_slot_offset := 0, se_read_slot_active := True\<rparr>);
            slot_length = sd_lengths d ! se_read_slot_index e;
            remaining = slot_length - se_read_slot_offset e;
            bytes_to_copy = min remaining (length destination);
            destination = blit 0
              (subspan (slot_payload d (se_read_slot_index e) + se_read_slot_offset e) bytes_to_copy (sd_payloads d))
              destination;
            e = e\<lparr>se_read_slot_offset := se_read_slot_offset e + bytes_to_copy\<rparr> in
        if se_read_slot_offset e = slot_length then
          (empty_read\<lparr>rr_bytes_read := bytes_to_copy\<rparr>, destination,
           e\<lparr>se_read_slot_active := False, se_read_slot_offset := 0\<rparr>, free_slot (se_read_slot_index e) d)
        else (empty_read\<lparr>rr_bytes_read := bytes_to_copy\<rparr>, destination, e, d))"

definition shm_try_acquire ::
  "shm_endpoint \<Rightarrow> shm_direction \<Rightarrow> (status_code + transport_lease) \<times> shm_endpoint" where
  "shm_try_acquire e d =
     (if \<not> se_open e then (Inl SC_InvalidArgument, e)
      else if se_read_slot_active e then (Inl SC_InvalidArgument, e)
      else if se_zero_copy_active e then (Inl SC_InvalidArgument, e)
      else if \<not> ring_has_data d then (Inl SC_NotFound, e)
      else
        (Inr \<lparr>tl_bytes = subspan (slot_payload d (sd_head d)) (sd_lengths d ! sd_head d) (sd_payloads d),
              tl_token = sd_head d, tl_valid = True\<rparr>,
         e\<lparr>se_zero_copy_active := True, se_read_slot_index := sd_head d\<rparr>))"

definition shm_release ::
  "transport_lease \<Rightarrow> shm_endpoint \<Rightarrow> shm_direction \<Rightarrow> status_code \<times> shm_endpoint \<times> shm_direction" where
  "shm_release lease e d =
     (if \<not> se_zero_copy_active e then (SC_InvalidArgument, e, d)
      else if \<not> tl_valid lease \<or> tl_token lease \<noteq> sd_head d then (SC_InvalidArgument, e, d)
      else (SC_Ok, e\<lparr>se_zero_copy_active := False\<rparr>, free_slot (sd_head d) d))"

definition shm_close :: "shm_endpoint \<Rightarrow> status_code \<times> shm_endpoint" where
  "shm_close e = (SC_Ok, e\<lparr>se_open := False, se_read_slot_active := False, se_zero_copy_active := False\<rparr>)"

definition shm_capabilities :: u32 where
  "shm_capabilities = capability_mask TC_SharedMemory OR capability_mask TC_ZeroCopyReceive
     OR capability_mask TC_PreservesFrameBoundaries"

definition shm_move_from :: "shm_endpoint \<Rightarrow> shm_endpoint \<times> shm_endpoint" where
  "shm_move_from other =
     (other, \<lparr>se_open = False, se_read_slot_index = 0, se_read_slot_offset = 0, se_read_slot_active = False,
       se_zero_copy_active = False\<rparr>)"

text \<open>
  Waiting: an event descriptor is ready to read when its counter is positive, which is what \<open>wait_for_fd\<close> finds at the
  moment it returns.
\<close>

definition shm_wait_until_readable :: "shm_endpoint \<Rightarrow> shm_direction \<Rightarrow> status_code + bool" where
  "shm_wait_until_readable e d =
     (if \<not> se_open e then Inl SC_InvalidArgument
      else if ring_has_data d then Inr True
      else Inr (sd_readable_event d > 0))"

definition shm_wait_until_writable :: "shm_endpoint \<Rightarrow> shm_direction \<Rightarrow> status_code + bool" where
  "shm_wait_until_writable e d =
     (if \<not> se_open e then Inl SC_InvalidArgument
      else if ring_has_space d then Inr True
      else Inr (sd_writable_event d > 0))"

subsection \<open>Interleaved atomic steps\<close>

text \<open>
  One process runs \<open>write\<close>, the other \<open>try_acquire_receive_buffer\<close>, reads the leased bytes in place, and
  \<open>release_receive_buffer\<close>, or \<open>wait_until_readable\<close>. Each access to the shared memory or to an event descriptor
  is one step: the loads and stores of the two indices, of a slot's length, and each byte of a payload. A program
  counter says where each process stands and holds its local variables. Loads of an index by the only process that
  stores it are combined with the next access. \<open>sw_sent\<close> and \<open>sw_received\<close> record the published and the
  released frames.
\<close>

datatype writer_pc =
    W_Idle
  | W_Space bytes nat
  | W_Copy bytes nat nat
  | W_Publish bytes nat
  | W_Notify

datatype reader_call = RC_Receive | RC_Wait

datatype reader_pc =
    R_Idle
  | R_Head reader_call nat
  | R_Length nat
  | R_Lease nat nat bytes
  | R_Freed
  | R_Check
  | R_Drain
  | R_Poll

record shm_world =
  sw_ring :: shm_direction
  sw_writer :: writer_pc
  sw_reader :: reader_pc
  sw_sent :: "bytes list"
  sw_received :: "bytes list"

definition new_world :: "shm_options \<Rightarrow> shm_world" where
  "new_world options =
     \<lparr>sw_ring = new_direction options, sw_writer = W_Idle, sw_reader = R_Idle, sw_sent = [], sw_received = []\<rparr>"

text \<open>The writer's next step; an idle writer calls \<open>write\<close> with the given frame and loads the head.\<close>

definition writer_step :: "bytes \<Rightarrow> shm_world \<Rightarrow> shm_world" where
  "writer_step source w =
     (let d = sw_ring w in
      case sw_writer w of
        W_Idle \<Rightarrow> w\<lparr>sw_writer := W_Space source (sd_head d)\<rparr>
      | W_Space f head \<Rightarrow>
          (if next_slot (sd_slot_count d) (sd_tail d) = head then w\<lparr>sw_writer := W_Idle\<rparr>
           else if length f > sd_slot_size d then w\<lparr>sw_writer := W_Idle\<rparr>
           else w\<lparr>sw_writer := W_Copy f (sd_tail d) 0\<rparr>)
      | W_Copy f tail k \<Rightarrow>
          (if k < length f then
             w\<lparr>sw_ring := d\<lparr>sd_payloads := (sd_payloads d)[slot_payload d tail + k := f ! k]\<rparr>,
               sw_writer := W_Copy f tail (k + 1)\<rparr>
           else
             w\<lparr>sw_ring := d\<lparr>sd_lengths := (sd_lengths d)[tail := length f]\<rparr>, sw_writer := W_Publish f tail\<rparr>)
      | W_Publish f tail \<Rightarrow>
          w\<lparr>sw_ring := d\<lparr>sd_tail := next_slot (sd_slot_count d) tail\<rparr>, sw_writer := W_Notify,
            sw_sent := sw_sent w @ [f]\<rparr>
      | W_Notify \<Rightarrow> w\<lparr>sw_ring := notify_readable d, sw_writer := W_Idle\<rparr>)"

text \<open>The reader's next step; an idle reader makes the given call and loads the head.\<close>

definition reader_step :: "reader_call \<Rightarrow> shm_world \<Rightarrow> shm_world" where
  "reader_step call w =
     (let d = sw_ring w in
      case sw_reader w of
        R_Idle \<Rightarrow> w\<lparr>sw_reader := R_Head call (sd_head d)\<rparr>
      | R_Head c head \<Rightarrow>
          (if head \<noteq> sd_tail d then w\<lparr>sw_reader := (case c of RC_Receive \<Rightarrow> R_Length head | RC_Wait \<Rightarrow> R_Idle)\<rparr>
           else w\<lparr>sw_reader := (case c of RC_Receive \<Rightarrow> R_Idle | RC_Wait \<Rightarrow> R_Poll)\<rparr>)
      | R_Length head \<Rightarrow> w\<lparr>sw_reader := R_Lease head (sd_lengths d ! head) []\<rparr>
      | R_Lease head n bs \<Rightarrow>
          (if length bs < n then
             w\<lparr>sw_reader := R_Lease head n (bs @ [sd_payloads d ! (slot_payload d head + length bs)])\<rparr>
           else
             w\<lparr>sw_ring := d\<lparr>sd_head := next_slot (sd_slot_count d) head\<rparr>, sw_reader := R_Freed,
               sw_received := sw_received w @ [bs]\<rparr>)
      | R_Freed \<Rightarrow> w\<lparr>sw_ring := notify_writable d, sw_reader := R_Check\<rparr>
      | R_Check \<Rightarrow> w\<lparr>sw_reader := (if ring_has_data d then R_Idle else R_Drain)\<rparr>
      | R_Drain \<Rightarrow> w\<lparr>sw_ring := drain_readable d, sw_reader := R_Idle\<rparr>
      | R_Poll \<Rightarrow> if sd_readable_event d > 0 then w\<lparr>sw_reader := R_Idle\<rparr> else w)"

text \<open>A wait that times out returns without touching the shared memory.\<close>

definition reader_timeout :: "shm_world \<Rightarrow> shm_world" where
  "reader_timeout w = (if sw_reader w = R_Poll then w\<lparr>sw_reader := R_Idle\<rparr> else w)"

inductive shm_step :: "shm_world \<Rightarrow> shm_world \<Rightarrow> bool" where
  writes: "shm_step w (writer_step source w)"
| reads: "shm_step w (reader_step call w)"
| times_out: "shm_step w (reader_timeout w)"

inductive shm_reachable :: "shm_options \<Rightarrow> shm_world \<Rightarrow> bool" for options where
  start: "shm_reachable options (new_world options)"
| step: "shm_reachable options w \<Longrightarrow> shm_step w w' \<Longrightarrow> shm_reachable options w'"

inductive_cases shm_stepE: "shm_step w w'"

end
