(* ===== verification/Shm_Ring_Properties.thy ===== *)
theory Shm_Ring_Properties
  imports Shm_Ring
begin

text \<open>
  The two processes of \<open>LocalShmRingTransport\<close> interleaved: the ring delivers the published frames in order and
  intact, a leased slot never changes under its reader, every access stays inside its region, and a reader that
  waits is always woken. The uninterrupted steps of a process are the operations of the transport.
\<close>

subsection \<open>Slots\<close>

definition shm_options_fit :: "shm_options \<Rightarrow> bool" where
  "shm_options_fit options \<longleftrightarrow>
     2 \<le> so_slot_count options \<and> so_slot_count options < 2 ^ 32 \<and> 0 < so_slot_size options \<and>
     so_slot_size options < 2 ^ 32 \<and> so_slot_count options * so_slot_size options + 63 < 2 ^ 64"

definition ring_shape :: "shm_direction \<Rightarrow> bool" where
  "ring_shape d \<longleftrightarrow>
     2 \<le> sd_slot_count d \<and> sd_slot_count d < 2 ^ 32 \<and> length (sd_lengths d) = sd_slot_count d \<and>
     sd_slot_count d * sd_slot_size d \<le> length (sd_payloads d)"

definition slot_holds :: "shm_direction \<Rightarrow> nat \<Rightarrow> bytes \<Rightarrow> bool" where
  "slot_holds d t f \<longleftrightarrow>
     length f \<le> sd_slot_size d \<and> sd_lengths d ! t = length f \<and>
     subspan (slot_payload d t) (length f) (sd_payloads d) = f"

lemma subspan_update:
  "p < off \<or> off + n \<le> p \<Longrightarrow> subspan off n (xs[p := v]) = subspan off n xs"
  by (auto simp: subspan_def drop_update_swap)

lemma subspan_extend:
  assumes "off + k < length xs"
  shows "subspan off (Suc k) (xs[off + k := v]) = subspan off k xs @ [v]"
proof -
  have "subspan off (Suc k) (xs[off + k := v]) = subspan off k (xs[off + k := v]) @ [v]"
    using assms by (simp add: subspan_def take_Suc_conv_app_nth)
  thus ?thesis by (simp add: subspan_update)
qed

lemma slot_bounds:
  assumes "ring_shape d" "t < sd_slot_count d"
  shows "slot_payload d t + sd_slot_size d \<le> length (sd_payloads d)"
proof -
  have "Suc t * sd_slot_size d \<le> sd_slot_count d * sd_slot_size d"
    using assms(2) by (intro mult_le_mono1) simp
  with assms(1) show ?thesis by (simp add: ring_shape_def slot_payload_def)
qed

lemma slots_apart:
  fixes t u s k :: nat
  assumes "t \<noteq> u" "k < s"
  shows "t * s + k < u * s \<or> u * s + s \<le> t * s + k"
proof (cases "t < u")
  case True
  hence "Suc t * s \<le> u * s" by (intro mult_le_mono1) simp
  with assms(2) show ?thesis by simp
next
  case False
  with assms(1) have "Suc u * s \<le> t * s" by (intro mult_le_mono1) simp
  thus ?thesis by simp
qed

lemma slot_holds_other_payload:
  assumes "slot_holds d t f" "t \<noteq> u" "k < sd_slot_size d"
  shows "slot_holds (d\<lparr>sd_payloads := (sd_payloads d)[slot_payload d u + k := v]\<rparr>) t f"
  using assms slots_apart [of u t k "sd_slot_size d"]
  by (auto simp: slot_holds_def slot_payload_def subspan_update)

lemma slot_holds_other_length:
  "slot_holds d t f \<Longrightarrow> t \<noteq> u \<Longrightarrow> slot_holds (d\<lparr>sd_lengths := (sd_lengths d)[u := v]\<rparr>) t f"
  by (simp add: slot_holds_def slot_payload_def)

lemma slot_holds_simps [simp]:
  "slot_holds (d\<lparr>sd_head := a\<rparr>) t f = slot_holds d t f"
  "slot_holds (d\<lparr>sd_tail := a\<rparr>) t f = slot_holds d t f"
  "slot_holds (d\<lparr>sd_readable_event := a\<rparr>) t f = slot_holds d t f"
  "slot_holds (d\<lparr>sd_writable_event := a\<rparr>) t f = slot_holds d t f"
  by (simp_all add: slot_holds_def slot_payload_def)

lemma mod_apart:
  fixes i j n :: nat
  assumes "i < j" "j < i + n"
  shows "i mod n \<noteq> j mod n"
proof
  assume "i mod n = j mod n"
  hence "n dvd j - i" using assms(1) by (metis less_imp_le mod_eq_dvd_iff_nat)
  with assms show False by (auto dest: dvd_imp_le)
qed

lemma next_slot_mod:
  assumes "ring_shape d"
  shows "next_slot (sd_slot_count d) (i mod sd_slot_count d) = Suc i mod sd_slot_count d"
proof -
  have "i mod sd_slot_count d < sd_slot_count d" "sd_slot_count d < 2 ^ 32"
    using assms by (auto simp: ring_shape_def)
  thus ?thesis by (simp add: next_slot_def mod_Suc_eq)
qed

subsection \<open>The invariant\<close>

text \<open>The counters of all frames ever sent and received determine the ring.\<close>

definition ring_inv :: "shm_direction \<Rightarrow> bytes list \<Rightarrow> bytes list \<Rightarrow> bool" where
  "ring_inv d sent received \<longleftrightarrow>
     ring_shape d \<and> sd_tail d = length sent mod sd_slot_count d \<and>
     sd_head d = length received mod sd_slot_count d \<and> take (length received) sent = received \<and>
     length received \<le> length sent \<and> length sent < length received + sd_slot_count d \<and>
     (\<forall>i<length sent. length received \<le> i \<longrightarrow> slot_holds d (i mod sd_slot_count d) (sent ! i))"

definition slot_free :: "shm_direction \<Rightarrow> nat \<Rightarrow> nat \<Rightarrow> bytes \<Rightarrow> nat \<Rightarrow> bool" where
  "slot_free d sent received f t \<longleftrightarrow>
     t = sent mod sd_slot_count d \<and> Suc sent < received + sd_slot_count d \<and> length f \<le> sd_slot_size d"

fun writer_inv :: "shm_direction \<Rightarrow> nat \<Rightarrow> nat \<Rightarrow> writer_pc \<Rightarrow> bool" where
  "writer_inv d sent received W_Idle = True"
| "writer_inv d sent received (W_Space f h) =
     (\<exists>j\<le>received. sent < j + sd_slot_count d \<and> h = j mod sd_slot_count d)"
| "writer_inv d sent received (W_Copy f t k) =
     (slot_free d sent received f t \<and> k \<le> length f \<and>
      subspan (slot_payload d t) k (sd_payloads d) = take k f)"
| "writer_inv d sent received (W_Publish f t) = (slot_free d sent received f t \<and> slot_holds d t f)"
| "writer_inv d sent received W_Notify = True"

fun reader_inv :: "shm_direction \<Rightarrow> bytes list \<Rightarrow> nat \<Rightarrow> writer_pc \<Rightarrow> reader_pc \<Rightarrow> bool" where
  "reader_inv d sent received wp (R_Head c h) = (h = sd_head d)"
| "reader_inv d sent received wp (R_Length h) = (h = sd_head d \<and> received < length sent)"
| "reader_inv d sent received wp (R_Lease h n bs) =
     (h = sd_head d \<and> received < length sent \<and> n = length (sent ! received) \<and>
      length bs \<le> n \<and> bs = take (length bs) (sent ! received))"
| "reader_inv d sent received wp R_Poll =
     (received = length sent \<or> 0 < sd_readable_event d \<or> wp = W_Notify)"
| "reader_inv d sent received wp R_Idle = True"
| "reader_inv d sent received wp R_Freed = True"
| "reader_inv d sent received wp R_Check = True"
| "reader_inv d sent received wp R_Drain = True"

definition world_inv :: "shm_world \<Rightarrow> bool" where
  "world_inv w \<longleftrightarrow>
     ring_inv (sw_ring w) (sw_sent w) (sw_received w) \<and>
     writer_inv (sw_ring w) (length (sw_sent w)) (length (sw_received w)) (sw_writer w) \<and>
     reader_inv (sw_ring w) (sw_sent w) (length (sw_received w)) (sw_writer w) (sw_reader w)"

lemma unat_shm_align_up:
  assumes "value + 63 < 2 ^ 64"
  shows "value \<le> unat (shm_align_up (word_of_nat value) 64)"
proof -
  have unat_63: "unat (63 :: u64) = 63" by simp
  have low: "unat (x AND NOT 63 :: u64) + 63 \<ge> unat x" for x
  proof -
    have "(x AND NOT 63) AND (x AND 63) = 0" by (simp add: and.assoc and.left_commute)
    hence "(x AND NOT 63) + (x AND 63) = (x AND NOT 63) OR (x AND 63)" by (rule disjunctive_add_eq_or)
    also have "\<dots> = x" by (simp add: bit.conj_disj_distrib [symmetric])
    finally have "x = (x AND NOT 63) + (x AND 63)" ..
    hence "unat x \<le> unat (x AND NOT 63) + unat (x AND 63)" by (metis unat_plus_simple le_cases unat_word_ariths(1) mod_less_eq_dividend)
    moreover have "unat (x AND 63) \<le> 63" by (metis word_and_le1 word_le_nat_alt unat_63)
    ultimately show ?thesis by simp
  qed
  have "unat (word_of_nat value + 63 :: u64) = value + 63"
    using assms by (simp add: unat_word_ariths unat_of_nat)
  with low [of "word_of_nat value + 63"] show ?thesis by (simp add: shm_align_up_def add.commute)
qed

lemma new_world_inv:
  assumes "shm_options_fit options"
  shows "world_inv (new_world options)"
  using assms unat_shm_align_up [of "so_slot_count options * so_slot_size options"]
  by (simp add: world_inv_def new_world_def ring_inv_def ring_shape_def new_direction_def shm_options_fit_def)

lemma ring_shape_simps [simp]:
  "ring_shape (d\<lparr>sd_head := a\<rparr>) = ring_shape d"
  "ring_shape (d\<lparr>sd_tail := a\<rparr>) = ring_shape d"
  "ring_shape (d\<lparr>sd_readable_event := a\<rparr>) = ring_shape d"
  "ring_shape (d\<lparr>sd_writable_event := a\<rparr>) = ring_shape d"
  "ring_shape (d\<lparr>sd_payloads := (sd_payloads d)[p := v]\<rparr>) = ring_shape d"
  "ring_shape (d\<lparr>sd_lengths := (sd_lengths d)[t := l]\<rparr>) = ring_shape d"
  by (simp_all add: ring_shape_def)

lemma ring_inv_events [simp]:
  "ring_inv (d\<lparr>sd_readable_event := a\<rparr>) sent received = ring_inv d sent received"
  "ring_inv (d\<lparr>sd_writable_event := a\<rparr>) sent received = ring_inv d sent received"
  by (simp_all add: ring_inv_def)

lemma ring_inv_empty:
  assumes "ring_inv d sent received"
  shows "sd_head d = sd_tail d \<longleftrightarrow> length received = length sent"
  using assms mod_apart [of "length received" "length sent" "sd_slot_count d"]
  unfolding ring_inv_def by (metis le_neq_implies_less)

lemma slot_free_apart:
  assumes "ring_inv d sent received" "slot_free d (length sent) (length received) f t"
    "i < length sent" "length received \<le> i"
  shows "i mod sd_slot_count d \<noteq> t"
  using assms mod_apart [of i "length sent" "sd_slot_count d"] by (simp add: slot_free_def)

lemma slot_free_less:
  "ring_inv d sent received \<Longrightarrow> slot_free d (length sent) (length received) f t \<Longrightarrow> t < sd_slot_count d"
  by (auto simp: slot_free_def ring_inv_def ring_shape_def)

lemma ring_inv_payload:
  assumes "ring_inv d sent received" "slot_free d (length sent) (length received) f t" "k < length f"
  shows "ring_inv (d\<lparr>sd_payloads := (sd_payloads d)[slot_payload d t + k := v]\<rparr>) sent received"
proof -
  have "k < sd_slot_size d" using assms(2,3) by (simp add: slot_free_def)
  thus ?thesis using assms slot_free_apart [OF assms(1,2)]
    by (simp add: ring_inv_def slot_holds_other_payload)
qed

lemma ring_inv_length:
  assumes "ring_inv d sent received" "slot_free d (length sent) (length received) f t"
  shows "ring_inv (d\<lparr>sd_lengths := (sd_lengths d)[t := l]\<rparr>) sent received"
  using assms slot_free_apart [OF assms] by (simp add: ring_inv_def slot_holds_other_length)

lemma ring_inv_publish:
  assumes "ring_inv d sent received" "slot_free d (length sent) (length received) f t" "slot_holds d t f"
  shows "ring_inv (d\<lparr>sd_tail := next_slot (sd_slot_count d) t\<rparr>) (sent @ [f]) received"
  using assms by (auto simp: ring_inv_def slot_free_def next_slot_mod nth_append less_Suc_eq)

lemma ring_inv_release:
  assumes "ring_inv d sent received" "length received < length sent"
  shows "ring_inv (d\<lparr>sd_head := next_slot (sd_slot_count d) (sd_head d)\<rparr>) sent
    (received @ [sent ! length received])"
proof -
  have "take (Suc (length received)) sent = received @ [sent ! length received]"
    using assms by (simp add: take_Suc_conv_app_nth ring_inv_def)
  with assms show ?thesis by (auto simp: ring_inv_def next_slot_mod)
qed

lemma leased_slot:
  assumes "ring_inv d sent received" "length received < length sent"
  shows "slot_holds d (sd_head d) (sent ! length received)"
  using assms by (simp add: ring_inv_def)

subsection \<open>The steps preserve the invariant\<close>

lemma slot_payload_simps [simp]:
  "slot_payload (d\<lparr>sd_head := a\<rparr>) t = slot_payload d t"
  "slot_payload (d\<lparr>sd_tail := a\<rparr>) t = slot_payload d t"
  "slot_payload (d\<lparr>sd_lengths := l\<rparr>) t = slot_payload d t"
  "slot_payload (d\<lparr>sd_payloads := p\<rparr>) t = slot_payload d t"
  "slot_payload (d\<lparr>sd_readable_event := a\<rparr>) t = slot_payload d t"
  "slot_payload (d\<lparr>sd_writable_event := a\<rparr>) t = slot_payload d t"
  by (simp_all add: slot_payload_def)

lemma slot_free_simps [simp]:
  "slot_free (d\<lparr>sd_head := a\<rparr>) m n f t = slot_free d m n f t"
  "slot_free (d\<lparr>sd_readable_event := a\<rparr>) m n f t = slot_free d m n f t"
  "slot_free (d\<lparr>sd_writable_event := a\<rparr>) m n f t = slot_free d m n f t"
  "slot_free (d\<lparr>sd_payloads := p\<rparr>) m n f t = slot_free d m n f t"
  "slot_free (d\<lparr>sd_lengths := l\<rparr>) m n f t = slot_free d m n f t"
  by (simp_all add: slot_free_def)

lemma writer_inv_reads [simp]:
  "writer_inv (d\<lparr>sd_head := a\<rparr>) m n p = writer_inv d m n p"
  "writer_inv (d\<lparr>sd_readable_event := a\<rparr>) m n p = writer_inv d m n p"
  "writer_inv (d\<lparr>sd_writable_event := a\<rparr>) m n p = writer_inv d m n p"
  by (cases p; simp)+

lemma writer_inv_mono: "writer_inv d m n p \<Longrightarrow> n \<le> n' \<Longrightarrow> writer_inv d m n' p"
  by (cases p) (auto simp: slot_free_def intro: le_trans)

lemma reader_inv_writes [simp]:
  "reader_inv (d\<lparr>sd_tail := a\<rparr>) s n p q = reader_inv d s n p q"
  "reader_inv (d\<lparr>sd_payloads := b\<rparr>) s n p q = reader_inv d s n p q"
  "reader_inv (d\<lparr>sd_lengths := l\<rparr>) s n p q = reader_inv d s n p q"
  "reader_inv (d\<lparr>sd_writable_event := a\<rparr>) s n p q = reader_inv d s n p q"
  by (cases q; simp)+

lemma reader_inv_writer:
  "reader_inv d s n p q \<Longrightarrow> p \<noteq> W_Notify \<Longrightarrow> reader_inv d s n p' q"
  by (cases q) auto

lemma reader_inv_publish:
  "reader_inv d s n p q \<Longrightarrow> reader_inv d (s @ [f]) n W_Notify q"
  by (cases q) (auto simp: nth_append)

lemma reader_inv_notify:
  "reader_inv d s n p q \<Longrightarrow> reader_inv (notify_readable d) s n p' q"
  by (cases q) (auto simp: notify_readable_def)

lemma writer_step_inv:
  assumes inv: "world_inv w"
  shows "world_inv (writer_step source w)"
proof (cases "sw_writer w")
  case W_Idle
  with inv show ?thesis
    by (auto simp: world_inv_def writer_step_def Let_def ring_inv_def intro: reader_inv_writer)
next
  case (W_Space f h)
  define d where "d = sw_ring w"
  from W_Space inv obtain j where j: "j \<le> length (sw_received w)" "length (sw_sent w) < j + sd_slot_count d"
      "h = j mod sd_slot_count d" and ring: "ring_inv d (sw_sent w) (sw_received w)"
    by (auto simp: world_inv_def d_def)
  have "slot_free d (length (sw_sent w)) (length (sw_received w)) f (sd_tail d)"
    if space: "next_slot (sd_slot_count d) (sd_tail d) \<noteq> h" and "length f \<le> sd_slot_size d"
  proof -
    have "Suc (length (sw_sent w)) \<noteq> j + sd_slot_count d"
      using space ring j(3) by (auto simp: ring_inv_def next_slot_mod)
    with j(1,2) that(2) ring show ?thesis by (simp add: slot_free_def ring_inv_def)
  qed
  with W_Space inv show ?thesis
    by (auto simp: world_inv_def writer_step_def Let_def d_def intro: reader_inv_writer)
next
  case (W_Copy f t k)
  define d where "d = sw_ring w"
  from W_Copy inv have ring: "ring_inv d (sw_sent w) (sw_received w)"
    and free: "slot_free d (length (sw_sent w)) (length (sw_received w)) f t" and k: "k \<le> length f"
    and copied: "subspan (slot_payload d t) k (sd_payloads d) = take k f"
    and rd: "reader_inv d (sw_sent w) (length (sw_received w)) (W_Copy f t k) (sw_reader w)"
    by (simp_all add: world_inv_def d_def)
  have bounds: "slot_payload d t + sd_slot_size d \<le> length (sd_payloads d)"
    by (rule slot_bounds) (use ring slot_free_less [OF ring free] in \<open>auto simp: ring_inv_def\<close>)
  have t: "t < length (sd_lengths d)" using slot_free_less [OF ring free] ring
    by (simp add: ring_inv_def ring_shape_def)
  show ?thesis
  proof (cases "k < length f")
    case True
    with bounds free have "slot_payload d t + k < length (sd_payloads d)" by (simp add: slot_free_def)
    with True W_Copy ring free copied show ?thesis
      by (simp add: world_inv_def writer_step_def Let_def ring_inv_payload subspan_extend
          take_Suc_conv_app_nth reader_inv_writer [OF rd] flip: d_def)
  next
    case False
    hence "k = length f" using k by simp
    with copied t free have "slot_holds (d\<lparr>sd_lengths := (sd_lengths d)[t := length f]\<rparr>) t f"
      by (simp add: slot_holds_def slot_free_def)
    with False W_Copy ring free show ?thesis
      by (simp add: world_inv_def writer_step_def Let_def ring_inv_length reader_inv_writer [OF rd] flip: d_def)
  qed
next
  case (W_Publish f t)
  with inv show ?thesis
    by (auto simp: world_inv_def writer_step_def Let_def intro: ring_inv_publish reader_inv_publish)
next
  case W_Notify
  with inv show ?thesis
    by (auto simp: world_inv_def writer_step_def Let_def intro: reader_inv_notify)
      (simp add: notify_readable_def)
qed

lemma reader_step_inv:
  assumes inv: "world_inv w"
  shows "world_inv (reader_step call w)"
proof -
  define d where "d = sw_ring w"
  from inv have ring: "ring_inv d (sw_sent w) (sw_received w)"
    and wr: "writer_inv d (length (sw_sent w)) (length (sw_received w)) (sw_writer w)"
    and rd: "reader_inv d (sw_sent w) (length (sw_received w)) (sw_writer w) (sw_reader w)"
    by (simp_all add: world_inv_def d_def)
  have le: "length (sw_received w) \<le> length (sw_sent w)" using ring by (simp add: ring_inv_def)
  show ?thesis
  proof (cases "sw_reader w")
    case (R_Head c h)
    with rd ring wr le ring_inv_empty [OF ring] show ?thesis
      by (auto simp: world_inv_def reader_step_def Let_def simp flip: d_def split: reader_call.split)
  next
    case (R_Length h)
    with rd ring wr leased_slot [OF ring] show ?thesis
      by (simp add: world_inv_def reader_step_def Let_def slot_holds_def flip: d_def)
  next
    case (R_Lease h n bs)
    show ?thesis
    proof (cases "length bs < n")
      case True
      let ?f = "sw_sent w ! length (sw_received w)"
      from R_Lease rd have h: "h = sd_head d" "length (sw_received w) < length (sw_sent w)" "n = length ?f"
        and bs: "bs = take (length bs) ?f" by auto
      have "sd_payloads d ! (slot_payload d h + length bs) = subspan (slot_payload d h) n (sd_payloads d) ! length bs"
        using True leased_slot [OF ring h(2)] h slot_bounds [of d h] ring
        by (intro nth_subspan [symmetric]) (auto simp: ring_inv_def slot_holds_def ring_shape_def)
      hence "sd_payloads d ! (slot_payload d h + length bs) = ?f ! length bs"
        using leased_slot [OF ring h(2)] h by (simp add: slot_holds_def)
      moreover have "bs @ [?f ! length bs] = take (Suc (length bs)) ?f"
        using bs True h(3) by (simp add: take_Suc_conv_app_nth flip: bs)
      ultimately show ?thesis using R_Lease True ring wr h
        by (simp add: world_inv_def reader_step_def Let_def flip: d_def)
    next
      case False
      with R_Lease rd have "h = sd_head d" "length (sw_received w) < length (sw_sent w)"
        "bs = sw_sent w ! length (sw_received w)" by auto
      with R_Lease False ring_inv_release [OF ring] wr show ?thesis
        by (auto simp: world_inv_def reader_step_def Let_def simp flip: d_def intro: writer_inv_mono)
    qed
  next
    case R_Freed
    with ring wr show ?thesis
      by (simp add: world_inv_def reader_step_def Let_def notify_writable_def flip: d_def)
  next
    case R_Drain
    with ring wr show ?thesis
      by (simp add: world_inv_def reader_step_def Let_def drain_readable_def flip: d_def)
  qed (use ring wr rd in \<open>auto simp: world_inv_def reader_step_def Let_def simp flip: d_def\<close>)
qed

lemma reader_timeout_inv: "world_inv w \<Longrightarrow> world_inv (reader_timeout w)"
  by (simp add: world_inv_def reader_timeout_def)

lemma shm_step_inv: "shm_step w w' \<Longrightarrow> world_inv w \<Longrightarrow> world_inv w'"
  by (erule shm_stepE) (simp_all add: writer_step_inv reader_step_inv reader_timeout_inv)

lemma reachable_inv: "shm_reachable options w \<Longrightarrow> shm_options_fit options \<Longrightarrow> world_inv w"
  by (induction rule: shm_reachable.induct) (auto intro: new_world_inv shm_step_inv)

text \<open>The geometry of the ring never changes.\<close>

lemma writer_step_geometry:
  "sd_slot_count (sw_ring (writer_step source w)) = sd_slot_count (sw_ring w) \<and>
   sd_slot_size (sw_ring (writer_step source w)) = sd_slot_size (sw_ring w)"
  by (simp add: writer_step_def Let_def notify_readable_def split: writer_pc.split)

lemma reader_step_geometry:
  "sd_slot_count (sw_ring (reader_step call w)) = sd_slot_count (sw_ring w) \<and>
   sd_slot_size (sw_ring (reader_step call w)) = sd_slot_size (sw_ring w)"
  by (simp add: reader_step_def Let_def notify_writable_def drain_readable_def split: reader_pc.split)

lemma reachable_geometry:
  "shm_reachable options w \<Longrightarrow> shm_options_fit options \<Longrightarrow>
   sd_slot_count (sw_ring w) = so_slot_count options \<and> sd_slot_size (sw_ring w) = so_slot_size options"
proof (induction rule: shm_reachable.induct)
  case start
  thus ?case by (simp add: new_world_def new_direction_def shm_options_fit_def)
next
  case (step w w')
  thus ?case by (auto elim!: shm_stepE simp: writer_step_geometry reader_step_geometry reader_timeout_def)
qed

subsection \<open>An uninterrupted process runs the operations of the transport\<close>

definition writer_runs :: "bytes \<Rightarrow> shm_world \<Rightarrow> shm_world \<Rightarrow> bool" where
  "writer_runs source = (\<lambda>a b. b = writer_step source a)\<^sup>*\<^sup>*"

definition reader_runs :: "reader_call \<Rightarrow> shm_world \<Rightarrow> shm_world \<Rightarrow> bool" where
  "reader_runs call = (\<lambda>a b. b = reader_step call a)\<^sup>*\<^sup>*"

lemma writer_runs_refl: "writer_runs source w w"
  by (simp add: writer_runs_def)

lemma writer_runs_step: "writer_runs source (writer_step source w) w' \<Longrightarrow> writer_runs source w w'"
  unfolding writer_runs_def by (erule converse_rtranclp_into_rtranclp [rotated]) simp

lemma writer_runs_steps: "writer_runs source w ((writer_step source ^^ n) w)"
  unfolding writer_runs_def by (induction n) (auto intro: rtranclp.rtrancl_into_rtrancl)

lemma writer_runs_trans: "writer_runs source a b \<Longrightarrow> writer_runs source b c \<Longrightarrow> writer_runs source a c"
  by (simp add: writer_runs_def)

lemma reader_runs_refl: "reader_runs call w w"
  by (simp add: reader_runs_def)

lemma reader_runs_step: "reader_runs call (reader_step call w) w' \<Longrightarrow> reader_runs call w w'"
  unfolding reader_runs_def by (erule converse_rtranclp_into_rtranclp [rotated]) simp

lemma reader_runs_steps: "reader_runs call w ((reader_step call ^^ n) w)"
  unfolding reader_runs_def by (induction n) (auto intro: rtranclp.rtrancl_into_rtrancl)

lemma reader_runs_trans: "reader_runs call a b \<Longrightarrow> reader_runs call b c \<Longrightarrow> reader_runs call a c"
  by (simp add: reader_runs_def)

lemma copy_loop:
  assumes "sw_writer w = W_Copy f t k" "k \<le> length f"
    "slot_payload (sw_ring w) t + length f \<le> length (sd_payloads (sw_ring w))"
  shows "writer_runs source w (w\<lparr>sw_ring := (sw_ring w)\<lparr>sd_payloads :=
      blit (slot_payload (sw_ring w) t + k) (drop k f) (sd_payloads (sw_ring w))\<rparr>,
    sw_writer := W_Copy f t (length f)\<rparr>)"
  using assms
proof (induction "length f - k" arbitrary: w k)
  case 0
  hence same: "w\<lparr>sw_writer := W_Copy f t k\<rparr> = w" by (cases w) simp
  from 0 show ?case by (simp add: writer_runs_refl same)
next
  case (Suc r)
  let ?d = "sw_ring w" and ?p = "slot_payload (sw_ring w) t + k"
  let ?w = "w\<lparr>sw_ring := ?d\<lparr>sd_payloads := (sd_payloads ?d)[?p := f ! k]\<rparr>, sw_writer := W_Copy f t (k + 1)\<rparr>"
  have step: "writer_step source w = ?w" using Suc by (simp add: writer_step_def Let_def)
  have all: "blit (?p + 1) (drop (Suc k) f) ((sd_payloads ?d)[?p := f ! k]) = blit ?p (drop k f) (sd_payloads ?d)"
  proof -
    have "drop k f = f ! k # drop (Suc k) f" using Suc.hyps(2) by (simp add: Cons_nth_drop_Suc)
    moreover have "take (Suc ?p) ((sd_payloads ?d)[?p := f ! k]) = take ?p (sd_payloads ?d) @ [f ! k]"
      using Suc.prems(3) Suc.hyps(2) by (simp add: take_Suc_conv_app_nth)
    ultimately show ?thesis by (simp add: blit_def)
  qed
  have "writer_runs source (writer_step source w) (w\<lparr>sw_ring := ?d\<lparr>sd_payloads :=
      blit ?p (drop k f) (sd_payloads ?d)\<rparr>, sw_writer := W_Copy f t (length f)\<rparr>)"
    using Suc.hyps(1) [of "k + 1" ?w] Suc.hyps(2) Suc.prems all by (simp add: step add.assoc)
  thus ?case by (rule writer_runs_step)
qed

text \<open>An uninterrupted writer performs \<open>shm_write\<close>.\<close>

lemma writer_runs_write:
  assumes ring: "ring_inv (sw_ring w) (sw_sent w) (sw_received w)" and idle: "sw_writer w = W_Idle"
  shows "writer_runs f w (w\<lparr>sw_ring := snd (shm_write True f (sw_ring w)),
    sw_sent := sw_sent w @ (if ring_has_space (sw_ring w) \<and> length f \<le> sd_slot_size (sw_ring w) then [f] else [])\<rparr>)"
proof (cases "ring_has_space (sw_ring w) \<and> length f \<le> sd_slot_size (sw_ring w)")
  case False
  have "writer_step f (writer_step f w) = w"
    using False idle by (auto simp: writer_step_def Let_def ring_has_space_def)
  moreover have "snd (shm_write True f (sw_ring w)) = sw_ring w"
    using False by (auto simp: shm_write_def)
  ultimately show ?thesis using False writer_runs_steps [of f w 2] by (auto simp: numeral_2_eq_2)
next
  case True
  let ?d = "sw_ring w" and ?t = "sd_tail (sw_ring w)"
  let ?c = "w\<lparr>sw_writer := W_Copy f ?t 0\<rparr>"
  have "slot_payload ?d ?t + sd_slot_size ?d \<le> length (sd_payloads ?d)"
    by (rule slot_bounds) (use ring in \<open>auto simp: ring_inv_def ring_shape_def\<close>)
  with True have loop: "writer_runs f ?c (w\<lparr>sw_ring := ?d\<lparr>sd_payloads := blit (slot_payload ?d ?t) f (sd_payloads ?d)\<rparr>,
      sw_writer := W_Copy f ?t (length f)\<rparr>)" (is "writer_runs f ?c ?e")
    using copy_loop [of ?c f ?t 0 f] by simp
  have "writer_step f (writer_step f w) = ?c"
    using True idle by (auto simp: writer_step_def Let_def ring_has_space_def)
  with writer_runs_steps [of f w 2] have "writer_runs f w ?c" by (simp add: numeral_2_eq_2)
  moreover have "writer_runs f ?e (writer_step f (writer_step f (writer_step f ?e)))"
    using writer_runs_steps [of f ?e 3] by (simp only: numeral_3_eq_3 funpow.simps id_def o_def)
  moreover have "writer_step f (writer_step f (writer_step f ?e)) =
      w\<lparr>sw_ring := snd (shm_write True f (sw_ring w)), sw_sent := sw_sent w @ [f]\<rparr>"
    using True idle by (simp add: writer_step_def Let_def shm_write_def)
  ultimately show ?thesis using True loop by (auto intro: writer_runs_trans)
qed

lemma lease_loop:
  assumes "sw_reader w = R_Lease h n bs" "length bs \<le> n"
    "slot_payload (sw_ring w) h + n \<le> length (sd_payloads (sw_ring w))"
    "bs = subspan (slot_payload (sw_ring w) h) (length bs) (sd_payloads (sw_ring w))"
  shows "reader_runs call w (w\<lparr>sw_reader :=
    R_Lease h n (subspan (slot_payload (sw_ring w) h) n (sd_payloads (sw_ring w)))\<rparr>)"
  using assms
proof (induction "n - length bs" arbitrary: w bs)
  case 0
  hence "subspan (slot_payload (sw_ring w) h) n (sd_payloads (sw_ring w)) = bs" by simp
  hence "w\<lparr>sw_reader := R_Lease h n (subspan (slot_payload (sw_ring w) h) n (sd_payloads (sw_ring w)))\<rparr> = w"
    using 0 by (cases w) simp
  thus ?case by (metis reader_runs_refl)
next
  case (Suc r)
  let ?xs = "sd_payloads (sw_ring w)" and ?p = "slot_payload (sw_ring w) h"
  let ?bs = "bs @ [?xs ! (?p + length bs)]"
  have step: "reader_step call w = w\<lparr>sw_reader := R_Lease h n ?bs\<rparr>"
    using Suc.prems(1) Suc.hyps(2) by (simp add: reader_step_def Let_def)
  have longer: "subspan ?p (Suc (length bs)) ?xs = subspan ?p (length bs) ?xs @ [?xs ! (?p + length bs)]"
    using Suc.prems(3) Suc.hyps(2) by (simp add: subspan_def take_Suc_conv_app_nth)
  hence longer: "subspan ?p (Suc (length bs)) ?xs = ?bs"
    by (simp only: Suc.prems(4) [symmetric])
  let ?w = "w\<lparr>sw_reader := R_Lease h n ?bs\<rparr>"
  have "reader_runs call ?w (?w\<lparr>sw_reader := R_Lease h n (subspan (slot_payload (sw_ring ?w) h) n
      (sd_payloads (sw_ring ?w)))\<rparr>)"
  proof (rule Suc.hyps(1))
    show "r = n - length ?bs" using Suc.hyps(2) by simp
    show "length ?bs \<le> n" using Suc.hyps(2) by simp
    show "sw_reader ?w = R_Lease h n ?bs" by simp
    show "slot_payload (sw_ring ?w) h + n \<le> length (sd_payloads (sw_ring ?w))" using Suc.prems(3) by simp
    show "?bs = subspan (slot_payload (sw_ring ?w) h) (length ?bs) (sd_payloads (sw_ring ?w))"
      using longer by simp
  qed
  hence "reader_runs call (reader_step call w) (w\<lparr>sw_reader := R_Lease h n (subspan ?p n ?xs)\<rparr>)"
    by (simp add: step)
  thus ?case by (rule reader_runs_step)
qed

text \<open>An uninterrupted reader acquires the next frame, reads it and releases it.\<close>

lemma reader_runs_receive:
  assumes ring: "ring_inv (sw_ring w) (sw_sent w) (sw_received w)" and idle: "sw_reader w = R_Idle"
    and acquire: "shm_try_acquire new_shm_endpoint (sw_ring w) = (Inr lease, e)"
    and release: "shm_release lease e (sw_ring w) = (SC_Ok, e', d')"
  shows "reader_runs RC_Receive w (w\<lparr>sw_ring := d', sw_received := sw_received w @ [tl_bytes lease]\<rparr>)"
proof -
  let ?d = "sw_ring w" and ?h = "sd_head (sw_ring w)"
  let ?n = "sd_lengths ?d ! ?h"
  let ?bs = "subspan (slot_payload ?d ?h) ?n (sd_payloads ?d)"
  let ?l = "w\<lparr>sw_reader := R_Lease ?h ?n []\<rparr>"
  let ?e = "w\<lparr>sw_reader := R_Lease ?h ?n ?bs\<rparr>"
  let ?r = "reader_step RC_Receive"
  from acquire have data: "ring_has_data ?d" and bytes: "tl_bytes lease = ?bs"
    and d': "d' = free_slot ?h ?d"
    using release by (auto simp: shm_try_acquire_def new_shm_endpoint_def shm_release_def split: if_splits)
  from data ring ring_inv_empty [OF ring] have "length (sw_received w) < length (sw_sent w)"
    by (auto simp: ring_has_data_def ring_inv_def)
  from leased_slot [OF ring this] have n: "?n \<le> sd_slot_size ?d" by (auto simp: slot_holds_def)
  have "slot_payload ?d ?h + sd_slot_size ?d \<le> length (sd_payloads ?d)"
    by (rule slot_bounds) (use ring in \<open>auto simp: ring_inv_def ring_shape_def\<close>)
  with n have inside: "slot_payload ?d ?h + ?n \<le> length (sd_payloads ?d)" by simp
  have "(?r ^^ 3) w = ?l"
    using data idle by (simp add: eval_nat_numeral reader_step_def Let_def ring_has_data_def)
  with reader_runs_steps [of RC_Receive w 3] have first: "reader_runs RC_Receive w ?l" by simp
  have second: "reader_runs RC_Receive ?l ?e"
    using lease_loop [of ?l ?h ?n "[]" RC_Receive] inside by simp
  have third: "reader_runs RC_Receive ?e (w\<lparr>sw_ring := d', sw_received := sw_received w @ [tl_bytes lease]\<rparr>)"
  proof (cases "ring_has_data (notify_writable (?d\<lparr>sd_head := next_slot (sd_slot_count ?d) ?h\<rparr>))")
    case True
    have "(?r ^^ 3) ?e = w\<lparr>sw_ring := d', sw_received := sw_received w @ [tl_bytes lease]\<rparr>"
      using True idle inside by (simp add: eval_nat_numeral reader_step_def Let_def d' free_slot_def bytes length_subspan)
    thus ?thesis using reader_runs_steps [of RC_Receive ?e 3] by simp
  next
    case False
    have "(?r ^^ 4) ?e = w\<lparr>sw_ring := d', sw_received := sw_received w @ [tl_bytes lease]\<rparr>"
      using False idle inside by (simp add: eval_nat_numeral reader_step_def Let_def d' free_slot_def bytes length_subspan)
    thus ?thesis using reader_runs_steps [of RC_Receive ?e 4] by simp
  qed
  show ?thesis by (rule reader_runs_trans [OF reader_runs_trans [OF first second] third])
qed

subsection \<open>Delivery\<close>

lemma acquired_frame:
  assumes "ring_inv d sent received" "shm_try_acquire e d = (Inr lease, e')"
  shows "length received < length sent \<and> tl_bytes lease = sent ! length received"
proof -
  from assms(2) have "ring_has_data d" and lease: "tl_bytes lease =
      subspan (slot_payload d (sd_head d)) (sd_lengths d ! sd_head d) (sd_payloads d)"
    by (auto simp: shm_try_acquire_def split: if_splits)
  with assms(1) ring_inv_empty [OF assms(1)] have "length received < length sent"
    by (auto simp: ring_has_data_def ring_inv_def)
  with leased_slot [OF assms(1)] lease show ?thesis by (simp add: slot_holds_def)
qed

text \<open>C26: the ring is a queue\<close>

theorem shm_ring_fifo:
  assumes "shm_options_fit options" "shm_reachable options w"
  shows "\<exists>pending. sw_sent w = sw_received w @ pending \<and> length pending < so_slot_count options \<and>
    (case sw_reader w of
       R_Lease h n bs \<Rightarrow> (\<exists>f rest. pending = f # rest \<and> n = length f \<and> bs = take (length bs) f)
     | _ \<Rightarrow> True) \<and>
    (case sw_writer w of
       W_Copy f t k \<Rightarrow> slot_payload (sw_ring w) t + length f \<le> length (sd_payloads (sw_ring w))
     | _ \<Rightarrow> True) \<and>
    (\<forall>lease e. shm_try_acquire new_shm_endpoint (sw_ring w) = (Inr lease, e) \<longrightarrow>
       (\<exists>rest. pending = tl_bytes lease # rest))"
proof -
  let ?pending = "drop (length (sw_received w)) (sw_sent w)"
  from assms reachable_inv have inv: "world_inv w" by blast
  hence ring: "ring_inv (sw_ring w) (sw_sent w) (sw_received w)" by (simp add: world_inv_def)
  from ring have split: "sw_sent w = sw_received w @ ?pending"
    by (metis append_take_drop_id ring_inv_def)
  have fits: "length ?pending < so_slot_count options"
    using ring reachable_geometry [OF assms(2,1)] by (auto simp: ring_inv_def)
  have next_frame: "?pending = sw_sent w ! length (sw_received w) # drop (Suc (length (sw_received w))) (sw_sent w)"
    if "length (sw_received w) < length (sw_sent w)"
    by (rule Cons_nth_drop_Suc [OF that, symmetric])
  have lease: "case sw_reader w of
       R_Lease h n bs \<Rightarrow> (\<exists>f rest. ?pending = f # rest \<and> n = length f \<and> bs = take (length bs) f) | _ \<Rightarrow> True"
    using inv next_frame by (auto simp: world_inv_def split: reader_pc.split)
  have store: "case sw_writer w of
       W_Copy f t k \<Rightarrow> slot_payload (sw_ring w) t + length f \<le> length (sd_payloads (sw_ring w)) | _ \<Rightarrow> True"
  proof (cases "sw_writer w")
    case (W_Copy f t k)
    with inv have "slot_free (sw_ring w) (length (sw_sent w)) (length (sw_received w)) f t"
      by (simp add: world_inv_def)
    with slot_free_less [OF ring this] slot_bounds [of "sw_ring w" t] ring W_Copy show ?thesis
      by (simp add: slot_free_def ring_inv_def)
  qed simp_all
  have "\<exists>rest. ?pending = tl_bytes lease # rest"
    if "shm_try_acquire new_shm_endpoint (sw_ring w) = (Inr lease, e)" for lease e
    using acquired_frame [OF ring that] next_frame by metis
  with split fits lease store show ?thesis by blast
qed

definition demo_shm :: shm_options where
  "demo_shm = \<lparr>so_slot_count = 2, so_slot_size = 4\<rparr>"

lemma replicate_2: "replicate 2 x = [x, x]"
  by (simp add: numeral_2_eq_2)

lemma iterate_numeral: "(f ^^ numeral k) x = (f ^^ pred_numeral k) (f x)"
  by (simp add: numeral_eq_Suc funpow_swap1)

lemma demo_direction:
  "new_direction demo_shm =
     \<lparr>sd_head = 0, sd_tail = 0, sd_slot_count = 2, sd_slot_size = 4, sd_lengths = [0, 0],
      sd_payloads = replicate 64 0, sd_readable_event = 0, sd_writable_event = 0\<rparr>"
  by (simp add: new_direction_def demo_shm_def shm_align_up_def replicate_2)

lemma demo_world:
  "new_world demo_shm =
     \<lparr>sw_ring = \<lparr>sd_head = 0, sd_tail = 0, sd_slot_count = 2, sd_slot_size = 4, sd_lengths = [0, 0],
        sd_payloads = replicate 64 0, sd_readable_event = 0, sd_writable_event = 0\<rparr>,
      sw_writer = W_Idle, sw_reader = R_Idle, sw_sent = [], sw_received = []\<rparr>"
  by (simp add: new_world_def demo_direction)

lemmas steps_simps = writer_step_def reader_step_def next_slot_def slot_payload_def

text \<open>A frame of two bytes published, and its first byte read in place.\<close>

definition demo_lease :: shm_world where
  "demo_lease = (reader_step RC_Receive ^^ 4) ((writer_step [7, 9] ^^ 6) (new_world demo_shm))"

lemma writer_steps_reachable: "shm_reachable options w \<Longrightarrow> shm_reachable options ((writer_step f ^^ n) w)"
  by (induction n) (auto intro: shm_reachable.intros shm_step.intros)

lemma reader_steps_reachable: "shm_reachable options w \<Longrightarrow> shm_reachable options ((reader_step c ^^ n) w)"
  by (induction n) (auto intro: shm_reachable.intros shm_step.intros)

lemma demo_shm_fits: "shm_options_fit demo_shm"
  by (simp add: shm_options_fit_def demo_shm_def)

lemma demo_lease_reachable: "shm_reachable demo_shm demo_lease"
  by (simp add: demo_lease_def writer_steps_reachable reader_steps_reachable shm_reachable.start)

lemma demo_lease_state:
  "sw_reader demo_lease = R_Lease 0 2 [7]" "sw_received demo_lease = []" "sw_sent demo_lease = [[7, 9]]"
  by (simp_all add: demo_lease_def demo_world iterate_numeral steps_simps)

theorem shm_ring_fifo_witness:
  "sw_reader demo_lease = R_Lease 0 2 [7] \<and>
   (\<exists>pending. sw_sent demo_lease = sw_received demo_lease @ pending \<and> length pending < 2)"
  using shm_ring_fifo [OF demo_shm_fits demo_lease_reachable] demo_lease_state(1)
  by (auto simp: demo_shm_def)

text \<open>C27: no lost wake-up\<close>

theorem shm_no_lost_wakeup:
  assumes "shm_options_fit options" "shm_reachable options w" "sw_reader w = R_Poll" "ring_has_data (sw_ring w)"
  shows "sw_reader (reader_step c w) = R_Idle \<or>
    sw_writer w = W_Notify \<and> sw_reader (reader_step c (writer_step f w)) = R_Idle"
proof -
  from assms reachable_inv have inv: "world_inv w" by blast
  with assms(4) ring_inv_empty [of "sw_ring w" "sw_sent w" "sw_received w"]
  have "length (sw_received w) \<noteq> length (sw_sent w)" by (auto simp: world_inv_def ring_has_data_def)
  with inv assms(3) have "0 < sd_readable_event (sw_ring w) \<or> sw_writer w = W_Notify"
    by (auto simp: world_inv_def)
  thus ?thesis using assms(3) by (auto simp: reader_step_def writer_step_def notify_readable_def Let_def)
qed

text \<open>A waiting reader while the writer has published and not yet notified.\<close>

definition demo_wait :: shm_world where
  "demo_wait = (writer_step [7] ^^ 5) ((reader_step RC_Wait ^^ 2) (new_world demo_shm))"

lemma demo_wait_reachable: "shm_reachable demo_shm demo_wait"
  by (simp add: demo_wait_def writer_steps_reachable reader_steps_reachable shm_reachable.start)

lemma demo_wait_state: "sw_reader demo_wait = R_Poll" "ring_has_data (sw_ring demo_wait)"
  by (simp_all add: demo_wait_def demo_world iterate_numeral steps_simps ring_has_data_def)

theorem shm_no_lost_wakeup_witness:
  "sw_reader demo_wait = R_Poll \<and>
   (sw_reader (reader_step RC_Wait demo_wait) = R_Idle \<or>
    sw_writer demo_wait = W_Notify \<and> sw_reader (reader_step RC_Wait (writer_step [] demo_wait)) = R_Idle)"
  using shm_no_lost_wakeup [OF demo_shm_fits demo_wait_reachable demo_wait_state] demo_wait_state(1) by blast

subsection \<open>Two deviations\<close>

text \<open>
  Nothing ever drains the writable event, so once a slot has been freed \<open>wait_until_writable\<close> reports a full ring
  as writable.
\<close>

lemma writable_event_kept:
  "sd_writable_event d \<le> sd_writable_event (snd (shm_write is_open f d))"
  "sd_writable_event d \<le> sd_writable_event (snd (snd (snd (shm_read e dst d))))"
  "sd_writable_event d \<le> sd_writable_event (snd (snd (shm_release lease e d)))"
  by (simp_all add: shm_write_def shm_read_def shm_release_def notify_readable_def free_slot_def
      notify_writable_def drain_readable_def Let_def)

lemmas shm_simps = shm_write_def shm_read_def new_shm_endpoint_def ring_has_space_def ring_has_data_def
  next_slot_def slot_payload_def notify_readable_def free_slot_def notify_writable_def drain_readable_def
  blit_def subspan_def shm_wait_until_writable_def

lemma full_ring_reported_writable:
  "let d = new_direction demo_shm;
       d = snd (shm_write True [1] d);
       d = snd (snd (snd (shm_read new_shm_endpoint [0, 0] d)));
       d = snd (shm_write True [2] d) in
   \<not> ring_has_space d \<and> shm_wait_until_writable new_shm_endpoint d = Inr True \<and>
   wr_would_block (fst (shm_write True [3] d))"
proof -
  have first: "snd (shm_write True [1] (new_direction demo_shm)) =
      \<lparr>sd_head = 0, sd_tail = 1, sd_slot_count = 2, sd_slot_size = 4, sd_lengths = [1, 0],
       sd_payloads = 1 # replicate 63 0, sd_readable_event = 1, sd_writable_event = 0\<rparr>"
    by (simp add: demo_direction shm_simps)
  have second: "snd (snd (snd (shm_read new_shm_endpoint [0, 0]
      \<lparr>sd_head = 0, sd_tail = 1, sd_slot_count = 2, sd_slot_size = 4, sd_lengths = [1, 0],
       sd_payloads = 1 # replicate 63 0, sd_readable_event = 1, sd_writable_event = 0\<rparr>))) =
      \<lparr>sd_head = 1, sd_tail = 1, sd_slot_count = 2, sd_slot_size = 4, sd_lengths = [1, 0],
       sd_payloads = 1 # replicate 63 0, sd_readable_event = 0, sd_writable_event = 1\<rparr>"
    by (simp add: shm_simps)
  have third: "snd (shm_write True [2]
      \<lparr>sd_head = 1, sd_tail = 1, sd_slot_count = 2, sd_slot_size = 4, sd_lengths = [1, 0],
       sd_payloads = 1 # replicate 63 0, sd_readable_event = 0, sd_writable_event = 1\<rparr>) =
      \<lparr>sd_head = 1, sd_tail = 0, sd_slot_count = 2, sd_slot_size = 4, sd_lengths = [1, 1],
       sd_payloads = 1 # replicate 3 0 @ 2 # replicate 59 0, sd_readable_event = 1, sd_writable_event = 1\<rparr>"
    by (simp add: shm_simps)
  show ?thesis by (simp only: Let_def first second third) (simp add: shm_simps)
qed

text \<open>The product of the two options can wrap: the accepted ring has less memory than one slot.\<close>

lemma shm_layout_wraps:
  "case create_pair \<lparr>so_slot_count = 3, so_slot_size = 0x5555555555555556\<rparr> of
     Inl _ \<Rightarrow> False
   | Inr (d, _) \<Rightarrow> length (sd_payloads d) = 64 \<and> sd_slot_size d = 0x55555556"
proof -
  have "shm_align_up (word_of_nat 3 * word_of_nat 0x5555555555555556) 64 = 64"
    by (simp add: shm_align_up_def)
  thus ?thesis by (simp add: create_pair_def new_direction_def)
qed

end
