(* ===== verification/Protocol_Discovery.thy ===== *)
theory Protocol_Discovery
  imports Schema_Compiler
begin

text \<open>
  Protocol discovery of \<open>discovery/protocol_discovery.cpp\<close>: sampled frames are clustered by their first byte, and a
  draft message is inferred for each cluster from its common prefix, its fixed and varying regions and, when the
  sizes vary, a field that holds the length of the rest. The draft protocol is compiled before it is reported.
\<close>

subsection \<open>Data\<close>

record cluster =
  cl_frames :: "bytes list"
  cl_first_index :: nat

record length_field_inference =
  lfi_offset :: nat
  lfi_width_bytes :: nat
  lfi_byte_order :: byte_order
  lfi_trailing_fixed_bytes :: nat

record discovered_message =
  dsm_name :: string
  dsm_sample_count :: nat
  dsm_min_size :: nat
  dsm_max_size :: nat
  dsm_variable_length :: bool
  dsm_allow_trailing_bytes :: bool
  dsm_common_prefix :: bytes
  dsm_inferred_length_field :: "length_field_inference option"
  dsm_strategy_summary :: string
  dsm_sample_frames :: "bytes list"
  dsm_draft_message :: message_definition

record discovery_report =
  drp_protocol_name :: string
  drp_frames_analyzed :: nat
  drp_frames_discarded :: nat
  drp_draft_fingerprint :: u64
  drp_messages :: "discovered_message list"
  drp_draft_protocol :: protocol_definition

record discovery_options =
  dop_protocol_name :: string
  dop_max_common_prefix_bytes :: nat
  dop_sample_frames_per_message :: nat
  dop_max_length_field_width_bytes :: nat
  dop_length_field_search_bytes_after_prefix :: nat
  dop_cluster_by_first_byte :: bool

definition default_discovery_options :: discovery_options where
  "default_discovery_options =
     \<lparr>dop_protocol_name = ''discovered_protocol'', dop_max_common_prefix_bytes = 4,
      dop_sample_frames_per_message = 3, dop_max_length_field_width_bytes = 2,
      dop_length_field_search_bytes_after_prefix = 3, dop_cluster_by_first_byte = True\<rparr>"

text \<open>The error returns; the last one carries the status of the compiler.\<close>

datatype discovery_error =
    DE_NoProtocolName | DE_NoSampleFrames | DE_NoFrames | DE_OnlyEmptyFrames | DE_DoesNotCompile compile_error

subsection \<open>Helpers on the frames of a cluster\<close>

text \<open>\<open>std::to_string\<close> and the decimal output of a stream.\<close>

fun decimal :: "nat \<Rightarrow> string" where
  "decimal n = (if n < 10 then [char_of (48 + n)] else decimal (n div 10) @ [char_of (48 + n mod 10)])"

declare decimal.simps [simp del]

definition hex_digit :: "nat \<Rightarrow> char" where
  "hex_digit n = (if n < 10 then char_of (48 + n) else char_of (55 + n))"

definition hex_byte :: "u8 \<Rightarrow> string" where
  "hex_byte b = [hex_digit (unat b div 16), hex_digit (unat b mod 16)]"

text \<open>The byte that all frames share at a position.\<close>

definition bytes_equal_at :: "bytes list \<Rightarrow> nat \<Rightarrow> u8 option" where
  "bytes_equal_at frames position =
     (case frames of
        [] \<Rightarrow> None
      | front # _ \<Rightarrow>
          if length front \<le> position then None
          else if list_all (\<lambda>frame. length frame > position \<and> frame ! position = front ! position) frames
          then Some (front ! position)
          else None)"

definition min_frame_size :: "bytes list \<Rightarrow> nat" where
  "min_frame_size frames =
     fold (\<lambda>frame result. min result (length frame)) frames (case frames of [] \<Rightarrow> 0 | front # _ \<Rightarrow> length front)"

definition max_frame_size :: "bytes list \<Rightarrow> nat" where
  "max_frame_size frames = fold (\<lambda>frame result. max result (length frame)) frames 0"

definition message_name_for_cluster :: "bytes list \<Rightarrow> nat \<Rightarrow> string" where
  "message_name_for_cluster frames ordinal =
     (case frames of
        (b # _) # _ \<Rightarrow> ''Message_'' @ hex_byte b
      | _ \<Rightarrow> ''Message_'' @ decimal ordinal)"

function common_prefix_loop :: "bytes list \<Rightarrow> nat \<Rightarrow> nat \<Rightarrow> nat" where
  "common_prefix_loop frames limit prefix =
     (if prefix < limit \<and> bytes_equal_at frames prefix \<noteq> None
      then common_prefix_loop frames limit (prefix + 1) else prefix)"
  by pat_completeness auto
termination by (relation "measure (\<lambda>(_, limit, prefix). limit - prefix)") auto

declare common_prefix_loop.simps [simp del]

definition compute_common_prefix_length :: "bytes list \<Rightarrow> nat \<Rightarrow> nat" where
  "compute_common_prefix_length frames max_common_prefix_bytes =
     common_prefix_loop frames (min (min_frame_size frames) max_common_prefix_bytes) 0"

subsection \<open>The length field\<close>

fun read_length_le :: "nat \<Rightarrow> u64 \<Rightarrow> bytes \<Rightarrow> u64" where
  "read_length_le index v [] = v"
| "read_length_le index v (b # bs) = read_length_le (index + 1) (v OR push_bit (index * 8) (ucast b)) bs"

fun read_length_be :: "u64 \<Rightarrow> bytes \<Rightarrow> u64" where
  "read_length_be v [] = v"
| "read_length_be v (b # bs) = read_length_be (push_bit 8 v OR ucast b) bs"

text \<open>The width is passed as \<open>uint8_t\<close>.\<close>

definition read_length_value :: "bytes \<Rightarrow> nat \<Rightarrow> nat \<Rightarrow> byte_order \<Rightarrow> u64" where
  "read_length_value frame offset width_bytes bo =
     (case bo of
        LittleEndian \<Rightarrow> read_length_le 0 0 (subspan offset (width_bytes mod 256) frame)
      | BigEndian \<Rightarrow> read_length_be 0 (subspan offset (width_bytes mod 256) frame))"

text \<open>The innermost loop: does a candidate hold for every frame?\<close>

definition length_field_holds :: "bytes list \<Rightarrow> nat \<Rightarrow> nat \<Rightarrow> byte_order \<Rightarrow> nat \<Rightarrow> bool" where
  "length_field_holds frames offset width_bytes bo trailing =
     list_all (\<lambda>frame. length frame \<ge> offset + width_bytes + trailing \<and>
       read_length_value frame offset width_bytes bo =
         word_of_nat (length frame - offset - width_bytes - trailing)) frames"

text \<open>The candidates in the order of the loops over offset, width, byte order and trailing bytes.\<close>

definition length_field_candidates :: "nat \<Rightarrow> nat \<Rightarrow> nat \<Rightarrow> nat \<Rightarrow> (nat \<times> nat \<times> byte_order \<times> nat) list" where
  "length_field_candidates minimum_size first_offset max_offset max_width =
     concat (map (\<lambda>offset.
       concat (map (\<lambda>width_bytes.
         if offset + width_bytes > minimum_size then []
         else concat (map (\<lambda>bo. map (\<lambda>trailing. (offset, width_bytes, bo, trailing)) [0..<3])
           (if width_bytes = 1 then [LittleEndian] else [LittleEndian, BigEndian])))
       [1..<max_width + 1]))
     [first_offset..<max_offset + 1])"

definition infer_length_field :: "bytes list \<Rightarrow> nat \<Rightarrow> discovery_options \<Rightarrow> length_field_inference option" where
  "infer_length_field frames common_prefix_length options =
     (let minimum_size = min_frame_size frames in
      if minimum_size \<le> common_prefix_length then None
      else
        let max_offset = min (minimum_size - 1)
              (wrap_size (common_prefix_length + dop_length_field_search_bytes_after_prefix options)) in
        (case find (\<lambda>(offset, width_bytes, bo, trailing). length_field_holds frames offset width_bytes bo trailing)
                (length_field_candidates minimum_size common_prefix_length max_offset
                   (dop_max_length_field_width_bytes options)) of
           None \<Rightarrow> None
         | Some (offset, width_bytes, bo, trailing) \<Rightarrow>
             Some \<lparr>lfi_offset = offset, lfi_width_bytes = width_bytes mod 256, lfi_byte_order = bo,
                   lfi_trailing_fixed_bytes = trailing\<rparr>))"

subsection \<open>Fields of a fixed region\<close>

definition region_is_ascii_text :: "bytes list \<Rightarrow> nat \<Rightarrow> nat \<Rightarrow> bool" where
  "region_is_ascii_text frames start_at end_at =
     list_all (\<lambda>frame. list_all (\<lambda>b. 0x20 \<le> b \<and> b \<le> 0x7E) (subspan start_at (end_at - start_at) frame)) frames"

definition expected_byte_field :: "string \<Rightarrow> u8 \<Rightarrow> field_definition" where
  "expected_byte_field name v =
     default_field_definition\<lparr>fd_name := name, fd_kind := KUnsigned, fd_width_bytes := 1,
       fd_byte_order := LittleEndian, fd_has_expected_unsigned := True, fd_expected_unsigned := ucast v\<rparr>"

text \<open>The indices of the next field, text and bytes names.\<close>

record region_names =
  rn_field :: nat
  rn_text :: nat
  rn_bytes :: nat

function run_end_loop :: "bytes list \<Rightarrow> nat \<Rightarrow> nat \<Rightarrow> nat" where
  "run_end_loop frames end_at run_end =
     (if run_end < end_at \<and> bytes_equal_at frames run_end = None
      then run_end_loop frames end_at (run_end + 1) else run_end)"
  by pat_completeness auto
termination by (relation "measure (\<lambda>(_, end_at, run_end). end_at - run_end)") auto

declare run_end_loop.simps [simp del]

definition varying_field :: "bytes list \<Rightarrow> nat \<Rightarrow> nat \<Rightarrow> region_names \<Rightarrow> field_definition \<times> region_names" where
  "varying_field frames position run_end names =
     (if run_end - position = 1 then
        (default_field_definition\<lparr>fd_name := ''field_'' @ decimal (rn_field names), fd_kind := KUnsigned,
           fd_width_bytes := 1, fd_byte_order := LittleEndian\<rparr>,
         names\<lparr>rn_field := rn_field names + 1\<rparr>)
      else if region_is_ascii_text frames position run_end then
        (default_field_definition\<lparr>fd_name := ''text_'' @ decimal (rn_text names), fd_kind := KString,
           fd_fixed_size := run_end - position, fd_string_encoding := Ascii\<rparr>,
         names\<lparr>rn_text := rn_text names + 1\<rparr>)
      else
        (default_field_definition\<lparr>fd_name := ''bytes_'' @ decimal (rn_bytes names), fd_kind := KBytes,
           fd_fixed_size := run_end - position\<rparr>,
         names\<lparr>rn_bytes := rn_bytes names + 1\<rparr>))"

lemma run_end_ge: "run_end \<le> run_end_loop frames end_at run_end"
  by (induction frames end_at run_end rule: run_end_loop.induct) (subst run_end_loop.simps, force)

lemma run_end_le: "run_end \<le> end_at \<Longrightarrow> run_end_loop frames end_at run_end \<le> end_at"
  by (induction frames end_at run_end rule: run_end_loop.induct) (subst run_end_loop.simps, force)

function fixed_region_fields ::
  "bytes list \<Rightarrow> nat \<Rightarrow> nat \<Rightarrow> region_names \<Rightarrow> field_definition list" where
  "fixed_region_fields frames position end_at names =
     (if position < end_at then
        (case bytes_equal_at frames position of
           Some fixed_value \<Rightarrow>
             expected_byte_field (''fixed_'' @ decimal position) fixed_value #
             fixed_region_fields frames (position + 1) end_at names
         | None \<Rightarrow>
             let run_end = run_end_loop frames end_at (position + 1);
                 (f, names) = varying_field frames position run_end names
             in f # fixed_region_fields frames run_end end_at names)
      else [])"
  by pat_completeness auto
termination
proof -
  have run: "end_at - run_end_loop frames end_at (Suc position) < end_at - position"
    if "position < end_at" for frames end_at position
    using that run_end_ge [of "Suc position" frames end_at] by simp
  show ?thesis
    by (relation "measure (\<lambda>(_, position, end_at, _). end_at - position)") (auto simp: run)
qed

declare fixed_region_fields.simps [simp del]

definition initial_names :: region_names where
  "initial_names = \<lparr>rn_field = 0, rn_text = 0, rn_bytes = 0\<rparr>"

subsection \<open>One message\<close>

definition copy_prefix :: "bytes list \<Rightarrow> nat \<Rightarrow> bytes" where
  "copy_prefix frames common_prefix_length = map (\<lambda>index. hd frames ! index) [0..<common_prefix_length]"

definition summarize_strategy ::
  "nat \<Rightarrow> nat \<Rightarrow> nat \<Rightarrow> length_field_inference option \<Rightarrow> bool \<Rightarrow> string" where
  "summarize_strategy common_prefix_length minimum_size maximum_size length_field allow_trailing_bytes =
     ''common_prefix='' @ decimal common_prefix_length @ '', min_size='' @ decimal minimum_size @
     '', max_size='' @ decimal maximum_size @
     (case length_field of
        Some lf \<Rightarrow>
          '', length_field=offset:'' @ decimal (lfi_offset lf) @ ''/width:'' @ decimal (lfi_width_bytes lf) @
          '', trailing_fixed='' @ decimal (lfi_trailing_fixed_bytes lf)
      | None \<Rightarrow>
          if allow_trailing_bytes then '', trailing_bytes=allowed'' else '', fixed_size=yes'')"

definition prefix_fields :: "bytes list \<Rightarrow> nat \<Rightarrow> field_definition list" where
  "prefix_fields frames common_prefix_length =
     map (\<lambda>index. expected_byte_field
       (if index = 0 then ''message_type'' else ''prefix_'' @ decimal index) (hd frames ! index))
     [0..<common_prefix_length]"

definition length_definition :: "length_field_inference \<Rightarrow> field_definition" where
  "length_definition lf =
     default_field_definition\<lparr>fd_name := ''length'', fd_kind := KUnsigned,
       fd_width_bytes := lfi_width_bytes lf, fd_byte_order := lfi_byte_order lf\<rparr>"

definition payload_definition :: field_definition where
  "payload_definition =
     default_field_definition\<lparr>fd_name := ''payload'', fd_kind := KBytes, fd_size_from_field := ''length''\<rparr>"

definition trailer_definition :: "nat \<Rightarrow> field_definition" where
  "trailer_definition trailing =
     default_field_definition\<lparr>fd_name := ''trailer'', fd_kind := KBytes, fd_fixed_size := trailing\<rparr>"

text \<open>The fields of the draft message; each message makes one call that names region fields.\<close>

definition draft_fields :: "bytes list \<Rightarrow> nat \<Rightarrow> length_field_inference option \<Rightarrow> field_definition list" where
  "draft_fields frames common_prefix_length length_field =
     prefix_fields frames common_prefix_length @
     (case length_field of
        Some lf \<Rightarrow>
          fixed_region_fields frames common_prefix_length (lfi_offset lf) initial_names @
          [length_definition lf, payload_definition] @
          (if lfi_trailing_fixed_bytes lf > 0 then [trailer_definition (lfi_trailing_fixed_bytes lf)] else [])
      | None \<Rightarrow>
          if min_frame_size frames \<noteq> max_frame_size frames
          then fixed_region_fields frames common_prefix_length (min_frame_size frames) initial_names
          else fixed_region_fields frames common_prefix_length (max_frame_size frames) initial_names)"

definition discover_message :: "bytes list \<Rightarrow> nat \<Rightarrow> discovery_options \<Rightarrow> discovered_message" where
  "discover_message frames ordinal options =
     (let name = message_name_for_cluster frames ordinal;
          min_size = min_frame_size frames;
          max_size = max_frame_size frames;
          variable_length = min_size \<noteq> max_size;
          common_prefix_length = compute_common_prefix_length frames (dop_max_common_prefix_bytes options);
          length_field = (if variable_length then infer_length_field frames common_prefix_length options else None);
          allow_trailing = variable_length \<and> length_field = None in
      \<lparr>dsm_name = name, dsm_sample_count = length frames, dsm_min_size = min_size, dsm_max_size = max_size,
       dsm_variable_length = variable_length, dsm_allow_trailing_bytes = allow_trailing,
       dsm_common_prefix = copy_prefix frames common_prefix_length, dsm_inferred_length_field = length_field,
       dsm_strategy_summary =
         summarize_strategy common_prefix_length min_size max_size length_field allow_trailing,
       dsm_sample_frames = take (min (length frames) (dop_sample_frames_per_message options)) frames,
       dsm_draft_message =
         \<lparr>md_name = name, md_fields = draft_fields frames common_prefix_length length_field,
          md_validations = [], md_allow_trailing_bytes = allow_trailing\<rparr>\<rparr>)"

subsection \<open>Clusters\<close>

text \<open>The ordered map from the first byte to its cluster; a cluster that is not there is empty.\<close>

definition cluster_insert :: "nat \<times> bytes \<Rightarrow> (u8 \<Rightarrow> cluster) \<Rightarrow> u8 \<Rightarrow> cluster" where
  "cluster_insert = (\<lambda>(index, frame) clusters.
     let key = hd frame;
         c = clusters key;
         c = (if cl_frames c = [] then c\<lparr>cl_first_index := index\<rparr> else c);
         c = c\<lparr>cl_frames := cl_frames c @ [frame]\<rparr> in
     clusters(key := c))"

definition cluster_frames :: "bytes list \<Rightarrow> discovery_options \<Rightarrow> cluster list" where
  "cluster_frames frames options =
     (if \<not> dop_cluster_by_first_byte options then [\<lparr>cl_frames = frames, cl_first_index = 0\<rparr>]
      else
        let clusters_by_key =
              fold cluster_insert (enumerate 0 frames) (\<lambda>_. \<lparr>cl_frames = [], cl_first_index = 0\<rparr>);
            clusters = filter (\<lambda>c. cl_frames c \<noteq> []) (map (\<lambda>key. clusters_by_key (word_of_nat key)) [0..<256]) in
        sort_key cl_first_index clusters)"

subsection \<open>The protocol\<close>

definition discover_protocol_from_samples ::
  "registry \<Rightarrow> bytes list \<Rightarrow> discovery_options \<Rightarrow> discovery_error + discovery_report" where
  "discover_protocol_from_samples reg frames options =
     (if dop_protocol_name options = '''' then Inl DE_NoProtocolName
      else if dop_sample_frames_per_message options = 0 then Inl DE_NoSampleFrames
      else if frames = [] then Inl DE_NoFrames
      else
        let non_empty_frames = filter (\<lambda>frame. frame \<noteq> []) frames;
            discarded = length (filter (\<lambda>frame. frame = []) frames) in
        if non_empty_frames = [] then Inl DE_OnlyEmptyFrames
        else
          let clusters = cluster_frames non_empty_frames options;
              messages = map (\<lambda>(index, c). discover_message (cl_frames c) index options) (enumerate 0 clusters);
              draft = \<lparr>pd_name = dop_protocol_name options, pd_imports = [], pd_enums = [], pd_structs = [],
                       pd_messages = map dsm_draft_message messages\<rparr> in
          (case compile_protocol reg draft of
             Inl e \<Rightarrow> Inl (DE_DoesNotCompile e)
           | Inr compiled \<Rightarrow>
               Inr \<lparr>drp_protocol_name = dop_protocol_name options,
                    drp_frames_analyzed = length non_empty_frames, drp_frames_discarded = discarded,
                    drp_draft_fingerprint = cp_fingerprint compiled, drp_messages = messages,
                    drp_draft_protocol = draft\<rparr>))"

end
