(* ===== verification/Discovery_Properties.thy ===== *)
theory Discovery_Properties
  imports Protocol_Discovery Decoder_Properties
begin

text \<open>
  Protocol discovery is sound: what it infers from the samples holds for each of them. First against a direct reading
  of the draft, a list of field definitions run over a frame, then end to end: the compiled draft decodes every
  sample it was inferred from.
\<close>

subsection \<open>Reading a frame by field definitions\<close>

text \<open>The offset reached and the values of the unsigned fields read so far.\<close>

type_synonym draft_state = "nat \<times> (string \<Rightarrow> u64 option)"

definition draft_step :: "bytes \<Rightarrow> field_definition \<Rightarrow> draft_state \<Rightarrow> draft_state option" where
  "draft_step frame f = (\<lambda>(offset, vals).
     (case fd_kind f of
        KUnsigned \<Rightarrow>
          let v = read_unsigned_scalar_unchecked (fd_byte_order f) (subspan offset (fd_width_bytes f) frame) in
          if offset + fd_width_bytes f \<le> length frame \<and> (fd_has_expected_unsigned f \<longrightarrow> v = fd_expected_unsigned f)
          then Some (offset + fd_width_bytes f, vals(fd_name f \<mapsto> v)) else None
      | KString \<Rightarrow>
          if offset + fd_fixed_size f \<le> length frame \<and>
             list_all (\<lambda>b. unat b < 128) (subspan offset (fd_fixed_size f) frame)
          then Some (offset + fd_fixed_size f, vals) else None
      | KBytes \<Rightarrow>
          (case (if fd_size_from_field f = '''' then Some (fd_fixed_size f)
                 else map_option unat (vals (fd_size_from_field f))) of
             None \<Rightarrow> None
           | Some n \<Rightarrow> if offset + n \<le> length frame then Some (offset + n, vals) else None)
      | _ \<Rightarrow> None))"

fun draft_run :: "bytes \<Rightarrow> field_definition list \<Rightarrow> draft_state \<Rightarrow> draft_state option" where
  "draft_run frame [] s = Some s"
| "draft_run frame (f # fs) s = Option.bind (draft_step frame f s) (draft_run frame fs)"

lemma draft_run_append:
  "draft_run frame (fs @ gs) s = Option.bind (draft_run frame fs s) (draft_run frame gs)"
proof (induction fs arbitrary: s)
  case (Cons f fs)
  hence "draft_run frame (fs @ gs) = (\<lambda>s. Option.bind (draft_run frame fs s) (draft_run frame gs))" by blast
  thus ?case by (cases "draft_step frame f s") simp_all
qed simp

lemma draft_run_mono: "draft_run frame fs (off, vals) = Some (off', vals') \<Longrightarrow> off \<le> length frame \<Longrightarrow> off' \<le> length frame"
proof (induction fs arbitrary: off vals)
  case (Cons f fs)
  then show ?case
    by (auto simp: draft_step_def Let_def bind_eq_Some_conv split: field_kind.splits option.splits if_splits) 
qed simp

subsection \<open>What the samples share\<close>

lemma min_fold_le: "fold (\<lambda>frame result. min result (length frame)) frames a \<le> a"
  "f \<in> set frames \<Longrightarrow> fold (\<lambda>frame result. min result (length frame)) frames a \<le> length f"
proof (induction frames arbitrary: a)
  case (Cons g frames)
  { case 1 show ?case using Cons.IH(1) [of "min a (length g)"] by simp
  next
    case 2 then show ?case using Cons.IH(1) [of "min a (length g)"] Cons.IH(2) by auto }
qed simp_all

lemma min_frame_size_le: "f \<in> set frames \<Longrightarrow> min_frame_size frames \<le> length f"
  by (simp add: min_frame_size_def min_fold_le)

lemma max_fold_ge: "a \<le> fold (\<lambda>frame result. max result (length frame)) frames a"
  "f \<in> set frames \<Longrightarrow> length f \<le> fold (\<lambda>frame result. max result (length frame)) frames a"
proof (induction frames arbitrary: a)
  case (Cons g frames)
  { case 1 show ?case using Cons.IH(1) [of "max a (length g)"] by simp
  next
    case 2 then show ?case using Cons.IH(1) [of "max a (length g)"] Cons.IH(2) by auto }
qed simp_all

lemma max_frame_size_ge: "f \<in> set frames \<Longrightarrow> length f \<le> max_frame_size frames"
  by (simp add: max_frame_size_def max_fold_ge)

lemma bytes_equal_at_Some:
  "bytes_equal_at frames i = Some b \<Longrightarrow> f \<in> set frames \<Longrightarrow> i < length f \<and> f ! i = b"
  by (auto simp: bytes_equal_at_def list_all_iff split: list.splits if_splits)

lemma bytes_equal_at_hd:
  "bytes_equal_at frames i \<noteq> None \<Longrightarrow> f \<in> set frames \<Longrightarrow> i < length f \<and> f ! i = hd frames ! i"
  by (auto simp: bytes_equal_at_def list_all_iff split: list.splits if_splits)

lemma common_prefix_loop_shared:
  "prefix \<le> i \<Longrightarrow> i < common_prefix_loop frames limit prefix \<Longrightarrow> bytes_equal_at frames i \<noteq> None"
proof (induction frames limit prefix rule: common_prefix_loop.induct)
  case (1 frames limit prefix)
  from "1.prems"(2) have unfolded: "i < (if prefix < limit \<and> bytes_equal_at frames prefix \<noteq> None
      then common_prefix_loop frames limit (prefix + 1) else prefix)"
    by (subst (asm) common_prefix_loop.simps)
  with "1.prems"(1) have go: "prefix < limit \<and> bytes_equal_at frames prefix \<noteq> None" by (auto split: if_splits)
  show ?case
  proof (cases "prefix = i")
    case False
    with "1.IH" [OF go] unfolded "1.prems"(1) go show ?thesis by simp
  qed (use go in simp)
qed

lemma common_prefix_shared:
  assumes "i < compute_common_prefix_length frames k" and "f \<in> set frames"
  shows "i < length f \<and> f ! i = hd frames ! i"
  using bytes_equal_at_hd [OF common_prefix_loop_shared assms(2)] assms(1)
  by (auto simp: compute_common_prefix_length_def)


lemma read_length_le_eq: "read_length_le index v bs = read_le_loop index v bs"
  by (induction bs arbitrary: index v) (simp_all add: byte_to_u64_def kBitsPerByte_def)

lemma read_length_be_eq: "read_length_be v bs = read_be_loop v bs"
  by (induction bs arbitrary: v) (simp_all add: byte_to_u64_def kBitsPerByte_def)

lemma read_length_value_eq:
  "w < 256 \<Longrightarrow> read_length_value frame off w bo = read_unsigned_scalar_unchecked bo (subspan off w frame)"
  by (simp add: read_length_value_def read_unsigned_scalar_unchecked_def read_length_le_eq read_length_be_eq
      split: byte_order.split)

subsection \<open>The draft reads every sample\<close>

lemma subspan_one: "off < length frame \<Longrightarrow> subspan off (Suc 0) frame = [frame ! off]"
  by (simp add: subspan_def take_Suc hd_drop_conv_nth)

lemma expected_step:
  assumes "off < length frame" "frame ! off = b"
  shows "draft_step frame (expected_byte_field name b) (off, vals) = Some (Suc off, vals(name \<mapsto> ucast b))"
  using assms by (simp add: draft_step_def expected_byte_field_def default_field_definition_def subspan_one
      read_unsigned_scalar_unchecked_def byte_to_u64_def)

lemma run_prefix_fields:
  assumes "\<And>i. i < n \<Longrightarrow> i < length frame \<and> frame ! i = hd frames ! i"
  shows "\<exists>vals'. draft_run frame (prefix_fields frames n) (0, vals) = Some (n, vals')"
  using assms
proof (induction n)
  case 0
  show ?case by (simp add: prefix_fields_def)
next
  case (Suc n)
  then obtain vals' where "draft_run frame (prefix_fields frames n) (0, vals) = Some (n, vals')" by auto
  with Suc.prems [of n] show ?case by (simp add: prefix_fields_def draft_run_append expected_step)
qed

lemma ascii_text_bytes: "(0x20 :: u8) \<le> b \<and> b \<le> 0x7E \<Longrightarrow> unat b < 128"
  by (simp add: word_le_nat_alt)

lemma varying_step:
  assumes "position < run_end" "run_end \<le> length frame" "frame \<in> set frames"
  shows "\<exists>vals'. draft_step frame (fst (varying_field frames position run_end names)) (position, vals) =
    Some (run_end, vals')"
proof -
  have "list_all (\<lambda>b. unat b < 128) (subspan position (run_end - position) frame)"
    if "region_is_ascii_text frames position run_end"
    using that assms(3) unfolding region_is_ascii_text_def list_all_iff by (blast intro: ascii_text_bytes)
  with assms show ?thesis
    by (auto simp: varying_field_def draft_step_def default_field_definition_def Let_def)
qed

lemma run_fixed_region:
  assumes "position \<le> end_at" "end_at \<le> length frame" "frame \<in> set frames"
  shows "\<exists>vals'. draft_run frame (fixed_region_fields frames position end_at names) (position, vals) =
    Some (end_at, vals')"
  using assms
proof (induction frames position end_at names arbitrary: vals rule: fixed_region_fields.induct)
  case (1 frames position end_at names)
  show ?case
  proof (cases "position < end_at")
    case False
    with "1.prems" show ?thesis by (subst fixed_region_fields.simps) simp
  next
    case True
    show ?thesis
    proof (cases "bytes_equal_at frames position")
      case (Some b)
      from bytes_equal_at_Some [OF Some "1.prems"(3)] have step: "draft_step frame
          (expected_byte_field (''fixed_'' @ decimal position) b) (position, vals) =
          Some (Suc position, vals(''fixed_'' @ decimal position \<mapsto> ucast b))"
        by (intro expected_step) simp_all
      from "1.IH"(2) [OF True Some] True "1.prems" step show ?thesis
        by (subst fixed_region_fields.simps) (simp add: Some)
    next
      case None
      let ?run = "run_end_loop frames end_at (position + 1)"
      have run: "position < ?run" "?run \<le> end_at"
        using True run_end_ge [of "position + 1" frames end_at] run_end_le [of "position + 1" end_at frames] by simp_all
      obtain f names' where f: "varying_field frames position ?run names = (f, names')" by fastforce
      from varying_step [OF run(1) _ "1.prems"(3), of names vals] run "1.prems" f obtain vals' where
        step: "draft_step frame f (position, vals) = Some (?run, vals')" by auto
      from "1.IH"(1) [OF True None refl f [symmetric] refl run(2) "1.prems"(2,3)] step True f None show ?thesis
        by (subst fixed_region_fields.simps) simp
    qed
  qed
qed


lemma infer_length_field_sound:
  assumes "infer_length_field frames n options = Some lf" and "dop_max_length_field_width_bytes options \<le> 8"
  shows "n \<le> lfi_offset lf \<and> lfi_offset lf + lfi_width_bytes lf \<le> min_frame_size frames \<and>
    1 \<le> lfi_width_bytes lf \<and> lfi_width_bytes lf \<le> 8 \<and>
    (\<forall>f\<in>set frames.
       lfi_offset lf + lfi_width_bytes lf + lfi_trailing_fixed_bytes lf \<le> length f \<and>
       read_unsigned_scalar_unchecked (lfi_byte_order lf) (subspan (lfi_offset lf) (lfi_width_bytes lf) f) =
         word_of_nat (length f - lfi_offset lf - lfi_width_bytes lf - lfi_trailing_fixed_bytes lf))"
proof -
  from assms(1) obtain max_offset off w bo tr where
    found: "find (\<lambda>(offset, width_bytes, bo, trailing). length_field_holds frames offset width_bytes bo trailing)
      (length_field_candidates (min_frame_size frames) n max_offset (dop_max_length_field_width_bytes options)) =
      Some (off, w, bo, tr)"
    and lf: "lf = \<lparr>lfi_offset = off, lfi_width_bytes = w mod 256, lfi_byte_order = bo, lfi_trailing_fixed_bytes = tr\<rparr>"
    by (auto simp: infer_length_field_def Let_def split: if_splits option.splits)
  let ?c = "length_field_candidates (min_frame_size frames) n max_offset (dop_max_length_field_width_bytes options)"
  from found obtain i where i: "i < length ?c" "?c ! i = (off, w, bo, tr)"
    and "case ?c ! i of (offset, width_bytes, bo, trailing) \<Rightarrow> length_field_holds frames offset width_bytes bo trailing"
    unfolding find_Some_iff by metis
  hence holds: "length_field_holds frames off w bo tr" by simp
  from i have member: "(off, w, bo, tr) \<in> set ?c" by (metis nth_mem)
  from member assms(2) have "n \<le> off" "1 \<le> w" "w \<le> 8" "off + w \<le> min_frame_size frames"
    by (auto simp: length_field_candidates_def split: if_splits)
  with holds lf show ?thesis by (auto simp: length_field_holds_def list_all_iff read_length_value_eq)
qed

lemma run_length_part:
  assumes infer: "infer_length_field frames n options = Some lf"
    and width: "dop_max_length_field_width_bytes options \<le> 8"
    and frame: "frame \<in> set frames" "length frame \<le> SIZE_MAX"
  shows "\<exists>vals'. draft_run frame ([length_definition lf, payload_definition] @
      (if lfi_trailing_fixed_bytes lf > 0 then [trailer_definition (lfi_trailing_fixed_bytes lf)] else []))
    (lfi_offset lf, vals) = Some (length frame, vals')"
proof -
  let ?k = "length frame - lfi_offset lf - lfi_width_bytes lf - lfi_trailing_fixed_bytes lf"
  from infer_length_field_sound [OF infer width] frame(1) have
    fits: "lfi_offset lf + lfi_width_bytes lf + lfi_trailing_fixed_bytes lf \<le> length frame"
    and v: "read_unsigned_scalar_unchecked (lfi_byte_order lf)
      (subspan (lfi_offset lf) (lfi_width_bytes lf) frame) = word_of_nat ?k"
    by blast+
  have k: "unat (word_of_nat ?k :: u64) = ?k"
    using frame(2) by (intro unat_word_of_nat) (simp add: SIZE_MAX_def)
  have "draft_step frame (length_definition lf) (lfi_offset lf, vals) =
      Some (lfi_offset lf + lfi_width_bytes lf, vals(''length'' \<mapsto> word_of_nat ?k))"
    using fits v by (simp add: draft_step_def length_definition_def default_field_definition_def)
  moreover have "draft_step frame payload_definition
      (lfi_offset lf + lfi_width_bytes lf, vals(''length'' \<mapsto> word_of_nat ?k)) =
      Some (length frame - lfi_trailing_fixed_bytes lf, vals(''length'' \<mapsto> word_of_nat ?k))"
    using fits k by (simp add: draft_step_def payload_definition_def default_field_definition_def)
  moreover have "draft_step frame (trailer_definition (lfi_trailing_fixed_bytes lf))
      (length frame - lfi_trailing_fixed_bytes lf, w) = Some (length frame, w)" for w
    using fits by (simp add: draft_step_def trailer_definition_def default_field_definition_def)
  ultimately show ?thesis using fits by simp
qed

text \<open>The draft of a cluster reads each of its frames to the end, or leaves the rest the draft allows.\<close>

lemma discovered_draft_reads_samples:
  assumes frame: "frame \<in> set frames" "length frame \<le> SIZE_MAX"
    and width: "dop_max_length_field_width_bytes options \<le> 8"
    and message: "message = dsm_draft_message (discover_message frames ordinal options)"
  shows "\<exists>end_at vals. draft_run frame (md_fields message) (0, Map.empty) = Some (end_at, vals) \<and>
    (end_at = length frame \<or> md_allow_trailing_bytes message)"
proof -
  let ?n = "compute_common_prefix_length frames (dop_max_common_prefix_bytes options)"
  have n: "?n \<le> min_frame_size frames"
  proof -
    have "common_prefix_loop frames limit prefix \<le> max limit prefix" for limit prefix
      by (induction frames limit prefix rule: common_prefix_loop.induct) (subst common_prefix_loop.simps, auto)
    from this [of "min (min_frame_size frames) (dop_max_common_prefix_bytes options)" 0] show ?thesis
      by (simp add: compute_common_prefix_length_def)
  qed
  note shared = common_prefix_shared [OF _ frame(1), of _ "dop_max_common_prefix_bytes options"]
  obtain vals where prefix_run: "draft_run frame (prefix_fields frames ?n) (0, Map.empty) = Some (?n, vals)"
    using run_prefix_fields [of ?n frame frames Map.empty] shared by blast
  have short: "min_frame_size frames \<le> length frame" by (rule min_frame_size_le [OF frame(1)])
  show ?thesis
  proof (cases "min_frame_size frames \<noteq> max_frame_size frames")
    case False
    with short max_frame_size_ge [OF frame(1)] have "max_frame_size frames = length frame" by simp
    with False n short run_fixed_region [of ?n "length frame" frame frames initial_names vals] frame(1) prefix_run message
    show ?thesis by (auto simp: discover_message_def draft_fields_def draft_run_append Let_def)
  next
    case True
    show ?thesis
    proof (cases "infer_length_field frames ?n options")
      case None
      with True n short run_fixed_region [of ?n "min_frame_size frames" frame frames initial_names vals] frame(1)
        prefix_run message
      show ?thesis by (auto simp: discover_message_def draft_fields_def draft_run_append Let_def)
    next
      case (Some lf)
      from infer_length_field_sound [OF Some width] short have
        "?n \<le> lfi_offset lf" "lfi_offset lf \<le> length frame" by simp_all
      from run_fixed_region [OF this frame(1), of initial_names vals] obtain vals' where
        "draft_run frame (fixed_region_fields frames ?n (lfi_offset lf) initial_names) (?n, vals) =
         Some (lfi_offset lf, vals')" by blast
      moreover obtain vals'' where "draft_run frame ([length_definition lf, payload_definition] @
          (if lfi_trailing_fixed_bytes lf > 0 then [trailer_definition (lfi_trailing_fixed_bytes lf)] else []))
        (lfi_offset lf, vals') = Some (length frame, vals'')"
        using run_length_part [OF Some width frame] by blast
      ultimately show ?thesis using True Some prefix_run message
        by (simp add: discover_message_def draft_fields_def draft_run_append [of _ "prefix_fields frames ?n"]
          draft_run_append [of _ "fixed_region_fields frames ?n (lfi_offset lf) initial_names"] Let_def
          del: draft_run.simps append_Cons)
    qed
  qed
qed

end
