(* ===== verification/Discovery_Compiled.thy ===== *)
theory Discovery_Compiled
  imports Discovery_Properties
begin

text \<open>
  Discovery end to end: a draft of unsigned, string and bytes fields is followed through the schema compiler and the
  decoder, so that reading a frame by the draft is decoding it with the compiled draft.
\<close>

subsection \<open>Compiling the fields of a draft\<close>

definition draft_field :: "field_definition \<Rightarrow> bool" where
  "draft_field f \<longleftrightarrow>
     (fd_kind f = KUnsigned \<or> fd_kind f = KString \<or> fd_kind f = KBytes) \<and> fd_string_encoding f = Ascii \<and>
     (fd_kind f = KString \<longrightarrow> fd_size_from_field f = '''') \<and>
     fd_alignment f = 1 \<and> \<not> fd_is_reserved f \<and> fd_fixed_count f = 0 \<and> fd_count_from_field f = '''' \<and>
     fd_tag_from_field f = '''' \<and> fd_bit_fields f = [] \<and> fd_checksum f = None \<and> fd_condition f = None \<and>
     fd_presence f = None \<and> fd_variant_cases f = []"

definition compiled_as :: "(string \<Rightarrow> nat option) \<Rightarrow> nat \<Rightarrow> field_definition \<Rightarrow> compiled_field \<Rightarrow> bool" where
  "compiled_as ids k f cf \<longleftrightarrow>
     cf_id cf = k \<and> cf_kind cf = fd_kind f \<and> cf_width_bytes cf = fd_width_bytes f \<and>
     cf_byte_order cf = fd_byte_order f \<and> cf_string_encoding cf = Ascii \<and> cf_fixed_size cf = fd_fixed_size f \<and>
     cf_alignment cf = 1 \<and> \<not> cf_is_reserved cf \<and> \<not> cf_has_condition cf \<and> \<not> cf_has_presence cf \<and>
     cf_has_expected_unsigned cf = fd_has_expected_unsigned f \<and>
     cf_expected_unsigned cf = fd_expected_unsigned f \<and>
     (if fd_kind f = KUnsigned then is_valid_scalar_width (fd_width_bytes f)
      else \<not> fd_has_expected_unsigned f \<and> (cf_dynamic_size cf \<longleftrightarrow> fd_size_from_field f \<noteq> '''') \<and>
        (fd_size_from_field f \<noteq> '''' \<longrightarrow> ids (fd_size_from_field f) = Some (cf_size_from_field cf)))"

text \<open>The least size of a field.\<close>

definition static_size :: "field_definition \<Rightarrow> nat" where
  "static_size f =
     (if fd_kind f = KUnsigned then fd_width_bytes f
      else if fd_size_from_field f = '''' then fd_fixed_size f else 0)"

definition ids_valid :: "layout_state \<Rightarrow> bool" where
  "ids_valid ls \<longleftrightarrow>
     (\<forall>n i. ls_field_ids ls n = Some i \<longrightarrow> i < length (ls_fields ls)) \<and>
     (\<forall>i<length (ls_fields ls). cf_id (ls_fields ls ! i) = i)"

definition ids_ok :: "layout_state \<Rightarrow> bool" where
  "ids_ok ls \<longleftrightarrow> dom (ls_field_ids ls) = ls_field_names ls \<and> ids_valid ls"

lemma numeric_field_id:
  "numeric_field ls name e e' = Inr cf \<Longrightarrow> ids_valid ls \<Longrightarrow> ls_field_ids ls name = Some (cf_id cf)"
  by (auto simp: numeric_field_def ids_valid_def Let_def split: option.splits if_splits)

lemma initial_draft_field:
  "draft_field f \<Longrightarrow> initial_compiled_field k f = default_compiled_field\<lparr>
     cf_id := k, cf_name := fd_name f, cf_kind := fd_kind f, cf_width_bytes := fd_width_bytes f,
     cf_byte_order := fd_byte_order f, cf_fixed_size := fd_fixed_size f,
     cf_reserved_fill_byte := fd_reserved_fill_byte f, cf_has_expected_unsigned := fd_has_expected_unsigned f,
     cf_expected_unsigned := fd_expected_unsigned f, cf_enum_values := fd_enum_values f\<rparr>"
  by (simp add: initial_compiled_field_def draft_field_def default_compiled_field_def)

lemma compile_bytes_draft:
  assumes "compile_bytes_field ls f cf0 = Inr (cf, fixed)" "ids_valid ls"
  shows "\<not> fd_has_expected_unsigned f \<and>
    (if fd_size_from_field f = '''' then cf = cf0
     else \<exists>i. ls_field_ids ls (fd_size_from_field f) = Some i \<and> cf = cf0\<lparr>cf_dynamic_size := True, cf_size_from_field := i\<rparr>)"
proof (cases "fd_size_from_field f = ''''")
  case True
  with assms show ?thesis by (auto simp: compile_bytes_field_def split: if_split_asm)
next
  case False
  with assms(1) obtain d where "numeric_field ls (fd_size_from_field f) (CE_Bytes IR_SizeFromUnknown) (CE_Bytes IR_SizeFromKind) = Inr d"
    "cf = cf0\<lparr>cf_dynamic_size := True, cf_size_from_field := cf_id d\<rparr>" "\<not> fd_has_expected_unsigned f"
    by (auto simp: compile_bytes_field_def bind_res_Inr_iff split: if_split_asm)
  with False numeric_field_id [OF _ assms(2)] show ?thesis by auto
qed

lemma compile_kind_draft:
  assumes compiled: "compile_field_kind env cst ls f (initial_compiled_field k f) st = Inr (cf, fixed, st')"
    and draft: "draft_field f" and ids: "ids_valid ls"
  shows "compiled_as (ls_field_ids ls) k f cf \<and> st' = st \<and> \<not> is_conditionally_present cf \<and>
    minimum_size_contribution cf = static_size f"
proof -
  let ?cf = "initial_compiled_field k f"
  from draft consider (num) "fd_kind f = KUnsigned" | (raw) "fd_kind f = KString \<or> fd_kind f = KBytes"
    by (auto simp: draft_field_def)
  thus ?thesis
  proof cases
    case num
    with compiled have "cf = ?cf" "st' = st" "is_valid_scalar_width (fd_width_bytes f)"
      by (auto simp: compile_field_kind_def compile_scalar_field_def initial_draft_field [OF draft]
          bind_res_Inr_iff split: if_split_asm)
    with num draft show ?thesis
      by (simp add: compiled_as_def initial_draft_field [OF draft] default_compiled_field_def
          is_conditionally_present_def minimum_size_contribution_def static_size_def)
  next
    case raw
    with compiled have cf: "compile_bytes_field ls f ?cf = Inr (cf, fixed)" and st: "st' = st"
      by (auto simp: compile_field_kind_def initial_draft_field [OF draft] bind_res_Inr_iff)
    from compile_bytes_draft [OF cf ids] raw draft st show ?thesis
      by (auto simp: compiled_as_def initial_draft_field [OF draft] default_compiled_field_def
          is_conditionally_present_def minimum_size_contribution_def static_size_def split: if_split_asm)
  qed
qed

lemma compile_field_draft:
  assumes "compile_field env cst (length (ls_fields ls)) f (ls, st) = Inr (ls', st')" "draft_field f" "ids_ok ls"
  shows "\<exists>cf. ls_fields ls' = ls_fields ls @ [cf] \<and> compiled_as (ls_field_ids ls) (length (ls_fields ls)) f cf \<and>
    ls_field_ids ls' = (ls_field_ids ls)(fd_name f \<mapsto> length (ls_fields ls)) \<and> ids_ok ls' \<and>
    ls_pending ls' = ls_pending ls \<and> ls_field_ids ls (fd_name f) = None \<and>
    ls_minimum_size ls' \<le> ls_minimum_size ls + static_size f"
proof -
  let ?ls = "ls\<lparr>ls_field_names := insert (fd_name f) (ls_field_names ls)\<rparr>"
  let ?k = "length (ls_fields ls)"
  have same: "compile_condition ls f cff = Inr cff" "compile_presence ls f cff = Inr cff" for ls cff
    using assms(2) by (cases cff; simp add: compile_condition_def compile_presence_def draft_field_def)+
  from assms(1) have new: "fd_name f \<notin> ls_field_names ls" by (auto simp: compile_field_def split: if_splits)
  from assms(1) obtain cf fixed where
    kind: "compile_field_kind env cst ?ls f (initial_compiled_field ?k f) st = Inr (cf, fixed, st')"
    and place: "place_field env f cf fixed ?ls = Inr ls'"
    by (auto simp: compile_field_def Let_def bind_res_Inr_iff same split: if_splits)
  have "ids_valid ?ls" using assms(3) by (simp add: ids_ok_def ids_valid_def)
  from compile_kind_draft [OF kind assms(2) this] have
    cf: "compiled_as (ls_field_ids ls) ?k f cf" "\<not> is_conditionally_present cf"
      "minimum_size_contribution cf = static_size f" by simp_all
  from new assms(3) have free: "ls_field_ids ls (fd_name f) = None" by (auto simp: ids_ok_def)
  from cf(1) have id: "cf_id cf = ?k" "cf_alignment cf = 1" by (simp_all add: compiled_as_def)
  from place assms(2) have ls': "ls' = (account_field f cf fixed ?ls)\<lparr>ls_fields := ls_fields ls @ [cf]\<rparr>"
    by (auto simp: place_field_def Let_def bind_res_Inr_iff draft_field_def compile_field_checksum_def
        account_field_def)
  show ?thesis
    using assms(3) free id cf unfolding ls'
    by (auto simp: account_field_def Let_def ids_ok_def ids_valid_def emplace_def align_up_def nth_append wrap_size_def less_Suc_eq)
qed

fun draft_compiled ::
  "(string \<Rightarrow> nat option) \<Rightarrow> nat \<Rightarrow> field_definition list \<Rightarrow> compiled_field list \<Rightarrow> bool" where
  "draft_compiled ids k [] [] = True"
| "draft_compiled ids k (f # fs) (cf # cfs) =
     (compiled_as ids k f cf \<and> ids (fd_name f) = None \<and> draft_compiled (ids(fd_name f \<mapsto> k)) (Suc k) fs cfs)"
| "draft_compiled ids k _ _ = False"

lemma draft_compiled_length: "draft_compiled ids k fs cfs \<Longrightarrow> length cfs = length fs"
  by (induction ids k fs cfs rule: draft_compiled.induct) auto

lemma compile_fields_draft:
  assumes "compile_fields env cst (length (ls_fields ls)) fs (ls, st) = Inr (ls', st')"
    and "\<forall>f\<in>set fs. draft_field f" and "ids_ok ls"
  shows "\<exists>cfs. ls_fields ls' = ls_fields ls @ cfs \<and>
    draft_compiled (ls_field_ids ls) (length (ls_fields ls)) fs cfs \<and> ls_pending ls' = ls_pending ls \<and>
    ls_minimum_size ls' \<le> ls_minimum_size ls + sum_list (map static_size fs)"
  using assms
proof (induction fs arbitrary: ls st)
  case (Cons f fs)
  from Cons.prems(1) obtain ls1 st1 where
    step: "compile_field env cst (length (ls_fields ls)) f (ls, st) = Inr (ls1, st1)"
    and rest: "compile_fields env cst (length (ls_fields ls) + 1) fs (ls1, st1) = Inr (ls', st')"
    by (auto simp: bind_res_Inr_iff)
  from compile_field_draft [OF step] Cons.prems(2,3) obtain cf where
    cf: "ls_fields ls1 = ls_fields ls @ [cf]" "compiled_as (ls_field_ids ls) (length (ls_fields ls)) f cf"
      "ls_field_ids ls1 = (ls_field_ids ls)(fd_name f \<mapsto> length (ls_fields ls))" "ids_ok ls1"
      "ls_pending ls1 = ls_pending ls" "ls_field_ids ls (fd_name f) = None"
      "ls_minimum_size ls1 \<le> ls_minimum_size ls + static_size f"
    by auto
  from Cons.IH [of ls1 st1] rest Cons.prems(2) cf obtain cfs where
    "ls_fields ls' = ls_fields ls1 @ cfs" "draft_compiled (ls_field_ids ls1) (length (ls_fields ls1)) fs cfs"
    "ls_pending ls' = ls_pending ls1" "ls_minimum_size ls' \<le> ls_minimum_size ls1 + sum_list (map static_size fs)"
    by (auto simp del: fun_upd_apply)
  with cf show ?case by (intro exI [of _ "cf # cfs"]) simp
qed simp

subsection \<open>Decoding with the compiled draft\<close>

definition linked :: "(string \<Rightarrow> nat option) \<Rightarrow> (string \<Rightarrow> u64 option) \<Rightarrow> decoded_message \<Rightarrow> bool" where
  "linked ids vals m \<longleftrightarrow>
     (\<forall>name v. vals name = Some v \<longrightarrow> (\<exists>i. ids name = Some i \<and> raw_unsigned m i = Some v))"

lemma raw_unsigned_set_field:
  "raw_unsigned (set_field k pr r v m) i =
     (if i = k then (case dm_field_definition m k of
          None \<Rightarrow> None | Some f \<Rightarrow> if cf_kind f = KUnsigned \<or> cf_kind f = KEnum then v else None)
      else raw_unsigned m i)"
  by (auto simp: raw_unsigned_def cached_scalar_raw_def dm_field_definition_def is_scalar_def split: option.split)

text \<open>A SIMD ASCII check that is right on every span.\<close>

definition ascii_ok :: "simd_ops \<Rightarrow> bool" where
  "ascii_ok ops \<longleftrightarrow> (\<forall>bs. list_all (\<lambda>b. unat b < 128) bs \<longrightarrow> so_ascii ops bs)"

lemma ascii_ok_validates:
  "ascii_ok ops \<Longrightarrow> list_all (\<lambda>b. unat b < 128) bs \<Longrightarrow> runtime_validate_string ops Ascii bs"
  by (simp add: runtime_validate_string_def runtime_is_valid_ascii_def ascii_ok_def is_valid_ascii_iff list_all_iff)

lemma decode_draft_field:
  assumes cf: "compiled_as ids k f cf" and draft: "draft_field f" and new: "ids (fd_name f) = None"
    and below: "\<forall>name i. ids name = Some i \<longrightarrow> i < k"
    and read: "draft_step frame f (off, vals) = Some (off', vals')"
    and link: "linked ids vals m" and def: "dm_field_definition m k = Some cf" and cache: "dm_cache m k = None"
    and size: "length frame \<le> SIZE_MAX" and ops: "ascii_ok ops"
  shows "\<exists>r v. decode_field ops nested p frame cf (m, off) = Inr (set_field k True r v m, off') \<and>
    linked (ids(fd_name f \<mapsto> k)) vals' (set_field k True r v m) \<and> off + static_size f \<le> off' \<and> off' \<le> length frame"
proof -
  have id: "cf_id cf = k" using cf by (simp add: compiled_as_def)
  have go: "decode_field ops nested p frame cf (m, off) = Inr (set_field k True r v m, fst r + snd r)"
    if "field_step ops nested p frame m off cf True r v" for r v
    using decode_field_iff [of m cf frame ops nested p off] def cache size that unfolding id by blast
  have modifiers: "condition_matches m cf \<and> presence_matches m cf"
    using cf by (simp add: compiled_as_def condition_matches_def presence_matches_def)
  have align: "align_up off (cf_alignment cf) = off" using cf by (simp add: compiled_as_def align_up_def)
  have others: "linked (ids(fd_name f \<mapsto> k)) vals (set_field k True r v m)" for r v
    using link below new by (fastforce simp: linked_def raw_unsigned_set_field)
  from draft consider (num) "fd_kind f = KUnsigned" | (str) "fd_kind f = KString" | (raw) "fd_kind f = KBytes"
    by (auto simp: draft_field_def)
  thus ?thesis
  proof cases
    case num
    let ?w = "fd_width_bytes f"
    let ?v = "read_unsigned_scalar_unchecked (fd_byte_order f) (subspan off ?w frame)"
    have kind: "cf_kind cf = KUnsigned" "is_scalar cf" "supports_eager_scalar_cache cf" "cf_width_bytes cf = ?w"
      "1 \<le> ?w" "?w \<le> 8"
      using cf num by (auto simp: compiled_as_def is_scalar_def supports_eager_scalar_cache_def
          is_valid_scalar_width_def kMaxScalarWidthBytes_def)
    from read num have out: "off' = off + ?w" "vals' = vals(fd_name f \<mapsto> ?v)" "off + ?w \<le> length frame"
      "fd_has_expected_unsigned f \<longrightarrow> ?v = fd_expected_unsigned f"
      by (auto simp: draft_step_def Let_def split: if_split_asm)
    have "read_unsigned_scalar (subspan off ?w frame) (cf_byte_order cf) = Some ?v"
      using kind out cf by (simp add: read_unsigned_scalar_def span_simps kMaxScalarWidthBytes_def compiled_as_def)
    hence "field_step ops nested p frame m off cf True (off, ?w) (Some ?v)"
      unfolding field_step_def using modifiers align kind out cf
      by (simp add: decode_field_size_scalar compiled_as_def)
    moreover have "linked (ids(fd_name f \<mapsto> k)) vals' (set_field k True (off, ?w) (Some ?v) m)"
      unfolding linked_def
    proof (intro allI impI)
      fix name v assume v: "vals' name = Some v"
      show "\<exists>i. (ids(fd_name f \<mapsto> k)) name = Some i \<and>
          raw_unsigned (set_field k True (off, ?w) (Some ?v) m) i = Some v"
      proof (cases "name = fd_name f")
        case True
        with v out(2) def kind(1) show ?thesis by (simp add: raw_unsigned_set_field)
      next
        case False
        with v out(2) have "vals name = Some v" by simp
        with others show ?thesis unfolding linked_def by blast
      qed
    qed
    ultimately show ?thesis using go out num by (fastforce simp: static_size_def)
  next
    case str
    from read str have out: "off' = off + fd_fixed_size f" "vals' = vals" "off + fd_fixed_size f \<le> length frame"
      "list_all (\<lambda>b. unat b < 128) (subspan off (fd_fixed_size f) frame)"
      by (auto simp: draft_step_def split: if_split_asm)
    have kind: "cf_kind cf = KString" "\<not> is_scalar cf" "decode_field_size nested p frame m cf off = Inr (fd_fixed_size f)"
      using cf str draft by (auto simp: compiled_as_def is_scalar_def decode_field_size_def draft_field_def)
    have "field_step ops nested p frame m off cf True (off, fd_fixed_size f) None"
      unfolding field_step_def using modifiers align kind out cf str ascii_ok_validates [OF ops out(4)]
      by (simp add: compiled_as_def supports_eager_scalar_cache_def)
    from go [OF this] others [of "(off, fd_fixed_size f)" None] out str draft show ?thesis
      by (fastforce simp: static_size_def draft_field_def)
  next
    case raw
    from read raw obtain n where n: "(if fd_size_from_field f = '''' then Some (fd_fixed_size f)
        else map_option unat (vals (fd_size_from_field f))) = Some n"
      and out: "off' = off + n" "vals' = vals" "off + n \<le> length frame"
      by (auto simp: draft_step_def split: option.splits if_split_asm)
    have kind: "cf_kind cf = KBytes" "\<not> is_scalar cf" "cf_dynamic_size cf \<longleftrightarrow> fd_size_from_field f \<noteq> ''''"
      using cf raw by (auto simp: compiled_as_def is_scalar_def)
    have "decode_field_size nested p frame m cf off = Inr n"
    proof (cases "fd_size_from_field f = ''''")
      case True
      with n kind cf show ?thesis by (simp add: decode_field_size_def compiled_as_def)
    next
      case False
      with n obtain v where v: "vals (fd_size_from_field f) = Some v" "n = unat v" by auto
      from cf raw False have "ids (fd_size_from_field f) = Some (cf_size_from_field cf)" by (simp add: compiled_as_def)
      with link v(1) have "raw_unsigned m (cf_size_from_field cf) = Some v" by (fastforce simp: linked_def)
      with v out kind False show ?thesis by (simp add: decode_field_size_def)
    qed
    with modifiers align kind out cf raw have "field_step ops nested p frame m off cf True (off, n) None"
      by (simp add: field_step_def compiled_as_def supports_eager_scalar_cache_def)
    from go [OF this] others [of "(off, n)" None] out raw n show ?thesis
      by (fastforce simp: static_size_def)
  qed
qed

text \<open>Reading a frame by the draft is decoding it with the compiled fields.\<close>

lemma decode_draft_fields:
  assumes "draft_compiled ids k fs cfs" and "\<forall>f\<in>set fs. draft_field f"
    and "\<forall>name i. ids name = Some i \<longrightarrow> i < k"
    and "draft_run frame fs (off, vals) = Some (off', vals')" and "off \<le> length frame"
    and "linked ids vals m" and "dm_message m = Some l" and "drop k (cm_fields l) = cfs"
    and "\<forall>i\<ge>k. dm_cache m i = None" and "length frame \<le> SIZE_MAX" and "ascii_ok ops"
  shows "\<exists>m'. decode_fields ops nested p frame cfs (m, off) = Inr (m', off') \<and>
    off + sum_list (map static_size fs) \<le> off' \<and> off' \<le> length frame"
  using assms
proof (induction ids k fs cfs arbitrary: off vals m rule: draft_compiled.induct)
  case (2 ids k f fs cf cfs)
  from "2.prems"(4) obtain off1 vals1 where step: "draft_step frame f (off, vals) = Some (off1, vals1)"
    and run: "draft_run frame fs (off1, vals1) = Some (off', vals')" by (auto simp: bind_eq_Some_conv)
  have k: "k < length (cm_fields l)" "cm_fields l ! k = cf"
    using "2.prems"(8) by (metis drop_eq_Nil list.distinct(1) not_le, metis hd_drop_conv_nth drop_eq_Nil list.distinct(1) list.sel(1) not_le)
  hence def: "dm_field_definition m k = Some cf" using "2.prems"(7) by (simp add: dm_field_definition_def)
  from decode_draft_field [OF _ _ _ "2.prems"(3) step "2.prems"(6) def _ "2.prems"(10,11), of nested p] "2.prems" obtain r v
    where field: "decode_field ops nested p frame cf (m, off) = Inr (set_field k True r v m, off1)"
      "linked (ids(fd_name f \<mapsto> k)) vals1 (set_field k True r v m)" "off + static_size f \<le> off1" "off1 \<le> length frame"
    by auto
  have "drop (Suc k) (cm_fields l) = cfs" using "2.prems"(8) by (metis drop_Suc list.sel(3) tl_drop)
  moreover have "\<forall>name i. (ids(fd_name f \<mapsto> k)) name = Some i \<longrightarrow> i < Suc k"
    using "2.prems"(3) by (auto simp: less_Suc_eq)
  moreover have "\<forall>i\<ge>Suc k. dm_cache (set_field k True r v m) i = None" using "2.prems"(9) by simp
  ultimately obtain m' where "decode_fields ops nested p frame cfs (set_field k True r v m, off1) = Inr (m', off')"
    "off1 + sum_list (map static_size fs) \<le> off'" "off' \<le> length frame"
    using "2.IH" [OF _ _ _ run field(4,2)] "2.prems" by (auto simp del: fun_upd_apply set_field_simps(3))
  with field show ?case by auto
qed auto

subsection \<open>The draft fields of a discovered message\<close>

lemma draft_field_default:
  assumes "f = default_field_definition\<lparr>fd_name := nm, fd_kind := kd, fd_width_bytes := w, fd_byte_order := bo,
      fd_string_encoding := Ascii, fd_fixed_size := fs, fd_size_from_field := sf, fd_has_expected_unsigned := he,
      fd_expected_unsigned := ex\<rparr>"
    and "kd = KUnsigned \<or> kd = KString \<and> sf = '''' \<or> kd = KBytes"
  shows "draft_field f"
  using assms by (auto simp: draft_field_def default_field_definition_def)

lemma region_draft_fields: "f \<in> set (fixed_region_fields frames position end_at names) \<Longrightarrow> draft_field f"
proof (induction frames position end_at names rule: fixed_region_fields.induct)
  case (1 frames position end_at names)
  have expected: "draft_field (expected_byte_field nm b)" for nm b
    by (simp add: expected_byte_field_def draft_field_def default_field_definition_def)
  have varying: "draft_field (fst (varying_field frames position run names))" for run
    by (simp add: varying_field_def draft_field_def default_field_definition_def)
  show ?case
  proof (cases "position < end_at")
    case False
    with "1.prems" show ?thesis by (subst (asm) fixed_region_fields.simps) simp
  next
    case True
    show ?thesis
    proof (cases "bytes_equal_at frames position")
      case (Some b)
      with "1.prems" True have "f = expected_byte_field (''fixed_'' @ decimal position) b \<or>
          f \<in> set (fixed_region_fields frames (position + 1) end_at names)"
        by (subst (asm) fixed_region_fields.simps) simp
      with "1.IH"(2) [OF True Some] expected show ?thesis by blast
    next
      case None
      let ?run = "run_end_loop frames end_at (position + 1)"
      obtain g names' where g: "varying_field frames position ?run names = (g, names')" by fastforce
      with "1.prems" True None have "f = g \<or> f \<in> set (fixed_region_fields frames ?run end_at names')"
        by (subst (asm) fixed_region_fields.simps) simp
      with "1.IH"(1) [OF True None refl g [symmetric] refl] varying [of ?run] g show ?thesis by auto
    qed
  qed
qed

lemma discovered_draft_fields:
  "f \<in> set (md_fields (dsm_draft_message (discover_message frames ordinal options))) \<Longrightarrow> draft_field f"
  by (auto simp: discover_message_def draft_fields_def prefix_fields_def expected_byte_field_def Let_def
      length_definition_def payload_definition_def trailer_definition_def draft_field_def
      default_field_definition_def dest!: region_draft_fields [unfolded draft_field_def]
      split: option.splits if_split_asm)

subsection \<open>The compiled messages\<close>

lemma compile_messages_nth:
  assumes "compile_messages env fuel ms st = Inr (cs, st')" and "i < length ms"
  shows "i < length cs \<and> (\<exists>st1 st2. compile_layout env (compile_struct env fuel) (md_name (ms ! i)) (md_fields (ms ! i))
    (md_validations (ms ! i)) (md_allow_trailing_bytes (ms ! i)) st1 = Inr (cs ! i, st2))"
  using assms
proof (induction ms arbitrary: i st cs)
  case (Cons m ms)
  from Cons.prems(1) obtain c st1 rest where
    first: "compile_layout env (compile_struct env fuel) (md_name m) (md_fields m) (md_validations m)
      (md_allow_trailing_bytes m) st = Inr (c, st1)"
    and others: "compile_messages env fuel ms st1 = Inr (rest, st')" and cs: "cs = c # rest"
    by (auto simp: bind_res_Inr_iff)
  show ?case
  proof (cases i)
    case 0
    with first cs show ?thesis by auto
  next
    case (Suc j)
    with Cons.IH [OF others, of j] Cons.prems(2) cs show ?thesis by simp
  qed
qed simp

lemma compiled_draft_decodes:
  assumes layout: "compile_layout env cst nm fs [] trailing st = Inr (l, st')"
    and draft: "\<forall>f\<in>set fs. draft_field f"
    and run: "draft_run frame fs (0, Map.empty) = Some (off', vals)" and rest: "off' = length frame \<or> trailing"
    and size: "length frame \<le> SIZE_MAX" and ops: "ascii_ok ops"
  shows "\<exists>m. assign_from_layout ops p l frame None False = Inr (m, off')"
proof -
  from layout obtain ls st1 cs where len: "length fs \<le> kMaxFieldsPerMessage"
    and fields: "compile_fields env cst 0 fs (initial_layout_state, st) = Inr (ls, st1)"
    and checksums: "compile_checksums (ls_field_ids ls) (ls_pending ls) = Inr cs"
    and compiled: "l = make_compiled_message nm (ls_fields ls) (ls_bit_fields ls) cs [] (ls_minimum_size ls)
        (ls_has_fixed_size ls) trailing (ls_dispatch_prefix ls)"
    by (auto simp: compile_layout_def bind_res_Inr_iff not_less split: if_split_asm)
  have "ids_ok initial_layout_state" by (simp add: ids_ok_def ids_valid_def initial_layout_state_def)
  from compile_fields_draft [of env cst initial_layout_state fs st, OF _ draft this] fields obtain cfs where
    cfs: "ls_fields ls = cfs" "draft_compiled Map.empty 0 fs cfs" "ls_pending ls = []"
      "ls_minimum_size ls \<le> sum_list (map static_size fs)"
    by (auto simp: initial_layout_state_def)
  with checksums compiled have l: "cm_fields l = cfs" "cm_checksums l = []" "cm_validations l = []"
    "cm_minimum_size l = ls_minimum_size ls" "cm_allow_trailing_bytes l = trailing"
    by (simp_all add: make_compiled_message_def)
  have count: "length cfs = length fs"
    by (rule draft_compiled_length [OF cfs(2)])
  let ?m0 = "initial_decoded_message p l frame None"
  have "\<exists>m'. decode_fields ops nested p frame cfs (?m0, 0) = Inr (m', off') \<and>
      0 + sum_list (map static_size fs) \<le> off' \<and> off' \<le> length frame" for nested
    by (rule decode_draft_fields [OF cfs(2) draft _ run _ _ _ _ _ size ops, where l = l])
      (simp_all add: linked_def initial_decoded_message_def empty_decoded_message_def l)
  then obtain m' where "decode_fields ops (nested_size ops p (length (cp_structs p))) p frame cfs (?m0, 0) = Inr (m', off')"
    "sum_list (map static_size fs) \<le> off'" "off' \<le> length frame" by auto
  with l cfs(4) len count rest show ?thesis by (auto simp: assign_from_layout_def assign_with_def)
qed

subsection \<open>Every sample is in a cluster\<close>

lemma cluster_insert_kept:
  "f \<in> set (cl_frames (clusters key)) \<Longrightarrow> f \<in> set (cl_frames (fold cluster_insert entries clusters key))"
proof (induction entries arbitrary: clusters)
  case (Cons e entries)
  have "f \<in> set (cl_frames (cluster_insert e clusters key))"
    using Cons.prems by (cases e) (auto simp: cluster_insert_def Let_def)
  from Cons.IH [of "cluster_insert e clusters", OF this] show ?case by simp
qed simp

lemma cluster_insert_all:
  "(i, f) \<in> set entries \<Longrightarrow> f \<in> set (cl_frames (fold cluster_insert entries clusters (hd f)))"
proof (induction entries arbitrary: clusters)
  case (Cons e entries)
  show ?case
  proof (cases "e = (i, f)")
    case True
    have "f \<in> set (cl_frames (cluster_insert (i, f) clusters (hd f)))"
      by (simp add: cluster_insert_def Let_def)
    from cluster_insert_kept [of f "cluster_insert (i, f) clusters", OF this] True show ?thesis by simp
  qed (use Cons in auto)
qed simp

lemma every_frame_clustered:
  assumes "f \<in> set frames"
  shows "\<exists>c\<in>set (cluster_frames frames options). f \<in> set (cl_frames c)"
proof (cases "dop_cluster_by_first_byte options")
  case False
  with assms show ?thesis by (simp add: cluster_frames_def)
next
  case True
  let ?c = "fold cluster_insert (enumerate 0 frames) (\<lambda>_. \<lparr>cl_frames = [], cl_first_index = 0\<rparr>)"
  from assms obtain i where "i < length frames" "frames ! i = f" by (auto simp: in_set_conv_nth)
  hence "(i, f) \<in> set (enumerate 0 frames)" by (simp add: in_set_enumerate_eq)
  from cluster_insert_all [OF this] have member: "f \<in> set (cl_frames (?c (hd f)))" .
  have "?c (hd f) \<in> (\<lambda>key. ?c (word_of_nat key)) ` set [0..<256]"
    using unat_u8_less [of "hd f"] by (intro image_eqI [of _ _ "unat (hd f)"]) simp_all
  with True member show ?thesis by (force simp: cluster_frames_def)
qed

text \<open>C28: the draft of a discovery decodes its samples\<close>

theorem discovered_protocol_decodes_samples:
  assumes "discover_protocol_from_samples reg frames options = Inr report"
    and "dop_max_length_field_width_bytes options \<le> 8"
    and "\<forall>frame\<in>set frames. length frame \<le> SIZE_MAX" and "ascii_ok ops"
  shows "drp_frames_analyzed report + drp_frames_discarded report = length frames \<and>
    (\<exists>p. compile_protocol reg (drp_draft_protocol report) = Inr p \<and>
       cp_fingerprint p = drp_draft_fingerprint report \<and>
       (\<forall>frame\<in>set frames. frame \<noteq> [] \<longrightarrow>
          (\<exists>l\<in>set (cp_messages p). \<exists>m n. assign_from_layout ops p l frame None False = Inr (m, n))))"
proof -
  let ?ne = "filter (\<lambda>frame. frame \<noteq> []) frames"
  let ?cs = "cluster_frames ?ne options"
  define ms where "ms = map (\<lambda>(index, c). discover_message (cl_frames c) index options) (enumerate 0 ?cs)"
  from assms(1) obtain p where p: "compile_protocol reg (drp_draft_protocol report) = Inr p"
    and report: "drp_draft_protocol report = \<lparr>pd_name = dop_protocol_name options, pd_imports = [], pd_enums = [],
        pd_structs = [], pd_messages = map dsm_draft_message ms\<rparr>"
      "drp_draft_fingerprint report = cp_fingerprint p" "drp_frames_analyzed report = length ?ne"
      "drp_frames_discarded report = length (filter (\<lambda>frame. frame = []) frames)"
    by (auto simp: discover_protocol_from_samples_def Let_def ms_def split: if_split_asm sum.split_asm)
  have "\<exists>l\<in>set (cp_messages p). \<exists>m n. assign_from_layout ops p l frame None False = Inr (m, n)"
    if frame: "frame \<in> set frames" "frame \<noteq> []" for frame
  proof -
    from every_frame_clustered [of frame ?ne options] frame obtain c where
      "c \<in> set ?cs" and member: "frame \<in> set (cl_frames c)" by auto
    then obtain i where i: "i < length ?cs" "?cs ! i = c" by (auto simp: in_set_conv_nth)
    hence m: "i < length ms" "ms ! i = discover_message (cl_frames c) i options"
      by (simp_all add: ms_def nth_enumerate_eq)
    let ?d = "dsm_draft_message (discover_message (cl_frames c) i options)"
    obtain end_at vals where run: "draft_run frame (md_fields ?d) (0, Map.empty) = Some (end_at, vals)"
      "end_at = length frame \<or> md_allow_trailing_bytes ?d"
      using discovered_draft_reads_samples [OF member _ assms(2) refl] assms(3) frame(1) by blast
    from compile_protocol_parts [OF p] obtain env fuel st cms st' where
      cms: "compile_messages env fuel (map dsm_draft_message ms) st = Inr (cms, st')" "cp_messages p = cms"
      by (metis report(1) protocol_definition.select_convs(5) make_compiled_protocol_layouts(1))
    from compile_messages_nth [OF cms(1), of i] m obtain st1 st2 where "i < length cms" and
      layout: "compile_layout env (compile_struct env fuel) (md_name ?d) (md_fields ?d) (md_validations ?d)
        (md_allow_trailing_bytes ?d) st1 = Inr (cms ! i, st2)" by auto
    moreover have "md_validations ?d = []" by (simp add: discover_message_def Let_def)
    ultimately have "\<exists>m. assign_from_layout ops p (cms ! i) frame None False = Inr (m, end_at)"
      using compiled_draft_decodes [OF _ _ run _ assms(4)] discovered_draft_fields assms(3) frame(1) by metis
    with cms(2) \<open>i < length cms\<close> show ?thesis by (metis nth_mem)
  qed
  moreover have "length ?ne + length (filter (\<lambda>frame. frame = []) frames) = length frames"
    using sum_length_filter_compl [of "\<lambda>frame. frame \<noteq> []" frames] by simp
  ultimately show ?thesis using p report by auto
qed

text \<open>Three samples in two clusters, and an empty one.\<close>

definition demo_samples :: "bytes list" where
  "demo_samples = [[1, 1, 65], [2, 5], [1, 2, 65, 66], []]"

lemmas discovery_eval = discover_message_def message_name_for_cluster_def hex_byte_def hex_digit_def
  min_frame_size_def max_frame_size_def compute_common_prefix_length_def bytes_equal_at_def draft_fields_def
  prefix_fields_def infer_length_field_def length_field_candidates_def length_field_holds_def read_length_value_def
  wrap_size_def default_discovery_options_def fixed_region_fields.simps common_prefix_loop.simps decimal.simps

lemma demo_sample_clusters:
  "cluster_frames [[1, 1, 65], [2, 5], [1, 2, 65, 66]] default_discovery_options =
    [\<lparr>cl_frames = [[1, 1, 65], [1, 2, 65, 66]], cl_first_index = 0\<rparr>, \<lparr>cl_frames = [[2, 5]], cl_first_index = 1\<rparr>]"
  by (simp add: cluster_frames_def cluster_insert_def default_discovery_options_def upt_rec)

lemma demo_first_draft:
  "dsm_draft_message (discover_message [[1, 1, 65], [1, 2, 65, 66]] 0 default_discovery_options) =
    \<lparr>md_name = ''Message_01'',
     md_fields = [expected_byte_field ''message_type'' 1,
       length_definition \<lparr>lfi_offset = 1, lfi_width_bytes = 1, lfi_byte_order = LittleEndian, lfi_trailing_fixed_bytes = 0\<rparr>,
       payload_definition],
     md_validations = [], md_allow_trailing_bytes = False\<rparr>"
  by (simp add: discovery_eval upt_rec char_of_def bit_0 subspan_def) (simp add: Let_def)

lemma demo_second_draft:
  "dsm_draft_message (discover_message [[2, 5]] 1 default_discovery_options) =
    \<lparr>md_name = ''Message_02'',
     md_fields = [expected_byte_field ''message_type'' 2, expected_byte_field ''prefix_1'' 5],
     md_validations = [], md_allow_trailing_bytes = False\<rparr>"
  by (simp add: discovery_eval upt_rec char_of_def bit_0 subspan_def) (simp add: Let_def)

definition demo_draft :: protocol_definition where
  "demo_draft =
     \<lparr>pd_name = ''discovered_protocol'', pd_imports = [], pd_enums = [], pd_structs = [],
      pd_messages =
        [\<lparr>md_name = ''Message_01'',
          md_fields = [expected_byte_field ''message_type'' 1,
            length_definition \<lparr>lfi_offset = 1, lfi_width_bytes = 1, lfi_byte_order = LittleEndian,
              lfi_trailing_fixed_bytes = 0\<rparr>,
            payload_definition],
          md_validations = [], md_allow_trailing_bytes = False\<rparr>,
         \<lparr>md_name = ''Message_02'',
          md_fields = [expected_byte_field ''message_type'' 2, expected_byte_field ''prefix_1'' 5],
          md_validations = [], md_allow_trailing_bytes = False\<rparr>]\<rparr>"

lemma demo_draft_compiles: "\<exists>p. compile_protocol builtin_registry demo_draft = Inr p"
  by (simp add: demo_draft_def compile_eval expected_byte_field_def length_definition_def payload_definition_def
      char_of_def bit_0)

lemma demo_discovery:
  "\<exists>report. discover_protocol_from_samples builtin_registry demo_samples default_discovery_options = Inr report \<and>
     drp_draft_protocol report = demo_draft"
proof -
  have options: "dop_protocol_name default_discovery_options = ''discovered_protocol''"
    "dop_sample_frames_per_message default_discovery_options \<noteq> 0"
    by (simp_all add: default_discovery_options_def)
  obtain p where "compile_protocol builtin_registry demo_draft = Inr p" using demo_draft_compiles by blast
  with options show ?thesis
    by (simp add: discover_protocol_from_samples_def demo_samples_def Let_def demo_sample_clusters demo_first_draft
        demo_second_draft [simplified] flip: demo_draft_def [simplified])
qed

theorem discovered_protocol_decodes_samples_witness:
  "\<exists>p m n l. compile_protocol builtin_registry demo_draft = Inr p \<and> l \<in> set (cp_messages p) \<and>
     assign_from_layout plain_ops p l [1, 2, 65, 66] None False = Inr (m, n)"
proof -
  obtain report where report: "discover_protocol_from_samples builtin_registry demo_samples default_discovery_options = Inr report"
    and draft: "drp_draft_protocol report = demo_draft" using demo_discovery by blast
  have "dop_max_length_field_width_bytes default_discovery_options \<le> 8" by (simp add: default_discovery_options_def)
  moreover have "\<forall>frame\<in>set demo_samples. length frame \<le> SIZE_MAX" by (simp add: demo_samples_def SIZE_MAX_def)
  moreover have "ascii_ok plain_ops"
    by (simp add: ascii_ok_def plain_ops_def is_valid_ascii_iff list_all_iff)
  ultimately obtain p where "compile_protocol builtin_registry demo_draft = Inr p"
    "\<forall>frame\<in>set demo_samples. frame \<noteq> [] \<longrightarrow>
       (\<exists>l\<in>set (cp_messages p). \<exists>m n. assign_from_layout plain_ops p l frame None False = Inr (m, n))"
    using discovered_protocol_decodes_samples [OF report] draft by metis
  thus ?thesis by (auto simp: demo_samples_def)
qed

end
