(* ===== verification/Schema_Lexer.thy ===== *)
theory Schema_Lexer
  imports Checksums
begin

text \<open>
  \<open>UprLexer\<close> of \<open>pdl/yaml_loader.cpp\<close>: the tokens of the UPR schema language. The lexer's position is the rest of
  the input, from \<open>index_\<close> on, with the line and column. Character classes are those of the C locale. The loop of
  \<open>tokenize\<close> is a partial function whose value is \<open>None\<close> when it does not return.
\<close>

subsection \<open>Characters\<close>

definition char_between :: "nat \<Rightarrow> nat \<Rightarrow> char \<Rightarrow> bool" where
  "char_between low high c \<longleftrightarrow> low \<le> of_char c \<and> of_char c \<le> high"

definition is_alpha :: "char \<Rightarrow> bool" where
  "is_alpha c \<longleftrightarrow> char_between 65 90 c \<or> char_between 97 122 c"

definition is_digit :: "char \<Rightarrow> bool" where
  "is_digit c \<longleftrightarrow> char_between 48 57 c"

definition is_xdigit :: "char \<Rightarrow> bool" where
  "is_xdigit c \<longleftrightarrow> is_digit c \<or> char_between 65 70 c \<or> char_between 97 102 c"

definition is_space :: "char \<Rightarrow> bool" where
  "is_space c \<longleftrightarrow> c = CHR '' '' \<or> char_between 9 13 c"

definition newline :: char where "newline = CHR 0x0A"
definition carriage_return :: char where "carriage_return = CHR 0x0D"
definition tabulator :: char where "tabulator = CHR 0x09"
definition backslash :: char where "backslash = CHR 0x5C"
definition single_quote :: char where "single_quote = CHR 0x27"
definition double_quote :: char where "double_quote = CHR 0x22"

definition is_identifier_start :: "char \<Rightarrow> bool" where
  "is_identifier_start c \<longleftrightarrow> is_alpha c \<or> c = CHR ''_'' \<or> c = CHR ''$''"

definition is_identifier_part :: "char \<Rightarrow> bool" where
  "is_identifier_part c \<longleftrightarrow> is_alpha c \<or> is_digit c \<or> c = CHR ''_'' \<or> c = CHR ''.'' \<or> c = CHR ''-''"

definition is_punctuation :: "char \<Rightarrow> bool" where
  "is_punctuation c \<longleftrightarrow> c \<in> set ''{}[]():,@!*=<>''"

subsection \<open>Tokens and the position\<close>

datatype upr_token_kind = TK_Identifier | TK_Number | TK_String | TK_Punctuation | TK_End

record upr_token =
  ut_kind :: upr_token_kind
  ut_text :: string
  ut_line :: nat
  ut_column :: nat

record lexer =
  lx_input :: string
  lx_line :: nat
  lx_column :: nat

text \<open>The errors of lexer and parser, all \<open>invalid_argument\<close>; those of a position carry line and column.\<close>

datatype parse_error = ErrorAt nat nat string | SchemaError string

definition lx_eof :: "lexer \<Rightarrow> bool" where
  "lx_eof s \<longleftrightarrow> lx_input s = []"

definition lx_peek :: "nat \<Rightarrow> lexer \<Rightarrow> char" where
  "lx_peek lookahead s = (if lookahead < length (lx_input s) then lx_input s ! lookahead else CHR 0x00)"

definition lx_advance :: "lexer \<Rightarrow> lexer" where
  "lx_advance s =
     (case lx_input s of
        [] \<Rightarrow> s
      | c # rest \<Rightarrow>
          if c = newline then \<lparr>lx_input = rest, lx_line = lx_line s + 1, lx_column = 1\<rparr>
          else \<lparr>lx_input = rest, lx_line = lx_line s, lx_column = lx_column s + 1\<rparr>)"

lemma lx_advance_input [simp]: "lx_input (lx_advance s) = tl (lx_input s)"
  by (simp add: lx_advance_def split: list.split)

definition lex_error :: "lexer \<Rightarrow> string \<Rightarrow> parse_error" where
  "lex_error s message = ErrorAt (lx_line s) (lx_column s) message"

text \<open>The characters that satisfy a test, and the position after them: the loops \<open>while (!eof() && \<dots>) advance()\<close>.\<close>

function lx_take_while :: "(char \<Rightarrow> bool) \<Rightarrow> lexer \<Rightarrow> string \<times> lexer" where
  "lx_take_while P s =
     (if \<not> lx_eof s \<and> P (lx_peek 0 s)
      then let (text, s') = lx_take_while P (lx_advance s) in (lx_peek 0 s # text, s')
      else ([], s))"
  by pat_completeness auto
termination by (relation "measure (\<lambda>(_, s). length (lx_input s))") (auto simp: lx_eof_def)

declare lx_take_while.simps [simp del]

lemma lx_take_while_input:
  "fst (lx_take_while P s) = takeWhile P (lx_input s) \<and>
   lx_input (snd (lx_take_while P s)) = dropWhile P (lx_input s)"
proof (induction P s rule: lx_take_while.induct)
  case (1 P s)
  show ?case
  proof (cases "\<not> lx_eof s \<and> P (lx_peek 0 s)")
    case True
    then obtain c cs where "lx_input s = c # cs" by (cases "lx_input s") (auto simp: lx_eof_def)
    with "1.IH" [OF True] True show ?thesis
      by (subst (1 2) lx_take_while.simps) (auto simp: lx_peek_def lx_eof_def split: prod.split)
  next
    case False
    thus ?thesis by (subst (1 2) lx_take_while.simps, cases "lx_input s") (auto simp: lx_eof_def lx_peek_def)
  qed
qed

lemmas lx_take_while_text = lx_take_while_input [THEN conjunct1]
lemmas lx_take_while_rest = lx_take_while_input [THEN conjunct2]

subsection \<open>White space and comments\<close>

function lx_skip :: "lexer \<Rightarrow> lexer" where
  "lx_skip s =
     (if lx_eof s then s
      else
        let c = lx_peek 0 s in
        if is_space c then lx_skip (lx_advance s)
        else if c = CHR ''#'' then lx_skip (snd (lx_take_while (\<lambda>c. c \<noteq> newline) s))
        else if c = CHR ''/'' \<and> lx_peek 1 s = CHR ''/''
        then lx_skip (snd (lx_take_while (\<lambda>c. c \<noteq> newline) (lx_advance (lx_advance s))))
        else s)"
  by pat_completeness auto
termination
proof -
  have shorter: "length (lx_input (snd (lx_take_while P s))) \<le> length (lx_input s)" for P s
    by (simp add: lx_take_while_rest length_dropWhile_le)
  have hash: "length (lx_input (snd (lx_take_while (\<lambda>c. c \<noteq> newline) s))) < length (lx_input s)"
    if "\<not> lx_eof s" "lx_peek 0 s = CHR ''#''" for s
  proof (cases "lx_input s")
    case (Cons c cs)
    with that have "c \<noteq> newline" by (simp add: lx_peek_def newline_def)
    with Cons show ?thesis by (simp add: lx_take_while_rest length_dropWhile_le less_Suc_eq_le)
  qed (use that in \<open>simp add: lx_eof_def\<close>)
  have slash: "length (lx_input (snd (lx_take_while P (lx_advance (lx_advance s))))) < length (lx_input s)"
    if "\<not> lx_eof s" for P s
    using shorter [of P "lx_advance (lx_advance s)"] that by (cases "lx_input s") (auto simp: lx_eof_def)
  show ?thesis
    by (relation "measure (\<lambda>s. length (lx_input s))") (auto simp: hash slash lx_eof_def)
qed

declare lx_skip.simps [simp del]

subsection \<open>The tokens\<close>

definition token_at :: "lexer \<Rightarrow> upr_token_kind \<Rightarrow> string \<Rightarrow> upr_token" where
  "token_at s kind text = \<lparr>ut_kind = kind, ut_text = text, ut_line = lx_line s, ut_column = lx_column s\<rparr>"

definition read_identifier :: "lexer \<Rightarrow> upr_token \<times> lexer" where
  "read_identifier s =
     (let (text, s') = lx_take_while is_identifier_part s in (token_at s TK_Identifier text, s'))"

definition read_number :: "lexer \<Rightarrow> parse_error + upr_token \<times> lexer" where
  "read_number s =
     (if lx_peek 0 s = CHR ''0'' \<and> (lx_peek 1 s = CHR ''x'' \<or> lx_peek 1 s = CHR ''X'') then
        let lead = [lx_peek 0 s, lx_peek 1 s];
            s2 = lx_advance (lx_advance s) in
        if \<not> is_xdigit (lx_peek 0 s2) then Inl (lex_error s2 ''Invalid hexadecimal literal.'')
        else let (text, s') = lx_take_while is_xdigit s2 in Inr (token_at s TK_Number (lead @ text), s')
      else let (text, s') = lx_take_while is_digit s in Inr (token_at s TK_Number text, s'))"

definition unescape :: "char \<Rightarrow> char option" where
  "unescape escaped =
     (if escaped = backslash \<or> escaped = single_quote \<or> escaped = double_quote then Some escaped
      else if escaped = CHR ''n'' then Some newline
      else if escaped = CHR ''r'' then Some carriage_return
      else if escaped = CHR ''t'' then Some tabulator
      else None)"

text \<open>The loop of \<open>read_string\<close>, after the opening quote.\<close>

function read_string_loop :: "char \<Rightarrow> string \<Rightarrow> lexer \<Rightarrow> parse_error + string \<times> lexer" where
  "read_string_loop quote text s =
     (if lx_eof s then Inl (lex_error s ''Unterminated string literal.'')
      else
        let c = lx_peek 0 s; s1 = lx_advance s in
        if c = quote then Inr (text, s1)
        else if c = backslash then
          if lx_eof s1 then Inl (lex_error s1 ''Unterminated escape sequence.'')
          else
            let escaped = lx_peek 0 s1; s2 = lx_advance s1 in
            (case unescape escaped of
               None \<Rightarrow> Inl (lex_error s2 ''Unsupported escape sequence.'')
             | Some x \<Rightarrow> read_string_loop quote (text @ [x]) s2)
        else read_string_loop quote (text @ [c]) s1)"
  by pat_completeness auto
termination by (relation "measure (\<lambda>(_, _, s). length (lx_input s))") (auto simp: lx_eof_def)

declare read_string_loop.simps [simp del]

definition read_string :: "lexer \<Rightarrow> parse_error + upr_token \<times> lexer" where
  "read_string s =
     bind_res (read_string_loop (lx_peek 0 s) [] (lx_advance s)) (\<lambda>(text, s').
     Inr (token_at s TK_String text, s'))"

definition read_punctuation :: "lexer \<Rightarrow> upr_token \<times> lexer" where
  "read_punctuation s = (token_at s TK_Punctuation [lx_peek 0 s], lx_advance s)"

text \<open>One token; \<open>tokenize\<close> is only entered here when the input is not at its end.\<close>

definition lex_token :: "lexer \<Rightarrow> parse_error + upr_token \<times> lexer" where
  "lex_token s =
     (let c = lx_peek 0 s in
      if is_identifier_start c then Inr (read_identifier s)
      else if is_digit c then read_number s
      else if c = double_quote \<or> c = single_quote then read_string s
      else if is_punctuation c then Inr (read_punctuation s)
      else Inl (lex_error s ''Unexpected character.''))"

partial_function (option) tokenize_loop ::
  "upr_token list \<Rightarrow> lexer \<Rightarrow> (parse_error + upr_token list) option" where
  "tokenize_loop tokens s =
     (let s = lx_skip s in
      if lx_eof s then Some (Inr (tokens @ [token_at s TK_End []]))
      else (case lex_token s of
              Inl e \<Rightarrow> Some (Inl e)
            | Inr r \<Rightarrow> tokenize_loop (tokens @ [fst r]) (snd r)))"

definition new_lexer :: "string \<Rightarrow> lexer" where
  "new_lexer input = \<lparr>lx_input = input, lx_line = 1, lx_column = 1\<rparr>"

definition tokenize :: "string \<Rightarrow> (parse_error + upr_token list) option" where
  "tokenize input = tokenize_loop [] (new_lexer input)"

end
