(* ===== verification/Schema_Parser.thy ===== *)
theory Schema_Parser
  imports Schema_Lexer Core_Types
begin

text \<open>
  \<open>UprParser\<close> of \<open>pdl/yaml_loader.cpp\<close>: the recursive-descent parser of the UPR schema language. The state is the
  rest of the token vector, from \<open>index_\<close> on. Each function returns an error or its result with the tokens after it;
  \<open>current_error\<close> is the error of the \<open>expect_punctuation\<close> that just failed. A loop up to a closing brace consumes at
  least one token in every turn.
\<close>

subsection \<open>Words of the language\<close>

definition to_lower :: "string \<Rightarrow> string" where
  "to_lower value = map tolower value"

definition string_starts_with :: "string \<Rightarrow> string \<Rightarrow> bool" where
  "string_starts_with value lead \<longleftrightarrow> take (length lead) value = lead"

fun contains_text :: "string \<Rightarrow> string \<Rightarrow> bool" where
  "contains_text pattern [] = (pattern = [])"
| "contains_text pattern (c # cs) = (string_starts_with (c # cs) pattern \<or> contains_text pattern cs)"

definition digit_number :: "char \<Rightarrow> nat" where
  "digit_number c = of_char c - 48"

text \<open>The digits of a width, accumulated in a \<open>uint32_t\<close>.\<close>

fun width_bits_loop :: "u32 \<Rightarrow> string \<Rightarrow> u32 option" where
  "width_bits_loop width_bits [] = Some width_bits"
| "width_bits_loop width_bits (c # cs) =
     (if \<not> is_digit c then None
      else width_bits_loop (width_bits * 10 + word_of_nat (digit_number c)) cs)"

definition parse_width_token :: "string \<Rightarrow> string \<Rightarrow> parse_error + nat" where
  "parse_width_token token lead =
     (if length token \<le> length lead then Inl (SchemaError (''Missing width for scalar type: '' @ token))
      else
        let end_at = length (takeWhile (\<lambda>c. c \<noteq> CHR ''_'') token) in
        (case width_bits_loop 0 (subspan (length lead) (end_at - length lead) token) of
           None \<Rightarrow> Inl (SchemaError (''Invalid scalar width token: '' @ token))
         | Some width_bits \<Rightarrow>
             if width_bits = 0 \<or> width_bits mod 8 \<noteq> 0 \<or> width_bits div 8 > 255
             then Inl (SchemaError (''Unsupported scalar width token: '' @ token))
             else Inr (unat (width_bits div 8))))"

definition has_big_endian_suffix :: "string \<Rightarrow> bool" where
  "has_big_endian_suffix name \<longleftrightarrow> contains_text ''_be'' name"

subsection \<open>Access to the tokens\<close>

type_synonym tokens = "upr_token list"

definition end_token :: upr_token where
  "end_token = \<lparr>ut_kind = TK_End, ut_text = [], ut_line = 1, ut_column = 1\<rparr>"

definition peek_token :: "tokens \<Rightarrow> upr_token" where
  "peek_token ts = (case ts of [] \<Rightarrow> end_token | t # _ \<Rightarrow> t)"

definition token_error :: "tokens \<Rightarrow> string \<Rightarrow> parse_error" where
  "token_error ts message = ErrorAt (ut_line (peek_token ts)) (ut_column (peek_token ts)) message"

definition expected_error :: "tokens \<Rightarrow> string \<Rightarrow> parse_error" where
  "expected_error ts context_name = token_error ts (''Expected '' @ context_name @ ''.'')"

text \<open>\<open>std::stoull\<close> on the text of a number token.\<close>

definition digit_in_base :: "nat \<Rightarrow> char \<Rightarrow> nat option" where
  "digit_in_base base c =
     (let d = (if is_digit c then of_char c - 48
               else if char_between 97 102 c then of_char c - 87
               else if char_between 65 70 c then of_char c - 55 else 16) in
      if d < base then Some d else None)"

definition stoull_digits :: "nat \<Rightarrow> string \<Rightarrow> nat list" where
  "stoull_digits base value =
     map (\<lambda>c. case digit_in_base base c of None \<Rightarrow> 0 | Some d \<Rightarrow> d)
       (takeWhile (\<lambda>c. digit_in_base base c \<noteq> None) value)"

definition stoull :: "nat \<Rightarrow> string \<Rightarrow> u64 option" where
  "stoull base value =
     (let digits = stoull_digits base (if base = 16 then drop 2 value else value);
          n = fold (\<lambda>d n. n * base + d) digits 0 in
      if digits \<noteq> [] \<and> n < 2 ^ 64 then Some (word_of_nat n) else None)"

definition number_base :: "string \<Rightarrow> nat" where
  "number_base value =
     (if string_starts_with value ''0x'' \<or> string_starts_with value ''0X'' then 16 else 10)"

definition parse_u64 :: "string \<Rightarrow> tokens \<Rightarrow> parse_error + u64 \<times> tokens" where
  "parse_u64 context_name ts =
     (let t = peek_token ts in
      if ut_kind t \<noteq> TK_Number then Inl (expected_error ts context_name)
      else (case stoull (number_base (ut_text t)) (ut_text t) of
              None \<Rightarrow> Inl (token_error ts ''Invalid numeric literal.'')
            | Some v \<Rightarrow> Inr (v, tl ts)))"

definition parse_identifier :: "string \<Rightarrow> tokens \<Rightarrow> parse_error + string \<times> tokens" where
  "parse_identifier context_name ts =
     (let t = peek_token ts in
      if ut_kind t \<noteq> TK_Identifier then Inl (expected_error ts context_name) else Inr (ut_text t, tl ts))"

definition parse_name :: "string \<Rightarrow> tokens \<Rightarrow> parse_error + string \<times> tokens" where
  "parse_name context_name ts =
     (let t = peek_token ts in
      if ut_kind t = TK_Identifier \<or> ut_kind t = TK_String then Inr (ut_text t, tl ts)
      else Inl (expected_error ts context_name))"

text \<open>The tokens after a match, if there is one.\<close>

definition match_token :: "upr_token_kind \<Rightarrow> string \<Rightarrow> tokens \<Rightarrow> tokens option" where
  "match_token kind value ts =
     (if ut_kind (peek_token ts) \<noteq> kind \<or> ut_text (peek_token ts) \<noteq> value then None else Some (tl ts))"

abbreviation match_identifier :: "string \<Rightarrow> tokens \<Rightarrow> tokens option" where
  "match_identifier \<equiv> match_token TK_Identifier"

abbreviation match_punctuation :: "string \<Rightarrow> tokens \<Rightarrow> tokens option" where
  "match_punctuation \<equiv> match_token TK_Punctuation"

definition expect_punctuation :: "string \<Rightarrow> string \<Rightarrow> tokens \<Rightarrow> parse_error + tokens" where
  "expect_punctuation value message ts =
     (case match_punctuation value ts of None \<Rightarrow> Inl (token_error ts message) | Some ts \<Rightarrow> Inr ts)"

definition peek_punctuation_after_current :: "string \<Rightarrow> tokens \<Rightarrow> bool" where
  "peek_punctuation_after_current value ts =
     (case ts of _ # t # _ \<Rightarrow> ut_kind t = TK_Punctuation \<and> ut_text t = value | _ \<Rightarrow> False)"

text \<open>A suffix keyword: the identifier followed by an opening parenthesis; the keyword is consumed.\<close>

definition match_suffix :: "string \<Rightarrow> tokens \<Rightarrow> tokens option" where
  "match_suffix value ts =
     (if ut_kind (peek_token ts) = TK_Identifier \<and> ut_text (peek_token ts) = value \<and>
         peek_punctuation_after_current ''('' ts
      then Some (tl ts) else None)"

definition consume_optional_separator :: "tokens \<Rightarrow> tokens" where
  "consume_optional_separator ts = (case match_punctuation '','' ts of None \<Rightarrow> ts | Some ts \<Rightarrow> ts)"

definition is_end :: "tokens \<Rightarrow> bool" where
  "is_end ts \<longleftrightarrow> ut_kind (peek_token ts) = TK_End"

subsection \<open>What a function consumes\<close>

text \<open>
  The tokens between two states, none of them the end of the input: a parser never moves past the last token.
\<close>

definition consumes :: "tokens \<Rightarrow> tokens \<Rightarrow> bool" where
  "consumes ts ts' \<longleftrightarrow> (\<exists>used. ts = used @ ts' \<and> used \<noteq> [] \<and> (\<forall>t\<in>set used. ut_kind t \<noteq> TK_End))"

definition consumes_some :: "tokens \<Rightarrow> tokens \<Rightarrow> bool" where
  "consumes_some ts ts' \<longleftrightarrow> ts' = ts \<or> consumes ts ts'"

named_theorems consumption \<open>what the parser functions consume\<close>

lemma option_case_Inr_iff:
  "(case x of None \<Rightarrow> a | Some t \<Rightarrow> f t) = Inr r \<longleftrightarrow> x = None \<and> a = Inr r \<or> (\<exists>t. x = Some t \<and> f t = Inr r)"
  by (cases x) auto

lemma branch_if_Inr_iff: "(if b then x else y) = Inr r \<longleftrightarrow> b \<and> x = Inr r \<or> \<not> b \<and> y = Inr r"
  by simp

lemmas branch_Inr = bind_res_Inr_iff option_case_Inr_iff branch_if_Inr_iff

lemma consumes_shorter: "consumes ts ts' \<Longrightarrow> length ts' < length ts"
  by (auto simp: consumes_def)

lemma consumes_some_shorter: "consumes_some ts ts' \<Longrightarrow> length ts' \<le> length ts"
  by (auto simp: consumes_some_def dest: consumes_shorter)

lemma consumes_trans: "consumes a b \<Longrightarrow> consumes b c \<Longrightarrow> consumes a c"
  unfolding consumes_def by (metis (no_types, lifting) Un_iff append.assoc append_is_Nil_conv set_append)

lemma consumes_then: "consumes a b \<Longrightarrow> consumes_some b c \<Longrightarrow> consumes a c"
  by (auto simp: consumes_some_def intro: consumes_trans)

lemma consumes_some_then: "consumes_some a b \<Longrightarrow> consumes b c \<Longrightarrow> consumes a c"
  by (auto simp: consumes_some_def intro: consumes_trans)

lemma consumes_some_trans: "consumes_some a b \<Longrightarrow> consumes_some b c \<Longrightarrow> consumes_some a c"
  by (auto simp: consumes_some_def intro: consumes_trans)

lemma consumes_some_refl [simp]: "consumes_some ts ts"
  by (simp add: consumes_some_def)

lemma consumes_weaken: "consumes a b \<Longrightarrow> consumes_some a b"
  by (simp add: consumes_some_def)

lemma consumes_tl: "ut_kind (peek_token ts) \<noteq> TK_End \<Longrightarrow> consumes ts (tl ts)"
  by (cases ts) (auto simp: consumes_def peek_token_def end_token_def)

lemma parse_u64_consumes [consumption]: "parse_u64 c ts = Inr (v, ts') \<Longrightarrow> consumes ts ts'"
  by (auto simp: parse_u64_def Let_def intro: consumes_tl split: if_splits option.splits)

lemma parse_identifier_consumes [consumption]: "parse_identifier c ts = Inr (v, ts') \<Longrightarrow> consumes ts ts'"
  by (auto simp: parse_identifier_def Let_def intro: consumes_tl split: if_splits)

lemma parse_name_consumes [consumption]: "parse_name c ts = Inr (v, ts') \<Longrightarrow> consumes ts ts'"
  by (auto simp: parse_name_def Let_def intro!: consumes_tl split: if_splits)

lemma match_token_consumes [consumption]: "match_token k v ts = Some ts' \<Longrightarrow> k \<noteq> TK_End \<Longrightarrow> consumes ts ts'"
  by (auto simp: match_token_def intro: consumes_tl split: if_splits)

lemma expect_punctuation_consumes [consumption]: "expect_punctuation v m ts = Inr ts' \<Longrightarrow> consumes ts ts'"
  by (auto simp: expect_punctuation_def dest: match_token_consumes split: option.splits)

lemma match_suffix_consumes [consumption]: "match_suffix v ts = Some ts' \<Longrightarrow> consumes ts ts'"
  by (auto simp: match_suffix_def intro: consumes_tl split: if_splits)

lemma separator_consumes: "consumes_some ts (consume_optional_separator ts)"
  by (auto simp: consume_optional_separator_def consumes_weaken dest: match_token_consumes split: option.split)

lemma separator_shorter: "length (consume_optional_separator ts) \<le> length ts"
  by (rule consumes_some_shorter [OF separator_consumes])

subsection \<open>Bodies in braces\<close>

text \<open>The message "Expected 'x' \<dots>".\<close>

definition expected_text :: "string \<Rightarrow> string \<Rightarrow> string" where
  "expected_text value rest = ''Expected '' @ single_quote # value @ single_quote # rest"

function parse_enum_body :: "enum_value_definition list \<Rightarrow> tokens \<Rightarrow> parse_error + enum_value_definition list \<times> tokens" where
  "parse_enum_body done ts =
     (case match_punctuation ''}'' ts of
        Some ts \<Rightarrow> Inr (done, ts)
      | None \<Rightarrow>
          bind_res (parse_u64 ''enum value'' ts) (\<lambda>(v, ts).
          bind_res (expect_punctuation ''='' (expected_text ''='' '' in enum value declaration.'') ts) (\<lambda>ts.
          bind_res (parse_name ''enum label'' ts) (\<lambda>(label, ts).
          parse_enum_body (done @ [\<lparr>ev_value = v, ev_name = label\<rparr>]) (consume_optional_separator ts)))))"
  by pat_completeness auto
termination
proof (relation "measure (\<lambda>(_, ts). length ts)", goal_cases)
  case (2 xs ts x v ts1 ts2 y label ts3)
  then show ?case
    using separator_shorter [of ts3] by (auto dest!: consumption [THEN consumes_shorter])
qed simp

declare parse_enum_body.simps [simp del]

lemma parse_enum_body_consumes [consumption]: "parse_enum_body done ts = Inr (vs, ts') \<Longrightarrow> consumes ts ts'"
proof (induction "done" ts rule: parse_enum_body.induct)
  case (1 xs ts)
  show ?case
  proof (cases "match_punctuation ''}'' ts")
    case (Some ts1)
    with "1.prems" show ?thesis by (auto simp: parse_enum_body.simps [of xs ts] intro: match_token_consumes)
  next
    case None
    with "1.prems" obtain v ts1 ts2 label ts3 where
      steps: "parse_u64 ''enum value'' ts = Inr (v, ts1)"
      "expect_punctuation ''='' (expected_text ''='' '' in enum value declaration.'') ts1 = Inr ts2"
      "parse_name ''enum label'' ts2 = Inr (label, ts3)"
      and loop: "parse_enum_body (xs @ [\<lparr>ev_value = v, ev_name = label\<rparr>]) (consume_optional_separator ts3) = Inr (vs, ts')"
      by (auto simp: parse_enum_body.simps [of xs ts] bind_res_Inr_iff)
    from "1.IH" [OF None steps(1) refl steps(2,3) refl loop]
    have "consumes (consume_optional_separator ts3) ts'" .
    with steps separator_consumes [of ts3] show ?thesis
      by (meson consumes_some_then consumes_trans parse_u64_consumes expect_punctuation_consumes parse_name_consumes)
  qed
qed

definition parse_bit_field :: "tokens \<Rightarrow> parse_error + bit_field_definition \<times> tokens" where
  "parse_bit_field ts =
     bind_res (parse_name ''bitfield name'' ts) (\<lambda>(name, ts).
     bind_res (expect_punctuation ''@'' (expected_text ''@'' '' in bitfield declaration.'') ts) (\<lambda>ts.
     bind_res (parse_u64 ''bitfield offset'' ts) (\<lambda>(offset_bits, ts).
     bind_res (expect_punctuation '':'' (expected_text '':'' '' between bitfield offset and width.'') ts) (\<lambda>ts.
     bind_res (parse_u64 ''bitfield width'' ts) (\<lambda>(width_bits, ts).
     if offset_bits > 255 \<or> width_bits > 255
     then Inl (SchemaError ''Bitfield offset and width must fit in 8 bits.'')
     else
       let (is_signed, ts) = (case match_identifier ''signed'' ts of None \<Rightarrow> (False, ts) | Some ts \<Rightarrow> (True, ts)) in
       bind_res
         (case match_punctuation ''{'' ts of None \<Rightarrow> Inr ([], ts) | Some ts \<Rightarrow> parse_enum_body [] ts) (\<lambda>(vs, ts).
       Inr (\<lparr>bfd_name = name, bfd_offset_bits = unat offset_bits, bfd_width_bits = unat width_bits,
             bfd_is_signed = is_signed, bfd_enum_values = vs\<rparr>, ts)))))))"

lemma parse_bit_field_consumes [consumption]: "parse_bit_field ts = Inr (b, ts') \<Longrightarrow> consumes ts ts'"
  unfolding parse_bit_field_def
  by (auto simp: bind_res_Inr_iff Let_def split: if_splits option.splits dest!: consumption)
    (meson consumes_trans)+

function parse_bit_field_body ::
  "bit_field_definition list \<Rightarrow> tokens \<Rightarrow> parse_error + bit_field_definition list \<times> tokens" where
  "parse_bit_field_body done ts =
     (case match_punctuation ''}'' ts of
        Some ts \<Rightarrow> Inr (done, ts)
      | None \<Rightarrow>
          bind_res (parse_bit_field ts) (\<lambda>(b, ts).
          parse_bit_field_body (done @ [b]) (consume_optional_separator ts)))"
  by pat_completeness auto
termination
proof (relation "measure (\<lambda>(_, ts). length ts)", goal_cases)
  case (2 xs ts x b ts1)
  then show ?case
    using separator_shorter [of ts1] by (auto dest!: consumption [THEN consumes_shorter])
qed simp

declare parse_bit_field_body.simps [simp del]

definition parse_variant_case :: "tokens \<Rightarrow> parse_error + variant_case_definition \<times> tokens" where
  "parse_variant_case ts =
     bind_res (parse_u64 ''variant tag value'' ts) (\<lambda>(tag_value, ts).
     bind_res (expect_punctuation ''='' (expected_text ''='' '' in variant case declaration.'') ts) (\<lambda>ts.
     bind_res (parse_name ''variant case struct'' ts) (\<lambda>(referenced_type, ts).
     Inr (\<lparr>vcd_tag_value = tag_value, vcd_referenced_type = referenced_type\<rparr>, ts))))"

lemma parse_variant_case_consumes [consumption]: "parse_variant_case ts = Inr (c, ts') \<Longrightarrow> consumes ts ts'"
  unfolding parse_variant_case_def
  by (auto simp: bind_res_Inr_iff dest!: consumption) (meson consumes_trans)

function parse_variant_case_body ::
  "variant_case_definition list \<Rightarrow> tokens \<Rightarrow> parse_error + variant_case_definition list \<times> tokens" where
  "parse_variant_case_body done ts =
     (case match_punctuation ''}'' ts of
        Some ts \<Rightarrow> Inr (done, ts)
      | None \<Rightarrow>
          bind_res (parse_variant_case ts) (\<lambda>(c, ts).
          parse_variant_case_body (done @ [c]) (consume_optional_separator ts)))"
  by pat_completeness auto
termination
proof (relation "measure (\<lambda>(_, ts). length ts)", goal_cases)
  case (2 xs ts x b ts1)
  then show ?case
    using separator_shorter [of ts1] by (auto dest!: consumption [THEN consumes_shorter])
qed simp

declare parse_variant_case_body.simps [simp del]

lemma parse_bit_field_body_consumes [consumption]: "parse_bit_field_body done ts = Inr (bs, ts') \<Longrightarrow> consumes ts ts'"
proof (induction "done" ts rule: parse_bit_field_body.induct)
  case (1 xs ts)
  show ?case
  proof (cases "match_punctuation ''}'' ts")
    case (Some ts1)
    with "1.prems" show ?thesis by (auto simp: parse_bit_field_body.simps [of xs ts] intro: match_token_consumes)
  next
    case None
    with "1.prems" obtain b ts1 where first: "parse_bit_field ts = Inr (b, ts1)"
      and loop: "parse_bit_field_body (xs @ [b]) (consume_optional_separator ts1) = Inr (bs, ts')"
      by (auto simp: parse_bit_field_body.simps [of xs ts] bind_res_Inr_iff)
    from "1.IH" [OF None first refl loop] parse_bit_field_consumes [OF first] separator_consumes [of ts1]
    show ?thesis by (meson consumes_some_then consumes_trans)
  qed
qed

lemma parse_variant_case_body_consumes [consumption]:
  "parse_variant_case_body done ts = Inr (cs, ts') \<Longrightarrow> consumes ts ts'"
proof (induction "done" ts rule: parse_variant_case_body.induct)
  case (1 xs ts)
  show ?case
  proof (cases "match_punctuation ''}'' ts")
    case (Some ts1)
    with "1.prems" show ?thesis by (auto simp: parse_variant_case_body.simps [of xs ts] intro: match_token_consumes)
  next
    case None
    with "1.prems" obtain c ts1 where first: "parse_variant_case ts = Inr (c, ts1)"
      and loop: "parse_variant_case_body (xs @ [c]) (consume_optional_separator ts1) = Inr (cs, ts')"
      by (auto simp: parse_variant_case_body.simps [of xs ts] bind_res_Inr_iff)
    from "1.IH" [OF None first refl loop] parse_variant_case_consumes [OF first] separator_consumes [of ts1]
    show ?thesis by (meson consumes_some_then consumes_trans)
  qed
qed

subsection \<open>Suffixes in parentheses\<close>

definition parse_checksum_suffix :: "tokens \<Rightarrow> parse_error + checksum_definition \<times> tokens" where
  "parse_checksum_suffix ts =
     bind_res (expect_punctuation ''('' (expected_text ''('' '' after checksum.'') ts) (\<lambda>ts.
     bind_res (parse_identifier ''checksum algorithm'' ts) (\<lambda>(algorithm, ts).
     let checksum = \<lparr>ckd_algorithm = algorithm, ckd_from = ''frame_start'', ckd_to = ''before_self''\<rparr> in
     bind_res
       (case match_punctuation '','' ts of
          None \<Rightarrow> Inr (checksum, ts)
        | Some ts \<Rightarrow>
            bind_res (parse_name ''checksum from anchor'' ts) (\<lambda>(from_anchor, ts).
            let checksum = checksum\<lparr>ckd_from := from_anchor\<rparr> in
            (case match_punctuation '','' ts of
               None \<Rightarrow> Inr (checksum, ts)
             | Some ts \<Rightarrow>
                 bind_res (parse_name ''checksum to anchor'' ts) (\<lambda>(to_anchor, ts).
                 Inr (checksum\<lparr>ckd_to := to_anchor\<rparr>, ts))))) (\<lambda>(checksum, ts).
     bind_res (expect_punctuation '')'' (expected_text '')'' '' after checksum arguments.'') ts) (\<lambda>ts.
     Inr (checksum, ts)))))"

definition parse_condition_suffix :: "tokens \<Rightarrow> parse_error + condition_definition \<times> tokens" where
  "parse_condition_suffix ts =
     bind_res (expect_punctuation ''('' (expected_text ''('' '' after if.'') ts) (\<lambda>ts.
     bind_res (parse_name ''condition field'' ts) (\<lambda>(field_name, ts).
     bind_res (expect_punctuation ''='' (expected_text ''=='' '' in conditional field declaration.'') ts) (\<lambda>ts.
     bind_res (expect_punctuation ''='' (expected_text ''=='' '' in conditional field declaration.'') ts) (\<lambda>ts.
     bind_res (parse_u64 ''conditional expected value'' ts) (\<lambda>(expected_value, ts).
     bind_res (expect_punctuation '')'' (expected_text '')'' '' after conditional field declaration.'') ts) (\<lambda>ts.
     Inr (\<lparr>cnd_field = field_name, cnd_equals_unsigned = expected_value\<rparr>, ts)))))))"

definition parse_presence_suffix :: "tokens \<Rightarrow> parse_error + presence_definition \<times> tokens" where
  "parse_presence_suffix ts =
     bind_res (expect_punctuation ''('' (expected_text ''('' '' after present.'') ts) (\<lambda>ts.
     bind_res (parse_name ''presence field'' ts) (\<lambda>(field_name, ts).
     bind_res (expect_punctuation '','' (expected_text '','' '' after presence field.'') ts) (\<lambda>ts.
     bind_res (parse_u64 ''presence bit index'' ts) (\<lambda>(bit_index, ts).
     if bit_index > 255 then Inl (SchemaError ''Presence bit index must fit in 8 bits.'')
     else
       bind_res (expect_punctuation '')'' (expected_text '')'' '' after presence declaration.'') ts) (\<lambda>ts.
       Inr (\<lparr>prd_field = field_name, prd_bit_index = unat bit_index\<rparr>, ts))))))"

definition parse_alignment_suffix :: "tokens \<Rightarrow> parse_error + nat \<times> tokens" where
  "parse_alignment_suffix ts =
     bind_res (expect_punctuation ''('' (expected_text ''('' '' after align.'') ts) (\<lambda>ts.
     bind_res (parse_u64 ''field alignment'' ts) (\<lambda>(alignment, ts).
     bind_res (expect_punctuation '')'' (expected_text '')'' '' after align declaration.'') ts) (\<lambda>ts.
     Inr (unat alignment, ts))))"

definition parse_validation_operator_tokens :: "tokens \<Rightarrow> parse_error + validation_operator \<times> tokens" where
  "parse_validation_operator_tokens ts =
     (case match_punctuation ''='' ts of
        Some ts \<Rightarrow>
          bind_res (expect_punctuation ''='' (expected_text ''=='' '' in validation expression.'') ts) (\<lambda>ts. Inr (OpEq, ts))
      | None \<Rightarrow>
     (case match_punctuation ''!'' ts of
        Some ts \<Rightarrow>
          bind_res (expect_punctuation ''='' (expected_text ''!='' '' in validation expression.'') ts) (\<lambda>ts. Inr (OpNe, ts))
      | None \<Rightarrow>
     (case match_punctuation ''<'' ts of
        Some ts \<Rightarrow> (case match_punctuation ''='' ts of Some ts \<Rightarrow> Inr (OpLe, ts) | None \<Rightarrow> Inr (OpLt, ts))
      | None \<Rightarrow>
     (case match_punctuation ''>'' ts of
        Some ts \<Rightarrow> (case match_punctuation ''='' ts of Some ts \<Rightarrow> Inr (OpGe, ts) | None \<Rightarrow> Inr (OpGt, ts))
      | None \<Rightarrow> Inl (token_error ts ''Expected a validation comparison operator.'')))))"

text \<open>The member initialisers of \<open>ValidationRuleDefinition\<close>.\<close>

definition default_validation_rule :: validation_rule_definition where
  "default_validation_rule =
     \<lparr>vrd_field = '''', vrd_op = OpEq, vrd_other_field = '''', vrd_compare_to_field = False, vrd_value = 0,
      vrd_multiplier = 1, vrd_when = None\<rparr>"

definition parse_validation_statement :: "tokens \<Rightarrow> parse_error + validation_rule_definition \<times> tokens" where
  "parse_validation_statement ts =
     bind_res (expect_punctuation ''('' (expected_text ''('' '' after validate.'') ts) (\<lambda>ts.
     bind_res (parse_name ''validation field'' ts) (\<lambda>(field_name, ts).
     bind_res (parse_validation_operator_tokens ts) (\<lambda>(op, ts).
     let rule = default_validation_rule\<lparr>vrd_field := field_name, vrd_op := op\<rparr> in
     bind_res
       (if ut_kind (peek_token ts) = TK_Identifier \<or> ut_kind (peek_token ts) = TK_String then
          bind_res (parse_name ''validation comparison field'' ts) (\<lambda>(other_field, ts).
          Inr (rule\<lparr>vrd_compare_to_field := True, vrd_other_field := other_field\<rparr>, ts))
        else
          bind_res (parse_u64 ''validation comparison value'' ts) (\<lambda>(v, ts).
          Inr (rule\<lparr>vrd_value := v\<rparr>, ts))) (\<lambda>(rule, ts).
     bind_res
       (case match_punctuation ''*'' ts of
          None \<Rightarrow> Inr (rule, ts)
        | Some ts \<Rightarrow>
            bind_res (parse_u64 ''validation multiplier'' ts) (\<lambda>(multiplier, ts).
            Inr (rule\<lparr>vrd_multiplier := multiplier\<rparr>, ts))) (\<lambda>(rule, ts).
     bind_res
       (case match_punctuation '','' ts of
          None \<Rightarrow> Inr (rule, ts)
        | Some ts \<Rightarrow>
            (case match_identifier ''if'' ts of
               None \<Rightarrow> Inl (token_error ts (expected_text ''if'' '' after validation comma.''))
             | Some ts \<Rightarrow>
                 bind_res (parse_condition_suffix ts) (\<lambda>(condition, ts).
                 Inr (rule\<lparr>vrd_when := Some condition\<rparr>, ts)))) (\<lambda>(rule, ts).
     bind_res (expect_punctuation '')'' (expected_text '')'' '' after validate declaration.'') ts) (\<lambda>ts.
     Inr (rule, ts))))))))"

lemma parse_checksum_suffix_consumes [consumption]: "parse_checksum_suffix ts = Inr (c, ts') \<Longrightarrow> consumes ts ts'"
  by (auto simp: parse_checksum_suffix_def branch_Inr Let_def dest!: consumption) (meson consumes_trans)+

lemma parse_condition_suffix_consumes [consumption]: "parse_condition_suffix ts = Inr (c, ts') \<Longrightarrow> consumes ts ts'"
  by (auto simp: parse_condition_suffix_def branch_Inr dest!: consumption) (meson consumes_trans)

lemma parse_presence_suffix_consumes [consumption]: "parse_presence_suffix ts = Inr (p, ts') \<Longrightarrow> consumes ts ts'"
  by (auto simp: parse_presence_suffix_def branch_Inr dest!: consumption) (meson consumes_trans)

lemma parse_alignment_suffix_consumes [consumption]: "parse_alignment_suffix ts = Inr (a, ts') \<Longrightarrow> consumes ts ts'"
  by (auto simp: parse_alignment_suffix_def branch_Inr dest!: consumption) (meson consumes_trans)

lemma operator_consumes [consumption]: "parse_validation_operator_tokens ts = Inr (op, ts') \<Longrightarrow> consumes ts ts'"
  by (auto simp: parse_validation_operator_tokens_def branch_Inr dest!: consumption intro: consumes_trans)

lemma parse_validation_statement_consumes [consumption]:
  "parse_validation_statement ts = Inr (rule, ts') \<Longrightarrow> consumes ts ts'"
  unfolding parse_validation_statement_def Let_def
  by (auto simp: branch_Inr dest!: consumption) (meson consumes_trans)+

subsection \<open>Field types\<close>

text \<open>The width and byte order of an unsigned underlying type.\<close>

definition underlying_scalar :: "string \<Rightarrow> byte_order \<Rightarrow> parse_error + nat \<times> byte_order" where
  "underlying_scalar underlying bo =
     (let normalized = to_lower underlying in
      if \<not> string_starts_with normalized ''uint''
      then Inl (SchemaError ''Enum underlying type must be an unsigned scalar.'')
      else
        bind_res (parse_width_token normalized ''uint'') (\<lambda>width.
        Inr (width, if has_big_endian_suffix normalized then BigEndian else bo)))"

definition parse_optional_size_suffix :: "field_definition \<Rightarrow> tokens \<Rightarrow> parse_error + field_definition \<times> tokens" where
  "parse_optional_size_suffix f ts =
     (case match_punctuation ''['' ts of
        None \<Rightarrow> Inr (f, ts)
      | Some ts \<Rightarrow>
          bind_res
            (if ut_kind (peek_token ts) = TK_Number then
               bind_res (parse_u64 ''field size'' ts) (\<lambda>(size, ts). Inr (f\<lparr>fd_fixed_size := unat size\<rparr>, ts))
             else if ut_kind (peek_token ts) = TK_Identifier \<or> ut_kind (peek_token ts) = TK_String then
               bind_res (parse_name ''size_from field'' ts) (\<lambda>(size_from, ts).
               Inr (f\<lparr>fd_size_from_field := size_from\<rparr>, ts))
             else Inl (token_error ts (''Expected a fixed size or field reference inside '' @ single_quote # ''[...]'' @ single_quote # ''.''))) (\<lambda>(f, ts).
          bind_res (expect_punctuation '']'' (expected_text '']'' '' after field size.'') ts) (\<lambda>ts. Inr (f, ts))))"

definition parse_optional_count_suffix :: "field_definition \<Rightarrow> tokens \<Rightarrow> parse_error + field_definition \<times> tokens" where
  "parse_optional_count_suffix f ts =
     (case match_punctuation ''['' ts of
        None \<Rightarrow> Inr (f, ts)
      | Some ts \<Rightarrow>
          let f = f\<lparr>fd_kind := KCollection\<rparr> in
          bind_res
            (if ut_kind (peek_token ts) = TK_Number then
               bind_res (parse_u64 ''collection count'' ts) (\<lambda>(count, ts). Inr (f\<lparr>fd_fixed_count := unat count\<rparr>, ts))
             else if ut_kind (peek_token ts) = TK_Identifier \<or> ut_kind (peek_token ts) = TK_String then
               bind_res (parse_name ''count_from field'' ts) (\<lambda>(count_from, ts).
               Inr (f\<lparr>fd_count_from_field := count_from\<rparr>, ts))
             else Inl (token_error ts (''Expected a fixed count or field reference inside '' @ single_quote # ''[...]'' @ single_quote # ''.''))) (\<lambda>(f, ts).
          bind_res (expect_punctuation '']'' (expected_text '']'' '' after collection count.'') ts) (\<lambda>ts. Inr (f, ts))))"

text \<open>\<open>if (type_name.find("_be") != npos) byte_order = big\<close>.\<close>

definition with_suffix_order :: "string \<Rightarrow> field_definition \<Rightarrow> field_definition" where
  "with_suffix_order type_name f =
     (if has_big_endian_suffix type_name then f\<lparr>fd_byte_order := BigEndian\<rparr> else f)"

definition parse_field_type :: "field_definition \<Rightarrow> tokens \<Rightarrow> parse_error + field_definition \<times> tokens" where
  "parse_field_type f ts =
     (if ut_kind (peek_token ts) \<noteq> TK_Identifier then Inl (token_error ts ''Expected a field type.'')
      else
        let declared = ut_text (peek_token ts); type_name = to_lower declared; ts = tl ts in
        if type_name = ''bytes'' then parse_optional_size_suffix (f\<lparr>fd_kind := KBytes\<rparr>) ts
        else if type_name = ''reserved'' then
          parse_optional_size_suffix (f\<lparr>fd_kind := KBytes, fd_is_reserved := True\<rparr>) ts
        else if type_name = ''string'' then parse_optional_size_suffix (f\<lparr>fd_kind := KString\<rparr>) ts
        else if type_name = ''ascii'' \<or> type_name = ''utf8'' then
          parse_optional_size_suffix
            (f\<lparr>fd_kind := KString, fd_string_encoding := (if type_name = ''ascii'' then Ascii else Utf8)\<rparr>) ts
        else if type_name = ''enum'' then
          bind_res (expect_punctuation ''<'' (expected_text ''<'' '' after enum.'') ts) (\<lambda>ts.
          bind_res (parse_identifier ''enum underlying type'' ts) (\<lambda>(underlying, ts).
          bind_res (underlying_scalar underlying (fd_byte_order f)) (\<lambda>(width, bo).
          bind_res (expect_punctuation ''>'' (expected_text ''>'' '' after enum underlying type.'') ts) (\<lambda>ts.
          Inr (f\<lparr>fd_kind := KEnum, fd_width_bytes := width, fd_byte_order := bo\<rparr>, ts)))))
        else if type_name = ''variant'' then
          bind_res (expect_punctuation ''('' (expected_text ''('' '' after variant.'') ts) (\<lambda>ts.
          bind_res (parse_name ''variant tag field'' ts) (\<lambda>(tag_from, ts).
          bind_res (expect_punctuation '')'' (expected_text '')'' '' after variant tag field.'') ts) (\<lambda>ts.
          Inr (f\<lparr>fd_kind := KVariant, fd_tag_from_field := tag_from\<rparr>, ts))))
        else if string_starts_with type_name ''uint'' then
          bind_res (parse_width_token type_name ''uint'') (\<lambda>width.
          Inr (with_suffix_order type_name (f\<lparr>fd_kind := KUnsigned, fd_width_bytes := width\<rparr>), ts))
        else if string_starts_with type_name ''int'' then
          bind_res (parse_width_token type_name ''int'') (\<lambda>width.
          Inr (with_suffix_order type_name (f\<lparr>fd_kind := KSigned, fd_width_bytes := width\<rparr>), ts))
        else if string_starts_with type_name ''float32'' then
          Inr (with_suffix_order type_name (f\<lparr>fd_kind := KFloat32, fd_width_bytes := 4\<rparr>), ts)
        else if string_starts_with type_name ''float64'' then
          Inr (with_suffix_order type_name (f\<lparr>fd_kind := KFloat64, fd_width_bytes := 8\<rparr>), ts)
        else parse_optional_count_suffix (f\<lparr>fd_kind := KStruct, fd_referenced_type := declared\<rparr>) ts)"

lemma parse_optional_size_suffix_consumes:
  "parse_optional_size_suffix f ts = Inr (f', ts') \<Longrightarrow> consumes_some ts ts'"
  unfolding parse_optional_size_suffix_def consumes_some_def
  by (auto simp: branch_Inr dest!: consumption) (meson consumes_trans)+

lemma parse_optional_count_suffix_consumes:
  "parse_optional_count_suffix f ts = Inr (f', ts') \<Longrightarrow> consumes_some ts ts'"
  unfolding parse_optional_count_suffix_def consumes_some_def Let_def
  by (auto simp: branch_Inr dest!: consumption) (meson consumes_trans)+

lemma parse_field_type_consumes [consumption]:
  assumes "parse_field_type f ts = Inr (f', ts')"
  shows "consumes ts ts'"
proof -
  have first: "consumes ts (tl ts)"
    using assms by (intro consumes_tl) (auto simp: parse_field_type_def split: if_splits)
  have "consumes_some (tl ts) ts'"
    using assms unfolding parse_field_type_def Let_def
    by (auto simp: branch_Inr dest!: consumption parse_optional_size_suffix_consumes parse_optional_count_suffix_consumes)
      (meson consumes_trans consumes_weaken)+
  with first show ?thesis by (rule consumes_then)
qed

subsection \<open>Field declarations\<close>

text \<open>The body in braces after a field, by the kind of the field.\<close>

definition parse_field_body :: "field_definition \<Rightarrow> tokens \<Rightarrow> parse_error + field_definition \<times> tokens" where
  "parse_field_body f ts =
     (if fd_kind f = KEnum then
        bind_res (parse_enum_body [] ts) (\<lambda>(vs, ts). Inr (f\<lparr>fd_enum_values := vs\<rparr>, ts))
      else if fd_kind f = KVariant then
        bind_res (parse_variant_case_body [] ts) (\<lambda>(cs, ts). Inr (f\<lparr>fd_variant_cases := cs\<rparr>, ts))
      else
        bind_res (parse_bit_field_body [] ts) (\<lambda>(bs, ts). Inr (f\<lparr>fd_bit_fields := bs\<rparr>, ts)))"

text \<open>One turn of the suffix loop of \<open>parse_field_definition\<close>; \<open>None\<close> is the \<open>break\<close>.\<close>

definition parse_field_suffix ::
  "field_definition \<Rightarrow> tokens \<Rightarrow> parse_error + (field_definition \<times> tokens) option" where
  "parse_field_suffix f ts =
     (case match_punctuation ''='' ts of
        Some ts \<Rightarrow>
          bind_res (parse_u64 ''expected field value'' ts) (\<lambda>(number, ts).
          Inr (Some (f\<lparr>fd_has_expected_unsigned := True, fd_expected_unsigned := number\<rparr>, ts)))
      | None \<Rightarrow>
     (case match_suffix ''checksum'' ts of
        Some ts \<Rightarrow>
          bind_res (parse_checksum_suffix ts) (\<lambda>(checksum, ts). Inr (Some (f\<lparr>fd_checksum := Some checksum\<rparr>, ts)))
      | None \<Rightarrow>
     (case match_suffix ''if'' ts of
        Some ts \<Rightarrow>
          bind_res (parse_condition_suffix ts) (\<lambda>(condition, ts). Inr (Some (f\<lparr>fd_condition := Some condition\<rparr>, ts)))
      | None \<Rightarrow>
     (case match_suffix ''present'' ts of
        Some ts \<Rightarrow>
          bind_res (parse_presence_suffix ts) (\<lambda>(presence, ts). Inr (Some (f\<lparr>fd_presence := Some presence\<rparr>, ts)))
      | None \<Rightarrow>
     (case match_suffix ''align'' ts of
        Some ts \<Rightarrow>
          bind_res (parse_alignment_suffix ts) (\<lambda>(alignment, ts). Inr (Some (f\<lparr>fd_alignment := alignment\<rparr>, ts)))
      | None \<Rightarrow>
     (case match_punctuation ''{'' ts of
        Some ts \<Rightarrow> bind_res (parse_field_body f ts) (\<lambda>r. Inr (Some r))
      | None \<Rightarrow> Inr None))))))"

lemma parse_field_body_consumes [consumption]: "parse_field_body f ts = Inr (f', ts') \<Longrightarrow> consumes ts ts'"
  by (auto simp: parse_field_body_def branch_Inr dest!: consumption)

lemma parse_field_suffix_consumes [consumption]: "parse_field_suffix f ts = Inr (Some (f', ts')) \<Longrightarrow> consumes ts ts'"
  by (auto simp: parse_field_suffix_def branch_Inr dest!: consumption) (meson consumes_trans)+

function parse_field_suffixes :: "field_definition \<Rightarrow> tokens \<Rightarrow> parse_error + field_definition \<times> tokens" where
  "parse_field_suffixes f ts =
     bind_res (parse_field_suffix f ts) (\<lambda>r.
     case r of None \<Rightarrow> Inr (f, ts) | Some (f, ts) \<Rightarrow> parse_field_suffixes f ts)"
  by pat_completeness auto
termination
  by (relation "measure (\<lambda>(_, ts). length ts)") (auto dest!: consumption [THEN consumes_shorter])

declare parse_field_suffixes.simps [simp del]

lemma parse_field_suffixes_consumes:
  "parse_field_suffixes f ts = Inr (f', ts') \<Longrightarrow> consumes_some ts ts'"
proof (induction f ts rule: parse_field_suffixes.induct)
  case (1 f ts)
  from "1.prems" obtain r where r: "parse_field_suffix f ts = Inr r"
    by (auto simp: parse_field_suffixes.simps [of f ts] branch_Inr)
  show ?case
  proof (cases r)
    case None
    with "1.prems" r show ?thesis by (simp add: parse_field_suffixes.simps [of f ts])
  next
    case (Some p)
    obtain f1 ts1 where p: "p = (f1, ts1)" by (cases p)
    with "1.prems" r Some have "parse_field_suffixes f1 ts1 = Inr (f', ts')"
      by (simp add: parse_field_suffixes.simps [of f ts])
    with "1.IH" [OF r Some p [symmetric]] have "consumes_some ts1 ts'" by simp
    moreover have "consumes ts ts1" using r Some p by (auto dest: parse_field_suffix_consumes)
    ultimately show ?thesis by (blast intro: consumes_then consumes_weaken)
  qed
qed

definition parse_field_definition :: "tokens \<Rightarrow> parse_error + field_definition \<times> tokens" where
  "parse_field_definition ts =
     bind_res (parse_name ''field name'' ts) (\<lambda>(name, ts).
     bind_res (expect_punctuation '':'' (expected_text '':'' '' after field name.'') ts) (\<lambda>ts.
     bind_res (parse_field_type (default_field_definition\<lparr>fd_name := name\<rparr>) ts) (\<lambda>(f, ts).
     parse_field_suffixes f ts)))"

lemma parse_field_definition_consumes [consumption]:
  "parse_field_definition ts = Inr (f, ts') \<Longrightarrow> consumes ts ts'"
  by (auto simp: parse_field_definition_def branch_Inr
      dest!: consumption parse_field_suffixes_consumes) (meson consumes_trans consumes_then)

subsection \<open>Structs, messages and enums\<close>

function parse_struct_body :: "struct_definition \<Rightarrow> tokens \<Rightarrow> parse_error + struct_definition \<times> tokens" where
  "parse_struct_body d ts =
     (case match_punctuation ''}'' ts of
        Some ts \<Rightarrow> Inr (d, ts)
      | None \<Rightarrow>
     (case match_identifier ''validate'' ts of
        Some ts \<Rightarrow>
          bind_res (parse_validation_statement ts) (\<lambda>(rule, ts).
          parse_struct_body (d\<lparr>sd_validations := sd_validations d @ [rule]\<rparr>) (consume_optional_separator ts))
      | None \<Rightarrow>
          bind_res (parse_field_definition ts) (\<lambda>(f, ts).
          parse_struct_body (d\<lparr>sd_fields := sd_fields d @ [f]\<rparr>) (consume_optional_separator ts))))"
  by pat_completeness auto
termination
  by (relation "measure (\<lambda>(_, ts). length ts)")
    (auto dest!: consumption [THEN consumes_shorter] intro!: le_less_trans [OF separator_shorter])

declare parse_struct_body.simps [simp del]

definition parse_struct :: "tokens \<Rightarrow> parse_error + struct_definition \<times> tokens" where
  "parse_struct ts =
     bind_res (parse_name ''struct name'' ts) (\<lambda>(name, ts).
     bind_res (expect_punctuation ''{'' (expected_text ''{'' '' after struct name.'') ts) (\<lambda>ts.
     parse_struct_body \<lparr>sd_name = name, sd_fields = [], sd_validations = []\<rparr> ts))"

text \<open>
  \<open>allow_trailing_bytes\<close> and \<open>validate\<close> are keywords at the start of a declaration, so no field can have these names
  unless they are quoted.
\<close>

function parse_message_body :: "message_definition \<Rightarrow> tokens \<Rightarrow> parse_error + message_definition \<times> tokens" where
  "parse_message_body d ts =
     (case match_punctuation ''}'' ts of
        Some ts \<Rightarrow> Inr (d, ts)
      | None \<Rightarrow>
     (case match_identifier ''allow_trailing_bytes'' ts of
        Some ts \<Rightarrow> parse_message_body (d\<lparr>md_allow_trailing_bytes := True\<rparr>) (consume_optional_separator ts)
      | None \<Rightarrow>
     (case match_identifier ''validate'' ts of
        Some ts \<Rightarrow>
          bind_res (parse_validation_statement ts) (\<lambda>(rule, ts).
          parse_message_body (d\<lparr>md_validations := md_validations d @ [rule]\<rparr>) (consume_optional_separator ts))
      | None \<Rightarrow>
          bind_res (parse_field_definition ts) (\<lambda>(f, ts).
          parse_message_body (d\<lparr>md_fields := md_fields d @ [f]\<rparr>) (consume_optional_separator ts)))))"
  by pat_completeness auto
termination
  by (relation "measure (\<lambda>(_, ts). length ts)")
    (auto dest!: consumption [THEN consumes_shorter] intro!: le_less_trans [OF separator_shorter])

declare parse_message_body.simps [simp del]

definition parse_message :: "tokens \<Rightarrow> parse_error + message_definition \<times> tokens" where
  "parse_message ts =
     bind_res (parse_name ''message name'' ts) (\<lambda>(name, ts).
     let (trailing, ts) = (case match_identifier ''allow_trailing_bytes'' ts of
                             None \<Rightarrow> (False, ts) | Some ts \<Rightarrow> (True, ts)) in
     bind_res (expect_punctuation ''{'' (expected_text ''{'' '' after message declaration.'') ts) (\<lambda>ts.
     parse_message_body
       \<lparr>md_name = name, md_fields = [], md_validations = [], md_allow_trailing_bytes = trailing\<rparr> ts))"

definition parse_enum_declaration :: "tokens \<Rightarrow> parse_error + enum_definition \<times> tokens" where
  "parse_enum_declaration ts =
     bind_res (parse_name ''enum name'' ts) (\<lambda>(name, ts).
     bind_res (expect_punctuation '':'' (expected_text '':'' '' after enum name.'') ts) (\<lambda>ts.
     bind_res (parse_identifier ''enum underlying type'' ts) (\<lambda>(underlying, ts).
     bind_res (underlying_scalar underlying LittleEndian) (\<lambda>(width, bo).
     bind_res (expect_punctuation ''{'' (expected_text ''{'' '' after enum declaration.'') ts) (\<lambda>ts.
     bind_res (parse_enum_body [] ts) (\<lambda>(vs, ts).
     Inr (\<lparr>end_name = name, end_width_bytes = width, end_byte_order = bo, end_values = vs\<rparr>, ts)))))))"

lemma parse_struct_body_consumes: "parse_struct_body d ts = Inr (d', ts') \<Longrightarrow> consumes ts ts'"
proof (induction d ts rule: parse_struct_body.induct)
  case (1 d ts)
  note loop = parse_struct_body.simps [of d ts]
  show ?case
  proof (cases "match_punctuation ''}'' ts")
    case (Some ts1)
    with "1.prems" show ?thesis by (auto simp: loop intro: match_token_consumes)
  next
    case no_brace: None
    show ?thesis
    proof (cases "match_identifier ''validate'' ts")
      case (Some ts1)
      with "1.prems" no_brace obtain rule ts2 where first: "parse_validation_statement ts1 = Inr (rule, ts2)"
        and rest: "parse_struct_body (d\<lparr>sd_validations := sd_validations d @ [rule]\<rparr>) (consume_optional_separator ts2)
                   = Inr (d', ts')"
        by (auto simp: loop branch_Inr)
      from "1.IH"(2) [OF no_brace Some first refl rest] Some first separator_consumes [of ts2]
      show ?thesis
        by (auto dest!: consumption) (meson consumes_some_then consumes_trans)
    next
      case None
      with "1.prems" no_brace obtain f ts2 where first: "parse_field_definition ts = Inr (f, ts2)"
        and rest: "parse_struct_body (d\<lparr>sd_fields := sd_fields d @ [f]\<rparr>) (consume_optional_separator ts2) = Inr (d', ts')"
        by (auto simp: loop branch_Inr)
      from "1.IH"(1) [OF no_brace None first refl rest] parse_field_definition_consumes [OF first]
        separator_consumes [of ts2]
      show ?thesis by (meson consumes_some_then consumes_trans)
    qed
  qed
qed

lemma parse_message_body_consumes: "parse_message_body d ts = Inr (d', ts') \<Longrightarrow> consumes ts ts'"
proof (induction d ts rule: parse_message_body.induct)
  case (1 d ts)
  note loop = parse_message_body.simps [of d ts]
  consider (brace) ts1 where "match_punctuation ''}'' ts = Some ts1"
    | (trailing) ts1 where "match_punctuation ''}'' ts = None" "match_identifier ''allow_trailing_bytes'' ts = Some ts1"
    | (rule) ts1 where "match_punctuation ''}'' ts = None" "match_identifier ''allow_trailing_bytes'' ts = None"
        "match_identifier ''validate'' ts = Some ts1"
    | (field) "match_punctuation ''}'' ts = None" "match_identifier ''allow_trailing_bytes'' ts = None"
        "match_identifier ''validate'' ts = None"
    by (meson option.exhaust)
  then show ?case
  proof cases
    case brace
    with "1.prems" show ?thesis by (auto simp: loop intro: match_token_consumes)
  next
    case trailing
    with "1.prems" have "parse_message_body (d\<lparr>md_allow_trailing_bytes := True\<rparr>) (consume_optional_separator ts1)
        = Inr (d', ts')"
      by (simp add: loop)
    from "1.IH"(3) [OF trailing this] trailing(2) separator_consumes [of ts1] show ?thesis
      by (auto dest!: consumption) (meson consumes_some_then consumes_trans)
  next
    case rule
    with "1.prems" obtain r ts2 where first: "parse_validation_statement ts1 = Inr (r, ts2)"
      and rest: "parse_message_body (d\<lparr>md_validations := md_validations d @ [r]\<rparr>) (consume_optional_separator ts2)
                 = Inr (d', ts')"
      by (auto simp: loop branch_Inr)
    from "1.IH"(2) [OF rule first refl rest] rule(3) first separator_consumes [of ts2] show ?thesis
      by (auto dest!: consumption) (meson consumes_some_then consumes_trans)
  next
    case field
    with "1.prems" obtain f ts2 where first: "parse_field_definition ts = Inr (f, ts2)"
      and rest: "parse_message_body (d\<lparr>md_fields := md_fields d @ [f]\<rparr>) (consume_optional_separator ts2) = Inr (d', ts')"
      by (auto simp: loop branch_Inr)
    from "1.IH"(1) [OF field first refl rest] parse_field_definition_consumes [OF first] separator_consumes [of ts2]
    show ?thesis by (meson consumes_some_then consumes_trans)
  qed
qed

lemmas body_consumes [consumption] = parse_struct_body_consumes parse_message_body_consumes

lemma parse_struct_consumes [consumption]: "parse_struct ts = Inr (d, ts') \<Longrightarrow> consumes ts ts'"
  by (auto simp: parse_struct_def branch_Inr dest!: consumption) (meson consumes_trans)

lemma parse_message_consumes [consumption]:
  assumes "parse_message ts = Inr (d, ts')"
  shows "consumes ts ts'"
proof -
  from assms obtain name t1 where name: "parse_name ''message name'' ts = Inr (name, t1)"
    by (auto simp: parse_message_def bind_res_Inr_iff)
  have "consumes t1 ts'"
    using assms name
    by (cases "match_identifier ''allow_trailing_bytes'' t1")
      (auto simp: parse_message_def branch_Inr dest!: consumption, (meson consumes_trans)+)
  with name show ?thesis by (auto dest: parse_name_consumes intro: consumes_trans)
qed

lemma parse_enum_declaration_consumes [consumption]: "parse_enum_declaration ts = Inr (d, ts') \<Longrightarrow> consumes ts ts'"
  by (auto simp: parse_enum_declaration_def branch_Inr dest!: consumption) (meson consumes_trans)

subsection \<open>The schema\<close>

definition empty_protocol :: protocol_definition where
  "empty_protocol = \<lparr>pd_name = '''', pd_imports = [], pd_enums = [], pd_structs = [], pd_messages = []\<rparr>"

text \<open>One turn of the loop of \<open>parse\<close>; the name of the protocol may be declared once.\<close>

definition parse_declaration :: "protocol_definition \<Rightarrow> tokens \<Rightarrow> parse_error + protocol_definition \<times> tokens" where
  "parse_declaration d ts =
     (case match_identifier ''protocol'' ts of
        Some ts \<Rightarrow>
          if pd_name d \<noteq> [] then Inl (token_error ts ''Protocol name already declared.'')
          else bind_res (parse_name ''protocol name'' ts) (\<lambda>(name, ts). Inr (d\<lparr>pd_name := name\<rparr>, ts))
      | None \<Rightarrow>
     (case match_identifier ''import'' ts of
        Some ts \<Rightarrow>
          bind_res (parse_name ''import path'' ts) (\<lambda>(path, ts).
          Inr (d\<lparr>pd_imports := pd_imports d @ [\<lparr>imp_path = path\<rparr>]\<rparr>, consume_optional_separator ts))
      | None \<Rightarrow>
     (case match_identifier ''enum'' ts of
        Some ts \<Rightarrow> bind_res (parse_enum_declaration ts) (\<lambda>(e, ts). Inr (d\<lparr>pd_enums := pd_enums d @ [e]\<rparr>, ts))
      | None \<Rightarrow>
     (case match_identifier ''struct'' ts of
        Some ts \<Rightarrow> bind_res (parse_struct ts) (\<lambda>(s, ts). Inr (d\<lparr>pd_structs := pd_structs d @ [s]\<rparr>, ts))
      | None \<Rightarrow>
     (case match_identifier ''message'' ts of
        Some ts \<Rightarrow> bind_res (parse_message ts) (\<lambda>(m, ts). Inr (d\<lparr>pd_messages := pd_messages d @ [m]\<rparr>, ts))
      | None \<Rightarrow>
          Inl (token_error ts (''Expected '' @ single_quote # ''protocol'' @ single_quote # '', '' @
            single_quote # ''import'' @ single_quote # '', '' @ single_quote # ''enum'' @ single_quote # '', '' @
            single_quote # ''struct'' @ single_quote # '', or '' @ single_quote # ''message'' @ single_quote # ''.'')))))))"

lemma parse_declaration_consumes [consumption]: "parse_declaration d ts = Inr (d', ts') \<Longrightarrow> consumes ts ts'"
  unfolding parse_declaration_def
  by (auto simp: branch_Inr dest!: consumption) (meson consumes_trans consumes_then separator_consumes)+

function parse_declarations :: "protocol_definition \<Rightarrow> tokens \<Rightarrow> parse_error + protocol_definition" where
  "parse_declarations d ts =
     (if is_end ts then Inr d
      else bind_res (parse_declaration d ts) (\<lambda>(d, ts). parse_declarations d ts))"
  by pat_completeness auto
termination
  by (relation "measure (\<lambda>(_, ts). length ts)") (auto dest!: consumption [THEN consumes_shorter])

declare parse_declarations.simps [simp del]

definition parse_upr :: "bool \<Rightarrow> tokens \<Rightarrow> parse_error + protocol_definition" where
  "parse_upr require_root_declaration ts =
     bind_res (parse_declarations empty_protocol ts) (\<lambda>d.
     if require_root_declaration \<and> pd_name d = [] then Inl (SchemaError ''UPR schema requires a protocol name.'')
     else if require_root_declaration \<and> pd_messages d = []
     then Inl (SchemaError ''UPR schema requires at least one message.'')
     else Inr d)"

text \<open>
  The \<open>upr\<close> branch of \<open>load_protocol_definition_impl\<close>; \<open>None\<close> when the lexer does not return.
  \<open>load_protocol_definition_from_upr\<close> requires the root declaration.
\<close>

definition load_upr :: "bool \<Rightarrow> string \<Rightarrow> (parse_error + protocol_definition) option" where
  "load_upr require_root_declaration schema_text =
     map_option (\<lambda>tokens. bind_res tokens (parse_upr require_root_declaration)) (tokenize schema_text)"

definition load_protocol_definition_from_upr :: "string \<Rightarrow> (parse_error + protocol_definition) option" where
  "load_protocol_definition_from_upr upr_text = load_upr True upr_text"

end
