(* ===== verification/Schema_Lexer_Properties.thy ===== *)
theory Schema_Lexer_Properties
  imports Schema_Lexer
begin

text \<open>
  When the lexer of the schema language returns, and that it reads back what a printer of tokens wrote. A token that
  starts with a dollar sign is the one input on which it loops: the sign starts an identifier but is not a part of one.
\<close>

subsection \<open>Progress\<close>

definition suffix_of :: "lexer \<Rightarrow> lexer \<Rightarrow> bool" where
  "suffix_of s' s \<longleftrightarrow> (\<exists>used. lx_input s = used @ lx_input s')"

lemma suffix_of_refl [simp]: "suffix_of s s"
  by (simp add: suffix_of_def)

lemma suffix_of_trans: "suffix_of a b \<Longrightarrow> suffix_of b c \<Longrightarrow> suffix_of a c"
  by (auto simp: suffix_of_def)

lemma suffix_of_shorter: "suffix_of s' s \<Longrightarrow> length (lx_input s') \<le> length (lx_input s)"
  by (auto simp: suffix_of_def)

lemma suffix_of_chars: "suffix_of s' s \<Longrightarrow> set (lx_input s') \<subseteq> set (lx_input s)"
  by (auto simp: suffix_of_def)

lemma suffix_of_advance [simp]: "suffix_of (lx_advance s) s"
  by (cases "lx_input s") (auto simp: suffix_of_def)

lemma suffix_of_take_while [simp]: "suffix_of (snd (lx_take_while P s)) s"
  unfolding suffix_of_def lx_take_while_rest by (metis takeWhile_dropWhile_id)

lemma suffix_of_skip: "suffix_of (lx_skip s) s"
proof (induction s rule: lx_skip.induct)
  case (1 s)
  have comment: "suffix_of (snd (lx_take_while P (lx_advance (lx_advance s)))) s" for P
    by (meson suffix_of_trans suffix_of_advance suffix_of_take_while)
  show ?case
    by (subst lx_skip.simps)
      (auto simp: Let_def intro: suffix_of_trans [OF "1.IH"(1)] suffix_of_trans [OF "1.IH"(2)]
        suffix_of_trans [OF "1.IH"(3)] comment)
qed

lemma advance_shorter: "\<not> lx_eof s \<Longrightarrow> length (lx_input (lx_advance s)) < length (lx_input s)"
  by (cases "lx_input s") (auto simp: lx_eof_def)

lemma suffix_after_advance: "suffix_of s' (lx_advance s) \<Longrightarrow> \<not> lx_eof s \<Longrightarrow> length (lx_input s') < length (lx_input s)"
  using suffix_of_shorter [of s' "lx_advance s"] advance_shorter [of s] by linarith

lemma read_string_loop_suffix: "read_string_loop q x s = Inr (x', s') \<Longrightarrow> suffix_of s' s"
proof (induction "length (lx_input s)" arbitrary: x s rule: less_induct)
  case less
  have step: "suffix_of s' s" if "suffix_of s' (lx_advance s) \<or> suffix_of s' (lx_advance (lx_advance s))"
    using that by (meson suffix_of_trans suffix_of_advance)
  have "\<not> lx_eof s" using less.prems by (subst (asm) read_string_loop.simps) (auto split: if_splits)
  then have short: "length (lx_input s) - Suc 0 < length (lx_input s)"
    "length (lx_input s) - Suc (Suc 0) < length (lx_input s)"
    by (auto simp: lx_eof_def)
  show ?case
    using less.prems short
    by (subst (asm) read_string_loop.simps)
      (auto simp: Let_def numeral_2_eq_2 intro!: step dest!: less.hyps [rotated] split: if_splits option.splits)
qed

text \<open>A token that does not start with a dollar sign takes at least one character.\<close>

lemma take_while_progress:
  assumes "\<not> lx_eof s" and "P (lx_peek 0 s)"
  shows "length (lx_input (snd (lx_take_while P s))) < length (lx_input s)"
proof (cases "lx_input s")
  case (Cons c cs)
  with assms(2) show ?thesis
    by (simp add: lx_take_while_rest lx_peek_def length_dropWhile_le less_Suc_eq_le)
qed (use assms(1) in \<open>simp add: lx_eof_def\<close>)

lemma read_number_progress:
  assumes "read_number s = Inr (t, s')" and "\<not> lx_eof s" and "is_digit (lx_peek 0 s)"
  shows "suffix_of s' s \<and> length (lx_input s') < length (lx_input s)"
proof (cases "lx_peek 0 s = CHR ''0'' \<and> (lx_peek 1 s = CHR ''x'' \<or> lx_peek 1 s = CHR ''X'')")
  case True
  then have s': "s' = snd (lx_take_while is_xdigit (lx_advance (lx_advance s)))"
    using assms(1) by (auto simp: read_number_def Let_def split: if_splits prod.splits)
  then have "suffix_of s' (lx_advance s)"
    by (simp, meson suffix_of_trans suffix_of_advance suffix_of_take_while)
  then show ?thesis using assms(2) by (meson suffix_of_trans suffix_of_advance suffix_after_advance)
next
  case False
  then have "s' = snd (lx_take_while is_digit s)"
    using assms(1) by (auto simp: read_number_def Let_def split: if_splits prod.splits)
  then show ?thesis using take_while_progress [OF assms(2), of is_digit] assms(3) by simp
qed

lemma lex_token_progress:
  assumes "lex_token s = Inr (t, s')" and "\<not> lx_eof s" and "lx_peek 0 s \<noteq> CHR ''$''"
  shows "suffix_of s' s \<and> length (lx_input s') < length (lx_input s)"
proof -
  consider (ident) "is_identifier_start (lx_peek 0 s)"
    | (number) "\<not> is_identifier_start (lx_peek 0 s)" "is_digit (lx_peek 0 s)"
    | (string) "\<not> is_identifier_start (lx_peek 0 s)" "\<not> is_digit (lx_peek 0 s)"
        "lx_peek 0 s = double_quote \<or> lx_peek 0 s = single_quote"
    | (punctuation) "\<not> is_identifier_start (lx_peek 0 s)" "\<not> is_digit (lx_peek 0 s)"
        "\<not> (lx_peek 0 s = double_quote \<or> lx_peek 0 s = single_quote)" "is_punctuation (lx_peek 0 s)"
    using assms(1) by (auto simp: lex_token_def Let_def split: if_splits)
  then show ?thesis
  proof cases
    case ident
    then have "is_identifier_part (lx_peek 0 s)"
      using assms(3) by (auto simp: is_identifier_start_def is_identifier_part_def)
    moreover have "s' = snd (lx_take_while is_identifier_part s)"
      using assms(1) ident by (auto simp: lex_token_def Let_def read_identifier_def split: prod.splits)
    ultimately show ?thesis using take_while_progress [OF assms(2)] by simp
  next
    case number
    then show ?thesis using assms read_number_progress by (auto simp: lex_token_def Let_def)
  next
    case string
    then obtain x where "read_string_loop (lx_peek 0 s) [] (lx_advance s) = Inr (x, s')"
      using assms(1) by (auto simp: lex_token_def Let_def read_string_def bind_res_Inr_iff)
    then show ?thesis
      using assms(2) by (meson read_string_loop_suffix suffix_of_trans suffix_of_advance suffix_after_advance)
  next
    case punctuation
    then have "s' = lx_advance s" using assms(1) by (simp add: lex_token_def Let_def read_punctuation_def)
    then show ?thesis using advance_shorter [OF assms(2)] by simp
  qed
qed

lemma tokenize_loop_returns:
  "CHR ''$'' \<notin> set (lx_input s) \<Longrightarrow> \<exists>r. tokenize_loop tokens s = Some r"
proof (induction "length (lx_input s)" arbitrary: tokens s rule: less_induct)
  case less
  let ?s = "lx_skip s"
  have skip: "length (lx_input ?s) \<le> length (lx_input s)" "CHR ''$'' \<notin> set (lx_input ?s)"
    using suffix_of_shorter [OF suffix_of_skip [of s]] suffix_of_chars [OF suffix_of_skip [of s]] less.prems by auto
  show ?case
  proof (cases "lx_eof ?s")
    case True
    then show ?thesis by (subst tokenize_loop.simps) (simp add: Let_def)
  next
    case False
    show ?thesis
    proof (cases "lex_token ?s")
      case (Inl e)
      with False show ?thesis by (subst tokenize_loop.simps) (simp add: Let_def)
    next
      case (Inr r)
      have "lx_peek 0 ?s \<noteq> CHR ''$''" using False skip(2) by (cases "lx_input ?s") (auto simp: lx_eof_def lx_peek_def)
      with False Inr have step: "suffix_of (snd r) ?s" "length (lx_input (snd r)) < length (lx_input ?s)"
        using lex_token_progress [of ?s "fst r" "snd r"] by auto
      then have "\<exists>y. tokenize_loop (tokens @ [fst r]) (snd r) = Some y"
        using less.hyps [of "snd r"] skip suffix_of_chars [OF step(1)] by auto
      with False Inr show ?thesis by (subst tokenize_loop.simps) (simp add: Let_def)
    qed
  qed
qed

theorem tokenize_returns: "CHR ''$'' \<notin> set text \<Longrightarrow> \<exists>r. tokenize text = Some r"
  unfolding tokenize_def by (rule tokenize_loop_returns) (simp add: new_lexer_def)

subsection \<open>The dollar sign\<close>

lemma skip_stays:
  assumes "lx_input s = c # cs" and "\<not> is_space c" and "c \<noteq> CHR ''#''" and "c \<noteq> CHR ''/''"
  shows "lx_skip s = s"
  by (subst lx_skip.simps) (use assms in \<open>simp add: lx_eof_def lx_peek_def Let_def\<close>)

lemma dollar_token:
  assumes "lx_input s = CHR ''$'' # cs"
  shows "lex_token s = Inr (token_at s TK_Identifier [], s)"
  using assms by (subst lex_token_def, subst read_identifier_def, subst lx_take_while.simps)
    (simp add: Let_def lx_peek_def lx_eof_def is_identifier_start_def is_identifier_part_def is_alpha_def is_digit_def
      char_between_def)

lemma tokenize_loop_dollar:
  assumes "tokenize_loop tokens s = Some y"
  shows "\<forall>cs. lx_input s \<noteq> CHR ''$'' # cs"
proof (rule tokenize_loop.raw_induct [OF _ assms], intro allI notI)
  fix f tokens s y cs
  assume IH: "\<And>tokens s y. f tokens s = Some y \<Longrightarrow> \<forall>cs. lx_input s \<noteq> CHR ''$'' # cs"
    and result: "(let s = lx_skip s in
        if lx_eof s then Some (Inr (tokens @ [token_at s TK_End []]))
        else (case lex_token s of Inl e \<Rightarrow> Some (Inl e) | Inr r \<Rightarrow> f (tokens @ [fst r]) (snd r))) = Some y"
    and dollar: "lx_input s = CHR ''$'' # cs"
  have "lx_skip s = s"
    by (rule skip_stays [OF dollar]) (simp_all add: is_space_def char_between_def)
  with result dollar have "f (tokens @ [token_at s TK_Identifier []]) s = Some y"
    by (simp add: Let_def dollar_token [OF dollar] lx_eof_def)
  with IH dollar show False by blast
qed

theorem tokenize_dollar_loops: "tokenize (CHR ''$'' # text) = None"
  using tokenize_loop_dollar [of "[]" "new_lexer (CHR ''$'' # text)"]
  by (cases "tokenize (CHR ''$'' # text)") (auto simp: tokenize_def new_lexer_def)

subsection \<open>Tokens written and read back\<close>

text \<open>The kind and text of a token, without its position.\<close>

type_synonym word_of_text = "upr_token_kind \<times> string"

definition bare_token :: "upr_token \<Rightarrow> word_of_text" where
  "bare_token t = (ut_kind t, ut_text t)"

definition escape_char :: "char \<Rightarrow> string" where
  "escape_char c = (if c = double_quote \<or> c = backslash then [backslash, c] else [c])"

definition quoted :: "string \<Rightarrow> string" where
  "quoted x = double_quote # concat (map escape_char x) @ [double_quote]"

text \<open>How a token is written.\<close>

definition spell :: "word_of_text \<Rightarrow> string" where
  "spell w = (if fst w = TK_String then quoted (snd w) else snd w)"

definition spellable :: "word_of_text \<Rightarrow> bool" where
  "spellable w \<longleftrightarrow>
     (case w of
        (TK_Identifier, x) \<Rightarrow> x \<noteq> [] \<and> is_identifier_start (hd x) \<and> list_all is_identifier_part x
      | (TK_Number, x) \<Rightarrow> x \<noteq> [] \<and> list_all is_digit x
      | (TK_String, x) \<Rightarrow> True
      | (TK_Punctuation, x) \<Rightarrow> length x = 1 \<and> is_punctuation (hd x)
      | (TK_End, x) \<Rightarrow> False)"

definition render :: "word_of_text list \<Rightarrow> string" where
  "render ws = concat (map (\<lambda>w. CHR '' '' # spell w) ws)"

text \<open>What may follow a token: the end of the input, or the blank before the next one.\<close>

definition blank_or_end :: "string \<Rightarrow> bool" where
  "blank_or_end x \<longleftrightarrow> x = [] \<or> hd x = CHR '' ''"

lemma take_while_text:
  assumes "lx_input s = x @ rest" and "list_all P x" and "blank_or_end rest" and "\<not> P (CHR '' '')"
  shows "fst (lx_take_while P s) = x \<and> lx_input (snd (lx_take_while P s)) = rest"
proof -
  have none: "takeWhile P rest = [] \<and> dropWhile P rest = rest"
    using assms(3,4) by (cases rest) (auto simp: blank_or_end_def)
  show ?thesis
    unfolding lx_take_while_text lx_take_while_rest assms(1)
    using assms(2) none by (simp add: takeWhile_append2 dropWhile_append2 list_all_iff)
qed

lemma read_string_loop_quoted:
  assumes "lx_input s = concat (map escape_char x) @ double_quote # rest"
  shows "\<exists>s'. read_string_loop double_quote pre s = Inr (pre @ x, s') \<and> lx_input s' = rest"
  using assms
proof (induction x arbitrary: pre s)
  case Nil
  then show ?case by (subst read_string_loop.simps) (simp add: lx_eof_def lx_peek_def Let_def)
next
  case (Cons c x)
  show ?case
  proof (cases "c = double_quote \<or> c = backslash")
    case True
    then have e: "escape_char c = [backslash, c]" by (simp add: escape_char_def)
    with Cons.prems have "lx_input (lx_advance (lx_advance s)) = concat (map escape_char x) @ double_quote # rest"
      by simp
    from Cons.IH [OF this, of "pre @ [c]"] True Cons.prems e show ?thesis
      by (subst read_string_loop.simps)
        (auto simp: lx_eof_def lx_peek_def Let_def unescape_def double_quote_def backslash_def)
  next
    case False
    then have e: "escape_char c = [c]" by (simp add: escape_char_def)
    with Cons.prems have "lx_input (lx_advance s) = concat (map escape_char x) @ double_quote # rest" by simp
    from Cons.IH [OF this, of "pre @ [c]"] False Cons.prems e show ?thesis
      by (subst read_string_loop.simps) (auto simp: lx_eof_def lx_peek_def Let_def)
  qed
qed

lemma digit_not_start: "is_digit c \<Longrightarrow> \<not> is_identifier_start c"
  by (auto simp: is_identifier_start_def is_digit_def is_alpha_def char_between_def)

lemma blank_not_part: "\<not> is_identifier_part (CHR '' '')" "\<not> is_digit (CHR '' '')"
  by (simp_all add: is_identifier_part_def is_alpha_def is_digit_def char_between_def)

lemma punctuation_classes:
  "is_punctuation c \<Longrightarrow> \<not> is_identifier_start c \<and> \<not> is_digit c \<and> c \<noteq> double_quote \<and> c \<noteq> single_quote"
  by (auto simp: is_punctuation_def is_identifier_start_def is_alpha_def is_digit_def char_between_def
      double_quote_def single_quote_def)

lemma quote_classes: "\<not> is_identifier_start double_quote" "\<not> is_digit double_quote"
  by (simp_all add: is_identifier_start_def is_alpha_def is_digit_def char_between_def double_quote_def)

lemma lex_spelled:
  assumes "spellable w" and input: "lx_input s = spell w @ rest" and rest: "blank_or_end rest"
  shows "\<exists>t s'. lex_token s = Inr (t, s') \<and> bare_token t = w \<and> lx_input s' = rest"
proof -
  obtain kind x where w: "w = (kind, x)" by (cases w)
  show ?thesis
  proof (cases kind)
    case TK_Identifier
    with assms w have x: "x \<noteq> []" "is_identifier_start (hd x)" "list_all is_identifier_part x" "lx_input s = x @ rest"
      by (auto simp: spellable_def spell_def)
    then have peek: "lx_peek 0 s = hd x" by (cases x) (auto simp: lx_peek_def)
    from take_while_text [OF x(4,3) rest blank_not_part(1)] x(2) peek TK_Identifier w show ?thesis
      by (auto simp: lex_token_def Let_def read_identifier_def bare_token_def token_at_def split: prod.split)
  next
    case TK_Number
    with assms w have x: "x \<noteq> []" "list_all is_digit x" "lx_input s = x @ rest"
      by (auto simp: spellable_def spell_def)
    then obtain c cs where c: "x = c # cs" "is_digit c" by (cases x) auto
    have second: "lx_peek 1 s \<noteq> CHR ''x''" "lx_peek 1 s \<noteq> CHR ''X''"
      using x c rest
      by (cases cs; cases rest;
          auto simp: lx_peek_def blank_or_end_def is_digit_def char_between_def)+
    from take_while_text [OF x(3,2) rest blank_not_part(2)] c x(3) second digit_not_start [OF c(2)] TK_Number w
    show ?thesis
      by (auto simp: lex_token_def Let_def read_number_def bare_token_def token_at_def lx_peek_def split: prod.split)
  next
    case TK_String
    with assms(2) w have "lx_input (lx_advance s) = concat (map escape_char x) @ double_quote # rest"
      and first: "lx_peek 0 s = double_quote"
      by (auto simp: spell_def quoted_def lx_peek_def)
    from read_string_loop_quoted [OF this(1), of "[]"] first TK_String w show ?thesis
      by (auto simp: lex_token_def Let_def read_string_def bare_token_def token_at_def quote_classes)
  next
    case TK_Punctuation
    with assms w obtain c where c: "x = [c]" "is_punctuation c" "lx_input s = c # rest"
      by (auto simp: spellable_def spell_def length_Suc_conv)
    from punctuation_classes [OF c(2)] c TK_Punctuation w show ?thesis
      by (auto simp: lex_token_def Let_def read_punctuation_def bare_token_def token_at_def lx_peek_def)
  next
    case TK_End
    with assms w show ?thesis by (simp add: spellable_def)
  qed
qed

text \<open>The first character of a written token is no white space and starts no comment.\<close>

lemma spelled_start:
  assumes "spellable w"
  obtains c cs where "spell w = c # cs" "\<not> is_space c" "c \<noteq> CHR ''#''" "c \<noteq> CHR ''/''"
proof -
  have classes: "\<not> is_space c \<and> c \<noteq> CHR ''#'' \<and> c \<noteq> CHR ''/''"
    if "is_identifier_start c \<or> is_digit c \<or> c = double_quote \<or> is_punctuation c" for c
  proof -
    have "is_identifier_start c \<or> is_digit c \<or> c = double_quote \<or> is_punctuation c \<Longrightarrow> \<not> is_space c"
      by (auto simp: is_identifier_start_def is_alpha_def is_digit_def is_space_def is_punctuation_def
        char_between_def double_quote_def)
    moreover have "\<not> (is_identifier_start d \<or> is_digit d \<or> d = double_quote \<or> is_punctuation d)"
      if "d = CHR ''#'' \<or> d = CHR ''/''" for d
      using that by (auto simp: is_identifier_start_def is_alpha_def is_digit_def is_punctuation_def
        char_between_def double_quote_def)
    ultimately show ?thesis using that by blast
  qed
  have "\<exists>c cs. spell w = c # cs \<and> (is_identifier_start c \<or> is_digit c \<or> c = double_quote \<or> is_punctuation c)"
    using assms by (cases "snd w") (auto simp: spellable_def spell_def quoted_def split: prod.splits upr_token_kind.splits)
  with classes that show ?thesis by blast
qed

lemma skip_blank:
  assumes "spellable w" and "lx_input s = CHR '' '' # spell w @ rest"
  shows "lx_input (lx_skip s) = spell w @ rest"
proof -
  obtain c cs where c: "spell w = c # cs" "\<not> is_space c" "c \<noteq> CHR ''#''" "c \<noteq> CHR ''/''"
    using spelled_start [OF assms(1)] .
  have "lx_skip s = lx_skip (lx_advance s)"
    by (subst lx_skip.simps) (simp add: assms(2) lx_eof_def lx_peek_def Let_def is_space_def)
  also have "\<dots> = lx_advance s" by (rule skip_stays [of _ c "cs @ rest"]) (use assms(2) c in simp_all)
  finally show ?thesis by (simp add: assms(2))
qed

lemma render_boundary: "blank_or_end (render ws)"
  by (cases ws) (simp_all add: render_def blank_or_end_def)

lemma tokenize_loop_rendered:
  assumes "list_all spellable ws" and "lx_input s = render ws"
  shows "\<exists>ts. tokenize_loop pre s = Some (Inr (pre @ ts)) \<and> map bare_token ts = ws @ [(TK_End, [])]"
  using assms
proof (induction ws arbitrary: pre s)
  case Nil
  then have "lx_eof (lx_skip s)" "lx_skip s = s"
    by (subst lx_skip.simps, simp add: lx_eof_def render_def)+
  then show ?case by (subst tokenize_loop.simps) (simp add: Let_def bare_token_def token_at_def)
next
  case (Cons w ws)
  then have w: "spellable w" and input: "lx_input s = CHR '' '' # spell w @ render ws"
    by (simp_all add: render_def)
  from skip_blank [OF this] have skipped: "lx_input (lx_skip s) = spell w @ render ws" .
  from lex_spelled [OF w this render_boundary] obtain t s' where
    token: "lex_token (lx_skip s) = Inr (t, s')" "bare_token t = w" "lx_input s' = render ws" by blast
  from Cons.IH [OF _ token(3), of "pre @ [t]"] Cons.prems(1) obtain ts where
    ts: "tokenize_loop (pre @ [t]) s' = Some (Inr (pre @ t # ts))" "map bare_token ts = ws @ [(TK_End, [])]" by auto
  obtain c cs where "spell w = c # cs" using spelled_start [OF w] .
  with skipped have "\<not> lx_eof (lx_skip s)" by (simp add: lx_eof_def)
  with token ts have "tokenize_loop pre s = Some (Inr (pre @ (t # ts)))"
    by (subst tokenize_loop.simps) (simp add: Let_def)
  with token(2) ts(2) show ?case by (intro exI [of _ "t # ts"]) simp
qed

lemma tokenize_rendered:
  "list_all spellable ws \<Longrightarrow>
   \<exists>ts. tokenize (render ws) = Some (Inr ts) \<and> map bare_token ts = ws @ [(TK_End, [])]"
  using tokenize_loop_rendered [of ws "new_lexer (render ws)" "[]"] by (simp add: tokenize_def new_lexer_def)

end
