(* ===== verification/Schema_Text.thy ===== *)
theory Schema_Text
  imports Schema_Parser Schema_Lexer_Properties Protocol_Discovery
begin

text \<open>
  A printer of schemas, the specification the loader of the UPR language is judged by: the tokens of a schema in the
  order the grammar has them, and the schemas the language can express. It is not part of the program, which only reads
  schemas. Names are printed as strings, so that any name can be written; a type that is referred to by a field must be
  an identifier, as the parser takes no string there.
\<close>

subsection \<open>Words\<close>

definition pw :: "string \<Rightarrow> word_of_text" where "pw x = (TK_Punctuation, x)"
definition iw :: "string \<Rightarrow> word_of_text" where "iw x = (TK_Identifier, x)"
definition sw :: "string \<Rightarrow> word_of_text" where "sw x = (TK_String, x)"
definition nw :: "nat \<Rightarrow> word_of_text" where "nw n = (TK_Number, decimal n)"

lemmas word_defs = pw_def iw_def sw_def nw_def

text \<open>The name of a scalar type: its stem, width in bits and byte order.\<close>

definition order_suffix :: "byte_order \<Rightarrow> string" where
  "order_suffix bo = (if bo = BigEndian then ''_be'' else '''')"

definition scalar_name :: "string \<Rightarrow> nat \<Rightarrow> byte_order \<Rightarrow> string" where
  "scalar_name stem width bo = stem @ decimal (8 * width) @ order_suffix bo"

subsection \<open>Parts of a field\<close>

definition print_enum_value :: "enum_value_definition \<Rightarrow> word_of_text list" where
  "print_enum_value v = [nw (unat (ev_value v)), pw ''='', sw (ev_name v)]"

definition print_enum_body :: "enum_value_definition list \<Rightarrow> word_of_text list" where
  "print_enum_body vs = concat (map print_enum_value vs) @ [pw ''}'']"

definition print_bit_field :: "bit_field_definition \<Rightarrow> word_of_text list" where
  "print_bit_field b =
     [sw (bfd_name b), pw ''@'', nw (bfd_offset_bits b), pw '':'', nw (bfd_width_bits b)] @
     (if bfd_is_signed b then [iw ''signed''] else []) @
     pw ''{'' # print_enum_body (bfd_enum_values b)"

definition print_bit_field_body :: "bit_field_definition list \<Rightarrow> word_of_text list" where
  "print_bit_field_body bs = concat (map print_bit_field bs) @ [pw ''}'']"

definition print_variant_case :: "variant_case_definition \<Rightarrow> word_of_text list" where
  "print_variant_case c = [nw (unat (vcd_tag_value c)), pw ''='', sw (vcd_referenced_type c)]"

definition print_variant_case_body :: "variant_case_definition list \<Rightarrow> word_of_text list" where
  "print_variant_case_body cs = concat (map print_variant_case cs) @ [pw ''}'']"

definition print_condition :: "condition_definition \<Rightarrow> word_of_text list" where
  "print_condition c =
     [pw ''('', sw (cnd_field c), pw ''='', pw ''='', nw (unat (cnd_equals_unsigned c)), pw '')'']"

definition print_size :: "string \<Rightarrow> nat \<Rightarrow> word_of_text list" where
  "print_size from_field n = [pw ''['', if from_field \<noteq> [] then sw from_field else nw n, pw '']'']"

definition print_field_type :: "field_definition \<Rightarrow> word_of_text list" where
  "print_field_type f =
     (case fd_kind f of
        KUnsigned \<Rightarrow> [iw (scalar_name ''uint'' (fd_width_bytes f) (fd_byte_order f))]
      | KSigned \<Rightarrow> [iw (scalar_name ''int'' (fd_width_bytes f) (fd_byte_order f))]
      | KFloat32 \<Rightarrow> [iw (''float32'' @ order_suffix (fd_byte_order f))]
      | KFloat64 \<Rightarrow> [iw (''float64'' @ order_suffix (fd_byte_order f))]
      | KBytes \<Rightarrow> iw (if fd_is_reserved f then ''reserved'' else ''bytes'') # print_size (fd_size_from_field f) (fd_fixed_size f)
      | KString \<Rightarrow> iw (if fd_string_encoding f = Ascii then ''ascii'' else ''utf8'') # print_size (fd_size_from_field f) (fd_fixed_size f)
      | KStruct \<Rightarrow> [iw (fd_referenced_type f)]
      | KEnum \<Rightarrow> [iw ''enum'', pw ''<'', iw (scalar_name ''uint'' (fd_width_bytes f) (fd_byte_order f)), pw ''>'']
      | KCollection \<Rightarrow> iw (fd_referenced_type f) # print_size (fd_count_from_field f) (fd_fixed_count f)
      | KVariant \<Rightarrow> [iw ''variant'', pw ''('', sw (fd_tag_from_field f), pw '')''])"

definition print_checksum :: "checksum_definition \<Rightarrow> word_of_text list" where
  "print_checksum c =
     [iw ''checksum'', pw ''('', iw (ckd_algorithm c), pw '','', sw (ckd_from c), pw '','', sw (ckd_to c), pw '')'']"

definition print_presence :: "presence_definition \<Rightarrow> word_of_text list" where
  "print_presence p = [iw ''present'', pw ''('', sw (prd_field p), pw '','', nw (prd_bit_index p), pw '')'']"

definition print_option :: "('a \<Rightarrow> word_of_text list) \<Rightarrow> 'a option \<Rightarrow> word_of_text list" where
  "print_option p x = (case x of None \<Rightarrow> [] | Some v \<Rightarrow> p v)"

definition print_field_body :: "field_definition \<Rightarrow> word_of_text list" where
  "print_field_body f =
     pw ''{'' #
       (if fd_kind f = KEnum then print_enum_body (fd_enum_values f)
        else if fd_kind f = KVariant then print_variant_case_body (fd_variant_cases f)
        else print_bit_field_body (fd_bit_fields f))"

definition print_field :: "field_definition \<Rightarrow> word_of_text list" where
  "print_field f =
     [sw (fd_name f), pw '':''] @ print_field_type f @
     (if fd_has_expected_unsigned f then [pw ''='', nw (unat (fd_expected_unsigned f))] else []) @
     print_option print_checksum (fd_checksum f) @
     print_option (\<lambda>c. iw ''if'' # print_condition c) (fd_condition f) @
     print_option print_presence (fd_presence f) @
     [iw ''align'', pw ''('', nw (fd_alignment f), pw '')''] @
     print_field_body f"

subsection \<open>Declarations\<close>

fun print_operator :: "validation_operator \<Rightarrow> word_of_text list" where
  "print_operator OpEq = [pw ''='', pw ''='']"
| "print_operator OpNe = [pw ''!'', pw ''='']"
| "print_operator OpLt = [pw ''<'']"
| "print_operator OpLe = [pw ''<'', pw ''='']"
| "print_operator OpGt = [pw ''>'']"
| "print_operator OpGe = [pw ''>'', pw ''='']"

definition print_validation :: "validation_rule_definition \<Rightarrow> word_of_text list" where
  "print_validation r =
     [iw ''validate'', pw ''('', sw (vrd_field r)] @ print_operator (vrd_op r) @
     [if vrd_compare_to_field r then sw (vrd_other_field r) else nw (unat (vrd_value r)),
      pw ''*'', nw (unat (vrd_multiplier r))] @
     print_option (\<lambda>c. pw '','' # iw ''if'' # print_condition c) (vrd_when r) @ [pw '')'']"

definition print_body :: "field_definition list \<Rightarrow> validation_rule_definition list \<Rightarrow> word_of_text list" where
  "print_body fs rs = concat (map print_field fs) @ concat (map print_validation rs) @ [pw ''}'']"

definition print_enum :: "enum_definition \<Rightarrow> word_of_text list" where
  "print_enum e =
     [iw ''enum'', sw (end_name e), pw '':'', iw (scalar_name ''uint'' (end_width_bytes e) (end_byte_order e)), pw ''{''] @
     print_enum_body (end_values e)"

definition print_struct :: "struct_definition \<Rightarrow> word_of_text list" where
  "print_struct s = [iw ''struct'', sw (sd_name s), pw ''{''] @ print_body (sd_fields s) (sd_validations s)"

definition print_message :: "message_definition \<Rightarrow> word_of_text list" where
  "print_message m =
     [iw ''message'', sw (md_name m)] @ (if md_allow_trailing_bytes m then [iw ''allow_trailing_bytes''] else []) @
     [pw ''{''] @ print_body (md_fields m) (md_validations m)"

definition print_protocol :: "protocol_definition \<Rightarrow> word_of_text list" where
  "print_protocol d =
     [iw ''protocol'', sw (pd_name d)] @
     concat (map (\<lambda>i. [iw ''import'', sw (imp_path i)]) (pd_imports d)) @
     concat (map print_enum (pd_enums d)) @
     concat (map print_struct (pd_structs d)) @
     concat (map print_message (pd_messages d))"

subsection \<open>The schemas the language expresses\<close>

definition identifier_text :: "string \<Rightarrow> bool" where
  "identifier_text x \<longleftrightarrow> x \<noteq> [] \<and> is_identifier_start (hd x) \<and> list_all is_identifier_part x"

text \<open>A type name the parser takes for a reference to a struct.\<close>

definition reference_name :: "string \<Rightarrow> bool" where
  "reference_name x \<longleftrightarrow>
     identifier_text x \<and>
     to_lower x \<notin> {''bytes'', ''reserved'', ''string'', ''ascii'', ''utf8'', ''enum'', ''variant''} \<and>
     \<not> string_starts_with (to_lower x) ''uint'' \<and> \<not> string_starts_with (to_lower x) ''int'' \<and>
     \<not> string_starts_with (to_lower x) ''float32'' \<and> \<not> string_starts_with (to_lower x) ''float64''"

definition scalar_width :: "nat \<Rightarrow> bool" where
  "scalar_width w \<longleftrightarrow> 1 \<le> w \<and> w \<le> 255"

text \<open>The field a type declares, with the attributes its kind does not use at their initial values.\<close>

definition typed_field :: "field_definition \<Rightarrow> field_definition" where
  "typed_field f =
     (let d = default_field_definition\<lparr>fd_name := fd_name f, fd_kind := fd_kind f\<rparr>;
          sized = (if fd_size_from_field f \<noteq> [] then d\<lparr>fd_size_from_field := fd_size_from_field f\<rparr>
                   else d\<lparr>fd_fixed_size := fd_fixed_size f\<rparr>) in
      case fd_kind f of
        KUnsigned \<Rightarrow> d\<lparr>fd_width_bytes := fd_width_bytes f, fd_byte_order := fd_byte_order f\<rparr>
      | KSigned \<Rightarrow> d\<lparr>fd_width_bytes := fd_width_bytes f, fd_byte_order := fd_byte_order f\<rparr>
      | KFloat32 \<Rightarrow> d\<lparr>fd_width_bytes := 4, fd_byte_order := fd_byte_order f\<rparr>
      | KFloat64 \<Rightarrow> d\<lparr>fd_width_bytes := 8, fd_byte_order := fd_byte_order f\<rparr>
      | KBytes \<Rightarrow> sized\<lparr>fd_is_reserved := fd_is_reserved f\<rparr>
      | KString \<Rightarrow> sized\<lparr>fd_string_encoding := fd_string_encoding f\<rparr>
      | KStruct \<Rightarrow> d\<lparr>fd_referenced_type := fd_referenced_type f\<rparr>
      | KEnum \<Rightarrow> d\<lparr>fd_width_bytes := fd_width_bytes f, fd_byte_order := fd_byte_order f\<rparr>
      | KCollection \<Rightarrow>
          (if fd_count_from_field f \<noteq> [] then d\<lparr>fd_count_from_field := fd_count_from_field f\<rparr>
           else d\<lparr>fd_fixed_count := fd_fixed_count f\<rparr>)\<lparr>fd_referenced_type := fd_referenced_type f\<rparr>
      | KVariant \<Rightarrow> d\<lparr>fd_tag_from_field := fd_tag_from_field f\<rparr>)"

definition canonical_field :: "field_definition \<Rightarrow> field_definition" where
  "canonical_field f =
     (let g = (typed_field f)\<lparr>
        fd_has_expected_unsigned := fd_has_expected_unsigned f,
        fd_expected_unsigned := if fd_has_expected_unsigned f then fd_expected_unsigned f else 0,
        fd_checksum := fd_checksum f, fd_condition := fd_condition f, fd_presence := fd_presence f,
        fd_alignment := fd_alignment f\<rparr> in
      if fd_kind f = KEnum then g\<lparr>fd_enum_values := fd_enum_values f\<rparr>
      else if fd_kind f = KVariant then g\<lparr>fd_variant_cases := fd_variant_cases f\<rparr>
      else g\<lparr>fd_bit_fields := fd_bit_fields f\<rparr>)"

definition expressible_bit_field :: "bit_field_definition \<Rightarrow> bool" where
  "expressible_bit_field b \<longleftrightarrow> bfd_offset_bits b \<le> 255 \<and> bfd_width_bits b \<le> 255"

definition field_in_range :: "field_definition \<Rightarrow> bool" where
  "field_in_range f \<longleftrightarrow>
     (fd_kind f \<in> {KUnsigned, KSigned, KEnum} \<longrightarrow> scalar_width (fd_width_bytes f)) \<and>
     (fd_kind f \<in> {KStruct, KCollection} \<longrightarrow> reference_name (fd_referenced_type f)) \<and>
     fd_fixed_size f < 2 ^ 64 \<and> fd_fixed_count f < 2 ^ 64 \<and> fd_alignment f < 2 ^ 64 \<and>
     (case fd_checksum f of None \<Rightarrow> True | Some c \<Rightarrow> identifier_text (ckd_algorithm c)) \<and>
     (case fd_presence f of None \<Rightarrow> True | Some p \<Rightarrow> prd_bit_index p \<le> 255) \<and>
     list_all expressible_bit_field (fd_bit_fields f)"

definition expressible_field :: "field_definition \<Rightarrow> bool" where
  "expressible_field f \<longleftrightarrow> field_in_range f \<and> canonical_field f = f"

text \<open>A rule compares to a field or to a value, and keeps nothing of the other.\<close>

definition expressible_rule :: "validation_rule_definition \<Rightarrow> bool" where
  "expressible_rule r \<longleftrightarrow> (if vrd_compare_to_field r then vrd_value r = 0 else vrd_other_field r = '''')"

definition expressible_protocol :: "protocol_definition \<Rightarrow> bool" where
  "expressible_protocol d \<longleftrightarrow>
     pd_name d \<noteq> [] \<and> pd_messages d \<noteq> [] \<and>
     list_all (\<lambda>e. scalar_width (end_width_bytes e)) (pd_enums d) \<and>
     list_all (\<lambda>s. list_all expressible_field (sd_fields s) \<and> list_all expressible_rule (sd_validations s)) (pd_structs d) \<and>
     list_all (\<lambda>m. list_all expressible_field (md_fields m) \<and> list_all expressible_rule (md_validations m)) (pd_messages d)"

definition schema_text :: "protocol_definition \<Rightarrow> string" where
  "schema_text d = render (print_protocol d)"

end
