(* ===== verification/Schema_Reading.thy ===== *)
theory Schema_Reading
  imports Schema_Text
begin

text \<open>
  What the printer writes, lexer and parser read back. A lemma on a parser function is about tokens whose kinds and texts
  are those of the printed words, at any position, followed by any tokens that cannot be taken for a part of it.
\<close>

subsection \<open>Numbers\<close>

lemma decimal_digits: "list_all is_digit (decimal n)"
proof (induction n rule: decimal.induct)
  case (1 n)
  then show ?case
    by (subst decimal.simps) (auto simp: is_digit_def [of "char_of _"] char_between_def of_char_of)
qed

lemma decimal_nonempty: "decimal n \<noteq> []"
  by (subst decimal.simps) simp

lemma digit_value: "d < 10 \<Longrightarrow> digit_number (char_of (48 + d)) = d"
  by (simp add: digit_number_def of_char_of)

lemma digit_in_base_10: "is_digit c \<Longrightarrow> digit_in_base 10 c = Some (digit_number c)"
  by (auto simp: digit_in_base_def digit_number_def is_digit_def char_between_def Let_def)

lemma fold_decimal: "fold (\<lambda>c n. n * 10 + digit_number c) (decimal n) 0 = n"
proof (induction n rule: decimal.induct)
  case (1 n)
  then show ?case
    by (subst decimal.simps) (auto simp: digit_value)
qed

lemma stoull_digits_decimal: "stoull_digits 10 (decimal n) = map digit_number (decimal n)"
proof -
  have all: "takeWhile (\<lambda>c. digit_in_base 10 c \<noteq> None) (decimal n) = decimal n"
    using decimal_digits [of n] by (auto simp: takeWhile_eq_all_conv list_all_iff digit_in_base_10)
  show ?thesis
    unfolding stoull_digits_def all
    by (rule map_cong [OF refl]) (use decimal_digits [of n] in \<open>auto simp: list_all_iff digit_in_base_10\<close>)
qed

lemma stoull_decimal: "n < 2 ^ 64 \<Longrightarrow> stoull 10 (decimal n) = Some (word_of_nat n)"
  by (simp add: stoull_def stoull_digits_decimal fold_map o_def fold_decimal decimal_nonempty del: power_numeral)

lemma number_base_decimal: "number_base (decimal n) = 10"
proof -
  have "c \<noteq> CHR ''x'' \<and> c \<noteq> CHR ''X''" if "is_digit c" for c
    using that by (auto simp: is_digit_def char_between_def)
  then show ?thesis
    using decimal_digits [of n]
    by (cases "decimal n"; cases "tl (decimal n)") (auto simp: number_base_def string_starts_with_def)
qed

subsection \<open>The access functions on printed tokens\<close>

lemma bare_token_iff: "bare_token t = (k, x) \<longleftrightarrow> ut_kind t = k \<and> ut_text t = x"
  by (simp add: bare_token_def)

lemma peek_first [simp]: "peek_token (t # ts) = t"
  by (simp add: peek_token_def)

lemma read_name [simp]: "bare_token t = sw x \<Longrightarrow> parse_name c (t # ts) = Inr (x, ts)"
  by (simp add: sw_def bare_token_iff parse_name_def)

lemma read_ident [simp]: "bare_token t = iw x \<Longrightarrow> parse_identifier c (t # ts) = Inr (x, ts)"
  by (simp add: iw_def bare_token_iff parse_identifier_def)

lemma read_u64 [simp]: "bare_token t = nw n \<Longrightarrow> n < 2 ^ 64 \<Longrightarrow> parse_u64 c (t # ts) = Inr (word_of_nat n, ts)"
  by (simp add: nw_def bare_token_iff parse_u64_def number_base_decimal stoull_decimal del: power_numeral)

lemma read_punctuation_word [simp]: "bare_token t = pw x \<Longrightarrow> expect_punctuation x m (t # ts) = Inr ts"
  by (simp add: pw_def bare_token_iff expect_punctuation_def match_token_def)

lemma separator_word [simp]: "bare_token t \<noteq> pw '','' \<Longrightarrow> consume_optional_separator (t # ts) = t # ts"
  by (simp add: consume_optional_separator_def match_token_def pw_def bare_token_def)

lemma match_punctuation_word:
  "bare_token t = pw y \<Longrightarrow> match_punctuation x (t # ts) = (if x = y then Some ts else None)"
  "bare_token t = iw y \<Longrightarrow> match_punctuation x (t # ts) = None"
  "bare_token t = sw y \<Longrightarrow> match_punctuation x (t # ts) = None"
  "bare_token t = nw n \<Longrightarrow> match_punctuation x (t # ts) = None"
  by (auto simp: word_defs bare_token_iff match_token_def)

lemma match_identifier_word:
  "bare_token t = pw y \<Longrightarrow> match_identifier x (t # ts) = None"
  "bare_token t = iw y \<Longrightarrow> match_identifier x (t # ts) = (if x = y then Some ts else None)"
  "bare_token t = sw y \<Longrightarrow> match_identifier x (t # ts) = None"
  "bare_token t = nw n \<Longrightarrow> match_identifier x (t # ts) = None"
  by (auto simp: word_defs bare_token_iff match_token_def)

lemmas match_word [simp] = match_punctuation_word match_identifier_word

lemma kind_word [simp]:
  "bare_token t = pw y \<Longrightarrow> ut_kind t = TK_Punctuation"
  "bare_token t = iw y \<Longrightarrow> ut_kind t = TK_Identifier"
  "bare_token t = sw y \<Longrightarrow> ut_kind t = TK_String"
  "bare_token t = nw n \<Longrightarrow> ut_kind t = TK_Number"
  by (auto simp: word_defs bare_token_iff)

lemma text_word [simp]: "bare_token t = iw y \<Longrightarrow> ut_text t = y"
  by (simp add: iw_def bare_token_iff)

lemma word_distinct [simp]:
  "pw x \<noteq> iw y" "pw x \<noteq> sw y" "pw x \<noteq> nw n" "iw x \<noteq> sw y" "iw x \<noteq> nw n" "sw x \<noteq> nw n"
  "iw x \<noteq> pw y" "sw x \<noteq> pw y" "nw n \<noteq> pw y" "sw x \<noteq> iw y" "nw n \<noteq> iw y" "nw n \<noteq> sw y"
  "pw x = pw y \<longleftrightarrow> x = y" "iw x = iw y \<longleftrightarrow> x = y" "sw x = sw y \<longleftrightarrow> x = y"
  by (auto simp: word_defs)

lemma u64_value [simp]: "unat (v :: u64) < 2 ^ 64"
  using unsigned_less [of v] by simp

text \<open>Printed words as tokens.\<close>

lemma spelled_Cons: "map bare_token used = w # ws \<longleftrightarrow> (\<exists>t u. used = t # u \<and> bare_token t = w \<and> map bare_token u = ws)"
  by (cases used) auto

lemma spelled_append:
  "map bare_token used = ws @ vs \<longleftrightarrow> (\<exists>u v. used = u @ v \<and> map bare_token u = ws \<and> map bare_token v = vs)"
  by (auto simp: map_eq_append_conv)

lemmas spelled = spelled_Cons spelled_append

subsection \<open>Bodies\<close>

lemma print_enum_body_simps [simp]:
  "print_enum_body [] = [pw ''}'']"
  "print_enum_body (v # vs) = nw (unat (ev_value v)) # pw ''='' # sw (ev_name v) # print_enum_body vs"
  by (simp_all add: print_enum_body_def print_enum_value_def)

lemma enum_body_start:
  "map bare_token used = print_enum_body vs \<Longrightarrow> consume_optional_separator (used @ ts) = used @ ts"
  by (cases vs) (auto simp: spelled)

lemma parse_enum_body_reads:
  "map bare_token used = print_enum_body vs \<Longrightarrow> parse_enum_body xs (used @ ts) = Inr (xs @ vs, ts)"
proof (induction vs arbitrary: xs used)
  case Nil
  then show ?case by (auto simp: spelled parse_enum_body.simps)
next
  case (Cons v vs)
  then obtain t1 t2 t3 used' where used: "used = t1 # t2 # t3 # used'"
    and words: "bare_token t1 = nw (unat (ev_value v))" "bare_token t2 = pw ''=''" "bare_token t3 = sw (ev_name v)"
    and rest: "map bare_token used' = print_enum_body vs"
    by (auto simp: spelled)
  from Cons.IH [OF rest, of "xs @ [v]"] show ?case
    by (subst parse_enum_body.simps) (cases v, simp add: used words enum_body_start [OF rest] del: power_numeral)
qed

lemma parse_bit_field_reads:
  assumes "map bare_token used = print_bit_field b" and "expressible_bit_field b"
  shows "parse_bit_field (used @ ts) = Inr (b, ts)"
proof -
  have small: "bfd_offset_bits b < 2 ^ 64" "bfd_width_bits b < 2 ^ 64"
    "\<not> word_of_nat (bfd_offset_bits b) > (255 :: u64)" "\<not> word_of_nat (bfd_width_bits b) > (255 :: u64)"
    "unat (word_of_nat (bfd_offset_bits b) :: u64) = bfd_offset_bits b"
    "unat (word_of_nat (bfd_width_bits b) :: u64) = bfd_width_bits b"
    using assms(2) by (auto simp: expressible_bit_field_def word_less_nat_alt unat_of_nat)
  show ?thesis
    using assms(1) small(1,2)
    by (auto simp: print_bit_field_def spelled parse_bit_field_def small(3-) parse_enum_body_reads split: if_splits
        simp del: power_numeral)
qed

lemma print_bit_field_body_simps [simp]:
  "print_bit_field_body [] = [pw ''}'']"
  "print_bit_field_body (b # bs) = print_bit_field b @ print_bit_field_body bs"
  by (simp_all add: print_bit_field_body_def)

lemma print_variant_case_body_simps [simp]:
  "print_variant_case_body [] = [pw ''}'']"
  "print_variant_case_body (c # cs) =
     nw (unat (vcd_tag_value c)) # pw ''='' # sw (vcd_referenced_type c) # print_variant_case_body cs"
  by (simp_all add: print_variant_case_body_def print_variant_case_def)

lemma bit_field_body_start:
  "map bare_token used = print_bit_field_body bs \<Longrightarrow> consume_optional_separator (used @ ts) = used @ ts"
  by (cases bs) (auto simp: spelled print_bit_field_def)

lemma variant_case_body_start:
  "map bare_token used = print_variant_case_body cs \<Longrightarrow> consume_optional_separator (used @ ts) = used @ ts"
  by (cases cs) (auto simp: spelled)

lemma parse_bit_field_body_reads:
  "map bare_token used = print_bit_field_body bs \<Longrightarrow> list_all expressible_bit_field bs \<Longrightarrow>
   parse_bit_field_body xs (used @ ts) = Inr (xs @ bs, ts)"
proof (induction bs arbitrary: xs used)
  case Nil
  then show ?case by (auto simp: spelled parse_bit_field_body.simps)
next
  case (Cons b bs)
  then obtain u used' where used: "used = u @ used'" and first: "map bare_token u = print_bit_field b"
    and rest: "map bare_token used' = print_bit_field_body bs"
    by (auto simp: spelled_append)
  have no_brace: "match_punctuation ''}'' (u @ used' @ ts) = None"
    using first by (auto simp: print_bit_field_def spelled)
  from Cons.prems have ok: "expressible_bit_field b" "list_all expressible_bit_field bs" by simp_all
  from Cons.IH [OF rest ok(2), of "xs @ [b]"] parse_bit_field_reads [OF first ok(1), of "used' @ ts"] show ?case
    by (subst parse_bit_field_body.simps) (simp add: used no_brace bit_field_body_start [OF rest])
qed

lemma parse_variant_case_body_reads:
  "map bare_token used = print_variant_case_body cs \<Longrightarrow> parse_variant_case_body xs (used @ ts) = Inr (xs @ cs, ts)"
proof (induction cs arbitrary: xs used)
  case Nil
  then show ?case by (auto simp: spelled parse_variant_case_body.simps)
next
  case (Cons c cs)
  then obtain t1 t2 t3 used' where used: "used = t1 # t2 # t3 # used'"
    and words: "bare_token t1 = nw (unat (vcd_tag_value c))" "bare_token t2 = pw ''=''"
      "bare_token t3 = sw (vcd_referenced_type c)"
    and rest: "map bare_token used' = print_variant_case_body cs"
    by (auto simp: spelled)
  from Cons.IH [OF rest, of "xs @ [c]"] show ?case
    by (subst parse_variant_case_body.simps)
      (cases c, simp add: parse_variant_case_def used words variant_case_body_start [OF rest] del: power_numeral)
qed

subsection \<open>Suffixes\<close>

lemma parse_checksum_suffix_reads:
  "map bare_token used = print_checksum c \<Longrightarrow> \<exists>t u. used = t # u \<and> parse_checksum_suffix (u @ ts) = Inr (c, ts)"
  by (cases c) (auto simp: print_checksum_def spelled parse_checksum_suffix_def)

lemma parse_condition_suffix_reads:
  "map bare_token used = print_condition c \<Longrightarrow> parse_condition_suffix (used @ ts) = Inr (c, ts)"
  by (cases c) (auto simp: print_condition_def spelled parse_condition_suffix_def simp del: power_numeral)

lemma parse_presence_suffix_reads:
  assumes "map bare_token used = print_presence p" and "prd_bit_index p \<le> 255"
  shows "\<exists>t u. used = t # u \<and> parse_presence_suffix (u @ ts) = Inr (p, ts)"
proof -
  have small: "prd_bit_index p < 2 ^ 64" "\<not> word_of_nat (prd_bit_index p) > (255 :: u64)"
    "unat (word_of_nat (prd_bit_index p) :: u64) = prd_bit_index p"
    using assms(2) by (auto simp: word_less_nat_alt unat_of_nat)
  show ?thesis
    using assms(1) small(1)
    by (auto simp: print_presence_def spelled parse_presence_suffix_def small(2-) simp del: power_numeral)
qed

lemma unat_of_small: "n < 2 ^ 64 \<Longrightarrow> unat (word_of_nat n :: u64) = n"
  by (simp add: unat_of_nat)

text \<open>A turn of the suffix loop on the words of one suffix.\<close>

lemma suffix_keyword:
  assumes "bare_token t = iw x" and "bare_token t' = pw ''(''"
  shows "match_suffix y (t # t' # ts) = (if x = y then Some (t' # ts) else None)"
  using assms by (simp add: match_suffix_def peek_punctuation_after_current_def)
    (auto simp: pw_def bare_token_iff)

lemma suffix_punctuation: "bare_token t = pw x \<Longrightarrow> match_suffix y (t # ts) = None"
  by (simp add: match_suffix_def)

lemma expected_suffix:
  assumes "map bare_token used = [pw ''='', nw (unat v)]"
  shows "parse_field_suffix f (used @ ts) =
    Inr (Some (f\<lparr>fd_has_expected_unsigned := True, fd_expected_unsigned := v\<rparr>, ts))"
  using assms by (auto simp: spelled parse_field_suffix_def simp del: power_numeral)

lemma checksum_suffix:
  assumes "map bare_token used = print_checksum c"
  shows "parse_field_suffix f (used @ ts) = Inr (Some (f\<lparr>fd_checksum := Some c\<rparr>, ts))"
proof -
  obtain t t' u where used: "used = t # t' # u" "bare_token t = iw ''checksum''" "bare_token t' = pw ''(''"
    using assms by (auto simp: print_checksum_def spelled)
  with parse_checksum_suffix_reads [OF assms, of ts] show ?thesis
    by (auto simp: parse_field_suffix_def suffix_keyword)
qed

lemma condition_suffix:
  assumes "map bare_token used = iw ''if'' # print_condition c"
  shows "parse_field_suffix f (used @ ts) = Inr (Some (f\<lparr>fd_condition := Some c\<rparr>, ts))"
proof -
  obtain t t' u where used: "used = t # t' # u" "bare_token t = iw ''if''" "bare_token t' = pw ''(''"
    and rest: "map bare_token (t' # u) = print_condition c"
    using assms by (auto simp: print_condition_def spelled)
  with parse_condition_suffix_reads [OF rest, of ts] show ?thesis
    by (auto simp: parse_field_suffix_def suffix_keyword)
qed

lemma presence_suffix:
  assumes "map bare_token used = print_presence p" and "prd_bit_index p \<le> 255"
  shows "parse_field_suffix f (used @ ts) = Inr (Some (f\<lparr>fd_presence := Some p\<rparr>, ts))"
proof -
  obtain t t' u where used: "used = t # t' # u" "bare_token t = iw ''present''" "bare_token t' = pw ''(''"
    using assms by (auto simp: print_presence_def spelled)
  with parse_presence_suffix_reads [OF assms, of ts] show ?thesis
    by (auto simp: parse_field_suffix_def suffix_keyword)
qed

lemma alignment_suffix:
  assumes "map bare_token used = [iw ''align'', pw ''('', nw n, pw '')'']" and "n < 2 ^ 64"
  shows "parse_field_suffix f (used @ ts) = Inr (Some (f\<lparr>fd_alignment := n\<rparr>, ts))"
  using assms
  by (auto simp: spelled parse_field_suffix_def suffix_keyword parse_alignment_suffix_def unat_of_small
      simp del: power_numeral)

lemma body_suffix:
  assumes "map bare_token used = print_field_body f" and "fd_kind g = fd_kind f"
    and "list_all expressible_bit_field (fd_bit_fields f)"
  shows "parse_field_suffix g (used @ ts) =
    Inr (Some (if fd_kind f = KEnum then g\<lparr>fd_enum_values := fd_enum_values f\<rparr>
      else if fd_kind f = KVariant then g\<lparr>fd_variant_cases := fd_variant_cases f\<rparr>
      else g\<lparr>fd_bit_fields := fd_bit_fields f\<rparr>, ts))"
  using assms
  by (auto simp: print_field_body_def spelled_Cons parse_field_suffix_def parse_field_body_def suffix_punctuation
      parse_enum_body_reads parse_variant_case_body_reads parse_bit_field_body_reads split: if_splits)

subsection \<open>Type names\<close>

lemma to_lower_simps [simp]: "to_lower [] = []" "to_lower (c # cs) = tolower c # to_lower cs"
  "to_lower (xs @ ys) = to_lower xs @ to_lower ys"
  by (simp_all add: to_lower_def)

lemma to_lower_decimal [simp]: "to_lower (decimal n) = decimal n"
proof -
  have "tolower c = c" if "is_digit c" for c
    using that by (auto simp: is_digit_def char_between_def tolower_def)
  then show ?thesis
    using decimal_digits [of n] by (auto simp: to_lower_def list_all_iff intro: map_idI)
qed

lemma to_lower_order_suffix [simp]: "to_lower (order_suffix bo) = order_suffix bo"
  by (simp add: order_suffix_def tolower_def)

lemma digit_not_underscore: "is_digit c \<Longrightarrow> c \<noteq> CHR ''_''"
  by (auto simp: is_digit_def char_between_def)

lemma width_bits_loop_digits:
  "list_all is_digit cs \<Longrightarrow> width_bits_loop (word_of_nat n) cs =
     Some (word_of_nat (fold (\<lambda>c n. n * 10 + digit_number c) cs n))"
proof (induction cs arbitrary: n)
  case (Cons c cs)
  from Cons.IH [of "n * 10 + digit_number c"] Cons.prems show ?case by simp
qed simp

lemma width_bits_loop_decimal: "width_bits_loop 0 (decimal n) = Some (word_of_nat n)"
  using width_bits_loop_digits [OF decimal_digits [of n], of 0] by (simp add: fold_decimal)

lemma take_until_underscore:
  assumes "CHR ''_'' \<notin> set stem"
  shows "takeWhile (\<lambda>c. c \<noteq> CHR ''_'') (scalar_name stem w bo) = stem @ decimal (8 * w)"
proof -
  have "\<forall>c\<in>set (stem @ decimal (8 * w)). c \<noteq> CHR ''_''"
    using assms decimal_digits [of "8 * w"] by (auto simp: list_all_iff dest: digit_not_underscore)
  moreover have "takeWhile (\<lambda>c. c \<noteq> CHR ''_'') (order_suffix bo) = []" by (simp add: order_suffix_def)
  ultimately show ?thesis
    unfolding scalar_name_def append_assoc [symmetric] by (subst takeWhile_append2) auto
qed

lemma parse_width_token_reads:
  assumes "CHR ''_'' \<notin> set stem" and "scalar_width w"
  shows "parse_width_token (scalar_name stem w bo) stem = Inr w"
proof -
  have long: "\<not> length (scalar_name stem w bo) \<le> length stem"
    using decimal_nonempty [of "8 * w"] by (cases "decimal (8 * w)") (simp_all add: scalar_name_def)
  have digits: "subspan (length stem) (length (stem @ decimal (8 * w)) - length stem) (scalar_name stem w bo)
      = decimal (8 * w)"
    by (simp add: subspan_def scalar_name_def)
  have bits_value: "unat (word_of_nat (8 * w) :: u32) = 8 * w"
    using assms(2) by (simp add: scalar_width_def unat_of_nat del: of_nat_mult)
  have bits: "(word_of_nat (8 * w) :: u32) \<noteq> 0" "(word_of_nat (8 * w) :: u32) mod 8 = 0"
    "(word_of_nat (8 * w) :: u32) div 8 = word_of_nat w" "\<not> (word_of_nat w :: u32) > 255"
    "unat (word_of_nat w :: u32) = w"
    using assms(2) bits_value
    by (auto simp: scalar_width_def word_less_nat_alt word_unat_eq_iff unat_div_distrib unat_mod_distrib unat_of_nat
        simp del: of_nat_mult)
  show ?thesis
    unfolding parse_width_token_def
    by (simp only: long if_False take_until_underscore [OF assms(1)] Let_def digits width_bits_loop_decimal option.case
        bits simp_thms)
qed

lemma no_big_endian: "CHR ''_'' \<notin> set x \<Longrightarrow> \<not> contains_text ''_be'' x"
  by (induction x) (auto simp: string_starts_with_def)

lemma contains_text_append: "contains_text p ys \<Longrightarrow> contains_text p (xs @ ys)"
  by (induction xs) simp_all

lemma has_big_endian_suffix_reads:
  assumes "CHR ''_'' \<notin> set stem"
  shows "has_big_endian_suffix (stem @ order_suffix bo) \<longleftrightarrow> bo = BigEndian"
proof (cases bo)
  case LittleEndian
  then show ?thesis using no_big_endian [OF assms] by (simp add: has_big_endian_suffix_def order_suffix_def)
next
  case BigEndian
  have "contains_text ''_be'' ''_be''" by (simp add: string_starts_with_def)
  with BigEndian show ?thesis
    unfolding has_big_endian_suffix_def order_suffix_def by (simp add: contains_text_append del: contains_text.simps)
qed

lemma scalar_big_endian:
  assumes "CHR ''_'' \<notin> set stem"
  shows "has_big_endian_suffix (scalar_name stem w bo) \<longleftrightarrow> bo = BigEndian"
proof -
  have "CHR ''_'' \<notin> set (stem @ decimal (8 * w))"
    using assms decimal_digits [of "8 * w"] by (auto simp: list_all_iff dest: digit_not_underscore)
  from has_big_endian_suffix_reads [OF this, of bo] show ?thesis by (simp add: scalar_name_def)
qed

lemma underlying_scalar_reads:
  assumes "scalar_width w"
  shows "underlying_scalar (scalar_name ''uint'' w bo) LittleEndian = Inr (w, bo)"
proof -
  have lower: "to_lower (scalar_name ''uint'' w bo) = scalar_name ''uint'' w bo" for bo
    by (simp add: scalar_name_def tolower_def)
  have "string_starts_with (scalar_name ''uint'' w bo) ''uint''"
    by (simp add: scalar_name_def string_starts_with_def)
  with parse_width_token_reads [of "''uint''" w bo] scalar_big_endian [of "''uint''" w bo] assms show ?thesis
    by (cases bo) (simp_all add: underlying_scalar_def lower)
qed

end
