(* ===== verification/Schema_Roundtrip.thy ===== *)
theory Schema_Roundtrip
  imports Schema_Reading
begin

text \<open>
  Every schema the UPR language expresses is read back from its printed text, and the loader rejects or accepts by the
  tokens alone. The lemmas on types, fields and declarations follow the functions of the parser.
\<close>

subsection \<open>Field types\<close>

lemma optional_size_reads:
  assumes "map bare_token used = print_size x n" and "n < 2 ^ 64"
  shows "parse_optional_size_suffix f (used @ ts) =
    Inr (if x \<noteq> [] then f\<lparr>fd_size_from_field := x\<rparr> else f\<lparr>fd_fixed_size := n\<rparr>, ts)"
  using assms
  by (auto simp: print_size_def spelled_Cons parse_optional_size_suffix_def unat_of_small split: if_splits
      simp del: power_numeral)

lemma optional_count_reads:
  assumes "map bare_token used = print_size x n" and "n < 2 ^ 64"
  shows "parse_optional_count_suffix f (used @ ts) =
    Inr ((if x \<noteq> [] then f\<lparr>fd_count_from_field := x\<rparr> else f\<lparr>fd_fixed_count := n\<rparr>)\<lparr>fd_kind := KCollection\<rparr>, ts)"
  using assms
  by (auto simp: print_size_def spelled_Cons parse_optional_count_suffix_def unat_of_small Let_def split: if_splits
      simp del: power_numeral)

lemma string_starts_with_append: "string_starts_with (x @ y) x"
  by (simp add: string_starts_with_def)

lemma scalar_lower:
  "to_lower (scalar_name ''uint'' w bo) = scalar_name ''uint'' w bo"
  "to_lower (scalar_name ''int'' w bo) = scalar_name ''int'' w bo"
  by (simp_all add: scalar_name_def tolower_def)

text \<open>A name with a first letter that starts no reserved word.\<close>

lemma other_words:
  "x = c # d # cs \<Longrightarrow> c \<noteq> CHR ''b'' \<Longrightarrow> c \<noteq> CHR ''r'' \<Longrightarrow> c \<noteq> CHR ''s'' \<Longrightarrow> c \<noteq> CHR ''a'' \<Longrightarrow>
   d \<noteq> CHR ''t'' \<Longrightarrow> c \<noteq> CHR ''e'' \<Longrightarrow> c \<noteq> CHR ''v'' \<Longrightarrow>
   x \<noteq> ''bytes'' \<and> x \<noteq> ''reserved'' \<and> x \<noteq> ''string'' \<and> x \<noteq> ''ascii'' \<and> x \<noteq> ''utf8'' \<and> x \<noteq> ''enum'' \<and> x \<noteq> ''variant''"
  by auto

definition base_field :: "string \<Rightarrow> field_definition" where
  "base_field x = default_field_definition\<lparr>fd_name := x\<rparr>"

lemma base_field_order: "fd_byte_order (base_field x) = LittleEndian"
  by (simp add: base_field_def default_field_definition_def)

lemma with_order:
  "fd_byte_order f = LittleEndian \<Longrightarrow>
   (if bo = BigEndian then f\<lparr>fd_byte_order := BigEndian\<rparr> else f) = f\<lparr>fd_byte_order := bo\<rparr>"
  by (cases bo) (simp_all add: field_definition.surjective)

lemma unsigned_type_reads:
  assumes "bare_token t = iw (scalar_name ''uint'' w bo)" and "scalar_width w"
  shows "parse_field_type (base_field x) (t # ts) =
    Inr ((base_field x)\<lparr>fd_kind := KUnsigned, fd_width_bytes := w, fd_byte_order := bo\<rparr>, ts)"
proof -
  let ?n = "scalar_name ''uint'' w bo"
  have t: "ut_kind t = TK_Identifier" "ut_text t = ?n" using assms(1) by simp_all
  have start: "string_starts_with ?n ''uint''"
    by (simp_all add: scalar_name_def string_starts_with_def)
  have width: "parse_width_token ?n ''uint'' = Inr w" by (rule parse_width_token_reads) (use assms(2) in simp_all)
  have order: "has_big_endian_suffix ?n \<longleftrightarrow> bo = BigEndian" by (rule scalar_big_endian) simp
  have other: "?n \<noteq> ''bytes'' \<and> ?n \<noteq> ''reserved'' \<and> ?n \<noteq> ''string'' \<and> ?n \<noteq> ''ascii'' \<and> ?n \<noteq> ''utf8'' \<and>
      ?n \<noteq> ''enum'' \<and> ?n \<noteq> ''variant''"
    by (rule other_words, simp add: scalar_name_def, simp_all)
  show ?thesis
    by (simp add: parse_field_type_def t Let_def scalar_lower start width other with_suffix_order_def order with_order
        base_field_order)
qed

lemma signed_type_reads:
  assumes "bare_token t = iw (scalar_name ''int'' w bo)" and "scalar_width w"
  shows "parse_field_type (base_field x) (t # ts) =
    Inr ((base_field x)\<lparr>fd_kind := KSigned, fd_width_bytes := w, fd_byte_order := bo\<rparr>, ts)"
proof -
  let ?n = "scalar_name ''int'' w bo"
  have t: "ut_kind t = TK_Identifier" "ut_text t = ?n" using assms(1) by simp_all
  have start: "string_starts_with ?n ''int''" "\<not> string_starts_with ?n ''uint''"
    by (simp_all add: scalar_name_def string_starts_with_def)
  have width: "parse_width_token ?n ''int'' = Inr w" by (rule parse_width_token_reads) (use assms(2) in simp_all)
  have order: "has_big_endian_suffix ?n \<longleftrightarrow> bo = BigEndian" by (rule scalar_big_endian) simp
  have other: "?n \<noteq> ''bytes'' \<and> ?n \<noteq> ''reserved'' \<and> ?n \<noteq> ''string'' \<and> ?n \<noteq> ''ascii'' \<and> ?n \<noteq> ''utf8'' \<and>
      ?n \<noteq> ''enum'' \<and> ?n \<noteq> ''variant''"
    by (rule other_words, simp add: scalar_name_def, simp_all)
  show ?thesis
    by (simp add: parse_field_type_def t Let_def scalar_lower start width other with_suffix_order_def order with_order
        base_field_order)
qed

lemma float32_type_reads:
  assumes "bare_token t = iw (''float32'' @ order_suffix bo)"
  shows "parse_field_type (base_field x) (t # ts) =
    Inr ((base_field x)\<lparr>fd_kind := KFloat32, fd_width_bytes := 4, fd_byte_order := bo\<rparr>, ts)"
proof -
  define n where "n = ''float32'' @ order_suffix bo"
  have t: "ut_kind t = TK_Identifier" "ut_text t = n" using assms by (simp_all add: n_def)
  have start: "string_starts_with n ''float32''" "\<not> string_starts_with n ''uint''" "\<not> string_starts_with n ''int''"
    by (simp_all add: n_def string_starts_with_def)
  have order: "has_big_endian_suffix n \<longleftrightarrow> bo = BigEndian"
    unfolding n_def by (rule has_big_endian_suffix_reads) simp
  have other: "n \<noteq> ''bytes'' \<and> n \<noteq> ''reserved'' \<and> n \<noteq> ''string'' \<and> n \<noteq> ''ascii'' \<and> n \<noteq> ''utf8'' \<and>
      n \<noteq> ''enum'' \<and> n \<noteq> ''variant''"
    by (rule other_words, simp add: n_def, simp_all)
  have lower: "to_lower n = n" by (simp add: n_def tolower_def)
  show ?thesis
    by (simp add: parse_field_type_def t Let_def lower start other with_suffix_order_def order with_order base_field_order)
qed

lemma float64_type_reads:
  assumes "bare_token t = iw (''float64'' @ order_suffix bo)"
  shows "parse_field_type (base_field x) (t # ts) =
    Inr ((base_field x)\<lparr>fd_kind := KFloat64, fd_width_bytes := 8, fd_byte_order := bo\<rparr>, ts)"
proof -
  define n where "n = ''float64'' @ order_suffix bo"
  have t: "ut_kind t = TK_Identifier" "ut_text t = n" using assms by (simp_all add: n_def)
  have start: "string_starts_with n ''float64''" "\<not> string_starts_with n ''uint''" "\<not> string_starts_with n ''int''" "\<not> string_starts_with n ''float32''"
    by (simp_all add: n_def string_starts_with_def)
  have order: "has_big_endian_suffix n \<longleftrightarrow> bo = BigEndian"
    unfolding n_def by (rule has_big_endian_suffix_reads) simp
  have other: "n \<noteq> ''bytes'' \<and> n \<noteq> ''reserved'' \<and> n \<noteq> ''string'' \<and> n \<noteq> ''ascii'' \<and> n \<noteq> ''utf8'' \<and>
      n \<noteq> ''enum'' \<and> n \<noteq> ''variant''"
    by (rule other_words, simp add: n_def, simp_all)
  have lower: "to_lower n = n" by (simp add: n_def tolower_def)
  show ?thesis
    by (simp add: parse_field_type_def t Let_def lower start other with_suffix_order_def order with_order base_field_order)
qed

lemma struct_type_reads:
  assumes "bare_token t = iw x" and "reference_name x"
  shows "parse_field_type f (t # ts) =
    parse_optional_count_suffix (f\<lparr>fd_kind := KStruct, fd_referenced_type := x\<rparr>) ts"
  using assms by (simp add: parse_field_type_def reference_name_def Let_def)

lemma typed_field_base:
  "default_field_definition\<lparr>fd_name := x, fd_kind := k\<rparr> = (base_field x)\<lparr>fd_kind := k\<rparr>"
  by (simp add: base_field_def)

lemma parse_field_type_reads:
  assumes words: "map bare_token used = print_field_type f" and range: "field_in_range f"
    and next_token: "match_punctuation ''['' ts = None"
  shows "parse_field_type (base_field (fd_name f)) (used @ ts) = Inr (typed_field f, ts)"
proof (cases "fd_kind f")
  case KUnsigned
  with words range show ?thesis
    by (auto simp: print_field_type_def spelled_Cons typed_field_def typed_field_base Let_def field_in_range_def unsigned_type_reads)
next
  case KSigned
  with words range show ?thesis
    by (auto simp: print_field_type_def spelled_Cons typed_field_def typed_field_base Let_def field_in_range_def signed_type_reads)
next
  case KFloat32
  with words show ?thesis
    by (auto simp: print_field_type_def spelled_Cons typed_field_def typed_field_base Let_def float32_type_reads)
next
  case KFloat64
  with words show ?thesis
    by (auto simp: print_field_type_def spelled_Cons typed_field_def typed_field_base Let_def float64_type_reads)
next
  case KBytes
  then obtain t u where used: "used = t # u" "bare_token t = iw (if fd_is_reserved f then ''reserved'' else ''bytes'')"
      "map bare_token u = print_size (fd_size_from_field f) (fd_fixed_size f)"
    using words by (auto simp: print_field_type_def spelled_Cons)
  have "fd_fixed_size f < 2 ^ 64" using range by (simp add: field_in_range_def)
  from optional_size_reads [OF used(3) this] used KBytes show ?thesis
    by (simp add: parse_field_type_def Let_def tolower_def typed_field_def base_field_def default_field_definition_def del: power_numeral)
next
  case KString
  then obtain t u where used: "used = t # u" "bare_token t = iw (if fd_string_encoding f = Ascii then ''ascii'' else ''utf8'')"
      "map bare_token u = print_size (fd_size_from_field f) (fd_fixed_size f)"
    using words by (auto simp: print_field_type_def spelled_Cons)
  have "fd_fixed_size f < 2 ^ 64" using range by (simp add: field_in_range_def)
  from optional_size_reads [OF used(3) this] used KString show ?thesis
    by (cases "fd_string_encoding f")
      (simp_all add: parse_field_type_def Let_def tolower_def typed_field_def base_field_def default_field_definition_def del: power_numeral)
next
  case KStruct
  with words range next_token show ?thesis
    by (auto simp: print_field_type_def spelled_Cons typed_field_def typed_field_base Let_def field_in_range_def struct_type_reads
        parse_optional_count_suffix_def)
next
  case KEnum
  then obtain t1 t2 t3 t4 where used: "used = [t1, t2, t3, t4]" "bare_token t1 = iw ''enum''" "bare_token t2 = pw ''<''"
    "bare_token t3 = iw (scalar_name ''uint'' (fd_width_bytes f) (fd_byte_order f))" "bare_token t4 = pw ''>''"
    using words by (auto simp: print_field_type_def spelled_Cons)
  have "scalar_width (fd_width_bytes f)" using range KEnum by (simp add: field_in_range_def)
  from underlying_scalar_reads [OF this] KEnum used show ?thesis
    by (simp add: parse_field_type_def Let_def tolower_def typed_field_def base_field_def default_field_definition_def)
next
  case KCollection
  then obtain t u where used: "used = t # u" "bare_token t = iw (fd_referenced_type f)"
      "map bare_token u = print_size (fd_count_from_field f) (fd_fixed_count f)"
    using words by (auto simp: print_field_type_def spelled_Cons)
  have "fd_fixed_count f < 2 ^ 64" "reference_name (fd_referenced_type f)"
    using range KCollection by (simp_all add: field_in_range_def)
  from optional_count_reads [OF used(3) this(1)] struct_type_reads [OF used(2) this(2)] used(1) KCollection show ?thesis
    by (simp add: Let_def typed_field_def base_field_def default_field_definition_def del: power_numeral)
next
  case KVariant
  then obtain t1 t2 t3 t4 where used: "used = [t1, t2, t3, t4]" "bare_token t1 = iw ''variant''" "bare_token t2 = pw ''(''"
    "bare_token t3 = sw (fd_tag_from_field f)" "bare_token t4 = pw '')''"
    using words by (auto simp: print_field_type_def spelled_Cons)
  with KVariant show ?thesis by (simp add: parse_field_type_def Let_def tolower_def typed_field_def base_field_def)
qed

subsection \<open>Fields\<close>

lemma suffix_turn:
  "parse_field_suffix f ts = Inr (Some (f', ts')) \<Longrightarrow> parse_field_suffixes f ts = parse_field_suffixes f' ts'"
  by (subst parse_field_suffixes.simps) simp

lemma optional_suffix_turn:
  assumes "\<And>v. x = Some v \<Longrightarrow> map bare_token u = p v \<Longrightarrow> parse_field_suffix f (u @ ts) = Inr (Some (g v, ts))"
    and "map bare_token u = print_option p x"
  shows "parse_field_suffixes f (u @ ts) = parse_field_suffixes (case x of None \<Rightarrow> f | Some v \<Rightarrow> g v) ts"
  using assms by (cases x) (auto simp: print_option_def intro: suffix_turn)

text \<open>What may follow a field: a token that continues none of its suffixes.\<close>

definition ends_field :: "tokens \<Rightarrow> bool" where
  "ends_field ts \<longleftrightarrow> (\<forall>f. parse_field_suffix f ts = Inr None) \<and> consume_optional_separator ts = ts"

lemma ends_field_word:
  "bare_token t = sw x \<Longrightarrow> ends_field (t # ts)"
  "bare_token t = pw ''}'' \<Longrightarrow> ends_field (t # ts)"
  "bare_token t = iw ''validate'' \<Longrightarrow> ends_field (t # ts)"
  by (simp_all add: ends_field_def parse_field_suffix_def match_suffix_def)

lemma fields_end: "ends_field ts \<Longrightarrow> parse_field_suffixes f ts = Inr (f, ts)"
  by (subst parse_field_suffixes.simps) (simp add: ends_field_def)

lemma typed_field_untouched:
  "fd_kind (typed_field f) = fd_kind f"
  "fd_has_expected_unsigned (typed_field f) = False" "fd_expected_unsigned (typed_field f) = 0"
  "fd_checksum (typed_field f) = None" "fd_condition (typed_field f) = None" "fd_presence (typed_field f) = None"
  by (cases "fd_kind f"; simp add: typed_field_def default_field_definition_def Let_def)+

lemma expected_update:
  "\<not> fd_has_expected_unsigned g \<Longrightarrow> fd_expected_unsigned g = 0 \<Longrightarrow>
   g\<lparr>fd_has_expected_unsigned := False, fd_expected_unsigned := 0\<rparr> = g"
  by (cases g) simp

lemma checksum_update:
  "fd_checksum g = None \<Longrightarrow> (case x of None \<Rightarrow> g | Some c \<Rightarrow> g\<lparr>fd_checksum := Some c\<rparr>) = g\<lparr>fd_checksum := x\<rparr>"
  by (cases g; cases x) simp_all

lemma condition_update:
  "fd_condition g = None \<Longrightarrow> (case x of None \<Rightarrow> g | Some c \<Rightarrow> g\<lparr>fd_condition := Some c\<rparr>) = g\<lparr>fd_condition := x\<rparr>"
  by (cases g; cases x) simp_all

lemma presence_update:
  "fd_presence g = None \<Longrightarrow> (case x of None \<Rightarrow> g | Some c \<Rightarrow> g\<lparr>fd_presence := Some c\<rparr>) = g\<lparr>fd_presence := x\<rparr>"
  by (cases g; cases x) simp_all

lemma parse_field_suffixes_reads:
  assumes "map bare_token ue = (if fd_has_expected_unsigned f then [pw ''='', nw (unat (fd_expected_unsigned f))] else [])"
    and "map bare_token uc = print_option print_checksum (fd_checksum f)"
    and "map bare_token ui = print_option (\<lambda>c. iw ''if'' # print_condition c) (fd_condition f)"
    and "map bare_token up = print_option print_presence (fd_presence f)"
    and "map bare_token ua = [iw ''align'', pw ''('', nw (fd_alignment f), pw '')'']"
    and "map bare_token ub = print_field_body f"
    and range: "field_in_range f" and last: "ends_field ts"
  shows "parse_field_suffixes (typed_field f) (ue @ uc @ ui @ up @ ua @ ub @ ts) = Inr (canonical_field f, ts)"
proof -
  let ?g0 = "typed_field f"
  let ?g1 = "?g0\<lparr>fd_has_expected_unsigned := fd_has_expected_unsigned f,
    fd_expected_unsigned := if fd_has_expected_unsigned f then fd_expected_unsigned f else 0\<rparr>"
  let ?g2 = "?g1\<lparr>fd_checksum := fd_checksum f\<rparr>"
  let ?g3 = "?g2\<lparr>fd_condition := fd_condition f\<rparr>"
  let ?g4 = "?g3\<lparr>fd_presence := fd_presence f\<rparr>"
  let ?g5 = "?g4\<lparr>fd_alignment := fd_alignment f\<rparr>"
  have expected: "parse_field_suffixes ?g0 (ue @ us) = parse_field_suffixes ?g1 us" for us
  proof (cases "fd_has_expected_unsigned f")
    case True
    with assms(1) show ?thesis by (auto simp: True intro: suffix_turn [OF expected_suffix])
  next
    case False
    with assms(1) show ?thesis by (simp add: expected_update typed_field_untouched)
  qed
  have checksum: "parse_field_suffixes ?g1 (uc @ us) = parse_field_suffixes ?g2 us" for us
    using optional_suffix_turn [where g = "\<lambda>c. ?g1\<lparr>fd_checksum := Some c\<rparr>" and f = ?g1 and ts = us, OF checksum_suffix assms(2)]
    by (simp add: checksum_update typed_field_untouched)
  have condition: "parse_field_suffixes ?g2 (ui @ us) = parse_field_suffixes ?g3 us" for us
    using optional_suffix_turn [where g = "\<lambda>c. ?g2\<lparr>fd_condition := Some c\<rparr>" and f = ?g2 and ts = us, OF condition_suffix assms(3)]
    by (simp add: condition_update typed_field_untouched)
  have bit: "prd_bit_index p \<le> 255" if "fd_presence f = Some p" for p
    using range that by (simp add: field_in_range_def)
  have presence: "parse_field_suffixes ?g3 (up @ us) = parse_field_suffixes ?g4 us" for us
    using optional_suffix_turn [where g = "\<lambda>c. ?g3\<lparr>fd_presence := Some c\<rparr>" and f = ?g3 and ts = us,
        OF presence_suffix [OF _ bit] assms(4)]
    by (simp add: presence_update typed_field_untouched)
  have "fd_alignment f < 2 ^ 64" using range by (simp add: field_in_range_def)
  then have alignment: "parse_field_suffixes ?g4 (ua @ us) = parse_field_suffixes ?g5 us" for us
    using suffix_turn [OF alignment_suffix [OF assms(5)]] by simp
  have bits: "list_all expressible_bit_field (fd_bit_fields f)" using range by (simp add: field_in_range_def)
  have "parse_field_suffixes ?g5 (ub @ ts) = Inr (canonical_field f, ts)"
    using suffix_turn [OF body_suffix [OF assms(6) _ bits, of ?g5 ts]] fields_end [OF last]
    by (simp add: typed_field_untouched canonical_field_def Let_def)
  then show ?thesis by (simp add: expected checksum condition presence alignment)
qed

lemma map_append_iff: "map h used = a @ b \<longleftrightarrow> (\<exists>u v. used = u @ v \<and> map h u = a \<and> map h v = b)"
  by (auto simp: map_eq_append_conv)

lemma map_split_7:
  "map h used = a @ b @ c @ d @ e @ f @ g \<Longrightarrow>
   \<exists>u1 u2 u3 u4 u5 u6 u7. used = u1 @ u2 @ u3 @ u4 @ u5 @ u6 @ u7 \<and> map h u1 = a \<and> map h u2 = b \<and> map h u3 = c \<and>
     map h u4 = d \<and> map h u5 = e \<and> map h u6 = f \<and> map h u7 = g"
  apply (simp only: map_append_iff)
  apply (elim exE conjE)
  apply hypsubst
  apply (intro exI conjI, (rule refl)+)
  done

lemma no_match: "bare_token t \<noteq> pw x \<Longrightarrow> match_punctuation x (t # ts) = None"
  by (simp only: match_token_def peek_first pw_def bare_token_def) auto

lemma parse_field_definition_reads:
  assumes words: "map bare_token used = print_field f" and range: "field_in_range f" and last: "ends_field ts"
  shows "parse_field_definition (used @ ts) = Inr (canonical_field f, ts)"
proof -
  obtain t1 t2 us where us: "used = t1 # t2 # us" and name: "bare_token t1 = sw (fd_name f)" "bare_token t2 = pw '':''"
    and rest: "map bare_token us = print_field_type f @
     (if fd_has_expected_unsigned f then [pw ''='', nw (unat (fd_expected_unsigned f))] else []) @
     print_option print_checksum (fd_checksum f) @
     print_option (\<lambda>c. iw ''if'' # print_condition c) (fd_condition f) @
     print_option print_presence (fd_presence f) @
     [iw ''align'', pw ''('', nw (fd_alignment f), pw '')''] @
     print_field_body f"
    using words unfolding print_field_def append_Cons append_Nil spelled_Cons by blast
  from map_split_7 [OF rest] obtain ut ue uc ui up ua ub where used: "us = ut @ ue @ uc @ ui @ up @ ua @ ub"
    and type: "map bare_token ut = print_field_type f"
    and parts: "map bare_token ue = (if fd_has_expected_unsigned f then [pw ''='', nw (unat (fd_expected_unsigned f))] else [])"
      "map bare_token uc = print_option print_checksum (fd_checksum f)"
      "map bare_token ui = print_option (\<lambda>c. iw ''if'' # print_condition c) (fd_condition f)"
      "map bare_token up = print_option print_presence (fd_presence f)"
      "map bare_token ua = [iw ''align'', pw ''('', nw (fd_alignment f), pw '')'']"
      "map bare_token ub = print_field_body f"
    by (elim exE conjE)
  have "hd (map bare_token (ue @ uc @ ui @ up @ ua)) \<noteq> pw ''[''"
    unfolding map_append parts
    by (simp add: hd_append print_option_def print_checksum_def print_presence_def split: option.split)
  moreover from parts(5) have "ue @ uc @ ui @ up @ ua \<noteq> []" by auto
  then obtain t us' where first: "ue @ uc @ ui @ up @ ua = t # us'" by (meson neq_Nil_conv)
  ultimately have "bare_token t \<noteq> pw ''[''" by (simp only: first list.map list.sel not_False_eq_True)
  then have "match_punctuation ''['' ((ue @ uc @ ui @ up @ ua) @ ub @ ts) = None"
    unfolding first append_Cons by (rule no_match)
  with parse_field_type_reads [OF type range, of "ue @ uc @ ui @ up @ ua @ ub @ ts"]
    parse_field_suffixes_reads [OF parts range last] show ?thesis
    by (simp add: parse_field_definition_def us used name base_field_def)
qed

subsection \<open>Declarations\<close>

lemma print_field_start: "\<exists>w. print_field f = sw (fd_name f) # w"
  by (simp add: print_field_def)

lemma operator_reads:
  assumes "map bare_token used = print_operator op" and "bare_token t \<noteq> pw ''=''"
  shows "parse_validation_operator_tokens (used @ t # ts) = Inr (op, t # ts)"
proof -
  have "match_punctuation ''='' (t # ts) = None"
    using assms(2) by (rule no_match)
  with assms(1) show ?thesis
    by (cases op) (auto simp: spelled_Cons parse_validation_operator_tokens_def)
qed

lemma parse_validation_statement_reads:
  assumes words: "map bare_token used = print_validation r" and ok: "expressible_rule r"
  shows "\<exists>t u. used = t # u \<and> bare_token t = iw ''validate'' \<and> parse_validation_statement (u @ ts) = Inr (r, ts)"
proof -
  obtain t1 t2 t3 us where us: "used = t1 # t2 # t3 # us"
    and head: "bare_token t1 = iw ''validate''" "bare_token t2 = pw ''(''" "bare_token t3 = sw (vrd_field r)"
    and rest: "map bare_token us = print_operator (vrd_op r) @
      [if vrd_compare_to_field r then sw (vrd_other_field r) else nw (unat (vrd_value r)),
       pw ''*'', nw (unat (vrd_multiplier r))] @
      print_option (\<lambda>c. pw '','' # iw ''if'' # print_condition c) (vrd_when r) @ [pw '')'']"
    using words unfolding print_validation_def append_Cons append_Nil spelled_Cons by blast
  then obtain uo t4 t5 t6 uw t7 where split: "us = uo @ t4 # t5 # t6 # uw @ [t7]"
    and op: "map bare_token uo = print_operator (vrd_op r)"
    and four: "bare_token t4 = (if vrd_compare_to_field r then sw (vrd_other_field r) else nw (unat (vrd_value r)))"
      "bare_token t5 = pw ''*''" "bare_token t6 = nw (unat (vrd_multiplier r))"
    and condition: "map bare_token uw = print_option (\<lambda>c. pw '','' # iw ''if'' # print_condition c) (vrd_when r)"
    and last: "bare_token t7 = pw '')''"
    by (auto simp: spelled)
  have "bare_token t4 \<noteq> pw ''=''" using four(1) by (simp split: if_splits)
  note operator = operator_reads [OF op this]
  show ?thesis
  proof (intro exI conjI)
    show "used = t1 # (t2 # t3 # us)" using us by simp
    show "bare_token t1 = iw ''validate''" by (rule head(1))
    show "parse_validation_statement ((t2 # t3 # us) @ ts) = Inr (r, ts)"
    proof (cases "vrd_when r")
      case None
      then have "uw = []" using condition by (simp add: print_option_def)
      then show ?thesis
        using four ok None
        by (cases r; cases "vrd_compare_to_field r")
          (simp_all add: parse_validation_statement_def split operator head last default_validation_rule_def
            expressible_rule_def del: power_numeral)
    next
      case (Some c)
      then obtain t8 t9 uc where uw: "uw = t8 # t9 # uc" "bare_token t8 = pw '',''" "bare_token t9 = iw ''if''"
        and cond: "map bare_token uc = print_condition c"
        using condition by (auto simp: print_option_def spelled_Cons)
      then show ?thesis
        using four ok Some parse_condition_suffix_reads [OF cond, of "t7 # ts"]
        by (cases r; cases "vrd_compare_to_field r")
          (simp_all add: parse_validation_statement_def split operator head last default_validation_rule_def
            expressible_rule_def del: power_numeral)
    qed
  qed
qed

text \<open>What starts the rest of a body: a field, a rule or the closing brace.\<close>

lemma body_rest_ends:
  assumes "map bare_token used = print_body fs rs"
  shows "ends_field (used @ ts)"
proof -
  consider t u where "used = t # u" "bare_token t = pw ''}''" | t u x where "used = t # u" "bare_token t = sw x"
    | t u where "used = t # u" "bare_token t = iw ''validate''"
    using assms
    by (cases fs; cases rs) (auto simp: print_body_def print_field_def print_validation_def spelled_Cons)
  then show ?thesis by cases (auto intro: ends_field_word)
qed

lemma print_body_simps:
  "print_body (f # fs) rs = print_field f @ print_body fs rs"
  "print_body [] (r # rs) = print_validation r @ print_body [] rs"
  "print_body [] [] = [pw ''}'']"
  by (simp_all add: print_body_def)

lemma ends_field_separator: "ends_field ts \<Longrightarrow> consume_optional_separator ts = ts"
  by (simp add: ends_field_def)

lemma field_reads:
  assumes "map bare_token u = print_field f" and "expressible_field f" and "ends_field ts"
  shows "\<exists>t u'. u = t # u' \<and> bare_token t = sw (fd_name f) \<and> parse_field_definition (t # u' @ ts) = Inr (f, ts)"
proof -
  have ok: "field_in_range f" "canonical_field f = f" using assms(2) by (simp_all add: expressible_field_def)
  from assms(1) print_field_start [of f] obtain t u' where u: "u = t # u'" "bare_token t = sw (fd_name f)"
    by (auto simp: spelled_Cons)
  with parse_field_definition_reads [OF assms(1) ok(1) assms(3)] ok(2) show ?thesis by simp
qed

lemma parse_struct_body_reads:
  "map bare_token used = print_body fs rs \<Longrightarrow> list_all expressible_field fs \<Longrightarrow> list_all expressible_rule rs \<Longrightarrow>
   parse_struct_body d (used @ ts) =
     Inr (d\<lparr>sd_fields := sd_fields d @ fs, sd_validations := sd_validations d @ rs\<rparr>, ts)"
proof (induction "fs" arbitrary: used d)
  case Nil
  then show ?case
  proof (induction rs arbitrary: used d)
    case Nil
    then obtain t where "used = [t]" "bare_token t = pw ''}''" by (auto simp: print_body_simps spelled_Cons)
    then show ?case by (subst parse_struct_body.simps) simp
  next
    case (Cons r rs)
    then obtain u v where used: "used = u @ v" and first: "map bare_token u = print_validation r"
      and rest: "map bare_token v = print_body [] rs"
      by (auto simp: print_body_simps spelled_append)
    have rule: "expressible_rule r" using Cons.prems by simp
    obtain t u' where t: "u = t # u'" "bare_token t = iw ''validate''"
      "parse_validation_statement (u' @ v @ ts) = Inr (r, v @ ts)"
      using parse_validation_statement_reads [OF first rule, of "v @ ts"] by blast
    from Cons.IH [OF rest, of "d\<lparr>sd_validations := sd_validations d @ [r]\<rparr>"] Cons.prems
      ends_field_separator [OF body_rest_ends [OF rest, of ts]] show ?case
      by (subst parse_struct_body.simps) (simp add: used t)
  qed
next
  case (Cons f fs)
  then obtain u v where used: "used = u @ v" and first: "map bare_token u = print_field f"
    and rest: "map bare_token v = print_body fs rs"
    by (auto simp: print_body_simps spelled_append)
  have ok: "expressible_field f" using Cons.prems by simp
  obtain t u' where t: "u = t # u'" "bare_token t = sw (fd_name f)"
    "parse_field_definition (t # u' @ v @ ts) = Inr (f, v @ ts)"
    using field_reads [OF first ok body_rest_ends [OF rest]] by blast
  from Cons.IH [OF rest, of "d\<lparr>sd_fields := sd_fields d @ [f]\<rparr>"] Cons.prems
    ends_field_separator [OF body_rest_ends [OF rest, of ts]] show ?case
    by (subst parse_struct_body.simps) (simp add: used t)
qed

lemma parse_message_body_reads:
  "map bare_token used = print_body fs rs \<Longrightarrow> list_all expressible_field fs \<Longrightarrow> list_all expressible_rule rs \<Longrightarrow>
   parse_message_body d (used @ ts) =
     Inr (d\<lparr>md_fields := md_fields d @ fs, md_validations := md_validations d @ rs\<rparr>, ts)"
proof (induction "fs" arbitrary: used d)
  case Nil
  then show ?case
  proof (induction rs arbitrary: used d)
    case Nil
    then obtain t where "used = [t]" "bare_token t = pw ''}''" by (auto simp: print_body_simps spelled_Cons)
    then show ?case by (subst parse_message_body.simps) simp
  next
    case (Cons r rs)
    then obtain u v where used: "used = u @ v" and first: "map bare_token u = print_validation r"
      and rest: "map bare_token v = print_body [] rs"
      by (auto simp: print_body_simps spelled_append)
    have rule: "expressible_rule r" using Cons.prems by simp
    obtain t u' where t: "u = t # u'" "bare_token t = iw ''validate''"
      "parse_validation_statement (u' @ v @ ts) = Inr (r, v @ ts)"
      using parse_validation_statement_reads [OF first rule, of "v @ ts"] by blast
    from Cons.IH [OF rest, of "d\<lparr>md_validations := md_validations d @ [r]\<rparr>"] Cons.prems
      ends_field_separator [OF body_rest_ends [OF rest, of ts]] show ?case
      by (subst parse_message_body.simps) (simp add: used t)
  qed
next
  case (Cons f fs)
  then obtain u v where used: "used = u @ v" and first: "map bare_token u = print_field f"
    and rest: "map bare_token v = print_body fs rs"
    by (auto simp: print_body_simps spelled_append)
  have ok: "expressible_field f" using Cons.prems by simp
  obtain t u' where t: "u = t # u'" "bare_token t = sw (fd_name f)"
    "parse_field_definition (t # u' @ v @ ts) = Inr (f, v @ ts)"
    using field_reads [OF first ok body_rest_ends [OF rest]] by blast
  from Cons.IH [OF rest, of "d\<lparr>md_fields := md_fields d @ [f]\<rparr>"] Cons.prems
    ends_field_separator [OF body_rest_ends [OF rest, of ts]] show ?case
    by (subst parse_message_body.simps) (simp add: used t)
qed

lemma parse_enum_declaration_reads:
  assumes "map bare_token used = print_enum e" and "scalar_width (end_width_bytes e)"
  shows "\<exists>t u. used = t # u \<and> bare_token t = iw ''enum'' \<and> parse_enum_declaration (u @ ts) = Inr (e, ts)"
proof -
  obtain t1 t2 t3 t4 t5 u where used: "used = t1 # t2 # t3 # t4 # t5 # u"
    and words: "bare_token t1 = iw ''enum''" "bare_token t2 = sw (end_name e)" "bare_token t3 = pw '':''"
      "bare_token t4 = iw (scalar_name ''uint'' (end_width_bytes e) (end_byte_order e))" "bare_token t5 = pw ''{''"
    and vals: "map bare_token u = print_enum_body (end_values e)"
    using assms(1) unfolding print_enum_def append_Cons append_Nil spelled_Cons by blast
  show ?thesis
    using words underlying_scalar_reads [OF assms(2), of "end_byte_order e"] parse_enum_body_reads [OF vals, of "[]" ts]
    by (cases e) (simp add: used parse_enum_declaration_def)
qed

lemma parse_struct_reads:
  assumes "map bare_token used = print_struct s"
    and "list_all expressible_field (sd_fields s)" and "list_all expressible_rule (sd_validations s)"
  shows "\<exists>t u. used = t # u \<and> bare_token t = iw ''struct'' \<and> parse_struct (u @ ts) = Inr (s, ts)"
proof -
  obtain t1 t2 t3 u where used: "used = t1 # t2 # t3 # u"
    and words: "bare_token t1 = iw ''struct''" "bare_token t2 = sw (sd_name s)" "bare_token t3 = pw ''{''"
    and rest: "map bare_token u = print_body (sd_fields s) (sd_validations s)"
    using assms(1) unfolding print_struct_def append_Cons append_Nil spelled_Cons by blast
  show ?thesis
    using words parse_struct_body_reads [OF rest assms(2,3), of "\<lparr>sd_name = sd_name s, sd_fields = [], sd_validations = []\<rparr>" ts]
    by (cases s) (simp add: used parse_struct_def)
qed

lemma parse_message_reads:
  assumes "map bare_token used = print_message m"
    and "list_all expressible_field (md_fields m)" and "list_all expressible_rule (md_validations m)"
  shows "\<exists>t u. used = t # u \<and> bare_token t = iw ''message'' \<and> parse_message (u @ ts) = Inr (m, ts)"
proof -
  obtain t1 t2 us where us: "used = t1 # t2 # us"
    and words: "bare_token t1 = iw ''message''" "bare_token t2 = sw (md_name m)"
    and rest: "map bare_token us = (if md_allow_trailing_bytes m then [iw ''allow_trailing_bytes''] else []) @ pw ''{'' #
      print_body (md_fields m) (md_validations m)"
    using assms(1) unfolding print_message_def append_Cons append_Nil spelled_Cons by blast
  show ?thesis
  proof (cases "md_allow_trailing_bytes m")
    case True
    with rest obtain t3 t4 u where u: "us = t3 # t4 # u" "bare_token t3 = iw ''allow_trailing_bytes''"
      "bare_token t4 = pw ''{''" "map bare_token u = print_body (md_fields m) (md_validations m)"
      by (auto simp: spelled_Cons)
    from words True u(1-3) parse_message_body_reads [OF u(4) assms(2,3),
        of "\<lparr>md_name = md_name m, md_fields = [], md_validations = [], md_allow_trailing_bytes = True\<rparr>" ts]
    show ?thesis by (cases m) (simp add: us parse_message_def)
  next
    case False
    with rest obtain t4 u where u: "us = t4 # u"
      "bare_token t4 = pw ''{''" "map bare_token u = print_body (md_fields m) (md_validations m)"
      by (auto simp: spelled_Cons)
    from words False u(1,2) parse_message_body_reads [OF u(3) assms(2,3),
        of "\<lparr>md_name = md_name m, md_fields = [], md_validations = [], md_allow_trailing_bytes = False\<rparr>" ts]
    show ?thesis by (cases m) (simp add: us parse_message_def)
  qed
qed

subsection \<open>The schema\<close>

lemma end_of_input: "map bare_token ts = [(TK_End, [])] \<Longrightarrow> parse_declarations d ts = Inr d"
  by (subst parse_declarations.simps) (auto simp: spelled_Cons is_end_def bare_token_iff)

lemma declaration_turn:
  assumes "parse_declaration d (t # ts) = Inr (d', ts')" and "bare_token t = iw x"
  shows "parse_declarations d (t # ts) = parse_declarations d' ts'"
  using assms by (subst parse_declarations.simps) (simp add: is_end_def)

text \<open>The declarations of one kind, one after the other.\<close>

definition no_comma :: "tokens \<Rightarrow> bool" where
  "no_comma ts \<longleftrightarrow> consume_optional_separator ts = ts"

lemma no_comma_word: "bare_token t = iw x \<Longrightarrow> no_comma (t # ts)"
  by (simp add: no_comma_def)

lemma no_comma_end: "map bare_token ts = [(TK_End, [])] \<Longrightarrow> no_comma ts"
  by (auto simp: spelled_Cons no_comma_def pw_def)

lemma declarations_reads:
  assumes "\<And>d used ts x. x \<in> set xs \<Longrightarrow> map bare_token used = p x \<Longrightarrow> no_comma ts \<Longrightarrow>
      parse_declarations d (used @ ts) = parse_declarations (add x d) ts \<and> no_comma (used @ ts)"
    and "map bare_token used = concat (map p xs)" and "no_comma ts"
  shows "parse_declarations d (used @ ts) = parse_declarations (fold add xs d) ts \<and> no_comma (used @ ts)"
  using assms
proof (induction xs arbitrary: used d)
  case (Cons x xs)
  then obtain u v where used: "used = u @ v" "map bare_token u = p x" "map bare_token v = concat (map p xs)"
    by (auto simp: spelled_append)
  have rest: "parse_declarations (add x d) (v @ ts) = parse_declarations (fold add xs (add x d)) ts \<and> no_comma (v @ ts)"
    by (rule Cons.IH) (use Cons.prems(1,3) used(3) in auto)
  have "parse_declarations d (u @ v @ ts) = parse_declarations (add x d) (v @ ts) \<and> no_comma (u @ v @ ts)"
    by (rule Cons.prems(1)) (use used(2) rest in simp_all)
  with rest show ?case by (simp add: used(1))
qed simp

lemma fold_adds:
  "fold (\<lambda>i d. d\<lparr>pd_imports := pd_imports d @ [i]\<rparr>) is d = d\<lparr>pd_imports := pd_imports d @ is\<rparr>"
  "fold (\<lambda>e d. d\<lparr>pd_enums := pd_enums d @ [e]\<rparr>) es d = d\<lparr>pd_enums := pd_enums d @ es\<rparr>"
  "fold (\<lambda>s d. d\<lparr>pd_structs := pd_structs d @ [s]\<rparr>) ss d = d\<lparr>pd_structs := pd_structs d @ ss\<rparr>"
  "fold (\<lambda>m d. d\<lparr>pd_messages := pd_messages d @ [m]\<rparr>) ms d = d\<lparr>pd_messages := pd_messages d @ ms\<rparr>"
  by (induction "is" arbitrary: d, simp_all, induction es arbitrary: d, simp_all, induction ss arbitrary: d, simp_all,
      induction ms arbitrary: d, simp_all)

lemma import_turn:
  assumes "map bare_token used = [iw ''import'', sw (imp_path i)]" and "no_comma ts"
  shows "parse_declarations d (used @ ts) = parse_declarations (d\<lparr>pd_imports := pd_imports d @ [i]\<rparr>) ts \<and> no_comma (used @ ts)"
proof -
  obtain t1 t2 where used: "used = [t1, t2]" "bare_token t1 = iw ''import''" "bare_token t2 = sw (imp_path i)"
    using assms(1) by (auto simp: spelled_Cons)
  from used(2,3) assms(2)
  have "parse_declaration d (t1 # t2 # ts) = Inr (d\<lparr>pd_imports := pd_imports d @ [i]\<rparr>, ts)"
    by (cases i) (simp add: parse_declaration_def no_comma_def)
  from declaration_turn [OF this used(2)] no_comma_word [OF used(2)] show ?thesis by (simp add: used(1))
qed

lemma enum_turn:
  assumes "map bare_token used = print_enum e" and "scalar_width (end_width_bytes e)"
  shows "parse_declarations d (used @ ts) = parse_declarations (d\<lparr>pd_enums := pd_enums d @ [e]\<rparr>) ts \<and> no_comma (used @ ts)"
proof -
  obtain t u where u: "used = t # u" "bare_token t = iw ''enum''" "parse_enum_declaration (u @ ts) = Inr (e, ts)"
    using parse_enum_declaration_reads [OF assms] by blast
  then have "parse_declaration d (t # u @ ts) = Inr (d\<lparr>pd_enums := pd_enums d @ [e]\<rparr>, ts)"
    by (simp add: parse_declaration_def)
  from declaration_turn [OF this u(2)] no_comma_word [OF u(2)] show ?thesis by (simp add: u(1))
qed

lemma struct_turn:
  assumes "map bare_token used = print_struct s"
    and "list_all expressible_field (sd_fields s)" and "list_all expressible_rule (sd_validations s)"
  shows "parse_declarations d (used @ ts) = parse_declarations (d\<lparr>pd_structs := pd_structs d @ [s]\<rparr>) ts \<and> no_comma (used @ ts)"
proof -
  obtain t u where u: "used = t # u" "bare_token t = iw ''struct''" "parse_struct (u @ ts) = Inr (s, ts)"
    using parse_struct_reads [OF assms] by blast
  then have "parse_declaration d (t # u @ ts) = Inr (d\<lparr>pd_structs := pd_structs d @ [s]\<rparr>, ts)"
    by (simp add: parse_declaration_def)
  from declaration_turn [OF this u(2)] no_comma_word [OF u(2)] show ?thesis by (simp add: u(1))
qed

lemma message_turn:
  assumes "map bare_token used = print_message m"
    and "list_all expressible_field (md_fields m)" and "list_all expressible_rule (md_validations m)"
  shows "parse_declarations d (used @ ts) = parse_declarations (d\<lparr>pd_messages := pd_messages d @ [m]\<rparr>) ts \<and> no_comma (used @ ts)"
proof -
  obtain t u where u: "used = t # u" "bare_token t = iw ''message''" "parse_message (u @ ts) = Inr (m, ts)"
    using parse_message_reads [OF assms] by blast
  then have "parse_declaration d (t # u @ ts) = Inr (d\<lparr>pd_messages := pd_messages d @ [m]\<rparr>, ts)"
    by (simp add: parse_declaration_def)
  from declaration_turn [OF this u(2)] no_comma_word [OF u(2)] show ?thesis by (simp add: u(1))
qed

lemma parse_upr_reads:
  assumes words: "map bare_token ts = print_protocol d @ [(TK_End, [])]" and ok: "expressible_protocol d"
  shows "parse_upr require ts = Inr d"
proof -
  obtain t1 t2 r where r: "ts = t1 # t2 # r" and head: "bare_token t1 = iw ''protocol''" "bare_token t2 = sw (pd_name d)"
    and rest: "map bare_token r = concat (map (\<lambda>i. [iw ''import'', sw (imp_path i)]) (pd_imports d)) @
      concat (map print_enum (pd_enums d)) @ concat (map print_struct (pd_structs d)) @
      concat (map print_message (pd_messages d)) @ [(TK_End, [])]"
    using words unfolding print_protocol_def append_Cons append_Nil append_assoc spelled_Cons by blast
  then obtain ui ue us um uz where parts: "r = ui @ ue @ us @ um @ uz"
    "map bare_token ui = concat (map (\<lambda>i. [iw ''import'', sw (imp_path i)]) (pd_imports d))"
    "map bare_token ue = concat (map print_enum (pd_enums d))"
    "map bare_token us = concat (map print_struct (pd_structs d))"
    "map bare_token um = concat (map print_message (pd_messages d))"
    "map bare_token uz = [(TK_End, [])]"
    unfolding map_append_iff by (elim exE conjE) simp
  let ?n = "empty_protocol\<lparr>pd_name := pd_name d\<rparr>"
  have name: "parse_declarations empty_protocol ts = parse_declarations ?n r"
    using head by (subst r, intro declaration_turn [OF _ head(1)])
      (simp add: parse_declaration_def empty_protocol_def)
  have z: "no_comma uz" by (rule no_comma_end [OF parts(6)])
  have messages: "parse_declarations e (um @ uz) = parse_declarations (e\<lparr>pd_messages := pd_messages e @ pd_messages d\<rparr>) uz
      \<and> no_comma (um @ uz)" for e
    using declarations_reads [OF message_turn parts(5) z] ok
    by (auto simp: expressible_protocol_def list_all_iff fold_adds)
  have structs: "parse_declarations e (us @ um @ uz) =
      parse_declarations (e\<lparr>pd_structs := pd_structs e @ pd_structs d\<rparr>) (um @ uz) \<and> no_comma (us @ um @ uz)" for e
    using declarations_reads [OF struct_turn parts(4) messages [THEN conjunct2]] ok
    by (auto simp: expressible_protocol_def list_all_iff fold_adds)
  have enums: "parse_declarations e (ue @ us @ um @ uz) =
      parse_declarations (e\<lparr>pd_enums := pd_enums e @ pd_enums d\<rparr>) (us @ um @ uz) \<and> no_comma (ue @ us @ um @ uz)" for e
    using declarations_reads [OF enum_turn parts(3) structs [THEN conjunct2]] ok
    by (auto simp: expressible_protocol_def list_all_iff fold_adds)
  have import_part: "parse_declarations e (ui @ ue @ us @ um @ uz) =
      parse_declarations (e\<lparr>pd_imports := pd_imports e @ pd_imports d\<rparr>) (ue @ us @ um @ uz)" for e
    using declarations_reads [OF import_turn parts(2) enums [THEN conjunct2]] by (auto simp: fold_adds)
  have "parse_declarations empty_protocol ts = Inr d"
    unfolding name parts(1)
    by (cases d) (simp add: import_part enums structs messages end_of_input [OF parts(6)], simp add: empty_protocol_def)
  with ok show ?thesis by (simp add: parse_upr_def expressible_protocol_def)
qed

subsection \<open>The text\<close>

lemma decimal_spellable: "spellable (nw n)"
  using decimal_digits [of n] decimal_nonempty [of n] by (simp add: spellable_def nw_def)

lemma digit_part: "is_digit c \<Longrightarrow> is_identifier_part c"
  by (simp add: is_identifier_part_def)

lemma decimal_part: "list_all is_identifier_part (decimal n)"
  using decimal_digits [of n] by (simp add: list_all_iff digit_part)

lemma order_suffix_part: "list_all is_identifier_part (order_suffix bo)"
  by (simp add: order_suffix_def is_identifier_part_def is_alpha_def char_between_def)

lemma stem_part:
  "list_all is_identifier_part ''uint'' \<and> is_identifier_start (CHR ''u'')"
  "list_all is_identifier_part ''int'' \<and> is_identifier_start (CHR ''i'')"
  "list_all is_identifier_part ''float32'' \<and> list_all is_identifier_part ''float64'' \<and> is_identifier_start (CHR ''f'')"
  by (simp_all add: is_identifier_part_def is_identifier_start_def is_alpha_def is_digit_def char_between_def)

lemma scalar_name_spellable:
  "spellable (iw (scalar_name ''uint'' w bo))" "spellable (iw (scalar_name ''int'' w bo))"
  "spellable (iw (''float32'' @ order_suffix bo))" "spellable (iw (''float64'' @ order_suffix bo))"
  using stem_part by (simp_all add: spellable_def iw_def scalar_name_def decimal_part order_suffix_part)

lemma identifier_spellable: "identifier_text x \<Longrightarrow> spellable (iw x)"
  by (simp add: identifier_text_def spellable_def iw_def)

lemma string_spellable: "spellable (sw x)"
  by (simp add: spellable_def sw_def)

lemma punctuation_spellable:
  "spellable (pw ''{'')" "spellable (pw ''}'')" "spellable (pw ''['')" "spellable (pw '']'')" "spellable (pw ''('')"
  "spellable (pw '')'')" "spellable (pw '':'')" "spellable (pw '','')" "spellable (pw ''@'')" "spellable (pw ''!'')"
  "spellable (pw ''*'')" "spellable (pw ''='')" "spellable (pw ''<'')" "spellable (pw ''>'')"
  by (simp_all add: spellable_def pw_def is_punctuation_def)

lemma keyword_spellable:
  "spellable (iw ''protocol'')" "spellable (iw ''import'')" "spellable (iw ''enum'')" "spellable (iw ''struct'')"
  "spellable (iw ''message'')" "spellable (iw ''validate'')" "spellable (iw ''allow_trailing_bytes'')"
  "spellable (iw ''checksum'')" "spellable (iw ''if'')" "spellable (iw ''present'')" "spellable (iw ''align'')"
  "spellable (iw ''signed'')" "spellable (iw ''bytes'')" "spellable (iw ''reserved'')" "spellable (iw ''ascii'')"
  "spellable (iw ''utf8'')" "spellable (iw ''variant'')"
  by (simp_all add: spellable_def iw_def is_identifier_start_def is_identifier_part_def is_alpha_def is_digit_def
      char_between_def)

lemmas words_spellable = punctuation_spellable keyword_spellable decimal_spellable string_spellable scalar_name_spellable

lemma enum_body_spellable: "list_all spellable (print_enum_body vs)"
  by (induction vs) (simp_all add: words_spellable)

lemma bit_field_spellable: "list_all spellable (print_bit_field b)"
  by (simp add: print_bit_field_def words_spellable enum_body_spellable)

lemma bit_field_body_spellable: "list_all spellable (print_bit_field_body bs)"
  by (induction bs) (simp_all add: words_spellable bit_field_spellable)

lemma variant_case_body_spellable: "list_all spellable (print_variant_case_body cs)"
  by (induction cs) (simp_all add: words_spellable)

lemma size_spellable: "list_all spellable (print_size x n)"
  by (simp add: print_size_def words_spellable)

lemma condition_spellable: "list_all spellable (print_condition c)"
  by (simp add: print_condition_def words_spellable)

lemma field_type_spellable: "field_in_range f \<Longrightarrow> list_all spellable (print_field_type f)"
  by (cases "fd_kind f")
    (simp_all add: print_field_type_def words_spellable scalar_name_spellable(3,4) [simplified] size_spellable field_in_range_def
      reference_name_def identifier_spellable)

lemma field_spellable:
  assumes "field_in_range f"
  shows "list_all spellable (print_field f)"
proof -
  have "list_all spellable (print_option print_checksum (fd_checksum f))"
    using assms by (cases "fd_checksum f")
      (simp_all add: print_option_def print_checksum_def words_spellable field_in_range_def identifier_spellable)
  moreover have "list_all spellable (print_option print_presence (fd_presence f))"
    by (simp add: print_option_def print_presence_def words_spellable split: option.split)
  moreover have "list_all spellable (print_option (\<lambda>c. iw ''if'' # print_condition c) (fd_condition f))"
    by (simp add: print_option_def words_spellable condition_spellable split: option.split)
  moreover have "list_all spellable (print_field_body f)"
    by (simp add: print_field_body_def words_spellable enum_body_spellable bit_field_body_spellable
        variant_case_body_spellable)
  ultimately show ?thesis
    using field_type_spellable [OF assms] by (simp add: print_field_def words_spellable)
qed

lemma validation_spellable: "list_all spellable (print_validation r)"
proof -
  have "list_all spellable (print_operator (vrd_op r))"
    by (cases "vrd_op r") (simp_all add: words_spellable)
  moreover have "list_all spellable (print_option (\<lambda>c. pw '','' # iw ''if'' # print_condition c) (vrd_when r))"
    by (simp add: print_option_def words_spellable condition_spellable split: option.split)
  ultimately show ?thesis by (simp add: print_validation_def words_spellable)
qed

lemma body_spellable: "list_all expressible_field fs \<Longrightarrow> list_all spellable (print_body fs rs)"
  by (induction fs; induction rs)
    (simp_all add: print_body_simps words_spellable validation_spellable field_spellable expressible_field_def)

lemma concat_spellable: "(\<And>x. x \<in> set xs \<Longrightarrow> list_all spellable (p x)) \<Longrightarrow> list_all spellable (concat (map p xs))"
  by (induction xs) auto

lemma protocol_spellable:
  assumes "expressible_protocol d"
  shows "list_all spellable (print_protocol d)"
proof -
  have "list_all spellable (concat (map (\<lambda>i. [iw ''import'', sw (imp_path i)]) (pd_imports d)))"
    by (rule concat_spellable) (simp add: words_spellable)
  moreover have "list_all spellable (concat (map print_enum (pd_enums d)))"
    by (rule concat_spellable) (simp add: print_enum_def words_spellable enum_body_spellable)
  moreover have "list_all expressible_field (sd_fields s)" if "s \<in> set (pd_structs d)" for s
    using assms that by (simp add: expressible_protocol_def list_all_iff)
  then have "list_all spellable (concat (map print_struct (pd_structs d)))"
    by (intro concat_spellable) (simp add: print_struct_def words_spellable body_spellable)
  moreover have "list_all expressible_field (md_fields m)" if "m \<in> set (pd_messages d)" for m
    using assms that by (simp add: expressible_protocol_def list_all_iff)
  then have "list_all spellable (concat (map print_message (pd_messages d)))"
    by (intro concat_spellable) (simp add: print_message_def words_spellable body_spellable)
  ultimately show ?thesis by (simp add: print_protocol_def words_spellable)
qed

text \<open>A schema the language expresses is loaded from its text as it was written, with or without a root declaration.\<close>

lemma load_upr_reads:
  assumes "expressible_protocol d"
  shows "load_upr require (schema_text d) = Some (Inr d)"
proof -
  obtain ts where "tokenize (schema_text d) = Some (Inr ts)" "map bare_token ts = print_protocol d @ [(TK_End, [])]"
    using tokenize_rendered [OF protocol_spellable [OF assms]] by (auto simp: schema_text_def)
  with parse_upr_reads [OF _ assms, of ts require] show ?thesis by (simp add: load_upr_def)
qed

end
