(* ===== verification/Schema_Bounds.thy ===== *)
theory Schema_Bounds
  imports Schema_Text
begin

text \<open>
  What holds of everything the UPR loader accepts: the numbers fit the members they are stored in, a field has the width
  its kind asks for, and the parser never moves past the last token.
\<close>

subsection \<open>The range of a field\<close>

definition width_fits :: "field_definition \<Rightarrow> bool" where
  "width_fits f \<longleftrightarrow>
     (fd_kind f \<in> {KUnsigned, KSigned, KEnum} \<longrightarrow> scalar_width (fd_width_bytes f)) \<and>
     (fd_kind f = KFloat32 \<longrightarrow> fd_width_bytes f = 4) \<and> (fd_kind f = KFloat64 \<longrightarrow> fd_width_bytes f = 8)"

text \<open>A size is given by a number or by a field, never by both; likewise a count.\<close>

definition loaded_field_ok :: "field_definition \<Rightarrow> bool" where
  "loaded_field_ok f \<longleftrightarrow>
     width_fits f \<and>
     fd_fixed_size f < 2 ^ 64 \<and> fd_fixed_count f < 2 ^ 64 \<and> fd_alignment f < 2 ^ 64 \<and>
     (fd_fixed_size f = 0 \<or> fd_size_from_field f = '''') \<and> (fd_fixed_count f = 0 \<or> fd_count_from_field f = '''') \<and>
     (case fd_presence f of None \<Rightarrow> True | Some p \<Rightarrow> prd_bit_index p \<le> 255) \<and>
     list_all expressible_bit_field (fd_bit_fields f)"

definition loaded_protocol_ok :: "protocol_definition \<Rightarrow> bool" where
  "loaded_protocol_ok d \<longleftrightarrow>
     list_all (\<lambda>e. scalar_width (end_width_bytes e)) (pd_enums d) \<and>
     list_all (\<lambda>s. list_all loaded_field_ok (sd_fields s)) (pd_structs d) \<and>
     list_all (\<lambda>m. list_all loaded_field_ok (md_fields m)) (pd_messages d)"

lemma width_of_bits:
  fixes b :: u32
  assumes "b \<noteq> 0" and "b mod 8 = 0" and "\<not> b div 8 > 255"
  shows "scalar_width (unat (b div 8))"
proof -
  have "unat b \<noteq> 0" "unat b mod 8 = 0" "unat b div 8 \<le> 255" "unat (b div 8) = unat b div 8"
    using assms unfolding word_unat_eq_iff word_less_nat_alt
    by (simp_all only: unat_div_distrib unat_mod_distrib unsigned_numeral unsigned_0 not_less) simp_all
  then show ?thesis by (auto simp: scalar_width_def)
qed

lemma parse_width_token_bounds:
  assumes "parse_width_token x y = Inr w"
  shows "scalar_width w"
proof -
  let ?bits = "width_bits_loop 0 (subspan (length y) (length (takeWhile (\<lambda>c. c \<noteq> CHR ''_'') x) - length y) x)"
  have long: "\<not> length x \<le> length y" using assms by (simp add: parse_width_token_def split: if_splits)
  then obtain b where b: "?bits = Some b"
    using assms by (cases ?bits) (simp_all add: parse_width_token_def Let_def)
  with assms long have result: "(if b = 0 \<or> b mod 8 \<noteq> 0 \<or> b div 8 > 255
      then Inl (SchemaError (''Unsupported scalar width token: '' @ x)) else Inr (unat (b div 8))) = Inr w"
    unfolding parse_width_token_def Let_def by (simp only: if_False option.case)
  then have "b \<noteq> 0" "b mod 8 = 0" "\<not> b div 8 > 255" "w = unat (b div 8)" by (metis Inr_Inl_False sum.inject(2))+
  then show ?thesis using width_of_bits [of b] by simp
qed

lemma underlying_scalar_bounds: "underlying_scalar x bo = Inr (w, bo') \<Longrightarrow> scalar_width w"
  by (auto simp: underlying_scalar_def Let_def branch_Inr dest: parse_width_token_bounds)

lemma unat_small: "unat (v :: u64) < 18446744073709551616"
  using unsigned_less [of v] by simp

lemma parse_bit_field_bounds: "parse_bit_field ts = Inr (b, ts') \<Longrightarrow> expressible_bit_field b"
  unfolding parse_bit_field_def
  by (auto simp: branch_Inr expressible_bit_field_def Let_def word_less_nat_alt not_less split: option.splits)

lemma parse_bit_field_body_bounds:
  "parse_bit_field_body xs ts = Inr (bs, ts') \<Longrightarrow> list_all expressible_bit_field xs \<Longrightarrow> list_all expressible_bit_field bs"
proof (induction xs ts rule: parse_bit_field_body.induct)
  case (1 xs ts)
  show ?case
  proof (cases "match_punctuation ''}'' ts")
    case Some
    with "1.prems" show ?thesis by (simp add: parse_bit_field_body.simps [of xs ts])
  next
    case None
    with "1.prems"(1) obtain b ts1 where first: "parse_bit_field ts = Inr (b, ts1)"
      and loop: "parse_bit_field_body (xs @ [b]) (consume_optional_separator ts1) = Inr (bs, ts')"
      by (auto simp: parse_bit_field_body.simps [of xs ts] bind_res_Inr_iff)
    from "1.IH" [OF None first refl loop] "1.prems"(2) parse_bit_field_bounds [OF first] show ?thesis by simp
  qed
qed

text \<open>The state of a field before its type.\<close>

definition fresh_field :: "field_definition \<Rightarrow> bool" where
  "fresh_field f \<longleftrightarrow> fd_fixed_size f = 0 \<and> fd_size_from_field f = [] \<and> fd_fixed_count f = 0 \<and> fd_count_from_field f = [] \<and>
     fd_presence f = None \<and> fd_bit_fields f = [] \<and> fd_alignment f = 1"

lemma fresh_field_ok: "fresh_field f \<Longrightarrow> width_fits f \<Longrightarrow> loaded_field_ok f"
  by (simp add: fresh_field_def loaded_field_ok_def)

lemma optional_size_cases:
  "parse_optional_size_suffix f ts = Inr (f', ts') \<Longrightarrow>
   f' = f \<or> (\<exists>v :: u64. f' = f\<lparr>fd_fixed_size := unat v\<rparr>) \<or> (\<exists>x. f' = f\<lparr>fd_size_from_field := x\<rparr>)"
  unfolding parse_optional_size_suffix_def by (auto simp: branch_Inr)

lemma optional_count_cases:
  "parse_optional_count_suffix f ts = Inr (f', ts') \<Longrightarrow>
   f' = f \<or> (\<exists>v :: u64. f' = f\<lparr>fd_kind := KCollection, fd_fixed_count := unat v\<rparr>) \<or>
   (\<exists>x. f' = f\<lparr>fd_kind := KCollection, fd_count_from_field := x\<rparr>)"
  unfolding parse_optional_count_suffix_def Let_def by (auto simp: branch_Inr)

lemma optional_size_ok:
  assumes "parse_optional_size_suffix f ts = Inr (f', ts')" and "fresh_field f" and "fd_kind f \<in> {KBytes, KString}"
  shows "loaded_field_ok f'"
  using optional_size_cases [OF assms(1)] assms(2,3)
  by (elim disjE exE) (simp_all add: loaded_field_ok_def fresh_field_def width_fits_def unat_small, auto simp: unat_small)

lemma optional_count_ok:
  assumes "parse_optional_count_suffix f ts = Inr (f', ts')" and "fresh_field f" and "fd_kind f = KStruct"
  shows "loaded_field_ok f'"
  using optional_count_cases [OF assms(1)] assms(2,3)
  by (elim disjE exE) (simp_all add: loaded_field_ok_def fresh_field_def width_fits_def unat_small)

lemma with_suffix_order_ok: "loaded_field_ok (with_suffix_order x f) = loaded_field_ok f"
  by (simp add: with_suffix_order_def loaded_field_ok_def width_fits_def)

lemma parse_field_type_bounds:
  assumes "parse_field_type f ts = Inr (f', ts')" and fresh: "fresh_field f"
  shows "loaded_field_ok f'"
proof -
  have scalar: "loaded_field_ok (f\<lparr>fd_kind := k, fd_width_bytes := w\<rparr>)" if "scalar_width w" "k \<in> {KUnsigned, KSigned}" for k w
    using fresh that by (auto simp: loaded_field_ok_def fresh_field_def width_fits_def)
  have enum_ok: "loaded_field_ok (f\<lparr>fd_kind := KEnum, fd_width_bytes := w, fd_byte_order := bo\<rparr>)" if "scalar_width w" for w bo
    using fresh that by (simp add: loaded_field_ok_def fresh_field_def width_fits_def)
  have other: "loaded_field_ok (f\<lparr>fd_kind := KFloat32, fd_width_bytes := 4\<rparr>)"
    "loaded_field_ok (f\<lparr>fd_kind := KFloat64, fd_width_bytes := 8\<rparr>)"
    "loaded_field_ok (f\<lparr>fd_kind := KVariant, fd_tag_from_field := x\<rparr>)" for x
    using fresh by (simp_all add: loaded_field_ok_def fresh_field_def width_fits_def)
  have states: "fresh_field (f\<lparr>fd_kind := KBytes\<rparr>)" "fresh_field (f\<lparr>fd_kind := KBytes, fd_is_reserved := True\<rparr>)"
    "fresh_field (f\<lparr>fd_kind := KString\<rparr>)" "fresh_field (f\<lparr>fd_kind := KString, fd_string_encoding := e\<rparr>)" for e
    using fresh by (simp_all add: fresh_field_def)
  note size = optional_size_ok [OF _ states(1), simplified] optional_size_ok [OF _ states(2), simplified]
    optional_size_ok [OF _ states(3), simplified] optional_size_ok [OF _ states(4), simplified]
  have count: "loaded_field_ok g"
    if "parse_optional_count_suffix (f\<lparr>fd_kind := KStruct, fd_referenced_type := x\<rparr>) us = Inr (g, vs)" for g us vs x
    using that by (rule optional_count_ok) (use fresh in \<open>simp_all add: fresh_field_def\<close>)
  from assms(1) show ?thesis
    unfolding parse_field_type_def Let_def branch_Inr
    by (elim disjE conjE exE)
      (simp_all only: sum.distinct, auto simp: branch_Inr with_suffix_order_ok scalar other
        intro: size enum_ok [OF underlying_scalar_bounds] dest: count parse_width_token_bounds underlying_scalar_bounds)
qed

text \<open>A suffix keeps the range; nothing but the alignment, the presence bit and the bit fields is a number of it.\<close>

lemma ok_updates:
  "loaded_field_ok (f\<lparr>fd_has_expected_unsigned := b, fd_expected_unsigned := v\<rparr>) = loaded_field_ok f"
  "loaded_field_ok (f\<lparr>fd_checksum := c\<rparr>) = loaded_field_ok f"
  "loaded_field_ok (f\<lparr>fd_condition := d\<rparr>) = loaded_field_ok f"
  "loaded_field_ok (f\<lparr>fd_enum_values := es\<rparr>) = loaded_field_ok f"
  "loaded_field_ok (f\<lparr>fd_variant_cases := vs\<rparr>) = loaded_field_ok f"
  "loaded_field_ok f \<Longrightarrow> prd_bit_index p \<le> 255 \<Longrightarrow> loaded_field_ok (f\<lparr>fd_presence := Some p\<rparr>)"
  "loaded_field_ok f \<Longrightarrow> a < 2 ^ 64 \<Longrightarrow> loaded_field_ok (f\<lparr>fd_alignment := a\<rparr>)"
  "loaded_field_ok f \<Longrightarrow> list_all expressible_bit_field bs \<Longrightarrow> loaded_field_ok (f\<lparr>fd_bit_fields := bs\<rparr>)"
  by (simp_all add: loaded_field_ok_def width_fits_def)

lemma presence_bounds: "parse_presence_suffix ts = Inr (p, ts') \<Longrightarrow> prd_bit_index p \<le> 255"
  unfolding parse_presence_suffix_def by (auto simp: branch_Inr word_less_nat_alt not_less)

lemma alignment_bounds: "parse_alignment_suffix ts = Inr (a, ts') \<Longrightarrow> a < 2 ^ 64"
  unfolding parse_alignment_suffix_def by (auto simp: branch_Inr unat_small)

lemma parse_field_body_bounds: "parse_field_body f ts = Inr (f', ts') \<Longrightarrow> loaded_field_ok f \<Longrightarrow> loaded_field_ok f'"
  by (auto simp: parse_field_body_def branch_Inr ok_updates dest!: parse_bit_field_body_bounds)

lemma parse_field_suffix_bounds:
  assumes "parse_field_suffix f ts = Inr (Some (f', ts'))" and "loaded_field_ok f"
  shows "loaded_field_ok f'"
  using assms unfolding parse_field_suffix_def
  by (auto simp: branch_Inr ok_updates dest: presence_bounds alignment_bounds parse_field_body_bounds)

lemma parse_field_suffixes_bounds:
  "parse_field_suffixes f ts = Inr (f', ts') \<Longrightarrow> loaded_field_ok f \<Longrightarrow> loaded_field_ok f'"
proof (induction f ts rule: parse_field_suffixes.induct)
  case (1 f ts)
  from "1.prems"(1) obtain r where r: "parse_field_suffix f ts = Inr r"
    by (auto simp: parse_field_suffixes.simps [of f ts] bind_res_Inr_iff)
  show ?case
  proof (cases r)
    case None
    with "1.prems" r show ?thesis by (simp add: parse_field_suffixes.simps [of f ts])
  next
    case (Some p)
    obtain f1 ts1 where p: "p = (f1, ts1)" by (cases p)
    with "1.prems"(1) r Some have "parse_field_suffixes f1 ts1 = Inr (f', ts')"
      by (simp add: parse_field_suffixes.simps [of f ts])
    moreover have "loaded_field_ok f1" using parse_field_suffix_bounds r Some p "1.prems"(2) by blast
    ultimately show ?thesis using "1.IH" [OF r Some p [symmetric]] by blast
  qed
qed

lemma fresh_default: "fresh_field (default_field_definition\<lparr>fd_name := x\<rparr>)"
  by (simp add: fresh_field_def default_field_definition_def)

lemma parse_field_definition_bounds: "parse_field_definition ts = Inr (f, ts') \<Longrightarrow> loaded_field_ok f"
  by (auto simp: parse_field_definition_def bind_res_Inr_iff 
      dest!: parse_field_type_bounds [OF _ fresh_default] dest: parse_field_suffixes_bounds)

lemma parse_struct_body_bounds:
  "parse_struct_body d ts = Inr (d', ts') \<Longrightarrow> list_all loaded_field_ok (sd_fields d) \<Longrightarrow>
   list_all loaded_field_ok (sd_fields d')"
proof (induction d ts rule: parse_struct_body.induct)
  case (1 d ts)
  note loop = parse_struct_body.simps [of d ts]
  consider (brace) ts1 where "match_punctuation ''}'' ts = Some ts1"
    | (rule) ts1 where "match_punctuation ''}'' ts = None" "match_identifier ''validate'' ts = Some ts1"
    | (field) "match_punctuation ''}'' ts = None" "match_identifier ''validate'' ts = None"
    by (meson option.exhaust)
  then show ?case
  proof cases
    case brace
    with "1.prems" show ?thesis by (simp add: loop)
  next
    case rule
    with "1.prems" obtain r ts2 where first: "parse_validation_statement ts1 = Inr (r, ts2)"
      and rest: "parse_struct_body (d\<lparr>sd_validations := sd_validations d @ [r]\<rparr>) (consume_optional_separator ts2) = Inr (d', ts')"
      by (auto simp: loop branch_Inr)
    from "1.IH"(2) [OF rule first refl rest] "1.prems"(2) show ?thesis by simp
  next
    case field
    with "1.prems" obtain f ts2 where first: "parse_field_definition ts = Inr (f, ts2)"
      and rest: "parse_struct_body (d\<lparr>sd_fields := sd_fields d @ [f]\<rparr>) (consume_optional_separator ts2) = Inr (d', ts')"
      by (auto simp: loop branch_Inr)
    from "1.IH"(1) [OF field first refl rest] "1.prems"(2) parse_field_definition_bounds [OF first] show ?thesis by simp
  qed
qed

lemma parse_message_body_bounds:
  "parse_message_body d ts = Inr (d', ts') \<Longrightarrow> list_all loaded_field_ok (md_fields d) \<Longrightarrow>
   list_all loaded_field_ok (md_fields d')"
proof (induction d ts rule: parse_message_body.induct)
  case (1 d ts)
  note loop = parse_message_body.simps [of d ts]
  consider (brace) ts1 where "match_punctuation ''}'' ts = Some ts1"
    | (trailing) ts1 where "match_punctuation ''}'' ts = None" "match_identifier ''allow_trailing_bytes'' ts = Some ts1"
    | (rule) ts1 where "match_punctuation ''}'' ts = None" "match_identifier ''allow_trailing_bytes'' ts = None"
        "match_identifier ''validate'' ts = Some ts1"
    | (field) "match_punctuation ''}'' ts = None" "match_identifier ''allow_trailing_bytes'' ts = None"
        "match_identifier ''validate'' ts = None"
    by (meson option.exhaust)
  then show ?case
  proof cases
    case brace
    with "1.prems" show ?thesis by (simp add: loop)
  next
    case trailing
    with "1.prems" have "parse_message_body (d\<lparr>md_allow_trailing_bytes := True\<rparr>) (consume_optional_separator ts1)
        = Inr (d', ts')"
      by (simp add: loop)
    from "1.IH"(3) [OF trailing this] "1.prems"(2) show ?thesis by simp
  next
    case rule
    with "1.prems" obtain r ts2 where first: "parse_validation_statement ts1 = Inr (r, ts2)"
      and rest: "parse_message_body (d\<lparr>md_validations := md_validations d @ [r]\<rparr>) (consume_optional_separator ts2)
                 = Inr (d', ts')"
      by (auto simp: loop branch_Inr)
    from "1.IH"(2) [OF rule first refl rest] "1.prems"(2) show ?thesis by simp
  next
    case field
    with "1.prems" obtain f ts2 where first: "parse_field_definition ts = Inr (f, ts2)"
      and rest: "parse_message_body (d\<lparr>md_fields := md_fields d @ [f]\<rparr>) (consume_optional_separator ts2) = Inr (d', ts')"
      by (auto simp: loop branch_Inr)
    from "1.IH"(1) [OF field first refl rest] "1.prems"(2) parse_field_definition_bounds [OF first] show ?thesis by simp
  qed
qed

lemma parse_declaration_bounds:
  assumes "parse_declaration d ts = Inr (d', ts')" and "loaded_protocol_ok d"
  shows "loaded_protocol_ok d'"
proof -
  have enum: "scalar_width (end_width_bytes e)" if "parse_enum_declaration us = Inr (e, vs)" for us e vs
    using that by (auto simp: parse_enum_declaration_def branch_Inr dest: underlying_scalar_bounds)
  have struct: "list_all loaded_field_ok (sd_fields s)" if "parse_struct us = Inr (s, vs)" for us s vs
    using that by (auto simp: parse_struct_def branch_Inr dest: parse_struct_body_bounds)
  have message: "list_all loaded_field_ok (md_fields m)" if "parse_message us = Inr (m, vs)" for us m vs
  proof -
    from that obtain name t1 where name: "parse_name ''message name'' us = Inr (name, t1)"
      by (auto simp: parse_message_def bind_res_Inr_iff)
    with that show ?thesis
      by (cases "match_identifier ''allow_trailing_bytes'' t1")
        (auto simp: parse_message_def bind_res_Inr_iff dest!: parse_message_body_bounds)
  qed
  from assms enum struct message show ?thesis
    unfolding parse_declaration_def by (auto simp: branch_Inr loaded_protocol_ok_def)
qed

lemma parse_declarations_bounds: "parse_declarations d ts = Inr d' \<Longrightarrow> loaded_protocol_ok d \<Longrightarrow> loaded_protocol_ok d'"
proof (induction d ts rule: parse_declarations.induct)
  case (1 d ts)
  show ?case
  proof (cases "is_end ts")
    case True
    with "1.prems" show ?thesis by (simp add: parse_declarations.simps [of d ts])
  next
    case False
    with "1.prems"(1) obtain d1 ts1 where first: "parse_declaration d ts = Inr (d1, ts1)"
      and rest: "parse_declarations d1 ts1 = Inr d'"
      by (auto simp: parse_declarations.simps [of d ts] bind_res_Inr_iff)
    from "1.IH" [OF False first refl rest] parse_declaration_bounds [OF first "1.prems"(2)] show ?thesis by blast
  qed
qed

lemma loaded_schema_bounds:
  assumes "load_upr require_root schema = Some (Inr d)"
  shows "loaded_protocol_ok d \<and> (require_root \<longrightarrow> pd_name d \<noteq> [] \<and> pd_messages d \<noteq> [])"
proof -
  obtain ts where parsed: "parse_upr require_root ts = Inr d"
    using assms by (auto simp: load_upr_def bind_res_Inr_iff)
  then have "parse_declarations empty_protocol ts = Inr d"
    by (auto simp: parse_upr_def branch_Inr split: if_splits)
  then have "loaded_protocol_ok d"
    by (rule parse_declarations_bounds) (simp add: loaded_protocol_ok_def empty_protocol_def)
  with parsed show ?thesis by (auto simp: parse_upr_def branch_Inr split: if_splits)
qed

subsection \<open>The end of the token vector\<close>

text \<open>The tokens end with the end token and have it nowhere else.\<close>

definition ends_with_end :: "tokens \<Rightarrow> bool" where
  "ends_with_end ts \<longleftrightarrow> (\<exists>us t. ts = us @ [t] \<and> ut_kind t = TK_End \<and> (\<forall>u\<in>set us. ut_kind u \<noteq> TK_End))"

lemma lex_token_kind: "lex_token s = Inr (t, s') \<Longrightarrow> ut_kind t \<noteq> TK_End"
  by (auto simp: lex_token_def Let_def read_identifier_def read_number_def read_string_def read_punctuation_def
      token_at_def bind_res_Inr_iff split: if_splits prod.splits)

lemma tokenize_loop_end:
  assumes "tokenize_loop tokens s = Some r"
  shows "\<forall>ts. r = Inr ts \<longrightarrow> (\<forall>u\<in>set tokens. ut_kind u \<noteq> TK_End) \<longrightarrow> ends_with_end ts"
proof (rule tokenize_loop.raw_induct [OF _ assms], intro allI impI)
  fix f tokens s r ts
  assume IH: "\<And>tokens s r. f tokens s = Some r \<Longrightarrow>
      \<forall>ts. r = Inr ts \<longrightarrow> (\<forall>u\<in>set tokens. ut_kind u \<noteq> TK_End) \<longrightarrow> ends_with_end ts"
    and result: "(let s = lx_skip s in
        if lx_eof s then Some (Inr (tokens @ [token_at s TK_End []]))
        else (case lex_token s of Inl e \<Rightarrow> Some (Inl e) | Inr r \<Rightarrow> f (tokens @ [fst r]) (snd r))) = Some r"
    and r: "r = Inr ts" and before: "\<forall>u\<in>set tokens. ut_kind u \<noteq> TK_End"
  show "ends_with_end ts"
  proof (cases "lx_eof (lx_skip s)")
    case True
    with result r have "ts = tokens @ [token_at (lx_skip s) TK_End []]" by (simp add: Let_def)
    with before show ?thesis by (auto simp: ends_with_end_def token_at_def)
  next
    case False
    with result r obtain t s' where token: "lex_token (lx_skip s) = Inr (t, s')" and rest: "f (tokens @ [t]) s' = Some r"
      by (auto simp: Let_def split: sum.splits)
    from IH [OF rest] r before lex_token_kind [OF token] show ?thesis by simp
  qed
qed

lemma tokenize_end: "tokenize schema = Some (Inr ts) \<Longrightarrow> ends_with_end ts"
  using tokenize_loop_end [of "[]" "new_lexer schema" "Inr ts"] by (simp add: tokenize_def)

lemma consumes_keeps_end: "consumes ts ts' \<Longrightarrow> ends_with_end ts \<Longrightarrow> ends_with_end ts'"
proof -
  assume "consumes ts ts'" "ends_with_end ts"
  obtain used where split: "ts = used @ ts'" "\<forall>u\<in>set used. ut_kind u \<noteq> TK_End"
    using \<open>consumes ts ts'\<close> by (auto simp: consumes_def)
  obtain us t where last: "ts = us @ [t]" "ut_kind t = TK_End" "\<forall>u\<in>set us. ut_kind u \<noteq> TK_End"
    using \<open>ends_with_end ts\<close> by (auto simp: ends_with_end_def)
  with split have "ts' \<noteq> []" by (metis append_Nil2 in_set_conv_decomp)
  then obtain vs t' where "ts' = vs @ [t']" by (cases ts' rule: rev_cases) auto
  with split last show ?thesis unfolding ends_with_end_def by auto
qed

text \<open>The states of the top loop of the parser, from the tokens of a text on.\<close>

inductive parser_state :: "tokens \<Rightarrow> protocol_definition \<Rightarrow> tokens \<Rightarrow> bool" for ts0 where
  start: "parser_state ts0 empty_protocol ts0"
| turn: "parser_state ts0 d ts \<Longrightarrow> \<not> is_end ts \<Longrightarrow> parse_declaration d ts = Inr (d', ts') \<Longrightarrow> parser_state ts0 d' ts'"

lemma parser_state_end:
  assumes "parser_state ts0 d ts" and "tokenize schema = Some (Inr ts0)"
  shows "ends_with_end ts"
  using assms(1)
proof (induction rule: parser_state.induct)
  case start
  show ?case using assms(2) by (rule tokenize_end)
next
  case (turn d ts d' ts')
  then show ?case using parse_declaration_consumes consumes_keeps_end by blast
qed

end
