(* ===== verification/Schema_Yaml.thy ===== *)
theory Schema_Yaml
  imports Schema_Parser
begin

text \<open>
  The YAML branch of \<open>pdl/yaml_loader.cpp\<close>: the walk from a YAML node to a protocol definition, and the choice of the
  language by \<open>load_protocol_definition_impl\<close>. The YAML library is third-party code; its nodes are a parameter of the
  model, the record \<open>yaml\<close> of the operations the loader calls. An operation that throws returns \<open>Inl\<close> with the text of
  the exception, which the loader turns into one error at its end.
\<close>

subsection \<open>The interface of the YAML library\<close>

text \<open>
  \<open>y_at\<close> is \<open>node[key]\<close> with \<open>None\<close> for a node that converts to \<open>false\<close>; \<open>y_string\<close>, \<open>y_u64\<close>, \<open>y_u32\<close> and \<open>y_bool\<close>
  are \<open>node.as<T>()\<close>, and \<open>y_invalid\<close> is what \<open>as\<close> throws for a missing node; \<open>y_items\<close> and \<open>y_pairs\<close> are the elements of a range-based \<open>for\<close>.
\<close>

record 'n yaml =
  y_load :: "string \<Rightarrow> string + 'n"
  y_at :: "'n \<Rightarrow> string \<Rightarrow> string + 'n option"
  y_is_map :: "'n \<Rightarrow> bool"
  y_is_sequence :: "'n \<Rightarrow> bool"
  y_items :: "'n \<Rightarrow> 'n list"
  y_pairs :: "'n \<Rightarrow> ('n \<times> 'n) list"
  y_string :: "'n \<Rightarrow> string + string"
  y_u64 :: "'n \<Rightarrow> string + u64"
  y_u32 :: "'n \<Rightarrow> string + u32"
  y_bool :: "'n \<Rightarrow> string + bool"
  y_invalid :: string

text \<open>
  \<open>Rejected\<close> is an \<open>invalid_argument\<close> of the loader, \<open>Thrown\<close> an exception of the library on its way to the handler,
  which turns it into the \<open>schema_error\<close> \<open>Unreadable\<close>.
\<close>

datatype load_error =
    Rejected parse_error | Thrown string | Unreadable string | IoError string | NotFound string

type_synonym 'a loaded = "load_error + 'a"

definition rejected :: "parse_error + 'a \<Rightarrow> 'a loaded" where
  "rejected m = (case m of Inl e \<Rightarrow> Inl (Rejected e) | Inr a \<Rightarrow> Inr a)"

definition throwing :: "string + 'a \<Rightarrow> 'a loaded" where
  "throwing m = (case m of Inl what \<Rightarrow> Inl (Thrown what) | Inr a \<Rightarrow> Inr a)"

definition invalid_schema :: "string \<Rightarrow> 'a loaded" where
  "invalid_schema message = Inl (Rejected (SchemaError message))"

text \<open>\<open>node[key]\<close> as a condition; the keys of a disjunction are looked up in order, up to the first that is missing.\<close>

definition yaml_has :: "'n yaml \<Rightarrow> 'n \<Rightarrow> string \<Rightarrow> bool loaded" where
  "yaml_has Y node key = bind_res (throwing (y_at Y node key)) (\<lambda>c. Inr (c \<noteq> None))"

fun yaml_has_all :: "'n yaml \<Rightarrow> 'n \<Rightarrow> string list \<Rightarrow> bool loaded" where
  "yaml_has_all Y node [] = Inr True"
| "yaml_has_all Y node (key # keys) =
     bind_res (yaml_has Y node key) (\<lambda>present. if present then yaml_has_all Y node keys else Inr False)"

text \<open>\<open>node[key].as<T>()\<close>; on a missing node \<open>as\<close> throws.\<close>

definition yaml_read :: "'n yaml \<Rightarrow> ('n \<Rightarrow> string + 'a) \<Rightarrow> 'n \<Rightarrow> string \<Rightarrow> 'a loaded" where
  "yaml_read Y as_type node key =
     bind_res (throwing (y_at Y node key)) (\<lambda>c.
     case c of None \<Rightarrow> Inl (Thrown (y_invalid Y)) | Some child \<Rightarrow> throwing (as_type child))"

text \<open>\<open>if (node[key]) \<dots>\<close>, with the state unchanged when there is no such node.\<close>

definition yaml_when :: "'n yaml \<Rightarrow> 'n \<Rightarrow> string \<Rightarrow> ('n \<Rightarrow> 'a loaded) \<Rightarrow> 'a \<Rightarrow> 'a loaded" where
  "yaml_when Y node key k d =
     bind_res (throwing (y_at Y node key)) (\<lambda>c. case c of None \<Rightarrow> Inr d | Some child \<Rightarrow> k child)"

text \<open>\<open>if (node[key]) d.member = node[key].as<T>()\<close>.\<close>

definition yaml_set :: "'n yaml \<Rightarrow> ('n \<Rightarrow> string + 'b) \<Rightarrow> 'n \<Rightarrow> string \<Rightarrow> ('b \<Rightarrow> 'a \<Rightarrow> 'a) \<Rightarrow> 'a \<Rightarrow> 'a loaded" where
  "yaml_set Y as_type node key assign d =
     yaml_when Y node key (\<lambda>child. bind_res (throwing (as_type child)) (\<lambda>v. Inr (assign v d))) d"

fun map_loaded :: "('a \<Rightarrow> 'b loaded) \<Rightarrow> 'a list \<Rightarrow> 'b list loaded" where
  "map_loaded f [] = Inr []"
| "map_loaded f (x # xs) = bind_res (f x) (\<lambda>y. bind_res (map_loaded f xs) (\<lambda>ys. Inr (y # ys)))"

text \<open>\<open>static_cast<uint8_t>\<close> of a \<open>uint32_t\<close>.\<close>

definition cast_u8 :: "u32 \<Rightarrow> nat" where
  "cast_u8 v = unat (ucast v :: u8)"

definition in_quotes :: "string \<Rightarrow> string" where
  "in_quotes x = single_quote # x @ [single_quote]"

subsection \<open>Words of the language\<close>

definition parse_validation_operator :: "string \<Rightarrow> parse_error + validation_operator" where
  "parse_validation_operator value =
     (let normalized = to_lower value in
      if normalized = ''eq'' \<or> normalized = ''=='' then Inr OpEq
      else if normalized = ''ne'' \<or> normalized = ''!='' then Inr OpNe
      else if normalized = ''lt'' \<or> normalized = ''<'' then Inr OpLt
      else if normalized = ''le'' \<or> normalized = ''<='' then Inr OpLe
      else if normalized = ''gt'' \<or> normalized = ''>'' then Inr OpGt
      else if normalized = ''ge'' \<or> normalized = ''>='' then Inr OpGe
      else Inl (SchemaError (''Unsupported validation operator: '' @ value)))"

definition parse_byte_order :: "string \<Rightarrow> parse_error + byte_order" where
  "parse_byte_order value =
     (let normalized = to_lower value in
      if normalized = ''little'' \<or> normalized = ''le'' \<or> normalized = ''little_endian'' then Inr LittleEndian
      else if normalized = ''big'' \<or> normalized = ''be'' \<or> normalized = ''big_endian'' then Inr BigEndian
      else Inl (SchemaError (''Unsupported endianness: '' @ value)))"

definition parse_string_encoding :: "string \<Rightarrow> parse_error + string_encoding" where
  "parse_string_encoding value =
     (let normalized = to_lower value in
      if normalized = ''ascii'' then Inr Ascii
      else if normalized = ''utf8'' \<or> normalized = ''utf-8'' then Inr Utf8
      else Inl (SchemaError (''Unsupported string encoding: '' @ value)))"

subsection \<open>Parts of a field\<close>

text \<open>A node that may be missing: \<open>!node || !node.IsMap()\<close>.\<close>

definition yaml_enum_values :: "'n yaml \<Rightarrow> 'n option \<Rightarrow> enum_value_definition list loaded" where
  "yaml_enum_values Y node =
     (case node of
        None \<Rightarrow> invalid_schema ''Enum-style values require a mapping.''
      | Some n \<Rightarrow>
          if \<not> y_is_map Y n then invalid_schema ''Enum-style values require a mapping.''
          else map_loaded (\<lambda>(first, second).
                 bind_res (throwing (y_u64 Y first)) (\<lambda>v.
                 bind_res (throwing (y_string Y second)) (\<lambda>name. Inr \<lparr>ev_value = v, ev_name = name\<rparr>))) (y_pairs Y n))"

definition yaml_bit_field :: "'n yaml \<Rightarrow> 'n \<Rightarrow> bit_field_definition loaded" where
  "yaml_bit_field Y node =
     bind_res (yaml_has_all Y node [''name'', ''offset'', ''width'']) (\<lambda>complete.
     if \<not> complete then
       invalid_schema (''Each bitfield requires '' @ in_quotes ''name'' @ '', '' @ in_quotes ''offset'' @ '', and '' @
         in_quotes ''width'' @ ''.'')
     else
       bind_res (yaml_read Y (y_string Y) node ''name'') (\<lambda>name.
       bind_res (yaml_read Y (y_u32 Y) node ''offset'') (\<lambda>offset_bits.
       bind_res (yaml_read Y (y_u32 Y) node ''width'') (\<lambda>width_bits.
       let b = \<lparr>bfd_name = name, bfd_offset_bits = cast_u8 offset_bits, bfd_width_bits = cast_u8 width_bits,
                bfd_is_signed = False, bfd_enum_values = []\<rparr> in
       bind_res (yaml_set Y (y_bool Y) node ''signed'' (\<lambda>s b. b\<lparr>bfd_is_signed := s\<rparr>) b) (\<lambda>b.
       yaml_when Y node ''values'' (\<lambda>child.
         bind_res (yaml_enum_values Y (Some child)) (\<lambda>vs. Inr (b\<lparr>bfd_enum_values := vs\<rparr>))) b)))))"

text \<open>The members \<open>from\<close> and \<open>to\<close> of a new \<open>ChecksumDefinition\<close> are the anchors of its initialisers.\<close>

definition yaml_checksum :: "'n yaml \<Rightarrow> 'n \<Rightarrow> checksum_definition loaded" where
  "yaml_checksum Y node =
     bind_res (if \<not> y_is_map Y node then Inr False else yaml_has Y node ''algorithm'') (\<lambda>complete.
     if \<not> complete then invalid_schema (''Checksum declarations require an '' @ in_quotes ''algorithm'' @ ''.'')
     else
       bind_res (yaml_read Y (y_string Y) node ''algorithm'') (\<lambda>algorithm.
       let c = \<lparr>ckd_algorithm = algorithm, ckd_from = ''frame_start'', ckd_to = ''before_self''\<rparr> in
       bind_res (yaml_set Y (y_string Y) node ''from'' (\<lambda>x c. c\<lparr>ckd_from := x\<rparr>) c) (\<lambda>c.
       yaml_set Y (y_string Y) node ''to'' (\<lambda>x c. c\<lparr>ckd_to := x\<rparr>) c)))"

definition yaml_condition :: "'n yaml \<Rightarrow> 'n \<Rightarrow> condition_definition loaded" where
  "yaml_condition Y node =
     bind_res (if \<not> y_is_map Y node then Inr False else yaml_has_all Y node [''field'', ''equals'']) (\<lambda>complete.
     if \<not> complete then
       invalid_schema (''Conditional fields require '' @ in_quotes ''field'' @ '' and '' @ in_quotes ''equals'' @ ''.'')
     else
       bind_res (yaml_read Y (y_string Y) node ''field'') (\<lambda>field.
       bind_res (yaml_read Y (y_u64 Y) node ''equals'') (\<lambda>v.
       Inr \<lparr>cnd_field = field, cnd_equals_unsigned = v\<rparr>)))"

definition yaml_presence :: "'n yaml \<Rightarrow> 'n \<Rightarrow> presence_definition loaded" where
  "yaml_presence Y node =
     bind_res (if \<not> y_is_map Y node then Inr False else yaml_has_all Y node [''field'', ''bit'']) (\<lambda>complete.
     if \<not> complete then
       invalid_schema (''Presence-gated fields require '' @ in_quotes ''field'' @ '' and '' @ in_quotes ''bit'' @ ''.'')
     else
       bind_res (yaml_read Y (y_string Y) node ''field'') (\<lambda>field.
       bind_res (yaml_read Y (y_u32 Y) node ''bit'') (\<lambda>v.
       Inr \<lparr>prd_field = field, prd_bit_index = cast_u8 v\<rparr>)))"

definition yaml_variant_cases :: "'n yaml \<Rightarrow> 'n option \<Rightarrow> variant_case_definition list loaded" where
  "yaml_variant_cases Y node =
     (case node of
        None \<Rightarrow> invalid_schema ''Variant cases require a mapping.''
      | Some n \<Rightarrow>
          if \<not> y_is_map Y n then invalid_schema ''Variant cases require a mapping.''
          else map_loaded (\<lambda>(first, second).
                 bind_res (throwing (y_u64 Y first)) (\<lambda>v.
                 bind_res (throwing (y_string Y second)) (\<lambda>name.
                 Inr \<lparr>vcd_tag_value = v, vcd_referenced_type = name\<rparr>))) (y_pairs Y n))"

definition yaml_validation_rule :: "'n yaml \<Rightarrow> 'n \<Rightarrow> validation_rule_definition loaded" where
  "yaml_validation_rule Y node =
     bind_res (if \<not> y_is_map Y node then Inr False else yaml_has_all Y node [''field'', ''op'']) (\<lambda>complete.
     if \<not> complete then
       invalid_schema (''Validation rules require '' @ in_quotes ''field'' @ '' and '' @ in_quotes ''op'' @ ''.'')
     else
       bind_res (yaml_read Y (y_string Y) node ''field'') (\<lambda>field.
       bind_res (yaml_read Y (y_string Y) node ''op'') (\<lambda>op_text.
       bind_res (rejected (parse_validation_operator op_text)) (\<lambda>op.
       let r = default_validation_rule\<lparr>vrd_field := field, vrd_op := op\<rparr> in
       bind_res (yaml_has Y node ''other_field'') (\<lambda>to_field.
       bind_res
         (if to_field then
            bind_res (yaml_read Y (y_string Y) node ''other_field'') (\<lambda>other.
            Inr (r\<lparr>vrd_compare_to_field := True, vrd_other_field := other\<rparr>))
          else
            bind_res (yaml_has Y node ''value'') (\<lambda>to_value.
            if to_value then bind_res (yaml_read Y (y_u64 Y) node ''value'') (\<lambda>v. Inr (r\<lparr>vrd_value := v\<rparr>))
            else
              invalid_schema (''Validation rules require either '' @ in_quotes ''other_field'' @ '' or '' @
                in_quotes ''value'' @ ''.''))) (\<lambda>r.
       bind_res (yaml_set Y (y_u64 Y) node ''multiplier'' (\<lambda>m r. r\<lparr>vrd_multiplier := m\<rparr>) r) (\<lambda>r.
       yaml_when Y node ''if'' (\<lambda>child.
         bind_res (yaml_condition Y child) (\<lambda>c. Inr (r\<lparr>vrd_when := Some c\<rparr>))) r)))))))"

subsection \<open>Fields\<close>

text \<open>The width and byte order of an \<open>underlying\<close> entry.\<close>

definition yaml_underlying :: "'n yaml \<Rightarrow> 'n \<Rightarrow> byte_order \<Rightarrow> (nat \<times> byte_order) loaded" where
  "yaml_underlying Y node bo =
     bind_res (yaml_read Y (y_string Y) node ''underlying'') (\<lambda>underlying.
     rejected (underlying_scalar underlying bo))"

text \<open>A rejection of the values is reported with a message of its own; an exception is not.\<close>

definition yaml_values_of_enum :: "'n yaml \<Rightarrow> 'n \<Rightarrow> string \<Rightarrow> enum_value_definition list loaded" where
  "yaml_values_of_enum Y node message =
     bind_res (throwing (y_at Y node ''values'')) (\<lambda>c.
     case yaml_enum_values Y c of Inl (Thrown e) \<Rightarrow> Inl (Thrown e) | Inl _ \<Rightarrow> invalid_schema message | Inr vs \<Rightarrow> Inr vs)"

definition yaml_field_type :: "'n yaml \<Rightarrow> 'n \<Rightarrow> string \<Rightarrow> field_definition \<Rightarrow> field_definition loaded" where
  "yaml_field_type Y node declared f =
     (let type_name = to_lower declared in
      if type_name = ''bytes'' then Inr (f\<lparr>fd_kind := KBytes\<rparr>)
      else if type_name = ''reserved'' then Inr (f\<lparr>fd_kind := KBytes, fd_is_reserved := True\<rparr>)
      else if type_name = ''string'' then
        yaml_when Y node ''encoding'' (\<lambda>child.
          bind_res (throwing (y_string Y child)) (\<lambda>text.
          bind_res (rejected (parse_string_encoding text)) (\<lambda>encoding.
          Inr (f\<lparr>fd_kind := KString, fd_string_encoding := encoding\<rparr>)))) (f\<lparr>fd_kind := KString\<rparr>)
      else if type_name = ''enum'' then
        let f = f\<lparr>fd_kind := KEnum\<rparr> in
        bind_res (yaml_has Y node ''underlying'') (\<lambda>has_underlying.
        bind_res
          (if has_underlying then
             bind_res (yaml_underlying Y node (fd_byte_order f)) (\<lambda>(width, bo).
             Inr (f\<lparr>fd_width_bytes := width, fd_byte_order := bo\<rparr>))
           else
             bind_res (yaml_has Y node ''width'') (\<lambda>has_width.
             if has_width then
               bind_res (yaml_read Y (y_u32 Y) node ''width'') (\<lambda>width. Inr (f\<lparr>fd_width_bytes := cast_u8 width\<rparr>))
             else
               invalid_schema (''Enum fields require '' @ in_quotes ''underlying'' @ '' or '' @ in_quotes ''width'' @ ''.''))) (\<lambda>f.
        bind_res (yaml_values_of_enum Y node (''Enum fields require a '' @ in_quotes ''values'' @ '' mapping.'')) (\<lambda>vs.
        Inr (f\<lparr>fd_enum_values := vs\<rparr>))))
      else if type_name = ''variant'' then
        let f = f\<lparr>fd_kind := KVariant\<rparr> in
        bind_res (yaml_has Y node ''tag_from'') (\<lambda>has_tag.
        if \<not> has_tag then invalid_schema (''Variant fields require '' @ in_quotes ''tag_from'' @ ''.'')
        else
          bind_res (yaml_read Y (y_string Y) node ''tag_from'') (\<lambda>tag_from.
          bind_res (throwing (y_at Y node ''cases'')) (\<lambda>c.
          bind_res (yaml_variant_cases Y c) (\<lambda>cases.
          Inr (f\<lparr>fd_tag_from_field := tag_from, fd_variant_cases := cases\<rparr>)))))
      else if string_starts_with type_name ''uint'' then
        bind_res (rejected (parse_width_token type_name ''uint'')) (\<lambda>width.
        Inr (f\<lparr>fd_kind := KUnsigned, fd_width_bytes := width\<rparr>))
      else if string_starts_with type_name ''int'' then
        bind_res (rejected (parse_width_token type_name ''int'')) (\<lambda>width.
        Inr (f\<lparr>fd_kind := KSigned, fd_width_bytes := width\<rparr>))
      else if string_starts_with type_name ''float32'' then Inr (f\<lparr>fd_kind := KFloat32, fd_width_bytes := 4\<rparr>)
      else if string_starts_with type_name ''float64'' then Inr (f\<lparr>fd_kind := KFloat64, fd_width_bytes := 8\<rparr>)
      else Inr (f\<lparr>fd_kind := KStruct, fd_referenced_type := declared\<rparr>))"

definition yaml_bits :: "'n yaml \<Rightarrow> 'n \<Rightarrow> bit_field_definition list loaded" where
  "yaml_bits Y bits =
     (if \<not> y_is_sequence Y bits then invalid_schema ''Bitfields must be declared as a sequence.''
      else map_loaded (yaml_bit_field Y) (y_items Y bits))"

text \<open>The entries of a field after its type, in the order of the code.\<close>

definition yaml_field_entries :: "'n yaml \<Rightarrow> 'n \<Rightarrow> field_definition \<Rightarrow> field_definition loaded" where
  "yaml_field_entries Y node f =
     bind_res (yaml_when Y node ''endianness'' (\<lambda>child.
       bind_res (throwing (y_string Y child)) (\<lambda>text.
       bind_res (rejected (parse_byte_order text)) (\<lambda>bo. Inr (f\<lparr>fd_byte_order := bo\<rparr>)))) f) (\<lambda>f.
     bind_res (yaml_set Y (y_u64 Y) node ''size'' (\<lambda>v f. f\<lparr>fd_fixed_size := unat v\<rparr>) f) (\<lambda>f.
     bind_res (yaml_set Y (y_string Y) node ''size_from'' (\<lambda>x f. f\<lparr>fd_size_from_field := x\<rparr>) f) (\<lambda>f.
     bind_res (yaml_set Y (y_u64 Y) node ''align'' (\<lambda>v f. f\<lparr>fd_alignment := unat v\<rparr>) f) (\<lambda>f.
     bind_res (yaml_set Y (y_u32 Y) node ''reserved_fill''
       (\<lambda>v f. f\<lparr>fd_is_reserved := True, fd_reserved_fill_byte := ucast v\<rparr>) f) (\<lambda>f.
     bind_res (yaml_set Y (y_u64 Y) node ''count'' (\<lambda>v f. f\<lparr>fd_fixed_count := unat v, fd_kind := KCollection\<rparr>) f) (\<lambda>f.
     bind_res (yaml_set Y (y_string Y) node ''count_from''
       (\<lambda>x f. f\<lparr>fd_count_from_field := x, fd_kind := KCollection\<rparr>) f) (\<lambda>f.
     bind_res (yaml_set Y (y_u64 Y) node ''expect''
       (\<lambda>v f. f\<lparr>fd_has_expected_unsigned := True, fd_expected_unsigned := v\<rparr>) f) (\<lambda>f.
     bind_res (yaml_when Y node ''bits'' (\<lambda>child.
       bind_res (yaml_bits Y child) (\<lambda>bs. Inr (f\<lparr>fd_bit_fields := bs\<rparr>))) f) (\<lambda>f.
     bind_res (yaml_when Y node ''checksum'' (\<lambda>child.
       bind_res (yaml_checksum Y child) (\<lambda>c. Inr (f\<lparr>fd_checksum := Some c\<rparr>))) f) (\<lambda>f.
     bind_res (yaml_when Y node ''if'' (\<lambda>child.
       bind_res (yaml_condition Y child) (\<lambda>c. Inr (f\<lparr>fd_condition := Some c\<rparr>))) f) (\<lambda>f.
     yaml_when Y node ''present'' (\<lambda>child.
       bind_res (yaml_presence Y child) (\<lambda>p. Inr (f\<lparr>fd_presence := Some p\<rparr>))) f)))))))))))"

definition yaml_field :: "'n yaml \<Rightarrow> 'n \<Rightarrow> field_definition loaded" where
  "yaml_field Y node =
     bind_res (yaml_has_all Y node [''name'', ''type'']) (\<lambda>complete.
     if \<not> complete then
       invalid_schema (''Each field requires '' @ in_quotes ''name'' @ '' and '' @ in_quotes ''type'' @ ''.'')
     else
       bind_res (yaml_read Y (y_string Y) node ''name'') (\<lambda>name.
       bind_res (yaml_read Y (y_string Y) node ''type'') (\<lambda>declared.
       bind_res (yaml_field_type Y node declared (default_field_definition\<lparr>fd_name := name\<rparr>)) (\<lambda>f.
       yaml_field_entries Y node (with_suffix_order (to_lower declared) f)))))"

subsection \<open>Sequences of declarations\<close>

text \<open>The part of \<open>parse_layout_sequence\<close> structs and messages share: the fields and validations of a layout.\<close>

definition yaml_fields :: "'n yaml \<Rightarrow> 'n \<Rightarrow> string \<Rightarrow> field_definition list loaded" where
  "yaml_fields Y node kind_name =
     bind_res (throwing (y_at Y node ''fields'')) (\<lambda>c.
     case c of
       None \<Rightarrow> invalid_schema (''Every '' @ kind_name @ '' requires a '' @ in_quotes ''fields'' @ '' sequence.'')
     | Some child \<Rightarrow>
         if \<not> y_is_sequence Y child
         then invalid_schema (''Every '' @ kind_name @ '' requires a '' @ in_quotes ''fields'' @ '' sequence.'')
         else map_loaded (yaml_field Y) (y_items Y child))"

definition yaml_validations :: "'n yaml \<Rightarrow> 'n \<Rightarrow> validation_rule_definition list loaded" where
  "yaml_validations Y node =
     yaml_when Y node ''validations'' (\<lambda>child.
       if \<not> y_is_sequence Y child then invalid_schema ''Layout validations must be declared as a sequence.''
       else map_loaded (yaml_validation_rule Y) (y_items Y child)) []"

definition yaml_sequence ::
  "'n yaml \<Rightarrow> 'n option \<Rightarrow> string \<Rightarrow> ('n \<Rightarrow> 'a loaded) \<Rightarrow> 'a list loaded" where
  "yaml_sequence Y node node_name item =
     (case node of
        None \<Rightarrow> Inr []
      | Some n \<Rightarrow>
          if \<not> y_is_sequence Y n
          then invalid_schema (''Protocol YAML field '' @ in_quotes node_name @ '' must be a sequence.'')
          else map_loaded item (y_items Y n))"

definition yaml_named :: "'n yaml \<Rightarrow> 'n \<Rightarrow> string \<Rightarrow> (string \<Rightarrow> 'a loaded) \<Rightarrow> 'a loaded" where
  "yaml_named Y node kind_name k =
     bind_res (yaml_has Y node ''name'') (\<lambda>has_name.
     if \<not> has_name then invalid_schema (''Every '' @ kind_name @ '' requires '' @ in_quotes ''name'' @ ''.'')
     else bind_res (yaml_read Y (y_string Y) node ''name'') k)"

definition yaml_struct :: "'n yaml \<Rightarrow> 'n \<Rightarrow> struct_definition loaded" where
  "yaml_struct Y node =
     yaml_named Y node ''struct'' (\<lambda>name.
     bind_res (yaml_fields Y node ''struct'') (\<lambda>fs.
     bind_res (yaml_validations Y node) (\<lambda>rules.
     Inr \<lparr>sd_name = name, sd_fields = fs, sd_validations = rules\<rparr>)))"

definition yaml_message :: "'n yaml \<Rightarrow> 'n \<Rightarrow> message_definition loaded" where
  "yaml_message Y node =
     yaml_named Y node ''message'' (\<lambda>name.
     bind_res (yaml_set Y (y_bool Y) node ''allow_trailing_bytes'' (\<lambda>b _. b) False) (\<lambda>trailing.
     bind_res (yaml_fields Y node ''message'') (\<lambda>fs.
     bind_res (yaml_validations Y node) (\<lambda>rules.
     Inr \<lparr>md_name = name, md_fields = fs, md_validations = rules, md_allow_trailing_bytes = trailing\<rparr>))))"

definition yaml_enum :: "'n yaml \<Rightarrow> 'n \<Rightarrow> enum_definition loaded" where
  "yaml_enum Y node =
     yaml_named Y node ''enum'' (\<lambda>name.
     bind_res (yaml_has Y node ''underlying'') (\<lambda>has_underlying.
     bind_res
       (if has_underlying then yaml_underlying Y node LittleEndian
        else
          bind_res (yaml_has Y node ''width'') (\<lambda>has_width.
          if has_width then
            bind_res (yaml_read Y (y_u32 Y) node ''width'') (\<lambda>width. Inr (cast_u8 width, LittleEndian))
          else
            invalid_schema (''Enum declarations require '' @ in_quotes ''underlying'' @ '' or '' @ in_quotes ''width'' @ ''.''))) (\<lambda>(width, bo).
     bind_res (yaml_when Y node ''endianness'' (\<lambda>child.
       bind_res (throwing (y_string Y child)) (\<lambda>text. rejected (parse_byte_order text))) bo) (\<lambda>bo.
     bind_res (yaml_values_of_enum Y node (''Enum declarations require a '' @ in_quotes ''values'' @ '' mapping.'')) (\<lambda>vs.
     Inr \<lparr>end_name = name, end_width_bytes = width, end_byte_order = bo, end_values = vs\<rparr>)))))"

definition yaml_import :: "'n yaml \<Rightarrow> 'n \<Rightarrow> import_definition loaded" where
  "yaml_import Y node = bind_res (throwing (y_string Y node)) (\<lambda>path. Inr \<lparr>imp_path = path\<rparr>)"

subsection \<open>The protocol\<close>

definition yaml_protocol :: "'n yaml \<Rightarrow> bool \<Rightarrow> 'n \<Rightarrow> protocol_definition loaded" where
  "yaml_protocol Y require_root_declaration root =
     bind_res (yaml_has Y root ''protocol'') (\<lambda>has_protocol.
     bind_res
       (if has_protocol then yaml_read Y (y_string Y) root ''protocol''
        else
          bind_res (yaml_has Y root ''name'') (\<lambda>has_name.
          if has_name then yaml_read Y (y_string Y) root ''name''
          else if require_root_declaration then
            invalid_schema (''Protocol YAML requires '' @ in_quotes ''protocol'' @ '' or '' @ in_quotes ''name'' @ ''.'')
          else Inr '''')) (\<lambda>name.
     bind_res (throwing (y_at Y root ''imports'')) (\<lambda>node.
     bind_res (yaml_sequence Y node ''imports'' (yaml_import Y)) (\<lambda>import_list.
     bind_res (throwing (y_at Y root ''enums'')) (\<lambda>node.
     bind_res (yaml_sequence Y node ''enums'' (yaml_enum Y)) (\<lambda>enum_list.
     bind_res (throwing (y_at Y root ''structs'')) (\<lambda>node.
     bind_res (yaml_sequence Y node ''structs'' (yaml_struct Y)) (\<lambda>struct_list.
     bind_res (throwing (y_at Y root ''messages'')) (\<lambda>node.
     bind_res (yaml_sequence Y node ''messages'' (yaml_message Y)) (\<lambda>message_list.
     if require_root_declaration \<and> message_list = []
     then invalid_schema (''Protocol YAML requires a '' @ in_quotes ''messages'' @ '' sequence.'')
     else
       Inr \<lparr>pd_name = name, pd_imports = import_list, pd_enums = enum_list, pd_structs = struct_list,
            pd_messages = message_list\<rparr>))))))))))"

text \<open>The \<open>yaml\<close> branch of \<open>load_protocol_definition_impl\<close> with its handler; nothing leaves it as an exception.\<close>

definition load_yaml :: "'n yaml \<Rightarrow> bool \<Rightarrow> string \<Rightarrow> protocol_definition loaded" where
  "load_yaml Y require_root_declaration schema_text =
     (case bind_res (throwing (y_load Y schema_text)) (yaml_protocol Y require_root_declaration) of
        Inl (Thrown what) \<Rightarrow> Inl (Unreadable what)
      | result \<Rightarrow> result)"

text \<open>
  \<open>load_protocol_definition_impl\<close>: without a hint that names a language, UPR is tried first and YAML when it fails.
  \<open>None\<close> when the UPR lexer does not return.
\<close>

definition load_protocol_definition_impl ::
  "'n yaml \<Rightarrow> string \<Rightarrow> string \<Rightarrow> bool \<Rightarrow> protocol_definition loaded option" where
  "load_protocol_definition_impl Y schema_text format_hint require_root_declaration =
     (let normalized_hint = to_lower format_hint in
      if normalized_hint = ''yaml'' \<or> normalized_hint = ''yml'' then
        Some (load_yaml Y require_root_declaration schema_text)
      else if normalized_hint = ''upr'' then map_option rejected (load_upr require_root_declaration schema_text)
      else
        (case load_upr require_root_declaration schema_text of
           None \<Rightarrow> None
         | Some (Inr d) \<Rightarrow> Some (Inr d)
         | Some (Inl e) \<Rightarrow> Some (load_yaml Y require_root_declaration schema_text)))"

definition load_protocol_definition :: "'n yaml \<Rightarrow> string \<Rightarrow> string \<Rightarrow> protocol_definition loaded option" where
  "load_protocol_definition Y schema_text format_hint = load_protocol_definition_impl Y schema_text format_hint True"

definition load_protocol_definition_from_yaml :: "'n yaml \<Rightarrow> string \<Rightarrow> protocol_definition loaded option" where
  "load_protocol_definition_from_yaml Y yaml_text = load_protocol_definition_impl Y yaml_text ''yaml'' True"

end
