(* ===== verification/Schema_Import.thy ===== *)
theory Schema_Import
  imports Schema_Yaml
begin

text \<open>
  The resolution of imports of \<open>pdl/yaml_loader.cpp\<close>: the search for the workspace root, the resolution of an import
  path and \<open>SchemaImportResolver\<close>, a depth-first search over the files that merges their declarations in postorder. The
  file system is a parameter, the record \<open>file_system\<close>; the operations on the text of a path are those of
  \<open>std::filesystem::path\<close> on POSIX.
\<close>

subsection \<open>Paths\<close>

definition slash :: char where "slash = CHR ''/''"

definition is_absolute :: "string \<Rightarrow> bool" where
  "is_absolute p \<longleftrightarrow> p \<noteq> [] \<and> hd p = slash"

definition filename :: "string \<Rightarrow> string" where
  "filename p = rev (takeWhile (\<lambda>c. c \<noteq> slash) (rev p))"

text \<open>The directory part, up to the last slash, and without its trailing slashes.\<close>

definition directory_part :: "string \<Rightarrow> string" where
  "directory_part p = rev (dropWhile (\<lambda>c. c \<noteq> slash) (rev p))"

definition strip_slashes :: "string \<Rightarrow> string" where
  "strip_slashes p = rev (dropWhile (\<lambda>c. c = slash) (rev p))"

definition parent_path :: "string \<Rightarrow> string" where
  "parent_path p =
     (if strip_slashes p = [] then p
      else
        let d = directory_part p; e = strip_slashes d in
        if d \<noteq> [] \<and> e = [] then [slash] else e)"

definition path_join :: "string \<Rightarrow> string \<Rightarrow> string" where
  "path_join a b =
     (if is_absolute b then b else if a = [] \<or> last a = slash then a @ b else a @ slash # b)"

definition extension :: "string \<Rightarrow> string" where
  "extension p =
     (let f = filename p; tail_rev = takeWhile (\<lambda>c. c \<noteq> CHR ''.'') (rev f) in
      if f = ''.'' \<or> f = ''..'' \<or> length tail_rev + 1 \<ge> length f then ''''
      else CHR ''.'' # rev tail_rev)"

definition is_relative_import :: "string \<Rightarrow> bool" where
  "is_relative_import import_path \<longleftrightarrow> string_starts_with import_path ''./'' \<or> string_starts_with import_path ''../''"

subsection \<open>The file system\<close>

text \<open>
  \<open>fs_absolute\<close> and \<open>fs_canonical\<close> are \<open>absolute\<close> and \<open>weakly_canonical\<close> with \<open>None\<close> for an error code; \<open>fs_read\<close> is what an
  \<open>ifstream\<close> on the path holds, with \<open>None\<close> when it does not open.
\<close>

record file_system =
  fs_absolute :: "string \<Rightarrow> string option"
  fs_canonical :: "string \<Rightarrow> string option"
  fs_is_directory :: "string \<Rightarrow> bool"
  fs_exists :: "string \<Rightarrow> bool"
  fs_read :: "string \<Rightarrow> string option"

lemma drop_parts_shorter:
  assumes "dropWhile (\<lambda>c. c = s) q \<noteq> []"
  defines "a \<equiv> dropWhile (\<lambda>c. c \<noteq> s) q"
  shows "(if a \<noteq> [] \<and> dropWhile (\<lambda>c. c = s) a = [] then 1 else length (dropWhile (\<lambda>c. c = s) a)) < length q"
proof (cases q)
  case (Cons c r)
  show ?thesis
  proof (cases "c = s")
    case True
    with assms Cons length_dropWhile_le [of "\<lambda>c. c = s" r] show ?thesis by (auto simp: a_def)
  next
    case False
    then have a: "a = dropWhile (\<lambda>c. c \<noteq> s) r" by (simp add: a_def Cons)
    have "length a \<le> length r" unfolding a by (rule length_dropWhile_le)
    moreover have "length (dropWhile (\<lambda>c. c = s) a) \<le> length a" by (rule length_dropWhile_le)
    ultimately show ?thesis by (cases a) (auto simp: Cons)
  qed
qed (use assms in simp)

lemma parent_path_shorter:
  assumes "parent_path p \<noteq> p"
  shows "length (parent_path p) < length p"
proof -
  have some: "strip_slashes p \<noteq> []" using assms unfolding parent_path_def by presburger
  then have result: "parent_path p = (if directory_part p \<noteq> [] \<and> strip_slashes (directory_part p) = [] then [slash]
      else strip_slashes (directory_part p))"
    unfolding parent_path_def Let_def by presburger
  have "dropWhile (\<lambda>c. c = slash) (rev p) \<noteq> []"
    using some unfolding strip_slashes_def by (simp only: rev_is_Nil_conv not_False_eq_True)
  from drop_parts_shorter [OF this]
  have "(if directory_part p \<noteq> [] \<and> strip_slashes (directory_part p) = [] then 1
      else length (strip_slashes (directory_part p))) < length p"
    by (simp only: strip_slashes_def directory_part_def rev_rev_ident rev_is_Nil_conv length_rev)
  then show ?thesis
    unfolding result by (cases "directory_part p \<noteq> [] \<and> strip_slashes (directory_part p) = []") auto
qed

function workspace_root_loop :: "file_system \<Rightarrow> string \<Rightarrow> string option" where
  "workspace_root_loop FS current =
     (if current = [] then None
      else if fs_exists FS (path_join current ''MODULE.bazel'') \<or> fs_exists FS (path_join current ''WORKSPACE.bazel'') \<or>
              fs_exists FS (path_join current ''WORKSPACE'')
      then Some current
      else
        let parent = parent_path current in
        if parent = current then None else workspace_root_loop FS parent)"
  by pat_completeness auto
termination by (relation "measure (\<lambda>(_, p). length p)") (auto dest: parent_path_shorter)

declare workspace_root_loop.simps [simp del]

definition find_workspace_root :: "file_system \<Rightarrow> string \<Rightarrow> string loaded" where
  "find_workspace_root FS start =
     (case fs_absolute FS start of
        None \<Rightarrow> Inl (IoError (''Unable to determine an absolute path for: '' @ start))
      | Some current \<Rightarrow>
          let current = (if fs_is_directory FS current then current else parent_path current) in
          (case workspace_root_loop FS current of
             Some root \<Rightarrow> Inr root
           | None \<Rightarrow> Inl (NotFound ''Unable to locate a Bazel workspace root for schema import resolution.'')))"

definition resolve_import_path :: "file_system \<Rightarrow> string option \<Rightarrow> string \<Rightarrow> string \<Rightarrow> string loaded" where
  "resolve_import_path FS workspace_root importer_path import_path =
     (let candidate =
        (if is_absolute import_path then Some import_path
         else if is_relative_import import_path then Some (path_join (parent_path importer_path) import_path)
         else map_option (\<lambda>root. path_join root import_path) workspace_root) in
      case candidate of
        None \<Rightarrow>
          Inl (NotFound (''Workspace-relative import '' @ in_quotes import_path @
            '' requires the schema file to be inside a Bazel workspace. Use '' @ in_quotes ''./'' @ '' or '' @
            in_quotes ''../'' @ '' for relative imports.''))
      | Some candidate \<Rightarrow>
          (case fs_canonical FS candidate of
             None \<Rightarrow> Inl (IoError (''Unable to resolve imported schema path: '' @ candidate))
           | Some normalized \<Rightarrow> Inr normalized))"

subsection \<open>The resolver\<close>

datatype visit_state = KVisiting | KDone

record resolver =
  rsv_definitions :: "protocol_definition list"
  rsv_root_paths :: "string list"
  rsv_postorder :: "nat list"
  rsv_states :: "string \<rightharpoonup> visit_state"
  rsv_indices :: "string \<rightharpoonup> nat"

definition new_resolver :: resolver where
  "new_resolver =
     \<lparr>rsv_definitions = [], rsv_root_paths = [], rsv_postorder = [], rsv_states = Map.empty, rsv_indices = Map.empty\<rparr>"

text \<open>The parse of a file by its extension.\<close>

definition parse_file :: "'n yaml \<Rightarrow> string \<Rightarrow> string \<Rightarrow> bool \<Rightarrow> protocol_definition loaded option" where
  "parse_file Y path contents require_root_declaration =
     (let ext = to_lower (extension path) in
      if ext = ''.upr'' then load_protocol_definition_impl Y contents ''upr'' require_root_declaration
      else if ext = ''.yaml'' \<or> ext = ''.yml'' then load_protocol_definition_impl Y contents ''yaml'' require_root_declaration
      else load_protocol_definition_impl Y contents '''' require_root_declaration)"

text \<open>The file enters the resolver when it is parsed and leaves the search when its imports are loaded.\<close>

definition enter_file :: "string \<Rightarrow> protocol_definition \<Rightarrow> resolver \<Rightarrow> resolver" where
  "enter_file key d st =
     st\<lparr>rsv_definitions := rsv_definitions st @ [d], rsv_root_paths := rsv_root_paths st @ [key],
        rsv_indices := (rsv_indices st)(key \<mapsto> length (rsv_definitions st)),
        rsv_states := (rsv_states st)(key \<mapsto> KVisiting)\<rparr>"

definition leave_file :: "string \<Rightarrow> nat \<Rightarrow> resolver \<Rightarrow> resolver" where
  "leave_file key index st =
     st\<lparr>rsv_definitions := (rsv_definitions st)[index := (rsv_definitions st ! index)\<lparr>pd_imports := []\<rparr>],
        rsv_states := (rsv_states st)(key \<mapsto> KDone), rsv_postorder := rsv_postorder st @ [index]\<rparr>"

text \<open>The loop over the imports of a file; \<open>load\<close> is the recursive call.\<close>

fun import_loop ::
  "(string \<Rightarrow> resolver \<Rightarrow> (resolver \<times> nat) loaded option) \<Rightarrow> (string \<Rightarrow> string loaded) \<Rightarrow> import_definition list \<Rightarrow>
   resolver \<Rightarrow> resolver loaded option" where
  "import_loop load resolve [] st = Some (Inr st)"
| "import_loop load resolve (i # is) st =
     (case resolve (imp_path i) of
        Inl e \<Rightarrow> Some (Inl e)
      | Inr path \<Rightarrow>
          (case load path st of
             None \<Rightarrow> None
           | Some (Inl e) \<Rightarrow> Some (Inl e)
           | Some (Inr (st, _)) \<Rightarrow> import_loop load resolve is st))"

text \<open>
  \<open>load_recursive\<close>. The depth is bounded by fuel; \<open>None\<close> stands for a call that did not return within it. The resolver
  is dropped when a status is returned, so an error carries no state.
\<close>

primrec load_recursive ::
  "nat \<Rightarrow> 'n yaml \<Rightarrow> file_system \<Rightarrow> string option \<Rightarrow> string \<Rightarrow> resolver \<Rightarrow> (resolver \<times> nat) loaded option" where
  "load_recursive 0 = (\<lambda>Y FS workspace_root path st. None)"
| "load_recursive (Suc fuel) = (\<lambda>Y FS workspace_root path st.
     case fs_canonical FS path of
       None \<Rightarrow> Some (Inl (IoError (''Unable to resolve protocol file: '' @ path)))
     | Some key \<Rightarrow>
     (case rsv_states st key of
        Some KVisiting \<Rightarrow> Some (Inl (Rejected (SchemaError (''Schema import cycle detected at: '' @ key))))
      | Some KDone \<Rightarrow> Some (Inr (st, the (rsv_indices st key)))
      | None \<Rightarrow>
     (case fs_read FS key of
        None \<Rightarrow> Some (Inl (IoError (''Unable to open protocol file: '' @ key)))
      | Some contents \<Rightarrow>
     (case parse_file Y key contents False of
        None \<Rightarrow> None
      | Some (Inl e) \<Rightarrow> Some (Inl e)
      | Some (Inr d) \<Rightarrow>
          let index = length (rsv_definitions st) in
          (case import_loop (load_recursive fuel Y FS workspace_root) (resolve_import_path FS workspace_root key)
                  (pd_imports d) (enter_file key d st) of
             None \<Rightarrow> None
           | Some (Inl e) \<Rightarrow> Some (Inl e)
           | Some (Inr st) \<Rightarrow> Some (Inr (leave_file key index st, index)))))))"

text \<open>The declarations of the files in postorder.\<close>

definition merge_definitions :: "string \<Rightarrow> protocol_definition list \<Rightarrow> protocol_definition" where
  "merge_definitions name ds =
     \<lparr>pd_name = name, pd_imports = [], pd_enums = concat (map pd_enums ds), pd_structs = concat (map pd_structs ds),
      pd_messages = concat (map pd_messages ds)\<rparr>"

definition resolve_schema ::
  "nat \<Rightarrow> 'n yaml \<Rightarrow> file_system \<Rightarrow> string option \<Rightarrow> string \<Rightarrow> protocol_definition loaded option" where
  "resolve_schema fuel Y FS workspace_root root_path =
     (case load_recursive fuel Y FS workspace_root root_path new_resolver of
        None \<Rightarrow> None
      | Some (Inl e) \<Rightarrow> Some (Inl e)
      | Some (Inr (st, root_index)) \<Rightarrow>
          let root = rsv_definitions st ! root_index in
          if pd_name root = [] then
            Some (invalid_schema (''Root schema must declare a protocol name: '' @ rsv_root_paths st ! root_index))
          else if pd_messages root = [] then
            Some (invalid_schema (''Root schema must declare at least one message: '' @ rsv_root_paths st ! root_index))
          else Some (Inr (merge_definitions (pd_name root) (map ((!) (rsv_definitions st)) (rsv_postorder st)))))"

definition load_protocol_definition_from_file ::
  "nat \<Rightarrow> 'n yaml \<Rightarrow> file_system \<Rightarrow> bool \<Rightarrow> string \<Rightarrow> protocol_definition loaded option" where
  "load_protocol_definition_from_file fuel Y FS resolve_imports path =
     (case fs_absolute FS path of
        None \<Rightarrow> Some (Inl (IoError (''Unable to resolve protocol file path: '' @ path)))
      | Some absolute_path \<Rightarrow>
          if \<not> resolve_imports then
            (case fs_read FS absolute_path of
               None \<Rightarrow> Some (Inl (IoError (''Unable to open protocol file: '' @ absolute_path)))
             | Some contents \<Rightarrow> parse_file Y absolute_path contents True)
          else
            let workspace_root = (case find_workspace_root FS absolute_path of Inl _ \<Rightarrow> None | Inr root \<Rightarrow> Some root) in
            resolve_schema fuel Y FS workspace_root absolute_path)"

end
