(* ===== verification/Schema_Import_Properties.thy ===== *)
theory Schema_Import_Properties
  imports Schema_Import Schema_Lexer_Properties
begin

text \<open>
  The import resolver returns for any finite set of files on which the parse returns, however they import each other, and
  does not return when the parse of the root does not; when it succeeds, the files
  are those reachable from the root, each once and after the files it imports, and no file imports itself, directly or
  through others.
\<close>

subsection \<open>The graph of the files\<close>

text \<open>What a file holds, and the files it imports, by their canonical paths.\<close>

definition file_definition :: "'n yaml \<Rightarrow> file_system \<Rightarrow> string \<Rightarrow> protocol_definition option" where
  "file_definition Y FS key =
     (case fs_read FS key of
        None \<Rightarrow> None
      | Some contents \<Rightarrow> (case parse_file Y key contents False of Some (Inr d) \<Rightarrow> Some d | _ \<Rightarrow> None))"

definition import_edges :: "'n yaml \<Rightarrow> file_system \<Rightarrow> string option \<Rightarrow> (string \<times> string) set" where
  "import_edges Y FS root =
     {(key, key'). \<exists>d i path. file_definition Y FS key = Some d \<and> i \<in> set (pd_imports d) \<and>
        resolve_import_path FS root key (imp_path i) = Inr path \<and> fs_canonical FS path = Some key'}"

subsection \<open>The invariant of the search\<close>

definition postorder_keys :: "resolver \<Rightarrow> string list" where
  "postorder_keys st = map ((!) (rsv_root_paths st)) (rsv_postorder st)"

text \<open>Each file of a list imports only files before it.\<close>

definition imports_first :: "(string \<times> string) set \<Rightarrow> string list \<Rightarrow> bool" where
  "imports_first E keys \<longleftrightarrow> (\<forall>n < length keys. \<forall>k. (keys ! n, k) \<in> E \<longrightarrow> k \<in> set (take n keys))"

definition resolver_ok :: "'n yaml \<Rightarrow> file_system \<Rightarrow> string option \<Rightarrow> resolver \<Rightarrow> bool" where
  "resolver_ok Y FS root st \<longleftrightarrow>
     length (rsv_root_paths st) = length (rsv_definitions st) \<and>
     (\<forall>i\<in>set (rsv_postorder st). i < length (rsv_definitions st)) \<and>
     (\<forall>key. rsv_states st key = Some KDone \<longleftrightarrow> key \<in> set (postorder_keys st)) \<and>
     (\<forall>key v. rsv_states st key = Some v \<longrightarrow>
        (\<exists>i < length (rsv_definitions st). rsv_indices st key = Some i \<and> rsv_root_paths st ! i = key)) \<and>
     distinct (postorder_keys st) \<and>
     imports_first (import_edges Y FS root) (postorder_keys st) \<and>
     (\<forall>i < length (rsv_definitions st). \<exists>d. file_definition Y FS (rsv_root_paths st ! i) = Some d \<and>
        (rsv_definitions st ! i = d \<or> rsv_definitions st ! i = d\<lparr>pd_imports := []\<rparr>))"

text \<open>What a call keeps: the files under way, and the postorder so far.\<close>

definition extends :: "resolver \<Rightarrow> resolver \<Rightarrow> bool" where
  "extends st st' \<longleftrightarrow>
     (\<forall>key. rsv_states st' key = Some KVisiting \<longleftrightarrow> rsv_states st key = Some KVisiting) \<and>
     (\<forall>key. rsv_states st key = Some KDone \<longrightarrow> rsv_states st' key = Some KDone) \<and>
     (\<exists>more. rsv_root_paths st' = rsv_root_paths st @ more) \<and>
     length (rsv_definitions st) \<le> length (rsv_definitions st')"

lemma extends_refl [simp]: "extends st st"
  by (simp add: extends_def)

lemma extends_trans: "extends a b \<Longrightarrow> extends b c \<Longrightarrow> extends a c"
  unfolding extends_def by (metis append.assoc order_trans)

lemma imports_first_append:
  assumes "imports_first E keys" and "\<And>k. (key, k) \<in> E \<Longrightarrow> k \<in> set keys"
  shows "imports_first E (keys @ [key])"
  unfolding imports_first_def
proof (intro allI impI)
  fix n k assume n: "n < length (keys @ [key])" and edge: "((keys @ [key]) ! n, k) \<in> E"
  show "k \<in> set (take n (keys @ [key]))"
  proof (cases "n < length keys")
    case True
    with assms(1) edge show ?thesis by (simp add: imports_first_def nth_append)
  next
    case False
    with n have "n = length keys" by simp
    with assms(2) edge show ?thesis by simp
  qed
qed

lemma resolver_done: "resolver_ok Y FS root st \<Longrightarrow> rsv_states st key = Some KDone \<longleftrightarrow> key \<in> set (postorder_keys st)"
  by (simp add: resolver_ok_def)

text \<open>A file that enters the search is under way, and nothing else changes.\<close>

lemma enter_file_ok:
  assumes ok: "resolver_ok Y FS root st" and new: "rsv_states st key = None" and d: "file_definition Y FS key = Some d"
  shows "resolver_ok Y FS root (enter_file key d st)"
    and "rsv_states (enter_file key d st) = (rsv_states st)(key \<mapsto> KVisiting)"
    and "rsv_root_paths (enter_file key d st) ! length (rsv_definitions st) = key"
    and "rsv_definitions (enter_file key d st) ! length (rsv_definitions st) = d"
proof -
  have lengths: "length (rsv_root_paths st) = length (rsv_definitions st)" using ok by (simp add: resolver_ok_def)
  have small: "i \<in> set (rsv_postorder st) \<Longrightarrow> i < length (rsv_definitions st)" for i
    using ok by (simp add: resolver_ok_def)
  have keys: "postorder_keys (enter_file key d st) = postorder_keys st"
    by (simp add: postorder_keys_def enter_file_def nth_append small lengths)
  have fresh: "key \<notin> set (postorder_keys st)" using resolver_done [OF ok, of key] new by simp
  show "resolver_ok Y FS root (enter_file key d st)"
    unfolding resolver_ok_def keys
  proof (intro conjI allI ballI impI)
    fix i assume "i \<in> set (rsv_postorder (enter_file key d st))"
    then show "i < length (rsv_definitions (enter_file key d st))" using small by (auto simp: enter_file_def less_SucI)
  next
    fix k show "(rsv_states (enter_file key d st) k = Some KDone) = (k \<in> set (postorder_keys st))"
      using ok new fresh by (auto simp: enter_file_def resolver_ok_def)
  next
    fix k v assume "rsv_states (enter_file key d st) k = Some v"
    then show "\<exists>i<length (rsv_definitions (enter_file key d st)).
        rsv_indices (enter_file key d st) k = Some i \<and> rsv_root_paths (enter_file key d st) ! i = k"
      using ok lengths by (cases "k = key") (auto simp: enter_file_def nth_append resolver_ok_def less_SucI)
  next
    fix i assume "i < length (rsv_definitions (enter_file key d st))"
    then show "\<exists>d'. file_definition Y FS (rsv_root_paths (enter_file key d st) ! i) = Some d' \<and>
        (rsv_definitions (enter_file key d st) ! i = d' \<or> rsv_definitions (enter_file key d st) ! i = d'\<lparr>pd_imports := []\<rparr>)"
      using ok lengths d by (auto simp: enter_file_def nth_append resolver_ok_def less_Suc_eq)
  qed (use ok lengths in \<open>auto simp: enter_file_def resolver_ok_def\<close>)
  show "rsv_states (enter_file key d st) = (rsv_states st)(key \<mapsto> KVisiting)"
    "rsv_root_paths (enter_file key d st) ! length (rsv_definitions st) = key"
    "rsv_definitions (enter_file key d st) ! length (rsv_definitions st) = d"
    by (simp_all add: enter_file_def nth_append lengths)
qed

text \<open>It leaves the search when its imports are done.\<close>

lemma leave_file_ok:
  assumes ok: "resolver_ok Y FS root st" and here: "rsv_states st key = Some KVisiting"
    and index: "index < length (rsv_definitions st)" "rsv_root_paths st ! index = key"
    and done_imports: "\<And>k. (key, k) \<in> import_edges Y FS root \<Longrightarrow> rsv_states st k = Some KDone"
  shows "resolver_ok Y FS root (leave_file key index st)"
    and "rsv_states (leave_file key index st) = (rsv_states st)(key \<mapsto> KDone)"
proof -
  have fresh: "key \<notin> set (postorder_keys st)" using resolver_done [OF ok, of key] here by simp
  have keys: "postorder_keys (leave_file key index st) = postorder_keys st @ [key]"
    by (simp add: postorder_keys_def leave_file_def index(2))
  have ordered: "imports_first (import_edges Y FS root) (postorder_keys st @ [key])"
    using ok done_imports by (intro imports_first_append) (auto simp: resolver_ok_def)
  show "resolver_ok Y FS root (leave_file key index st)"
    unfolding resolver_ok_def keys
  proof (intro conjI allI ballI impI)
    fix k show "(rsv_states (leave_file key index st) k = Some KDone) = (k \<in> set (postorder_keys st @ [key]))"
      using ok by (auto simp: leave_file_def resolver_ok_def)
  next
    fix k v assume "rsv_states (leave_file key index st) k = Some v"
    then show "\<exists>i<length (rsv_definitions (leave_file key index st)).
        rsv_indices (leave_file key index st) k = Some i \<and> rsv_root_paths (leave_file key index st) ! i = k"
      using ok here by (cases "k = key") (auto simp: leave_file_def resolver_ok_def)
  next
    fix i assume "i < length (rsv_definitions (leave_file key index st))"
    then have i: "i < length (rsv_definitions st)" by (simp add: leave_file_def)
    then obtain d where d: "file_definition Y FS (rsv_root_paths st ! i) = Some d"
      "rsv_definitions st ! i = d \<or> rsv_definitions st ! i = d\<lparr>pd_imports := []\<rparr>"
      using ok by (auto simp: resolver_ok_def)
    then show "\<exists>d. file_definition Y FS (rsv_root_paths (leave_file key index st) ! i) = Some d \<and>
        (rsv_definitions (leave_file key index st) ! i = d \<or>
         rsv_definitions (leave_file key index st) ! i = d\<lparr>pd_imports := []\<rparr>)"
      using i by (cases "i = index") (auto simp: leave_file_def)
  qed (use ok index fresh ordered in \<open>auto simp: leave_file_def resolver_ok_def\<close>)
  show "rsv_states (leave_file key index st) = (rsv_states st)(key \<mapsto> KDone)" by (simp add: leave_file_def)
qed

text \<open>
  The interface between the loop over the imports and the recursive call: a call that succeeds keeps the invariant and
  leaves the file it was called for done.
\<close>

definition reached :: "(string \<times> string) set \<Rightarrow> string \<Rightarrow> resolver \<Rightarrow> resolver \<Rightarrow> bool" where
  "reached E key st st' \<longleftrightarrow> (\<forall>k. rsv_states st' k \<noteq> None \<longrightarrow> rsv_states st k \<noteq> None \<or> (key, k) \<in> E\<^sup>*)"

lemma reached_refl: "reached E key st st"
  by (simp add: reached_def)

locale file_loader =
  fixes Y :: "'n yaml" and FS :: file_system and root :: "string option"
    and load :: "string \<Rightarrow> resolver \<Rightarrow> (resolver \<times> nat) loaded option"
  assumes load_done: "load path st = Some (Inr (st', i)) \<Longrightarrow> resolver_ok Y FS root st \<Longrightarrow>
    resolver_ok Y FS root st' \<and> extends st st' \<and> i < length (rsv_definitions st') \<and>
    (\<exists>key. fs_canonical FS path = Some key \<and> rsv_states st' key = Some KDone \<and> rsv_root_paths st' ! i = key \<and>
       reached (import_edges Y FS root) key st st')"
begin

lemma import_loop_done:
  "import_loop load resolve is st = Some (Inr st') \<Longrightarrow> resolver_ok Y FS root st \<Longrightarrow>
   resolver_ok Y FS root st' \<and> extends st st' \<and>
   (\<forall>i\<in>set is. \<exists>path key. resolve (imp_path i) = Inr path \<and> fs_canonical FS path = Some key \<and> rsv_states st' key = Some KDone) \<and>
   (\<forall>k. rsv_states st' k \<noteq> None \<longrightarrow> rsv_states st k \<noteq> None \<or>
     (\<exists>i\<in>set is. \<exists>path key. resolve (imp_path i) = Inr path \<and> fs_canonical FS path = Some key \<and>
       (key, k) \<in> (import_edges Y FS root)\<^sup>*))"
proof (induction "is" arbitrary: st)
  case (Cons i js)
  from Cons.prems(1) obtain path st1 n where path: "resolve (imp_path i) = Inr path"
    and call: "load path st = Some (Inr (st1, n))" and rest: "import_loop load resolve js st1 = Some (Inr st')"
    by (auto split: sum.splits option.splits prod.splits)
  from load_done [OF call Cons.prems(2)] obtain key where first: "resolver_ok Y FS root st1" "extends st st1"
    "fs_canonical FS path = Some key" "rsv_states st1 key = Some KDone"
    "reached (import_edges Y FS root) key st st1" by blast
  from Cons.IH [OF rest first(1)] have later: "resolver_ok Y FS root st'" "extends st1 st'"
    "\<forall>i\<in>set js. \<exists>path key. resolve (imp_path i) = Inr path \<and> fs_canonical FS path = Some key \<and> rsv_states st' key = Some KDone"
    "\<forall>k. rsv_states st' k \<noteq> None \<longrightarrow> rsv_states st1 k \<noteq> None \<or>
     (\<exists>i\<in>set js. \<exists>path key. resolve (imp_path i) = Inr path \<and> fs_canonical FS path = Some key \<and>
       (key, k) \<in> (import_edges Y FS root)\<^sup>*)"
    by blast+
  have "rsv_states st k \<noteq> None \<or>
     (\<exists>i\<in>set (i # js). \<exists>path key. resolve (imp_path i) = Inr path \<and> fs_canonical FS path = Some key \<and>
       (key, k) \<in> (import_edges Y FS root)\<^sup>*)" if "rsv_states st' k \<noteq> None" for k
    using later(4) [rule_format, OF that] first(3,5) path unfolding reached_def by (meson list.set_intros)
  moreover from later(2) first(4) have "rsv_states st' key = Some KDone" by (simp add: extends_def)
  moreover have "extends st st'" using first(2) later(2) by (rule extends_trans)
  ultimately show ?case using later(1,3) first(3) path by simp
qed simp

end

lemma load_recursive_loader: "file_loader Y FS root (load_recursive fuel Y FS root)"
proof (induction fuel)
  case 0
  show ?case by unfold_locales simp
next
  case (Suc fuel)
  show ?case
  proof unfold_locales
    fix path st st' i
    assume call: "load_recursive (Suc fuel) Y FS root path st = Some (Inr (st', i))" and ok: "resolver_ok Y FS root st"
    then obtain key where key: "fs_canonical FS path = Some key" by (auto split: option.splits)
    show "resolver_ok Y FS root st' \<and> extends st st' \<and> i < length (rsv_definitions st') \<and>
      (\<exists>key. fs_canonical FS path = Some key \<and> rsv_states st' key = Some KDone \<and> rsv_root_paths st' ! i = key \<and>
       reached (import_edges Y FS root) key st st')"
    proof (cases "rsv_states st key")
      case (Some v)
      with call key have v: "v = KDone" "st' = st" "i = the (rsv_indices st key)"
        by (auto split: visit_state.splits)
      with ok Some obtain j where "j < length (rsv_definitions st)" "rsv_indices st key = Some j" "rsv_root_paths st ! j = key"
        unfolding resolver_ok_def by blast
      with v(3) have "i < length (rsv_definitions st)" "rsv_root_paths st ! i = key" by simp_all
      moreover have "rsv_states st key = Some KDone" using Some v(1) by simp
      ultimately show ?thesis unfolding v(2) using key ok extends_refl reached_refl by blast
    next
      case None
      note step = call [unfolded load_recursive.simps key option.case None]
      obtain contents where contents: "fs_read FS key = Some contents"
        using step by (cases "fs_read FS key") simp_all
      note step = step [unfolded contents option.case]
      obtain d where parsed: "parse_file Y key contents False = Some (Inr d)"
        using step by (cases "parse_file Y key contents False" rule: option.exhaust [case_names None Some];
          cases "the (parse_file Y key contents False)") simp_all
      note step = step [unfolded parsed option.case sum.case Let_def]
      obtain st2 where loop: "import_loop (load_recursive fuel Y FS root) (resolve_import_path FS root key) (pd_imports d)
          (enter_file key d st) = Some (Inr st2)"
        using step by (cases "import_loop (load_recursive fuel Y FS root) (resolve_import_path FS root key) (pd_imports d)
          (enter_file key d st)"; cases "the (import_loop (load_recursive fuel Y FS root) (resolve_import_path FS root key)
          (pd_imports d) (enter_file key d st))") simp_all
      from step [unfolded loop option.case sum.case]
      have st': "st' = leave_file key (length (rsv_definitions st)) st2" "i = length (rsv_definitions st)" by auto
      have d: "file_definition Y FS key = Some d" using contents parsed by (simp add: file_definition_def)
      note entered = enter_file_ok [OF ok None d]
      from file_loader.import_loop_done [OF Suc.IH loop entered(1)]
      have st2: "resolver_ok Y FS root st2" "extends (enter_file key d st) st2"
        and all_done: "\<forall>i\<in>set (pd_imports d). \<exists>path key'. resolve_import_path FS root key (imp_path i) = Inr path \<and>
          fs_canonical FS path = Some key' \<and> rsv_states st2 key' = Some KDone"
        and found: "\<forall>k. rsv_states st2 k \<noteq> None \<longrightarrow> rsv_states (enter_file key d st) k \<noteq> None \<or>
          (\<exists>i\<in>set (pd_imports d). \<exists>path key'. resolve_import_path FS root key (imp_path i) = Inr path \<and>
            fs_canonical FS path = Some key' \<and> (key', k) \<in> (import_edges Y FS root)\<^sup>*)" by blast+
      have here: "rsv_states st2 key = Some KVisiting" using st2(2) entered(2) by (simp add: extends_def)
      have index: "length (rsv_definitions st) < length (rsv_definitions st2)"
        "rsv_root_paths st2 ! length (rsv_definitions st) = key"
        using st2(2) entered(1,3) by (auto simp: extends_def enter_file_def resolver_ok_def nth_append)
      have "rsv_states st2 k = Some KDone" if "(key, k) \<in> import_edges Y FS root" for k
        using that all_done d by (fastforce simp: import_edges_def)
      note left = leave_file_ok [OF st2(1) here index this]
      have "extends st (leave_file key (length (rsv_definitions st)) st2)"
        using st2(2) entered(2) None unfolding extends_def left(2)
        by (auto simp: enter_file_def leave_file_def)
      moreover have "reached (import_edges Y FS root) key st (leave_file key (length (rsv_definitions st)) st2)"
        unfolding reached_def
      proof (intro allI impI)
        fix k assume "rsv_states (leave_file key (length (rsv_definitions st)) st2) k \<noteq> None"
        then have "k = key \<or> rsv_states st2 k \<noteq> None" by (simp add: left(2) split: if_splits)
        then consider "k = key" | "rsv_states st k \<noteq> None"
          | i path key' where "i \<in> set (pd_imports d)" "resolve_import_path FS root key (imp_path i) = Inr path"
            "fs_canonical FS path = Some key'" "(key', k) \<in> (import_edges Y FS root)\<^sup>*"
          using found entered(2) by (metis fun_upd_apply)
        then show "rsv_states st k \<noteq> None \<or> (key, k) \<in> (import_edges Y FS root)\<^sup>*"
        proof cases
          case 3
          then have "(key, key') \<in> import_edges Y FS root" using d by (auto simp: import_edges_def)
          with 3(4) show ?thesis by (simp add: converse_rtrancl_into_rtrancl)
        qed simp_all
      qed
      ultimately show ?thesis using left index key by (simp add: st' leave_file_def)
    qed
  qed
qed

interpretation recursive_loader: file_loader Y FS root "load_recursive fuel Y FS root"
  for Y :: "'n yaml" and FS root fuel
  by (rule load_recursive_loader)

subsection \<open>What is loaded\<close>

lemma new_resolver_ok: "resolver_ok Y FS root new_resolver"
  by (simp add: resolver_ok_def new_resolver_def postorder_keys_def imports_first_def)

lemma imports_first_trancl:
  assumes "imports_first E keys" and "(a, k) \<in> E\<^sup>+"
  shows "n < length keys \<Longrightarrow> a = keys ! n \<Longrightarrow> k \<in> set (take n keys)"
  using assms(2)
proof (induction rule: trancl_induct)
  case (base k)
  then show ?case using assms(1) by (simp add: imports_first_def)
next
  case (step b c)
  then obtain m where m: "m < n" "m < length keys" "b = keys ! m"
    by (auto simp: in_set_conv_nth)
  with assms(1) step.hyps(2) have "c \<in> set (take m keys)" by (auto simp: imports_first_def)
  moreover have "set (take m keys) \<subseteq> set (take n keys)" using m(1) by (simp add: set_take_subset_set_take)
  ultimately show ?case by blast
qed

lemma imports_first_closed:
  assumes "imports_first E keys" and "(a, k) \<in> E\<^sup>*" and "a \<in> set keys"
  shows "k \<in> set keys"
proof (cases "a = k")
  case False
  with assms(2) have "(a, k) \<in> E\<^sup>+" by (simp add: rtrancl_eq_or_trancl)
  moreover obtain n where "n < length keys" "a = keys ! n" using assms(3) by (auto simp: in_set_conv_nth)
  ultimately have "k \<in> set (take n keys)" by (rule imports_first_trancl [OF assms(1)])
  then show ?thesis by (rule in_set_takeD)
qed (use assms(3) in simp)

lemma imports_first_acyclic:
  assumes "imports_first E keys" and "distinct keys" and "k \<in> set keys"
  shows "(k, k) \<notin> E\<^sup>+"
proof
  assume "(k, k) \<in> E\<^sup>+"
  moreover obtain n where n: "n < length keys" "k = keys ! n" using assms(3) by (auto simp: in_set_conv_nth)
  ultimately have "k \<in> set (take n keys)" using imports_first_trancl [OF assms(1)] by blast
  with n assms(2) show False by (auto simp: in_set_conv_nth nth_eq_iff_index_eq)
qed

lemma resolved_files:
  assumes "resolve_schema fuel Y FS root path = Some (Inr d)"
  shows "\<exists>key keys. fs_canonical FS path = Some key \<and> distinct keys \<and>
    set keys = {k. (key, k) \<in> (import_edges Y FS root)\<^sup>*} \<and> imports_first (import_edges Y FS root) keys \<and>
    d = merge_definitions (pd_name (the (file_definition Y FS key))) (map (\<lambda>k. the (file_definition Y FS k)) keys)"
proof -
  let ?E = "import_edges Y FS root"
  obtain st i where call: "load_recursive fuel Y FS root path new_resolver = Some (Inr (st, i))"
    and d: "d = merge_definitions (pd_name (rsv_definitions st ! i)) (map ((!) (rsv_definitions st)) (rsv_postorder st))"
    using assms by (auto simp: resolve_schema_def Let_def invalid_schema_def split: option.splits sum.splits if_splits)
  obtain key where ok: "resolver_ok Y FS root st" and i: "i < length (rsv_definitions st)" "rsv_root_paths st ! i = key"
    and key: "fs_canonical FS path = Some key" "rsv_states st key = Some KDone" "reached ?E key new_resolver st"
    using recursive_loader.load_done [OF call new_resolver_ok] by blast
  let ?keys = "postorder_keys st"
  have order: "distinct ?keys" "imports_first ?E ?keys" using ok by (simp_all add: resolver_ok_def)
  have root_in: "key \<in> set ?keys" using resolver_done [OF ok] key(2) by blast
  have "set ?keys = {k. (key, k) \<in> ?E\<^sup>*}"
  proof (intro set_eqI iffI)
    fix k assume "k \<in> set ?keys"
    then have "rsv_states st k \<noteq> None" using resolver_done [OF ok, of k] by auto
    with key(3) show "k \<in> {k. (key, k) \<in> ?E\<^sup>*}" by (auto simp: reached_def new_resolver_def)
  qed (use imports_first_closed [OF order(2) _ root_in] in blast)
  moreover have "d = merge_definitions (pd_name (the (file_definition Y FS key))) (map (\<lambda>k. the (file_definition Y FS k)) ?keys)"
  proof -
    have definitions: "\<forall>i < length (rsv_definitions st). \<exists>d. file_definition Y FS (rsv_root_paths st ! i) = Some d \<and>
        (rsv_definitions st ! i = d \<or> rsv_definitions st ! i = d\<lparr>pd_imports := []\<rparr>)"
      using ok unfolding resolver_ok_def by (elim conjE)
    have part: "pd_name (rsv_definitions st ! j) = pd_name (the (file_definition Y FS (rsv_root_paths st ! j)))"
      "pd_enums (rsv_definitions st ! j) = pd_enums (the (file_definition Y FS (rsv_root_paths st ! j)))"
      "pd_structs (rsv_definitions st ! j) = pd_structs (the (file_definition Y FS (rsv_root_paths st ! j)))"
      "pd_messages (rsv_definitions st ! j) = pd_messages (the (file_definition Y FS (rsv_root_paths st ! j)))"
      if j: "j < length (rsv_definitions st)" for j
    proof -
      obtain e where "file_definition Y FS (rsv_root_paths st ! j) = Some e"
        "rsv_definitions st ! j = e \<or> rsv_definitions st ! j = e\<lparr>pd_imports := []\<rparr>"
        using definitions j by blast
      then show "pd_name (rsv_definitions st ! j) = pd_name (the (file_definition Y FS (rsv_root_paths st ! j)))"
        "pd_enums (rsv_definitions st ! j) = pd_enums (the (file_definition Y FS (rsv_root_paths st ! j)))"
        "pd_structs (rsv_definitions st ! j) = pd_structs (the (file_definition Y FS (rsv_root_paths st ! j)))"
        "pd_messages (rsv_definitions st ! j) = pd_messages (the (file_definition Y FS (rsv_root_paths st ! j)))"
        by auto
    qed
    have small: "j < length (rsv_definitions st)" if "j \<in> set (rsv_postorder st)" for j
      using ok that by (simp add: resolver_ok_def)
    show ?thesis
      unfolding d merge_definitions_def postorder_keys_def
      by (simp add: i part o_def small cong: map_cong)
  qed
  ultimately show ?thesis using key(1) order by blast
qed

lemma resolved_acyclic:
  assumes "resolve_schema fuel Y FS root path = Some (Inr d)" and "fs_canonical FS path = Some key"
    and "(key, k) \<in> (import_edges Y FS root)\<^sup>*"
  shows "(k, k) \<notin> (import_edges Y FS root)\<^sup>+"
proof -
  obtain keys where keys: "distinct keys" "set keys = {k. (key, k) \<in> (import_edges Y FS root)\<^sup>*}"
    "imports_first (import_edges Y FS root) keys"
    using resolved_files [OF assms(1)] assms(2) by auto
  then show ?thesis using imports_first_acyclic [OF keys(3,1)] assms(3) by blast
qed

subsection \<open>Termination\<close>

text \<open>A call visits no file that is not readable, and never one it has met.\<close>

lemma load_grows:
  "load_recursive fuel Y FS root path st = Some (Inr (st', i)) \<Longrightarrow> dom (rsv_states st) \<subseteq> dom (rsv_states st')"
proof (induction fuel arbitrary: path st st' i)
  case (Suc fuel)
  have loop: "import_loop (load_recursive fuel Y FS root) resolve is st1 = Some (Inr st2) \<Longrightarrow>
      dom (rsv_states st1) \<subseteq> dom (rsv_states st2)" for resolve "is" st1 st2
  proof (induction "is" arbitrary: st1)
    case (Cons x js)
    then show ?case using Suc.IH by (fastforce split: sum.splits option.splits prod.splits)
  qed simp
  from Suc.prems show ?case
    by (fastforce simp: Let_def enter_file_def leave_file_def dest!: loop split: option.splits sum.splits visit_state.splits)
qed simp

lemma load_recursive_returns:
  assumes files: "finite F" "{key. fs_read FS key \<noteq> None} \<subseteq> F"
    and parses: "\<And>key contents. fs_read FS key = Some contents \<Longrightarrow> parse_file Y key contents False \<noteq> None"
  shows "card (F - dom (rsv_states st)) < fuel \<Longrightarrow> load_recursive fuel Y FS root path st \<noteq> None"
proof (induction fuel arbitrary: path st)
  case (Suc fuel)
  have loop: "import_loop (load_recursive fuel Y FS root) resolve is st1 \<noteq> None"
    if "card (F - dom (rsv_states st1)) < fuel" for resolve "is" st1
    using that
  proof (induction "is" arbitrary: st1)
    case (Cons x js)
    show ?case
    proof (cases "resolve (imp_path x)")
      case (Inr p)
      have "load_recursive fuel Y FS root p st1 \<noteq> None" using Suc.IH Cons.prems by blast
      then obtain r where r: "load_recursive fuel Y FS root p st1 = Some r" by blast
      show ?thesis
      proof (cases r)
        case (Inr q)
        obtain st2 n where q: "q = (st2, n)" by (cases q)
        from load_grows [of fuel Y FS root p st1 st2 n] r Inr q have "F - dom (rsv_states st2) \<subseteq> F - dom (rsv_states st1)" by auto
        then have "card (F - dom (rsv_states st2)) < fuel"
          using Cons.prems card_mono [of "F - dom (rsv_states st1)"] files(1) by (meson finite_Diff le_less_trans)
        from Cons.IH [OF this] r Inr q \<open>resolve (imp_path x) = Inr p\<close> show ?thesis by simp
      qed (use r Inr in simp)
    qed simp
  qed simp
  show ?case
  proof (cases "fs_canonical FS path")
    case (Some key)
    show ?thesis
    proof (cases "rsv_states st key")
      case None
      show ?thesis
      proof (cases "fs_read FS key")
        case contents: (Some contents)
        obtain r where r: "parse_file Y key contents False = Some r" using parses [OF contents] by blast
        show ?thesis
        proof (cases r)
          case (Inr d)
          have "key \<in> F - dom (rsv_states st)" using contents None files(2) by auto
          then have "card (F - dom (rsv_states (enter_file key d st))) < card (F - dom (rsv_states st))"
            using files(1) by (intro psubset_card_mono) (auto simp: enter_file_def)
          with Suc.prems have "card (F - dom (rsv_states (enter_file key d st))) < fuel" by simp
          from loop [OF this] obtain l where
            "import_loop (load_recursive fuel Y FS root) (resolve_import_path FS root key) (pd_imports d) (enter_file key d st) = Some l"
            by blast
          with Some None contents r Inr show ?thesis by (cases l) (simp_all add: Let_def)
        qed (use Some None contents r in simp)
      qed (use Some None in simp)
    qed (use Some in \<open>simp split: visit_state.split\<close>)
  qed simp
qed simp

text \<open>The parse of a file returns when it is taken for YAML, and otherwise when the UPR lexer returns on its text, so for every
  text without a dollar sign.\<close>

definition parse_ends :: "string \<Rightarrow> string \<Rightarrow> bool" where
  "parse_ends key contents \<longleftrightarrow> to_lower (extension key) = ''.yaml'' \<or> to_lower (extension key) = ''.yml'' \<or> tokenize contents \<noteq> None"

lemma load_returns:
  "load_protocol_definition_impl Y contents ''upr'' b \<noteq> None \<longleftrightarrow> tokenize contents \<noteq> None"
  "load_protocol_definition_impl Y contents ''yaml'' b \<noteq> None"
  "load_protocol_definition_impl Y contents [] b \<noteq> None \<longleftrightarrow> tokenize contents \<noteq> None"
proof -
  have hints: "to_lower ''upr'' = ''upr''" "to_lower ''yaml'' = ''yaml''" "to_lower [] = []" by code_simp+
  show "load_protocol_definition_impl Y contents ''upr'' b \<noteq> None \<longleftrightarrow> tokenize contents \<noteq> None"
    unfolding load_protocol_definition_impl_def hints by (simp add: load_upr_def)
  show "load_protocol_definition_impl Y contents ''yaml'' b \<noteq> None"
    unfolding load_protocol_definition_impl_def hints by simp
  show "load_protocol_definition_impl Y contents [] b \<noteq> None \<longleftrightarrow> tokenize contents \<noteq> None"
    unfolding load_protocol_definition_impl_def hints by (simp add: load_upr_def split: option.split sum.split)
qed

lemma parse_file_returns: "parse_file Y key contents root_required \<noteq> None \<longleftrightarrow> parse_ends key contents"
proof -
  have "(if ext = ''.upr'' then load_protocol_definition_impl Y contents ''upr'' root_required
      else if ext = ''.yaml'' \<or> ext = ''.yml'' then load_protocol_definition_impl Y contents ''yaml'' root_required
      else load_protocol_definition_impl Y contents [] root_required) \<noteq> None \<longleftrightarrow>
    ext = ''.yaml'' \<or> ext = ''.yml'' \<or> tokenize contents \<noteq> None" for ext :: string
    using load_returns [of Y contents root_required] by simp
  then show ?thesis unfolding parse_file_def parse_ends_def Let_def by (simp only:)
qed

lemma resolve_schema_returns:
  assumes "finite F" and "{key. fs_read FS key \<noteq> None} \<subseteq> F" and "card F < fuel"
    and "\<And>key contents. fs_read FS key = Some contents \<Longrightarrow> parse_ends key contents"
  shows "resolve_schema fuel Y FS root path \<noteq> None"
proof -
  have "parse_file Y key contents False \<noteq> None" if "fs_read FS key = Some contents" for key contents
    using assms(4) [OF that] by (simp only: parse_file_returns not_False_eq_True)
  from load_recursive_returns [OF assms(1,2) this]
  have "load_recursive fuel Y FS root path new_resolver \<noteq> None"
    using assms(3) by (simp add: new_resolver_def)
  then show ?thesis by (auto simp: resolve_schema_def Let_def split: sum.split)
qed

lemma resolve_schema_loops:
  assumes "fs_canonical FS path = Some key" and "fs_read FS key = Some contents" and "\<not> parse_ends key contents"
  shows "resolve_schema fuel Y FS root path = None"
proof -
  have "parse_file Y key contents False = None" using assms(3) parse_file_returns by blast
  then have "load_recursive fuel Y FS root path new_resolver = None"
    using assms(1,2) by (cases fuel) (simp_all add: new_resolver_def)
  then show ?thesis by (simp add: resolve_schema_def)
qed

end
