(* ===== verification/Schema_Properties.thy ===== *)
theory Schema_Properties
  imports Schema_Roundtrip Schema_Bounds Schema_Import_Properties
begin

text \<open>
  The properties of the schema loader with their witnesses: the round trip, the range of what is loaded, the token
  vector's bounds, and the resolution of imports on a sample file system.
\<close>

subsection \<open>A sample schema\<close>

definition sample_length_field :: field_definition where
  "sample_length_field = default_field_definition\<lparr>fd_name := ''length'', fd_width_bytes := 2, fd_byte_order := BigEndian,
     fd_has_expected_unsigned := True, fd_expected_unsigned := 7,
     fd_condition := Some \<lparr>cnd_field = ''kind'', cnd_equals_unsigned = 3\<rparr>\<rparr>"

definition sample_kind_field :: field_definition where
  "sample_kind_field = default_field_definition\<lparr>fd_name := ''kind'', fd_kind := KEnum, fd_width_bytes := 1,
     fd_enum_values := [\<lparr>ev_value = 3, ev_name = ''data''\<rparr>]\<rparr>"

definition sample_body_field :: field_definition where
  "sample_body_field = default_field_definition\<lparr>fd_name := ''body'', fd_kind := KBytes, fd_size_from_field := ''length'',
     fd_checksum := Some \<lparr>ckd_algorithm = ''crc32'', ckd_from = ''frame_start'', ckd_to = ''before_self''\<rparr>\<rparr>"

definition sample_message :: message_definition where
  "sample_message = \<lparr>md_name = ''packet'', md_fields = [sample_kind_field, sample_length_field, sample_body_field],
     md_validations = [default_validation_rule\<lparr>vrd_field := ''length'', vrd_op := OpLe, vrd_value := 1500\<rparr>],
     md_allow_trailing_bytes = True\<rparr>"

definition sample_protocol :: protocol_definition where
  "sample_protocol = \<lparr>pd_name = ''sample'', pd_imports = [\<lparr>imp_path = ''./common.upr''\<rparr>], pd_enums = [], pd_structs = [],
     pd_messages = [sample_message]\<rparr>"

lemma sample_expressible: "expressible_protocol sample_protocol"
  by (simp add: expressible_protocol_def sample_protocol_def sample_message_def sample_kind_field_def
      sample_length_field_def sample_body_field_def expressible_field_def field_in_range_def canonical_field_def
      typed_field_def default_field_definition_def Let_def scalar_width_def identifier_text_def is_identifier_start_def
      is_identifier_part_def is_alpha_def is_digit_def char_between_def expressible_rule_def default_validation_rule_def)

text \<open>A YAML library that reads nothing, for the witnesses.\<close>

definition no_yaml :: "unit yaml" where
  "no_yaml = \<lparr>y_load = \<lambda>_. Inl ''no yaml'', y_at = \<lambda>_ _. Inr None, y_is_map = \<lambda>_. False, y_is_sequence = \<lambda>_. False,
     y_items = \<lambda>_. [], y_pairs = \<lambda>_. [], y_string = \<lambda>_. Inl ''no yaml'', y_u64 = \<lambda>_. Inl ''no yaml'',
     y_u32 = \<lambda>_. Inl ''no yaml'', y_bool = \<lambda>_. Inl ''no yaml'', y_invalid = ''no yaml''\<rparr>"

subsection \<open>The round trip\<close>

text \<open>C29: Every schema the UPR language expresses is loaded from its printed text exactly as it was: lexer and parser
  return, report no error and lose, reorder or change no declaration, field, type, suffix, validation or number. The same
  definition is loaded when no format is named and the loader has to find out the language.\<close>

theorem schema_roundtrip:
  assumes "expressible_protocol d"
  shows "load_protocol_definition_from_upr (schema_text d) = Some (Inr d) \<and>
    load_protocol_definition Y (schema_text d) '''' = Some (Inr d)"
  using load_upr_reads [OF assms, of True]
  by (simp add: load_protocol_definition_from_upr_def load_protocol_definition_def load_protocol_definition_impl_def
      Let_def to_lower_def)

lemma schema_roundtrip_witness:
  "expressible_protocol sample_protocol \<and>
   load_protocol_definition_from_upr (schema_text sample_protocol) = Some (Inr sample_protocol) \<and>
   load_protocol_definition no_yaml (schema_text sample_protocol) '''' = Some (Inr sample_protocol)"
  using schema_roundtrip [OF sample_expressible, of no_yaml] sample_expressible by simp

subsection \<open>The range of what is loaded\<close>

text \<open>C30: Whatever text the UPR loader accepts, the definition it returns fits the members it is stored in: widths of
  unsigned, signed and enum types are 1 to 255 bytes, floats have 4 or 8, bit offsets, bit widths and presence bits fit in
  eight bits, sizes, counts and alignments in 64, no field has both a fixed and a referenced size or count, and a schema
  that is loaded on its own has a name and a message.\<close>

theorem loaded_schema_in_range:
  assumes "load_upr require_root schema = Some (Inr d)"
  shows "loaded_protocol_ok d \<and> (require_root \<longrightarrow> pd_name d \<noteq> [] \<and> pd_messages d \<noteq> [])"
  by (rule loaded_schema_bounds [OF assms])

lemma loaded_schema_in_range_witness:
  "load_upr True (schema_text sample_protocol) = Some (Inr sample_protocol) \<and> loaded_protocol_ok sample_protocol"
  using loaded_schema_in_range [OF load_upr_reads [OF sample_expressible, of True]]
    load_upr_reads [OF sample_expressible, of True] by simp

subsection \<open>The token vector\<close>

text \<open>The parser never reads or moves past the last token: in every state the loop of the parser reaches from the
  tokens of a text, the rest of the tokens ends with the end token and has it nowhere else, and a declaration takes at
  least one token, none of them the end.\<close>

theorem parser_stays_in_tokens:
  assumes "parser_state ts0 d ts" and "tokenize schema = Some (Inr ts0)"
  shows "ends_with_end ts \<and> (\<forall>d' ts'. parse_declaration d ts = Inr (d', ts') \<longrightarrow> consumes ts ts' \<and> ends_with_end ts')"
proof -
  have "ends_with_end ts" by (rule parser_state_end [OF assms])
  then show ?thesis using parse_declaration_consumes consumes_keeps_end by blast
qed

lemma parser_stays_in_tokens_witness:
  "\<exists>ts. tokenize (schema_text sample_protocol) = Some (Inr ts) \<and> parser_state ts empty_protocol ts \<and> ends_with_end ts"
proof -
  obtain ts where ts: "tokenize (schema_text sample_protocol) = Some (Inr ts)"
    using tokenize_rendered [OF protocol_spellable [OF sample_expressible]] by (auto simp: schema_text_def)
  have "parser_state ts empty_protocol ts" by (rule parser_state.start)
  with parser_stays_in_tokens [OF this ts] ts show ?thesis by blast
qed

subsection \<open>Imports\<close>

definition common_message :: message_definition where
  "common_message = \<lparr>md_name = ''ping'', md_fields = [sample_kind_field], md_validations = [],
     md_allow_trailing_bytes = False\<rparr>"

definition common_protocol :: protocol_definition where
  "common_protocol = \<lparr>pd_name = ''common'', pd_imports = [], pd_enums = [], pd_structs = [], pd_messages = [common_message]\<rparr>"

lemma common_expressible: "expressible_protocol common_protocol"
  by (simp add: expressible_protocol_def common_protocol_def common_message_def sample_kind_field_def
      expressible_field_def field_in_range_def canonical_field_def typed_field_def default_field_definition_def Let_def
      scalar_width_def)

text \<open>Two files, the second imported by the first.\<close>

definition sample_files :: file_system where
  "sample_files = \<lparr>fs_absolute = Some,
     fs_canonical = (\<lambda>p. Some (if p = ''/w/./common.upr'' then ''/w/common.upr'' else p)),
     fs_is_directory = (\<lambda>p. p = ''/w''), fs_exists = (\<lambda>p. False),
     fs_read = (\<lambda>p. if p = ''/w/sample.upr'' then Some (schema_text sample_protocol)
                     else if p = ''/w/common.upr'' then Some (schema_text common_protocol) else None)\<rparr>"

lemma parse_printed_file:
  assumes "expressible_protocol d" and "to_lower (extension p) = ''.upr''"
  shows "parse_file Y p (schema_text d) r = Some (Inr d)"
  using load_upr_reads [OF assms(1), of r] assms(2)
  by (simp add: parse_file_def load_protocol_definition_impl_def rejected_def to_lower_def tolower_def)

lemma sample_extensions:
  "to_lower (extension ''/w/sample.upr'') = ''.upr''" "to_lower (extension ''/w/common.upr'') = ''.upr''"
  by (simp_all add: extension_def filename_def slash_def Let_def to_lower_def tolower_def)

lemma sample_import:
  "resolve_import_path sample_files None ''/w/sample.upr'' ''./common.upr'' = Inr ''/w/common.upr''"
  by (simp add: resolve_import_path_def is_absolute_def is_relative_import_def string_starts_with_def path_join_def
      parent_path_def strip_slashes_def directory_part_def slash_def sample_files_def Let_def)

lemma sample_resolved:
  "resolve_schema 3 no_yaml sample_files None ''/w/sample.upr'' =
   Some (Inr (merge_definitions ''sample'' [common_protocol, sample_protocol\<lparr>pd_imports := []\<rparr>]))"
proof -
  have sample: "parse_file no_yaml ''/w/sample.upr'' (schema_text sample_protocol) False = Some (Inr sample_protocol)"
    by (rule parse_printed_file [OF sample_expressible sample_extensions(1)])
  have common: "parse_file no_yaml ''/w/common.upr'' (schema_text common_protocol) False = Some (Inr common_protocol)"
    by (rule parse_printed_file [OF common_expressible sample_extensions(2)])
  have files: "fs_canonical sample_files ''/w/sample.upr'' = Some ''/w/sample.upr''"
    "fs_canonical sample_files ''/w/common.upr'' = Some ''/w/common.upr''"
    "fs_read sample_files ''/w/sample.upr'' = Some (schema_text sample_protocol)"
    "fs_read sample_files ''/w/common.upr'' = Some (schema_text common_protocol)"
    by (simp_all add: sample_files_def)
  have root_imports: "pd_imports sample_protocol = [\<lparr>imp_path = ''./common.upr''\<rparr>]" by (simp add: sample_protocol_def)
  have fresh: "rsv_states new_resolver k = None" "rsv_definitions new_resolver = []" for k
    by (simp_all add: new_resolver_def)
  have no_imports: "pd_imports common_protocol = []" by (simp add: common_protocol_def)
  have "load_recursive (Suc (Suc 0)) no_yaml sample_files None ''/w/common.upr''
      (enter_file ''/w/sample.upr'' sample_protocol new_resolver) =
    Some (Inr (leave_file ''/w/common.upr'' 1 (enter_file ''/w/common.upr'' common_protocol
      (enter_file ''/w/sample.upr'' sample_protocol new_resolver)), 1))"
    by (simp add: files common enter_file_def new_resolver_def no_imports)
  then have "load_recursive (Suc (Suc (Suc 0))) no_yaml sample_files None ''/w/sample.upr'' new_resolver =
    Some (Inr (leave_file ''/w/sample.upr'' 0 (leave_file ''/w/common.upr'' 1 (enter_file ''/w/common.upr'' common_protocol
      (enter_file ''/w/sample.upr'' sample_protocol new_resolver))), 0))"
    by (subst load_recursive.simps)
      (simp add: files sample sample_import root_imports fresh del: load_recursive.simps)
  then show ?thesis
    by (simp add: resolve_schema_def numeral_3_eq_3 leave_file_def enter_file_def new_resolver_def Let_def
        sample_protocol_def common_protocol_def merge_definitions_def del: load_recursive.simps)
qed

text \<open>C31: When the resolver succeeds, the schema it returns is made of the files reachable from the root by imports, each
  taken once however often it is imported, each after the files it imports, under the name the root declares; and no file
  among them imports itself, directly or through others, so every import cycle is reported as an error.\<close>

theorem resolved_schema:
  assumes "resolve_schema fuel Y FS root path = Some (Inr d)"
  shows "\<exists>key keys. fs_canonical FS path = Some key \<and> distinct keys \<and>
    set keys = {k. (key, k) \<in> (import_edges Y FS root)\<^sup>*} \<and> imports_first (import_edges Y FS root) keys \<and>
    (\<forall>k\<in>set keys. (k, k) \<notin> (import_edges Y FS root)\<^sup>+) \<and>
    d = merge_definitions (pd_name (the (file_definition Y FS key))) (map (\<lambda>k. the (file_definition Y FS k)) keys)"
proof -
  obtain key keys where keys: "fs_canonical FS path = Some key" "distinct keys"
    "set keys = {k. (key, k) \<in> (import_edges Y FS root)\<^sup>*}" "imports_first (import_edges Y FS root) keys"
    "d = merge_definitions (pd_name (the (file_definition Y FS key))) (map (\<lambda>k. the (file_definition Y FS k)) keys)"
    using resolved_files [OF assms] by blast
  then have "\<forall>k\<in>set keys. (k, k) \<notin> (import_edges Y FS root)\<^sup>+" using imports_first_acyclic by blast
  with keys show ?thesis by blast
qed

lemma resolved_schema_witness:
  "resolve_schema 3 no_yaml sample_files None ''/w/sample.upr'' =
     Some (Inr (merge_definitions ''sample'' [common_protocol, sample_protocol\<lparr>pd_imports := []\<rparr>])) \<and>
   (\<exists>keys. distinct keys \<and> set keys = {k. (''/w/sample.upr'', k) \<in> (import_edges no_yaml sample_files None)\<^sup>*} \<and>
     imports_first (import_edges no_yaml sample_files None) keys)"
  using resolved_schema [OF sample_resolved] sample_resolved by (auto simp: sample_files_def)

text \<open>C32: When the resolver returns. Over a finite set of files that each are YAML by their extension or have a text on which
  the UPR lexer returns (\<open>parse_ends\<close>; every text without a dollar sign is one), the resolver returns, with fuel for one call
  more than there are files, however the files import each other, in cycles too: its recursion visits no file
  twice. When the root is a file on which the lexer does not return, the resolver does not return, whatever the fuel.\<close>

theorem resolver_returns:
  assumes "finite F" and "{key. fs_read FS key \<noteq> None} \<subseteq> F" and "card F < fuel"
  shows "((\<forall>key contents. fs_read FS key = Some contents \<longrightarrow> parse_ends key contents) \<longrightarrow>
      resolve_schema fuel Y FS root path \<noteq> None) \<and>
    (\<forall>key contents. fs_canonical FS path = Some key \<and> fs_read FS key = Some contents \<and> \<not> parse_ends key contents \<longrightarrow>
      resolve_schema fuel Y FS root path = None)"
  using resolve_schema_returns [OF assms, of Y root path] resolve_schema_loops [of FS path] by blast

text \<open>A file that imports itself, and one on which the lexer does not return.\<close>

definition one_file :: "string \<Rightarrow> file_system" where
  "one_file contents = \<lparr>fs_absolute = Some, fs_canonical = (\<lambda>p. Some ''/w/a.upr''), fs_is_directory = (\<lambda>p. False),
     fs_exists = (\<lambda>p. False), fs_read = (\<lambda>p. if p = ''/w/a.upr'' then Some contents else None)\<rparr>"

definition cyclic_file :: file_system where
  "cyclic_file = one_file (''import '' @ double_quote # ''./a.upr'' @ [double_quote])"

lemma resolver_returns_witness:
  "fs_read cyclic_file ''/w/a.upr'' \<noteq> None \<and> resolve_schema 2 no_yaml cyclic_file None ''/w/a.upr'' \<noteq> None \<and>
   resolve_schema 2 no_yaml (one_file ''$value'') None ''/w/a.upr'' = None"
proof -
  have files: "{key. fs_read (one_file contents) key \<noteq> None} \<subseteq> {''/w/a.upr''}" for contents
    by (auto simp: one_file_def split: if_splits)
  note returns = resolver_returns [OF _ files, of 2 _ no_yaml None "''/w/a.upr''"]
  have "\<exists>r. tokenize (''import '' @ double_quote # ''./a.upr'' @ [double_quote]) = Some r"
    by (rule tokenize_returns) (simp add: double_quote_def)
  then have "resolve_schema 2 no_yaml cyclic_file None ''/w/a.upr'' \<noteq> None"
    unfolding cyclic_file_def
    by (intro returns [THEN conjunct1, rule_format]) (auto simp: one_file_def parse_ends_def split: if_splits)
  moreover have "\<not> parse_ends ''/w/a.upr'' ''$value''"
  proof -
    have "to_lower (extension ''/w/a.upr'') = ''.upr''" by code_simp
    then show ?thesis using tokenize_dollar_loops [of "''value''"] by (simp add: parse_ends_def)
  qed
  then have "resolve_schema 2 no_yaml (one_file ''$value'') None ''/w/a.upr'' = None"
    by (intro returns [THEN conjunct2, rule_format, of _ "''/w/a.upr''" "''$value''"]) (auto simp: one_file_def)
  ultimately show ?thesis by (simp add: cyclic_file_def one_file_def)
qed

subsection \<open>The lexer\<close>

text \<open>C33: The lexer returns, with tokens or an error, for every text without a dollar sign, and never returns for a text
  that starts with one: the sign starts an identifier but is no part of one, so the loop appends empty tokens for ever.\<close>

theorem lexer_returns_unless_dollar:
  shows "(CHR ''$'' \<notin> set schema \<longrightarrow> tokenize schema \<noteq> None) \<and> tokenize (CHR ''$'' # rest) = None"
  using tokenize_returns [of schema] tokenize_dollar_loops [of rest] by blast

lemma lexer_returns_unless_dollar_witness:
  "tokenize ''message m { a : uint8 }'' \<noteq> None \<and> tokenize ''$value'' = None"
  using lexer_returns_unless_dollar [of "''message m { a : uint8 }''" "''value''"] by simp

subsection \<open>Behaviour the documentation does not mention\<close>

text \<open>The width of a scalar type is read modulo 2 ^ 32, so a type of 4294967304 bits is taken for one of eight.\<close>

lemma width_token_wraps: "parse_width_token ''uint4294967304'' ''uint'' = Inr 1"
  by code_simp

text \<open>A struct whose name starts like a scalar type cannot be referred to.\<close>

lemma interval_lower: "to_lower ''Interval'' = ''interval''"
  by code_simp

lemma interval_width: "\<exists>e. parse_width_token ''interval'' ''int'' = Inl e"
  by (rule exI [of _ "SchemaError ''Invalid scalar width token: interval''"]) code_simp

lemma struct_named_like_scalar:
  assumes "ut_kind t = TK_Identifier" and "ut_text t = ''Interval''"
  shows "\<exists>e. parse_field_type f (t # ts) = Inl e"
proof -
  obtain e where "parse_width_token ''interval'' ''int'' = Inl e" using interval_width by blast
  then show ?thesis
    unfolding parse_field_type_def peek_first assms interval_lower Let_def
    by (simp add: string_starts_with_def)
qed

text \<open>A presence bit of 256 is rejected in UPR text and becomes bit 0 in YAML.\<close>

lemma yaml_presence_bit_truncated:
  assumes "y_is_map Y node" and "y_at Y node ''field'' = Inr (Some n)" and "y_at Y node ''bit'' = Inr (Some m)"
    and "y_string Y n = Inr x" and "y_u32 Y m = Inr 256"
  shows "yaml_presence Y node = Inr \<lparr>prd_field = x, prd_bit_index = 0\<rparr>"
  using assms by (simp add: yaml_presence_def yaml_has_def yaml_read_def throwing_def cast_u8_def)

end
