(* ===== verification/Uring_Engine.thy ===== *)
theory Uring_Engine
  imports Posix_Transport
begin

text \<open>
  \<open>IoUringStreamEngine\<close> of \<open>adapters/io_uring_reactor.cpp\<close> and the transport that forwards to an engine,
  \<open>PluggableStreamTransport\<close> of \<open>adapters/pluggable_stream_engine.cpp\<close>.

  The library liburing and the kernel behind it are parameters: the record \<open>uring\<close> adds the calls on a ring to
  those of \<open>posix\<close>. An entry of the submission queue is named by the slot \<open>io_uring_get_sqe\<close> returns and is filled by
  the \<open>prep\<close> functions; the result of a completion is the \<open>errno\<close> it carries negated, or a count. What a receive
  has put in the buffer of the caller is read from the state of the kernel (\<open>ur_received\<close>). The entry of a linked timeout
  holds the address of a \<open>__kernel_timespec\<close> of the caller, which \<open>io_uring_submit\<close> dereferences; that storage is part of the
  state: \<open>ur_store_timeout\<close> is the assignment to the local variable, and \<open>ur_end_of_block\<close> the end of the block it is declared
  in, after which C++ does not define what the storage holds. Message texts are left out.
\<close>

subsection \<open>The ring\<close>

datatype uring_op =
    UR_Recv int nat
  | UR_Send int bytes
  | UR_SendZc int bytes
  | UR_SendMsg int "bytes list"
  | UR_Poll int poll_event
  | UR_LinkTimeout

record uring_cqe =
  cqe_user_data :: u64
  cqe_res :: "errno_code + nat"

datatype shutdown_how = SHUT_RD | SHUT_WR

record uring_params =
  up_queue_depth :: nat
  up_sqpoll :: bool
  up_sq_thread_idle :: nat

record ('os, 'addr) uring = "('os, 'addr) posix" +
  ur_queue_init :: "nat \<Rightarrow> 'os \<Rightarrow> (errno_code + unit) \<times> 'os"
  ur_queue_init_params :: "uring_params \<Rightarrow> 'os \<Rightarrow> (errno_code + unit) \<times> 'os"
  ur_queue_exit :: "'os \<Rightarrow> 'os"
  ur_get_sqe :: "'os \<Rightarrow> (nat \<times> 'os) option"
  ur_prep :: "nat \<Rightarrow> uring_op \<Rightarrow> 'os \<Rightarrow> 'os"
  ur_set_data64 :: "nat \<Rightarrow> u64 \<Rightarrow> 'os \<Rightarrow> 'os"
  ur_set_link :: "nat \<Rightarrow> 'os \<Rightarrow> 'os"
  ur_submit :: "'os \<Rightarrow> (errno_code + nat) \<times> 'os"
  ur_wait_cqe :: "'os \<Rightarrow> (errno_code + uring_cqe) \<times> 'os"
  ur_cqe_seen :: "'os \<Rightarrow> 'os"
  ur_store_timeout :: "int \<times> int \<Rightarrow> 'os \<Rightarrow> 'os"
  ur_end_of_block :: "'os \<Rightarrow> 'os"
  ur_received :: "'os \<Rightarrow> bytes"
  ur_shutdown :: "int \<Rightarrow> shutdown_how \<Rightarrow> 'os \<Rightarrow> (errno_code + unit) \<times> 'os"

abbreviation ENOENT :: errno_code where "ENOENT \<equiv> E_other 2"
abbreviation ETIME :: errno_code where "ETIME \<equiv> E_other 62"
abbreviation ECANCELED :: errno_code where "ECANCELED \<equiv> E_other 125"

subsection \<open>The reactor\<close>

definition is_kernel_io_uring_supported :: "('os, 'addr, 'm) uring_scheme \<Rightarrow> 'os \<Rightarrow> bool \<times> 'os" where
  "is_kernel_io_uring_supported px os =
     (case ur_queue_init px 2 os of
        (Inl e, os) \<Rightarrow> (False, os)
      | (Inr u, os) \<Rightarrow> (True, ur_queue_exit px os))"

text \<open>
  \<open>cached_io_uring_availability\<close>: a static that is set by the first call; \<open>cache\<close> is its value.
\<close>

definition cached_io_uring_availability ::
  "('os, 'addr, 'm) uring_scheme \<Rightarrow> bool option \<Rightarrow> 'os \<Rightarrow> bool \<times> bool option \<times> 'os" where
  "cached_io_uring_availability px cache os =
     (case cache of
        Some available \<Rightarrow> (available, cache, os)
      | None \<Rightarrow> (case is_kernel_io_uring_supported px os of (available, os) \<Rightarrow> (available, Some available, os)))"

definition ensure_non_blocking :: "('os, 'addr, 'm) uring_scheme \<Rightarrow> int \<Rightarrow> 'os \<Rightarrow> status_code \<times> 'os" where
  "ensure_non_blocking px fd os =
     (case px_getfl px fd os of
        (Inl e, os) \<Rightarrow> (SC_IoError, os)
      | (Inr flags, os) \<Rightarrow>
          if flags AND px_o_nonblock px \<noteq> 0 then (SC_Ok, os)
          else
            (case px_setfl px fd (flags OR px_o_nonblock px) os of
               (Inl e, os) \<Rightarrow> (SC_IoError, os)
             | (Inr u, os) \<Rightarrow> (SC_Ok, os)))"

definition make_timeout :: "int \<Rightarrow> int \<times> int" where
  "make_timeout timeout_ms = (timeout_ms div 1000, (timeout_ms mod 1000) * 1000000)"

subsection \<open>The engine\<close>

record uring_options =
  uo_queue_depth :: nat
  uo_setup_sqpoll :: bool
  uo_sq_thread_idle_ms :: nat
  uo_own_handle :: bool
  uo_use_send_zerocopy :: bool
  uo_send_zerocopy_threshold_bytes :: nat

definition default_uring_options :: uring_options where
  "default_uring_options =
     \<lparr>uo_queue_depth = 64, uo_setup_sqpoll = False, uo_sq_thread_idle_ms = 0, uo_own_handle = True,
      uo_use_send_zerocopy = False, uo_send_zerocopy_threshold_bytes = 16384\<rparr>"

record uring_impl =
  ui_fd :: int
  ui_open :: bool
  ui_own_handle :: bool
  ui_use_send_zerocopy :: bool
  ui_send_zerocopy_threshold_bytes :: nat
  ui_local :: string
  ui_peer :: string
  ui_next_user_data :: u64

text \<open>An engine is the pointer to its implementation, null after a move or \<open>close\<close>, beside the state of the kernel.\<close>

type_synonym 'os uring_engine = "'os \<times> uring_impl option"

definition uring_is_open :: "uring_impl option \<Rightarrow> bool" where
  "uring_is_open impl = (case impl of None \<Rightarrow> False | Some i \<Rightarrow> ui_open i \<and> ui_fd i \<ge> 0)"

definition uring_create ::
  "('os, 'addr, 'm) uring_scheme \<Rightarrow> int \<Rightarrow> string \<Rightarrow> string \<Rightarrow> uring_options \<Rightarrow> bool option \<Rightarrow> 'os \<Rightarrow>
   (status_code + uring_impl option) \<times> bool option \<times> 'os" where
  "uring_create px fd local_endpoint peer_endpoint options cache os =
     (if fd < 0 then (Inl SC_InvalidArgument, cache, os)
      else
        (case cached_io_uring_availability px cache os of (available, cache, os) \<Rightarrow>
         if \<not> available then (Inl SC_NotFound, cache, os)
         else
           (case ensure_non_blocking px fd os of (st, os) \<Rightarrow>
            if st \<noteq> SC_Ok then
              (Inl st, cache, if uo_own_handle options then snd (close_fd (posix.truncate px) fd os) else os)
            else
              let params =
                \<lparr>up_queue_depth = uo_queue_depth options, up_sqpoll = uo_setup_sqpoll options,
                 up_sq_thread_idle = (if uo_setup_sqpoll options then uo_sq_thread_idle_ms options else 0)\<rparr> in
              (case ur_queue_init_params px params os of
                 (Inl e, os) \<Rightarrow>
                   (Inl SC_IoError, cache,
                    if uo_own_handle options then snd (close_fd (posix.truncate px) fd os) else os)
               | (Inr u, os) \<Rightarrow>
                   (Inr (Some
                      \<lparr>ui_fd = fd, ui_open = True, ui_own_handle = uo_own_handle options,
                       ui_use_send_zerocopy = uo_use_send_zerocopy options,
                       ui_send_zerocopy_threshold_bytes = uo_send_zerocopy_threshold_bytes options,
                       ui_local = local_endpoint, ui_peer = peer_endpoint, ui_next_user_data = 1\<rparr>),
                    cache, os)))))"

text \<open>
  What \<open>read\<close>, \<open>write\<close> and \<open>writev\<close> do with the ring: an entry for the request, its submission, one completion, which
  is marked as seen. \<open>Inl\<close> is the status of a call that failed before there was a completion.
\<close>

definition run_request ::
  "('os, 'addr, 'm) uring_scheme \<Rightarrow> uring_op \<Rightarrow> 'os \<Rightarrow> (status_code + (errno_code + nat)) \<times> 'os" where
  "run_request px request os =
     (case ur_get_sqe px os of
        None \<Rightarrow> (Inl SC_Exhausted, os)
      | Some (sqe, os) \<Rightarrow>
          (case ur_submit px (ur_prep px sqe request os) of
             (Inl e, os) \<Rightarrow> (Inl SC_IoError, os)
           | (Inr n, os) \<Rightarrow>
               (case ur_wait_cqe px os of
                  (Inl e, os) \<Rightarrow> (Inl SC_IoError, os)
                | (Inr cqe, os) \<Rightarrow> (Inr (cqe_res cqe), ur_cqe_seen px os))))"

definition uring_read :: "('os, 'addr, 'm) uring_scheme \<Rightarrow> ('os uring_engine) transport_read" where
  "uring_read px t destination =
     (case t of (os, impl) \<Rightarrow>
      if \<not> uring_is_open impl then (empty_read\<lparr>rr_end_of_stream := True\<rparr>, destination, t)
      else
        let i = the impl in
        (case run_request px (UR_Recv (ui_fd i) (length destination)) os of
           (Inl st, os) \<Rightarrow> (empty_read\<lparr>rr_status := st\<rparr>, destination, (os, impl))
         | (Inr result, os) \<Rightarrow>
             let destination = blit 0 (ur_received px os) destination in
             (case result of
                Inr n \<Rightarrow>
                  if n > 0 then (empty_read\<lparr>rr_bytes_read := n\<rparr>, destination, (os, impl))
                  else (empty_read\<lparr>rr_end_of_stream := True\<rparr>, destination, (os, Some (i\<lparr>ui_open := False\<rparr>)))
              | Inl e \<Rightarrow>
                  if e = EAGAIN then (empty_read\<lparr>rr_would_block := True\<rparr>, destination, (os, impl))
                  else (empty_read\<lparr>rr_status := SC_IoError\<rparr>, destination, (os, impl)))))"

definition failed_write :: "status_code \<Rightarrow> write_result" where
  "failed_write st = \<lparr>wr_bytes_written = 0, wr_would_block = False, wr_status = st\<rparr>"

definition request_outcome :: "status_code + (errno_code + nat) \<Rightarrow> write_result" where
  "request_outcome r =
     (case r of
        Inl st \<Rightarrow> failed_write st
      | Inr (Inr n) \<Rightarrow> \<lparr>wr_bytes_written = n, wr_would_block = False, wr_status = SC_Ok\<rparr>
      | Inr (Inl e) \<Rightarrow>
          if e = EAGAIN then \<lparr>wr_bytes_written = 0, wr_would_block = True, wr_status = SC_Ok\<rparr>
          else failed_write SC_IoError)"

definition uring_write ::
  "('os, 'addr, 'm) uring_scheme \<Rightarrow> 'os uring_engine \<Rightarrow> bytes \<Rightarrow> write_result \<times> 'os uring_engine" where
  "uring_write px t source =
     (case t of (os, impl) \<Rightarrow>
      if \<not> uring_is_open impl then (failed_write SC_IoError, t)
      else
        let i = the impl in
        (case run_request px
             (if ui_use_send_zerocopy i \<and> length source \<ge> ui_send_zerocopy_threshold_bytes i
              then UR_SendZc (ui_fd i) source else UR_Send (ui_fd i) source) os of
           (r, os) \<Rightarrow> (request_outcome r, (os, impl))))"

definition uring_writev ::
  "('os, 'addr, 'm) uring_scheme \<Rightarrow> 'os uring_engine \<Rightarrow> bytes list \<Rightarrow> write_result \<times> 'os uring_engine" where
  "uring_writev px t sources =
     (case t of (os, impl) \<Rightarrow>
      if \<not> uring_is_open impl then (failed_write SC_IoError, t)
      else
        let iovecs = filter (\<lambda>source. source \<noteq> []) sources in
        if iovecs = [] then (\<lparr>wr_bytes_written = 0, wr_would_block = False, wr_status = SC_Ok\<rparr>, t)
        else
          (case run_request px (UR_SendMsg (ui_fd (the impl)) iovecs) os of
             (r, os) \<Rightarrow> (request_outcome r, (os, impl))))"

subsection \<open>Waiting\<close>

text \<open>
  The loop of \<open>wait_until_readable\<close> and \<open>wait_until_writable\<close> over the completions: \<open>None\<close> when it does not end. A
  completion with neither tag is an error.
\<close>

partial_function (option) uring_poll_loop ::
  "('os, 'addr, 'm) uring_scheme \<Rightarrow> u64 \<Rightarrow> u64 \<Rightarrow> bool \<Rightarrow> bool \<Rightarrow> bool \<Rightarrow> 'os \<Rightarrow> ((status_code + bool) \<times> 'os) option"
  where
  "uring_poll_loop px poll_tag timeout_tag saw_poll saw_timeout ready os =
     (if saw_poll \<and> saw_timeout then Some (Inr ready, os)
      else
        (case ur_wait_cqe px os of
           (Inl e, os) \<Rightarrow> Some (Inl SC_IoError, os)
         | (Inr cqe, os) \<Rightarrow>
             let os = ur_cqe_seen px os in
             if cqe_user_data cqe = poll_tag then
               (case cqe_res cqe of
                  Inr n \<Rightarrow> uring_poll_loop px poll_tag timeout_tag True saw_timeout True os
                | Inl e \<Rightarrow>
                    if e \<noteq> ECANCELED then Some (Inl SC_IoError, os)
                    else uring_poll_loop px poll_tag timeout_tag True saw_timeout ready os)
             else if cqe_user_data cqe = timeout_tag then
               (case cqe_res cqe of
                  Inr n \<Rightarrow> Some (Inl SC_IoError, os)
                | Inl e \<Rightarrow>
                    if e \<noteq> ECANCELED \<and> e \<noteq> ETIME \<and> e \<noteq> ENOENT then Some (Inl SC_IoError, os)
                    else uring_poll_loop px poll_tag timeout_tag saw_poll True ready os)
             else Some (Inl SC_IoError, os)))"

text \<open>
  The two functions differ in the event they poll for. The variable \<open>timeout\<close> is local to the block of the \<open>if\<close>, which
  ends before the submission.
\<close>

definition uring_wait ::
  "('os, 'addr, 'm) uring_scheme \<Rightarrow> poll_event \<Rightarrow> int \<Rightarrow> 'os uring_engine \<Rightarrow>
   ((status_code + bool) \<times> 'os uring_engine) option" where
  "uring_wait px event timeout_ms t =
     (case t of (os, impl) \<Rightarrow>
      if \<not> uring_is_open impl then Some (Inl SC_InvalidArgument, t)
      else
        let i = the impl; poll_tag = ui_next_user_data i; i = i\<lparr>ui_next_user_data := poll_tag + 1\<rparr> in
        (case ur_get_sqe px os of
           None \<Rightarrow> Some (Inl SC_Exhausted, (os, Some i))
         | Some (poll_sqe, os) \<Rightarrow>
             let os = ur_set_data64 px poll_sqe poll_tag (ur_prep px poll_sqe (UR_Poll (ui_fd i) event) os);
                 finish = (\<lambda>timeout_tag i os.
                   (case ur_submit px os of
                      (Inl e, os) \<Rightarrow> Some (Inl SC_IoError, (os, Some i))
                    | (Inr n, os) \<Rightarrow>
                        map_option (\<lambda>(r, os). (r, (os, Some i)))
                          (uring_poll_loop px poll_tag timeout_tag False (timeout_ms < 0) False os))) in
             if timeout_ms \<ge> 0 then
               let timeout_tag = ui_next_user_data i; i = i\<lparr>ui_next_user_data := timeout_tag + 1\<rparr> in
               (case ur_get_sqe px os of
                  None \<Rightarrow> Some (Inl SC_Exhausted, (os, Some i))
                | Some (timeout_sqe, os) \<Rightarrow>
                    let os = ur_store_timeout px (make_timeout timeout_ms) os;
                        os = ur_prep px timeout_sqe UR_LinkTimeout os;
                        os = ur_set_link px poll_sqe os;
                        os = ur_set_data64 px timeout_sqe timeout_tag os in
                    finish timeout_tag i (ur_end_of_block px os))
             else finish 0 i os))"

definition uring_wait_until_readable ::
  "('os, 'addr, 'm) uring_scheme \<Rightarrow> int \<Rightarrow> 'os uring_engine \<Rightarrow> ((status_code + bool) \<times> 'os uring_engine) option" where
  "uring_wait_until_readable px = uring_wait px POLLIN"

definition uring_wait_until_writable ::
  "('os, 'addr, 'm) uring_scheme \<Rightarrow> int \<Rightarrow> 'os uring_engine \<Rightarrow> ((status_code + bool) \<times> 'os uring_engine) option" where
  "uring_wait_until_writable px = uring_wait px POLLOUT"

subsection \<open>The rest of the interface\<close>

definition uring_close :: "('os, 'addr, 'm) uring_scheme \<Rightarrow> 'os uring_engine \<Rightarrow> status_code \<times> 'os uring_engine" where
  "uring_close px t =
     (case t of
        (os, None) \<Rightarrow> (SC_Ok, (os, None))
      | (os, Some owned) \<Rightarrow>
          let os = (if ui_open owned then ur_queue_exit px os else os) in
          if ui_own_handle owned then
            (case close_fd (posix.truncate px) (ui_fd owned) os of (st, os) \<Rightarrow> (st, (os, None)))
          else (SC_Ok, (os, None)))"

definition uring_native_handle :: "'os uring_engine \<Rightarrow> int" where
  "uring_native_handle t = (case snd t of None \<Rightarrow> -1 | Some i \<Rightarrow> ui_fd i)"

definition uring_capabilities :: "'os uring_engine \<Rightarrow> u32" where
  "uring_capabilities t =
     (let mask = capability_mask TC_Stream OR capability_mask TC_KernelBatching in
      case snd t of
        None \<Rightarrow> mask
      | Some i \<Rightarrow> if ui_use_send_zerocopy i then mask OR capability_mask TC_ZeroCopySend else mask)"

definition uring_local_endpoint :: "'os uring_engine \<Rightarrow> string" where
  "uring_local_endpoint t = (case snd t of None \<Rightarrow> [] | Some i \<Rightarrow> ui_local i)"

definition uring_peer_endpoint :: "'os uring_engine \<Rightarrow> string" where
  "uring_peer_endpoint t = (case snd t of None \<Rightarrow> [] | Some i \<Rightarrow> ui_peer i)"

definition uring_shutdown ::
  "('os, 'addr, 'm) uring_scheme \<Rightarrow> shutdown_how \<Rightarrow> 'os uring_engine \<Rightarrow> status_code \<times> 'os uring_engine" where
  "uring_shutdown px how t =
     (case t of (os, impl) \<Rightarrow>
      if \<not> uring_is_open impl then (SC_Ok, t)
      else
        (case ur_shutdown px (ui_fd (the impl)) how os of
           (Inl e, os) \<Rightarrow> (SC_IoError, (os, impl))
         | (Inr u, os) \<Rightarrow> (SC_Ok, (os, impl))))"

text \<open>\<open>move_from\<close>: the new pointer and what is left of the other one; assignment closes the target first.\<close>

definition uring_move_from :: "uring_impl option \<Rightarrow> uring_impl option \<times> uring_impl option" where
  "uring_move_from other = (other, None)"

definition uring_move_assign ::
  "('os, 'addr, 'm) uring_scheme \<Rightarrow> uring_impl option \<Rightarrow> uring_impl option \<Rightarrow> 'os \<Rightarrow>
   uring_impl option \<times> uring_impl option \<times> 'os" where
  "uring_move_assign px target other os =
     (case uring_close px (os, target) of (_, (os, _)) \<Rightarrow>
      (case uring_move_from other of (target, other) \<Rightarrow> (target, other, os)))"

subsection \<open>Engines and the transport over them\<close>

text \<open>\<open>IByteStreamEngine\<close>. \<open>flush\<close>, the two shutdowns and the receive buffers have defaults.\<close>

record 'e stream_engine =
  se_read :: "'e transport_read"
  se_write :: "'e \<Rightarrow> bytes \<Rightarrow> write_result \<times> 'e"
  se_writev :: "'e \<Rightarrow> bytes list \<Rightarrow> write_result \<times> 'e"
  se_close :: "'e \<Rightarrow> status_code \<times> 'e"
  se_is_open :: "'e \<Rightarrow> bool"
  se_native_handle :: "'e \<Rightarrow> int"
  se_wait_until_readable :: "int \<Rightarrow> 'e \<Rightarrow> ((status_code + bool) \<times> 'e) option"
  se_wait_until_writable :: "int \<Rightarrow> 'e \<Rightarrow> ((status_code + bool) \<times> 'e) option"
  se_capabilities :: "'e \<Rightarrow> u32"
  se_flush :: "'e \<Rightarrow> status_code \<times> 'e"
  se_shutdown_read :: "'e \<Rightarrow> status_code \<times> 'e"
  se_shutdown_write :: "'e \<Rightarrow> status_code \<times> 'e"
  se_try_acquire_receive_buffer :: "'e \<Rightarrow> (status_code + transport_lease) \<times> 'e"
  se_release_receive_buffer :: "'e \<Rightarrow> transport_lease \<Rightarrow> status_code \<times> 'e"

definition uring_stream_engine :: "('os, 'addr, 'm) uring_scheme \<Rightarrow> ('os uring_engine) stream_engine" where
  "uring_stream_engine px =
     \<lparr>se_read = uring_read px, se_write = uring_write px, se_writev = uring_writev px, se_close = uring_close px,
      se_is_open = (\<lambda>t. uring_is_open (snd t)), se_native_handle = uring_native_handle,
      se_wait_until_readable = uring_wait_until_readable px, se_wait_until_writable = uring_wait_until_writable px,
      se_capabilities = uring_capabilities, se_flush = (\<lambda>t. (SC_Ok, t)),
      se_shutdown_read = uring_shutdown px SHUT_RD, se_shutdown_write = uring_shutdown px SHUT_WR,
      se_try_acquire_receive_buffer = (\<lambda>t. (Inl SC_NotFound, t)),
      se_release_receive_buffer = (\<lambda>t lease. (SC_InvalidArgument, t))\<rparr>"

text \<open>\<open>PluggableStreamTransport\<close>: every function of the transport is the function of its engine.\<close>

definition pluggable_stream_transport :: "'e stream_engine \<Rightarrow> 'e stream_engine" where
  "pluggable_stream_transport engine =
     \<lparr>se_read = (\<lambda>t destination. se_read engine t destination), se_write = (\<lambda>t source. se_write engine t source),
      se_writev = (\<lambda>t sources. se_writev engine t sources), se_close = (\<lambda>t. se_close engine t),
      se_is_open = (\<lambda>t. se_is_open engine t), se_native_handle = (\<lambda>t. se_native_handle engine t),
      se_wait_until_readable = (\<lambda>timeout_ms t. se_wait_until_readable engine timeout_ms t),
      se_wait_until_writable = (\<lambda>timeout_ms t. se_wait_until_writable engine timeout_ms t),
      se_capabilities = (\<lambda>t. se_capabilities engine t), se_flush = (\<lambda>t. se_flush engine t),
      se_shutdown_read = (\<lambda>t. se_shutdown_read engine t), se_shutdown_write = (\<lambda>t. se_shutdown_write engine t),
      se_try_acquire_receive_buffer = (\<lambda>t. se_try_acquire_receive_buffer engine t),
      se_release_receive_buffer = (\<lambda>t lease. se_release_receive_buffer engine t lease)\<rparr>"

end
