(* ===== verification/Uring_Properties.thy ===== *)
theory Uring_Properties
  imports Uring_Engine Transport_Properties
begin

text \<open>
  What a ring promises of the requests submitted to it (\<open>ring_serves\<close>), the refinement of the TCP transport by
  the io_uring engine under it, and a ring over any kernel that keeps the promise. A request of the engine is in
  flight alone, so its completion is the next one; a zero-copy send has two completions, and the engine
  takes one. The timeout of a wait is read by the ring from storage whose lifetime has ended, so the promise, and
  the refinement, are relative to what is read there.
\<close>

subsection \<open>What a ring promises\<close>

text \<open>The next request is completed, with a result and a state of the ring that satisfy \<open>Q\<close>.\<close>

definition serves_request ::
  "('r, 'b, 'm) uring_scheme \<Rightarrow> uring_op \<Rightarrow> 'r \<Rightarrow> (errno_code + nat \<Rightarrow> 'r \<Rightarrow> bool) \<Rightarrow> bool" where
  "serves_request px request r Q \<longleftrightarrow>
     (\<exists>sqe r1 n r2 cqe r3. ur_get_sqe px r = Some (sqe, r1) \<and> ur_submit px (ur_prep px sqe request r1) = (Inr n, r2) \<and>
        ur_wait_cqe px r2 = (Inr cqe, r3) \<and> Q (cqe_res cqe) (ur_cqe_seen px r3))"

lemma run_request_served:
  assumes "serves_request px request r Q"
  obtains result r' where "run_request px request r = (Inr result, r')" and "Q result r'"
  using assms unfolding serves_request_def run_request_def by force

text \<open>The results of a poll and of the timeout linked to it.\<close>

definition poll_answer :: "bool \<Rightarrow> errno_code + nat \<Rightarrow> bool" where
  "poll_answer ready x \<longleftrightarrow> (if ready then \<exists>n. x = Inr n else x = Inl ECANCELED)"

definition timeout_result :: "bool \<Rightarrow> errno_code + nat \<Rightarrow> bool" where
  "timeout_result ready y \<longleftrightarrow> (if ready then y = Inl ECANCELED \<or> y = Inl ENOENT else y = Inl ETIME)"

definition serves_poll ::
  "('r, 'b, 'm) uring_scheme \<Rightarrow> int \<Rightarrow> poll_event \<Rightarrow> u64 \<Rightarrow> bool \<Rightarrow> 'r \<Rightarrow> ('r \<Rightarrow> bool) \<Rightarrow> bool" where
  "serves_poll px fd event tag ready r Q \<longleftrightarrow>
     (\<exists>sqe r1 n r2 cqe r3. ur_get_sqe px r = Some (sqe, r1) \<and>
        ur_submit px (ur_set_data64 px sqe tag (ur_prep px sqe (UR_Poll fd event) r1)) = (Inr n, r2) \<and>
        ur_wait_cqe px r2 = (Inr cqe, r3) \<and> cqe_user_data cqe = tag \<and> poll_answer ready (cqe_res cqe) \<and>
        Q (ur_cqe_seen px r3))"

text \<open>A poll with a linked timeout has two completions, in either order.\<close>

definition serves_timed_poll ::
  "('r, 'b, 'm) uring_scheme \<Rightarrow> int \<Rightarrow> poll_event \<Rightarrow> int \<Rightarrow> u64 \<Rightarrow> bool \<Rightarrow> 'r \<Rightarrow> ('r \<Rightarrow> bool) \<Rightarrow> bool" where
  "serves_timed_poll px fd event timeout_ms tag ready r Q \<longleftrightarrow>
     (\<exists>sqe r1 sqe' r2 n r3 c1 r4 c2 r5 x y. ur_get_sqe px r = Some (sqe, r1) \<and>
        ur_get_sqe px (ur_set_data64 px sqe tag (ur_prep px sqe (UR_Poll fd event) r1)) = Some (sqe', r2) \<and>
        ur_submit px (ur_end_of_block px (ur_set_data64 px sqe' (tag + 1) (ur_set_link px sqe
          (ur_prep px sqe' UR_LinkTimeout (ur_store_timeout px (make_timeout timeout_ms) r2))))) = (Inr n, r3) \<and>
        ur_wait_cqe px r3 = (Inr c1, r4) \<and> ur_wait_cqe px (ur_cqe_seen px r4) = (Inr c2, r5) \<and>
        poll_answer ready x \<and> timeout_result ready y \<and>
        ((cqe_user_data c1 = tag \<and> cqe_res c1 = x \<and> cqe_user_data c2 = tag + 1 \<and> cqe_res c2 = y) \<or>
         (cqe_user_data c1 = tag + 1 \<and> cqe_res c1 = y \<and> cqe_user_data c2 = tag \<and> cqe_res c2 = x)) \<and>
        Q (ur_cqe_seen px r5))"

text \<open>
  \<open>idle r os\<close>: the ring has no entry and no completion left, and what is behind it is the kernel \<open>os\<close>. Then a
  transfer has the result of the system call and leaves the ring idle, and a poll finds what \<open>poll\<close> finds. The relation
  \<open>seen ms ms'\<close> says which timeouts the ring may find in the storage that \<open>make_timeout ms\<close> was written to, after the
  end of the block: it is \<open>(=)\<close> when the storage happens to be intact.
\<close>

definition ring_serves ::
  "('r, 'b, 'm) uring_scheme \<Rightarrow> ('os, 'addr) posix \<Rightarrow> ('r \<Rightarrow> 'os \<Rightarrow> bool) \<Rightarrow> (int \<Rightarrow> int \<Rightarrow> bool) \<Rightarrow> bool" where
  "ring_serves px kx idle seen \<longleftrightarrow>
     (\<forall>r os. idle r os \<longrightarrow>
       (\<forall>fd n. serves_request px (UR_Recv fd n) r (\<lambda>result r'.
          idle r' (snd (retried kx (px_recv kx fd n) os)) \<and>
          (case fst (retried kx (px_recv kx fd n) os) of
             Inl e \<Rightarrow> result = Inl e \<and> ur_received px r' = []
           | Inr bs \<Rightarrow> result = Inr (length bs) \<and> ur_received px r' = bs))) \<and>
       (\<forall>fd bs. serves_request px (UR_Send fd bs) r (\<lambda>result r'.
          result = fst (retried kx (px_send kx fd bs) os) \<and> idle r' (snd (retried kx (px_send kx fd bs) os)))) \<and>
       (\<forall>fd spans. serves_request px (UR_SendMsg fd spans) r (\<lambda>result r'.
          result = fst (retried kx (px_sendmsg kx fd spans) os) \<and> idle r' (snd (retried kx (px_sendmsg kx fd spans) os)))) \<and>
       (\<forall>fd event timeout_ms tag n os'. timeout_ms < 0 \<longrightarrow> retried kx (px_poll kx fd event timeout_ms) os = (Inr n, os') \<longrightarrow>
          serves_poll px fd event tag (n \<noteq> 0) r (\<lambda>r'. idle r' os')) \<and>
       (\<forall>fd event timeout_ms tag. 0 \<le> timeout_ms \<longrightarrow>
          (\<exists>ms'. seen timeout_ms ms' \<and> (\<forall>n os'. retried kx (px_poll kx fd event ms') os = (Inr n, os') \<longrightarrow>
             serves_timed_poll px fd event timeout_ms tag (n \<noteq> 0) r (\<lambda>r'. idle r' os')))))"

lemma serves_recv:
  "ring_serves px kx idle seen \<Longrightarrow> idle r os \<Longrightarrow> serves_request px (UR_Recv fd n) r (\<lambda>result r'.
     idle r' (snd (retried kx (px_recv kx fd n) os)) \<and>
     (case fst (retried kx (px_recv kx fd n) os) of
        Inl e \<Rightarrow> result = Inl e \<and> ur_received px r' = []
      | Inr bs \<Rightarrow> result = Inr (length bs) \<and> ur_received px r' = bs))"
  unfolding ring_serves_def by blast

lemma serves_send:
  "ring_serves px kx idle seen \<Longrightarrow> idle r os \<Longrightarrow> serves_request px (UR_Send fd bs) r (\<lambda>result r'.
     result = fst (retried kx (px_send kx fd bs) os) \<and> idle r' (snd (retried kx (px_send kx fd bs) os)))"
  unfolding ring_serves_def by blast

lemma serves_sendmsg:
  "ring_serves px kx idle seen \<Longrightarrow> idle r os \<Longrightarrow> serves_request px (UR_SendMsg fd spans) r (\<lambda>result r'.
     result = fst (retried kx (px_sendmsg kx fd spans) os) \<and> idle r' (snd (retried kx (px_sendmsg kx fd spans) os)))"
  unfolding ring_serves_def by blast

lemma serves_endless_poll:
  "ring_serves px kx idle seen \<Longrightarrow> idle r os \<Longrightarrow> ms < 0 \<Longrightarrow> retried kx (px_poll kx fd event ms) os = (Inr n, os') \<Longrightarrow>
   serves_poll px fd event tag (n \<noteq> 0) r (\<lambda>r'. idle r' os')"
  unfolding ring_serves_def by blast

lemma serves_poll_in_time:
  "ring_serves px kx idle seen \<Longrightarrow> idle r os \<Longrightarrow> 0 \<le> ms \<Longrightarrow>
   \<exists>ms'. seen ms ms' \<and> (\<forall>n os'. retried kx (px_poll kx fd event ms') os = (Inr n, os') \<longrightarrow>
     serves_timed_poll px fd event ms tag (n \<noteq> 0) r (\<lambda>r'. idle r' os'))"
  unfolding ring_serves_def by blast

subsection \<open>The engine as a TCP transport\<close>

datatype stream_call =
    Call_Read bytes
  | Call_Write bytes
  | Call_Writev "bytes list"
  | Call_Wait poll_event int

datatype stream_answer =
    Ans_Read read_result bytes
  | Ans_Write write_result
  | Ans_Wait "status_code + bool"

fun uring_call ::
  "('r, 'b, 'm) uring_scheme \<Rightarrow> stream_call \<Rightarrow> 'r uring_engine \<Rightarrow> (stream_answer \<times> 'r uring_engine) option" where
  "uring_call px (Call_Read destination) t = (case uring_read px t destination of (r, d, t) \<Rightarrow> Some (Ans_Read r d, t))"
| "uring_call px (Call_Write source) t = (case uring_write px t source of (r, t) \<Rightarrow> Some (Ans_Write r, t))"
| "uring_call px (Call_Writev sources) t = (case uring_writev px t sources of (r, t) \<Rightarrow> Some (Ans_Write r, t))"
| "uring_call px (Call_Wait event timeout_ms) t =
     map_option (\<lambda>(r, t). (Ans_Wait r, t)) (uring_wait px event timeout_ms t)"

fun uring_calls ::
  "('r, 'b, 'm) uring_scheme \<Rightarrow> stream_call list \<Rightarrow> 'r uring_engine \<Rightarrow> (stream_answer list \<times> 'r uring_engine) option" where
  "uring_calls px [] t = Some ([], t)"
| "uring_calls px (c # cs) t =
     Option.bind (uring_call px c t) (\<lambda>(a, t). map_option (\<lambda>(as, t). (a # as, t)) (uring_calls px cs t))"

text \<open>The same calls of a TCP transport.\<close>

fun socket_call ::
  "('os, 'addr) posix \<Rightarrow> stream_call \<Rightarrow> 'os \<times> fd_handle \<Rightarrow> stream_answer \<times> 'os \<times> fd_handle" where
  "socket_call kx (Call_Read destination) t = (case tcp_read kx t destination of (r, d, t) \<Rightarrow> (Ans_Read r d, t))"
| "socket_call kx (Call_Write source) t = (case tcp_write kx t source of (r, t) \<Rightarrow> (Ans_Write r, t))"
| "socket_call kx (Call_Writev sources) t = (case tcp_writev kx t sources of (r, t) \<Rightarrow> (Ans_Write r, t))"
| "socket_call kx (Call_Wait event timeout_ms) t =
     (case (if event = POLLIN then tcp_wait_until_readable kx timeout_ms t
            else tcp_wait_until_writable kx timeout_ms t) of (r, t) \<Rightarrow> (Ans_Wait r, t))"

fun socket_calls ::
  "('os, 'addr) posix \<Rightarrow> stream_call list \<Rightarrow> 'os \<times> fd_handle \<Rightarrow> stream_answer list \<times> 'os \<times> fd_handle" where
  "socket_calls kx [] t = ([], t)"
| "socket_calls kx (c # cs) t =
     (case socket_call kx c t of (a, t) \<Rightarrow> (case socket_calls kx cs t of (as, t) \<Rightarrow> (a # as, t)))"

text \<open>
  Where the two differ. After the end of the stream the engine refuses to wait, while the TCP transport, which checks
  only its descriptor, still polls (\<open>wait_after_end\<close>): \<open>waits_open\<close> says of the calls on a TCP transport that none waits between the
  end of the stream and \<open>close\<close>. And the engine waits for the timeout that the ring reads: \<open>retimed\<close> relates a
  call to the one with that timeout.
\<close>

fun waits_open :: "('os, 'addr) posix \<Rightarrow> stream_call list \<Rightarrow> 'os \<times> fd_handle \<Rightarrow> bool" where
  "waits_open kx [] t \<longleftrightarrow> True"
| "waits_open kx (c # cs) t \<longleftrightarrow>
     (case c of Call_Wait event timeout_ms \<Rightarrow> handle_is_open (snd t) \<or> fh_fd (snd t) < 0 | _ \<Rightarrow> True) \<and>
     waits_open kx cs (snd (socket_call kx c t))"

fun retimed :: "(int \<Rightarrow> int \<Rightarrow> bool) \<Rightarrow> stream_call \<Rightarrow> stream_call \<Rightarrow> bool" where
  "retimed seen (Call_Wait event ms) c' \<longleftrightarrow>
     (case c' of
        Call_Wait event' ms' \<Rightarrow> event' = event \<and> (if ms < 0 then ms' = ms else seen ms ms')
      | _ \<Rightarrow> False)"
| "retimed seen c c' \<longleftrightarrow> c' = c"

lemma retimed_intact: "retimed (=) c c' \<longleftrightarrow> c' = c"
  by (cases c) (auto split: stream_call.splits)

lemma retimed_intact_calls: "list_all2 (retimed (=)) cs cs' \<longleftrightarrow> cs' = cs"
  by (simp add: retimed_intact list_all2_conv_all_nth list_eq_iff_nth_eq) auto

definition engine_matches :: "('r \<Rightarrow> 'os \<Rightarrow> bool) \<Rightarrow> 'r uring_engine \<Rightarrow> 'os \<times> fd_handle \<Rightarrow> bool" where
  "engine_matches idle t u \<longleftrightarrow>
     idle (fst t) (fst u) \<and>
     (\<exists>i. snd t = Some i \<and> ui_fd i = fh_fd (snd u) \<and> ui_open i = fh_open (snd u) \<and> \<not> ui_use_send_zerocopy i)"

lemma request_outcome_result: "request_outcome (Inr r) = write_outcome r"
  by (cases r) (simp_all add: request_outcome_def write_outcome_def failed_write_def)

lemma failed_closed: "failed_write SC_IoError = closed_write"
  by (simp add: failed_write_def closed_write_def)

lemma open_matches:
  "engine_matches idle (r, impl) (os, h) \<Longrightarrow> uring_is_open impl = handle_is_open h"
  by (auto simp: engine_matches_def uring_is_open_def handle_is_open_def)

lemma blit_nothing: "blit 0 [] d = d"
  by (simp add: blit_def)

lemma read_matches:
  assumes ring: "ring_serves px kx idle seen" and m: "engine_matches idle (r, impl) (os, h)"
    and tcp: "tcp_read kx (os, h) d = (res, d', u')"
  shows "\<exists>t'. uring_read px (r, impl) d = (res, d', t') \<and> engine_matches idle t' u'"
proof (cases "handle_is_open h")
  case False
  then show ?thesis using tcp m open_matches [OF m] by (auto simp: uring_read_def tcp_read_def)
next
  case True
  obtain i where i: "impl = Some i" "ui_fd i = fh_fd h" "ui_open i = fh_open h" "\<not> ui_use_send_zerocopy i"
    using m by (auto simp: engine_matches_def)
  have idle: "idle r os" using m by (simp add: engine_matches_def)
  obtain result r' where run: "run_request px (UR_Recv (fh_fd h) (length d)) r = (Inr result, r')"
    and res: "idle r' (snd (retried kx (px_recv kx (fh_fd h) (length d)) os))"
      "case fst (retried kx (px_recv kx (fh_fd h) (length d)) os) of
         Inl e \<Rightarrow> result = Inl e \<and> ur_received px r' = []
       | Inr bs \<Rightarrow> result = Inr (length bs) \<and> ur_received px r' = bs"
    by (rule run_request_served [OF serves_recv [OF ring idle]]) blast
  obtain x os' where call: "retried kx (px_recv kx (fh_fd h) (length d)) os = (x, os')"
    by (cases "retried kx (px_recv kx (fh_fd h) (length d)) os")
  have op: "uring_is_open impl" using True open_matches [OF m] by simp
  show ?thesis
  proof (cases x)
    case (Inl e)
    with res call have "result = Inl e" "ur_received px r' = []" "idle r' os'" by auto
    then show ?thesis using tcp True op run call i Inl
      by (auto simp: uring_read_def tcp_read_def recv_from_socket_def read_outcome_def blit_nothing engine_matches_def
          split: if_splits)
  next
    case (Inr bs)
    with res call have "result = Inr (length bs)" "ur_received px r' = bs" "idle r' os'" by auto
    then show ?thesis using tcp True op run call i Inr
      by (auto simp: uring_read_def tcp_read_def recv_from_socket_def read_outcome_def blit_nothing engine_matches_def
          split: if_splits)
  qed
qed

lemma write_matches:
  assumes ring: "ring_serves px kx idle seen" and m: "engine_matches idle (r, impl) (os, h)"
    and tcp: "tcp_write kx (os, h) bs = (res, u')"
  shows "\<exists>t'. uring_write px (r, impl) bs = (res, t') \<and> engine_matches idle t' u'"
proof (cases "handle_is_open h")
  case False
  then show ?thesis using tcp m open_matches [OF m] by (auto simp: uring_write_def tcp_write_def failed_closed)
next
  case True
  obtain i where i: "impl = Some i" "ui_fd i = fh_fd h" "ui_open i = fh_open h" "\<not> ui_use_send_zerocopy i"
    using m by (auto simp: engine_matches_def)
  have idle: "idle r os" using m by (simp add: engine_matches_def)
  obtain result r' where run: "run_request px (UR_Send (fh_fd h) bs) r = (Inr result, r')"
    and res: "result = fst (retried kx (px_send kx (fh_fd h) bs) os)"
      "idle r' (snd (retried kx (px_send kx (fh_fd h) bs) os))"
    by (rule run_request_served [OF serves_send [OF ring idle]]) blast
  have op: "uring_is_open impl" using True open_matches [OF m] by simp
  show ?thesis using tcp True op run res i
    by (auto simp: uring_write_def tcp_write_def send_to_socket_def request_outcome_result engine_matches_def
        split: prod.splits)
qed

lemma writev_matches:
  assumes ring: "ring_serves px kx idle seen" and m: "engine_matches idle (r, impl) (os, h)"
    and tcp: "tcp_writev kx (os, h) spans = (res, u')"
  shows "\<exists>t'. uring_writev px (r, impl) spans = (res, t') \<and> engine_matches idle t' u'"
proof (cases "handle_is_open h \<and> filter (\<lambda>xs. xs \<noteq> []) spans \<noteq> []")
  case False
  then show ?thesis using tcp m open_matches [OF m]
    by (auto simp: uring_writev_def tcp_writev_def writev_to_fd_def failed_closed Let_def split: if_splits)
next
  case True
  let ?iovecs = "filter (\<lambda>xs. xs \<noteq> []) spans"
  obtain i where i: "impl = Some i" "ui_fd i = fh_fd h" "ui_open i = fh_open h" "\<not> ui_use_send_zerocopy i"
    using m by (auto simp: engine_matches_def)
  have idle: "idle r os" using m by (simp add: engine_matches_def)
  obtain result r' where run: "run_request px (UR_SendMsg (fh_fd h) ?iovecs) r = (Inr result, r')"
    and res: "result = fst (retried kx (px_sendmsg kx (fh_fd h) ?iovecs) os)"
      "idle r' (snd (retried kx (px_sendmsg kx (fh_fd h) ?iovecs) os))"
    by (rule run_request_served [OF serves_sendmsg [OF ring idle]]) blast
  have op: "uring_is_open impl" using True open_matches [OF m] by simp
  show ?thesis using tcp True op run res i
    by (auto simp: uring_writev_def tcp_writev_def writev_to_fd_def request_outcome_result engine_matches_def Let_def
        split: prod.splits)
qed

lemma uring_poll_loop_done: "uring_poll_loop px p q True True ready os = Some (Inr ready, os)"
  by (simp add: uring_poll_loop.simps [of px p q True True])

lemma uring_poll_loop_next:
  "ur_wait_cqe px os = (Inr cqe, os') \<Longrightarrow> \<not> (sp \<and> st) \<Longrightarrow>
   uring_poll_loop px p q sp st ready os =
     (if cqe_user_data cqe = p then
        (case cqe_res cqe of
           Inr n \<Rightarrow> uring_poll_loop px p q True st True (ur_cqe_seen px os')
         | Inl e \<Rightarrow> if e \<noteq> ECANCELED then Some (Inl SC_IoError, ur_cqe_seen px os')
                    else uring_poll_loop px p q True st ready (ur_cqe_seen px os'))
      else if cqe_user_data cqe = q then
        (case cqe_res cqe of
           Inr n \<Rightarrow> Some (Inl SC_IoError, ur_cqe_seen px os')
         | Inl e \<Rightarrow> if e \<noteq> ECANCELED \<and> e \<noteq> ETIME \<and> e \<noteq> ENOENT then Some (Inl SC_IoError, ur_cqe_seen px os')
                    else uring_poll_loop px p q sp True ready (ur_cqe_seen px os'))
      else Some (Inl SC_IoError, ur_cqe_seen px os'))"
  by (subst uring_poll_loop.simps) (auto simp: Let_def)

lemma next_tag: "(t :: u64) + 1 \<noteq> t" "t \<noteq> t + 1"
  by simp_all

definition polls_succeed :: "('os, 'addr) posix \<Rightarrow> bool" where
  "polls_succeed kx \<longleftrightarrow> (\<forall>fd event ms os. \<exists>n os'. retried kx (px_poll kx fd event ms) os = (Inr n, os'))"

lemma wait_matches:
  assumes ring: "ring_serves px kx idle seen" and m: "engine_matches idle (r, impl) (os, h)" and op: "handle_is_open h"
    and polls: "polls_succeed kx"
  shows "\<exists>ms' n os' t'. (if ms < 0 then ms' = ms else seen ms ms') \<and>
    retried kx (px_poll kx (fh_fd h) event ms') os = (Inr n, os') \<and>
    uring_wait px event ms (r, impl) = Some (Inr (n \<noteq> 0), t') \<and> engine_matches idle t' (os', h)"
proof -
  obtain i where i: "impl = Some i" "ui_fd i = fh_fd h" "ui_open i = fh_open h" "\<not> ui_use_send_zerocopy i"
    using m by (auto simp: engine_matches_def)
  have idle: "idle r os" using m by (simp add: engine_matches_def)
  have uop: "uring_is_open (Some i)" using op open_matches [OF m] i by simp
  let ?tag = "ui_next_user_data i"
  show ?thesis
  proof (cases "ms < 0")
    case True
    obtain n os' where poll: "retried kx (px_poll kx (fh_fd h) event ms) os = (Inr n, os')"
      using polls unfolding polls_succeed_def by blast
    have "serves_poll px (fh_fd h) event ?tag (n \<noteq> 0) r (\<lambda>r'. idle r' os')"
      using serves_endless_poll [OF ring idle True poll] .
    then obtain sqe r1 k r2 cqe r3 where s: "ur_get_sqe px r = Some (sqe, r1)"
      "ur_submit px (ur_set_data64 px sqe ?tag (ur_prep px sqe (UR_Poll (fh_fd h) event) r1)) = (Inr k, r2)"
      "ur_wait_cqe px r2 = (Inr cqe, r3)" "cqe_user_data cqe = ?tag" "poll_answer (n \<noteq> 0) (cqe_res cqe)"
      "idle (ur_cqe_seen px r3) os'"
      unfolding serves_poll_def by blast
    have "uring_poll_loop px ?tag 0 False True False r2 = Some (Inr (n \<noteq> 0), ur_cqe_seen px r3)"
      using s(4,5) unfolding uring_poll_loop_next [OF s(3), of False True, simplified]
      by (auto simp: poll_answer_def uring_poll_loop_done split: if_splits)
    then show ?thesis using True s uop i poll
      by (simp add: uring_wait_def Let_def engine_matches_def)
  next
    case False
    then obtain ms' where ms': "seen ms ms'" "\<And>n os'. retried kx (px_poll kx (fh_fd h) event ms') os = (Inr n, os') \<Longrightarrow>
        serves_timed_poll px (fh_fd h) event ms ?tag (n \<noteq> 0) r (\<lambda>r'. idle r' os')"
      using serves_poll_in_time [OF ring idle, of ms] by (metis not_less)
    obtain n os' where poll: "retried kx (px_poll kx (fh_fd h) event ms') os = (Inr n, os')"
      using polls unfolding polls_succeed_def by blast
    from ms'(2) [OF poll] obtain sqe r1 sqe' r2 k r3 c1 r4 c2 r5 x y where s: "ur_get_sqe px r = Some (sqe, r1)"
      "ur_get_sqe px (ur_set_data64 px sqe ?tag (ur_prep px sqe (UR_Poll (fh_fd h) event) r1)) = Some (sqe', r2)"
      "ur_submit px (ur_end_of_block px (ur_set_data64 px sqe' (?tag + 1) (ur_set_link px sqe
          (ur_prep px sqe' UR_LinkTimeout (ur_store_timeout px (make_timeout ms) r2))))) = (Inr k, r3)"
      "ur_wait_cqe px r3 = (Inr c1, r4)" "ur_wait_cqe px (ur_cqe_seen px r4) = (Inr c2, r5)"
      "poll_answer (n \<noteq> 0) x" "timeout_result (n \<noteq> 0) y"
      "(cqe_user_data c1 = ?tag \<and> cqe_res c1 = x \<and> cqe_user_data c2 = ?tag + 1 \<and> cqe_res c2 = y) \<or>
         (cqe_user_data c1 = ?tag + 1 \<and> cqe_res c1 = y \<and> cqe_user_data c2 = ?tag \<and> cqe_res c2 = x)"
      "idle (ur_cqe_seen px r5) os'"
      unfolding serves_timed_poll_def by blast
    have "uring_poll_loop px ?tag (?tag + 1) False False False r3 = Some (Inr (n \<noteq> 0), ur_cqe_seen px r5)"
      using s(6-8) unfolding uring_poll_loop_next [OF s(4), of False False, simplified]
      by (auto simp: poll_answer_def timeout_result_def uring_poll_loop_done uring_poll_loop_next [OF s(5)] next_tag
          split: if_splits)
    then have "\<exists>t'. uring_wait px event ms (r, impl) = Some (Inr (n \<noteq> 0), t') \<and> engine_matches idle t' (os', h)"
      using False s uop i by (simp add: uring_wait_def Let_def engine_matches_def)
    then show ?thesis using False ms'(1) poll by auto
  qed
qed

lemma call_matches:
  assumes ring: "ring_serves px kx idle seen" and polls: "polls_succeed kx" and m: "engine_matches idle t u"
    and waits: "\<And>c'. retimed seen c c' \<Longrightarrow> waits_open kx [c'] u"
  shows "\<exists>c' t'. retimed seen c c' \<and> uring_call px c t = Some (fst (socket_call kx c' u), t') \<and>
    engine_matches idle t' (snd (socket_call kx c' u))"
proof -
  obtain r impl os h where tu: "t = (r, impl)" "u = (os, h)" by (cases t, cases u)
  note m' = m [unfolded tu]
  show ?thesis
  proof (cases c)
    case (Call_Read d)
    obtain res d' w where tcp: "tcp_read kx (os, h) d = (res, d', w)" by (cases "tcp_read kx (os, h) d")
    then show ?thesis using Call_Read read_matches [OF ring m' tcp] by (auto simp: tu)
  next
    case (Call_Write bs)
    obtain res w where tcp: "tcp_write kx (os, h) bs = (res, w)" by (cases "tcp_write kx (os, h) bs")
    then show ?thesis using Call_Write write_matches [OF ring m' tcp] by (auto simp: tu)
  next
    case (Call_Writev spans)
    obtain res w where tcp: "tcp_writev kx (os, h) spans = (res, w)" by (cases "tcp_writev kx (os, h) spans")
    then show ?thesis using Call_Writev writev_matches [OF ring m' tcp] by (auto simp: tu)
  next
    case (Call_Wait event ms)
    show ?thesis
    proof (cases "handle_is_open h")
      case False
      obtain ms' where ms': "if ms < 0 then ms' = ms else seen ms ms'"
        using serves_poll_in_time [OF ring, of r os ms] m' by (metis engine_matches_def fst_conv not_less)
      then have re: "retimed seen c (Call_Wait event ms')" by (simp add: Call_Wait)
      then have fd: "fh_fd h < 0" using waits [OF re] False by (simp add: tu)
      have "socket_call kx (Call_Wait event ms') u = (Ans_Wait (Inl SC_InvalidArgument), u)"
        using fd by (cases event) (simp_all add: tu tcp_wait_until_readable_def tcp_wait_until_writable_def wait_for_fd_def)
      then show ?thesis using re False Call_Wait open_matches [OF m'] m
        by (intro exI [of _ "Call_Wait event ms'"]) (simp add: tu uring_wait_def)
    next
      case True
      then have fd: "\<not> fh_fd h < 0" by (simp add: handle_is_open_def)
      obtain ms' n os' t' where w: "if ms < 0 then ms' = ms else seen ms ms'"
        "retried kx (px_poll kx (fh_fd h) event ms') os = (Inr n, os')"
        "uring_wait px event ms (r, impl) = Some (Inr (n \<noteq> 0), t')" "engine_matches idle t' (os', h)"
        using wait_matches [OF ring m' True polls] by blast
      have "socket_call kx (Call_Wait event ms') u = (Ans_Wait (Inr (n \<noteq> 0)), (os', h))"
        using fd w(2)
        by (cases event) (simp_all add: tu tcp_wait_until_readable_def tcp_wait_until_writable_def wait_for_fd_def)
      then show ?thesis using w Call_Wait by (intro exI [of _ "Call_Wait event ms'"]) (simp add: tu)
    qed
  qed
qed

text \<open>Why the calls of the theorem do not wait after the end of the stream.\<close>

lemma wait_after_end:
  assumes "\<not> ui_open i" and "0 \<le> fh_fd h" and "retried kx (px_poll kx (fh_fd h) POLLIN ms) os = (Inr n, os')"
  shows "uring_wait_until_readable px ms (r, Some i) = Some (Inl SC_InvalidArgument, (r, Some i))"
    and "tcp_wait_until_readable kx ms (os, h) = (Inr (n \<noteq> 0), (os', h))"
  using assms
  by (simp_all add: uring_wait_until_readable_def uring_wait_def uring_is_open_def tcp_wait_until_readable_def
      wait_for_fd_def)

subsection \<open>A ring over a kernel\<close>

text \<open>
  The promise can be kept: a ring over any kernel that makes the system calls when the requests are submitted. As
  io_uring documents it, a zero-copy send has a second completion, the notification that its buffer is free, with
  the result 0. The function \<open>scope\<close> gives what the storage of the timeout holds after its block has ended; \<open>ring_over\<close>
  is the ring that finds it intact.
\<close>

record ring_entry =
  re_op :: uring_op
  re_user_data :: u64
  re_link :: bool

record 'os ring_state =
  rg_os :: 'os
  rg_sq :: "ring_entry list"
  rg_cq :: "uring_cqe list"
  rg_received :: bytes
  rg_timeout :: "int \<times> int"

definition behind :: "('os \<Rightarrow> 'a \<times> 'os) \<Rightarrow> 'os ring_state \<Rightarrow> 'a \<times> 'os ring_state" where
  "behind call r = (case call (rg_os r) of (x, os) \<Rightarrow> (x, r\<lparr>rg_os := os\<rparr>))"

definition complete :: "ring_entry \<Rightarrow> errno_code + nat \<Rightarrow> 'os ring_state \<Rightarrow> 'os ring_state" where
  "complete entry result r = r\<lparr>rg_cq := rg_cq r @ [\<lparr>cqe_user_data = re_user_data entry, cqe_res = result\<rparr>]\<rparr>"

definition poll_ms :: "int \<times> int \<Rightarrow> int" where
  "poll_ms timeout = fst timeout * 1000 + snd timeout div 1000000"

definition execute_poll :: "('os, 'addr) posix \<Rightarrow> ring_entry \<Rightarrow> int \<Rightarrow> poll_event \<Rightarrow> int \<Rightarrow> 'os ring_state \<Rightarrow> bool \<times> 'os ring_state"
  where
  "execute_poll kx entry fd event ms r =
     (case behind (retried kx (px_poll kx fd event ms)) r of
        (Inl e, r) \<Rightarrow> (True, complete entry (Inl e) r)
      | (Inr n, r) \<Rightarrow> (n \<noteq> 0, complete entry (if n \<noteq> 0 then Inr n else Inl ECANCELED) r))"

fun execute :: "('os, 'addr) posix \<Rightarrow> ring_entry list \<Rightarrow> 'os ring_state \<Rightarrow> 'os ring_state" where
  "execute kx [] r = r"
| "execute kx (entry # entries) r =
     (case re_op entry of
        UR_Recv fd n \<Rightarrow>
          (case behind (retried kx (px_recv kx fd n)) r of
             (Inl e, r) \<Rightarrow> execute kx entries (complete entry (Inl e) r)
           | (Inr bs, r) \<Rightarrow> execute kx entries (complete entry (Inr (length bs)) (r\<lparr>rg_received := bs\<rparr>)))
      | UR_Send fd bs \<Rightarrow>
          (case behind (retried kx (px_send kx fd bs)) r of (x, r) \<Rightarrow> execute kx entries (complete entry x r))
      | UR_SendZc fd bs \<Rightarrow>
          (case behind (retried kx (px_send kx fd bs)) r of
             (x, r) \<Rightarrow> execute kx entries (complete entry (Inr 0) (complete entry x r)))
      | UR_SendMsg fd spans \<Rightarrow>
          (case behind (retried kx (px_sendmsg kx fd spans)) r of (x, r) \<Rightarrow> execute kx entries (complete entry x r))
      | UR_Poll fd event \<Rightarrow>
          (case entries of
             timeout_entry # rest \<Rightarrow>
               (case re_op timeout_entry of
                  UR_LinkTimeout \<Rightarrow>
                    (case execute_poll kx entry fd event (poll_ms (rg_timeout r)) r of
                       (ready, r) \<Rightarrow>
                         execute kx rest (complete timeout_entry (Inl (if ready then ECANCELED else ETIME)) r))
                | _ \<Rightarrow> execute kx entries (snd (execute_poll kx entry fd event (-1) r)))
           | [] \<Rightarrow> snd (execute_poll kx entry fd event (-1) r))
      | UR_LinkTimeout \<Rightarrow> execute kx entries (complete entry (Inl ENOENT) r))"

definition ring_over_scope ::
  "(int \<times> int \<Rightarrow> int \<times> int) \<Rightarrow> nat \<Rightarrow> ('os, 'addr) posix \<Rightarrow> ('os ring_state, 'addr) uring" where
  "ring_over_scope scope depth kx =
     \<lparr>px_signals = (\<lambda>r. px_signals kx (rg_os r)), px_o_nonblock = px_o_nonblock kx,
      px_read = (\<lambda>fd n. behind (px_read kx fd n)), px_recv = (\<lambda>fd n. behind (px_recv kx fd n)),
      px_write = (\<lambda>fd bs. behind (px_write kx fd bs)), px_send = (\<lambda>fd bs. behind (px_send kx fd bs)),
      px_writev = (\<lambda>fd spans. behind (px_writev kx fd spans)), px_sendmsg = (\<lambda>fd spans. behind (px_sendmsg kx fd spans)),
      px_poll = (\<lambda>fd ev ms. behind (px_poll kx fd ev ms)), px_close = (\<lambda>fd. behind (px_close kx fd)),
      px_getfl = (\<lambda>fd. behind (px_getfl kx fd)), px_setfl = (\<lambda>fd flags. behind (px_setfl kx fd flags)),
      px_setsockopt = (\<lambda>fd opt v. behind (px_setsockopt kx fd opt v)), px_so_error = (\<lambda>fd. behind (px_so_error kx fd)),
      px_getaddrinfo = (\<lambda>host port. behind (px_getaddrinfo kx host port)), px_socket = (\<lambda>a. behind (px_socket kx a)),
      px_connect = (\<lambda>fd a. behind (px_connect kx fd a)), px_accept = (\<lambda>fd. behind (px_accept kx fd)),
      px_unlink = (\<lambda>path r. r\<lparr>rg_os := px_unlink kx path (rg_os r)\<rparr>),
      ur_queue_init = (\<lambda>n r. (Inr (), r)), ur_queue_init_params = (\<lambda>params r. (Inr (), r)), ur_queue_exit = (\<lambda>r. r),
      ur_get_sqe = (\<lambda>r.
        if length (rg_sq r) < depth
        then Some (length (rg_sq r),
               r\<lparr>rg_sq := rg_sq r @ [\<lparr>re_op = UR_LinkTimeout, re_user_data = 0, re_link = False\<rparr>]\<rparr>)
        else None),
      ur_prep = (\<lambda>sqe request r.
        r\<lparr>rg_sq := (rg_sq r)[sqe := \<lparr>re_op = request, re_user_data = 0, re_link = False\<rparr>], rg_received := []\<rparr>),
      ur_set_data64 = (\<lambda>sqe tag r. r\<lparr>rg_sq := (rg_sq r)[sqe := (rg_sq r ! sqe)\<lparr>re_user_data := tag\<rparr>]\<rparr>),
      ur_set_link = (\<lambda>sqe r. r\<lparr>rg_sq := (rg_sq r)[sqe := (rg_sq r ! sqe)\<lparr>re_link := True\<rparr>]\<rparr>),
      ur_submit = (\<lambda>r. (Inr (length (rg_sq r)), execute kx (rg_sq r) (r\<lparr>rg_sq := []\<rparr>))),
      ur_wait_cqe = (\<lambda>r. case rg_cq r of [] \<Rightarrow> (Inl EINTR, r) | cqe # _ \<Rightarrow> (Inr cqe, r)),
      ur_cqe_seen = (\<lambda>r. r\<lparr>rg_cq := tl (rg_cq r)\<rparr>), ur_store_timeout = (\<lambda>timeout r. r\<lparr>rg_timeout := timeout\<rparr>),
      ur_end_of_block = (\<lambda>r. r\<lparr>rg_timeout := scope (rg_timeout r)\<rparr>), ur_received = rg_received,
      ur_shutdown = (\<lambda>fd how r. (Inr (), r))\<rparr>"

abbreviation ring_over :: "nat \<Rightarrow> ('os, 'addr) posix \<Rightarrow> ('os ring_state, 'addr) uring" where
  "ring_over \<equiv> ring_over_scope (\<lambda>timeout. timeout)"

definition ring_idle :: "'os ring_state \<Rightarrow> 'os \<Rightarrow> bool" where
  "ring_idle r os \<longleftrightarrow> rg_os r = os \<and> rg_sq r = [] \<and> rg_cq r = []"

lemma poll_ms_timeout: "poll_ms (make_timeout ms) = ms"
  by (simp add: poll_ms_def make_timeout_def)

lemma ring_over_simps [simp]:
  "ur_prep (ring_over_scope scope depth kx) = (\<lambda>sqe request r.
     r\<lparr>rg_sq := (rg_sq r)[sqe := \<lparr>re_op = request, re_user_data = 0, re_link = False\<rparr>], rg_received := []\<rparr>)"
  "ur_set_data64 (ring_over_scope scope depth kx) = (\<lambda>sqe tag r. r\<lparr>rg_sq := (rg_sq r)[sqe := (rg_sq r ! sqe)\<lparr>re_user_data := tag\<rparr>]\<rparr>)"
  "ur_set_link (ring_over_scope scope depth kx) = (\<lambda>sqe r. r\<lparr>rg_sq := (rg_sq r)[sqe := (rg_sq r ! sqe)\<lparr>re_link := True\<rparr>]\<rparr>)"
  "ur_submit (ring_over_scope scope depth kx) = (\<lambda>r. (Inr (length (rg_sq r)), execute kx (rg_sq r) (r\<lparr>rg_sq := []\<rparr>)))"
  "ur_wait_cqe (ring_over_scope scope depth kx) = (\<lambda>r. case rg_cq r of [] \<Rightarrow> (Inl EINTR, r) | cqe # _ \<Rightarrow> (Inr cqe, r))"
  "ur_cqe_seen (ring_over_scope scope depth kx) = (\<lambda>r. r\<lparr>rg_cq := tl (rg_cq r)\<rparr>)"
  "ur_store_timeout (ring_over_scope scope depth kx) = (\<lambda>timeout r. r\<lparr>rg_timeout := timeout\<rparr>)"
  "ur_end_of_block (ring_over_scope scope depth kx) = (\<lambda>r. r\<lparr>rg_timeout := scope (rg_timeout r)\<rparr>)"
  "ur_received (ring_over_scope scope depth kx) = rg_received"
  by (simp_all add: ring_over_scope_def)

lemma ring_over_get [simp]:
  "length (rg_sq r) < depth \<Longrightarrow> ur_get_sqe (ring_over_scope scope depth kx) r =
     Some (length (rg_sq r), r\<lparr>rg_sq := rg_sq r @ [\<lparr>re_op = UR_LinkTimeout, re_user_data = 0, re_link = False\<rparr>]\<rparr>)"
  by (simp add: ring_over_scope_def)

lemma ring_over_recv:
  assumes "2 \<le> depth" and "ring_idle r os"
  shows "serves_request (ring_over_scope scope depth kx) (UR_Recv fd n) r (\<lambda>result r'.
     ring_idle r' (snd (retried kx (px_recv kx fd n) os)) \<and>
     (case fst (retried kx (px_recv kx fd n) os) of
        Inl e \<Rightarrow> result = Inl e \<and> ur_received (ring_over_scope scope depth kx) r' = []
      | Inr bs \<Rightarrow> result = Inr (length bs) \<and> ur_received (ring_over_scope scope depth kx) r' = bs))"
  using assms by (auto simp: serves_request_def ring_idle_def behind_def complete_def split: prod.splits sum.splits)

lemma ring_over_send:
  assumes "2 \<le> depth" and "ring_idle r os"
  shows "serves_request (ring_over_scope scope depth kx) (UR_Send fd bs) r (\<lambda>result r'.
     result = fst (retried kx (px_send kx fd bs) os) \<and> ring_idle r' (snd (retried kx (px_send kx fd bs) os)))"
  using assms by (auto simp: serves_request_def ring_idle_def behind_def complete_def split: prod.splits)

lemma ring_over_sendmsg:
  assumes "2 \<le> depth" and "ring_idle r os"
  shows "serves_request (ring_over_scope scope depth kx) (UR_SendMsg fd spans) r (\<lambda>result r'.
     result = fst (retried kx (px_sendmsg kx fd spans) os) \<and> ring_idle r' (snd (retried kx (px_sendmsg kx fd spans) os)))"
  using assms by (auto simp: serves_request_def ring_idle_def behind_def complete_def split: prod.splits)

lemma ring_over_poll:
  assumes "2 \<le> depth" and "ring_idle r os" and "retried kx (px_poll kx fd event (-1)) os = (Inr n, os')"
  shows "serves_poll (ring_over_scope scope depth kx) fd event tag (n \<noteq> 0) r (\<lambda>r'. ring_idle r' os')"
  using assms
  by (auto simp: serves_poll_def ring_idle_def behind_def complete_def execute_poll_def poll_answer_def)

lemma ring_over_timed_poll:
  assumes "2 \<le> depth" and "ring_idle r os"
    and "retried kx (px_poll kx fd event (poll_ms (scope (make_timeout ms)))) os = (Inr n, os')"
  shows "serves_timed_poll (ring_over_scope scope depth kx) fd event ms tag (n \<noteq> 0) r (\<lambda>r'. ring_idle r' os')"
  using assms
  by (auto simp: serves_timed_poll_def ring_idle_def behind_def complete_def execute_poll_def poll_answer_def
      timeout_result_def)

text \<open>An infinite wait is a poll with the timeout -1.\<close>

lemma ring_over_scope_serves:
  assumes "2 \<le> depth" and forever: "\<And>fd event ms os. ms < 0 \<Longrightarrow> px_poll kx fd event ms os = px_poll kx fd event (-1) os"
  shows "ring_serves (ring_over_scope scope depth kx) kx ring_idle (\<lambda>ms ms'. ms' = poll_ms (scope (make_timeout ms)))"
proof -
  have poll: "serves_poll (ring_over_scope scope depth kx) fd event tag (n \<noteq> 0) r (\<lambda>r'. ring_idle r' os')"
    if "ring_idle r os" "ms < 0" "retried kx (px_poll kx fd event ms) os = (Inr n, os')" for r os fd event ms tag n os'
  proof -
    have "px_poll kx fd event ms = px_poll kx fd event (-1)" using forever that(2) by blast
    then show ?thesis using that ring_over_poll [OF assms(1) that(1)] by simp
  qed
  have timed: "\<exists>ms'. ms' = poll_ms (scope (make_timeout ms)) \<and>
      (\<forall>n os'. retried kx (px_poll kx fd event ms') os = (Inr n, os') \<longrightarrow>
        serves_timed_poll (ring_over_scope scope depth kx) fd event ms tag (n \<noteq> 0) r (\<lambda>r'. ring_idle r' os'))"
    if "ring_idle r os" for r os fd event ms tag
    using ring_over_timed_poll [OF assms(1) that]
    by (intro exI [of _ "poll_ms (scope (make_timeout ms))"] conjI refl allI impI)
  show ?thesis
    unfolding ring_serves_def
    by (intro allI impI conjI ring_over_recv ring_over_send ring_over_sendmsg assms(1) poll timed)
qed

lemma ring_over_serves:
  assumes "2 \<le> depth" and "\<And>fd event ms os. ms < 0 \<Longrightarrow> px_poll kx fd event ms os = px_poll kx fd event (-1) os"
  shows "ring_serves (ring_over depth kx) kx ring_idle (=)"
proof -
  have "(\<lambda>ms ms'. ms' = poll_ms (make_timeout ms)) = (=)" by (simp add: fun_eq_iff poll_ms_timeout eq_commute)
  then show ?thesis using ring_over_scope_serves [OF assms, of "\<lambda>timeout. timeout"] by simp
qed

subsection \<open>The engine over a ring\<close>

lemma retimed_exists:
  assumes "ring_serves px kx idle seen" and "idle r os"
  shows "\<exists>cs'. list_all2 (retimed seen) cs cs'"
proof (induction cs)
  case Nil
  then show ?case by simp
next
  case (Cons c cs)
  have "\<exists>c'. retimed seen c c'"
  proof (cases c)
    case (Call_Wait event ms)
    obtain ms' where "if ms < 0 then ms' = ms else seen ms ms'"
      using serves_poll_in_time [OF assms, of ms] by (metis not_less)
    then show ?thesis by (intro exI [of _ "Call_Wait event ms'"]) (simp add: Call_Wait)
  qed auto
  with Cons.IH show ?case by (metis list_all2_Cons)
qed

text \<open>C34: The io_uring engine as a TCP transport. Take a ring that completes each request with the result of the
  system call (\<open>ring_serves\<close>) over a kernel whose \<open>poll\<close> does not fail, an engine without zero-copy sends, and any sequence of
  reads, writes, vectored writes and waits that does not wait between the end of the stream and \<open>close\<close>. The engine gives it
  the answers of the TCP transport on the kernel behind the ring, for the same calls with the timeouts that the ring
  reads: every completion the engine takes is that of its own request, in whatever order a poll and its timeout complete, no call
  waits for ever, and end of stream, blocking and errors are reported alike. The timeouts are those of the caller when
  \<open>seen\<close> is equality; the code does not ensure this, since it submits the address of a variable whose block has ended.\<close>

theorem uring_refines_sockets:
  assumes "ring_serves px kx idle seen" and "polls_succeed kx" and "engine_matches idle t u"
    and "\<forall>cs'. list_all2 (retimed seen) cs cs' \<longrightarrow> waits_open kx cs' u"
  shows "\<exists>cs' t'. list_all2 (retimed seen) cs cs' \<and> uring_calls px cs t = Some (fst (socket_calls kx cs' u), t') \<and>
    engine_matches idle t' (snd (socket_calls kx cs' u))"
  using assms(3,4)
proof (induction cs arbitrary: t u)
  case Nil
  then show ?case by simp
next
  case (Cons c cs)
  have "idle (fst t) (fst u)" using Cons.prems(1) by (simp add: engine_matches_def)
  then obtain ds where ds: "list_all2 (retimed seen) cs ds" using retimed_exists [OF assms(1)] by blast
  have "waits_open kx [c'] u" if "retimed seen c c'" for c'
    using Cons.prems(2) [rule_format, of "c' # ds"] that ds by simp
  then obtain c' t1 where step: "retimed seen c c'" "uring_call px c t = Some (fst (socket_call kx c' u), t1)"
    "engine_matches idle t1 (snd (socket_call kx c' u))"
    using call_matches [OF assms(1,2) Cons.prems(1)] by blast
  have "\<forall>cs'. list_all2 (retimed seen) cs cs' \<longrightarrow> waits_open kx cs' (snd (socket_call kx c' u))"
    using Cons.prems(2) step(1) by (metis list_all2_Cons waits_open.simps(2))
  from Cons.IH [OF step(3) this] obtain cs' t' where rest: "list_all2 (retimed seen) cs cs'"
    "uring_calls px cs t1 = Some (fst (socket_calls kx cs' (snd (socket_call kx c' u))), t')"
    "engine_matches idle t' (snd (socket_calls kx cs' (snd (socket_call kx c' u))))" by blast
  show ?case using step(1,2) rest by (intro exI [of _ "c' # cs'"] exI [of _ t']) (simp add: case_prod_unfold)
qed

definition demo_engine :: "demo_os ring_state uring_engine" where
  "demo_engine =
     (\<lparr>rg_os = \<lparr>do_inbox = (\<lambda>fd. [7, 8, 9]), do_outbox = (\<lambda>fd. [])\<rparr>, rg_sq = [], rg_cq = [], rg_received = [], rg_timeout = (0, 0)\<rparr>,
      Some \<lparr>ui_fd = 3, ui_open = True, ui_own_handle = True, ui_use_send_zerocopy = False,
        ui_send_zerocopy_threshold_bytes = 16384, ui_local = [], ui_peer = [], ui_next_user_data = 1\<rparr>)"

definition demo_socket :: "demo_os \<times> fd_handle" where
  "demo_socket = (\<lparr>do_inbox = (\<lambda>fd. [7, 8, 9]), do_outbox = (\<lambda>fd. [])\<rparr>, \<lparr>fh_fd = 3, fh_open = True, fh_own = True\<rparr>)"

lemma demo_polls: "polls_succeed demo_kernel"
  by (simp add: polls_succeed_def retried_def)

lemma demo_matches: "engine_matches ring_idle demo_engine demo_socket"
  by (simp add: engine_matches_def ring_idle_def demo_engine_def demo_socket_def)

lemma demo_send_kernel: "px_send demo_kernel = demo_send"
  by (simp add: demo_kernel_def)

definition demo_calls :: "stream_call list" where
  "demo_calls = [Call_Wait POLLIN 5, Call_Read [0, 0], Call_Write [1], Call_Read [0, 0], Call_Read [0, 0], Call_Write [1]]"

lemma demo_answers:
  "fst (socket_calls demo_kernel demo_calls demo_socket) =
   [Ans_Wait (Inr True), Ans_Read (empty_read\<lparr>rr_bytes_read := 2\<rparr>) [7, 8],
    Ans_Write \<lparr>wr_bytes_written = 1, wr_would_block = False, wr_status = SC_Ok\<rparr>,
    Ans_Read (empty_read\<lparr>rr_bytes_read := 1\<rparr>) [9, 0], Ans_Read (empty_read\<lparr>rr_end_of_stream := True\<rparr>) [0, 0],
    Ans_Write closed_write]"
  by (simp add: demo_calls_def demo_socket_def tcp_wait_until_readable_def wait_for_fd_def tcp_read_def recv_from_socket_def
      tcp_write_def send_to_socket_def handle_is_open_def retried_def demo_receive_def demo_send_def demo_send_kernel
      read_outcome_def write_outcome_def blit_def)

lemma uring_refines_sockets_witness:
  "\<exists>t. uring_calls (ring_over 64 demo_kernel) demo_calls demo_engine =
   Some ([Ans_Wait (Inr True), Ans_Read (empty_read\<lparr>rr_bytes_read := 2\<rparr>) [7, 8],
     Ans_Write \<lparr>wr_bytes_written = 1, wr_would_block = False, wr_status = SC_Ok\<rparr>,
     Ans_Read (empty_read\<lparr>rr_bytes_read := 1\<rparr>) [9, 0], Ans_Read (empty_read\<lparr>rr_end_of_stream := True\<rparr>) [0, 0],
     Ans_Write closed_write], t)"
proof -
  have serves: "ring_serves (ring_over 64 demo_kernel) demo_kernel ring_idle (=)" by (rule ring_over_serves) simp_all
  have "\<forall>cs'. list_all2 (retimed (=)) demo_calls cs' \<longrightarrow> waits_open demo_kernel cs' demo_socket"
    by (simp add: retimed_intact_calls demo_calls_def demo_socket_def handle_is_open_def)
  from uring_refines_sockets [OF serves demo_polls demo_matches this]
  show ?thesis unfolding retimed_intact_calls demo_answers [symmetric] by blast
qed

text \<open>
  What becomes of the timeout when the storage is reused: a kernel whose peer answers after five milliseconds, and a wait
  for five milliseconds, in storage that holds zero when the ring reads it.
\<close>

definition slow_kernel :: "(demo_os, unit) posix" where
  "slow_kernel = demo_kernel\<lparr>px_poll := (\<lambda>fd event ms os. (Inr (if ms < 0 \<or> 5 \<le> ms then 1 else 0), os))\<rparr>"

lemma dangling_timeout_misread:
  "\<exists>t. uring_wait_until_readable (ring_over_scope (\<lambda>timeout. (0, 0)) 64 slow_kernel) 5 demo_engine = Some (Inr False, t)"
  "\<exists>t. uring_wait_until_readable (ring_over 64 slow_kernel) 5 demo_engine = Some (Inr True, t)"
  "fst (tcp_wait_until_readable slow_kernel 5 demo_socket) = Inr True"
proof -
  have polls: "polls_succeed slow_kernel" by (simp add: slow_kernel_def polls_succeed_def retried_def)
  have m: "engine_matches ring_idle (fst demo_engine, snd demo_engine) (fst demo_socket, snd demo_socket)"
    using demo_matches by simp
  have op: "handle_is_open (snd demo_socket)" by (simp add: demo_socket_def handle_is_open_def)
  have poll: "\<exists>t. uring_wait (ring_over_scope scope 64 slow_kernel) POLLIN 5 demo_engine =
      Some (Inr (5 \<le> poll_ms (scope (make_timeout 5)) \<or> poll_ms (scope (make_timeout 5)) < 0), t)" for scope
  proof -
    have serves: "ring_serves (ring_over_scope scope 64 slow_kernel) slow_kernel ring_idle
        (\<lambda>ms ms'. ms' = poll_ms (scope (make_timeout ms)))"
      by (rule ring_over_scope_serves) (simp_all add: slow_kernel_def)
    show ?thesis
      using wait_matches [OF serves m op polls, of 5 POLLIN] by (auto simp: slow_kernel_def retried_def split: if_splits)
  qed
  show "\<exists>t. uring_wait_until_readable (ring_over_scope (\<lambda>timeout. (0, 0)) 64 slow_kernel) 5 demo_engine = Some (Inr False, t)"
    using poll [of "\<lambda>timeout. (0, 0)"] by (simp add: uring_wait_until_readable_def poll_ms_def)
  show "\<exists>t. uring_wait_until_readable (ring_over 64 slow_kernel) 5 demo_engine = Some (Inr True, t)"
    using poll [of "\<lambda>timeout. timeout"] by (simp add: uring_wait_until_readable_def poll_ms_timeout)
  show "fst (tcp_wait_until_readable slow_kernel 5 demo_socket) = Inr True"
    by (simp add: tcp_wait_until_readable_def wait_for_fd_def demo_socket_def slow_kernel_def retried_def)
qed

subsection \<open>Zero-copy sends\<close>

text \<open>A completion that is left in the ring is taken for that of the next receive.\<close>

lemma ring_over_late_completion:
  assumes "2 \<le> depth" and "rg_sq r = []" and "rg_cq r = [c]" and "cqe_res c = result"
  shows "\<exists>r'. run_request (ring_over depth kx) (UR_Recv fd n) r = (Inr result, r')"
proof -
  obtain x os where "retried kx (px_recv kx fd n) (rg_os r) = (x, os)"
    by (cases "retried kx (px_recv kx fd n) (rg_os r)")
  then show ?thesis using assms by (cases x) (simp_all add: run_request_def behind_def complete_def)
qed

text \<open>C37: A zero-copy send ends the stream. \<open>write\<close> takes one completion, so over a ring that posts at submission the two completions io_uring
  documents for such a send the notification is still there for the next call: whatever the peer has sent, \<open>read\<close> takes it
  for its own completion, reports the end of the stream and closes the engine.\<close>

theorem zerocopy_send_ends_stream:
  assumes "2 \<le> depth" and "ring_idle r os" and "uring_is_open (Some i)"
    and "ui_use_send_zerocopy i" and "ui_send_zerocopy_threshold_bytes i \<le> length source"
    and "retried kx (px_send kx (ui_fd i) source) os = (Inr n, os')"
  shows "\<exists>r' t. uring_write (ring_over depth kx) (r, Some i) source =
      (\<lparr>wr_bytes_written = n, wr_would_block = False, wr_status = SC_Ok\<rparr>, (r', Some i)) \<and>
    uring_read (ring_over depth kx) (r', Some i) destination =
      (empty_read\<lparr>rr_end_of_stream := True\<rparr>, t) \<and> \<not> uring_is_open (snd (snd t))"
proof -
  let ?px = "ring_over depth kx"
  obtain r' c where w: "run_request ?px (UR_SendZc (ui_fd i) source) r = (Inr (Inr n), r')"
    and r': "rg_sq r' = []" "rg_cq r' = [c]" "cqe_res c = Inr 0"
    using assms(1,2,6) by (auto simp: run_request_def ring_idle_def behind_def complete_def)
  obtain r'' where "run_request ?px (UR_Recv (ui_fd i) (length destination)) r' = (Inr (Inr 0), r'')"
    using ring_over_late_completion [OF assms(1) r'] by blast
  then show ?thesis using w assms(3-5)
    by (auto simp: uring_write_def uring_read_def request_outcome_def uring_is_open_def)
qed

lemma zerocopy_send_ends_stream_witness:
  "\<exists>r' t. uring_write (ring_over 64 demo_kernel)
      (fst demo_engine, map_option (\<lambda>i. i\<lparr>ui_use_send_zerocopy := True, ui_send_zerocopy_threshold_bytes := 1\<rparr>) (snd demo_engine))
      [5] = (\<lparr>wr_bytes_written = 1, wr_would_block = False, wr_status = SC_Ok\<rparr>, (r', t)) \<and>
    fst (uring_read (ring_over 64 demo_kernel) (r', t) [0, 0]) = empty_read\<lparr>rr_end_of_stream := True\<rparr> \<and>
    do_inbox (rg_os (fst demo_engine)) 3 = [7, 8, 9]"
proof -
  let ?i = "the (map_option (\<lambda>i. i\<lparr>ui_use_send_zerocopy := True, ui_send_zerocopy_threshold_bytes := 1\<rparr>) (snd demo_engine))"
  have "\<exists>r' t. uring_write (ring_over 64 demo_kernel) (fst demo_engine, Some ?i) [5] =
      (\<lparr>wr_bytes_written = 1, wr_would_block = False, wr_status = SC_Ok\<rparr>, (r', Some ?i)) \<and>
    uring_read (ring_over 64 demo_kernel) (r', Some ?i) [0, 0] =
      (empty_read\<lparr>rr_end_of_stream := True\<rparr>, t) \<and> \<not> uring_is_open (snd (snd t))"
    by (rule zerocopy_send_ends_stream [of 64 _ "rg_os (fst demo_engine)" ?i "[5]" demo_kernel 1])
      (simp_all add: demo_engine_def ring_idle_def uring_is_open_def demo_send_kernel demo_send_def retried_def)
  then show ?thesis by (force simp: demo_engine_def)
qed

text \<open>A ring whose stream has ended is not released: \<open>close\<close> calls \<open>io_uring_queue_exit\<close> for an open engine only.\<close>

lemma ended_ring_kept:
  assumes "run_request px (UR_Recv (ui_fd i) (length d)) r = (Inr (Inr 0), r')" and "uring_is_open (Some i)"
    and "\<not> ui_own_handle i"
  shows "uring_close px (snd (snd (uring_read px (r, Some i) d))) = (SC_Ok, (r', None))"
  using assms by (simp add: uring_read_def uring_close_def uring_is_open_def)

end
