(* ===== verification/Workbench_Html.thy ===== *)
theory Workbench_Html
  imports Protocol_Discovery
begin

text \<open>
  \<open>render_workbench_html\<close> and its helpers of \<open>upr_workbench/src/workbench/html_workbench.cpp\<close>. A function that appends to
  the page is modelled by the text it appends; the null pointers of the input are options. The style sheet and
  the script are the constants of the source. The output file is a parameter.
\<close>

subsection \<open>Text\<close>

definition html_escape_char :: "char \<Rightarrow> string" where
  "html_escape_char ch =
     (if ch = CHR ''&'' then ''&amp;''
      else if ch = CHR ''<'' then ''&lt;''
      else if ch = CHR ''>'' then ''&gt;''
      else if ch = CHR 0x22 then ''&quot;''
      else if ch = CHR 0x27 then ''&#39;''
      else [ch])"

definition html_escape :: "string \<Rightarrow> string" where
  "html_escape value = concat (map html_escape_char value)"

fun hex_bytes :: "bytes \<Rightarrow> string" where
  "hex_bytes [] = []"
| "hex_bytes [b] = hex_byte b"
| "hex_bytes (b # bs) = hex_byte b @ '' '' @ hex_bytes bs"

text \<open>\<open>std::isprint\<close> in the C locale.\<close>

definition ascii_bytes :: "bytes \<Rightarrow> string" where
  "ascii_bytes bs = map (\<lambda>b. if 0x20 \<le> b \<and> b \<le> 0x7E then char_of (unat b) else CHR ''.'') bs"

definition yes_no :: "string \<Rightarrow> string \<Rightarrow> bool \<Rightarrow> string" where
  "yes_no yes no b = (if b then yes else no)"

subsection \<open>The sections\<close>

definition append_metric :: "string \<Rightarrow> string \<Rightarrow> string" where
  "append_metric label value =
     ''<div class=\"metric\"><div class=\"metric-label\">'' @ html_escape label @
     ''</div><div class=\"metric-value\">'' @ html_escape value @ ''</div></div>''"

text \<open>The notes of a field; the discovery section leaves the reference out.\<close>

definition field_notes :: "bool \<Rightarrow> field_definition \<Rightarrow> string" where
  "field_notes with_reference f =
     (let notes =
        (if fd_has_expected_unsigned f then ''expect='' @ decimal (unat (fd_expected_unsigned f)) @ '' '' else []) @
        (if fd_size_from_field f \<noteq> [] then ''size_from='' @ fd_size_from_field f @ '' '' else []) @
        (if fd_fixed_size f \<noteq> 0 then ''fixed_size='' @ decimal (fd_fixed_size f) @ '' '' else []) @
        (if with_reference \<and> fd_referenced_type f \<noteq> [] then ''ref='' @ fd_referenced_type f @ '' '' else [])
      in if notes = [] then ''-'' else notes)"

definition definition_field_row :: "field_definition \<Rightarrow> string" where
  "definition_field_row f =
     ''<tr><td>'' @ html_escape (fd_name f) @ ''</td><td>'' @ html_escape (field_kind_to_string (fd_kind f)) @
     ''</td><td>'' @
     html_escape (if fd_width_bytes f \<noteq> 0 then decimal (fd_width_bytes f) else decimal (fd_fixed_size f)) @
     ''</td><td>'' @ html_escape (field_notes True f) @ ''</td></tr>''"

definition definition_message_card :: "message_definition \<Rightarrow> string" where
  "definition_message_card m =
     ''<article class=\"layout-card\"><h3>'' @ html_escape (md_name m) @ ''</h3>'' @
     ''<table><thead><tr><th>Field</th><th>Kind</th><th>Width</th><th>Notes</th></tr></thead><tbody>'' @
     concat (map definition_field_row (md_fields m)) @ ''</tbody></table></article>''"

definition append_protocol_definition_section :: "protocol_definition \<Rightarrow> string" where
  "append_protocol_definition_section d =
     ''<section class=\"panel filterable\"><h2>Authoring Definition</h2>'' @
     ''<p class=\"section-intro\">Human-authored or discovered draft protocol definitions.</p>'' @
     ''<div class=\"metric-row\">'' @
     append_metric ''Protocol'' (pd_name d) @
     append_metric ''Messages'' (decimal (length (pd_messages d))) @
     append_metric ''Structs'' (decimal (length (pd_structs d))) @
     ''</div>'' @ concat (map definition_message_card (pd_messages d)) @ ''</section>''"

definition compiled_field_row :: "compiled_field \<Rightarrow> string" where
  "compiled_field_row f =
     ''<tr><td>'' @ html_escape (cf_name f) @ ''</td><td>'' @ html_escape (field_kind_to_string (cf_kind f)) @
     ''</td><td>'' @ decimal (if cf_width_bytes f \<noteq> 0 then cf_width_bytes f else cf_fixed_size f) @ ''</td><td>'' @
     yes_no ''yes'' ''no'' (cf_dynamic_size f) @ ''</td></tr>''"

definition compiled_message_card :: "compiled_message \<Rightarrow> string" where
  "compiled_message_card m =
     ''<article class=\"layout-card\"><h3>'' @ html_escape (cm_name m) @ ''</h3>'' @ ''<div class=\"chip-row\">'' @
     ''<span class=\"chip\">minimum_size='' @ decimal (cm_minimum_size m) @ ''</span>'' @
     ''<span class=\"chip\">allow_trailing='' @ yes_no ''true'' ''false'' (cm_allow_trailing_bytes m) @ ''</span>'' @
     ''<span class=\"chip\">dispatch_prefix='' @ html_escape (hex_bytes (cm_dispatch_prefix m)) @ ''</span>'' @
     ''</div>'' @
     ''<table><thead><tr><th>Field</th><th>Kind</th><th>Width</th><th>Dynamic</th></tr></thead><tbody>'' @
     concat (map compiled_field_row (cm_fields m)) @ ''</tbody></table></article>''"

definition append_compiled_protocol_section :: "compiled_protocol \<Rightarrow> string" where
  "append_compiled_protocol_section p =
     ''<section class=\"panel filterable\"><h2>Compiled Protocol</h2>'' @
     ''<p class=\"section-intro\">The immutable runtime view consumed by the decoder.</p>'' @
     ''<div class=\"metric-row\">'' @
     append_metric ''Protocol'' (cp_name p) @
     append_metric ''Fingerprint'' (decimal (unat (cp_fingerprint p))) @
     append_metric ''Messages'' (decimal (length (cp_messages p))) @
     ''</div>'' @ concat (map compiled_message_card (cp_messages p)) @ ''</section>''"

definition draft_field_row :: "field_definition \<Rightarrow> string" where
  "draft_field_row f =
     ''<tr><td>'' @ html_escape (fd_name f) @ ''</td><td>'' @ html_escape (field_kind_to_string (fd_kind f)) @
     ''</td><td>'' @ html_escape (field_notes False f) @ ''</td></tr>''"

definition discovered_sample_card :: "nat \<times> bytes \<Rightarrow> string" where
  "discovered_sample_card = (\<lambda>(index, frame).
     ''<div class=\"frame-card\"><h4>Sample '' @ decimal index @ ''</h4><pre>'' @ html_escape (hex_bytes frame) @
     ''</pre><div class=\"ascii\">'' @ html_escape (ascii_bytes frame) @ ''</div></div>'')"

definition discovered_message_card :: "discovered_message \<Rightarrow> string" where
  "discovered_message_card m =
     ''<article class=\"layout-card\"><h3>'' @ html_escape (dsm_name m) @ ''</h3>'' @ ''<div class=\"chip-row\">'' @
     ''<span class=\"chip\">samples='' @ decimal (dsm_sample_count m) @ ''</span>'' @
     ''<span class=\"chip\">size_range='' @ decimal (dsm_min_size m) @ ''-'' @ decimal (dsm_max_size m) @ ''</span>'' @
     ''<span class=\"chip\">prefix='' @ html_escape (hex_bytes (dsm_common_prefix m)) @ ''</span>'' @
     ''</div>'' @ ''<p>'' @ html_escape (dsm_strategy_summary m) @ ''</p>'' @
     ''<table><thead><tr><th>Draft Field</th><th>Kind</th><th>Notes</th></tr></thead><tbody>'' @
     concat (map draft_field_row (md_fields (dsm_draft_message m))) @ ''</tbody></table>'' @
     (if dsm_sample_frames m \<noteq> [] then
        ''<div class=\"frame-grid\">'' @ concat (map discovered_sample_card (enumerate 0 (dsm_sample_frames m))) @ ''</div>''
      else []) @
     ''</article>''"

definition append_discovery_section :: "discovery_report \<Rightarrow> string" where
  "append_discovery_section report =
     ''<section class=\"panel filterable\"><h2>Discovery Report</h2>'' @
     ''<p class=\"section-intro\">Heuristic protocol discovery over sampled framed payloads.</p>'' @
     ''<div class=\"metric-row\">'' @
     append_metric ''Protocol'' (drp_protocol_name report) @
     append_metric ''Frames'' (decimal (drp_frames_analyzed report)) @
     append_metric ''Discarded'' (decimal (drp_frames_discarded report)) @
     append_metric ''Fingerprint'' (decimal (unat (drp_draft_fingerprint report))) @
     ''</div>'' @ concat (map discovered_message_card (drp_messages report)) @ ''</section>''"

record workbench_sample_frame =
  wsf_label :: string
  wsf_bytes :: bytes

definition sample_frame_card :: "workbench_sample_frame \<Rightarrow> string" where
  "sample_frame_card frame =
     ''<article class=\"frame-card\"><h3>'' @ html_escape (wsf_label frame) @ ''</h3><pre>'' @
     html_escape (hex_bytes (wsf_bytes frame)) @ ''</pre><div class=\"ascii\">'' @
     html_escape (ascii_bytes (wsf_bytes frame)) @ ''</div></article>''"

definition append_samples_section :: "workbench_sample_frame list \<Rightarrow> string" where
  "append_samples_section sample_frames =
     ''<section class=\"panel filterable\"><h2>Sample Frames</h2>'' @ ''<div class=\"frame-grid\">'' @
     concat (map sample_frame_card sample_frames) @ ''</div></section>''"

subsection \<open>The page\<close>

definition page_style :: string where
  "page_style =
     '':root{--bg:#f6f1e8;--ink:#112033;--muted:#516072;--panel:#fffdf8;--line:#d8cbb6;--accent:#0f766e;--w'' @
     ''arm:#c08457;}body{margin:0;font-family:\"Iowan Old Style\",\"Palatino Linotype\",serif;background:radial'' @
     ''-gradient(circle at top,#fffaf0 0,#f6f1e8 45%,#efe7d9 100%);color:var(--ink);}header{padding:3rem 2r'' @
     ''em 2rem;border-bottom:1px solid var(--line);background:linear-gradient(135deg,rgba(15,118,110,.08),r'' @
     ''gba(192,132,87,.08));}h1,h2,h3,h4{margin:0 0 .6rem 0;font-weight:700;letter-spacing:.01em;}p{margin:'' @
     ''.4rem 0 1rem 0;line-height:1.55;color:var(--muted);}.shell{max-width:1200px;margin:0 auto;padding:1.'' @
     ''5rem;}.toolbar{display:flex;gap:1rem;align-items:center;flex-wrap:wrap;margin:1rem 0 1.5rem 0;}.sear'' @
     ''ch{flex:1;min-width:220px;padding:.85rem 1rem;border:1px solid var(--line);border-radius:999px;backg'' @
     ''round:rgba(255,255,255,.8);font:inherit;}.metric-row{display:grid;grid-template-columns:repeat(auto-'' @
     ''fit,minmax(140px,1fr));gap:1rem;margin:1rem 0 1.25rem 0;}.metric,.panel,.frame-card,.layout-card{bac'' @
     ''kground:var(--panel);border:1px solid var(--line);border-radius:20px;box-shadow:0 14px 40px rgba(17,'' @
     ''32,51,.06);}.metric{padding:1rem 1.1rem;}.metric-label{font-size:.8rem;text-transform:uppercase;lett'' @
     ''er-spacing:.08em;color:var(--muted);}.metric-value{font-size:1.3rem;margin-top:.35rem;}.panel{paddin'' @
     ''g:1.2rem 1.2rem 1.4rem;margin:0 0 1.25rem 0;}.section-intro{max-width:60rem;}.chip-row{display:flex;'' @
     ''flex-wrap:wrap;gap:.5rem;margin:.65rem 0 1rem 0;}.chip{display:inline-block;padding:.35rem .7rem;bor'' @
     ''der-radius:999px;background:rgba(15,118,110,.08);color:var(--accent);font-size:.85rem;font-family:\"S'' @
     ''FMono-Regular\",\"Cascadia Mono\",monospace;}.layout-card,.frame-card{padding:1rem;margin:.9rem 0;}.fra'' @
     ''me-grid{display:grid;grid-template-columns:repeat(auto-fit,minmax(240px,1fr));gap:1rem;}pre,.ascii,t'' @
     ''able{font-family:\"SFMono-Regular\",\"Cascadia Mono\",monospace;}pre{white-space:pre-wrap;word-break:bre'' @
     ''ak-word;background:#f8f4ec;padding:.85rem;border-radius:14px;border:1px solid rgba(216,203,182,.8);m'' @
     ''argin:.4rem 0;}.ascii{color:var(--warm);font-size:.9rem;}table{width:100%;border-collapse:collapse;f'' @
     ''ont-size:.9rem;overflow:hidden;}th,td{text-align:left;padding:.65rem .55rem;border-bottom:1px solid '' @
     ''rgba(216,203,182,.75);vertical-align:top;}th{font-size:.78rem;text-transform:uppercase;letter-spacin'' @
     ''g:.07em;color:var(--muted);}.hidden{display:none !important;}@media (max-width:720px){header{padding'' @
     '':2rem 1rem 1.3rem;}.shell{padding:1rem;}}''"

definition page_script :: string where
  "page_script =
     ''document.addEventListener('DOMContentLoaded',function(){const input=document.getElementById('filter')'' @
     '';if(!input)return;input.addEventListener('input',function(){const q=input.value.toLowerCase();docume'' @
     ''nt.querySelectorAll('.filterable').forEach(function(node){node.classList.toggle('hidden',q&& !node.t'' @
     ''extContent.toLowerCase().includes(q));});});});''"

record workbench_page_input =
  wpi_title :: string
  wpi_definition :: "protocol_definition option"
  wpi_compiled_protocol :: "compiled_protocol option"
  wpi_discovery_report :: "discovery_report option"
  wpi_sample_frames :: "workbench_sample_frame list"

definition append_page_head :: "string \<Rightarrow> string" where
  "append_page_head title =
     ''<!DOCTYPE html><html lang=\"en\"><head><meta charset=\"utf-8\">'' @
     ''<meta name=\"viewport\" content=\"width=device-width, initial-scale=1\">'' @
     ''<title>'' @ html_escape title @ ''</title>'' @ ''<style>'' @ page_style @ ''</style>'' @
     ''<script>'' @ page_script @ ''</script></head><body>'' @
     ''<header><div class=\"shell\"><h1>'' @ html_escape title @ ''</h1>'' @
     ''<p>Unified inspection for authoring definitions, discovery output, runtime metadata, and captured frames.</p>'' @
     ''</div></header>'' @ ''<main class=\"shell\">'' @
     ''<div class=\"toolbar\"><input id=\"filter\" class=\"search\" placeholder=\"Filter messages, fields, '' @
     ''strategies, or sample bytes\"></div>''"

definition append_summary :: "workbench_page_input \<Rightarrow> string" where
  "append_summary input =
     (case wpi_discovery_report input of
        Some report \<Rightarrow>
          ''<div class=\"metric-row\">'' @
          append_metric ''Discovery Clusters'' (decimal (length (drp_messages report))) @
          append_metric ''Frames Analyzed'' (decimal (drp_frames_analyzed report)) @
          append_metric ''Draft Fingerprint'' (decimal (unat (drp_draft_fingerprint report))) @ ''</div>''
      | None \<Rightarrow>
          (case wpi_compiled_protocol input of
             Some p \<Rightarrow>
               ''<div class=\"metric-row\">'' @
               append_metric ''Protocol'' (cp_name p) @
               append_metric ''Fingerprint'' (decimal (unat (cp_fingerprint p))) @
               append_metric ''Messages'' (decimal (length (cp_messages p))) @ ''</div>''
           | None \<Rightarrow> []))"

definition render_workbench_html :: "workbench_page_input \<Rightarrow> status_code + string" where
  "render_workbench_html input =
     (if wpi_definition input = None \<and> wpi_compiled_protocol input = None \<and> wpi_discovery_report input = None \<and>
         wpi_sample_frames input = []
      then Inl SC_InvalidArgument
      else Inr
        (append_page_head (wpi_title input) @ append_summary input @
         (case wpi_definition input of None \<Rightarrow> [] | Some d \<Rightarrow> append_protocol_definition_section d) @
         (case wpi_compiled_protocol input of None \<Rightarrow> [] | Some p \<Rightarrow> append_compiled_protocol_section p) @
         (case wpi_discovery_report input of None \<Rightarrow> [] | Some report \<Rightarrow> append_discovery_section report) @
         (if wpi_sample_frames input \<noteq> [] then append_samples_section (wpi_sample_frames input) else []) @
         ''</main></body></html>''))"

text \<open>The file system opens a file for writing, or fails, and tells after the flush whether all was written.\<close>

definition write_workbench_html_file ::
  "(string \<Rightarrow> 'os \<Rightarrow> bool \<times> 'os) \<Rightarrow> (string \<Rightarrow> string \<Rightarrow> 'os \<Rightarrow> bool \<times> 'os) \<Rightarrow>
   string \<Rightarrow> workbench_page_input \<Rightarrow> 'os \<Rightarrow> status_code \<times> 'os" where
  "write_workbench_html_file open_file write_file path input os =
     (case render_workbench_html input of
        Inl st \<Rightarrow> (st, os)
      | Inr html \<Rightarrow>
          (case open_file path os of (opened, os) \<Rightarrow>
           if \<not> opened then (SC_IoError, os)
           else
             (case write_file path html os of (good, os) \<Rightarrow> (if good then SC_Ok else SC_IoError, os))))"

end
