(* ===== verification/Workbench_Properties.thy ===== *)
theory Workbench_Properties
  imports Workbench_Html
begin

text \<open>
  What a browser reads of a workbench page: a reader of tags, texts and the raw text of style sheets and scripts, the
  items each part of the page is meant to show, and the theorem that the rendered page is read as these items,
  whatever the names, notes and bytes are.
\<close>

subsection \<open>Reading a page\<close>

text \<open>A tag, a text, or an element whose content is raw text.\<close>

datatype html_item = Tag string | Txt string | Raw string string

definition raw_element :: "string \<Rightarrow> bool" where
  "raw_element t \<longleftrightarrow> t = ''style'' \<or> t = ''script''"

text \<open>The character references of a text.\<close>

fun html_unescape :: "string \<Rightarrow> string" where
  "html_unescape [] = []"
| "html_unescape (c # s) =
     (if c \<noteq> CHR ''&'' then c # html_unescape s
      else if take 4 s = ''amp;'' then CHR ''&'' # html_unescape (drop 4 s)
      else if take 3 s = ''lt;'' then CHR ''<'' # html_unescape (drop 3 s)
      else if take 3 s = ''gt;'' then CHR ''>'' # html_unescape (drop 3 s)
      else if take 5 s = ''quot;'' then CHR 0x22 # html_unescape (drop 5 s)
      else if take 4 s = ''#39;'' then CHR 0x27 # html_unescape (drop 4 s)
      else c # html_unescape s)"

text \<open>A tag ends at the next bracket, a text and a raw text at the next tag.\<close>

definition until_char :: "char \<Rightarrow> string \<Rightarrow> string \<times> string" where
  "until_char c s = (takeWhile (\<lambda>x. x \<noteq> c) s, dropWhile (\<lambda>x. x \<noteq> c) s)"

lemma until_char_length: "until_char c s = (x, r) \<Longrightarrow> length r \<le> length s"
  by (auto simp: until_char_def length_dropWhile_le)

function read_html :: "string \<Rightarrow> html_item list" where
  "read_html s =
     (case s of
        [] \<Rightarrow> []
      | c # r \<Rightarrow>
          if c = CHR ''<'' then
            (case until_char (CHR ''>'') r of
               (t, r) \<Rightarrow>
                 if raw_element t then
                   (case until_char (CHR ''<'') (drop 1 r) of
                      (x, r) \<Rightarrow> Raw t x # read_html (drop 1 (snd (until_char (CHR ''>'') r))))
                 else Tag t # read_html (drop 1 r))
          else (case until_char (CHR ''<'') r of (x, r) \<Rightarrow> Txt (html_unescape (c # x)) # read_html r))"
  by pat_completeness auto
termination
proof (relation "measure length")
  fix s r r' r'' :: string and c t x
  assume s: "s = c # r" and "(t, r') = until_char (CHR ''>'') r" and x: "(x, r'') = until_char (CHR ''<'') (drop 1 r')"
  then have "length r' \<le> length r" by (metis until_char_length)
  moreover have "length r'' \<le> length (drop 1 r')" using x by (metis until_char_length)
  moreover have "length (snd (until_char (CHR ''>'') r'')) \<le> length r''" by (metis until_char_length prod.collapse)
  ultimately show "(drop 1 (snd (until_char (CHR ''>'') r'')), s) \<in> measure length" using s by simp
qed (auto dest!: sym [of "(_, _)"] until_char_length)

declare read_html.simps [simp del]

subsection \<open>Printing items\<close>

fun item_html :: "html_item \<Rightarrow> string" where
  "item_html (Tag t) = CHR ''<'' # t @ [CHR ''>'']"
| "item_html (Txt x) = html_escape x"
| "item_html (Raw t x) = CHR ''<'' # t @ CHR ''>'' # x @ ''</'' @ t @ [CHR ''>'']"

definition items_html :: "html_item list \<Rightarrow> string" where
  "items_html items = concat (map item_html items)"

text \<open>Every text is followed by a tag, and no tag or raw text holds its end.\<close>

fun text_follows :: "html_item list \<Rightarrow> bool" where
  "text_follows (Tag t # items) \<longleftrightarrow> True"
| "text_follows (Raw t x # items) \<longleftrightarrow> True"
| "text_follows items \<longleftrightarrow> False"

fun closed_items :: "html_item list \<Rightarrow> bool" where
  "closed_items [] \<longleftrightarrow> True"
| "closed_items (Tag t # items) \<longleftrightarrow> CHR ''>'' \<notin> set t \<and> \<not> raw_element t \<and> closed_items items"
| "closed_items (Raw t x # items) \<longleftrightarrow> raw_element t \<and> CHR ''<'' \<notin> set x \<and> closed_items items"
| "closed_items (Txt x # items) \<longleftrightarrow> text_follows items \<and> closed_items items"

definition shown :: "html_item list \<Rightarrow> html_item list" where
  "shown items = filter (\<lambda>item. item \<noteq> Txt []) items"

lemma items_html_simps [simp]:
  "items_html [] = []" "items_html (item # items) = item_html item @ items_html items"
  "items_html (items @ items') = items_html items @ items_html items'"
  by (simp_all add: items_html_def)

lemma shown_simps [simp]:
  "shown [] = []" "shown (Tag t # items) = Tag t # shown items" "shown (Raw t x # items) = Raw t x # shown items"
  "shown (Txt x # items) = (if x = [] then shown items else Txt x # shown items)"
  "shown (items @ items') = shown items @ shown items'"
  by (simp_all add: shown_def)

lemma html_escape_simps [simp]:
  "html_escape [] = []" "html_escape (c # s) = html_escape_char c @ html_escape s"
  "html_escape (s @ s') = html_escape s @ html_escape s'"
  by (simp_all add: html_escape_def)

lemma escape_char_no_bracket: "CHR ''<'' \<notin> set (html_escape_char c)"
  by (simp add: html_escape_char_def)

lemma html_escape_no_bracket: "CHR ''<'' \<notin> set (html_escape s)"
  using escape_char_no_bracket by (auto simp: html_escape_def)

lemma html_escape_empty [simp]: "html_escape s = [] \<longleftrightarrow> s = []"
  by (cases s) (auto simp: html_escape_char_def)

lemma unescape_char: "html_unescape (html_escape_char c @ s) = c # html_unescape s"
  by (simp add: html_escape_char_def)

lemma html_unescape_escape [simp]: "html_unescape (html_escape s) = s"
  by (induction s) (simp_all del: html_unescape.simps(2) add: unescape_char)

lemma until_char_found: "c \<notin> set x \<Longrightarrow> until_char c (x @ c # r) = (x, c # r)"
  by (induction x) (auto simp: until_char_def)

lemma read_tag:
  "CHR ''>'' \<notin> set t \<Longrightarrow> \<not> raw_element t \<Longrightarrow> read_html (CHR ''<'' # t @ CHR ''>'' # r) = Tag t # read_html r"
  by (subst read_html.simps) (simp add: until_char_found)

lemma read_raw:
  assumes "raw_element t" and "CHR ''<'' \<notin> set x"
  shows "read_html (CHR ''<'' # t @ CHR ''>'' # x @ ''</'' @ t @ CHR ''>'' # r) = Raw t x # read_html r"
proof -
  have t: "CHR ''>'' \<notin> set t" using assms(1) by (auto simp: raw_element_def)
  have "until_char (CHR ''>'') (''</'' @ t @ CHR ''>'' # r) = (''</'' @ t, CHR ''>'' # r)"
    using until_char_found [of "CHR ''>''" "''</'' @ t" r] t by simp
  then show ?thesis using assms t until_char_found [of "CHR ''<''" x "CHR ''/'' # t @ CHR ''>'' # r"]
    by (subst read_html.simps) (simp add: until_char_found)
qed

lemma read_text:
  assumes "x \<noteq> []" and "CHR ''<'' \<notin> set x"
  shows "read_html (x @ CHR ''<'' # r) = Txt (html_unescape x) # read_html (CHR ''<'' # r)"
proof -
  obtain c y where x: "x = c # y" using assms(1) by (cases x) auto
  then have "until_char (CHR ''<'') (y @ CHR ''<'' # r) = (y, CHR ''<'' # r)"
    using assms(2) by (intro until_char_found) simp
  then show ?thesis using assms(2) x by (subst read_html.simps) auto
qed

lemma text_follows_html: "text_follows items \<Longrightarrow> \<exists>r. items_html items = CHR ''<'' # r"
  by (cases items rule: text_follows.cases) auto

lemma read_items: "closed_items items \<Longrightarrow> read_html (items_html items) = shown items"
proof (induction items rule: closed_items.induct)
  case 1
  then show ?case by (simp add: read_html.simps)
next
  case (2 t items)
  then show ?case by (simp add: read_tag)
next
  case (3 t x items)
  then show ?case using read_raw [of t x "items_html items"] by simp
next
  case (4 x items)
  then obtain r where r: "items_html items = CHR ''<'' # r" using text_follows_html by auto
  show ?case
  proof (cases "x = []")
    case True
    then show ?thesis using 4 by simp
  next
    case False
    then show ?thesis using 4 r by (simp add: read_text html_escape_no_bracket)
  qed
qed

lemma text_follows_append: "text_follows items \<Longrightarrow> text_follows (items @ items')"
  by (cases items rule: text_follows.cases) auto

lemma closed_append: "closed_items items \<Longrightarrow> closed_items items' \<Longrightarrow> closed_items (items @ items')"
  by (induction items rule: closed_items.induct) (auto intro: text_follows_append)

lemma closed_concat: "(\<And>x. x \<in> set xs \<Longrightarrow> closed_items (f x)) \<Longrightarrow> closed_items (concat (map f xs))"
  by (induction xs) (auto intro: closed_append)

subsection \<open>What a page shows\<close>

definition element :: "string \<Rightarrow> string \<Rightarrow> html_item list \<Rightarrow> html_item list" where
  "element t attributes items = Tag (t @ attributes) # items @ [Tag (CHR ''/'' # t)]"

definition cells :: "string \<Rightarrow> string list \<Rightarrow> html_item list" where
  "cells t xs = concat (map (\<lambda>x. element t [] [Txt x]) xs)"

definition metric_items :: "string \<times> string \<Rightarrow> html_item list" where
  "metric_items = (\<lambda>(label, value).
     element ''div'' '' class=\"metric\"''
       (element ''div'' '' class=\"metric-label\"'' [Txt label] @ element ''div'' '' class=\"metric-value\"'' [Txt value]))"

definition metric_row :: "(string \<times> string) list \<Rightarrow> html_item list" where
  "metric_row metrics = element ''div'' '' class=\"metric-row\"'' (concat (map metric_items metrics))"

definition table_items :: "string list \<Rightarrow> string list list \<Rightarrow> html_item list" where
  "table_items headings rows =
     element ''table'' [] (element ''thead'' [] (element ''tr'' [] (cells ''th'' headings)) @
       element ''tbody'' [] (concat (map (\<lambda>row. element ''tr'' [] (cells ''td'' row)) rows)))"

definition chip_row :: "string list \<Rightarrow> html_item list" where
  "chip_row chips =
     element ''div'' '' class=\"chip-row\"'' (concat (map (\<lambda>x. element ''span'' '' class=\"chip\"'' [Txt x]) chips))"

definition section_items :: "string \<Rightarrow> html_item list \<Rightarrow> html_item list" where
  "section_items heading items =
     element ''section'' '' class=\"panel filterable\"'' (element ''h2'' [] [Txt heading] @ items)"

definition intro_items :: "string \<Rightarrow> html_item list" where
  "intro_items x = element ''p'' '' class=\"section-intro\"'' [Txt x]"

definition card_items :: "string \<Rightarrow> string \<Rightarrow> html_item list \<Rightarrow> html_item list" where
  "card_items cls title items =
     element ''article'' ('' class=\"'' @ cls @ [CHR 0x22]) (element ''h3'' [] [Txt title] @ items)"

definition frame_items :: "bytes \<Rightarrow> html_item list" where
  "frame_items bs =
     element ''pre'' [] [Txt (hex_bytes bs)] @ element ''div'' '' class=\"ascii\"'' [Txt (ascii_bytes bs)]"

definition definition_items :: "protocol_definition \<Rightarrow> html_item list" where
  "definition_items d =
     section_items ''Authoring Definition''
       (intro_items ''Human-authored or discovered draft protocol definitions.'' @
        metric_row [(''Protocol'', pd_name d), (''Messages'', decimal (length (pd_messages d))),
          (''Structs'', decimal (length (pd_structs d)))] @
        concat (map (\<lambda>m. card_items ''layout-card'' (md_name m)
          (table_items [''Field'', ''Kind'', ''Width'', ''Notes'']
            (map (\<lambda>f. [fd_name f, field_kind_to_string (fd_kind f),
               (if fd_width_bytes f \<noteq> 0 then decimal (fd_width_bytes f) else decimal (fd_fixed_size f)), field_notes True f])
             (md_fields m)))) (pd_messages d)))"

definition compiled_items :: "compiled_protocol \<Rightarrow> html_item list" where
  "compiled_items p =
     section_items ''Compiled Protocol''
       (intro_items ''The immutable runtime view consumed by the decoder.'' @
        metric_row [(''Protocol'', cp_name p), (''Fingerprint'', decimal (unat (cp_fingerprint p))),
          (''Messages'', decimal (length (cp_messages p)))] @
        concat (map (\<lambda>m. card_items ''layout-card'' (cm_name m)
          (chip_row [''minimum_size='' @ decimal (cm_minimum_size m),
             ''allow_trailing='' @ yes_no ''true'' ''false'' (cm_allow_trailing_bytes m),
             ''dispatch_prefix='' @ hex_bytes (cm_dispatch_prefix m)] @
           table_items [''Field'', ''Kind'', ''Width'', ''Dynamic'']
            (map (\<lambda>f. [cf_name f, field_kind_to_string (cf_kind f),
               decimal (if cf_width_bytes f \<noteq> 0 then cf_width_bytes f else cf_fixed_size f),
               yes_no ''yes'' ''no'' (cf_dynamic_size f)])
             (cm_fields m)))) (cp_messages p)))"

definition discovered_sample_items :: "nat \<times> bytes \<Rightarrow> html_item list" where
  "discovered_sample_items = (\<lambda>(index, frame).
     element ''div'' '' class=\"frame-card\"'' (element ''h4'' [] [Txt (''Sample '' @ decimal index)] @ frame_items frame))"

definition discovered_message_items :: "discovered_message \<Rightarrow> html_item list" where
  "discovered_message_items m =
     card_items ''layout-card'' (dsm_name m)
       (chip_row [''samples='' @ decimal (dsm_sample_count m),
          ''size_range='' @ decimal (dsm_min_size m) @ ''-'' @ decimal (dsm_max_size m),
          ''prefix='' @ hex_bytes (dsm_common_prefix m)] @
        element ''p'' [] [Txt (dsm_strategy_summary m)] @
        table_items [''Draft Field'', ''Kind'', ''Notes'']
          (map (\<lambda>f. [fd_name f, field_kind_to_string (fd_kind f), field_notes False f]) (md_fields (dsm_draft_message m))) @
        (if dsm_sample_frames m \<noteq> []
         then element ''div'' '' class=\"frame-grid\"''
           (concat (map discovered_sample_items (enumerate 0 (dsm_sample_frames m))))
         else []))"

definition discovery_items :: "discovery_report \<Rightarrow> html_item list" where
  "discovery_items report =
     section_items ''Discovery Report''
       (intro_items ''Heuristic protocol discovery over sampled framed payloads.'' @
        metric_row [(''Protocol'', drp_protocol_name report), (''Frames'', decimal (drp_frames_analyzed report)),
          (''Discarded'', decimal (drp_frames_discarded report)),
          (''Fingerprint'', decimal (unat (drp_draft_fingerprint report)))] @
        concat (map discovered_message_items (drp_messages report)))"

definition samples_items :: "workbench_sample_frame list \<Rightarrow> html_item list" where
  "samples_items frames =
     section_items ''Sample Frames''
       (element ''div'' '' class=\"frame-grid\"''
         (concat (map (\<lambda>frame. card_items ''frame-card'' (wsf_label frame) (frame_items (wsf_bytes frame))) frames)))"

definition head_items :: "string \<Rightarrow> html_item list" where
  "head_items title =
     [Tag ''!DOCTYPE html'', Tag ''html lang=\"en\"'', Tag ''head'', Tag ''meta charset=\"utf-8\"'',
      Tag ''meta name=\"viewport\" content=\"width=device-width, initial-scale=1\"''] @
     element ''title'' [] [Txt title] @ [Raw ''style'' page_style, Raw ''script'' page_script, Tag ''/head'', Tag ''body''] @
     element ''header'' [] (element ''div'' '' class=\"shell\"''
       (element ''h1'' [] [Txt title] @
        element ''p'' [] [Txt (''Unified inspection for authoring definitions, discovery output, runtime metadata, and '' @
          ''captured frames.'')])) @
     [Tag ''main class=\"shell\"''] @
     element ''div'' '' class=\"toolbar\"''
       [Tag (''input id=\"filter\" class=\"search\" placeholder=\"Filter messages, fields, '' @
          ''strategies, or sample bytes\"'')]"

definition summary_items :: "workbench_page_input \<Rightarrow> html_item list" where
  "summary_items input =
     (case wpi_discovery_report input of
        Some report \<Rightarrow>
          metric_row [(''Discovery Clusters'', decimal (length (drp_messages report))),
            (''Frames Analyzed'', decimal (drp_frames_analyzed report)),
            (''Draft Fingerprint'', decimal (unat (drp_draft_fingerprint report)))]
      | None \<Rightarrow>
          (case wpi_compiled_protocol input of
             Some p \<Rightarrow>
               metric_row [(''Protocol'', cp_name p), (''Fingerprint'', decimal (unat (cp_fingerprint p))),
                 (''Messages'', decimal (length (cp_messages p)))]
           | None \<Rightarrow> []))"

definition page_items :: "workbench_page_input \<Rightarrow> html_item list" where
  "page_items input =
     head_items (wpi_title input) @ summary_items input @
     (case wpi_definition input of None \<Rightarrow> [] | Some d \<Rightarrow> definition_items d) @
     (case wpi_compiled_protocol input of None \<Rightarrow> [] | Some p \<Rightarrow> compiled_items p) @
     (case wpi_discovery_report input of None \<Rightarrow> [] | Some report \<Rightarrow> discovery_items report) @
     (if wpi_sample_frames input \<noteq> [] then samples_items (wpi_sample_frames input) else []) @
     [Tag ''/main'', Tag ''/body'', Tag ''/html'']"

subsection \<open>The rendered page is the page of the items\<close>

lemma items_html_element:
  "items_html (element t attributes items) =
     CHR ''<'' # t @ attributes @ CHR ''>'' # items_html items @ ''</'' @ t @ [CHR ''>'']"
  by (simp add: element_def)

lemma items_html_concat: "items_html (concat (map f xs)) = concat (map (\<lambda>x. items_html (f x)) xs)"
  by (induction xs) simp_all

lemma html_escape_plain: "(\<And>c. c \<in> set s \<Longrightarrow> html_escape_char c = [c]) \<Longrightarrow> html_escape s = s"
  by (induction s) auto

lemma escape_digit: "n < 10 \<Longrightarrow> html_escape_char (char_of (48 + n :: nat)) = [char_of (48 + n)]"
  by (auto simp: html_escape_char_def char_of_eq_iff take_bit_eq_mod)

lemma html_escape_decimal: "html_escape (decimal n) = decimal n"
proof (induction n rule: decimal.induct)
  case (1 n)
  then show ?case by (subst (1 2) decimal.simps) (simp add: escape_digit)
qed

lemma html_escape_yes_no: "html_escape (yes_no a b c) = yes_no (html_escape a) (html_escape b) c"
  by (simp add: yes_no_def)

lemmas html_rendering =
  items_html_element items_html_concat html_escape_decimal html_escape_yes_no html_escape_char_def
  cells_def table_items_def metric_items_def metric_row_def chip_row_def section_items_def intro_items_def card_items_def
  frame_items_def append_metric_def [abs_def]

lemma definition_html: "append_protocol_definition_section d = items_html (definition_items d)"
  by (simp add: append_protocol_definition_section_def definition_items_def definition_message_card_def [abs_def]
      definition_field_row_def [abs_def] html_rendering del: decimal.simps)

lemma compiled_html: "append_compiled_protocol_section p = items_html (compiled_items p)"
  by (simp add: append_compiled_protocol_section_def compiled_items_def compiled_message_card_def [abs_def]
      compiled_field_row_def [abs_def] html_rendering)

lemma discovered_sample_html: "discovered_sample_card x = items_html (discovered_sample_items x)"
  by (cases x) (simp add: discovered_sample_card_def discovered_sample_items_def html_rendering)

lemma discovered_message_html: "discovered_message_card m = items_html (discovered_message_items m)"
  by (simp add: discovered_message_card_def discovered_message_items_def draft_field_row_def [abs_def]
      discovered_sample_html [abs_def] html_rendering)

lemma discovery_html: "append_discovery_section report = items_html (discovery_items report)"
  by (simp add: append_discovery_section_def discovery_items_def discovered_message_html [abs_def] html_rendering)

lemma samples_html: "append_samples_section frames = items_html (samples_items frames)"
  by (simp add: append_samples_section_def samples_items_def sample_frame_card_def [abs_def] html_rendering)

lemma head_html: "append_page_head title = items_html (head_items title)"
  by (simp add: append_page_head_def head_items_def html_rendering)

lemma summary_html: "append_summary input = items_html (summary_items input)"
  by (auto simp: append_summary_def summary_items_def html_rendering split: option.splits)

lemma page_html: "render_workbench_html input = Inr html \<Longrightarrow> html = items_html (page_items input)"
  by (auto simp: render_workbench_html_def page_items_def head_html summary_html definition_html compiled_html
      discovery_html samples_html split: option.splits if_splits)

text \<open>The pages are closed.\<close>

lemma page_style_raw: "CHR ''<'' \<notin> set page_style"
  by (simp add: page_style_def)

lemma page_script_raw: "CHR ''<'' \<notin> set page_script"
  by (simp add: page_script_def)

lemma closed_element:
  assumes "CHR ''>'' \<notin> set (t @ attributes)" and "\<not> raw_element (t @ attributes)" and "closed_items (items @ [Tag (CHR ''/'' # t)])"
  shows "closed_items (element t attributes items)"
  using assms by (simp add: element_def)

lemma closing_tag: "CHR ''>'' \<notin> set t \<Longrightarrow> closed_items [Tag (CHR ''/'' # t)]"
  by (simp add: raw_element_def)

lemma closed_parts:
  "closed_items (cells ''td'' xs)" "closed_items (cells ''th'' xs)"
  "closed_items (intro_items x)" "closed_items (frame_items bs)"
  by (auto simp: cells_def intro_items_def frame_items_def element_def raw_element_def intro!: closed_concat)

lemma closed_metric_row: "closed_items (metric_row metrics)"
  unfolding metric_row_def
  by (rule closed_element)
    (auto simp: metric_items_def element_def raw_element_def intro!: closed_append closed_concat)

lemma closed_chip_row: "closed_items (chip_row chips)"
  unfolding chip_row_def
  by (rule closed_element) (auto simp: element_def raw_element_def intro!: closed_append closed_concat)

lemma closed_row: "closed_items (element ''tr'' [] (cells ''td'' xs))" "closed_items (element ''tr'' [] (cells ''th'' xs))"
  by (auto simp: raw_element_def intro!: closed_element closed_append closed_parts)

lemma closed_table: "closed_items (table_items headings rows)"
  unfolding table_items_def
  by (auto simp: raw_element_def intro!: closed_element closed_append closed_concat closed_row)

lemma closed_section: "closed_items items \<Longrightarrow> closed_items (section_items heading items)"
  unfolding section_items_def
  by (auto simp: raw_element_def element_def intro!: closed_append)

lemma closed_card:
  "closed_items items \<Longrightarrow> closed_items (card_items ''layout-card'' title items)"
  "closed_items items \<Longrightarrow> closed_items (card_items ''frame-card'' title items)"
  unfolding card_items_def by (auto simp: raw_element_def element_def intro!: closed_append)

lemmas closed_rules = closed_append closed_concat closed_parts closed_metric_row closed_chip_row closed_table closed_section
  closed_card

lemma closed_definition: "closed_items (definition_items d)"
  unfolding definition_items_def by (intro closed_rules)

lemma closed_compiled: "closed_items (compiled_items p)"
  unfolding compiled_items_def by (intro closed_rules)

lemma closed_discovered_sample: "closed_items (discovered_sample_items x)"
  by (cases x) (auto simp: discovered_sample_items_def element_def raw_element_def intro!: closed_append closed_parts)

lemma closed_discovered: "closed_items (discovered_message_items m)"
  unfolding discovered_message_items_def
  by (intro closed_rules)
    (auto simp: element_def raw_element_def intro!: closed_append closed_concat closed_discovered_sample)

lemma closed_discovery: "closed_items (discovery_items report)"
  unfolding discovery_items_def by (intro closed_rules closed_discovered)

lemma closed_samples: "closed_items (samples_items frames)"
  unfolding samples_items_def
  by (auto simp: element_def raw_element_def intro!: closed_rules)

lemma closed_head: "closed_items (head_items title)"
  using page_style_raw page_script_raw by (simp add: head_items_def element_def raw_element_def)

lemma closed_summary: "closed_items (summary_items input)"
  by (auto simp: summary_items_def intro: closed_metric_row split: option.splits)

lemma closed_page: "closed_items (page_items input)"
  unfolding page_items_def
  by (auto simp: raw_element_def split: option.splits
      intro!: closed_append closed_head closed_summary closed_definition closed_compiled closed_discovery closed_samples)

subsection \<open>The markup of every page\<close>

definition template_tags :: "string list" where
  "template_tags =
     [''!DOCTYPE html'', ''html lang=\"en\"'', ''/html'', ''head'', ''/head'', ''body'', ''/body'', ''meta charset=\"utf-8\"'',
      ''meta name=\"viewport\" content=\"width=device-width, initial-scale=1\"'', ''title'', ''/title'',
      ''header'', ''/header'', ''main class=\"shell\"'', ''/main'', ''section class=\"panel filterable\"'', ''/section'',
      ''article class=\"layout-card\"'', ''article class=\"frame-card\"'', ''/article'',
      ''div class=\"shell\"'', ''div class=\"toolbar\"'', ''div class=\"metric-row\"'', ''div class=\"metric\"'',
      ''div class=\"metric-label\"'', ''div class=\"metric-value\"'', ''div class=\"chip-row\"'', ''div class=\"ascii\"'',
      ''div class=\"frame-grid\"'', ''div class=\"frame-card\"'', ''/div'', ''span class=\"chip\"'', ''/span'',
      ''h1'', ''/h1'', ''h2'', ''/h2'', ''h3'', ''/h3'', ''h4'', ''/h4'', ''p'', ''p class=\"section-intro\"'', ''/p'',
      ''pre'', ''/pre'', ''table'', ''/table'', ''thead'', ''/thead'', ''tbody'', ''/tbody'', ''tr'', ''/tr'',
      ''th'', ''/th'', ''td'', ''/td'',
      ''input id=\"filter\" class=\"search\" placeholder=\"Filter messages, fields, strategies, or sample bytes\"'']"

definition template_item :: "html_item \<Rightarrow> bool" where
  "template_item item \<longleftrightarrow>
     (case item of
        Tag t \<Rightarrow> t \<in> set template_tags
      | Raw t x \<Rightarrow> (t, x) = (''style'', page_style) \<or> (t, x) = (''script'', page_script)
      | Txt x \<Rightarrow> True)"

lemma template_item_simps [simp]:
  "template_item (Tag t) \<longleftrightarrow> t \<in> set template_tags" "template_item (Txt x)"
  "template_item (Raw ''style'' page_style)" "template_item (Raw ''script'' page_script)"
  by (simp_all add: template_item_def)

lemma template_element:
  "list_all template_item (element t attributes items) \<longleftrightarrow>
     t @ attributes \<in> set template_tags \<and> list_all template_item items \<and> CHR ''/'' # t \<in> set template_tags"
  by (simp add: element_def)

lemma template_concat: "list_all template_item (concat (map f xs)) \<longleftrightarrow> (\<forall>x\<in>set xs. list_all template_item (f x))"
  by (induction xs) simp_all

lemmas template_rules = template_element template_concat template_tags_def

lemma template_parts:
  "list_all template_item (metric_row metrics)" "list_all template_item (chip_row chips)"
  "list_all template_item (table_items headings rows)" "list_all template_item (intro_items x)"
  "list_all template_item (frame_items bs)"
  by (simp_all add: metric_row_def metric_items_def chip_row_def table_items_def cells_def intro_items_def frame_items_def
      template_rules split: prod.splits)

lemma template_section: "list_all template_item items \<Longrightarrow> list_all template_item (section_items heading items)"
  by (simp add: section_items_def template_rules)

lemma template_card:
  "list_all template_item items \<Longrightarrow> list_all template_item (card_items ''layout-card'' title items)"
  "list_all template_item items \<Longrightarrow> list_all template_item (card_items ''frame-card'' title items)"
  by (simp_all add: card_items_def template_rules)

lemma template_page: "list_all template_item (page_items input)"
proof -
  have "list_all template_item (definition_items d)" for d
    by (simp add: definition_items_def template_section template_parts template_card template_concat)
  moreover have "list_all template_item (compiled_items p)" for p
    by (simp add: compiled_items_def template_section template_parts template_card template_concat)
  moreover have sample: "list_all template_item (discovered_sample_items x)" for x
    by (cases x) (simp add: discovered_sample_items_def template_parts template_rules)
  moreover have message: "list_all template_item (discovered_message_items m)" for m
    by (simp add: discovered_message_items_def template_parts template_card template_rules sample)
  moreover have "list_all template_item (discovery_items report)" for report
    by (simp add: discovery_items_def template_section template_parts template_concat message)
  moreover have "list_all template_item (samples_items frames)" for frames
    by (simp add: samples_items_def template_section template_parts template_card template_rules)
  moreover have "list_all template_item (head_items title)" for title
    by (simp add: head_items_def template_rules)
  moreover have "list_all template_item (summary_items i)" for i
    by (simp add: summary_items_def template_parts split: option.splits)
  ultimately show ?thesis
    by (simp add: page_items_def split: option.splits) (simp add: template_tags_def)
qed

text \<open>C38: Pages are safe to show. Whatever the names, notes, summaries and bytes of a protocol, a report or a frame are, a
  browser that reads the rendered page sees the items of the page, each text as it is in the input, and no other: all
  markup comes from the template, and the only style sheet and script are its own.\<close>

theorem workbench_page_read:
  assumes "render_workbench_html input = Inr html"
  shows "read_html html = shown (page_items input) \<and> list_all template_item (read_html html)"
proof -
  have "read_html html = shown (page_items input)"
    using read_items [OF closed_page] page_html [OF assms] by simp
  then show ?thesis using template_page by (auto simp: shown_def list_all_iff)
qed

definition hostile_page :: workbench_page_input where
  "hostile_page =
     \<lparr>wpi_title = ''a & b'', wpi_definition = None, wpi_compiled_protocol = None, wpi_discovery_report = None,
      wpi_sample_frames = [\<lparr>wsf_label = ''<script>x</script>'', wsf_bytes = [0x3C, 0x62, 0x3E]\<rparr>]\<rparr>"

lemma workbench_page_read_witness:
  "\<exists>html. render_workbench_html hostile_page = Inr html \<and> {Txt ''a & b'', Txt ''<script>x</script>'', Txt ''<b>''} \<subseteq> set (read_html html) \<and>
     Tag ''script'' \<notin> set (read_html html)"
proof -
  obtain html where html: "render_workbench_html hostile_page = Inr html"
    by (simp add: render_workbench_html_def hostile_page_def)
  from workbench_page_read [OF html] have read: "read_html html = shown (page_items hostile_page)"
    and template: "list_all template_item (read_html html)" by blast+
  have chars: "CHR ''<'' = char_of (60 :: nat)" "CHR ''b'' = char_of (98 :: nat)" "CHR ''>'' = char_of (62 :: nat)"
    by (simp_all add: eq_commute [of "CHR ''<''"] eq_commute [of "CHR ''b''"] eq_commute [of "CHR ''>''"] char_of_eq_iff)
  have "\<not> template_item (Tag ''script'')" by (simp add: template_tags_def)
  then have "Tag ''script'' \<notin> set (read_html html)" using template by (auto simp: list_all_iff)
  moreover have "{Txt ''a & b'', Txt ''<script>x</script>'', Txt ''<b>''} \<subseteq> set (read_html html)"
    unfolding read using chars
    by (simp add: hostile_page_def page_items_def head_items_def summary_items_def samples_items_def section_items_def
        card_items_def frame_items_def element_def ascii_bytes_def)
  ultimately show ?thesis using html by blast
qed

end
