(* ===== verification/Codegen_Names.thy ===== *)
theory Codegen_Names
  imports Schema_Parser Protocol_Discovery
begin

text \<open>
  The names and literals of generated code: \<open>upr_codegen/src/codegen/bindings_generator_common.inc\<close>, which every
  generator (C++, Python, TypeScript) uses. The functions of the C library on characters are those of the C locale.
\<close>

subsection \<open>Words\<close>

definition is_alnum :: "char \<Rightarrow> bool" where
  "is_alnum c \<longleftrightarrow> is_alpha c \<or> is_digit c"

fun tokenize_words_loop :: "string list \<Rightarrow> string \<Rightarrow> string \<Rightarrow> string list" where
  "tokenize_words_loop tokens current [] = (if current \<noteq> [] then tokens @ [current] else tokens)"
| "tokenize_words_loop tokens current (ch # s) =
     (if is_alnum ch then tokenize_words_loop tokens (current @ [ch]) s
      else if current \<noteq> [] then tokenize_words_loop (tokens @ [current]) [] s
      else tokenize_words_loop tokens [] s)"

definition tokenize_words :: "string \<Rightarrow> string list" where
  "tokenize_words value = tokenize_words_loop [] [] value"

definition char_upper :: "char \<Rightarrow> char" where
  "char_upper c = (if char_between 97 122 c then char_of (of_char c - 32 :: nat) else c)"

definition upper_text :: "string \<Rightarrow> string" where
  "upper_text s = map char_upper s"

text \<open>The loops that put an underscore before every token but the first.\<close>

fun join_tokens :: "string list \<Rightarrow> string" where
  "join_tokens [] = []"
| "join_tokens [token] = token"
| "join_tokens (token # tokens) = token @ ''_'' @ join_tokens tokens"

subsection \<open>Names\<close>

definition sanitize_namespace_segment :: "string \<Rightarrow> string" where
  "sanitize_namespace_segment value =
     (let tokens = tokenize_words value in
      if tokens = [] then ''generated''
      else
        let result = join_tokens (map to_lower tokens) in
        if is_digit (hd result) then ''generated_'' @ result else result)"

text \<open>\<open>value.find("::")\<close>: the text before the delimiter and, when there is one, the text after it.\<close>

fun split_scope :: "string \<Rightarrow> string \<times> string option" where
  "split_scope [] = ([], None)"
| "split_scope [c] = ([c], None)"
| "split_scope (c # d # s) =
     (if c = CHR '':'' \<and> d = CHR '':'' then ([], Some s)
      else (case split_scope (d # s) of (segment, rest) \<Rightarrow> (c # segment, rest)))"

lemma split_scope_shorter: "split_scope s = (segment, Some rest) \<Longrightarrow> length rest < length s"
  by (induction s arbitrary: segment rest rule: split_scope.induct) (auto split: if_splits prod.splits)

function sanitize_namespace_loop :: "bool \<Rightarrow> string \<Rightarrow> string" where
  "sanitize_namespace_loop first_segment value =
     (case split_scope value of (segment, rest) \<Rightarrow>
      let result = (if first_segment then [] else ''::'') @ sanitize_namespace_segment segment in
      case rest of None \<Rightarrow> result | Some rest \<Rightarrow> result @ sanitize_namespace_loop False rest)"
  by pat_completeness auto
termination
  by (relation "measure (\<lambda>(_, s). length s)") (auto dest!: sym [of "(_, _)"] split_scope_shorter)

declare sanitize_namespace_loop.simps [simp del]

definition sanitize_namespace_name :: "string \<Rightarrow> string" where
  "sanitize_namespace_name value =
     (let result = sanitize_namespace_loop True value in if result = [] then ''generated'' else result)"

definition capitalized_token :: "string \<Rightarrow> string" where
  "capitalized_token token = (if is_digit (hd token) then ''N'' else []) @ char_upper (hd token) # tl token"

definition sanitize_type_name :: "string \<Rightarrow> string" where
  "sanitize_type_name value =
     (let tokens = tokenize_words value in
      if tokens = [] then ''GeneratedBinding'' else concat (map capitalized_token tokens))"

definition sanitize_cpp_constant_name :: "string \<Rightarrow> string" where
  "sanitize_cpp_constant_name value =
     (let tokens = tokenize_words value in
      if tokens = [] then ''kUnnamed'' else ''k'' @ concat (map capitalized_token tokens))"

definition sanitize_python_constant_name :: "string \<Rightarrow> string" where
  "sanitize_python_constant_name value =
     (let tokens = tokenize_words value in
      if tokens = [] then ''UNNAMED''
      else
        let result = join_tokens (map upper_text tokens) in
        if is_digit (hd result) then ''N_'' @ result else result)"

definition sanitize_header_guard :: "string \<Rightarrow> string" where
  "sanitize_header_guard value =
     (let tokens = tokenize_words value in
      if tokens = [] then ''UNIVERSAL_PROTOCOL_RUNTIME__GENERATED_BINDINGS_HPP_''
      else ''UNIVERSAL_PROTOCOL_RUNTIME__'' @ join_tokens (map upper_text tokens) @ ''_HPP_'')"

definition is_valid_header_guard :: "string \<Rightarrow> bool" where
  "is_valid_header_guard value \<longleftrightarrow>
     value \<noteq> [] \<and> list_all (\<lambda>ch. is_alnum ch \<or> ch = CHR ''_'') value \<and> (is_alpha (hd value) \<or> hd value = CHR ''_'')"

subsection \<open>Literals\<close>

definition hex_escape :: "char \<Rightarrow> string" where
  "hex_escape ch = backslash # CHR ''x'' # hex_byte (word_of_nat (of_char ch))"

definition escape_cpp_char :: "char \<Rightarrow> string" where
  "escape_cpp_char ch =
     (if ch = backslash then [backslash, backslash]
      else if ch = double_quote then [backslash, double_quote]
      else if ch = newline then [backslash, CHR ''n'']
      else if ch = carriage_return then [backslash, CHR ''r'']
      else if ch = tabulator then [backslash, CHR ''t'']
      else if char_between 0x20 0x7E ch then [ch]
      else hex_escape ch)"

definition escape_cpp_string :: "string \<Rightarrow> string" where
  "escape_cpp_string value = concat (map escape_cpp_char value)"

definition escape_python_string :: "string \<Rightarrow> string" where
  "escape_python_string value = escape_cpp_string value"

fun cpp_field_kind_literal :: "field_kind \<Rightarrow> string" where
  "cpp_field_kind_literal KUnsigned = ''universal_protocol_runtime::FieldKind::kUnsigned''"
| "cpp_field_kind_literal KSigned = ''universal_protocol_runtime::FieldKind::kSigned''"
| "cpp_field_kind_literal KFloat32 = ''universal_protocol_runtime::FieldKind::kFloat32''"
| "cpp_field_kind_literal KFloat64 = ''universal_protocol_runtime::FieldKind::kFloat64''"
| "cpp_field_kind_literal KBytes = ''universal_protocol_runtime::FieldKind::kBytes''"
| "cpp_field_kind_literal KString = ''universal_protocol_runtime::FieldKind::kString''"
| "cpp_field_kind_literal KStruct = ''universal_protocol_runtime::FieldKind::kStruct''"
| "cpp_field_kind_literal KEnum = ''universal_protocol_runtime::FieldKind::kEnum''"
| "cpp_field_kind_literal KCollection = ''universal_protocol_runtime::FieldKind::kCollection''"
| "cpp_field_kind_literal KVariant = ''universal_protocol_runtime::FieldKind::kVariant''"

fun cpp_byte_order_literal :: "byte_order \<Rightarrow> string" where
  "cpp_byte_order_literal LittleEndian = ''universal_protocol_runtime::ByteOrder::kLittleEndian''"
| "cpp_byte_order_literal BigEndian = ''universal_protocol_runtime::ByteOrder::kBigEndian''"

fun cpp_string_encoding_literal :: "string_encoding \<Rightarrow> string" where
  "cpp_string_encoding_literal Ascii = ''universal_protocol_runtime::StringEncoding::kAscii''"
| "cpp_string_encoding_literal Utf8 = ''universal_protocol_runtime::StringEncoding::kUtf8''"

fun join_comma :: "string list \<Rightarrow> string" where
  "join_comma [] = []"
| "join_comma [x] = x"
| "join_comma (x # xs) = x @ '', '' @ join_comma xs"

definition cpp_byte_array_literal :: "bytes \<Rightarrow> string" where
  "cpp_byte_array_literal bs =
     ''std::array<std::byte, '' @ decimal (length bs) @ ''>{'' @
     join_comma (map (\<lambda>b. ''static_cast<std::byte>(0x'' @ hex_byte b @ '')'') bs) @ ''}''"

definition python_bytes_literal :: "bytes \<Rightarrow> string" where
  "python_bytes_literal bs = ''b'' @ double_quote # concat (map (\<lambda>b. backslash # CHR ''x'' # hex_byte b) bs) @ [double_quote]"

definition cpp_unsigned_storage_type :: "nat \<Rightarrow> string" where
  "cpp_unsigned_storage_type width_bytes =
     (if width_bytes \<le> 1 then ''uint8_t'' else if width_bytes \<le> 2 then ''uint16_t''
      else if width_bytes \<le> 4 then ''uint32_t'' else ''uint64_t'')"

definition cpp_signed_storage_type :: "nat \<Rightarrow> string" where
  "cpp_signed_storage_type width_bytes =
     (if width_bytes \<le> 1 then ''int8_t'' else if width_bytes \<le> 2 then ''int16_t''
      else if width_bytes \<le> 4 then ''int32_t'' else ''int64_t'')"

end
