(* ===== verification/Codegen_Names_Properties.thy ===== *)
theory Codegen_Names_Properties
  imports Codegen_Names Text_Validation
begin

text \<open>
  The names of generated code are identifiers, and what its string literals denote: readers of C++ and of
  Python literals, and for which texts the escaped text is read back as it was. A literal of C++ denotes bytes, one of Python
  or TypeScript a sequence of code points.
\<close>

subsection \<open>Identifiers\<close>

definition word_char :: "char \<Rightarrow> bool" where
  "word_char c \<longleftrightarrow> is_alnum c \<or> c = CHR ''_''"

definition identifier_text :: "string \<Rightarrow> bool" where
  "identifier_text s \<longleftrightarrow> s \<noteq> [] \<and> list_all word_char s \<and> \<not> is_digit (hd s)"

definition token_list :: "string list \<Rightarrow> bool" where
  "token_list tokens \<longleftrightarrow> list_all (\<lambda>token. token \<noteq> [] \<and> list_all is_alnum token) tokens"

lemma tokenize_loop_tokens:
  "token_list tokens \<Longrightarrow> list_all is_alnum current \<Longrightarrow> token_list (tokenize_words_loop tokens current s)"
  by (induction tokens current s rule: tokenize_words_loop.induct) (auto simp: token_list_def)

lemma tokenize_words_tokens: "token_list (tokenize_words v)"
  unfolding tokenize_words_def by (rule tokenize_loop_tokens) (simp_all add: token_list_def)

lemma char_between_upper: "char_between 97 122 c \<Longrightarrow> char_between 65 90 (char_upper c)"
  by (auto simp: char_between_def char_upper_def take_bit_eq_mod)

lemma alnum_upper: "is_alnum c \<Longrightarrow> is_alnum (char_upper c)"
  using char_between_upper [of c] by (auto simp: is_alnum_def is_alpha_def char_upper_def)

lemma digit_upper: "is_digit (char_upper c) \<longleftrightarrow> is_digit c"
  by (auto simp: is_digit_def char_between_def char_upper_def take_bit_eq_mod)

lemma alnum_lower: "is_alnum c \<Longrightarrow> is_alnum (tolower c)"
  by (cases "char_between 65 90 c") (auto simp: is_alnum_def is_alpha_def is_digit_def char_between_def tolower_def take_bit_eq_mod)

lemma word_char_alnum: "is_alnum c \<Longrightarrow> word_char c"
  by (simp add: word_char_def)

lemma token_list_map:
  "token_list tokens \<Longrightarrow> token_list (map to_lower tokens)" "token_list tokens \<Longrightarrow> token_list (map upper_text tokens)"
  by (auto simp: token_list_def to_lower_def upper_text_def list_all_iff alnum_lower alnum_upper)

lemma join_tokens_Cons: "join_tokens (token # tokens) = token @ (if tokens = [] then [] else ''_'' @ join_tokens tokens)"
  by (cases tokens) simp_all

lemma join_tokens_words:
  "token_list tokens \<Longrightarrow> tokens \<noteq> [] \<Longrightarrow>
     join_tokens tokens \<noteq> [] \<and> list_all word_char (join_tokens tokens) \<and> is_alnum (hd (join_tokens tokens))"
proof (induction tokens)
  case Nil
  then show ?case by simp
next
  case (Cons token tokens)
  have "token \<noteq> []" "list_all is_alnum token" "token_list tokens"
    using Cons.prems by (auto simp: token_list_def)
  then show ?case using Cons.IH
    by (cases tokens) (auto simp: join_tokens_Cons list_all_iff word_char_def)
qed

lemma prefixed_identifier:
  "list_all word_char s \<Longrightarrow> identifier_text (''generated_'' @ s)" "list_all word_char s \<Longrightarrow> identifier_text (''N_'' @ s)"
  by (simp_all add: identifier_text_def word_char_def is_alnum_def is_alpha_def is_digit_def char_between_def)

lemma segment_identifier: "identifier_text (sanitize_namespace_segment v)"
proof (cases "tokenize_words v = []")
  case True
  then show ?thesis
    using prefixed_identifier(1) [of "[]"] unfolding sanitize_namespace_segment_def
    by (simp add: identifier_text_def word_char_def is_alnum_def is_alpha_def is_digit_def char_between_def)
next
  case False
  let ?result = "join_tokens (map to_lower (tokenize_words v))"
  have r: "?result \<noteq> []" "list_all word_char ?result"
    using join_tokens_words [OF token_list_map(1) [OF tokenize_words_tokens]] False by simp_all
  then show ?thesis using False prefixed_identifier(1) [OF r(2)]
    unfolding sanitize_namespace_segment_def Let_def
    by (cases "is_digit (hd ?result)") (simp_all only: if_True if_False simp_thms identifier_text_def)
qed

lemma capitalized_words:
  assumes "token \<noteq> []" and "list_all is_alnum token"
  shows "list_all word_char (capitalized_token token) \<and> capitalized_token token \<noteq> [] \<and> \<not> is_digit (hd (capitalized_token token))"
  using assms alnum_upper [of "hd token"] digit_upper [of "hd token"]
  by (cases token)
    (auto simp: capitalized_token_def list_all_iff word_char_def is_alnum_def is_alpha_def is_digit_def char_between_def)

lemma capitalized_all:
  "token_list tokens \<Longrightarrow> list_all word_char (concat (map capitalized_token tokens)) \<and>
     (tokens \<noteq> [] \<longrightarrow> concat (map capitalized_token tokens) \<noteq> [] \<and> \<not> is_digit (hd (concat (map capitalized_token tokens))))"
proof (induction tokens)
  case Nil
  then show ?case by simp
next
  case (Cons token tokens)
  then have "token \<noteq> []" "list_all is_alnum token" "token_list tokens" by (simp_all add: token_list_def)
  then show ?case using Cons.IH capitalized_words [of token] by simp
qed

lemma type_name_identifier: "identifier_text (sanitize_type_name v)"
proof (cases "tokenize_words v = []")
  case True
  then show ?thesis
    by (simp add: sanitize_type_name_def identifier_text_def word_char_def is_alnum_def is_alpha_def is_digit_def
        char_between_def)
next
  case False
  then show ?thesis using capitalized_all [OF tokenize_words_tokens [of v]]
    by (simp add: sanitize_type_name_def identifier_text_def)
qed

lemma constant_identifier: "identifier_text (sanitize_cpp_constant_name v)"
proof (cases "tokenize_words v = []")
  case True
  then show ?thesis
    by (simp add: sanitize_cpp_constant_name_def identifier_text_def word_char_def is_alnum_def is_alpha_def is_digit_def
        char_between_def)
next
  case False
  then show ?thesis using capitalized_all [OF tokenize_words_tokens [of v]]
    by (simp add: sanitize_cpp_constant_name_def identifier_text_def word_char_def is_alnum_def is_alpha_def
        is_digit_def char_between_def)
qed

lemma python_constant_identifier: "identifier_text (sanitize_python_constant_name v)"
proof (cases "tokenize_words v = []")
  case True
  then show ?thesis
    by (simp add: sanitize_python_constant_name_def identifier_text_def word_char_def is_alnum_def is_alpha_def
        is_digit_def char_between_def)
next
  case False
  let ?result = "join_tokens (map upper_text (tokenize_words v))"
  have r: "?result \<noteq> []" "list_all word_char ?result"
    using join_tokens_words [OF token_list_map(2) [OF tokenize_words_tokens]] False by simp_all
  then show ?thesis using False prefixed_identifier(2) [OF r(2)]
    unfolding sanitize_python_constant_name_def Let_def
    by (cases "is_digit (hd ?result)") (simp_all only: if_True if_False simp_thms identifier_text_def)
qed

lemma header_guard_valid: "is_valid_header_guard (sanitize_header_guard v)"
proof (cases "tokenize_words v = []")
  case True
  then show ?thesis
    by (simp add: sanitize_header_guard_def is_valid_header_guard_def is_alnum_def is_alpha_def is_digit_def char_between_def)
next
  case False
  then have "list_all word_char (join_tokens (map upper_text (tokenize_words v)))"
    using join_tokens_words [OF token_list_map(2) [OF tokenize_words_tokens]] by simp
  then show ?thesis using False
    by (simp add: sanitize_header_guard_def is_valid_header_guard_def word_char_def [abs_def] is_alnum_def is_alpha_def
        is_digit_def char_between_def)
qed

text \<open>A name with scopes: identifiers with the delimiter between them.\<close>

fun join_scopes :: "string list \<Rightarrow> string" where
  "join_scopes [] = []"
| "join_scopes [segment] = segment"
| "join_scopes (segment # segments) = segment @ ''::'' @ join_scopes segments"

lemma join_scopes_Cons: "join_scopes (s # ss) = s @ (if ss = [] then [] else ''::'' @ join_scopes ss)"
  by (cases ss) simp_all

lemma namespace_loop_scopes:
  "\<exists>segments. segments \<noteq> [] \<and> list_all identifier_text segments \<and>
     sanitize_namespace_loop b v = (if b then [] else ''::'') @ join_scopes segments"
proof (induction b v rule: sanitize_namespace_loop.induct)
  case (1 b v)
  obtain segment rest where split: "split_scope v = (segment, rest)" by (cases "split_scope v")
  show ?case
  proof (cases rest)
    case None
    then show ?thesis using split segment_identifier
      by (intro exI [of _ "[sanitize_namespace_segment segment]"])
        (simp add: sanitize_namespace_loop.simps [of b v])
  next
    case (Some r)
    obtain segments where "segments \<noteq> []" "list_all identifier_text segments"
      "sanitize_namespace_loop False r = ''::'' @ join_scopes segments"
      using "1.IH" [OF split [symmetric] refl Some] by auto
    then show ?thesis using split segment_identifier Some
      by (intro exI [of _ "sanitize_namespace_segment segment # segments"])
        (simp add: sanitize_namespace_loop.simps [of b v] join_scopes_Cons)
  qed
qed

lemma namespace_scopes: "\<exists>segments. segments \<noteq> [] \<and> list_all identifier_text segments \<and> sanitize_namespace_name v = join_scopes segments"
proof -
  obtain segments where s: "segments \<noteq> []" "list_all identifier_text segments"
    "sanitize_namespace_loop True v = join_scopes segments"
    using namespace_loop_scopes [of True v] by auto
  moreover have "join_scopes segments \<noteq> []"
    using s(1,2) by (cases segments) (auto simp: join_scopes_Cons identifier_text_def)
  ultimately show ?thesis by (intro exI [of _ segments]) (simp add: sanitize_namespace_name_def)
qed

subsection \<open>What a literal denotes\<close>

definition hex_value :: "char \<Rightarrow> nat" where
  "hex_value c = (let n = of_char c in if n \<le> 57 then n - 48 else if n \<le> 70 then n - 55 else n - 87)"

definition hex_number :: "string \<Rightarrow> nat" where
  "hex_number ds = foldl (\<lambda>n c. n * 16 + hex_value c) 0 ds"

definition simple_escape :: "char \<Rightarrow> char option" where
  "simple_escape e =
     (if e = backslash \<or> e = double_quote then Some e
      else if e = CHR ''n'' then Some newline
      else if e = CHR ''r'' then Some carriage_return
      else if e = CHR ''t'' then Some tabulator
      else None)"

text \<open>
  The units of the body of a literal, \<open>None\<close> when it is ill-formed. The number of hexadecimal digits a \<open>\x\<close> takes is
  that of the language: in C++ all that follow, and the value must fit in a byte; in Python and JavaScript two.
\<close>

function literal_text :: "(string \<Rightarrow> string) \<Rightarrow> string \<Rightarrow> string option" where
  "literal_text digits s =
     (case s of
        [] \<Rightarrow> Some []
      | c # r \<Rightarrow>
          if c = double_quote \<or> c = newline then None
          else if c \<noteq> backslash then map_option ((#) c) (literal_text digits r)
          else
            (case r of
               [] \<Rightarrow> None
             | e # r' \<Rightarrow>
                 if e = CHR ''x'' then
                   (let ds = digits r' in
                    if ds = [] \<or> \<not> list_all is_xdigit ds \<or> hex_number ds > 255 then None
                    else map_option ((#) (char_of (hex_number ds))) (literal_text digits (drop (length ds) r')))
                 else
                   (case simple_escape e of
                      None \<Rightarrow> None
                    | Some x \<Rightarrow> map_option ((#) x) (literal_text digits r'))))"
  by pat_completeness auto
termination by (relation "measure (\<lambda>(_, s). length s)") auto

declare literal_text.simps [simp del]

definition cpp_literal :: "string \<Rightarrow> string option" where
  "cpp_literal = literal_text (takeWhile is_xdigit)"

text \<open>
  In C++ a unit is a byte. In Python and in JavaScript the generators write literals of type \<open>str\<close> and \<open>string\<close>, whose
  units are code points: a character of the ASCII body is its own, and \<open>\xHH\<close> is the code point U+00HH.
\<close>

definition python_literal :: "string \<Rightarrow> nat list option" where
  "python_literal body = map_option (map of_char) (literal_text (take 2) body)"

text \<open>The bytes of a text with the given code points.\<close>

definition utf8_text :: "nat list \<Rightarrow> string" where
  "utf8_text cps = map (\<lambda>b. char_of (unat b)) (concat (map utf8_encode cps))"

definition escaped_as_hex :: "char \<Rightarrow> bool" where
  "escaped_as_hex c \<longleftrightarrow> \<not> char_between 0x20 0x7E c \<and> c \<noteq> newline \<and> c \<noteq> carriage_return \<and> c \<noteq> tabulator"

text \<open>A character that is written in hexadecimal stands before a hexadecimal digit.\<close>

fun hex_before_digit :: "string \<Rightarrow> bool" where
  "hex_before_digit (c # d # s) \<longleftrightarrow> escaped_as_hex c \<and> is_xdigit d \<or> hex_before_digit (d # s)"
| "hex_before_digit s \<longleftrightarrow> False"

lemma hex_digit_value: "n < 16 \<Longrightarrow> is_xdigit (hex_digit n) \<and> hex_value (hex_digit n) = n"
  by (auto simp: hex_digit_def is_xdigit_def is_digit_def char_between_def hex_value_def take_bit_eq_mod Let_def)

lemma char_byte: "unat (word_of_nat (of_char c) :: u8) = of_char c"
  by (simp add: unat_of_nat)

lemma hex_escape_digits:
  "\<exists>h l. hex_escape c = [backslash, CHR ''x'', h, l] \<and> is_xdigit h \<and> is_xdigit l \<and> hex_number [h, l] = of_char c"
proof -
  have "of_char c div 16 < (16 :: nat)" by (simp add: less_mult_imp_div_less)
  then have "is_xdigit (hex_digit (of_char c div 16)) \<and> is_xdigit (hex_digit (of_char c mod 16)) \<and>
      hex_number [hex_digit (of_char c div 16), hex_digit (of_char c mod 16)] = of_char c"
    using hex_digit_value [of "of_char c div 16"] hex_digit_value [of "of_char c mod 16"] by (simp add: hex_number_def)
  then show ?thesis by (auto simp: hex_escape_def hex_byte_def char_byte)
qed

lemmas escape_chars = backslash_def double_quote_def newline_def carriage_return_def tabulator_def

lemma printable_specials: "char_between 0x20 0x7E backslash" "char_between 0x20 0x7E double_quote"
  by (simp_all add: char_between_def escape_chars)

lemma specials_no_xdigit:
  "\<not> is_xdigit backslash" "\<not> is_xdigit double_quote" "\<not> is_xdigit newline" "\<not> is_xdigit carriage_return"
  "\<not> is_xdigit tabulator"
  by (simp_all add: is_xdigit_def is_digit_def char_between_def escape_chars)

lemma xdigit_printable: "is_xdigit d \<Longrightarrow> char_between 0x20 0x7E d"
  by (auto simp: is_xdigit_def is_digit_def char_between_def)

lemma escape_as_hex: "escaped_as_hex c \<Longrightarrow> escape_cpp_char c = hex_escape c"
  using printable_specials by (auto simp: escape_cpp_char_def escaped_as_hex_def)

lemma read_plain: "\<not> escaped_as_hex c \<Longrightarrow> literal_text digits (escape_cpp_char c @ r) = map_option ((#) c) (literal_text digits r)"
  by (subst literal_text.simps)
    (auto simp: escape_cpp_char_def escaped_as_hex_def simple_escape_def escape_chars)

lemma escape_string_simps [simp]:
  "escape_cpp_string [] = []" "escape_cpp_string (c # s) = escape_cpp_char c @ escape_cpp_string s"
  by (simp_all add: escape_cpp_string_def)

lemma of_char_255: "of_char (c :: char) \<le> (255 :: nat)"
  using nat_of_char_less_256 [of c] by linarith

lemma read_two_digits:
  assumes "escaped_as_hex c" and "\<And>h l. digits (h # l # r) = [h, l]"
  shows "literal_text digits (escape_cpp_char c @ r) = map_option ((#) c) (literal_text digits r)"
proof -
  obtain h l where h: "hex_escape c = [backslash, CHR ''x'', h, l]" "is_xdigit h" "is_xdigit l" "hex_number [h, l] = of_char c"
    using hex_escape_digits by blast
  then show ?thesis using assms of_char_255 [of c]
    by (subst literal_text.simps) (simp add: escape_as_hex escape_chars)
qed

lemma read_by_twos: "literal_text (take 2) (escape_cpp_string s) = Some s"
proof (induction s)
  case Nil
  then show ?case by (simp add: literal_text.simps)
next
  case (Cons c s)
  then show ?case by (cases "escaped_as_hex c") (simp_all add: read_plain read_two_digits)
qed

lemma python_reads: "python_literal (escape_python_string s) = Some (map of_char s)"
  by (simp add: python_literal_def escape_python_string_def read_by_twos)

lemma escaped_is_ascii: "list_all (char_between 0x20 0x7E) (escape_cpp_string s)"
proof (induction s)
  case (Cons c s)
  obtain h l where h: "hex_escape c = [backslash, CHR ''x'', h, l]" "is_xdigit h" "is_xdigit l"
    using hex_escape_digits by blast
  have "list_all (char_between 0x20 0x7E) (escape_cpp_char c)"
    using h xdigit_printable printable_specials by (auto simp: escape_cpp_char_def char_between_def)
  with Cons.IH show ?case by simp
qed simp

text \<open>A text in UTF-8 has as many bytes as code points only when it is ASCII.\<close>

lemma utf8_encode_length: "1 \<le> length (utf8_encode c)" "length (utf8_encode c) = 1 \<longleftrightarrow> c < 128"
  by (simp_all add: utf8_encode_def)

lemma utf8_text_length:
  "length cps \<le> length (utf8_text cps) \<and> (length (utf8_text cps) = length cps \<longrightarrow> list_all (\<lambda>c. c < 128) cps)"
proof (induction cps)
  case Nil
  then show ?case by (simp add: utf8_text_def)
next
  case (Cons c cps)
  have "length (utf8_text (c # cps)) = length (utf8_encode c) + length (utf8_text cps)" by (simp add: utf8_text_def)
  with Cons.IH utf8_encode_length [of c] show ?case by auto
qed

lemma ascii_code_points: "list_all (\<lambda>c. c < 128) cps \<Longrightarrow> map of_char (utf8_text cps) = cps"
proof (induction cps)
  case (Cons c cps)
  then have "utf8_encode c = [word_of_nat c]" by (simp add: utf8_encode_def)
  with Cons show ?case by (simp add: utf8_text_def unat_of_nat take_bit_eq_mod)
qed (simp add: utf8_text_def)

lemma code_points_read_iff: "map of_char (utf8_text cps) = cps \<longleftrightarrow> list_all (\<lambda>c. c < 128) cps"
  using ascii_code_points utf8_text_length by (metis length_map)

lemma xdigit_plain: "is_xdigit d \<Longrightarrow> escape_cpp_char d = [d]"
  using specials_no_xdigit xdigit_printable [of d] by (auto simp: escape_cpp_char_def)

lemma escape_head:
  "s = d # t \<Longrightarrow> is_xdigit (hd (escape_cpp_string s)) \<longleftrightarrow> is_xdigit d" "s \<noteq> [] \<Longrightarrow> escape_cpp_string s \<noteq> []"
proof -
  have "escape_cpp_char d = [d] \<or> hd (escape_cpp_char d) = backslash \<and> escape_cpp_char d \<noteq> [] \<and> \<not> is_xdigit d" for d
    by (cases "is_xdigit d") (simp add: xdigit_plain, simp add: escape_cpp_char_def hex_escape_def)
  then have e: "escape_cpp_char d \<noteq> [] \<and> (is_xdigit (hd (escape_cpp_char d)) \<longleftrightarrow> is_xdigit d)" for d
    using specials_no_xdigit(1) by (metis list.distinct(1) list.sel(1))
  show "s = d # t \<Longrightarrow> is_xdigit (hd (escape_cpp_string s)) \<longleftrightarrow> is_xdigit d" "s \<noteq> [] \<Longrightarrow> escape_cpp_string s \<noteq> []"
    using e by (simp add: hd_append, cases s) simp_all
qed

text \<open>The digits after an escape are taken as long as they last.\<close>

lemma digits_of_escaped: "takeWhile is_xdigit (escape_cpp_string s) = takeWhile is_xdigit s"
proof (induction s)
  case Nil
  then show ?case by simp
next
  case (Cons d s)
  show ?case
  proof (cases "is_xdigit d")
    case True
    then show ?thesis using Cons by (simp add: xdigit_plain)
  next
    case False
    then have "\<not> is_xdigit (hd (escape_cpp_string (d # s)))" "escape_cpp_string (d # s) \<noteq> []"
      using escape_head(1) [of "d # s" d s] escape_head(2) [of "d # s"] by simp_all
    then show ?thesis using False by (cases "escape_cpp_string (d # s)") (simp_all del: escape_string_simps)
  qed
qed

lemma rest_of_escaped:
  "drop (length (takeWhile is_xdigit s)) (escape_cpp_string s) = escape_cpp_string (dropWhile is_xdigit s)"
  by (induction s) (simp_all add: xdigit_plain)

lemma specials_distinct: "backslash \<noteq> double_quote" "backslash \<noteq> newline"
  by (simp_all add: escape_chars)

lemma read_cpp_hex:
  assumes "escaped_as_hex c"
  shows "\<not> (s \<noteq> [] \<and> is_xdigit (hd s)) \<Longrightarrow>
      cpp_literal (escape_cpp_string (c # s)) = map_option ((#) c) (cpp_literal (escape_cpp_string s))"
    and "cpp_literal (escape_cpp_string (c # s)) = Some t \<Longrightarrow>
      \<exists>x t'. t = x # t' \<and> cpp_literal (escape_cpp_string (dropWhile is_xdigit s)) = Some t'"
proof -
  obtain h l where h: "hex_escape c = [backslash, CHR ''x'', h, l]" "is_xdigit h" "is_xdigit l" "hex_number [h, l] = of_char c"
    using hex_escape_digits by blast
  have xs: "list_all is_xdigit (takeWhile is_xdigit s)" by (auto simp: list_all_iff dest: set_takeWhileD)
  let ?n = "hex_number (h # l # takeWhile is_xdigit s)"
  have digits: "takeWhile is_xdigit (h # l # escape_cpp_string s) = h # l # takeWhile is_xdigit s"
    using h by (simp add: digits_of_escaped)
  have all: "cpp_literal (escape_cpp_string (c # s)) =
      (if ?n > 255 then None
       else map_option ((#) (char_of ?n)) (cpp_literal (escape_cpp_string (dropWhile is_xdigit s))))"
    unfolding cpp_literal_def escape_string_simps escape_as_hex [OF assms] h(1)
    by (subst literal_text.simps) (simp add: specials_distinct digits rest_of_escaped xs h(2,3) del: takeWhile.simps)
  then show "cpp_literal (escape_cpp_string (c # s)) = Some t \<Longrightarrow>
      \<exists>x t'. t = x # t' \<and> cpp_literal (escape_cpp_string (dropWhile is_xdigit s)) = Some t'"
    by (metis map_option_eq_Some option.distinct(1))
  show "\<not> (s \<noteq> [] \<and> is_xdigit (hd s)) \<Longrightarrow>
      cpp_literal (escape_cpp_string (c # s)) = map_option ((#) c) (cpp_literal (escape_cpp_string s))"
    using all h(4) of_char_255 [of c] by (cases s) simp_all
qed

lemma cpp_literal_plain:
  "\<not> escaped_as_hex c \<Longrightarrow> cpp_literal (escape_cpp_string (c # s)) = map_option ((#) c) (cpp_literal (escape_cpp_string s))"
  by (simp add: cpp_literal_def read_plain)

lemma cpp_literal_length: "cpp_literal (escape_cpp_string s) = Some t \<Longrightarrow> length t \<le> length s"
proof (induction "length s" arbitrary: s t rule: less_induct)
  case less
  show ?case
  proof (cases s)
    case Nil
    then show ?thesis using less.prems by (simp add: cpp_literal_def literal_text.simps)
  next
    case (Cons c r)
    obtain x r' t' where t: "t = x # t'" "cpp_literal (escape_cpp_string r') = Some t'" "length r' \<le> length r"
    proof (cases "escaped_as_hex c")
      case True
      then obtain x t' where "t = x # t'" "cpp_literal (escape_cpp_string (dropWhile is_xdigit r)) = Some t'"
        using read_cpp_hex(2) [of c r t] less.prems Cons by blast
      then show ?thesis by (rule that) (rule length_dropWhile_le)
    next
      case False
      then show ?thesis using that cpp_literal_plain [OF False, of r] less.prems Cons
        by (auto simp del: escape_string_simps)
    qed
    then have "length t' \<le> length r'" using less.hyps [of r' t'] Cons by simp
    then show ?thesis using t Cons by simp
  qed
qed

lemma hex_before_digit_Cons:
  "hex_before_digit (c # s) \<longleftrightarrow> (escaped_as_hex c \<and> s \<noteq> [] \<and> is_xdigit (hd s)) \<or> hex_before_digit s"
  by (cases s) auto

lemma cpp_reads_iff: "cpp_literal (escape_cpp_string s) = Some s \<longleftrightarrow> \<not> hex_before_digit s"
proof (induction s)
  case Nil
  then show ?case by (simp add: cpp_literal_def literal_text.simps)
next
  case (Cons c s)
  show ?case
  proof (cases "escaped_as_hex c")
    case False
    then show ?thesis using Cons cpp_literal_plain [OF False, of s] by (simp add: hex_before_digit_Cons del: escape_string_simps)
  next
    case True
    show ?thesis
    proof (cases "s \<noteq> [] \<and> is_xdigit (hd s)")
      case False
      then show ?thesis using Cons read_cpp_hex(1) [OF True False]
        by (simp add: hex_before_digit_Cons del: escape_string_simps)
    next
      case digit: True
      have "cpp_literal (escape_cpp_string (c # s)) \<noteq> Some (c # s)"
      proof
        assume "cpp_literal (escape_cpp_string (c # s)) = Some (c # s)"
        then have "cpp_literal (escape_cpp_string (dropWhile is_xdigit s)) = Some s"
          using read_cpp_hex(2) [OF True, of s] by blast
        then have "length s \<le> length (dropWhile is_xdigit s)" by (rule cpp_literal_length)
        then show False using digit length_dropWhile_le [of is_xdigit "tl s"] by (cases s) auto
      qed
      then show ?thesis using True digit by (simp add: hex_before_digit_Cons del: escape_string_simps)
    qed
  qed
qed

subsection \<open>The properties\<close>

text \<open>Generated names are identifiers. Whatever a schema calls its fields, messages and protocol, by quoted names or YAML
  too, type names, constants and name segments of the generated code are made of letters, digits and underscores, do not
  start with a digit and are not empty; a scoped name is a list of such segments, and the include guard is one
  \<open>is_valid_header_guard\<close> accepts.\<close>

theorem generated_names_are_identifiers:
  "identifier_text (sanitize_type_name v) \<and> identifier_text (sanitize_cpp_constant_name v) \<and>
   identifier_text (sanitize_python_constant_name v) \<and> identifier_text (sanitize_namespace_segment v) \<and>
   (\<exists>segments. segments \<noteq> [] \<and> list_all identifier_text segments \<and> sanitize_namespace_name v = join_scopes segments) \<and>
   is_valid_header_guard (sanitize_header_guard v)"
  by (simp add: type_name_identifier constant_identifier python_constant_identifier segment_identifier namespace_scopes
      header_guard_valid)

text \<open>C39: Which literals denote their text. The Python and TypeScript literals of a text are read as one code point for each of
  its bytes, so a text in UTF-8 is read back exactly when it is ASCII: any other becomes another text. The C++ literal
  is read back, as bytes, exactly when no character that is written in hexadecimal stands before a hexadecimal digit: there the
  escape takes the digit too, so the generated C++ is ill-formed or holds another text.\<close>

theorem generated_literals_denote_text:
  "python_literal (escape_python_string s) = Some (map of_char s) \<and>
   (python_literal (escape_python_string (utf8_text cps)) = Some cps \<longleftrightarrow> list_all (\<lambda>c. c < 128) cps) \<and>
   (cpp_literal (escape_cpp_string s) = Some s \<longleftrightarrow> \<not> hex_before_digit s)"
  using python_reads code_points_read_iff cpp_reads_iff by simp

text \<open>A name in UTF-8 in Python and in C++, and a control character before a letter.\<close>

lemma utf8_name_misread:
  "utf8_text [0xE9] = [CHR 0xC3, CHR 0xA9]" "python_literal (escape_python_string (utf8_text [0xE9])) = Some [0xC3, 0xA9]"
  by code_simp+

lemma utf8_name_ill_formed: "cpp_literal (escape_cpp_string [CHR 0xC3, CHR 0xA9, CHR ''e'']) = None"
  by code_simp

lemma control_character_misread: "cpp_literal (escape_cpp_string [CHR 0x01, CHR ''A'']) = Some [CHR 0x1A]"
  by code_simp

text \<open>Names that differ in separators only, and names that are words of the language.\<close>

lemma names_collide:
  "sanitize_namespace_name ''rx-count'' = sanitize_namespace_name ''rx.count''"
  "sanitize_type_name ''data_block'' = sanitize_type_name ''dataBlock''"
  "sanitize_namespace_name ''class'' = ''class''"
  by code_simp+

end
