(* ===== verification/Codegen_Layout.thy ===== *)
theory Codegen_Layout
  imports Codegen_Names Decoder_Properties
begin

text \<open>
  The decisions the C++ generator takes about a layout before it renders code
  (\<open>upr_codegen/src/codegen/bindings_generator_cpp.inc\<close>): the types of members, which layouts get the simple direct
  codec, in which order the structs are emitted, and where the fields that a checksum covers lie. The order is
  computed by a depth-first search with an explicit stack; a state of the search is unvisited, in progress or done.
\<close>

subsection \<open>Types and names of members\<close>

definition struct_type_name :: "compiled_protocol \<Rightarrow> nat \<Rightarrow> string" where
  "struct_type_name p struct_id =
     (case struct_by_id p struct_id of None \<Rightarrow> ''GeneratedBinding'' | Some nested \<Rightarrow> sanitize_type_name (cm_name nested))"

definition cpp_generated_value_type :: "compiled_field \<Rightarrow> string" where
  "cpp_generated_value_type f =
     (case cf_kind f of
        KUnsigned \<Rightarrow> cpp_unsigned_storage_type (cf_width_bytes f)
      | KEnum \<Rightarrow> cpp_unsigned_storage_type (cf_width_bytes f)
      | KSigned \<Rightarrow> cpp_signed_storage_type (cf_width_bytes f)
      | KFloat32 \<Rightarrow> ''float''
      | KFloat64 \<Rightarrow> ''double''
      | KBytes \<Rightarrow> ''universal_protocol_runtime::ByteSpan''
      | KString \<Rightarrow> ''std::string_view''
      | KStruct \<Rightarrow> ''universal_protocol_runtime::DecodedMessage''
      | KCollection \<Rightarrow> ''universal_protocol_runtime::DecodedCollectionView''
      | KVariant \<Rightarrow> ''universal_protocol_runtime::DecodedMessage'')"

definition cpp_value_member_type :: "compiled_protocol \<Rightarrow> compiled_field \<Rightarrow> bool \<Rightarrow> string" where
  "cpp_value_member_type p f general =
     (case cf_kind f of
        KStruct \<Rightarrow>
          if general then ''structs::'' @ struct_type_name p (cf_struct_id f) @ ''::Value''
          else ''universal_protocol_runtime::DecodedMessage''
      | KCollection \<Rightarrow>
          if general then ''std::vector<structs::'' @ struct_type_name p (cf_struct_id f) @ ''::Value>''
          else ''universal_protocol_runtime::DecodedCollectionView''
      | KVariant \<Rightarrow>
          if general then
            ''std::variant<std::monostate'' @
            concat (map (\<lambda>c. '', structs::'' @ struct_type_name p (cvc_struct_id c) @ ''::Value'') (cf_variant_cases f)) @ ''>''
          else ''universal_protocol_runtime::DecodedMessage''
      | _ \<Rightarrow> cpp_generated_value_type f)"

definition cpp_generated_value_initializer :: "compiled_field \<Rightarrow> string" where
  "cpp_generated_value_initializer f =
     (if cf_kind f \<in> {KUnsigned, KEnum, KSigned} then '' = 0;''
      else if cf_kind f \<in> {KFloat32, KFloat64} then '' = 0.0;''
      else '';'')"

subsection \<open>The codec of a layout\<close>

definition checksum_algorithm_supports_direct_value_decode :: "string \<Rightarrow> bool" where
  "checksum_algorithm_supports_direct_value_decode algorithm_name \<longleftrightarrow>
     algorithm_name = ''xor8'' \<or> algorithm_name = ''sum16'' \<or> algorithm_name = ''crc16_ccitt'' \<or>
     algorithm_name = ''crc32'' \<or> algorithm_name = ''crc32c''"

definition checksums_support_direct :: "compiled_message \<Rightarrow> bool" where
  "checksums_support_direct layout \<longleftrightarrow>
     list_all (\<lambda>c. checksum_algorithm_supports_direct_value_decode (cck_algorithm_name c)) (cm_checksums layout)"

definition simple_direct_field :: "compiled_field \<Rightarrow> bool" where
  "simple_direct_field f \<longleftrightarrow>
     cf_kind f \<noteq> KStruct \<and> cf_kind f \<noteq> KCollection \<and> cf_kind f \<noteq> KVariant \<and> \<not> cf_has_condition f \<and>
     \<not> cf_has_presence f \<and> cf_alignment f \<le> 1 \<and> \<not> cf_is_reserved f"

definition layout_supports_simple_direct_codec :: "compiled_message \<Rightarrow> bool" where
  "layout_supports_simple_direct_codec layout \<longleftrightarrow>
     cm_validations layout = [] \<and> checksums_support_direct layout \<and> list_all simple_direct_field (cm_fields layout)"

definition layout_uses_general_direct_codec :: "compiled_message \<Rightarrow> bool" where
  "layout_uses_general_direct_codec layout \<longleftrightarrow> \<not> layout_supports_simple_direct_codec layout"

subsection \<open>The order of the structs\<close>

definition struct_dependencies :: "compiled_protocol \<Rightarrow> nat \<Rightarrow> nat list" where
  "struct_dependencies p struct_id =
     (case struct_by_id p struct_id of
        None \<Rightarrow> []
      | Some layout \<Rightarrow>
          concat (map (\<lambda>f.
            if cf_kind f = KStruct \<or> cf_kind f = KCollection then [cf_struct_id f]
            else if cf_kind f = KVariant then map cvc_struct_id (cf_variant_cases f)
            else []) (cm_fields layout)))"

datatype node_state = Node_Unvisited | Node_InProgress | Node_Done

text \<open>The inner loop; the head of the list is the top of the stack. \<open>state\<close> has an entry for each struct.\<close>

function order_loop ::
  "compiled_protocol \<Rightarrow> node_state list \<Rightarrow> (nat \<times> nat) list \<Rightarrow> nat list \<Rightarrow> node_state list \<times> nat list" where
  "order_loop p state stack order =
     (case stack of
        [] \<Rightarrow> (state, order)
      | (node, dep_index) # rest \<Rightarrow>
          let deps = struct_dependencies p node in
          if dep_index < length deps then
            let next = deps ! dep_index; stack = (node, dep_index + 1) # rest in
            if next < length state \<and> state ! next = Node_Unvisited
            then order_loop p (state[next := Node_InProgress]) ((next, 0) # stack) order
            else order_loop p state stack order
          else order_loop p (state[node := Node_Done]) rest (order @ [node]))"
  by pat_completeness auto

definition unvisited :: "node_state list \<Rightarrow> nat" where
  "unvisited state = length (filter (\<lambda>s. s = Node_Unvisited) state)"

lemma unvisited_update:
  "i < length state \<Longrightarrow> s \<noteq> Node_Unvisited \<Longrightarrow>
     unvisited (state[i := s]) + (if state ! i = Node_Unvisited then 1 else 0) = unvisited state"
proof (induction state arbitrary: i)
  case Nil
  then show ?case by simp
next
  case (Cons x state)
  then show ?case using Cons.IH [of "i - 1"] by (cases i) (auto simp: unvisited_def split: if_splits)
qed

lemma unvisited_visit:
  "i < length state \<Longrightarrow> state ! i = Node_Unvisited \<Longrightarrow> s \<noteq> Node_Unvisited \<Longrightarrow> unvisited (state[i := s]) < unvisited state"
  using unvisited_update [of i state s] by simp

lemma unvisited_done: "unvisited (state[i := Node_Done]) \<le> unvisited state"
  using unvisited_update [of i state Node_Done] by (cases "i < length state") (auto simp: list_update_beyond)

definition pending_dependencies :: "compiled_protocol \<Rightarrow> (nat \<times> nat) list \<Rightarrow> nat" where
  "pending_dependencies p stack = sum_list (map (\<lambda>(node, k). Suc (length (struct_dependencies p node) - k)) stack)"

termination order_loop
proof (relation "measures [\<lambda>(p, state, stack, order). unvisited state,
    \<lambda>(p, state, stack, order). pending_dependencies p stack]", goal_cases)
  case 1
  then show ?case by simp
next
  case 2
  then show ?case by (auto simp: unvisited_visit)
next
  case 3
  then show ?case by (auto simp: pending_dependencies_def)
next
  case (4 p state stack order top rest node dep_index deps)
  then have "pending_dependencies p rest < pending_dependencies p stack" by (auto simp: pending_dependencies_def)
  with unvisited_done [of state node] show ?case by (auto simp: le_less)
qed

declare order_loop.simps [simp del]

text \<open>The loop over the roots.\<close>

fun order_roots :: "compiled_protocol \<Rightarrow> nat list \<Rightarrow> node_state list \<Rightarrow> nat list \<Rightarrow> nat list" where
  "order_roots p [] state order = order"
| "order_roots p (root # roots) state order =
     (if state ! root \<noteq> Node_Unvisited then order_roots p roots state order
      else
        (case order_loop p (state[root := Node_InProgress]) [(root, 0)] order of
           (state, order) \<Rightarrow> order_roots p roots state order))"

definition topological_struct_order :: "compiled_protocol \<Rightarrow> nat list" where
  "topological_struct_order p =
     (let count = length (cp_structs p) in order_roots p [0..<count] (replicate count Node_Unvisited) [])"

subsection \<open>Offsets that are known when the code is generated\<close>

definition checksum_uses_prefix_shortcut :: "compiled_checksum \<Rightarrow> bool" where
  "checksum_uses_prefix_shortcut c \<longleftrightarrow>
     cca_kind (cck_from c) = FrameStart \<and> cca_kind (cck_to c) = BeforeSelf \<and> cca_field_id (cck_to c) = cck_field_id c"

definition encode_layout_needs_checksum_field_arrays :: "compiled_message \<Rightarrow> bool" where
  "encode_layout_needs_checksum_field_arrays layout \<longleftrightarrow>
     list_ex (\<lambda>c. \<not> checksum_uses_prefix_shortcut c) (cm_checksums layout)"

fun fixed_offset_loop :: "compiled_field list \<Rightarrow> nat \<Rightarrow> nat option" where
  "fixed_offset_loop [] offset = Some offset"
| "fixed_offset_loop (f # fs) offset =
     (if cf_dynamic_size f then None else fixed_offset_loop fs (wrap_size (offset + minimum_size_contribution f)))"

definition fixed_field_offset :: "compiled_message \<Rightarrow> field_id \<Rightarrow> nat option" where
  "fixed_field_offset layout i =
     (if i > length (cm_fields layout) then None else fixed_offset_loop (take i (cm_fields layout)) 0)"

definition checksum_static_span_size :: "compiled_message \<Rightarrow> compiled_checksum \<Rightarrow> nat option" where
  "checksum_static_span_size layout c =
     (if \<not> checksum_uses_prefix_shortcut c then None else fixed_field_offset layout (cck_field_id c))"

end
