(* ===== verification/Codegen_Layout_Properties.thy ===== *)
theory Codegen_Layout_Properties
  imports Codegen_Layout
begin

text \<open>
  The order in which the generator emits structs lists every struct once and, for a compiled protocol, after the
  structs it refers to; the offsets that are written into the code of a simple layout are those of the
  decoder.
\<close>

subsection \<open>The search\<close>

definition nodes_in :: "node_state list \<Rightarrow> node_state \<Rightarrow> nat set" where
  "nodes_in state s = {i. i < length state \<and> state ! i = s}"

lemma nodes_in_update:
  "i < length state \<Longrightarrow>
     nodes_in (state[i := s]) t = (if t = s then insert i (nodes_in state t) else nodes_in state t - {i})"
  by (auto simp: nodes_in_def nth_list_update)

lemma nodes_in_disjoint: "i \<in> nodes_in state s \<Longrightarrow> i \<in> nodes_in state t \<longleftrightarrow> s = t"
  by (auto simp: nodes_in_def)

definition search_ok :: "node_state list \<Rightarrow> (nat \<times> nat) list \<Rightarrow> nat list \<Rightarrow> bool" where
  "search_ok state stack order \<longleftrightarrow>
     distinct order \<and> distinct (map fst stack) \<and> set order = nodes_in state Node_Done \<and>
     set (map fst stack) = nodes_in state Node_InProgress"

lemma search_push:
  "search_ok state ((node, k) # rest) order \<Longrightarrow> d < length state \<Longrightarrow> state ! d = Node_Unvisited \<Longrightarrow>
     search_ok (state[d := Node_InProgress]) ((d, 0) # (node, k') # rest) order"
  by (auto simp: search_ok_def nodes_in_update) (auto simp: nodes_in_def)

lemma search_step: "search_ok state ((node, k) # rest) order \<Longrightarrow> search_ok state ((node, k') # rest) order"
  by (simp add: search_ok_def)

lemma search_pop:
  assumes "search_ok state ((node, k) # rest) order"
  shows "search_ok (state[node := Node_Done]) rest (order @ [node])"
proof -
  have node: "node \<in> nodes_in state Node_InProgress" using assms by (auto simp: search_ok_def)
  then have "node < length state" "node \<notin> nodes_in state Node_Done" by (auto simp: nodes_in_def)
  then show ?thesis using assms by (auto simp: search_ok_def nodes_in_update)
qed

text \<open>
  With ranks that fall from a struct to those it refers to, the ranks on the stack rise from the top, the dependencies
  of a struct on the stack that were examined are done or above it, and every struct that is done is after its
  dependencies.
\<close>

fun examined_ok :: "(nat \<Rightarrow> nat list) \<Rightarrow> nat set \<Rightarrow> (nat \<times> nat) list \<Rightarrow> bool" where
  "examined_ok deps seen [] \<longleftrightarrow> True"
| "examined_ok deps seen ((node, k) # rest) \<longleftrightarrow> set (take k (deps node)) \<subseteq> seen \<and> examined_ok deps (insert node seen) rest"

definition after_dependencies :: "(nat \<Rightarrow> nat list) \<Rightarrow> nat list \<Rightarrow> bool" where
  "after_dependencies deps order \<longleftrightarrow> (\<forall>k < length order. set (deps (order ! k)) \<subseteq> set (take k order))"

definition search_ordered :: "compiled_protocol \<Rightarrow> (nat \<Rightarrow> nat) \<Rightarrow> (nat \<times> nat) list \<Rightarrow> nat list \<Rightarrow> bool" where
  "search_ordered p rank stack order \<longleftrightarrow>
     examined_ok (struct_dependencies p) (set order) stack \<and> sorted_wrt (\<lambda>a b. rank (fst a) < rank (fst b)) stack \<and>
     after_dependencies (struct_dependencies p) order"

definition falling_ranks :: "compiled_protocol \<Rightarrow> (nat \<Rightarrow> nat) \<Rightarrow> nat \<Rightarrow> bool" where
  "falling_ranks p rank n \<longleftrightarrow> (\<forall>i < n. \<forall>d \<in> set (struct_dependencies p i). d < n \<and> rank d < rank i)"

lemma after_dependencies_snoc:
  "after_dependencies deps order \<Longrightarrow> set (deps node) \<subseteq> set order \<Longrightarrow> after_dependencies deps (order @ [node])"
  by (auto simp: after_dependencies_def nth_append less_Suc_eq)

lemma examined_mono: "examined_ok deps seen stack \<Longrightarrow> seen \<subseteq> seen' \<Longrightarrow> examined_ok deps seen' stack"
proof (induction stack arbitrary: seen seen')
  case Nil
  then show ?case by simp
next
  case (Cons top stack)
  then show ?case using Cons.IH [of "insert (fst top) seen" "insert (fst top) seen'"] by (cases top) auto
qed

lemma ordered_push:
  assumes "search_ordered p rank ((node, k) # rest) order" and "k < length (struct_dependencies p node)"
    and "rank (struct_dependencies p node ! k) < rank node"
  shows "search_ordered p rank ((struct_dependencies p node ! k, 0) # (node, Suc k) # rest) order"
  using assms by (auto simp: search_ordered_def take_Suc_conv_app_nth intro: less_trans elim!: examined_mono)

lemma ordered_skip:
  assumes "search_ordered p rank ((node, k) # rest) order" and "k < length (struct_dependencies p node)"
    and "struct_dependencies p node ! k \<in> set order"
  shows "search_ordered p rank ((node, Suc k) # rest) order"
  using assms by (auto simp: search_ordered_def take_Suc_conv_app_nth)

lemma ordered_pop:
  assumes "search_ordered p rank ((node, k) # rest) order" and "\<not> k < length (struct_dependencies p node)"
  shows "search_ordered p rank rest (order @ [node])"
  using assms by (auto simp: search_ordered_def intro: after_dependencies_snoc)

lemma order_loop_search:
  assumes "order_loop p state stack order = (state', order')" and "search_ok state stack order"
  shows "length state' = length state \<and> search_ok state' [] order' \<and>
    nodes_in state' Node_Unvisited \<subseteq> nodes_in state Node_Unvisited \<and>
    (falling_ranks p rank (length state) \<longrightarrow> search_ordered p rank stack order \<longrightarrow> search_ordered p rank [] order')"
  using assms
proof (induction p state stack order arbitrary: state' order' rule: order_loop.induct)
  case (1 p state stack order)
  show ?case
  proof (cases stack)
    case Nil
    then show ?thesis using "1.prems" by (simp add: order_loop.simps [of p state])
  next
    case (Cons top rest)
    obtain node k where top: "top = (node, k)" by (cases top)
    let ?deps = "struct_dependencies p node"
    have node: "node < length state"
      using "1.prems"(2) by (auto simp: search_ok_def nodes_in_def Cons top)
    show ?thesis
    proof (cases "k < length ?deps")
      case False
      have pop: "search_ok (state[node := Node_Done]) rest (order @ [node])"
        using search_pop "1.prems"(2) Cons top by simp
      have call: "order_loop p (state[node := Node_Done]) rest (order @ [node]) = (state', order')"
        using "1.prems"(1) Cons top False by (simp add: order_loop.simps [of p state])
      have less: "nodes_in (state[node := Node_Done]) Node_Unvisited \<subseteq> nodes_in state Node_Unvisited"
        using node by (simp add: nodes_in_update)
      show ?thesis
        using "1.IH"(3) [OF Cons top [symmetric] refl False call pop] less ordered_pop [of p rank node k rest order] False Cons top
        by auto
    next
      case True
      let ?next = "?deps ! k"
      show ?thesis
      proof (cases "?next < length state \<and> state ! ?next = Node_Unvisited")
        case push: True
        have ok: "search_ok (state[?next := Node_InProgress]) ((?next, 0) # (node, k + 1) # rest) order"
          using search_push "1.prems"(2) Cons top push by blast
        have call: "order_loop p (state[?next := Node_InProgress]) ((?next, 0) # (node, k + 1) # rest) order = (state', order')"
          using "1.prems"(1) Cons top True push by (simp add: order_loop.simps [of p state] Let_def)
        have less: "nodes_in (state[?next := Node_InProgress]) Node_Unvisited \<subseteq> nodes_in state Node_Unvisited"
          using push by (simp add: nodes_in_update)
        have rank: "rank ?next < rank node" if "falling_ranks p rank (length state)"
          using that node True by (simp add: falling_ranks_def)
        show ?thesis
          using "1.IH"(1) [OF Cons top [symmetric] refl True refl refl push call ok] less
            ordered_push [of p rank node k rest order] rank True Cons top by auto
      next
        case skip: False
        have ok: "search_ok state ((node, k + 1) # rest) order" using search_step "1.prems"(2) Cons top by blast
        have call: "order_loop p state ((node, k + 1) # rest) order = (state', order')"
          using "1.prems"(1) Cons top True skip by (auto simp: order_loop.simps [of p state] Let_def)
        have finished: "?next \<in> set order"
          if rank: "falling_ranks p rank (length state)" and ordered: "search_ordered p rank stack order"
        proof -
          have d: "?next < length state" "rank ?next < rank node" using rank node True by (simp_all add: falling_ranks_def)
          then have "state ! ?next \<noteq> Node_Unvisited" using skip by blast
          moreover have "state ! ?next \<noteq> Node_InProgress"
          proof
            assume "state ! ?next = Node_InProgress"
            then have "?next \<in> set (map fst stack)"
              using d(1) "1.prems"(2) by (auto simp: search_ok_def nodes_in_def)
            then have "rank node \<le> rank ?next" using ordered by (auto simp: search_ordered_def Cons top)
            then show False using d(2) by simp
          qed
          ultimately have "state ! ?next = Node_Done" by (cases "state ! ?next") simp_all
          then show ?thesis using d(1) "1.prems"(2) by (auto simp: search_ok_def nodes_in_def)
        qed
        show ?thesis
          using "1.IH"(2) [OF Cons top [symmetric] refl True refl refl skip call ok]
            ordered_skip [of p rank node k rest order] finished True Cons top by auto
      qed
    qed
  qed
qed

lemma order_roots_search:
  assumes "search_ok state [] order" and "set roots \<subseteq> {..<length state}" and "nodes_in state Node_Unvisited \<subseteq> set roots"
  shows "distinct (order_roots p roots state order) \<and> set (order_roots p roots state order) = {..<length state} \<and>
    (falling_ranks p rank (length state) \<longrightarrow> search_ordered p rank [] order \<longrightarrow>
     search_ordered p rank [] (order_roots p roots state order))"
  using assms
proof (induction p roots state order rule: order_roots.induct)
  case (1 p state order)
  have "i \<in> set order" if "i < length state" for i
  proof -
    have "state ! i \<noteq> Node_Unvisited" "state ! i \<noteq> Node_InProgress"
      using that 1 by (auto simp: search_ok_def nodes_in_def)
    then have "state ! i = Node_Done" by (cases "state ! i") simp_all
    then show ?thesis using that 1(1) by (simp add: search_ok_def nodes_in_def)
  qed
  then show ?case using 1 by (auto simp: search_ok_def nodes_in_def)
next
  case (2 p root roots state order)
  show ?case
  proof (cases "state ! root = Node_Unvisited")
    case False
    then show ?thesis using 2 by (auto simp: nodes_in_def)
  next
    case True
    obtain state' order' where loop: "order_loop p (state[root := Node_InProgress]) [(root, 0)] order = (state', order')"
      by (cases "order_loop p (state[root := Node_InProgress]) [(root, 0)] order")
    have root: "root < length state" using 2(4) by simp
    then have "root \<notin> nodes_in state Node_Done" using True by (simp add: nodes_in_def)
    then have ok: "search_ok (state[root := Node_InProgress]) [(root, 0)] order"
      using 2(3) root by (auto simp: search_ok_def nodes_in_update)
    from order_loop_search [OF loop ok]
    have after: "length state' = length state" "search_ok state' [] order'"
      "nodes_in state' Node_Unvisited \<subseteq> nodes_in state Node_Unvisited - {root}"
      "falling_ranks p rank (length state) \<Longrightarrow> search_ordered p rank [(root, 0)] order \<Longrightarrow> search_ordered p rank [] order'"
      using root by (auto simp: nodes_in_update)
    have start: "search_ordered p rank [(root, 0)] order" if "search_ordered p rank [] order"
      using that by (simp add: search_ordered_def)
    show ?thesis
      using "2.IH"(2) [OF _ loop [symmetric] after(2)] 2(4,5) after True loop start by auto
  qed
qed

subsection \<open>Compiled protocols\<close>

lemma dependencies_refs:
  "i < length (cp_structs p) \<Longrightarrow> set (struct_dependencies p i) = layout_refs (cp_structs p ! i)"
  by (auto simp: struct_dependencies_def struct_by_id_def layout_refs_def field_refs_def split: field_kind.splits if_splits)

definition nesting_depth :: "compiled_protocol \<Rightarrow> nat \<Rightarrow> nat" where
  "nesting_depth p i = (LEAST d. nesting_within (cp_structs p) d (cp_structs p ! i))"

lemma nesting_depth_falls:
  assumes "protocol_wf p"
  shows "falling_ranks p (nesting_depth p) (length (cp_structs p))"
  unfolding falling_ranks_def
proof (intro allI impI ballI)
  fix i d
  assume i: "i < length (cp_structs p)" and d: "d \<in> set (struct_dependencies p i)"
  have ref: "d \<in> layout_refs (cp_structs p ! i)" using d dependencies_refs [OF i] by simp
  have "nesting_within (cp_structs p) (length (cp_structs p)) (cp_structs p ! i)"
    using assms i by (simp add: protocol_wf_def)
  then have "nesting_within (cp_structs p) (nesting_depth p i) (cp_structs p ! i)"
    unfolding nesting_depth_def by (rule LeastI)
  from nesting_within_ref [OF this ref] obtain e where e: "nesting_depth p i = Suc e"
    "struct_by_id p d = Some (cp_structs p ! d)" "nesting_within (cp_structs p) e (cp_structs p ! d)"
    by blast
  have "nesting_depth p d \<le> e" unfolding nesting_depth_def by (rule Least_le) (rule e(3))
  then show "d < length (cp_structs p) \<and> nesting_depth p d < nesting_depth p i"
    using e by (auto simp: struct_by_id_def split: if_splits)
qed

text \<open>C35: Structs are emitted once and after those they hold. For every compiled protocol the order of the generator is a
  permutation of the structs in which each struct comes after every struct its fields, elements and variant cases are
  made of, so each generated type is complete where it is used.\<close>

theorem structs_emitted_after_dependencies:
  assumes "protocol_wf p"
  shows "distinct (topological_struct_order p) \<and> set (topological_struct_order p) = {..<length (cp_structs p)} \<and>
    (\<forall>k < length (topological_struct_order p).
       layout_refs (cp_structs p ! (topological_struct_order p ! k)) \<subseteq> set (take k (topological_struct_order p)))"
proof -
  let ?n = "length (cp_structs p)" and ?order = "topological_struct_order p"
  have start: "search_ok (replicate ?n Node_Unvisited) [] []" "set [0..<?n] \<subseteq> {..<length (replicate ?n Node_Unvisited)}"
    "nodes_in (replicate ?n Node_Unvisited) Node_Unvisited \<subseteq> set [0..<?n]"
    by (auto simp: search_ok_def nodes_in_def)
  have "search_ordered p (nesting_depth p) [] []" by (simp add: search_ordered_def after_dependencies_def)
  with order_roots_search [OF start, of p "nesting_depth p"] nesting_depth_falls [OF assms]
  have order: "distinct ?order" "set ?order = {..<?n}" "after_dependencies (struct_dependencies p) ?order"
    by (simp_all add: topological_struct_order_def Let_def search_ordered_def)
  have "layout_refs (cp_structs p ! (?order ! k)) \<subseteq> set (take k ?order)" if "k < length ?order" for k
  proof -
    have "?order ! k < ?n" using that order(2) by (metis lessThan_iff nth_mem)
    note dependencies_refs [OF this]
    moreover have "set (struct_dependencies p (?order ! k)) \<subseteq> set (take k ?order)"
      using order(3) that unfolding after_dependencies_def by blast
    ultimately show ?thesis by simp
  qed
  then show ?thesis using order by blast
qed

text \<open>A struct declared before the one it holds.\<close>

definition inner_struct :: compiled_message where
  "inner_struct = make_compiled_message ''inner''
     [default_compiled_field\<lparr>cf_id := 0, cf_name := ''x'', cf_kind := KUnsigned, cf_width_bytes := 1, cf_alignment := 1\<rparr>]
     [] [] [] 1 True False []"

definition outer_struct :: compiled_message where
  "outer_struct = make_compiled_message ''outer''
     [default_compiled_field\<lparr>cf_id := 0, cf_name := ''inner'', cf_kind := KStruct, cf_struct_id := 1, cf_fixed_size := 1,
        cf_alignment := 1\<rparr>]
     [] [] [] 1 True False []"

definition nested_protocol :: compiled_protocol where
  "nested_protocol = make_compiled_protocol ''nested'' 0 [outer_struct, inner_struct] []"

lemma nested_structs: "cp_structs nested_protocol = [outer_struct, inner_struct]" "cp_messages nested_protocol = []"
  by (simp_all add: nested_protocol_def make_compiled_protocol_def split: prod.split)

lemma nested_refs: "layout_refs outer_struct = {1}" "layout_refs inner_struct = {}"
  by (simp_all add: layout_refs_def field_refs_def outer_struct_def inner_struct_def make_compiled_message_def)

lemma nested_wf: "protocol_wf nested_protocol"
  by (simp add: protocol_wf_def nested_structs nested_refs numeral_2_eq_2)
    (simp add: layout_wf_def fields_wf_def field_wf_def kind_ok_def modifiers_ok_def bit_fields_wf_def outer_struct_def
      inner_struct_def make_compiled_message_def default_compiled_field_def is_valid_scalar_width_def)

lemma structs_emitted_after_dependencies_witness:
  "topological_struct_order nested_protocol = [1, 0]"
proof -
  let ?order = "topological_struct_order nested_protocol"
  have order: "distinct ?order" "set ?order = {0, 1}"
    "\<forall>k < length ?order. layout_refs ([outer_struct, inner_struct] ! (?order ! k)) \<subseteq> set (take k ?order)"
    using structs_emitted_after_dependencies [OF nested_wf] by (auto simp: nested_structs lessThan_Suc numeral_2_eq_2)
  then have "length ?order = 2" using distinct_card [of ?order] by simp
  then obtain a b where ab: "?order = [a, b]" by (auto simp: length_Suc_conv numeral_2_eq_2)
  have "a \<noteq> 0"
  proof
    assume "a = 0"
    then show False using order(3) [rule_format, of 0] unfolding ab by (simp add: nested_refs)
  qed
  moreover have "a \<in> {0, 1}" "b \<in> {0, 1}" "a \<noteq> b" using order(1,2) unfolding ab by auto
  ultimately show ?thesis unfolding ab by auto
qed

subsection \<open>Offsets in the generated code\<close>

lemma fixed_offset_snoc:
  "fixed_offset_loop (fs @ [f]) n =
     (case fixed_offset_loop fs n of
        None \<Rightarrow> None
      | Some offset \<Rightarrow> if cf_dynamic_size f then None else Some (wrap_size (offset + minimum_size_contribution f)))"
  by (induction fs arbitrary: n) auto

lemma align_up_one: "align_up v 1 = v"
  by (simp add: align_up_def)

lemma simple_field_size:
  assumes "simple_direct_field f" and "\<not> cf_dynamic_size f"
  shows "decode_field_size nested p frame m f off = Inr (minimum_size_contribution f)"
  using assms
  by (cases "cf_kind f")
    (simp_all add: simple_direct_field_def decode_field_size_def minimum_size_contribution_def is_conditionally_present_def)

lemma simple_field_decoded:
  assumes d: "decoded_as ops nested p l frame selected pre m n" and wf: "layout_wf l"
    and simple: "layout_supports_simple_direct_codec l" and i: "i < length (cm_fields l)"
  shows "dm_present m i" and "fst (dm_resolved m i) = end_before m i" and "end_before m (Suc i) \<le> length frame"
    and "\<not> cf_dynamic_size (cm_fields l ! i) \<Longrightarrow> snd (dm_resolved m i) = minimum_size_contribution (cm_fields l ! i)"
proof -
  let ?f = "cm_fields l ! i"
  have f: "simple_direct_field ?f" using simple i by (simp add: layout_supports_simple_direct_codec_def list_all_length)
  have "modifiers_ok (take i (cm_fields l)) ?f" using wf i by (simp add: layout_wf_def fields_wf_def field_wf_def)
  then have align: "cf_alignment ?f = 1" using f by (simp add: modifiers_ok_def simple_direct_field_def)
  note step = decoded_as_field [OF d wf i]
  show present: "dm_present m i"
    using step f by (simp add: field_step_def simple_direct_field_def condition_matches_def presence_matches_def)
  show "fst (dm_resolved m i) = end_before m i" "end_before m (Suc i) \<le> length frame"
    using step present align align_up_one by (simp_all add: field_step_def)
  show "snd (dm_resolved m i) = minimum_size_contribution ?f" if "\<not> cf_dynamic_size ?f"
    using step present simple_field_size [OF f that] by (simp add: field_step_def)
qed

lemma fixed_offset_decoded:
  assumes d: "decoded_as ops nested p l frame selected pre m n" and wf: "layout_wf l"
    and simple: "layout_supports_simple_direct_codec l" and size: "length frame \<le> SIZE_MAX"
  shows "i \<le> length (cm_fields l) \<Longrightarrow> fixed_offset_loop (take i (cm_fields l)) 0 = Some offset \<Longrightarrow> end_before m i = offset"
proof (induction i arbitrary: offset)
  case 0
  then show ?case by simp
next
  case (Suc i)
  then have i: "i < length (cm_fields l)" by simp
  let ?f = "cm_fields l ! i"
  obtain o1 where o1: "fixed_offset_loop (take i (cm_fields l)) 0 = Some o1" and f: "\<not> cf_dynamic_size ?f"
    and off: "offset = wrap_size (o1 + minimum_size_contribution ?f)"
    using Suc.prems(2) i by (auto simp: take_Suc_conv_app_nth fixed_offset_snoc split: option.splits if_splits)
  have "end_before m i = o1" using Suc.IH o1 i by simp
  then have e: "end_before m (Suc i) = o1 + minimum_size_contribution ?f"
    using simple_field_decoded(2,4) [OF d wf simple i] f by simp
  then have "o1 + minimum_size_contribution ?f \<le> SIZE_MAX"
    using simple_field_decoded(3) [OF d wf simple i] size by simp
  then show ?case using e off by (simp add: wrap_size_id SIZE_MAX_def)
qed

text \<open>C36: The offsets a generator computes are the decoder's, and so are the spans of checksums, which it writes into the encode
  function of a message. In every message decoded against a layout with the simple codec, a field whose offset the generator knows starts there, and a checksum whose span the generator knows
  covers exactly that many bytes of the frame from its start, and holds their checksum.\<close>

theorem generated_offsets_decoded:
  assumes "protocol_wf p" and "l \<in> set (cp_messages p @ cp_structs p)" and "length frame \<le> SIZE_MAX"
    and "layout_supports_simple_direct_codec l" and "assign_from_layout ops p l frame selected pre = Inr (m, n)"
  shows "(\<forall>i < length (cm_fields l). \<forall>offset. fixed_field_offset l i = Some offset \<longrightarrow>
      dm_present m i \<and> fst (dm_resolved m i) = offset) \<and>
    (\<forall>c \<in> set (cm_checksums l). \<forall>size. checksum_static_span_size l c = Some size \<longrightarrow>
      checksum_anchor_offset (cck_from c) frame m = Some 0 \<and> checksum_anchor_offset (cck_to c) frame m = Some size \<and>
      raw_unsigned m (cck_field_id c) = Some (runtime_checksum ops c (take size frame)))"
proof -
  note wf = conjunct1 [OF known_layout [OF assms(1,2)]]
  have d: "decoded_as ops (consumed_size ops p) p l frame selected pre m n"
    using assms(5) unfolding assign_from_layout_iff [OF assms(1-3)] .
  have offsets: "dm_present m i \<and> fst (dm_resolved m i) = offset"
    if "i < length (cm_fields l)" "fixed_field_offset l i = Some offset" for i offset
    using simple_field_decoded(1,2) [OF d wf assms(4) that(1)] fixed_offset_decoded [OF d wf assms(4,3), of i offset] that
    by (simp add: fixed_field_offset_def)
  have "checksum_anchor_offset (cck_from c) frame m = Some 0 \<and> checksum_anchor_offset (cck_to c) frame m = Some size \<and>
      raw_unsigned m (cck_field_id c) = Some (runtime_checksum ops c (take size frame))"
    if c: "c \<in> set (cm_checksums l)" and size: "checksum_static_span_size l c = Some size" for c size
  proof -
    have holds: "checksum_holds ops frame m c" using d c by (simp add: decoded_as_def)
    have count: "dm_field_count m = length (cm_fields l)" using d by (simp add: decoded_as_def)
    have short: "checksum_uses_prefix_shortcut c" "fixed_field_offset l (cck_field_id c) = Some size"
      using size by (auto simp: checksum_static_span_size_def split: if_splits)
    have "checksum_wf (cm_fields l) c" using wf c by (simp add: layout_wf_def)
    then have i: "cck_field_id c < length (cm_fields l)" by (simp add: checksum_wf_def numeric_ref_def)
    from offsets [OF i short(2)] short(1) count i
    have anchors: "checksum_anchor_offset (cck_from c) frame m = Some 0" "checksum_anchor_offset (cck_to c) frame m = Some size"
      by (auto simp: checksum_anchor_offset_def checksum_uses_prefix_shortcut_def split: prod.split)
    then show ?thesis using holds by (simp add: checksum_holds_def subspan_def)
  qed
  with offsets show ?thesis by blast
qed

definition checked_checksum :: compiled_checksum where
  "checked_checksum = \<lparr>cck_field_id = 1, cck_result_width_bytes = 1, cck_function = Some checksum_xor8,
     cck_algorithm_name = ''xor8'', cck_builtin_kind = BK_Xor8,
     cck_from = \<lparr>cca_kind = FrameStart, cca_field_id = 0\<rparr>, cck_to = \<lparr>cca_kind = BeforeSelf, cca_field_id = 1\<rparr>\<rparr>"

definition checked_layout :: compiled_message where
  "checked_layout = make_compiled_message ''checked''
     [default_compiled_field\<lparr>cf_id := 0, cf_name := ''a'', cf_width_bytes := 2, cf_alignment := 1\<rparr>,
      default_compiled_field\<lparr>cf_id := 1, cf_name := ''check'', cf_width_bytes := 1, cf_alignment := 1\<rparr>]
     [] [checked_checksum] [] 3 True False []"

definition checked_protocol :: compiled_protocol where
  "checked_protocol = make_compiled_protocol ''checked'' 0 [] [checked_layout]"

lemma checked_wf: "protocol_wf checked_protocol"
  by (simp add: protocol_wf_def checked_protocol_def)
    (simp add: layout_wf_def fields_wf_def field_wf_def kind_ok_def modifiers_ok_def bit_fields_wf_def checked_layout_def
      make_compiled_message_def default_compiled_field_def is_valid_scalar_width_def checked_checksum_def checksum_wf_def
      numeric_ref_def anchor_wf_def layout_refs_def field_refs_def less_Suc_eq)

lemma checked_decodes: "\<exists>m. assign_from_layout plain_ops checked_protocol checked_layout [1, 7, 6] None False = Inr (m, 3)"
  by (simp add: decode_eval checked_protocol_def checked_layout_def checked_checksum_def default_compiled_field_def)

lemma generated_offsets_decoded_witness:
  "\<exists>m. assign_from_layout plain_ops checked_protocol checked_layout [1, 7, 6] None False = Inr (m, 3) \<and>
     checksum_static_span_size checked_layout checked_checksum = Some 2 \<and>
     raw_unsigned m 1 = Some (runtime_checksum plain_ops checked_checksum [1, 7])"
proof -
  obtain m where m: "assign_from_layout plain_ops checked_protocol checked_layout [1, 7, 6] None False = Inr (m, 3)"
    using checked_decodes by blast
  have l: "checked_layout \<in> set (cp_messages checked_protocol @ cp_structs checked_protocol)"
    "layout_supports_simple_direct_codec checked_layout" "checked_checksum \<in> set (cm_checksums checked_layout)"
    by (simp_all add: checked_protocol_def checked_layout_def layout_supports_simple_direct_codec_def
        checksums_support_direct_def checked_checksum_def checksum_algorithm_supports_direct_value_decode_def
        simple_direct_field_def default_compiled_field_def)
  have span: "checksum_static_span_size checked_layout checked_checksum = Some 2"
    by (simp add: checksum_static_span_size_def checksum_uses_prefix_shortcut_def checked_checksum_def fixed_field_offset_def
        checked_layout_def default_compiled_field_def minimum_size_contribution_def is_conditionally_present_def)
  have "raw_unsigned m (cck_field_id checked_checksum) = Some (runtime_checksum plain_ops checked_checksum (take 2 [1, 7, 6]))"
    using generated_offsets_decoded [OF checked_wf l(1) _ l(2) m] l(3) span by (simp add: SIZE_MAX_def)
  then show ?thesis using m span by (simp add: checked_checksum_def)
qed

end
