(* ===== verification/Posix_Servers.thy ===== *)
theory Posix_Servers
  imports Posix_Transport Protocol_Discovery
begin

text \<open>
  The rest of the transports over file descriptors: listeners (\<open>TcpListener\<close>, \<open>UnixSocketListener\<close>), socket pairs,
  devices, the names of endpoints, and the special members of the classes, with which objects own their descriptors:
  move constructors, move assignments and destructors. The system calls that only these functions make are the record
  \<open>posix_net\<close> beside the calls of \<open>Posix_Transport\<close>.
\<close>

subsection \<open>The system calls\<close>

text \<open>What \<open>getsockname\<close> and \<open>getpeername\<close> return: the path of a Unix address, or an address for \<open>getnameinfo\<close>.\<close>

datatype 'addr socket_name = Unix_Name string | Inet_Name 'addr

record ('os, 'addr) posix_net =
  pn_calls :: "('os, 'addr) posix"
  pn_loopback :: "nat \<Rightarrow> 'addr"
  pn_unix_address :: "string \<Rightarrow> 'addr"
  pn_bind :: "int \<Rightarrow> 'addr \<Rightarrow> 'os \<Rightarrow> (errno_code + unit) \<times> 'os"
  pn_listen :: "int \<Rightarrow> nat \<Rightarrow> 'os \<Rightarrow> (errno_code + unit) \<times> 'os"
  pn_bound_port :: "int \<Rightarrow> 'os \<Rightarrow> (errno_code + nat) \<times> 'os"
  pn_socketpair :: "'os \<Rightarrow> (errno_code + int \<times> int) \<times> 'os"
  pn_open :: "string \<Rightarrow> u32 \<Rightarrow> 'os \<Rightarrow> (errno_code + int) \<times> 'os"
  pn_socket_name :: "bool \<Rightarrow> int \<Rightarrow> 'os \<Rightarrow> (errno_code + 'addr socket_name) \<times> 'os"
  pn_getnameinfo :: "'addr \<Rightarrow> (string \<times> string) option"

subsection \<open>Endpoints\<close>

definition socket_endpoint_string :: "('os, 'addr) posix_net \<Rightarrow> int \<Rightarrow> bool \<Rightarrow> 'os \<Rightarrow> string \<times> 'os" where
  "socket_endpoint_string net fd peer os =
     (case pn_socket_name net peer fd os of
        (Inl e, os) \<Rightarrow> ([], os)
      | (Inr (Unix_Name path), os) \<Rightarrow> (path, os)
      | (Inr (Inet_Name address), os) \<Rightarrow>
          (case pn_getnameinfo net address of
             None \<Rightarrow> ([], os)
           | Some (host, service) \<Rightarrow> (host @ '':'' @ service, os)))"

definition tcp_local_endpoint :: "('os, 'addr) posix_net \<Rightarrow> 'os \<times> fd_handle \<Rightarrow> string \<times> 'os" where
  "tcp_local_endpoint net t = socket_endpoint_string net (fh_fd (snd t)) False (fst t)"

definition tcp_peer_endpoint :: "('os, 'addr) posix_net \<Rightarrow> 'os \<times> fd_handle \<Rightarrow> string \<times> 'os" where
  "tcp_peer_endpoint net t = socket_endpoint_string net (fh_fd (snd t)) True (fst t)"

definition unix_local_endpoint :: "('os, 'addr) posix_net \<Rightarrow> 'os \<times> fd_handle \<Rightarrow> string \<times> 'os" where
  "unix_local_endpoint net t = socket_endpoint_string net (fh_fd (snd t)) False (fst t)"

definition unix_peer_endpoint :: "('os, 'addr) posix_net \<Rightarrow> 'os \<times> fd_handle \<Rightarrow> string \<times> 'os" where
  "unix_peer_endpoint net t = socket_endpoint_string net (fh_fd (snd t)) True (fst t)"

definition tcp_listener_endpoint :: "listener \<Rightarrow> string" where
  "tcp_listener_endpoint l = ''127.0.0.1:'' @ decimal (ls_port l)"

definition unix_listener_endpoint :: "listener \<Rightarrow> string" where
  "unix_listener_endpoint l = ls_path l"

text \<open>\<open>snprintf\<close> into \<open>sun_path\<close>, an array of 108 characters with the terminating zero.\<close>

definition make_unix_address :: "string \<Rightarrow> string" where
  "make_unix_address path = take 107 (takeWhile (\<lambda>c. c \<noteq> CHR 0x00) path)"

subsection \<open>Listeners\<close>

definition closed_listener :: listener where
  "closed_listener = \<lparr>ls_fd = -1, ls_open = False, ls_port = 0, ls_path = []\<rparr>"

definition listener_is_open :: "listener \<Rightarrow> bool" where
  "listener_is_open l \<longleftrightarrow> ls_open l \<and> ls_fd l \<ge> 0"

definition bind_loopback ::
  "('os, 'addr) posix_net \<Rightarrow> nat \<Rightarrow> socket_options \<Rightarrow> 'os \<Rightarrow> (status_code + listener) \<times> 'os" where
  "bind_loopback net port options os =
     (let px = pn_calls net in
      case px_socket px (pn_loopback net port) os of
        (Inl e, os) \<Rightarrow> (Inl SC_IoError, os)
      | (Inr fd, os) \<Rightarrow>
      (case px_setsockopt px fd SO_REUSEADDR 1 os of
        (Inl e, os) \<Rightarrow> (Inl SC_IoError, snd (close_fd px fd os))
      | (Inr u, os) \<Rightarrow>
      (case pn_bind net fd (pn_loopback net port) os of
        (Inl e, os) \<Rightarrow> (Inl SC_IoError, snd (close_fd px fd os))
      | (Inr u, os) \<Rightarrow>
      (case pn_listen net fd 32 os of
        (Inl e, os) \<Rightarrow> (Inl SC_IoError, snd (close_fd px fd os))
      | (Inr u, os) \<Rightarrow>
      (case (if sk_non_blocking options then set_non_blocking px fd os else (SC_Ok, os)) of (st, os) \<Rightarrow>
        if st \<noteq> SC_Ok then (Inl st, snd (close_fd px fd os))
        else
          let l = closed_listener\<lparr>ls_fd := fd, ls_open := True\<rparr> in
          (case pn_bound_port net fd os of
             (Inl e, os) \<Rightarrow> (Inr l, os)
           | (Inr port, os) \<Rightarrow> (Inr (l\<lparr>ls_port := port\<rparr>), os)))))))"

definition bind_path ::
  "('os, 'addr) posix_net \<Rightarrow> string \<Rightarrow> socket_options \<Rightarrow> 'os \<Rightarrow> (status_code + listener) \<times> 'os" where
  "bind_path net path options os =
     (let px = pn_calls net; address = pn_unix_address net (make_unix_address path) in
      case px_socket px address os of
        (Inl e, os) \<Rightarrow> (Inl SC_IoError, os)
      | (Inr fd, os) \<Rightarrow>
      (case pn_bind net fd address (px_unlink px path os) of
        (Inl e, os) \<Rightarrow> (Inl SC_IoError, snd (close_fd px fd os))
      | (Inr u, os) \<Rightarrow>
      (case pn_listen net fd 16 os of
        (Inl e, os) \<Rightarrow> (Inl SC_IoError, snd (close_fd px fd (px_unlink px path os)))
      | (Inr u, os) \<Rightarrow>
      (case (if sk_non_blocking options then set_non_blocking px fd os else (SC_Ok, os)) of (st, os) \<Rightarrow>
        if st \<noteq> SC_Ok then (Inl st, snd (close_fd px fd (px_unlink px path os)))
        else (Inr (closed_listener\<lparr>ls_fd := fd, ls_open := True, ls_path := path\<rparr>), os)))))"

definition tcp_wait_for_connection ::
  "('os, 'addr) posix_net \<Rightarrow> listener \<Rightarrow> int \<Rightarrow> 'os \<Rightarrow> (status_code + bool) \<times> 'os" where
  "tcp_wait_for_connection net l timeout_ms os = wait_for_fd (pn_calls net) (ls_fd l) POLLIN timeout_ms os"

definition unix_wait_for_connection ::
  "('os, 'addr) posix_net \<Rightarrow> listener \<Rightarrow> int \<Rightarrow> 'os \<Rightarrow> (status_code + bool) \<times> 'os" where
  "unix_wait_for_connection net l timeout_ms os = wait_for_fd (pn_calls net) (ls_fd l) POLLIN timeout_ms os"

text \<open>\<open>move_from\<close> of the listeners; a moved-from \<open>TcpListener\<close> keeps its options only.\<close>

definition tcp_listener_move_from :: "listener \<Rightarrow> listener \<times> listener" where
  "tcp_listener_move_from other =
     (closed_listener\<lparr>ls_fd := ls_fd other, ls_open := ls_open other, ls_port := ls_port other\<rparr>,
      other\<lparr>ls_fd := -1, ls_open := False, ls_port := 0\<rparr>)"

definition unix_listener_move_from :: "listener \<Rightarrow> listener \<times> listener" where
  "unix_listener_move_from other =
     (closed_listener\<lparr>ls_fd := ls_fd other, ls_open := ls_open other, ls_path := ls_path other\<rparr>,
      other\<lparr>ls_fd := -1, ls_open := False, ls_path := []\<rparr>)"

definition tcp_listener_assign ::
  "('os, 'addr) posix_net \<Rightarrow> listener \<Rightarrow> listener \<Rightarrow> 'os \<Rightarrow> (listener \<times> listener) \<times> 'os" where
  "tcp_listener_assign net target other os =
     (tcp_listener_move_from other, snd (snd (tcp_listener_close (pn_calls net) target os)))"

definition unix_listener_assign ::
  "('os, 'addr) posix_net \<Rightarrow> listener \<Rightarrow> listener \<Rightarrow> 'os \<Rightarrow> (listener \<times> listener) \<times> 'os" where
  "unix_listener_assign net target other os =
     (unix_listener_move_from other, snd (snd (unix_listener_close (pn_calls net) target os)))"

subsection \<open>Socket pairs and devices\<close>

text \<open>The two transports are initialised in the order of the pair.\<close>

definition create_socket_pair ::
  "('os, 'addr) posix_net \<Rightarrow> socket_options \<Rightarrow> 'os \<Rightarrow> (status_code + fd_handle \<times> fd_handle) \<times> 'os" where
  "create_socket_pair net options os =
     (case pn_socketpair net os of
        (Inl e, os) \<Rightarrow> (Inl SC_IoError, os)
      | (Inr (fd0, fd1), os) \<Rightarrow>
          (case new_unix_transport (pn_calls net) fd0 options os of (os, h0) \<Rightarrow>
          (case new_unix_transport (pn_calls net) fd1 options os of (os, h1) \<Rightarrow> (Inr (h0, h1), os))))"

text \<open>When the new transport is not open it is destroyed, which closes it.\<close>

definition open_device ::
  "('os, 'addr) posix_net \<Rightarrow> string \<Rightarrow> u32 \<Rightarrow> bool \<Rightarrow> bool \<Rightarrow> 'os \<Rightarrow> (status_code + fd_handle) \<times> 'os" where
  "open_device net path open_flags own_handle non_blocking os =
     (case pn_open net path open_flags os of
        (Inl e, os) \<Rightarrow> (Inl SC_IoError, os)
      | (Inr fd, os) \<Rightarrow>
          (case new_posix_fd_transport (pn_calls net) fd own_handle non_blocking os of (os, h) \<Rightarrow>
           if \<not> handle_is_open h then (Inl SC_IoError, fst (snd (posix_fd_close (pn_calls net) (os, h))))
           else (Inr h, os)))"

text \<open>\<open>PosixFdTransport\<close> and \<open>PosixSocketTransport\<close> have no wait for writing.\<close>

definition wait_for_readable :: "('os, 'addr) posix \<Rightarrow> int \<Rightarrow> int \<Rightarrow> 'os \<Rightarrow> (status_code + bool) \<times> 'os" where
  "wait_for_readable px fd timeout_ms os =
     (if fd < 0 then (Inl SC_InvalidArgument, os)
      else
        (case retried px (px_poll px fd POLLIN timeout_ms) os of
           (Inl e, os) \<Rightarrow> (Inl SC_IoError, os)
         | (Inr ready, os) \<Rightarrow> (Inr (ready > 0), os)))"

definition posix_fd_wait_until_readable ::
  "('os, 'addr) posix_net \<Rightarrow> int \<Rightarrow> 'os \<times> fd_handle \<Rightarrow> (status_code + bool) \<times> 'os" where
  "posix_fd_wait_until_readable net timeout_ms t = wait_for_readable (pn_calls net) (fh_fd (snd t)) timeout_ms (fst t)"

definition posix_socket_wait_until_readable ::
  "('os, 'addr) posix_net \<Rightarrow> int \<Rightarrow> 'os \<times> fd_handle \<Rightarrow> (status_code + bool) \<times> 'os" where
  "posix_socket_wait_until_readable net timeout_ms t =
     wait_for_readable (pn_calls net) (fh_fd (snd t)) timeout_ms (fst t)"

definition unix_wait_until_readable ::
  "('os, 'addr) posix_net \<Rightarrow> int \<Rightarrow> 'os \<times> fd_handle \<Rightarrow> (status_code + bool) \<times> 'os" where
  "unix_wait_until_readable net timeout_ms t = wait_for_fd (pn_calls net) (fh_fd (snd t)) POLLIN timeout_ms (fst t)"

definition unix_wait_until_writable ::
  "('os, 'addr) posix_net \<Rightarrow> int \<Rightarrow> 'os \<times> fd_handle \<Rightarrow> (status_code + bool) \<times> 'os" where
  "unix_wait_until_writable net timeout_ms t = wait_for_fd (pn_calls net) (fh_fd (snd t)) POLLOUT timeout_ms (fst t)"

definition unix_capabilities :: u32 where
  "unix_capabilities = capability_mask TC_Stream"

subsection \<open>Ownership\<close>

text \<open>
  Move assignment of two objects closes the target and moves the other into it; assignment to itself does nothing and has no
  definition. Each class calls its own \<open>close\<close>; its destructor is that call with the status dropped.
\<close>

definition tcp_assign ::
  "('os, 'addr) posix_net \<Rightarrow> fd_handle \<Rightarrow> fd_handle \<Rightarrow> 'os \<Rightarrow> (fd_handle \<times> fd_handle) \<times> 'os" where
  "tcp_assign net target other os = (handle_move_from other, fst (snd (tcp_close (pn_calls net) (os, target))))"

definition unix_assign ::
  "('os, 'addr) posix_net \<Rightarrow> fd_handle \<Rightarrow> fd_handle \<Rightarrow> 'os \<Rightarrow> (fd_handle \<times> fd_handle) \<times> 'os" where
  "unix_assign net target other os = (handle_move_from other, fst (snd (unix_close (pn_calls net) (os, target))))"

definition posix_fd_assign ::
  "('os, 'addr) posix_net \<Rightarrow> fd_handle \<Rightarrow> fd_handle \<Rightarrow> 'os \<Rightarrow> (fd_handle \<times> fd_handle) \<times> 'os" where
  "posix_fd_assign net target other os = (handle_move_from other, fst (snd (posix_fd_close (pn_calls net) (os, target))))"

definition posix_socket_assign ::
  "('os, 'addr) posix_net \<Rightarrow> fd_handle \<Rightarrow> fd_handle \<Rightarrow> 'os \<Rightarrow> (fd_handle \<times> fd_handle) \<times> 'os" where
  "posix_socket_assign net target other os =
     (handle_move_from other, fst (snd (posix_socket_close (pn_calls net) (os, target))))"

definition tcp_destroy :: "('os, 'addr) posix_net \<Rightarrow> fd_handle \<Rightarrow> 'os \<Rightarrow> 'os" where
  "tcp_destroy net h os = fst (snd (tcp_close (pn_calls net) (os, h)))"

definition unix_destroy :: "('os, 'addr) posix_net \<Rightarrow> fd_handle \<Rightarrow> 'os \<Rightarrow> 'os" where
  "unix_destroy net h os = fst (snd (unix_close (pn_calls net) (os, h)))"

definition posix_fd_destroy :: "('os, 'addr) posix_net \<Rightarrow> fd_handle \<Rightarrow> 'os \<Rightarrow> 'os" where
  "posix_fd_destroy net h os = fst (snd (posix_fd_close (pn_calls net) (os, h)))"

definition posix_socket_destroy :: "('os, 'addr) posix_net \<Rightarrow> fd_handle \<Rightarrow> 'os \<Rightarrow> 'os" where
  "posix_socket_destroy net h os = fst (snd (posix_socket_close (pn_calls net) (os, h)))"

definition tcp_listener_destroy :: "('os, 'addr) posix_net \<Rightarrow> listener \<Rightarrow> 'os \<Rightarrow> 'os" where
  "tcp_listener_destroy net l os = snd (snd (tcp_listener_close (pn_calls net) l os))"

definition unix_listener_destroy :: "('os, 'addr) posix_net \<Rightarrow> listener \<Rightarrow> 'os \<Rightarrow> 'os" where
  "unix_listener_destroy net l os = snd (snd (unix_listener_close (pn_calls net) l os))"

text \<open>Paths longer than the array are cut: two of them with the same beginning are the same address.\<close>

lemma long_paths_collide: "length path = 107 \<Longrightarrow> make_unix_address (path @ a) = make_unix_address (path @ b)"
proof -
  assume n: "length path = 107"
  show ?thesis
  proof (cases "CHR 0x00 \<in> set path")
    case True
    then show ?thesis by (simp add: make_unix_address_def takeWhile_append1)
  next
    case False
    then have "takeWhile (\<lambda>c. c \<noteq> CHR 0x00) (path @ x) = path @ takeWhile (\<lambda>c. c \<noteq> CHR 0x00) x" for x
      by (intro takeWhile_append2) auto
    then show ?thesis using n by (simp add: make_unix_address_def)
  qed
qed

end
