(* ===== verification/Posix_Ownership.thy ===== *)
theory Posix_Ownership
  imports Posix_Servers "HOL-Library.Multiset"
begin

text \<open>
  Ownership of file descriptors: programs that create, move, assign, close and use transports and listeners, over a
  kernel that keeps a table of open descriptors, and the theorem that they neither leak a descriptor nor close one twice when
  the transports own their descriptors. Without the option \<open>own_handle\<close> one can be lost.
\<close>

subsection \<open>The descriptor table\<close>

text \<open>\<open>fds os\<close> is the set of open descriptors. Descriptors that are made are new; \<open>close\<close> releases its argument, on
  failure too, as Linux documents; no other call opens or closes one.\<close>

definition keeps_table :: "('os \<Rightarrow> int set) \<Rightarrow> ('os \<Rightarrow> 'r \<times> 'os) \<Rightarrow> bool" where
  "keeps_table fds call \<longleftrightarrow> (\<forall>os. fds (snd (call os)) = fds os)"

definition opens_descriptor :: "('os \<Rightarrow> int set) \<Rightarrow> ('os \<Rightarrow> (errno_code + int) \<times> 'os) \<Rightarrow> bool" where
  "opens_descriptor fds call \<longleftrightarrow>
     (\<forall>os. case call os of
             (Inl e, os') \<Rightarrow> fds os' = fds os
           | (Inr fd, os') \<Rightarrow> fd \<ge> 0 \<and> fd \<notin> fds os \<and> fds os' = insert fd (fds os))"

definition descriptor_table :: "('os, 'addr) posix_net \<Rightarrow> ('os \<Rightarrow> int set) \<Rightarrow> bool" where
  "descriptor_table net fds \<longleftrightarrow>
     (let px = pn_calls net in
      (\<forall>os. finite (fds os)) \<and>
      (\<forall>address. opens_descriptor fds (px_socket px address)) \<and> (\<forall>fd. opens_descriptor fds (px_accept px fd)) \<and>
      (\<forall>path flags. opens_descriptor fds (pn_open net path flags)) \<and>
      (\<forall>os. case pn_socketpair net os of
              (Inl e, os') \<Rightarrow> fds os' = fds os
            | (Inr (fd0, fd1), os') \<Rightarrow> fd0 \<ge> 0 \<and> fd1 \<ge> 0 \<and> fd0 \<noteq> fd1 \<and> fd0 \<notin> fds os \<and> fd1 \<notin> fds os \<and>
                fds os' = insert fd0 (insert fd1 (fds os))) \<and>
      (\<forall>fd os. fds (snd (px_close px fd os)) = fds os - {fd}) \<and>
      (\<forall>fd n. keeps_table fds (px_read px fd n)) \<and> (\<forall>fd n. keeps_table fds (px_recv px fd n)) \<and>
      (\<forall>fd bs. keeps_table fds (px_send px fd bs)) \<and> (\<forall>fd event ms. keeps_table fds (px_poll px fd event ms)) \<and>
      (\<forall>fd. keeps_table fds (px_getfl px fd)) \<and> (\<forall>fd flags. keeps_table fds (px_setfl px fd flags)) \<and>
      (\<forall>fd opt v. keeps_table fds (px_setsockopt px fd opt v)) \<and> (\<forall>fd. keeps_table fds (px_so_error px fd)) \<and>
      (\<forall>host port. keeps_table fds (px_getaddrinfo px host port)) \<and>
      (\<forall>fd address. keeps_table fds (px_connect px fd address)) \<and>
      (\<forall>fd address. keeps_table fds (pn_bind net fd address)) \<and> (\<forall>fd n. keeps_table fds (pn_listen net fd n)) \<and>
      (\<forall>fd. keeps_table fds (pn_bound_port net fd)) \<and> (\<forall>path os. fds (px_unlink px path os) = fds os))"

subsection \<open>Programs over transports\<close>

datatype transport_class = Tcp_Class | Unix_Class | Fd_Class | Socket_Class

datatype transport_call =
  Connect_Host string nat socket_options
| Connect_Path string socket_options
| Connect_Tcp string nat bool int
| Socket_Pair socket_options
| Open_Device string u32 bool
| Bind_Loopback nat socket_options
| Bind_Path string socket_options
| Accept nat socket_options
| Read_Into nat bytes
| Write_Bytes nat bytes
| Move_Out nat
| Assign nat nat
| Close nat
| Assign_Listener nat nat
| Close_Listener nat

record transport_store =
  ts_transports :: "(transport_class \<times> fd_handle) list"
  ts_listeners :: "(transport_class \<times> listener) list"

definition no_transports :: transport_store where
  "no_transports = \<lparr>ts_transports = [], ts_listeners = []\<rparr>"

text \<open>The virtual functions, and what the compiler generates for an object that is constructed by a move.\<close>

fun class_close :: "('os, 'addr) posix_net \<Rightarrow> transport_class \<Rightarrow> 'os \<times> fd_handle \<Rightarrow> status_code \<times> 'os \<times> fd_handle" where
  "class_close net Tcp_Class t = tcp_close (pn_calls net) t"
| "class_close net Unix_Class t = unix_close (pn_calls net) t"
| "class_close net Fd_Class t = posix_fd_close (pn_calls net) t"
| "class_close net Socket_Class t = posix_socket_close (pn_calls net) t"

fun class_read :: "('os, 'addr) posix_net \<Rightarrow> transport_class \<Rightarrow> ('os \<times> fd_handle) transport_read" where
  "class_read net Tcp_Class t destination = tcp_read (pn_calls net) t destination"
| "class_read net Unix_Class t destination = unix_read (pn_calls net) t destination"
| "class_read net Fd_Class t destination = posix_fd_read (pn_calls net) t destination"
| "class_read net Socket_Class t destination = posix_socket_read (pn_calls net) t destination"

fun class_assign ::
  "('os, 'addr) posix_net \<Rightarrow> transport_class \<Rightarrow> fd_handle \<Rightarrow> fd_handle \<Rightarrow> 'os \<Rightarrow> (fd_handle \<times> fd_handle) \<times> 'os" where
  "class_assign net Tcp_Class target other os = tcp_assign net target other os"
| "class_assign net Unix_Class target other os = unix_assign net target other os"
| "class_assign net Fd_Class target other os = posix_fd_assign net target other os"
| "class_assign net Socket_Class target other os = posix_socket_assign net target other os"

fun class_destroy :: "('os, 'addr) posix_net \<Rightarrow> transport_class \<Rightarrow> fd_handle \<Rightarrow> 'os \<Rightarrow> 'os" where
  "class_destroy net Tcp_Class h os = tcp_destroy net h os"
| "class_destroy net Unix_Class h os = unix_destroy net h os"
| "class_destroy net Fd_Class h os = posix_fd_destroy net h os"
| "class_destroy net Socket_Class h os = posix_socket_destroy net h os"

definition add_transport :: "transport_class \<Rightarrow> (status_code + fd_handle) \<times> 'os \<Rightarrow> transport_store \<Rightarrow> 'os \<times> transport_store" where
  "add_transport c r s =
     (case r of (Inl st, os) \<Rightarrow> (os, s) | (Inr h, os) \<Rightarrow> (os, s\<lparr>ts_transports := ts_transports s @ [(c, h)]\<rparr>))"

definition add_listener :: "transport_class \<Rightarrow> (status_code + listener) \<times> 'os \<Rightarrow> transport_store \<Rightarrow> 'os \<times> transport_store" where
  "add_listener c r s =
     (case r of (Inl st, os) \<Rightarrow> (os, s) | (Inr l, os) \<Rightarrow> (os, s\<lparr>ts_listeners := ts_listeners s @ [(c, l)]\<rparr>))"

definition is_tcp :: "transport_class \<Rightarrow> bool" where
  "is_tcp c \<longleftrightarrow> c = Tcp_Class"

text \<open>One statement; a statement about an object that does not exist, or that would not compile, does nothing.\<close>

fun run_transport_call ::
  "('os, 'addr) posix_net \<Rightarrow> transport_call \<Rightarrow> 'os \<times> transport_store \<Rightarrow> 'os \<times> transport_store" where
  "run_transport_call net (Connect_Host host port options) (os, s) =
     add_transport Tcp_Class (connect_to_host (pn_calls net) host port options os) s"
| "run_transport_call net (Connect_Path path options) (os, s) =
     add_transport Unix_Class
       (connect_to_path (pn_calls net) (pn_unix_address net (make_unix_address path)) options os) s"
| "run_transport_call net (Connect_Tcp host port non_blocking timeout_ms) (os, s) =
     add_transport Socket_Class (connect_tcp (pn_calls net) host port True non_blocking timeout_ms os) s"
| "run_transport_call net (Socket_Pair options) (os, s) =
     (case create_socket_pair net options os of
        (Inl st, os) \<Rightarrow> (os, s)
      | (Inr (h0, h1), os) \<Rightarrow> (os, s\<lparr>ts_transports := ts_transports s @ [(Unix_Class, h0), (Unix_Class, h1)]\<rparr>))"
| "run_transport_call net (Open_Device path flags non_blocking) (os, s) =
     add_transport Fd_Class (open_device net path flags True non_blocking os) s"
| "run_transport_call net (Bind_Loopback port options) (os, s) = add_listener Tcp_Class (bind_loopback net port options os) s"
| "run_transport_call net (Bind_Path path options) (os, s) = add_listener Unix_Class (bind_path net path options os) s"
| "run_transport_call net (Accept k options) (os, s) =
     (if k < length (ts_listeners s) then
        (case ts_listeners s ! k of (c, l) \<Rightarrow>
           add_transport c
             (if is_tcp c then tcp_accept (pn_calls net) (ls_fd l) options os
              else unix_accept (pn_calls net) (ls_fd l) options os) s)
      else (os, s))"
| "run_transport_call net (Read_Into i destination) (os, s) =
     (if i < length (ts_transports s) then
        (case ts_transports s ! i of (c, h) \<Rightarrow>
        (case class_read net c (os, h) destination of (r, destination, os, h) \<Rightarrow>
           (os, s\<lparr>ts_transports := (ts_transports s)[i := (c, h)]\<rparr>)))
      else (os, s))"
| "run_transport_call net (Write_Bytes i source) (os, s) =
     (if i < length (ts_transports s) then
        (case ts_transports s ! i of (c, h) \<Rightarrow>
           if c = Tcp_Class then
             (case tcp_write (pn_calls net) (os, h) source of (r, os, h) \<Rightarrow>
                (os, s\<lparr>ts_transports := (ts_transports s)[i := (c, h)]\<rparr>))
           else if c = Unix_Class then
             (case unix_write (pn_calls net) (os, h) source of (r, os, h) \<Rightarrow>
                (os, s\<lparr>ts_transports := (ts_transports s)[i := (c, h)]\<rparr>))
           else (os, s))
      else (os, s))"
| "run_transport_call net (Move_Out i) (os, s) =
     (if i < length (ts_transports s) then
        (case ts_transports s ! i of (c, h) \<Rightarrow>
        (case handle_move_from h of (new_handle, h) \<Rightarrow>
           (os, s\<lparr>ts_transports := (ts_transports s)[i := (c, h)] @ [(c, new_handle)]\<rparr>)))
      else (os, s))"
| "run_transport_call net (Assign i j) (os, s) =
     (if i < length (ts_transports s) \<and> j < length (ts_transports s) \<and> i \<noteq> j \<and>
         fst (ts_transports s ! i) = fst (ts_transports s ! j) then
        (case (ts_transports s ! i, ts_transports s ! j) of ((c, target), (_, other)) \<Rightarrow>
        (case class_assign net c target other os of ((target, other), os) \<Rightarrow>
           (os, s\<lparr>ts_transports := (ts_transports s)[i := (c, target), j := (c, other)]\<rparr>)))
      else (os, s))"
| "run_transport_call net (Close i) (os, s) =
     (if i < length (ts_transports s) then
        (case ts_transports s ! i of (c, h) \<Rightarrow>
        (case class_close net c (os, h) of (st, os, h) \<Rightarrow>
           (os, s\<lparr>ts_transports := (ts_transports s)[i := (c, h)]\<rparr>)))
      else (os, s))"
| "run_transport_call net (Assign_Listener i j) (os, s) =
     (if i < length (ts_listeners s) \<and> j < length (ts_listeners s) \<and> i \<noteq> j \<and>
         fst (ts_listeners s ! i) = fst (ts_listeners s ! j) then
        (case (ts_listeners s ! i, ts_listeners s ! j) of ((c, target), (_, other)) \<Rightarrow>
        (case (if is_tcp c then tcp_listener_assign net target other os
               else unix_listener_assign net target other os) of ((target, other), os) \<Rightarrow>
           (os, s\<lparr>ts_listeners := (ts_listeners s)[i := (c, target), j := (c, other)]\<rparr>)))
      else (os, s))"
| "run_transport_call net (Close_Listener i) (os, s) =
     (if i < length (ts_listeners s) then
        (case ts_listeners s ! i of (c, l) \<Rightarrow>
        (case (if is_tcp c then tcp_listener_close (pn_calls net) l os else unix_listener_close (pn_calls net) l os) of
           (st, l, os) \<Rightarrow> (os, s\<lparr>ts_listeners := (ts_listeners s)[i := (c, l)]\<rparr>)))
      else (os, s))"

definition run_transport_calls ::
  "('os, 'addr) posix_net \<Rightarrow> transport_call list \<Rightarrow> 'os \<times> transport_store \<Rightarrow> 'os \<times> transport_store" where
  "run_transport_calls net calls t = fold (run_transport_call net) calls t"

text \<open>At the end of a program the destructors of all objects run.\<close>

definition destroy_transports :: "('os, 'addr) posix_net \<Rightarrow> transport_store \<Rightarrow> 'os \<Rightarrow> 'os" where
  "destroy_transports net s os =
     fold (\<lambda>(c, l). if is_tcp c then tcp_listener_destroy net l else unix_listener_destroy net l) (ts_listeners s)
       (fold (\<lambda>(c, h). class_destroy net c h) (ts_transports s) os)"

text \<open>The options of a socket say whether the transport owns the descriptor; by default it does.\<close>

fun owning_call :: "transport_call \<Rightarrow> bool" where
  "owning_call (Connect_Host host port options) = sk_own_handle options"
| "owning_call (Connect_Path path options) = sk_own_handle options"
| "owning_call (Socket_Pair options) = sk_own_handle options"
| "owning_call (Accept k options) = sk_own_handle options"
| "owning_call _ = True"

subsection \<open>What is owned\<close>

definition owned :: "fd_handle \<Rightarrow> int multiset" where
  "owned h = (if fh_own h \<and> fh_fd h \<ge> 0 then {#fh_fd h#} else {#})"

definition owned_listener :: "listener \<Rightarrow> int multiset" where
  "owned_listener l = (if ls_fd l \<ge> 0 then {#ls_fd l#} else {#})"

definition store_owned :: "transport_store \<Rightarrow> int multiset" where
  "store_owned s =
     sum_list (map (\<lambda>(c, h). owned h) (ts_transports s)) + sum_list (map (\<lambda>(c, l). owned_listener l) (ts_listeners s))"

abbreviation table :: "('os \<Rightarrow> int set) \<Rightarrow> 'os \<Rightarrow> int multiset" where
  "table fds os \<equiv> mset_set (fds os)"

subsection \<open>The calls\<close>

lemma keeps_tableD: "keeps_table fds call \<Longrightarrow> call os = (r, os') \<Longrightarrow> fds os' = fds os"
  by (metis keeps_table_def snd_conv)

lemma opens_descriptorD:
  assumes "opens_descriptor fds call" and "call os = (r, os')"
  shows "case r of Inl e \<Rightarrow> fds os' = fds os
    | Inr fd \<Rightarrow> fd \<ge> 0 \<and> fd \<notin> fds os \<and> fds os' = insert fd (fds os)"
  using assms by (auto simp: opens_descriptor_def split: sum.splits dest!: spec [of _ os])

lemma table_finite: "descriptor_table net fds \<Longrightarrow> finite (fds os)"
  by (simp add: descriptor_table_def Let_def)

lemma close_releases: "descriptor_table net fds \<Longrightarrow> fds (snd (px_close (pn_calls net) fd os)) = fds os - {fd}"
  by (simp add: descriptor_table_def Let_def)

lemma unlink_keeps: "descriptor_table net fds \<Longrightarrow> fds (px_unlink (pn_calls net) path os) = fds os"
  by (simp add: descriptor_table_def Let_def)

lemma calls_keep:
  assumes "descriptor_table net fds"
  shows "keeps_table fds (px_read (pn_calls net) fd n)" "keeps_table fds (px_recv (pn_calls net) fd n)"
    "keeps_table fds (px_send (pn_calls net) fd bs)" "keeps_table fds (px_poll (pn_calls net) fd event ms)"
    "keeps_table fds (px_getfl (pn_calls net) fd)" "keeps_table fds (px_setfl (pn_calls net) fd flags)"
    "keeps_table fds (px_setsockopt (pn_calls net) fd opt v)" "keeps_table fds (px_so_error (pn_calls net) fd)"
    "keeps_table fds (px_getaddrinfo (pn_calls net) host port)" "keeps_table fds (px_connect (pn_calls net) fd address)"
    "keeps_table fds (pn_bind net fd address)" "keeps_table fds (pn_listen net fd n)" "keeps_table fds (pn_bound_port net fd)"
  using assms by (simp_all add: descriptor_table_def Let_def)

lemma calls_open:
  assumes "descriptor_table net fds"
  shows "opens_descriptor fds (px_socket (pn_calls net) address)" "opens_descriptor fds (px_accept (pn_calls net) fd)"
    "opens_descriptor fds (pn_open net path flags)"
  using assms by (simp_all add: descriptor_table_def Let_def)

lemma retry_keeps: "keeps_table fds call \<Longrightarrow> keeps_table fds (retry_eintr n call)"
proof (induction n)
  case 0
  then show ?case by (simp add: keeps_table_def)
next
  case (Suc n)
  then have "fds (snd (retry_eintr (Suc n) call os)) = fds os" for os
    by (auto simp: keeps_table_def split: prod.splits sum.splits errno_code.splits) (metis snd_conv)+
  then show ?case by (simp add: keeps_table_def)
qed

lemma retried_keeps: "keeps_table fds call \<Longrightarrow> keeps_table fds (retried px call)"
  unfolding keeps_table_def retried_def by (metis retry_keeps keeps_table_def)

text \<open>Rules for programs of such calls.\<close>

lemma keeps_defined: "(\<And>os. call os = g os) \<Longrightarrow> keeps_table fds g \<Longrightarrow> keeps_table fds call"
  by (simp add: keeps_table_def)

lemma keeps_return: "keeps_table fds (\<lambda>os. (r, os))"
  by (simp add: keeps_table_def)

lemma keeps_if: "keeps_table fds f \<Longrightarrow> keeps_table fds g \<Longrightarrow> keeps_table fds (\<lambda>os. if b then f os else g os)"
  by (simp add: keeps_table_def)

lemma keeps_bind:
  "keeps_table fds call \<Longrightarrow> (\<And>r. keeps_table fds (f r)) \<Longrightarrow> keeps_table fds (\<lambda>os. case call os of (r, os) \<Rightarrow> f r os)"
  by (simp add: keeps_table_def split_beta)

lemma keeps_result:
  "keeps_table fds call \<Longrightarrow> (\<And>e. keeps_table fds (f e)) \<Longrightarrow> (\<And>r. keeps_table fds (g r)) \<Longrightarrow>
     keeps_table fds (\<lambda>os. case call os of (Inl e, os) \<Rightarrow> f e os | (Inr r, os) \<Rightarrow> g r os)"
  by (simp add: keeps_table_def split_beta split: sum.split)

lemma keeps_option:
  "keeps_table fds f \<Longrightarrow> (\<And>x. keeps_table fds (g x)) \<Longrightarrow> keeps_table fds (\<lambda>os. case z of None \<Rightarrow> f os | Some x \<Rightarrow> g x os)"
  by (cases z) auto

lemmas keeps_rules = keeps_return keeps_if keeps_bind keeps_result keeps_option

lemma set_non_blocking_keeps:
  "descriptor_table net fds \<Longrightarrow> keeps_table fds (set_non_blocking (pn_calls net) fd)"
  by (rule keeps_defined, rule set_non_blocking_def) (intro keeps_rules calls_keep)

lemma wait_for_fd_keeps:
  "descriptor_table net fds \<Longrightarrow> keeps_table fds (wait_for_fd (pn_calls net) fd event ms)"
  by (rule keeps_defined, rule wait_for_fd_def) (intro keeps_rules retried_keeps calls_keep)

lemma configure_buffers_keeps:
  "descriptor_table net fds \<Longrightarrow> keeps_table fds (configure_socket_buffers (pn_calls net) fd n k)"
  by (rule keeps_defined, rule configure_socket_buffers_def) (intro keeps_rules calls_keep)

lemma configure_tcp_keeps:
  "descriptor_table net fds \<Longrightarrow> keeps_table fds (configure_tcp_socket (pn_calls net) fd options)"
  by (rule keeps_defined, rule configure_tcp_socket_def)
    (intro keeps_rules calls_keep set_non_blocking_keeps configure_buffers_keeps)

lemma initialize_keeps:
  "descriptor_table net fds \<Longrightarrow> keeps_table fds (initialize_socket (pn_calls net) fd options)"
  by (rule keeps_defined, rule initialize_socket_def) (intro keeps_rules set_non_blocking_keeps configure_buffers_keeps)

lemma connect_with_timeout_keeps:
  "descriptor_table net fds \<Longrightarrow> keeps_table fds (connect_with_timeout (pn_calls net) fd address ms)"
  by (rule keeps_defined, rule connect_with_timeout_def [unfolded Let_def])
    (intro keeps_rules calls_keep retried_keeps wait_for_fd_keeps)

lemma close_fd_releases:
  "descriptor_table net fds \<Longrightarrow> fds (snd (close_fd (pn_calls net) fd os)) = (if fd < 0 then fds os else fds os - {fd})"
  by (simp add: close_fd_def close_releases split_beta split: sum.split)

lemma recv_keeps:
  assumes "descriptor_table net fds"
  shows "keeps_table fds (recv_from_socket (pn_calls net) fd d)" "keeps_table fds (read_from_fd (pn_calls net) fd d)"
    "keeps_table fds (send_to_socket (pn_calls net) fd bs)"
  by (rule keeps_defined, rule recv_from_socket_def read_from_fd_def send_to_socket_def,
      intro keeps_rules retried_keeps calls_keep assms)+

subsection \<open>Objects that are made\<close>

definition created :: "('os \<Rightarrow> int set) \<Rightarrow> 'os \<Rightarrow> ('h \<Rightarrow> int multiset) \<Rightarrow> (status_code + 'h) \<times> 'os \<Rightarrow> bool" where
  "created fds os owns r \<longleftrightarrow>
     (case r of (Inl st, os') \<Rightarrow> table fds os' = table fds os | (Inr h, os') \<Rightarrow> table fds os' = table fds os + owns h)"

lemma table_insert: "finite A \<Longrightarrow> fd \<notin> A \<Longrightarrow> mset_set (insert fd A) = add_mset fd (mset_set A)"
  by simp

lemma table_remove: "finite A \<Longrightarrow> fd \<in> A \<Longrightarrow> add_mset fd (mset_set (A - {fd})) = mset_set A"
  by (metis mset_set.remove)

text \<open>Constructors: a descriptor that cannot be configured is closed.\<close>

definition takes_over :: "('os \<Rightarrow> int set) \<Rightarrow> 'os \<Rightarrow> int \<Rightarrow> 'os \<times> fd_handle \<Rightarrow> bool" where
  "takes_over fds os fd r \<longleftrightarrow> add_mset fd (table fds (fst r)) = table fds os + owned (snd r)"

lemma takes_over_kept:
  "fds os' = fds os \<Longrightarrow> fd \<ge> 0 \<Longrightarrow> takes_over fds os fd (os', \<lparr>fh_fd = fd, fh_open = b, fh_own = True\<rparr>)"
  by (simp add: takes_over_def owned_def)

lemma takes_over_closed:
  "finite (fds os) \<Longrightarrow> fd \<in> fds os \<Longrightarrow> fds os' = fds os - {fd} \<Longrightarrow>
     takes_over fds os fd (os', \<lparr>fh_fd = -1, fh_open = b, fh_own = c\<rparr>)"
  by (simp add: takes_over_def owned_def table_remove)

lemma new_tcp_takes_over:
  assumes "descriptor_table net fds" and "fd \<in> fds os" and "fd \<ge> 0" and "sk_own_handle options"
  shows "takes_over fds os fd (new_tcp_transport (pn_calls net) fd options os)"
  using assms close_fd_releases [OF assms(1)] table_finite [OF assms(1)]
  by (auto simp: new_tcp_transport_def Let_def split: prod.splits intro!: takes_over_kept takes_over_closed
      dest!: configure_tcp_keeps [OF assms(1), THEN keeps_tableD])

lemma new_unix_takes_over:
  assumes "descriptor_table net fds" and "fd \<in> fds os" and "fd \<ge> 0" and "sk_own_handle options"
  shows "takes_over fds os fd (new_unix_transport (pn_calls net) fd options os)"
  using assms close_fd_releases [OF assms(1)] table_finite [OF assms(1)]
  by (auto simp: new_unix_transport_def Let_def split: prod.splits intro!: takes_over_kept takes_over_closed
      dest!: initialize_keeps [OF assms(1), THEN keeps_tableD])

lemma new_fd_takes_over:
  assumes "descriptor_table net fds" and "fd \<in> fds os" and "fd \<ge> 0"
  shows "takes_over fds os fd (new_posix_fd_transport (pn_calls net) fd True non_blocking os)"
    "takes_over fds os fd (new_posix_socket_transport (pn_calls net) fd True non_blocking os)"
  using assms close_releases [OF assms(1)] table_finite [OF assms(1)]
  by (auto simp: new_posix_fd_transport_def new_posix_socket_transport_def Let_def split: prod.splits
      intro!: takes_over_kept takes_over_closed dest!: set_non_blocking_keeps [OF assms(1), THEN keeps_tableD])

lemma opened_failed: "opens_descriptor fds call \<Longrightarrow> call os = (Inl e, os') \<Longrightarrow> fds os' = fds os"
  using opens_descriptorD by fastforce

text \<open>The loops over the addresses leave the connected socket open only.\<close>

lemma connect_addresses_opens:
  assumes "descriptor_table net fds"
  shows "connect_addresses (pn_calls net) addresses options os = (fd, os') \<Longrightarrow>
     if fd < 0 then fds os' = fds os else fd \<notin> fds os \<and> fds os' = insert fd (fds os)"
proof (induction addresses arbitrary: os)
  case Nil
  then show ?case by simp
next
  case (Cons address addresses)
  let ?px = "pn_calls net"
  obtain r os1 where sock: "px_socket ?px address os = (r, os1)" by (cases "px_socket ?px address os")
  show ?case
  proof (cases r)
    case (Inl e)
    then show ?thesis
      using Cons.IH [of os1] Cons.prems sock opened_failed [OF calls_open(1) [OF assms], of address os e os1]
      by (auto split: if_splits)
  next
    case (Inr s)
    note opened = opens_descriptorD [OF calls_open(1) [OF assms] sock, unfolded Inr sum.case]
    obtain st os2 where conf: "configure_tcp_socket ?px s (options\<lparr>sk_non_blocking := False\<rparr>) os1 = (st, os2)"
      by (cases "configure_tcp_socket ?px s (options\<lparr>sk_non_blocking := False\<rparr>) os1")
    obtain st' os3 where conn: "connect_with_timeout ?px s address (sk_connect_timeout_ms options) os2 = (st', os3)"
      by (cases "connect_with_timeout ?px s address (sk_connect_timeout_ms options) os2")
    have kept: "fds os2 = fds os1" "fds os3 = fds os1"
      using configure_tcp_keeps [OF assms, THEN keeps_tableD, OF conf]
        connect_with_timeout_keeps [OF assms, THEN keeps_tableD, OF conn] by simp_all
    then have closed: "fds (snd (close_fd ?px s os2)) = fds os" "fds (snd (close_fd ?px s os3)) = fds os"
      using opened close_fd_releases [OF assms] by auto
    show ?thesis
      using Cons.IH [of "snd (close_fd ?px s os2)"] Cons.IH [of "snd (close_fd ?px s os3)"] Cons.prems opened sock conf conn kept closed
      by (auto simp: Inr split: if_splits)
  qed
qed

lemma posix_connect_addresses_opens:
  assumes "descriptor_table net fds"
  shows "posix_connect_addresses (pn_calls net) addresses ms os = (fd, os') \<Longrightarrow>
     if fd < 0 then fds os' = fds os else fd \<notin> fds os \<and> fds os' = insert fd (fds os)"
proof (induction addresses arbitrary: os)
  case Nil
  then show ?case by simp
next
  case (Cons address addresses)
  let ?px = "pn_calls net"
  obtain r os1 where sock: "px_socket ?px address os = (r, os1)" by (cases "px_socket ?px address os")
  show ?case
  proof (cases r)
    case (Inl e)
    then show ?thesis
      using Cons.IH [of os1] Cons.prems sock opened_failed [OF calls_open(1) [OF assms], of address os e os1]
      by (auto split: if_splits)
  next
    case (Inr s)
    note opened = opens_descriptorD [OF calls_open(1) [OF assms] sock, unfolded Inr sum.case]
    obtain st os2 where conn: "connect_with_timeout ?px s address ms os1 = (st, os2)"
      by (cases "connect_with_timeout ?px s address ms os1")
    have kept: "fds os2 = fds os1" by (rule connect_with_timeout_keeps [OF assms, THEN keeps_tableD, OF conn])
    then have closed: "fds (snd (px_close ?px s os2)) = fds os" using opened close_releases [OF assms] by auto
    show ?thesis
      using Cons.IH [of "snd (px_close ?px s os2)"] Cons.prems opened sock conn kept closed
      by (auto simp: Inr split: if_splits)
  qed
qed

text \<open>The function that makes a transport from a new descriptor.\<close>

lemma created_from:
  assumes "descriptor_table net fds" and "fd \<notin> fds os" and "fds os1 = insert fd (fds os)" and "takes_over fds os1 fd (os2, h)"
  shows "created fds os owned (Inr h, os2)"
  using assms table_finite [OF assms(1)] by (simp add: created_def takes_over_def)

lemma created_opened:
  assumes "descriptor_table net fds" and "opens_descriptor fds call" and "call os = (Inr fd, os1)"
    and "fds os2 = fds os1" and "fd \<in> fds os2 \<Longrightarrow> fd \<ge> 0 \<Longrightarrow> takes_over fds os2 fd (os3, h)"
  shows "created fds os owned (Inr h, os3)"
  using opens_descriptorD [OF assms(2,3)] assms(4,5) by (auto intro: created_from [OF assms(1), of fd])

lemma host_created:
  assumes "descriptor_table net fds" and "sk_own_handle options"
  shows "created fds os owned (connect_to_host (pn_calls net) host port options os)"
proof -
  let ?px = "pn_calls net"
  obtain r os1 where names: "px_getaddrinfo ?px host port os = (r, os1)" by (cases "px_getaddrinfo ?px host port os")
  have k1: "fds os1 = fds os" by (rule calls_keep(9) [OF assms(1), THEN keeps_tableD, OF names])
  show ?thesis
  proof (cases r)
    case (Inl e)
    then show ?thesis using names k1 by (simp add: connect_to_host_def created_def)
  next
    case (Inr addresses)
    obtain fd os2 where conn: "connect_addresses ?px addresses options os1 = (fd, os2)"
      by (cases "connect_addresses ?px addresses options os1")
    note opened = connect_addresses_opens [OF assms(1) conn]
    obtain st os3 where mode: "(if sk_non_blocking options then set_non_blocking ?px fd os2 else (SC_Ok, os2)) = (st, os3)"
      by (cases "if sk_non_blocking options then set_non_blocking ?px fd os2 else (SC_Ok, os2)")
    have k3: "fds os3 = fds os2"
      using mode set_non_blocking_keeps [OF assms(1), THEN keeps_tableD, of fd os2 st os3] by (auto split: if_splits)
    show ?thesis
    proof (cases "fd < 0 \<or> st \<noteq> SC_Ok")
      case True
      then show ?thesis
        using names conn mode opened k1 k3 close_fd_releases [OF assms(1), of fd os3]
        by (auto simp: connect_to_host_def created_def Inr split: if_splits)
    next
      case False
      obtain os4 h where new: "new_tcp_transport ?px fd (options\<lparr>sk_non_blocking := False\<rparr>) os3 = (os4, h)"
        by (cases "new_tcp_transport ?px fd (options\<lparr>sk_non_blocking := False\<rparr>) os3")
      have "takes_over fds os3 fd (os4, h)"
        using new_tcp_takes_over [OF assms(1), of fd os3 "options\<lparr>sk_non_blocking := False\<rparr>"] opened False k1 k3 assms(2) new
        by auto
      then have "created fds os owned (Inr h, os4)"
        using created_from [OF assms(1), of fd os os3 os4 h] opened False k1 k3 by simp
      then show ?thesis using names conn mode new False by (simp add: connect_to_host_def Inr)
    qed
  qed
qed

lemma created_failed: "fds os' = fds os \<Longrightarrow> created fds os owns (Inl st, os')"
  by (simp add: created_def)

lemma path_created:
  assumes "descriptor_table net fds" and "sk_own_handle options"
  shows "created fds os owned (connect_to_path (pn_calls net) address options os)"
proof -
  let ?px = "pn_calls net"
  obtain r os1 where sock: "px_socket ?px address os = (r, os1)" by (cases "px_socket ?px address os")
  show ?thesis
  proof (cases r)
    case (Inl e)
    then show ?thesis
      using sock opened_failed [OF calls_open(1) [OF assms(1)], of address os e os1]
      by (simp add: connect_to_path_def created_failed)
  next
    case (Inr fd)
    note opened = opens_descriptorD [OF calls_open(1) [OF assms(1)] sock, unfolded Inr sum.case]
    obtain c os2 where conn: "px_connect ?px fd address os1 = (c, os2)" by (cases "px_connect ?px fd address os1")
    have k: "fds os2 = fds os1" by (rule calls_keep(10) [OF assms(1), THEN keeps_tableD, OF conn])
    show ?thesis
    proof (cases c)
      case (Inl e)
      then show ?thesis
        using sock conn opened k close_fd_releases [OF assms(1), of fd os2]
        by (simp add: connect_to_path_def Inr created_failed)
    next
      case c: (Inr u)
      obtain os3 h where new: "new_unix_transport ?px fd options os2 = (os3, h)"
        by (cases "new_unix_transport ?px fd options os2")
      have "created fds os owned (Inr h, os3)"
        using new_unix_takes_over [OF assms(1) _ _ assms(2), of fd os2]
        by (intro created_opened [OF assms(1) calls_open(1) [OF assms(1)] sock [unfolded Inr] k]) (simp add: new)
      then show ?thesis using sock conn new by (simp add: connect_to_path_def Inr c)
    qed
  qed
qed

lemma accepted_created:
  assumes "descriptor_table net fds" and "sk_own_handle options"
  shows "created fds os owned (tcp_accept (pn_calls net) fd options os)"
    "created fds os owned (unix_accept (pn_calls net) fd options os)"
proof -
  let ?px = "pn_calls net"
  obtain r os1 where acc: "px_accept ?px fd os = (r, os1)" by (cases "px_accept ?px fd os")
  have "created fds os owned (tcp_accept ?px fd options os) \<and> created fds os owned (unix_accept ?px fd options os)"
  proof (cases r)
    case (Inl e)
    then show ?thesis
      using acc opened_failed [OF calls_open(2) [OF assms(1)], of fd os e os1]
      by (simp add: tcp_accept_def unix_accept_def created_failed)
  next
    case (Inr client)
    obtain os2 h where tcp: "new_tcp_transport ?px client options os1 = (os2, h)"
      by (cases "new_tcp_transport ?px client options os1")
    obtain os3 k where unix: "new_unix_transport ?px client options os1 = (os3, k)"
      by (cases "new_unix_transport ?px client options os1")
    have "created fds os owned (Inr h, os2)" "created fds os owned (Inr k, os3)"
      using new_tcp_takes_over [OF assms(1) _ _ assms(2), of client os1]
        new_unix_takes_over [OF assms(1) _ _ assms(2), of client os1]
      by (intro created_opened [OF assms(1) calls_open(2) [OF assms(1)] acc [unfolded Inr] refl]; simp add: tcp unix)+
    then show ?thesis using acc tcp unix by (simp add: tcp_accept_def unix_accept_def Inr)
  qed
  then show "created fds os owned (tcp_accept ?px fd options os)" "created fds os owned (unix_accept ?px fd options os)"
    by simp_all
qed

subsection \<open>Objects that are closed, moved and used\<close>

lemma released:
  assumes "descriptor_table net fds" and "owned h \<subseteq># table fds os"
  shows "fds os' = (if fh_own h \<and> fh_fd h \<ge> 0 then fds os - {fh_fd h} else fds os) \<Longrightarrow> table fds os = table fds os' + owned h"
  using assms(2) table_finite [OF assms(1), of os] table_remove [of "fds os" "fh_fd h"] by (auto simp: owned_def split: if_splits)

lemma close_effect:
  assumes "descriptor_table net fds"
  shows "fds (fst (snd (class_close net c (os, h)))) = (if fh_own h \<and> fh_fd h \<ge> 0 then fds os - {fh_fd h} else fds os)"
    and "owned (snd (snd (class_close net c (os, h)))) = {#}"
  by (cases c; simp add: tcp_close_def unix_close_def posix_fd_close_def posix_socket_close_def Let_def split_beta
      close_fd_releases [OF assms] close_releases [OF assms] owned_def split: sum.split)+

lemma close_released:
  assumes "descriptor_table net fds" and "owned h \<subseteq># table fds os" and "class_close net c (os, h) = (st, os', h')"
  shows "table fds os = table fds os' + owned h \<and> owned h' = {#}"
  using released [OF assms(1,2), of os'] close_effect [OF assms(1), of c os h] assms(3) by simp

lemma class_destroy_close: "class_destroy net c h os = fst (snd (class_close net c (os, h)))"
  by (cases c) (simp_all add: tcp_destroy_def unix_destroy_def posix_fd_destroy_def posix_socket_destroy_def)

lemma class_assign_close: "class_assign net c target other os = (handle_move_from other, class_destroy net c target os)"
  by (cases c) (simp_all add: tcp_assign_def unix_assign_def posix_fd_assign_def posix_socket_assign_def
      tcp_destroy_def unix_destroy_def posix_fd_destroy_def posix_socket_destroy_def)

lemma destroy_released:
  assumes "descriptor_table net fds" and "owned h \<subseteq># table fds os"
  shows "table fds os = table fds (class_destroy net c h os) + owned h"
  using close_released [OF assms, of c] by (cases "class_close net c (os, h)") (simp add: class_destroy_close)

lemma move_owned: "handle_move_from other = (h, other') \<Longrightarrow> owned h = owned other \<and> owned other' = {#}"
  by (auto simp: handle_move_from_def owned_def)

lemma read_effect:
  assumes "descriptor_table net fds" and "class_read net c (os, h) d = (r, d', os', h')"
  shows "fds os' = fds os \<and> owned h' = owned h"
  using assms(2) by (cases c) (auto simp: tcp_read_def unix_read_def posix_fd_read_def posix_socket_read_def owned_def
      split: if_splits prod.splits dest!: recv_keeps [OF assms(1), THEN keeps_tableD])

lemma write_effect:
  assumes "descriptor_table net fds"
  shows "tcp_write (pn_calls net) (os, h) bs = (r, os', h') \<Longrightarrow> fds os' = fds os \<and> h' = h"
    "unix_write (pn_calls net) (os, h) bs = (r, os', h') \<Longrightarrow> fds os' = fds os \<and> h' = h"
  by (auto simp: tcp_write_def unix_write_def split: if_splits prod.splits
      dest!: recv_keeps [OF assms(1), THEN keeps_tableD])

text \<open>Listeners.\<close>

definition listener_close ::
  "('os, 'addr) posix_net \<Rightarrow> transport_class \<Rightarrow> listener \<Rightarrow> 'os \<Rightarrow> status_code \<times> listener \<times> 'os" where
  "listener_close net c l os =
     (if is_tcp c then tcp_listener_close (pn_calls net) l os else unix_listener_close (pn_calls net) l os)"

lemma listener_close_effect:
  assumes "descriptor_table net fds"
  shows "fds (snd (snd (listener_close net c l os))) = (if ls_fd l \<ge> 0 then fds os - {ls_fd l} else fds os)"
    and "owned_listener (fst (snd (listener_close net c l os))) = {#}"
  by (simp_all add: listener_close_def tcp_listener_close_def unix_listener_close_def split_beta owned_listener_def
      close_fd_releases [OF assms] unlink_keeps [OF assms])

lemma listener_released:
  assumes "descriptor_table net fds" and "owned_listener l \<subseteq># table fds os" and "listener_close net c l os = (st, l', os')"
  shows "table fds os = table fds os' + owned_listener l \<and> owned_listener l' = {#}"
  using listener_close_effect [OF assms(1), of c l os] assms(2,3) table_finite [OF assms(1), of os]
    table_remove [of "fds os" "ls_fd l"]
  by (auto simp: owned_listener_def split: if_splits)

definition listener_move :: "transport_class \<Rightarrow> listener \<Rightarrow> listener \<times> listener" where
  "listener_move c other = (if is_tcp c then tcp_listener_move_from other else unix_listener_move_from other)"

lemma listener_move_owned:
  "listener_move c other = (l, other') \<Longrightarrow> owned_listener l = owned_listener other \<and> owned_listener other' = {#}"
  by (auto simp: listener_move_def tcp_listener_move_from_def unix_listener_move_from_def closed_listener_def
      owned_listener_def split: if_splits)

lemma listener_assign_close:
  "(if is_tcp c then tcp_listener_assign net target other os else unix_listener_assign net target other os) =
     (listener_move c other, snd (snd (listener_close net c target os)))"
  by (simp add: tcp_listener_assign_def unix_listener_assign_def listener_move_def listener_close_def)

lemma listener_destroy_close:
  "(if is_tcp c then tcp_listener_destroy net l else unix_listener_destroy net l) os = snd (snd (listener_close net c l os))"
  by (simp add: tcp_listener_destroy_def unix_listener_destroy_def listener_close_def)

subsection \<open>The other ways to make an object\<close>

lemma tcp_socket_created:
  assumes "descriptor_table net fds"
  shows "created fds os owned (connect_tcp (pn_calls net) host port True non_blocking ms os)"
proof -
  let ?px = "pn_calls net"
  obtain r os1 where names: "px_getaddrinfo ?px host port os = (r, os1)" by (cases "px_getaddrinfo ?px host port os")
  have k1: "fds os1 = fds os" by (rule calls_keep(9) [OF assms, THEN keeps_tableD, OF names])
  show ?thesis
  proof (cases r)
    case (Inl e)
    then show ?thesis using names k1 by (simp add: connect_tcp_def created_failed)
  next
    case (Inr addresses)
    obtain fd os2 where conn: "posix_connect_addresses ?px addresses ms os1 = (fd, os2)"
      by (cases "posix_connect_addresses ?px addresses ms os1")
    note opened = posix_connect_addresses_opens [OF assms conn]
    show ?thesis
    proof (cases "fd < 0")
      case True
      then show ?thesis using names conn opened k1 by (simp add: connect_tcp_def Inr created_failed)
    next
      case False
      let ?h = "\<lparr>fh_fd = fd, fh_open = True, fh_own = True\<rparr>"
      have new: "new_posix_socket_transport ?px fd True False os2 = (os2, ?h)"
        using False by (simp add: new_posix_socket_transport_def Let_def)
      obtain st os3 where mode: "set_non_blocking ?px fd os2 = (st, os3)" by (cases "set_non_blocking ?px fd os2")
      have k3: "fds os3 = fds os2" by (rule set_non_blocking_keeps [OF assms, THEN keeps_tableD, OF mode])
      have new_fd: "fd \<notin> fds os" "fds os2 = insert fd (fds os)" using opened False k1 by simp_all
      have "created fds os owned (Inr ?h, os2)" "created fds os owned (Inr ?h, os3)"
        using False by (simp_all add: created_from [OF assms new_fd takes_over_kept] k3)
      moreover have "fds (fst (snd (posix_socket_close ?px (os3, ?h)))) = fds os"
        using close_effect(1) [OF assms, of Socket_Class os3 ?h] False new_fd k3 by auto
      ultimately show ?thesis
        using names conn new mode False by (simp add: connect_tcp_def Inr created_failed)
    qed
  qed
qed

lemma device_created:
  assumes "descriptor_table net fds"
  shows "created fds os owned (open_device net path flags True non_blocking os)"
proof -
  let ?px = "pn_calls net"
  obtain r os1 where op: "pn_open net path flags os = (r, os1)" by (cases "pn_open net path flags os")
  show ?thesis
  proof (cases r)
    case (Inl e)
    then show ?thesis
      using op opened_failed [OF calls_open(3) [OF assms], of path flags os e os1] by (simp add: open_device_def created_failed)
  next
    case (Inr fd)
    obtain os2 h where new: "new_posix_fd_transport ?px fd True non_blocking os1 = (os2, h)"
      by (cases "new_posix_fd_transport ?px fd True non_blocking os1")
    have made: "created fds os owned (Inr h, os2)"
      using new_fd_takes_over(1) [OF assms, of fd os1 non_blocking]
      by (intro created_opened [OF assms calls_open(3) [OF assms] op [unfolded Inr] refl]) (simp add: new)
    obtain st os3 h' where close: "class_close net Fd_Class (os2, h) = (st, os3, h')"
      by (cases "class_close net Fd_Class (os2, h)") auto
    have "table fds os2 = table fds os3 + owned h"
      using close_released [OF assms _ close] made by (simp add: created_def)
    then have "created fds os owned (Inl SC_IoError, os3)" using made by (simp add: created_def)
    then show ?thesis using op new made close by (simp add: open_device_def Inr)
  qed
qed

lemma pair_created:
  assumes "descriptor_table net fds" and "sk_own_handle options" and "create_socket_pair net options os = (r, os')"
  shows "created fds os (\<lambda>(h0, h1). owned h0 + owned h1) (r, os')"
proof -
  let ?px = "pn_calls net"
  obtain p os1 where pair: "pn_socketpair net os = (p, os1)" by (cases "pn_socketpair net os")
  have spec: "case p of Inl e \<Rightarrow> fds os1 = fds os
      | Inr (fd0, fd1) \<Rightarrow> fd0 \<ge> 0 \<and> fd1 \<ge> 0 \<and> fd0 \<noteq> fd1 \<and> fd0 \<notin> fds os \<and> fd1 \<notin> fds os \<and>
          fds os1 = insert fd0 (insert fd1 (fds os))"
    using assms(1) pair unfolding descriptor_table_def Let_def by (auto split: sum.splits prod.splits dest!: spec [of _ os])
  show ?thesis
  proof (cases p)
    case (Inl e)
    then show ?thesis using pair spec assms(3) by (auto simp: create_socket_pair_def created_def)
  next
    case (Inr q)
    obtain fd0 fd1 where q: "q = (fd0, fd1)" by (cases q)
    note spec = spec [unfolded Inr q sum.case prod.case]
    obtain os2 h0 where new0: "new_unix_transport ?px fd0 options os1 = (os2, h0)" by (cases "new_unix_transport ?px fd0 options os1")
    obtain os3 h1 where new1: "new_unix_transport ?px fd1 options os2 = (os3, h1)" by (cases "new_unix_transport ?px fd1 options os2")
    have t0: "add_mset fd0 (table fds os2) = table fds os1 + owned h0"
      using new_unix_takes_over [OF assms(1) _ _ assms(2), of fd0 os1] spec by (simp add: new0 takes_over_def)
    have "fd1 \<in># table fds os1" using spec table_finite [OF assms(1)] by simp
    then have "fd1 \<in># add_mset fd0 (table fds os2)" by (simp add: t0)
    then have "fd1 \<in> fds os2" using spec table_finite [OF assms(1), of os2] by simp
    then have t1: "add_mset fd1 (table fds os3) = table fds os2 + owned h1"
      using new_unix_takes_over [OF assms(1) _ _ assms(2), of fd1 os2] spec by (simp add: new1 takes_over_def)
    have "table fds os1 = add_mset fd0 (add_mset fd1 (table fds os))" using spec table_finite [OF assms(1), of os] by simp
    then have "add_mset fd0 (add_mset fd1 (table fds os3)) = add_mset fd0 (add_mset fd1 (table fds os + (owned h0 + owned h1)))"
      using t0 t1 by (simp add: add_mset_commute)
    then have "table fds os3 = table fds os + (owned h0 + owned h1)" by simp
    then show ?thesis using assms(3) pair new0 new1 by (auto simp: create_socket_pair_def Inr q created_def)
  qed
qed

text \<open>A server that cannot be started closes its socket.\<close>

lemma server_socket_closed:
  assumes "descriptor_table net fds" and "px_socket (pn_calls net) address os = (Inr fd, os1)" and "fds os2 = fds os1"
  shows "fd \<ge> 0" "fds (snd (close_fd (pn_calls net) fd os2)) = fds os"
    "ls_fd l = fd \<Longrightarrow> created fds os owned_listener (Inr l, os2)"
  using opens_descriptorD [OF calls_open(1) [OF assms(1)] assms(2)] assms(3) table_finite [OF assms(1), of os]
  by (auto simp: close_fd_releases [OF assms(1)] created_def owned_listener_def)

lemma loopback_created:
  assumes "descriptor_table net fds"
  shows "created fds os owned_listener (bind_loopback net port options os)"
proof -
  let ?px = "pn_calls net" and ?address = "pn_loopback net port"
  obtain r os1 where sock: "px_socket ?px ?address os = (r, os1)" by (cases "px_socket ?px ?address os")
  show ?thesis
  proof (cases r)
    case (Inl e)
    then show ?thesis
      using sock opened_failed [OF calls_open(1) [OF assms], of ?address os e os1] by (simp add: bind_loopback_def created_failed)
  next
    case (Inr fd)
    obtain r2 os2 where reuse: "px_setsockopt ?px fd SO_REUSEADDR 1 os1 = (r2, os2)" by (cases "px_setsockopt ?px fd SO_REUSEADDR 1 os1")
    obtain r3 os3 where bind: "pn_bind net fd ?address os2 = (r3, os3)" by (cases "pn_bind net fd ?address os2")
    obtain r4 os4 where listen: "pn_listen net fd 32 os3 = (r4, os4)" by (cases "pn_listen net fd 32 os3")
    obtain st os5 where mode: "(if sk_non_blocking options then set_non_blocking ?px fd os4 else (SC_Ok, os4)) = (st, os5)"
      by (cases "if sk_non_blocking options then set_non_blocking ?px fd os4 else (SC_Ok, os4)")
    obtain r6 os6 where port: "pn_bound_port net fd os5 = (r6, os6)" by (cases "pn_bound_port net fd os5")
    have k2: "fds os2 = fds os1" by (rule calls_keep(7) [OF assms, THEN keeps_tableD, OF reuse])
    have k3: "fds os3 = fds os1" using calls_keep(11) [OF assms, THEN keeps_tableD, OF bind] k2 by simp
    have k4: "fds os4 = fds os1" using calls_keep(12) [OF assms, THEN keeps_tableD, OF listen] k3 by simp
    have k5: "fds os5 = fds os1"
      using mode k4 set_non_blocking_keeps [OF assms, THEN keeps_tableD, of fd os4 st os5] by (auto split: if_splits)
    have k6: "fds os6 = fds os1" using calls_keep(13) [OF assms, THEN keeps_tableD, OF port] k5 by simp
    note settled = server_socket_closed [OF assms sock [unfolded Inr]]
    show ?thesis
      using sock reuse bind listen mode port
      by (cases "sk_non_blocking options")
        (simp_all add: bind_loopback_def Inr Let_def settled(2) [OF k2] settled(2) [OF k3] settled(2) [OF k4] settled(2) [OF k5]
          settled(3) [OF k6] created_failed closed_listener_def split: sum.split)
  qed
qed

lemma path_server_created:
  assumes "descriptor_table net fds"
  shows "created fds os owned_listener (bind_path net path options os)"
proof -
  let ?px = "pn_calls net" and ?address = "pn_unix_address net (make_unix_address path)"
  obtain r os1 where sock: "px_socket ?px ?address os = (r, os1)" by (cases "px_socket ?px ?address os")
  show ?thesis
  proof (cases r)
    case (Inl e)
    then show ?thesis
      using sock opened_failed [OF calls_open(1) [OF assms], of ?address os e os1] by (simp add: bind_path_def Let_def created_failed)
  next
    case (Inr fd)
    let ?os2 = "px_unlink ?px path os1"
    obtain r3 os3 where bind: "pn_bind net fd ?address ?os2 = (r3, os3)" by (cases "pn_bind net fd ?address ?os2")
    obtain r4 os4 where listen: "pn_listen net fd 16 os3 = (r4, os4)" by (cases "pn_listen net fd 16 os3")
    obtain st os5 where mode: "(if sk_non_blocking options then set_non_blocking ?px fd os4 else (SC_Ok, os4)) = (st, os5)"
      by (cases "if sk_non_blocking options then set_non_blocking ?px fd os4 else (SC_Ok, os4)")
    have k3: "fds os3 = fds os1"
      using calls_keep(11) [OF assms, THEN keeps_tableD, OF bind] unlink_keeps [OF assms] by simp
    have k4: "fds os4 = fds os1" using calls_keep(12) [OF assms, THEN keeps_tableD, OF listen] k3 by simp
    have k5: "fds os5 = fds os1"
      using mode k4 set_non_blocking_keeps [OF assms, THEN keeps_tableD, of fd os4 st os5] by (auto split: if_splits)
    have unlinked: "fds (px_unlink ?px path os4) = fds os1" "fds (px_unlink ?px path os5) = fds os1"
      using k4 k5 unlink_keeps [OF assms] by simp_all
    note settled = server_socket_closed [OF assms sock [unfolded Inr]]
    show ?thesis
      using sock bind listen mode
      by (cases "sk_non_blocking options")
        (simp_all add: bind_path_def Inr Let_def settled(2) [OF k3] settled(2) [OF unlinked(1)] settled(2) [OF unlinked(2)]
          settled(3) [OF k5] created_failed closed_listener_def split: sum.split)
  qed
qed

subsection \<open>Programs\<close>

lemma sum_list_replace:
  fixes f :: "'a \<Rightarrow> 'b :: comm_monoid_add"
  assumes "i < length xs"
  shows "\<exists>rest. sum_list (map f xs) = f (xs ! i) + rest \<and> (\<forall>y. sum_list (map f (xs[i := y])) = f y + rest)"
proof -
  let ?rest = "sum_list (map f (take i xs)) + sum_list (map f (drop (Suc i) xs))"
  have "sum_list (map f (xs[i := y])) = f y + ?rest" for y
    using assms by (simp add: upd_conv_take_nth_drop algebra_simps)
  moreover have "sum_list (map f xs) = f (xs ! i) + ?rest"
    using calculation [of "xs ! i"] by simp
  ultimately show ?thesis by blast
qed

text \<open>A program changes the table by what its objects own. \<open>rest\<close> are the descriptors of the rest of the process.\<close>

definition accounted :: "('os \<Rightarrow> int set) \<Rightarrow> int multiset \<Rightarrow> 'os \<times> transport_store \<Rightarrow> bool" where
  "accounted fds rest t \<longleftrightarrow> table fds (fst t) = rest + store_owned (snd t)"

lemma add_transport_accounted:
  "accounted fds rest (os, s) \<Longrightarrow> created fds os owned r \<Longrightarrow> accounted fds rest (add_transport c r s)"
  by (auto simp: accounted_def created_def add_transport_def store_owned_def split: sum.splits prod.splits)

lemma add_listener_accounted:
  "accounted fds rest (os, s) \<Longrightarrow> created fds os owned_listener r \<Longrightarrow> accounted fds rest (add_listener c r s)"
  by (auto simp: accounted_def created_def add_listener_def store_owned_def split: sum.splits prod.splits)

lemma update_accounted:
  assumes "accounted fds rest (os, s)" and "i < length (ts_transports s)" and "ts_transports s ! i = (c, h)"
    and "owned h \<subseteq># table fds os \<Longrightarrow> table fds os + owned h' = table fds os' + owned h"
  shows "accounted fds rest (os', s\<lparr>ts_transports := (ts_transports s)[i := (c, h')]\<rparr>)"
proof -
  obtain others where others: "sum_list (map (\<lambda>(c, h). owned h) (ts_transports s)) = owned h + others"
    "\<And>y. sum_list (map (\<lambda>(c, h). owned h) ((ts_transports s)[i := y])) = (case y of (c, h) \<Rightarrow> owned h) + others"
    using sum_list_replace [OF assms(2), of "\<lambda>(c, h). owned h"] assms(3) by auto
  have t: "table fds os = rest + (owned h + others + sum_list (map (\<lambda>(c, l). owned_listener l) (ts_listeners s)))"
    using assms(1) others(1) by (simp add: accounted_def store_owned_def)
  then have "table fds os + owned h' = table fds os' + owned h" by (intro assms(4)) simp
  then have "table fds os' = rest + (owned h' + others + sum_list (map (\<lambda>(c, l). owned_listener l) (ts_listeners s)))"
    unfolding t by (simp add: ac_simps)
  then show ?thesis by (simp add: accounted_def store_owned_def others(2))
qed

lemma update_listener_accounted:
  assumes "accounted fds rest (os, s)" and "i < length (ts_listeners s)" and "ts_listeners s ! i = (c, h)"
    and "owned_listener h \<subseteq># table fds os \<Longrightarrow> table fds os + owned_listener h' = table fds os' + owned_listener h"
  shows "accounted fds rest (os', s\<lparr>ts_listeners := (ts_listeners s)[i := (c, h')]\<rparr>)"
proof -
  obtain others where others: "sum_list (map (\<lambda>(c, l). owned_listener l) (ts_listeners s)) = owned_listener h + others"
    "\<And>y. sum_list (map (\<lambda>(c, l). owned_listener l) ((ts_listeners s)[i := y])) = (case y of (c, l) \<Rightarrow> owned_listener l) + others"
    using sum_list_replace [OF assms(2), of "\<lambda>(c, l). owned_listener l"] assms(3) by auto
  have t: "table fds os = rest + (sum_list (map (\<lambda>(c, h). owned h) (ts_transports s)) + (owned_listener h + others))"
    using assms(1) others(1) by (simp add: accounted_def store_owned_def)
  then have "table fds os + owned_listener h' = table fds os' + owned_listener h" by (intro assms(4)) simp
  then have "table fds os' = rest + (sum_list (map (\<lambda>(c, h). owned h) (ts_transports s)) + (owned_listener h' + others))"
    unfolding t by (simp add: ac_simps)
  then show ?thesis by (simp add: accounted_def store_owned_def others(2))
qed

text \<open>Move assignment: what the target owned is released, and what the other owned is the target's.\<close>

lemma sum_list_move:
  fixes f :: "'a \<Rightarrow> int multiset"
  assumes "i < length xs" and "j < length xs" and "i \<noteq> j" and "f x = f (xs ! j)" and "f y = {#}"
  shows "sum_list (map f (xs[i := x, j := y])) + f (xs ! i) = sum_list (map f xs)"
proof -
  obtain r where r: "sum_list (map f xs) = f (xs ! i) + r" "\<And>y. sum_list (map f (xs[i := y])) = f y + r"
    using sum_list_replace [OF assms(1), of f] by blast
  obtain q where q: "sum_list (map f (xs[i := x])) = f (xs[i := x] ! j) + q" "\<And>y. sum_list (map f (xs[i := x, j := y])) = f y + q"
    using sum_list_replace [of j "xs[i := x]" f] assms(2) by auto
  have "f (xs ! j) + r = f (xs ! j) + q" using r(2) [of x] q(1) assms(3,4) by simp
  then show ?thesis using r(1) q(2) [of y] assms(5) by simp
qed

lemma owned_in_store:
  assumes "accounted fds rest (os, s)" and "i < length (ts_transports s)" and "ts_transports s ! i = (c, h)"
  shows "owned h \<subseteq># table fds os"
proof -
  have "sum_list (map (\<lambda>(c, h). owned h) (ts_transports s)) =
      sum_list (map (\<lambda>(c, h). owned h) (ts_transports s)) - owned h + owned h"
    using sum_list_replace [OF assms(2), of "\<lambda>(c, h). owned h"] assms(3) by auto
  then have "owned h \<subseteq># sum_list (map (\<lambda>(c, h). owned h) (ts_transports s))"
    by (metis mset_subset_eq_add_right)
  then show ?thesis
    using assms(1) by (simp add: accounted_def store_owned_def) (meson mset_subset_eq_add_left mset_subset_eq_add_right subset_mset.order_trans)
qed

lemma listener_owned_in_store:
  assumes "accounted fds rest (os, s)" and "i < length (ts_listeners s)" and "ts_listeners s ! i = (c, l)"
  shows "owned_listener l \<subseteq># table fds os"
proof -
  have "sum_list (map (\<lambda>(c, l). owned_listener l) (ts_listeners s)) =
      sum_list (map (\<lambda>(c, l). owned_listener l) (ts_listeners s)) - owned_listener l + owned_listener l"
    using sum_list_replace [OF assms(2), of "\<lambda>(c, l). owned_listener l"] assms(3) by auto
  then have "owned_listener l \<subseteq># sum_list (map (\<lambda>(c, l). owned_listener l) (ts_listeners s))"
    by (metis mset_subset_eq_add_right)
  then show ?thesis
    using assms(1) by (simp add: accounted_def store_owned_def) (meson mset_subset_eq_add_left mset_subset_eq_add_right subset_mset.order_trans)
qed

lemma assign_accounted:
  assumes "descriptor_table net fds" and acc: "accounted fds rest (os, s)"
    and ij: "i < length (ts_transports s)" "j < length (ts_transports s)" "i \<noteq> j"
    and "ts_transports s ! i = (c, target)" "ts_transports s ! j = (c', other)"
    and "class_assign net c target other os = ((target', other'), os')"
  shows "accounted fds rest (os', s\<lparr>ts_transports := (ts_transports s)[i := (c, target'), j := (c, other')]\<rparr>)"
proof -
  have moved: "owned target' = owned other" "owned other' = {#}"
    using assms(8) move_owned by (auto simp: class_assign_close)
  have "table fds os = table fds os' + owned target"
    using destroy_released [OF assms(1) owned_in_store [OF acc ij(1) assms(6)], of c] assms(8) by (simp add: class_assign_close)
  moreover have "sum_list (map (\<lambda>(c, h). owned h) ((ts_transports s)[i := (c, target'), j := (c, other')])) + owned target =
      sum_list (map (\<lambda>(c, h). owned h) (ts_transports s))"
    using sum_list_move [OF ij, of "\<lambda>(c, h). owned h" "(c, target')" "(c, other')"] moved assms(6,7) by simp
  ultimately have "table fds os' + owned target = rest + store_owned (s\<lparr>ts_transports := (ts_transports s)[i := (c, target'), j := (c, other')]\<rparr>) + owned target"
    using acc by (simp add: accounted_def store_owned_def ac_simps)
  then show ?thesis by (simp add: accounted_def)
qed

lemma listener_assign_accounted:
  assumes "descriptor_table net fds" and acc: "accounted fds rest (os, s)"
    and ij: "i < length (ts_listeners s)" "j < length (ts_listeners s)" "i \<noteq> j"
    and "ts_listeners s ! i = (c, target)" "ts_listeners s ! j = (c', other)"
    and "listener_move c other = (target', other')" and "listener_close net c target os = (st, l, os')"
  shows "accounted fds rest (os', s\<lparr>ts_listeners := (ts_listeners s)[i := (c, target'), j := (c, other')]\<rparr>)"
proof -
  have moved: "owned_listener target' = owned_listener other" "owned_listener other' = {#}"
    using listener_move_owned [OF assms(8)] by simp_all
  have "table fds os = table fds os' + owned_listener target"
    using listener_released [OF assms(1) listener_owned_in_store [OF acc ij(1) assms(6)] assms(9)] by simp
  moreover have "sum_list (map (\<lambda>(c, l). owned_listener l) ((ts_listeners s)[i := (c, target'), j := (c, other')])) + owned_listener target =
      sum_list (map (\<lambda>(c, l). owned_listener l) (ts_listeners s))"
    using sum_list_move [OF ij, of "\<lambda>(c, l). owned_listener l" "(c, target')" "(c, other')"] moved assms(6,7) by simp
  ultimately have "table fds os' + owned_listener target =
      rest + store_owned (s\<lparr>ts_listeners := (ts_listeners s)[i := (c, target'), j := (c, other')]\<rparr>) + owned_listener target"
    using acc by (simp add: accounted_def store_owned_def ac_simps)
  then show ?thesis by (simp add: accounted_def)
qed

lemma pair_accounted:
  assumes "accounted fds rest (os, s)" and "created fds os (\<lambda>(h0, h1). owned h0 + owned h1) (Inr (h0, h1), os')"
  shows "accounted fds rest (os', s\<lparr>ts_transports := ts_transports s @ [(c, h0), (c, h1)]\<rparr>)"
  using assms by (simp add: accounted_def created_def store_owned_def ac_simps)

lemma call_accounted:
  assumes table: "descriptor_table net fds" and "owning_call call" and acc: "accounted fds rest (os, s)"
  shows "accounted fds rest (run_transport_call net call (os, s))"
proof (cases call)
  case (Connect_Host host port options)
  then show ?thesis using assms by (simp add: add_transport_accounted host_created)
next
  case (Connect_Path path options)
  then show ?thesis using assms by (simp add: add_transport_accounted path_created)
next
  case (Connect_Tcp host port nb ms)
  then show ?thesis using assms by (simp add: add_transport_accounted tcp_socket_created)
next
  case (Socket_Pair options)
  obtain r os' where pair: "create_socket_pair net options os = (r, os')" by (cases "create_socket_pair net options os")
  show ?thesis
    using assms pair_created [OF table _ pair] pair_accounted [OF acc, of _ _ os' Unix_Class]
    by (cases r) (auto simp: Socket_Pair pair created_def accounted_def)
next
  case (Open_Device path flags nb)
  then show ?thesis using assms by (simp add: add_transport_accounted device_created)
next
  case (Bind_Loopback port options)
  then show ?thesis using assms by (simp add: add_listener_accounted loopback_created)
next
  case (Bind_Path path options)
  then show ?thesis using assms by (simp add: add_listener_accounted path_server_created)
next
  case (Accept k options)
  then show ?thesis using assms by (simp add: add_transport_accounted accepted_created split: prod.split)
next
  case (Read_Into i d)
  show ?thesis
  proof (cases "i < length (ts_transports s)")
    case True
    obtain c h where h: "ts_transports s ! i = (c, h)" by (cases "ts_transports s ! i")
    obtain r d' os' h' where read: "class_read net c (os, h) d = (r, d', os', h')" by (cases "class_read net c (os, h) d") auto
    show ?thesis
      using update_accounted [OF acc True h, of h' os'] read_effect [OF table read] True by (simp add: Read_Into h read)
  qed (simp add: Read_Into acc)
next
  case (Write_Bytes i bs)
  show ?thesis
  proof (cases "i < length (ts_transports s)")
    case True
    obtain c h where h: "ts_transports s ! i = (c, h)" by (cases "ts_transports s ! i")
    obtain r os1 h1 where tcp: "tcp_write (pn_calls net) (os, h) bs = (r, os1, h1)"
      by (cases "tcp_write (pn_calls net) (os, h) bs") auto
    obtain q os2 h2 where unix: "unix_write (pn_calls net) (os, h) bs = (q, os2, h2)"
      by (cases "unix_write (pn_calls net) (os, h) bs") auto
    show ?thesis
      using update_accounted [OF acc True h, of h1 os1] update_accounted [OF acc True h, of h2 os2]
        write_effect(1) [OF table tcp] write_effect(2) [OF table unix] True acc
      by (cases c) (simp_all add: Write_Bytes h tcp unix)
  qed (simp add: Write_Bytes acc)
next
  case (Move_Out i)
  show ?thesis
  proof (cases "i < length (ts_transports s)")
    case True
    obtain c h where h: "ts_transports s ! i = (c, h)" by (cases "ts_transports s ! i")
    obtain new_handle h' where move: "handle_move_from h = (new_handle, h')" by (cases "handle_move_from h")
    obtain others where "sum_list (map (\<lambda>(c, h). owned h) (ts_transports s)) = owned h + others"
      "sum_list (map (\<lambda>(c, h). owned h) ((ts_transports s)[i := (c, h')])) = owned h' + others"
      using sum_list_replace [OF True, of "\<lambda>(c, h). owned h"] h by (metis (no_types, lifting) case_prod_conv)
    then show ?thesis
      using acc move_owned [OF move] True by (simp add: Move_Out h move accounted_def store_owned_def ac_simps)
  qed (simp add: Move_Out acc)
next
  case (Assign i j)
  show ?thesis
  proof (cases "i < length (ts_transports s) \<and> j < length (ts_transports s) \<and> i \<noteq> j \<and>
      fst (ts_transports s ! i) = fst (ts_transports s ! j)")
    case True
    obtain c h c' k where h: "ts_transports s ! i = (c, h)" "ts_transports s ! j = (c', k)"
      by (cases "ts_transports s ! i", cases "ts_transports s ! j") auto
    obtain h' k' os' where assign: "class_assign net c h k os = ((h', k'), os')" by (cases "class_assign net c h k os") auto
    have "c' = c" using True h by simp
    then show ?thesis using assign_accounted [OF table acc _ _ _ h assign] True by (simp add: Assign h assign)
  qed (auto simp: Assign acc)
next
  case (Close i)
  show ?thesis
  proof (cases "i < length (ts_transports s)")
    case True
    obtain c h where h: "ts_transports s ! i = (c, h)" by (cases "ts_transports s ! i")
    obtain st os' h' where close: "class_close net c (os, h) = (st, os', h')" by (cases "class_close net c (os, h)") auto
    show ?thesis
      using update_accounted [OF acc True h, of h' os'] close_released [OF table _ close] True by (simp add: Close h close)
  qed (simp add: Close acc)
next
  case (Assign_Listener i j)
  show ?thesis
  proof (cases "i < length (ts_listeners s) \<and> j < length (ts_listeners s) \<and> i \<noteq> j \<and>
      fst (ts_listeners s ! i) = fst (ts_listeners s ! j)")
    case True
    obtain c l c' k where l: "ts_listeners s ! i = (c, l)" "ts_listeners s ! j = (c', k)"
      by (cases "ts_listeners s ! i", cases "ts_listeners s ! j") auto
    obtain l' k' where move: "listener_move c k = (l', k')" by (cases "listener_move c k")
    obtain st l0 os' where close: "listener_close net c l os = (st, l0, os')" by (cases "listener_close net c l os") auto
    have "c' = c" using True l by simp
    then show ?thesis
      using listener_assign_accounted [OF table acc _ _ _ l move close] True
      by (simp add: Assign_Listener l listener_assign_close move close)
  qed (auto simp: Assign_Listener acc)
next
  case (Close_Listener i)
  show ?thesis
  proof (cases "i < length (ts_listeners s)")
    case True
    obtain c l where l: "ts_listeners s ! i = (c, l)" by (cases "ts_listeners s ! i")
    obtain st l' os' where close: "listener_close net c l os = (st, l', os')" by (cases "listener_close net c l os") auto
    show ?thesis
      using update_listener_accounted [OF acc True l, of l' os'] listener_released [OF table _ close] True
      by (simp add: Close_Listener l listener_close_def [symmetric] close)
  qed (simp add: Close_Listener acc)
qed

lemma calls_accounted:
  assumes "descriptor_table net fds"
  shows "list_all owning_call calls \<Longrightarrow> accounted fds rest t \<Longrightarrow> accounted fds rest (run_transport_calls net calls t)"
proof (induction calls arbitrary: t)
  case Nil
  then show ?case by (simp add: run_transport_calls_def)
next
  case (Cons call calls)
  then show ?case
    using call_accounted [OF assms, of call rest "fst t" "snd t"] by (simp add: run_transport_calls_def)
qed

lemma transports_destroyed:
  assumes "descriptor_table net fds"
  shows "table fds os = rest + sum_list (map (\<lambda>(c, h). owned h) hs) \<Longrightarrow>
     table fds (fold (\<lambda>(c, h). class_destroy net c h) hs os) = rest"
proof (induction hs arbitrary: os)
  case Nil
  then show ?case by simp
next
  case (Cons x hs)
  obtain c h where x: "x = (c, h)" by (cases x)
  have "owned h \<subseteq># table fds os" using Cons.prems by (simp add: x)
  from destroy_released [OF assms this, of c] Cons.prems
  have "table fds (class_destroy net c h os) = rest + sum_list (map (\<lambda>(c, h). owned h) hs)" by (simp add: x ac_simps)
  from Cons.IH [OF this] show ?case by (simp add: x)
qed

lemma listeners_destroyed:
  assumes "descriptor_table net fds"
  shows "table fds os = rest + sum_list (map (\<lambda>(c, l). owned_listener l) ls) \<Longrightarrow>
     table fds (fold (\<lambda>(c, l). if is_tcp c then tcp_listener_destroy net l else unix_listener_destroy net l) ls os) = rest"
proof (induction ls arbitrary: os)
  case Nil
  then show ?case by simp
next
  case (Cons x ls)
  obtain c l where x: "x = (c, l)" by (cases x)
  obtain st l' os' where close: "listener_close net c l os = (st, l', os')" by (cases "listener_close net c l os") auto
  have "owned_listener l \<subseteq># table fds os" using Cons.prems by (simp add: x)
  from listener_released [OF assms this close] Cons.prems
  have "table fds os' = rest + sum_list (map (\<lambda>(c, l). owned_listener l) ls)" by (simp add: x ac_simps)
  from Cons.IH [OF this] show ?case
    by (simp add: x listener_destroy_close close)
qed

text \<open>C40: No descriptor is leaked or closed twice, when transports own their descriptors. Take a program that creates, connects,
  accepts, moves, assigns, uses and closes transports and listeners of the four classes, all with the option
  \<open>own_handle\<close>, which is the default, over a kernel whose calls open and close the descriptors they should
  (\<open>descriptor_table\<close>), and whichever of them fail. Each descriptor opened since is owned by exactly one object, no other
  descriptor is touched, and when the objects are destroyed the descriptors that are open are those of the start. Without
  \<open>own_handle\<close> this does not hold (\<open>unowned_descriptor_leaks\<close>).\<close>

theorem descriptors_owned:
  assumes "descriptor_table net fds" and "list_all owning_call calls"
    and "run_transport_calls net calls (os, no_transports) = (os', s)"
  shows "mset_set (fds os') = mset_set (fds os) + store_owned s \<and> fds (destroy_transports net s os') = fds os"
proof -
  have "accounted fds (table fds os) (os, no_transports)" by (simp add: accounted_def store_owned_def no_transports_def)
  from calls_accounted [OF assms(1,2) this] have acc: "table fds os' = table fds os + store_owned s"
    by (simp add: assms(3) accounted_def)
  then have "table fds (fold (\<lambda>(c, h). class_destroy net c h) (ts_transports s) os') =
      table fds os + sum_list (map (\<lambda>(c, l). owned_listener l) (ts_listeners s))"
    by (intro transports_destroyed [OF assms(1)]) (simp add: store_owned_def ac_simps)
  then have "table fds (destroy_transports net s os') = table fds os"
    unfolding destroy_transports_def by (rule listeners_destroyed [OF assms(1)])
  then show ?thesis
    using acc table_finite [OF assms(1)] by (simp add: mset_set_eq_iff)
qed

subsection \<open>An example\<close>

text \<open>A kernel that is the list of its open descriptors; its sockets can be connected, and not made non-blocking.\<close>

definition lowest_free :: "int list \<Rightarrow> int" where
  "lowest_free os = foldr max os 2 + 1"

definition new_descriptor :: "int list \<Rightarrow> (errno_code + int) \<times> int list" where
  "new_descriptor os = (Inr (lowest_free os), lowest_free os # os)"

definition demo_calls :: "(int list, string) posix" where
  "demo_calls =
     \<lparr>px_signals = (\<lambda>os. 0), px_o_nonblock = 0x800, px_read = (\<lambda>fd n os. (Inr [], os)), px_recv = (\<lambda>fd n os. (Inr [], os)),
      px_write = (\<lambda>fd bs os. (Inr (length bs), os)), px_send = (\<lambda>fd bs os. (Inr (length bs), os)),
      px_writev = (\<lambda>fd bs os. (Inr (length (concat bs)), os)), px_sendmsg = (\<lambda>fd bs os. (Inr (length (concat bs)), os)),
      px_poll = (\<lambda>fd event ms os. (Inr 1, os)), px_close = (\<lambda>fd os. (Inr (), removeAll fd os)),
      px_getfl = (\<lambda>fd os. (Inr 0, os)), px_setfl = (\<lambda>fd flags os. (if flags = 0 then Inr () else Inl (E_other 1), os)),
      px_setsockopt = (\<lambda>fd opt v os. (Inr (), os)), px_so_error = (\<lambda>fd os. (Inr None, os)),
      px_getaddrinfo = (\<lambda>host port os. (Inr [host], os)), px_socket = (\<lambda>address. new_descriptor),
      px_connect = (\<lambda>fd address os. (Inr (), os)), px_accept = (\<lambda>fd. new_descriptor), px_unlink = (\<lambda>path os. os)\<rparr>"

definition demo_net :: "(int list, string) posix_net" where
  "demo_net =
     \<lparr>pn_calls = demo_calls, pn_loopback = (\<lambda>port. ''loopback''), pn_unix_address = (\<lambda>path. path),
      pn_bind = (\<lambda>fd address os. (Inr (), os)), pn_listen = (\<lambda>fd n os. (Inr (), os)),
      pn_bound_port = (\<lambda>fd os. (Inr 4242, os)),
      pn_socketpair = (\<lambda>os. let a = lowest_free os in (Inr (a, a + 1), a # (a + 1) # os)),
      pn_open = (\<lambda>path flags. new_descriptor), pn_socket_name = (\<lambda>peer fd os. (Inl (E_other 107), os)),
      pn_getnameinfo = (\<lambda>address. None)\<rparr>"

definition demo_options :: "bool \<Rightarrow> socket_options" where
  "demo_options non_blocking =
     \<lparr>sk_own_handle = True, sk_non_blocking = non_blocking, sk_send_buffer_bytes = 0, sk_receive_buffer_bytes = 0,
      sk_connect_timeout_ms = 1000, sk_tcp_no_delay = True\<rparr>"

definition demo_program :: "transport_call list" where
  "demo_program =
     [Bind_Loopback 0 (demo_options False), Accept 0 (demo_options False), Accept 0 (demo_options True),
      Bind_Path ''/tmp/server'' (demo_options True), Socket_Pair (demo_options False), Move_Out 0, Assign 0 4,
      Assign 2 3, Read_Into 0 [0, 0], Close 1, Write_Bytes 2 [1, 2, 3]]"

lemma lowest_free_new: "fd \<in> set os \<Longrightarrow> fd < lowest_free os" "3 \<le> lowest_free os"
  by (induction os) (auto simp: lowest_free_def)

lemma demo_table: "descriptor_table demo_net set"
proof -
  have fresh: "\<And>os. lowest_free os \<notin> set os" "\<And>os. lowest_free os + 1 \<notin> set os" "\<And>os. 0 \<le> lowest_free os"
    using lowest_free_new by force+ (metis lowest_free_new(2) order_trans zero_le_numeral)
  show ?thesis
    by (auto simp: descriptor_table_def demo_net_def demo_calls_def keeps_table_def opens_descriptor_def new_descriptor_def Let_def fresh)
qed

lemma descriptors_owned_witness:
  "case run_transport_calls demo_net demo_program ([0, 1, 2], no_transports) of
     (os', s) \<Rightarrow>
       mset_set (set os') = mset_set (set [0, 1, 2]) + store_owned s \<and>
       set (destroy_transports demo_net s os') = set [0, 1, 2] \<and> os' = [6, 4, 3, 0, 1, 2]"
proof -
  obtain os' s where run: "run_transport_calls demo_net demo_program ([0, 1, 2], no_transports) = (os', s)"
    by (cases "run_transport_calls demo_net demo_program ([0, 1, 2], no_transports)")
  have own: "list_all owning_call demo_program" by (simp add: demo_program_def demo_options_def)
  have "fst (run_transport_calls demo_net demo_program ([0, 1, 2], no_transports)) = [6, 4, 3, 0, 1, 2]" by code_simp
  then show ?thesis using descriptors_owned [OF demo_table own run] by (simp add: run)
qed

text \<open>
  Why the options must own: a connection is accepted with \<open>own_handle\<close> unset and the socket cannot be configured. The constructor
  forgets the descriptor without closing it: the caller gets a transport with descriptor -1, and descriptor 4 stays open.
\<close>

lemma unowned_descriptor_leaks:
  "tcp_accept demo_calls 3 (demo_options True\<lparr>sk_own_handle := False\<rparr>) [3, 0, 1, 2] =
     (Inr \<lparr>fh_fd = -1, fh_open = False, fh_own = False\<rparr>, [4, 3, 0, 1, 2])"
  "(case run_transport_calls demo_net
        [Bind_Loopback 0 (demo_options False), Accept 0 (demo_options True\<lparr>sk_own_handle := False\<rparr>)] ([0, 1, 2], no_transports) of
      (os', s) \<Rightarrow> destroy_transports demo_net s os') = [4, 0, 1, 2]"
  by code_simp+

end
