(* ===== verification/Direct_Access.thy ===== *)
theory Direct_Access
  imports Message_Access
begin

text \<open>
  The templates of the headers: the typed getters of \<open>decoded_message.hpp\<close>, whose type is a machine integer, and the
  fixed-width readers and writers that generated code calls (\<open>direct_decode_support.hpp\<close>,
  \<open>direct_encode_support.hpp\<close>). A template parameter is the length of a word or an argument; a \<open>float\<close> or
  \<open>double\<close> is its bit pattern. Writers return the new content of the span, or \<open>None\<close> when they return \<open>false\<close>.
\<close>

subsection \<open>Typed getters\<close>

text \<open>\<open>get<T>\<close> for the unsigned and the signed types of \<open>LENGTH('a)\<close> bits.\<close>

definition narrow_unsigned :: "u64 option \<Rightarrow> 'a::len word option" where
  "narrow_unsigned value =
     (case value of None \<Rightarrow> None | Some v \<Rightarrow> if unat v > 2 ^ LENGTH('a) - 1 then None else Some (ucast v))"

definition narrow_signed :: "u64 option \<Rightarrow> 'a::len word option" where
  "narrow_signed value =
     (case value of
        None \<Rightarrow> None
      | Some v \<Rightarrow>
          if sint v < - (2 ^ (LENGTH('a) - 1)) \<or> sint v > 2 ^ (LENGTH('a) - 1) - 1 then None else Some (scast v))"

definition get_as_unsigned :: "decoded_message \<Rightarrow> field_id \<Rightarrow> 'a::len word option" where
  "get_as_unsigned m i = narrow_unsigned (get_unsigned m i)"

definition get_as_signed :: "decoded_message \<Rightarrow> field_id \<Rightarrow> 'a::len word option" where
  "get_as_signed m i = narrow_signed (get_signed m i)"

definition get_bit_as_unsigned :: "decoded_message \<Rightarrow> bit_field_id \<Rightarrow> 'a::len word option" where
  "get_bit_as_unsigned m i = narrow_unsigned (get_bit_unsigned m i)"

definition get_bit_as_signed :: "decoded_message \<Rightarrow> bit_field_id \<Rightarrow> 'a::len word option" where
  "get_bit_as_signed m i = narrow_signed (get_bit_signed m i)"

text \<open>The overloads with a name; for \<open>float\<close> and \<open>double\<close> they are \<open>get_float32\<close> and \<open>get_float64\<close> by name.\<close>

definition get_named_as_unsigned :: "decoded_message \<Rightarrow> string \<Rightarrow> 'a::len word option" where
  "get_named_as_unsigned m name = by_name get_as_unsigned m name"

definition get_named_as_signed :: "decoded_message \<Rightarrow> string \<Rightarrow> 'a::len word option" where
  "get_named_as_signed m name = by_name get_as_signed m name"

definition get_named_bit_as_unsigned :: "decoded_message \<Rightarrow> string \<Rightarrow> 'a::len word option" where
  "get_named_bit_as_unsigned m name = by_bit_name get_bit_as_unsigned m name"

definition get_named_bit_as_signed :: "decoded_message \<Rightarrow> string \<Rightarrow> 'a::len word option" where
  "get_named_bit_as_signed m name = by_bit_name get_bit_as_signed m name"

definition get_fixed_bytes :: "nat \<Rightarrow> decoded_message \<Rightarrow> field_id \<Rightarrow> bytes option" where
  "get_fixed_bytes extent m i =
     (case get_bytes m i of None \<Rightarrow> None | Some bs \<Rightarrow> if length bs \<noteq> extent then None else Some bs)"

definition get_fixed_string :: "nat \<Rightarrow> decoded_message \<Rightarrow> field_id \<Rightarrow> bytes option" where
  "get_fixed_string extent m i =
     (case dm_field_definition m i of
        None \<Rightarrow> None
      | Some f \<Rightarrow> if cf_kind f \<noteq> KString then None else get_fixed_bytes extent m i)"

definition get_named_fixed_bytes :: "nat \<Rightarrow> decoded_message \<Rightarrow> string \<Rightarrow> bytes option" where
  "get_named_fixed_bytes extent m name = by_name (get_fixed_bytes extent) m name"

definition get_named_fixed_string :: "nat \<Rightarrow> decoded_message \<Rightarrow> string \<Rightarrow> bytes option" where
  "get_named_fixed_string extent m name = by_name (get_fixed_string extent) m name"

subsection \<open>Reading at a fixed width\<close>

text \<open>The width is between 1 and 8, which the compiler checks (\<open>validate_scalar_width\<close>).\<close>

definition read_fixed_scalar :: "byte_order \<Rightarrow> nat \<Rightarrow> bytes \<Rightarrow> u64 option" where
  "read_fixed_scalar byte_order width bs =
     (if length bs \<noteq> width then None else Some (read_unsigned_scalar_unchecked byte_order bs))"

definition read_float32 :: "byte_order \<Rightarrow> bytes \<Rightarrow> u32 option" where
  "read_float32 byte_order bs =
     (case read_fixed_scalar byte_order 4 bs of None \<Rightarrow> None | Some raw \<Rightarrow> if length bs \<noteq> 4 then None else Some (ucast raw))"

definition read_float64 :: "byte_order \<Rightarrow> bytes \<Rightarrow> u64 option" where
  "read_float64 byte_order bs =
     (case read_fixed_scalar byte_order 8 bs of None \<Rightarrow> None | Some raw \<Rightarrow> if length bs \<noteq> 8 then None else Some raw)"

subsection \<open>Writing at a fixed width\<close>

definition write_fixed_scalar :: "byte_order \<Rightarrow> nat \<Rightarrow> bytes \<Rightarrow> u64 \<Rightarrow> bytes option" where
  "write_fixed_scalar byte_order width dest value =
     (if length dest \<noteq> width then None else Some (write_unsigned_scalar_unchecked byte_order width value))"

definition write_float32 :: "byte_order \<Rightarrow> bytes \<Rightarrow> u32 \<Rightarrow> bytes option" where
  "write_float32 byte_order dest value = write_fixed_scalar byte_order 4 dest (ucast value)"

definition write_float64 :: "byte_order \<Rightarrow> bytes \<Rightarrow> u64 \<Rightarrow> bytes option" where
  "write_float64 byte_order dest value = write_fixed_scalar byte_order 8 dest value"

definition write_float32_unchecked :: "byte_order \<Rightarrow> u32 \<Rightarrow> bytes" where
  "write_float32_unchecked byte_order value = write_unsigned_scalar_unchecked byte_order 4 (ucast value)"

definition write_float64_unchecked :: "byte_order \<Rightarrow> u64 \<Rightarrow> bytes" where
  "write_float64_unchecked byte_order value = write_unsigned_scalar_unchecked byte_order 8 value"

definition write_bytes :: "bytes \<Rightarrow> bytes \<Rightarrow> bytes option" where
  "write_bytes dest src = (if length dest \<noteq> length src then None else Some src)"

text \<open>The unchecked copy overwrites the first bytes of a destination that is at least as long as the source.\<close>

definition write_bytes_unchecked :: "bytes \<Rightarrow> bytes \<Rightarrow> bytes" where
  "write_bytes_unchecked dest src = (if src \<noteq> [] then blit 0 src dest else dest)"

definition fill_zeros :: "bytes \<Rightarrow> bytes" where
  "fill_zeros bs = (if bs \<noteq> [] then replicate (length bs) 0 else bs)"

text \<open>The checksums over the first \<open>n\<close> bytes of a pointer.\<close>

fun xor8_fixed_loop :: "nat \<Rightarrow> bytes \<Rightarrow> nat \<Rightarrow> u8 \<Rightarrow> u8" where
  "xor8_fixed_loop 0 data index value = value"
| "xor8_fixed_loop (Suc n) data index value = xor8_fixed_loop n data (index + 1) (value XOR data ! index)"

definition checksum_xor8_fixed :: "nat \<Rightarrow> bytes \<Rightarrow> u8" where
  "checksum_xor8_fixed n data = xor8_fixed_loop n data 0 0"

fun sum16_fixed_loop :: "nat \<Rightarrow> bytes \<Rightarrow> nat \<Rightarrow> u32 \<Rightarrow> u32" where
  "sum16_fixed_loop 0 data index acc = acc"
| "sum16_fixed_loop (Suc n) data index acc = sum16_fixed_loop n data (index + 1) (acc + ucast (data ! index))"

definition checksum_sum16_fixed :: "nat \<Rightarrow> bytes \<Rightarrow> u16" where
  "checksum_sum16_fixed n data = ucast (sum16_fixed_loop n data 0 0 AND 0xFFFF)"

subsection \<open>Typed values are exact\<close>

lemma narrow_unsigned_iff:
  "narrow_unsigned value = Some (w :: 'a::len word) \<longleftrightarrow> (\<exists>v. value = Some v \<and> unat v = unat w)"
proof (cases "value")
  case None
  then show ?thesis by (simp add: narrow_unsigned_def)
next
  case (Some v)
  have "unat w \<le> 2 ^ LENGTH('a) - 1" using unsigned_less [of w, where ?'a = nat] by (simp add: less_eq_Suc_le)
  moreover have "unat (ucast v :: 'a word) = unat v" if "unat v \<le> 2 ^ LENGTH('a) - 1"
  proof -
    have "unat v < 2 ^ LENGTH('a)" using that by (simp add: Nat.le_diff_conv2 less_eq_Suc_le)
    then show ?thesis by (simp add: unsigned_ucast_eq take_bit_nat_eq_self_iff)
  qed
  ultimately show ?thesis by (auto simp: narrow_unsigned_def Some word_unat_eq_iff)
qed

lemma narrow_signed_iff:
  "narrow_signed value = Some (w :: 'a::len word) \<longleftrightarrow> (\<exists>v. value = Some v \<and> sint v = sint w)"
proof (cases "value")
  case None
  then show ?thesis by (simp add: narrow_signed_def)
next
  case (Some v)
  have "- (2 ^ (LENGTH('a) - 1)) \<le> sint w \<and> sint w \<le> 2 ^ (LENGTH('a) - 1) - 1"
    using sint_ge [of w] sint_lt [of w] by simp
  moreover have "sint (scast v :: 'a word) = sint v"
    if "- (2 ^ (LENGTH('a) - 1)) \<le> sint v" "sint v \<le> 2 ^ (LENGTH('a) - 1) - 1"
    using that by (simp add: signed_scast_eq signed_take_bit_int_eq_self)
  ultimately show ?thesis by (auto simp: narrow_signed_def Some signed_word_eqI)
qed

theorem typed_values_exact:
  "(get_as_unsigned m i = Some (w :: 'a::len word) \<longleftrightarrow> (\<exists>v. get_unsigned m i = Some v \<and> unat v = unat w)) \<and>
   (get_as_signed m i = Some w \<longleftrightarrow> (\<exists>v. get_signed m i = Some v \<and> sint v = sint w)) \<and>
   (get_bit_as_unsigned m j = Some w \<longleftrightarrow> (\<exists>v. get_bit_unsigned m j = Some v \<and> unat v = unat w)) \<and>
   (get_bit_as_signed m j = Some w \<longleftrightarrow> (\<exists>v. get_bit_signed m j = Some v \<and> sint v = sint w))"
  by (simp add: get_as_unsigned_def get_as_signed_def get_bit_as_unsigned_def get_bit_as_signed_def
      narrow_unsigned_iff narrow_signed_iff)

subsection \<open>The fixed-width routines\<close>

lemma read_fixed_runtime:
  "1 \<le> width \<Longrightarrow> width \<le> 8 \<Longrightarrow> length bs = width \<Longrightarrow> read_fixed_scalar byte_order width bs = read_unsigned_scalar bs byte_order"
  by (simp add: read_fixed_scalar_def read_unsigned_scalar_def kMaxScalarWidthBytes_def)

lemma write_fixed_runtime:
  "1 \<le> width \<Longrightarrow> width \<le> 8 \<Longrightarrow> length dest = width \<Longrightarrow>
     write_fixed_scalar byte_order width dest value = write_unsigned_scalar (length dest) value byte_order"
  by (simp add: write_fixed_scalar_def write_unsigned_scalar_def kMaxScalarWidthBytes_def)

lemma float32_round_trip: "write_float32 byte_order dest value = Some bs \<Longrightarrow> read_float32 byte_order bs = Some value"
  using codec.rd_wr [of byte_order 4 "ucast value"] codec.wr_length [of byte_order 4 "ucast value"]
  by (auto simp: write_float32_def write_fixed_scalar_def read_float32_def read_fixed_scalar_def split: if_splits)
    (simp add: bit_eq_iff bit_simps)

lemma float64_round_trip: "write_float64 byte_order dest value = Some bs \<Longrightarrow> read_float64 byte_order bs = Some value"
proof -
  assume "write_float64 byte_order dest value = Some bs"
  then have "bs = write_unsigned_scalar_unchecked byte_order 8 value"
    by (simp add: write_float64_def write_fixed_scalar_def split: if_splits)
  then show ?thesis
    by (simp add: read_float64_def read_fixed_scalar_def codec.rd_wr codec.wr_length take_bit_word_eq_self)
qed

lemma xor8_fixed_loop_drop:
  "index + n \<le> length data \<Longrightarrow> xor8_fixed_loop n data index value = xor8_loop value (take n (drop index data))"
proof (induction n arbitrary: index "value")
  case (Suc n)
  then have "drop index data = data ! index # drop (index + 1) data" by (simp add: Cons_nth_drop_Suc)
  with Suc show ?case by simp
qed simp

lemma sum16_fixed_loop_drop:
  "index + n \<le> length data \<Longrightarrow> sum16_fixed_loop n data index acc = sum16_loop acc (take n (drop index data))"
proof (induction n arbitrary: index acc)
  case (Suc n)
  then have "drop index data = data ! index # drop (index + 1) data" by (simp add: Cons_nth_drop_Suc)
  with Suc show ?case by simp
qed simp

lemma fixed_checksums:
  "n \<le> length data \<Longrightarrow> ucast (checksum_xor8_fixed n data) = checksum_xor8 (take n data)"
  "n \<le> length data \<Longrightarrow> ucast (checksum_sum16_fixed n data) = checksum_sum16 (take n data)"
  by (simp_all add: checksum_xor8_fixed_def checksum_xor8_def checksum_sum16_fixed_def checksum_sum16_def
      xor8_fixed_loop_drop sum16_fixed_loop_drop)

end
