(* ===== verification/End_To_End.thy ===== *)
theory End_To_End
  imports Schema_Properties Encoder_Roundtrip Transport_Properties
begin

text \<open>
  The parts composed: from the text of a schema to the values a receiver reads. Both sides load the same text and compile
  it, the sender fills messages and sends them through a frame channel, and the receiver takes the frames from another
  transport and decodes them. The layouts and values are those of the round trip of \<open>Encoder_Roundtrip\<close>.
\<close>

text \<open>A frame that the contiguous builder made from a layout and values: the setters and \<open>finalize\<close> succeeded.\<close>

definition message_written :: "simd_ops \<Rightarrow> compiled_message \<Rightarrow> field_write list \<Rightarrow> bytes \<Rightarrow> bool" where
  "message_written ops layout ws frame \<longleftrightarrow>
     (\<exists>buffer b b'. length buffer < 2 ^ 63 \<and> mb_run ws (new_message_builder layout buffer) = (ES_Ok, b) \<and>
        mb_finalize ops b = (ES_Ok, b') \<and> frame = mb_view b')"

text \<open>What the receiver makes of a poll: the frame is ready, it decodes, and the accessors return what was set.\<close>

definition message_read ::
  "simd_ops \<Rightarrow> compiled_protocol \<Rightarrow> compiled_message \<times> field_write list \<times> bytes \<Rightarrow> frame_channel_poll_result \<times> bytes option \<Rightarrow> bool" where
  "message_read ops p sent received \<longleftrightarrow>
     (case sent of (layout, ws, frame) \<Rightarrow>
        fp_status (fst received) = FCS_FrameReady \<and> snd received = Some frame \<and>
        (\<exists>m. decode_as_layout ops p layout frame = Inr m \<and> list_all (reads_back layout m) ws))"

lemma written_decodes:
  assumes "protocol_wf p" and "layout \<in> set (cp_messages p)" and "alignments_fit layout" and "encodable_layout layout"
    and "checksums_fit ops layout" and "values_consistent ops layout ws" and "message_written ops layout ws frame"
  shows "\<exists>m. decode_as_layout ops p layout frame = Inr m \<and> list_all (reads_back layout m) ws"
  using assms(7) encoded_decodes [OF assms(1-6)] by (auto simp: message_written_def)

lemma all_read:
  assumes "protocol_wf p"
    and "\<forall>(layout, ws, frame) \<in> set messages. layout \<in> set (cp_messages p) \<and> alignments_fit layout \<and> encodable_layout layout \<and>
      checksums_fit ops layout \<and> values_consistent ops layout ws \<and> message_written ops layout ws frame"
    and "map snd rs = map (\<lambda>(layout, ws, frame). Some frame) messages" and "\<forall>x \<in> set rs. fp_status (fst x) = FCS_FrameReady"
  shows "list_all2 (message_read ops p) messages rs"
  using assms(2-4)
proof (induction messages arbitrary: rs)
  case Nil
  then show ?case by simp
next
  case (Cons msg messages)
  obtain layout ws frame where msg: "msg = (layout, ws, frame)" by (cases msg)
  obtain r rs' where rs: "rs = r # rs'" using Cons.prems(2) by (cases rs) auto
  have "message_read ops p msg r"
    using written_decodes [OF assms(1), of layout ops ws frame] Cons.prems by (simp add: message_read_def msg rs)
  with Cons.IH [of rs'] Cons.prems show ?case by (simp add: rs)
qed

text \<open>C1: From the text of a schema to the values that are read. Every schema the language expresses is loaded from its text
  as it is. When it compiles, take messages with layouts the round trip holds for (\<open>encodable_layout\<close>: no nested, conditional or
  optional fields and none with an alignment, expected values on scalars, reserved fields of fixed-size bytes, floats of their
  width, checksums that avoid their own and later checksum fields; \<open>checksums_fit\<close>: checksums of their declared width), values
  that fit their fields and agree with the fields that give their sizes and with expected values (\<open>values_consistent\<close>), and frames
  that the builder made from them. Sent through a frame channel over a transport of which every write
  takes some bytes (\<open>willing_sink\<close>), and received by a channel that reads these bytes from a stream transport of which every
  read brings some bytes or the end (\<open>prompt_source\<close>), they arrive in order, however the two transports split the stream, and decode to messages whose
  accessors return the values the setters were given.\<close>

theorem schema_text_to_values:
  assumes "expressible_protocol d" and "registry_ok registry" and "definition_sized d" and "compile_protocol registry d = Inr p"
    and written: "\<forall>(layout, ws, frame) \<in> set messages. layout \<in> set (cp_messages p) \<and> alignments_fit layout \<and> encodable_layout layout \<and>
      checksums_fit ops layout \<and> values_consistent ops layout ws \<and> message_written ops layout ws frame"
    and sink: "willing_sink sender_ops sink ready" and source: "prompt_source (bs_read receiver_ops) pending"
    and streams: "\<forall>t. \<not> has_capability (bs_capabilities receiver_ops t) TC_PreservesFrameBoundaries"
    and fit: "frames_fit options (map (\<lambda>(layout, ws, frame). frame) messages)" and "ready s"
    and fuel: "\<forall>(layout, ws, frame) \<in> set messages. fo_prefix_width_bytes options + length frame < fuel"
  shows "load_protocol_definition_from_upr (schema_text d) = Some (Inr d) \<and>
    (\<exists>sender. send_frames fuel sender_ops (map (\<lambda>(layout, ws, frame). frame) messages) (new_frame_channel s options) =
        Some (SC_Ok, sender) \<and>
      (\<forall>r fuel'. pending r = drop (length (sink s)) (sink (fc_transport sender)) \<longrightarrow> length (pending r) < fuel' \<longrightarrow>
        (\<exists>rs receiver. receive_frames fuel' receiver_ops (length messages) (new_frame_channel r options) = Some (rs, receiver) \<and>
          list_all2 (message_read ops p) messages rs)))"
proof
  show "load_protocol_definition_from_upr (schema_text d) = Some (Inr d)"
    using load_upr_reads [OF assms(1), of True] by (simp add: load_protocol_definition_from_upr_def)
  let ?frames = "map (\<lambda>(layout, ws, frame). frame) messages"
  have "\<forall>frame \<in> set ?frames. fo_prefix_width_bytes options + length frame < fuel" using fuel by auto
  from frames_received [OF sink source streams fit assms(10) this] obtain sender
    where sent: "send_frames fuel sender_ops ?frames (new_frame_channel s options) = Some (SC_Ok, sender)"
      and received: "\<forall>r fuel'. pending r = drop (length (sink s)) (sink (fc_transport sender)) \<longrightarrow> length (pending r) < fuel' \<longrightarrow>
        (\<exists>rs receiver. receive_frames fuel' receiver_ops (length ?frames) (new_frame_channel r options) = Some (rs, receiver) \<and>
          map snd rs = map Some ?frames \<and> (\<forall>x \<in> set rs. fp_status (fst x) = FCS_FrameReady) \<and>
          receive_stream pending receiver = [])"
    by (elim exE conjE)
  note wf = compile_protocol_protocol_wf [OF assms(4,2,3)]
  have "\<exists>rs receiver. receive_frames fuel' receiver_ops (length messages) (new_frame_channel r options) = Some (rs, receiver) \<and>
      list_all2 (message_read ops p) messages rs"
    if "pending r = drop (length (sink s)) (sink (fc_transport sender))" and "length (pending r) < fuel'" for r fuel'
  proof -
    from received that obtain rs receiver
      where rs: "receive_frames fuel' receiver_ops (length ?frames) (new_frame_channel r options) = Some (rs, receiver)"
        "map snd rs = map Some ?frames" "\<forall>x \<in> set rs. fp_status (fst x) = FCS_FrameReady" by blast
    have "map snd rs = map (\<lambda>(layout, ws, frame). Some frame) messages" using rs(2) by (simp add: comp_def case_prod_unfold)
    from all_read [OF wf written this rs(3)] rs(1) show ?thesis by auto
  qed
  with sent show "\<exists>sender. send_frames fuel sender_ops ?frames (new_frame_channel s options) = Some (SC_Ok, sender) \<and>
      (\<forall>r fuel'. pending r = drop (length (sink s)) (sink (fc_transport sender)) \<longrightarrow> length (pending r) < fuel' \<longrightarrow>
        (\<exists>rs receiver. receive_frames fuel' receiver_ops (length messages) (new_frame_channel r options) = Some (rs, receiver) \<and>
          list_all2 (message_read ops p) messages rs))"
    by blast
qed

subsection \<open>An instance\<close>

lemma wire_expressible: "expressible_protocol wire_protocol"
  by (simp add: expressible_protocol_def wire_protocol_def wire_message_def demo_field_def expressible_field_def
      field_in_range_def canonical_field_def typed_field_def default_field_definition_def Let_def scalar_width_def
      identifier_text_def is_identifier_start_def is_identifier_part_def is_alpha_def is_digit_def char_between_def)

lemma wire_written: "\<exists>frame. length frame \<le> 12 \<and> message_written plain_ops wire_layout wire_writes frame"
proof -
  obtain b b' where b: "mb_run wire_writes (new_message_builder wire_layout (replicate 12 0)) = (ES_Ok, b)"
    "mb_finalize plain_ops b = (ES_Ok, b')"
    using wire_encodes by blast
  have "message_written plain_ops wire_layout wire_writes (mb_view b')"
    unfolding message_written_def using b by (auto intro!: exI [of _ "replicate 12 0"])
  moreover have "length (mb_view b') \<le> 12"
    using encoded_size [OF b wire_layout_wf] by simp
  ultimately show ?thesis by blast
qed

lemma schema_text_to_values_witness:
  "load_protocol_definition_from_upr (schema_text wire_protocol) = Some (Inr wire_protocol) \<and>
   (\<exists>p frame sender rs receiver. compile_protocol builtin_registry wire_protocol = Inr p \<and>
      send_frames 17 (tcp_ops demo_kernel) [frame, frame] demo_channel = Some (SC_Ok, sender) \<and>
      receive_frames (Suc (length (tcp_sent do_outbox (fc_transport sender)))) (tcp_ops demo_kernel) 2
        (new_frame_channel (\<lparr>do_inbox = (\<lambda>fd. tcp_sent do_outbox (fc_transport sender)), do_outbox = (\<lambda>fd. [])\<rparr>,
           \<lparr>fh_fd = 3, fh_open = True, fh_own = True\<rparr>) default_frame_channel_options) = Some (rs, receiver) \<and>
      list_all2 (message_read plain_ops p) [(wire_layout, wire_writes, frame), (wire_layout, wire_writes, frame)] rs)"
proof -
  obtain p where p: "compile_protocol builtin_registry wire_protocol = Inr p" "cp_messages p = [wire_layout]"
    using wire_compiles by blast
  obtain frame where frame: "length frame \<le> 12" "message_written plain_ops wire_layout wire_writes frame"
    using wire_written by blast
  let ?messages = "[(wire_layout, wire_writes, frame), (wire_layout, wire_writes, frame)]"
  let ?s = "(\<lparr>do_inbox = (\<lambda>fd. []), do_outbox = (\<lambda>fd. [])\<rparr>, \<lparr>fh_fd = 3, fh_open = True, fh_own = True\<rparr>) :: demo_os \<times> fd_handle"
  have src: "prompt_source (bs_read (tcp_ops demo_kernel)) (tcp_pending do_inbox)"
    using tcp_demo_source.prompt_source_axioms by (simp add: tcp_ops_def)
  have str: "\<forall>t. \<not> has_capability (bs_capabilities (tcp_ops demo_kernel) t) TC_PreservesFrameBoundaries"
    by (simp add: tcp_ops_def tcp_streams)
  have fit: "frames_fit default_frame_channel_options (map (\<lambda>(layout, ws, frame). frame) ?messages)"
    using frame(1) by (simp add: frames_fit_def default_frame_channel_options_def)
  have fuel: "\<forall>(layout, ws, frame) \<in> set ?messages. fo_prefix_width_bytes default_frame_channel_options + length frame < 17"
    using frame(1) by (simp add: default_frame_channel_options_def)
  have written: "\<forall>(layout, ws, frame) \<in> set ?messages. layout \<in> set (cp_messages p) \<and> alignments_fit layout \<and>
      encodable_layout layout \<and> checksums_fit plain_ops layout \<and> values_consistent plain_ops layout ws \<and>
      message_written plain_ops layout ws frame"
    using p(2) frame(2) wire_layout_wf(2) wire_encodable wire_checksums_fit wire_values by simp
  have ready: "handle_is_open (snd ?s)" by (simp add: handle_is_open_def)
  from schema_text_to_values [OF wire_expressible builtin_registry_ok wire_sized p(1) written
      tcp_demo_sink.willing_sink_axioms src str fit ready fuel]
  obtain sender where loaded: "load_protocol_definition_from_upr (schema_text wire_protocol) = Some (Inr wire_protocol)"
    and sent: "send_frames 17 (tcp_ops demo_kernel) [frame, frame] demo_channel = Some (SC_Ok, sender)"
    and received: "\<And>r fuel'. tcp_pending do_inbox r = tcp_sent do_outbox (fc_transport sender) \<Longrightarrow> length (tcp_pending do_inbox r) < fuel' \<Longrightarrow>
      \<exists>rs receiver. receive_frames fuel' (tcp_ops demo_kernel) (length ?messages) (new_frame_channel r default_frame_channel_options) =
        Some (rs, receiver) \<and> list_all2 (message_read plain_ops p) ?messages rs"
    by (auto simp: demo_channel_def tcp_sent_def)
  let ?r = "(\<lparr>do_inbox = (\<lambda>fd. tcp_sent do_outbox (fc_transport sender)), do_outbox = (\<lambda>fd. [])\<rparr>,
      \<lparr>fh_fd = 3, fh_open = True, fh_own = True\<rparr>) :: demo_os \<times> fd_handle"
  have "tcp_pending do_inbox ?r = tcp_sent do_outbox (fc_transport sender)" by (simp add: tcp_pending_def handle_is_open_def)
  with received [of ?r "Suc (length (tcp_sent do_outbox (fc_transport sender)))"] p(1) loaded sent show ?thesis
    by (simp add: numeral_2_eq_2) blast
qed

end
