(* ===== verification/Spec2Isabelle.thy ===== *)
theory Spec2Isabelle
  imports Text_Validation Message_Access Segmented_Equivalence Session_Handshake Shm_Ring_Properties Discovery_Compiled
    Schema_Properties Uring_Properties Workbench_Properties Codegen_Names_Properties Codegen_Layout_Properties
    Posix_Ownership Direct_Access End_To_End
begin

text \<open>
  A verification development for the Universal Protocol Runtime, a C++ library that reads descriptions of binary protocols
  (\<open>upr_authoring\<close>), compiles them to layouts (\<open>upr_compiler\<close>), decodes and encodes messages by these layouts and
  frames streams (\<open>upr_runtime\<close>), moves frames between processes (\<open>upr_adapters\<close>), infers protocols from captured
  frames (\<open>upr_discovery\<close>), generates bindings (\<open>upr_codegen\<close>) and shows protocols as a page (\<open>upr_workbench\<close>). Paths below
  are relative to \<open>src/packages\<close>. The definitions keep the names of the functions they model.

  \<^bold>\<open>How the parts interact.\<close> The text of a schema becomes tokens (\<open>tokenize\<close>), a \<open>protocol_definition\<close> (\<open>parse_upr\<close> or
  \<open>load_yaml\<close>), with its imports merged (\<open>resolve_schema\<close>), and by \<open>compile_protocol\<close> a \<open>compiled_protocol\<close>: messages and
  structs with field tables, dispatch prefixes and checksums from a registry. The decoder walks the field table over
  a frame and keeps extents and scalars in a \<open>decoded_message\<close>, from which the accessors read. The encoders fill a buffer or a
  list of segments by the same table. \<open>poll\<close> of the stream runtime reads a transport into a ring buffer, lets a framer find
  the next frame and decodes it. \<open>FrameChannel\<close> sends and receives length-prefixed frames over a byte stream, which is
  a socket, an io_uring engine or a ring in shared memory; \<open>UprSession\<close> exchanges a handshake over it.

  \<^bold>\<open>Foundations.\<close> \<open>Prelude\<close>: machine types (\<open>u8\<close> to \<open>u64\<close> are words, \<open>size_t\<close> values are naturals with the wrap-around written out,
  \<open>wrap_size\<close>), spans, hints. \<open>Core_Types\<close>: \<open>upr_core\<close>, \<open>utils/status.hpp\<close>, \<open>pdl/protocol_definition.hpp\<close>. \<open>Byte_Ops\<close>: scalar reads
  and writes at every width and byte order, sign extension; the interface of a codec is a locale, and the round trip
  and injectivity of the wire format are its facts. \<open>Text_Validation\<close>: ASCII and UTF-8; the UTF-8 automaton accepts
  exactly the shortest-form encodings of scalar values. \<open>Checksums\<close>: CRCs by table equal the bit-serial ones, the vector loops equal
  the scalar ones, and the registry. \<open>Xx_Hash64\<close>: the streaming hasher refines XXH64 for every split of a message; published digests
  fix the constants that code and specification share.
  \<open>Schema_Fingerprint\<close>: the fingerprint hashes one byte string.

  \<^bold>\<open>Schema compiler\<close> (\<open>upr_compiler/src/compiler\<close>). \<open>Compiled_Protocol\<close>: the compiled records, name indexes, dispatch table.
  \<open>Schema_Compiler\<close>: every check of \<open>schema_compiler.cpp\<close>, an error being a value of \<open>compile_error\<close> with one constructor for each
  cause. \<open>Compiler_Invariants\<close>, \<open>Compiler_Properties\<close>: a compiled protocol is well formed (\<open>protocol_wf\<close>), which is what decoder,
  encoder and code generator assume; the recursion through structs ends.

  \<^bold>\<open>Decoder\<close> (\<open>upr_runtime/src/decoder\<close>). \<open>Decoder\<close>: the field loop of \<open>assign_from_layout\<close>. \<open>Decoder_Spec\<close>: a declarative
  specification of a decoded message, with which the loop agrees. \<open>Message_Access\<close>: accessors, collections, plans, masks,
  \<open>decode_any\<close>. \<open>Direct_Access\<close>: typed getters and the fixed-width routines of the headers. \<open>Decoder_Properties\<close>: refinement,
  extents, values of accessors, termination, masks.

  \<^bold>\<open>Encoders\<close> (\<open>upr_runtime/src/encoder\<close>). \<open>Encoder\<close>, \<open>Segmented_Encoder\<close>: the two builders. \<open>Encoder_Invariants\<close>,
  \<open>Encoder_Content\<close>, \<open>Encoder_Properties\<close>: they stay in the buffer, and what they write. \<open>Encoder_Roundtrip\<close>: a finalized message decodes to
  the values that were set, for layouts without nested, conditional, optional or aligned fields (\<open>encodable_layout\<close>) and values
  that fit them; with an aligned field it need not (\<open>padded_not_read\<close>). \<open>Segmented_Equivalence\<close>: the segmented builder runs in lockstep with the contiguous one.

  \<^bold>\<open>Streams.\<close> \<open>Framing\<close>: the framers; the contract of a framer is a locale interpreted on both. \<open>Ring_Buffer\<close>: a bounded queue of
  bytes. \<open>Stream_Runtime\<close>, \<open>Stream_Properties\<close>: the polling loop loses and repeats no byte, and delivers all frames of a source.

  \<^bold>\<open>Transports\<close> (\<open>upr_adapters/src/adapters\<close>). \<open>Frame_Channel\<close> and its properties: \<open>frame_channel.cpp\<close> over the interface \<open>byte_stream_ops\<close>.
  \<open>Posix_Transport\<close>, \<open>Posix_Servers\<close>: the TCP, Unix, socket and file transports, listeners, socket pairs, devices.
  \<open>Transport_Properties\<close>: the bytes on the wire, errors, channel and runtime composed. \<open>Posix_Ownership\<close>: programs over these classes
  neither leak a descriptor nor close one twice when the options say that transports own them; otherwise one can leak. \<open>Uring_Engine\<close>, \<open>Uring_Properties\<close>: \<open>io_uring_reactor.cpp\<close> and
  \<open>pluggable_stream_engine.cpp\<close>; without zero-copy sends and without waits after the end of the stream the engine answers as the TCP
  transport, for the timeouts the ring finds in the storage of a variable whose block has ended; with zero-copy sends it does not.
  \<open>Session_Handshake\<close>: \<open>upr_session.cpp\<close>. \<open>Shm_Ring\<close>, \<open>Shm_Ring_Properties\<close>: \<open>local_shm_ring_transport.cpp\<close>, two processes
  interleaved at every access to shared memory as a step relation: a bounded queue of frames, no lost wake-up.

  \<^bold>\<open>Composition.\<close> \<open>End_To_End\<close>: from the text of a schema over compiler, encoder, channel and decoder to the values a receiver
  reads, for the messages of the round trip. \<open>Transport_Properties\<close> composes channel and stream runtime, \<open>Discovery_Compiled\<close> discovery, compiler and decoder.

  \<^bold>\<open>Schema languages\<close> (\<open>upr_authoring/src/pdl/yaml_loader.cpp\<close>). \<open>Schema_Lexer\<close>, \<open>Schema_Parser\<close>: the UPR language. \<open>Schema_Text\<close>: a
  printer, which is specification only; \<open>Schema_Reading\<close>, \<open>Schema_Roundtrip\<close>: printed schemas are loaded as they were.
  \<open>Schema_Bounds\<close>: what is loaded fits its members. \<open>Schema_Lexer_Properties\<close>: when the lexer returns. \<open>Schema_Yaml\<close>: the YAML
  branch. \<open>Schema_Import\<close>, \<open>Schema_Import_Properties\<close>: imports are the reachable files, each after what it imports.
  \<open>Schema_Properties\<close> states the results with their instances.

  \<^bold>\<open>Tools.\<close> \<open>Protocol_Discovery\<close>, \<open>Discovery_Properties\<close>, \<open>Discovery_Compiled\<close>: \<open>protocol_discovery.cpp\<close>; a draft compiles, and
  every sample decodes with it. \<open>Codegen_Names\<close>, \<open>Codegen_Layout\<close> and their properties: the names, literals, struct order and offsets that
  the generators of \<open>upr_codegen/src/codegen\<close> put into code; literals of non-ASCII texts denote other texts in Python and
  TypeScript. \<open>Workbench_Html\<close>, \<open>Workbench_Properties\<close>: \<open>html_workbench.cpp\<close>; a
  browser reads from a page the items it shows and no other markup.

  \<^bold>\<open>Fuel and loops.\<close> Decoder and compiler recurse through structs with the number of structs as fuel; a well-formed protocol
  is acyclic, so it is never exhausted (\<open>decoding_terminates\<close>, \<open>compile_protocol_terminates\<close>). The loops that repeat a
  call after \<open>EINTR\<close> have the number of signals that are still to come. \<open>poll\<close> has the capacity of the ring and two: each
  turn but two consumes a byte. Waiting loops of a channel have fuel, and the theorems say for which transports they return.
  The import resolver has one more than the number of files, which is enough when the parse of each file returns
  (\<open>resolver_returns\<close>). The lexer and the loop
  that waits for completions are partial functions of the option type: not to return is \<open>None\<close>.

  \<^bold>\<open>Parameters.\<close> Code that is not in the repository is an argument: the vector routines and simdutf (\<open>simd_ops\<close>, which are assumed
  to compute what they document), checksum functions a client registers, the nodes of the YAML library (\<open>yaml\<close>), the file
  system (\<open>file_system\<close>), the system calls (\<open>posix\<close>, \<open>posix_net\<close>) and liburing (\<open>uring\<close>). What is assumed of a kernel is
  a named predicate (\<open>descriptor_table\<close>, \<open>ring_serves\<close>), with a concrete kernel that satisfies it.

  \<^bold>\<open>Left out of the models.\<close> The texts of \<open>Status\<close> messages other than those of the schema loader, and the source
  locations of schema elements; floating-point values are their bit patterns; allocation does not fail.

  \<^bold>\<open>Not modelled.\<close> The rendering of C++, Python and TypeScript modules (\<open>upr_codegen\<close>, the \<open>append_\<close> functions and
  \<open>generate_bindings_main.cpp\<close>): they append lines of text whose meaning is that of another language; the decisions they take and
  the names and literals they insert are modelled. The YAML library behind its nodes. Tests, benchmarks and examples.
\<close>

end
